(* ===== verification/Prelude.thy ===== *)
theory Prelude
  imports Main "HOL-Library.Word" "HOL-Library.Monad_Syntax"
begin

unbundle bit_operations_syntax

text \<open>
  Shared vocabulary of the development: the machine types of the sources, characters read as
  bytes, fixed-size buffers whose out-of-range writes are errors, and the generic lemmas on
  lists and words that the component theories use.
\<close>

section \<open>Machine types\<close>

type_synonym u8 = "8 word"
type_synonym u32 = "32 word"
type_synonym u64 = "64 word"
type_synonym c_int = "32 word"   \<comment> \<open>\<open>int\<close>, read with \<^const>\<open>sint\<close>\<close>
type_synonym c_i64 = "64 word"   \<comment> \<open>\<open>int64_t\<close>, read with \<^const>\<open>sint\<close>\<close>

named_theorems byte_simps \<open>conversions between characters and bytes\<close>
named_theorems buf_simps \<open>writes into fixed-size buffers\<close>
named_theorems cstr_simps \<open>scans of C strings\<close>

section \<open>Characters as bytes\<close>

text \<open>The code of a character, \<open>static_cast<unsigned char>(c)\<close> as a number and as a byte.\<close>

abbreviation code :: "char \<Rightarrow> nat" where
  "code c \<equiv> of_char c"

definition byte :: "char \<Rightarrow> u8" where
  "byte c = of_nat (code c)"

definition chr_of :: "u8 \<Rightarrow> char" where
  "chr_of b = char_of (unat b)"

text \<open>The value of a (signed) \<open>char\<close> after integer promotion, as on x86.\<close>

definition schar :: "char \<Rightarrow> int" where
  "schar c = (let n = int (code c) in if n < 128 then n else n - 256)"

lemma of_char_less_256 [simp]: "code c < 256"
  by (metis char_of_mod_256 mod_less_divisor nat_of_char_less_256)

lemma unat_byte [simp]: "unat (byte c) = of_char c"
  by (simp add: byte_def unat_of_nat)

lemma chr_of_byte [simp, byte_simps]: "chr_of (byte c) = c"
  by (simp add: chr_of_def)

lemma byte_chr_of [simp, byte_simps]: "byte (chr_of b) = b"
proof -
  have "unat b < 256" using unsigned_less [of b, where ?'a = nat] by simp
  then show ?thesis by (simp add: byte_def chr_of_def)
qed

lemma byte_inj [simp]: "byte c = byte d \<longleftrightarrow> c = d"
  by (metis chr_of_byte)

lemma unat_byte_less: "unat (byte c) < 256"
  by simp

lemma schar_between:
  assumes "hi < 128"
  shows "int lo \<le> schar c \<and> schar c \<le> int hi \<longleftrightarrow> lo \<le> code c \<and> code c \<le> hi"
proof (cases "code c < 128")
  case True
  then show ?thesis by (simp add: schar_def)
next
  case False
  have "int (code c) < int 256" unfolding of_nat_less_iff by (rule of_char_less_256)
  with False have "schar c < 0" by (simp add: schar_def)
  with False assms show ?thesis by linarith
qed

text \<open>The terminator of a C string.\<close>

abbreviation NUL :: char where
  "NUL \<equiv> CHR 0x00"

abbreviation CR :: char where
  "CR \<equiv> CHR 0x0D"

abbreviation LF :: char where
  "LF \<equiv> CHR 0x0A"

section \<open>Buffers\<close>

text \<open>
  \<open>p[k] = v\<close> on a buffer of fixed size; \<^const>\<open>None\<close> is the out-of-bounds write, which the
  language leaves undefined.
\<close>

definition buf_put :: "'a list \<Rightarrow> nat \<Rightarrow> 'a \<Rightarrow> 'a list option" where
  "buf_put b k v = (if k < length b then Some (b[k := v]) else None)"

lemma buf_put_Some [buf_simps]: "k < length b \<Longrightarrow> buf_put b k v = Some (b[k := v])"
  by (simp add: buf_put_def)

lemma buf_put_None [buf_simps]: "length b \<le> k \<Longrightarrow> buf_put b k v = None"
  by (simp add: buf_put_def)

lemma buf_put_length: "buf_put b k v = Some b' \<Longrightarrow> length b' = length b"
  by (auto simp: buf_put_def split: if_splits)

lemma buf_put_at_end [buf_simps]:
  "length xs = k \<Longrightarrow> buf_put (xs @ y # ys) k v = Some (xs @ v # ys)"
  by (auto simp: buf_put_def)

text \<open>\<open>std::string::resize\<close>: truncate, or extend with NUL characters.\<close>

definition str_resize :: "string \<Rightarrow> nat \<Rightarrow> string" where
  "str_resize s n = take n s @ replicate (n - length s) NUL"

lemma length_str_resize [simp]: "length (str_resize s n) = n"
  by (simp add: str_resize_def)

text \<open>A buffer from which a prefix of \<open>n\<close> cells is still to be written.\<close>

lemma list_split_Cons: "n < length xs \<Longrightarrow> drop n xs = xs ! n # drop (Suc n) xs"
  by (simp add: Cons_nth_drop_Suc)

lemma less_Suc_length_conv: "Suc n \<le> length xs \<longleftrightarrow> (\<exists>y ys. xs = y # ys \<and> n \<le> length ys)"
  by (cases xs) auto

section \<open>Lists\<close>

lemma takeWhile_all: "(\<forall>x\<in>set xs. P x) \<Longrightarrow> takeWhile P xs = xs"
  by simp

lemma takeWhile_append_stop:
  "(\<And>x. x \<in> set xs \<Longrightarrow> P x) \<Longrightarrow> \<not> P y \<Longrightarrow> takeWhile P (xs @ y # ys) = xs"
  by (simp add: takeWhile_append2)

lemma dropWhile_append_stop:
  "(\<And>x. x \<in> set xs \<Longrightarrow> P x) \<Longrightarrow> \<not> P y \<Longrightarrow> dropWhile P (xs @ y # ys) = y # ys"
  by (simp add: dropWhile_append2)


section \<open>Codecs\<close>

text \<open>
  The contract of an encoder and its decoder: what is decodable comes back. Every codec of the
  sources (Base64, hexadecimal, message-id, URI) is an interpretation.
\<close>

locale codec =
  fixes enc :: "'a \<Rightarrow> 'b"
    and dec :: "'b \<Rightarrow> 'a option"
    and valid :: "'a \<Rightarrow> bool"
  assumes dec_enc: "valid x \<Longrightarrow> dec (enc x) = Some x"
begin

lemma enc_inj: "valid x \<Longrightarrow> valid y \<Longrightarrow> enc x = enc y \<longleftrightarrow> x = y"
  by (metis dec_enc option.inject)

lemma enc_inj_on: "inj_on enc {x. valid x}"
  by (rule inj_onI) (simp add: enc_inj)

lemma dec_all_enc: "list_all valid xs \<Longrightarrow> map (dec \<circ> enc) xs = map Some xs"
  by (induction xs) (simp_all add: dec_enc)

end

section \<open>First in, first out\<close>

text \<open>
  The contract of a queue seen through its contents, for the callback lists, the request queues and
  the connection queues. A client that enqueues and dequeues in any order gets, in order, what was there
  first and then what it put in.
\<close>

datatype 'a fifo_op = Enq 'a | Deq

fun enqs :: "'a fifo_op list \<Rightarrow> 'a list" where
  "enqs [] = []"
| "enqs (Enq x # ops) = x # enqs ops"
| "enqs (Deq # ops) = enqs ops"

fun fifo_run :: "('a \<Rightarrow> 's \<Rightarrow> 's) \<Rightarrow> ('s \<Rightarrow> ('a \<times> 's) option) \<Rightarrow> 'a fifo_op list \<Rightarrow> 's \<Rightarrow> 'a list \<times> 's" where
  "fifo_run enq deq [] s = ([], s)"
| "fifo_run enq deq (Enq x # ops) s = fifo_run enq deq ops (enq x s)"
| "fifo_run enq deq (Deq # ops) s =
     (case deq s of None \<Rightarrow> fifo_run enq deq ops s
      | Some (x, s') \<Rightarrow> (let (out, s'') = fifo_run enq deq ops s' in (x # out, s'')))"

locale fifo =
  fixes enq :: "'a \<Rightarrow> 's \<Rightarrow> 's"
    and deq :: "'s \<Rightarrow> ('a \<times> 's) option"
    and items :: "'s \<Rightarrow> 'a list"
    and ok :: "'s \<Rightarrow> bool"
  assumes enq_items: "ok s \<Longrightarrow> items (enq x s) = items s @ [x] \<and> ok (enq x s)"
    and deq_empty: "ok s \<Longrightarrow> items s = [] \<Longrightarrow> deq s = None"
    and deq_first: "ok s \<Longrightarrow> items s = x # xs \<Longrightarrow> \<exists>s'. deq s = Some (x, s') \<and> items s' = xs \<and> ok s'"
begin

lemma deq_None_iff: "ok s \<Longrightarrow> deq s = None \<longleftrightarrow> items s = []"
  using deq_empty deq_first by (cases "items s") fastforce+

lemma deq_SomeD: "ok s \<Longrightarrow> deq s = Some (x, s') \<Longrightarrow> items s = x # items s' \<and> ok s'"
  using deq_empty deq_first by (cases "items s") fastforce+

lemma run_conserves:
  "ok s \<Longrightarrow> fifo_run enq deq ops s = (out, s') \<Longrightarrow> items s @ enqs ops = out @ items s' \<and> ok s'"
proof (induction ops arbitrary: s out)
  case (Cons op ops)
  show ?case
  proof (cases op)
    case (Enq x)
    then show ?thesis using Cons enq_items [of s x] by fastforce
  next
    case Deq
    then show ?thesis
      using Cons deq_None_iff [of s] deq_SomeD [of s] by (fastforce split: option.splits prod.splits)
  qed
qed simp

end

end
