(* ===== verification/CText.thy ===== *)
theory CText
  imports Prelude
begin

unbundle bit_operations_syntax

text \<open>
  C strings and numbers in text. A \<open>const char*\<close> that only moves forward is modelled by the
  characters from it to the terminator, a null pointer by \<^const>\<open>None\<close>; the difference of two
  pointers into one string is the difference of the lengths. The scanning helpers are those of
  \<^verbatim>\<open>src/remainFile/src/Incommon.h\<close>; \<open>sprintf\<close>, \<open>atoi\<close> and \<open>strtoul\<close> are the conversions of
  the C library the record files rely on.
\<close>

section \<open>Scanning (remainFile/src/Incommon.h)\<close>

type_synonym c_ptr = "string option"

text \<open>The C string that a \<open>std::string\<close> shows through \<open>c_str()\<close>.\<close>

definition c_str :: "string \<Rightarrow> string" where
  "c_str s = takeWhile (\<lambda>c. c \<noteq> NUL) s"

definition ptr_char :: "string \<Rightarrow> char" where
  "ptr_char p = (case p of [] \<Rightarrow> NUL | c # _ \<Rightarrow> c)"

fun strIntLen_loop :: "string \<Rightarrow> nat \<Rightarrow> nat" where
  "strIntLen_loop [] len = len"
| "strIntLen_loop (_ # str) len = strIntLen_loop str (len + 1)"

definition strIntLen :: "c_ptr \<Rightarrow> nat" where
  "strIntLen str = (case str of None \<Rightarrow> 0 | Some s \<Rightarrow> strIntLen_loop s 0)"

fun strFristChar_loop :: "string \<Rightarrow> char \<Rightarrow> c_ptr" where
  "strFristChar_loop [] c = None"
| "strFristChar_loop (x # p) c = (if x = c then Some (x # p) else strFristChar_loop p c)"

definition strFristConstChar :: "c_ptr \<Rightarrow> char \<Rightarrow> c_ptr" where
  "strFristConstChar str c = (case str of None \<Rightarrow> None | Some p \<Rightarrow> strFristChar_loop p c)"

definition strFristChar :: "c_ptr \<Rightarrow> char \<Rightarrow> c_ptr" where
  "strFristChar str c = (case str of None \<Rightarrow> None | Some p \<Rightarrow> strFristChar_loop p c)"

fun endConstCharStr :: "string \<Rightarrow> string" where
  "endConstCharStr [] = []"
| "endConstCharStr (_ # p) = endConstCharStr p"

text \<open>The inner \<open>for\<close>: how many characters of \<open>q\<close> match at \<open>p_for\<close>.\<close>

fun match_count :: "string \<Rightarrow> string \<Rightarrow> nat" where
  "match_count (x # p_for) (y # q) = (if x = y then Suc (match_count p_for q) else 0)"
| "match_count _ _ = 0"

text \<open>The \<open>do \<dots> while(1)\<close> loop from the pointer \<open>p\<close> on.\<close>

lemma c_str_clean: "NUL \<notin> set s \<Longrightarrow> c_str s = s"
  unfolding c_str_def by (rule takeWhile_all) auto

lemma strFristChar_loop_length: "strFristChar_loop p c = Some p' \<Longrightarrow> length p' \<le> length p \<and> p' \<noteq> []"
  by (induction p) (auto split: if_splits)

function strFirstStr_loop :: "string \<Rightarrow> string \<Rightarrow> c_ptr" where
  "strFirstStr_loop p tar =
     (case strFristConstChar (Some p) (ptr_char tar) of
        None \<Rightarrow> None
      | Some p' \<Rightarrow>
          if strIntLen (Some tar) > strIntLen (Some p') then None
          else if match_count p' tar = strIntLen (Some tar) then Some p'
          else strFirstStr_loop (tl p') tar)"
  by pat_completeness auto
termination
  by (relation "measure (\<lambda>(p, tar). length p)")
    (auto simp: strFristConstChar_def dest!: strFristChar_loop_length simp flip: length_greater_0_conv)

declare strFirstStr_loop.simps [simp del]

definition strFirstConstStr :: "c_ptr \<Rightarrow> string \<Rightarrow> c_ptr" where
  "strFirstConstStr str tar =
     (case str of None \<Rightarrow> None
      | Some p \<Rightarrow> if strIntLen (Some tar) > strIntLen (Some p) then None else strFirstStr_loop p tar)"

text \<open>Reference: the first suffix that starts with the given text.\<close>

fun find_sub :: "string \<Rightarrow> string \<Rightarrow> c_ptr" where
  "find_sub [] tar = (if tar = [] then Some [] else None)"
| "find_sub (x # p) tar = (if take (length tar) (x # p) = tar then Some (x # p) else find_sub p tar)"

subsection \<open>Lemmas\<close>

lemma strIntLen_loop: "strIntLen_loop s n = n + length s"
  by (induction s arbitrary: n) auto

lemma strIntLen_Some [simp]: "strIntLen (Some s) = length s"
  by (simp add: strIntLen_def strIntLen_loop)

lemma strFristConstChar_Some [simp, cstr_simps]: "strFristConstChar (Some p) c = strFristChar_loop p c"
  by (simp add: strFristConstChar_def)

lemma strFristChar_loop_append [simp, cstr_simps]:
  "c \<notin> set xs \<Longrightarrow> strFristChar_loop (xs @ c # ys) c = Some (c # ys)"
  by (induction xs) auto

lemma strFristChar_loop_None_iff [simp]: "strFristChar_loop p c = None \<longleftrightarrow> c \<notin> set p"
  by (induction p) auto

lemma strFristChar_loop_dropWhile:
  "strFristChar_loop p c = (if c \<in> set p then Some (dropWhile (\<lambda>x. x \<noteq> c) p) else None)"
  by (induction p) auto

lemma match_count_iff: "length tar \<le> length p \<Longrightarrow> match_count p tar = length tar \<longleftrightarrow> take (length tar) p = tar"
  by (induction p tar rule: match_count.induct) auto

lemma find_sub_skip:
  "tar \<noteq> [] \<Longrightarrow> hd tar \<notin> set xs \<Longrightarrow> find_sub (xs @ p) tar = find_sub p tar"
  by (induction xs) (cases tar; auto)+

lemma find_sub_short: "length p < length tar \<Longrightarrow> find_sub p tar = None"
  by (induction p) auto

lemma find_sub_char: "tar \<noteq> [] \<Longrightarrow> hd tar \<notin> set p \<Longrightarrow> find_sub p tar = None"
  using find_sub_skip [of tar p "[]"] by simp

lemma strFirstStr_loop_ref: "tar \<noteq> [] \<Longrightarrow> strFirstStr_loop p tar = find_sub p tar"
proof (induction p tar rule: strFirstStr_loop.induct)
  case (1 p tar)
  have h: "ptr_char tar = hd tar" using 1 by (cases tar) (auto simp: ptr_char_def)
  show ?case
  proof (cases "hd tar \<in> set p")
    case False
    then have f: "strFristConstChar (Some p) (ptr_char tar) = None" using h by simp
    show ?thesis using "1.prems" False find_sub_char [of tar p]
      by (subst strFirstStr_loop.simps) (simp only: f option.case simp_thms)
  next
    case True
    then obtain xs ys where p: "p = xs @ hd tar # ys" and xs: "hd tar \<notin> set xs"
      by (meson split_list_first)
    have f: "strFristConstChar (Some p) (ptr_char tar) = Some (hd tar # ys)" using p xs h by simp
    have ref: "find_sub p tar = find_sub (hd tar # ys) tar" using p xs "1.prems" find_sub_skip by blast
    show ?thesis
      using "1.IH" [OF f] "1.prems" f ref find_sub_short [of "hd tar # ys" tar] match_count_iff [of tar "hd tar # ys"]
      by (subst strFirstStr_loop.simps) (auto simp del: strFristConstChar_Some)
  qed
qed

lemma strFirstConstStr_ref [cstr_simps]: "tar \<noteq> [] \<Longrightarrow> strFirstConstStr (Some p) tar = find_sub p tar"
  by (simp add: strFirstConstStr_def strFirstStr_loop_ref find_sub_short)


lemma find_sub_Some:
  "tar \<noteq> [] \<Longrightarrow> find_sub s tar = Some p \<Longrightarrow>
   \<exists>pre. s = pre @ p \<and> take (length tar) p = tar \<and> (\<forall>k < length pre. take (length tar) (drop k s) \<noteq> tar)"
proof (induction s)
  case (Cons x s)
  show ?case
  proof (cases "take (length tar) (x # s) = tar")
    case True
    with Cons.prems show ?thesis by (intro exI [of _ "[]"]) auto
  next
    case False
    with Cons obtain pre where "s = pre @ p" "take (length tar) p = tar"
      "\<forall>k < length pre. take (length tar) (drop k s) \<noteq> tar" by auto
    with False show ?thesis by (intro exI [of _ "x # pre"]) (auto simp: less_Suc_eq_0_disj)
  qed
qed auto

lemma find_sub_None: "tar \<noteq> [] \<Longrightarrow> find_sub s tar = None \<Longrightarrow> take (length tar) (drop k s) \<noteq> tar"
  by (induction s arbitrary: k) (auto simp: drop_Cons' split: if_splits)

text \<open>A text that does not contain the first character of \<open>tar\<close> before its first occurrence.\<close>

lemma find_sub_append: "tar \<noteq> [] \<Longrightarrow> hd tar \<notin> set xs \<Longrightarrow> find_sub (xs @ tar @ ys) tar = Some (tar @ ys)"
  by (subst find_sub_skip) (auto simp: neq_Nil_conv)

section \<open>Numbers in text\<close>

text \<open>Decimal digits, most significant first.\<close>

definition digit :: "nat \<Rightarrow> char" where
  "digit n = char_of (48 + n)"

fun show_nat :: "nat \<Rightarrow> string" where
  "show_nat n = (if n < 10 then [digit n] else show_nat (n div 10) @ [digit (n mod 10)])"

declare show_nat.simps [simp del]

text \<open>\<open>sprintf(buf, "%d", \<dots>)\<close> and \<open>sprintf(buf, "%ld", \<dots>)\<close>.\<close>

definition show_int :: "int \<Rightarrow> string" where
  "show_int i = (if i < 0 then CHR ''-'' # show_nat (nat (- i)) else show_nat (nat i))"

definition sprintf_d :: "c_int \<Rightarrow> string" where
  "sprintf_d v = show_int (sint v)"

definition sprintf_ld :: "c_i64 \<Rightarrow> string" where
  "sprintf_ld v = show_int (sint v)"

text \<open>
  \<open>strtol\<close> and \<open>strtoul\<close> in base 10: leading white space, an optional sign, digits up to the
  first other character; the result saturates (\<open>LONG_MIN\<close>, \<open>LONG_MAX\<close>, \<open>ULONG_MAX\<close>), and
  \<open>strtoul\<close> negates modulo \<open>2 ^ 64\<close>. \<open>atoi\<close> is \<open>(int) strtol\<close>.
\<close>

definition is_space :: "char \<Rightarrow> bool" where
  "is_space c \<longleftrightarrow> code c = 32 \<or> (9 \<le> code c \<and> code c \<le> 13)"

definition is_digit :: "char \<Rightarrow> bool" where
  "is_digit c \<longleftrightarrow> 48 \<le> code c \<and> code c \<le> 57"

fun read_digits :: "nat \<Rightarrow> string \<Rightarrow> nat" where
  "read_digits acc [] = acc"
| "read_digits acc (c # cs) = (if is_digit c then read_digits (acc * 10 + (code c - 48)) cs else acc)"

definition read_sign :: "string \<Rightarrow> bool \<times> string" where
  "read_sign s = (case dropWhile is_space s of
      c # cs \<Rightarrow> if c = CHR ''-'' then (True, cs) else if c = CHR ''+'' then (False, cs) else (False, c # cs)
    | [] \<Rightarrow> (False, []))"

definition strtol :: "string \<Rightarrow> int" where
  "strtol s = (case read_sign s of (neg, ds) \<Rightarrow>
     let v = int (read_digits 0 ds) in
     if neg then max (- (2 ^ 63)) (- v) else min (2 ^ 63 - 1) v)"

definition strtoul :: "string \<Rightarrow> u64" where
  "strtoul s = (case read_sign s of (neg, ds) \<Rightarrow>
     let v = read_digits 0 ds in
     if v \<ge> 2 ^ 64 then - 1 else if neg then - word_of_nat v else word_of_nat v)"

definition atoi :: "string \<Rightarrow> c_int" where
  "atoi s = word_of_int (strtol s)"

subsection \<open>Reading back what was printed\<close>

lemma is_digit_digit [simp]: "n < 10 \<Longrightarrow> is_digit (digit n)" "n < 10 \<Longrightarrow> code (digit n) - 48 = n"
  by (simp_all add: digit_def is_digit_def)

lemma show_nat_digits: "c \<in> set (show_nat n) \<Longrightarrow> is_digit c"
proof (induction n rule: show_nat.induct)
  case (1 n)
  then show ?case by (cases "n < 10") (auto simp: show_nat.simps [of n])
qed

lemma read_digits_append:
  "(\<And>c. c \<in> set xs \<Longrightarrow> is_digit c) \<Longrightarrow> read_digits acc (xs @ ys) = read_digits (read_digits acc xs) ys"
  by (induction xs arbitrary: acc) auto

lemma read_digits_show_nat: "read_digits 0 (show_nat n) = n"
proof (induction n rule: show_nat.induct)
  case (1 n)
  then show ?case
    by (cases "n < 10") (simp_all add: show_nat.simps [of n] read_digits_append show_nat_digits)
qed

lemma read_digits_stop: "rest = [] \<or> \<not> is_digit (hd rest) \<Longrightarrow> read_digits acc rest = acc"
  by (cases rest) auto

lemma read_show_nat:
  "rest = [] \<or> \<not> is_digit (hd rest) \<Longrightarrow> read_digits 0 (show_nat n @ rest) = n"
  by (simp add: read_digits_append show_nat_digits read_digits_show_nat read_digits_stop)

lemma show_nat_length: "n < 10 ^ Suc k \<Longrightarrow> length (show_nat n) \<le> Suc k"
proof (induction k arbitrary: n)
  case 0
  then show ?case by (subst show_nat.simps) simp
next
  case (Suc k)
  show ?case
  proof (cases "n < 10")
    case True
    then show ?thesis by (subst show_nat.simps) simp
  next
    case False
    then have "length (show_nat n) = Suc (length (show_nat (n div 10)))" by (subst show_nat.simps) simp
    moreover have "n div 10 < 10 ^ Suc k" using Suc.prems by (simp add: less_mult_imp_div_less mult.commute)
    ultimately show ?thesis using Suc.IH by simp
  qed
qed

lemma show_nat_nonempty [simp]: "show_nat n \<noteq> []"
  by (subst show_nat.simps) simp

lemma show_nat_head: "\<exists>c cs. show_nat n = c # cs \<and> is_digit c"
  using show_nat_nonempty [of n] show_nat_digits [of _ n] by (metis list.exhaust list.set_intros(1))

lemma is_digit_not: "is_digit c \<Longrightarrow> \<not> is_space c \<and> c \<noteq> CHR ''-'' \<and> c \<noteq> CHR ''+'' \<and> c \<noteq> CHR '',''
    \<and> c \<noteq> NUL \<and> c \<noteq> CR \<and> c \<noteq> LF"
  by (auto simp: is_digit_def is_space_def)

lemma read_sign_show_int: "read_sign (show_int i @ rest) = (i < 0, show_nat (nat \<bar>i\<bar>) @ rest)"
proof -
  obtain c cs where "show_nat (nat \<bar>i\<bar>) = c # cs" "is_digit c" using show_nat_head by blast
  then show ?thesis
    using is_digit_not [of c] by (auto simp: read_sign_def show_int_def is_space_def)
qed

lemma show_int_chars: "c \<in> set (show_int i) \<Longrightarrow> is_digit c \<or> c = CHR ''-''"
  by (auto simp: show_int_def show_nat_digits split: if_splits)

lemma show_int_clean: "{NUL, CHR '','', CR, LF} \<inter> set (show_int i) = {}"
  using show_int_chars [of _ i] is_digit_not by fastforce

lemma strtol_show_int:
  assumes "rest = [] \<or> \<not> is_digit (hd rest)" and "- (2 ^ 63) \<le> i" and "i < 2 ^ 63"
  shows "strtol (show_int i @ rest) = i"
  using assms by (auto simp: strtol_def Let_def read_sign_show_int read_show_nat)

lemma strtoul_show_int:
  assumes "rest = [] \<or> \<not> is_digit (hd rest)" and "- (2 ^ 63) \<le> i" and "i < 2 ^ 63"
  shows "strtoul (show_int i @ rest) = word_of_int i"
  using assms by (cases "i < 0") (auto simp: strtoul_def Let_def read_sign_show_int read_show_nat of_nat_nat)

lemma sint_bounds: "- (2 ^ 31) \<le> sint (v :: c_int)" "sint v < 2 ^ 31"
  "- (2 ^ 63) \<le> sint (w :: c_i64)" "sint w < 2 ^ 63"
  using sint_range_size [of v] sint_range_size [of w] by (simp_all add: word_size)

text \<open>The two field conversions of the record files: print a number, stop at the comma, read it back.\<close>

lemma atoi_sprintf_d: "rest = [] \<or> \<not> is_digit (hd rest) \<Longrightarrow> atoi (sprintf_d v @ rest) = v"
  using sint_bounds(1,2) [of v] by (simp add: atoi_def sprintf_d_def strtol_show_int)

lemma strtoul_sprintf_ld: "rest = [] \<or> \<not> is_digit (hd rest) \<Longrightarrow> strtoul (sprintf_ld v @ rest) = v"
  using sint_bounds(3,4) [of v] by (simp add: sprintf_ld_def strtoul_show_int)


section \<open>Message ids as bytes (remainFile/src/Incommon.h)\<close>

text \<open>\<open>(unsigned char)((j >> k) & 0xff)\<close>, with the arithmetic shift of \<open>int64_t\<close>.\<close>

definition msgid_byte :: "c_i64 \<Rightarrow> nat \<Rightarrow> u8" where
  "msgid_byte j k = ucast (signed_drop_bit k j AND 0xff)"

definition TranMsgIdI64ToChar :: "c_i64 \<Rightarrow> u8 list" where
  "TranMsgIdI64ToChar j =
     [msgid_byte j 56, msgid_byte j 48, msgid_byte j 40, msgid_byte j 32,
      msgid_byte j 24, msgid_byte j 16, msgid_byte j 8, ucast (j AND 0xff)]"

text \<open>\<open>None\<close> is the null pointer; fewer than eight bytes behind the pointer are an out-of-range read.\<close>

definition TranMsgIdCharToI64 :: "u8 list option \<Rightarrow> c_i64 option" where
  "TranMsgIdCharToI64 szMsgId =
     (case szMsgId of None \<Rightarrow> Some 0
      | Some p \<Rightarrow>
          if length p < 8 then None
          else Some (let j = push_bit 56 (ucast (p ! 0));
                         j = j + push_bit 48 (ucast (p ! 1));
                         j = j + push_bit 40 (ucast (p ! 2));
                         j = j + push_bit 32 (ucast (p ! 3));
                         j = j + push_bit 24 (ucast (p ! 4));
                         j = j + push_bit 16 (ucast (p ! 5));
                         j = j + push_bit 8 (ucast (p ! 6))
                     in j + ucast (p ! 7)))"

lemma msgid_byte_ucast: "k \<le> 56 \<Longrightarrow> (ucast (msgid_byte j k) :: c_i64) = take_bit 8 (drop_bit k j)"
proof -
  assume "k \<le> 56"
  have m: "(0xff :: c_i64) = mask 8" by (simp add: mask_eq_exp_minus_1)
  show ?thesis
    unfolding msgid_byte_def m using \<open>k \<le> 56\<close>
    by (intro bit_word_eqI) (auto simp: bit_simps min_def)
qed

lemma low_byte_ucast: "(ucast (ucast (j AND 0xff) :: u8) :: c_i64) = take_bit 8 j"
  using msgid_byte_ucast [of 0 j] by (simp add: msgid_byte_def)

lemma take_bit_next: "take_bit (n + 8) (j :: c_i64) = push_bit n (take_bit 8 (drop_bit n j)) + take_bit n j"
proof -
  have "take_bit (n + 8) j = push_bit n (drop_bit n (take_bit (n + 8) j)) + take_bit n (take_bit (n + 8) j)"
    by (rule bits_ident [symmetric])
  then show ?thesis by (simp add: drop_bit_take_bit)
qed

lemma msgid_bytes_sum:
  "TranMsgIdCharToI64 (Some (TranMsgIdI64ToChar j)) = Some j"
proof -
  let ?b = "\<lambda>k. push_bit k (take_bit 8 (drop_bit k j))"
  have "take_bit 64 j = j" by (rule take_bit_word_eq_self) simp
  then have "j = ?b 56 + ?b 48 + ?b 40 + ?b 32 + ?b 24 + ?b 16 + ?b 8 + take_bit 8 j"
    using take_bit_next [of 8 j] take_bit_next [of 16 j] take_bit_next [of 24 j] take_bit_next [of 32 j]
      take_bit_next [of 40 j] take_bit_next [of 48 j] take_bit_next [of 56 j]
    by (simp add: algebra_simps)
  moreover have "TranMsgIdCharToI64 (Some (TranMsgIdI64ToChar j))
      = Some (?b 56 + ?b 48 + ?b 40 + ?b 32 + ?b 24 + ?b 16 + ?b 8 + take_bit 8 j)"
    unfolding TranMsgIdCharToI64_def TranMsgIdI64ToChar_def
    by (simp add: Let_def msgid_byte_ucast low_byte_ucast)
  ultimately show ?thesis by metis
qed

interpretation msgid: codec TranMsgIdI64ToChar "\<lambda>p. TranMsgIdCharToI64 (Some p)" "\<lambda>_. True"
  by unfold_locales (rule msgid_bytes_sum)

lemma msgid_onto:
  assumes "length p = 8"
  shows "p \<in> range TranMsgIdI64ToChar"
proof -
  let ?L = "{xs :: u8 list. set xs \<subseteq> UNIV \<and> length xs = 8}"
  have sub: "range TranMsgIdI64ToChar \<subseteq> ?L" by (auto simp: TranMsgIdI64ToChar_def)
  have fin: "finite ?L" by (rule finite_lists_length_eq) simp
  have "inj TranMsgIdI64ToChar" using msgid.enc_inj_on by simp
  then have "card (range TranMsgIdI64ToChar) = CARD(c_i64)" by (rule card_image)
  also have "\<dots> = card ?L" by (subst card_lists_length_eq) (simp_all add: card_word)
  finally have "range TranMsgIdI64ToChar = ?L" using card_subset_eq [OF fin sub] by simp
  with assms show ?thesis by auto
qed

section \<open>Properties\<close>

text \<open>\<open>strFirstConstStr\<close> finds the first occurrence: for a non-empty target, the result is NULL
  exactly when the target starts at no position of the text, and otherwise it is the suffix that starts
  with the target at the smallest such position.\<close>

theorem strFirstConstStr_first:
  assumes "tar \<noteq> []"
  shows "case strFirstConstStr (Some s) tar of
        None \<Rightarrow> (\<forall>k. take (length tar) (drop k s) \<noteq> tar)
      | Some p \<Rightarrow> (\<exists>pre. s = pre @ p \<and> take (length tar) p = tar \<and>
          (\<forall>k < length pre. take (length tar) (drop k s) \<noteq> tar))"
  using find_sub_Some [OF assms] find_sub_None [OF assms] assms
  by (simp add: strFirstConstStr_ref split: option.split)

theorem strFirstConstStr_first_witness:
  "case strFirstConstStr (Some ''aabab'') ''ab'' of
        None \<Rightarrow> (\<forall>k. take (length ''ab'') (drop k ''aabab'') \<noteq> ''ab'')
      | Some p \<Rightarrow> (\<exists>pre. ''aabab'' = pre @ p \<and> take (length ''ab'') p = ''ab'' \<and>
          (\<forall>k < length pre. take (length ''ab'') (drop k ''aabab'') \<noteq> ''ab''))"
  using strFirstConstStr_first [of "''ab''" "''aabab''"] by (simp only: list.distinct not_False_eq_True)

text \<open>The two message-id conversions are inverse bijections: every 64-bit id becomes eight bytes that
  convert back to it (negative ids included, where the shift is arithmetic), every block of eight bytes is the
  image of the id it converts to, and the null pointer converts to 0.\<close>

theorem msgid_bijection:
  "TranMsgIdCharToI64 (Some (TranMsgIdI64ToChar j)) = Some j \<and> length (TranMsgIdI64ToChar j) = 8 \<and>
   (length p = 8 \<longrightarrow> (\<exists>i. TranMsgIdCharToI64 (Some p) = Some i \<and> TranMsgIdI64ToChar i = p)) \<and>
   TranMsgIdCharToI64 None = Some 0"
proof -
  have "\<exists>i. TranMsgIdCharToI64 (Some p) = Some i \<and> TranMsgIdI64ToChar i = p" if "length p = 8"
    using msgid_onto [OF that] by (auto simp: msgid_bytes_sum)
  moreover have "length (TranMsgIdI64ToChar j) = 8" by (simp add: TranMsgIdI64ToChar_def)
  moreover have "TranMsgIdCharToI64 None = Some 0" by (simp add: TranMsgIdCharToI64_def)
  ultimately show ?thesis by (simp add: msgid_bytes_sum)
qed

theorem msgid_bijection_witness:
  "\<exists>i. TranMsgIdCharToI64 (Some [255, 0, 0, 0, 0, 0, 0, 1]) = Some i \<and> TranMsgIdI64ToChar i = [255, 0, 0, 0, 0, 0, 0, 1]"
  using msgid_bijection [of 0 "[255, 0, 0, 0, 0, 0, 0, 1]"] by simp

end
