(* ===== verification/Base64.thy ===== *)
theory Base64
  imports Prelude
begin

unbundle bit_operations_syntax

text \<open>
  The Base64 codec of \<^verbatim>\<open>src/common/Base64.cpp\<close> (copied verbatim into
  \<^verbatim>\<open>src/remainFile/src/Base64.cpp\<close>). The two loops are translated with their indices, their
  write pointer and the destination buffer, whose out-of-bounds writes are errors; they are then
  shown to compute a list-level reference codec, and the reference codec to round-trip.
\<close>

section \<open>The sources\<close>

definition base64Code :: string where
  "base64Code = ''ABCDEFGHIJKLMNOPQRSTUVWXYZabcdefghijklmnopqrstuvwxyz0123456789+/''"

definition Base2Chr :: "u8 \<Rightarrow> char" where
  "Base2Chr n0 =
     (let n = n0 AND 0x3F in
      if n < 26 then chr_of (n + byte CHR ''A'')
      else if n < 52 then chr_of (n - 26 + byte CHR ''a'')
      else if n < 62 then chr_of (n - 52 + byte CHR ''0'')
      else if n = 62 then CHR ''+''
      else CHR ''/'')"

definition Chr2Base :: "char \<Rightarrow> u8" where
  "Chr2Base c =
     (if schar c \<ge> schar CHR ''A'' \<and> schar c \<le> schar CHR ''Z'' then byte c - byte CHR ''A''
      else if schar c \<ge> schar CHR ''a'' \<and> schar c \<le> schar CHR ''z'' then byte c - byte CHR ''a'' + 26
      else if schar c \<ge> schar CHR ''0'' \<and> schar c \<le> schar CHR ''9'' then byte c - byte CHR ''0'' + 52
      else if c = CHR ''+'' then 62
      else if c = CHR ''/'' then 63
      else 64)"

definition Base64EncodeLen :: "nat \<Rightarrow> nat" where
  "Base64EncodeLen n = (n + 2) div 3 * 4 + 1"

definition Base64DecodeLen :: "nat \<Rightarrow> nat" where
  "Base64DecodeLen n = n div 4 * 3 + 2"

text \<open>
  The body of the encoding loop: the 24-bit group \<open>c\<close> that starts at index \<open>i\<close>, where a byte
  past the end contributes nothing, and its four characters with the padding of the last group.
\<close>

definition enc_group :: "string \<Rightarrow> nat \<Rightarrow> u32" where
  "enc_group src i =
     (let c = (of_nat (code (src ! i)) :: u32) * 256;
          c = (if i + 1 < length src then c + of_nat (code (src ! (i + 1))) else c) * 256
      in if i + 2 < length src then c + of_nat (code (src ! (i + 2))) else c)"

definition enc_char :: "u32 \<Rightarrow> u32 \<Rightarrow> nat \<Rightarrow> char" where
  "enc_char c bits shift = base64Code ! unat (drop_bit shift (c AND bits))"

text \<open>
  The loop of \<open>Encode\<close>: \<open>i\<close> is the read index, \<open>p\<close> the write index into \<open>dst\<close>. It returns the
  final write index and the buffer.
\<close>

function enc_loop :: "string \<Rightarrow> nat \<Rightarrow> nat \<Rightarrow> string \<Rightarrow> (nat \<times> string) option" where
  "enc_loop src i p dst =
     (if i < length src then
        (let c = enc_group src i; i' = i + 3 in do {
           dst \<leftarrow> buf_put dst p (enc_char c 0x00fc0000 18);
           dst \<leftarrow> buf_put dst (p + 1) (enc_char c 0x0003f000 12);
           dst \<leftarrow> buf_put dst (p + 2) (enc_char c 0x00000fc0 6);
           dst \<leftarrow> buf_put dst (p + 3) (enc_char c 0x0000003f 0);
           dst \<leftarrow> (if i' > length src then buf_put dst (p + 3) CHR ''='' else Some dst);
           dst \<leftarrow> (if i' > length src + 1 then buf_put dst (p + 2) CHR ''='' else Some dst);
           enc_loop src i' (p + 4) dst })
      else Some (p, dst))"
  by pat_completeness auto
termination
  by (relation "measure (\<lambda>(src, i, p, dst). length src - i)") auto

declare enc_loop.simps [simp del]

text \<open>
  \<open>Encode\<close>: \<open>dst\<close> is \<^const>\<open>None\<close> for a null pointer. The result is the returned flag and the
  new contents of \<open>*dst\<close>; the outer \<^const>\<open>None\<close> is an out-of-bounds write.
\<close>

definition Encode :: "string \<Rightarrow> string option \<Rightarrow> (bool \<times> string option) option" where
  "Encode src dst =
     (if length src = 0 \<or> dst = None then Some (False, dst)
      else do {
        (p, buf) \<leftarrow> enc_loop src 0 0 (str_resize (the dst) (Base64EncodeLen (length src)));
        buf \<leftarrow> buf_put buf p NUL;
        Some (True, Some (take p buf)) })"

text \<open>
  The loop of \<open>Decode\<close>: \<open>t\<close> carries the bits left over from the previous character. The error
  result \<^term>\<open>DecInvalid\<close> is the \<open>return false\<close> on an invalid character (with the bytes written so
  far already in the resized \<open>*dst\<close>).
\<close>

datatype dec_result = DecInvalid string | DecDone nat string

function dec_loop :: "string \<Rightarrow> nat \<Rightarrow> nat \<Rightarrow> u8 \<Rightarrow> string \<Rightarrow> dec_result option" where
  "dec_loop src i p t dst =
     (if i < length src then
        (if src ! i = CHR ''='' then Some (DecDone p dst)
         else
           (let c = (if src ! i \<noteq> NUL then Chr2Base (src ! i) else 65) in
            if c = 64 then Some (DecInvalid dst)
            else if c = 65 then Some (DecDone p dst)
            else if i mod 4 = 0 then dec_loop src (i + 1) p (push_bit 2 c) dst
            else if i mod 4 = 1 then do {
              dst \<leftarrow> buf_put dst p (chr_of (t OR drop_bit 4 c));
              dec_loop src (i + 1) (p + 1) (push_bit 4 c) dst }
            else if i mod 4 = 2 then do {
              dst \<leftarrow> buf_put dst p (chr_of (t OR drop_bit 2 c));
              dec_loop src (i + 1) (p + 1) (push_bit 6 c) dst }
            else do {
              dst \<leftarrow> buf_put dst p (chr_of (t OR c));
              dec_loop src (i + 1) (p + 1) t dst }))
      else Some (DecDone p dst))"
  by pat_completeness auto
termination
  by (relation "measure (\<lambda>(src, i, p, t, dst). length src - i)") auto

declare dec_loop.simps [simp del]

definition Decode :: "string \<Rightarrow> string option \<Rightarrow> (bool \<times> string option) option" where
  "Decode src dst =
     (if length src = 0 \<or> dst = None then Some (False, dst)
      else do {
        r \<leftarrow> dec_loop src 0 0 0 (str_resize (the dst) (Base64DecodeLen (length src)));
        (case r of DecInvalid buf \<Rightarrow> Some (False, Some buf)
                 | DecDone p buf \<Rightarrow> Some (True, Some (take p buf))) })"


section \<open>Reference codec\<close>

text \<open>Base64 on lists: three bytes make four six-bit digits.\<close>

fun b64_digits :: "nat \<Rightarrow> nat \<Rightarrow> nat \<Rightarrow> string" where
  "b64_digits a b c =
     [base64Code ! (a div 4), base64Code ! (a mod 4 * 16 + b div 16),
      base64Code ! (b mod 16 * 4 + c div 64), base64Code ! (c mod 64)]"

fun b64_enc :: "string \<Rightarrow> string" where
  "b64_enc [] = []"
| "b64_enc [a] = take 2 (b64_digits (code a) 0 0) @ ''==''"
| "b64_enc [a, b] = take 3 (b64_digits (code a) (code b) 0) @ ''=''"
| "b64_enc (a # b # c # xs) = b64_digits (code a) (code b) (code c) @ b64_enc xs"

text \<open>
  Decoding as a pass over the characters: the phase (the character's index mod 4), the pending
  bits, the text. The flag tells whether every character before the end marker was valid.
\<close>

fun b64_dec :: "nat \<Rightarrow> u8 \<Rightarrow> string \<Rightarrow> bool \<times> string" where
  "b64_dec ph t [] = (True, [])"
| "b64_dec ph t (x # xs) =
     (if x = CHR ''='' \<or> x = NUL then (True, [])
      else let c = Chr2Base x in
        if c = 64 then (False, [])
        else if ph = 0 then b64_dec 1 (push_bit 2 c) xs
        else if ph = 1 then apsnd ((#) (chr_of (t OR drop_bit 4 c))) (b64_dec 2 (push_bit 4 c) xs)
        else if ph = 2 then apsnd ((#) (chr_of (t OR drop_bit 2 c))) (b64_dec 3 (push_bit 6 c) xs)
        else apsnd ((#) (chr_of (t OR c))) (b64_dec 0 t xs))"

section \<open>The alphabet\<close>

lemma length_base64Code [simp]: "length base64Code = 64"
  by (simp add: base64Code_def)

lemma upt_64: "[0..<64] = 0 # 1 # [2..<64]"
  by (simp add: upt_conv_Cons numeral_2_eq_2)

lemma Chr2Base_table: "map Chr2Base base64Code = map word_of_nat [0..<64]"
  unfolding upt_64 by (simp add: base64Code_def Chr2Base_def schar_def byte_def upt_rec_numeral)

lemma Base2Chr_table: "map Base2Chr (map word_of_nat [0..<64]) = base64Code"
  unfolding upt_64 by (simp add: base64Code_def Base2Chr_def chr_of_def byte_def upt_rec_numeral char_of_def bit_Suc_0_iff)

lemma code_special_table: "set base64Code \<inter> {CHR ''='', NUL, CHR '','', CR, LF} = {}"
  by (simp add: base64Code_def)

lemma Chr2Base_code: "k < 64 \<Longrightarrow> Chr2Base (base64Code ! k) = word_of_nat k"
  using arg_cong [OF Chr2Base_table, of "\<lambda>xs. xs ! k"] by simp

lemma Base2Chr_code: "k < 64 \<Longrightarrow> Base2Chr (word_of_nat k) = base64Code ! k"
  using arg_cong [OF Base2Chr_table, of "\<lambda>xs. xs ! k"] by simp

lemma code_not_special:
  assumes "k < 64"
  shows "base64Code ! k \<noteq> CHR ''=''" "base64Code ! k \<noteq> NUL"
    "base64Code ! k \<noteq> CHR '',''" "base64Code ! k \<noteq> CR" "base64Code ! k \<noteq> LF"
proof -
  have "base64Code ! k \<in> set base64Code" using assms by simp
  then show "base64Code ! k \<noteq> CHR ''=''" "base64Code ! k \<noteq> NUL"
    "base64Code ! k \<noteq> CHR '',''" "base64Code ! k \<noteq> CR" "base64Code ! k \<noteq> LF"
    using code_special_table by (metis IntI empty_iff insert_iff)+
qed

lemma byte_shift:
  "k \<le> code c \<Longrightarrow> code c - k \<le> d \<Longrightarrow> d + m \<le> 64 \<Longrightarrow>
   \<exists>v\<le>64. byte c - word_of_nat k + word_of_nat m = (word_of_nat v :: u8)"
  by (rule exI [of _ "code c - k + m"]) (simp add: byte_def of_nat_diff)

lemma Chr2Base_alt:
  "Chr2Base c =
     (if 65 \<le> code c \<and> code c \<le> 90 then byte c - 65
      else if 97 \<le> code c \<and> code c \<le> 122 then byte c - 97 + 26
      else if 48 \<le> code c \<and> code c \<le> 57 then byte c - 48 + 52
      else if c = CHR ''+'' then 62 else if c = CHR ''/'' then 63 else 64)"
proof -
  have lit: "schar CHR ''A'' = int 65" "schar CHR ''Z'' = int 90" "schar CHR ''a'' = int 97"
    "schar CHR ''z'' = int 122" "schar CHR ''0'' = int 48" "schar CHR ''9'' = int 57"
    "byte CHR ''A'' = 65" "byte CHR ''a'' = 97" "byte CHR ''0'' = 48"
    by (simp_all add: schar_def byte_def)
  have lt: "90 < (128::nat)" "122 < (128::nat)" "57 < (128::nat)" by simp_all
  show ?thesis
    unfolding Chr2Base_def lit schar_between [OF lt(1)] schar_between [OF lt(2)] schar_between [OF lt(3)] ..
qed

lemma Chr2Base_val: "\<exists>v\<le>64. Chr2Base c = word_of_nat v"
proof -
  have lit: "\<exists>v\<le>64. (w :: u8) = word_of_nat v" if "w \<in> {62, 63, 64}" for w
    using that by (auto intro: exI [of _ 62] exI [of _ 63] exI [of _ 64])
  have up: "65 \<le> code c \<Longrightarrow> code c \<le> 90 \<Longrightarrow> \<exists>v\<le>64. byte c - 65 = word_of_nat v"
    and lo: "97 \<le> code c \<Longrightarrow> code c \<le> 122 \<Longrightarrow> \<exists>v\<le>64. byte c - 97 + 26 = word_of_nat v"
    and dig: "48 \<le> code c \<Longrightarrow> code c \<le> 57 \<Longrightarrow> \<exists>v\<le>64. byte c - 48 + 52 = word_of_nat v"
    using byte_shift [of 65 c 25 0] byte_shift [of 97 c 25 26] byte_shift [of 48 c 9 52] by simp_all
  show ?thesis
    unfolding Chr2Base_alt using up lo dig by (simp only: lit insertI1 insertI2 split: if_split) simp
qed

lemma Chr2Base_not_65: "Chr2Base c \<noteq> 65"
proof
  assume "Chr2Base c = 65"
  with Chr2Base_val [of c] obtain v where "v \<le> 64" "(word_of_nat v :: u8) = word_of_nat 65" by auto
  then have "unat (word_of_nat v :: u8) = unat (word_of_nat 65 :: u8)" by simp
  with \<open>v \<le> 64\<close> show False by (simp add: unat_of_nat del: of_nat_numeral)
qed

section \<open>Encoding\<close>

lemma unat_and_63: "unat ((w :: u32) AND 63) = unat w mod 64"
proof -
  have "w AND 63 = take_bit 6 w"
    by (simp add: take_bit_eq_mask mask_eq_exp_minus_1)
  moreover have "unat (take_bit 6 w) = take_bit 6 (unat w)"
    by (simp only: unsigned_take_bit_eq)
  ultimately show ?thesis
    by (simp only: take_bit_eq_mod) simp
qed

lemma unat_shift: "unat (drop_bit n (w :: u32)) = unat w div 2 ^ n"
  unfolding unat_drop_bit_eq by (simp only: drop_bit_eq_div)

lemma unat_shifts:
  "unat (drop_bit 18 (w :: u32)) = unat w div 262144"
  "unat (drop_bit 12 (w :: u32)) = unat w div 4096"
  "unat (drop_bit 6 (w :: u32)) = unat w div 64"
  unfolding unat_shift by simp_all

lemma masked_shift:
  "drop_bit 18 (c AND 0x00fc0000) = drop_bit 18 c AND (63 :: u32)"
  "drop_bit 12 (c AND 0x0003f000) = drop_bit 12 c AND (63 :: u32)"
  "drop_bit 6 (c AND 0x00000fc0) = drop_bit 6 c AND (63 :: u32)"
  by (simp_all only: drop_bit_and) simp_all

lemma enc_char_nat:
  "enc_char c 0x00fc0000 18 = base64Code ! (unat c div 262144 mod 64)"
  "enc_char c 0x0003f000 12 = base64Code ! (unat c div 4096 mod 64)"
  "enc_char c 0x00000fc0 6 = base64Code ! (unat c div 64 mod 64)"
  "enc_char c 0x0000003f 0 = base64Code ! (unat c mod 64)"
  by (simp_all only: enc_char_def masked_shift unat_and_63 unat_shifts drop_bit_0 id_apply)

lemma unat_group3:
  assumes "a < 256" "b < 256" "c < 256"
  shows "unat ((word_of_nat a * 256 + word_of_nat b) * 256 + word_of_nat c :: u32) = (a * 256 + b) * 256 + c"
proof -
  have "((word_of_nat a * 256 + word_of_nat b) * 256 + word_of_nat c :: u32) = word_of_nat ((a * 256 + b) * 256 + c)"
    by simp
  moreover have "(a * 256 + b) * 256 + c < 2 ^ 32"
    using assms by simp
  ultimately show ?thesis
    by (simp add: unat_of_nat del: of_nat_add of_nat_mult of_nat_numeral)
qed


lemma of_char_bounds: "code c div 4 < 64" "code c mod 4 * 16 + code d div 16 < 64"
  "code c mod 16 * 4 + code d div 64 < 64"
  using of_char_less_256 [of c] of_char_less_256 [of d] by linarith+

lemma digit_extract: "x = (h * 64 + q) * m + r \<Longrightarrow> r < m \<Longrightarrow> q < 64 \<Longrightarrow> x div m mod 64 = (q::nat)"
  by simp

lemma group_digits:
  fixes a b c :: nat
  assumes "a < 256" "b < 256" "c < 256"
  shows "((a * 256 + b) * 256 + c) div 262144 mod 64 = a div 4" (is "?x div _ mod _ = _")
    "((a * 256 + b) * 256 + c) div 4096 mod 64 = a mod 4 * 16 + b div 16"
    "((a * 256 + b) * 256 + c) div 64 mod 64 = b mod 16 * 4 + c div 64"
    "((a * 256 + b) * 256 + c) mod 64 = c mod 64"
proof -
  define a1 a0 b1 b0 c1 c0 where "a1 = a div 4" and "a0 = a mod 4" and "b1 = b div 16"
    and "b0 = b mod 16" and "c1 = c div 64" and "c0 = c mod 64"
  note defs = this
  have eq: "a = 4 * a1 + a0" "b = 16 * b1 + b0" "c = 64 * c1 + c0" by (simp_all add: defs)
  have lt: "a0 < 4" "b0 < 16" "c0 < 64" "a1 < 64" "b1 < 16" "c1 < 4"
    using assms by (simp_all add: defs)
  have "?x div 262144 mod 64 = a1"
    by (rule digit_extract [where h = 0 and r = "a0 * 65536 + b * 256 + c"]) (use eq lt assms in simp)+
  then show "?x div 262144 mod 64 = a div 4" by (simp add: defs)
  have "?x div 4096 mod 64 = a0 * 16 + b1"
    by (rule digit_extract [where h = a1 and r = "b0 * 256 + c"]) (use eq lt assms in simp)+
  then show "?x div 4096 mod 64 = a mod 4 * 16 + b div 16" by (simp add: defs)
  have "?x div 64 mod 64 = b0 * 4 + c1"
    by (rule digit_extract [where h = "a * 16 + b1" and r = c0]) (use eq lt assms in simp)+
  then show "?x div 64 mod 64 = b mod 16 * 4 + c div 64" by (simp add: defs)
  show "?x mod 64 = c mod 64"
    using mod_mult_self3 [of "(a * 256 + b) * 4" 64 c] by (simp add: algebra_simps)
qed

lemma enc_chars_group:
  assumes "a < 256" "b < 256" "c < 256"
    and "w = (word_of_nat a * 256 + word_of_nat b) * 256 + word_of_nat c"
  shows "[enc_char w 0x00fc0000 18, enc_char w 0x0003f000 12, enc_char w 0x00000fc0 6, enc_char w 0x0000003f 0]
    = b64_digits a b c"
  using assms by (simp only: enc_char_nat unat_group3 group_digits b64_digits.simps)


lemma four: "4 = Suc (Suc (Suc (Suc 0)))"
  by simp

lemma buf_put4:
  assumes "4 \<le> length room"
  shows "do { b \<leftarrow> buf_put (pre @ room) (length pre) w; b \<leftarrow> buf_put b (length pre + 1) x;
      b \<leftarrow> buf_put b (length pre + 2) y; b \<leftarrow> buf_put b (length pre + 3) z; f b }
    = f (pre @ [w, x, y, z] @ drop 4 room)"
proof -
  obtain r0 r1 r2 r3 rs where room: "room = r0 # r1 # r2 # r3 # rs"
    using assms by (auto simp: numeral_eq_Suc Suc_le_length_iff)
  show ?thesis
    by (simp add: room buf_put_def list_update_append nth_Cons' split: nat.split)
qed

lemma buf_put_in_group:
  assumes "k < length g"
  shows "buf_put (pre @ g @ rs) (length pre + k) v = Some (pre @ g[k := v] @ rs)"
  using assms by (simp add: buf_put_def list_update_append)

lemma length_b64_enc: "length (b64_enc xs) = (length xs + 2) div 3 * 4"
proof (induction xs rule: b64_enc.induct)
  case (4 a b c xs)
  have "(length (a # b # c # xs) + 2) div 3 = Suc ((length xs + 2) div 3)" by simp
  with 4 show ?case by simp
qed auto

text \<open>The four characters one iteration leaves in the buffer.\<close>

definition enc_out :: "string \<Rightarrow> nat \<Rightarrow> string" where
  "enc_out src i =
     (let c = enc_group src i;
          g = [enc_char c 0x00fc0000 18, enc_char c 0x0003f000 12, enc_char c 0x00000fc0 6, enc_char c 0x0000003f 0];
          g = (if i + 3 > length src then g[3 := CHR ''=''] else g)
      in if i + 3 > length src + 1 then g[2 := CHR ''=''] else g)"

lemma length_enc_out [simp]: "length (enc_out src i) = 4"
  by (simp add: enc_out_def Let_def)

lemma enc_loop_step:
  assumes "i < length src" and "4 \<le> length room"
  shows "enc_loop src i (length out) (out @ room)
    = enc_loop src (i + 3) (length (out @ enc_out src i)) ((out @ enc_out src i) @ drop (length (enc_out src i)) room)"
proof -
  have put: "buf_put (out @ [w, x, y, z] @ rs) (length out + 3) v = Some (out @ [w, x, y, v] @ rs)"
    "buf_put (out @ [w, x, y, z] @ rs) (length out + 2) v = Some (out @ [w, x, v, z] @ rs)" for w x y z v rs
    using buf_put_in_group [of 3 "[w, x, y, z]" out rs v] buf_put_in_group [of 2 "[w, x, y, z]" out rs v]
    by simp_all
  show ?thesis
    using assms
    by (subst enc_loop.simps) (simp only: Let_def buf_put4 put enc_out_def length_append append_assoc
      list.size bind.bind_lunit if_True split: if_split, simp add: four)
qed

lemma enc_out_ref:
  "enc_out (pre @ [a]) (length pre) = b64_enc [a]"
  "enc_out (pre @ [a, b]) (length pre) = b64_enc [a, b]"
  "enc_out (pre @ a # b # c # xs) (length pre) = b64_digits (code a) (code b) (code c)"
  using enc_chars_group [of "code a" 0 0] enc_chars_group [of "code a" "code b" 0]
    enc_chars_group [of "code a" "code b" "code c"]
  by (simp_all add: enc_out_def enc_group_def nth_append)

lemma enc_loop_done: "length src \<le> i \<Longrightarrow> enc_loop src i p dst = Some (p, dst)"
  by (subst enc_loop.simps) simp

lemma enc_loop_ref:
  assumes "length (b64_enc xs) \<le> length room"
  shows "enc_loop (pre @ xs) (length pre) (length out) (out @ room)
    = Some (length out + length (b64_enc xs), out @ b64_enc xs @ drop (length (b64_enc xs)) room)"
  using assms
proof (induction xs arbitrary: pre out room rule: b64_enc.induct)
  case 1
  then show ?case by (simp add: enc_loop_done)
next
  case (2 a)
  then show ?case
    using enc_loop_step [of "length pre" "pre @ [a]" room out] unfolding enc_out_ref
    by (simp add: enc_loop_done)
next
  case (3 a b)
  then show ?case
    using enc_loop_step [of "length pre" "pre @ [a, b]" room out] unfolding enc_out_ref
    by (simp add: enc_loop_done)
next
  case (4 a b c xs)
  let ?g = "b64_digits (code a) (code b) (code c)"
  have "enc_loop (pre @ a # b # c # xs) (length pre) (length out) (out @ room)
    = enc_loop (pre @ a # b # c # xs) (length (pre @ [a, b, c])) (length (out @ ?g)) ((out @ ?g) @ drop (length ?g) room)"
    using enc_loop_step [of "length pre" "pre @ a # b # c # xs" room out] "4.prems"
    unfolding enc_out_ref by (simp add: numeral_3_eq_3)
  also have "\<dots> = Some (length (out @ ?g) + length (b64_enc xs),
      (out @ ?g) @ b64_enc xs @ drop (length (b64_enc xs)) (drop (length ?g) room))"
    using "4.IH" [of "drop (length ?g) room" "pre @ [a, b, c]" "out @ ?g"] "4.prems" by simp
  finally show ?case by simp
qed

theorem Encode_ref: "src \<noteq> [] \<Longrightarrow> Encode src (Some d) = Some (True, Some (b64_enc src))"
proof -
  assume "src \<noteq> []"
  let ?buf = "str_resize d (Base64EncodeLen (length src))"
  have len: "length ?buf = length (b64_enc src) + 1"
    by (simp add: Base64EncodeLen_def length_b64_enc)
  then have "enc_loop src 0 0 ?buf = Some (length (b64_enc src), b64_enc src @ drop (length (b64_enc src)) ?buf)"
    using enc_loop_ref [of src ?buf "[]" "[]"] by simp
  with \<open>src \<noteq> []\<close> len show ?thesis
    by (simp add: Encode_def buf_put_def)
qed

section \<open>Decoding\<close>

text \<open>How many of the first \<open>k\<close> characters complete a byte.\<close>

definition dec_count :: "nat \<Rightarrow> nat" where
  "dec_count k = k div 4 * 3 + (k mod 4 - 1)"

lemma mod4_cases: "k mod 4 = 0 \<or> k mod 4 = 1 \<or> k mod 4 = 2 \<or> k mod 4 = (3::nat)"
  by arith

lemma dec_count_Suc: "dec_count (Suc k) = (if k mod 4 = 0 then dec_count k else Suc (dec_count k))"
  using mod4_cases [of k] by (auto simp: dec_count_def mod_Suc div_Suc)

lemma dec_count_bound: "dec_count n \<le> Base64DecodeLen n"
proof -
  have "n mod 4 < 4" by simp
  then show ?thesis unfolding dec_count_def Base64DecodeLen_def by linarith
qed

lemma dec_count_mono: "dec_count k \<le> dec_count (k + n)"
  by (induction n) (auto simp: dec_count_Suc)

lemma b64_dec_length:
  "length (snd (b64_dec (k mod 4) t xs)) + dec_count k \<le> dec_count (k + length xs)"
proof (induction xs arbitrary: k t)
  case (Cons x xs)
  show ?case
    using mod4_cases [of k] Cons.IH [of "Suc k"] dec_count_mono [of k "Suc (length xs)"] dec_count_Suc [of k]
    by (auto simp: Let_def mod_Suc numeral_2_eq_2 numeral_3_eq_3)
qed simp

text \<open>The indexed loop computes the pass over the characters and never leaves the buffer.\<close>

lemma dec_loop_stop:
  assumes "b64_dec (length pre mod 4) t xs = (ok, res)"
    and "xs = [] \<or> hd xs = CHR ''='' \<or> hd xs = NUL \<or> Chr2Base (hd xs) = 64"
  shows "res = []"
    and "dec_loop (pre @ xs) (length pre) p t dst = Some ((if ok then DecDone p else DecInvalid) dst)"
proof -
  show "res = []"
    using assms by (cases xs) (auto simp: Let_def split: if_splits)
  with assms show "dec_loop (pre @ xs) (length pre) p t dst = Some ((if ok then DecDone p else DecInvalid) dst)"
    by (cases xs; subst dec_loop.simps) (auto simp: nth_append Let_def split: if_splits)
qed

text \<open>The byte completed in a phase other than 0, and the bits carried on.\<close>

definition dec_emit :: "nat \<Rightarrow> u8 \<Rightarrow> u8 \<Rightarrow> u8 \<times> u8" where
  "dec_emit ph t c = (if ph = 1 then (t OR drop_bit 4 c, push_bit 4 c)
     else if ph = 2 then (t OR drop_bit 2 c, push_bit 6 c) else (t OR c, t))"

lemma b64_dec_step:
  assumes "x \<noteq> CHR ''=''" "x \<noteq> NUL" "Chr2Base x \<noteq> 64"
  shows "b64_dec (k mod 4) t (x # xs) =
    (if k mod 4 = 0 then b64_dec (Suc k mod 4) (push_bit 2 (Chr2Base x)) xs
     else case dec_emit (k mod 4) t (Chr2Base x) of
       (v, t') \<Rightarrow> apsnd ((#) (chr_of v)) (b64_dec (Suc k mod 4) t' xs))"
  using assms mod4_cases [of k] by (elim disjE) (simp_all add: dec_emit_def mod_Suc Let_def numeral_2_eq_2 numeral_3_eq_3)

lemma dec_loop_step:
  assumes "x \<noteq> CHR ''=''" "x \<noteq> NUL" "Chr2Base x \<noteq> 64"
  shows "length pre mod 4 = 0 \<Longrightarrow> dec_loop (pre @ x # xs) (length pre) (length out) t (out @ room) =
      dec_loop (pre @ x # xs) (length (pre @ [x])) (length out) (push_bit 2 (Chr2Base x)) (out @ room)"
    and "length pre mod 4 \<noteq> 0 \<Longrightarrow> dec_emit (length pre mod 4) t (Chr2Base x) = (v, t') \<Longrightarrow>
      dec_loop (pre @ x # xs) (length pre) (length out) t (out @ r # rs) =
      dec_loop (pre @ x # xs) (length (pre @ [x])) (length (out @ [chr_of v])) t' ((out @ [chr_of v]) @ rs)"
proof -
  show "length pre mod 4 = 0 \<Longrightarrow> dec_loop (pre @ x # xs) (length pre) (length out) t (out @ room) =
      dec_loop (pre @ x # xs) (length (pre @ [x])) (length out) (push_bit 2 (Chr2Base x)) (out @ room)"
    using assms Chr2Base_not_65 [of x] by (subst dec_loop.simps) (simp add: nth_append Let_def)
  show "length pre mod 4 \<noteq> 0 \<Longrightarrow> dec_emit (length pre mod 4) t (Chr2Base x) = (v, t') \<Longrightarrow>
      dec_loop (pre @ x # xs) (length pre) (length out) t (out @ r # rs) =
      dec_loop (pre @ x # xs) (length (pre @ [x])) (length (out @ [chr_of v])) t' ((out @ [chr_of v]) @ rs)"
    using assms Chr2Base_not_65 [of x]
    by (subst dec_loop.simps) (auto simp: nth_append Let_def buf_put_def dec_emit_def split: if_splits)
qed

lemma dec_loop_ref:
  assumes "b64_dec (length pre mod 4) t xs = (ok, res)" and "length res \<le> length room"
  shows "dec_loop (pre @ xs) (length pre) (length out) t (out @ room)
    = Some ((if ok then DecDone (length out + length res) else DecInvalid) (out @ res @ drop (length res) room))"
  using assms
proof (induction xs arbitrary: pre out room res t)
  case Nil
  then show ?case by (subst dec_loop.simps) simp
next
  case (Cons x xs)
  have IH: "b64_dec (Suc (length pre) mod 4) t' xs = (ok, res') \<Longrightarrow> length res' \<le> length room' \<Longrightarrow>
    dec_loop (pre @ x # xs) (length (pre @ [x])) (length out') t' (out' @ room')
    = Some ((if ok then DecDone (length out' + length res') else DecInvalid) (out' @ res' @ drop (length res') room'))"
    for t' res' out' room'
    using Cons.IH [of "pre @ [x]" t' res' room' out'] by simp
  consider (stop) "x = CHR ''='' \<or> x = NUL \<or> Chr2Base x = 64"
    | (go) "x \<noteq> CHR ''=''" "x \<noteq> NUL" "Chr2Base x \<noteq> 64" by blast
  then show ?case
  proof cases
    case stop
    with Cons.prems(1) show ?thesis
      using dec_loop_stop(1) [of pre t "x # xs" ok res]
        dec_loop_stop(2) [of pre t "x # xs" ok res "length out" "out @ room"] by simp
  next
    case go
    note step = b64_dec_step [OF go, of "length pre" t xs] and loop = dec_loop_step [OF go, of pre]
    show ?thesis
    proof (cases "length pre mod 4 = 0")
      case True
      with Cons.prems step have "b64_dec (Suc (length pre) mod 4) (push_bit 2 (Chr2Base x)) xs = (ok, res)"
        by simp
      from IH [OF this Cons.prems(2)] show ?thesis unfolding loop(1) [OF True] .
    next
      case False
      obtain v t' where e: "dec_emit (length pre mod 4) t (Chr2Base x) = (v, t')" by fastforce
      with Cons.prems False step obtain res' where r: "b64_dec (Suc (length pre) mod 4) t' xs = (ok, res')"
        and res: "res = chr_of v # res'" by (cases "b64_dec (Suc (length pre) mod 4) t' xs") auto
      from res Cons.prems(2) obtain r0 rs where room: "room = r0 # rs" "length res' \<le> length rs"
        by (cases room) auto
      show ?thesis unfolding room(1) loop(2) [OF False e] IH [OF r room(2)] by (simp add: res)
    qed
  qed
qed

text \<open>For every input the decoder stays inside the buffer it sized.\<close>

lemma Decode_ref:
  assumes "src \<noteq> []" and "b64_dec 0 0 src = (ok, res)"
  shows "Decode src (Some d) = Some (ok, Some (if ok then res
    else res @ drop (length res) (str_resize d (Base64DecodeLen (length src)))))"
proof -
  let ?buf = "str_resize d (Base64DecodeLen (length src))"
  have "length res \<le> length ?buf"
    using b64_dec_length [of 0 0 src] dec_count_bound [of "length src"] assms(2)
    by (simp add: dec_count_def)
  then have "dec_loop src 0 0 0 ?buf = Some ((if ok then DecDone (length res) else DecInvalid)
      (res @ drop (length res) ?buf))"
    using dec_loop_ref [of "[]" 0 src ok res ?buf "[]"] assms(2) by simp
  with assms(1) show ?thesis by (simp add: Decode_def)
qed


section \<open>Round trip\<close>

lemma or_nat: "x < 2 ^ n \<Longrightarrow> push_bit n a OR x = a * 2 ^ n + (x::nat)"
  by (metis push_bit_eq_mult bit_push_bit_iff bit_take_bit_iff disjunctive_add linorder_not_le take_bit_nat_eq_self)

lemma unat_join8:
  assumes "unat y < 2 ^ n" and "n \<le> 8"
  shows "unat (push_bit n (x::u8) OR y) = (unat x mod 2 ^ (8 - n)) * 2 ^ n + unat y"
proof -
  have "(2::nat) ^ 8 = 2 ^ (8 - n) * 2 ^ n" using assms(2) by (simp flip: power_add)
  then have "unat (push_bit n x) = push_bit n (unat x mod 2 ^ (8 - n))"
    unfolding unsigned_push_bit_eq by (simp add: take_bit_eq_mod push_bit_eq_mult mult_mod_left)
  then show ?thesis using or_nat [OF assms(1)] by (simp add: unsigned_or_eq)
qed

lemma unat_digit: "k < 64 \<Longrightarrow> unat (word_of_nat k :: u8) = k"
  by (simp add: unat_of_nat)

lemma unat_drop8: "unat (drop_bit n (w :: u8)) = unat w div 2 ^ n"
  unfolding unat_drop_bit_eq by (simp only: drop_bit_eq_div)

lemma join_digits:
  assumes "x < 64" "y < 64"
  shows "push_bit 2 (word_of_nat x) OR drop_bit 4 (word_of_nat y) = (word_of_nat (x * 4 + y div 16) :: u8)"
    and "push_bit 4 (word_of_nat x) OR drop_bit 2 (word_of_nat y) = (word_of_nat (x mod 16 * 16 + y div 4) :: u8)"
    and "push_bit 6 (word_of_nat x) OR word_of_nat y = (word_of_nat (x mod 4 * 64 + y) :: u8)"
proof -
  note u = unat_digit [OF assms(1)] unat_digit [OF assms(2)] unat_drop8
  have eq: "(w :: u8) = word_of_nat n" if "unat w = n" for w n using that by auto
  have "y div 16 < 4" "y div 4 < 16" using assms by auto
  with assms have a: "unat (push_bit 2 (word_of_nat x) OR drop_bit 4 (word_of_nat y) :: u8) = x * 4 + y div 16"
    and b: "unat (push_bit 4 (word_of_nat x) OR drop_bit 2 (word_of_nat y) :: u8) = x mod 16 * 16 + y div 4"
    and c: "unat (push_bit 6 (word_of_nat x) OR word_of_nat y :: u8) = x mod 4 * 64 + y"
    by (subst unat_join8; simp add: u)+
  show "push_bit 2 (word_of_nat x) OR drop_bit 4 (word_of_nat y) = (word_of_nat (x * 4 + y div 16) :: u8)"
    and "push_bit 4 (word_of_nat x) OR drop_bit 2 (word_of_nat y) = (word_of_nat (x mod 16 * 16 + y div 4) :: u8)"
    and "push_bit 6 (word_of_nat x) OR word_of_nat y = (word_of_nat (x mod 4 * 64 + y) :: u8)"
    by (rule eq, rule a, rule eq, rule b, rule eq, rule c)
qed

lemma regroup:
  fixes a b c :: nat
  assumes "b < 256" "c < 256"
  shows "a div 4 * 4 + (a mod 4 * 16 + b div 16) div 16 = a"
    and "(a mod 4 * 16 + b div 16) mod 16 * 16 + (b mod 16 * 4 + c div 64) div 4 = b"
    and "(b mod 16 * 4 + c div 64) mod 4 * 64 + c mod 64 = c"
proof -
  have "b div 16 < 16" "c div 64 < 4" using assms by auto
  then show "a div 4 * 4 + (a mod 4 * 16 + b div 16) div 16 = a"
    and "(a mod 4 * 16 + b div 16) mod 16 * 16 + (b mod 16 * 4 + c div 64) div 4 = b"
    and "(b mod 16 * 4 + c div 64) mod 4 * 64 + c mod 64 = c"
    by simp_all
qed

lemma digit_valid:
  assumes "k < 64"
  shows "Chr2Base (base64Code ! k) \<noteq> 64"
proof
  assume "Chr2Base (base64Code ! k) = 64"
  then have "unat (word_of_nat k :: u8) = unat (64 :: u8)" using assms by (simp add: Chr2Base_code)
  with assms show False by (simp add: unat_digit)
qed


lemma base64Code_ranges: "base64Code = map char_of ([65..<91] @ [97..<123] @ [48..<58 :: nat]) @ ''+/''"
  by (simp add: base64Code_def upt_rec_numeral char_of_def bit_Suc_0_iff)

lemma in_char_range: "m \<le> code c \<Longrightarrow> code c < n \<Longrightarrow> c \<in> char_of ` {m..<n}"
  by (metis atLeastLessThan_iff char_of_char imageI)

lemma Chr2Base_valid: "Chr2Base c \<noteq> 64 \<longleftrightarrow> c \<in> set base64Code"
proof
  assume "Chr2Base c \<noteq> 64"
  then have "65 \<le> code c \<and> code c < 91 \<or> 97 \<le> code c \<and> code c < 123 \<or> 48 \<le> code c \<and> code c < 58
      \<or> c \<in> set ''+/''"
    unfolding Chr2Base_alt by (auto split: if_splits)
  then show "c \<in> set base64Code"
    unfolding base64Code_ranges set_append set_map set_upt using in_char_range by blast
next
  assume "c \<in> set base64Code"
  then show "Chr2Base c \<noteq> 64" using digit_valid by (auto simp: in_set_conv_nth)
qed

lemma b64_dec_code:
  assumes "k < 64"
  shows "b64_dec ph t (base64Code ! k # xs) =
    (if ph = 0 then b64_dec 1 (push_bit 2 (word_of_nat k)) xs
     else if ph = 1 then apsnd ((#) (chr_of (t OR drop_bit 4 (word_of_nat k)))) (b64_dec 2 (push_bit 4 (word_of_nat k)) xs)
     else if ph = 2 then apsnd ((#) (chr_of (t OR drop_bit 2 (word_of_nat k)))) (b64_dec 3 (push_bit 6 (word_of_nat k)) xs)
     else apsnd ((#) (chr_of (t OR word_of_nat k))) (b64_dec 0 t xs))"
  using digit_valid [OF assms] code_not_special [OF assms] Chr2Base_code [OF assms]
  by (simp only: b64_dec.simps Let_def if_False simp_thms)

lemma chr_of_code [simp]: "chr_of (word_of_nat (code c)) = c"
  using chr_of_byte [of c] by (simp add: byte_def)

lemma b64_dec_group:
  fixes a b c :: nat
  assumes "a < 256" "b < 256" "c < 256"
  shows "b64_dec 0 t (take 2 (b64_digits a b c) @ xs) = apsnd ((#) (chr_of (word_of_nat a)))
      (b64_dec 2 (push_bit 4 (word_of_nat (a mod 4 * 16 + b div 16))) xs)"
    and "b64_dec 0 t (take 3 (b64_digits a b c) @ xs) = apsnd (\<lambda>ys. map (chr_of \<circ> word_of_nat) [a, b] @ ys)
      (b64_dec 3 (push_bit 6 (word_of_nat (b mod 16 * 4 + c div 64))) xs)"
    and "b64_dec 0 t (b64_digits a b c @ xs) = apsnd (\<lambda>ys. map (chr_of \<circ> word_of_nat) [a, b, c] @ ys)
      (b64_dec 0 (push_bit 6 (word_of_nat (b mod 16 * 4 + c div 64))) xs)"
proof -
  have lt: "a div 4 < 64" "a mod 4 * 16 + b div 16 < 64" "b mod 16 * 4 + c div 64 < 64" "c mod 64 < 64"
    using assms by (auto simp: less_mult_imp_div_less)
  note join = join_digits(1) [OF lt(1,2)] join_digits(2) [OF lt(2,3)] join_digits(3) [OF lt(3,4)]
  note rules = b64_dec_code [OF lt(1)] b64_dec_code [OF lt(2)] b64_dec_code [OF lt(3)] b64_dec_code [OF lt(4)]
    join [unfolded regroup [OF assms(2,3)]]
  have [simp]: "apsnd f (apsnd g p) = apsnd (f \<circ> g) p" for f g and p :: "bool \<times> string"
    by (cases p) simp
  show "b64_dec 0 t (take 2 (b64_digits a b c) @ xs) = apsnd ((#) (chr_of (word_of_nat a)))
      (b64_dec 2 (push_bit 4 (word_of_nat (a mod 4 * 16 + b div 16))) xs)"
    by (simp add: rules del: of_nat_add of_nat_mult b64_dec.simps)
  show "b64_dec 0 t (take 3 (b64_digits a b c) @ xs) = apsnd (\<lambda>ys. map (chr_of \<circ> word_of_nat) [a, b] @ ys)
      (b64_dec 3 (push_bit 6 (word_of_nat (b mod 16 * 4 + c div 64))) xs)"
    by (simp add: rules comp_def del: of_nat_add of_nat_mult b64_dec.simps)
  show "b64_dec 0 t (b64_digits a b c @ xs) = apsnd (\<lambda>ys. map (chr_of \<circ> word_of_nat) [a, b, c] @ ys)
      (b64_dec 0 (push_bit 6 (word_of_nat (b mod 16 * 4 + c div 64))) xs)"
    by (simp add: rules comp_def del: of_nat_add of_nat_mult b64_dec.simps)
qed

theorem b64_roundtrip: "b64_dec 0 t (b64_enc xs) = (True, xs)"
proof (induction xs arbitrary: t rule: b64_enc.induct)
  case (2 a)
  show ?case unfolding b64_enc.simps
    by (subst b64_dec_group(1)) (simp_all del: of_nat_add of_nat_mult b64_digits.simps)
next
  case (3 a b)
  show ?case unfolding b64_enc.simps
    by (subst b64_dec_group(2)) (simp_all del: of_nat_add of_nat_mult b64_digits.simps)
next
  case (4 a b c xs)
  then show ?case unfolding b64_enc.simps
    by (subst b64_dec_group(3)) (simp_all del: of_nat_add of_nat_mult b64_digits.simps)
qed simp


text \<open>What a successful call leaves in \<open>*dst\<close>, for an empty destination.\<close>

definition encode_text :: "string \<Rightarrow> string" where
  "encode_text src = (case Encode src (Some []) of Some (True, Some e) \<Rightarrow> e | _ \<Rightarrow> [])"

definition decode_text :: "string \<Rightarrow> string option" where
  "decode_text src = (case Decode src (Some []) of Some (True, Some d) \<Rightarrow> Some d | _ \<Rightarrow> None)"

lemma b64_enc_empty [simp]: "b64_enc xs = [] \<longleftrightarrow> xs = []"
  by (cases xs rule: b64_enc.cases) auto

lemma encode_text_ref: "encode_text src = b64_enc src"
  by (cases "src = []") (simp_all add: encode_text_def Encode_ref, simp add: Encode_def)

lemma decode_text_enc: "src \<noteq> [] \<Longrightarrow> decode_text (b64_enc src) = Some src"
  using Decode_ref [of "b64_enc src" True src "[]"] b64_roundtrip [of 0 src] by (simp add: decode_text_def)

interpretation b64: codec encode_text decode_text "\<lambda>s. s \<noteq> []"
  by unfold_locales (simp add: encode_text_ref decode_text_enc)

text \<open>The alphabet of encoded text: no separator of the record files, no terminator.\<close>

lemma b64_enc_chars: "set (b64_enc xs) \<subseteq> set base64Code \<union> {CHR ''=''}"
proof (induction xs rule: b64_enc.induct)
  case (4 a b c xs)
  then show ?case using of_char_bounds(1) [of a] of_char_bounds(2) [of a b] of_char_bounds(3) [of b c] by auto
qed (auto simp: less_mult_imp_div_less of_char_bounds)

lemma b64_enc_clean: "{NUL, CHR '','', CR, LF} \<inter> set (b64_enc xs) = {}"
  using b64_enc_chars [of xs] code_special_table by auto

section \<open>Properties\<close>

text \<open>C32: Base64 round trip. Encoding any non-empty byte string succeeds, whatever the destination
  held before, and decoding the text it produced gives the same bytes back.\<close>

theorem codec_roundtrip:
  "src \<noteq> [] \<Longrightarrow> \<exists>e. Encode src (Some d) = Some (True, Some e) \<and> Decode e (Some d') = Some (True, Some src)"
  using Encode_ref [of src d] Decode_ref [of "b64_enc src" True src d'] b64_roundtrip [of 0 src] by auto

theorem codec_roundtrip_witness:
  "\<exists>e. Encode ''Ab3'' (Some ''x'') = Some (True, Some e) \<and> Decode e (Some ''yz'') = Some (True, Some ''Ab3'')"
  using codec_roundtrip [of "''Ab3''" "''x''" "''yz''"] by simp

text \<open>C33: Base64 memory safety. For every input, valid or not, and every destination, the encoding
  and the decoding loop write only inside the buffers sized by \<open>Base64EncodeLen\<close> and
  \<open>Base64DecodeLen\<close> (an out-of-bounds write would make the result \<^const>\<open>None\<close>).\<close>

theorem codec_in_bounds: "Encode src dst \<noteq> None \<and> Decode src dst \<noteq> None"
proof (cases "src = [] \<or> dst = None")
  case True
  then show ?thesis by (auto simp: Encode_def Decode_def)
next
  case False
  then obtain d where "dst = Some d" "src \<noteq> []" by auto
  then show ?thesis
    using Encode_ref [of src d] Decode_ref [of src "fst (b64_dec 0 0 src)" "snd (b64_dec 0 0 src)" d] by simp
qed

text \<open>Base64 decoding of arbitrary text. \<open>Decode\<close> returns true exactly when every character
  before the first padding character or NUL belongs to the alphabet.\<close>

theorem Decode_accepts_iff:
  "src \<noteq> [] \<Longrightarrow>
   (\<exists>r. Decode src (Some d) = Some (True, r)) \<longleftrightarrow>
   set (takeWhile (\<lambda>c. c \<noteq> CHR ''='' \<and> c \<noteq> NUL) src) \<subseteq> set base64Code"
proof -
  assume "src \<noteq> []"
  have valid: "Chr2Base c = 64 \<longleftrightarrow> c \<notin> set base64Code" for c
    using Chr2Base_valid by blast
  have acc: "fst (b64_dec ph t xs) \<longleftrightarrow> set (takeWhile (\<lambda>c. c \<noteq> CHR ''='' \<and> c \<noteq> NUL) xs) \<subseteq> set base64Code" for ph t xs
    by (induction xs arbitrary: ph t) (auto simp: Let_def valid)
  obtain ok res where "b64_dec 0 0 src = (ok, res)" by fastforce
  with \<open>src \<noteq> []\<close> show ?thesis
    using Decode_ref [of src ok res d] acc [of 0 0 src] by auto
qed

theorem Decode_accepts_iff_witness:
  "(\<exists>r. Decode ''QWI='' (Some []) = Some (True, r)) \<and> \<not> (\<exists>r. Decode ''Q,I='' (Some []) = Some (True, r))"
  using Decode_accepts_iff [of "''QWI=''" "[]"] Decode_accepts_iff [of "''Q,I=''" "[]"]
  by (simp add: base64Code_def)

end
