(* ===== verification/RemainObj.thy ===== *)
theory RemainObj
  imports CText Base64 "HOL-Library.Sublist"
begin

text \<open>
  The record files of \<^verbatim>\<open>src/remainFile/src/RemainObjMgr.cpp\<close>: a stuck message
  (\<open>RemainObj\<close>, declared in \<^verbatim>\<open>RemainObjMgr.h\<close>) is written as one line of 91 comma-separated
  fields and read back field by field. The three kinds of message (status report, uplink,
  downlink) have their own copy of the writer and of the reader in the sources, and here. The
  writers and readers are cut into groups of fields, in the order of the source.
\<close>

section \<open>The message object\<close>

record RemainObj =
  m_nMsgFmt :: c_int
  bitFlag :: c_int
  m_nPkNumber :: c_int
  m_nPkTotal :: c_int
  m_nPhoneCount :: c_int
  m_nMsgLevel :: c_int
  m_nEcid :: c_int
  m_nPreNodeid :: c_int
  m_nLocalNodeid :: c_int
  m_nGateId :: c_int
  m_nBatchType :: c_int
  m_nRptFlag :: c_int
  m_nRptFrom :: c_int
  m_nTpudhi :: c_int
  m_nTppid :: c_int
  m_nLongMsgSeq :: c_int
  m_nChargeNum :: c_int
  m_nSignPos :: c_int
  m_nFileSize :: c_int
  m_nMmstype :: c_int
  m_nMobileCountry :: c_int
  m_nMobileArea :: c_int
  m_nMobileCity :: c_int
  m_nMobileType :: c_int
  m_nFeeFlag :: c_int
  m_nChargeType :: c_int
  m_nChargeRate :: c_int
  m_nMsgSeqId :: c_int
  m_nDttype :: c_int
  m_nSendFlag :: c_int
  m_nPassThrough :: c_int
  m_nPtMsgId :: c_i64
  m_nSuppMsgId :: c_i64
  m_nInitMgsId :: c_i64
  m_nCreateTime :: c_i64
  m_nRecvTime :: c_i64
  m_nRespTime :: c_i64
  m_nInsertTime :: c_i64
  m_nSubmitTime :: c_i64
  m_nDoneTime :: c_i64
  m_nRecvRptTime :: c_i64
  m_nTranTime :: c_i64
  m_nDealTime :: c_i64
  m_nDeliverTime :: c_i64
  m_nAttime :: c_i64
  m_nValidtime :: c_i64
  m_nMsgHashCode :: c_i64
  m_nMwBatchId :: c_i64
  m_strSpMsgId :: string
  m_strPtcode :: string
  m_strUserBatchId :: string
  m_strSvrType :: string
  m_strSignature :: string
  m_strMsgHash256 :: string
  m_strCustName :: string
  m_strAccNumber :: string
  m_strBankNumber :: string
  m_strTransSeq :: string
  m_strAccInfo :: string
  m_strChangeMark :: string
  m_strExitSign :: string
  m_strCustNumber :: string
  m_strDepartCode :: string
  m_strSignOrgcode :: string
  m_strReserve :: string
  m_strSubmitter :: string
  m_strReviewer :: string
  m_strSignStatus :: string
  m_strMsgSrcIp :: string
  m_strSpip :: string
  m_strUserId :: string
  m_strPhone :: string
  m_strMsgContent :: string
  m_strUserCustid :: string
  m_strUserExData :: string
  m_strSpNumber :: string
  m_strSpGate :: string
  m_strCpno :: string
  m_strExno :: string
  m_strServiceNo :: string
  m_strAuthenInfo :: string
  m_strFileName :: string
  m_strSeqNo :: string
  m_strTplid :: string
  m_strMmsTitle :: string
  m_strMmsMsgPath :: string
  m_strErrorCode :: string
  m_strErrorCode2 :: string
  m_strErrorMsg :: string
  m_strSubmitDate :: string
  m_strDoneDate :: string
  m_strFragFolder :: string

text \<open>The constructor: every number 0, every text empty, the folder \<open>"ccb"\<close>.\<close>

definition RemainObj_init :: RemainObj where
  "RemainObj_init = \<lparr>
     m_nMsgFmt = 0,
     bitFlag = 0,
     m_nPkNumber = 0,
     m_nPkTotal = 0,
     m_nPhoneCount = 0,
     m_nMsgLevel = 0,
     m_nEcid = 0,
     m_nPreNodeid = 0,
     m_nLocalNodeid = 0,
     m_nGateId = 0,
     m_nBatchType = 0,
     m_nRptFlag = 0,
     m_nRptFrom = 0,
     m_nTpudhi = 0,
     m_nTppid = 0,
     m_nLongMsgSeq = 0,
     m_nChargeNum = 0,
     m_nSignPos = 0,
     m_nFileSize = 0,
     m_nMmstype = 0,
     m_nMobileCountry = 0,
     m_nMobileArea = 0,
     m_nMobileCity = 0,
     m_nMobileType = 0,
     m_nFeeFlag = 0,
     m_nChargeType = 0,
     m_nChargeRate = 0,
     m_nMsgSeqId = 0,
     m_nDttype = 0,
     m_nSendFlag = 0,
     m_nPassThrough = 0,
     m_nPtMsgId = 0,
     m_nSuppMsgId = 0,
     m_nInitMgsId = 0,
     m_nCreateTime = 0,
     m_nRecvTime = 0,
     m_nRespTime = 0,
     m_nInsertTime = 0,
     m_nSubmitTime = 0,
     m_nDoneTime = 0,
     m_nRecvRptTime = 0,
     m_nTranTime = 0,
     m_nDealTime = 0,
     m_nDeliverTime = 0,
     m_nAttime = 0,
     m_nValidtime = 0,
     m_nMsgHashCode = 0,
     m_nMwBatchId = 0,
     m_strSpMsgId = [],
     m_strPtcode = [],
     m_strUserBatchId = [],
     m_strSvrType = [],
     m_strSignature = [],
     m_strMsgHash256 = [],
     m_strCustName = [],
     m_strAccNumber = [],
     m_strBankNumber = [],
     m_strTransSeq = [],
     m_strAccInfo = [],
     m_strChangeMark = [],
     m_strExitSign = [],
     m_strCustNumber = [],
     m_strDepartCode = [],
     m_strSignOrgcode = [],
     m_strReserve = [],
     m_strSubmitter = [],
     m_strReviewer = [],
     m_strSignStatus = [],
     m_strMsgSrcIp = [],
     m_strSpip = [],
     m_strUserId = [],
     m_strPhone = [],
     m_strMsgContent = [],
     m_strUserCustid = [],
     m_strUserExData = [],
     m_strSpNumber = [],
     m_strSpGate = [],
     m_strCpno = [],
     m_strExno = [],
     m_strServiceNo = [],
     m_strAuthenInfo = [],
     m_strFileName = [],
     m_strSeqNo = [],
     m_strTplid = [],
     m_strMmsTitle = [],
     m_strMmsMsgPath = [],
     m_strErrorCode = [],
     m_strErrorCode2 = [],
     m_strErrorMsg = [],
     m_strSubmitDate = [],
     m_strDoneDate = [],
     m_strFragFolder = ''ccb''\<rparr>"

section \<open>Fields\<close>

subsection \<open>Writing\<close>

abbreviation comma :: char where
  "comma \<equiv> CHR '',''"

text \<open>\<open>sprintf(strBuf, \<dots>); msgDetail.append(strBuf).append(",")\<close>\<close>

definition put_d :: "c_int \<Rightarrow> string" where
  "put_d v = sprintf_d v @ [comma]"

definition put_ld :: "c_i64 \<Rightarrow> string" where
  "put_ld v = sprintf_ld v @ [comma]"

text \<open>\<open>baseResult.assign(""); Base64::Encode(s, &baseResult); msgDetail.append(baseResult).append(",")\<close>\<close>

definition b64_text :: "string \<Rightarrow> string" where
  "b64_text s = (case Encode s (Some []) of Some (_, Some r) \<Rightarrow> r | _ \<Rightarrow> [])"

definition put_b64 :: "string \<Rightarrow> string" where
  "put_b64 s = b64_text s @ [comma]"

definition put_raw :: "string \<Rightarrow> string" where
  "put_raw s = s @ [comma]"

subsection \<open>Reading\<close>

text \<open>
  One field of \<open>transStringTo\<dots>\<close>: find the next comma from \<open>pBuf\<close> (otherwise return the error
  code), set the object's field from the text before it, move \<open>pBuf\<close> behind the comma. The
  state is the rest of the line and the object built so far.
\<close>

type_synonym parse_state = "string \<times> RemainObj"
type_synonym parse_step = "parse_state \<Rightarrow> int + parse_state"

definition get_field :: "int \<Rightarrow> (string \<Rightarrow> string \<Rightarrow> RemainObj \<Rightarrow> RemainObj) \<Rightarrow> parse_step" where
  "get_field err assign_f = (\<lambda>(pBuf, reObj).
     (case strFristConstChar (Some pBuf) comma of
        None \<Rightarrow> Inl err
      | Some pComma \<Rightarrow> Inr (tl pComma, assign_f pBuf (take (length pBuf - length pComma) pBuf) reObj)))"

definition get_d :: "int \<Rightarrow> (c_int \<Rightarrow> RemainObj \<Rightarrow> RemainObj) \<Rightarrow> parse_step" where
  "get_d err upd = get_field err (\<lambda>pBuf _. upd (atoi pBuf))"

definition get_ld :: "int \<Rightarrow> (c_i64 \<Rightarrow> RemainObj \<Rightarrow> RemainObj) \<Rightarrow> parse_step" where
  "get_ld err upd = get_field err (\<lambda>pBuf _. upd (strtoul pBuf))"

text \<open>\<open>baseResult.assign(""); Base64::Decode(tmpString, &baseResult)\<close>: the returned flag is ignored.\<close>

definition unb64_text :: "string \<Rightarrow> string" where
  "unb64_text s = (case Decode s (Some []) of Some (_, Some r) \<Rightarrow> r | _ \<Rightarrow> [])"

definition get_b64 :: "int \<Rightarrow> (string \<Rightarrow> RemainObj \<Rightarrow> RemainObj) \<Rightarrow> parse_step" where
  "get_b64 err upd = get_field err (\<lambda>_ tmpString. upd (unb64_text tmpString))"

definition get_raw :: "int \<Rightarrow> (string \<Rightarrow> RemainObj \<Rightarrow> RemainObj) \<Rightarrow> parse_step" where
  "get_raw err upd = get_field err (\<lambda>_ tmpString. upd tmpString)"

text \<open>\<open>if (reObj->bitFlag != flag) return -1426;\<close>\<close>

definition check_flag :: "int \<Rightarrow> c_int \<Rightarrow> parse_step" where
  "check_flag err flag = (\<lambda>(pBuf, reObj). if bitFlag reObj \<noteq> flag then Inl err else Inr (pBuf, reObj))"

fun run_steps :: "parse_step list \<Rightarrow> parse_step" where
  "run_steps [] st = Inr st"
| "run_steps (f # fs) st = (case f st of Inl e \<Rightarrow> Inl e | Inr st' \<Rightarrow> run_steps fs st')"

text \<open>The last field has no comma behind it: it runs to the line end, if there is one.\<close>

definition get_last :: "(string \<Rightarrow> RemainObj \<Rightarrow> RemainObj) \<Rightarrow> parse_state \<Rightarrow> RemainObj" where
  "get_last upd = (\<lambda>(pBuf, reObj).
     (let bufLen = (case strFirstConstStr (Some pBuf) [CR, LF] of
                      Some pLine \<Rightarrow> length pBuf - length pLine | None \<Rightarrow> length pBuf)
      in upd (take bufLen pBuf) reObj))"

definition RE_FLAG :: c_int where "RE_FLAG = 1"
definition MO_FLAG :: c_int where "MO_FLAG = 2"
definition MT_FLAG :: c_int where "MT_FLAG = 3"

section \<open>Status reports\<close>

subsection \<open>Writer\<close>

definition transRe_head :: "RemainObj \<Rightarrow> string" where
  "transRe_head obj =
     put_ld (m_nPtMsgId obj) @
     put_ld (m_nSuppMsgId obj) @
     put_ld (m_nInitMgsId obj) @
     put_d (m_nMsgFmt obj) @
     put_d (bitFlag obj)"

definition transRe_ints :: "RemainObj \<Rightarrow> string" where
  "transRe_ints obj =
     put_d (m_nPkNumber obj) @
     put_d (m_nPkTotal obj) @
     put_d (m_nPhoneCount obj) @
     put_d (m_nMsgLevel obj) @
     put_d (m_nEcid obj) @
     put_d (m_nPreNodeid obj) @
     put_d (m_nLocalNodeid obj) @
     put_d (m_nGateId obj) @
     put_d (m_nBatchType obj) @
     put_d (m_nRptFlag obj) @
     put_d (m_nRptFrom obj) @
     put_d (m_nTpudhi obj) @
     put_d (m_nTppid obj) @
     put_d (m_nLongMsgSeq obj) @
     put_d (m_nChargeNum obj)"

definition transRe_ints2 :: "RemainObj \<Rightarrow> string" where
  "transRe_ints2 obj =
     put_d (m_nSignPos obj) @
     put_d (m_nFileSize obj) @
     put_d (m_nMmstype obj) @
     put_d (m_nMobileCountry obj) @
     put_d (m_nMobileArea obj) @
     put_d (m_nMobileCity obj) @
     put_d (m_nMobileType obj) @
     put_d (m_nFeeFlag obj) @
     put_d (m_nChargeType obj) @
     put_d (m_nChargeRate obj) @
     put_d (m_nMsgSeqId obj) @
     put_d (m_nDttype obj) @
     put_d (m_nSendFlag obj) @
     put_d (m_nPassThrough obj)"

definition transRe_times :: "RemainObj \<Rightarrow> string" where
  "transRe_times obj =
     put_ld (m_nCreateTime obj) @
     put_ld (m_nRecvTime obj) @
     put_ld (m_nRespTime obj) @
     put_ld (m_nInsertTime obj) @
     put_ld (m_nSubmitTime obj) @
     put_ld (m_nDoneTime obj) @
     put_ld (m_nRecvRptTime obj) @
     put_ld (m_nTranTime obj) @
     put_ld (m_nDealTime obj) @
     put_ld (m_nDeliverTime obj) @
     put_ld (m_nAttime obj) @
     put_ld (m_nValidtime obj) @
     put_ld (m_nMsgHashCode obj) @
     put_ld (m_nMwBatchId obj)"

definition transRe_text :: "RemainObj \<Rightarrow> string" where
  "transRe_text obj =
     put_b64 (m_strSpMsgId obj) @
     put_raw (m_strPtcode obj) @
     put_b64 (m_strUserBatchId obj) @
     put_b64 (m_strSvrType obj) @
     put_b64 (m_strSignature obj) @
     put_b64 (m_strMsgHash256 obj) @
     put_b64 (m_strCustName obj) @
     put_b64 (m_strAccNumber obj) @
     put_b64 (m_strBankNumber obj) @
     put_b64 (m_strTransSeq obj) @
     put_b64 (m_strAccInfo obj) @
     put_b64 (m_strChangeMark obj)"

definition transRe_text2 :: "RemainObj \<Rightarrow> string" where
  "transRe_text2 obj =
     put_b64 (m_strExitSign obj) @
     put_b64 (m_strCustNumber obj) @
     put_b64 (m_strDepartCode obj) @
     put_b64 (m_strSignOrgcode obj) @
     put_b64 (m_strReserve obj) @
     put_b64 (m_strSubmitter obj) @
     put_b64 (m_strReviewer obj) @
     put_b64 (m_strSignStatus obj) @
     put_raw (m_strMsgSrcIp obj) @
     put_raw (m_strSpip obj) @
     put_raw (m_strUserId obj) @
     put_b64 (m_strPhone obj)"

definition transRe_text3 :: "RemainObj \<Rightarrow> string" where
  "transRe_text3 obj =
     put_b64 (m_strMsgContent obj) @
     put_b64 (m_strUserCustid obj) @
     put_b64 (m_strUserExData obj) @
     put_raw (m_strSpNumber obj) @
     put_raw (m_strSpGate obj) @
     put_raw (m_strCpno obj) @
     put_raw (m_strExno obj) @
     put_b64 (m_strServiceNo obj) @
     put_b64 (m_strAuthenInfo obj) @
     put_b64 (m_strFileName obj)"

definition transRe_text4 :: "RemainObj \<Rightarrow> string" where
  "transRe_text4 obj =
     put_b64 (m_strSeqNo obj) @
     put_b64 (m_strTplid obj) @
     put_b64 (m_strMmsTitle obj) @
     put_b64 (m_strMmsMsgPath obj) @
     put_raw (m_strErrorCode obj) @
     put_raw (m_strErrorCode2 obj) @
     put_b64 (m_strErrorMsg obj) @
     put_raw (m_strSubmitDate obj)"

definition transReToString :: "RemainObj \<Rightarrow> string" where
  "transReToString obj =
     transRe_head obj @ transRe_ints obj @ transRe_ints2 obj @ transRe_times obj @ transRe_text obj @ transRe_text2 obj @ transRe_text3 obj @ transRe_text4 obj @
     m_strDoneDate obj @ [CR, LF]"

subsection \<open>Reader\<close>

definition transStringToRe_head :: "parse_step list" where
  "transStringToRe_head =
     [get_ld (-1422) (\<lambda>v. m_nPtMsgId_update (\<lambda>_. v)),
      get_ld (-1422) (\<lambda>v. m_nSuppMsgId_update (\<lambda>_. v)),
      get_ld (-1422) (\<lambda>v. m_nInitMgsId_update (\<lambda>_. v)),
      get_d (-1424) (\<lambda>v. m_nMsgFmt_update (\<lambda>_. v)),
      get_d (-1424) (\<lambda>v. bitFlag_update (\<lambda>_. v)),
      check_flag (-1426) RE_FLAG]"

definition transStringToRe_ints :: "parse_step list" where
  "transStringToRe_ints =
     [get_d (-1424) (\<lambda>v. m_nPkNumber_update (\<lambda>_. v)),
      get_d (-1424) (\<lambda>v. m_nPkTotal_update (\<lambda>_. v)),
      get_d (-1424) (\<lambda>v. m_nPhoneCount_update (\<lambda>_. v)),
      get_d (-1424) (\<lambda>v. m_nMsgLevel_update (\<lambda>_. v)),
      get_d (-1424) (\<lambda>v. m_nEcid_update (\<lambda>_. v)),
      get_d (-1424) (\<lambda>v. m_nPreNodeid_update (\<lambda>_. v)),
      get_d (-1424) (\<lambda>v. m_nLocalNodeid_update (\<lambda>_. v)),
      get_d (-1424) (\<lambda>v. m_nGateId_update (\<lambda>_. v)),
      get_d (-1424) (\<lambda>v. m_nBatchType_update (\<lambda>_. v)),
      get_d (-1424) (\<lambda>v. m_nRptFlag_update (\<lambda>_. v)),
      get_d (-1424) (\<lambda>v. m_nRptFrom_update (\<lambda>_. v)),
      get_d (-1424) (\<lambda>v. m_nTpudhi_update (\<lambda>_. v)),
      get_d (-1424) (\<lambda>v. m_nTppid_update (\<lambda>_. v)),
      get_d (-1424) (\<lambda>v. m_nLongMsgSeq_update (\<lambda>_. v)),
      get_d (-1424) (\<lambda>v. m_nChargeNum_update (\<lambda>_. v))]"

definition transStringToRe_ints2 :: "parse_step list" where
  "transStringToRe_ints2 =
     [get_d (-1424) (\<lambda>v. m_nSignPos_update (\<lambda>_. v)),
      get_d (-1424) (\<lambda>v. m_nFileSize_update (\<lambda>_. v)),
      get_d (-1424) (\<lambda>v. m_nMmstype_update (\<lambda>_. v)),
      get_d (-1424) (\<lambda>v. m_nMobileCountry_update (\<lambda>_. v)),
      get_d (-1424) (\<lambda>v. m_nMobileArea_update (\<lambda>_. v)),
      get_d (-1424) (\<lambda>v. m_nMobileCity_update (\<lambda>_. v)),
      get_d (-1424) (\<lambda>v. m_nMobileType_update (\<lambda>_. v)),
      get_d (-1424) (\<lambda>v. m_nFeeFlag_update (\<lambda>_. v)),
      get_d (-1424) (\<lambda>v. m_nChargeType_update (\<lambda>_. v)),
      get_d (-1424) (\<lambda>v. m_nChargeRate_update (\<lambda>_. v)),
      get_d (-1424) (\<lambda>v. m_nMsgSeqId_update (\<lambda>_. v)),
      get_d (-1424) (\<lambda>v. m_nDttype_update (\<lambda>_. v)),
      get_d (-1424) (\<lambda>v. m_nSendFlag_update (\<lambda>_. v)),
      get_d (-1424) (\<lambda>v. m_nPassThrough_update (\<lambda>_. v))]"

definition transStringToRe_times :: "parse_step list" where
  "transStringToRe_times =
     [get_ld (-1422) (\<lambda>v. m_nCreateTime_update (\<lambda>_. v)),
      get_ld (-1422) (\<lambda>v. m_nRecvTime_update (\<lambda>_. v)),
      get_ld (-1422) (\<lambda>v. m_nRespTime_update (\<lambda>_. v)),
      get_ld (-1422) (\<lambda>v. m_nInsertTime_update (\<lambda>_. v)),
      get_ld (-1422) (\<lambda>v. m_nSubmitTime_update (\<lambda>_. v)),
      get_ld (-1422) (\<lambda>v. m_nDoneTime_update (\<lambda>_. v)),
      get_ld (-1422) (\<lambda>v. m_nRecvRptTime_update (\<lambda>_. v)),
      get_ld (-1422) (\<lambda>v. m_nTranTime_update (\<lambda>_. v)),
      get_ld (-1422) (\<lambda>v. m_nDealTime_update (\<lambda>_. v)),
      get_ld (-1422) (\<lambda>v. m_nDeliverTime_update (\<lambda>_. v)),
      get_ld (-1422) (\<lambda>v. m_nAttime_update (\<lambda>_. v)),
      get_ld (-1422) (\<lambda>v. m_nValidtime_update (\<lambda>_. v)),
      get_ld (-1422) (\<lambda>v. m_nMsgHashCode_update (\<lambda>_. v)),
      get_ld (-1424) (\<lambda>v. m_nMwBatchId_update (\<lambda>_. v))]"

definition transStringToRe_text :: "parse_step list" where
  "transStringToRe_text =
     [get_b64 (-1422) (\<lambda>v. m_strSpMsgId_update (\<lambda>_. v)),
      get_raw (-1422) (\<lambda>v. m_strPtcode_update (\<lambda>_. v)),
      get_b64 (-1422) (\<lambda>v. m_strUserBatchId_update (\<lambda>_. v)),
      get_b64 (-1422) (\<lambda>v. m_strSvrType_update (\<lambda>_. v)),
      get_b64 (-1422) (\<lambda>v. m_strSignature_update (\<lambda>_. v)),
      get_b64 (-1422) (\<lambda>v. m_strMsgHash256_update (\<lambda>_. v)),
      get_b64 (-1422) (\<lambda>v. m_strCustName_update (\<lambda>_. v)),
      get_b64 (-1422) (\<lambda>v. m_strAccNumber_update (\<lambda>_. v)),
      get_b64 (-1422) (\<lambda>v. m_strBankNumber_update (\<lambda>_. v)),
      get_b64 (-1422) (\<lambda>v. m_strTransSeq_update (\<lambda>_. v)),
      get_b64 (-1422) (\<lambda>v. m_strAccInfo_update (\<lambda>_. v)),
      get_b64 (-1422) (\<lambda>v. m_strChangeMark_update (\<lambda>_. v))]"

definition transStringToRe_text2 :: "parse_step list" where
  "transStringToRe_text2 =
     [get_b64 (-1422) (\<lambda>v. m_strExitSign_update (\<lambda>_. v)),
      get_b64 (-1422) (\<lambda>v. m_strCustNumber_update (\<lambda>_. v)),
      get_b64 (-1422) (\<lambda>v. m_strDepartCode_update (\<lambda>_. v)),
      get_b64 (-1422) (\<lambda>v. m_strSignOrgcode_update (\<lambda>_. v)),
      get_b64 (-1422) (\<lambda>v. m_strReserve_update (\<lambda>_. v)),
      get_b64 (-1422) (\<lambda>v. m_strSubmitter_update (\<lambda>_. v)),
      get_b64 (-1422) (\<lambda>v. m_strReviewer_update (\<lambda>_. v)),
      get_b64 (-1422) (\<lambda>v. m_strSignStatus_update (\<lambda>_. v)),
      get_raw (-1422) (\<lambda>v. m_strMsgSrcIp_update (\<lambda>_. v)),
      get_raw (-1422) (\<lambda>v. m_strSpip_update (\<lambda>_. v)),
      get_raw (-1422) (\<lambda>v. m_strUserId_update (\<lambda>_. v)),
      get_b64 (-1422) (\<lambda>v. m_strPhone_update (\<lambda>_. v))]"

definition transStringToRe_text3 :: "parse_step list" where
  "transStringToRe_text3 =
     [get_b64 (-1422) (\<lambda>v. m_strMsgContent_update (\<lambda>_. v)),
      get_b64 (-1422) (\<lambda>v. m_strUserCustid_update (\<lambda>_. v)),
      get_b64 (-1422) (\<lambda>v. m_strUserExData_update (\<lambda>_. v)),
      get_raw (-1422) (\<lambda>v. m_strSpNumber_update (\<lambda>_. v)),
      get_raw (-1422) (\<lambda>v. m_strSpGate_update (\<lambda>_. v)),
      get_raw (-1422) (\<lambda>v. m_strCpno_update (\<lambda>_. v)),
      get_raw (-1422) (\<lambda>v. m_strExno_update (\<lambda>_. v)),
      get_b64 (-1422) (\<lambda>v. m_strServiceNo_update (\<lambda>_. v)),
      get_b64 (-1422) (\<lambda>v. m_strAuthenInfo_update (\<lambda>_. v)),
      get_b64 (-1422) (\<lambda>v. m_strFileName_update (\<lambda>_. v))]"

definition transStringToRe_text4 :: "parse_step list" where
  "transStringToRe_text4 =
     [get_b64 (-1422) (\<lambda>v. m_strSeqNo_update (\<lambda>_. v)),
      get_b64 (-1422) (\<lambda>v. m_strTplid_update (\<lambda>_. v)),
      get_b64 (-1422) (\<lambda>v. m_strMmsTitle_update (\<lambda>_. v)),
      get_b64 (-1422) (\<lambda>v. m_strMmsMsgPath_update (\<lambda>_. v)),
      get_raw (-1422) (\<lambda>v. m_strErrorCode_update (\<lambda>_. v)),
      get_raw (-1422) (\<lambda>v. m_strErrorCode2_update (\<lambda>_. v)),
      get_b64 (-1422) (\<lambda>v. m_strErrorMsg_update (\<lambda>_. v)),
      get_raw (-1422) (\<lambda>v. m_strSubmitDate_update (\<lambda>_. v))]"

definition transStringToRe :: "string \<Rightarrow> RemainObj list \<Rightarrow> int \<times> RemainObj list" where
  "transStringToRe pBuf objVect =
     (case run_steps (transStringToRe_head @ transStringToRe_ints @ transStringToRe_ints2 @ transStringToRe_times @ transStringToRe_text @ transStringToRe_text2 @ transStringToRe_text3 @ transStringToRe_text4) (pBuf, RemainObj_init) of
        Inl e \<Rightarrow> (e, objVect)
      | Inr st \<Rightarrow> (0, objVect @ [get_last (\<lambda>v. m_strDoneDate_update (\<lambda>_. v)) st]))"

section \<open>Uplink messages\<close>

subsection \<open>Writer\<close>

definition transMo_head :: "RemainObj \<Rightarrow> string" where
  "transMo_head obj =
     put_ld (m_nPtMsgId obj) @
     put_ld (m_nSuppMsgId obj) @
     put_ld (m_nInitMgsId obj) @
     put_d (m_nMsgFmt obj) @
     put_d (bitFlag obj)"

definition transMo_ints :: "RemainObj \<Rightarrow> string" where
  "transMo_ints obj =
     put_d (m_nPkNumber obj) @
     put_d (m_nPkTotal obj) @
     put_d (m_nPhoneCount obj) @
     put_d (m_nMsgLevel obj) @
     put_d (m_nEcid obj) @
     put_d (m_nPreNodeid obj) @
     put_d (m_nLocalNodeid obj) @
     put_d (m_nGateId obj) @
     put_d (m_nBatchType obj) @
     put_d (m_nRptFlag obj) @
     put_d (m_nRptFrom obj) @
     put_d (m_nTpudhi obj) @
     put_d (m_nTppid obj) @
     put_d (m_nLongMsgSeq obj) @
     put_d (m_nChargeNum obj)"

definition transMo_ints2 :: "RemainObj \<Rightarrow> string" where
  "transMo_ints2 obj =
     put_d (m_nSignPos obj) @
     put_d (m_nFileSize obj) @
     put_d (m_nMmstype obj) @
     put_d (m_nMobileCountry obj) @
     put_d (m_nMobileArea obj) @
     put_d (m_nMobileCity obj) @
     put_d (m_nMobileType obj) @
     put_d (m_nFeeFlag obj) @
     put_d (m_nChargeType obj) @
     put_d (m_nChargeRate obj) @
     put_d (m_nMsgSeqId obj) @
     put_d (m_nDttype obj) @
     put_d (m_nSendFlag obj) @
     put_d (m_nPassThrough obj)"

definition transMo_times :: "RemainObj \<Rightarrow> string" where
  "transMo_times obj =
     put_ld (m_nCreateTime obj) @
     put_ld (m_nRecvTime obj) @
     put_ld (m_nRespTime obj) @
     put_ld (m_nInsertTime obj) @
     put_ld (m_nSubmitTime obj) @
     put_ld (m_nDoneTime obj) @
     put_ld (m_nRecvRptTime obj) @
     put_ld (m_nTranTime obj) @
     put_ld (m_nDealTime obj) @
     put_ld (m_nDeliverTime obj) @
     put_ld (m_nAttime obj) @
     put_ld (m_nValidtime obj) @
     put_ld (m_nMsgHashCode obj) @
     put_ld (m_nMwBatchId obj)"

definition transMo_text :: "RemainObj \<Rightarrow> string" where
  "transMo_text obj =
     put_b64 (m_strSpMsgId obj) @
     put_raw (m_strPtcode obj) @
     put_b64 (m_strUserBatchId obj) @
     put_b64 (m_strSvrType obj) @
     put_b64 (m_strSignature obj) @
     put_b64 (m_strMsgHash256 obj) @
     put_b64 (m_strCustName obj) @
     put_b64 (m_strAccNumber obj) @
     put_b64 (m_strBankNumber obj) @
     put_b64 (m_strTransSeq obj) @
     put_b64 (m_strAccInfo obj) @
     put_b64 (m_strChangeMark obj)"

definition transMo_text2 :: "RemainObj \<Rightarrow> string" where
  "transMo_text2 obj =
     put_b64 (m_strExitSign obj) @
     put_b64 (m_strCustNumber obj) @
     put_b64 (m_strDepartCode obj) @
     put_b64 (m_strSignOrgcode obj) @
     put_b64 (m_strReserve obj) @
     put_b64 (m_strSubmitter obj) @
     put_b64 (m_strReviewer obj) @
     put_b64 (m_strSignStatus obj) @
     put_raw (m_strMsgSrcIp obj) @
     put_raw (m_strSpip obj) @
     put_raw (m_strUserId obj) @
     put_b64 (m_strPhone obj)"

definition transMo_text3 :: "RemainObj \<Rightarrow> string" where
  "transMo_text3 obj =
     put_b64 (m_strMsgContent obj) @
     put_b64 (m_strUserCustid obj) @
     put_b64 (m_strUserExData obj) @
     put_raw (m_strSpNumber obj) @
     put_raw (m_strSpGate obj) @
     put_raw (m_strCpno obj) @
     put_raw (m_strExno obj) @
     put_b64 (m_strServiceNo obj) @
     put_b64 (m_strAuthenInfo obj) @
     put_b64 (m_strFileName obj)"

definition transMo_text4 :: "RemainObj \<Rightarrow> string" where
  "transMo_text4 obj =
     put_b64 (m_strSeqNo obj) @
     put_b64 (m_strTplid obj) @
     put_b64 (m_strMmsTitle obj) @
     put_b64 (m_strMmsMsgPath obj) @
     put_raw (m_strErrorCode obj) @
     put_raw (m_strErrorCode2 obj) @
     put_b64 (m_strErrorMsg obj) @
     put_raw (m_strSubmitDate obj)"

definition transMoToString :: "RemainObj \<Rightarrow> string" where
  "transMoToString obj =
     transMo_head obj @ transMo_ints obj @ transMo_ints2 obj @ transMo_times obj @ transMo_text obj @ transMo_text2 obj @ transMo_text3 obj @ transMo_text4 obj @
     m_strDoneDate obj @ [CR, LF]"

subsection \<open>Reader\<close>

definition transStringToMo_head :: "parse_step list" where
  "transStringToMo_head =
     [get_ld (-1422) (\<lambda>v. m_nPtMsgId_update (\<lambda>_. v)),
      get_ld (-1422) (\<lambda>v. m_nSuppMsgId_update (\<lambda>_. v)),
      get_ld (-1422) (\<lambda>v. m_nInitMgsId_update (\<lambda>_. v)),
      get_d (-1424) (\<lambda>v. m_nMsgFmt_update (\<lambda>_. v)),
      get_d (-1424) (\<lambda>v. bitFlag_update (\<lambda>_. v)),
      check_flag (-1426) MO_FLAG]"

definition transStringToMo_ints :: "parse_step list" where
  "transStringToMo_ints =
     [get_d (-1424) (\<lambda>v. m_nPkNumber_update (\<lambda>_. v)),
      get_d (-1424) (\<lambda>v. m_nPkTotal_update (\<lambda>_. v)),
      get_d (-1424) (\<lambda>v. m_nPhoneCount_update (\<lambda>_. v)),
      get_d (-1424) (\<lambda>v. m_nMsgLevel_update (\<lambda>_. v)),
      get_d (-1424) (\<lambda>v. m_nEcid_update (\<lambda>_. v)),
      get_d (-1424) (\<lambda>v. m_nPreNodeid_update (\<lambda>_. v)),
      get_d (-1424) (\<lambda>v. m_nLocalNodeid_update (\<lambda>_. v)),
      get_d (-1424) (\<lambda>v. m_nGateId_update (\<lambda>_. v)),
      get_d (-1424) (\<lambda>v. m_nBatchType_update (\<lambda>_. v)),
      get_d (-1424) (\<lambda>v. m_nRptFlag_update (\<lambda>_. v)),
      get_d (-1424) (\<lambda>v. m_nRptFrom_update (\<lambda>_. v)),
      get_d (-1424) (\<lambda>v. m_nTpudhi_update (\<lambda>_. v)),
      get_d (-1424) (\<lambda>v. m_nTppid_update (\<lambda>_. v)),
      get_d (-1424) (\<lambda>v. m_nLongMsgSeq_update (\<lambda>_. v)),
      get_d (-1424) (\<lambda>v. m_nChargeNum_update (\<lambda>_. v))]"

definition transStringToMo_ints2 :: "parse_step list" where
  "transStringToMo_ints2 =
     [get_d (-1424) (\<lambda>v. m_nSignPos_update (\<lambda>_. v)),
      get_d (-1424) (\<lambda>v. m_nFileSize_update (\<lambda>_. v)),
      get_d (-1424) (\<lambda>v. m_nMmstype_update (\<lambda>_. v)),
      get_d (-1424) (\<lambda>v. m_nMobileCountry_update (\<lambda>_. v)),
      get_d (-1424) (\<lambda>v. m_nMobileArea_update (\<lambda>_. v)),
      get_d (-1424) (\<lambda>v. m_nMobileCity_update (\<lambda>_. v)),
      get_d (-1424) (\<lambda>v. m_nMobileType_update (\<lambda>_. v)),
      get_d (-1424) (\<lambda>v. m_nFeeFlag_update (\<lambda>_. v)),
      get_d (-1424) (\<lambda>v. m_nChargeType_update (\<lambda>_. v)),
      get_d (-1424) (\<lambda>v. m_nChargeRate_update (\<lambda>_. v)),
      get_d (-1424) (\<lambda>v. m_nMsgSeqId_update (\<lambda>_. v)),
      get_d (-1424) (\<lambda>v. m_nDttype_update (\<lambda>_. v)),
      get_d (-1424) (\<lambda>v. m_nSendFlag_update (\<lambda>_. v)),
      get_d (-1424) (\<lambda>v. m_nPassThrough_update (\<lambda>_. v))]"

definition transStringToMo_times :: "parse_step list" where
  "transStringToMo_times =
     [get_ld (-1422) (\<lambda>v. m_nCreateTime_update (\<lambda>_. v)),
      get_ld (-1422) (\<lambda>v. m_nRecvTime_update (\<lambda>_. v)),
      get_ld (-1422) (\<lambda>v. m_nRespTime_update (\<lambda>_. v)),
      get_ld (-1422) (\<lambda>v. m_nInsertTime_update (\<lambda>_. v)),
      get_ld (-1422) (\<lambda>v. m_nSubmitTime_update (\<lambda>_. v)),
      get_ld (-1422) (\<lambda>v. m_nDoneTime_update (\<lambda>_. v)),
      get_ld (-1422) (\<lambda>v. m_nRecvRptTime_update (\<lambda>_. v)),
      get_ld (-1422) (\<lambda>v. m_nTranTime_update (\<lambda>_. v)),
      get_ld (-1422) (\<lambda>v. m_nDealTime_update (\<lambda>_. v)),
      get_ld (-1422) (\<lambda>v. m_nDeliverTime_update (\<lambda>_. v)),
      get_ld (-1422) (\<lambda>v. m_nAttime_update (\<lambda>_. v)),
      get_ld (-1422) (\<lambda>v. m_nValidtime_update (\<lambda>_. v)),
      get_ld (-1422) (\<lambda>v. m_nMsgHashCode_update (\<lambda>_. v)),
      get_ld (-1424) (\<lambda>v. m_nMwBatchId_update (\<lambda>_. v))]"

definition transStringToMo_text :: "parse_step list" where
  "transStringToMo_text =
     [get_b64 (-1422) (\<lambda>v. m_strSpMsgId_update (\<lambda>_. v)),
      get_raw (-1422) (\<lambda>v. m_strPtcode_update (\<lambda>_. v)),
      get_b64 (-1422) (\<lambda>v. m_strUserBatchId_update (\<lambda>_. v)),
      get_b64 (-1422) (\<lambda>v. m_strSvrType_update (\<lambda>_. v)),
      get_b64 (-1422) (\<lambda>v. m_strSignature_update (\<lambda>_. v)),
      get_b64 (-1422) (\<lambda>v. m_strMsgHash256_update (\<lambda>_. v)),
      get_b64 (-1422) (\<lambda>v. m_strCustName_update (\<lambda>_. v)),
      get_b64 (-1422) (\<lambda>v. m_strAccNumber_update (\<lambda>_. v)),
      get_b64 (-1422) (\<lambda>v. m_strBankNumber_update (\<lambda>_. v)),
      get_b64 (-1422) (\<lambda>v. m_strTransSeq_update (\<lambda>_. v)),
      get_b64 (-1422) (\<lambda>v. m_strAccInfo_update (\<lambda>_. v)),
      get_b64 (-1422) (\<lambda>v. m_strChangeMark_update (\<lambda>_. v))]"

definition transStringToMo_text2 :: "parse_step list" where
  "transStringToMo_text2 =
     [get_b64 (-1422) (\<lambda>v. m_strExitSign_update (\<lambda>_. v)),
      get_b64 (-1422) (\<lambda>v. m_strCustNumber_update (\<lambda>_. v)),
      get_b64 (-1422) (\<lambda>v. m_strDepartCode_update (\<lambda>_. v)),
      get_b64 (-1422) (\<lambda>v. m_strSignOrgcode_update (\<lambda>_. v)),
      get_b64 (-1422) (\<lambda>v. m_strReserve_update (\<lambda>_. v)),
      get_b64 (-1422) (\<lambda>v. m_strSubmitter_update (\<lambda>_. v)),
      get_b64 (-1422) (\<lambda>v. m_strReviewer_update (\<lambda>_. v)),
      get_b64 (-1422) (\<lambda>v. m_strSignStatus_update (\<lambda>_. v)),
      get_raw (-1422) (\<lambda>v. m_strMsgSrcIp_update (\<lambda>_. v)),
      get_raw (-1422) (\<lambda>v. m_strSpip_update (\<lambda>_. v)),
      get_raw (-1422) (\<lambda>v. m_strUserId_update (\<lambda>_. v)),
      get_b64 (-1422) (\<lambda>v. m_strPhone_update (\<lambda>_. v))]"

definition transStringToMo_text3 :: "parse_step list" where
  "transStringToMo_text3 =
     [get_b64 (-1422) (\<lambda>v. m_strMsgContent_update (\<lambda>_. v)),
      get_b64 (-1422) (\<lambda>v. m_strUserCustid_update (\<lambda>_. v)),
      get_b64 (-1422) (\<lambda>v. m_strUserExData_update (\<lambda>_. v)),
      get_raw (-1422) (\<lambda>v. m_strSpNumber_update (\<lambda>_. v)),
      get_raw (-1422) (\<lambda>v. m_strSpGate_update (\<lambda>_. v)),
      get_raw (-1422) (\<lambda>v. m_strCpno_update (\<lambda>_. v)),
      get_raw (-1422) (\<lambda>v. m_strExno_update (\<lambda>_. v)),
      get_b64 (-1422) (\<lambda>v. m_strServiceNo_update (\<lambda>_. v)),
      get_b64 (-1422) (\<lambda>v. m_strAuthenInfo_update (\<lambda>_. v)),
      get_b64 (-1422) (\<lambda>v. m_strFileName_update (\<lambda>_. v))]"

definition transStringToMo_text4 :: "parse_step list" where
  "transStringToMo_text4 =
     [get_b64 (-1422) (\<lambda>v. m_strSeqNo_update (\<lambda>_. v)),
      get_b64 (-1422) (\<lambda>v. m_strTplid_update (\<lambda>_. v)),
      get_b64 (-1422) (\<lambda>v. m_strMmsTitle_update (\<lambda>_. v)),
      get_b64 (-1422) (\<lambda>v. m_strMmsMsgPath_update (\<lambda>_. v)),
      get_raw (-1422) (\<lambda>v. m_strErrorCode_update (\<lambda>_. v)),
      get_raw (-1422) (\<lambda>v. m_strErrorCode2_update (\<lambda>_. v)),
      get_b64 (-1422) (\<lambda>v. m_strErrorMsg_update (\<lambda>_. v)),
      get_raw (-1422) (\<lambda>v. m_strSubmitDate_update (\<lambda>_. v))]"

definition transStringToMo :: "string \<Rightarrow> RemainObj list \<Rightarrow> int \<times> RemainObj list" where
  "transStringToMo pBuf objVect =
     (case run_steps (transStringToMo_head @ transStringToMo_ints @ transStringToMo_ints2 @ transStringToMo_times @ transStringToMo_text @ transStringToMo_text2 @ transStringToMo_text3 @ transStringToMo_text4) (pBuf, RemainObj_init) of
        Inl e \<Rightarrow> (e, objVect)
      | Inr st \<Rightarrow> (0, objVect @ [get_last (\<lambda>v. m_strDoneDate_update (\<lambda>_. v)) st]))"

section \<open>Downlink messages\<close>

subsection \<open>Writer\<close>

definition transMt_head :: "RemainObj \<Rightarrow> string" where
  "transMt_head obj =
     put_ld (m_nPtMsgId obj) @
     put_ld (m_nSuppMsgId obj) @
     put_ld (m_nInitMgsId obj) @
     put_d (m_nMsgFmt obj) @
     put_d (bitFlag obj)"

definition transMt_ints :: "RemainObj \<Rightarrow> string" where
  "transMt_ints obj =
     put_d (m_nPkNumber obj) @
     put_d (m_nPkTotal obj) @
     put_d (m_nPhoneCount obj) @
     put_d (m_nMsgLevel obj) @
     put_d (m_nEcid obj) @
     put_d (m_nPreNodeid obj) @
     put_d (m_nLocalNodeid obj) @
     put_d (m_nGateId obj) @
     put_d (m_nBatchType obj) @
     put_d (m_nRptFlag obj) @
     put_d (m_nRptFrom obj) @
     put_d (m_nTpudhi obj) @
     put_d (m_nTppid obj) @
     put_d (m_nLongMsgSeq obj) @
     put_d (m_nChargeNum obj)"

definition transMt_ints2 :: "RemainObj \<Rightarrow> string" where
  "transMt_ints2 obj =
     put_d (m_nSignPos obj) @
     put_d (m_nFileSize obj) @
     put_d (m_nMmstype obj) @
     put_d (m_nMobileCountry obj) @
     put_d (m_nMobileArea obj) @
     put_d (m_nMobileCity obj) @
     put_d (m_nMobileType obj) @
     put_d (m_nFeeFlag obj) @
     put_d (m_nChargeType obj) @
     put_d (m_nChargeRate obj) @
     put_d (m_nMsgSeqId obj) @
     put_d (m_nDttype obj) @
     put_d (m_nSendFlag obj) @
     put_d (m_nPassThrough obj)"

definition transMt_times :: "RemainObj \<Rightarrow> string" where
  "transMt_times obj =
     put_ld (m_nCreateTime obj) @
     put_ld (m_nRecvTime obj) @
     put_ld (m_nRespTime obj) @
     put_ld (m_nInsertTime obj) @
     put_ld (m_nSubmitTime obj) @
     put_ld (m_nDoneTime obj) @
     put_ld (m_nRecvRptTime obj) @
     put_ld (m_nTranTime obj) @
     put_ld (m_nDealTime obj) @
     put_ld (m_nDeliverTime obj) @
     put_ld (m_nAttime obj) @
     put_ld (m_nValidtime obj) @
     put_ld (m_nMsgHashCode obj) @
     put_ld (m_nMwBatchId obj)"

definition transMt_text :: "RemainObj \<Rightarrow> string" where
  "transMt_text obj =
     put_b64 (m_strSpMsgId obj) @
     put_raw (m_strPtcode obj) @
     put_b64 (m_strUserBatchId obj) @
     put_b64 (m_strSvrType obj) @
     put_b64 (m_strSignature obj) @
     put_b64 (m_strMsgHash256 obj) @
     put_b64 (m_strCustName obj) @
     put_b64 (m_strAccNumber obj) @
     put_b64 (m_strBankNumber obj) @
     put_b64 (m_strTransSeq obj) @
     put_b64 (m_strAccInfo obj) @
     put_b64 (m_strChangeMark obj)"

definition transMt_text2 :: "RemainObj \<Rightarrow> string" where
  "transMt_text2 obj =
     put_b64 (m_strExitSign obj) @
     put_b64 (m_strCustNumber obj) @
     put_b64 (m_strDepartCode obj) @
     put_b64 (m_strSignOrgcode obj) @
     put_b64 (m_strReserve obj) @
     put_b64 (m_strSubmitter obj) @
     put_b64 (m_strReviewer obj) @
     put_b64 (m_strSignStatus obj) @
     put_raw (m_strMsgSrcIp obj) @
     put_raw (m_strSpip obj) @
     put_raw (m_strUserId obj) @
     put_b64 (m_strPhone obj)"

definition transMt_text3 :: "RemainObj \<Rightarrow> string" where
  "transMt_text3 obj =
     put_b64 (m_strMsgContent obj) @
     put_b64 (m_strUserCustid obj) @
     put_b64 (m_strUserExData obj) @
     put_raw (m_strSpNumber obj) @
     put_raw (m_strSpGate obj) @
     put_raw (m_strCpno obj) @
     put_raw (m_strExno obj) @
     put_b64 (m_strServiceNo obj) @
     put_b64 (m_strAuthenInfo obj) @
     put_b64 (m_strFileName obj)"

definition transMt_text4 :: "RemainObj \<Rightarrow> string" where
  "transMt_text4 obj =
     put_b64 (m_strSeqNo obj) @
     put_b64 (m_strTplid obj) @
     put_b64 (m_strMmsTitle obj) @
     put_b64 (m_strMmsMsgPath obj) @
     put_raw (m_strErrorCode obj) @
     put_raw (m_strErrorCode2 obj) @
     put_b64 (m_strErrorMsg obj) @
     put_raw (m_strSubmitDate obj)"

definition transMtToString :: "RemainObj \<Rightarrow> string" where
  "transMtToString obj =
     transMt_head obj @ transMt_ints obj @ transMt_ints2 obj @ transMt_times obj @ transMt_text obj @ transMt_text2 obj @ transMt_text3 obj @ transMt_text4 obj @
     m_strDoneDate obj @ [CR, LF]"

subsection \<open>Reader\<close>

definition transStringToMt_head :: "parse_step list" where
  "transStringToMt_head =
     [get_ld (-1422) (\<lambda>v. m_nPtMsgId_update (\<lambda>_. v)),
      get_ld (-1422) (\<lambda>v. m_nSuppMsgId_update (\<lambda>_. v)),
      get_ld (-1422) (\<lambda>v. m_nInitMgsId_update (\<lambda>_. v)),
      get_d (-1424) (\<lambda>v. m_nMsgFmt_update (\<lambda>_. v)),
      get_d (-1424) (\<lambda>v. bitFlag_update (\<lambda>_. v)),
      check_flag (-1426) MT_FLAG]"

definition transStringToMt_ints :: "parse_step list" where
  "transStringToMt_ints =
     [get_d (-1424) (\<lambda>v. m_nPkNumber_update (\<lambda>_. v)),
      get_d (-1424) (\<lambda>v. m_nPkTotal_update (\<lambda>_. v)),
      get_d (-1424) (\<lambda>v. m_nPhoneCount_update (\<lambda>_. v)),
      get_d (-1424) (\<lambda>v. m_nMsgLevel_update (\<lambda>_. v)),
      get_d (-1424) (\<lambda>v. m_nEcid_update (\<lambda>_. v)),
      get_d (-1424) (\<lambda>v. m_nPreNodeid_update (\<lambda>_. v)),
      get_d (-1424) (\<lambda>v. m_nLocalNodeid_update (\<lambda>_. v)),
      get_d (-1424) (\<lambda>v. m_nGateId_update (\<lambda>_. v)),
      get_d (-1424) (\<lambda>v. m_nBatchType_update (\<lambda>_. v)),
      get_d (-1424) (\<lambda>v. m_nRptFlag_update (\<lambda>_. v)),
      get_d (-1424) (\<lambda>v. m_nRptFrom_update (\<lambda>_. v)),
      get_d (-1424) (\<lambda>v. m_nTpudhi_update (\<lambda>_. v)),
      get_d (-1424) (\<lambda>v. m_nTppid_update (\<lambda>_. v)),
      get_d (-1424) (\<lambda>v. m_nLongMsgSeq_update (\<lambda>_. v)),
      get_d (-1424) (\<lambda>v. m_nChargeNum_update (\<lambda>_. v))]"

definition transStringToMt_ints2 :: "parse_step list" where
  "transStringToMt_ints2 =
     [get_d (-1424) (\<lambda>v. m_nSignPos_update (\<lambda>_. v)),
      get_d (-1424) (\<lambda>v. m_nFileSize_update (\<lambda>_. v)),
      get_d (-1424) (\<lambda>v. m_nMmstype_update (\<lambda>_. v)),
      get_d (-1424) (\<lambda>v. m_nMobileCountry_update (\<lambda>_. v)),
      get_d (-1424) (\<lambda>v. m_nMobileArea_update (\<lambda>_. v)),
      get_d (-1424) (\<lambda>v. m_nMobileCity_update (\<lambda>_. v)),
      get_d (-1424) (\<lambda>v. m_nMobileType_update (\<lambda>_. v)),
      get_d (-1424) (\<lambda>v. m_nFeeFlag_update (\<lambda>_. v)),
      get_d (-1424) (\<lambda>v. m_nChargeType_update (\<lambda>_. v)),
      get_d (-1424) (\<lambda>v. m_nChargeRate_update (\<lambda>_. v)),
      get_d (-1424) (\<lambda>v. m_nMsgSeqId_update (\<lambda>_. v)),
      get_d (-1424) (\<lambda>v. m_nDttype_update (\<lambda>_. v)),
      get_d (-1424) (\<lambda>v. m_nSendFlag_update (\<lambda>_. v)),
      get_d (-1424) (\<lambda>v. m_nPassThrough_update (\<lambda>_. v))]"

definition transStringToMt_times :: "parse_step list" where
  "transStringToMt_times =
     [get_ld (-1422) (\<lambda>v. m_nCreateTime_update (\<lambda>_. v)),
      get_ld (-1422) (\<lambda>v. m_nRecvTime_update (\<lambda>_. v)),
      get_ld (-1422) (\<lambda>v. m_nRespTime_update (\<lambda>_. v)),
      get_ld (-1422) (\<lambda>v. m_nInsertTime_update (\<lambda>_. v)),
      get_ld (-1422) (\<lambda>v. m_nSubmitTime_update (\<lambda>_. v)),
      get_ld (-1422) (\<lambda>v. m_nDoneTime_update (\<lambda>_. v)),
      get_ld (-1422) (\<lambda>v. m_nRecvRptTime_update (\<lambda>_. v)),
      get_ld (-1422) (\<lambda>v. m_nTranTime_update (\<lambda>_. v)),
      get_ld (-1422) (\<lambda>v. m_nDealTime_update (\<lambda>_. v)),
      get_ld (-1422) (\<lambda>v. m_nDeliverTime_update (\<lambda>_. v)),
      get_ld (-1422) (\<lambda>v. m_nAttime_update (\<lambda>_. v)),
      get_ld (-1422) (\<lambda>v. m_nValidtime_update (\<lambda>_. v)),
      get_ld (-1422) (\<lambda>v. m_nMsgHashCode_update (\<lambda>_. v)),
      get_ld (-1424) (\<lambda>v. m_nMwBatchId_update (\<lambda>_. v))]"

definition transStringToMt_text :: "parse_step list" where
  "transStringToMt_text =
     [get_b64 (-1422) (\<lambda>v. m_strSpMsgId_update (\<lambda>_. v)),
      get_raw (-1422) (\<lambda>v. m_strPtcode_update (\<lambda>_. v)),
      get_b64 (-1422) (\<lambda>v. m_strUserBatchId_update (\<lambda>_. v)),
      get_b64 (-1422) (\<lambda>v. m_strSvrType_update (\<lambda>_. v)),
      get_b64 (-1422) (\<lambda>v. m_strSignature_update (\<lambda>_. v)),
      get_b64 (-1422) (\<lambda>v. m_strMsgHash256_update (\<lambda>_. v)),
      get_b64 (-1422) (\<lambda>v. m_strCustName_update (\<lambda>_. v)),
      get_b64 (-1422) (\<lambda>v. m_strAccNumber_update (\<lambda>_. v)),
      get_b64 (-1422) (\<lambda>v. m_strBankNumber_update (\<lambda>_. v)),
      get_b64 (-1422) (\<lambda>v. m_strTransSeq_update (\<lambda>_. v)),
      get_b64 (-1422) (\<lambda>v. m_strAccInfo_update (\<lambda>_. v)),
      get_b64 (-1422) (\<lambda>v. m_strChangeMark_update (\<lambda>_. v))]"

definition transStringToMt_text2 :: "parse_step list" where
  "transStringToMt_text2 =
     [get_b64 (-1422) (\<lambda>v. m_strExitSign_update (\<lambda>_. v)),
      get_b64 (-1422) (\<lambda>v. m_strCustNumber_update (\<lambda>_. v)),
      get_b64 (-1422) (\<lambda>v. m_strDepartCode_update (\<lambda>_. v)),
      get_b64 (-1422) (\<lambda>v. m_strSignOrgcode_update (\<lambda>_. v)),
      get_b64 (-1422) (\<lambda>v. m_strReserve_update (\<lambda>_. v)),
      get_b64 (-1422) (\<lambda>v. m_strSubmitter_update (\<lambda>_. v)),
      get_b64 (-1422) (\<lambda>v. m_strReviewer_update (\<lambda>_. v)),
      get_b64 (-1422) (\<lambda>v. m_strSignStatus_update (\<lambda>_. v)),
      get_raw (-1422) (\<lambda>v. m_strMsgSrcIp_update (\<lambda>_. v)),
      get_raw (-1422) (\<lambda>v. m_strSpip_update (\<lambda>_. v)),
      get_raw (-1422) (\<lambda>v. m_strUserId_update (\<lambda>_. v)),
      get_b64 (-1422) (\<lambda>v. m_strPhone_update (\<lambda>_. v))]"

definition transStringToMt_text3 :: "parse_step list" where
  "transStringToMt_text3 =
     [get_b64 (-1422) (\<lambda>v. m_strMsgContent_update (\<lambda>_. v)),
      get_b64 (-1422) (\<lambda>v. m_strUserCustid_update (\<lambda>_. v)),
      get_b64 (-1422) (\<lambda>v. m_strUserExData_update (\<lambda>_. v)),
      get_raw (-1422) (\<lambda>v. m_strSpNumber_update (\<lambda>_. v)),
      get_raw (-1422) (\<lambda>v. m_strSpGate_update (\<lambda>_. v)),
      get_raw (-1422) (\<lambda>v. m_strCpno_update (\<lambda>_. v)),
      get_raw (-1422) (\<lambda>v. m_strExno_update (\<lambda>_. v)),
      get_b64 (-1422) (\<lambda>v. m_strServiceNo_update (\<lambda>_. v)),
      get_b64 (-1422) (\<lambda>v. m_strAuthenInfo_update (\<lambda>_. v)),
      get_b64 (-1422) (\<lambda>v. m_strFileName_update (\<lambda>_. v))]"

definition transStringToMt_text4 :: "parse_step list" where
  "transStringToMt_text4 =
     [get_b64 (-1422) (\<lambda>v. m_strSeqNo_update (\<lambda>_. v)),
      get_b64 (-1422) (\<lambda>v. m_strTplid_update (\<lambda>_. v)),
      get_b64 (-1422) (\<lambda>v. m_strMmsTitle_update (\<lambda>_. v)),
      get_b64 (-1422) (\<lambda>v. m_strMmsMsgPath_update (\<lambda>_. v)),
      get_raw (-1422) (\<lambda>v. m_strErrorCode_update (\<lambda>_. v)),
      get_raw (-1422) (\<lambda>v. m_strErrorCode2_update (\<lambda>_. v)),
      get_b64 (-1422) (\<lambda>v. m_strErrorMsg_update (\<lambda>_. v)),
      get_raw (-1422) (\<lambda>v. m_strSubmitDate_update (\<lambda>_. v))]"

definition transStringToMt :: "string \<Rightarrow> RemainObj list \<Rightarrow> int \<times> RemainObj list" where
  "transStringToMt pBuf objVect =
     (case run_steps (transStringToMt_head @ transStringToMt_ints @ transStringToMt_ints2 @ transStringToMt_times @ transStringToMt_text @ transStringToMt_text2 @ transStringToMt_text3 @ transStringToMt_text4) (pBuf, RemainObj_init) of
        Inl e \<Rightarrow> (e, objVect)
      | Inr st \<Rightarrow> (0, objVect @ [get_last (\<lambda>v. m_strDoneDate_update (\<lambda>_. v)) st]))"

section \<open>Fields read back\<close>

text \<open>
  The contract of a field: its text contains no separator, and the reader, given the text with a
  comma behind it, gives the value back.
\<close>

locale field_codec =
  fixes text_of :: "'a \<Rightarrow> string"
    and read_of :: "string \<Rightarrow> string \<Rightarrow> 'a"
    and ok :: "'a \<Rightarrow> bool"
  assumes no_sep: "ok v \<Longrightarrow> {comma, CR, NUL} \<inter> set (text_of v) = {}"
    and read_text: "ok v \<Longrightarrow> read_of (text_of v @ comma # rest) (text_of v) = v"
begin

lemma step: "ok v \<Longrightarrow>
    get_field err (\<lambda>p t. upd (read_of p t)) ((text_of v @ [comma]) @ rest, ob) = Inr (rest, upd v ob)"
  using no_sep [of v] read_text [of v rest] by (simp add: get_field_def)

lemma clean: "ok v \<Longrightarrow> CR \<notin> set (text_of v @ [comma]) \<and> NUL \<notin> set (text_of v @ [comma])"
  using no_sep [of v] by auto

end

definition raw_ok :: "string \<Rightarrow> bool" where
  "raw_ok s \<longleftrightarrow> list_all (\<lambda>c. c \<noteq> comma \<and> c \<noteq> CR \<and> c \<noteq> NUL) s"

lemma b64_text_ref: "b64_text s = b64_enc s"
  by (cases "s = []") (simp_all add: b64_text_def Encode_ref, simp add: Encode_def)

lemma unb64_text_ref: "unb64_text (b64_enc s) = s"
  using Decode_ref [of "b64_enc s" True s "[]"] b64_roundtrip [of 0 s]
  by (cases "s = []") (simp_all add: unb64_text_def, simp add: Decode_def)

interpretation d: field_codec sprintf_d "\<lambda>p _. atoi p" "\<lambda>_. True"
  using show_int_clean by unfold_locales (auto simp: sprintf_d_def atoi_sprintf_d [unfolded sprintf_d_def] is_digit_def)

interpretation ld: field_codec sprintf_ld "\<lambda>p _. strtoul p" "\<lambda>_. True"
  using show_int_clean by unfold_locales (auto simp: sprintf_ld_def strtoul_sprintf_ld [unfolded sprintf_ld_def] is_digit_def)

interpretation b64f: field_codec b64_text "\<lambda>_ t. unb64_text t" "\<lambda>_. True"
  using b64_enc_clean by unfold_locales (auto simp: b64_text_ref unb64_text_ref)

interpretation rawf: field_codec "\<lambda>s. s" "\<lambda>_ t. t" raw_ok
  by unfold_locales (auto simp: raw_ok_def list_all_iff)

lemmas get_put [simp] =
  d.step [OF TrueI, folded get_d_def put_d_def] ld.step [OF TrueI, folded get_ld_def put_ld_def]
  b64f.step [OF TrueI, folded get_b64_def put_b64_def] rawf.step [folded get_raw_def put_raw_def]

lemmas put_clean [simp] =
  d.clean [OF TrueI, folded put_d_def] ld.clean [OF TrueI, folded put_ld_def]
  b64f.clean [OF TrueI, folded put_b64_def] rawf.clean [folded put_raw_def]

lemma run_steps_append:
  "run_steps (fs @ gs) st = (case run_steps fs st of Inl e \<Rightarrow> Inl e | Inr st' \<Rightarrow> run_steps gs st')"
  by (induction fs arbitrary: st) (auto split: sum.splits)

section \<open>Groups of fields read back\<close>

definition copy_head :: "RemainObj \<Rightarrow> RemainObj \<Rightarrow> RemainObj" where
  "copy_head a b = b\<lparr>m_nPtMsgId := m_nPtMsgId a, m_nSuppMsgId := m_nSuppMsgId a, m_nInitMgsId := m_nInitMgsId a, m_nMsgFmt := m_nMsgFmt a, bitFlag := bitFlag a\<rparr>"

definition copy_ints :: "RemainObj \<Rightarrow> RemainObj \<Rightarrow> RemainObj" where
  "copy_ints a b = b\<lparr>m_nPkNumber := m_nPkNumber a, m_nPkTotal := m_nPkTotal a, m_nPhoneCount := m_nPhoneCount a, m_nMsgLevel := m_nMsgLevel a, m_nEcid := m_nEcid a, m_nPreNodeid := m_nPreNodeid a, m_nLocalNodeid := m_nLocalNodeid a, m_nGateId := m_nGateId a, m_nBatchType := m_nBatchType a, m_nRptFlag := m_nRptFlag a, m_nRptFrom := m_nRptFrom a, m_nTpudhi := m_nTpudhi a, m_nTppid := m_nTppid a, m_nLongMsgSeq := m_nLongMsgSeq a, m_nChargeNum := m_nChargeNum a\<rparr>"

definition copy_ints2 :: "RemainObj \<Rightarrow> RemainObj \<Rightarrow> RemainObj" where
  "copy_ints2 a b = b\<lparr>m_nSignPos := m_nSignPos a, m_nFileSize := m_nFileSize a, m_nMmstype := m_nMmstype a, m_nMobileCountry := m_nMobileCountry a, m_nMobileArea := m_nMobileArea a, m_nMobileCity := m_nMobileCity a, m_nMobileType := m_nMobileType a, m_nFeeFlag := m_nFeeFlag a, m_nChargeType := m_nChargeType a, m_nChargeRate := m_nChargeRate a, m_nMsgSeqId := m_nMsgSeqId a, m_nDttype := m_nDttype a, m_nSendFlag := m_nSendFlag a, m_nPassThrough := m_nPassThrough a\<rparr>"

definition copy_times :: "RemainObj \<Rightarrow> RemainObj \<Rightarrow> RemainObj" where
  "copy_times a b = b\<lparr>m_nCreateTime := m_nCreateTime a, m_nRecvTime := m_nRecvTime a, m_nRespTime := m_nRespTime a, m_nInsertTime := m_nInsertTime a, m_nSubmitTime := m_nSubmitTime a, m_nDoneTime := m_nDoneTime a, m_nRecvRptTime := m_nRecvRptTime a, m_nTranTime := m_nTranTime a, m_nDealTime := m_nDealTime a, m_nDeliverTime := m_nDeliverTime a, m_nAttime := m_nAttime a, m_nValidtime := m_nValidtime a, m_nMsgHashCode := m_nMsgHashCode a, m_nMwBatchId := m_nMwBatchId a\<rparr>"

definition copy_text :: "RemainObj \<Rightarrow> RemainObj \<Rightarrow> RemainObj" where
  "copy_text a b = b\<lparr>m_strSpMsgId := m_strSpMsgId a, m_strPtcode := m_strPtcode a, m_strUserBatchId := m_strUserBatchId a, m_strSvrType := m_strSvrType a, m_strSignature := m_strSignature a, m_strMsgHash256 := m_strMsgHash256 a, m_strCustName := m_strCustName a, m_strAccNumber := m_strAccNumber a, m_strBankNumber := m_strBankNumber a, m_strTransSeq := m_strTransSeq a, m_strAccInfo := m_strAccInfo a, m_strChangeMark := m_strChangeMark a\<rparr>"

definition copy_text2 :: "RemainObj \<Rightarrow> RemainObj \<Rightarrow> RemainObj" where
  "copy_text2 a b = b\<lparr>m_strExitSign := m_strExitSign a, m_strCustNumber := m_strCustNumber a, m_strDepartCode := m_strDepartCode a, m_strSignOrgcode := m_strSignOrgcode a, m_strReserve := m_strReserve a, m_strSubmitter := m_strSubmitter a, m_strReviewer := m_strReviewer a, m_strSignStatus := m_strSignStatus a, m_strMsgSrcIp := m_strMsgSrcIp a, m_strSpip := m_strSpip a, m_strUserId := m_strUserId a, m_strPhone := m_strPhone a\<rparr>"

definition copy_text3 :: "RemainObj \<Rightarrow> RemainObj \<Rightarrow> RemainObj" where
  "copy_text3 a b = b\<lparr>m_strMsgContent := m_strMsgContent a, m_strUserCustid := m_strUserCustid a, m_strUserExData := m_strUserExData a, m_strSpNumber := m_strSpNumber a, m_strSpGate := m_strSpGate a, m_strCpno := m_strCpno a, m_strExno := m_strExno a, m_strServiceNo := m_strServiceNo a, m_strAuthenInfo := m_strAuthenInfo a, m_strFileName := m_strFileName a\<rparr>"

definition copy_text4 :: "RemainObj \<Rightarrow> RemainObj \<Rightarrow> RemainObj" where
  "copy_text4 a b = b\<lparr>m_strSeqNo := m_strSeqNo a, m_strTplid := m_strTplid a, m_strMmsTitle := m_strMmsTitle a, m_strMmsMsgPath := m_strMmsMsgPath a, m_strErrorCode := m_strErrorCode a, m_strErrorCode2 := m_strErrorCode2 a, m_strErrorMsg := m_strErrorMsg a, m_strSubmitDate := m_strSubmitDate a\<rparr>"

text \<open>
  What a message must satisfy to survive a file: the texts that are written as they are contain
  no comma, carriage return or NUL (the last one may contain commas).
\<close>

definition remain_ok :: "RemainObj \<Rightarrow> bool" where
  "remain_ok a \<longleftrightarrow> raw_ok (m_strPtcode a) \<and>
     raw_ok (m_strMsgSrcIp a) \<and>
     raw_ok (m_strSpip a) \<and>
     raw_ok (m_strUserId a) \<and>
     raw_ok (m_strSpNumber a) \<and>
     raw_ok (m_strSpGate a) \<and>
     raw_ok (m_strCpno a) \<and>
     raw_ok (m_strExno a) \<and>
     raw_ok (m_strErrorCode a) \<and>
     raw_ok (m_strErrorCode2 a) \<and>
     raw_ok (m_strSubmitDate a) \<and>
     CR \<notin> set (m_strDoneDate a) \<and> NUL \<notin> set (m_strDoneDate a)"

lemma read_Re_head: "bitFlag a = RE_FLAG \<Longrightarrow>
    run_steps transStringToRe_head (transRe_head a @ rest, b) = Inr (rest, copy_head a b)"
  by (simp add: transStringToRe_head_def transRe_head_def copy_head_def check_flag_def)

lemma read_Mo_head: "bitFlag a = MO_FLAG \<Longrightarrow>
    run_steps transStringToMo_head (transMo_head a @ rest, b) = Inr (rest, copy_head a b)"
  by (simp add: transStringToMo_head_def transMo_head_def copy_head_def check_flag_def)

lemma read_Mt_head: "bitFlag a = MT_FLAG \<Longrightarrow>
    run_steps transStringToMt_head (transMt_head a @ rest, b) = Inr (rest, copy_head a b)"
  by (simp add: transStringToMt_head_def transMt_head_def copy_head_def check_flag_def)

lemma read_Re_ints: "run_steps transStringToRe_ints (transRe_ints a @ rest, b) = Inr (rest, copy_ints a b)"
  by (simp add: transStringToRe_ints_def transRe_ints_def copy_ints_def)

lemma read_Re_ints2: "run_steps transStringToRe_ints2 (transRe_ints2 a @ rest, b) = Inr (rest, copy_ints2 a b)"
  by (simp add: transStringToRe_ints2_def transRe_ints2_def copy_ints2_def)

lemma read_Re_times: "run_steps transStringToRe_times (transRe_times a @ rest, b) = Inr (rest, copy_times a b)"
  by (simp add: transStringToRe_times_def transRe_times_def copy_times_def)

lemma read_Re_text: "remain_ok a \<Longrightarrow>
    run_steps transStringToRe_text (transRe_text a @ rest, b) = Inr (rest, copy_text a b)"
  by (simp add: transStringToRe_text_def transRe_text_def copy_text_def remain_ok_def)

lemma read_Re_text2: "remain_ok a \<Longrightarrow>
    run_steps transStringToRe_text2 (transRe_text2 a @ rest, b) = Inr (rest, copy_text2 a b)"
  by (simp add: transStringToRe_text2_def transRe_text2_def copy_text2_def remain_ok_def)

lemma read_Re_text3: "remain_ok a \<Longrightarrow>
    run_steps transStringToRe_text3 (transRe_text3 a @ rest, b) = Inr (rest, copy_text3 a b)"
  by (simp add: transStringToRe_text3_def transRe_text3_def copy_text3_def remain_ok_def)

lemma read_Re_text4: "remain_ok a \<Longrightarrow>
    run_steps transStringToRe_text4 (transRe_text4 a @ rest, b) = Inr (rest, copy_text4 a b)"
  by (simp add: transStringToRe_text4_def transRe_text4_def copy_text4_def remain_ok_def)

lemmas read_Re = read_Re_head read_Re_ints read_Re_ints2 read_Re_times read_Re_text read_Re_text2 read_Re_text3 read_Re_text4

text \<open>The three copies agree, apart from the flag they check.\<close>

lemma writer_Mo:
  "transMo_head a = transRe_head a" "transMo_ints a = transRe_ints a" "transMo_ints2 a = transRe_ints2 a" "transMo_times a = transRe_times a" "transMo_text a = transRe_text a" "transMo_text2 a = transRe_text2 a" "transMo_text3 a = transRe_text3 a" "transMo_text4 a = transRe_text4 a"
  by (simp_all only: transMo_head_def transRe_head_def transMo_ints_def transRe_ints_def transMo_ints2_def transRe_ints2_def transMo_times_def transRe_times_def transMo_text_def transRe_text_def transMo_text2_def transRe_text2_def transMo_text3_def transRe_text3_def transMo_text4_def transRe_text4_def)

lemma reader_Mo:
  "transStringToMo_ints = transStringToRe_ints" "transStringToMo_ints2 = transStringToRe_ints2" "transStringToMo_times = transStringToRe_times" "transStringToMo_text = transStringToRe_text" "transStringToMo_text2 = transStringToRe_text2" "transStringToMo_text3 = transStringToRe_text3" "transStringToMo_text4 = transStringToRe_text4"
  by (simp_all only: transStringToMo_ints_def transStringToRe_ints_def transStringToMo_ints2_def transStringToRe_ints2_def transStringToMo_times_def transStringToRe_times_def transStringToMo_text_def transStringToRe_text_def transStringToMo_text2_def transStringToRe_text2_def transStringToMo_text3_def transStringToRe_text3_def transStringToMo_text4_def transStringToRe_text4_def)

lemma writer_Mt:
  "transMt_head a = transRe_head a" "transMt_ints a = transRe_ints a" "transMt_ints2 a = transRe_ints2 a" "transMt_times a = transRe_times a" "transMt_text a = transRe_text a" "transMt_text2 a = transRe_text2 a" "transMt_text3 a = transRe_text3 a" "transMt_text4 a = transRe_text4 a"
  by (simp_all only: transMt_head_def transRe_head_def transMt_ints_def transRe_ints_def transMt_ints2_def transRe_ints2_def transMt_times_def transRe_times_def transMt_text_def transRe_text_def transMt_text2_def transRe_text2_def transMt_text3_def transRe_text3_def transMt_text4_def transRe_text4_def)

lemma reader_Mt:
  "transStringToMt_ints = transStringToRe_ints" "transStringToMt_ints2 = transStringToRe_ints2" "transStringToMt_times = transStringToRe_times" "transStringToMt_text = transStringToRe_text" "transStringToMt_text2 = transStringToRe_text2" "transStringToMt_text3 = transStringToRe_text3" "transStringToMt_text4 = transStringToRe_text4"
  by (simp_all only: transStringToMt_ints_def transStringToRe_ints_def transStringToMt_ints2_def transStringToRe_ints2_def transStringToMt_times_def transStringToRe_times_def transStringToMt_text_def transStringToRe_text_def transStringToMt_text2_def transStringToRe_text2_def transStringToMt_text3_def transStringToRe_text3_def transStringToMt_text4_def transStringToRe_text4_def)

text \<open>Copying every group into a fresh object gives the message, with the default folder.\<close>

definition copy_fields :: "RemainObj \<Rightarrow> RemainObj \<Rightarrow> RemainObj" where
  "copy_fields a b = copy_text4 a (copy_text3 a (copy_text2 a (copy_text a (copy_times a (copy_ints2 a (copy_ints a (copy_head a b)))))))"

lemma copy_fields_init:
  "m_strDoneDate_update (\<lambda>_. m_strDoneDate a) (copy_fields a RemainObj_init) = a\<lparr>m_strFragFolder := ''ccb''\<rparr>"
  by (cases a) (simp add: copy_fields_def RemainObj_init_def copy_head_def copy_ints_def copy_ints2_def copy_times_def copy_text_def copy_text2_def copy_text3_def copy_text4_def)

lemma groups_clean:
  assumes "remain_ok a"
  shows "CR \<notin> set (transRe_head a) \<and> NUL \<notin> set (transRe_head a)"

    "CR \<notin> set (transRe_ints a) \<and> NUL \<notin> set (transRe_ints a)"
    "CR \<notin> set (transRe_ints2 a) \<and> NUL \<notin> set (transRe_ints2 a)"
    "CR \<notin> set (transRe_times a) \<and> NUL \<notin> set (transRe_times a)"
    "CR \<notin> set (transRe_text a) \<and> NUL \<notin> set (transRe_text a)"
    "CR \<notin> set (transRe_text2 a) \<and> NUL \<notin> set (transRe_text2 a)"
    "CR \<notin> set (transRe_text3 a) \<and> NUL \<notin> set (transRe_text3 a)"
    "CR \<notin> set (transRe_text4 a) \<and> NUL \<notin> set (transRe_text4 a)"
  using assms by (simp_all add: remain_ok_def transRe_head_def transRe_ints_def transRe_ints2_def transRe_times_def transRe_text_def transRe_text2_def transRe_text3_def transRe_text4_def)

section \<open>Lines\<close>

definition line_of :: "RemainObj \<Rightarrow> string" where
  "line_of a = transRe_head a @ transRe_ints a @ transRe_ints2 a @ transRe_times a @ transRe_text a @
     transRe_text2 a @ transRe_text3 a @ transRe_text4 a @ m_strDoneDate a"

lemma transReToString_line: "transReToString a = line_of a @ [CR, LF]"
  by (simp add: transReToString_def line_of_def)

lemma transMoToString_line: "transMoToString a = line_of a @ [CR, LF]"
  by (simp add: transMoToString_def line_of_def writer_Mo)

lemma transMtToString_line: "transMtToString a = line_of a @ [CR, LF]"
  by (simp add: transMtToString_def line_of_def writer_Mt)

lemma line_clean: "remain_ok a \<Longrightarrow> CR \<notin> set (line_of a) \<and> NUL \<notin> set (line_of a)"
  using groups_clean [of a] by (simp add: line_of_def remain_ok_def)

lemma get_last_clean: "CR \<notin> set s \<Longrightarrow> get_last upd (s, b) = upd s b"
  using find_sub_char [of "[CR, LF]" s] by (simp add: get_last_def strFirstConstStr_ref)

lemma read_groups:
  assumes "remain_ok a"
    and "run_steps hs (transRe_head a @ rest', RemainObj_init) = Inr (rest', copy_head a RemainObj_init)"
    and "rest' = transRe_ints a @ transRe_ints2 a @ transRe_times a @ transRe_text a @
     transRe_text2 a @ transRe_text3 a @ transRe_text4 a @ rest"
  shows "run_steps (hs @ transStringToRe_ints @ transStringToRe_ints2 @ transStringToRe_times @
      transStringToRe_text @ transStringToRe_text2 @ transStringToRe_text3 @ transStringToRe_text4)
      (transRe_head a @ rest', RemainObj_init) = Inr (rest, copy_fields a RemainObj_init)"
  using assms by (simp add: run_steps_append read_Re copy_fields_def)

definition kept :: "RemainObj \<Rightarrow> RemainObj" where
  "kept a = a\<lparr>m_strFragFolder := ''ccb''\<rparr>"

lemma read_line_Re: "remain_ok a \<Longrightarrow> bitFlag a = RE_FLAG \<Longrightarrow> transStringToRe (line_of a) vect = (0, vect @ [kept a])"
  using read_groups [of a transStringToRe_head _ "m_strDoneDate a", OF _ read_Re_head refl]
  by (simp add: transStringToRe_def line_of_def get_last_clean remain_ok_def copy_fields_init kept_def)

lemma read_line_Mo: "remain_ok a \<Longrightarrow> bitFlag a = MO_FLAG \<Longrightarrow> transStringToMo (line_of a) vect = (0, vect @ [kept a])"
  using read_groups [of a transStringToMo_head _ "m_strDoneDate a", OF _ read_Mo_head [unfolded writer_Mo] refl]
  by (simp add: transStringToMo_def line_of_def reader_Mo get_last_clean remain_ok_def copy_fields_init kept_def)

lemma read_line_Mt: "remain_ok a \<Longrightarrow> bitFlag a = MT_FLAG \<Longrightarrow> transStringToMt (line_of a) vect = (0, vect @ [kept a])"
  using read_groups [of a transStringToMt_head _ "m_strDoneDate a", OF _ read_Mt_head [unfolded writer_Mt] refl]
  by (simp add: transStringToMt_def line_of_def reader_Mt get_last_clean remain_ok_def copy_fields_init kept_def)

section \<open>Whole files\<close>

text \<open>
  \<open>transStringToObject\<close>: the loop over the lines of a file. Besides the returned code and the
  vector it records the calls of \<open>RemainMgr::writeRemainFileBak\<close> (the lines that could not be
  read). A line of 3072 characters or more does not fit \<open>lineData\<close>. \<open>pBegin\<close> points into a C
  string, so the file's text is seen up to its first NUL.
\<close>

type_synonym line_reader = "string \<Rightarrow> RemainObj list \<Rightarrow> int \<times> RemainObj list"

definition read_one_line :: "line_reader \<Rightarrow> string \<Rightarrow> RemainObj list \<Rightarrow> string list \<Rightarrow> int \<times> RemainObj list \<times> string list" where
  "read_one_line parse line objVect baks =
     (let (ret, objVect) = (if length line < 3072 then parse line objVect else (- 1428, objVect))
      in (ret, objVect, if ret < 0 then baks @ [line] else baks))"

function read_lines :: "line_reader \<Rightarrow> string \<Rightarrow> int \<Rightarrow> RemainObj list \<Rightarrow> string list \<Rightarrow> int \<times> RemainObj list \<times> string list" where
  "read_lines parse pBegin ret objVect baks =
     (case strFirstConstStr (Some pBegin) [CR, LF] of
        None \<Rightarrow> (ret, objVect, baks)
      | Some pLine \<Rightarrow>
          (case read_one_line parse (take (length pBegin - length pLine) pBegin) objVect baks of
             (ret, objVect, baks) \<Rightarrow> read_lines parse (drop 2 pLine) ret objVect baks))"
  by pat_completeness auto
termination
proof (relation "measure (\<lambda>(parse, p, ret, v, b). length p)", goal_cases)
  case (2 parse p ret v b l)
  then have "find_sub p [CR, LF] = Some l" by (simp add: strFirstConstStr_ref)
  then obtain pre where "p = pre @ l" "take (length [CR, LF]) l = [CR, LF]"
    using find_sub_Some [of "[CR, LF]" p l] by blast
  then show ?case by (cases l) auto
qed simp

declare read_lines.simps [simp del]

definition transStringToObject :: "c_int \<Rightarrow> string \<Rightarrow> RemainObj list \<Rightarrow> int \<times> RemainObj list \<times> string list" where
  "transStringToObject bigFlag remainData objVect =
     (if remainData = [] then (- 1420, objVect, [])
      else if bigFlag = RE_FLAG then read_lines transStringToRe (c_str remainData) 0 objVect []
      else if bigFlag = MO_FLAG then read_lines transStringToMo (c_str remainData) 0 objVect []
      else if bigFlag = MT_FLAG then read_lines transStringToMt (c_str remainData) 0 objVect []
      else (- 1427, objVect, []))"

section \<open>Storing a message\<close>

text \<open>
  The fields of \<open>RemainObjMgr\<close> that guard its operations. \<open>writeRemainObject\<close> and
  \<open>writeRemainObjectBak\<close> end in a call of \<open>RemainMgr::writeRemainFile\<close> or
  \<open>RemainMgr::writeRemainFileBak\<close>, whose arguments are the result here; every earlier return is an
  error code.
\<close>

record RemainObjMgr =
  isExit :: c_int
  isInit :: c_int
  gateNo :: u32
  maxCount :: c_int
  outSecond :: c_int
  sharePath :: string
  localPath :: string

definition RemainObjMgr_init :: RemainObjMgr where
  "RemainObjMgr_init = \<lparr>isExit = 0, isInit = 0, gateNo = 0, maxCount = 0, outSecond = 0, sharePath = [], localPath = []\<rparr>"

definition remainObjMgrExit :: "RemainObjMgr \<Rightarrow> RemainObjMgr" where
  "remainObjMgrExit m = m\<lparr>isExit := 1\<rparr>"

definition remainObjMgrInit :: "string \<Rightarrow> u32 \<Rightarrow> c_int \<Rightarrow> c_int \<Rightarrow> string \<Rightarrow> string \<Rightarrow> RemainObjMgr \<Rightarrow> RemainObjMgr" where
  "remainObjMgrInit locakExePath gate maxN outSeconds share local m =
     m\<lparr>gateNo := gate, maxCount := maxN, outSecond := outSeconds, sharePath := share,
        localPath := (if local = [] then locakExePath else local), isInit := 1\<rparr>"

datatype file_call =
    writeRemainFile c_int string string
  | writeRemainFileBak c_int string string

definition writeRemainObject :: "RemainObjMgr \<Rightarrow> RemainObj \<Rightarrow> int + file_call" where
  "writeRemainObject m obj =
     (if isInit m = 0 then Inl (- 1429)
      else if isExit m \<noteq> 0 then Inl (- 141)
      else (let (ret, msgDetail) =
              (if bitFlag obj = RE_FLAG then (let s = transReToString obj in (if s = [] then - 1414 else 0, s))
               else if bitFlag obj = MO_FLAG then (let s = transMoToString obj in (if s = [] then - 1415 else 0, s))
               else if bitFlag obj = MT_FLAG then (let s = transMtToString obj in (if s = [] then - 1416 else 0, s))
               else (- 145, []))
            in if ret = 0 then Inr (writeRemainFile (bitFlag obj) (m_strFragFolder obj) msgDetail) else Inl ret))"

definition writeRemainObjectBak :: "RemainObjMgr \<Rightarrow> RemainObj \<Rightarrow> int + file_call" where
  "writeRemainObjectBak m obj =
     (if isInit m = 0 then Inl (- 1429)
      else if isExit m \<noteq> 0 then Inl (- 141)
      else (let (ret, msgDetail) =
              (if bitFlag obj = RE_FLAG then (let s = transReToString obj in (if s = [] then - 1417 else 0, s))
               else if bitFlag obj = MO_FLAG then (let s = transMoToString obj in (if s = [] then - 1418 else 0, s))
               else if bitFlag obj = MT_FLAG then (let s = transMtToString obj in (if s = [] then - 1419 else 0, s))
               else (- 144, []))
            in if ret = 0 then Inr (writeRemainFileBak (bitFlag obj) (m_strFragFolder obj) msgDetail) else Inl ret))"

lemma flags_distinct [simp]: "RE_FLAG \<noteq> MO_FLAG" "RE_FLAG \<noteq> MT_FLAG" "MO_FLAG \<noteq> MT_FLAG"
    "MO_FLAG \<noteq> RE_FLAG" "MT_FLAG \<noteq> RE_FLAG" "MT_FLAG \<noteq> MO_FLAG"
  by (simp_all add: RE_FLAG_def MO_FLAG_def MT_FLAG_def)

lemma line_not_empty [simp]: "transReToString a \<noteq> []" "transMoToString a \<noteq> []" "transMtToString a \<noteq> []"
  by (simp_all add: transReToString_line transMoToString_line transMtToString_line)

lemma map2_map_same: "map2 f xs (map g xs) = map (\<lambda>x. f x (g x)) xs"
  by (induction xs) auto

lemma flag_cases: "flag \<in> {RE_FLAG, MO_FLAG, MT_FLAG} \<Longrightarrow>
    (flag = RE_FLAG \<Longrightarrow> P) \<Longrightarrow> (flag = MO_FLAG \<Longrightarrow> P) \<Longrightarrow> (flag = MT_FLAG \<Longrightarrow> P) \<Longrightarrow> P"
  by auto

lemma read_lines_step:
  assumes "CR \<notin> set line"
  shows "read_lines parse (line @ [CR, LF] @ rest) ret v b =
    (case read_one_line parse line v b of (ret, v, b) \<Rightarrow> read_lines parse rest ret v b)"
  using find_sub_append [of "[CR, LF]" line rest] assms
  by (subst read_lines.simps) (simp add: strFirstConstStr_ref)

lemma read_lines_end: "CR \<notin> set s \<Longrightarrow> read_lines parse s ret v b = (ret, v, b)"
  using find_sub_char [of "[CR, LF]" s] by (subst read_lines.simps) (simp add: strFirstConstStr_ref)

definition storable :: "c_int \<Rightarrow> RemainObj \<Rightarrow> bool" where
  "storable flag a \<longleftrightarrow> remain_ok a \<and> bitFlag a = flag \<and> length (line_of a) < 3072"

lemma read_lines_stored:
  assumes "\<And>a v. a \<in> set as \<Longrightarrow> parse (line_of a) v = (0, v @ [kept a])"
    and "list_all (storable flag) as"
  shows "read_lines parse (concat (map (\<lambda>a. line_of a @ [CR, LF]) as)) ret v b
    = (if as = [] then ret else 0, v @ map kept as, b)"
  using assms
proof (induction as arbitrary: ret v)
  case Nil
  then show ?case by (simp add: read_lines_end)
next
  case (Cons a as)
  then have "CR \<notin> set (line_of a)" and "length (line_of a) < 3072"
    using line_clean [of a] by (auto simp: storable_def)
  with Cons show ?case
    by (simp add: read_lines_step [simplified] read_one_line_def)
qed

lemma stored_clean:
  "list_all (storable flag) as \<Longrightarrow> c_str (concat (map (\<lambda>a. line_of a @ [CR, LF]) as))
    = concat (map (\<lambda>a. line_of a @ [CR, LF]) as)"
  using line_clean by (intro c_str_clean) (auto simp: storable_def list_all_iff)

section \<open>Any file, line by line\<close>

text \<open>Every code a reader can return is negative, except for the 0 of a line that was read.\<close>

definition failing :: "parse_step \<Rightarrow> bool" where
  "failing f \<longleftrightarrow> (\<forall>st e. f st = Inl e \<longrightarrow> e < 0)"

lemma failing_get [simp]: "err < 0 \<Longrightarrow> failing (get_field err g)"
  by (auto simp: failing_def get_field_def split: option.splits)

lemma failing_steps [simp]:
  "err < 0 \<Longrightarrow> failing (get_d err u1)" "err < 0 \<Longrightarrow> failing (get_ld err u2)"
  "err < 0 \<Longrightarrow> failing (get_b64 err u3)" "err < 0 \<Longrightarrow> failing (get_raw err u3)"
  "err < 0 \<Longrightarrow> failing (check_flag err fl)"
  by (simp_all add: get_d_def get_ld_def get_b64_def get_raw_def)
    (simp add: failing_def check_flag_def split: prod.splits)

lemma run_steps_fails: "list_all failing fs \<Longrightarrow> run_steps fs st = Inl e \<Longrightarrow> e < 0"
  by (induction fs arbitrary: st) (auto simp: failing_def split: sum.splits)

lemma failing_Re [simp]:
  "list_all failing transStringToRe_head" "list_all failing transStringToRe_ints" "list_all failing transStringToRe_ints2"
  "list_all failing transStringToRe_times" "list_all failing transStringToRe_text" "list_all failing transStringToRe_text2"
  "list_all failing transStringToRe_text3" "list_all failing transStringToRe_text4"
  by (simp_all add: transStringToRe_head_def transStringToRe_ints_def transStringToRe_ints2_def
      transStringToRe_times_def transStringToRe_text_def transStringToRe_text2_def transStringToRe_text3_def
      transStringToRe_text4_def)

lemma failing_Mo_Mt [simp]:
  "list_all failing transStringToMo_head" "list_all failing transStringToMt_head"
  by (simp_all add: transStringToMo_head_def transStringToMt_head_def)

lemma steps_cases:
  assumes "list_all failing fs"
  shows "(\<exists>e<0. (case run_steps fs st of Inl e \<Rightarrow> (e, v) | Inr st \<Rightarrow> (0, v @ [g st])) = (e, v)) \<or>
    (\<exists>ob. (case run_steps fs st of Inl e \<Rightarrow> (e, v) | Inr st \<Rightarrow> (0, v @ [g st])) = (0, v @ [ob]))"
  using run_steps_fails [OF assms] by (cases "run_steps fs st") auto

lemma reader_cases:
  assumes "parse \<in> {transStringToRe, transStringToMo, transStringToMt}"
  shows "(\<exists>e<0. parse l v = (e, v)) \<or> (\<exists>ob. parse l v = (0, v @ [ob]))"
proof -
  have "(\<exists>e<0. transStringToRe l v = (e, v)) \<or> (\<exists>ob. transStringToRe l v = (0, v @ [ob]))"
    unfolding transStringToRe_def by (rule steps_cases) simp
  moreover have "(\<exists>e<0. transStringToMo l v = (e, v)) \<or> (\<exists>ob. transStringToMo l v = (0, v @ [ob]))"
    unfolding transStringToMo_def reader_Mo by (rule steps_cases) simp
  moreover have "(\<exists>e<0. transStringToMt l v = (e, v)) \<or> (\<exists>ob. transStringToMt l v = (0, v @ [ob]))"
    unfolding transStringToMt_def reader_Mt by (rule steps_cases) simp
  ultimately show ?thesis using assms by blast
qed

lemma read_one_line_cases:
  assumes "parse \<in> {transStringToRe, transStringToMo, transStringToMt}"
  shows "(\<exists>e<0. read_one_line parse l v b = (e, v, b @ [l])) \<or> (\<exists>ob. read_one_line parse l v b = (0, v @ [ob], b))"
  using reader_cases [OF assms, of l v] by (cases "length l < 3072") (auto simp: read_one_line_def)

lemma read_lines_any:
  assumes "parse \<in> {transStringToRe, transStringToMo, transStringToMt}"
    and "list_all (\<lambda>l. CR \<notin> set l) ls" and "CR \<notin> set rest"
  shows "\<exists>ret' objs baks. read_lines parse (concat (map (\<lambda>l. l @ [CR, LF]) ls) @ rest) ret v b = (ret', v @ objs, b @ baks) \<and>
    length objs + length baks = length ls \<and> subseq baks ls \<and> (baks = [] \<and> ret = 0 \<longrightarrow> ret' = 0)"
  using assms(2)
proof (induction ls arbitrary: ret v b)
  case Nil
  then show ?case using assms(3) by (simp add: read_lines_end)
next
  case (Cons l ls)
  then have l: "CR \<notin> set l" by simp
  from read_one_line_cases [OF assms(1), of l v b]
  consider (bad) e where "read_one_line parse l v b = (e, v, b @ [l])"
    | (good) ob where "read_one_line parse l v b = (0, v @ [ob], b)" by auto
  then show ?case
  proof cases
    case (bad e)
    obtain ret' objs baks where IH: "read_lines parse (concat (map (\<lambda>l. l @ [CR, LF]) ls) @ rest) e v (b @ [l])
        = (ret', v @ objs, (b @ [l]) @ baks)" "length objs + length baks = length ls" "subseq baks ls"
      using Cons.IH [of e v "b @ [l]"] Cons.prems by auto
    with bad l show ?thesis
      by (intro exI [of _ ret'] exI [of _ objs] exI [of _ "l # baks"]) (simp add: read_lines_step [simplified])
  next
    case (good ob)
    obtain ret' objs baks where IH: "read_lines parse (concat (map (\<lambda>l. l @ [CR, LF]) ls) @ rest) 0 (v @ [ob]) b
        = (ret', (v @ [ob]) @ objs, b @ baks)" "length objs + length baks = length ls" "subseq baks ls"
        "baks = [] \<longrightarrow> ret' = 0"
      using Cons.IH [of 0 "v @ [ob]" b] Cons.prems by auto
    with good l show ?thesis
      by (intro exI [of _ ret'] exI [of _ "ob # objs"] exI [of _ baks]) (simp add: read_lines_step [simplified] list_emb_Cons)
  qed
qed

section \<open>Properties\<close>

text \<open>C13: Record files round trip. For each of the three kinds of message: whatever messages of that kind
  are given (their plain texts without a separator, their lines short enough for the line buffer),
  an initialised manager that was not told to exit hands each to \<open>writeRemainFile\<close> under its own flag and
  folder, and when the texts handed over are read as one file, \<open>transStringToObject\<close> returns 0, gives
  back every message in order with all 91 written fields (the folder, which is not written, is the
  default \<open>"ccb"\<close>), and moves no line to the backup file.\<close>

theorem file_roundtrip:
  assumes "flag \<in> {RE_FLAG, MO_FLAG, MT_FLAG}" and "as \<noteq> []" and "list_all (storable flag) as"
    and "isInit m \<noteq> 0" and "isExit m = 0"
  shows "\<exists>ls. map (writeRemainObject m) as = map2 (\<lambda>a l. Inr (writeRemainFile flag (m_strFragFolder a) l)) as ls \<and>
    length ls = length as \<and>
    transStringToObject flag (concat ls) v = (0, v @ map (\<lambda>a. a\<lparr>m_strFragFolder := ''ccb''\<rparr>) as, [])"
proof (intro exI conjI)
  let ?ls = "map (\<lambda>a. line_of a @ [CR, LF]) as"
  have fl: "bitFlag a = flag" "remain_ok a" if "a \<in> set as" for a
    using assms(3) that by (auto simp: storable_def list_all_iff)
  have w: "writeRemainObject m a = Inr (writeRemainFile flag (m_strFragFolder a) (line_of a @ [CR, LF]))"
    if "a \<in> set as" for a
    using fl [OF that] assms(1,4,5)
    by (auto simp: writeRemainObject_def transReToString_line transMoToString_line transMtToString_line)
  show "map (writeRemainObject m) as = map2 (\<lambda>a l. Inr (writeRemainFile flag (m_strFragFolder a) l)) as ?ls"
    using w by (simp add: map2_map_same)
  show "length ?ls = length as" by simp
  have "concat ?ls \<noteq> []" using assms(2) by (cases as) auto
  moreover have k: "kept = (\<lambda>a. a\<lparr>m_strFragFolder := ''ccb''\<rparr>)" by (simp add: kept_def fun_eq_iff)
  ultimately show "transStringToObject flag (concat ?ls) v = (0, v @ map (\<lambda>a. a\<lparr>m_strFragFolder := ''ccb''\<rparr>) as, [])"
    using assms fl read_line_Re read_line_Mo read_line_Mt stored_clean [OF assms(3)]
      read_lines_stored [of as transStringToRe flag 0 v "[]"] read_lines_stored [of as transStringToMo flag 0 v "[]"]
      read_lines_stored [of as transStringToMt flag 0 v "[]"]
    by (auto simp: transStringToObject_def simp flip: k)
qed

theorem file_roundtrip_witness:
  "\<exists>l. map (writeRemainObject (RemainObjMgr_init\<lparr>isInit := 1\<rparr>)) [RemainObj_init\<lparr>bitFlag := MO_FLAG\<rparr>]
      = [Inr (writeRemainFile MO_FLAG ''ccb'' l)] \<and>
    transStringToObject MO_FLAG l [] = (0, [RemainObj_init\<lparr>bitFlag := MO_FLAG\<rparr>], [])"
proof -
  have len: "length (line_of (RemainObj_init\<lparr>bitFlag := MO_FLAG\<rparr>)) < 3072" by code_simp
  then have "storable MO_FLAG (RemainObj_init\<lparr>bitFlag := MO_FLAG\<rparr>)"
    by (simp add: storable_def remain_ok_def raw_ok_def RemainObj_init_def)
  then show ?thesis
    using file_roundtrip [of MO_FLAG "[RemainObj_init\<lparr>bitFlag := MO_FLAG\<rparr>]" "RemainObjMgr_init\<lparr>isInit := 1\<rparr>" "[]"]
    by (auto simp: RemainObjMgr_init_def RemainObj_init_def length_Suc_conv)
qed

text \<open>C24: No complete line of a record file is lost, whatever the lines contain. For any lines
  without a NUL or CR, each ended by CR LF and followed by any unterminated rest:
  \<open>transStringToObject\<close> turns each line into an object appended to the vector or hands it, in order and
  unchanged, to the backup file, and returns 0 when no line went to the backup file. The unterminated rest
  is in neither.\<close>

theorem no_line_lost:
  assumes "flag \<in> {RE_FLAG, MO_FLAG, MT_FLAG}" and "ls \<noteq> []"
    and "list_all (\<lambda>l. CR \<notin> set l \<and> NUL \<notin> set l) (rest # ls)"
  shows "\<exists>ret objs baks. transStringToObject flag (concat (map (\<lambda>l. l @ [CR, LF]) ls) @ rest) v = (ret, v @ objs, baks) \<and>
    length objs + length baks = length ls \<and> subseq baks ls \<and> (baks = [] \<longrightarrow> ret = 0)"
proof -
  let ?s = "concat (map (\<lambda>l. l @ [CR, LF]) ls) @ rest"
  have c: "c_str ?s = ?s" using assms(3) by (intro c_str_clean) (auto simp: list_all_iff)
  have n: "?s \<noteq> []" using assms(2) by (cases ls) auto
  have k: "list_all (\<lambda>l. CR \<notin> set l) ls" "CR \<notin> set rest" using assms(3) by (auto simp: list_all_iff)
  have any: "\<exists>ret objs baks. read_lines parse ?s 0 v [] = (ret, v @ objs, baks) \<and>
      length objs + length baks = length ls \<and> subseq baks ls \<and> (baks = [] \<longrightarrow> ret = 0)"
    if "parse \<in> {transStringToRe, transStringToMo, transStringToMt}" for parse
    using read_lines_any [OF that k, of 0 v "[]"] by simp
  from assms(1) show ?thesis
    by (rule flag_cases; use any c n in \<open>simp add: transStringToObject_def\<close>)
qed

theorem no_line_lost_witness:
  "\<exists>ret objs baks. transStringToObject MT_FLAG (''1,2'' @ [CR, LF] @ ''x'') [] = (ret, objs, baks) \<and>
    length objs + length baks = 1 \<and> subseq baks [''1,2''] \<and> (baks = [] \<longrightarrow> ret = 0)"
  using no_line_lost [of MT_FLAG "[''1,2'']" "''x''" "[]"] by simp

end
