(* ===== verification/FileSys.thy ===== *)
theory FileSys
  imports CText "HOL-Library.Multiset"
begin

text \<open>
  The part of the C library and of the operating system that the stuck-message files (\<^verbatim>\<open>remainFile/\<close>) are written
  with: names that link to file contents, directories, buffered streams in append mode, and the clock.

  Every call may fail. What the next calls do is a list of outcomes in the state; the calls after its end succeed. A short
  count is an outcome of its own, for \<open>fwrite\<close>, \<open>fread\<close> and the bytes that a failed \<open>fflush\<close> or
  \<open>fclose\<close> still got out. Two events are recorded in flags of the state and nowhere else: that a name was in use
  when a file was created or renamed to it (\<open>collided\<close>; \<open>rename\<close> replaces the file, \<open>fopen\<close> appends to it),
  and that a stream was used after it was closed (\<open>undefd\<close>), for which the language defines no behaviour.
\<close>

section \<open>State\<close>

datatype outcome = Ok | Fail | Part nat

record fsys =
  names :: "(string \<times> nat) list"
  data :: "nat \<Rightarrow> string"
  dirs :: "string list"
  nextIno :: nat
  outs :: "outcome list"
  tv_sec :: u64
  tv_usec :: nat
  collided :: bool
  undefd :: bool

record stream =
  ino :: nat
  fbuf :: string
  closed :: bool

definition next_out :: "fsys \<Rightarrow> outcome \<times> fsys" where
  "next_out w = (case outs w of [] \<Rightarrow> (Ok, w) | r # rs \<Rightarrow> (r, w\<lparr>outs := rs\<rparr>))"

definition dirname :: "string \<Rightarrow> string" where
  "dirname p = rev (drop 1 (dropWhile (\<lambda>c. c \<noteq> CHR ''/'') (rev p)))"

definition basename :: "string \<Rightarrow> string" where
  "basename p = rev (takeWhile (\<lambda>c. c \<noteq> CHR ''/'') (rev p))"

definition exists_path :: "string \<Rightarrow> fsys \<Rightarrow> bool" where
  "exists_path p w \<longleftrightarrow> p \<in> set (dirs w) \<or> p \<in> fst ` set (names w)"

definition in_dir :: "string \<Rightarrow> fsys \<Rightarrow> bool" where
  "in_dir p w \<longleftrightarrow> dirname p = [] \<or> dirname p \<in> set (dirs w)"

section \<open>Calls\<close>

text \<open>\<open>access\<close>, \<open>mkdir\<close> and \<open>rename\<close>: 0 or -1.\<close>

definition sys_access :: "string \<Rightarrow> fsys \<Rightarrow> int \<times> fsys" where
  "sys_access p w = (let (r, w) = next_out w in (if r = Ok \<and> exists_path p w then 0 else - 1, w))"

definition sys_mkdir :: "string \<Rightarrow> fsys \<Rightarrow> int \<times> fsys" where
  "sys_mkdir p w =
     (let (r, w) = next_out w
      in if r = Ok \<and> p \<noteq> [] \<and> \<not> exists_path p w \<and> in_dir p w then (0, w\<lparr>dirs := dirs w @ [p]\<rparr>) else (- 1, w))"

definition unlink_name :: "string \<Rightarrow> (string \<times> nat) list \<Rightarrow> (string \<times> nat) list" where
  "unlink_name p ns = filter (\<lambda>e. fst e \<noteq> p) ns"

definition sys_rename :: "string \<Rightarrow> string \<Rightarrow> fsys \<Rightarrow> int \<times> fsys" where
  "sys_rename old new w =
     (let (r, w) = next_out w
      in if r \<noteq> Ok \<or> \<not> in_dir new w then (- 1, w)
         else case map_of (names w) old of
                None \<Rightarrow> (- 1, w)
              | Some i \<Rightarrow>
                  if new = old then (0, w)
                  else (0, w\<lparr>names := unlink_name old (unlink_name new (names w)) @ [(new, i)],
                            collided := collided w \<or> exists_path new w\<rparr>))"

definition sys_remove :: "string \<Rightarrow> fsys \<Rightarrow> fsys" where
  "sys_remove p w = (let (r, w) = next_out w in if r = Ok then w\<lparr>names := unlink_name p (names w)\<rparr> else w)"

text \<open>\<open>stat\<close>: the size of a file, the existence of a directory.\<close>

definition sys_stat :: "string \<Rightarrow> fsys \<Rightarrow> nat option \<times> fsys" where
  "sys_stat p w = (let (r, w) = next_out w in (if r = Ok then map_option (\<lambda>i. length (data w i)) (map_of (names w) p) else None, w))"

text \<open>\<open>fopen(p, "ab+")\<close>.\<close>

definition c_fopen_append :: "string \<Rightarrow> fsys \<Rightarrow> stream option \<times> fsys" where
  "c_fopen_append p w =
     (let (r, w) = next_out w
      in if r \<noteq> Ok \<or> \<not> in_dir p w \<or> p \<in> set (dirs w) then (None, w)
         else case map_of (names w) p of
                Some i \<Rightarrow> (Some \<lparr>ino = i, fbuf = [], closed = False\<rparr>, w\<lparr>collided := True\<rparr>)
              | None \<Rightarrow> (Some \<lparr>ino = nextIno w, fbuf = [], closed = False\<rparr>,
                  w\<lparr>names := names w @ [(p, nextIno w)], data := (data w)(nextIno w := []), nextIno := nextIno w + 1\<rparr>))"

definition sent :: "outcome \<Rightarrow> string \<Rightarrow> nat" where
  "sent r s = (case r of Ok \<Rightarrow> length s | Fail \<Rightarrow> 0 | Part n \<Rightarrow> min n (length s))"

definition touch :: "stream \<Rightarrow> fsys \<Rightarrow> fsys" where
  "touch f w = (if closed f then w\<lparr>undefd := True\<rparr> else w)"

definition c_fwrite :: "string \<Rightarrow> stream \<Rightarrow> fsys \<Rightarrow> nat \<times> stream \<times> fsys" where
  "c_fwrite s f w = (let (r, w) = next_out (touch f w); n = sent r s in (n, f\<lparr>fbuf := fbuf f @ take n s\<rparr>, w))"

text \<open>The buffer goes out, or a part of it; what is left stays in the buffer.\<close>

definition put_out :: "outcome \<Rightarrow> stream \<Rightarrow> fsys \<Rightarrow> stream \<times> fsys" where
  "put_out r f w =
     (let n = sent r (fbuf f)
      in (f\<lparr>fbuf := drop n (fbuf f)\<rparr>, w\<lparr>data := (data w)(ino f := data w (ino f) @ take n (fbuf f))\<rparr>))"

abbreviation EOF :: int where "EOF \<equiv> - 1"

definition c_fflush :: "stream \<Rightarrow> fsys \<Rightarrow> int \<times> stream \<times> fsys" where
  "c_fflush f w = (let (r, w) = next_out (touch f w); (f, w) = put_out r f w in (if r = Ok then 0 else EOF, f, w))"

definition c_fclose :: "stream \<Rightarrow> fsys \<Rightarrow> int \<times> stream \<times> fsys" where
  "c_fclose f w =
     (let (r, w) = next_out (touch f w); (f, w) = put_out r f w in (if r = Ok then 0 else EOF, f\<lparr>closed := True\<rparr>, w))"

text \<open>\<open>fopen(p, "rb")\<close> with the contents to be read, \<open>malloc\<close>, and one \<open>fread\<close> from a position.\<close>

definition c_fopen_read :: "string \<Rightarrow> fsys \<Rightarrow> string option \<times> fsys" where
  "c_fopen_read p w = (let (r, w) = next_out w in (if r = Ok then map_option (data w) (map_of (names w) p) else None, w))"

definition c_malloc :: "fsys \<Rightarrow> bool \<times> fsys" where
  "c_malloc w = (let (r, w) = next_out w in (r = Ok, w))"

definition c_fread :: "nat \<Rightarrow> string \<Rightarrow> fsys \<Rightarrow> string \<times> fsys" where
  "c_fread n s w = (let (r, w) = next_out w in (take (sent r (take n s)) s, w))"

text \<open>\<open>opendir\<close> with the names and directories in it; the order in which \<open>readdir\<close> gives them is a parameter.\<close>

definition entries :: "string \<Rightarrow> fsys \<Rightarrow> string list" where
  "entries d w = map basename (filter (\<lambda>p. dirname p = d) (map fst (names w) @ dirs w))"

definition sys_opendir :: "string \<Rightarrow> fsys \<Rightarrow> string list option \<times> fsys" where
  "sys_opendir d w = (let (r, w) = next_out w in (if r = Ok \<and> d \<in> set (dirs w) then Some (entries d w) else None, w))"

section \<open>What the files hold\<close>

text \<open>A text that contains the given records, one after the other, with anything in between.\<close>

inductive embeds :: "string list \<Rightarrow> string \<Rightarrow> bool" where
  none: "embeds [] c"
| rec: "embeds rs c \<Longrightarrow> embeds (r # rs) (junk @ r @ c)"

inductive_cases embeds_ConsE: "embeds (r # rs) c"

lemma embeds_more: "embeds rs c \<Longrightarrow> embeds rs (c @ x)"
  by (induction rule: embeds.induct) (simp_all add: embeds.intros)

lemma embeds_snoc: "embeds rs c \<Longrightarrow> embeds (rs @ [r]) (c @ junk @ r)"
proof (induction rule: embeds.induct)
  case (none c)
  show ?case using embeds.rec [OF embeds.none, of r "c @ junk" "[]"] by simp
next
  case (rec rs c r' junk')
  then show ?case using embeds.rec [OF rec.IH, of r' junk'] by simp
qed

text \<open>Files, as the multiset of their contents, that hold a multiset of records.\<close>

inductive holds :: "string multiset \<Rightarrow> string multiset \<Rightarrow> bool" where
  none: "holds {#} {#}"
| one: "holds C R \<Longrightarrow> embeds g c \<Longrightarrow> holds (add_mset c C) (mset g + R)"

lemma holds_file_iff: "holds (add_mset c C) R \<longleftrightarrow> (\<exists>g R'. embeds g c \<and> R = mset g + R' \<and> holds C R')"
proof
  show "holds (add_mset c C) R \<Longrightarrow> \<exists>g R'. embeds g c \<and> R = mset g + R' \<and> holds C R'"
  proof (induction "add_mset c C" R arbitrary: C rule: holds.induct)
    case (one C' R g c')
    show ?case
    proof (cases "c' = c \<and> C' = C")
      case True
      then show ?thesis using one by auto
    next
      case False
      then obtain D where D: "C' = add_mset c D" "C = add_mset c' D" using one(4) by (auto simp: add_eq_conv_ex)
      with one(2) obtain g' R' where "embeds g' c" "R = mset g' + R'" "holds D R'" by blast
      then show ?thesis using holds.one [OF _ one(3), of D R'] D by (auto intro!: exI [of _ g'] exI [of _ "mset g + R'"])
    qed
  qed simp
qed (auto intro: holds.one)

lemma holds_grow: "holds (add_mset c C) R \<Longrightarrow> holds (add_mset (c @ x) C) R"
  by (auto simp: holds_file_iff dest: embeds_more [where x = x])

lemma holds_record:
  assumes "holds (add_mset c C) R"
  shows "holds (add_mset (c @ junk @ r) C) (add_mset r R)"
proof -
  from assms obtain g R' where g: "embeds g c" "R = mset g + R'" "holds C R'" by (auto simp: holds_file_iff)
  then have "embeds (g @ [r]) (c @ junk @ r)" "add_mset r R = mset (g @ [r]) + R'" by (simp_all add: embeds_snoc)
  then show ?thesis using g(3) holds_file_iff by metis
qed

lemma holds_create: "holds C R \<Longrightarrow> holds (add_mset [] C) R"
  using holds.one [OF _ embeds.none, of C R "[]"] by simp

definition contents :: "fsys \<Rightarrow> string multiset" where
  "contents w = image_mset (\<lambda>e. data w (snd e)) (mset (names w))"

text \<open>Every name links to a file of its own, and no file is newer than the counter.\<close>

definition fs_ok :: "fsys \<Rightarrow> bool" where
  "fs_ok w \<longleftrightarrow> distinct (map fst (names w)) \<and> distinct (map snd (names w)) \<and> (\<forall>e \<in> set (names w). snd e < nextIno w)"


lemma next_out_state:
  assumes "next_out w = (r, w')"
  shows "names w' = names w \<and> data w' = data w \<and> dirs w' = dirs w \<and> nextIno w' = nextIno w \<and> tv_sec w' = tv_sec w \<and> tv_usec w' = tv_usec w \<and>
    collided w' = collided w \<and> undefd w' = undefd w"
  using assms by (auto simp: next_out_def split: list.splits)

lemma next_out_none [simp]: "outs w = [] \<Longrightarrow> next_out w = (Ok, w)"
  by (simp add: next_out_def)

end
