(* ===== verification/StrMap.thy ===== *)
theory StrMap
  imports Prelude
begin

text \<open>
  \<open>std::map\<close> with strings for keys, as the list of its pairs in the order of the keys, which is that of their bytes. The file managers
  keep their writers in such maps and walk through them in this order.
\<close>

fun str_less :: "string \<Rightarrow> string \<Rightarrow> bool" where
  "str_less [] [] = False"
| "str_less [] (_ # _) = True"
| "str_less (_ # _) [] = False"
| "str_less (a # s) (b # t) = (code a < code b \<or> a = b \<and> str_less s t)"

fun map_set :: "string \<Rightarrow> 'a \<Rightarrow> (string \<times> 'a) list \<Rightarrow> (string \<times> 'a) list" where
  "map_set k v [] = [(k, v)]"
| "map_set k v ((k', v') # xs) =
     (if k = k' then (k, v) # xs else if str_less k k' then (k, v) # (k', v') # xs else (k', v') # map_set k v xs)"

lemma str_less_asym: "str_less a b \<Longrightarrow> \<not> str_less b a"
  by (induction a b rule: str_less.induct) auto

lemma str_less_trans: "str_less a b \<Longrightarrow> str_less b c \<Longrightarrow> str_less a c"
proof (induction a b arbitrary: c rule: str_less.induct)
  case (4 a s b t)
  then show ?case by (cases c) auto
next
  case (2 b t)
  then show ?case by (cases c) auto
qed auto

lemma str_less_total: "a = b \<or> str_less a b \<or> str_less b a"
proof (induction a b rule: str_less.induct)
  case (4 a s b t)
  then show ?case by (auto simp: nat_neq_iff of_char_eq_iff [symmetric])
qed auto

lemma map_set_keys: "set (map fst (map_set k v xs)) = insert k (set (map fst xs))"
  by (induction k v xs rule: map_set.induct) auto

lemma map_set_sorted: "sorted_wrt str_less (map fst xs) \<Longrightarrow> sorted_wrt str_less (map fst (map_set k v xs))"
proof (induction k v xs rule: map_set.induct)
  case (2 k v k' v' xs)
  then show ?case using str_less_total [of k k'] map_set_keys [of k v xs] by (auto intro: str_less_trans)
qed simp

lemma map_of_map_set: "sorted_wrt str_less (map fst xs) \<Longrightarrow> map_of (map_set k v xs) = (map_of xs)(k \<mapsto> v)"
proof (induction k v xs rule: map_set.induct)
  case (2 k v k' v' xs)
  have "map_of xs k = None" if "k \<noteq> k'" "str_less k k'"
  proof -
    have "k \<notin> set (map fst xs)" using 2(2) that str_less_asym by force
    then show ?thesis by (simp add: map_of_eq_None_iff)
  qed
  then show ?case using 2 by (auto simp: fun_eq_iff)
qed simp

lemma sorted_distinct: "sorted_wrt str_less xs \<Longrightarrow> distinct xs"
  by (induction xs) (auto dest: str_less_asym)

lemma map_set_member: "sorted_wrt str_less (map fst xs) \<Longrightarrow> (j, y) \<in> set (map_set k v xs) \<longleftrightarrow> (if j = k then y = v else (j, y) \<in> set xs)"
  using map_of_map_set [of xs k v] sorted_distinct [of "map fst xs"] map_set_sorted [of xs k v] sorted_distinct [of "map fst (map_set k v xs)"]
    map_of_eq_Some_iff [of xs j y] map_of_eq_Some_iff [of "map_set k v xs" j y] by auto

lemma map_set_replace: "sorted_wrt str_less (map fst (pre @ (k, v) # post)) \<Longrightarrow> map_set k v' (pre @ (k, v) # post) = pre @ (k, v') # post"
proof (induction pre)
  case (Cons e pre)
  then have "str_less (fst e) k" by auto
  then have "k \<noteq> fst e" "\<not> str_less k (fst e)" using str_less_asym by blast+
  then show ?case using Cons by (cases e) auto
qed simp

end
