(* ===== verification/RemainFiles.thy ===== *)
theory RemainFiles
  imports FileSys StrMap
begin

text \<open>
  The files in which undelivered messages wait, \<^verbatim>\<open>src/remainFile/src\<close>: the writers for the shared and for the local
  directory and the choice between them (\<^verbatim>\<open>WriteFileMgr.cpp\<close>), the reader of one file (\<^verbatim>\<open>ReadFileMgr.cpp\<close>) and of a
  directory (\<^verbatim>\<open>ReadDirMgr.cpp\<close>), and the manager with one writer per folder (\<^verbatim>\<open>RemainMgr.cpp\<close>), on the file system of
  \<^verbatim>\<open>FileSys\<close>. The conversion to local time is a parameter, \<open>localtime_r\<close>, as is the order of \<open>readdir\<close>.

  The two classes for the shared and the local directory have the same members and are one record here; their operations
  differ and are separate definitions. The twelve writers of \<open>WriteFileMgr\<close>, which it creates when they are first
  used, are two maps from the flag of the message kind. \<^const>\<open>None\<close> as the result of a reader is a write past the end
  of one of its name buffers.
\<close>

section \<open>Names (Incommon.h)\<close>

abbreviation RE_REMAIN_FLAG :: nat where "RE_REMAIN_FLAG \<equiv> 1"
abbreviation RE_REMAIN_BAK_FLAG :: nat where "RE_REMAIN_BAK_FLAG \<equiv> 2"
abbreviation MO_REMAIN_FLAG :: nat where "MO_REMAIN_FLAG \<equiv> 3"
abbreviation MO_REMAIN_BAK_FLAG :: nat where "MO_REMAIN_BAK_FLAG \<equiv> 4"
abbreviation MT_REMAIN_FLAG :: nat where "MT_REMAIN_FLAG \<equiv> 5"
abbreviation MT_REMAIN_BAK_FLAG :: nat where "MT_REMAIN_BAK_FLAG \<equiv> 6"

definition kind_dir :: "nat \<Rightarrow> string option" where
  "kind_dir flag =
     (if flag = RE_REMAIN_FLAG then Some ''RemainRe'' else if flag = RE_REMAIN_BAK_FLAG then Some ''RemainReBak''
      else if flag = MO_REMAIN_FLAG then Some ''RemainMo'' else if flag = MO_REMAIN_BAK_FLAG then Some ''RemainMoBak''
      else if flag = MT_REMAIN_FLAG then Some ''RemainMt'' else if flag = MT_REMAIN_BAK_FLAG then Some ''RemainMtBak''
      else None)"

text \<open>\<open>snprintf\<close> into a buffer of 1024 characters.\<close>

definition name_buf :: "string \<Rightarrow> string" where
  "name_buf s = take 1023 s"

definition accessPath :: "string \<Rightarrow> fsys \<Rightarrow> int \<times> fsys" where
  "accessPath muldir w = (if muldir = [] then (0, w) else sys_access muldir w)"

definition renameFile :: "string \<Rightarrow> string \<Rightarrow> fsys \<Rightarrow> int \<times> fsys" where
  "renameFile oldName newName w = sys_rename oldName newName w"

text \<open>One directory of the path is made unless it is there.\<close>

definition make_dir :: "string \<Rightarrow> fsys \<Rightarrow> int \<times> fsys" where
  "make_dir str w = (let (r, w) = sys_access str w in if r \<noteq> 0 then sys_mkdir str w else (0, w))"

fun mkdirs_loop :: "string \<Rightarrow> string \<Rightarrow> fsys \<Rightarrow> int \<times> fsys" where
  "mkdirs_loop str [] w = make_dir str w"
| "mkdirs_loop str (c # rest) w =
     (if c = CHR ''/''
      then (let (r, w) = make_dir str w in if r \<noteq> 0 then (- 1, w) else mkdirs_loop (str @ [c]) rest w)
      else mkdirs_loop (str @ [c]) rest w)"

definition mkdirs :: "string \<Rightarrow> fsys \<Rightarrow> int \<times> fsys" where
  "mkdirs muldir w = (case muldir of [] \<Rightarrow> (0, w) | c # rest \<Rightarrow> mkdirs_loop [c] rest w)"

text \<open>\<open>"%0*d"\<close> of a number that is not negative, and the names of the files.\<close>

definition pad0 :: "nat \<Rightarrow> nat \<Rightarrow> string" where
  "pad0 k n = (let s = show_nat n in replicate (k - length s) CHR ''0'' @ s)"

record tm =
  tm_mon :: nat
  tm_mday :: nat
  tm_hour :: nat
  tm_min :: nat
  tm_sec :: nat

definition stamp :: "tm \<Rightarrow> nat \<Rightarrow> nat \<Rightarrow> string" where
  "stamp t ms seq = pad0 2 (tm_mon t + 1) @ pad0 2 (tm_mday t) @ pad0 2 (tm_hour t) @ pad0 2 (tm_min t) @ pad0 2 (tm_sec t) @ pad0 3 ms @ pad0 5 seq"

definition file_name :: "string \<Rightarrow> c_int \<Rightarrow> int \<Rightarrow> tm \<Rightarrow> nat \<Rightarrow> nat \<Rightarrow> string \<Rightarrow> string" where
  "file_name path gate cnt t ms seq ext =
     path @ ''/'' @ sprintf_d gate @ ''_'' @ show_int cnt @ ''_'' @ stamp t ms seq @ ext"

section \<open>One writer (WriteFileMgr.cpp)\<close>

record file_writer =
  fw_isExit :: bool
  fw_gateNo :: c_int
  seqId :: nat
  millSecond :: nat
  fw_outSecond :: c_int
  fw_maxCount :: c_int
  curCount :: int
  creatSecond :: u64
  pFile :: "stream option"
  rootPath :: string
  filePath :: string

definition kind_path :: "string \<Rightarrow> nat \<Rightarrow> string \<Rightarrow> string" where
  "kind_path root flag frag = (case kind_dir flag of None \<Rightarrow> [] | Some d \<Rightarrow> name_buf (root @ ''/'' @ d @ ''/'' @ frag))"

definition ShareWriteFileMgr :: "c_int \<Rightarrow> c_int \<Rightarrow> c_int \<Rightarrow> nat \<Rightarrow> string \<Rightarrow> string \<Rightarrow> file_writer" where
  "ShareWriteFileMgr gate maxC outSec flag root frag =
     \<lparr>fw_isExit = False, fw_gateNo = gate, seqId = 0, millSecond = 0, fw_outSecond = outSec, fw_maxCount = maxC, curCount = 0,
      creatSecond = 0, pFile = None, rootPath = root, filePath = (if root \<noteq> [] then kind_path root flag frag else [])\<rparr>"

definition localWriteFileMgr :: "c_int \<Rightarrow> c_int \<Rightarrow> c_int \<Rightarrow> nat \<Rightarrow> string \<Rightarrow> string \<Rightarrow> file_writer" where
  "localWriteFileMgr gate maxC outSec flag root frag =
     \<lparr>fw_isExit = False, fw_gateNo = gate, seqId = 0, millSecond = 0, fw_outSecond = outSec, fw_maxCount = maxC, curCount = 0,
      creatSecond = 0, pFile = None, rootPath = root, filePath = kind_path root flag frag\<rparr>"

definition tmp_name :: "(u64 \<Rightarrow> tm) \<Rightarrow> file_writer \<Rightarrow> string" where
  "tmp_name lt m = file_name (filePath m) (fw_gateNo m) 0 (lt (creatSecond m)) (millSecond m) (seqId m) ''.tmp''"

definition ok_name :: "(u64 \<Rightarrow> tm) \<Rightarrow> file_writer \<Rightarrow> string" where
  "ok_name lt m = file_name (filePath m) (fw_gateNo m) (curCount m) (lt (creatSecond m)) (millSecond m) (seqId m) ''.ok''"

text \<open>The end of both \<open>CloseCurFile\<close>: the file gets its final name.\<close>

definition finish_file :: "(u64 \<Rightarrow> tm) \<Rightarrow> int \<Rightarrow> file_writer \<Rightarrow> fsys \<Rightarrow> int \<times> file_writer \<times> fsys" where
  "finish_file lt err m w =
     (let (r, w) = renameFile (name_buf (tmp_name lt m)) (name_buf (ok_name lt m)) w
      in (if r \<noteq> 0 then err else 0, m\<lparr>pFile := None, creatSecond := 0, millSecond := 0, curCount := 0\<rparr>, w))"

definition share_CloseCurFile :: "(u64 \<Rightarrow> tm) \<Rightarrow> file_writer \<Rightarrow> fsys \<Rightarrow> int \<times> file_writer \<times> fsys" where
  "share_CloseCurFile lt m w =
     (case pFile m of
        None \<Rightarrow> (0, m, w)
      | Some f \<Rightarrow>
          (let (r, w) = accessPath (rootPath m) w
           in if r < 0 then (- 102, m, w)
              else let (r, f, w) = c_fflush f w
                   in if r < 0 then (- 109, m\<lparr>pFile := Some f\<rparr>, w)
                      else let (r, f, w) = c_fclose f w
                           in if r < 0 then (- 1010, m\<lparr>pFile := Some f\<rparr>, w)
                              else finish_file lt (- 1011) m w))"

definition local_CloseCurFile :: "(u64 \<Rightarrow> tm) \<Rightarrow> file_writer \<Rightarrow> fsys \<Rightarrow> int \<times> file_writer \<times> fsys" where
  "local_CloseCurFile lt m w =
     (case pFile m of
        None \<Rightarrow> (0, m, w)
      | Some f \<Rightarrow>
          (let (r, f, w) = c_fflush f w; (r, f, w) = c_fclose f w
           in finish_file lt (- 1022) m w))"

text \<open>The part of both \<open>switchToNewFile\<close> behind the close, with the codes of the class.\<close>

record open_codes =
  path_long :: int
  mkdirs_failed :: int
  name_long :: int
  fopen_failed :: int

definition share_codes :: open_codes where
  "share_codes = \<lparr>path_long = - 105, mkdirs_failed = - 106, name_long = - 107, fopen_failed = - 108\<rparr>"

definition local_codes :: open_codes where
  "local_codes = \<lparr>path_long = - 1016, mkdirs_failed = - 1017, name_long = - 1018, fopen_failed = - 1019\<rparr>"

definition open_new :: "(u64 \<Rightarrow> tm) \<Rightarrow> open_codes \<Rightarrow> file_writer \<Rightarrow> fsys \<Rightarrow> int \<times> file_writer \<times> fsys" where
  "open_new lt e m w =
     (if length (filePath m) \<ge> 1024 then (path_long e, m, w)
      else let (r, w) = mkdirs (filePath m) w
           in if r = - 1 then (mkdirs_failed e, m, w)
              else let seq = (if seqId m + 1 > 99999 then 1 else seqId m + 1);
                       m = m\<lparr>seqId := seq, creatSecond := tv_sec w, millSecond := tv_usec w div 1000\<rparr>
                   in if length (tmp_name lt m) \<ge> 1024 then (name_long e, m, w)
                      else let (f, w) = c_fopen_append (tmp_name lt m) w
                           in case f of
                                Some f \<Rightarrow> (0, m\<lparr>pFile := Some f, curCount := 0\<rparr>, w)
                              | None \<Rightarrow> (fopen_failed e, m\<lparr>pFile := None\<rparr>, w))"

definition share_switchToNewFile :: "(u64 \<Rightarrow> tm) \<Rightarrow> file_writer \<Rightarrow> fsys \<Rightarrow> int \<times> file_writer \<times> fsys" where
  "share_switchToNewFile lt m w =
     (let (r, m, w) = share_CloseCurFile lt m w in if r < 0 then (r, m, w) else open_new lt share_codes m w)"

definition local_switchToNewFile :: "(u64 \<Rightarrow> tm) \<Rightarrow> file_writer \<Rightarrow> fsys \<Rightarrow> int \<times> file_writer \<times> fsys" where
  "local_switchToNewFile lt m w =
     (let (r, m, w) = local_CloseCurFile lt m w in if r < 0 then (r, m, w) else open_new lt local_codes m w)"

text \<open>The \<open>do\<close> loop: what is left of the content after at most three tries.\<close>

function write_loop :: "nat \<Rightarrow> string \<Rightarrow> stream \<Rightarrow> fsys \<Rightarrow> string \<times> stream \<times> fsys" where
  "write_loop tryTime content f w =
     (let (n, f, w) = c_fwrite content f w; content = drop n content; tryTime = tryTime + 1
      in if tryTime \<ge> 3 then (content, f, w) else if content \<noteq> [] then write_loop tryTime content f w else (content, f, w))"
  by pat_completeness auto
termination
  by (relation "measure (\<lambda>(t, c, f, w). 3 - t)") auto

declare write_loop.simps [simp del]

text \<open>The part of both \<open>writeToFile\<close> from the loop on; \<open>switch\<close> is the \<open>switchToNewFile\<close> of the class.\<close>

definition put_content ::
  "(file_writer \<Rightarrow> fsys \<Rightarrow> int \<times> file_writer \<times> fsys) \<Rightarrow> int \<Rightarrow> int \<Rightarrow> string \<Rightarrow> file_writer \<Rightarrow> fsys \<Rightarrow> int \<times> file_writer \<times> fsys" where
  "put_content switch no_file short content m w =
     (case pFile m of
        None \<Rightarrow> (no_file, m, w)
      | Some f \<Rightarrow>
          (let (rest, f, w) = write_loop 0 content f w
           in if rest \<noteq> [] then (short, m\<lparr>pFile := Some f\<rparr>, w)
              else let (r, f, w) = c_fflush f w; m = m\<lparr>pFile := Some f\<rparr>
                   in if r = EOF
                      then (let (r, m, w) = switch m w in if r < 0 then (r, m, w) else (- 1036, m\<lparr>pFile := None\<rparr>, w))
                      else (0, m\<lparr>curCount := curCount m + 1\<rparr>, w)))"

definition share_writeToFile :: "(u64 \<Rightarrow> tm) \<Rightarrow> string \<Rightarrow> file_writer \<Rightarrow> fsys \<Rightarrow> int \<times> file_writer \<times> fsys" where
  "share_writeToFile lt content m w =
     (if rootPath m = [] \<or> filePath m = [] then (- 1050, m, w)
      else if fw_isExit m then (- 101, m, w)
      else let (r, m, w) =
             (if pFile m = None \<or> curCount m \<ge> sint (fw_maxCount m) then share_switchToNewFile lt m w
              else let (r, w) = accessPath (rootPath m) w in (if r < 0 then - 102 else 0, m, w))
           in if r < 0 then (r, m, w) else put_content (share_switchToNewFile lt) (- 103) (- 104) content m w)"

definition local_writeToFile :: "(u64 \<Rightarrow> tm) \<Rightarrow> string \<Rightarrow> file_writer \<Rightarrow> fsys \<Rightarrow> int \<times> file_writer \<times> fsys" where
  "local_writeToFile lt content m w =
     (if fw_isExit m then (- 1012, m, w)
      else let (r, m, w) =
             (if pFile m = None \<or> curCount m \<ge> sint (fw_maxCount m) then local_switchToNewFile lt m w else (0, m, w))
           in if r < 0 then (r, m, w) else put_content (local_switchToNewFile lt) (- 1014) (- 1015) content m w)"

text \<open>The other members, which the two classes have in the same words; \<open>close\<close> is their \<open>CloseCurFile\<close>.\<close>

definition fw_exitClose :: "(file_writer \<Rightarrow> fsys \<Rightarrow> int \<times> file_writer \<times> fsys) \<Rightarrow> file_writer \<Rightarrow> fsys \<Rightarrow> file_writer \<times> fsys" where
  "fw_exitClose close m w =
     (let m = m\<lparr>fw_isExit := True\<rparr>
      in if pFile m \<noteq> None then (let (r, m, w) = close m w in (m\<lparr>pFile := None\<rparr>, w)) else (m, w))"

definition fw_everySecondCheck :: "(file_writer \<Rightarrow> fsys \<Rightarrow> int \<times> file_writer \<times> fsys) \<Rightarrow> u64 \<Rightarrow> file_writer \<Rightarrow> fsys \<Rightarrow> file_writer \<times> fsys" where
  "fw_everySecondCheck close second m w =
     (if fw_isExit m then (m, w)
      else let tmpSecond = (ucast (second - creatSecond m) :: c_int)
           in if pFile m \<noteq> None \<and> creatSecond m > 0 \<and> sint tmpSecond > sint (fw_outSecond m)
              then (let (r, m, w) = close m w in (m, w)) else (m, w))"

definition fw_updateGenFreq :: "c_int \<Rightarrow> file_writer \<Rightarrow> file_writer" where
  "fw_updateGenFreq second m =
     (let second = (if sint second < 1 then 60 else second); second = (if sint second > 1800 then 60 else second)
      in if fw_outSecond m \<noteq> second then m\<lparr>fw_outSecond := second\<rparr> else m)"

definition fw_updateMaxFileSize :: "c_int \<Rightarrow> file_writer \<Rightarrow> file_writer" where
  "fw_updateMaxFileSize sz m =
     (let sz = (if sint sz < 1 then 20 else sz); sz = (if sint sz > 1000 then 20 else sz)
      in if fw_maxCount m \<noteq> sz then m\<lparr>fw_maxCount := sz\<rparr> else m)"

section \<open>The writers of a folder (WriteFileMgr.cpp)\<close>

record WriteFileMgr =
  wf_gateNo :: c_int
  wf_maxCount :: c_int
  wf_outSecond :: c_int
  wf_localPath :: string
  wf_sharePath :: string
  wf_fragFolder :: string
  shareFile :: "nat \<Rightarrow> file_writer option"
  localFile :: "nat \<Rightarrow> file_writer option"

definition WriteFileMgr_new :: "c_int \<Rightarrow> c_int \<Rightarrow> c_int \<Rightarrow> string \<Rightarrow> string \<Rightarrow> string \<Rightarrow> WriteFileMgr" where
  "WriteFileMgr_new gate maxC outSec share local frag =
     \<lparr>wf_gateNo = gate, wf_maxCount = maxC, wf_outSecond = outSec, wf_localPath = local, wf_sharePath = share, wf_fragFolder = frag,
      shareFile = (\<lambda>_. None), localFile = (\<lambda>_. None)\<rparr>"

definition share_of :: "nat \<Rightarrow> WriteFileMgr \<Rightarrow> file_writer" where
  "share_of flag m =
     (case shareFile m flag of Some f \<Rightarrow> f
      | None \<Rightarrow> ShareWriteFileMgr (wf_gateNo m) (wf_maxCount m) (wf_outSecond m) flag (wf_sharePath m) (wf_fragFolder m))"

definition local_of :: "nat \<Rightarrow> WriteFileMgr \<Rightarrow> file_writer" where
  "local_of flag m =
     (case localFile m flag of Some f \<Rightarrow> f
      | None \<Rightarrow> localWriteFileMgr (wf_gateNo m) (wf_maxCount m) (wf_outSecond m) flag (wf_localPath m) (wf_fragFolder m))"

definition writeToFile :: "(u64 \<Rightarrow> tm) \<Rightarrow> nat \<Rightarrow> string \<Rightarrow> WriteFileMgr \<Rightarrow> fsys \<Rightarrow> int \<times> WriteFileMgr \<times> fsys" where
  "writeToFile lt flag content m w =
     (if kind_dir flag = None then (- 1035, m, w)
      else let (r, f, w) = share_writeToFile lt content (share_of flag m) w;
               m = m\<lparr>shareFile := (shareFile m)(flag := Some f)\<rparr>
           in if r < 0
              then (let (r, f, w) = local_writeToFile lt content (local_of flag m) w
                    in (r, m\<lparr>localFile := (localFile m)(flag := Some f)\<rparr>, w))
              else (r, m, w))"

text \<open>A call for each writer that is there, in the order of the code: the six shared ones, then the six local ones.\<close>

definition all_flags :: "nat list" where
  "all_flags = [RE_REMAIN_FLAG, RE_REMAIN_BAK_FLAG, MO_REMAIN_FLAG, MO_REMAIN_BAK_FLAG, MT_REMAIN_FLAG, MT_REMAIN_BAK_FLAG]"

fun each_writer ::
  "(file_writer \<Rightarrow> fsys \<Rightarrow> file_writer \<times> fsys) \<Rightarrow> nat list \<Rightarrow> (nat \<Rightarrow> file_writer option) \<Rightarrow> fsys \<Rightarrow> (nat \<Rightarrow> file_writer option) \<times> fsys" where
  "each_writer op [] fs w = (fs, w)"
| "each_writer op (flag # flags) fs w =
     (case fs flag of
        None \<Rightarrow> each_writer op flags fs w
      | Some f \<Rightarrow> (let (f, w) = op f w in each_writer op flags (fs(flag := Some f)) w))"

definition wf_exitClose :: "(u64 \<Rightarrow> tm) \<Rightarrow> WriteFileMgr \<Rightarrow> fsys \<Rightarrow> WriteFileMgr \<times> fsys" where
  "wf_exitClose lt m w =
     (let (_, w) = each_writer (fw_exitClose (share_CloseCurFile lt)) all_flags (shareFile m) w;
          (_, w) = each_writer (fw_exitClose (local_CloseCurFile lt)) all_flags (localFile m) w
      in (m\<lparr>shareFile := (\<lambda>_. None), localFile := (\<lambda>_. None)\<rparr>, w))"

definition wf_everySecondCheck :: "(u64 \<Rightarrow> tm) \<Rightarrow> u64 \<Rightarrow> WriteFileMgr \<Rightarrow> fsys \<Rightarrow> WriteFileMgr \<times> fsys" where
  "wf_everySecondCheck lt second m w =
     (let (sh, w) = each_writer (fw_everySecondCheck (share_CloseCurFile lt) second) all_flags (shareFile m) w;
          (lo, w) = each_writer (fw_everySecondCheck (local_CloseCurFile lt) second) all_flags (localFile m) w
      in (m\<lparr>shareFile := sh, localFile := lo\<rparr>, w))"

definition wf_updateGenFreq :: "c_int \<Rightarrow> WriteFileMgr \<Rightarrow> WriteFileMgr" where
  "wf_updateGenFreq second m =
     m\<lparr>shareFile := map_option (fw_updateGenFreq second) \<circ> shareFile m, localFile := map_option (fw_updateGenFreq second) \<circ> localFile m\<rparr>"

definition wf_updateMaxFileSize :: "c_int \<Rightarrow> WriteFileMgr \<Rightarrow> WriteFileMgr" where
  "wf_updateMaxFileSize sz m =
     m\<lparr>shareFile := map_option (fw_updateMaxFileSize sz) \<circ> shareFile m, localFile := map_option (fw_updateMaxFileSize sz) \<circ> localFile m\<rparr>"

section \<open>Reading (ReadFileMgr.cpp, ReadDirMgr.cpp)\<close>

record ReadFileMgr =
  fileName :: string
  bakFileName :: string
  errFileName :: string

definition ReadFileMgr_new :: "c_int \<Rightarrow> string \<Rightarrow> ReadFileMgr option" where
  "ReadFileMgr_new gate name =
     (let stem = take (length name - 3) name; bak = stem @ ''_'' @ sprintf_d gate @ ''.bak''; err = stem @ ''_'' @ sprintf_d gate @ ''.err''
      in if length name \<ge> 1024 \<or> length bak \<ge> 1024 then None
         else Some \<lparr>fileName = name, bakFileName = bak, errFileName = err\<rparr>)"

definition readFileLen :: "ReadFileMgr \<Rightarrow> fsys \<Rightarrow> nat \<times> fsys" where
  "readFileLen m w = (let (r, w) = sys_stat (bakFileName m) w in (case r of Some n \<Rightarrow> n | None \<Rightarrow> 0, w))"

definition deleteReadFile :: "ReadFileMgr \<Rightarrow> fsys \<Rightarrow> fsys" where
  "deleteReadFile m w = (let (r, w) = sys_access (bakFileName m) w in if r = 0 then sys_remove (bakFileName m) w else w)"

definition renameErrorFile :: "ReadFileMgr \<Rightarrow> fsys \<Rightarrow> fsys" where
  "renameErrorFile m w = snd (renameFile (bakFileName m) (errFileName m) w)"

text \<open>The \<open>do\<close> loop: what has been read after at most three tries, and how much of the file is missing.\<close>

function read_loop :: "nat \<Rightarrow> nat \<Rightarrow> string \<Rightarrow> string \<Rightarrow> fsys \<Rightarrow> nat \<times> string \<times> fsys" where
  "read_loop trytime fileLen src buf w =
     (let (s, w) = c_fread fileLen src w; fileLen = fileLen - length s; src = drop (length s) src; buf = buf @ s; trytime = trytime + 1
      in if trytime \<ge> 3 then (fileLen, buf, w) else if fileLen > 0 then read_loop trytime fileLen src buf w else (fileLen, buf, w))"
  by pat_completeness auto
termination
  by (relation "measure (\<lambda>(t, l, s, b, w). 3 - t)") auto

declare read_loop.simps [simp del]

definition readFromFile :: "ReadFileMgr \<Rightarrow> string \<Rightarrow> fsys \<Rightarrow> int \<times> string \<times> fsys" where
  "readFromFile m readData w =
     (let (r, w) = renameFile (fileName m) (bakFileName m) w
      in if r \<noteq> 0 then (- 111, readData, w)
         else let (fileLen, w) = readFileLen m w
              in if fileLen = 0 then (- 112, readData, renameErrorFile m w)
                 else let (src, w) = c_fopen_read (bakFileName m) w
                      in case src of
                           None \<Rightarrow> (- 113, readData, snd (renameFile (bakFileName m) (fileName m) w))
                         | Some src \<Rightarrow>
                             (let (ok, w) = c_malloc w
                              in if \<not> ok then (- 114, readData, snd (renameFile (bakFileName m) (fileName m) w))
                                 else let (left, buf, w) = read_loop 0 fileLen src [] w
                                      in if left > 0 then (- 114, readData, renameErrorFile m w)
                                         else (0, buf, deleteReadFile m w)))"

record ReadDirMgr =
  rd_gateNo :: c_int
  shareRootPath :: string
  rd_sharePath :: string
  rd_localPath :: string

definition ReadDirMgr_new :: "nat \<Rightarrow> c_int \<Rightarrow> string \<Rightarrow> string \<Rightarrow> string \<Rightarrow> ReadDirMgr option" where
  "ReadDirMgr_new flag gate frag share local =
     (case (if flag \<in> {RE_REMAIN_FLAG, MO_REMAIN_FLAG, MT_REMAIN_FLAG} then kind_dir flag else None) of
        None \<Rightarrow> Some \<lparr>rd_gateNo = gate, shareRootPath = [], rd_sharePath = [], rd_localPath = []\<rparr>
      | Some d \<Rightarrow>
          (let sp = (if share \<noteq> [] then share @ ''/'' @ d @ ''/'' @ frag else []); lp = local @ ''/'' @ d @ ''/'' @ frag
           in if length sp \<ge> 1024 \<or> length lp \<ge> 1024 then None
              else Some \<lparr>rd_gateNo = gate, shareRootPath = share, rd_sharePath = sp, rd_localPath = lp\<rparr>))"

text \<open>The test for the tail of a name: \<open>strcmp\<close> at three characters before the end.\<close>

definition is_ok_file :: "string \<Rightarrow> bool" where
  "is_ok_file name \<longleftrightarrow> 3 \<le> length name \<and> drop (length name - 3) name = ''.ok''"

fun read_entries :: "c_int \<Rightarrow> string \<Rightarrow> string list \<Rightarrow> string \<Rightarrow> fsys \<Rightarrow> (int \<times> string \<times> fsys) option" where
  "read_entries gate path [] d w = Some (- 122, d, w)"
| "read_entries gate path (e # es) d w =
     (let strFilename = path @ ''/'' @ e; (r, w) = next_out w
      in if r = Ok \<and> exists_path strFilename w \<and> strFilename \<notin> set (dirs w) \<and> is_ok_file e
         then (case ReadFileMgr_new gate strFilename of
                 None \<Rightarrow> None
               | Some m \<Rightarrow> (let (ret, d, w) = readFromFile m d w in if ret = 0 then Some (ret, d, w) else read_entries gate path es d w))
         else read_entries gate path es d w)"

definition readFileFromDir ::
  "(string list \<Rightarrow> string list) \<Rightarrow> c_int \<Rightarrow> string \<Rightarrow> string \<Rightarrow> fsys \<Rightarrow> (int \<times> string \<times> fsys) option" where
  "readFileFromDir readdir gate path d w =
     (if length path \<ge> 1024 then None
      else let (es, w) = sys_opendir path w
           in case es of None \<Rightarrow> Some (- 121, d, w) | Some es \<Rightarrow> read_entries gate path (readdir es) d w)"

definition readReaminData :: "(string list \<Rightarrow> string list) \<Rightarrow> ReadDirMgr \<Rightarrow> string \<Rightarrow> fsys \<Rightarrow> (int \<times> string \<times> fsys) option" where
  "readReaminData readdir m d w =
     (case readFileFromDir readdir (rd_gateNo m) (rd_localPath m) d w of
        None \<Rightarrow> None
      | Some (ret, d, w) \<Rightarrow>
          if ret = 0 then Some (ret, d, w)
          else let (r, w) = accessPath (shareRootPath m) w
               in if r < 0 then Some (- 123, d, w) else readFileFromDir readdir (rd_gateNo m) (rd_sharePath m) d w)"

section \<open>The manager (RemainMgr.cpp)\<close>

abbreviation REMAIN_MGR_RE_FLAG :: c_int where "REMAIN_MGR_RE_FLAG \<equiv> 1"
abbreviation REMAIN_MGR_MO_FLAG :: c_int where "REMAIN_MGR_MO_FLAG \<equiv> 2"
abbreviation REMAIN_MGR_MT_FLAG :: c_int where "REMAIN_MGR_MT_FLAG \<equiv> 3"

record RemainMgr =
  rm_isExit :: bool
  rm_isInit :: bool
  rm_gateNo :: c_int
  rm_maxCount :: c_int
  rm_outSecond :: c_int
  rm_sharePath :: string
  rm_localPath :: string
  userFileMgrMap :: "(string \<times> WriteFileMgr) list"

definition RemainMgr_new :: RemainMgr where
  "RemainMgr_new = \<lparr>rm_isExit = False, rm_isInit = False, rm_gateNo = 0, rm_maxCount = 0, rm_outSecond = 0, rm_sharePath = [],
     rm_localPath = [], userFileMgrMap = []\<rparr>"

definition remainMgrInit :: "u32 \<Rightarrow> c_int \<Rightarrow> c_int \<Rightarrow> string \<Rightarrow> string \<Rightarrow> string \<Rightarrow> RemainMgr \<Rightarrow> int \<times> RemainMgr" where
  "remainMgrInit gate maxC outSeconds share local exePath m =
     (0, m\<lparr>rm_gateNo := ucast gate, rm_maxCount := maxC, rm_outSecond := outSeconds, rm_sharePath := share,
           rm_localPath := (if local = [] then exePath else local), rm_isInit := True\<rparr>)"

fun each_folder :: "(WriteFileMgr \<Rightarrow> fsys \<Rightarrow> WriteFileMgr \<times> fsys) \<Rightarrow> (string \<times> WriteFileMgr) list \<Rightarrow> fsys \<Rightarrow> (string \<times> WriteFileMgr) list \<times> fsys" where
  "each_folder op [] w = ([], w)"
| "each_folder op ((k, m) # ms) w = (let (m, w) = op m w; (ms, w) = each_folder op ms w in ((k, m) # ms, w))"

definition remainMgrExit :: "(u64 \<Rightarrow> tm) \<Rightarrow> RemainMgr \<Rightarrow> fsys \<Rightarrow> RemainMgr \<times> fsys" where
  "remainMgrExit lt m w =
     (let (_, w) = each_folder (wf_exitClose lt) (userFileMgrMap m) w in (m\<lparr>rm_isExit := True, userFileMgrMap := []\<rparr>, w))"

definition kind_flag :: "c_int \<Rightarrow> bool \<Rightarrow> nat option" where
  "kind_flag bitFlag bak =
     (if bitFlag = REMAIN_MGR_RE_FLAG then Some (if bak then RE_REMAIN_BAK_FLAG else RE_REMAIN_FLAG)
      else if bitFlag = REMAIN_MGR_MO_FLAG then Some (if bak then MO_REMAIN_BAK_FLAG else MO_REMAIN_FLAG)
      else if bitFlag = REMAIN_MGR_MT_FLAG then Some (if bak then MT_REMAIN_BAK_FLAG else MT_REMAIN_FLAG)
      else None)"

definition folder_of :: "string \<Rightarrow> RemainMgr \<Rightarrow> WriteFileMgr" where
  "folder_of frag m =
     (case map_of (userFileMgrMap m) frag of Some f \<Rightarrow> f
      | None \<Rightarrow> WriteFileMgr_new (rm_gateNo m) (rm_maxCount m) (rm_outSecond m) (rm_sharePath m) (rm_localPath m) frag)"

definition write_remain ::
  "(u64 \<Rightarrow> tm) \<Rightarrow> bool \<Rightarrow> int \<Rightarrow> c_int \<Rightarrow> string \<Rightarrow> string \<Rightarrow> RemainMgr \<Rightarrow> fsys \<Rightarrow> int \<times> RemainMgr \<times> fsys" where
  "write_remain lt bak bad_flag bitFlag frag d m w =
     (if \<not> rm_isInit m then (- 1314, m, w)
      else if rm_isExit m then (- 131, m, w)
      else let f = folder_of frag m; (ret, f, w) = (case kind_flag bitFlag bak of None \<Rightarrow> (bad_flag, f, w) | Some flag \<Rightarrow> writeToFile lt flag d f w)
           in (ret, m\<lparr>userFileMgrMap := map_set frag f (userFileMgrMap m)\<rparr>, w))"

definition rm_writeRemainFile :: "(u64 \<Rightarrow> tm) \<Rightarrow> c_int \<Rightarrow> string \<Rightarrow> string \<Rightarrow> RemainMgr \<Rightarrow> fsys \<Rightarrow> int \<times> RemainMgr \<times> fsys" where
  "rm_writeRemainFile lt bitFlag frag d m w = write_remain lt False (- 133) bitFlag frag d m w"

definition rm_writeRemainFileBak :: "(u64 \<Rightarrow> tm) \<Rightarrow> c_int \<Rightarrow> string \<Rightarrow> string \<Rightarrow> RemainMgr \<Rightarrow> fsys \<Rightarrow> int \<times> RemainMgr \<times> fsys" where
  "rm_writeRemainFileBak lt bitFlag frag d m w = write_remain lt True (- 136) bitFlag frag d m w"

definition readRemainFile ::
  "(string list \<Rightarrow> string list) \<Rightarrow> c_int \<Rightarrow> string \<Rightarrow> string \<Rightarrow> RemainMgr \<Rightarrow> fsys \<Rightarrow> (int \<times> string \<times> fsys) option" where
  "readRemainFile readdir bitFlag frag d m w =
     (if \<not> rm_isInit m then Some (- 1314, d, w)
      else if rm_isExit m then Some (- 131, d, w)
      else case kind_flag bitFlag False of
             None \<Rightarrow> Some (- 1311, d, w)
           | Some flag \<Rightarrow>
               (case ReadDirMgr_new flag (rm_gateNo m) frag (rm_sharePath m) (rm_localPath m) of
                  None \<Rightarrow> None
                | Some dm \<Rightarrow> readReaminData readdir dm d w))"

definition statisticsRemainCount :: "c_int \<Rightarrow> string \<Rightarrow> int \<Rightarrow> int \<Rightarrow> RemainMgr \<Rightarrow> int \<times> int \<times> int" where
  "statisticsRemainCount bitFlag frag localCount shareCount m =
     (if \<not> rm_isInit m then (- 1314, localCount, shareCount) else if rm_isExit m then (- 131, localCount, shareCount) else (0, 0, 0))"

definition rm_everySecondCheck :: "(u64 \<Rightarrow> tm) \<Rightarrow> u64 \<Rightarrow> RemainMgr \<Rightarrow> fsys \<Rightarrow> RemainMgr \<times> fsys" where
  "rm_everySecondCheck lt second m w =
     (let second = (if second = 0 then tv_sec w else second)
      in if rm_isExit m then (m, w)
         else let (ms, w) = each_folder (wf_everySecondCheck lt second) (userFileMgrMap m) w in (m\<lparr>userFileMgrMap := ms\<rparr>, w))"

definition rm_updateGenFreq :: "c_int \<Rightarrow> RemainMgr \<Rightarrow> RemainMgr" where
  "rm_updateGenFreq freq m =
     (if rm_isExit m then m else m\<lparr>userFileMgrMap := map (\<lambda>(k, f). (k, wf_updateGenFreq freq f)) (userFileMgrMap m)\<rparr>)"

definition rm_updateMaxFileSize :: "c_int \<Rightarrow> RemainMgr \<Rightarrow> RemainMgr" where
  "rm_updateMaxFileSize sz m =
     (if rm_isExit m then m else m\<lparr>userFileMgrMap := map (\<lambda>(k, f). (k, wf_updateMaxFileSize sz f)) (userFileMgrMap m)\<rparr>)"

end
