(* ===== verification/FileOwner.thy ===== *)
theory FileOwner
  imports FileSys
begin

text \<open>
  What the writers of files share: an object that has one open file, with the name it was opened under, on the file system of
  \<^verbatim>\<open>FileSys\<close>. The interface is the locale \<open>file_owner\<close>: an object has a name and perhaps a stream, and giving it
  another stream changes neither. The writers of \<^verbatim>\<open>RemainFiles\<close> and of \<^verbatim>\<open>DetailFiles\<close> are its two interpretations.
\<close>

section \<open>The file system\<close>

lemma holds_extra: "holds C R \<Longrightarrow> holds (add_mset c C) R"
  using holds.one [OF _ embeds.none, of C R c] by simp

lemma holds_nothing: "holds C {#}"
proof (induction C)
  case (add c C)
  then show ?case by (rule holds_extra)
qed (rule holds.none)

text \<open>Nothing that the names and contents consist of is changed.\<close>

definition same_files :: "fsys \<Rightarrow> fsys \<Rightarrow> bool" where
  "same_files w w' \<longleftrightarrow> names w' = names w \<and> data w' = data w \<and> nextIno w' = nextIno w \<and> collided w' = collided w \<and> (undefd w \<longrightarrow> undefd w')"

lemma same_files_refl [simp]: "same_files w w"
  by (simp add: same_files_def)

lemma same_files_trans: "same_files w v \<Longrightarrow> same_files v u \<Longrightarrow> same_files w u"
  by (simp add: same_files_def)

lemma same_next_out: "next_out w = (r, w') \<Longrightarrow> same_files w w'"
  using next_out_state [of w r w'] by (simp add: same_files_def)

lemma same_access: "sys_access p w = (r, w') \<Longrightarrow> same_files w w'"
  by (auto simp: sys_access_def split: prod.splits dest: same_next_out)

lemma same_mkdir: "sys_mkdir p w = (r, w') \<Longrightarrow> same_files w w'"
  by (auto simp: sys_mkdir_def same_files_def split: prod.splits if_splits dest: next_out_state)

lemma contents_same: "same_files w w' \<Longrightarrow> contents w' = contents w"
  by (simp add: same_files_def contents_def)

lemma fs_ok_same: "same_files w w' \<Longrightarrow> fs_ok w' = fs_ok w"
  by (simp add: same_files_def fs_ok_def)

text \<open>A file that is linked, among the contents.\<close>

lemma contents_at:
  assumes "fs_ok w" and "(p, i) \<in> set (names w)"
  obtains C where "contents w = add_mset (data w i) C" and "\<And>x. contents (w\<lparr>data := (data w)(i := x)\<rparr>) = add_mset x C"
proof -
  from assms(2) obtain a b where ab: "names w = a @ (p, i) # b" by (meson split_list)
  have "i \<notin> snd ` set (a @ b)" using assms(1) unfolding fs_ok_def ab by auto
  then have "image_mset (\<lambda>e. ((data w)(i := x)) (snd e)) (mset (a @ b)) = image_mset (\<lambda>e. data w (snd e)) (mset (a @ b))" for x
    by (intro image_mset_cong) auto
  then show ?thesis using that [of "image_mset (\<lambda>e. data w (snd e)) (mset (a @ b))"] by (simp add: contents_def ab)
qed

lemma map_of_names: "fs_ok w \<Longrightarrow> map_of (names w) p = Some i \<longleftrightarrow> (p, i) \<in> set (names w)"
  by (simp add: fs_ok_def)

text \<open>Other files are neither changed nor renamed.\<close>

definition frame :: "nat set \<Rightarrow> fsys \<Rightarrow> fsys \<Rightarrow> bool" where
  "frame A w w' \<longleftrightarrow> nextIno w \<le> nextIno w' \<and>
     (\<forall>j < nextIno w. j \<notin> A \<longrightarrow> data w' j = data w j \<and> (\<forall>p. (p, j) \<in> set (names w') \<longleftrightarrow> (p, j) \<in> set (names w)))"

lemma frame_trans: "frame A w v \<Longrightarrow> frame B v u \<Longrightarrow> B \<subseteq> A \<union> {nextIno w ..} \<Longrightarrow> frame A w u"
  unfolding frame_def by (smt (verit) UnE atLeast_iff leD le_trans less_le_trans subsetD)

lemma frame_same: "same_files w w' \<Longrightarrow> frame A w w'"
  by (simp add: frame_def same_files_def)

section \<open>Objects with an open file\<close>

definition owner_ok :: "('m \<Rightarrow> string) \<Rightarrow> ('m \<Rightarrow> stream option) \<Rightarrow> fsys \<Rightarrow> 'm \<Rightarrow> bool" where
  "owner_ok nm get w m \<longleftrightarrow> (\<forall>f. get m = Some f \<longrightarrow> (nm m, ino f) \<in> set (names w) \<and> length (nm m) < 1024)"

definition owner_inos :: "('m \<Rightarrow> stream option) \<Rightarrow> 'm \<Rightarrow> nat set" where
  "owner_inos get m = (case get m of None \<Rightarrow> {} | Some f \<Rightarrow> {ino f})"

text \<open>
  A run of the owner of a file that accepts the records \<open>a\<close>. Unless a name was in use or a closed stream was used, the owner keeps the
  link to its open file, touches no file of others, and the files hold what they held, and \<open>a\<close>.
\<close>

definition owns ::
  "('m \<Rightarrow> string) \<Rightarrow> ('m \<Rightarrow> stream option) \<Rightarrow> string multiset \<Rightarrow> 'm \<Rightarrow> fsys \<Rightarrow> 'm \<Rightarrow> fsys \<Rightarrow> bool" where
  "owns nm get a m w m' w' \<longleftrightarrow> (collided w \<longrightarrow> collided w') \<and> (undefd w \<longrightarrow> undefd w') \<and>
     (fs_ok w \<and> owner_ok nm get w m \<and> \<not> collided w' \<and> \<not> undefd w' \<longrightarrow>
        fs_ok w' \<and> owner_ok nm get w' m' \<and> frame (owner_inos get m) w w' \<and> owner_inos get m' \<subseteq> owner_inos get m \<union> {nextIno w ..} \<and>
        (\<forall>R. holds (contents w) R \<longrightarrow> holds (contents w') (a + R)))"

lemma owns_refl [simp]: "owns nm get {#} m w m w"
  by (simp add: owns_def frame_def)

lemma owns_trans:
  assumes "owns nm get a m w m' w'" and "owns nm get b m' w' m'' w''"
  shows "owns nm get (b + a) m w m'' w''"
proof -
  have "owner_inos get m'' \<subseteq> owner_inos get m \<union> {nextIno w ..}"
    if "owner_inos get m' \<subseteq> owner_inos get m \<union> {nextIno w ..}" "owner_inos get m'' \<subseteq> owner_inos get m' \<union> {nextIno w' ..}" "nextIno w \<le> nextIno w'"
    using that by fastforce
  then show ?thesis
    using assms frame_trans [of "owner_inos get m" w w' "owner_inos get m'" w''] unfolding owns_def by (auto simp: frame_def add.assoc)
qed

lemma owns_trans0: "owns nm get {#} m w m' w' \<Longrightarrow> owns nm get b m' w' m'' w'' \<Longrightarrow> owns nm get b m w m'' w''"
  using owns_trans [of nm get "{#}" m w m' w' b m'' w''] by simp

lemma owns_same: "same_files w w' \<Longrightarrow> owns nm get {#} m w m w'"
  by (auto simp: owns_def contents_same fs_ok_same frame_same owner_ok_def) (auto simp: same_files_def)

text \<open>An object that differs only in what its name and its stream do not depend on, or has no open file.\<close>

lemma owns_forget: "get m' = None \<Longrightarrow> owns nm get {#} m w m' w"
  by (simp add: owns_def frame_def owner_ok_def owner_inos_def)

lemma owns_cong:
  assumes "owns nm get a m w m' w'" and "nm n = nm m'" and "get n = get m'"
  shows "owns nm get a m w n w'"
  using assms by (simp add: owns_def owner_ok_def owner_inos_def)

section \<open>Streams\<close>

lemma same_touch: "same_files w (touch f w)"
  by (simp add: same_files_def touch_def)

lemma c_fwrite_sound:
  assumes "c_fwrite s f w = (n, f', w')"
  shows "same_files w w' \<and> ino f' = ino f \<and> closed f' = closed f \<and> fbuf f' = fbuf f @ take n s"
  using assms by (auto simp: c_fwrite_def Let_def split: prod.splits intro: same_files_trans [OF same_touch same_next_out])

text \<open>A rename to a name that is not in use moves the file and nothing else.\<close>

lemma sys_rename_result:
  assumes "sys_rename p q w = (r, w')" and "fs_ok w" and "\<not> collided w'"
  shows "same_files w w' \<or>
    (\<exists>i. (p, i) \<in> set (names w) \<and> q \<notin> fst ` set (names w) \<and> p \<noteq> q \<and> data w' = data w \<and> nextIno w' = nextIno w \<and> \<not> collided w \<and> undefd w' = undefd w \<and>
       names w' = filter (\<lambda>e. fst e \<noteq> p) (names w) @ [(q, i)])"
proof -
  obtain k v where k: "next_out w = (k, v)" by force
  note v = next_out_state [OF k] same_next_out [OF k]
  show ?thesis
  proof (cases "k \<noteq> Ok \<or> \<not> in_dir q v \<or> map_of (names v) p = None \<or> p = q")
    case True
    then show ?thesis using assms(1) k v by (auto simp: sys_rename_def split: option.splits if_splits)
  next
    case False
    then obtain i where i: "map_of (names v) p = Some i" by auto
    have e: "w' = v\<lparr>names := unlink_name p (unlink_name q (names v)) @ [(q, i)], collided := collided v \<or> exists_path q v\<rparr>"
      using assms(1) k i False by (auto simp: sys_rename_def)
    have q: "q \<notin> fst ` set (names w)" "\<not> collided w" using assms(3) v e by (simp_all add: exists_path_def)
    have "unlink_name q (names w) = names w" using q by (force simp: unlink_name_def filter_id_conv)
    moreover have "(p, i) \<in> set (names w)" using i v assms(2) map_of_names by metis
    ultimately show ?thesis using q False v e by (auto simp: unlink_name_def)
  qed
qed

lemma rename_files:
  assumes "fs_ok w" and "(p, i) \<in> set (names w)" and "q \<notin> fst ` set (names w)" and "data w' = data w" and "nextIno w' = nextIno w"
    and "names w' = filter (\<lambda>e. fst e \<noteq> p) (names w) @ [(q, i)]"
  shows "fs_ok w' \<and> contents w' = contents w \<and> frame {i} w w'"
proof -
  obtain a b where ab: "names w = a @ (p, i) # b" using assms(2) by (meson split_list)
  have d: "distinct (map fst (names w))" "distinct (map snd (names w))" using assms(1) by (simp_all add: fs_ok_def)
  then have "p \<notin> fst ` set (a @ b)" "i \<notin> snd ` set (a @ b)" unfolding ab by auto
  then have "filter (\<lambda>e. fst e \<noteq> p) a = a" "filter (\<lambda>e. fst e \<noteq> p) b = b" by (force intro: filter_True)+
  then have n: "names w' = a @ b @ [(q, i)]" using assms(6) unfolding ab by simp
  have "fs_ok w'" using assms(1,3,5) d unfolding fs_ok_def n ab by auto
  moreover have "contents w' = contents w" by (simp add: contents_def n ab assms(4))
  moreover have "frame {i} w w'" using assms(4,5) by (auto simp: frame_def n ab)
  ultimately show ?thesis by blast
qed

lemma sys_rename_mono: "sys_rename p q w = (r, w') \<Longrightarrow> (collided w \<longrightarrow> collided w') \<and> undefd w' = undefd w"
  by (auto simp: sys_rename_def split: prod.splits if_splits option.splits dest!: next_out_state)

section \<open>The interface\<close>

locale file_owner =
  fixes nm :: "'m \<Rightarrow> string" and get :: "'m \<Rightarrow> stream option" and put :: "stream option \<Rightarrow> 'm \<Rightarrow> 'm"
  assumes get_put [simp]: "get (put x m) = x" and nm_put [simp]: "nm (put x m) = nm m"
begin

lemma stream: "same_files w w' \<Longrightarrow> get m = Some f \<Longrightarrow> ino f' = ino f \<Longrightarrow> owns nm get {#} m w (put (Some f') m) w'"
  using owns_same [of w w' nm get m] by (auto simp: owns_def owner_ok_def owner_inos_def)

text \<open>The buffer, or a part of it, is appended to the open file.\<close>

lemma append:
  assumes "same_files w v" and "v' = v\<lparr>data := (data v)(ino f := data v (ino f) @ x)\<rparr>" and "get m = Some f" and "ino f' = ino f"
  shows "owns nm get {#} m w (put (Some f') m) v'"
    and "x = junk @ r \<Longrightarrow> owns nm get {#r#} m w (put (Some f') m) v'"
proof -
  have fr: "frame (owner_inos get m) w v'" using assms by (auto simp: frame_def same_files_def owner_inos_def)
  have st: "names v' = names w" "nextIno v' = nextIno w" "collided v' = collided w" "undefd w \<longrightarrow> undefd v'"
    using assms(1,2) by (simp_all add: same_files_def)
  have ok: "fs_ok w \<Longrightarrow> fs_ok v'" using st by (simp add: fs_ok_def)
  have h: "holds (contents w) R \<Longrightarrow> holds (contents v') R \<and> (x = junk @ r \<longrightarrow> holds (contents v') (add_mset r R))"
    if "fs_ok w" "owner_ok nm get w m" for R
  proof -
    have "fs_ok v" "(nm m, ino f) \<in> set (names v)" using that assms(1,3) by (auto simp: owner_ok_def fs_ok_same) (simp add: same_files_def)
    then obtain C where C: "contents v = add_mset (data v (ino f)) C" "contents v' = add_mset (data v (ino f) @ x) C"
      using contents_at unfolding assms(2) by metis
    assume "holds (contents w) R"
    then have "holds (add_mset (data v (ino f)) C) R" using contents_same [OF assms(1)] C(1) by simp
    then show ?thesis unfolding C(2) using holds_grow holds_record by blast
  qed
  show "owns nm get {#} m w (put (Some f') m) v'"
    unfolding owns_def using fr st ok h assms(3,4) by (auto simp: owner_ok_def owner_inos_def)
  show "x = junk @ r \<Longrightarrow> owns nm get {#r#} m w (put (Some f') m) v'"
    unfolding owns_def using fr st ok h assms(3,4) by (auto simp: owner_ok_def owner_inos_def)
qed

lemma fflush:
  assumes "c_fflush f w = (r, f', w')" and "get m = Some f"
  shows "owns nm get {#} m w (put (Some f') m) w' \<and> ino f' = ino f \<and> (r \<noteq> EOF \<longrightarrow> r = 0 \<and> (fbuf f = junk @ d \<longrightarrow> owns nm get {#d#} m w (put (Some f') m) w'))"
proof -
  obtain q v where q: "next_out (touch f w) = (q, v)" by force
  have v: "same_files w v" using same_touch same_next_out [OF q] same_files_trans by blast
  have e: "w' = v\<lparr>data := (data v)(ino f := data v (ino f) @ take (sent q (fbuf f)) (fbuf f))\<rparr>" "ino f' = ino f" "r = (if q = Ok then 0 else EOF)"
    using assms(1) by (auto simp: c_fflush_def q put_out_def Let_def)
  have "q = Ok \<Longrightarrow> take (sent q (fbuf f)) (fbuf f) = fbuf f" by (simp add: sent_def)
  then show ?thesis using append [OF v e(1) assms(2) e(2)] e by auto
qed

lemma fclose:
  assumes "c_fclose f w = (r, f', w')" and "get m = Some f"
  shows "owns nm get {#} m w (put (Some f') m) w' \<and> ino f' = ino f"
proof -
  obtain q v where q: "next_out (touch f w) = (q, v)" by force
  have v: "same_files w v" using same_touch same_next_out [OF q] same_files_trans by blast
  have e: "w' = v\<lparr>data := (data v)(ino f := data v (ino f) @ take (sent q (fbuf f)) (fbuf f))\<rparr>" "ino f' = ino f"
    using assms(1) by (auto simp: c_fclose_def q put_out_def Let_def)
  show ?thesis using append(1) [OF v e(1) assms(2) e(2)] e by auto
qed

text \<open>The file gets another name and is not the object's any more.\<close>

lemma rename:
  assumes q: "sys_rename p q w = (r, w')" and f: "get m = Some f" and n: "get m' = None" and p: "owner_ok nm get w m \<Longrightarrow> p = nm m"
  shows "owns nm get {#} m w m' w'"
proof -
  have "fs_ok w' \<and> frame (owner_inos get m) w w' \<and> contents w' = contents w" if ok: "fs_ok w" "owner_ok nm get w m" "\<not> collided w'"
    using sys_rename_result [OF q ok(1,3)]
  proof
    assume "same_files w w'"
    then show ?thesis using ok fs_ok_same frame_same contents_same by blast
  next
    have l: "(p, ino f) \<in> set (names w)" using ok(2) f p by (auto simp: owner_ok_def)
    assume "\<exists>i. (p, i) \<in> set (names w) \<and> q \<notin> fst ` set (names w) \<and> p \<noteq> q \<and>
       data w' = data w \<and> nextIno w' = nextIno w \<and> \<not> collided w \<and> undefd w' = undefd w \<and>
       names w' = filter (\<lambda>e. fst e \<noteq> p) (names w) @ [(q, i)]"
    then obtain i where i: "(p, i) \<in> set (names w)" "q \<notin> fst ` set (names w)" "data w' = data w" "nextIno w' = nextIno w"
      "names w' = filter (\<lambda>e. fst e \<noteq> p) (names w) @ [(q, i)]"
      by blast
    have "i = ino f" using i(1) l map_of_names [OF ok(1)] by (metis option.inject)
    then show ?thesis using rename_files [OF ok(1) i] f by (auto simp: owner_inos_def)
  qed
  then show ?thesis using sys_rename_mono [OF q] n by (auto simp: owns_def owner_ok_def owner_inos_def)
qed

text \<open>A file is created under the name of the object.\<close>

lemma fopen:
  assumes "c_fopen_append (nm m) w = (Some f, w')" and "get m = None" and "length (nm m) < 1024"
  shows "owns nm get {#} m w (put (Some f) m) w'"
proof -
  obtain k v where k: "next_out w = (k, v)" by force
  note v = next_out_state [OF k]
  show ?thesis
  proof (cases "map_of (names v) (nm m)")
    case (Some i)
    then have "collided w'" "undefd w' = undefd v" using assms(1) k by (auto simp: c_fopen_append_def split: if_splits)
    then show ?thesis using v by (simp add: owns_def)
  next
    case None
    then have e: "w' = v\<lparr>names := names v @ [(nm m, nextIno v)], data := (data v)(nextIno v := []), nextIno := nextIno v + 1\<rparr>" "ino f = nextIno v"
      using assms(1) k by (auto simp: c_fopen_append_def split: if_splits)
    have fresh: "nm m \<notin> fst ` set (names v)" using None by (simp add: map_of_eq_None_iff)
    have "fs_ok w' \<and> frame {} w w' \<and> contents w' = add_mset [] (contents w)" if "fs_ok w"
    proof -
      have lt: "\<forall>e \<in> set (names v). snd e < nextIno v" using that v by (simp add: fs_ok_def)
      then have "image_mset (\<lambda>e. ((data v)(nextIno v := [])) (snd e)) (mset (names v)) = image_mset (\<lambda>e. data v (snd e)) (mset (names v))"
        by (intro image_mset_cong) auto
      then show ?thesis using that v e fresh lt by (auto simp: fs_ok_def frame_def contents_def)
    qed
    then show ?thesis using e v assms(2,3) by (auto simp: owns_def owner_ok_def owner_inos_def intro: holds_create)
  qed
qed

lemma fopen_failed:
  "c_fopen_append p w = (None, w') \<Longrightarrow> same_files w w'"
  by (auto simp: c_fopen_append_def split: prod.splits if_splits option.splits dest: same_next_out)

end

end
