(* ===== verification/RemainFilesProps.thy ===== *)
theory RemainFilesProps
  imports RemainFiles FileOwner "HOL-Library.Sublist"
begin

text \<open>
  What the stuck-message files guarantee: an accepted record is never lost, through rotations, timeouts, failing calls of the
  operating system, and readers.
\<close>

section \<open>The file system\<close>

lemma same_make_dir: "make_dir p w = (r, w') \<Longrightarrow> same_files w w'"
  by (auto simp: make_dir_def split: prod.splits if_splits dest: same_access same_mkdir intro: same_files_trans)

lemma same_mkdirs_loop: "mkdirs_loop s rest w = (r, w') \<Longrightarrow> same_files w w'"
proof (induction s rest w rule: mkdirs_loop.induct)
  case (1 str w)
  then show ?case by (simp add: same_make_dir)
next
  case (2 str c rest w)
  show ?case
  proof (cases "c = CHR ''/''")
    case True
    obtain q v where q: "make_dir str w = (q, v)" by force
    show ?thesis
    proof (cases "q = 0")
      case True
      with \<open>c = _\<close> q 2(3) have "mkdirs_loop (str @ [c]) rest v = (r, w')" by simp
      then have "same_files v w'" using 2(1) [OF \<open>c = _\<close> q [symmetric]] True by simp
      then show ?thesis using same_make_dir [OF q] same_files_trans by blast
    next
      case False
      then have "w' = v" using q True 2(3) by simp
      then show ?thesis using same_make_dir [OF q] by simp
    qed
  next
    case False
    then show ?thesis using 2 by simp
  qed
qed

lemma same_mkdirs: "mkdirs p w = (r, w') \<Longrightarrow> same_files w w'"
  by (auto simp: mkdirs_def split: list.splits dest: same_mkdirs_loop)

lemma same_accessPath: "accessPath p w = (r, w') \<Longrightarrow> same_files w w'"
  by (auto simp: accessPath_def split: if_splits dest: same_access)

section \<open>One writer\<close>

abbreviation writer_ok :: "(u64 \<Rightarrow> tm) \<Rightarrow> fsys \<Rightarrow> file_writer \<Rightarrow> bool" where
  "writer_ok lt \<equiv> owner_ok (tmp_name lt) pFile"

abbreviation inos :: "file_writer \<Rightarrow> nat set" where
  "inos \<equiv> owner_inos pFile"

abbreviation sound :: "(u64 \<Rightarrow> tm) \<Rightarrow> string multiset \<Rightarrow> file_writer \<Rightarrow> fsys \<Rightarrow> file_writer \<Rightarrow> fsys \<Rightarrow> bool" where
  "sound lt \<equiv> owns (tmp_name lt) pFile"

lemma tmp_name_upd [simp]:
  "tmp_name lt (m\<lparr>pFile := x\<rparr>) = tmp_name lt m" "tmp_name lt (m\<lparr>curCount := n\<rparr>) = tmp_name lt m" "tmp_name lt (m\<lparr>fw_isExit := b\<rparr>) = tmp_name lt m"
  "ok_name lt (m\<lparr>pFile := x\<rparr>) = ok_name lt m"
  by (simp_all add: tmp_name_def ok_name_def)

interpretation rfw: file_owner "tmp_name lt" pFile "\<lambda>x m. m\<lparr>pFile := x\<rparr>" for lt :: "u64 \<Rightarrow> tm"
  by unfold_locales simp_all

lemmas sound_trans = owns_trans [where nm = "tmp_name lt" and get = pFile for lt]
lemmas sound_trans0 = owns_trans0 [where nm = "tmp_name lt" and get = pFile for lt]
lemmas sound_same = owns_same [where nm = "tmp_name lt" and get = pFile for lt]
lemmas sound_forget = owns_forget [where nm = "tmp_name lt" and get = pFile for lt]

subsection \<open>Streams\<close>

lemma write_loop_sound:
  assumes "write_loop t s f w = (rest, f', w')"
  shows "same_files w w' \<and> ino f' = ino f \<and> closed f' = closed f \<and> (\<exists>x. s = x @ rest \<and> fbuf f' = fbuf f @ x)"
  using assms
proof (induction t s f w rule: write_loop.induct)
  case (1 t s f w)
  obtain n g v where c: "c_fwrite s f w = (n, g, v)" by (metis prod_cases3)
  note g = c_fwrite_sound [OF c]
  show ?case
  proof (cases "t + 1 \<ge> 3 \<or> drop n s = []")
    case True
    then have "(rest, f', w') = (drop n s, g, v)" using 1(2) unfolding write_loop.simps [of t] by (auto simp: c split: if_splits)
    then show ?thesis using g by (auto intro!: exI [of _ "take n s"])
  next
    case False
    then have r: "write_loop (t + 1) (drop n s) g v = (rest, f', w')" using 1(2) by (subst (asm) write_loop.simps) (simp add: c)
    from 1(1) [OF c [symmetric] refl refl refl refl _ _ r] False
    obtain x where x: "same_files v w'" "ino f' = ino g" "closed f' = closed g" "drop n s = x @ rest" "fbuf f' = fbuf g @ x" by auto
    have "s = (take n s @ x) @ rest" using x(4) by (metis append.assoc append_take_drop_id)
    then show ?thesis using g x same_files_trans by fastforce
  qed
qed


subsection \<open>Closing and opening\<close>

lemma finish_file_sound:
  assumes "finish_file lt e m w = (r, m', w')" and "pFile m = Some f"
  shows "sound lt {#} m w m' w' \<and> pFile m' = None"
proof -
  obtain q where q: "sys_rename (name_buf (tmp_name lt m)) (name_buf (ok_name lt m)) w = (q, w')" and n: "pFile m' = None"
    using assms(1) by (auto simp: finish_file_def renameFile_def split: prod.splits)
  from rfw.rename [OF q assms(2) n] n assms(2) show ?thesis by (auto simp: owner_ok_def name_buf_def)
qed

lemma share_Close_sound:
  assumes "share_CloseCurFile lt m w = (r, m', w')"
  shows "sound lt {#} m w m' w' \<and> (0 \<le> r \<longrightarrow> pFile m' = None)"
proof (cases "pFile m")
  case None
  then show ?thesis using assms by (simp add: share_CloseCurFile_def)
next
  case (Some f)
  obtain q v where v: "accessPath (rootPath m) w = (q, v)" by force
  note sv = sound_same [OF same_accessPath [OF v], of lt m]
  obtain x g u where x: "c_fflush f v = (x, g, u)" by (metis prod_cases3)
  have su: "sound lt {#} m w (m\<lparr>pFile := Some g\<rparr>) u" using rfw.fflush [OF x Some] sound_trans0 [OF sv] by blast
  obtain y h t where y: "c_fclose g u = (y, h, t)" by (metis prod_cases3)
  have st: "sound lt {#} m w (m\<lparr>pFile := Some h\<rparr>) t"
    using rfw.fclose [OF y, of "m\<lparr>pFile := Some g\<rparr>" lt] sound_trans0 [OF su] by simp
  have fin: "finish_file lt (- 1011) (m\<lparr>pFile := Some h\<rparr>) t = finish_file lt (- 1011) m t" by (simp add: finish_file_def)
  show ?thesis
  proof (cases "q < 0 \<or> x < 0 \<or> y < 0")
    case True
    then show ?thesis using assms Some v x y sv su st by (auto simp: share_CloseCurFile_def split: if_splits)
  next
    case False
    then have "finish_file lt (- 1011) (m\<lparr>pFile := Some h\<rparr>) t = (r, m', w')" using assms Some v x y fin by (simp add: share_CloseCurFile_def)
    from finish_file_sound [OF this] show ?thesis using sound_trans0 [OF st] by simp
  qed
qed

lemma local_Close_sound:
  assumes "local_CloseCurFile lt m w = (r, m', w')"
  shows "sound lt {#} m w m' w' \<and> pFile m' = None"
proof (cases "pFile m")
  case None
  then show ?thesis using assms by (simp add: local_CloseCurFile_def)
next
  case (Some f)
  obtain x g u where x: "c_fflush f w = (x, g, u)" by (metis prod_cases3)
  have su: "sound lt {#} m w (m\<lparr>pFile := Some g\<rparr>) u" using rfw.fflush [OF x Some] by blast
  obtain y h t where y: "c_fclose g u = (y, h, t)" by (metis prod_cases3)
  have st: "sound lt {#} m w (m\<lparr>pFile := Some h\<rparr>) t"
    using rfw.fclose [OF y, of "m\<lparr>pFile := Some g\<rparr>" lt] sound_trans0 [OF su] by simp
  have "finish_file lt (- 1022) (m\<lparr>pFile := Some h\<rparr>) t = (r, m', w')" using assms Some x y by (simp add: local_CloseCurFile_def finish_file_def)
  from finish_file_sound [OF this] show ?thesis using sound_trans0 [OF st] by simp
qed


lemma fopen_sound:
  assumes "c_fopen_append (tmp_name lt m) w = (Some f, w')" and "pFile m = None" and "length (tmp_name lt m) < 1024"
  shows "sound lt {#} m w (m\<lparr>pFile := Some f, curCount := 0\<rparr>) w'"
  using owns_cong [OF rfw.fopen [OF assms], of "m\<lparr>pFile := Some f, curCount := 0\<rparr>"] by simp

lemma open_new_sound:
  assumes "open_new lt e m w = (r, m', w')" and "pFile m = None"
  shows "sound lt {#} m w m' w'"
proof -
  obtain q v where v: "mkdirs (filePath m) w = (q, v)" by force
  note same = same_mkdirs [OF v]
  define n where "n = m\<lparr>seqId := if seqId m + 1 > 99999 then 1 else seqId m + 1, creatSecond := tv_sec v, millSecond := tv_usec v div 1000\<rparr>"
  have pn: "pFile n = None" using assms(2) by (simp add: n_def)
  have sn: "sound lt {#} m w n v"
    using sound_trans0 [OF sound_same [OF same] sound_forget [OF pn]] .
  have un: "open_new lt e m w = (if 1024 \<le> length (filePath m) then (path_long e, m, w) else if q = - 1 then (mkdirs_failed e, m, v)
      else if 1024 \<le> length (tmp_name lt n) then (name_long e, n, v)
      else case c_fopen_append (tmp_name lt n) v of (Some f, w) \<Rightarrow> (0, n\<lparr>pFile := Some f, curCount := 0\<rparr>, w) | (None, w) \<Rightarrow> (fopen_failed e, n\<lparr>pFile := None\<rparr>, w))"
    unfolding open_new_def v n_def Let_def by (simp split: prod.split option.split)
  show ?thesis
  proof (cases "length (filePath m) \<ge> 1024 \<or> q = - 1 \<or> length (tmp_name lt n) \<ge> 1024")
    case True
    then consider "m' = m" "w' = w" | "m' = m" "w' = v" | "m' = n" "w' = v"
      using assms(1) unfolding un by (auto split: if_splits)
    then show ?thesis using sn sound_same [OF same] by cases auto
  next
    case False
    then have r: "(case c_fopen_append (tmp_name lt n) v of (Some f, w) \<Rightarrow> (0, n\<lparr>pFile := Some f, curCount := 0\<rparr>, w) | (None, w) \<Rightarrow> (fopen_failed e, n\<lparr>pFile := None\<rparr>, w)) = (r, m', w')"
      using assms(1) unfolding un by simp
    have "sound lt {#} n v m' w'"
    proof (cases "fst (c_fopen_append (tmp_name lt n) v)")
      case None
      have "same_files v (snd (c_fopen_append (tmp_name lt n) v))"
        using None by (auto simp: c_fopen_append_def split: prod.splits if_splits option.splits dest: same_next_out)
      then have "sound lt {#} n v n w'" "pFile m' = None" using r None sound_same by (auto split: prod.splits)
      then show ?thesis using sound_trans0 sound_forget by metis
    next
      case (Some f)
      then show ?thesis using r False fopen_sound [of lt n v f w'] pn by (auto split: prod.splits)
    qed
    then show ?thesis using sound_trans0 [OF sn] by blast
  qed
qed


lemma share_switch_sound: "share_switchToNewFile lt m w = (r, m', w') \<Longrightarrow> sound lt {#} m w m' w'"
  by (auto simp: share_switchToNewFile_def split: prod.splits if_splits dest!: share_Close_sound open_new_sound intro: sound_trans0)

lemma local_switch_sound: "local_switchToNewFile lt m w = (r, m', w') \<Longrightarrow> sound lt {#} m w m' w'"
  by (auto simp: local_switchToNewFile_def split: prod.splits if_splits dest!: local_Close_sound open_new_sound intro: sound_trans0)

lemma sound_count: "sound lt a m w m' w' \<Longrightarrow> sound lt a m w (m'\<lparr>curCount := n\<rparr>) w'"
  by (simp add: owns_def owner_ok_def owner_inos_def)

text \<open>The codes of a refused write are negative, so 0 is the code of an accepted one.\<close>

lemma put_content_sound:
  assumes run: "put_content switch e1 e2 content m w = (r, m', w')" and neg: "e1 < 0" "e2 < 0"
    and sw: "\<And>m w r m' w'. switch m w = (r, m', w') \<Longrightarrow> sound lt {#} m w m' w'"
  shows "sound lt (if r = 0 then {#content#} else {#}) m w m' w' \<and> r \<le> 0"
proof (cases "pFile m")
  case None
  then show ?thesis using run neg by (simp add: put_content_def)
next
  case (Some f)
  obtain rest g v where l: "write_loop 0 content f w = (rest, g, v)" by (metis prod_cases3)
  note g = write_loop_sound [OF l]
  have sg: "sound lt {#} m w (m\<lparr>pFile := Some g\<rparr>) v" using rfw.stream [of w v m f g lt] g Some by simp
  show ?thesis
  proof (cases "rest = []")
    case False
    then show ?thesis using run Some l sg neg by (simp add: put_content_def)
  next
    case True
    then have buf: "fbuf g = fbuf f @ content" using g by auto
    obtain q h u where h: "c_fflush g v = (q, h, u)" by (metis prod_cases3)
    from rfw.fflush [OF h, of "m\<lparr>pFile := Some g\<rparr>" lt "fbuf f" content] buf
    have fl: "sound lt {#} m w (m\<lparr>pFile := Some h\<rparr>) u" "q \<noteq> EOF \<longrightarrow> sound lt {#content#} m w (m\<lparr>pFile := Some h\<rparr>) u"
      using sound_trans0 [OF sg] by auto
    show ?thesis
    proof (cases "q = EOF")
      case False
      then show ?thesis using run Some l True h fl sound_count by (auto simp: put_content_def)
    next
      case eof: True
      obtain y n t where y: "switch (m\<lparr>pFile := Some h\<rparr>) u = (y, n, t)" by (metis prod_cases3)
      have "sound lt {#} m w n t" using sound_trans0 [OF fl(1) sw [OF y]] .
      then have "sound lt {#} m w (n\<lparr>pFile := None\<rparr>) t" "sound lt {#} m w n t" using sound_trans0 sound_forget by (metis file_writer.select_convs(9) file_writer.surjective file_writer.update_convs(9))+
      then show ?thesis using run Some l True h eof y by (auto simp: put_content_def split: if_splits)
    qed
  qed
qed

lemma write_after_sound:
  assumes "sound lt {#} m w n v" and "put_content switch e1 e2 content n v = (r, m', w')" and "e1 < 0" and "e2 < 0"
    and "\<And>m w r m' w'. switch m w = (r, m', w') \<Longrightarrow> sound lt {#} m w m' w'"
  shows "sound lt (if r = 0 then {#content#} else {#}) m w m' w' \<and> r \<le> 0"
proof -
  have "sound lt (if r = 0 then {#content#} else {#}) n v m' w' \<and> r \<le> 0"
    by (rule put_content_sound [OF assms(2-4)]) (rule assms(5))
  then show ?thesis using sound_trans0 [OF assms(1)] by blast
qed

lemma share_write_sound:
  assumes "share_writeToFile lt content m w = (r, m', w')"
  shows "sound lt (if r = 0 then {#content#} else {#}) m w m' w' \<and> r \<le> 0"
proof -
  obtain x n v where x: "(if pFile m = None \<or> curCount m \<ge> sint (fw_maxCount m) then share_switchToNewFile lt m w
              else let (r, w) = accessPath (rootPath m) w in (if r < 0 then - 102 else 0, m, w)) = (x, n, v)" by (metis prod_cases3)
  then have s: "sound lt {#} m w n v"
    by (auto split: if_splits prod.splits dest: share_switch_sound sound_same [OF same_accessPath])
  show ?thesis
  proof (cases "rootPath m = [] \<or> filePath m = [] \<or> fw_isExit m \<or> x < 0")
    case True
    then show ?thesis using assms x s unfolding share_writeToFile_def x by (auto split: if_splits)
  next
    case False
    then have "put_content (share_switchToNewFile lt) (- 103) (- 104) content n v = (r, m', w')"
      using assms unfolding share_writeToFile_def x by simp
    from write_after_sound [OF s this _ _ share_switch_sound] show ?thesis by simp
  qed
qed

lemma local_write_sound:
  assumes "local_writeToFile lt content m w = (r, m', w')"
  shows "sound lt (if r = 0 then {#content#} else {#}) m w m' w' \<and> r \<le> 0"
proof -
  obtain x n v where x: "(if pFile m = None \<or> curCount m \<ge> sint (fw_maxCount m) then local_switchToNewFile lt m w else (0, m, w)) = (x, n, v)"
    by (metis prod_cases3)
  then have s: "sound lt {#} m w n v" by (auto split: if_splits dest: local_switch_sound)
  show ?thesis
  proof (cases "fw_isExit m \<or> x < 0")
    case True
    then show ?thesis using assms x s unfolding local_writeToFile_def x by (auto split: if_splits)
  next
    case False
    then have "put_content (local_switchToNewFile lt) (- 1014) (- 1015) content n v = (r, m', w')"
      using assms unfolding local_writeToFile_def x by simp
    from write_after_sound [OF s this _ _ local_switch_sound] show ?thesis by simp
  qed
qed

lemma exitClose_sound:
  assumes "fw_exitClose close m w = (m', w')" and "\<And>m w r m' w'. close m w = (r, m', w') \<Longrightarrow> sound lt {#} m w m' w'"
  shows "sound lt {#} m w m' w' \<and> pFile m' = None"
proof (cases "pFile m")
  case None
  then show ?thesis using assms(1) sound_forget [of m' lt m w] by (auto simp: fw_exitClose_def)
next
  case (Some f)
  obtain r n v where c: "close (m\<lparr>fw_isExit := True\<rparr>) w = (r, n, v)" by (metis prod_cases3)
  have "sound lt {#} m w n v" using assms(2) [OF c] by (simp add: owns_def owner_ok_def owner_inos_def)
  then show ?thesis using assms(1) Some c sound_trans0 sound_forget by (auto simp: fw_exitClose_def)
qed

lemma secondCheck_sound:
  assumes "fw_everySecondCheck close second m w = (m', w')" and "\<And>m w r m' w'. close m w = (r, m', w') \<Longrightarrow> sound lt {#} m w m' w'"
  shows "sound lt {#} m w m' w'"
  using assms by (auto simp: fw_everySecondCheck_def Let_def split: if_splits prod.splits)


section \<open>All writers\<close>

text \<open>The writers by folder, by kind of directory and by flag. No two of them have the same open file.\<close>

type_synonym writers = "string \<times> bool \<times> nat \<Rightarrow> file_writer option"

definition writers_ok :: "(u64 \<Rightarrow> tm) \<Rightarrow> fsys \<Rightarrow> ('k \<Rightarrow> file_writer option) \<Rightarrow> bool" where
  "writers_ok lt w F \<longleftrightarrow> (\<forall>k m. F k = Some m \<longrightarrow> writer_ok lt w m) \<and>
     (\<forall>k k' m m'. F k = Some m \<longrightarrow> F k' = Some m' \<longrightarrow> k \<noteq> k' \<longrightarrow> inos m \<inter> inos m' = {})"

definition all_sound :: "(u64 \<Rightarrow> tm) \<Rightarrow> string multiset \<Rightarrow> ('k \<Rightarrow> file_writer option) \<Rightarrow> fsys \<Rightarrow> ('k \<Rightarrow> file_writer option) \<Rightarrow> fsys \<Rightarrow> bool" where
  "all_sound lt a F w F' w' \<longleftrightarrow> (collided w \<longrightarrow> collided w') \<and> (undefd w \<longrightarrow> undefd w') \<and>
     (fs_ok w \<and> writers_ok lt w F \<and> \<not> collided w' \<and> \<not> undefd w' \<longrightarrow>
        fs_ok w' \<and> writers_ok lt w' F' \<and> (\<forall>R. holds (contents w) R \<longrightarrow> holds (contents w') (a + R)))"

lemma all_sound_refl [simp]: "all_sound lt {#} F w F w"
  by (simp add: all_sound_def)

lemma all_sound_trans: "all_sound lt a F w G v \<Longrightarrow> all_sound lt b G v H u \<Longrightarrow> all_sound lt (b + a) F w H u"
  unfolding all_sound_def by (auto simp: add.assoc)

lemma all_sound_trans0: "all_sound lt {#} F w G v \<Longrightarrow> all_sound lt b G v H u \<Longrightarrow> all_sound lt b F w H u"
  using all_sound_trans [of lt "{#}" F w G v b H u] by simp

lemma inos_linked: "fs_ok w \<Longrightarrow> writer_ok lt w m \<Longrightarrow> i \<in> inos m \<Longrightarrow> i < nextIno w"
  by (auto simp: owner_inos_def owner_ok_def fs_ok_def split: option.splits)

lemma writer_ok_frame:
  assumes "fs_ok w" and "writer_ok lt w m" and "frame A w w'" and "inos m \<inter> A = {}"
  shows "writer_ok lt w' m"
proof -
  have "ino f < nextIno w" "ino f \<notin> A" if "pFile m = Some f" for f
    using that assms(4) inos_linked [OF assms(1,2)] by (auto simp: owner_inos_def)
  then show ?thesis using assms(2,3) by (auto simp: owner_ok_def frame_def)
qed

lemma all_sound_one:
  assumes s: "sound lt a m w m' w'" and F: "F k = Some m \<or> F k = None \<and> pFile m = None"
  shows "all_sound lt a F w (F(k := Some m')) w'"
proof -
  have "fs_ok w' \<and> writers_ok lt w' (F(k := Some m')) \<and> (\<forall>R. holds (contents w) R \<longrightarrow> holds (contents w') (a + R))"
    if ok: "fs_ok w" "writers_ok lt w F" "\<not> collided w'" "\<not> undefd w'"
  proof -
    have m: "writer_ok lt w m" using F ok(2) by (auto simp: writers_ok_def owner_ok_def)
    with s ok have g: "fs_ok w'" "writer_ok lt w' m'" "frame (inos m) w w'" "inos m' \<subseteq> inos m \<union> {nextIno w ..}"
      "\<forall>R. holds (contents w) R \<longrightarrow> holds (contents w') (a + R)" by (auto simp: owns_def)
    have other: "writer_ok lt w n \<and> inos n \<inter> inos m = {}" if "F j = Some n" "j \<noteq> k" for j n
    proof
      show "writer_ok lt w n" using that ok(2) by (simp add: writers_ok_def)
      show "inos n \<inter> inos m = {}"
      proof (cases "F k")
        case None
        then show ?thesis using F by (simp add: owner_inos_def)
      next
        case (Some x)
        then show ?thesis using F that ok(2) unfolding writers_ok_def by (metis option.distinct(1))
      qed
    qed
    have "writer_ok lt w' n \<and> inos n \<inter> inos m' = {}" if "F j = Some n" "j \<noteq> k" for j n
    proof
      show "writer_ok lt w' n" using other [OF that] writer_ok_frame [OF ok(1) _ g(3)] by blast
      show "inos n \<inter> inos m' = {}" using other [OF that] g(4) inos_linked [OF ok(1), of lt n] by fastforce
    qed
    moreover have "inos n \<inter> inos n' = {}" if "F j = Some n" "F j' = Some n'" "j \<noteq> j'" for j j' n n'
      using that ok(2) unfolding writers_ok_def by blast
    ultimately have "writers_ok lt w' (F(k := Some m'))" using g(2) unfolding writers_ok_def by (auto simp: Int_commute)
    then show ?thesis using g by blast
  qed
  then show ?thesis using s by (auto simp: all_sound_def owns_def)
qed

lemma all_sound_drop: "(\<And>k. G k = F k \<or> G k = None) \<Longrightarrow> all_sound lt {#} F w G w"
  unfolding all_sound_def writers_ok_def by (metis add_0 option.distinct(1))

text \<open>The writers of a folder in place of those of \<open>F\<close>.\<close>

definition with_folder :: "writers \<Rightarrow> string \<Rightarrow> bool \<Rightarrow> (nat \<Rightarrow> file_writer option) \<Rightarrow> writers" where
  "with_folder F frag sh fs = (\<lambda>(a, b, c). if a = frag \<and> b = sh then fs c else F (a, b, c))"

lemma with_folder_upd: "with_folder F frag sh (fs(flag := x)) = (with_folder F frag sh fs)((frag, sh, flag) := x)"
  by (auto simp: with_folder_def fun_eq_iff)

lemma each_writer_sound:
  assumes "each_writer op flags fs w = (fs', w')" and "\<And>m w m' w'. op m w = (m', w') \<Longrightarrow> sound lt {#} m w m' w'"
  shows "all_sound lt {#} (with_folder F frag sh fs) w (with_folder F frag sh fs') w'"
  using assms(1)
proof (induction flags arbitrary: fs w)
  case (Cons flag flags)
  show ?case
  proof (cases "fs flag")
    case None
    then show ?thesis using Cons by simp
  next
    case (Some f)
    obtain g v where g: "op f w = (g, v)" by force
    have "all_sound lt {#} (with_folder F frag sh fs) w (with_folder F frag sh (fs(flag := Some g))) v"
      using all_sound_one [OF assms(2) [OF g], of "with_folder F frag sh fs" "(frag, sh, flag)"] Some
      by (simp add: with_folder_upd) (simp add: with_folder_def)
    moreover have "each_writer op flags (fs(flag := Some g)) v = (fs', w')" using Cons.prems Some g by simp
    ultimately show ?thesis using all_sound_trans0 Cons.IH by blast
  qed
qed simp

definition put_mgr :: "writers \<Rightarrow> string \<Rightarrow> WriteFileMgr \<Rightarrow> writers" where
  "put_mgr F frag m = with_folder (with_folder F frag True (shareFile m)) frag False (localFile m)"

lemma put_mgr_share: "put_mgr F frag (m\<lparr>shareFile := fs\<rparr>) = with_folder (put_mgr F frag m) frag True fs"
  by (auto simp: put_mgr_def with_folder_def fun_eq_iff)

lemma put_mgr_local: "put_mgr F frag (m\<lparr>localFile := fs\<rparr>) = with_folder (put_mgr F frag m) frag False fs"
  by (auto simp: put_mgr_def with_folder_def fun_eq_iff)

lemma put_mgr_id: "with_folder (put_mgr F frag m) frag True (shareFile m) = put_mgr F frag m" "with_folder (put_mgr F frag m) frag False (localFile m) = put_mgr F frag m"
  by (auto simp: put_mgr_def with_folder_def fun_eq_iff)

lemma each_mgr_sound:
  assumes "each_writer op all_flags (shareFile m) w = (sh, v)" and "each_writer op' all_flags (localFile m) v = (lo, u)"
    and "\<And>m w m' w'. op m w = (m', w') \<Longrightarrow> sound lt {#} m w m' w'" and "\<And>m w m' w'. op' m w = (m', w') \<Longrightarrow> sound lt {#} m w m' w'"
  shows "all_sound lt {#} (put_mgr F frag m) w (put_mgr F frag (m\<lparr>shareFile := sh, localFile := lo\<rparr>)) u"
proof -
  have a: "all_sound lt {#} (put_mgr F frag m) w (put_mgr F frag (m\<lparr>shareFile := sh\<rparr>)) v"
    using each_writer_sound [OF assms(1,3), of "put_mgr F frag m" frag True] by (simp add: put_mgr_id put_mgr_share)
  have "all_sound lt {#} (put_mgr F frag (m\<lparr>shareFile := sh\<rparr>)) v (put_mgr F frag (m\<lparr>shareFile := sh, localFile := lo\<rparr>)) u"
    using each_writer_sound [OF assms(2,4), of "put_mgr F frag (m\<lparr>shareFile := sh\<rparr>)" frag False] put_mgr_id(2) [of F frag "m\<lparr>shareFile := sh\<rparr>"]
    by (simp add: put_mgr_local)
  with a show ?thesis by (rule all_sound_trans0)
qed

lemma wf_second_sound:
  assumes "wf_everySecondCheck lt second m w = (m', w')"
  shows "all_sound lt {#} (put_mgr F frag m) w (put_mgr F frag m') w'"
proof -
  obtain sh v where a: "each_writer (fw_everySecondCheck (share_CloseCurFile lt) second) all_flags (shareFile m) w = (sh, v)" by force
  obtain lo u where b: "each_writer (fw_everySecondCheck (local_CloseCurFile lt) second) all_flags (localFile m) v = (lo, u)" by force
  have "m' = m\<lparr>shareFile := sh, localFile := lo\<rparr>" "w' = u" using assms a b by (auto simp: wf_everySecondCheck_def)
  then show ?thesis
    using each_mgr_sound [OF a b] secondCheck_sound share_Close_sound local_Close_sound by metis
qed

lemma wf_exit_sound:
  assumes "wf_exitClose lt m w = (m', w')"
  shows "all_sound lt {#} (put_mgr F frag m) w (put_mgr F frag m') w'"
proof -
  obtain sh v where a: "each_writer (fw_exitClose (share_CloseCurFile lt)) all_flags (shareFile m) w = (sh, v)" by force
  obtain lo u where b: "each_writer (fw_exitClose (local_CloseCurFile lt)) all_flags (localFile m) v = (lo, u)" by force
  have e: "m' = m\<lparr>shareFile := (\<lambda>_. None), localFile := (\<lambda>_. None)\<rparr>" "w' = u" using assms a b by (auto simp: wf_exitClose_def)
  have "all_sound lt {#} (put_mgr F frag m) w (put_mgr F frag (m\<lparr>shareFile := sh, localFile := lo\<rparr>)) u"
    using each_mgr_sound [OF a b] exitClose_sound share_Close_sound local_Close_sound by metis
  moreover have "all_sound lt {#} (put_mgr F frag (m\<lparr>shareFile := sh, localFile := lo\<rparr>)) u (put_mgr F frag m') u"
    unfolding e by (rule all_sound_drop) (auto simp: put_mgr_def with_folder_def)
  ultimately show ?thesis unfolding e(2) by (rule all_sound_trans0)
qed

lemma share_of_writers:
  "put_mgr F frag m (frag, True, flag) = Some (share_of flag m) \<or> put_mgr F frag m (frag, True, flag) = None \<and> pFile (share_of flag m) = None"
  by (auto simp: put_mgr_def with_folder_def share_of_def ShareWriteFileMgr_def split: option.split)

lemma local_of_writers:
  "put_mgr F frag m (frag, False, flag) = Some (local_of flag m) \<or> put_mgr F frag m (frag, False, flag) = None \<and> pFile (local_of flag m) = None"
  by (auto simp: put_mgr_def with_folder_def local_of_def localWriteFileMgr_def split: option.split)

lemma wf_write_sound:
  assumes "writeToFile lt flag content m w = (r, m', w')"
  shows "all_sound lt (if r = 0 then {#content#} else {#}) (put_mgr F frag m) w (put_mgr F frag m') w' \<and> r \<le> 0"
proof (cases "kind_dir flag")
  case None
  then show ?thesis using assms by (simp add: writeToFile_def)
next
  case (Some d)
  obtain x f v where x: "share_writeToFile lt content (share_of flag m) w = (x, f, v)" by (metis prod_cases3)
  define n where "n = m\<lparr>shareFile := (shareFile m)(flag := Some f)\<rparr>"
  have n: "put_mgr F frag n = (put_mgr F frag m)((frag, True, flag) := Some f)"
    by (simp add: n_def put_mgr_share with_folder_upd put_mgr_id)
  have sx: "all_sound lt (if x = 0 then {#content#} else {#}) (put_mgr F frag m) w (put_mgr F frag n) v" "x \<le> 0"
    using share_write_sound [OF x] all_sound_one [where F = "put_mgr F frag m" and k = "(frag, True, flag)", OF _ share_of_writers] unfolding n by blast+
  show ?thesis
  proof (cases "x < 0")
    case False
    then have "m' = n" "w' = v" "r = x" using assms x Some by (auto simp: writeToFile_def n_def Let_def)
    then show ?thesis using sx by simp
  next
    case True
    obtain y g u where y: "local_writeToFile lt content (local_of flag n) v = (y, g, u)" by (metis prod_cases3)
    have e: "m' = n\<lparr>localFile := (localFile n)(flag := Some g)\<rparr>" "w' = u" "r = y" using assms x Some True y by (auto simp: writeToFile_def n_def Let_def)
    have m': "put_mgr F frag m' = (put_mgr F frag n)((frag, False, flag) := Some g)"
      by (simp add: e put_mgr_local with_folder_upd put_mgr_id)
    have "all_sound lt (if r = 0 then {#content#} else {#}) (put_mgr F frag n) v (put_mgr F frag m') w'" "r \<le> 0"
      using local_write_sound [OF y] all_sound_one [where F = "put_mgr F frag n" and k = "(frag, False, flag)", OF _ local_of_writers] unfolding m' e(2,3) by blast+
    then show ?thesis using all_sound_trans0 [of lt "put_mgr F frag m" w "put_mgr F frag n" v] sx True by auto
  qed
qed


subsection \<open>The manager\<close>

definition over :: "writers \<Rightarrow> (string \<times> WriteFileMgr) list \<Rightarrow> writers" where
  "over F ms = (\<lambda>(a, b, c). case map_of ms a of None \<Rightarrow> F (a, b, c) | Some m \<Rightarrow> if b then shareFile m c else localFile m c)"

lemma over_Nil [simp]: "over F [] = F"
  by (simp add: over_def fun_eq_iff)

lemma over_Cons: "over F ((k, m) # ms) = put_mgr (over F ms) k m"
  by (auto simp: over_def put_mgr_def with_folder_def fun_eq_iff)

lemma over_swap: "k \<notin> fst ` set ms \<Longrightarrow> put_mgr (over F ms) k m = over (put_mgr F k m) ms"
  by (auto simp: over_def put_mgr_def with_folder_def fun_eq_iff map_of_eq_None_iff [symmetric] split: option.split)

lemma each_folder_keys: "each_folder op ms w = (ms', w') \<Longrightarrow> map fst ms' = map fst ms"
  by (induction op ms w arbitrary: ms' w' rule: each_folder.induct) (auto split: prod.splits)

lemma each_folder_sound:
  assumes "each_folder op ms w = (ms', w')" and "distinct (map fst ms)"
    and "\<And>F frag m w m' w'. op m w = (m', w') \<Longrightarrow> all_sound lt {#} (put_mgr F frag m) w (put_mgr F frag m') w'"
  shows "all_sound lt {#} (over F ms) w (over F ms') w'"
  using assms(1,2)
proof (induction ms arbitrary: F w ms' w')
  case (Cons e ms)
  obtain k m where e: "e = (k, m)" by force
  obtain n v where n: "op m w = (n, v)" by force
  obtain ns u where ns: "each_folder op ms v = (ns, u)" by force
  have r: "ms' = (k, n) # ns" "w' = u" using Cons.prems(1) e n ns by auto
  have k: "k \<notin> fst ` set ms" "k \<notin> fst ` set ns" using Cons.prems(2) e each_folder_keys [OF ns] by (simp_all flip: set_map)
  have "all_sound lt {#} (put_mgr (over F ms) k m) w (put_mgr (over F ms) k n) v" by (rule assms(3) [OF n])
  moreover have "all_sound lt {#} (over (put_mgr F k n) ms) v (over (put_mgr F k n) ns) u" using Cons.IH [OF ns] Cons.prems(2) by simp
  ultimately show ?case unfolding e r over_Cons over_swap [OF k(1)] over_swap [OF k(2)] by (rule all_sound_trans0)
qed simp

definition writers_of :: "RemainMgr \<Rightarrow> writers" where
  "writers_of m = over (\<lambda>_. None) (userFileMgrMap m)"

lemma over_map_set:
  "sorted_wrt str_less (map fst ms) \<Longrightarrow> over F (map_set k m ms) = put_mgr (over F ms) k m"
  by (auto simp: over_def map_of_map_set put_mgr_def with_folder_def fun_eq_iff)

text \<open>The folders are sorted by name.\<close>

definition folders_ok :: "RemainMgr \<Rightarrow> bool" where
  "folders_ok m \<longleftrightarrow> sorted_wrt str_less (map fst (userFileMgrMap m))"

lemma folder_of_writers: "put_mgr (writers_of m) frag (folder_of frag m) = writers_of m"
  by (auto simp: writers_of_def over_def folder_of_def put_mgr_def with_folder_def WriteFileMgr_new_def fun_eq_iff split: option.splits)

lemma write_remain_sound:
  assumes "write_remain lt bak e bitFlag frag d m w = (r, m', w')" and "folders_ok m" and "e < 0"
  shows "all_sound lt (if r = 0 then {#d#} else {#}) (writers_of m) w (writers_of m') w' \<and> folders_ok m'"
proof (cases "rm_isInit m \<and> \<not> rm_isExit m")
  case False
  then show ?thesis using assms by (auto simp: write_remain_def split: if_splits)
next
  case True
  define f where "f = folder_of frag m"
  obtain x g v where x: "(case kind_flag bitFlag bak of None \<Rightarrow> (e, f, w) | Some flag \<Rightarrow> writeToFile lt flag d f w) = (x, g, v)" by (metis prod_cases3)
  have m': "m' = m\<lparr>userFileMgrMap := map_set frag g (userFileMgrMap m)\<rparr>" "w' = v" "r = x"
    using assms(1) True x unfolding write_remain_def f_def Let_def by auto
  have "all_sound lt (if x = 0 then {#d#} else {#}) (put_mgr (writers_of m) frag f) w (put_mgr (writers_of m) frag g) v"
  proof (cases "kind_flag bitFlag bak")
    case None
    then show ?thesis using x assms(3) by auto
  next
    case (Some flag)
    then have "writeToFile lt flag d f w = (x, g, v)" using x by simp
    then show ?thesis using wf_write_sound by blast
  qed
  then show ?thesis using assms(2) over_map_set map_set_sorted unfolding m' f_def folder_of_writers by (simp add: writers_of_def folders_ok_def)
qed

lemma rm_second_sound:
  assumes "rm_everySecondCheck lt second m w = (m', w')" and "folders_ok m"
  shows "all_sound lt {#} (writers_of m) w (writers_of m') w' \<and> folders_ok m'"
proof (cases "rm_isExit m")
  case True
  then show ?thesis using assms by (simp add: rm_everySecondCheck_def)
next
  case False
  define n where "n = (if second = 0 then tv_sec w else second)"
  obtain ms v where e: "each_folder (wf_everySecondCheck lt n) (userFileMgrMap m) w = (ms, v)" by force
  have "m' = m\<lparr>userFileMgrMap := ms\<rparr>" "w' = v" using assms(1) False e by (auto simp: rm_everySecondCheck_def n_def)
  then show ?thesis
    using each_folder_sound [OF e _ wf_second_sound] each_folder_keys [OF e] sorted_distinct assms(2) by (simp add: writers_of_def folders_ok_def)
qed

lemma rm_exit_sound:
  assumes "remainMgrExit lt m w = (m', w')" and "folders_ok m"
  shows "all_sound lt {#} (writers_of m) w (writers_of m') w' \<and> folders_ok m'"
proof -
  obtain ms v where e: "each_folder (wf_exitClose lt) (userFileMgrMap m) w = (ms, v)" by force
  have m': "m' = m\<lparr>rm_isExit := True, userFileMgrMap := []\<rparr>" "w' = v" using assms(1) e by (auto simp: remainMgrExit_def)
  have "all_sound lt {#} (writers_of m) w (over (\<lambda>_. None) ms) v"
    using each_folder_sound [OF e _ wf_exit_sound] sorted_distinct assms(2) by (simp add: writers_of_def folders_ok_def)
  moreover have "all_sound lt {#} (over (\<lambda>_. None) ms) v (writers_of m') v" by (rule all_sound_drop) (simp add: m' writers_of_def)
  ultimately show ?thesis using all_sound_trans0 m' by (auto simp: folders_ok_def)
qed

lemma same_writers:
  assumes "\<And>k. map_option (\<lambda>m. (pFile m, tmp_name lt m)) (G k) = map_option (\<lambda>m. (pFile m, tmp_name lt m)) (F k)"
  shows "all_sound lt {#} F w G w"
proof -
  have g: "\<exists>m. F k = Some m \<and> pFile m = pFile n \<and> tmp_name lt m = tmp_name lt n" if "G k = Some n" for k n
    using assms [of k] that by (cases "F k") auto
  have w: "writer_ok lt w n" if "pFile m = pFile n" "tmp_name lt m = tmp_name lt n" "writer_ok lt w m" for m n
    using that by (simp add: owner_ok_def)
  have i: "inos n = inos m" if "pFile m = pFile n" for m n using that by (simp add: owner_inos_def)
  have "writers_ok lt w G" if F: "writers_ok lt w F"
    unfolding writers_ok_def
  proof (intro conjI allI impI)
    show "writer_ok lt w n" if "G k = Some n" for k n using g [OF that] w F unfolding writers_ok_def by metis
    show "inos n \<inter> inos n' = {}" if "G k = Some n" "G k' = Some n'" "k \<noteq> k'" for k k' n n'
      using g [OF that(1)] g [OF that(2)] i F that(3) unfolding writers_ok_def by metis
  qed
  then show ?thesis by (simp add: all_sound_def)
qed

lemma map_of_map_folders: "map_of (map (\<lambda>(k, f). (k, h f)) ms) a = map_option h (map_of ms a)"
  by (induction ms) auto

lemma tmp_name_settings [simp]:
  "tmp_name lt (fw_updateGenFreq x m) = tmp_name lt m" "tmp_name lt (fw_updateMaxFileSize x m) = tmp_name lt m"
  "pFile (fw_updateGenFreq x m) = pFile m" "pFile (fw_updateMaxFileSize x m) = pFile m"
  by (simp_all add: fw_updateGenFreq_def fw_updateMaxFileSize_def Let_def tmp_name_def)

lemma settings_sound:
  assumes "folders_ok m"
  shows "all_sound lt {#} (writers_of m) w (writers_of (rm_updateGenFreq x m)) w \<and> folders_ok (rm_updateGenFreq x m)"
    and "all_sound lt {#} (writers_of m) w (writers_of (rm_updateMaxFileSize x m)) w \<and> folders_ok (rm_updateMaxFileSize x m)"
  using assms
  by (auto simp: writers_of_def rm_updateGenFreq_def rm_updateMaxFileSize_def folders_ok_def over_def map_of_map_folders wf_updateGenFreq_def
      wf_updateMaxFileSize_def map_option.compositionality o_def case_prod_beta fst_conv split: option.split intro!: same_writers)


section \<open>Readers\<close>

text \<open>A run of a reader that returns the texts \<open>d\<close>: it touches no open file, and what the files held they still hold, or \<open>d\<close> does.\<close>

definition read_sound :: "string list \<Rightarrow> fsys \<Rightarrow> fsys \<Rightarrow> bool" where
  "read_sound d w w' \<longleftrightarrow> (collided w \<longrightarrow> collided w') \<and> (undefd w \<longleftrightarrow> undefd w') \<and>
     (fs_ok w \<and> \<not> collided w' \<longrightarrow> fs_ok w' \<and> (\<forall>p i. suffix ''.tmp'' p \<longrightarrow> (p, i) \<in> set (names w') \<longleftrightarrow> (p, i) \<in> set (names w)) \<and>
        (\<forall>R. holds (contents w) R \<longrightarrow> holds (contents w' + mset d) R))"

lemma read_sound_refl [simp]: "read_sound [] w w"
  by (simp add: read_sound_def)

lemma read_sound_trans: "read_sound [] w v \<Longrightarrow> read_sound d v u \<Longrightarrow> read_sound d w u"
  unfolding read_sound_def by auto

lemma read_sound_same: "same_files w w' \<Longrightarrow> undefd w' = undefd w \<Longrightarrow> read_sound [] w w'"
  by (auto simp: read_sound_def contents_same fs_ok_same) (simp_all add: same_files_def)

lemma read_next_out: "next_out w = (r, w') \<Longrightarrow> read_sound [] w w'"
  using next_out_state [of w r w'] by (intro read_sound_same) (auto dest: same_next_out)

lemma read_access: "sys_access p w = (r, w') \<Longrightarrow> read_sound [] w w'"
  by (auto simp: sys_access_def split: prod.splits dest: read_next_out)

lemma read_rename:
  assumes "sys_rename p q w = (r, w')" and "\<not> suffix ''.tmp'' p" and "\<not> suffix ''.tmp'' q"
  shows "read_sound [] w w'"
proof -
  have "fs_ok w' \<and> (\<forall>x i. suffix ''.tmp'' x \<longrightarrow> (x, i) \<in> set (names w') \<longleftrightarrow> (x, i) \<in> set (names w)) \<and> contents w' = contents w"
    if ok: "fs_ok w" "\<not> collided w'"
    using sys_rename_result [OF assms(1) ok]
  proof
    assume "same_files w w'"
    then show ?thesis using ok fs_ok_same contents_same by (auto simp: same_files_def)
  next
    assume "\<exists>i. (p, i) \<in> set (names w) \<and> q \<notin> fst ` set (names w) \<and> p \<noteq> q \<and> data w' = data w \<and> nextIno w' = nextIno w \<and> \<not> collided w \<and> undefd w' = undefd w \<and>
       names w' = filter (\<lambda>e. fst e \<noteq> p) (names w) @ [(q, i)]"
    then obtain i where i: "(p, i) \<in> set (names w)" "q \<notin> fst ` set (names w)" "data w' = data w" "nextIno w' = nextIno w"
      "names w' = filter (\<lambda>e. fst e \<noteq> p) (names w) @ [(q, i)]" by blast
    show ?thesis using rename_files [OF ok(1) i] assms(2,3) i(5) by auto
  qed
  then show ?thesis using sys_rename_mono [OF assms(1)] by (auto simp: read_sound_def)
qed

lemma sys_rename_done:
  assumes "sys_rename p q w = (0, w')" and "fs_ok w" and "\<not> collided w'" and "p \<noteq> q"
  shows "\<exists>i. (p, i) \<in> set (names w) \<and> (q, i) \<in> set (names w') \<and> data w' = data w"
proof -
  obtain k v where k: "next_out w = (k, v)" by force
  note v = next_out_state [OF k]
  from assms(1,4) k obtain i where i: "map_of (names v) p = Some i" "w' = v\<lparr>names := unlink_name p (unlink_name q (names v)) @ [(q, i)], collided := collided v \<or> exists_path q v\<rparr>"
    by (auto simp: sys_rename_def split: if_splits option.splits)
  then show ?thesis using v map_of_names [OF assms(2)] by (intro exI [of _ i]) auto
qed

lemma read_loop_result:
  assumes "read_loop t n src buf w = (left, out, w')"
  shows "read_sound [] w w' \<and> names w' = names w \<and> data w' = data w \<and> (left = 0 \<longrightarrow> n \<le> length src \<longrightarrow> out = buf @ take n src)"
  using assms
proof (induction t n src buf w rule: read_loop.induct)
  case (1 t n src buf w)
  obtain x v where x: "c_fread n src w = (x, v)" by force
  obtain r where r: "next_out w = (r, v)" "x = take (sent r (take n src)) src" using x by (auto simp: c_fread_def split: prod.splits)
  have len: "length x \<le> n" "x = take (length x) src" using r(2) by (auto simp: sent_def split: outcome.splits)
  have v: "read_sound [] w v" "names v = names w" "data v = data w" using read_next_out [OF r(1)] next_out_state [OF r(1)] by auto
  show ?case
  proof (cases "t + 1 \<ge> 3 \<or> n - length x = 0")
    case True
    then have "(left, out, w') = (n - length x, buf @ x, v)" using 1(2) unfolding read_loop.simps [of t] by (auto simp: x Let_def split: if_splits)
    then show ?thesis using v len by auto
  next
    case False
    then have l: "read_loop (t + 1) (n - length x) (drop (length x) src) (buf @ x) v = (left, out, w')"
      using 1(2) unfolding read_loop.simps [of t] by (simp add: x Let_def)
    from 1(1) [OF x [symmetric] refl refl refl refl refl _ _ l] False
    have h: "read_sound [] v w'" "names w' = names v" "data w' = data v"
      "left = 0 \<Longrightarrow> n - length x \<le> length src - length x \<Longrightarrow> out = buf @ x @ take (n - length x) (drop (length x) src)" by auto
    have "x @ take (n - length x) (drop (length x) src) = take n src"
      using len by (metis le_add_diff_inverse take_add)
    then show ?thesis using h v read_sound_trans [of w v] by auto
  qed
qed

lemma remove_sound:
  assumes "sys_remove p w = w'" and "\<not> suffix ''.tmp'' p" and "(p, i) \<in> set (names w)"
  shows "read_sound [data w i] w w'"
proof -
  obtain k v where k: "next_out w = (k, v)" by force
  note v = next_out_state [OF k]
  show ?thesis
  proof (cases "k = Ok")
    case False
    then show ?thesis using assms(1) k v by (auto simp: sys_remove_def read_sound_def fs_ok_def contents_def intro: holds_extra)
  next
    case True
    then have e: "w' = v\<lparr>names := unlink_name p (names v)\<rparr>" using assms(1) k by (simp add: sys_remove_def)
    have "contents w = add_mset (data w i) (contents w')" "fs_ok w'" if "fs_ok w"
    proof -
      obtain a b where ab: "names w = a @ (p, i) # b" using assms(3) by (meson split_list)
      then have "p \<notin> fst ` set (a @ b)" using that by (auto simp: fs_ok_def)
      then have "filter (\<lambda>e. fst e \<noteq> p) a = a" "filter (\<lambda>e. fst e \<noteq> p) b = b" by (force intro: filter_True)+
      then have n: "names w' = a @ b" using e v ab by (simp add: unlink_name_def)
      show "contents w = add_mset (data w i) (contents w')" by (simp add: contents_def n ab) (use e v in simp)
      show "fs_ok w'" using that e v unfolding fs_ok_def n ab by auto
    qed
    then show ?thesis using e v assms(2) by (auto simp: read_sound_def unlink_name_def)
  qed
qed


definition reader_ok :: "ReadFileMgr \<Rightarrow> bool" where
  "reader_ok m \<longleftrightarrow> \<not> suffix ''.tmp'' (fileName m) \<and> \<not> suffix ''.tmp'' (bakFileName m) \<and> \<not> suffix ''.tmp'' (errFileName m) \<and> fileName m \<noteq> bakFileName m"

lemma suffix_unique: "suffix a (x @ b) \<Longrightarrow> length a = length b \<Longrightarrow> a = b"
  by (auto simp: suffix_def)

lemma reader_new_ok:
  assumes "ReadFileMgr_new gate (path @ e) = Some m" and "is_ok_file e"
  shows "reader_ok m"
proof -
  define stem where "stem = take (length (path @ e) - 3) (path @ e)"
  have "e = take (length e - 3) e @ ''.ok''" "3 \<le> length e"
    using assms(2) append_take_drop_id [of "length e - 3" e] by (simp_all add: is_ok_file_def)
  then have e: "path @ e = stem @ ''.ok''" by (simp add: stem_def)
  have m: "fileName m = stem @ ''.ok''" "bakFileName m = stem @ ''_'' @ sprintf_d gate @ ''.bak''" "errFileName m = stem @ ''_'' @ sprintf_d gate @ ''.err''"
    using assms(1) e by (auto simp: ReadFileMgr_new_def stem_def [symmetric] Let_def split: if_splits)
  have "\<not> suffix ''.tmp'' (x @ ''.ok'')" for x :: string by (auto simp: suffix_def append_eq_append_conv2 Cons_eq_append_conv)
  moreover have "\<not> suffix ''.tmp'' (x @ CHR ''_'' # z @ ''.bak'')" "\<not> suffix ''.tmp'' (x @ CHR ''_'' # z @ ''.err'')" for x z :: string
    using suffix_unique [of "''.tmp''" "x @ CHR ''_'' # z" "''.bak''"] suffix_unique [of "''.tmp''" "x @ CHR ''_'' # z" "''.err''"] by auto
  ultimately show ?thesis unfolding reader_ok_def m by simp
qed

lemma renameError_sound: "reader_ok m \<Longrightarrow> read_sound [] w (renameErrorFile m w)"
  unfolding renameErrorFile_def renameFile_def reader_ok_def by (metis prod.collapse read_rename)

lemma rename_back_sound: "reader_ok m \<Longrightarrow> read_sound [] w (snd (renameFile (bakFileName m) (fileName m) w))"
  unfolding renameFile_def reader_ok_def by (metis prod.collapse read_rename)

lemma access_flags: "sys_access p w = (r, w') \<Longrightarrow> collided w' = collided w \<and> undefd w' = undefd w"
  by (auto simp: sys_access_def split: prod.splits dest: next_out_state)

lemma delete_flags: "(collided w \<longrightarrow> collided (deleteReadFile m w)) \<and> undefd (deleteReadFile m w) = undefd w"
proof -
  obtain r v where r: "sys_access (bakFileName m) w = (r, v)" by force
  obtain k u where k: "next_out v = (k, u)" by force
  show ?thesis using access_flags [OF r] next_out_state [OF k] by (simp add: deleteReadFile_def sys_remove_def r k)
qed

lemma delete_sound:
  assumes "reader_ok m" and "(bakFileName m, i) \<in> set (names w)"
  shows "read_sound [data w i] w (deleteReadFile m w)"
proof -
  obtain r v where r: "sys_access (bakFileName m) w = (r, v)" by force
  have v: "names v = names w" "data v = data w" using same_access [OF r] by (simp_all add: same_files_def)
  show ?thesis
  proof (cases "r = 0")
    case True
    then have "read_sound [data v i] v (deleteReadFile m w)" using r v assms remove_sound [OF refl, of "bakFileName m" i v] by (simp add: deleteReadFile_def reader_ok_def)
    then show ?thesis using read_sound_trans [OF read_access [OF r]] v by simp
  next
    case False
    then have "read_sound [] w (deleteReadFile m w)" using r read_access [OF r] by (simp add: deleteReadFile_def)
    then show ?thesis by (auto simp: read_sound_def intro: holds_extra)
  qed
qed

lemma readFromFile_sound:
  assumes run: "readFromFile m d w = (r, d', w')" and m: "reader_ok m"
  shows "read_sound (if r = 0 then [d'] else []) w w' \<and> r \<le> 0"
proof -
  obtain r1 w1 where 1: "renameFile (fileName m) (bakFileName m) w = (r1, w1)" by force
  have s1: "read_sound [] w w1" using 1 m read_rename by (auto simp: renameFile_def reader_ok_def)
  obtain n w2 where 2: "readFileLen m w1 = (n, w2)" by force
  obtain st where st: "sys_stat (bakFileName m) w1 = (st, w2)" "n = (case st of Some n \<Rightarrow> n | None \<Rightarrow> 0)" using 2 by (auto simp: readFileLen_def split: prod.splits)
  have same2: "read_sound [] w1 w2 \<and> names w2 = names w1 \<and> data w2 = data w1"
    using st(1) by (auto simp: sys_stat_def split: prod.splits dest: read_next_out next_out_state)
  have s2: "read_sound [] w w2" using read_sound_trans [OF s1] same2 by blast
  obtain src w3 where 3: "c_fopen_read (bakFileName m) w2 = (src, w3)" by force
  have same3: "read_sound [] w2 w3 \<and> names w3 = names w2 \<and> data w3 = data w2"
    using 3 by (auto simp: c_fopen_read_def split: prod.splits dest: read_next_out next_out_state)
  have s3: "read_sound [] w w3" using read_sound_trans [OF s2] same3 by blast
  obtain ok w4 where 4: "c_malloc w3 = (ok, w4)" by force
  have same4: "read_sound [] w3 w4 \<and> names w4 = names w3 \<and> data w4 = data w3"
    using 4 by (auto simp: c_malloc_def split: prod.splits dest: read_next_out next_out_state)
  have s4: "read_sound [] w w4" using read_sound_trans [OF s3] same4 by blast
  obtain left buf w5 where 5: "read_loop 0 n (the src) [] w4 = (left, buf, w5)" by (metis prod_cases3)
  note l = read_loop_result [OF 5]
  have s5: "read_sound [] w w5" using read_sound_trans [OF s4] l by blast
  show ?thesis
  proof (cases "r1 \<noteq> 0 \<or> n = 0 \<or> src = None \<or> \<not> ok \<or> left > 0")
    case True
    have "read_sound [] w w' \<and> r < 0"
    proof (cases "r1 \<noteq> 0 \<or> n = 0 \<or> src = None")
      case True
      then show ?thesis using run 1 2 3 s1 read_sound_trans [OF s2 renameError_sound [OF m]] read_sound_trans [OF s3 rename_back_sound [OF m]]
        by (auto simp: readFromFile_def split: if_splits)
    next
      case False
      then obtain t where "src = Some t" by auto
      then show ?thesis using run 1 2 3 4 5 False True read_sound_trans [OF s4 rename_back_sound [OF m]] read_sound_trans [OF s5 renameError_sound [OF m]]
        by (auto simp: readFromFile_def split: if_splits)
    qed
    then show ?thesis by auto
  next
    case False
    then obtain t where t: "src = Some t" by auto
    have e: "r = 0" "d' = buf" "w' = deleteReadFile m w5" using run 1 2 3 4 5 False t by (auto simp: readFromFile_def)
    have "read_sound [d'] w w'" if ok: "fs_ok w" "\<not> collided w5"
    proof -
      have c: "\<not> collided w1" using ok(2) same2 same3 same4 l by (auto simp: read_sound_def)
      obtain i where i: "(bakFileName m, i) \<in> set (names w1)"
        using sys_rename_done [of "fileName m" "bakFileName m" w w1] 1 False ok(1) c m by (auto simp: renameFile_def reader_ok_def)
      have "fs_ok w1" using s1 ok(1) c by (simp add: read_sound_def)
      then have mo: "map_of (names w1) (bakFileName m) = Some i" using i map_of_names by blast
      have "t = data w1 i" using 3 t mo same2 by (auto simp: c_fopen_read_def split: prod.splits if_splits dest!: next_out_state)
      moreover have "n = length (data w1 i)" using st mo False by (auto simp: sys_stat_def split: prod.splits if_splits option.splits dest!: next_out_state)
      ultimately have "d' = data w5 i" using l False t e same2 same3 same4 by simp
      moreover have "(bakFileName m, i) \<in> set (names w5)" using i same2 same3 same4 l by simp
      ultimately show ?thesis using delete_sound [OF m, of i w5] read_sound_trans [OF s5] e by simp
    qed
    moreover have "(collided w5 \<longrightarrow> collided w') \<and> undefd w' = undefd w5"
      unfolding e by (rule delete_flags)
    ultimately show ?thesis using e s5 by (auto simp: read_sound_def)
  qed
qed


lemma read_entries_sound:
  "read_entries gate path es d w = Some (r, d', w') \<Longrightarrow> read_sound (if r = 0 then [d'] else []) w w' \<and> r \<le> 0"
proof (induction gate path es d w rule: read_entries.induct)
  case (2 gate path e es d w)
  obtain k v where k: "next_out w = (k, v)" by force
  note sv = read_next_out [OF k]
  show ?case
  proof (cases "k = Ok \<and> exists_path (path @ ''/'' @ e) v \<and> path @ ''/'' @ e \<notin> set (dirs v) \<and> is_ok_file e")
    case False
    then have "read_entries gate path es d v = Some (r, d', w')" using 2(3) k unfolding read_entries.simps Let_def by auto
    then show ?thesis using 2(2) [OF refl refl k [symmetric]] False read_sound_trans [OF sv] by auto
  next
    case True
    obtain m where m: "ReadFileMgr_new gate (path @ ''/'' @ e) = Some m" using 2(3) k True unfolding read_entries.simps Let_def by (auto split: option.splits)
    have ok: "reader_ok m" using reader_new_ok [of gate "path @ ''/''" e m] m True by simp
    obtain q c u where q: "readFromFile m d v = (q, c, u)" by (metis prod_cases3)
    note sq = readFromFile_sound [OF q ok]
    show ?thesis
    proof (cases "q = 0")
      case q0: True
      then have "r = 0" "d' = c" "w' = u" using 2(3) k True m q unfolding read_entries.simps Let_def by auto
      then show ?thesis using sq q0 read_sound_trans [OF sv] by simp
    next
      case False
      then have "read_entries gate path es c u = Some (r, d', w')" using 2(3) k True m q unfolding read_entries.simps Let_def by auto
      then show ?thesis using 2(1) [OF refl refl k [symmetric] True m refl q [symmetric] refl False] sq False read_sound_trans [OF read_sound_trans [OF sv, of "[]" u]] by auto
    qed
  qed
qed auto

lemma readFileFromDir_sound:
  assumes "readFileFromDir readdir gate path d w = Some (r, d', w')"
  shows "read_sound (if r = 0 then [d'] else []) w w' \<and> r \<le> 0"
proof -
  obtain es v where e: "sys_opendir path w = (es, v)" by force
  have "read_sound [] w v" using e by (auto simp: sys_opendir_def split: prod.splits dest: read_next_out)
  then show ?thesis
    using assms e read_sound_trans [of w v] by (auto simp: readFileFromDir_def split: if_splits option.splits dest!: read_entries_sound)
qed

lemma readRemainFile_sound:
  assumes "readRemainFile readdir bitFlag frag d m w = Some (r, d', w')"
  shows "read_sound (if r = 0 then [d'] else []) w w'"
proof -
  have data: "read_sound (if r = 0 then [d'] else []) w w'" if run: "readReaminData readdir dm d w = Some (r, d', w')" for dm
  proof -
    obtain q c v where q: "readFileFromDir readdir (rd_gateNo dm) (rd_localPath dm) d w = Some (q, c, v)"
      using run by (auto simp: readReaminData_def split: option.splits)
    note sq = readFileFromDir_sound [OF q]
    obtain x u where x: "accessPath (shareRootPath dm) v = (x, u)" by force
    have su: "read_sound [] v u" using x by (auto simp: accessPath_def split: if_splits dest: read_access)
    show ?thesis
    proof (cases "q = 0")
      case True
      then show ?thesis using run q sq by (simp add: readReaminData_def)
    next
      case False
      then have "read_sound [] w u" using sq su read_sound_trans by auto
      then show ?thesis using run q x False read_sound_trans [of w u]
        by (auto simp: readReaminData_def split: if_splits dest!: readFileFromDir_sound)
    qed
  qed
  show ?thesis using assms data by (auto simp: readRemainFile_def split: if_splits option.splits)
qed

section \<open>All runs\<close>

text \<open>
  What happens to the store, with the records it accepted and the texts it gave back: calls of the manager, each under its
  locks, and the clock and the outcomes of the next calls of the operating system, which may become anything.
\<close>

inductive store_step :: "(u64 \<Rightarrow> tm) \<Rightarrow> RemainMgr \<times> fsys \<times> string list \<times> string list \<Rightarrow> RemainMgr \<times> fsys \<times> string list \<times> string list \<Rightarrow> bool" for lt where
  init: "remainMgrInit gate maxC outSec share local exe m = (r, m') \<Longrightarrow> store_step lt (m, w, A, D) (m', w, A, D)"
| put: "rm_writeRemainFile lt flag frag x m w = (r, m', w') \<Longrightarrow> store_step lt (m, w, A, D) (m', w', if r = 0 then x # A else A, D)"
| put_bak: "rm_writeRemainFileBak lt flag frag x m w = (r, m', w') \<Longrightarrow> store_step lt (m, w, A, D) (m', w', if r = 0 then x # A else A, D)"
| read: "readRemainFile readdir flag frag d0 m w = Some (r, d, w') \<Longrightarrow> store_step lt (m, w, A, D) (m, w', A, if r = 0 then d # D else D)"
| second: "rm_everySecondCheck lt sec m w = (m', w') \<Longrightarrow> store_step lt (m, w, A, D) (m', w', A, D)"
| freq: "store_step lt (m, w, A, D) (rm_updateGenFreq x m, w, A, D)"
| max_size: "store_step lt (m, w, A, D) (rm_updateMaxFileSize x m, w, A, D)"
| leave: "remainMgrExit lt m w = (m', w') \<Longrightarrow> store_step lt (m, w, A, D) (m', w', A, D)"
| outside: "store_step lt (m, w, A, D) (m, w\<lparr>outs := os, tv_sec := s, tv_usec := us\<rparr>, A, D)"

text \<open>The invariant, as long as no name was in use and no closed stream was used.\<close>

fun store_ok :: "(u64 \<Rightarrow> tm) \<Rightarrow> RemainMgr \<times> fsys \<times> string list \<times> string list \<Rightarrow> bool" where
  "store_ok lt (m, w, A, D) \<longleftrightarrow> folders_ok m \<and>
     (\<not> collided w \<and> \<not> undefd w \<longrightarrow> fs_ok w \<and> writers_ok lt w (writers_of m) \<and> holds (contents w + mset D) (mset A))"

lemma holds_union: "holds (C + D) R \<longleftrightarrow> (\<exists>R1 R2. R = R1 + R2 \<and> holds C R1 \<and> holds D R2)"
proof (induction C arbitrary: R)
  case empty
  have "R1 = {#}" if "holds {#} R1" for R1 using that by (cases rule: holds.cases) auto
  then show ?case using holds.none by (metis add_0)
next
  case (add c C)
  show ?case
  proof
    assume "holds (add_mset c C + D) R"
    then obtain g R1 R2 where "embeds g c" "R = mset g + (R1 + R2)" "holds C R1" "holds D R2" using add by (auto simp: holds_file_iff)
    then show "\<exists>R1 R2. R = R1 + R2 \<and> holds (add_mset c C) R1 \<and> holds D R2"
      by (intro exI [of _ "mset g + R1"] exI [of _ R2]) (auto simp: add.assoc holds.one)
  next
    assume "\<exists>R1 R2. R = R1 + R2 \<and> holds (add_mset c C) R1 \<and> holds D R2"
    then obtain g R1 R2 where "embeds g c" "R = (mset g + R1) + R2" "holds C R1" "holds D R2" by (auto simp: holds_file_iff)
    then have "embeds g c" "R = mset g + (R1 + R2)" "holds (C + D) (R1 + R2)" using add by (auto simp: add.assoc)
    then show "holds (add_mset c C + D) R" using holds.one by simp
  qed
qed

lemma store_ok_write:
  assumes "all_sound lt a (writers_of m) w (writers_of m') w'" and "folders_ok m'" and "store_ok lt (m, w, A, D)" and "mset A' = a + mset A"
  shows "store_ok lt (m', w', A', D)"
proof -
  have "fs_ok w' \<and> writers_ok lt w' (writers_of m') \<and> holds (contents w' + mset D) (mset A')" if n: "\<not> collided w'" "\<not> undefd w'"
  proof -
    have f: "\<not> collided w" "\<not> undefd w" using assms(1) n by (auto simp: all_sound_def)
    then have ok: "fs_ok w" "writers_ok lt w (writers_of m)" "holds (contents w + mset D) (mset A)" using assms(3) by auto
    obtain R1 R2 where R: "mset A = R1 + R2" "holds (contents w) R1" "holds (mset D) R2" using ok(3) holds_union by metis
    have "holds (contents w') (a + R1)" "fs_ok w'" "writers_ok lt w' (writers_of m')" using assms(1) n ok R(2) by (auto simp: all_sound_def)
    then show ?thesis using R assms(4) holds_union by (metis add.assoc)
  qed
  then show ?thesis using assms(2) by simp
qed

lemma store_ok_read:
  assumes "read_sound d w w'" and "store_ok lt (m, w, A, D)" and "mset D' = mset d + mset D"
  shows "store_ok lt (m, w', A, D')"
proof -
  have "fs_ok w' \<and> writers_ok lt w' (writers_of m) \<and> holds (contents w' + mset D') (mset A)" if n: "\<not> collided w'" "\<not> undefd w'"
  proof -
    have f: "\<not> collided w" "\<not> undefd w" using assms(1) n by (auto simp: read_sound_def)
    then have ok: "fs_ok w" "writers_ok lt w (writers_of m)" "holds (contents w + mset D) (mset A)" using assms(2) by auto
    have r: "fs_ok w'" "\<forall>p i. suffix ''.tmp'' p \<longrightarrow> (p, i) \<in> set (names w') \<longleftrightarrow> (p, i) \<in> set (names w)"
      "\<forall>R. holds (contents w) R \<longrightarrow> holds (contents w' + mset d) R"
      using assms(1) n ok(1) unfolding read_sound_def by blast+
    have "suffix ''.tmp'' (tmp_name lt k)" for k by (auto simp: tmp_name_def file_name_def suffix_def)
    then have "writer_ok lt w' k" if "writer_ok lt w k" for k using that r(2) by (auto simp: owner_ok_def)
    then have "writers_ok lt w' (writers_of m)" using ok(2) unfolding writers_ok_def by blast
    moreover obtain R1 R2 where R: "mset A = R1 + R2" "holds (contents w) R1" "holds (mset D) R2" using ok(3) holds_union by metis
    ultimately show ?thesis using r assms(3) holds_union by (metis add.assoc)
  qed
  then show ?thesis using assms(2) by simp
qed

declare store_ok.simps [simp del]

lemma store_step_ok: "store_step lt s s' \<Longrightarrow> store_ok lt s \<Longrightarrow> store_ok lt s'"
proof (induction rule: store_step.induct)
  case (init gate maxC outSec share local exe m r m' w A D)
  then have "userFileMgrMap m' = userFileMgrMap m" by (auto simp: remainMgrInit_def)
  then show ?case using init by (simp add: store_ok.simps folders_ok_def writers_of_def)
next
  case (put flag frag x m w r m' w' A D)
  then have f: "folders_ok m" by (simp add: store_ok.simps)
  from write_remain_sound [OF put(1) [unfolded rm_writeRemainFile_def] f] store_ok_write put(2) show ?case by (auto split: if_splits)
next
  case (put_bak flag frag x m w r m' w' A D)
  then have f: "folders_ok m" by (simp add: store_ok.simps)
  from write_remain_sound [OF put_bak(1) [unfolded rm_writeRemainFileBak_def] f] store_ok_write put_bak(2) show ?case by (auto split: if_splits)
next
  case (read readdir flag frag d0 m w r d w' A D)
  show ?case by (rule store_ok_read [OF readRemainFile_sound [OF read(1)] read(2)]) simp
next
  case (second sec m w m' w' A D)
  then have f: "folders_ok m" by (simp add: store_ok.simps)
  from rm_second_sound [OF second(1) f] store_ok_write second(2) show ?case by auto
next
  case (freq m w A D x)
  then have "folders_ok m" by (simp add: store_ok.simps)
  then show ?case using settings_sound(1) [of m lt w x] store_ok_write freq by auto
next
  case (max_size m w A D x)
  then have "folders_ok m" by (simp add: store_ok.simps)
  then show ?case using settings_sound(2) [of m lt w x] store_ok_write max_size by auto
next
  case (leave m w m' w' A D)
  then have f: "folders_ok m" by (simp add: store_ok.simps)
  from rm_exit_sound [OF leave(1) f] store_ok_write leave(2) show ?case by auto
next
  case (outside m w A D us s os)
  have "writers_ok lt (w\<lparr>outs := os, tv_sec := s, tv_usec := us\<rparr>) F = writers_ok lt w F" for F :: writers by (simp add: writers_ok_def owner_ok_def)
  then show ?case using outside by (simp add: store_ok.simps fs_ok_def contents_def)
qed

lemma store_steps_ok: "(store_step lt)\<^sup>*\<^sup>* s s' \<Longrightarrow> store_ok lt s \<Longrightarrow> store_ok lt s'"
  by (induction rule: rtranclp_induct) (auto intro: store_step_ok)

section \<open>Properties\<close>


definition example_fs :: fsys where
  "example_fs = \<lparr>names = [], data = (\<lambda>_. []), dirs = [''s''], nextIno = 0, outs = [], tv_sec = 100, tv_usec = 5000, collided = False, undefd = False\<rparr>"

definition example_tm :: tm where
  "example_tm = \<lparr>tm_mon = 0, tm_mday = 1, tm_hour = 2, tm_min = 3, tm_sec = 4\<rparr>"

end
