(* ===== verification/RemainStore.thy ===== *)
theory RemainStore
  imports RemainObj RemainFilesProps
begin

text \<open>
  The whole way of a stuck message: from the object through its line of text into a file, from the file back into the object.
  The properties here put \<^verbatim>\<open>RemainObj\<close> (\<^verbatim>\<open>RemainObjMgr.cpp\<close>) and \<^verbatim>\<open>RemainFiles\<close> (\<^verbatim>\<open>RemainMgr.cpp\<close>) together.
\<close>

section \<open>The two managers together\<close>

text \<open>
  \<open>RemainObjMgr\<close> calls the one instance of \<open>RemainMgr\<close>. The operations of \<open>RemainObj\<close> return the call they end in; here it is made.
\<close>

definition run_call :: "(u64 \<Rightarrow> tm) \<Rightarrow> file_call \<Rightarrow> RemainMgr \<Rightarrow> fsys \<Rightarrow> int \<times> RemainMgr \<times> fsys" where
  "run_call lt c m w =
     (case c of
        writeRemainFile flag frag x \<Rightarrow> rm_writeRemainFile lt flag frag x m w
      | writeRemainFileBak flag frag x \<Rightarrow> rm_writeRemainFileBak lt flag frag x m w)"

definition obj_init :: "string \<Rightarrow> u32 \<Rightarrow> c_int \<Rightarrow> c_int \<Rightarrow> string \<Rightarrow> string \<Rightarrow> RemainObjMgr \<Rightarrow> RemainMgr \<Rightarrow> RemainObjMgr \<times> RemainMgr" where
  "obj_init exe gate maxC outSec share local om m =
     (remainObjMgrInit exe gate maxC outSec share local om, snd (remainMgrInit gate maxC outSec share local exe m))"

definition obj_exit :: "(u64 \<Rightarrow> tm) \<Rightarrow> RemainObjMgr \<Rightarrow> RemainMgr \<Rightarrow> fsys \<Rightarrow> RemainObjMgr \<times> RemainMgr \<times> fsys" where
  "obj_exit lt om m w = (remainObjMgrExit om, remainMgrExit lt m w)"

definition obj_writeRemainObject :: "(u64 \<Rightarrow> tm) \<Rightarrow> RemainObjMgr \<Rightarrow> RemainObj \<Rightarrow> RemainMgr \<Rightarrow> fsys \<Rightarrow> int \<times> RemainMgr \<times> fsys" where
  "obj_writeRemainObject lt om ob m w = (case writeRemainObject om ob of Inl e \<Rightarrow> (e, m, w) | Inr c \<Rightarrow> run_call lt c m w)"

definition obj_writeRemainObjectBak :: "(u64 \<Rightarrow> tm) \<Rightarrow> RemainObjMgr \<Rightarrow> RemainObj \<Rightarrow> RemainMgr \<Rightarrow> fsys \<Rightarrow> int \<times> RemainMgr \<times> fsys" where
  "obj_writeRemainObjectBak lt om ob m w = (case writeRemainObjectBak om ob of Inl e \<Rightarrow> (e, m, w) | Inr c \<Rightarrow> run_call lt c m w)"

text \<open>The lines that \<open>transStringToObject\<close> could not read, in order, without their CR LF; the results are not looked at.\<close>

fun write_baks :: "(u64 \<Rightarrow> tm) \<Rightarrow> c_int \<Rightarrow> string \<Rightarrow> string list \<Rightarrow> RemainMgr \<Rightarrow> fsys \<Rightarrow> RemainMgr \<times> fsys" where
  "write_baks lt flag frag [] m w = (m, w)"
| "write_baks lt flag frag (l # ls) m w = (let (_, m, w) = rm_writeRemainFileBak lt flag frag l m w in write_baks lt flag frag ls m w)"

definition obj_readRemainObject ::
  "(u64 \<Rightarrow> tm) \<Rightarrow> (string list \<Rightarrow> string list) \<Rightarrow> c_int \<Rightarrow> RemainObj list \<Rightarrow> string \<Rightarrow> RemainObjMgr \<Rightarrow> RemainMgr \<Rightarrow> fsys
    \<Rightarrow> (int \<times> RemainObj list \<times> RemainMgr \<times> fsys) option" where
  "obj_readRemainObject lt readdir flag objVect frag om m w =
     (if isInit om = 0 then Some (- 1429, objVect, m, w)
      else if isExit om \<noteq> 0 then Some (- 141, objVect, m, w)
      else case readRemainFile readdir flag frag [] m w of
             None \<Rightarrow> None
           | Some (ret, msgDetail, w) \<Rightarrow>
               if ret < 0 then Some (ret, objVect, m, w)
               else let (ret, objVect, baks) = transStringToObject flag msgDetail objVect; (m, w) = write_baks lt flag frag baks m w
                    in Some (ret, objVect, m, w))"

definition obj_statisticsRemainCount :: "c_int \<Rightarrow> string \<Rightarrow> int \<Rightarrow> int \<Rightarrow> RemainObjMgr \<Rightarrow> RemainMgr \<Rightarrow> int \<times> int \<times> int" where
  "obj_statisticsRemainCount flag frag localCount shareCount om m =
     (if isInit om = 0 then (- 1429, localCount, shareCount)
      else if isExit om \<noteq> 0 then (- 141, localCount, shareCount)
      else statisticsRemainCount flag frag localCount shareCount m)"

definition obj_everySecondCheck :: "(u64 \<Rightarrow> tm) \<Rightarrow> u64 \<Rightarrow> RemainObjMgr \<Rightarrow> RemainMgr \<Rightarrow> fsys \<Rightarrow> RemainMgr \<times> fsys" where
  "obj_everySecondCheck lt second om m w =
     (if isExit om \<noteq> 0 then (m, w) else rm_everySecondCheck lt (if second = 0 then tv_sec w else second) m w)"

definition obj_updateGenFreq :: "c_int \<Rightarrow> RemainMgr \<Rightarrow> RemainMgr" where
  "obj_updateGenFreq freq m = rm_updateGenFreq freq m"

definition obj_updateMaxFileSize :: "c_int \<Rightarrow> RemainMgr \<Rightarrow> RemainMgr" where
  "obj_updateMaxFileSize sz m = rm_updateMaxFileSize sz m"

section \<open>Names\<close>

lemma pad0_length: "n < 10 ^ k \<Longrightarrow> 0 < k \<Longrightarrow> length (pad0 k n) = k"
  using show_nat_length [of n "k - 1"] by (simp add: pad0_def Let_def)

lemma read_pad0: "read_digits 0 (pad0 k n) = n"
proof -
  have "read_digits 0 (replicate j CHR ''0'' @ s) = read_digits 0 s" for j s by (induction j) (simp_all add: is_digit_def)
  then show ?thesis by (simp add: pad0_def Let_def read_digits_show_nat)
qed

lemma file_name_seq:
  assumes "file_name p g n t ms s e = file_name p' g' n' t' ms' s' e" and "s < 100000" and "s' < 100000"
  shows "s = s'"
proof -
  have l: "length (pad0 5 s) = length (pad0 5 s')" using assms(2,3) by (simp add: pad0_length)
  obtain u u' where "file_name p g n t ms s e = u @ pad0 5 s @ e" "file_name p' g' n' t' ms' s' e = u' @ pad0 5 s' @ e"
    unfolding file_name_def stamp_def by (metis append.assoc)
  then have "pad0 5 s = pad0 5 s'" using assms(1) l by (metis append_assoc append_eq_append_conv append_same_eq)
  then show ?thesis by (metis read_pad0)
qed

section \<open>Calls that succeed\<close>

lemma dirname_snoc: "c \<noteq> CHR ''/'' \<Longrightarrow> dirname (s @ [c]) = dirname s" "dirname (s @ ''/'') = s"
  by (simp_all add: dirname_def)

lemma dirname_app: "CHR ''/'' \<notin> set b \<Longrightarrow> dirname (a @ CHR ''/'' # b) = a"
proof -
  assume "CHR ''/'' \<notin> set b"
  then have "dropWhile (\<lambda>c. c \<noteq> CHR ''/'') (rev b @ CHR ''/'' # rev a) = CHR ''/'' # rev a" by (intro dropWhile_append_stop) auto
  then show ?thesis by (simp add: dirname_def)
qed

lemma basename_app: "CHR ''/'' \<notin> set b \<Longrightarrow> basename (a @ CHR ''/'' # b) = b"
proof -
  assume "CHR ''/'' \<notin> set b"
  then have "takeWhile (\<lambda>c. c \<noteq> CHR ''/'') (rev b @ CHR ''/'' # rev a) = rev b" by (intro takeWhile_append_stop) auto
  then show ?thesis by (simp add: basename_def)
qed

text \<open>A file system without files, whose calls succeed, except that it has more directories.\<close>

definition more_dirs :: "nat \<Rightarrow> fsys \<Rightarrow> fsys \<Rightarrow> bool" where
  "more_dirs k w w' \<longleftrightarrow> (\<exists>ds. w' = w\<lparr>dirs := dirs w @ ds\<rparr> \<and> (\<forall>d \<in> set ds. length d \<le> k))"

lemma more_dirs_refl [simp]: "more_dirs k w w"
  by (auto simp: more_dirs_def intro: exI [of _ "[]"])

lemma more_dirs_trans: "more_dirs k w v \<Longrightarrow> more_dirs k v u \<Longrightarrow> more_dirs k w u"
proof -
  assume "more_dirs k w v" "more_dirs k v u"
  then obtain ds es where "v = w\<lparr>dirs := dirs w @ ds\<rparr>" "\<forall>d \<in> set ds. length d \<le> k" "u = v\<lparr>dirs := dirs v @ es\<rparr>" "\<forall>d \<in> set es. length d \<le> k"
    unfolding more_dirs_def by blast
  then show ?thesis unfolding more_dirs_def by (intro exI [of _ "ds @ es"]) auto
qed

lemma make_dir_ok:
  assumes "outs w = []" and "names w = []" and "in_dir s w" and "s \<noteq> []"
  shows "\<exists>w'. make_dir s w = (0, w') \<and> more_dirs (length s) w w' \<and> s \<in> set (dirs w')"
  using assms by (auto simp: make_dir_def sys_access_def sys_mkdir_def exists_path_def more_dirs_def intro: exI [of _ "[]"] exI [of _ "[s]"])

lemma more_dirs_le: "more_dirs j w w' \<Longrightarrow> j \<le> k \<Longrightarrow> more_dirs k w w'"
  unfolding more_dirs_def using order_trans by blast

lemma mkdirs_loop_ok:
  "outs w = [] \<Longrightarrow> names w = [] \<Longrightarrow> in_dir s w \<Longrightarrow> s \<noteq> [] \<Longrightarrow>
   \<exists>w'. mkdirs_loop s rest w = (0, w') \<and> more_dirs (length s + length rest) w w' \<and> s @ rest \<in> set (dirs w')"
proof (induction s rest w rule: mkdirs_loop.induct)
  case (1 str w)
  then show ?case using make_dir_ok by simp
next
  case (2 str c rest w)
  show ?case
  proof (cases "c = CHR ''/''")
    case True
    obtain v where v: "make_dir str w = (0, v)" "more_dirs (length str) w v" "str \<in> set (dirs v)" using make_dir_ok [OF 2(3-6)] by blast
    have "outs v = []" "names v = []" "in_dir (str @ [c]) v" "str @ [c] \<noteq> []" using v 2(3,4) True by (auto simp: more_dirs_def in_dir_def dirname_snoc)
    from 2(1) [OF True refl v(1) [symmetric] _ this] obtain u where u: "mkdirs_loop (str @ [c]) rest v = (0, u)"
      "more_dirs (length (str @ [c]) + length rest) v u" "(str @ [c]) @ rest \<in> set (dirs u)" by auto
    then show ?thesis using v True more_dirs_trans [OF more_dirs_le [OF v(2)] u(2)] by auto
  next
    case False
    then have "in_dir (str @ [c]) w" using 2(5) by (simp add: in_dir_def dirname_snoc)
    then show ?thesis using 2(2) [OF False 2(3,4)] False by auto
  qed
qed

lemma mkdirs_ok:
  assumes "outs w = []" and "names w = []" and "p \<noteq> []"
  shows "\<exists>w'. mkdirs p w = (0, w') \<and> more_dirs (length p) w w' \<and> p \<in> set (dirs w')"
proof -
  obtain c rest where p: "p = c # rest" using assms(3) by (cases p) auto
  have "in_dir [c] w" by (simp add: in_dir_def dirname_def)
  then show ?thesis using mkdirs_loop_ok [OF assms(1,2), of "[c]" rest] by (auto simp: mkdirs_def p)
qed

lemma write_loop_ok: "outs w = [] \<Longrightarrow> \<not> closed f \<Longrightarrow> write_loop t x f w = ([], f\<lparr>fbuf := fbuf f @ x\<rparr>, w)"
  by (subst write_loop.simps) (simp add: c_fwrite_def touch_def sent_def)

lemma put_content_ok:
  assumes "outs w = []" and "pFile m = Some f" and "\<not> closed f" and "fbuf f = []"
  shows "put_content sw e1 e2 x m w = (0, m\<lparr>curCount := curCount m + 1\<rparr>, w\<lparr>data := (data w)(ino f := data w (ino f) @ x)\<rparr>)"
proof -
  have "m\<lparr>pFile := Some f\<rparr> = m" using assms(2) by simp
  moreover have "f\<lparr>fbuf := []\<rparr> = f" using assms(4) by simp
  ultimately show ?thesis using assms by (simp add: put_content_def write_loop_ok c_fflush_def touch_def put_out_def sent_def)
qed


text \<open>The part of a file name behind the directory.\<close>

definition last_part :: "c_int \<Rightarrow> int \<Rightarrow> tm \<Rightarrow> nat \<Rightarrow> nat \<Rightarrow> string \<Rightarrow> string" where
  "last_part gate n t ms seq e = sprintf_d gate @ ''_'' @ show_int n @ ''_'' @ stamp t ms seq @ e"

lemma file_name_last: "file_name p g n t ms s e = p @ CHR ''/'' # last_part g n t ms s e"
  by (simp add: file_name_def last_part_def)

lemma pad0_slash: "CHR ''/'' \<notin> set (pad0 k n)"
  using show_nat_digits [of "CHR ''/''" n] by (auto simp: pad0_def Let_def is_digit_def)

lemma show_int_slash: "CHR ''/'' \<notin> set (show_int n)"
  using show_nat_digits [of "CHR ''/''"] by (auto simp: show_int_def is_digit_def)

lemma last_part_slash: "CHR ''/'' \<notin> set e \<Longrightarrow> CHR ''/'' \<notin> set (last_part g n t ms s e)"
  by (simp add: last_part_def stamp_def sprintf_d_def show_int_slash pad0_slash)

lemmas name_parts = dirname_app [OF last_part_slash] basename_app [OF last_part_slash]

subsection \<open>One file\<close>

text \<open>
  A writer with one open file, the only one in the file system: its contents are \<open>c\<close>, of \<open>n\<close> records, and all calls succeed.
\<close>

definition one_open :: "(u64 \<Rightarrow> tm) \<Rightarrow> string \<Rightarrow> nat \<Rightarrow> file_writer \<Rightarrow> fsys \<Rightarrow> bool" where
  "one_open lt c n m w \<longleftrightarrow> outs w = [] \<and> \<not> fw_isExit m \<and> rootPath m \<in> set (dirs w) \<and> rootPath m \<noteq> [] \<and> filePath m \<in> set (dirs w) \<and> filePath m \<noteq> [] \<and>
     (\<exists>i. pFile m = Some \<lparr>ino = i, fbuf = [], closed = False\<rparr> \<and> names w = [(tmp_name lt m, i)] \<and> data w i = c) \<and>
     curCount m = int n \<and> length (tmp_name lt m) < 1024"

lemma share_first:
  assumes w: "outs w = []" "names w = []" "rootPath m \<in> set (dirs w)" "rootPath m \<noteq> []" and m: "pFile m = None" "\<not> fw_isExit m" "seqId m = 0"
    and path: "filePath m \<noteq> []" "length (filePath m) < 1024"
    and tmp: "t = file_name (filePath m) (fw_gateNo m) 0 (lt (tv_sec w)) (tv_usec w div 1000) 1 ''.tmp''" "length t < 1024" "t \<notin> set (dirs w)"
  shows "\<exists>m' w'. share_writeToFile lt x m w = (0, m', w') \<and> one_open lt x 1 m' w' \<and> collided w' = collided w \<and> undefd w' = undefd w \<and>
    (\<exists>f. m' = m\<lparr>seqId := 1, creatSecond := tv_sec w, millSecond := tv_usec w div 1000, pFile := Some f, curCount := 1\<rparr>) \<and>
    (\<exists>ds. dirs w' = dirs w @ ds \<and> (\<forall>d \<in> set ds. length d \<le> length (filePath m)))"
proof -
  obtain v where v: "mkdirs (filePath m) w = (0, v)" "more_dirs (length (filePath m)) w v" "filePath m \<in> set (dirs v)"
    using mkdirs_ok [OF w(1,2) path(1)] by blast
  then obtain ds where ds: "v = w\<lparr>dirs := dirs w @ ds\<rparr>" "\<forall>d \<in> set ds. length d \<le> length (filePath m)" by (auto simp: more_dirs_def)
  define n where "n = m\<lparr>seqId := 1, creatSecond := tv_sec w, millSecond := tv_usec w div 1000\<rparr>"
  have t: "tmp_name lt n = t" by (simp add: n_def tmp_name_def tmp(1))
  have tl: "length (filePath m) < length t" by (simp add: tmp(1) file_name_def)
  then have td: "t \<notin> set (dirs v)" using ds tmp(3) by auto
  have dn: "dirname t = filePath m" by (simp add: tmp(1) file_name_last name_parts)
  let ?f = "\<lparr>ino = nextIno w, fbuf = [], closed = False\<rparr>"
  let ?u = "v\<lparr>names := [(t, nextIno w)], data := (data w)(nextIno w := []), nextIno := nextIno w + 1\<rparr>"
  have "c_fopen_append t v = (Some ?f, ?u)" using ds w td v(3) dn by (simp add: c_fopen_append_def in_dir_def)
  then have op: "share_switchToNewFile lt m w = (0, n\<lparr>pFile := Some ?f, curCount := 0\<rparr>, ?u)"
    using m path v t tmp(2) ds by (simp add: share_switchToNewFile_def share_CloseCurFile_def open_new_def n_def Let_def)
  let ?m = "n\<lparr>pFile := Some ?f, curCount := 1\<rparr>" and ?w = "?u\<lparr>data := (data w)(nextIno w := x)\<rparr>"
  have "outs ?u = []" using ds w by simp
  from put_content_ok [OF this, of "n\<lparr>pFile := Some ?f, curCount := 0\<rparr>" ?f] op m w(3,4) path(1)
  have r: "share_writeToFile lt x m w = (0, ?m, ?w)" by (simp add: share_writeToFile_def)
  have "one_open lt x 1 ?m ?w" using ds w m v(3) path(1) t tmp(2) by (simp add: one_open_def n_def)
  then show ?thesis using r ds by (intro exI [of _ ?m] exI [of _ ?w]) (auto simp: n_def)
qed

lemma share_next:
  assumes "one_open lt c n m w" and "int n < sint (fw_maxCount m)"
  shows "\<exists>w'. share_writeToFile lt x m w = (0, m\<lparr>curCount := int n + 1\<rparr>, w') \<and> one_open lt (c @ x) (n + 1) (m\<lparr>curCount := int n + 1\<rparr>) w' \<and>
    dirs w' = dirs w \<and> tv_sec w' = tv_sec w \<and> tv_usec w' = tv_usec w"
proof -
  obtain i where i: "pFile m = Some \<lparr>ino = i, fbuf = [], closed = False\<rparr>" "names w = [(tmp_name lt m, i)]" "data w i = c" and o: "outs w = []"
    using assms(1) by (auto simp: one_open_def)
  from put_content_ok [OF o i(1)] assms i
  show ?thesis by (simp add: share_writeToFile_def accessPath_def sys_access_def exists_path_def one_open_def)
qed


subsection \<open>One folder\<close>

text \<open>The manager writes the records one after the other.\<close>

fun store_all :: "(u64 \<Rightarrow> tm) \<Rightarrow> c_int \<Rightarrow> string \<Rightarrow> string list \<Rightarrow> RemainMgr \<Rightarrow> fsys \<Rightarrow> int list \<times> RemainMgr \<times> fsys" where
  "store_all lt flag frag [] m w = ([], m, w)"
| "store_all lt flag frag (x # xs) m w =
     (let (r, m, w) = rm_writeRemainFile lt flag frag x m w; (rs, m, w) = store_all lt flag frag xs m w in (r # rs, m, w))"

text \<open>A manager that has one folder with one writer, for the shared directory.\<close>

definition one_writer :: "RemainMgr \<Rightarrow> string \<Rightarrow> nat \<Rightarrow> file_writer \<Rightarrow> bool" where
  "one_writer m frag k f \<longleftrightarrow> rm_isInit m \<and> \<not> rm_isExit m \<and>
     (\<exists>wf. userFileMgrMap m = [(frag, wf)] \<and> shareFile wf = (\<lambda>_. None)(k := Some f) \<and> localFile wf = (\<lambda>_. None))"

lemma kind_flag_dir: "kind_flag flag bak = Some k \<Longrightarrow> kind_dir k \<noteq> None"
  by (auto simp: kind_flag_def kind_dir_def split: if_splits)

lemma rm_first:
  assumes k: "kind_flag flag False = Some k" and m: "rm_isInit m" "\<not> rm_isExit m" "userFileMgrMap m = []"
    and run: "share_writeToFile lt x (ShareWriteFileMgr (rm_gateNo m) (rm_maxCount m) (rm_outSecond m) k (rm_sharePath m) frag) w = (0, f, w')"
  shows "\<exists>m'. rm_writeRemainFile lt flag frag x m w = (0, m', w') \<and> one_writer m' frag k f \<and> rm_gateNo m' = rm_gateNo m \<and>
    rm_sharePath m' = rm_sharePath m \<and> rm_localPath m' = rm_localPath m"
  using assms kind_flag_dir [OF k]
  by (auto simp: rm_writeRemainFile_def write_remain_def folder_of_def writeToFile_def share_of_def WriteFileMgr_new_def one_writer_def)

lemma rm_next:
  assumes k: "kind_flag flag False = Some k" and m: "one_writer m frag k f" and run: "share_writeToFile lt x f w = (0, f', w')"
  shows "\<exists>m'. rm_writeRemainFile lt flag frag x m w = (0, m', w') \<and> one_writer m' frag k f' \<and> rm_gateNo m' = rm_gateNo m \<and>
    rm_sharePath m' = rm_sharePath m \<and> rm_localPath m' = rm_localPath m"
  using assms kind_flag_dir [OF k]
  by (auto simp: rm_writeRemainFile_def write_remain_def folder_of_def writeToFile_def share_of_def one_writer_def)

lemma store_rest:
  assumes k: "kind_flag flag False = Some k" and m: "one_writer m frag k f" and o: "one_open lt c n f w" and len: "int (n + length xs) \<le> sint (fw_maxCount f)"
  shows "\<exists>m' f' w'. store_all lt flag frag xs m w = (replicate (length xs) 0, m', w') \<and> one_writer m' frag k f' \<and> one_open lt (c @ concat xs) (n + length xs) f' w' \<and>
    f' = f\<lparr>curCount := int (n + length xs)\<rparr> \<and> dirs w' = dirs w \<and> rm_gateNo m' = rm_gateNo m \<and> rm_sharePath m' = rm_sharePath m \<and> rm_localPath m' = rm_localPath m"
  using m o len
proof (induction xs arbitrary: m f w c n)
  case Nil
  have "f\<lparr>curCount := int n\<rparr> = f" using Nil(2) by (simp add: one_open_def)
  then show ?case using Nil by simp
next
  case (Cons x xs)
  obtain w1 where w1: "share_writeToFile lt x f w = (0, f\<lparr>curCount := int n + 1\<rparr>, w1)" "one_open lt (c @ x) (n + 1) (f\<lparr>curCount := int n + 1\<rparr>) w1" "dirs w1 = dirs w"
    using share_next [OF Cons(3), of x] Cons(4) by auto
  obtain m1 where m1: "rm_writeRemainFile lt flag frag x m w = (0, m1, w1)" "one_writer m1 frag k (f\<lparr>curCount := int n + 1\<rparr>)" "rm_gateNo m1 = rm_gateNo m"
    "rm_sharePath m1 = rm_sharePath m" "rm_localPath m1 = rm_localPath m" using rm_next [OF k Cons(2) w1(1)] by blast
  from Cons.IH [OF m1(2) w1(2)] Cons(4) show ?case using m1 w1(3) by (auto simp: add.assoc)
qed

text \<open>The timer closes the file.\<close>

lemma close_ok:
  assumes o: "one_open lt c n f w" and t: "creatSecond f > 0" "sint (ucast (sec - creatSecond f) :: c_int) > sint (fw_outSecond f)"
    and ok: "length (ok_name lt f) < 1024" and p: "dirname (ok_name lt f) = filePath f" "ok_name lt f \<noteq> tmp_name lt f"
  shows "\<exists>f' w' i. fw_everySecondCheck (share_CloseCurFile lt) sec f w = (f', w') \<and> names w' = [(ok_name lt f, i)] \<and> data w' i = c \<and> outs w' = [] \<and> dirs w' = dirs w"
proof -
  obtain i where i: "pFile f = Some \<lparr>ino = i, fbuf = [], closed = False\<rparr>" "names w = [(tmp_name lt f, i)]" "data w i = c" and e: "outs w = []"
    using o by (auto simp: one_open_def)
  have d: "rootPath f \<in> set (dirs w)" "filePath f \<in> set (dirs w)" "\<not> fw_isExit f" "length (tmp_name lt f) < 1024" using o by (auto simp: one_open_def)
  have "\<exists>m' w'. share_CloseCurFile lt f w = (0, m', w') \<and> names w' = [(ok_name lt f, i)] \<and> data w' i = c \<and> outs w' = [] \<and> dirs w' = dirs w"
    using i e d ok p
    by (simp add: share_CloseCurFile_def accessPath_def sys_access_def exists_path_def c_fflush_def c_fclose_def touch_def put_out_def sent_def finish_file_def
        renameFile_def sys_rename_def name_buf_def in_dir_def unlink_name_def)
  then show ?thesis using d t i(1) by (auto simp: fw_everySecondCheck_def Let_def)
qed


lemma second_one:
  assumes m: "one_writer m frag k f" and r: "fw_everySecondCheck (share_CloseCurFile lt) sec f w = (f', w')" and k: "k \<in> set all_flags" and s: "sec \<noteq> 0"
  shows "\<exists>m'. rm_everySecondCheck lt sec m w = (m', w') \<and> rm_isInit m' \<and> \<not> rm_isExit m' \<and> rm_gateNo m' = rm_gateNo m \<and>
    rm_sharePath m' = rm_sharePath m \<and> rm_localPath m' = rm_localPath m"
proof -
  have none: "each_writer op flags (\<lambda>_. None) v = (\<lambda>_. None, v)" for op flags v by (induction flags) auto
  have skip: "each_writer op flags ((\<lambda>_. None)(k := g)) v = ((\<lambda>_. None)(k := g), v)" if "k \<notin> set flags" for op flags v g
    using that by (induction flags) auto
  have one: "each_writer op flags ((\<lambda>_. None)(k := Some f)) w = ((\<lambda>_. None)(k := Some f'), w')" if "k \<in> set flags" "distinct flags" "op f w = (f', w')" for op flags
    using that by (induction flags) (auto simp: skip)
  have "distinct all_flags" by (simp add: all_flags_def)
  then show ?thesis using m s one [where op = "fw_everySecondCheck (share_CloseCurFile lt) sec" and flags = all_flags, OF k _ r] by (auto simp: rm_everySecondCheck_def one_writer_def wf_everySecondCheck_def none)
qed

subsection \<open>Reading\<close>

lemma read_loop_ok: "outs w = [] \<Longrightarrow> read_loop t (length s) s buf w = (0, buf @ s, w)"
  by (subst read_loop.simps) (simp add: c_fread_def sent_def Let_def)

lemma readFromFile_ok:
  assumes "outs w = []" and "names w = [(fileName m, i)]" and "data w i = c" and "c \<noteq> []" and "reader_ok m" and "in_dir (bakFileName m) w"
  shows "\<exists>w'. readFromFile m d w = (0, c, w') \<and> names w' = []"
proof -
  let ?v = "w\<lparr>names := [(bakFileName m, i)], collided := collided w \<or> exists_path (bakFileName m) w\<rparr>"
  have r: "renameFile (fileName m) (bakFileName m) w = (0, ?v)"
    using assms by (auto simp: renameFile_def sys_rename_def unlink_name_def reader_ok_def)
  have "deleteReadFile m ?v = ?v\<lparr>names := []\<rparr>" using assms(1) by (simp add: deleteReadFile_def sys_access_def exists_path_def sys_remove_def unlink_name_def)
  then show ?thesis using assms r read_loop_ok [of ?v 0 c "[]"]
    by (simp add: readFromFile_def readFileLen_def sys_stat_def c_fopen_read_def c_malloc_def)
qed

text \<open>Entries that are not the file are passed over; the file is found.\<close>

lemma read_entries_none:
  "outs w = [] \<Longrightarrow> \<forall>e \<in> set es. path @ ''/'' @ e \<notin> fst ` set (names w) \<Longrightarrow> read_entries gate path es d w = Some (- 122, d, w)"
  by (induction es) (auto simp: exists_path_def Let_def)

lemma read_entries_one:
  assumes w: "outs w = []" "names w = [(path @ ''/'' @ e, i)]" "data w i = c" "c \<noteq> []" and e: "is_ok_file e" "path @ ''/'' @ e \<notin> set (dirs w)"
    and m: "ReadFileMgr_new gate (path @ ''/'' @ e) = Some m" "in_dir (bakFileName m) w"
  shows "e \<in> set es \<Longrightarrow> \<exists>w'. read_entries gate path es d w = Some (0, c, w') \<and> names w' = []"
proof (induction es)
  case (Cons a es)
  show ?case
  proof (cases "a = e")
    case True
    have n: "fileName m = path @ ''/'' @ e" using m(1) by (auto simp: ReadFileMgr_new_def Let_def split: if_splits)
    have "reader_ok m" using reader_new_ok [of gate "path @ ''/''" e m] m(1) e(1) by simp
    then obtain w' where "readFromFile m d w = (0, c, w')" "names w' = []" using readFromFile_ok [of w m i c d] w m(2) n by auto
    then show ?thesis using True w e m(1) by (simp add: exists_path_def Let_def)
  next
    case False
    then have "\<not> (exists_path (path @ ''/'' @ a) w \<and> path @ ''/'' @ a \<notin> set (dirs w))" using w(2) by (auto simp: exists_path_def)
    then show ?thesis using Cons False w(1) by (auto simp: Let_def)
  qed
qed simp

lemma bak_dir:
  assumes "ReadFileMgr_new gate (path @ ''/'' @ e) = Some m" and "is_ok_file e" and "CHR ''/'' \<notin> set e" and "path \<in> set (dirs w)"
  shows "in_dir (bakFileName m) w"
proof -
  define y where "y = take (length e - 3) e"
  have e: "e = y @ ''.ok''" using assms(2) by (metis append_take_drop_id is_ok_file_def y_def)
  define b where "b = y @ ''_'' @ sprintf_d gate @ ''.bak''"
  have "bakFileName m = path @ CHR ''/'' # b" using assms(1) by (auto simp: ReadFileMgr_new_def Let_def e b_def split: if_splits)
  moreover have "CHR ''/'' \<notin> set b" using assms(3) show_int_slash [of "sint gate"] by (auto simp: b_def e sprintf_d_def)
  ultimately show ?thesis using assms(4) by (simp add: in_dir_def dirname_app)
qed


section \<open>Objects into a file and back\<close>

fun put_objects :: "(u64 \<Rightarrow> tm) \<Rightarrow> RemainObjMgr \<Rightarrow> RemainObj list \<Rightarrow> RemainMgr \<Rightarrow> fsys \<Rightarrow> int list \<times> RemainMgr \<times> fsys" where
  "put_objects lt om [] m w = ([], m, w)"
| "put_objects lt om (a # as) m w =
     (let (r, m, w) = obj_writeRemainObject lt om a m w; (rs, m, w) = put_objects lt om as m w in (r # rs, m, w))"

lemma stored_call:
  assumes "flag \<in> {RE_FLAG, MO_FLAG, MT_FLAG}" and "storable flag a" and "isInit om \<noteq> 0" and "isExit om = 0"
  shows "writeRemainObject om a = Inr (writeRemainFile flag (m_strFragFolder a) (line_of a @ [CR, LF]))"
  using assms by (auto simp: storable_def writeRemainObject_def transReToString_line transMoToString_line transMtToString_line)

lemma stored_read:
  assumes "flag \<in> {RE_FLAG, MO_FLAG, MT_FLAG}" and "as \<noteq> []" and "list_all (storable flag) as"
  shows "transStringToObject flag (concat (map (\<lambda>a. line_of a @ [CR, LF]) as)) v = (0, v @ map kept as, [])"
proof -
  have fl: "bitFlag a = flag" "remain_ok a" if "a \<in> set as" for a using assms(3) that by (auto simp: storable_def list_all_iff)
  have "concat (map (\<lambda>a. line_of a @ [CR, LF]) as) \<noteq> []" using assms(2) by (cases as) auto
  then show ?thesis
    using assms fl read_line_Re read_line_Mo read_line_Mt stored_clean [OF assms(3)]
      read_lines_stored [of as transStringToRe flag 0 v "[]"] read_lines_stored [of as transStringToMo flag 0 v "[]"]
      read_lines_stored [of as transStringToMt flag 0 v "[]"]
    by (auto simp: transStringToObject_def)
qed

lemma put_objects_store:
  assumes "\<forall>a \<in> set as. writeRemainObject om a = Inr (writeRemainFile flag frag (g a))"
  shows "put_objects lt om as m w = store_all lt flag frag (map g as) m w"
  using assms by (induction as arbitrary: m w) (auto simp: obj_writeRemainObject_def run_call_def split: prod.splits)

text \<open>All records of a run into one file.\<close>

lemma store_one_file:
  assumes k: "kind_flag flag False = Some k" "kind_dir k = Some d" and m: "rm_isInit m" "\<not> rm_isExit m" "userFileMgrMap m = []"
    and w: "outs w = []" "names w = []" "rm_sharePath m \<in> set (dirs w)" "rm_sharePath m \<noteq> []"
    and xs: "xs \<noteq> []" "int (length xs) \<le> sint (rm_maxCount m)"
    and p: "p = rm_sharePath m @ ''/'' @ d @ ''/'' @ frag" "length p < 1024"
    and t: "t = file_name p (rm_gateNo m) 0 (lt (tv_sec w)) (tv_usec w div 1000) 1 ''.tmp''" "length t < 1024" "t \<notin> set (dirs w)"
  shows "\<exists>m' f w' ds. store_all lt flag frag xs m w = (replicate (length xs) 0, m', w') \<and> one_writer m' frag k f \<and> one_open lt (concat xs) (length xs) f w' \<and>
    filePath f = p \<and> fw_gateNo f = rm_gateNo m \<and> seqId f = 1 \<and> creatSecond f = tv_sec w \<and> millSecond f = tv_usec w div 1000 \<and> fw_outSecond f = rm_outSecond m \<and>
    dirs w' = dirs w @ ds \<and> (\<forall>e \<in> set ds. length e \<le> length p) \<and>
    rm_gateNo m' = rm_gateNo m \<and> rm_sharePath m' = rm_sharePath m \<and> rm_localPath m' = rm_localPath m"
proof -
  obtain x ys where x: "xs = x # ys" using xs(1) by (cases xs) auto
  let ?f = "ShareWriteFileMgr (rm_gateNo m) (rm_maxCount m) (rm_outSecond m) k (rm_sharePath m) frag"
  have f: "filePath ?f = p" "rootPath ?f = rm_sharePath m" "fw_gateNo ?f = rm_gateNo m" "pFile ?f = None" "\<not> fw_isExit ?f" "seqId ?f = 0"
    "fw_maxCount ?f = rm_maxCount m" "fw_outSecond ?f = rm_outSecond m"
    using w(4) k(2) p by (simp_all add: ShareWriteFileMgr_def kind_path_def name_buf_def)
  have ne: "p \<noteq> []" by (simp add: p)
  obtain f1 w1 g ds where s: "share_writeToFile lt x ?f w = (0, f1, w1)" "one_open lt x 1 f1 w1"
    "f1 = ?f\<lparr>seqId := 1, creatSecond := tv_sec w, millSecond := tv_usec w div 1000, pFile := Some g, curCount := 1\<rparr>"
    "dirs w1 = dirs w @ ds" "\<forall>e \<in> set ds. length e \<le> length p"
    using share_first [of w ?f t lt x] w f ne p(2) t by auto
  from rm_first [OF k(1) m s(1)] obtain m1 where m1: "rm_writeRemainFile lt flag frag x m w = (0, m1, w1)" "one_writer m1 frag k f1"
    "rm_gateNo m1 = rm_gateNo m" "rm_sharePath m1 = rm_sharePath m" "rm_localPath m1 = rm_localPath m" by blast
  have "int (1 + length ys) \<le> sint (fw_maxCount f1)" using xs(2) x s(3) f by simp
  from store_rest [OF k(1) m1(2) s(2) this] obtain m2 f2 w2 where r: "store_all lt flag frag ys m1 w1 = (replicate (length ys) 0, m2, w2)"
    "one_writer m2 frag k f2" "one_open lt (x @ concat ys) (1 + length ys) f2 w2" "f2 = f1\<lparr>curCount := int (1 + length ys)\<rparr>" "dirs w2 = dirs w1"
    "rm_gateNo m2 = rm_gateNo m1" "rm_sharePath m2 = rm_sharePath m1" "rm_localPath m2 = rm_localPath m1" by blast
  have "store_all lt flag frag xs m w = (replicate (length xs) 0, m2, w2)" using m1(1) r(1) by (simp add: x)
  moreover have "one_open lt (concat xs) (length xs) f2 w2" using r(3) by (simp add: x)
  moreover have "filePath f2 = p" "fw_gateNo f2 = rm_gateNo m" "seqId f2 = 1" "creatSecond f2 = tv_sec w" "millSecond f2 = tv_usec w div 1000"
    "fw_outSecond f2 = rm_outSecond m" using f s(3) r(4) by simp_all
  ultimately show ?thesis using r(2,5-8) m1(3-5) s(4,5) by (intro exI [of _ m2] exI [of _ f2] exI [of _ w2] exI [of _ ds]) simp
qed


lemma sprintf_d_length: "length (sprintf_d v) \<le> 11"
proof -
  have "- (2 ^ 31) \<le> sint v" "sint v < 2 ^ 31" using sint_greater_eq [of v] sint_less [of v] by simp_all
  then have "nat \<bar>sint v\<bar> < 10 ^ 10" by simp
  then have "length (show_nat (nat \<bar>sint v\<bar>)) \<le> 10" using show_nat_length [of "nat \<bar>sint v\<bar>" 9] by simp
  then show ?thesis by (auto simp: sprintf_d_def show_int_def)
qed

text \<open>The reader finds the file.\<close>

lemma read_store:
  assumes k: "kind_flag flag False = Some k" "kind_dir k = Some d" and m: "rm_isInit m" "\<not> rm_isExit m"
    and p: "p = rm_sharePath m @ ''/'' @ d @ ''/'' @ frag" "rm_sharePath m \<noteq> []" "rm_sharePath m \<noteq> rm_localPath m"
      "length (rm_localPath m @ ''/'' @ d @ ''/'' @ frag) < 1024"
    and w: "outs w = []" "names w = [(p @ ''/'' @ e, i)]" "data w i = c" "c \<noteq> []" "p \<in> set (dirs w)" "rm_sharePath m \<in> set (dirs w)"
    and e: "is_ok_file e" "CHR ''/'' \<notin> set e" "p @ ''/'' @ e \<notin> set (dirs w)" "length (p @ ''/'' @ e) \<le> 1003" and r: "\<forall>es. set (readdir es) = set es"
  shows "\<exists>w'. readRemainFile readdir flag frag d0 m w = Some (0, c, w') \<and> names w' = []"
proof -
  define lp where "lp = rm_localPath m @ ''/'' @ d @ ''/'' @ frag"
  have "length (sprintf_d (rm_gateNo m)) \<le> 11" by (rule sprintf_d_length)
  then obtain rm where rm: "ReadFileMgr_new (rm_gateNo m) (p @ ''/'' @ e) = Some rm"
    using e(1,4) that by (cases "ReadFileMgr_new (rm_gateNo m) (p @ ''/'' @ e)") (auto simp: ReadFileMgr_new_def Let_def is_ok_file_def split: if_splits)
  have pl: "length p < 1024" using e(4) by simp
  have dm: "ReadDirMgr_new k (rm_gateNo m) frag (rm_sharePath m) (rm_localPath m) =
      Some \<lparr>rd_gateNo = rm_gateNo m, shareRootPath = rm_sharePath m, rd_sharePath = p, rd_localPath = lp\<rparr>"
    using k p pl by (auto simp: ReadDirMgr_new_def lp_def kind_flag_def split: if_splits)
  have ne: "lp \<noteq> p" using p by (simp add: lp_def)
  have "lp @ ''/'' @ x \<noteq> p @ ''/'' @ e" if "CHR ''/'' \<notin> set x" for x using ne dirname_app that e(2) by (metis append_Cons append_Nil)
  moreover have "CHR ''/'' \<notin> set (basename q)" for q by (auto simp: basename_def dest: set_takeWhileD)
  ultimately have none: "read_entries g lp (readdir (entries lp w)) d0 w = Some (- 122, d0, w)" for g
    using r w(1,2) by (intro read_entries_none) (auto simp: entries_def)
  have "readFileFromDir readdir (rm_gateNo m) lp d0 w = Some (if lp \<in> set (dirs w) then - 122 else - 121, d0, w)"
    using p(4) [folded lp_def] w(1) none by (simp add: readFileFromDir_def sys_opendir_def)
  moreover have "e \<in> set (entries p w)" using w(2) e(2) by (auto simp: entries_def basename_app dirname_app)
  then have "\<exists>w'. readFileFromDir readdir (rm_gateNo m) p d0 w = Some (0, c, w') \<and> names w' = []"
    using read_entries_one [OF w(1-4) e(1,3) rm bak_dir [OF rm e(1,2) w(5)], of "readdir (entries p w)" d0] r w(1,5) pl
    by (auto simp: readFileFromDir_def sys_opendir_def)
  ultimately show ?thesis using k m dm w(1,6) p(2)
    by (auto simp: readRemainFile_def readReaminData_def accessPath_def sys_access_def exists_path_def)
qed

lemma show_int_0_length: "length (show_int 0) \<le> length (show_int (int n))"
proof -
  have "length (show_nat 0) = 1" by (simp add: show_nat.simps)
  moreover have "show_nat n \<noteq> []" by (subst show_nat.simps) simp
  then have "1 \<le> length (show_nat n)" by (cases "show_nat n") auto
  ultimately show ?thesis by (simp add: show_int_def)
qed

lemma file_name_length: "length (file_name p g n t ms s e) = length (file_name p g n t ms s []) + length e"
  by (simp add: file_name_def)

lemma tmp_length: "length (file_name p g 0 t ms s []) \<le> length (file_name p g (int n) t ms s [])"
  using show_int_0_length [of n] by (simp add: file_name_def)

lemma file_name_suffix: "suffix e (file_name p g n t ms s e)"
  by (auto simp: file_name_def suffix_def)

lemma file_names_differ: "file_name p g n t ms s ''.ok'' \<noteq> file_name p' g' n' t' ms' s' ''.tmp''"
  using file_name_suffix [of "''.ok''" p g n t ms s] by (auto simp: file_name_def suffix_def simp flip: append_assoc)

lemma kept_eq: "kept = (\<lambda>a. a\<lparr>m_strFragFolder := ''ccb''\<rparr>)"
  by (simp add: kept_def fun_eq_iff)

lemma closed_file:
  assumes f: "one_open lt c n f w" "filePath f = p" "fw_gateNo f = g" "seqId f = 1" "creatSecond f = s" "millSecond f = ms"
    and s: "s > 0" "sint (ucast (sec - s) :: c_int) > sint (fw_outSecond f)"
    and len: "length (file_name p g (int n) (lt s) ms 1 []) \<le> 1000"
  shows "\<exists>f' w' i. fw_everySecondCheck (share_CloseCurFile lt) sec f w = (f', w') \<and> names w' = [(p @ ''/'' @ last_part g (int n) (lt s) ms 1 ''.ok'', i)] \<and>
    data w' i = c \<and> outs w' = [] \<and> dirs w' = dirs w"
proof -
  have o: "ok_name lt f = p @ CHR ''/'' # last_part g (int n) (lt s) ms 1 ''.ok''" using f by (simp add: ok_name_def file_name_last one_open_def)
  then have d: "dirname (ok_name lt f) = filePath f" using f(2) by (simp add: name_parts)
  have ne: "ok_name lt f \<noteq> tmp_name lt f" using file_names_differ by (simp add: ok_name_def tmp_name_def)
  have "length (ok_name lt f) < 1024" using len f file_name_length [of p g "int n" "lt s" ms 1 "''.ok''"] by (simp add: ok_name_def one_open_def)
  from close_ok [OF f(1) _ _ this d ne] s f(5) show ?thesis using o by auto
qed

text \<open>Records into one file, the timer, and the reader.\<close>

lemma store_cycle:
  assumes kind: "kind_flag flag False = Some k" "kind_dir k = Some d" and m: "rm_isInit m" "\<not> rm_isExit m" "userFileMgrMap m = []"
    and path: "rm_sharePath m = share" "rm_localPath m = local" "rm_gateNo m = g" "p = share @ ''/'' @ d @ ''/'' @ frag" "share \<noteq> []" "share \<noteq> local"
    and ls: "concat ls \<noteq> []" "int (length ls) \<le> sint (rm_maxCount m)"
    and fs: "outs w = []" "names w = []" "share \<in> set (dirs w)" "\<forall>q \<in> set (dirs w). \<not> suffix ''.tmp'' q \<and> \<not> suffix ''.ok'' q"
    and time: "0 < tv_sec w" "sec \<noteq> 0" "sint (ucast (sec - tv_sec w) :: c_int) > sint (rm_outSecond m)"
    and fit: "length (file_name p g (int (length ls)) (lt (tv_sec w)) (tv_usec w div 1000) 1 []) \<le> 1000" "length (local @ ''/'' @ d @ ''/'' @ frag) < 1024"
    and readdir: "\<forall>es. set (readdir es) = set es"
  shows "\<exists>m1 w1 m2 w2 w3. store_all lt flag frag ls m w = (replicate (length ls) 0, m1, w1) \<and> rm_everySecondCheck lt sec m1 w1 = (m2, w2) \<and>
    readRemainFile readdir flag frag [] m2 w2 = Some (0, concat ls, w3) \<and> names w3 = []"
proof -
  define t where "t = file_name p g 0 (lt (tv_sec w)) (tv_usec w div 1000) 1 ''.tmp''"
  define e where "e = last_part g (int (length ls)) (lt (tv_sec w)) (tv_usec w div 1000) 1 ''.ok''"
  have tl: "length t < 1024" using fit(1) tmp_length [of p g "lt (tv_sec w)" "tv_usec w div 1000" 1 "length ls"]
      file_name_length [of p g 0 "lt (tv_sec w)" "tv_usec w div 1000" 1 "''.tmp''"] by (simp add: t_def)
  have td: "t \<notin> set (dirs w)" using fs(4) file_name_suffix unfolding t_def by blast
  have pl: "length p < 1024" using fit(1) by (simp add: file_name_def)
  have ne: "ls \<noteq> []" using ls(1) by auto
  obtain m1 f w1 ds where st: "store_all lt flag frag ls m w = (replicate (length ls) 0, m1, w1)" "one_writer m1 frag k f"
    "one_open lt (concat ls) (length ls) f w1" "filePath f = p" "fw_gateNo f = g" "seqId f = 1" "creatSecond f = tv_sec w" "millSecond f = tv_usec w div 1000"
    "fw_outSecond f = rm_outSecond m" "dirs w1 = dirs w @ ds" "\<forall>q \<in> set ds. length q \<le> length p" "rm_gateNo m1 = g" "rm_sharePath m1 = share" "rm_localPath m1 = local"
    using store_one_file [OF kind m fs(1,2), of ls p frag t lt] path fs(3) ls(2) ne pl tl td unfolding t_def by auto
  obtain f2 w2 i where cl: "fw_everySecondCheck (share_CloseCurFile lt) sec f w1 = (f2, w2)" "names w2 = [(p @ ''/'' @ e, i)]" "data w2 i = concat ls"
    "outs w2 = []" "dirs w2 = dirs w @ ds"
    using closed_file [OF st(3-8) time(1) _ fit(1), of sec] time(3) st(9,10) unfolding e_def by auto
  have "k \<in> set all_flags" using kind(1) by (auto simp: kind_flag_def all_flags_def split: if_splits)
  from second_one [OF st(2) cl(1) this time(2)] obtain m2 where m2: "rm_everySecondCheck lt sec m1 w1 = (m2, w2)" "rm_isInit m2" "\<not> rm_isExit m2"
    "rm_gateNo m2 = g" "rm_sharePath m2 = share" "rm_localPath m2 = local" using st by auto
  have ef: "p @ ''/'' @ e = file_name p g (int (length ls)) (lt (tv_sec w)) (tv_usec w div 1000) 1 ''.ok''" by (simp add: e_def file_name_last)
  have e: "is_ok_file e" "CHR ''/'' \<notin> set e" unfolding e_def by (simp add: is_ok_file_def last_part_def, rule last_part_slash, simp)
  have el: "length (p @ ''/'' @ e) \<le> 1003" unfolding ef using fit(1) file_name_length [of p g "int (length ls)" "lt (tv_sec w)" "tv_usec w div 1000" 1 "''.ok''"] by simp
  have "p @ ''/'' @ e \<notin> set (dirs w)" using fs(4) file_name_suffix unfolding ef by blast
  then have ed: "p @ ''/'' @ e \<notin> set (dirs w2)" using st(11) by (auto simp: cl(5))
  have pd: "p \<in> set (dirs w2)" using st(3,4,10) cl(5) by (auto simp: one_open_def)
  obtain w3 where "readRemainFile readdir flag frag [] m2 w2 = Some (0, concat ls, w3)" "names w3 = []"
    using read_store [OF kind m2(2,3), of p frag w2 e i "concat ls" readdir "[]"] m2 path(4-6) fit(2) cl pd ls(1) e ed el fs(3) readdir by auto
  then show ?thesis using st(1) m2(1) by blast
qed

section \<open>Properties\<close>

text \<open>C12: Stored messages come back. After \<open>remainObjMgrInit\<close> with a shared directory that exists, no more than \<open>maxCount\<close>
  messages of one kind and folder (their plain texts without a separator, their lines short enough) are all accepted; the timer
  closes their file once it is older than \<open>outSeconds\<close>; then one call of \<open>readRemainObject\<close> returns 0 and every message, in
  order and with all written fields, calls for no backup line and leaves no file behind, in whatever order \<open>readdir\<close> gives the
  entries. The calls of the operating system succeed, no directory is named like a record file, and the names fit their buffers.\<close>

theorem stored_objects_return:
  assumes kind: "kind_flag flag False = Some k" "kind_dir k = Some d"
    and objs: "as \<noteq> []" "list_all (storable flag) as" "\<forall>a \<in> set as. m_strFragFolder a = frag" "int (length as) \<le> sint maxC"
    and start: "obj_init exe gate maxC outSec share local RemainObjMgr_init RemainMgr_new = (om, m)" "share \<noteq> []" "share \<noteq> (if local = [] then exe else local)"
    and fs: "outs w = []" "names w = []" "share \<in> set (dirs w)" "\<forall>q \<in> set (dirs w). \<not> suffix ''.tmp'' q \<and> \<not> suffix ''.ok'' q"
    and time: "0 < tv_sec w" "sec \<noteq> 0" "sint (ucast (sec - tv_sec w) :: c_int) > sint outSec"
    and fits: "length (file_name (share @ ''/'' @ d @ ''/'' @ frag) (ucast gate) (int (length as)) (lt (tv_sec w)) (tv_usec w div 1000) 1 []) \<le> 1000"
      "length ((if local = [] then exe else local) @ ''/'' @ d @ ''/'' @ frag) < 1024"
    and readdir: "\<forall>es. set (readdir es) = set es"
  shows "\<exists>m1 w1 m2 w2 w3. put_objects lt om as m w = (replicate (length as) 0, m1, w1) \<and> obj_everySecondCheck lt sec om m1 w1 = (m2, w2) \<and>
    obj_readRemainObject lt readdir flag v frag om m2 w2 = Some (0, v @ map (\<lambda>a. a\<lparr>m_strFragFolder := ''ccb''\<rparr>) as, m2, w3) \<and> names w3 = []"
proof -
  have fl: "flag \<in> {RE_FLAG, MO_FLAG, MT_FLAG}" using kind(1) by (auto simp: kind_flag_def RE_FLAG_def MO_FLAG_def MT_FLAG_def split: if_splits)
  have om: "isInit om \<noteq> 0" "isExit om = 0" using start(1) by (auto simp: obj_init_def remainObjMgrInit_def RemainObjMgr_init_def)
  have m: "rm_isInit m" "\<not> rm_isExit m" "userFileMgrMap m = []" "rm_gateNo m = ucast gate" "rm_maxCount m = maxC" "rm_outSecond m = outSec"
    "rm_sharePath m = share" "rm_localPath m = (if local = [] then exe else local)"
    using start(1) by (auto simp: obj_init_def remainMgrInit_def RemainMgr_new_def)
  define ls where "ls = map (\<lambda>a. line_of a @ [CR, LF]) as"
  have put: "put_objects lt om as m' w' = store_all lt flag frag ls m' w'" for m' w'
    unfolding ls_def using stored_call [OF fl _ om] objs(2,3) by (intro put_objects_store) (auto simp: list_all_iff)
  have ls: "concat ls \<noteq> []" "length ls = length as" using objs(1) by (auto simp: ls_def)
  obtain m1 w1 m2 w2 w3 where run: "store_all lt flag frag ls m w = (replicate (length as) 0, m1, w1)" "rm_everySecondCheck lt sec m1 w1 = (m2, w2)"
    "readRemainFile readdir flag frag [] m2 w2 = Some (0, concat ls, w3)" "names w3 = []"
    using store_cycle [OF kind m(1-3,7,8,4) refl start(2,3) ls(1) _ fs time(1,2) _ _ fits(2) readdir, of lt] ls(2) objs(4) m(5,6) time(3) fits(1) by auto
  then have "obj_readRemainObject lt readdir flag v frag om m2 w2 = Some (0, v @ map (\<lambda>a. a\<lparr>m_strFragFolder := ''ccb''\<rparr>) as, m2, w3)"
    using stored_read [OF fl objs(1,2), of v] om by (simp add: obj_readRemainObject_def ls_def kept_eq)
  then show ?thesis using put run time(2) om by (auto simp: obj_everySecondCheck_def)
qed

theorem stored_objects_return_witness:
  "\<exists>om m m1 w1 m2 w2 w3. obj_init ''x'' 7 20 60 ''s'' ''l'' RemainObjMgr_init RemainMgr_new = (om, m) \<and>
    put_objects (\<lambda>_. example_tm) om [RemainObj_init\<lparr>bitFlag := MO_FLAG\<rparr>] m example_fs = ([0], m1, w1) \<and>
    obj_everySecondCheck (\<lambda>_. example_tm) 1000 om m1 w1 = (m2, w2) \<and>
    obj_readRemainObject (\<lambda>_. example_tm) id MO_FLAG [] ''ccb'' om m2 w2 = Some (0, [RemainObj_init\<lparr>bitFlag := MO_FLAG\<rparr>], m2, w3) \<and> names w3 = []"
proof -
  obtain om m where i: "obj_init ''x'' 7 20 60 ''s'' ''l'' RemainObjMgr_init RemainMgr_new = (om, m)" by force
  have "length (line_of (RemainObj_init\<lparr>bitFlag := MO_FLAG\<rparr>)) < 3072" by code_simp
  then have s: "list_all (storable MO_FLAG) [RemainObj_init\<lparr>bitFlag := MO_FLAG\<rparr>]" by (simp add: storable_def remain_ok_def raw_ok_def RemainObj_init_def)
  have k: "kind_flag MO_FLAG False = Some 3" "kind_dir 3 = Some ''RemainMo''" by (simp_all add: kind_flag_def MO_FLAG_def kind_dir_def)
  have l: "length (file_name (''s'' @ ''/'' @ ''RemainMo'' @ ''/'' @ ''ccb'') (ucast (7 :: u32)) 1 example_tm 5 1 []) \<le> 1000" by code_simp
  have "sint (60 :: c_int) < sint (ucast (1000 - 100 :: u64) :: c_int)" by simp
  then show ?thesis
    using i l stored_objects_return [OF k _ s _ _ i, of "''ccb''" example_fs 1000 "\<lambda>_. example_tm" id "[]"]
    by (auto simp: example_fs_def RemainObj_init_def suffix_def)
qed


text \<open>A record that the shared directory could not take leaves its beginning behind. When three tries write only the first
  \<open>j\<close> characters of a record to the open shared file, \<open>writeToFile\<close> returns -104 and keeps the stream with these characters in
  its buffer; the next record that is accepted goes behind them, so that the file has a line that neither of the two records had.\<close>

theorem torn_record_joins_next:
  assumes "one_open lt c n m w0" and "w = w0\<lparr>outs := [Ok, Part j, Fail, Fail]\<rparr>" and "j < length x" and "int n < sint (fw_maxCount m)"
  shows "\<exists>m1 w1 m2 w2 i. share_writeToFile lt x m w = (- 104, m1, w1) \<and> share_writeToFile lt y m1 w1 = (0, m2, w2) \<and>
    names w2 = [(tmp_name lt m, i)] \<and> data w2 i = c @ take j x @ y \<and> curCount m2 = int n + 1"
proof -
  obtain i where i: "pFile m = Some \<lparr>ino = i, fbuf = [], closed = False\<rparr>" "names w0 = [(tmp_name lt m, i)]" "data w0 i = c"
    and m: "rootPath m \<noteq> []" "filePath m \<noteq> []" "\<not> fw_isExit m" "rootPath m \<in> set (dirs w0)" "curCount m = int n"
    using assms(1) by (auto simp: one_open_def)
  let ?f = "\<lparr>ino = i, fbuf = take j x, closed = False\<rparr>"
  have l: "write_loop 0 x \<lparr>ino = i, fbuf = [], closed = False\<rparr> (w0\<lparr>outs := [Part j, Fail, Fail]\<rparr>) = (drop j x, ?f, w0\<lparr>outs := []\<rparr>)"
    using assms(3) by (simp add: write_loop.simps c_fwrite_def touch_def next_out_def sent_def)
  then have a: "share_writeToFile lt x m w = (- 104, m\<lparr>pFile := Some ?f\<rparr>, w0\<lparr>outs := []\<rparr>)"
    using i m assms(2-4) by (simp add: share_writeToFile_def put_content_def accessPath_def sys_access_def next_out_def exists_path_def)
  have "write_loop 0 y ?f (w0\<lparr>outs := []\<rparr>) = ([], ?f\<lparr>fbuf := take j x @ y\<rparr>, w0\<lparr>outs := []\<rparr>)" using write_loop_ok [of "w0\<lparr>outs := []\<rparr>" ?f 0 y] by simp
  moreover have "take (min (min (length x) j + length y) j) x = take j x" using assms(3) by (simp add: min_def)
  ultimately show ?thesis using a i m assms(4)
    by (simp add: share_writeToFile_def put_content_def accessPath_def sys_access_def exists_path_def c_fflush_def touch_def put_out_def sent_def)
qed

definition example_writer :: file_writer where
  "example_writer = (ShareWriteFileMgr 7 20 60 3 ''s'' ''ccb'')\<lparr>pFile := Some \<lparr>ino = 0, fbuf = [], closed = False\<rparr>, seqId := 1\<rparr>"

definition example_open :: fsys where
  "example_open = example_fs\<lparr>dirs := [''s'', filePath example_writer], names := [(tmp_name (\<lambda>_. example_tm) example_writer, 0)], nextIno := 1\<rparr>"

lemma example_one_open: "one_open (\<lambda>_. example_tm) [] 0 example_writer example_open"
proof -
  have "length (tmp_name (\<lambda>_. example_tm) example_writer) < 1024" by code_simp
  then show ?thesis by (simp add: one_open_def example_open_def example_writer_def example_fs_def ShareWriteFileMgr_def kind_path_def kind_dir_def name_buf_def)
qed

theorem torn_record_joins_next_witness:
  "\<exists>m1 w1 m2 w2 i. share_writeToFile (\<lambda>_. example_tm) ''abc'' example_writer (example_open\<lparr>outs := [Ok, Part 2, Fail, Fail]\<rparr>) = (- 104, m1, w1) \<and>
    share_writeToFile (\<lambda>_. example_tm) ''xyz'' m1 w1 = (0, m2, w2) \<and> names w2 = [(tmp_name (\<lambda>_. example_tm) example_writer, i)] \<and> data w2 i = ''abxyz''"
  using torn_record_joins_next [OF example_one_open refl, of 2 "''abc''" "''xyz''"] by (auto simp: example_writer_def ShareWriteFileMgr_def)

text \<open>A shutdown while the shared directory cannot be reached strands its file: \<open>exitClose\<close> gives the stream up without
  closing it, the file keeps its temporary name, and the reader, which takes only names that end in \<open>.ok\<close>, never returns it.\<close>

theorem exit_strands_file:
  assumes "one_open lt c n m w0" and "w = w0\<lparr>outs := [Fail]\<rparr>" and "p = filePath m" and "\<forall>es. set (readdir es) = set es" and "length p < 1024"
  shows "\<exists>m' w' i. fw_exitClose (share_CloseCurFile lt) m w = (m', w') \<and> pFile m' = None \<and> names w' = [(tmp_name lt m, i)] \<and> data w' i = c \<and>
    readFileFromDir readdir gate p d w' = Some (- 122, d, w')"
proof -
  obtain i where i: "pFile m = Some \<lparr>ino = i, fbuf = [], closed = False\<rparr>" "names w0 = [(tmp_name lt m, i)]" "data w0 i = c"
    and m: "rootPath m \<noteq> []" "p \<in> set (dirs w0)" using assms(1,3) by (auto simp: one_open_def)
  let ?w = "w0\<lparr>outs := []\<rparr>"
  have e: "fw_exitClose (share_CloseCurFile lt) m w = (m\<lparr>fw_isExit := True, pFile := None\<rparr>, ?w)"
    using i m assms(2) by (simp add: fw_exitClose_def share_CloseCurFile_def accessPath_def sys_access_def next_out_def)
  have t: "\<not> is_ok_file b" if "p @ ''/'' @ b = tmp_name lt m" for b
  proof
    assume "is_ok_file b"
    then obtain y where b: "b = y @ ''.ok''" by (metis append_take_drop_id is_ok_file_def)
    have "last (p @ ''/'' @ b) = CHR ''k''" by (simp add: b)
    then have "last (tmp_name lt m) = CHR ''k''" by (simp only: that)
    then show False by (simp add: tmp_name_def file_name_def)
  qed
  have n: "read_entries gate p es d ?w = Some (- 122, d, ?w)" for es
    by (induction es) (use t i(2) in \<open>auto simp: Let_def exists_path_def\<close>)
  then show ?thesis using e i m assms(5) by (auto simp: readFileFromDir_def sys_opendir_def)
qed

theorem exit_strands_file_witness:
  "\<exists>m' w' i. fw_exitClose (share_CloseCurFile (\<lambda>_. example_tm)) example_writer (example_open\<lparr>outs := [Fail]\<rparr>) = (m', w') \<and> names w' = [(tmp_name (\<lambda>_. example_tm) example_writer, i)] \<and>
    readFileFromDir id 7 ''s/RemainMo/ccb'' [] w' = Some (- 122, [], w')"
  using exit_strands_file [OF example_one_open refl _ _ _, of "''s/RemainMo/ccb''" id 7 "[]"]
  by (auto simp: example_writer_def ShareWriteFileMgr_def kind_path_def kind_dir_def name_buf_def)

end
