(* ===== verification/CallbackList.thy ===== *)
theory CallbackList
  imports Prelude
begin

text \<open>
  The callback lists of \<^verbatim>\<open>src/redislibevent/async.c\<close> (\<open>redisCallbackList\<close>): singly linked
  cells on the heap with a head and a tail pointer. \<open>__redisPushCallback\<close> and
  \<open>__redisShiftCallback\<close> are modelled on the heap, and shown to be a first-in first-out list that
  touches no other cell.
\<close>

section \<open>Cells\<close>

text \<open>
  \<open>redisCallback\<close> without its \<open>next\<close> pointer; a function pointer is a number, \<^const>\<open>None\<close> is NULL. A
  heap cell is the callback with the \<open>next\<close> pointer.
\<close>

record redisCallback =
  fn :: "nat option"
  privdata :: nat
  pending_subs :: c_int

type_synonym cell = "redisCallback \<times> nat option"
type_synonym heap = "nat \<rightharpoonup> cell"

record redisCallbackList =
  head :: "nat option"
  tail :: "nat option"

definition REDIS_OK :: int where "REDIS_OK = 0"
definition REDIS_ERR :: int where "REDIS_ERR = - 1"
definition REDIS_ERR_OOM :: int where "REDIS_ERR_OOM = 5"

section \<open>Push and shift\<close>

text \<open>
  \<open>*p = \<dots>\<close> through a pointer; \<^const>\<open>None\<close> is an access to memory that is not allocated.
  The argument \<open>mem\<close> of the push is what \<open>malloc\<close> returns: no cell, or a fresh address with the
  content the memory happens to have.
\<close>

definition set_next :: "heap \<Rightarrow> nat \<Rightarrow> nat option \<Rightarrow> heap option" where
  "set_next h p q = (case h p of None \<Rightarrow> None | Some (cb, _) \<Rightarrow> Some (h(p \<mapsto> (cb, q))))"

definition redisPushCallback ::
  "(nat \<times> cell) option \<Rightarrow> redisCallbackList \<Rightarrow> redisCallback option \<Rightarrow> heap \<Rightarrow> (int \<times> redisCallbackList \<times> heap) option" where
  "redisPushCallback mem l source h =
     (case mem of
        None \<Rightarrow> Some (REDIS_ERR_OOM, l, h)
      | Some (cb, junk) \<Rightarrow>
          (let h = h(cb \<mapsto> (case source of Some src \<Rightarrow> (src, None) | None \<Rightarrow> junk));
               l = (if head l = None then l\<lparr>head := Some cb\<rparr> else l)
           in do {
             h \<leftarrow> (case tail l of None \<Rightarrow> Some h | Some t \<Rightarrow> set_next h t (Some cb));
             Some (REDIS_OK, l\<lparr>tail := Some cb\<rparr>, h)
           }))"

text \<open>The third component of the result is what \<open>*target\<close> receives, when it is written.\<close>

definition redisShiftCallback ::
  "redisCallbackList \<Rightarrow> heap \<Rightarrow> (int \<times> redisCallbackList \<times> redisCallback option \<times> heap) option" where
  "redisShiftCallback l h =
     (case head l of
        None \<Rightarrow> Some (REDIS_ERR, l, None, h)
      | Some cb \<Rightarrow>
          (case h cb of
             None \<Rightarrow> None
           | Some (c, nxt) \<Rightarrow>
               (let l = l\<lparr>head := nxt\<rparr>;
                    l = (if tail l = Some cb then l\<lparr>tail := None\<rparr> else l)
                in Some (REDIS_OK, l, Some c, h(cb := None)))))"

section \<open>The list in memory\<close>

fun linked :: "heap \<Rightarrow> nat list \<Rightarrow> bool" where
  "linked h [] \<longleftrightarrow> True"
| "linked h (a # as) \<longleftrightarrow> (\<exists>cb. h a = Some (cb, case as of [] \<Rightarrow> None | b # _ \<Rightarrow> Some b)) \<and> linked h as"

definition at :: "redisCallbackList \<Rightarrow> heap \<Rightarrow> nat list \<Rightarrow> bool" where
  "at l h as \<longleftrightarrow> distinct as \<and> linked h as \<and>
     head l = (case as of [] \<Rightarrow> None | a # _ \<Rightarrow> Some a) \<and>
     tail l = (if as = [] then None else Some (last as))"

definition content :: "heap \<Rightarrow> nat list \<Rightarrow> redisCallback list" where
  "content h as = map (\<lambda>a. fst (the (h a))) as"

text \<open>The callbacks of a list, read by following the pointers from its head (at most \<open>n\<close> cells).\<close>

fun walk :: "nat \<Rightarrow> heap \<Rightarrow> nat option \<Rightarrow> redisCallback list" where
  "walk 0 h p = []"
| "walk (Suc n) h p = (case p of None \<Rightarrow> [] | Some a \<Rightarrow>
     (case h a of None \<Rightarrow> [] | Some (cb, nxt) \<Rightarrow> cb # walk n h nxt))"

lemma linked_cong: "(\<And>a. a \<in> set as \<Longrightarrow> h' a = h a) \<Longrightarrow> linked h' as = linked h as"
  by (induction as) auto

lemma linked_dom: "linked h as \<Longrightarrow> a \<in> set as \<Longrightarrow> \<exists>c. h a = Some c"
  by (induction as) auto

lemma content_cong: "(\<And>a. a \<in> set as \<Longrightarrow> h' a = h a) \<Longrightarrow> content h' as = content h as"
  by (auto simp: content_def)

lemma walk_linked:
  "linked h as \<Longrightarrow> length as \<le> n \<Longrightarrow> walk n h (case as of [] \<Rightarrow> None | a # _ \<Rightarrow> Some a) = content h as"
proof (induction as arbitrary: n)
  case Nil
  then show ?case by (cases n) (auto simp: content_def)
next
  case (Cons a as)
  then show ?case by (cases n) (auto simp: content_def)
qed

lemma linked_snoc:
  "linked h (as @ [t]) \<Longrightarrow> distinct (as @ [t]) \<Longrightarrow> b \<notin> set (as @ [t]) \<Longrightarrow> h t = Some (c, None) \<Longrightarrow>
   linked (h(b \<mapsto> (src, None), t \<mapsto> (c, Some b))) (as @ [t, b])"
proof (induction as)
  case (Cons a as)
  then show ?case by (cases as) auto
qed auto

text \<open>A push onto a list in memory appends a cell; it changes only the new cell and the old last one.\<close>

lemma push_ok:
  assumes "at l h as" and "cb \<notin> dom h"
  shows "\<exists>l' h'. redisPushCallback (Some (cb, junk)) l (Some src) h = Some (REDIS_OK, l', h') \<and>
    at l' h' (as @ [cb]) \<and> content h' (as @ [cb]) = content h as @ [src] \<and>
    (\<forall>x. x \<noteq> cb \<longrightarrow> x \<notin> set as \<longrightarrow> h' x = h x) \<and> dom h' = insert cb (dom h)"
proof (cases as rule: rev_cases)
  case Nil
  then show ?thesis using assms by (auto simp: redisPushCallback_def at_def content_def)
next
  case (snoc bs t)
  with assms have lk: "linked h (bs @ [t])" "distinct (bs @ [t])" and cb: "cb \<notin> set (bs @ [t])"
    using linked_dom [of h as] by (auto simp: at_def)
  have "linked h (xs @ [t]) \<Longrightarrow> \<exists>c. h t = Some (c, None)" for xs by (induction xs) auto
  then obtain c where t: "h t = Some (c, None)" using lk by blast
  have hd: "(case bs @ [t] of [] \<Rightarrow> None | a # _ \<Rightarrow> Some a) \<noteq> None" by (cases bs) auto
  have hd': "(case bs @ [t, cb] of [] \<Rightarrow> None | a # _ \<Rightarrow> Some a) = (case bs @ [t] of [] \<Rightarrow> None | a # _ \<Rightarrow> Some a)"
    by (cases bs) auto
  have cont: "content (h(cb \<mapsto> (src, None), t \<mapsto> (c, Some cb))) (bs @ [t, cb]) = content h (bs @ [t]) @ [src]"
    using cb lk(2) t by (auto simp: content_def)
  show ?thesis
    using assms snoc linked_snoc [OF lk cb t, of src] t cb lk(2) hd hd' cont
    by (auto simp: redisPushCallback_def at_def set_next_def)
qed

lemma shift_empty: "at l h [] \<Longrightarrow> redisShiftCallback l h = Some (REDIS_ERR, l, None, h)"
  by (simp add: at_def redisShiftCallback_def)

lemma shift_ok:
  assumes "at l h (a # as)"
  shows "\<exists>l'. redisShiftCallback l h = Some (REDIS_OK, l', Some (fst (the (h a))), h(a := None)) \<and>
    at l' (h(a := None)) as \<and> content (h(a := None)) as = content h as"
proof -
  have lk: "linked (h(a := None)) as"
    using assms by (subst linked_cong [of as _ h]) (auto simp: at_def)
  have ct: "content (h(a := None)) as = content h as"
    using assms by (intro content_cong) (auto simp: at_def)
  have "as \<noteq> [] \<Longrightarrow> last as \<noteq> a" using assms by (auto simp: at_def)
  then show ?thesis using assms lk ct
    by (cases as) (auto simp: at_def redisShiftCallback_def)
qed

section \<open>The list as a queue\<close>

text \<open>
  A list together with its memory, where \<open>malloc\<close> hands out the addresses from \<open>brk\<close> on, is an instance of
  the queue contract.
\<close>

record list_mem =
  brk :: nat
  cblist :: redisCallbackList
  mem :: heap

definition list_new :: list_mem where
  "list_new = \<lparr>brk = 0, cblist = \<lparr>head = None, tail = None\<rparr>, mem = Map.empty\<rparr>"

definition list_push :: "redisCallback \<Rightarrow> list_mem \<Rightarrow> list_mem" where
  "list_push cb s =
     (case redisPushCallback (Some (brk s, cb, None)) (cblist s) (Some cb) (mem s) of
        Some (_, l, h) \<Rightarrow> s\<lparr>brk := Suc (brk s), cblist := l, mem := h\<rparr>
      | None \<Rightarrow> s)"

definition list_shift :: "list_mem \<Rightarrow> (redisCallback \<times> list_mem) option" where
  "list_shift s =
     (case redisShiftCallback (cblist s) (mem s) of
        Some (_, l, Some cb, h) \<Rightarrow> Some (cb, s\<lparr>cblist := l, mem := h\<rparr>)
      | _ \<Rightarrow> None)"

definition list_items :: "list_mem \<Rightarrow> redisCallback list" where
  "list_items s = walk (brk s) (mem s) (head (cblist s))"

definition list_ok :: "list_mem \<Rightarrow> bool" where
  "list_ok s \<longleftrightarrow> (\<exists>as. at (cblist s) (mem s) as) \<and> (\<forall>a \<in> dom (mem s). a < brk s)"

lemma list_items_content:
  assumes "at (cblist s) (mem s) as" and "\<forall>a \<in> dom (mem s). a < brk s"
  shows "list_items s = content (mem s) as"
proof -
  have "set as \<subseteq> {..<brk s}" using assms linked_dom by (fastforce simp: at_def)
  then have "card (set as) \<le> brk s" by (metis card_lessThan card_mono finite_lessThan)
  then have "length as \<le> brk s" using assms(1) by (simp add: at_def distinct_card)
  then show ?thesis using assms walk_linked [of "mem s" as "brk s"] by (simp add: at_def list_items_def)
qed

lemma list_push_step:
  assumes "list_ok s"
  shows "list_items (list_push cb s) = list_items s @ [cb] \<and> list_ok (list_push cb s)"
proof -
  from assms obtain as where as: "at (cblist s) (mem s) as" and b: "\<forall>a \<in> dom (mem s). a < brk s"
    by (auto simp: list_ok_def)
  then have "brk s \<notin> dom (mem s)" by blast
  then obtain l' h' where p: "redisPushCallback (Some (brk s, cb, None)) (cblist s) (Some cb) (mem s) = Some (REDIS_OK, l', h')"
    and as': "at l' h' (as @ [brk s])" and c: "content h' (as @ [brk s]) = content (mem s) as @ [cb]"
    and d: "dom h' = insert (brk s) (dom (mem s))"
    using push_ok [OF as, of "brk s" "(cb, None)" cb] by blast
  have r: "list_push cb s = s\<lparr>brk := Suc (brk s), cblist := l', mem := h'\<rparr>" by (simp add: list_push_def p)
  have b': "\<forall>a \<in> dom (mem (list_push cb s)). a < brk (list_push cb s)" using b d by (simp add: r less_SucI)
  then show ?thesis
    using list_items_content [OF as b] list_items_content [of "list_push cb s" "as @ [brk s]"] as' c
    by (auto simp: r list_ok_def)
qed

lemma list_shift_step:
  assumes "list_ok s"
  shows "(list_items s = [] \<longrightarrow> list_shift s = None) \<and>
    (\<forall>x xs. list_items s = x # xs \<longrightarrow> (\<exists>s'. list_shift s = Some (x, s') \<and> list_items s' = xs \<and> list_ok s'))"
proof -
  from assms obtain as where as: "at (cblist s) (mem s) as" and b: "\<forall>a \<in> dom (mem s). a < brk s"
    by (auto simp: list_ok_def)
  show ?thesis
  proof (cases as)
    case Nil
    then show ?thesis using shift_empty [of "cblist s" "mem s"] list_items_content [OF as b] as
      by (simp add: list_shift_def content_def)
  next
    case (Cons a as')
    obtain l' where p: "redisShiftCallback (cblist s) (mem s) = Some (REDIS_OK, l', Some (fst (the (mem s a))), (mem s)(a := None))"
      and as': "at l' ((mem s)(a := None)) as'" and c: "content ((mem s)(a := None)) as' = content (mem s) as'"
      using shift_ok [of "cblist s" "mem s" a as'] as Cons by blast
    define s' where "s' = s\<lparr>cblist := l', mem := (mem s)(a := None)\<rparr>"
    have "list_items s' = content (mem s) as'" "list_ok s'"
      using list_items_content [of s' as'] as' c b by (auto simp: s'_def list_ok_def)
    moreover have "list_shift s = Some (fst (the (mem s a)), s')" by (simp add: list_shift_def p s'_def)
    ultimately show ?thesis using list_items_content [OF as b] Cons by (auto simp: content_def)
  qed
qed

interpretation cbq: fifo list_push list_shift list_items list_ok
  using list_push_step list_shift_step by unfold_locales blast+

section \<open>Properties\<close>

text \<open>C25: The heap operations implement a list. On a well-formed list in memory holding the callbacks \<open>cbs\<close>,
  a push with memory available makes it hold \<open>cbs\<close> followed by the pushed callback, a push without memory
  returns REDIS_ERR_OOM and changes nothing, a shift returns the first of \<open>cbs\<close> and frees its cell (or
  returns REDIS_ERR when there is none); neither reads or writes memory that is not allocated, and no cell
  outside the list changes.\<close>

theorem push_shift_refine:
  assumes "at l h as" and "cb \<notin> dom h"
  shows "(\<exists>l' h'. redisPushCallback (Some (cb, junk)) l (Some src) h = Some (REDIS_OK, l', h') \<and>
      at l' h' (as @ [cb]) \<and> content h' (as @ [cb]) = content h as @ [src] \<and>
      (\<forall>x. x \<noteq> cb \<longrightarrow> x \<notin> set as \<longrightarrow> h' x = h x)) \<and>
    redisPushCallback None l (Some src) h = Some (REDIS_ERR_OOM, l, h) \<and>
    (case as of
       [] \<Rightarrow> redisShiftCallback l h = Some (REDIS_ERR, l, None, h)
     | a # rest \<Rightarrow> (\<exists>l' c. redisShiftCallback l h = Some (REDIS_OK, l', Some c, h(a := None)) \<and>
         at l' (h(a := None)) rest \<and> content h as = c # content (h(a := None)) rest))"
proof (intro conjI)
  show "\<exists>l' h'. redisPushCallback (Some (cb, junk)) l (Some src) h = Some (REDIS_OK, l', h') \<and>
      at l' h' (as @ [cb]) \<and> content h' (as @ [cb]) = content h as @ [src] \<and>
      (\<forall>x. x \<noteq> cb \<longrightarrow> x \<notin> set as \<longrightarrow> h' x = h x)"
    using push_ok [OF assms, of junk src] by blast
  show "redisPushCallback None l (Some src) h = Some (REDIS_ERR_OOM, l, h)"
    by (simp add: redisPushCallback_def)
  show "case as of
       [] \<Rightarrow> redisShiftCallback l h = Some (REDIS_ERR, l, None, h)
     | a # rest \<Rightarrow> (\<exists>l' c. redisShiftCallback l h = Some (REDIS_OK, l', Some c, h(a := None)) \<and>
         at l' (h(a := None)) rest \<and> content h as = c # content (h(a := None)) rest)"
    using assms(1) shift_empty [of l h] shift_ok [of l h] by (cases as) (force simp: content_def)+
qed

theorem push_shift_refine_witness:
  "\<exists>l' h'. redisPushCallback (Some (7, (\<lparr>fn = None, privdata = 0, pending_subs = 0\<rparr>, None))) \<lparr>head = None, tail = None\<rparr>
      (Some \<lparr>fn = Some 1, privdata = 2, pending_subs = 1\<rparr>) Map.empty = Some (REDIS_OK, l', h') \<and>
    content h' [7] = [\<lparr>fn = Some 1, privdata = 2, pending_subs = 1\<rparr>]"
  using push_shift_refine [of "\<lparr>head = None, tail = None\<rparr>" Map.empty "[]" 7
      "(\<lparr>fn = None, privdata = 0, pending_subs = 0\<rparr>, None)" "\<lparr>fn = Some 1, privdata = 2, pending_subs = 1\<rparr>"]
  by (auto simp: at_def content_def)

text \<open>Whatever sequence of pushes and shifts is run on a callback list in memory, the callbacks come out in the
  order they were pushed, none lost, none twice: what was pushed is what was shifted followed by what is still in
  the list.\<close>

theorem callback_list_fifo:
  "case fifo_run list_push list_shift ops list_new of (out, s) \<Rightarrow> enqs ops = out @ list_items s"
proof -
  have at0: "at (cblist list_new) (mem list_new) []" by (simp add: at_def list_new_def)
  have "list_ok list_new" using at0 by (auto simp: list_ok_def list_new_def)
  moreover have "list_items list_new = []" by (simp add: list_items_def list_new_def)
  ultimately show ?thesis using cbq.run_conserves [of list_new ops] by (auto split: prod.split)
qed

end
