(* ===== verification/AsyncRedis.thy ===== *)
theory AsyncRedis
  imports CallbackList CText
begin

text \<open>
  The asynchronous Redis client of \<^verbatim>\<open>src/redislibevent/async.c\<close>: the context, the
  commands and their callbacks, subscriptions, disconnecting and freeing, and the handlers that
  the event loop calls. One definition per C function; a name that starts with two underscores in the
  source has the suffix \<open>_impl\<close> here where a public function has the same name.

  What the file takes from elsewhere is an argument: the dictionary (\<^verbatim>\<open>dict.c\<close>) and the
  application's callback functions are fields of \<open>env\<close>; the result of each call into hiredis (socket
  check, read, write, parsed replies) is an argument of the handler that makes the call; the outcomes of
  \<open>malloc\<close> are a list in the context.
\<close>

section \<open>Data\<close>

datatype redisReply =
    ReplyString string
  | ReplyArray "redisReply list"
  | ReplyInteger int
  | ReplyNil
  | ReplyStatus string
  | ReplyError string

datatype event =
    EvReply nat "redisReply option" nat     \<comment> \<open>a command callback runs: function, reply, privdata\<close>
  | EvConnect nat int
  | EvDisconnect nat int
  | EvAddRead | EvDelRead | EvAddWrite | EvDelWrite | EvCleanup
  | EvAppend string                         \<comment> \<open>\<open>__redisAppendCommand\<close>\<close>
  | EvFreeReply redisReply
  | EvFreed                                 \<comment> \<open>\<open>redisFree\<close>\<close>

text \<open>What the language leaves undefined or turns into an abort.\<close>

datatype fault = AssertFail | UseAfterFree | OutOfBounds | NullDeref | UninitRead | SelfDeadlock

text \<open>What application code can do with the context from inside a callback.\<close>

datatype api_call =
    ApiCommand "nat option" nat string      \<comment> \<open>callback function, privdata, formatted command\<close>
  | ApiDisconnect
  | ApiFree

text \<open>
  The bits of \<open>c->flags\<close>, by their number (\<^verbatim>\<open>REDIS_CONNECTED 0x2\<close>, and so on).
\<close>

definition REDIS_CONNECTED :: nat where "REDIS_CONNECTED = 1"
definition REDIS_DISCONNECTING :: nat where "REDIS_DISCONNECTING = 2"
definition REDIS_FREEING :: nat where "REDIS_FREEING = 3"
definition REDIS_IN_CALLBACK :: nat where "REDIS_IN_CALLBACK = 4"
definition REDIS_SUBSCRIBED :: nat where "REDIS_SUBSCRIBED = 5"
definition REDIS_MONITORING :: nat where "REDIS_MONITORING = 6"

definition REDIS_ERR_OTHER :: c_int where "REDIS_ERR_OTHER = 2"

text \<open>
  \<open>redisAsyncContext\<close> with the fields of its \<open>redisContext c\<close> that are used. \<open>freed\<close> and
  \<open>dicts_live\<close> record which memory is still allocated, \<open>wlocked\<close> is the state of \<open>wmutex\<close>, \<open>mallocs\<close>
  the outcomes of the next allocations (success when the list is used up), \<open>events\<close> what happened.
\<close>

record 'd redisAsyncContext =
  flags :: c_int
  c_err :: c_int
  c_errstr :: string
  obuf :: string
  err :: c_int
  errstr :: string
  addRead :: bool
  delRead :: bool
  addWrite :: bool
  delWrite :: bool
  cleanup :: bool
  onConnect :: "nat option"
  onDisconnect :: "nat option"
  replies :: "redisCallback list"
  invalid :: "redisCallback list"
  channels :: 'd
  patterns :: 'd
  freed :: bool
  dicts_live :: bool
  wlocked :: bool
  mallocs :: "bool list"
  events :: "event list"

record 'd env =
  dictCreate :: 'd
  dictFind :: "'d \<Rightarrow> string \<Rightarrow> redisCallback option"
  dictReplace :: "'d \<Rightarrow> string \<Rightarrow> redisCallback \<Rightarrow> 'd"
  dictDelete :: "'d \<Rightarrow> string \<Rightarrow> 'd"
  dictSize :: "'d \<Rightarrow> nat"
  dictEntries :: "'d \<Rightarrow> (string \<times> redisCallback) list"   \<comment> \<open>in the order of the iterator\<close>
  appendCommand :: "string \<Rightarrow> string \<Rightarrow> string"            \<comment> \<open>the output buffer after \<open>__redisAppendCommand\<close>\<close>
  reply_fn :: "event list \<Rightarrow> nat \<Rightarrow> redisReply option \<Rightarrow> nat \<Rightarrow> api_call list"
  connect_fn :: "event list \<Rightarrow> nat \<Rightarrow> int \<Rightarrow> api_call list"
  disconnect_fn :: "event list \<Rightarrow> nat \<Rightarrow> int \<Rightarrow> api_call list"

text \<open>Keys of the dictionaries are compared by length and bytes.\<close>

definition callbackKeyCompare :: "string \<Rightarrow> string \<Rightarrow> bool" where
  "callbackKeyCompare key1 key2 =
     (if length key1 \<noteq> length key2 then False else take (length key1) key1 = take (length key1) key2)"

text \<open>\<open>callbackValDup\<close> copies into memory it does not check for NULL.\<close>

definition callbackValDup :: "bool list \<Rightarrow> redisCallback \<Rightarrow> fault + (redisCallback \<times> bool list)" where
  "callbackValDup ms src =
     (case ms of False # _ \<Rightarrow> Inl NullDeref | True # ms' \<Rightarrow> Inr (src, ms') | [] \<Rightarrow> Inr (src, []))"

definition has :: "'d redisAsyncContext \<Rightarrow> nat \<Rightarrow> bool" where
  "has ac k = bit (flags ac) k"

definition set_flag :: "nat \<Rightarrow> 'd redisAsyncContext \<Rightarrow> 'd redisAsyncContext" where
  "set_flag k ac = ac\<lparr>flags := flags ac OR 2 ^ k\<rparr>"

definition clear_flag :: "nat \<Rightarrow> 'd redisAsyncContext \<Rightarrow> 'd redisAsyncContext" where
  "clear_flag k ac = ac\<lparr>flags := flags ac AND NOT (2 ^ k)\<rparr>"

definition log :: "event \<Rightarrow> 'd redisAsyncContext \<Rightarrow> 'd redisAsyncContext" where
  "log e ac = ac\<lparr>events := events ac @ [e]\<rparr>"

text \<open>The macros \<open>_EL_ADD_READ\<close> and so on: the hook is called when it is set.\<close>

definition EL_ADD_READ :: "'d redisAsyncContext \<Rightarrow> 'd redisAsyncContext" where
  "EL_ADD_READ ac = (if addRead ac then log EvAddRead ac else ac)"

definition EL_ADD_WRITE :: "'d redisAsyncContext \<Rightarrow> 'd redisAsyncContext" where
  "EL_ADD_WRITE ac = (if addWrite ac then log EvAddWrite ac else ac)"

definition EL_DEL_WRITE :: "'d redisAsyncContext \<Rightarrow> 'd redisAsyncContext" where
  "EL_DEL_WRITE ac = (if delWrite ac then log EvDelWrite ac else ac)"

definition EL_CLEANUP :: "'d redisAsyncContext \<Rightarrow> 'd redisAsyncContext" where
  "EL_CLEANUP ac = (if cleanup ac then log EvCleanup ac else ac)"

section \<open>Creating a context\<close>

text \<open>
  What the connect functions of hiredis return: NULL, or a context of which flags, error and error text
  matter here.
\<close>

record redisContext =
  rc_flags :: c_int
  rc_err :: c_int
  rc_errstr :: string

definition redisAsyncInitialize :: "'d env \<Rightarrow> bool \<Rightarrow> redisContext \<Rightarrow> 'd redisAsyncContext option" where
  "redisAsyncInitialize E realloc_ok c =
     (if \<not> realloc_ok then None
      else Some (clear_flag REDIS_CONNECTED
        \<lparr>flags = rc_flags c, c_err = rc_err c, c_errstr = rc_errstr c, obuf = [], err = 0, errstr = [],
         addRead = False, delRead = False, addWrite = False, delWrite = False, cleanup = False,
         onConnect = None, onDisconnect = None, replies = [], invalid = [],
         channels = dictCreate E, patterns = dictCreate E, freed = False, dicts_live = True, wlocked = False,
         mallocs = [], events = []\<rparr>))"

definition redisAsyncCopyError :: "'d redisAsyncContext \<Rightarrow> 'd redisAsyncContext" where
  "redisAsyncCopyError ac = ac\<lparr>err := c_err ac, errstr := c_errstr ac\<rparr>"

definition redisAsyncConnect :: "'d env \<Rightarrow> bool \<Rightarrow> redisContext option \<Rightarrow> 'd redisAsyncContext option" where
  "redisAsyncConnect E realloc_ok c =
     (case c of None \<Rightarrow> None
      | Some c \<Rightarrow> (case redisAsyncInitialize E realloc_ok c of
                     None \<Rightarrow> None
                   | Some ac \<Rightarrow> Some (redisAsyncCopyError ac)))"

text \<open>
  The two \<open>Bind\<close> variants do not check the context they get: \<open>realloc(NULL, n)\<close> allocates, and the
  flags of uninitialised memory are read.
\<close>

definition redisAsyncConnectBind :: "'d env \<Rightarrow> bool \<Rightarrow> redisContext option \<Rightarrow> fault + 'd redisAsyncContext option" where
  "redisAsyncConnectBind E realloc_ok c =
     (case c of
        None \<Rightarrow> if realloc_ok then Inl UninitRead else Inr None
      | Some c \<Rightarrow> Inr (map_option redisAsyncCopyError (redisAsyncInitialize E realloc_ok c)))"

definition redisAsyncConnectBindWithReuse :: "'d env \<Rightarrow> bool \<Rightarrow> redisContext option \<Rightarrow> fault + 'd redisAsyncContext option" where
  "redisAsyncConnectBindWithReuse E realloc_ok c =
     (case c of
        None \<Rightarrow> if realloc_ok then Inl UninitRead else Inr None
      | Some c \<Rightarrow> Inr (map_option redisAsyncCopyError (redisAsyncInitialize E realloc_ok c)))"

definition redisAsyncConnectUnix :: "'d env \<Rightarrow> bool \<Rightarrow> redisContext option \<Rightarrow> 'd redisAsyncContext option" where
  "redisAsyncConnectUnix E realloc_ok c =
     (case c of None \<Rightarrow> None
      | Some c \<Rightarrow> (case redisAsyncInitialize E realloc_ok c of
                     None \<Rightarrow> None
                   | Some ac \<Rightarrow> Some (redisAsyncCopyError ac)))"

definition redisAsyncSetConnectCallback :: "nat option \<Rightarrow> 'd redisAsyncContext \<Rightarrow> int \<times> 'd redisAsyncContext" where
  "redisAsyncSetConnectCallback f ac =
     (if onConnect ac = None then (REDIS_OK, EL_ADD_WRITE (ac\<lparr>onConnect := f\<rparr>)) else (REDIS_ERR, ac))"

definition redisAsyncSetDisconnectCallback :: "nat option \<Rightarrow> 'd redisAsyncContext \<Rightarrow> int \<times> 'd redisAsyncContext" where
  "redisAsyncSetDisconnectCallback f ac =
     (if onDisconnect ac = None then (REDIS_OK, ac\<lparr>onDisconnect := f\<rparr>) else (REDIS_ERR, ac))"

section \<open>Commands\<close>

text \<open>
  The callback lists by their contents: what the push and the shift on the heap do to them is
  proved in the theory of the lists. A push consumes one outcome of \<open>malloc\<close>.
\<close>

definition push_cb :: "bool list \<Rightarrow> redisCallback list \<Rightarrow> redisCallback \<Rightarrow> int \<times> bool list \<times> redisCallback list" where
  "push_cb ms l cb =
     (case ms of False # ms' \<Rightarrow> (REDIS_ERR_OOM, ms', l) | True # ms' \<Rightarrow> (REDIS_OK, ms', l @ [cb])
      | [] \<Rightarrow> (REDIS_OK, [], l @ [cb]))"

text \<open>The returned code is ignored at every call.\<close>

definition push_replies :: "redisCallback \<Rightarrow> 'd redisAsyncContext \<Rightarrow> 'd redisAsyncContext" where
  "push_replies cb ac = (let (_, ms, l) = push_cb (mallocs ac) (replies ac) cb in ac\<lparr>mallocs := ms, replies := l\<rparr>)"

definition push_invalid :: "redisCallback \<Rightarrow> 'd redisAsyncContext \<Rightarrow> 'd redisAsyncContext" where
  "push_invalid cb ac = (let (_, ms, l) = push_cb (mallocs ac) (invalid ac) cb in ac\<lparr>mallocs := ms, invalid := l\<rparr>)"

definition shift_replies :: "'d redisAsyncContext \<Rightarrow> (redisCallback \<times> 'd redisAsyncContext) option" where
  "shift_replies ac = (case replies ac of [] \<Rightarrow> None | cb # l \<Rightarrow> Some (cb, ac\<lparr>replies := l\<rparr>))"

definition shift_invalid :: "'d redisAsyncContext \<Rightarrow> (redisCallback \<times> 'd redisAsyncContext) option" where
  "shift_invalid ac = (case invalid ac of [] \<Rightarrow> None | cb # l \<Rightarrow> Some (cb, ac\<lparr>invalid := l\<rparr>))"

text \<open>\<open>tolower\<close>, \<open>strncasecmp(s, t, strlen(t)) == 0\<close> and \<open>strcasecmp(s, t) == 0\<close> for a lower-case \<open>t\<close>, and \<open>strchr\<close>.\<close>

definition tolower :: "char \<Rightarrow> char" where
  "tolower c = (if 65 \<le> code c \<and> code c \<le> 90 then char_of (code c + 32) else c)"

definition starts_nocase :: "string \<Rightarrow> string \<Rightarrow> bool" where
  "starts_nocase s t \<longleftrightarrow> map tolower (take (length t) s) = t"

definition equal_nocase :: "string \<Rightarrow> string \<Rightarrow> bool" where
  "equal_nocase s t \<longleftrightarrow> map tolower (c_str s) = t"

definition strchr :: "string \<Rightarrow> char \<Rightarrow> c_ptr" where
  "strchr p c = (if c \<in> set (c_str p) then Some (dropWhile (\<lambda>x. x \<noteq> c) p) else None)"

text \<open>
  \<open>nextArgument\<close>: pointers into the command are its suffixes; the result is the argument's text, its length
  and the pointer behind it. A pointer outside the command is a fault.
\<close>

definition nextArgument :: "string \<Rightarrow> fault + (string \<times> nat \<times> string) option" where
  "nextArgument start =
     (case (if ptr_char start \<noteq> CHR ''$'' then strchr start CHR ''$'' else Some start) of
        None \<Rightarrow> Inr None
      | Some p \<Rightarrow>
          (let len = sint (word_of_int (strtol (tl p)) :: c_int) in
           case strchr p CR of
             None \<Rightarrow> Inl AssertFail
           | Some q \<Rightarrow>
               if len < 0 \<or> length q < nat len + 4 then Inl OutOfBounds
               else Inr (Some (drop 2 q, nat len, drop (nat len + 4) q))))"

lemma nextArgument_shorter:
  assumes "nextArgument p = Inr (Some (astr, alen, p'))"
  shows "length p' < length p"
proof -
  have d: "strchr p c = Some q \<Longrightarrow> length q \<le> length p" for p c q
    by (auto simp: strchr_def length_dropWhile_le split: if_splits)
  show ?thesis
    using assms d [of p] d
    by (fastforce simp: nextArgument_def Let_def split: if_splits option.splits)
qed

text \<open>
  The loop over the channels of a (P)SUBSCRIBE. As in the source, \<open>cb\<close> is one variable for all of them.
\<close>

function sub_loop :: "'d env \<Rightarrow> string \<Rightarrow> redisCallback \<Rightarrow> 'd \<Rightarrow> bool list \<Rightarrow> fault + ('d \<times> bool list)" where
  "sub_loop E p cb cbdict ms =
     (case nextArgument p of
        Inl f \<Rightarrow> Inl f
      | Inr None \<Rightarrow> Inr (cbdict, ms)
      | Inr (Some (astr, alen, p')) \<Rightarrow>
          (let sname = take alen astr;
               cb = (case dictFind E cbdict sname of
                       Some existcb \<Rightarrow> cb\<lparr>pending_subs := pending_subs existcb + 1\<rparr>
                     | None \<Rightarrow> cb)
           in case callbackValDup ms cb of
                Inl f \<Rightarrow> Inl f
              | Inr (dup, ms) \<Rightarrow> sub_loop E p' cb (dictReplace E cbdict sname dup) ms))"
  by pat_completeness auto
termination
  by (relation "measure (\<lambda>(E, p, cb, d, ms). length p)") (auto dest: nextArgument_shorter)

declare sub_loop.simps [simp del]

definition append_and_schedule :: "'d env \<Rightarrow> string \<Rightarrow> 'd redisAsyncContext \<Rightarrow> fault + (int \<times> 'd redisAsyncContext)" where
  "append_and_schedule E cmd ac =
     (if wlocked ac then Inl SelfDeadlock
      else Inr (REDIS_OK, EL_ADD_WRITE (log (EvAppend cmd) (ac\<lparr>obuf := appendCommand E (obuf ac) cmd\<rparr>))))"

definition redisAsyncCommand_impl ::
  "'d env \<Rightarrow> nat option \<Rightarrow> nat \<Rightarrow> string \<Rightarrow> 'd redisAsyncContext \<Rightarrow> fault + (int \<times> 'd redisAsyncContext)" where
  "redisAsyncCommand_impl E f pd cmd ac =
     (if has ac REDIS_DISCONNECTING \<or> has ac REDIS_FREEING then Inr (REDIS_ERR, ac)
      else
        (let cb = \<lparr>fn = f, privdata = pd, pending_subs = 1\<rparr> in
         case nextArgument cmd of
           Inl e \<Rightarrow> Inl e
         | Inr None \<Rightarrow> Inl AssertFail
         | Inr (Some (cstr, clen, p)) \<Rightarrow>
             (let hasnext = (ptr_char p = CHR ''$'');
                  pvariant = (tolower (ptr_char cstr) = CHR ''p'');
                  cstr = (if pvariant then tl cstr else cstr)
              in if hasnext \<and> starts_nocase cstr (''subscribe'' @ [CR, LF]) then
                   (if \<not> dicts_live ac then Inl UseAfterFree
                    else (case sub_loop E p cb (if pvariant then patterns ac else channels ac) (mallocs ac) of
                            Inl e \<Rightarrow> Inl e
                          | Inr (d, ms) \<Rightarrow>
                              append_and_schedule E cmd
                                (let ac = set_flag REDIS_SUBSCRIBED ac\<lparr>mallocs := ms\<rparr>
                                 in if pvariant then ac\<lparr>patterns := d\<rparr> else ac\<lparr>channels := d\<rparr>)))
                 else if starts_nocase cstr (''unsubscribe'' @ [CR, LF]) then
                   (if \<not> has ac REDIS_SUBSCRIBED then Inr (REDIS_ERR, ac) else append_and_schedule E cmd ac)
                 else if starts_nocase cstr (''monitor'' @ [CR, LF]) then
                   append_and_schedule E cmd (push_replies cb (set_flag REDIS_MONITORING ac))
                 else if has ac REDIS_SUBSCRIBED then
                   append_and_schedule E cmd (push_invalid cb ac)
                 else append_and_schedule E cmd (push_replies cb ac))))"

text \<open>
  The public variants: \<open>cmd\<close> is what the formatting function of hiredis produced, \<^const>\<open>None\<close> its negative
  length.
\<close>

definition redisvAsyncCommand where
  "redisvAsyncCommand E f pd cmd ac =
     (case cmd of None \<Rightarrow> Inr (REDIS_ERR, ac) | Some cmd \<Rightarrow> redisAsyncCommand_impl E f pd cmd ac)"

definition redisAsyncCommand where
  "redisAsyncCommand E f pd cmd ac = redisvAsyncCommand E f pd cmd ac"

definition redisAsyncCommandArgv where
  "redisAsyncCommandArgv E f pd cmd ac =
     (case cmd of None \<Rightarrow> Inr (REDIS_ERR, ac) | Some cmd \<Rightarrow> redisAsyncCommand_impl E f pd cmd ac)"

definition redisAsyncFormattedCommand where
  "redisAsyncFormattedCommand E f pd cmd ac = redisAsyncCommand_impl E f pd cmd ac"

section \<open>Callbacks, disconnecting, freeing\<close>

text \<open>
  A call of the application from inside a command callback, where REDIS_IN_CALLBACK is set:
  \<open>redisAsyncDisconnect\<close> and \<open>redisAsyncFree\<close> then only set their flag (\<open>redisAsyncDisconnect_in_callback\<close>
  and \<open>redisAsyncFree_in_callback\<close> below say so of the complete functions).
\<close>

fun api_in_callback :: "'d env \<Rightarrow> api_call \<Rightarrow> 'd redisAsyncContext \<Rightarrow> fault + 'd redisAsyncContext" where
  "api_in_callback E (ApiCommand f pd cmd) ac =
     (case redisAsyncCommand_impl E f pd cmd ac of Inl e \<Rightarrow> Inl e | Inr (_, ac) \<Rightarrow> Inr ac)"
| "api_in_callback E ApiDisconnect ac = Inr (set_flag REDIS_DISCONNECTING ac)"
| "api_in_callback E ApiFree ac = Inr (set_flag REDIS_FREEING ac)"

fun calls_in_callback :: "'d env \<Rightarrow> api_call list \<Rightarrow> 'd redisAsyncContext \<Rightarrow> fault + 'd redisAsyncContext" where
  "calls_in_callback E [] ac = Inr ac"
| "calls_in_callback E (a # as) ac =
     (case api_in_callback E a ac of Inl e \<Rightarrow> Inl e | Inr ac \<Rightarrow> calls_in_callback E as ac)"

definition redisRunCallback ::
  "'d env \<Rightarrow> redisCallback \<Rightarrow> redisReply option \<Rightarrow> 'd redisAsyncContext \<Rightarrow> fault + 'd redisAsyncContext" where
  "redisRunCallback E cb reply ac =
     (case fn cb of
        None \<Rightarrow> Inr ac
      | Some f \<Rightarrow>
          (let ac = log (EvReply f reply (privdata cb)) (set_flag REDIS_IN_CALLBACK ac)
           in case calls_in_callback E (reply_fn E (events ac) f reply (privdata cb)) ac of
                Inl e \<Rightarrow> Inl e
              | Inr ac \<Rightarrow> Inr (clear_flag REDIS_IN_CALLBACK ac)))"

text \<open>
  The first two loops of \<open>__redisAsyncFree\<close>. Callbacks may push onto the list that is being emptied, so the loop
  need not end; \<^const>\<open>None\<close> is the run that does not.
\<close>

partial_function (option) drain_replies ::
  "'d env \<Rightarrow> 'd redisAsyncContext \<Rightarrow> (fault + 'd redisAsyncContext) option" where
  "drain_replies E ac =
     (case shift_replies ac of
        None \<Rightarrow> Some (Inr ac)
      | Some (cb, ac) \<Rightarrow>
          (case redisRunCallback E cb None ac of Inl e \<Rightarrow> Some (Inl e) | Inr ac \<Rightarrow> drain_replies E ac))"

partial_function (option) drain_invalid ::
  "'d env \<Rightarrow> 'd redisAsyncContext \<Rightarrow> (fault + 'd redisAsyncContext) option" where
  "drain_invalid E ac =
     (case shift_invalid ac of
        None \<Rightarrow> Some (Inr ac)
      | Some (cb, ac) \<Rightarrow>
          (case redisRunCallback E cb None ac of Inl e \<Rightarrow> Some (Inl e) | Inr ac \<Rightarrow> drain_invalid E ac))"

text \<open>The loop over the entries of a dictionary.\<close>

fun run_entries :: "'d env \<Rightarrow> (string \<times> redisCallback) list \<Rightarrow> 'd redisAsyncContext \<Rightarrow> fault + 'd redisAsyncContext" where
  "run_entries E [] ac = Inr ac"
| "run_entries E ((_, cb) # es) ac =
     (case redisRunCallback E cb None ac of Inl e \<Rightarrow> Inl e | Inr ac \<Rightarrow> run_entries E es ac)"

text \<open>
  A call of the application from the disconnect callback, which runs without REDIS_IN_CALLBACK after the
  dictionaries were released: freeing or disconnecting there enters \<open>__redisAsyncFree\<close> again, which reads them.
\<close>

fun calls_in_disconnect :: "'d env \<Rightarrow> api_call list \<Rightarrow> 'd redisAsyncContext \<Rightarrow> fault + 'd redisAsyncContext" where
  "calls_in_disconnect E [] ac = Inr ac"
| "calls_in_disconnect E (ApiCommand f pd cmd # as) ac =
     (case redisAsyncCommand_impl E f pd cmd ac of Inl e \<Rightarrow> Inl e | Inr (_, ac) \<Rightarrow> calls_in_disconnect E as ac)"
| "calls_in_disconnect E (ApiDisconnect # as) ac = Inl UseAfterFree"
| "calls_in_disconnect E (ApiFree # as) ac = Inl UseAfterFree"

definition run_onDisconnect :: "'d env \<Rightarrow> 'd redisAsyncContext \<Rightarrow> fault + 'd redisAsyncContext" where
  "run_onDisconnect E ac =
     (case onDisconnect ac of
        Some f \<Rightarrow>
          if has ac REDIS_CONNECTED then
            (let status = (if has ac REDIS_FREEING then REDIS_OK else if err ac = 0 then REDIS_OK else REDIS_ERR);
                 ac = log (EvDisconnect f status) ac
             in calls_in_disconnect E (disconnect_fn E (events ac) f status) ac)
          else Inr ac
      | None \<Rightarrow> Inr ac)"

definition redisAsyncFree_impl :: "'d env \<Rightarrow> 'd redisAsyncContext \<Rightarrow> (fault + 'd redisAsyncContext) option" where
  "redisAsyncFree_impl E ac =
     (case drain_replies E ac of
        None \<Rightarrow> None | Some (Inl e) \<Rightarrow> Some (Inl e)
      | Some (Inr ac) \<Rightarrow>
     (case drain_invalid E ac of
        None \<Rightarrow> None | Some (Inl e) \<Rightarrow> Some (Inl e)
      | Some (Inr ac) \<Rightarrow>
        (if \<not> dicts_live ac then Some (Inl UseAfterFree)
         else case run_entries E (dictEntries E (channels ac)) ac of
           Inl e \<Rightarrow> Some (Inl e)
         | Inr ac \<Rightarrow>
        (case run_entries E (dictEntries E (patterns ac)) ac of
           Inl e \<Rightarrow> Some (Inl e)
         | Inr ac \<Rightarrow>
        (case run_onDisconnect E (EL_CLEANUP (ac\<lparr>dicts_live := False\<rparr>)) of
           Inl e \<Rightarrow> Some (Inl e)
         | Inr ac \<Rightarrow> Some (Inr (log EvFreed (ac\<lparr>freed := True\<rparr>))))))))"

definition redisAsyncFree :: "'d env \<Rightarrow> 'd redisAsyncContext \<Rightarrow> (fault + 'd redisAsyncContext) option" where
  "redisAsyncFree E ac =
     (if freed ac then Some (Inl UseAfterFree)
      else let ac = set_flag REDIS_FREEING ac
           in if has ac REDIS_IN_CALLBACK then Some (Inr ac) else redisAsyncFree_impl E ac)"

definition redisAsyncDisconnect_impl :: "'d env \<Rightarrow> 'd redisAsyncContext \<Rightarrow> (fault + 'd redisAsyncContext) option" where
  "redisAsyncDisconnect_impl E ac =
     (let ac = redisAsyncCopyError ac
      in if err ac = 0 then
           (case shift_replies ac of None \<Rightarrow> redisAsyncFree_impl E ac | Some _ \<Rightarrow> Some (Inl AssertFail))
         else redisAsyncFree_impl E (set_flag REDIS_DISCONNECTING ac))"

definition redisAsyncDisconnect :: "'d env \<Rightarrow> 'd redisAsyncContext \<Rightarrow> (fault + 'd redisAsyncContext) option" where
  "redisAsyncDisconnect E ac =
     (if freed ac then Some (Inl UseAfterFree)
      else let ac = set_flag REDIS_DISCONNECTING ac
           in if \<not> has ac REDIS_IN_CALLBACK \<and> replies ac = [] then redisAsyncDisconnect_impl E ac else Some (Inr ac))"

section \<open>Replies\<close>

text \<open>
  \<open>__redisGetSubscribeCallback\<close>: \<open>dstcb\<close> is the callback variable of the caller, which keeps its value when
  no callback is found.
\<close>

definition redisGetSubscribeCallback ::
  "'d env \<Rightarrow> redisReply \<Rightarrow> redisCallback \<Rightarrow> 'd redisAsyncContext \<Rightarrow> fault + (redisCallback \<times> 'd redisAsyncContext)" where
  "redisGetSubscribeCallback E reply dstcb ac =
     (case reply of
        ReplyArray els \<Rightarrow>
          (case els of
             ReplyString stype # ReplyString str # others \<Rightarrow>
               (let pvariant = (tolower (ptr_char stype) = CHR ''p'');
                    stype = (if pvariant then tl stype else stype);
                    callbacks = (if pvariant then patterns ac else channels ac);
                    put = (\<lambda>d ac. if pvariant then ac\<lparr>patterns := d\<rparr> else ac\<lparr>channels := d\<rparr>)
                in case dictFind E callbacks str of
                     None \<Rightarrow> Inr (dstcb, ac)
                   | Some cb \<Rightarrow>
                       (let cb = (if equal_nocase stype ''subscribe'' then cb\<lparr>pending_subs := pending_subs cb - 1\<rparr> else cb);
                            callbacks = (if equal_nocase stype ''subscribe'' then dictReplace E callbacks str cb else callbacks);
                            ac = put callbacks ac
                        in if equal_nocase stype ''unsubscribe'' then
                             (let ac = (if pending_subs cb = 0 then put (dictDelete E callbacks str) ac else ac)
                              in case others of
                                   [] \<Rightarrow> Inl OutOfBounds
                                 | ReplyInteger n # _ \<Rightarrow>
                                     Inr (cb, if n = 0 \<and> dictSize E (channels ac) = 0 \<and> dictSize E (patterns ac) = 0
                                              then clear_flag REDIS_SUBSCRIBED ac else ac)
                                 | _ # _ \<Rightarrow> Inl AssertFail)
                           else Inr (cb, ac)))
           | _ \<Rightarrow> Inl AssertFail)
      | _ \<Rightarrow> (case shift_invalid ac of None \<Rightarrow> Inr (dstcb, ac) | Some (cb, ac) \<Rightarrow> Inr (cb, ac)))"

text \<open>
  What the reader of hiredis holds for \<open>redisGetReply\<close>: parsed replies, possibly ended by a
  protocol error, which sets \<open>c->err\<close>.
\<close>

datatype reader_item = Reply redisReply | ProtocolError c_int

text \<open>
  The loop of \<open>redisProcessCallbacks\<close> on the replies the reader holds; when there are none left,
  \<open>redisGetReply\<close> gives NULL.
\<close>

fun process_loop ::
  "'d env \<Rightarrow> reader_item list \<Rightarrow> redisCallback \<Rightarrow> 'd redisAsyncContext \<Rightarrow> (fault + 'd redisAsyncContext) option" where
  "process_loop E [] cb ac =
     (if has ac REDIS_DISCONNECTING \<and> obuf ac = [] \<and> replies ac = [] then redisAsyncDisconnect_impl E ac
      else if has ac REDIS_MONITORING then Some (Inr (push_replies cb ac))
      else Some (Inr ac))"
| "process_loop E (ProtocolError e # items) cb ac = redisAsyncDisconnect_impl E (ac\<lparr>c_err := e\<rparr>)"
| "process_loop E (Reply reply # items) cb ac =
     (case (case shift_replies ac of
              Some (cb, ac) \<Rightarrow> Inr (Inr (cb, ac))
            | None \<Rightarrow>
                (case reply of
                   ReplyError str \<Rightarrow> Inr (Inl (log (EvFreeReply reply) (ac\<lparr>c_err := REDIS_ERR_OTHER, c_errstr := take 127 (c_str str)\<rparr>)))
                 | _ \<Rightarrow>
                     if \<not> (has ac REDIS_SUBSCRIBED \<or> has ac REDIS_MONITORING) then Inl AssertFail
                     else if has ac REDIS_SUBSCRIBED then
                       (case redisGetSubscribeCallback E reply cb ac of Inl e \<Rightarrow> Inl e | Inr r \<Rightarrow> Inr (Inr r))
                     else Inr (Inr (cb, ac)))) of
        Inl e \<Rightarrow> Some (Inl e)
      | Inr (Inl ac) \<Rightarrow> redisAsyncDisconnect_impl E ac
      | Inr (Inr (cb, ac)) \<Rightarrow>
          (if fn cb \<noteq> None then
             (case redisRunCallback E cb (Some reply) ac of
                Inl e \<Rightarrow> Some (Inl e)
              | Inr ac \<Rightarrow>
                  (let ac = log (EvFreeReply reply) ac
                   in if has ac REDIS_FREEING then redisAsyncFree_impl E ac else process_loop E items cb ac))
           else process_loop E items cb (log (EvFreeReply reply) ac)))"

definition redisProcessCallbacks :: "'d env \<Rightarrow> reader_item list \<Rightarrow> 'd redisAsyncContext \<Rightarrow> (fault + 'd redisAsyncContext) option" where
  "redisProcessCallbacks E items ac = process_loop E items \<lparr>fn = None, privdata = 0, pending_subs = 0\<rparr> ac"

section \<open>Event handlers\<close>

text \<open>A call of the application outside a command callback, for instance from the connect callback.\<close>

fun api :: "'d env \<Rightarrow> api_call \<Rightarrow> 'd redisAsyncContext \<Rightarrow> (fault + 'd redisAsyncContext) option" where
  "api E (ApiCommand f pd cmd) ac =
     (if freed ac then Some (Inl UseAfterFree)
      else Some (case redisAsyncCommand_impl E f pd cmd ac of Inl e \<Rightarrow> Inl e | Inr (_, ac) \<Rightarrow> Inr ac))"
| "api E ApiDisconnect ac = redisAsyncDisconnect E ac"
| "api E ApiFree ac = redisAsyncFree E ac"

fun calls :: "'d env \<Rightarrow> api_call list \<Rightarrow> 'd redisAsyncContext \<Rightarrow> (fault + 'd redisAsyncContext) option" where
  "calls E [] ac = Some (Inr ac)"
| "calls E (a # as) ac =
     (case api E a ac of None \<Rightarrow> None | Some (Inl e) \<Rightarrow> Some (Inl e) | Some (Inr ac) \<Rightarrow> calls E as ac)"

definition run_onConnect :: "'d env \<Rightarrow> int \<Rightarrow> 'd redisAsyncContext \<Rightarrow> (fault + 'd redisAsyncContext) option" where
  "run_onConnect E status ac =
     (case onConnect ac of
        None \<Rightarrow> Some (Inr ac)
      | Some f \<Rightarrow> (let ac = log (EvConnect f status) ac in calls E (connect_fn E (events ac) f status) ac))"

text \<open>What \<open>redisCheckSocketError\<close>, \<open>redisBufferRead\<close> and \<open>redisBufferWrite\<close> report.\<close>

datatype socket_check = SockOk | SockInProgress | SockErr c_int
datatype read_result = ReadErr c_int | ReadOk "reader_item list"
datatype write_result = WriteErr c_int | WriteOk nat   \<comment> \<open>number of bytes written\<close>

definition redisAsyncHandleConnect ::
  "'d env \<Rightarrow> socket_check \<Rightarrow> 'd redisAsyncContext \<Rightarrow> (fault + (int \<times> 'd redisAsyncContext)) option" where
  "redisAsyncHandleConnect E sock ac =
     (case sock of
        SockInProgress \<Rightarrow> Some (Inr (REDIS_OK, ac))
      | SockErr e \<Rightarrow>
          (case run_onConnect E REDIS_ERR (ac\<lparr>c_err := e\<rparr>) of
             None \<Rightarrow> None | Some (Inl f) \<Rightarrow> Some (Inl f)
           | Some (Inr ac) \<Rightarrow>
               (if freed ac then Some (Inl UseAfterFree)
                else (case redisAsyncDisconnect_impl E ac of
                        None \<Rightarrow> None | Some (Inl f) \<Rightarrow> Some (Inl f)
                      | Some (Inr ac) \<Rightarrow> Some (Inr (REDIS_ERR, ac)))))
      | SockOk \<Rightarrow>
          (case run_onConnect E REDIS_OK (set_flag REDIS_CONNECTED ac) of
             None \<Rightarrow> None | Some (Inl f) \<Rightarrow> Some (Inl f)
           | Some (Inr ac) \<Rightarrow> Some (Inr (REDIS_OK, ac))))"

text \<open>
  The common head of the two handlers: \<open>k\<close> is the rest of the handler, run when the context is connected.
\<close>

definition when_connected ::
  "'d env \<Rightarrow> socket_check \<Rightarrow> ('d redisAsyncContext \<Rightarrow> (fault + 'd redisAsyncContext) option) \<Rightarrow>
   'd redisAsyncContext \<Rightarrow> (fault + 'd redisAsyncContext) option" where
  "when_connected E sock k ac =
     (if freed ac then Some (Inl UseAfterFree)
      else if has ac REDIS_CONNECTED then k ac
      else (case redisAsyncHandleConnect E sock ac of
              None \<Rightarrow> None | Some (Inl f) \<Rightarrow> Some (Inl f)
            | Some (Inr (ret, ac)) \<Rightarrow>
                if ret \<noteq> REDIS_OK then Some (Inr ac)
                else if freed ac then Some (Inl UseAfterFree)
                else if \<not> has ac REDIS_CONNECTED then Some (Inr ac)
                else k ac))"

definition redisAsyncHandleRead ::
  "'d env \<Rightarrow> socket_check \<Rightarrow> read_result \<Rightarrow> 'd redisAsyncContext \<Rightarrow> (fault + 'd redisAsyncContext) option" where
  "redisAsyncHandleRead E sock rd =
     when_connected E sock (\<lambda>ac.
       case rd of
         ReadErr e \<Rightarrow> redisAsyncDisconnect_impl E (ac\<lparr>c_err := e\<rparr>)
       | ReadOk items \<Rightarrow> redisProcessCallbacks E items (EL_ADD_READ ac))"

definition redisAsyncHandleWrite ::
  "'d env \<Rightarrow> socket_check \<Rightarrow> write_result \<Rightarrow> 'd redisAsyncContext \<Rightarrow> (fault + 'd redisAsyncContext) option" where
  "redisAsyncHandleWrite E sock wr =
     when_connected E sock (\<lambda>ac.
       if wlocked ac then Some (Inl SelfDeadlock)
       else
         (let ac = ac\<lparr>wlocked := True\<rparr> in
          case (case wr of
                  WriteErr e \<Rightarrow> redisAsyncDisconnect_impl E (ac\<lparr>c_err := e\<rparr>)
                | WriteOk n \<Rightarrow>
                    (let ac = ac\<lparr>obuf := drop n (obuf ac)\<rparr>
                     in Some (Inr (EL_ADD_READ (if obuf ac \<noteq> [] then EL_ADD_WRITE ac else EL_DEL_WRITE ac))))) of
            None \<Rightarrow> None | Some (Inl f) \<Rightarrow> Some (Inl f)
          | Some (Inr ac) \<Rightarrow> Some (Inr (ac\<lparr>wlocked := False\<rparr>))))"

end
