(* ===== verification/AsyncRedisProps.thy ===== *)
theory AsyncRedisProps
  imports AsyncRedis "HOL-Library.AList"
begin

text \<open>
  What the asynchronous Redis client guarantees: how replies are matched with callbacks, what happens to
  pending callbacks when a connection ends, and how subscriptions are registered. The last section states
  where the code does not do what it means to.
\<close>

section \<open>Flags\<close>

named_theorems ctx_simps \<open>fields and flags of a context after its basic updates\<close>

lemmas flag_bits = REDIS_CONNECTED_def REDIS_DISCONNECTING_def REDIS_FREEING_def REDIS_IN_CALLBACK_def
  REDIS_SUBSCRIBED_def REDIS_MONITORING_def

lemma flag_distinct [simp]:
  "REDIS_CONNECTED \<noteq> REDIS_DISCONNECTING" "REDIS_CONNECTED \<noteq> REDIS_FREEING" "REDIS_CONNECTED \<noteq> REDIS_IN_CALLBACK" "REDIS_CONNECTED \<noteq> REDIS_SUBSCRIBED" "REDIS_CONNECTED \<noteq> REDIS_MONITORING"
  "REDIS_DISCONNECTING \<noteq> REDIS_CONNECTED" "REDIS_DISCONNECTING \<noteq> REDIS_FREEING" "REDIS_DISCONNECTING \<noteq> REDIS_IN_CALLBACK" "REDIS_DISCONNECTING \<noteq> REDIS_SUBSCRIBED" "REDIS_DISCONNECTING \<noteq> REDIS_MONITORING"
  "REDIS_FREEING \<noteq> REDIS_CONNECTED" "REDIS_FREEING \<noteq> REDIS_DISCONNECTING" "REDIS_FREEING \<noteq> REDIS_IN_CALLBACK" "REDIS_FREEING \<noteq> REDIS_SUBSCRIBED" "REDIS_FREEING \<noteq> REDIS_MONITORING"
  "REDIS_IN_CALLBACK \<noteq> REDIS_CONNECTED" "REDIS_IN_CALLBACK \<noteq> REDIS_DISCONNECTING" "REDIS_IN_CALLBACK \<noteq> REDIS_FREEING" "REDIS_IN_CALLBACK \<noteq> REDIS_SUBSCRIBED" "REDIS_IN_CALLBACK \<noteq> REDIS_MONITORING"
  "REDIS_SUBSCRIBED \<noteq> REDIS_CONNECTED" "REDIS_SUBSCRIBED \<noteq> REDIS_DISCONNECTING" "REDIS_SUBSCRIBED \<noteq> REDIS_FREEING" "REDIS_SUBSCRIBED \<noteq> REDIS_IN_CALLBACK" "REDIS_SUBSCRIBED \<noteq> REDIS_MONITORING"
  "REDIS_MONITORING \<noteq> REDIS_CONNECTED" "REDIS_MONITORING \<noteq> REDIS_DISCONNECTING" "REDIS_MONITORING \<noteq> REDIS_FREEING" "REDIS_MONITORING \<noteq> REDIS_IN_CALLBACK" "REDIS_MONITORING \<noteq> REDIS_SUBSCRIBED"
  by (simp_all add: flag_bits)

lemma flag_small [simp]: "REDIS_CONNECTED < 32" "REDIS_DISCONNECTING < 32" "REDIS_FREEING < 32" "REDIS_IN_CALLBACK < 32" "REDIS_SUBSCRIBED < 32" "REDIS_MONITORING < 32"
  by (simp_all add: flag_bits)

lemma has_set_flag [ctx_simps]: "has (set_flag k ac) j \<longleftrightarrow> has ac j \<or> (j = k \<and> k < 32)"
  by (auto simp: has_def set_flag_def bit_simps)

lemma has_clear_flag [ctx_simps]: "has (clear_flag k ac) j \<longleftrightarrow> has ac j \<and> j \<noteq> k"
  using bit_imp_le_length [of "flags ac" j] by (auto simp: has_def clear_flag_def bit_simps)

lemma has_log [ctx_simps]: "has (log e ac) k = has ac k"
  by (simp add: has_def log_def)

lemma has_update [ctx_simps]:
  "has (ac\<lparr>replies := a\<rparr>) k = has ac k" "has (ac\<lparr>invalid := a\<rparr>) k = has ac k" "has (ac\<lparr>channels := d\<rparr>) k = has ac k"
  "has (ac\<lparr>patterns := d\<rparr>) k = has ac k" "has (ac\<lparr>mallocs := m\<rparr>) k = has ac k" "has (ac\<lparr>obuf := s\<rparr>) k = has ac k"
  "has (ac\<lparr>c_err := x\<rparr>) k = has ac k" "has (ac\<lparr>c_errstr := s\<rparr>) k = has ac k" "has (ac\<lparr>events := ev\<rparr>) k = has ac k"
  "has (ac\<lparr>dicts_live := b\<rparr>) k = has ac k" "has (ac\<lparr>wlocked := b\<rparr>) k = has ac k" "has (ac\<lparr>freed := b\<rparr>) k = has ac k"
  by (simp_all add: has_def)

lemma has_hooks [ctx_simps]:
  "has (EL_ADD_READ ac) k = has ac k" "has (EL_ADD_WRITE ac) k = has ac k" "has (EL_DEL_WRITE ac) k = has ac k"
  "has (EL_CLEANUP ac) k = has ac k" "has (redisAsyncCopyError ac) k = has ac k"
  by (simp_all add: EL_ADD_READ_def EL_ADD_WRITE_def EL_DEL_WRITE_def EL_CLEANUP_def redisAsyncCopyError_def has_log)
    (simp add: has_def)

lemma fields_set_flag [ctx_simps]:
  "replies (set_flag k ac) = replies ac" "invalid (set_flag k ac) = invalid ac" "channels (set_flag k ac) = channels ac"
  "patterns (set_flag k ac) = patterns ac" "events (set_flag k ac) = events ac" "wlocked (set_flag k ac) = wlocked ac"
  "dicts_live (set_flag k ac) = dicts_live ac" "freed (set_flag k ac) = freed ac" "mallocs (set_flag k ac) = mallocs ac"
  "obuf (set_flag k ac) = obuf ac" "err (set_flag k ac) = err ac" "cleanup (set_flag k ac) = cleanup ac"
  "onDisconnect (set_flag k ac) = onDisconnect ac"
  by (simp_all add: set_flag_def)

lemma fields_clear_flag [ctx_simps]:
  "replies (clear_flag k ac) = replies ac" "invalid (clear_flag k ac) = invalid ac" "channels (clear_flag k ac) = channels ac"
  "patterns (clear_flag k ac) = patterns ac" "events (clear_flag k ac) = events ac" "wlocked (clear_flag k ac) = wlocked ac"
  "dicts_live (clear_flag k ac) = dicts_live ac" "freed (clear_flag k ac) = freed ac" "mallocs (clear_flag k ac) = mallocs ac"
  "obuf (clear_flag k ac) = obuf ac" "err (clear_flag k ac) = err ac"
  by (simp_all add: clear_flag_def)

lemma fields_log [ctx_simps]:
  "replies (log e ac) = replies ac" "invalid (log e ac) = invalid ac" "channels (log e ac) = channels ac"
  "patterns (log e ac) = patterns ac" "events (log e ac) = events ac @ [e]" "wlocked (log e ac) = wlocked ac"
  "dicts_live (log e ac) = dicts_live ac" "freed (log e ac) = freed ac" "mallocs (log e ac) = mallocs ac"
  "obuf (log e ac) = obuf ac" "err (log e ac) = err ac"
  by (simp_all add: log_def)

section \<open>A context that is going down\<close>

text \<open>
  Once REDIS_DISCONNECTING or REDIS_FREEING is set, no command is accepted, so callbacks can only set these two
  flags; this is why the loops of \<open>__redisAsyncFree\<close> end.
\<close>

definition refusing :: "'d redisAsyncContext \<Rightarrow> bool" where
  "refusing ac \<longleftrightarrow> has ac REDIS_DISCONNECTING \<or> has ac REDIS_FREEING"

definition quiet :: "'d redisAsyncContext \<Rightarrow> event list \<Rightarrow> 'd redisAsyncContext \<Rightarrow> bool" where
  "quiet ac evs ac' \<longleftrightarrow> (\<exists>fl. ac' = ac\<lparr>flags := fl, events := events ac @ evs\<rparr> \<and>
     (\<forall>k. k \<noteq> REDIS_DISCONNECTING \<longrightarrow> k \<noteq> REDIS_FREEING \<longrightarrow> bit fl k = has ac k) \<and>
     (has ac REDIS_DISCONNECTING \<longrightarrow> bit fl REDIS_DISCONNECTING) \<and> (has ac REDIS_FREEING \<longrightarrow> bit fl REDIS_FREEING))"

definition null_events :: "redisCallback list \<Rightarrow> event list" where
  "null_events cbs = concat (map (\<lambda>cb. case fn cb of None \<Rightarrow> [] | Some f \<Rightarrow> [EvReply f None (privdata cb)]) cbs)"

lemma null_events_simps [simp]:
  "null_events [] = []"
  "null_events (cb # cbs) = (case fn cb of None \<Rightarrow> [] | Some f \<Rightarrow> [EvReply f None (privdata cb)]) @ null_events cbs"
  by (simp_all add: null_events_def)

lemma quiet_refl: "quiet ac [] ac"
  unfolding quiet_def by (intro exI [of _ "flags ac"]) (simp add: has_def)

lemma quiet_trans: "quiet a xs b \<Longrightarrow> quiet b ys c \<Longrightarrow> quiet a (xs @ ys) c"
  unfolding quiet_def
  apply (elim exE conjE)
  subgoal for fl fl' by (intro exI [of _ fl']) (simp add: has_def)
  done

lemma quiet_refusing: "quiet a xs b \<Longrightarrow> refusing a \<Longrightarrow> refusing b"
  by (auto simp: quiet_def refusing_def has_def)

lemma quiet_freeing: "quiet a xs b \<Longrightarrow> has a REDIS_FREEING \<Longrightarrow> has b REDIS_FREEING"
  by (auto simp: quiet_def has_def)

lemma quiet_in_callback: "quiet a xs b \<Longrightarrow> has b REDIS_IN_CALLBACK = has a REDIS_IN_CALLBACK"
  by (auto simp: quiet_def has_def)

lemma quiet_connected: "quiet a xs b \<Longrightarrow> has b REDIS_CONNECTED = has a REDIS_CONNECTED"
  by (auto simp: quiet_def has_def)

lemma quiet_set_flag: "k \<in> {REDIS_DISCONNECTING, REDIS_FREEING} \<Longrightarrow> quiet ac [] (set_flag k ac)"
  unfolding quiet_def using has_set_flag [of k ac]
  by (intro exI [of _ "flags ac OR 2 ^ k"]) (auto simp: set_flag_def has_def)

lemma command_refused: "refusing ac \<Longrightarrow> redisAsyncCommand_impl E f pd cmd ac = Inr (REDIS_ERR, ac)"
  by (simp add: refusing_def redisAsyncCommand_impl_def)

lemma calls_refused: "refusing ac \<Longrightarrow> \<exists>ac'. calls_in_callback E as ac = Inr ac' \<and> quiet ac [] ac'"
proof (induction as arbitrary: ac)
  case Nil
  then show ?case by (simp add: quiet_refl)
next
  case (Cons a as)
  have "\<exists>ac1. api_in_callback E a ac = Inr ac1 \<and> quiet ac [] ac1"
    using Cons.prems by (cases a) (simp_all add: command_refused quiet_refl quiet_set_flag)
  then obtain ac1 where 1: "api_in_callback E a ac = Inr ac1" "quiet ac [] ac1" by blast
  with Cons.prems have "refusing ac1" by (blast intro: quiet_refusing)
  from Cons.IH [OF this] 1 show ?case using quiet_trans [of ac "[]" ac1 "[]"] by auto
qed

lemma run_refused:
  assumes "refusing ac" and "\<not> has ac REDIS_IN_CALLBACK"
  shows "\<exists>ac'. redisRunCallback E cb r ac = Inr ac' \<and>
    quiet ac (case fn cb of None \<Rightarrow> [] | Some f \<Rightarrow> [EvReply f r (privdata cb)]) ac'"
proof (cases "fn cb")
  case None
  then show ?thesis by (simp add: redisRunCallback_def quiet_refl)
next
  case (Some f)
  let ?a = "log (EvReply f r (privdata cb)) (set_flag REDIS_IN_CALLBACK ac)"
  have "refusing ?a" using assms by (auto simp: refusing_def ctx_simps)
  from calls_refused [OF this] obtain b where b: "calls_in_callback E (reply_fn E (events ?a) f r (privdata cb)) ?a = Inr b"
    and q: "quiet ?a [] b" by blast
  have "quiet ac [EvReply f r (privdata cb)] (clear_flag REDIS_IN_CALLBACK b)"
  proof -
    from q obtain fl where fl: "b = ?a\<lparr>flags := fl, events := events ?a @ []\<rparr>"
      and k: "\<forall>k. k \<noteq> REDIS_DISCONNECTING \<longrightarrow> k \<noteq> REDIS_FREEING \<longrightarrow> bit fl k = has ?a k"
      "has ?a REDIS_DISCONNECTING \<longrightarrow> bit fl REDIS_DISCONNECTING" "has ?a REDIS_FREEING \<longrightarrow> bit fl REDIS_FREEING"
      unfolding quiet_def by blast
    have c: "bit (fl AND NOT (2 ^ REDIS_IN_CALLBACK)) k \<longleftrightarrow> bit fl k \<and> k \<noteq> REDIS_IN_CALLBACK" for k
      using has_clear_flag [of REDIS_IN_CALLBACK "ac\<lparr>flags := fl\<rparr>"] by (simp add: has_def clear_flag_def)
    have "clear_flag REDIS_IN_CALLBACK b = ac\<lparr>flags := fl AND NOT (2 ^ REDIS_IN_CALLBACK),
        events := events ac @ [EvReply f r (privdata cb)]\<rparr>"
      by (simp add: fl clear_flag_def log_def set_flag_def)
    then show ?thesis
      unfolding quiet_def using k assms(2)
      by (intro exI [of _ "fl AND NOT (2 ^ REDIS_IN_CALLBACK)"] conjI)
        (auto simp: c ctx_simps)
  qed
  with b Some show ?thesis by (simp add: redisRunCallback_def)
qed

lemma quiet_replies: "quiet (ac\<lparr>replies := l\<rparr>) evs ac' \<Longrightarrow> quiet (ac\<lparr>replies := l2\<rparr>) evs (ac'\<lparr>replies := l2\<rparr>)"
  unfolding quiet_def
  apply (elim exE conjE)
  subgoal for fl by (intro exI [of _ fl]) (simp add: ctx_simps)
  done

lemma quiet_invalid: "quiet (ac\<lparr>invalid := l\<rparr>) evs ac' \<Longrightarrow> quiet (ac\<lparr>invalid := l2\<rparr>) evs (ac'\<lparr>invalid := l2\<rparr>)"
  unfolding quiet_def
  apply (elim exE conjE)
  subgoal for fl by (intro exI [of _ fl]) (simp add: ctx_simps)
  done

lemma quiet_fields:
  "quiet a xs b \<Longrightarrow> events b = events a @ xs \<and> replies b = replies a \<and> invalid b = invalid a \<and>
     channels b = channels a \<and> patterns b = patterns a \<and> dicts_live b = dicts_live a \<and> wlocked b = wlocked a \<and>
     freed b = freed a \<and> onDisconnect b = onDisconnect a \<and> cleanup b = cleanup a \<and> err b = err a \<and> c_err b = c_err a \<and> obuf b = obuf a"
  by (auto simp: quiet_def)

lemma drain_replies_refused:
  assumes "refusing ac" and "\<not> has ac REDIS_IN_CALLBACK"
  shows "\<exists>ac'. drain_replies E ac = Some (Inr ac') \<and> quiet (ac\<lparr>replies := []\<rparr>) (null_events (replies ac)) ac'"
  using assms
proof (induction "replies ac" arbitrary: ac)
  case Nil
  then have eq: "ac\<lparr>replies := []\<rparr> = ac" by simp
  have "quiet (ac\<lparr>replies := []\<rparr>) [] ac" by (subst eq) (rule quiet_refl)
  then show ?case using Nil.hyps [symmetric]
    by (subst drain_replies.simps) (simp add: shift_replies_def)
next
  case (Cons cb cbs)
  have "refusing (ac\<lparr>replies := cbs\<rparr>)" "\<not> has (ac\<lparr>replies := cbs\<rparr>) REDIS_IN_CALLBACK"
    using Cons.prems by (simp_all add: refusing_def ctx_simps)
  then obtain b where b: "redisRunCallback E cb None (ac\<lparr>replies := cbs\<rparr>) = Inr b"
    and q: "quiet (ac\<lparr>replies := cbs\<rparr>) (case fn cb of None \<Rightarrow> [] | Some f \<Rightarrow> [EvReply f None (privdata cb)]) b"
    and r: "refusing b" "\<not> has b REDIS_IN_CALLBACK"
    using run_refused [of "ac\<lparr>replies := cbs\<rparr>" E cb None] quiet_refusing quiet_in_callback by blast
  from quiet_fields [OF q] have rb: "replies b = cbs" by simp
  obtain c where c: "drain_replies E b = Some (Inr c)" "quiet (b\<lparr>replies := []\<rparr>) (null_events cbs) c"
    using Cons.hyps(1) [of b] rb r by auto
  have "quiet (ac\<lparr>replies := []\<rparr>) (null_events (cb # cbs)) c"
    using quiet_trans [OF quiet_replies [OF q, of "[]"] c(2)] by simp
  with b c Cons.hyps(2) [symmetric] show ?case
    by (subst drain_replies.simps) (simp add: shift_replies_def)
qed

lemma drain_invalid_refused:
  assumes "refusing ac" and "\<not> has ac REDIS_IN_CALLBACK"
  shows "\<exists>ac'. drain_invalid E ac = Some (Inr ac') \<and> quiet (ac\<lparr>invalid := []\<rparr>) (null_events (invalid ac)) ac'"
  using assms
proof (induction "invalid ac" arbitrary: ac)
  case Nil
  then have eq: "ac\<lparr>invalid := []\<rparr> = ac" by simp
  have "quiet (ac\<lparr>invalid := []\<rparr>) [] ac" by (subst eq) (rule quiet_refl)
  then show ?case using Nil.hyps [symmetric]
    by (subst drain_invalid.simps) (simp add: shift_invalid_def)
next
  case (Cons cb cbs)
  have "refusing (ac\<lparr>invalid := cbs\<rparr>)" "\<not> has (ac\<lparr>invalid := cbs\<rparr>) REDIS_IN_CALLBACK"
    using Cons.prems by (simp_all add: refusing_def ctx_simps)
  then obtain b where b: "redisRunCallback E cb None (ac\<lparr>invalid := cbs\<rparr>) = Inr b"
    and q: "quiet (ac\<lparr>invalid := cbs\<rparr>) (case fn cb of None \<Rightarrow> [] | Some f \<Rightarrow> [EvReply f None (privdata cb)]) b"
    and r: "refusing b" "\<not> has b REDIS_IN_CALLBACK"
    using run_refused [of "ac\<lparr>invalid := cbs\<rparr>" E cb None] quiet_refusing quiet_in_callback by blast
  from quiet_fields [OF q] have rb: "invalid b = cbs" by simp
  obtain c where c: "drain_invalid E b = Some (Inr c)" "quiet (b\<lparr>invalid := []\<rparr>) (null_events cbs) c"
    using Cons.hyps(1) [of b] rb r by auto
  have "quiet (ac\<lparr>invalid := []\<rparr>) (null_events (cb # cbs)) c"
    using quiet_trans [OF quiet_invalid [OF q, of "[]"] c(2)] by simp
  with b c Cons.hyps(2) [symmetric] show ?case
    by (subst drain_invalid.simps) (simp add: shift_invalid_def)
qed

lemma run_entries_refused:
  assumes "refusing ac" and "\<not> has ac REDIS_IN_CALLBACK"
  shows "\<exists>ac'. run_entries E es ac = Inr ac' \<and> quiet ac (null_events (map snd es)) ac'"
  using assms
proof (induction es arbitrary: ac)
  case (Cons e es)
  obtain k cb where e: "e = (k, cb)" by (cases e)
  obtain b where b: "redisRunCallback E cb None ac = Inr b"
    and q: "quiet ac (case fn cb of None \<Rightarrow> [] | Some f \<Rightarrow> [EvReply f None (privdata cb)]) b"
    and r: "refusing b" "\<not> has b REDIS_IN_CALLBACK"
    using run_refused [of ac E cb None] Cons.prems quiet_refusing quiet_in_callback by blast
  obtain c where "run_entries E es b = Inr c" "quiet b (null_events (map snd es)) c"
    using Cons.IH [OF r] by blast
  with b quiet_trans [OF q] show ?case by (simp add: e)
qed (simp add: quiet_refl)

text \<open>The disconnect callback may issue commands (they are refused), but must not free or disconnect.\<close>

definition commands_only :: "api_call list \<Rightarrow> bool" where
  "commands_only as \<longleftrightarrow> list_all (\<lambda>a. case a of ApiCommand _ _ _ \<Rightarrow> True | _ \<Rightarrow> False) as"

lemma calls_in_disconnect_refused:
  "refusing ac \<Longrightarrow> commands_only as \<Longrightarrow> calls_in_disconnect E as ac = Inr ac"
  by (induction as) (auto simp: commands_only_def command_refused split: api_call.splits)

definition disconnect_event :: "'d redisAsyncContext \<Rightarrow> int \<Rightarrow> event list" where
  "disconnect_event ac status =
     (case onDisconnect ac of Some f \<Rightarrow> if has ac REDIS_CONNECTED then [EvDisconnect f status] else [] | None \<Rightarrow> [])"

definition pending_events :: "'d env \<Rightarrow> 'd redisAsyncContext \<Rightarrow> event list" where
  "pending_events E ac = null_events (replies ac) @ null_events (invalid ac) @
     null_events (map snd (dictEntries E (channels ac))) @ null_events (map snd (dictEntries E (patterns ac)))"

definition cleanup_event :: "'d redisAsyncContext \<Rightarrow> event list" where
  "cleanup_event ac = (if cleanup ac then [EvCleanup] else [])"

text \<open>What \<open>__redisAsyncFree\<close> does to a context that is going down, whatever the callbacks do.\<close>

lemma free_impl_refused:
  assumes "refusing ac" and "\<not> has ac REDIS_IN_CALLBACK" and "dicts_live ac"
    and "\<And>evs f st. commands_only (disconnect_fn E evs f st)"
  shows "\<exists>ac' status. redisAsyncFree_impl E ac = Some (Inr ac') \<and> freed ac' \<and> wlocked ac' = wlocked ac \<and>
    (has ac REDIS_FREEING \<or> err ac = 0 \<longrightarrow> status = REDIS_OK) \<and> status \<in> {REDIS_OK, REDIS_ERR} \<and>
    events ac' = events ac @ pending_events E ac @ cleanup_event ac @ disconnect_event ac status @ [EvFreed]"
proof -
  obtain a1 where 1: "drain_replies E ac = Some (Inr a1)" and q1: "quiet (ac\<lparr>replies := []\<rparr>) (null_events (replies ac)) a1"
    using drain_replies_refused [OF assms(1,2)] by blast
  have r1: "refusing a1" "\<not> has a1 REDIS_IN_CALLBACK"
    using quiet_refusing [OF q1] quiet_in_callback [OF q1] assms(1,2) by (simp_all add: refusing_def ctx_simps)
  obtain a2 where 2: "drain_invalid E a1 = Some (Inr a2)" and q2: "quiet (a1\<lparr>invalid := []\<rparr>) (null_events (invalid a1)) a2"
    using drain_invalid_refused [OF r1] by blast
  have r2: "refusing a2" "\<not> has a2 REDIS_IN_CALLBACK"
    using quiet_refusing [OF q2] quiet_in_callback [OF q2] r1 by (simp_all add: refusing_def ctx_simps)
  obtain a3 where 3: "run_entries E (dictEntries E (channels a2)) a2 = Inr a3"
    and q3: "quiet a2 (null_events (map snd (dictEntries E (channels a2)))) a3"
    using run_entries_refused [OF r2] by blast
  have r3: "refusing a3" "\<not> has a3 REDIS_IN_CALLBACK"
    using quiet_refusing [OF q3] quiet_in_callback [OF q3] r2 by simp_all
  obtain a4 where 4: "run_entries E (dictEntries E (patterns a3)) a3 = Inr a4"
    and q4: "quiet a3 (null_events (map snd (dictEntries E (patterns a3)))) a4"
    using run_entries_refused [OF r3] by blast
  have r4: "refusing a4" using quiet_refusing [OF q4] r3 by simp
  note fs = quiet_fields [OF q1] quiet_fields [OF q2] quiet_fields [OF q3] quiet_fields [OF q4]
  have flags4: "has a4 REDIS_CONNECTED = has ac REDIS_CONNECTED" "has ac REDIS_FREEING \<Longrightarrow> has a4 REDIS_FREEING"
    using quiet_connected [OF q1] quiet_connected [OF q2] quiet_connected [OF q3] quiet_connected [OF q4]
      quiet_freeing [OF q1] quiet_freeing [OF q2] quiet_freeing [OF q3] quiet_freeing [OF q4]
    by (simp_all add: ctx_simps)
  let ?a5 = "EL_CLEANUP (a4\<lparr>dicts_live := False\<rparr>)"
  define status where "status = (if has a4 REDIS_FREEING then REDIS_OK else if err a4 = 0 then REDIS_OK else REDIS_ERR)"
  have r5: "refusing (log (EvDisconnect f status) ?a5)" for f using r4 by (simp add: refusing_def ctx_simps)
  have "run_onDisconnect E ?a5 = Inr (?a5\<lparr>events := events ?a5 @ disconnect_event ac status\<rparr>)"
  proof (cases "onDisconnect ac")
    case None
    then show ?thesis using fs by (simp add: run_onDisconnect_def disconnect_event_def EL_CLEANUP_def log_def)
  next
    case (Some f)
    have st: "(if has ?a5 REDIS_FREEING then REDIS_OK else if err ?a5 = 0 then REDIS_OK else REDIS_ERR) = status"
      by (simp add: status_def ctx_simps) (simp add: EL_CLEANUP_def log_def)
    have on: "onDisconnect ?a5 = Some f" using Some fs by (simp add: EL_CLEANUP_def log_def)
    have h: "has ?a5 REDIS_CONNECTED = has ac REDIS_CONNECTED" using flags4 by (simp add: ctx_simps)
    show ?thesis
      using Some on h calls_in_disconnect_refused [OF r5 assms(4)]
      by (simp add: run_onDisconnect_def st disconnect_event_def) (simp add: log_def)
  qed
  moreover have "(has ac REDIS_FREEING \<or> err ac = 0 \<longrightarrow> status = REDIS_OK) \<and> status \<in> {REDIS_OK, REDIS_ERR}"
    using flags4 fs by (auto simp: status_def)
  ultimately show ?thesis
    using 1 2 3 4 fs assms(3)
    by (intro exI [of _ "log EvFreed ((?a5\<lparr>events := events ?a5 @ disconnect_event ac status\<rparr>)\<lparr>freed := True\<rparr>)"] exI [of _ status])
      (auto simp: redisAsyncFree_impl_def pending_events_def cleanup_event_def EL_CLEANUP_def log_def)
qed

section \<open>Application calls from a callback\<close>

text \<open>
  Inside a callback the two public functions do exactly what \<^const>\<open>api_in_callback\<close> says of them.
\<close>

lemma redisAsyncDisconnect_in_callback:
  "\<not> freed ac \<Longrightarrow> has ac REDIS_IN_CALLBACK \<Longrightarrow> api E ApiDisconnect ac = Some (api_in_callback E ApiDisconnect ac)"
  by (simp add: redisAsyncDisconnect_def ctx_simps)

lemma redisAsyncFree_in_callback:
  "\<not> freed ac \<Longrightarrow> has ac REDIS_IN_CALLBACK \<Longrightarrow> api E ApiFree ac = Some (api_in_callback E ApiFree ac)"
  by (simp add: redisAsyncFree_def ctx_simps)

lemma no_free_calls:
  assumes "ApiFree \<notin> set as" and "refusing ac" and "calls_in_callback E as ac = Inr ac'"
  shows "has ac' REDIS_FREEING = has ac REDIS_FREEING"
  using assms
proof (induction as arbitrary: ac)
  case (Cons a as)
  have "refusing (set_flag REDIS_DISCONNECTING ac)" using Cons.prems by (simp add: refusing_def ctx_simps)
  with Cons.IH [of "set_flag REDIS_DISCONNECTING ac"] Cons.IH [of ac] Cons.prems show ?case
    by (cases a) (simp_all add: command_refused ctx_simps)
qed simp

lemma no_free_run:
  assumes "\<And>evs f r pd. ApiFree \<notin> set (reply_fn E evs f r pd)" and "refusing ac" and "redisRunCallback E cb r ac = Inr ac'"
  shows "has ac' REDIS_FREEING = has ac REDIS_FREEING"
  using assms(3) no_free_calls [OF assms(1), of "log e (set_flag REDIS_IN_CALLBACK ac)" E _ _ _ _ for e] assms(2)
  by (fastforce simp: redisRunCallback_def Let_def ctx_simps refusing_def split: option.splits sum.splits)

section \<open>A context that is serving commands\<close>

definition delivered :: "event list \<Rightarrow> event list" where
  "delivered = filter (\<lambda>e. case e of EvReply _ _ _ \<Rightarrow> True | _ \<Rightarrow> False)"

lemma delivered_simps [simp]:
  "delivered [] = []" "delivered (xs @ ys) = delivered xs @ delivered ys"
  "delivered (EvAppend cmd # xs) = delivered xs" "delivered (EvAddWrite # xs) = delivered xs"
  "delivered (EvFreeReply r # xs) = delivered xs" "delivered (EvReply f rp pd # xs) = EvReply f rp pd # delivered xs"
  by (simp_all add: delivered_def)

text \<open>Commands other than (P)SUBSCRIBE, (P)UNSUBSCRIBE and MONITOR.\<close>

definition regular :: "string \<Rightarrow> bool" where
  "regular cmd \<longleftrightarrow>
     (case nextArgument cmd of
        Inr (Some (cstr, clen, p)) \<Rightarrow>
          (let cstr = (if tolower (ptr_char cstr) = CHR ''p'' then tl cstr else cstr)
           in \<not> (ptr_char p = CHR ''$'' \<and> starts_nocase cstr (''subscribe'' @ [CR, LF])) \<and>
              \<not> starts_nocase cstr (''unsubscribe'' @ [CR, LF]) \<and> \<not> starts_nocase cstr (''monitor'' @ [CR, LF]))
      | _ \<Rightarrow> False)"

definition regular_call :: "api_call \<Rightarrow> bool" where
  "regular_call a \<longleftrightarrow> (case a of ApiCommand _ _ cmd \<Rightarrow> regular cmd | _ \<Rightarrow> False)"

definition serving :: "'d redisAsyncContext \<Rightarrow> bool" where
  "serving ac \<longleftrightarrow> \<not> refusing ac \<and> \<not> has ac REDIS_SUBSCRIBED \<and> \<not> has ac REDIS_MONITORING \<and> \<not> wlocked ac"

definition serves :: "'d redisAsyncContext \<Rightarrow> 'd redisAsyncContext \<Rightarrow> bool" where
  "serves ac ac' \<longleftrightarrow> serving ac' \<and> freed ac' = freed ac \<and> (\<exists>new. replies ac' = replies ac @ new) \<and>
     delivered (events ac') = delivered (events ac)"

lemma serves_trans: "serves a b \<Longrightarrow> serves b c \<Longrightarrow> serves a c"
  by (auto simp: serves_def)

lemma regular_command:
  assumes "regular cmd" and "serving ac"
  shows "redisAsyncCommand_impl E f pd cmd ac =
    append_and_schedule E cmd (push_replies \<lparr>fn = f, privdata = pd, pending_subs = 1\<rparr> ac)"
proof -
  obtain cstr clen p where n: "nextArgument cmd = Inr (Some (cstr, clen, p))"
    using assms(1) by (auto simp: regular_def split: sum.splits option.splits)
  show ?thesis using assms n
    by (cases "tolower (ptr_char cstr) = CHR ''p''")
      (auto simp: redisAsyncCommand_impl_def regular_def serving_def refusing_def Let_def)
qed

lemma push_append_serves:
  assumes "serving ac"
  shows "\<exists>ac' ret. append_and_schedule E cmd (push_replies cb ac) = Inr (ret, ac') \<and> serves ac ac'"
  using assms
  by (auto simp: append_and_schedule_def push_replies_def push_cb_def serves_def serving_def refusing_def
      EL_ADD_WRITE_def ctx_simps split: list.splits bool.splits)

lemma regular_calls_serve:
  "list_all regular_call as \<Longrightarrow> serving ac \<Longrightarrow> \<exists>ac'. calls_in_callback E as ac = Inr ac' \<and> serves ac ac'"
proof (induction as arbitrary: ac)
  case Nil
  then show ?case by (simp add: serves_def)
next
  case (Cons a as)
  then obtain f pd cmd where a: "a = ApiCommand f pd cmd" "regular cmd"
    by (auto simp: regular_call_def split: api_call.splits)
  obtain ac1 ret where 1: "redisAsyncCommand_impl E f pd cmd ac = Inr (ret, ac1)" "serves ac ac1"
    using regular_command [OF a(2) Cons.prems(2)] push_append_serves [OF Cons.prems(2)] by metis
  then have "serving ac1" by (simp add: serves_def)
  with Cons.IH [of ac1] Cons.prems obtain ac2 where "calls_in_callback E as ac1 = Inr ac2" "serves ac1 ac2" by auto
  with 1 a show ?case using serves_trans by auto
qed

lemma run_serves:
  assumes "\<And>evs f r pd. list_all regular_call (reply_fn E evs f r pd)" and "serving ac" and "fn cb = Some f"
  shows "\<exists>ac'. redisRunCallback E cb (Some r) ac = Inr ac' \<and> serving ac' \<and> (\<exists>new. replies ac' = replies ac @ new) \<and>
    delivered (events ac') = delivered (events ac) @ [EvReply f (Some r) (privdata cb)]"
proof -
  let ?a = "log (EvReply f (Some r) (privdata cb)) (set_flag REDIS_IN_CALLBACK ac)"
  have "serving ?a" using assms(2) by (simp add: serving_def refusing_def ctx_simps)
  with regular_calls_serve [OF assms(1) this, where E = E] obtain b where
    "calls_in_callback E (reply_fn E (events ?a) f (Some r) (privdata cb)) ?a = Inr b" "serves ?a b" by blast
  then show ?thesis using assms(3)
    by (auto simp: redisRunCallback_def serves_def serving_def refusing_def ctx_simps)
qed

text \<open>The events of \<open>n\<close> callbacks that got \<open>n\<close> replies.\<close>

definition reply_events :: "redisCallback list \<Rightarrow> redisReply list \<Rightarrow> event list" where
  "reply_events cbs rs =
     concat (map2 (\<lambda>cb r. case fn cb of None \<Rightarrow> [] | Some f \<Rightarrow> [EvReply f (Some r) (privdata cb)]) cbs rs)"

lemma reply_events_simps [simp]:
  "reply_events cbs [] = []"
  "reply_events (cb # cbs) (r # rs) =
     (case fn cb of None \<Rightarrow> [] | Some f \<Rightarrow> [EvReply f (Some r) (privdata cb)]) @ reply_events cbs rs"
  by (simp_all add: reply_events_def)

lemma process_loop_serving:
  assumes "\<And>evs f r pd. list_all regular_call (reply_fn E evs f r pd)"
    and "serving ac" and "length rs \<le> length (replies ac)"
  shows "\<exists>ac' new. process_loop E (map Reply rs) cb0 ac = Some (Inr ac') \<and>
    replies ac' = drop (length rs) (replies ac) @ new \<and>
    delivered (events ac') = delivered (events ac) @ reply_events (replies ac) rs"
  using assms(2,3)
proof (induction rs arbitrary: ac cb0)
  case Nil
  then show ?case by (auto simp: serving_def refusing_def)
next
  case (Cons r rs)
  then obtain cb cbs where cbs: "replies ac = cb # cbs" by (cases "replies ac") auto
  let ?a = "ac\<lparr>replies := cbs\<rparr>"
  have s: "serving ?a" using Cons.prems(1) by (simp add: serving_def refusing_def ctx_simps)
  show ?case
  proof (cases "fn cb")
    case None
    let ?b = "log (EvFreeReply r) ?a"
    have "serving ?b" using s by (simp add: serving_def refusing_def ctx_simps)
    with Cons.IH [of ?b cb] Cons.prems cbs None show ?thesis
      by (simp add: shift_replies_def ctx_simps)
  next
    case (Some f)
    obtain b new where b: "redisRunCallback E cb (Some r) ?a = Inr b" "serving b" "replies b = cbs @ new"
      "delivered (events b) = delivered (events ac) @ [EvReply f (Some r) (privdata cb)]"
      using run_serves [OF assms(1) s Some, of r] by auto
    let ?b = "log (EvFreeReply r) b"
    have sb: "serving ?b" "\<not> has ?b REDIS_FREEING" using b(2) by (simp_all add: serving_def refusing_def ctx_simps)
    obtain ac' new' where "process_loop E (map Reply rs) cb ?b = Some (Inr ac')"
      "replies ac' = drop (length rs) (cbs @ new) @ new'"
      "delivered (events ac') = delivered (events b) @ reply_events (cbs @ new) rs"
      using Cons.IH [OF sb(1), of cb] Cons.prems(2) b(3) cbs by (auto simp: ctx_simps)
    moreover have "reply_events (cbs @ new) rs = reply_events cbs rs" "drop (length rs) (cbs @ new) = drop (length rs) cbs @ new"
      using Cons.prems(2) cbs by (simp_all add: reply_events_def zip_append1)
    ultimately show ?thesis using b cbs Some sb(2) by (simp add: shift_replies_def)
  qed
qed

section \<open>Formatted commands\<close>

text \<open>
  The wire format that the formatting functions of hiredis produce: the number of arguments, then each argument with
  its length.
\<close>

definition bulk :: "string \<Rightarrow> string" where
  "bulk a = CHR ''$'' # show_nat (length a) @ [CR, LF] @ a @ [CR, LF]"

definition resp :: "string list \<Rightarrow> string" where
  "resp args = CHR ''*'' # show_nat (length args) @ [CR, LF] @ concat (map bulk args)"

lemma strchr_stop:
  assumes "c \<notin> set xs" and "NUL \<notin> set xs" and "c \<noteq> NUL"
  shows "strchr (xs @ c # ys) c = Some (c # ys)"
proof -
  have "c_str (xs @ c # ys) = xs @ c_str (c # ys)" using assms(2) by (induction xs) (auto simp: c_str_def)
  moreover have "dropWhile (\<lambda>x. x \<noteq> c) (xs @ c # ys) = c # ys" using assms(1) by (induction xs) auto
  ultimately show ?thesis using assms(3) by (simp add: strchr_def c_str_def)
qed

lemma show_nat_chars: "c \<in> {NUL, CR, LF, CHR ''$''} \<Longrightarrow> c \<notin> set (show_nat n)"
  using show_nat_digits [of c n] by (auto simp: is_digit_def)

lemma nextArgument_bulk:
  assumes "length a < 2 ^ 31"
  shows "nextArgument (bulk a @ rest) = Inr (Some (a @ [CR, LF] @ rest, length a, rest))"
proof -
  have i: "show_int (int (length a)) = show_nat (length a)" by (simp add: show_int_def)
  have "strtol (show_nat (length a) @ CR # LF # a @ CR # LF # rest) = int (length a)"
    using strtol_show_int [of "CR # LF # a @ CR # LF # rest" "int (length a)"] assms
    by (simp add: i is_digit_def)
  moreover have "sint (word_of_int (int (length a)) :: c_int) = int (length a)"
    using assms by (subst sint_sbintrunc') (simp add: signed_take_bit_int_eq_self)
  moreover have "strchr (bulk a @ rest) CR = Some (CR # LF # a @ CR # LF # rest)"
    using strchr_stop [of CR "CHR ''$'' # show_nat (length a)" "LF # a @ CR # LF # rest"] show_nat_chars
    by (simp add: bulk_def)
  moreover have "drop (length a + 4) (CR # LF # a @ CR # LF # rest) = rest" by (simp add: numeral_eq_Suc)
  ultimately show ?thesis
    by (simp add: nextArgument_def ptr_char_def) (simp add: bulk_def)
qed

lemma nextArgument_end: "nextArgument [] = Inr None"
  by (simp add: nextArgument_def ptr_char_def strchr_def c_str_def)

lemma nextArgument_resp:
  assumes "args = a # as" and "length a < 2 ^ 31"
  shows "nextArgument (resp args) = Inr (Some (a @ [CR, LF] @ concat (map bulk as), length a, concat (map bulk as)))"
proof -
  have "strchr (resp args) CHR ''$'' = Some (bulk a @ concat (map bulk as))"
    using strchr_stop [of "CHR ''$''" "CHR ''*'' # show_nat (length args) @ [CR, LF]"] show_nat_chars assms(1)
    by (simp add: resp_def bulk_def)
  moreover have "ptr_char (resp args) = CHR ''*''" by (simp add: resp_def ptr_char_def)
  moreover have "ptr_char (bulk a @ concat (map bulk as)) = CHR ''$''" by (simp add: bulk_def ptr_char_def)
  ultimately have "nextArgument (resp args) = nextArgument (bulk a @ concat (map bulk as))"
    by (simp add: nextArgument_def)
  with nextArgument_bulk [OF assms(2)] show ?thesis by simp
qed

section \<open>Subscriptions\<close>

text \<open>What the dictionary promises.\<close>

definition dict_ok :: "'d env \<Rightarrow> bool" where
  "dict_ok E \<longleftrightarrow>
     (\<forall>k. dictFind E (dictCreate E) k = None) \<and>
     (\<forall>d k v k'. dictFind E (dictReplace E d k v) k' = (if callbackKeyCompare k k' then Some v else dictFind E d k')) \<and>
     (\<forall>d k k'. dictFind E (dictDelete E d k) k' = (if callbackKeyCompare k k' then None else dictFind E d k')) \<and>
     (\<forall>d. dictSize E d = 0 \<longleftrightarrow> (\<forall>k. dictFind E d k = None))"

lemma callbackKeyCompare_eq [simp]: "callbackKeyCompare k k' \<longleftrightarrow> k = k'"
  by (auto simp: callbackKeyCompare_def)

lemma sub_loop_step:
  assumes "length c < 2 ^ 31"
  shows "sub_loop E (bulk c @ rest) cb d [] =
    (let cb = (case dictFind E d c of Some ex \<Rightarrow> cb\<lparr>pending_subs := pending_subs ex + 1\<rparr> | None \<Rightarrow> cb)
     in sub_loop E rest cb (dictReplace E d c cb) [])"
  using nextArgument_bulk [OF assms, of rest]
  by (subst sub_loop.simps) (simp add: callbackValDup_def Let_def)

lemma sub_loop_new:
  assumes "dict_ok E" and "list_all (\<lambda>c. length c < 2 ^ 31) cs" and "distinct cs"
    and "\<And>c. c \<in> set cs \<Longrightarrow> dictFind E d c = None"
  shows "\<exists>d'. sub_loop E (concat (map bulk cs)) cb d [] = Inr (d', []) \<and>
    (\<forall>k. dictFind E d' k = (if k \<in> set cs then Some cb else dictFind E d k))"
  using assms(2-4)
proof (induction cs arbitrary: d)
  case Nil
  then show ?case by (subst sub_loop.simps) (simp add: nextArgument_end)
next
  case (Cons c cs)
  let ?d = "dictReplace E d c cb"
  have f: "dictFind E ?d k = (if k = c then Some cb else dictFind E d k)" for k
    using assms(1) by (auto simp: dict_ok_def)
  have "\<And>x. x \<in> set cs \<Longrightarrow> dictFind E ?d x = None" using Cons.prems f by auto
  then obtain d' where "sub_loop E (concat (map bulk cs)) cb ?d [] = Inr (d', [])"
    "\<forall>k. dictFind E d' k = (if k \<in> set cs then Some cb else dictFind E ?d k)"
    using Cons.IH [of ?d] Cons.prems by auto
  then show ?case using Cons.prems f by (auto simp: sub_loop_step)
qed

text \<open>A dictionary as an association list, with applications that do nothing: it shows that the contract can be met.\<close>

definition alist_env :: "(string \<times> redisCallback) list env" where
  "alist_env = \<lparr>dictCreate = [], dictFind = map_of, dictReplace = (\<lambda>d k v. AList.update k v d),
     dictDelete = (\<lambda>d k. AList.delete k d), dictSize = length, dictEntries = (\<lambda>d. d),
     appendCommand = (@), reply_fn = (\<lambda>_ _ _ _. []), connect_fn = (\<lambda>_ _ _. []), disconnect_fn = (\<lambda>_ _ _. [])\<rparr>"

lemma alist_env_ok: "dict_ok alist_env"
proof -
  have "(\<forall>k. map_of d k = None) \<longleftrightarrow> d = []" for d :: "(string \<times> redisCallback) list"
    by (cases d) (auto simp: map_of_eq_None_iff)
  then show ?thesis
    by (auto simp: dict_ok_def alist_env_def update_conv' delete_conv' fun_upd_def)
qed

definition fresh_context :: "(string \<times> redisCallback) list redisAsyncContext" where
  "fresh_context = the (redisAsyncInitialize alist_env True \<lparr>rc_flags = 0, rc_err = 0, rc_errstr = []\<rparr>)"

section \<open>Shutting down with replies outstanding\<close>

definition answered :: "redisCallback list \<Rightarrow> redisReply list \<Rightarrow> event list" where
  "answered cbs rs = concat (map2 (\<lambda>cb r.
     (case fn cb of None \<Rightarrow> [] | Some f \<Rightarrow> [EvReply f (Some r) (privdata cb)]) @ [EvFreeReply r]) cbs rs)"

lemma quiet_log: "quiet a xs b \<Longrightarrow> quiet a (xs @ [e]) (log e b)"
  unfolding quiet_def by (elim exE conjE) (auto simp: log_def)

lemma process_loop_refusing:
  assumes "\<And>evs f r pd. ApiFree \<notin> set (reply_fn E evs f r pd)"
    and "refusing ac" and "\<not> has ac REDIS_FREEING" and "\<not> has ac REDIS_IN_CALLBACK" and "length rs = length (replies ac)"
  shows "\<exists>ac1 cb1. process_loop E (map Reply rs) cb ac = process_loop E [] cb1 ac1 \<and> \<not> has ac1 REDIS_FREEING \<and>
    quiet (ac\<lparr>replies := []\<rparr>) (answered (replies ac) rs) ac1"
  using assms(2-5)
proof (induction rs arbitrary: ac cb)
  case Nil
  then have eq: "ac\<lparr>replies := []\<rparr> = ac" by simp
  have "quiet (ac\<lparr>replies := []\<rparr>) [] ac" by (subst eq) (rule quiet_refl)
  with Nil.prems show ?case by (auto simp: answered_def simp del: process_loop.simps)
next
  case (Cons r rs)
  then obtain c cs where cs: "replies ac = c # cs" by (cases "replies ac") auto
  let ?a = "ac\<lparr>replies := cs\<rparr>"
  let ?evs = "case fn c of None \<Rightarrow> [] | Some f \<Rightarrow> [EvReply f (Some r) (privdata c)]"
  have "refusing ?a" "\<not> has ?a REDIS_IN_CALLBACK" using Cons.prems by (simp_all add: refusing_def ctx_simps)
  then obtain b where b: "redisRunCallback E c (Some r) ?a = Inr b" and q: "quiet ?a ?evs b"
    using run_refused [of ?a E c "Some r"] by blast
  have fr: "\<not> has b REDIS_FREEING"
    using no_free_run [OF assms(1) _ b] Cons.prems by (simp add: refusing_def ctx_simps)
  let ?b = "log (EvFreeReply r) b"
  have qb: "quiet ?a (?evs @ [EvFreeReply r]) ?b" using q by (rule quiet_log)
  have rb: "refusing ?b" "\<not> has ?b REDIS_IN_CALLBACK" "\<not> has ?b REDIS_FREEING" "replies ?b = cs"
    using quiet_refusing [OF qb] quiet_in_callback [OF qb] quiet_fields [OF qb] \<open>refusing ?a\<close> Cons.prems fr
    by (simp_all add: ctx_simps)
  obtain ac1 cb1 where IH: "process_loop E (map Reply rs) c ?b = process_loop E [] cb1 ac1" "\<not> has ac1 REDIS_FREEING"
    "quiet (?b\<lparr>replies := []\<rparr>) (answered cs rs) ac1"
    using Cons.IH [OF rb(1,3,2), of c] rb(4) Cons.prems(4) cs by auto
  have "process_loop E (map Reply (r # rs)) cb ac = process_loop E (map Reply rs) c ?b"
  proof (cases "fn c")
    case None
    with b have "b = ?a" by (simp add: redisRunCallback_def)
    with None cs show ?thesis by (simp add: shift_replies_def)
  next
    case (Some f)
    with b cs fr show ?thesis by (simp add: shift_replies_def ctx_simps)
  qed
  moreover have "quiet (ac\<lparr>replies := []\<rparr>) (answered (replies ac) (r # rs)) ac1"
    using quiet_trans [OF quiet_replies [OF qb, of "[]"] IH(3)] by (simp add: cs answered_def)
  ultimately show ?case using IH by (auto simp del: process_loop.simps)
qed

lemma disconnect_event_cong:
  "onDisconnect a = onDisconnect b \<Longrightarrow> has a REDIS_CONNECTED = has b REDIS_CONNECTED \<Longrightarrow>
   disconnect_event a st = disconnect_event b st"
  by (simp add: disconnect_event_def split: option.split)

lemma disconnect_event_update [ctx_simps]:
  "k \<noteq> REDIS_CONNECTED \<Longrightarrow> disconnect_event (set_flag k ac) st = disconnect_event ac st"
  "disconnect_event (redisAsyncCopyError ac) st = disconnect_event ac st"
  "disconnect_event (ac\<lparr>c_err := e\<rparr>) st = disconnect_event ac st"
  "disconnect_event (ac\<lparr>wlocked := b\<rparr>) st = disconnect_event ac st"
  by (simp_all add: disconnect_event_def ctx_simps split: option.split) (simp add: redisAsyncCopyError_def)

lemma fields_copyError [ctx_simps]:
  "replies (redisAsyncCopyError ac) = replies ac" "invalid (redisAsyncCopyError ac) = invalid ac"
  "channels (redisAsyncCopyError ac) = channels ac" "patterns (redisAsyncCopyError ac) = patterns ac"
  "events (redisAsyncCopyError ac) = events ac" "wlocked (redisAsyncCopyError ac) = wlocked ac"
  "dicts_live (redisAsyncCopyError ac) = dicts_live ac" "cleanup (redisAsyncCopyError ac) = cleanup ac"
  "err (redisAsyncCopyError ac) = c_err ac"
  by (simp_all add: redisAsyncCopyError_def)

section \<open>Properties\<close>

text \<open>C7: Replies reach the callbacks of their commands, in order. On a connection that is neither shutting down nor
  in a subscription or monitor mode, the \<open>n\<close> replies in the reader are given to the first \<open>n\<close> pending callbacks, one
  each, in the order the commands were issued, even when the callbacks themselves issue further (regular) commands and
  even when memory for those runs out; afterwards exactly the remaining callbacks are pending, followed by the new ones.\<close>

theorem replies_in_order:
  assumes "\<And>evs f r pd. list_all regular_call (reply_fn E evs f r pd)"
    and "serving ac" and "length rs \<le> length (replies ac)"
  shows "\<exists>ac' new. redisProcessCallbacks E (map Reply rs) ac = Some (Inr ac') \<and>
    replies ac' = drop (length rs) (replies ac) @ new \<and>
    delivered (events ac') = delivered (events ac) @ reply_events (replies ac) rs"
  unfolding redisProcessCallbacks_def using assms by (rule process_loop_serving)

lemma fresh_context_simps [simp]:
  "replies fresh_context = []" "events fresh_context = []" "wlocked fresh_context = False" "flags fresh_context = 0"
  "freed fresh_context = False" "dicts_live fresh_context = True" "invalid fresh_context = []" "obuf fresh_context = []"
  "channels fresh_context = []" "patterns fresh_context = []" "mallocs fresh_context = []" "c_err fresh_context = 0"
  "onDisconnect fresh_context = None" "onConnect fresh_context = None" "cleanup fresh_context = False" "err fresh_context = 0"
  "addRead fresh_context = False" "addWrite fresh_context = False" "c_errstr fresh_context = []"
  by (simp_all add: fresh_context_def redisAsyncInitialize_def clear_flag_def alist_env_def)

theorem replies_in_order_witness:
  "\<exists>ac' new. redisProcessCallbacks alist_env (map Reply [ReplyStatus ''OK''])
      (fresh_context\<lparr>replies := [\<lparr>fn = Some 7, privdata = 1, pending_subs = 1\<rparr>, \<lparr>fn = Some 8, privdata = 2, pending_subs = 1\<rparr>]\<rparr>)
      = Some (Inr ac') \<and>
    replies ac' = [\<lparr>fn = Some 8, privdata = 2, pending_subs = 1\<rparr>] @ new \<and>
    delivered (events ac') = [EvReply 7 (Some (ReplyStatus ''OK'')) 1]"
  using replies_in_order [of alist_env
      "fresh_context\<lparr>replies := [\<lparr>fn = Some 7, privdata = 1, pending_subs = 1\<rparr>, \<lparr>fn = Some 8, privdata = 2, pending_subs = 1\<rparr>]\<rparr>"
      "[ReplyStatus ''OK'']"]
  by (simp add: alist_env_def serving_def refusing_def has_def reply_events_def)









text \<open>C29: Once a context is disconnecting or being freed, every way of sending a command returns REDIS_ERR and changes nothing
  at all: no callback is registered, nothing is appended to the output buffer, the mutex is not taken; so does a command
  that could not be formatted.\<close>

theorem no_command_while_closing:
  assumes "has ac REDIS_DISCONNECTING \<or> has ac REDIS_FREEING \<or> cmd = None"
  shows "redisvAsyncCommand E f pd cmd ac = Inr (REDIS_ERR, ac) \<and> redisAsyncCommand E f pd cmd ac = Inr (REDIS_ERR, ac) \<and>
    redisAsyncCommandArgv E f pd cmd ac = Inr (REDIS_ERR, ac) \<and>
    (\<forall>c. cmd = Some c \<longrightarrow> redisAsyncFormattedCommand E f pd c ac = Inr (REDIS_ERR, ac))"
  using assms command_refused [of ac E f pd]
  by (auto simp: redisvAsyncCommand_def redisAsyncCommand_def redisAsyncCommandArgv_def redisAsyncFormattedCommand_def
      refusing_def split: option.split)

theorem no_command_while_closing_witness:
  "redisAsyncCommand alist_env (Some 1) 2 (Some ''x'') (set_flag REDIS_FREEING fresh_context)
    = Inr (REDIS_ERR, set_flag REDIS_FREEING fresh_context)"
  using no_command_while_closing [of "set_flag REDIS_FREEING fresh_context" "Some ''x''" alist_env "Some 1" 2]
  by (simp add: ctx_simps)

text \<open>SUBSCRIBE registers its callback for every channel it names. A SUBSCRIBE command in wire format, with channels
  not subscribed before, switches the context to subscribed mode, registers the callback (with one pending
  confirmation) under each of the channels and leaves every other subscription as it was, pushes nothing onto the list of
  reply callbacks, and appends the command to the output.\<close>

theorem subscribe_registers:
  assumes "dict_ok E" and "list_all (\<lambda>c. length c < 2 ^ 31) cs" and "distinct cs" and "cs \<noteq> []"
    and "\<And>c. c \<in> set cs \<Longrightarrow> dictFind E (channels ac) c = None"
    and "\<not> refusing ac" and "\<not> wlocked ac" and "dicts_live ac" and "mallocs ac = []"
  shows "\<exists>ac'. redisAsyncFormattedCommand E f pd (resp (''SUBSCRIBE'' # cs)) ac = Inr (REDIS_OK, ac') \<and>
    has ac' REDIS_SUBSCRIBED \<and> replies ac' = replies ac \<and> patterns ac' = patterns ac \<and>
    (\<forall>c. dictFind E (channels ac') c =
       (if c \<in> set cs then Some \<lparr>fn = f, privdata = pd, pending_subs = 1\<rparr> else dictFind E (channels ac) c)) \<and>
    obuf ac' = appendCommand E (obuf ac) (resp (''SUBSCRIBE'' # cs))"
proof -
  have n: "nextArgument (resp (''SUBSCRIBE'' # cs)) =
      Inr (Some (''SUBSCRIBE'' @ [CR, LF] @ concat (map bulk cs), 9, concat (map bulk cs)))"
    using nextArgument_resp [OF refl, of "''SUBSCRIBE''" cs] by simp
  have p: "ptr_char (concat (map bulk cs)) = CHR ''$''"
    using assms(4) by (cases cs) (simp_all add: ptr_char_def bulk_def)
  have t: "ptr_char (''SUBSCRIBE'' @ xs) = CHR ''S''" "tolower CHR ''S'' = CHR ''s''" for xs
    by (simp add: ptr_char_def) code_simp
  have s: "starts_nocase (''SUBSCRIBE'' @ [CR, LF] @ xs) (''subscribe'' @ [CR, LF])" for xs
  proof -
    have "map tolower (''SUBSCRIBE'' @ [CR, LF]) = ''subscribe'' @ [CR, LF]" by code_simp
    then show ?thesis by (simp add: starts_nocase_def)
  qed
  obtain d where d: "sub_loop E (concat (map bulk cs)) \<lparr>fn = f, privdata = pd, pending_subs = 1\<rparr> (channels ac) [] = Inr (d, [])"
    "\<forall>k. dictFind E d k = (if k \<in> set cs then Some \<lparr>fn = f, privdata = pd, pending_subs = 1\<rparr> else dictFind E (channels ac) k)"
    using sub_loop_new [OF assms(1-3,5)] by blast
  show ?thesis
    using assms(6-9) n p t s d
    by (simp add: redisAsyncFormattedCommand_def redisAsyncCommand_impl_def refusing_def append_and_schedule_def)
      (simp add: EL_ADD_WRITE_def ctx_simps)
qed

theorem subscribe_registers_witness:
  "\<exists>ac'. redisAsyncFormattedCommand alist_env (Some 3) 4 (resp [''SUBSCRIBE'', ''news'']) fresh_context = Inr (REDIS_OK, ac') \<and>
    has ac' REDIS_SUBSCRIBED \<and> dictFind alist_env (channels ac') ''news'' = Some \<lparr>fn = Some 3, privdata = 4, pending_subs = 1\<rparr>"
  using subscribe_registers [OF alist_env_ok, of "[''news'']" fresh_context "Some 3" 4]
  by (force simp: refusing_def has_def [of fresh_context] alist_env_def)

text \<open>Subscribing and unsubscribing returns the connection to normal mode. When a channel registered by one SUBSCRIBE is
  confirmed and later an unsubscribe message with count 0 arrives for it, and no other channel or pattern is registered,
  each message is handed to the registered callback, the channel is removed, and the subscribed flag is cleared.\<close>

theorem unsubscribe_returns_to_normal:
  assumes "dict_ok E" and "dictFind E (channels ac) c = Some cb" and "pending_subs cb = 1"
    and "\<And>k. k \<noteq> c \<Longrightarrow> dictFind E (channels ac) k = None" and "\<And>k. dictFind E (patterns ac) k = None"
  shows "\<exists>ac1 ac2. redisGetSubscribeCallback E (ReplyArray [ReplyString ''subscribe'', ReplyString c, ReplyInteger 1]) dst ac
      = Inr (cb\<lparr>pending_subs := 0\<rparr>, ac1) \<and> has ac1 REDIS_SUBSCRIBED = has ac REDIS_SUBSCRIBED \<and>
    redisGetSubscribeCallback E (ReplyArray [ReplyString ''unsubscribe'', ReplyString c, ReplyInteger 0]) dst' ac1
      = Inr (cb\<lparr>pending_subs := 0\<rparr>, ac2) \<and> dictSize E (channels ac2) = 0 \<and> \<not> has ac2 REDIS_SUBSCRIBED"
proof -
  let ?cb = "cb\<lparr>pending_subs := 0\<rparr>"
  let ?d1 = "dictReplace E (channels ac) c ?cb"
  let ?d2 = "dictDelete E ?d1 c"
  have t: "tolower CHR ''s'' = CHR ''s''" "tolower CHR ''u'' = CHR ''u''"
    "equal_nocase ''subscribe'' ''subscribe''" "equal_nocase ''unsubscribe'' ''unsubscribe''"
    "\<not> equal_nocase ''subscribe'' ''unsubscribe''" "\<not> equal_nocase ''unsubscribe'' ''subscribe''" by code_simp+
  have f1: "dictFind E ?d1 c = Some ?cb" and f2: "dictFind E ?d2 k = None" for k
    using assms(1,4) by (auto simp: dict_ok_def)
  then have z: "dictSize E ?d2 = 0" "dictSize E (patterns ac) = 0" using assms(1,5) by (auto simp: dict_ok_def)
  have 1: "redisGetSubscribeCallback E (ReplyArray [ReplyString ''subscribe'', ReplyString c, ReplyInteger 1]) dst ac
      = Inr (?cb, ac\<lparr>channels := ?d1\<rparr>)"
    using assms(2,3) t by (simp add: redisGetSubscribeCallback_def ptr_char_def Let_def)
  have 2: "redisGetSubscribeCallback E (ReplyArray [ReplyString ''unsubscribe'', ReplyString c, ReplyInteger 0]) dst'
      (ac\<lparr>channels := ?d1\<rparr>) = Inr (?cb, clear_flag REDIS_SUBSCRIBED (ac\<lparr>channels := ?d2\<rparr>))"
    using f1 t z by (simp add: redisGetSubscribeCallback_def ptr_char_def Let_def)
  from 1 2 z show ?thesis by (simp add: ctx_simps)
qed

theorem unsubscribe_returns_to_normal_witness:
  "\<exists>ac1 ac2. redisGetSubscribeCallback alist_env (ReplyArray [ReplyString ''subscribe'', ReplyString ''news'', ReplyInteger 1])
      \<lparr>fn = None, privdata = 0, pending_subs = 0\<rparr>
      (fresh_context\<lparr>channels := [(''news'', \<lparr>fn = Some 3, privdata = 4, pending_subs = 1\<rparr>)]\<rparr>)
      = Inr (\<lparr>fn = Some 3, privdata = 4, pending_subs = 0\<rparr>, ac1) \<and>
    redisGetSubscribeCallback alist_env (ReplyArray [ReplyString ''unsubscribe'', ReplyString ''news'', ReplyInteger 0])
      \<lparr>fn = None, privdata = 0, pending_subs = 0\<rparr> ac1
      = Inr (\<lparr>fn = Some 3, privdata = 4, pending_subs = 0\<rparr>, ac2) \<and> \<not> has ac2 REDIS_SUBSCRIBED"
  using unsubscribe_returns_to_normal [OF alist_env_ok, of
      "fresh_context\<lparr>channels := [(''news'', \<lparr>fn = Some 3, privdata = 4, pending_subs = 1\<rparr>)]\<rparr>" "''news''"
      "\<lparr>fn = Some 3, privdata = 4, pending_subs = 1\<rparr>" "\<lparr>fn = None, privdata = 0, pending_subs = 0\<rparr>"
      "\<lparr>fn = None, privdata = 0, pending_subs = 0\<rparr>"]
  by (auto simp: alist_env_def)

lemma addRead_set_flag: "addRead (set_flag k c) = addRead c"
  by (simp add: set_flag_def)

section \<open>Where the code falls short\<close>

text \<open>The callback variable of \<open>redisProcessCallbacks\<close> is not reset between replies. In subscribed mode, a message for
  a channel that is not registered is handed to the callback of the message before it.\<close>

theorem stale_callback:
  assumes "replies ac = []" and "has ac REDIS_SUBSCRIBED"
    and "dictFind E (channels ac) a = Some cb" and "dictFind E (channels ac) b = None" and "fn cb = Some f"
    and "\<And>evs g r pd. reply_fn E evs g r pd = []" and "\<not> has ac REDIS_FREEING" and "\<not> has ac REDIS_DISCONNECTING"
    and "\<not> has ac REDIS_MONITORING"
  shows "\<exists>ac'. redisProcessCallbacks E
      [Reply (ReplyArray [ReplyString ''message'', ReplyString a, ReplyString x]),
       Reply (ReplyArray [ReplyString ''message'', ReplyString b, ReplyString y])] ac = Some (Inr ac') \<and>
    delivered (events ac') = delivered (events ac) @
      [EvReply f (Some (ReplyArray [ReplyString ''message'', ReplyString a, ReplyString x])) (privdata cb),
       EvReply f (Some (ReplyArray [ReplyString ''message'', ReplyString b, ReplyString y])) (privdata cb)]"
proof -
  have t: "tolower CHR ''m'' = CHR ''m''" "\<not> equal_nocase ''message'' ''subscribe''" "\<not> equal_nocase ''message'' ''unsubscribe''"
    by code_simp+
  have put: "ac\<lparr>channels := channels ac\<rparr> = ac" by simp
  have r: "redisRunCallback E cb (Some rp) c = Inr (clear_flag REDIS_IN_CALLBACK (log (EvReply f (Some rp) (privdata cb)) (set_flag REDIS_IN_CALLBACK c)))"
    for rp c using assms(5,6) by (simp add: redisRunCallback_def)
  show ?thesis
    using assms t r put
    by (simp add: redisProcessCallbacks_def shift_replies_def redisGetSubscribeCallback_def ptr_char_def ctx_simps)
qed

theorem stale_callback_witness:
  "\<exists>ac'. redisProcessCallbacks alist_env
      [Reply (ReplyArray [ReplyString ''message'', ReplyString ''a'', ReplyString ''x'']),
       Reply (ReplyArray [ReplyString ''message'', ReplyString ''b'', ReplyString ''y''])]
      (set_flag REDIS_SUBSCRIBED (fresh_context\<lparr>channels := [(''a'', \<lparr>fn = Some 1, privdata = 2, pending_subs = 0\<rparr>)]\<rparr>))
      = Some (Inr ac') \<and>
    delivered (events ac') =
      [EvReply 1 (Some (ReplyArray [ReplyString ''message'', ReplyString ''a'', ReplyString ''x''])) 2,
       EvReply 1 (Some (ReplyArray [ReplyString ''message'', ReplyString ''b'', ReplyString ''y''])) 2]"
  using stale_callback [of "set_flag REDIS_SUBSCRIBED (fresh_context\<lparr>channels := [(''a'', \<lparr>fn = Some 1, privdata = 2, pending_subs = 0\<rparr>)]\<rparr>)"
      alist_env "''a''" "\<lparr>fn = Some 1, privdata = 2, pending_subs = 0\<rparr>" "''b''" 1 "''x''" "''y''"]
  by (simp add: ctx_simps has_def [of fresh_context] alist_env_def)

text \<open>The pending count of one channel leaks into the next. SUBSCRIBE of two channels, of which the first already has
  \<open>n\<close> confirmations pending and the second is new, registers the second with \<open>n + 1\<close> pending confirmations instead of
  one, so that it will not be removed when it is unsubscribed.\<close>

theorem pending_subs_leak:
  assumes "dict_ok E" and "length a < 2 ^ 31" and "length b < 2 ^ 31" and "a \<noteq> b"
    and "dictFind E d a = Some ex" and "dictFind E d b = None"
  shows "\<exists>d'. sub_loop E (bulk a @ bulk b) \<lparr>fn = f, privdata = pd, pending_subs = 1\<rparr> d [] = Inr (d', []) \<and>
    dictFind E d' b = Some \<lparr>fn = f, privdata = pd, pending_subs = pending_subs ex + 1\<rparr>"
proof -
  have e: "sub_loop E [] cb d [] = Inr (d, [])" for cb d by (subst sub_loop.simps) (simp add: nextArgument_end)
  have "dictFind E (dictReplace E d a v) b = None" "dictFind E (dictReplace E d2 b v) b = Some v" for v d2
    using assms(1,4,6) by (auto simp: dict_ok_def)
  then show ?thesis
    using assms(5) sub_loop_step [OF assms(2), of E "bulk b"] sub_loop_step [OF assms(3), of E "[]"] e by (simp add: Let_def)
qed

theorem pending_subs_leak_witness:
  "\<exists>d'. sub_loop alist_env (bulk ''a'' @ bulk ''b'') \<lparr>fn = Some 1, privdata = 0, pending_subs = 1\<rparr>
      [(''a'', \<lparr>fn = Some 1, privdata = 0, pending_subs = 1\<rparr>)] [] = Inr (d', []) \<and>
    map_of d' ''b'' = Some \<lparr>fn = Some 1, privdata = 0, pending_subs = 2\<rparr>"
  using pending_subs_leak [OF alist_env_ok, of "''a''" "''b''" "[(''a'', \<lparr>fn = Some 1, privdata = 0, pending_subs = 1\<rparr>)]"
      "\<lparr>fn = Some 1, privdata = 0, pending_subs = 1\<rparr>" "Some 1" 0]
  by (simp add: alist_env_def)

text \<open>A monitored connection loses messages after a read that completes no reply. The monitor callback is pushed again
  when the reader has no more replies; if the reader had none at all, an empty callback is pushed behind it, and the
  second of the next two messages to arrive in separate reads is dropped.\<close>

theorem monitor_message_lost:
  assumes "has ac REDIS_CONNECTED" and "has ac REDIS_MONITORING" and "replies ac = [cb]" and "fn cb = Some f"
    and "\<not> refusing ac" and "\<not> freed ac" and "mallocs ac = []" and "\<not> addRead ac"
    and "\<And>evs g r pd. reply_fn E evs g r pd = []"
  shows "\<exists>ac1 ac2 ac3. redisAsyncHandleRead E SockOk (ReadOk []) ac = Some (Inr ac1) \<and>
    redisAsyncHandleRead E SockOk (ReadOk [Reply r1]) ac1 = Some (Inr ac2) \<and>
    redisAsyncHandleRead E SockOk (ReadOk [Reply r2]) ac2 = Some (Inr ac3) \<and>
    delivered (events ac3) = delivered (events ac) @ [EvReply f (Some r1) (privdata cb)]"
proof -
  let ?z = "\<lparr>fn = None, privdata = 0, pending_subs = 0\<rparr> :: redisCallback"
  have h: "redisAsyncHandleRead E SockOk (ReadOk items) c = process_loop E items ?z c"
    if "has c REDIS_CONNECTED" "\<not> freed c" "\<not> addRead c" for items c
    using that by (simp add: redisAsyncHandleRead_def when_connected_def redisProcessCallbacks_def EL_ADD_READ_def)
  have push: "push_replies c a = a\<lparr>replies := replies a @ [c]\<rparr>" if "mallocs a = []" for c and a :: "'a redisAsyncContext"
    using that by (cases a) (simp add: push_replies_def push_cb_def)
  have r: "redisRunCallback E cb (Some rp) c = Inr (clear_flag REDIS_IN_CALLBACK (log (EvReply f (Some rp) (privdata cb)) (set_flag REDIS_IN_CALLBACK c)))"
    for rp c using assms(4,9) by (simp add: redisRunCallback_def)
  have keep: "addRead (log e c) = addRead c" "addRead (set_flag k c) = addRead c" "addRead (clear_flag k c) = addRead c"
    for e k and c :: "'a redisAsyncContext"
    by (simp_all add: log_def set_flag_def clear_flag_def)
  let ?a1 = "ac\<lparr>replies := [cb, ?z]\<rparr>"
  have 1: "redisAsyncHandleRead E SockOk (ReadOk []) ac = Some (Inr ?a1)"
    using assms by (simp add: h push refusing_def)
  let ?b = "log (EvFreeReply r1) (clear_flag REDIS_IN_CALLBACK (log (EvReply f (Some r1) (privdata cb))
      (set_flag REDIS_IN_CALLBACK (?a1\<lparr>replies := [?z]\<rparr>))))"
  let ?a2 = "?b\<lparr>replies := [?z, cb]\<rparr>"
  have 2: "redisAsyncHandleRead E SockOk (ReadOk [Reply r1]) ?a1 = Some (Inr ?a2)"
    using assms r by (simp add: h push refusing_def shift_replies_def ctx_simps keep)
  let ?c = "log (EvFreeReply r2) (?a2\<lparr>replies := [cb]\<rparr>)"
  have 3: "redisAsyncHandleRead E SockOk (ReadOk [Reply r2]) ?a2 = Some (Inr (?c\<lparr>replies := [cb, ?z]\<rparr>))"
    using assms by (simp add: h push refusing_def shift_replies_def ctx_simps keep)
  have "delivered (events (?c\<lparr>replies := [cb, ?z]\<rparr>)) = delivered (events ac) @ [EvReply f (Some r1) (privdata cb)]"
    by (simp add: ctx_simps)
  with 1 2 3 show ?thesis by blast
qed

theorem monitor_message_lost_witness:
  "\<exists>ac1 ac2 ac3. redisAsyncHandleRead alist_env SockOk (ReadOk [])
      (set_flag REDIS_MONITORING (set_flag REDIS_CONNECTED (fresh_context\<lparr>replies := [\<lparr>fn = Some 1, privdata = 2, pending_subs = 1\<rparr>]\<rparr>)))
      = Some (Inr ac1) \<and>
    redisAsyncHandleRead alist_env SockOk (ReadOk [Reply (ReplyStatus ''one'')]) ac1 = Some (Inr ac2) \<and>
    redisAsyncHandleRead alist_env SockOk (ReadOk [Reply (ReplyStatus ''two'')]) ac2 = Some (Inr ac3) \<and>
    delivered (events ac3) = [EvReply 1 (Some (ReplyStatus ''one'')) 2]"
  using monitor_message_lost [of
      "set_flag REDIS_MONITORING (set_flag REDIS_CONNECTED (fresh_context\<lparr>replies := [\<lparr>fn = Some 1, privdata = 2, pending_subs = 1\<rparr>]\<rparr>))"
      "\<lparr>fn = Some 1, privdata = 2, pending_subs = 1\<rparr>" 1 alist_env "ReplyStatus ''one''" "ReplyStatus ''two''"]
  by (simp add: ctx_simps has_def [of fresh_context] alist_env_def refusing_def addRead_set_flag)

text \<open>The connect callback runs without REDIS_IN_CALLBACK, so freeing the context there is not deferred: if it calls
  \<open>redisAsyncFree\<close>, the handler that called it goes on with the freed context.\<close>

theorem free_in_connect_callback_faults:
  assumes "\<not> freed ac" and "dicts_live ac" and "\<not> has ac REDIS_IN_CALLBACK" and "\<not> has ac REDIS_CONNECTED"
    and "onConnect ac = Some f" and "\<And>evs g st. connect_fn E evs g st = [ApiFree]"
    and "\<And>evs g st. commands_only (disconnect_fn E evs g st)"
  shows "redisAsyncHandleRead E SockOk rd ac = Some (Inl UseAfterFree) \<and>
    redisAsyncHandleWrite E SockOk wr ac = Some (Inl UseAfterFree)"
proof -
  let ?a = "set_flag REDIS_FREEING (log (EvConnect f REDIS_OK) (set_flag REDIS_CONNECTED ac))"
  have "refusing ?a" "\<not> has ?a REDIS_IN_CALLBACK" "dicts_live ?a" using assms by (simp_all add: refusing_def ctx_simps)
  with free_impl_refused [of ?a E] assms(7) obtain ac' where f: "redisAsyncFree_impl E ?a = Some (Inr ac')" "freed ac'" by auto
  have on: "onConnect (set_flag REDIS_CONNECTED ac) = Some f" using assms(5) by (simp add: set_flag_def)
  have "redisAsyncHandleConnect E SockOk ac = Some (Inr (REDIS_OK, ac'))"
    using assms f on by (simp add: redisAsyncHandleConnect_def run_onConnect_def redisAsyncFree_def Let_def ctx_simps)
  then show ?thesis using assms f
    by (simp add: redisAsyncHandleRead_def redisAsyncHandleWrite_def when_connected_def)
qed

theorem free_in_connect_callback_faults_witness:
  "redisAsyncHandleRead (alist_env\<lparr>connect_fn := (\<lambda>_ _ _. [ApiFree])\<rparr>) SockOk (ReadOk []) (fresh_context\<lparr>onConnect := Some 1\<rparr>)
    = Some (Inl UseAfterFree)"
  using free_in_connect_callback_faults [of "fresh_context\<lparr>onConnect := Some 1\<rparr>" 1
      "alist_env\<lparr>connect_fn := (\<lambda>_ _ _. [ApiFree])\<rparr>" "ReadOk []" "WriteOk 0"]
  by (simp add: has_def alist_env_def commands_only_def)

end
