(* ===== verification/UriCodec.thy ===== *)
theory UriCodec
  imports CText
begin

text \<open>
  The short-link codec of \<^verbatim>\<open>src/common/UriCodec.h\<close>: a 64-bit message id as eleven characters of
  a 64-character alphabet, and a phone number hidden behind such a text. Reads and writes outside a table or a
  buffer give \<^const>\<open>None\<close>.
\<close>

section \<open>Message ids\<close>

definition CRC_TABLE_SIZE :: nat where "CRC_TABLE_SIZE = 64"
definition CRC_URISTR_LEN :: nat where "CRC_URISTR_LEN = 11"

definition crc64tab :: string where
  "crc64tab = ''0123456789ABCDEFGHIJKLMNOPQRSTUVWXYZabcdefghijklmnopqrstuvwxyz_-''"

text \<open>The loop of \<open>encode\<close>, \<open>n\<close> rounds to go.\<close>

fun encode_loop :: "nat \<Rightarrow> u64 \<Rightarrow> string" where
  "encode_loop 0 messId = []"
| "encode_loop (Suc n) messId = crc64tab ! unat (messId AND 0x3f) # encode_loop n (drop_bit 6 messId)"

definition encode :: "u64 \<Rightarrow> string" where
  "encode messId = c_str (encode_loop CRC_URISTR_LEN messId)"

function crc_index_loop :: "char \<Rightarrow> nat \<Rightarrow> nat" where
  "crc_index_loop c sub =
     (if sub < CRC_TABLE_SIZE then if c = crc64tab ! sub then sub else crc_index_loop c (sub + 1) else sub)"
  by pat_completeness auto
termination
  by (relation "measure (\<lambda>(c, sub). CRC_TABLE_SIZE - sub)") auto

declare crc_index_loop.simps [simp del]

definition crc_index :: "char \<Rightarrow> int" where
  "crc_index c = (let sub = crc_index_loop c 0 in if sub \<ge> CRC_TABLE_SIZE then - 1 else int sub)"

text \<open>The loop of \<open>decode\<close>, from position \<open>i\<close> down; the first argument is the text.\<close>

fun decode_loop :: "string \<Rightarrow> nat \<Rightarrow> u64 \<Rightarrow> u64" where
  "decode_loop messStr 0 messId = messId"
| "decode_loop messStr (Suc i) messId =
     (let index = crc_index (messStr ! i) in
      if index < 0 then 0
      else let messId = messId OR word_of_int (crc_index (messStr ! i))
           in decode_loop messStr i (if i > 0 then push_bit 6 messId else messId))"

definition decode :: "string \<Rightarrow> u64" where
  "decode messStr = (if length messStr \<noteq> CRC_URISTR_LEN then 0 else decode_loop messStr 11 0)"

section \<open>Phone numbers\<close>

text \<open>
  The loop of \<open>uriPhoneEncode\<close> from position \<open>i\<close> of the number on; \<open>pp\<close> is the start of the buffer. A character that
  is not a digit and has a negative \<open>char\<close> value gives a negative quotient or remainder, an index
  outside the table.
\<close>

fun phone_enc_loop :: "string \<Rightarrow> nat \<Rightarrow> string \<Rightarrow> string option" where
  "phone_enc_loop pp i [] = Some []"
| "phone_enc_loop pp i (q # qs) =
     (if schar q < 48 \<or> schar q > 57 then
        (if schar q < 0 then None
         else do {
           rest \<leftarrow> phone_enc_loop pp (i + 1) qs;
           Some (CHR ''@'' # crc64tab ! (code q div CRC_TABLE_SIZE) # crc64tab ! (code q mod CRC_TABLE_SIZE) # rest)
         })
      else
        (let index = crc_index (pp ! (i mod CRC_URISTR_LEN)) + (schar q - 48) in
         if index < 0 then None
         else do {
           rest \<leftarrow> phone_enc_loop pp (i + 1) qs;
           Some (crc64tab ! (nat index mod CRC_TABLE_SIZE) # rest)
         }))"

text \<open>
  \<open>memcpy\<close> reads eleven bytes of the text with its terminator; the 128 bytes of \<open>buff\<close> must hold the result and a
  terminator for \<open>strlen\<close>.
\<close>

definition uriPhoneEncode :: "string \<Rightarrow> string \<Rightarrow> string option" where
  "uriPhoneEncode u phoneNum =
     (if length u + 1 < CRC_URISTR_LEN then None
      else let pp = take CRC_URISTR_LEN (u @ [NUL])
           in do {
             tx \<leftarrow> phone_enc_loop pp 0 phoneNum;
             if length (pp @ tx) > 127 then None else Some (c_str (pp @ tx))
           })"

text \<open>
  The loop of \<open>uriPhoneDecode\<close>: \<open>pChar\<close> is the rest of the text, \<open>out\<close> what was written to \<open>buff\<close>; the result is the early
  return code or the text. \<open>numLen\<close> is a 64-bit \<open>size_t\<close>.
\<close>

fun phone_dec_loop :: "string \<Rightarrow> nat \<Rightarrow> nat \<Rightarrow> string \<Rightarrow> string \<Rightarrow> (int + string) option" where
  "phone_dec_loop enc i numLen [] out = (if i < numLen then Some (Inl (- 1)) else Some (Inr out))"
| "phone_dec_loop enc i numLen (c # p) out =
     (if i < numLen then
        (if c = CHR ''@'' then
           (case p of
              [] \<Rightarrow> None
            | [x] \<Rightarrow> Some (Inl (crc_index x))
            | x # y # r \<Rightarrow>
                (let index = crc_index x; sub = crc_index y in
                 if index < 0 \<or> sub < 0 then Some (Inl index)
                 else phone_dec_loop enc (i + 1) ((numLen + (2 ^ 64 - 2)) mod 2 ^ 64) r
                        (out @ [char_of (nat (index * int CRC_TABLE_SIZE + sub))])))
         else
           (let index = crc_index c; sub = crc_index (enc ! (i mod CRC_URISTR_LEN)) in
            if index < 0 \<or> sub < 0 then Some (Inl index)
            else phone_dec_loop enc (i + 1) numLen p
                   (out @ [char_of (nat (if index \<ge> sub then index - sub + 48 else index - sub + int CRC_TABLE_SIZE + 48))])))
      else Some (Inr out))"

text \<open>The returned code, and what \<open>u\<close> and \<open>phoneNum\<close> are assigned (\<^const>\<open>None\<close> where they are left alone).\<close>

definition uriPhoneDecode :: "string \<Rightarrow> (int \<times> string option \<times> string option) option" where
  "uriPhoneDecode encondeStr =
     (if length encondeStr < CRC_URISTR_LEN then Some (- 1, None, None)
      else let u = take CRC_URISTR_LEN encondeStr
           in case phone_dec_loop encondeStr 0 (length encondeStr - CRC_URISTR_LEN) (drop CRC_URISTR_LEN encondeStr) [] of
                None \<Rightarrow> None
              | Some (Inl ret) \<Rightarrow> Some (ret, Some u, None)
              | Some (Inr out) \<Rightarrow> if length out > 127 then None else Some (0, Some u, Some (c_str out)))"

section \<open>The alphabet\<close>

lemma length_crc64tab [simp]: "length crc64tab = 64"
  by (simp add: crc64tab_def)

lemma tab_chars: "list_all (\<lambda>c. c \<noteq> NUL \<and> c \<noteq> CHR ''@'') crc64tab"
  by (simp add: crc64tab_def)

lemma tab_nth [simp]:
  assumes "k < 64"
  shows "crc64tab ! k \<noteq> NUL" "NUL \<noteq> crc64tab ! k" "crc64tab ! k \<noteq> CHR ''@''"
proof -
  have "crc64tab ! k \<noteq> NUL \<and> crc64tab ! k \<noteq> CHR ''@''" using tab_chars assms by (simp add: list_all_length)
  then show "crc64tab ! k \<noteq> NUL" "NUL \<noteq> crc64tab ! k" "crc64tab ! k \<noteq> CHR ''@''" by metis+
qed

lemma crc64tab_distinct: "distinct crc64tab"
  by (simp add: crc64tab_def)

lemma crc_index_loop_nth: "sub \<le> k \<Longrightarrow> k < 64 \<Longrightarrow> crc_index_loop (crc64tab ! k) sub = k"
proof (induction "k - sub" arbitrary: sub)
  case 0
  then show ?case by (subst crc_index_loop.simps) (simp add: CRC_TABLE_SIZE_def)
next
  case (Suc n)
  then have "crc64tab ! k \<noteq> crc64tab ! sub"
    using nth_eq_iff_index_eq [OF crc64tab_distinct, of k sub] by simp
  with Suc show ?case by (subst crc_index_loop.simps) (simp add: CRC_TABLE_SIZE_def)
qed

lemma crc_index_nth [simp]: "k < 64 \<Longrightarrow> crc_index (crc64tab ! k) = int k"
  using crc_index_loop_nth [of 0 k] by (simp add: crc_index_def CRC_TABLE_SIZE_def)

lemma crc_index_loop_range: "crc_index_loop c sub < 64 \<Longrightarrow> crc64tab ! crc_index_loop c sub = c"
proof (induction c sub rule: crc_index_loop.induct)
  case (1 c sub)
  then show ?case
    by (subst (asm) (2) crc_index_loop.simps, subst crc_index_loop.simps) (auto simp: CRC_TABLE_SIZE_def split: if_splits)
qed

lemma crc_index_char: "crc_index c \<ge> 0 \<longleftrightarrow> c \<in> set crc64tab"
proof
  assume "crc_index c \<ge> 0"
  then have "crc_index_loop c 0 < 64" by (auto simp: crc_index_def CRC_TABLE_SIZE_def Let_def split: if_splits)
  then show "c \<in> set crc64tab" using crc_index_loop_range [of c 0] by (metis length_crc64tab nth_mem)
next
  assume "c \<in> set crc64tab"
  then obtain k where "k < 64" "c = crc64tab ! k" by (metis in_set_conv_nth length_crc64tab)
  then show "crc_index c \<ge> 0" by simp
qed

lemma crc_index_less: "crc_index c < 64"
  by (auto simp: crc_index_def CRC_TABLE_SIZE_def Let_def)

section \<open>Round trips\<close>

lemma low_bits_less: "unat (m AND 0x3f :: u64) < 64"
proof -
  have "(m AND 0x3f) = take_bit 6 m" by (simp add: take_bit_eq_mask mask_eq_exp_minus_1)
  then show ?thesis using take_bit_nat_less_exp [of 6 "unat m"] by (simp add: unsigned_take_bit_eq)
qed

lemma encode_loop_nth: "i < n \<Longrightarrow> encode_loop n m ! i = crc64tab ! unat (drop_bit (6 * i) m AND 0x3f)"
proof (induction n arbitrary: m i)
  case (Suc n)
  then show ?case by (cases i) (simp_all add: drop_bit_drop_bit algebra_simps)
qed simp

lemma length_encode_loop [simp]: "length (encode_loop n m) = n"
  by (induction n arbitrary: m) auto

lemma encode_loop_chars: "set (encode_loop n m) \<subseteq> set crc64tab"
  using low_bits_less by (induction n arbitrary: m) auto

lemma c_str_tab: "set s \<subseteq> set crc64tab \<Longrightarrow> c_str s = s"
  using tab_chars unfolding c_str_def by (intro takeWhile_all) (auto simp: list_all_iff)

lemma encode_eq: "encode m = encode_loop 11 m"
  using c_str_tab [OF encode_loop_chars] by (simp add: encode_def CRC_URISTR_LEN_def)

lemma six_bits:
  "push_bit 6 (drop_bit (6 * Suc i) m) OR (drop_bit (6 * i) m AND 0x3f) = (drop_bit (6 * i) m :: u64)"
proof -
  have m: "(0x3f :: u64) = mask 6" by (simp add: mask_eq_exp_minus_1)
  show ?thesis unfolding m by (intro bit_word_eqI) (auto simp: bit_simps algebra_simps)
qed

lemma decode_loop_encode:
  "i < 11 \<Longrightarrow> decode_loop (encode m) (Suc i) (push_bit 6 (drop_bit (6 * Suc i) m)) = m"
proof (induction i)
  case 0
  have "word_of_int (int (unat (m AND 0x3f))) = (m AND 0x3f)" by simp
  then show ?case using six_bits [of 0 m] encode_loop_nth [of 0 11 m] low_bits_less [of m]
    by (simp add: encode_eq)
next
  case (Suc i)
  let ?w = "drop_bit (6 * Suc i) m AND 0x3f :: u64"
  have n: "encode m ! Suc i = crc64tab ! unat ?w" using encode_loop_nth [of "Suc i" 11 m] Suc.prems by (simp add: encode_eq)
  have x: "crc_index (encode m ! Suc i) = int (unat ?w)" using low_bits_less [of "drop_bit (6 * Suc i) m"] n by simp
  have w: "word_of_int (int (unat ?w)) = ?w" by simp
  show ?case using Suc six_bits [of "Suc i" m] by (simp add: x w)
qed

lemma decode_encode: "decode (encode m) = m"
proof -
  have "push_bit 6 (drop_bit (6 * Suc 10) m) = (0 :: u64)" by (intro bit_word_eqI) (auto simp: bit_simps)
  moreover have "length (encode m) = CRC_URISTR_LEN" by (simp add: encode_eq CRC_URISTR_LEN_def)
  ultimately show ?thesis using decode_loop_encode [of 10 m] by (simp add: decode_def)
qed

interpretation uri: codec encode "\<lambda>s. Some (decode s)" "\<lambda>_. True"
  by unfold_locales (simp add: decode_encode)

text \<open>Characters a phone number may contain: ASCII without NUL.\<close>

definition phone_char :: "char \<Rightarrow> bool" where
  "phone_char c \<longleftrightarrow> c \<noteq> NUL \<and> code c < 128"

lemma phone_char_schar: "phone_char c \<Longrightarrow> schar c = int (code c)"
  by (simp add: phone_char_def schar_def)

lemma special_char:
  assumes "phone_char q"
  shows "char_of (nat (int (code q div 64) * int CRC_TABLE_SIZE + int (code q mod 64))) = q" "code q div 64 < 64" "code q mod 64 < 64"
proof -
  have "int (code q div 64) * int CRC_TABLE_SIZE + int (code q mod 64) = int (code q div 64 * 64 + code q mod 64)"
    by (simp only: CRC_TABLE_SIZE_def of_nat_add of_nat_mult of_nat_numeral)
  then have "nat (int (code q div 64) * int CRC_TABLE_SIZE + int (code q mod 64)) = code q"
    by (simp only: nat_int div_mult_mod_eq)
  then show "char_of (nat (int (code q div 64) * int CRC_TABLE_SIZE + int (code q mod 64))) = q" by simp
  show "code q div 64 < 64" "code q mod 64 < 64" using assms by (auto simp: phone_char_def)
qed

lemma digit_char:
  assumes "0 \<le> s" and "s < 64" and "48 \<le> code q" and "code q \<le> 57"
  shows "let index = (s + (int (code q) - 48)) mod 64
    in char_of (nat (if index \<ge> s then index - s + 48 else index - s + 64 + 48)) = q"
proof (cases "s + (int (code q) - 48) < 64")
  case True
  then have "(s + (int (code q) - 48)) mod 64 = s + (int (code q) - 48)" using assms by simp
  then show ?thesis using assms by (simp add: Let_def)
next
  case False
  then have "(s + (int (code q) - 48)) mod 64 = (s + (int (code q) - 48) - 64) mod 64"
    using mod_pos_geq [of 64 "s + (int (code q) - 48)"] by simp
  also have "\<dots> = s + (int (code q) - 48) - 64"
    by (rule mod_pos_pos_trivial) (use False assms in simp_all)
  finally show ?thesis using assms by (simp add: Let_def)
qed

lemma phone_loop_roundtrip:
  assumes "set pp \<subseteq> set crc64tab" and "length pp = 11" and "list_all phone_char qs"
  shows "\<exists>tx. phone_enc_loop pp i qs = Some tx \<and> NUL \<notin> set tx \<and>
    (\<forall>enc numLen out. take 11 enc = pp \<longrightarrow> numLen = i + length tx \<longrightarrow> numLen < 2 ^ 64 \<longrightarrow>
      phone_dec_loop enc i numLen tx out = Some (Inr (out @ qs)))"
  using assms(3)
proof (induction qs arbitrary: i)
  case Nil
  then show ?case by simp
next
  case (Cons q qs)
  then have "list_all phone_char qs" by simp
  from Cons.IH [OF this, of "i + 1"] obtain tx where tx: "phone_enc_loop pp (i + 1) qs = Some tx" "NUL \<notin> set tx"
    and IH: "\<And>enc numLen out. take 11 enc = pp \<Longrightarrow> numLen = i + 1 + length tx \<Longrightarrow> numLen < 2 ^ 64 \<Longrightarrow>
      phone_dec_loop enc (i + 1) numLen tx out = Some (Inr (out @ qs))" by blast
  have q: "phone_char q" "schar q = int (code q)" using Cons.prems phone_char_schar by auto
  show ?case
  proof (cases "48 \<le> code q \<and> code q \<le> 57")
    case False
    note sp = special_char [OF q(1)]
    have e: "phone_enc_loop pp i (q # qs) =
        Some (CHR ''@'' # crc64tab ! (code q div 64) # crc64tab ! (code q mod 64) # tx)"
      using False q tx by (auto simp: CRC_TABLE_SIZE_def)
    have d: "phone_dec_loop enc i numLen (CHR ''@'' # crc64tab ! (code q div 64) # crc64tab ! (code q mod 64) # tx) out
        = Some (Inr (out @ q # qs))"
      if "take 11 enc = pp" "numLen = i + (3 + length tx)" "numLen < 2 ^ 64" for enc numLen out
    proof -
      have "(numLen + (2 ^ 64 - 2)) mod 2 ^ 64 = i + 1 + length tx"
        using that(2,3) by (simp add: mod_if)
      with IH [OF that(1) refl, of "out @ [q]"] that sp show ?thesis by simp
    qed
    have n: "NUL \<notin> set (CHR ''@'' # crc64tab ! (code q div 64) # crc64tab ! (code q mod 64) # tx)"
      using tx(2) sp by simp
    show ?thesis by (rule exI, rule conjI, rule e, rule conjI, rule n, intro allI impI, rule d) simp_all
  next
    case True
    define s where "s = crc_index (pp ! (i mod 11))"
    have "pp ! (i mod 11) \<in> set crc64tab" using assms(1,2) by (metis mod_less_divisor nth_mem subsetD zero_less_numeral)
    then have s: "0 \<le> s" "s < 64" unfolding s_def using crc_index_char crc_index_less by auto
    define k where "k = nat (s + (int (code q) - 48)) mod 64"
    have k: "int k = (s + (int (code q) - 48)) mod 64" "k < 64" using s True by (simp_all add: k_def zmod_int)
    have e: "phone_enc_loop pp i (q # qs) = Some (crc64tab ! k # tx)"
      using True q tx s by (simp add: CRC_TABLE_SIZE_def CRC_URISTR_LEN_def k_def s_def)
    have d: "phone_dec_loop enc i numLen (crc64tab ! k # tx) out = Some (Inr (out @ q # qs))"
      if "take 11 enc = pp" "numLen = i + Suc (length tx)" "numLen < 2 ^ 64" for enc numLen out
    proof -
      have x: "crc_index (enc ! (i mod 11)) = s"
        unfolding s_def using that(1) by (metis mod_less_divisor nth_take zero_less_numeral)
      have c: "char_of (nat (if int k \<ge> s then int k - s + 48 else int k - s + 64 + 48)) = q"
        using digit_char [OF s] True unfolding k(1) Let_def by blast
      have "phone_dec_loop enc i numLen (crc64tab ! k # tx) out = phone_dec_loop enc (i + 1) numLen tx
          (out @ [char_of (nat (if int k \<ge> s then int k - s + 48 else int k - s + 64 + 48))])"
        using that(2) k(2) s(1) x by (simp only: phone_dec_loop.simps tab_nth crc_index_nth if_False Let_def
            CRC_TABLE_SIZE_def CRC_URISTR_LEN_def) simp
      with IH [OF that(1) _ that(3), of "out @ [q]"] that(2) c show ?thesis by simp
    qed
    have n: "NUL \<notin> set (crc64tab ! k # tx)" using tx(2) k(2) by simp
    show ?thesis by (rule exI, rule conjI, rule e, rule conjI, rule n, intro allI impI, rule d) simp_all
  qed
qed

section \<open>Properties\<close>

text \<open>C35: The short link of a message id is eleven characters of the link alphabet, and \<open>decode\<close> gives back the id, for
  every 64-bit id.\<close>

theorem uri_roundtrip: "decode (encode m) = m \<and> length (encode m) = 11 \<and> set (encode m) \<subseteq> set crc64tab"
  using decode_encode encode_loop_chars by (simp add: encode_eq)

text \<open>A phone number hidden behind a link comes back together with the link: for every link text of eleven alphabet
  characters (every encoded message id is one) and every ASCII number, digits and other characters mixed, whose encoding
  fits the buffer, \<open>uriPhoneEncode\<close> succeeds and \<open>uriPhoneDecode\<close> of its result returns 0 with both parts.\<close>

theorem phone_roundtrip:
  assumes "length u = 11" and "set u \<subseteq> set crc64tab" and "list_all phone_char phone"
    and "length (filter (\<lambda>c. 48 \<le> code c \<and> code c \<le> 57) phone) +
         3 * length (filter (\<lambda>c. \<not> (48 \<le> code c \<and> code c \<le> 57)) phone) \<le> 116"
  shows "\<exists>enc. uriPhoneEncode u phone = Some enc \<and> uriPhoneDecode enc = Some (0, Some u, Some phone)"
proof -
  obtain tx where tx: "phone_enc_loop u 0 phone = Some tx" "NUL \<notin> set tx"
    and dec: "\<And>enc out. take 11 enc = u \<Longrightarrow> length tx < 2 ^ 64 \<Longrightarrow>
      phone_dec_loop enc 0 (length tx) tx out = Some (Inr (out @ phone))"
    using phone_loop_roundtrip [OF assms(2,1,3), of 0] by auto
  have len: "phone_enc_loop u i qs = Some t \<Longrightarrow> list_all phone_char qs \<Longrightarrow>
      length t = length (filter (\<lambda>c. 48 \<le> code c \<and> code c \<le> 57) qs) +
         3 * length (filter (\<lambda>c. \<not> (48 \<le> code c \<and> code c \<le> 57)) qs)" for i qs t
    by (induction u i qs arbitrary: t rule: phone_enc_loop.induct)
      (auto simp: phone_char_schar Let_def split: if_splits bind_splits)
  have nul: "NUL \<notin> set u" using assms(2) tab_chars by (auto simp: list_all_iff)
  have c: "c_str (u @ tx) = u @ tx" unfolding c_str_def using nul tx(2) by (intro takeWhile_all) auto
  have p: "length phone \<le> 116" using assms(4) sum_length_filter_compl [of "\<lambda>c. 48 \<le> code c \<and> code c \<le> 57" phone] by simp
  have cp: "c_str phone = phone" unfolding c_str_def using assms(3) by (intro takeWhile_all) (auto simp: list_all_iff phone_char_def)
  have l: "length tx \<le> 116" using len [OF tx(1) assms(3)] assms(4) by simp
  have "uriPhoneEncode u phone = Some (u @ tx)"
    using tx(1) l c assms(1) by (simp add: uriPhoneEncode_def CRC_URISTR_LEN_def)
  moreover have "uriPhoneDecode (u @ tx) = Some (0, Some u, Some phone)"
    using dec [of "u @ tx" "[]"] l assms(1) p cp by (simp add: uriPhoneDecode_def CRC_URISTR_LEN_def)
  ultimately show ?thesis by blast
qed

theorem phone_roundtrip_witness:
  "\<exists>enc. uriPhoneEncode ''00000000000'' ''+8613800000000'' = Some enc \<and>
    uriPhoneDecode enc = Some (0, Some ''00000000000'', Some ''+8613800000000'')"
  using phone_roundtrip [of "''00000000000''" "''+8613800000000''"] by (simp add: crc64tab_def phone_char_def)

text \<open>A damaged text can pass for a good one. When the text ends in the middle of an escaped character and the part
  that is there is the character for 0, \<open>uriPhoneDecode\<close> returns 0, the code of success, without having assigned the
  phone number: it returns the index of the first half, which is only negative when that half is the bad one.\<close>

theorem phone_decode_false_success:
  assumes "length u = 11"
  shows "uriPhoneDecode (u @ ''@0'') = Some (0, Some u, None)"
proof -
  have "crc_index CHR ''0'' = 0" using crc_index_nth [of 0] by (simp add: crc64tab_def)
  then show ?thesis using assms by (simp add: uriPhoneDecode_def CRC_URISTR_LEN_def)
qed

theorem phone_decode_false_success_witness: "uriPhoneDecode ''00000000000@0'' = Some (0, Some ''00000000000'', None)"
  using phone_decode_false_success [of "''00000000000''"] by simp

end
