(* ===== verification/SpeedControl.thy ===== *)
theory SpeedControl
  imports Prelude
begin

text \<open>
  Rate limiting and rate measuring, \<^verbatim>\<open>src/speedcontrol\<close>: the atomic counter (\<^verbatim>\<open>Atomic.h\<close>), the
  limiter and the meter (\<^verbatim>\<open>ControlData.h\<close>), and the registry that addresses them by index
  (\<^verbatim>\<open>SpeedControl.cpp\<close>). Counters are 64-bit words and wrap around.
\<close>

section \<open>Atomic counter\<close>

text \<open>
  Each operation is one atomic step on the value; the result is the returned value and the new one.
\<close>

definition get :: "'a::len word \<Rightarrow> 'a word \<times> 'a word" where
  "get v = (if v = 0 then (v, 0) else (v, v))"

definition getAndAdd :: "'a::len word \<Rightarrow> 'a word \<Rightarrow> 'a word \<times> 'a word" where
  "getAndAdd x v = (v, v + x)"

definition addAndGet :: "'a::len word \<Rightarrow> 'a word \<Rightarrow> 'a word \<times> 'a word" where
  "addAndGet x v = (let (old, v) = getAndAdd x v in (old + x, v))"

definition incrementAndGet :: "'a::len word \<Rightarrow> 'a word \<times> 'a word" where
  "incrementAndGet v = addAndGet 1 v"

definition decrementAndGet :: "'a::len word \<Rightarrow> 'a word \<times> 'a word" where
  "decrementAndGet v = addAndGet (- 1) v"

definition increment :: "'a::len word \<Rightarrow> 'a word" where
  "increment v = snd (incrementAndGet v)"

definition decrement :: "'a::len word \<Rightarrow> 'a word" where
  "decrement v = snd (decrementAndGet v)"

definition getAndSet :: "'a::len word \<Rightarrow> 'a word \<Rightarrow> 'a word \<times> 'a word" where
  "getAndSet newValue v = (v, newValue)"

section \<open>Limiter and meter\<close>

record ControlSpeed =
  maxSpeed :: u64
  lastCounNum :: u64
  allCountNum :: u64

definition ControlSpeed_init :: "c_int \<Rightarrow> ControlSpeed" where
  "ControlSpeed_init speed = \<lparr>maxSpeed = scast speed, lastCounNum = 0, allCountNum = 0\<rparr>"

definition speedCount :: "ControlSpeed \<Rightarrow> int \<times> ControlSpeed" where
  "speedCount c =
     (let (nowCount, all) = incrementAndGet (allCountNum c);
          nowSpeed = nowCount - lastCounNum c
      in (if maxSpeed c \<noteq> 0 \<and> nowSpeed > maxSpeed c then - 1 else 0, c\<lparr>allCountNum := all\<rparr>))"

definition everySeondReset :: "ControlSpeed \<Rightarrow> ControlSpeed" where
  "everySeondReset c = (let (now, all) = get (allCountNum c) in c\<lparr>lastCounNum := now, allCountNum := all\<rparr>)"

record SpeedData =
  lastNum :: u64
  allNum :: u64

definition SpeedData_init :: SpeedData where
  "SpeedData_init = \<lparr>lastNum = 0, allNum = 0\<rparr>"

definition SpeedData_speedCount :: "SpeedData \<Rightarrow> SpeedData" where
  "SpeedData_speedCount d = d\<lparr>allNum := increment (allNum d)\<rparr>"

text \<open>The second result is what \<open>*allnum\<close> receives, for a pointer that is not null.\<close>

definition everySecondSpeed :: "SpeedData \<Rightarrow> c_int \<times> u64 \<times> SpeedData" where
  "everySecondSpeed d =
     (let (all, v) = get (allNum d)
      in (ucast (all - lastNum d), all, d\<lparr>lastNum := all, allNum := v\<rparr>))"

section \<open>The registry\<close>

record DataStatistics =
  controlSpeedVec :: "ControlSpeed option list"
  speedDataVec :: "SpeedData option list"

text \<open>
  The two init operations first extend the vector with null pointers; \<^const>\<open>None\<close> is the access outside the
  vector. Indices are \<open>int\<close> values; the vectors hold fewer than \<open>2 ^ 31\<close> elements.
\<close>

definition extend :: "int \<Rightarrow> 'a option list \<Rightarrow> 'a option list" where
  "extend index v =
     (let vectSize = int (length v);
          vectSize = (if vectSize \<le> index then index - vectSize + 1 else vectSize)
      in v @ replicate (nat vectSize) None)"

definition put_at :: "int \<Rightarrow> 'a \<Rightarrow> 'a option list \<Rightarrow> 'a option list option" where
  "put_at index x v = (if 0 \<le> index \<and> index < int (length v) then Some (v[nat index := Some x]) else None)"

definition speedControlIndexInit :: "int \<Rightarrow> c_int \<Rightarrow> DataStatistics \<Rightarrow> (int \<times> DataStatistics) option" where
  "speedControlIndexInit index speed s =
     do {
       v \<leftarrow> put_at index (ControlSpeed_init speed) (extend index (controlSpeedVec s));
       Some (0, s\<lparr>controlSpeedVec := v\<rparr>)
     }"

definition speedDataIndexInit :: "int \<Rightarrow> DataStatistics \<Rightarrow> (int \<times> DataStatistics) option" where
  "speedDataIndexInit index s =
     do {
       v \<leftarrow> put_at index SpeedData_init (extend index (speedDataVec s));
       Some (1, s\<lparr>speedDataVec := v\<rparr>)
     }"

text \<open>\<open>static_cast<size_t>(index)\<close>: a negative index becomes larger than any vector.\<close>

definition slot :: "int \<Rightarrow> 'a option list \<Rightarrow> (nat \<times> 'a) option" where
  "slot index v =
     (let vectIndex = nat (index mod 2 ^ 64)
      in if length v \<le> vectIndex then None else map_option (Pair vectIndex) (v ! vectIndex))"

definition speedDataAdd :: "int \<Rightarrow> DataStatistics \<Rightarrow> DataStatistics" where
  "speedDataAdd index s =
     (case slot index (speedDataVec s) of
        None \<Rightarrow> s
      | Some (i, d) \<Rightarrow> s\<lparr>speedDataVec := (speedDataVec s)[i := Some (SpeedData_speedCount d)]\<rparr>)"

definition controlSpeedAdd :: "int \<Rightarrow> DataStatistics \<Rightarrow> int \<times> DataStatistics" where
  "controlSpeedAdd index s =
     (case slot index (controlSpeedVec s) of
        None \<Rightarrow> (- 1, s)
      | Some (i, c) \<Rightarrow> (let (ret, c) = speedCount c in (ret, s\<lparr>controlSpeedVec := (controlSpeedVec s)[i := Some c]\<rparr>)))"

text \<open>\<open>None\<close> as the second result: \<open>*allnum\<close> is not written.\<close>

definition currentSpeed :: "int \<Rightarrow> DataStatistics \<Rightarrow> c_int \<times> u64 option \<times> DataStatistics" where
  "currentSpeed index s =
     (case slot index (speedDataVec s) of
        None \<Rightarrow> (0, None, s)
      | Some (i, d) \<Rightarrow>
          (let (speed, all, d) = everySecondSpeed d
           in (speed, Some all, s\<lparr>speedDataVec := (speedDataVec s)[i := Some d]\<rparr>)))"

section \<open>Lemmas\<close>

lemma get_simps [simp]: "get v = (v, v)"
  by (simp add: get_def)

lemma incrementAndGet_simps [simp]: "incrementAndGet v = (v + 1, v + 1)"
  by (simp add: incrementAndGet_def addAndGet_def getAndAdd_def)

lemma speedCount_simps:
  "speedCount c = (if maxSpeed c \<noteq> 0 \<and> allCountNum c + 1 - lastCounNum c > maxSpeed c then - 1 else 0,
     c\<lparr>allCountNum := allCountNum c + 1\<rparr>)"
  by (simp add: speedCount_def)

text \<open>The answers of \<open>n\<close> calls in a row, by any threads, each call being one atomic increment and a test.\<close>

fun speedCounts :: "nat \<Rightarrow> ControlSpeed \<Rightarrow> int list \<times> ControlSpeed" where
  "speedCounts 0 c = ([], c)"
| "speedCounts (Suc n) c = (let (r, c) = speedCount c; (rs, c) = speedCounts n c in (r # rs, c))"

lemma speedCounts_state: "snd (speedCounts n c) = c\<lparr>allCountNum := allCountNum c + of_nat n\<rparr>"
  by (induction n arbitrary: c) (simp_all add: speedCount_simps Let_def split_beta algebra_simps)

lemma speedCounts_answers:
  assumes "allCountNum c = lastCounNum c + of_nat k" and "k + n < 2 ^ 64"
  shows "fst (speedCounts n c) =
    map (\<lambda>i. if maxSpeed c \<noteq> 0 \<and> k + i + 1 > unat (maxSpeed c) then - 1 else 0) [0..<n]"
  using assms
proof (induction n arbitrary: c k)
  case (Suc n)
  have w: "(of_nat (Suc k) > maxSpeed c) \<longleftrightarrow> Suc k > unat (maxSpeed c)"
    using Suc.prems(2) by (simp add: word_less_nat_alt unat_of_nat del: of_nat_Suc)
  have e: "allCountNum c + 1 - lastCounNum c = of_nat (Suc k)" using Suc.prems(1) by simp
  have IH: "fst (speedCounts n (c\<lparr>allCountNum := allCountNum c + 1\<rparr>)) =
      map (\<lambda>i. if maxSpeed c \<noteq> 0 \<and> Suc k + i + 1 > unat (maxSpeed c) then - 1 else 0) [0..<n]"
    using Suc.IH [of "c\<lparr>allCountNum := allCountNum c + 1\<rparr>" "Suc k"] Suc.prems by simp
  show ?case
    by (simp add: speedCount_simps Let_def split_beta e w IH upt_rec [of 0 "Suc n"] map_Suc_upt [symmetric]
        del: upt_Suc of_nat_Suc)
qed simp

lemma map_limit:
  "map (\<lambda>i. if m < Suc i then - 1 else (0 :: int)) [0..<n] = replicate (min n m) 0 @ replicate (n - m) (- 1)"
  by (rule nth_equalityI) (auto simp: nth_append min_def)

lemma slot_Some_iff: "slot index v = Some (i, x) \<longleftrightarrow> i = nat (index mod 2 ^ 64) \<and> i < length v \<and> v ! i = Some x"
  by (auto simp: slot_def Let_def not_le)

datatype registry_op = OpDataInit int | OpDataAdd int | OpControlAdd int | OpCurrent int

fun registry_step :: "registry_op \<Rightarrow> DataStatistics \<Rightarrow> (int \<times> DataStatistics) option" where
  "registry_step (OpDataInit i) s = speedDataIndexInit i s"
| "registry_step (OpDataAdd i) s = Some (0, speedDataAdd i s)"
| "registry_step (OpControlAdd i) s = Some (controlSpeedAdd i s)"
| "registry_step (OpCurrent i) s = Some (0, snd (snd (currentSpeed i s)))"

text \<open>How many calls of \<open>controlSpeedAdd\<close> on \<open>index\<close> answered 0.\<close>

fun admitted :: "int \<Rightarrow> registry_op list \<Rightarrow> DataStatistics \<Rightarrow> nat" where
  "admitted index [] s = 0"
| "admitted index (op # ops) s =
     (case registry_step op s of
        None \<Rightarrow> 0
      | Some (r, s') \<Rightarrow> (if op = OpControlAdd index \<and> r = 0 then 1 else 0) + admitted index ops s')"

lemma answer_iff:
  assumes "allCountNum c = lastCounNum c + of_nat k" and "Suc k < 2 ^ 64" and "maxSpeed c \<noteq> 0"
  shows "fst (speedCount c) = (if Suc k \<le> unat (maxSpeed c) then 0 else - 1)"
    "allCountNum (snd (speedCount c)) = lastCounNum (snd (speedCount c)) + of_nat (Suc k)"
    "maxSpeed (snd (speedCount c)) = maxSpeed c"
  using speedCounts_answers [of c k 1] assms by (auto simp: speedCount_simps split: if_splits)

lemma control_add_other:
  "i \<noteq> nat (j mod 2 ^ 64) \<Longrightarrow> controlSpeedVec (snd (controlSpeedAdd j s)) ! i = controlSpeedVec s ! i"
  "length (controlSpeedVec (snd (controlSpeedAdd j s))) = length (controlSpeedVec s)"
  by (auto simp: controlSpeedAdd_def slot_Some_iff Let_def split: option.split prod.splits)

lemma registry_step_control:
  assumes "registry_step op s = Some (r, s')" and "\<forall>j. op \<noteq> OpControlAdd j"
  shows "controlSpeedVec s' = controlSpeedVec s"
  using assms
  by (cases op) (auto simp: speedDataIndexInit_def speedDataAdd_def currentSpeed_def Let_def
      split: option.splits prod.splits bind_splits)

lemma admitted_bound:
  assumes "i = nat (index mod 2 ^ 64)" and "i < length (controlSpeedVec s)" and "controlSpeedVec s ! i = Some c"
    and "allCountNum c = lastCounNum c + of_nat k" and "maxSpeed c \<noteq> 0" and "k + length ops < 2 ^ 64"
  shows "admitted index ops s \<le> unat (maxSpeed c) - k"
  using assms(2-)
proof (induction ops arbitrary: s c k)
  case (Cons op ops)
  show ?case
  proof (cases "\<exists>j. op = OpControlAdd j \<and> nat (j mod 2 ^ 64) = i")
    case True
    then obtain j where j: "op = OpControlAdd j" "nat (j mod 2 ^ 64) = i" by blast
    let ?c = "snd (speedCount c)"
    have st: "registry_step op s = Some (fst (speedCount c), s\<lparr>controlSpeedVec := (controlSpeedVec s)[i := Some ?c]\<rparr>)"
      using Cons.prems j by (simp add: controlSpeedAdd_def slot_def Let_def split_beta)
    have "Suc k < 2 ^ 64" using Cons.prems(5) by simp
    note an = answer_iff [OF Cons.prems(3) this Cons.prems(4)]
    have "admitted index ops (s\<lparr>controlSpeedVec := (controlSpeedVec s)[i := Some ?c]\<rparr>) \<le> unat (maxSpeed c) - Suc k"
      using Cons.IH [of "s\<lparr>controlSpeedVec := (controlSpeedVec s)[i := Some ?c]\<rparr>" ?c "Suc k"] Cons.prems an by simp
    with st an(1) show ?thesis by auto
  next
    case False
    have "controlSpeedVec s' ! i = Some c \<and> length (controlSpeedVec s') = length (controlSpeedVec s)"
      if "registry_step op s = Some (r, s')" for r s'
    proof (cases "\<exists>j. op = OpControlAdd j")
      case True
      then obtain j where "op = OpControlAdd j" by blast
      with that False Cons.prems(2) control_add_other(1) [of i j s] control_add_other(2) [of j s] show ?thesis by auto
    next
      case no: False
      with registry_step_control [OF that] Cons.prems(2) show ?thesis by auto
    qed
    moreover have "op \<noteq> OpControlAdd index" using False assms(1) by auto
    ultimately show ?thesis
      using Cons.IH [of _ c k] Cons.prems by (auto split: option.split)
  qed
qed simp

section \<open>Properties\<close>

text \<open>C37: Within one period the limiter admits exactly the configured number of calls. After a reset, of the next \<open>n\<close>
  calls (by any threads) the first \<open>maxSpeed\<close> answer 0 and all others -1, and with no limit configured all
  answer 0; the total counter may wrap around in between.\<close>

theorem limiter_admits:
  assumes "n < 2 ^ 64"
  shows "fst (speedCounts n (everySeondReset c)) =
    (if maxSpeed c = 0 then replicate n 0
     else replicate (min n (unat (maxSpeed c))) 0 @ replicate (n - unat (maxSpeed c)) (- 1))"
proof -
  have "allCountNum (everySeondReset c) = lastCounNum (everySeondReset c) + of_nat 0" "maxSpeed (everySeondReset c) = maxSpeed c"
    by (simp_all add: everySeondReset_def)
  with speedCounts_answers [of "everySeondReset c" 0 n] assms show ?thesis
    by (simp add: map_limit map_replicate_const)
qed

theorem limiter_admits_witness:
  "fst (speedCounts 5 (everySeondReset \<lparr>maxSpeed = 3, lastCounNum = 0, allCountNum = - 2\<rparr>))
    = replicate 3 0 @ replicate 2 (- 1)"
  using limiter_admits [of 5 "\<lparr>maxSpeed = 3, lastCounNum = 0, allCountNum = - 2\<rparr>"] by simp

text \<open>The meter reports what happened since it was last read. After reading it, \<open>n\<close> counted events and reading it again
  give the speed \<open>n\<close> (as long as \<open>n\<close> fits an \<open>int\<close>) and a total that has grown by \<open>n\<close>, even when the total wraps
  around.\<close>

theorem meter_reports:
  assumes "n < 2 ^ 31" and "everySecondSpeed d = (sp, tot, d1)"
    and "everySecondSpeed ((SpeedData_speedCount ^^ n) d1) = (sp', tot', d2)"
  shows "sint sp' = int n \<and> tot' = tot + of_nat n"
proof -
  have run: "(SpeedData_speedCount ^^ k) x = x\<lparr>allNum := allNum x + of_nat k\<rparr>" for k x
    by (induction k) (simp_all add: SpeedData_speedCount_def increment_def algebra_simps)
  have "sp' = ucast (of_nat n :: u64)" "tot' = tot + of_nat n"
    using assms(2,3) by (auto simp: everySecondSpeed_def run)
  moreover have "(ucast (of_nat n :: u64) :: c_int) = word_of_int (int n)"
    using assms(1) by (simp add: unsigned_of_nat take_bit_nat_eq_self)
  moreover have "sint (word_of_int (int n) :: c_int) = int n"
    using assms(1) by (subst sint_sbintrunc') (simp add: signed_take_bit_int_eq_self)
  ultimately show ?thesis by simp
qed

theorem meter_reports_witness:
  "case everySecondSpeed ((SpeedData_speedCount ^^ 3) \<lparr>lastNum = - 1, allNum = - 1\<rparr>) of (sp, tot, _) \<Rightarrow> sint sp = 3 \<and> tot = 2"
proof -
  have 1: "everySecondSpeed \<lparr>lastNum = - 1, allNum = - 1\<rparr> = (0, - 1, \<lparr>lastNum = - 1, allNum = - 1\<rparr>)"
    by (simp add: everySecondSpeed_def)
  obtain sp tot d where 2: "everySecondSpeed ((SpeedData_speedCount ^^ 3) \<lparr>lastNum = - 1, allNum = - 1\<rparr>) = (sp, tot, d)"
    by (metis prod_cases3)
  show ?thesis using meter_reports [OF _ 1 2] 2 by simp
qed

text \<open>The registry keeps its entries apart. Counting on one index, or reading it, changes no other entry of either
  vector; on an index that was never initialised, and on every negative index, counting changes nothing at all, the
  limiter answers -1 and the meter 0. Initialising an index leaves all other entries as they are.\<close>

theorem registry_isolation:
  "(\<forall>j. j \<noteq> nat (index mod 2 ^ 64) \<longrightarrow>
      speedDataVec (speedDataAdd index s) ! j = speedDataVec s ! j \<and>
      controlSpeedVec (snd (controlSpeedAdd index s)) ! j = controlSpeedVec s ! j \<and>
      speedDataVec (snd (snd (currentSpeed index s))) ! j = speedDataVec s ! j) \<and>
   controlSpeedVec (speedDataAdd index s) = controlSpeedVec s \<and>
   speedDataVec (snd (controlSpeedAdd index s)) = speedDataVec s \<and>
   (slot index (speedDataVec s) = None \<longrightarrow> speedDataAdd index s = s \<and> currentSpeed index s = (0, None, s)) \<and>
   (slot index (controlSpeedVec s) = None \<longrightarrow> controlSpeedAdd index s = (- 1, s)) \<and>
   (- (2 ^ 31) \<le> index \<and> index < 0 \<and> length (speedDataVec s) < 2 ^ 31 \<longrightarrow> slot index (speedDataVec s) = None) \<and>
   (speedDataIndexInit index s = Some (r, s') \<longrightarrow>
      (\<forall>j < length (speedDataVec s). j \<noteq> nat index \<longrightarrow> speedDataVec s' ! j = speedDataVec s ! j))"
proof (intro conjI allI impI)
  show "slot index (speedDataVec s) = None"
    if "- (2 ^ 31) \<le> index \<and> index < 0 \<and> length (speedDataVec s) < 2 ^ 31"
  proof -
    have "index mod 2 ^ 64 = index + 2 ^ 64" using that mod_pos_pos_trivial [of "index + 2 ^ 64" "2 ^ 64"] by simp
    moreover have "length (speedDataVec s) \<le> nat (index + 2 ^ 64)" using that by (simp add: le_nat_iff)
    ultimately show ?thesis by (simp add: slot_def Let_def)
  qed
qed (auto simp: speedDataAdd_def controlSpeedAdd_def currentSpeed_def slot_Some_iff speedDataIndexInit_def put_at_def
    extend_def nth_append Let_def split: option.splits prod.splits if_splits bind_splits)

theorem registry_isolation_witness:
  "controlSpeedAdd 1 \<lparr>controlSpeedVec = [Some (ControlSpeed_init 1)], speedDataVec = []\<rparr>
     = (- 1, \<lparr>controlSpeedVec = [Some (ControlSpeed_init 1)], speedDataVec = []\<rparr>)"
  using registry_isolation [of 1 "\<lparr>controlSpeedVec = [Some (ControlSpeed_init 1)], speedDataVec = []\<rparr>" 0 undefined]
  by (simp add: slot_def)

text \<open>Through the registry a limiter is never reset. However many other entries are used and read in between, an
  index initialised with the limit \<open>m\<close> admits at most \<open>m\<close> calls in all (within \<open>2 ^ 64\<close> calls), not
  \<open>m\<close> per second: no operation of the registry reaches \<open>everySeondReset\<close>.\<close>

theorem limit_never_resets:
  assumes "speedControlIndexInit index m s = Some (r, s')" and "0 < sint m" and "0 \<le> index" and "index < 2 ^ 31"
    and "length ops < 2 ^ 64"
  shows "admitted index ops s' \<le> nat (sint m)"
proof -
  let ?v = "extend index (controlSpeedVec s)"
  have v: "index < int (length ?v)" "controlSpeedVec s' = ?v[nat index := Some (ControlSpeed_init m)]"
    using assms(1) by (auto simp: speedControlIndexInit_def put_at_def split: if_splits bind_splits)
  have i: "nat index = nat (index mod 2 ^ 64)" using assms(3,4) by simp
  have b: "sint m < 2 ^ 31" using sint_lt [of m] by simp
  have "(scast m :: u64) = of_int (int (nat (sint m)))" using assms(2) by (simp only: of_int_sint nat_0_le less_imp_le)
  then have "(scast m :: u64) = of_nat (nat (sint m))" by (simp only: of_int_of_nat_eq)
  moreover have "nat (sint m) < 2 ^ 64" using b by simp
  ultimately have u: "unat (scast m :: u64) = nat (sint m)" by (simp add: unat_of_nat)
  have "maxSpeed (ControlSpeed_init m) \<noteq> 0"
    using u assms(2) by (auto simp: ControlSpeed_init_def)
  with admitted_bound [OF i, of s' "ControlSpeed_init m" 0 ops] v assms(3,5) u show ?thesis
    by (simp add: ControlSpeed_init_def nat_less_iff)
qed

theorem limit_never_resets_witness:
  "admitted 0 [OpControlAdd 0, OpCurrent 0, OpControlAdd 0] \<lparr>controlSpeedVec = [Some (ControlSpeed_init 1)], speedDataVec = []\<rparr> \<le> 1"
  using limit_never_resets [of 0 1 "\<lparr>controlSpeedVec = [], speedDataVec = []\<rparr>" 0
      "\<lparr>controlSpeedVec = [Some (ControlSpeed_init 1)], speedDataVec = []\<rparr>" "[OpControlAdd 0, OpCurrent 0, OpControlAdd 0]"]
  by (simp add: speedControlIndexInit_def put_at_def extend_def)

text \<open>Initialising an index that exists already makes the vector grow. The loop that extends the vector runs as many
  times as the vector has entries, so each such call doubles it with null pointers.\<close>

theorem reinit_doubles:
  assumes "0 \<le> index" and "index < int (length (controlSpeedVec s))"
  shows "\<exists>s'. speedControlIndexInit index m s = Some (0, s') \<and>
    length (controlSpeedVec s') = 2 * length (controlSpeedVec s)"
  using assms by (simp add: speedControlIndexInit_def put_at_def extend_def)

theorem reinit_doubles_witness:
  "\<exists>s'. speedControlIndexInit 0 5 \<lparr>controlSpeedVec = [Some (ControlSpeed_init 1), None], speedDataVec = []\<rparr> = Some (0, s') \<and>
    length (controlSpeedVec s') = 4"
  using reinit_doubles [of 0 "\<lparr>controlSpeedVec = [Some (ControlSpeed_init 1), None], speedDataVec = []\<rparr>" 5] by simp

end
