(* ===== verification/HttpCli.thy ===== *)
theory HttpCli
  imports Prelude
begin

text \<open>
  The request side of the HTTP client, \<^verbatim>\<open>src/curlHttpCli\<close>: the request object
  (\<^verbatim>\<open>HttpReqSession.h\<close>), a connection's buffers (\<^verbatim>\<open>src/ConnInfo.h\<close>), the queues between
  the threads (\<^verbatim>\<open>src/HttpCliQueue.h\<close>), and the entry that hands a request to an I/O thread
  (\<^verbatim>\<open>src/CurlHttpCli.cpp\<close>). Pointers to objects that are only passed along are numbers.
\<close>

section \<open>Requests\<close>

datatype CURL_HTTP_VERSION = CURLHTTP10 | CURLHTTP11 | CURLHTTP20 | CURLHTTP2TLS | CURLHTTPNONE

datatype CURL_HTTP_REQUEST_TYPE =
    CURLHTTP_GET | CURLHTTP_POST | CURLHTTP_PUT | CURLHTTP_DELETE | CURLHTTP_UPDATE | CURLHTTP_UNKONOW

record HttpReqSession =
  httpVer :: CURL_HTTP_VERSION
  reqType :: CURL_HTTP_REQUEST_TYPE
  privateData :: "nat option"
  connInfo :: "nat option"
  maxconns :: u64
  connOutSecond :: c_i64
  dataOutSecond :: c_i64
  insertMicroSecond :: c_i64
  reqMicroSecond :: c_i64
  rspMicroSecond :: c_i64
  isKeepAlive :: c_int
  rspCode :: c_int
  sslVerifyPeer :: c_int
  sslVeriftHost :: c_int
  rspBody :: string
  reqUrl :: string
  reqData :: string
  errorMsg :: string
  cacertFile :: string
  headVec :: "string list"
  cb :: "nat option"

text \<open>The default constructor, the constructor from a request, and the copy constructor, which builds a
  default session and assigns to it field by field.\<close>

definition HttpReqSession_default :: HttpReqSession where
  "HttpReqSession_default =
     \<lparr>httpVer = CURLHTTP11,
      reqType = CURLHTTP_POST,
      privateData = None,
      connInfo = None,
      maxconns = 0,
      connOutSecond = 30,
      dataOutSecond = 60,
      insertMicroSecond = 0,
      reqMicroSecond = 0,
      rspMicroSecond = 0,
      isKeepAlive = 0,
      rspCode = 0,
      sslVerifyPeer = 0,
      sslVeriftHost = 0,
      rspBody = [],
      reqUrl = [],
      reqData = [],
      errorMsg = [],
      cacertFile = [],
      headVec = [],
      cb = None\<rparr>"

definition HttpReqSession_new :: "CURL_HTTP_VERSION \<Rightarrow> CURL_HTTP_REQUEST_TYPE \<Rightarrow> string \<Rightarrow> string \<Rightarrow> HttpReqSession" where
  "HttpReqSession_new ver type url body =
     \<lparr>httpVer = ver,
      reqType = type,
      privateData = None,
      connInfo = None,
      maxconns = 0,
      connOutSecond = 30,
      dataOutSecond = 60,
      insertMicroSecond = 0,
      reqMicroSecond = 0,
      rspMicroSecond = 0,
      isKeepAlive = 0,
      rspCode = 0,
      sslVerifyPeer = 0,
      sslVeriftHost = 0,
      rspBody = [],
      reqUrl = url,
      reqData = body,
      errorMsg = [],
      cacertFile = [],
      headVec = [],
      cb = None\<rparr>"

definition HttpReqSession_assign :: "HttpReqSession \<Rightarrow> HttpReqSession \<Rightarrow> HttpReqSession" where
  "HttpReqSession_assign this that =
     this\<lparr>httpVer := httpVer that,
      reqType := reqType that,
      privateData := privateData that,
      connInfo := connInfo that,
      maxconns := maxconns that,
      connOutSecond := connOutSecond that,
      dataOutSecond := dataOutSecond that,
      insertMicroSecond := insertMicroSecond that,
      reqMicroSecond := reqMicroSecond that,
      rspMicroSecond := rspMicroSecond that,
      isKeepAlive := isKeepAlive that,
      rspCode := rspCode that,
      sslVerifyPeer := sslVerifyPeer that,
      sslVeriftHost := sslVeriftHost that,
      rspBody := rspBody that,
      reqUrl := reqUrl that,
      reqData := reqData that,
      errorMsg := errorMsg that,
      cacertFile := cacertFile that,
      headVec := headVec that,
      cb := cb that\<rparr>"

definition HttpReqSession_copy :: "HttpReqSession \<Rightarrow> HttpReqSession" where
  "HttpReqSession_copy that = HttpReqSession_assign HttpReqSession_default that"

subsection \<open>Setters\<close>

definition setHttpReqVer :: "CURL_HTTP_VERSION \<Rightarrow> HttpReqSession \<Rightarrow> HttpReqSession" where
  "setHttpReqVer v s = s\<lparr>httpVer := v\<rparr>"

definition setHttpReqType :: "CURL_HTTP_REQUEST_TYPE \<Rightarrow> HttpReqSession \<Rightarrow> HttpReqSession" where
  "setHttpReqType v s = s\<lparr>reqType := v\<rparr>"

definition setHttReqPrivate :: "(nat option) \<Rightarrow> HttpReqSession \<Rightarrow> HttpReqSession" where
  "setHttReqPrivate v s = s\<lparr>privateData := v\<rparr>"

definition setHttpReqConnoutSecond :: "c_int \<Rightarrow> HttpReqSession \<Rightarrow> HttpReqSession" where
  "setHttpReqConnoutSecond v s = s\<lparr>connOutSecond := scast v\<rparr>"

definition setHttpReqdataoutSecond :: "c_int \<Rightarrow> HttpReqSession \<Rightarrow> HttpReqSession" where
  "setHttpReqdataoutSecond v s = s\<lparr>dataOutSecond := scast v\<rparr>"

definition setHttpReqInsertMicroSecond :: "c_i64 \<Rightarrow> HttpReqSession \<Rightarrow> HttpReqSession" where
  "setHttpReqInsertMicroSecond v s = s\<lparr>insertMicroSecond := v\<rparr>"

definition setHttpReqMicroSecond :: "c_i64 \<Rightarrow> HttpReqSession \<Rightarrow> HttpReqSession" where
  "setHttpReqMicroSecond v s = s\<lparr>reqMicroSecond := v\<rparr>"

definition setHttpRspMicroSecond :: "c_i64 \<Rightarrow> HttpReqSession \<Rightarrow> HttpReqSession" where
  "setHttpRspMicroSecond v s = s\<lparr>rspMicroSecond := v\<rparr>"

definition setHttpResponseCode :: "c_int \<Rightarrow> HttpReqSession \<Rightarrow> HttpReqSession" where
  "setHttpResponseCode v s = s\<lparr>rspCode := v\<rparr>"

definition setHttpsSslVerifyPeer :: "c_int \<Rightarrow> HttpReqSession \<Rightarrow> HttpReqSession" where
  "setHttpsSslVerifyPeer v s = s\<lparr>sslVerifyPeer := v\<rparr>"

definition setHttpsSslVerifyHost :: "c_int \<Rightarrow> HttpReqSession \<Rightarrow> HttpReqSession" where
  "setHttpsSslVerifyHost v s = s\<lparr>sslVeriftHost := v\<rparr>"

definition setHttpResponstBody :: "string \<Rightarrow> HttpReqSession \<Rightarrow> HttpReqSession" where
  "setHttpResponstBody v s = s\<lparr>rspBody := v\<rparr>"

definition setHttpreqUrl :: "string \<Rightarrow> HttpReqSession \<Rightarrow> HttpReqSession" where
  "setHttpreqUrl v s = s\<lparr>reqUrl := v\<rparr>"

definition setHttpReqBody :: "string \<Rightarrow> HttpReqSession \<Rightarrow> HttpReqSession" where
  "setHttpReqBody v s = s\<lparr>reqData := v\<rparr>"

definition setHttpReqErrorMsg :: "string \<Rightarrow> HttpReqSession \<Rightarrow> HttpReqSession" where
  "setHttpReqErrorMsg v s = s\<lparr>errorMsg := v\<rparr>"

definition addHttpReqPrivateHead :: "string \<Rightarrow> HttpReqSession \<Rightarrow> HttpReqSession" where
  "addHttpReqPrivateHead v s = s\<lparr>headVec := headVec s @ [v]\<rparr>"

definition setHttpReqPrivateHead :: "(string list) \<Rightarrow> HttpReqSession \<Rightarrow> HttpReqSession" where
  "setHttpReqPrivateHead v s = s\<lparr>headVec := v\<rparr>"

definition setHttpReqCallback :: "(nat option) \<Rightarrow> HttpReqSession \<Rightarrow> HttpReqSession" where
  "setHttpReqCallback v s = s\<lparr>cb := v\<rparr>"

definition setHttpsCacertFile :: "string \<Rightarrow> HttpReqSession \<Rightarrow> HttpReqSession" where
  "setHttpsCacertFile v s = s\<lparr>cacertFile := v\<rparr>"

definition setHttpConnInfo :: "(nat option) \<Rightarrow> HttpReqSession \<Rightarrow> HttpReqSession" where
  "setHttpConnInfo v s = s\<lparr>connInfo := v\<rparr>"

definition setHttpUrlMaxConns :: "u64 \<Rightarrow> HttpReqSession \<Rightarrow> HttpReqSession" where
  "setHttpUrlMaxConns v s = s\<lparr>maxconns := v\<rparr>"

definition setHttpUrlKeepAlive :: "c_int \<Rightarrow> HttpReqSession \<Rightarrow> HttpReqSession" where
  "setHttpUrlKeepAlive v s = s\<lparr>isKeepAlive := v\<rparr>"

section \<open>A connection\<close>

text \<open>
  \<open>ConnInfo\<close>, with its two C buffers as lists of bytes (\<^const>\<open>None\<close> is the null pointer).
\<close>

record ConnInfo =
  isNew :: bool
  easy :: "nat option"
  glob :: "nat option"
  reqInfo :: "nat option"
  error :: "string option"
  connUrl :: "string option"
  subIndex :: u64
  urlSize :: nat
  outSecond :: c_i64
  rspdata :: string

definition ConnInfo_new :: "u64 \<Rightarrow> ConnInfo" where
  "ConnInfo_new sub = \<lparr>isNew = True, easy = None, glob = None, reqInfo = None, error = None, connUrl = None,
     subIndex = sub, urlSize = 0, outSecond = 0, rspdata = []\<rparr>"

text \<open>The outcomes of \<open>malloc\<close> and of \<open>curl_easy_init\<close> are arguments.\<close>

definition connInfoInit :: "bool \<Rightarrow> nat option \<Rightarrow> ConnInfo \<Rightarrow> int \<times> ConnInfo" where
  "connInfoInit malloc_ok handle c =
     (if error c = None \<and> \<not> malloc_ok then (- 1, c)
      else let c = (if error c = None then c\<lparr>error := Some (replicate 256 NUL)\<rparr> else c);
               c = c\<lparr>easy := handle\<rparr>
           in (if handle = None then - 1 else 0, c))"

text \<open>\<^const>\<open>None\<close>: \<open>memset\<close> through a null pointer.\<close>

definition connInfoReinit :: "ConnInfo \<Rightarrow> (int \<times> ConnInfo) option" where
  "connInfoReinit c =
     (case error c of
        None \<Rightarrow> None
      | Some _ \<Rightarrow> Some (0, c\<lparr>outSecond := 0, reqInfo := None, error := Some (replicate 256 NUL), glob := None, rspdata := []\<rparr>))"

definition connInfoSetRspbody :: "string \<Rightarrow> nat \<Rightarrow> ConnInfo \<Rightarrow> ConnInfo" where
  "connInfoSetRspbody p bodyLen c = c\<lparr>rspdata := take bodyLen p\<rparr>"

definition connInfoAppendRspbody :: "string \<Rightarrow> nat \<Rightarrow> ConnInfo \<Rightarrow> ConnInfo" where
  "connInfoAppendRspbody p bodyLen c = c\<lparr>rspdata := rspdata c @ take bodyLen p\<rparr>"

definition connInfoIsNew :: "ConnInfo \<Rightarrow> bool \<times> ConnInfo" where
  "connInfoIsNew c = (isNew c, c\<lparr>isNew := False\<rparr>)"

text \<open>
  \<open>memset(reqUrl, 0, urlSize); memcpy(reqUrl, url.c_str(), url.size())\<close>; \<^const>\<open>None\<close> is a write through a null pointer
  or behind the buffer.
\<close>

definition fill_url :: "string option \<Rightarrow> nat \<Rightarrow> string \<Rightarrow> string option" where
  "fill_url buf sz url =
     (case buf of
        None \<Rightarrow> None
      | Some b \<Rightarrow>
          if sz \<le> length b \<and> length url \<le> length b
          then Some (url @ drop (length url) (replicate sz NUL @ drop sz b)) else None)"

definition connInfoSetReqUrl :: "bool \<Rightarrow> string \<Rightarrow> ConnInfo \<Rightarrow> (int \<times> ConnInfo) option" where
  "connInfoSetReqUrl malloc_ok url c =
     (if urlSize c = 0 then
        (let sz = (if length url \<ge> 1024 then length url + 1 else 1024);
             c = c\<lparr>urlSize := sz\<rparr>
         in if malloc_ok then
              do {
                b \<leftarrow> fill_url (Some (replicate sz NUL)) sz url;
                Some (0, c\<lparr>connUrl := Some b\<rparr>)
              }
            else Some (- 1, c\<lparr>connUrl := None\<rparr>))
      else
        (let (ret, c) =
           (if length url \<ge> urlSize c then
              (let sz = length url + 1
               in if malloc_ok then (0, c\<lparr>urlSize := sz, connUrl := Some (replicate sz NUL)\<rparr>)
                  else (- 1, c\<lparr>urlSize := sz, connUrl := None\<rparr>))
            else (0, c))
         in if ret = 0 then
              do {
                b \<leftarrow> fill_url (connUrl c) (urlSize c) url;
                Some (0, c\<lparr>connUrl := Some b\<rparr>)
              }
            else Some (ret, c)))"

section \<open>The request queue of an I/O thread\<close>

record 'a HttpRequestQueue =
  maxSize :: nat
  queue :: "'a list"

definition isFull :: "'a HttpRequestQueue \<Rightarrow> bool" where
  "isFull q \<longleftrightarrow> maxSize q > 0 \<and> length (queue q) \<ge> maxSize q"

text \<open>One turn of \<open>httpRequest\<close> under the mutex: \<^const>\<open>None\<close> when the caller goes to wait.\<close>

definition httpRequest :: "'a \<Rightarrow> 'a HttpRequestQueue \<Rightarrow> 'a HttpRequestQueue option" where
  "httpRequest req q = (if isFull q then None else Some (q\<lparr>queue := queue q @ [req]\<rparr>))"

text \<open>The request, whether a waiting caller is notified, and the queue afterwards.\<close>

definition dealRequest :: "'a HttpRequestQueue \<Rightarrow> 'a option \<times> bool \<times> 'a HttpRequestQueue" where
  "dealRequest q =
     (case queue q of
        [] \<Rightarrow> (None, False, q)
      | req # rest \<Rightarrow> (Some req, maxSize q > 0, q\<lparr>queue := rest\<rparr>))"

text \<open>
  The queue with its callers: \<open>waiting\<close> of them are in \<open>notFull_.wait()\<close>, \<open>woken\<close> were notified and have not yet got the
  mutex back. A step is what one thread does while it holds the mutex.
\<close>

record 'a request_monitor =
  rq :: "'a HttpRequestQueue"
  waiting :: nat
  woken :: nat

inductive monitor_step :: "'a request_monitor \<Rightarrow> 'a request_monitor \<Rightarrow> bool" where
  enter: "httpRequest r (rq s) = Some q \<Longrightarrow> monitor_step s (s\<lparr>rq := q\<rparr>)"
| block: "httpRequest r (rq s) = None \<Longrightarrow> monitor_step s (s\<lparr>waiting := waiting s + 1\<rparr>)"
| resume: "woken s > 0 \<Longrightarrow> httpRequest r (rq s) = Some q \<Longrightarrow> monitor_step s (s\<lparr>rq := q, woken := woken s - 1\<rparr>)"
| reblock: "woken s > 0 \<Longrightarrow> httpRequest r (rq s) = None \<Longrightarrow>
    monitor_step s (s\<lparr>woken := woken s - 1, waiting := waiting s + 1\<rparr>)"
| spurious: "waiting s > 0 \<Longrightarrow> monitor_step s (s\<lparr>waiting := waiting s - 1, woken := woken s + 1\<rparr>)"
| deal: "dealRequest (rq s) = (r, notify, q) \<Longrightarrow>
    monitor_step s (if notify \<and> waiting s > 0 then s\<lparr>rq := q, waiting := waiting s - 1, woken := woken s + 1\<rparr> else s\<lparr>rq := q\<rparr>)"

section \<open>The response queue\<close>

text \<open>
  \<open>dealResponse\<close> and \<open>httpResponseExit\<close>, statement by statement: the consumer tests the queue and the exit flag under the
  mutex and then calls \<open>wait\<close>, which releases it; \<open>httpResponseExit\<close> sets the flag and notifies without
  the mutex.
\<close>

datatype consumer = Running | AboutToWait | Waiting | Returned "nat option"
datatype exiter = ExitNotCalled | ExitFlagSet | ExitDone

record response_system =
  isExit :: bool
  rsp_queue :: "nat list"
  consumer_at :: consumer
  exiter_at :: exiter

inductive response_step :: "response_system \<Rightarrow> response_system \<Rightarrow> bool" where
  take: "consumer_at s = Running \<Longrightarrow> rsp_queue s = r # rs \<Longrightarrow>
    response_step s (s\<lparr>rsp_queue := rs, consumer_at := Returned (Some r)\<rparr>)"
| leave: "consumer_at s = Running \<Longrightarrow> rsp_queue s = [] \<Longrightarrow> isExit s \<Longrightarrow> response_step s (s\<lparr>consumer_at := Returned None\<rparr>)"
| test: "consumer_at s = Running \<Longrightarrow> rsp_queue s = [] \<Longrightarrow> \<not> isExit s \<Longrightarrow> response_step s (s\<lparr>consumer_at := AboutToWait\<rparr>)"
| wait: "consumer_at s = AboutToWait \<Longrightarrow> response_step s (s\<lparr>consumer_at := Waiting\<rparr>)"
| respond: "consumer_at s \<noteq> AboutToWait \<Longrightarrow>
    response_step s (s\<lparr>rsp_queue := rsp_queue s @ [r],
      consumer_at := (if consumer_at s = Waiting then Running else consumer_at s)\<rparr>)"
| exit_flag: "exiter_at s = ExitNotCalled \<Longrightarrow> response_step s (s\<lparr>isExit := True, exiter_at := ExitFlagSet\<rparr>)"
| exit_notify: "exiter_at s = ExitFlagSet \<Longrightarrow>
    response_step s (s\<lparr>exiter_at := ExitDone, consumer_at := (if consumer_at s = Waiting then Running else consumer_at s)\<rparr>)"

definition response_start :: response_system where
  "response_start = \<lparr>isExit = False, rsp_queue = [], consumer_at = Running, exiter_at = ExitNotCalled\<rparr>"

section \<open>Connections by URL\<close>

text \<open>
  A pooled connection is its address and its thread's index. The constructor does not initialise \<open>queueSize_\<close>:
  its first value is an argument.
\<close>

type_synonym conn = "nat \<times> nat"

record HttpConnInfoQueue =
  connMax :: nat
  connCount :: nat
  conns :: "conn list"

definition HttpConnInfoQueue_new :: "nat \<Rightarrow> nat \<Rightarrow> HttpConnInfoQueue" where
  "HttpConnInfoQueue_new maxN junk = \<lparr>connMax = maxN, connCount = junk, conns = []\<rparr>"

definition connIsFull :: "HttpConnInfoQueue \<Rightarrow> bool" where
  "connIsFull q \<longleftrightarrow> connMax q > 0 \<and> connCount q \<ge> connMax q"

definition httpcliConnInsert :: "conn \<Rightarrow> bool \<Rightarrow> HttpConnInfoQueue \<Rightarrow> HttpConnInfoQueue" where
  "httpcliConnInsert c new q = (let q = q\<lparr>conns := conns q @ [c]\<rparr> in if new then q\<lparr>connCount := connCount q + 1\<rparr> else q)"

datatype 'a turn = Blocks | Got 'a

definition httpcliConnPop :: "HttpConnInfoQueue \<Rightarrow> (conn option \<times> HttpConnInfoQueue) turn" where
  "httpcliConnPop q =
     (case conns q of
        [] \<Rightarrow> if connIsFull q then Blocks else Got (None, q)
      | c # cs \<Rightarrow> Got (Some c, q\<lparr>conns := cs\<rparr>))"

type_synonym HttpUrlConnInfo = "string \<rightharpoonup> HttpConnInfoQueue"

definition connInfoFromUrl :: "string \<Rightarrow> HttpUrlConnInfo \<Rightarrow> (conn option \<times> HttpUrlConnInfo) turn" where
  "connInfoFromUrl url urlMap =
     (case urlMap url of
        None \<Rightarrow> Got (None, urlMap)
      | Some q \<Rightarrow> (case httpcliConnPop q of Blocks \<Rightarrow> Blocks | Got (c, q') \<Rightarrow> Got (c, urlMap(url \<mapsto> q'))))"

definition addUrlConnInfo :: "nat \<Rightarrow> string \<Rightarrow> nat \<Rightarrow> HttpUrlConnInfo \<Rightarrow> int \<times> HttpUrlConnInfo" where
  "addUrlConnInfo junk url maxN urlMap =
     (case urlMap url of Some _ \<Rightarrow> (1, urlMap) | None \<Rightarrow> (0, urlMap(url \<mapsto> HttpConnInfoQueue_new maxN junk)))"

definition returnUrlConnInfo :: "nat \<Rightarrow> string \<Rightarrow> conn \<Rightarrow> bool \<Rightarrow> HttpUrlConnInfo \<Rightarrow> int \<times> HttpUrlConnInfo" where
  "returnUrlConnInfo junk url c new urlMap =
     (let q = (case urlMap url of None \<Rightarrow> HttpConnInfoQueue_new 0 junk | Some q \<Rightarrow> q)
      in (0, urlMap(url \<mapsto> httpcliConnInsert c new q)))"

section \<open>Sending a request\<close>

text \<open>
  \<open>CurlHttpCli\<close>: the I/O threads are a vector of pointers to their request queues (\<^const>\<open>None\<close> while a thread is not up),
  \<open>asyncNum\<close> the number of requests under way (\<open>AsyncQueueNum\<close>). \<^const>\<open>Blocks\<close> is a call that waits: for the
  threads to be ready, for a connection, or for room in a queue.
\<close>

record CurlHttpCli =
  cliExit :: bool
  ioThreadNum :: nat
  readyIothread :: nat
  lastIndex :: u32
  asyncs :: "HttpReqSession HttpRequestQueue option list"
  urlMap :: HttpUrlConnInfo
  asyncNum :: c_i64

definition curlHttpClientWakeup :: "nat \<Rightarrow> HttpReqSession \<Rightarrow> CurlHttpCli \<Rightarrow> (int \<times> CurlHttpCli) turn option" where
  "curlHttpClientWakeup ioIndex req s =
     (if ioIndex = ioThreadNum s \<and> ioThreadNum s = 0 then None
      else
        (let (index, s) =
           (if ioIndex = ioThreadNum s
            then (unat (lastIndex s) mod ioThreadNum s, s\<lparr>lastIndex := lastIndex s + 1\<rparr>)
            else (ioIndex, s))
         in if index \<ge> length (asyncs s) then None
            else (case asyncs s ! index of
                    None \<Rightarrow> Some (Got (- 1, s))
                  | Some q \<Rightarrow>
                      (case httpRequest req q of
                         None \<Rightarrow> Some Blocks
                       | Some q' \<Rightarrow> Some (Got (0, s\<lparr>asyncs := (asyncs s)[index := Some q']\<rparr>))))))"

definition curlHttpRequest :: "c_i64 \<Rightarrow> nat \<Rightarrow> HttpReqSession \<Rightarrow> CurlHttpCli \<Rightarrow> (int \<times> CurlHttpCli) turn option" where
  "curlHttpRequest now junk curlReq s =
     (if cliExit s then Some (Got (- 2, s))
      else if ioThreadNum s = 0 \<or> readyIothread s \<noteq> ioThreadNum s then Some Blocks
      else
        (let req = setHttpReqInsertMicroSecond now (HttpReqSession_copy curlReq);
             s = s\<lparr>asyncNum := asyncNum s + 1\<rparr>;
             finish = (\<lambda>r. case r of
                         Some (Got (ret, s)) \<Rightarrow> Some (Got (ret, if ret < 0 then s\<lparr>asyncNum := asyncNum s - 1\<rparr> else s))
                       | _ \<Rightarrow> r)
         in case connInfoFromUrl (reqUrl req) (urlMap s) of
              Blocks \<Rightarrow> Some Blocks
            | Got (Some pConninf, m) \<Rightarrow> finish (curlHttpClientWakeup (snd pConninf) req (s\<lparr>urlMap := m\<rparr>))
            | Got (None, m) \<Rightarrow>
                (let (ret, m) = addUrlConnInfo junk (reqUrl req) (unat (maxconns req)) m
                 in if ret \<ge> 0 then finish (curlHttpClientWakeup (ioThreadNum s) req (s\<lparr>urlMap := m\<rparr>))
                    else finish (Some (Got (ret, s\<lparr>urlMap := m\<rparr>))))))"

section \<open>Queues in order\<close>

lemma httpRequest_unlimited: "maxSize q = 0 \<Longrightarrow> httpRequest r q = Some (q\<lparr>queue := queue q @ [r]\<rparr>)"
  by (simp add: httpRequest_def isFull_def)

definition rq_enq :: "'a \<Rightarrow> 'a HttpRequestQueue \<Rightarrow> 'a HttpRequestQueue" where
  "rq_enq r q = (case httpRequest r q of None \<Rightarrow> q | Some q' \<Rightarrow> q')"

definition rq_deq :: "'a HttpRequestQueue \<Rightarrow> ('a \<times> 'a HttpRequestQueue) option" where
  "rq_deq q = (case dealRequest q of (Some r, _, q') \<Rightarrow> Some (r, q') | _ \<Rightarrow> None)"

interpretation rqf: fifo rq_enq rq_deq queue "\<lambda>q. maxSize q = 0"
  by unfold_locales (auto simp: rq_enq_def rq_deq_def httpRequest_unlimited dealRequest_def split: list.splits)

definition conn_deq :: "HttpConnInfoQueue \<Rightarrow> (conn \<times> HttpConnInfoQueue) option" where
  "conn_deq q = (case httpcliConnPop q of Got (Some c, q') \<Rightarrow> Some (c, q') | _ \<Rightarrow> None)"

interpretation cqf: fifo "\<lambda>c. httpcliConnInsert c new" conn_deq conns "\<lambda>_. True"
  by unfold_locales (auto simp: httpcliConnInsert_def conn_deq_def httpcliConnPop_def Let_def split: list.splits)

section \<open>The monitor of the request queue\<close>

inductive_cases monitor_stepE: "monitor_step s s'"

text \<open>
  What holds between the steps: the queue never exceeds its bound, and whenever a caller waits, there are at least as
  many notified callers as free places.
\<close>

definition monitor_ok :: "'a request_monitor \<Rightarrow> bool" where
  "monitor_ok s \<longleftrightarrow> (maxSize (rq s) > 0 \<longrightarrow> length (queue (rq s)) \<le> maxSize (rq s)) \<and>
     (waiting s > 0 \<longrightarrow> maxSize (rq s) > 0 \<and> maxSize (rq s) \<le> length (queue (rq s)) + woken s)"

lemma httpRequest_Some: "httpRequest r q = Some q' \<longleftrightarrow> \<not> isFull q \<and> q' = q\<lparr>queue := queue q @ [r]\<rparr>"
  by (auto simp: httpRequest_def)

lemma httpRequest_None: "httpRequest r q = None \<longleftrightarrow> isFull q"
  by (simp add: httpRequest_def)

lemma monitor_step_ok: "monitor_step s s' \<Longrightarrow> monitor_ok s \<Longrightarrow> monitor_ok s' \<and> maxSize (rq s') = maxSize (rq s)"
proof (induction rule: monitor_step.induct)
  case (deal s r notify q)
  then show ?case by (auto simp: monitor_ok_def dealRequest_def split: list.splits)
qed (auto simp: monitor_ok_def httpRequest_Some httpRequest_None isFull_def)

lemma monitor_reachable_ok: "monitor_step\<^sup>*\<^sup>* s s' \<Longrightarrow> monitor_ok s \<Longrightarrow> monitor_ok s' \<and> maxSize (rq s') = maxSize (rq s)"
  by (induction rule: rtranclp_induct) (auto dest: monitor_step_ok)

section \<open>Buffers, copies and counters\<close>

definition url_ok :: "ConnInfo \<Rightarrow> bool" where
  "url_ok c \<longleftrightarrow> (if urlSize c = 0 then connUrl c = None else (\<exists>b. connUrl c = Some b \<and> length b = urlSize c))"

lemma session_copy: "HttpReqSession_copy s = s" "HttpReqSession_assign t s = s"
  by (cases s, cases t, simp add: HttpReqSession_copy_def HttpReqSession_assign_def HttpReqSession_default_def)+

definition queued :: "CurlHttpCli \<Rightarrow> HttpReqSession list list" where
  "queued s = map (\<lambda>a. case a of None \<Rightarrow> [] | Some q \<Rightarrow> queue q) (asyncs s)"

lemma wakeup_effect:
  assumes "curlHttpClientWakeup i req s = Some (Got (ret, s'))"
  shows "asyncNum s' = asyncNum s \<and> ret \<in> {0, - 1} \<and>
    (if ret = 0 then \<exists>k < length (asyncs s). queued s' = (queued s)[k := queued s ! k @ [req]] else queued s' = queued s)"
proof -
  define k where "k = (if i = ioThreadNum s then unat (lastIndex s) mod ioThreadNum s else i)"
  define t where "t = (if i = ioThreadNum s then s\<lparr>lastIndex := lastIndex s + 1\<rparr> else s)"
  have t: "asyncNum t = asyncNum s" "asyncs t = asyncs s" by (simp_all add: t_def)
  have k: "k < length (asyncs s)"
    using assms by (auto simp: curlHttpClientWakeup_def Let_def k_def not_le split: if_splits)
  have e: "(case asyncs t ! k of
               None \<Rightarrow> Some (Got (- 1, t))
             | Some q \<Rightarrow> (case httpRequest req q of
                            None \<Rightarrow> Some Blocks
                          | Some q' \<Rightarrow> Some (Got (0, t\<lparr>asyncs := (asyncs t)[k := Some q']\<rparr>)))) = Some (Got (ret, s'))"
    using assms
    by (auto simp: curlHttpClientWakeup_def Let_def k_def t_def cong del: option.case_cong_weak split: if_splits)
  show ?thesis
  proof (cases "asyncs s ! k")
    case None
    then show ?thesis using t e by (auto simp: queued_def)
  next
    case (Some q)
    then obtain q' where "httpRequest req q = Some q'" "ret = 0" "s' = t\<lparr>asyncs := (asyncs t)[k := Some q']\<rparr>"
      using t e by (auto split: option.splits)
    then show ?thesis using t k Some
      by (auto simp: httpRequest_Some queued_def map_update intro!: exI [of _ k])
  qed
qed

section \<open>Properties\<close>

text \<open>C16: No wake-up of a blocked sender is lost. However senders, the I/O thread and spurious wake-ups interleave on a
  bounded request queue, the queue never holds more than its bound, and whenever a sender waits while no notified sender is
  on its way, the queue is full; so no sender sleeps while there is room.\<close>

theorem no_lost_wakeup:
  assumes "monitor_step\<^sup>*\<^sup>* \<lparr>rq = \<lparr>maxSize = m, queue = []\<rparr>, waiting = 0, woken = 0\<rparr> s"
  shows "(0 < m \<longrightarrow> length (queue (rq s)) \<le> m) \<and> (0 < waiting s \<and> woken s = 0 \<longrightarrow> isFull (rq s))"
proof -
  have "monitor_ok (\<lparr>rq = \<lparr>maxSize = m, queue = []\<rparr>, waiting = 0, woken = 0\<rparr> :: 'a request_monitor)"
    by (simp add: monitor_ok_def)
  from monitor_reachable_ok [OF assms this] show ?thesis by (auto simp: monitor_ok_def isFull_def)
qed

theorem no_lost_wakeup_witness:
  "isFull (rq \<lparr>rq = \<lparr>maxSize = 1, queue = [5 :: nat]\<rparr>, waiting = 1, woken = 0\<rparr>)"
proof -
  let ?s0 = "\<lparr>rq = \<lparr>maxSize = 1, queue = []\<rparr>, waiting = 0, woken = 0\<rparr> :: nat request_monitor"
  let ?s1 = "\<lparr>rq = \<lparr>maxSize = 1, queue = [5]\<rparr>, waiting = 0, woken = 0\<rparr> :: nat request_monitor"
  let ?s2 = "\<lparr>rq = \<lparr>maxSize = 1, queue = [5]\<rparr>, waiting = 1, woken = 0\<rparr> :: nat request_monitor"
  have "monitor_step ?s0 ?s1" using monitor_step.enter [of 5 ?s0] by (simp add: httpRequest_def isFull_def)
  moreover have "monitor_step ?s1 ?s2" using monitor_step.block [of 6 ?s1] by (simp add: httpRequest_def isFull_def)
  ultimately have "monitor_step\<^sup>*\<^sup>* ?s0 ?s2" by auto
  from no_lost_wakeup [OF this] show ?thesis by simp
qed

text \<open>Requests leave an unbounded queue, and connections a pool, in the order they came in, none lost and none twice,
  for any interleaving of insertions and removals.\<close>

theorem queues_in_order:
  "(case fifo_run rq_enq rq_deq ops \<lparr>maxSize = 0, queue = []\<rparr> of (out, q) \<Rightarrow> enqs ops = out @ queue q) \<and>
   (case fifo_run (\<lambda>c. httpcliConnInsert c new) conn_deq cops (HttpConnInfoQueue_new maxN junk) of
      (out, q) \<Rightarrow> enqs cops = out @ conns q)"
  using rqf.run_conserves [of "\<lparr>maxSize = 0, queue = []\<rparr>" ops] cqf.run_conserves [where s = "HttpConnInfoQueue_new maxN junk" and new = new and ops = cops]
  by (auto simp: HttpConnInfoQueue_new_def split: prod.split)

text \<open>A copied request is complete: the copy constructor and the assignment, which list the fields one by one, carry over
  every field of the session.\<close>

theorem session_copy_complete: "HttpReqSession_copy s = s \<and> HttpReqSession_assign t s = s"
  by (simp add: session_copy)

text \<open>Setting a connection's URL never writes outside its buffer and leaves exactly the URL with a terminator behind it,
  whatever URLs were set before, as long as memory is available: the buffer is larger than the URL, starts with it, and
  is zero after it.\<close>

theorem url_buffer_holds:
  assumes "url_ok c"
  shows "\<exists>c' b. connInfoSetReqUrl True url c = Some (0, c') \<and> url_ok c' \<and> connUrl c' = Some b \<and>
    length b = urlSize c' \<and> length url < urlSize c' \<and> b = url @ replicate (urlSize c' - length url) NUL"
proof -
  have r: "drop (length url) (replicate n NUL) = replicate (n - length url) NUL" for n by simp
  show ?thesis
  proof (cases "urlSize c = 0")
    case True
    define sz where "sz = (if length url \<ge> 1024 then length url + 1 else 1024)"
    have "length url < sz" by (auto simp: sz_def)
    then show ?thesis using True
      by (intro exI [of _ "c\<lparr>urlSize := sz, connUrl := Some (url @ replicate (sz - length url) NUL)\<rparr>"]
          exI [of _ "url @ replicate (sz - length url) NUL"])
        (simp add: connInfoSetReqUrl_def url_ok_def fill_url_def Let_def r flip: sz_def)
  next
    case False
    then obtain b where b: "connUrl c = Some b" "length b = urlSize c" using assms by (auto simp: url_ok_def)
    show ?thesis
    proof (cases "length url \<ge> urlSize c")
      case True
      then show ?thesis using False
        by (intro exI [of _ "c\<lparr>urlSize := length url + 1, connUrl := Some (url @ [NUL])\<rparr>"] exI [of _ "url @ [NUL]"])
          (simp add: connInfoSetReqUrl_def url_ok_def fill_url_def Let_def r replicate_Suc [of 0] del: replicate_Suc)
    next
      case f: False
      then show ?thesis using False b
        by (intro exI [of _ "c\<lparr>connUrl := Some (url @ replicate (urlSize c - length url) NUL)\<rparr>"]
            exI [of _ "url @ replicate (urlSize c - length url) NUL"])
          (simp add: connInfoSetReqUrl_def url_ok_def fill_url_def Let_def r)
    qed
  qed
qed

theorem url_buffer_holds_witness:
  "\<exists>c' b. connInfoSetReqUrl True ''http://a'' (ConnInfo_new 0) = Some (0, c') \<and> connUrl c' = Some b \<and>
    b = ''http://a'' @ replicate (urlSize c' - 8) NUL"
  using url_buffer_holds [of "ConnInfo_new 0" "''http://a''"] by (auto simp: url_ok_def ConnInfo_new_def)

text \<open>C34: The counter of requests under way is exact. A call of \<open>curlHttpRequest\<close> that returns has added one to it and put
  exactly one copy of the request (with its insertion time) at the end of one thread's queue when the result is not
  negative, and has left the counter and the queues alone otherwise.\<close>

theorem request_accounting:
  assumes "curlHttpRequest now junk curlReq s = Some (Got (ret, s'))"
  shows "if ret < 0 then asyncNum s' = asyncNum s \<and> queued s' = queued s
    else asyncNum s' = asyncNum s + 1 \<and>
      (\<exists>k < length (asyncs s). queued s' = (queued s)[k := queued s ! k @ [curlReq\<lparr>insertMicroSecond := now\<rparr>]])"
proof -
  have z: "\<not> ret < 0 \<Longrightarrow> ret \<in> {0, - 1} \<Longrightarrow> ret = 0" by auto
  have q: "queued (s\<lparr>asyncNum := n, urlMap := m\<rparr>) = queued s" for n m by (simp add: queued_def)
  show ?thesis
    using assms
    by (auto simp: curlHttpRequest_def Let_def session_copy setHttpReqInsertMicroSecond_def q addUrlConnInfo_def
        split: if_splits option.splits turn.splits prod.splits dest!: wakeup_effect)
      (auto simp: queued_def)
qed

theorem request_accounting_witness:
  "\<exists>s'. curlHttpRequest 5 0 HttpReqSession_default
      \<lparr>cliExit = False, ioThreadNum = 1, readyIothread = 1, lastIndex = 0, asyncs = [Some \<lparr>maxSize = 0, queue = []\<rparr>],
       urlMap = Map.empty, asyncNum = 0\<rparr> = Some (Got (0, s')) \<and> asyncNum s' = 1"
proof -
  let ?s = "\<lparr>cliExit = False, ioThreadNum = 1, readyIothread = 1, lastIndex = 0, asyncs = [Some \<lparr>maxSize = 0, queue = []\<rparr>],
       urlMap = Map.empty, asyncNum = 0\<rparr>"
  obtain s' where e: "curlHttpRequest 5 0 HttpReqSession_default ?s = Some (Got (0, s'))"
    by (simp add: curlHttpRequest_def Let_def session_copy setHttpReqInsertMicroSecond_def connInfoFromUrl_def addUrlConnInfo_def
        curlHttpClientWakeup_def httpRequest_def isFull_def)
  from request_accounting [OF e] e show ?thesis by simp
qed

text \<open>The exit of the response thread can be missed. \<open>httpResponseExit\<close> sets its flag and notifies without the mutex, so it
  can run between the consumer's test of the flag and its wait: there is a reachable state in which the exit call has
  completed, the queue is empty, the consumer waits, and no step but a further response can ever wake it.\<close>

theorem exit_wakeup_lost:
  "\<exists>s. response_step\<^sup>*\<^sup>* response_start s \<and> exiter_at s = ExitDone \<and> isExit s \<and> rsp_queue s = [] \<and>
     consumer_at s = Waiting \<and> (\<forall>s'. response_step s s' \<longrightarrow> rsp_queue s' \<noteq> [])"
proof -
  let ?s1 = "response_start\<lparr>consumer_at := AboutToWait\<rparr>"
  let ?s2 = "?s1\<lparr>isExit := True, exiter_at := ExitFlagSet\<rparr>"
  let ?s3 = "?s2\<lparr>exiter_at := ExitDone, consumer_at := AboutToWait\<rparr>"
  let ?s4 = "?s3\<lparr>consumer_at := Waiting\<rparr>"
  have "response_step response_start ?s1" by (rule response_step.test) (simp_all add: response_start_def)
  moreover have "response_step ?s1 ?s2" by (rule response_step.exit_flag) (simp add: response_start_def)
  moreover have "response_step ?s2 ?s3" using response_step.exit_notify [of ?s2] by simp
  moreover have "response_step ?s3 ?s4" by (rule response_step.wait) simp
  ultimately have "response_step\<^sup>*\<^sup>* response_start ?s4" by (meson converse_rtranclp_into_rtranclp rtranclp.rtrancl_refl)
  moreover have "rsp_queue s' \<noteq> []" if "response_step ?s4 s'" for s'
    using that by (cases rule: response_step.cases) (auto simp: response_start_def)
  ultimately show ?thesis by (intro exI [of _ ?s4]) (simp add: response_start_def)
qed

theorem exit_wakeup_lost_witness:
  "\<exists>s. response_step\<^sup>*\<^sup>* response_start s \<and> isExit s \<and> consumer_at s = Waiting \<and> exiter_at s = ExitDone"
  using exit_wakeup_lost by blast

text \<open>A fresh connection pool can block its first user. The constructor leaves the counter \<open>queueSize_\<close> uninitialised;
  for every bound and every initial counter value not below it, taking a connection from the new, empty pool waits for
  a connection that nobody will return, instead of answering that there is none.\<close>

theorem uninitialised_counter_blocks:
  assumes "0 < maxN" and "maxN \<le> junk" and "addUrlConnInfo junk url maxN m = (0, m')"
  shows "connInfoFromUrl url m' = Blocks"
  using assms
  by (auto simp: addUrlConnInfo_def connInfoFromUrl_def httpcliConnPop_def connIsFull_def HttpConnInfoQueue_new_def
      split: option.splits)

theorem uninitialised_counter_blocks_witness:
  "connInfoFromUrl ''u'' (snd (addUrlConnInfo 7 ''u'' 3 Map.empty)) = Blocks"
  using uninitialised_counter_blocks [of 3 7 "''u''" Map.empty "snd (addUrlConnInfo 7 ''u'' 3 Map.empty)"]
  by (simp add: addUrlConnInfo_def)

text \<open>A pooled connection is taken and dropped. When the pool of the request's URL has a free connection, \<open>curlHttpRequest\<close>
  removes it, uses only its thread index, and queues a request that carries the caller's connection field (which
  nothing sets) instead of it: afterwards the connection is in no pool, and the I/O thread opens a new one.\<close>

theorem pooled_connection_dropped:
  assumes "urlMap s (reqUrl curlReq) = Some q" and "conns q = (c, i) # cs"
    and "\<not> cliExit s" and "ioThreadNum s \<noteq> 0" and "readyIothread s = ioThreadNum s"
    and "i < ioThreadNum s" and "length (asyncs s) = ioThreadNum s" and "asyncs s ! i = Some iq" and "\<not> isFull iq"
  shows "\<exists>r s'. curlHttpRequest now junk curlReq s = Some (Got (0, s')) \<and>
    urlMap s' = (urlMap s)(reqUrl curlReq \<mapsto> q\<lparr>conns := cs\<rparr>) \<and>
    asyncs s' = (asyncs s)[i := Some (iq\<lparr>queue := queue iq @ [r]\<rparr>)] \<and> connInfo r = connInfo curlReq"
  using assms
  by (intro exI [of _ "curlReq\<lparr>insertMicroSecond := now\<rparr>"]
      exI [of _ "s\<lparr>asyncNum := asyncNum s + 1, urlMap := (urlMap s)(reqUrl curlReq \<mapsto> q\<lparr>conns := cs\<rparr>),
        asyncs := (asyncs s)[i := Some (iq\<lparr>queue := queue iq @ [curlReq\<lparr>insertMicroSecond := now\<rparr>]\<rparr>)]\<rparr>"])
    (simp add: curlHttpRequest_def Let_def session_copy setHttpReqInsertMicroSecond_def connInfoFromUrl_def
      httpcliConnPop_def curlHttpClientWakeup_def httpRequest_def)

theorem pooled_connection_dropped_witness:
  "\<exists>r s'. curlHttpRequest 0 0 (setHttpreqUrl ''u'' HttpReqSession_default)
      \<lparr>cliExit = False, ioThreadNum = 1, readyIothread = 1, lastIndex = 0, asyncs = [Some \<lparr>maxSize = 0, queue = []\<rparr>],
       urlMap = [''u'' \<mapsto> \<lparr>connMax = 0, connCount = 1, conns = [(77, 0)]\<rparr>], asyncNum = 0\<rparr> = Some (Got (0, s')) \<and>
    urlMap s' = [''u'' \<mapsto> \<lparr>connMax = 0, connCount = 1, conns = []\<rparr>] \<and>
    asyncs s' = [Some \<lparr>maxSize = 0, queue = [r]\<rparr>] \<and> connInfo r = None"
  using pooled_connection_dropped [of
      "\<lparr>cliExit = False, ioThreadNum = 1, readyIothread = 1, lastIndex = 0, asyncs = [Some \<lparr>maxSize = 0, queue = []\<rparr>],
       urlMap = [''u'' \<mapsto> \<lparr>connMax = 0, connCount = 1, conns = [(77, 0)]\<rparr>], asyncNum = 0\<rparr>"
      "setHttpreqUrl ''u'' HttpReqSession_default" "\<lparr>connMax = 0, connCount = 1, conns = [(77, 0)]\<rparr>" 77 0 "[]"
      "\<lparr>maxSize = 0, queue = []\<rparr>" 0 0]
  by (simp add: setHttpreqUrl_def HttpReqSession_default_def isFull_def)

text \<open>After a failed allocation a connection writes through a null pointer. When no memory was available for a
  connection's first URL, the size it wanted is recorded although there is no buffer, and the next, shorter URL is
  copied to the null pointer.\<close>

theorem url_after_failed_malloc:
  assumes "length url2 < 1024"
  shows "\<exists>c'. connInfoSetReqUrl False url (ConnInfo_new sub) = Some (- 1, c') \<and> connInfoSetReqUrl ok2 url2 c' = None"
  using assms by (simp add: connInfoSetReqUrl_def ConnInfo_new_def fill_url_def Let_def)

theorem url_after_failed_malloc_witness:
  "\<exists>c'. connInfoSetReqUrl False ''a'' (ConnInfo_new 0) = Some (- 1, c') \<and> connInfoSetReqUrl True ''b'' c' = None"
  using url_after_failed_malloc [of "''b''" "''a''" 0 True] by simp

end
