(* ===== verification/StringUtil.thy ===== *)
theory StringUtil
  imports CText "HOL-Library.Sublist"
begin

text \<open>
  The string functions of \<^verbatim>\<open>src/common/StringUtility.cpp\<close>: splitting, trimming, replacing, URL and
  hexadecimal encoding. \<open>std::string\<close> values are strings that may contain any byte.
\<close>

section \<open>Searching\<close>

text \<open>\<open>str.find(t, pos)\<close>: the first position from \<open>pos\<close> on where \<open>t\<close> starts.\<close>

definition str_find :: "string \<Rightarrow> string \<Rightarrow> nat \<Rightarrow> nat option" where
  "str_find s t pos =
     (if pos > length s then None
      else map_option (\<lambda>p. length s - length p) (find_sub (drop pos s) t))"

lemma find_sub_suffix: "find_sub s t = Some p \<Longrightarrow> length p \<le> length s \<and> take (length t) p = t"
  by (induction s) (auto split: if_splits)

lemma str_find_bounds: "str_find s t pos = Some e \<Longrightarrow> pos \<le> e \<and> e + length t \<le> length s"
proof -
  assume "str_find s t pos = Some e"
  then obtain p where p: "find_sub (drop pos s) t = Some p" "e = length s - length p" "pos \<le> length s"
    by (auto simp: str_find_def split: if_splits)
  then have "length p \<le> length s - pos" "length t \<le> length p"
    using find_sub_suffix [OF p(1)] by (simp, metis length_take min.absorb_iff2 min.commute)
  then show ?thesis using p(2,3) by linarith
qed

section \<open>Split, prefixes, suffixes\<close>

text \<open>The loop of \<open>Split\<close> from \<open>beginIndex\<close> on; the result is what is appended to \<open>*result\<close>.\<close>

function split_loop :: "string \<Rightarrow> string \<Rightarrow> nat \<Rightarrow> string list" where
  "split_loop str delim beginIndex =
     (if delim = [] then []
      else if beginIndex < length str then
        (case str_find str delim beginIndex of
           None \<Rightarrow> [drop beginIndex str]
         | Some endIndex \<Rightarrow>
             (if endIndex > beginIndex then [take (endIndex - beginIndex) (drop beginIndex str)] else []) @
             split_loop str delim (endIndex + length delim))
      else [])"
  by pat_completeness auto
termination
  by (relation "measure (\<lambda>(str, delim, b). length str - b)")
    (auto dest!: str_find_bounds simp flip: length_greater_0_conv)

declare split_loop.simps [simp del]

text \<open>The guard \<open>delim[0] == '\0'\<close> also catches the empty delimiter.\<close>

definition Split :: "string \<Rightarrow> string \<Rightarrow> string list \<Rightarrow> string list" where
  "Split str delim result =
     (if str = [] then result
      else if ptr_char delim = NUL then result @ [str]
      else result @ split_loop str delim 0)"

definition StartsWith :: "string \<Rightarrow> string \<Rightarrow> bool" where
  "StartsWith str pre = (if length pre > length str then False else take (length pre) str = pre)"

definition EndsWith :: "string \<Rightarrow> string \<Rightarrow> bool" where
  "EndsWith str suf = (if length suf > length str then False else drop (length str - length suf) str = suf)"

definition StripSuffix :: "string \<Rightarrow> string \<Rightarrow> bool \<times> string" where
  "StripSuffix str suf =
     (if length str \<ge> length suf \<and> drop (length str - length suf) str = suf
      then (True, str_resize str (length str - length suf)) else (False, str))"

definition StripPrefix :: "string \<Rightarrow> string \<Rightarrow> bool \<times> string" where
  "StripPrefix str pre =
     (if length str \<ge> length pre \<and> take (length pre) str = pre then (True, drop (length pre) str) else (False, str))"

section \<open>Trimming and case\<close>

definition Ltrim :: "string \<Rightarrow> string" where
  "Ltrim str = dropWhile is_space str"

definition Rtrim :: "string \<Rightarrow> string" where
  "Rtrim str = rev (dropWhile is_space (rev str))"

definition Trim :: "string \<Rightarrow> string" where
  "Trim str = Rtrim (Ltrim str)"

definition Trim_list :: "string list option \<Rightarrow> string list option" where
  "Trim_list strList = map_option (map Trim) strList"

definition ToUpper :: "string \<Rightarrow> string" where
  "ToUpper str = map (\<lambda>c. if 97 \<le> code c \<and> code c \<le> 122 then char_of (code c - 32) else c) str"

definition ToLower :: "string \<Rightarrow> string" where
  "ToLower str = map (\<lambda>c. if 65 \<le> code c \<and> code c \<le> 90 then char_of (code c + 32) else c) str"

section \<open>Replacing\<close>

text \<open>The loop of \<open>StringReplace\<close>; \<^const>\<open>None\<close> is the run that does not end.\<close>

partial_function (option) StringReplace_loop :: "string \<Rightarrow> string \<Rightarrow> string \<Rightarrow> nat \<Rightarrow> string option" where
  "StringReplace_loop subStr1 subStr2 str pos =
     (case str_find str subStr1 pos of
        None \<Rightarrow> Some str
      | Some p \<Rightarrow>
          StringReplace_loop subStr1 subStr2 (take p str @ subStr2 @ drop (p + length subStr1) str) (p + length subStr2))"

definition StringReplace :: "string \<Rightarrow> string \<Rightarrow> string \<Rightarrow> string option" where
  "StringReplace subStr1 subStr2 str = StringReplace_loop subStr1 subStr2 str 0"

section \<open>URL encoding\<close>

text \<open>The table, one group of four bytes per character: how many characters to append, and the characters.\<close>

definition ENCODECHARS :: "(nat \<times> string) list" where
  "ENCODECHARS = [
     (3, ''%00''), (3, ''%01''), (3, ''%02''), (3, ''%03''),
     (3, ''%04''), (3, ''%05''), (3, ''%06''), (3, ''%07''),
     (3, ''%08''), (3, ''%09''), (3, ''%0A''), (3, ''%0B''),
     (3, ''%0C''), (3, ''%0D''), (3, ''%0E''), (3, ''%0F''),
     (3, ''%10''), (3, ''%11''), (3, ''%12''), (3, ''%13''),
     (3, ''%14''), (3, ''%15''), (3, ''%16''), (3, ''%17''),
     (3, ''%18''), (3, ''%19''), (3, ''%1A''), (3, ''%1B''),
     (3, ''%1C''), (3, ''%1D''), (3, ''%1E''), (3, ''%1F''),
     (1, ''+20''), (3, ''%21''), (3, ''%22''), (3, ''%23''),
     (3, ''%24''), (3, ''%25''), (3, ''%26''), (3, ''%27''),
     (3, ''%28''), (3, ''%29''), (3, ''%2A''), (3, ''%2B''),
     (3, ''%2C''), (1, ''-2D''), (1, ''.2E''), (3, ''%2F''),
     (1, ''030''), (1, ''131''), (1, ''232''), (1, ''333''),
     (1, ''434''), (1, ''535''), (1, ''636''), (1, ''737''),
     (1, ''838''), (1, ''939''), (3, ''%3A''), (3, ''%3B''),
     (3, ''%3C''), (3, ''%3D''), (3, ''%3E''), (3, ''%3F''),
     (3, ''%40''), (1, ''A41''), (1, ''B42''), (1, ''C43''),
     (1, ''D44''), (1, ''E45''), (1, ''F46''), (1, ''G47''),
     (1, ''H48''), (1, ''I49''), (1, ''J4A''), (1, ''K4B''),
     (1, ''L4C''), (1, ''M4D''), (1, ''N4E''), (1, ''O4F''),
     (1, ''P50''), (1, ''Q51''), (1, ''R52''), (1, ''S53''),
     (1, ''T54''), (1, ''U55''), (1, ''V56''), (1, ''W57''),
     (1, ''X58''), (1, ''Y59''), (1, ''Z5A''), (3, ''%5B''),
     (3, ''%5C''), (3, ''%5D''), (3, ''%5E''), (1, ''_5F''),
     (3, ''%60''), (1, ''a61''), (1, ''b62''), (1, ''c63''),
     (1, ''d64''), (1, ''e65''), (1, ''f66''), (1, ''g67''),
     (1, ''h68''), (1, ''i69''), (1, ''j6A''), (1, ''k6B''),
     (1, ''l6C''), (1, ''m6D''), (1, ''n6E''), (1, ''o6F''),
     (1, ''p70''), (1, ''q71''), (1, ''r72''), (1, ''s73''),
     (1, ''t74''), (1, ''u75''), (1, ''v76''), (1, ''w77''),
     (1, ''x78''), (1, ''y79''), (1, ''z7A''), (3, ''%7B''),
     (3, ''%7C''), (3, ''%7D''), (1, ''~7E''), (3, ''%7F''),
     (3, ''%80''), (3, ''%81''), (3, ''%82''), (3, ''%83''),
     (3, ''%84''), (3, ''%85''), (3, ''%86''), (3, ''%87''),
     (3, ''%88''), (3, ''%89''), (3, ''%8A''), (3, ''%8B''),
     (3, ''%8C''), (3, ''%8D''), (3, ''%8E''), (3, ''%8F''),
     (3, ''%90''), (3, ''%91''), (3, ''%92''), (3, ''%93''),
     (3, ''%94''), (3, ''%95''), (3, ''%96''), (3, ''%97''),
     (3, ''%98''), (3, ''%99''), (3, ''%9A''), (3, ''%9B''),
     (3, ''%9C''), (3, ''%9D''), (3, ''%9E''), (3, ''%9F''),
     (3, ''%A0''), (3, ''%A1''), (3, ''%A2''), (3, ''%A3''),
     (3, ''%A4''), (3, ''%A5''), (3, ''%A6''), (3, ''%A7''),
     (3, ''%A8''), (3, ''%A9''), (3, ''%AA''), (3, ''%AB''),
     (3, ''%AC''), (3, ''%AD''), (3, ''%AE''), (3, ''%AF''),
     (3, ''%B0''), (3, ''%B1''), (3, ''%B2''), (3, ''%B3''),
     (3, ''%B4''), (3, ''%B5''), (3, ''%B6''), (3, ''%B7''),
     (3, ''%B8''), (3, ''%B9''), (3, ''%BA''), (3, ''%BB''),
     (3, ''%BC''), (3, ''%BD''), (3, ''%BE''), (3, ''%BF''),
     (3, ''%C0''), (3, ''%C1''), (3, ''%C2''), (3, ''%C3''),
     (3, ''%C4''), (3, ''%C5''), (3, ''%C6''), (3, ''%C7''),
     (3, ''%C8''), (3, ''%C9''), (3, ''%CA''), (3, ''%CB''),
     (3, ''%CC''), (3, ''%CD''), (3, ''%CE''), (3, ''%CF''),
     (3, ''%D0''), (3, ''%D1''), (3, ''%D2''), (3, ''%D3''),
     (3, ''%D4''), (3, ''%D5''), (3, ''%D6''), (3, ''%D7''),
     (3, ''%D8''), (3, ''%D9''), (3, ''%DA''), (3, ''%DB''),
     (3, ''%DC''), (3, ''%DD''), (3, ''%DE''), (3, ''%DF''),
     (3, ''%E0''), (3, ''%E1''), (3, ''%E2''), (3, ''%E3''),
     (3, ''%E4''), (3, ''%E5''), (3, ''%E6''), (3, ''%E7''),
     (3, ''%E8''), (3, ''%E9''), (3, ''%EA''), (3, ''%EB''),
     (3, ''%EC''), (3, ''%ED''), (3, ''%EE''), (3, ''%EF''),
     (3, ''%F0''), (3, ''%F1''), (3, ''%F2''), (3, ''%F3''),
     (3, ''%F4''), (3, ''%F5''), (3, ''%F6''), (3, ''%F7''),
     (3, ''%F8''), (3, ''%F9''), (3, ''%FA''), (3, ''%FB''),
     (3, ''%FC''), (3, ''%FD''), (3, ''%FE''), (3, ''%FF'')]"

definition HEX2DEC :: "int list" where
  "HEX2DEC = [
     - 1, - 1, - 1, - 1, - 1, - 1, - 1, - 1, - 1, - 1, - 1, - 1, - 1, - 1, - 1, - 1,
     - 1, - 1, - 1, - 1, - 1, - 1, - 1, - 1, - 1, - 1, - 1, - 1, - 1, - 1, - 1, - 1,
     - 1, - 1, - 1, - 1, - 1, - 1, - 1, - 1, - 1, - 1, - 1, - 1, - 1, - 1, - 1, - 1,
     0, 1, 2, 3, 4, 5, 6, 7, 8, 9, - 1, - 1, - 1, - 1, - 1, - 1,
     - 1, 10, 11, 12, 13, 14, 15, - 1, - 1, - 1, - 1, - 1, - 1, - 1, - 1, - 1,
     - 1, - 1, - 1, - 1, - 1, - 1, - 1, - 1, - 1, - 1, - 1, - 1, - 1, - 1, - 1, - 1,
     - 1, 10, 11, 12, 13, 14, 15, - 1, - 1, - 1, - 1, - 1, - 1, - 1, - 1, - 1,
     - 1, - 1, - 1, - 1, - 1, - 1, - 1, - 1, - 1, - 1, - 1, - 1, - 1, - 1, - 1, - 1,
     - 1, - 1, - 1, - 1, - 1, - 1, - 1, - 1, - 1, - 1, - 1, - 1, - 1, - 1, - 1, - 1,
     - 1, - 1, - 1, - 1, - 1, - 1, - 1, - 1, - 1, - 1, - 1, - 1, - 1, - 1, - 1, - 1,
     - 1, - 1, - 1, - 1, - 1, - 1, - 1, - 1, - 1, - 1, - 1, - 1, - 1, - 1, - 1, - 1,
     - 1, - 1, - 1, - 1, - 1, - 1, - 1, - 1, - 1, - 1, - 1, - 1, - 1, - 1, - 1, - 1,
     - 1, - 1, - 1, - 1, - 1, - 1, - 1, - 1, - 1, - 1, - 1, - 1, - 1, - 1, - 1, - 1,
     - 1, - 1, - 1, - 1, - 1, - 1, - 1, - 1, - 1, - 1, - 1, - 1, - 1, - 1, - 1, - 1,
     - 1, - 1, - 1, - 1, - 1, - 1, - 1, - 1, - 1, - 1, - 1, - 1, - 1, - 1, - 1, - 1,
     - 1, - 1, - 1, - 1, - 1, - 1, - 1, - 1, - 1, - 1, - 1, - 1, - 1, - 1, - 1, - 1]"

text \<open>
  \<open>static_cast<unsigned short>(srcStr[i] * 4)\<close> of a (signed) \<open>char\<close>; \<^const>\<open>None\<close> is the access outside the table.
\<close>

fun UrlEncode :: "string \<Rightarrow> string option" where
  "UrlEncode [] = Some []"
| "UrlEncode (c # cs) =
     (let offset = nat ((schar c * 4) mod 65536) in
      if offset \<ge> 1024 then None
      else do {
        rest \<leftarrow> UrlEncode cs;
        let (n, s) = ENCODECHARS ! (offset div 4) in Some (take n s @ rest)
      })"

text \<open>
  The two loops of \<open>UrlDecode\<close>: decoding while more than two bytes are left, then copying.
\<close>

fun UrlDecode :: "string \<Rightarrow> string" where
  "UrlDecode (c # d # e # s) =
     (if c = CHR ''%'' \<and> HEX2DEC ! code d \<noteq> - 1 \<and> HEX2DEC ! code e \<noteq> - 1
      then char_of (nat (HEX2DEC ! code d * 16 + HEX2DEC ! code e)) # UrlDecode s
      else if c = CHR ''+'' then CHR '' '' # UrlDecode (d # e # s)
      else c # UrlDecode (d # e # s))"
| "UrlDecode s = s"

section \<open>Hexadecimal\<close>

definition ASCII2DEC :: "u8 \<Rightarrow> u8 option" where
  "ASCII2DEC c =
     (if c \<ge> 48 \<and> c \<le> 57 then Some (c - 48)
      else if c \<ge> 65 \<and> c \<le> 70 then Some (c - 55)
      else if c \<ge> 97 \<and> c \<le> 102 then Some (c - 87)
      else None)"

definition DEC2ASCII :: "u8 \<Rightarrow> u8" where
  "DEC2ASCII c = (if c \<le> 9 then c + 48 else c + 55)"

text \<open>The loop of \<open>Hex2Bin\<close> on a C string, with the bytes appended so far; the flag is the returned value.\<close>

fun Hex2Bin_loop :: "string \<Rightarrow> string \<Rightarrow> bool \<times> string" where
  "Hex2Bin_loop [] binStr = (True, binStr)"
| "Hex2Bin_loop [_] binStr = (False, binStr)"
| "Hex2Bin_loop (x # y # s) binStr =
     (case (ASCII2DEC (byte x), ASCII2DEC (byte y)) of
        (Some high, Some low) \<Rightarrow> Hex2Bin_loop s (binStr @ [chr_of (push_bit 4 high + low)])
      | _ \<Rightarrow> (False, binStr))"

definition Hex2Bin :: "c_ptr \<Rightarrow> string option \<Rightarrow> bool \<times> string option" where
  "Hex2Bin hexStr binStr =
     (case (hexStr, binStr) of
        (Some s, Some _) \<Rightarrow> (let (r, b) = Hex2Bin_loop s [] in (r, Some b))
      | _ \<Rightarrow> (False, binStr))"

fun Bin2Hex_loop :: "string \<Rightarrow> string" where
  "Bin2Hex_loop [] = []"
| "Bin2Hex_loop (c # cs) = chr_of (DEC2ASCII (drop_bit 4 (byte c))) # chr_of (DEC2ASCII (byte c AND 0xF)) # Bin2Hex_loop cs"

definition Bin2Hex :: "string option \<Rightarrow> string option \<Rightarrow> bool \<times> string option" where
  "Bin2Hex binStr hexStr =
     (case (binStr, hexStr) of
        (Some b, Some _) \<Rightarrow> (True, Some (Bin2Hex_loop b))
      | _ \<Rightarrow> (False, hexStr))"


section \<open>Lemmas\<close>

subsection \<open>Splitting and replacing\<close>

lemma str_find_append:
  "str_find (xs @ s) t (length xs) = map_option (\<lambda>p. length xs + (length s - length p)) (find_sub s t)"
  by (cases "find_sub s t") (auto simp: str_find_def dest!: find_sub_suffix)

text \<open>Reference: the non-empty pieces between occurrences, by recursion on the rest of the text.\<close>

function split_ref :: "string \<Rightarrow> string \<Rightarrow> string list" where
  "split_ref t s =
     (if t = [] \<or> s = [] then []
      else case find_sub s t of
             None \<Rightarrow> [s]
           | Some p \<Rightarrow> (if length p < length s then [take (length s - length p) s] else []) @
                       split_ref t (drop (length t) p))"
  by pat_completeness auto
termination
  by (relation "measure (\<lambda>(t, s). length s)") (auto dest!: find_sub_suffix simp flip: length_greater_0_conv)

text \<open>Reference: every occurrence replaced, from the left, the rest after each not looked at again.\<close>

function replace_all :: "string \<Rightarrow> string \<Rightarrow> string \<Rightarrow> string" where
  "replace_all t u s =
     (if t = [] then s
      else case find_sub s t of
             None \<Rightarrow> s
           | Some p \<Rightarrow> take (length s - length p) s @ u @ replace_all t u (drop (length t) p))"
  by pat_completeness auto
termination
proof (relation "measure (\<lambda>(t, u, s). length s)", simp, goal_cases)
  case (1 t u s p)
  then show ?case using find_sub_suffix [OF 1(2)] by (cases p; cases t) auto
qed

declare split_ref.simps [simp del] replace_all.simps [simp del]

lemma find_sub_split:
  assumes "t \<noteq> []" "find_sub s t = Some p"
  obtains pre post where "s = pre @ t @ post" "p = t @ post"
proof -
  from find_sub_Some [OF assms] obtain pre where "s = pre @ p" "take (length t) p = t" by blast
  then show ?thesis using that [of pre "drop (length t) p"] by (metis append_take_drop_id)
qed

lemma split_loop_ref: "t \<noteq> [] \<Longrightarrow> split_loop (xs @ s) t (length xs) = split_ref t s"
proof (induction t s arbitrary: xs rule: split_ref.induct)
  case (1 t s)
  show ?case
  proof (cases "find_sub s t")
    case None
    then show ?thesis using 1(2) by (subst split_loop.simps, subst split_ref.simps) (simp add: str_find_append)
  next
    case (Some p)
    obtain pre post where sp: "s = pre @ t @ post" "p = t @ post" using find_sub_split [OF 1(2) Some] .
    have "split_loop ((xs @ pre @ t) @ post) t (length (xs @ pre @ t)) = split_ref t post"
      using 1(1) [OF _ Some, of "xs @ pre @ t"] 1(2) sp by simp
    then show ?thesis using 1(2) Some sp
      by (subst split_loop.simps, subst split_ref.simps) (simp add: str_find_append add.assoc)
  qed
qed

lemma Split_ref: "ptr_char delim \<noteq> NUL \<Longrightarrow> Split str delim result = result @ split_ref delim str"
  using split_loop_ref [of delim "[]" str]
  by (cases "delim = []") (auto simp: Split_def ptr_char_def split_ref.simps [of delim "[]"])

lemma replace_loop_ref:
  "t \<noteq> [] \<Longrightarrow> StringReplace_loop t u (xs @ s) (length xs) = Some (xs @ replace_all t u s)"
proof (induction t u s arbitrary: xs rule: replace_all.induct)
  case (1 t u s)
  show ?case
  proof (cases "find_sub s t")
    case None
    then show ?thesis using 1(2) by (subst StringReplace_loop.simps, subst replace_all.simps) (simp add: str_find_append)
  next
    case (Some p)
    obtain pre post where sp: "s = pre @ t @ post" "p = t @ post" using find_sub_split [OF 1(2) Some] .
    have "StringReplace_loop t u ((xs @ pre @ u) @ post) (length (xs @ pre @ u)) = Some ((xs @ pre @ u) @ replace_all t u post)"
      using 1(1) [OF _ Some, of "xs @ pre @ u"] 1(2) sp by simp
    then show ?thesis using 1(2) Some sp
      by (subst StringReplace_loop.simps, subst replace_all.simps) (simp add: str_find_append add.assoc)
  qed
qed

lemma find_sub_Nil [simp]: "find_sub x [] = Some x"
  by (cases x) auto

lemma StringReplace_empty_diverges:
  assumes "StringReplace_loop t u s pos = Some r"
  shows "t = [] \<longrightarrow> length s < pos"
proof (rule StringReplace_loop.raw_induct [OF _ assms, of "\<lambda>t u s pos r. t = [] \<longrightarrow> length s < pos"], intro impI)
  fix loop t u s pos r
  assume IH: "\<And>t u s pos r. loop t u s pos = Some r \<Longrightarrow> t = [] \<longrightarrow> length s < pos"
    and b: "(case str_find s t pos of None \<Rightarrow> Some s
             | Some p \<Rightarrow> loop t u (take p s @ u @ drop (p + length t) s) (p + length u)) = Some r"
    and t: "t = []"
  show "length s < pos"
  proof (rule ccontr)
    assume n: "\<not> length s < pos"
    then have "str_find s t pos = Some pos" using t by (simp add: str_find_def)
    then have "loop t u (take pos s @ u @ drop (pos + length t) s) (pos + length u) = Some r" using b by simp
    from IH [OF this] t n show False by simp
  qed
qed

lemma split_ref_pieces:
  "t \<noteq> [] \<Longrightarrow> x \<in> set (split_ref t s) \<Longrightarrow> x \<noteq> [] \<and> find_sub x t = None"
proof (induction t s rule: split_ref.induct)
  case (1 t s)
  show ?case
  proof (cases "s = [] \<or> find_sub s t = None")
    case True
    then show ?thesis using 1(2,3) by (auto simp: split_ref.simps [of t s] split: if_splits)
  next
    case False
    then obtain p where p: "find_sub s t = Some p" "s \<noteq> []" by auto
    obtain pre post where sp: "s = pre @ t @ post" "p = t @ post" using find_sub_split [OF 1(2) p(1)] .
    have "find_sub pre t = None"
    proof (rule ccontr)
      assume "find_sub pre t \<noteq> None"
      then obtain q where q: "find_sub pre t = Some q" by auto
      then obtain a b where ab: "pre = a @ t @ b" using find_sub_split [OF 1(2)] by metis
      from find_sub_Some [OF 1(2) p(1)] obtain pre' where
        pre': "s = pre' @ p" "\<forall>k < length pre'. take (length t) (drop k s) \<noteq> t" by blast
      have "pre' = pre" using pre'(1) sp by simp
      then show False using pre'(2) ab sp 1(2) by (auto dest!: spec [of _ "length a"])
    qed
    moreover have "split_ref t s = (if pre \<noteq> [] then [pre] else []) @ split_ref t post"
      using 1(2) p sp by (subst split_ref.simps) auto
    ultimately show ?thesis using 1 p sp by (auto split: if_splits)
  qed
qed


text \<open>Pieces that do not contain the first character of the delimiter, written with the delimiter between them.\<close>

primrec join :: "string \<Rightarrow> string list \<Rightarrow> string" where
  "join d [] = []"
| "join d (p # ps) = p @ (if ps = [] then [] else d @ join d ps)"

lemma split_ref_join:
  "d \<noteq> [] \<Longrightarrow> list_all (\<lambda>p. p \<noteq> [] \<and> hd d \<notin> set p) ps \<Longrightarrow> split_ref d (join d ps) = ps"
proof (induction ps)
  case Nil
  then show ?case by (simp add: split_ref.simps)
next
  case (Cons p ps)
  show ?case
  proof (cases "ps = []")
    case True
    then show ?thesis using Cons.prems find_sub_char [of d p] by (simp add: split_ref.simps)
  next
    case False
    have "find_sub (p @ d @ join d ps) d = Some (d @ join d ps)" using Cons.prems find_sub_append by auto
    then show ?thesis using Cons False by (subst split_ref.simps) auto
  qed
qed

lemma replace_all_char: "replace_all [c] u s = concat (map (\<lambda>x. if x = c then u else [x]) s)"
proof (induction "[c]" u s rule: replace_all.induct)
  case (1 u s)
  show ?case
  proof (cases "find_sub s [c]")
    case None
    then have "c \<notin> set s" by (induction s) (auto split: if_splits)
    then have "concat (map (\<lambda>x. if x = c then u else [x]) s) = s" by (induction s) auto
    then show ?thesis using None by (simp add: replace_all.simps)
  next
    case (Some p)
    obtain pre post where sp: "s = pre @ [c] @ post" "p = [c] @ post" using find_sub_split [OF _ Some] by auto
    have "c \<notin> set pre"
      using Some sp by (induction pre arbitrary: s) (auto split: if_splits)
    then have "concat (map (\<lambda>x. if x = c then u else [x]) pre) = pre" by (induction pre) auto
    then show ?thesis using 1 Some sp by (subst replace_all.simps) simp
  qed
qed

subsection \<open>Prefixes, suffixes, trimming\<close>

lemma StartsWith_prefix: "StartsWith str pre \<longleftrightarrow> prefix pre str"
  by (auto simp: StartsWith_def prefix_def) (metis append_take_drop_id)

lemma EndsWith_suffix: "EndsWith str suf \<longleftrightarrow> suffix suf str"
  by (auto simp: EndsWith_def suffix_def) (metis append_take_drop_id)

lemma Trim_decompose:
  "\<exists>a b. s = a @ Trim s @ b \<and> list_all is_space a \<and> list_all is_space b"
proof -
  have 1: "s = takeWhile is_space s @ Ltrim s" by (simp add: Ltrim_def)
  have "Ltrim s = Rtrim (Ltrim s) @ rev (takeWhile is_space (rev (Ltrim s)))"
    unfolding Rtrim_def by (metis rev_append rev_rev_ident takeWhile_dropWhile_id)
  with 1 show ?thesis
    by (intro exI [of _ "takeWhile is_space s"] exI [of _ "rev (takeWhile is_space (rev (Ltrim s)))"])
      (auto simp: Trim_def list_all_iff dest: set_takeWhileD)
qed

lemma Rtrim_last: "Rtrim s \<noteq> [] \<Longrightarrow> \<not> is_space (last (Rtrim s))"
  unfolding Rtrim_def by (metis hd_dropWhile last_rev rev_is_Nil_conv)

lemma Trim_ends: "Trim s \<noteq> [] \<Longrightarrow> \<not> is_space (hd (Trim s)) \<and> \<not> is_space (last (Trim s))"
proof -
  assume n: "Trim s \<noteq> []"
  have "prefix (Trim s) (Ltrim s)"
    unfolding Trim_def Rtrim_def prefix_def by (metis rev_append rev_rev_ident takeWhile_dropWhile_id)
  with n have "hd (Trim s) = hd (Ltrim s)" "Ltrim s \<noteq> []" by (auto simp: prefix_def)
  then have "\<not> is_space (hd (Trim s))" unfolding Ltrim_def by (metis hd_dropWhile)
  then show ?thesis using n Rtrim_last by (auto simp: Trim_def)
qed

subsection \<open>Hexadecimal\<close>

definition hex_digit :: "char \<Rightarrow> bool" where
  "hex_digit c \<longleftrightarrow> ASCII2DEC (byte c) \<noteq> None"

lemma Hex2Bin_loop_accepts:
  "fst (Hex2Bin_loop s acc) \<longleftrightarrow> even (length s) \<and> list_all hex_digit s"
  by (induction s acc rule: Hex2Bin_loop.induct) (auto simp: hex_digit_def split: option.splits)

lemma ASCII2DEC_DEC2ASCII: "x < 16 \<Longrightarrow> ASCII2DEC (DEC2ASCII x) = Some x"
proof -
  assume "x < 16"
  then have "unat x < 16" by (simp add: word_less_nat_alt)
  then have "x \<in> of_nat ` {..<16}" by (intro image_eqI [of _ _ "unat x"]) simp_all
  moreover have "list_all (\<lambda>n. ASCII2DEC (DEC2ASCII (of_nat n)) = Some (of_nat n)) [0..<16]"
    by code_simp
  ultimately show ?thesis by (auto simp: list_all_iff)
qed

lemma nibbles:
  "drop_bit 4 (b :: u8) < 16" "b AND 0xF < 16" "push_bit 4 (drop_bit 4 b) + (b AND 0xF) = b"
proof -
  have "unat b < 256" using unsigned_less [of b] by simp
  then have "unat b div 16 < 16" by simp
  then show "drop_bit 4 b < 16"
    unfolding word_less_nat_alt unat_drop_bit_eq by (simp add: drop_bit_eq_div)
  have "b AND 0xF \<le> 0xF" by (rule word_and_le1)
  then show "b AND 0xF < 16" by (rule order.strict_trans1) simp
  have "b AND 0xF = take_bit 4 b" by (simp add: take_bit_eq_mask mask_eq_exp_minus_1)
  then show "push_bit 4 (drop_bit 4 b) + (b AND 0xF) = b" using bits_ident [of 4 b] by simp
qed

lemma Hex2Bin_Bin2Hex_loop: "Hex2Bin_loop (Bin2Hex_loop b) acc = (True, acc @ b)"
  by (induction b arbitrary: acc) (simp_all add: ASCII2DEC_DEC2ASCII nibbles)


interpretation hex: codec Bin2Hex_loop "\<lambda>s. case Hex2Bin_loop s [] of (r, b) \<Rightarrow> if r then Some b else None" "\<lambda>_. True"
  by unfold_locales (simp add: Hex2Bin_Bin2Hex_loop)

lemma Bin2Hex_loop_digits: "list_all hex_digit (Bin2Hex_loop b) \<and> length (Bin2Hex_loop b) = 2 * length b"
  by (induction b) (simp_all add: hex_digit_def ASCII2DEC_DEC2ASCII nibbles)

subsection \<open>URL encoding\<close>

text \<open>What the tables must satisfy for each of the 128 characters \<open>UrlEncode\<close> can look up.\<close>

definition url_entry :: "nat \<Rightarrow> bool" where
  "url_entry n \<longleftrightarrow>
     (case ENCODECHARS ! n of (k, s) \<Rightarrow>
        take k s = [char_of n] \<and> n \<noteq> 37 \<and> n \<noteq> 43 \<and> n \<noteq> 32
      \<or> take k s = ''+'' \<and> n = 32
      \<or> k = 3 \<and> length s = 3 \<and> hd s = CHR ''%'' \<and> HEX2DEC ! code (s ! 1) \<noteq> - 1 \<and> HEX2DEC ! code (s ! 2) \<noteq> - 1 \<and>
        nat (HEX2DEC ! code (s ! 1) * 16 + HEX2DEC ! code (s ! 2)) = n)"

lemma url_entries: "list_all url_entry [0..<128]"
  by code_simp

lemma url_entry_less: "n < 128 \<Longrightarrow> url_entry n"
  using url_entries by (simp add: list_all_iff)


text \<open>One character through the encoder, and its code in front of a text through the decoder.\<close>

definition url_code :: "char \<Rightarrow> string" where
  "url_code c = (case ENCODECHARS ! code c of (k, s) \<Rightarrow> take k s)"

lemma UrlEncode_Cons: "code c < 128 \<Longrightarrow> UrlEncode (c # cs) = map_option ((@) (url_code c)) (UrlEncode cs)"
proof -
  assume c: "code c < 128"
  then have "nat ((schar c * 4) mod 65536) = code c * 4" by (simp add: schar_def nat_mult_distrib)
  with c show ?thesis
    by (cases "UrlEncode cs") (auto simp: url_code_def Let_def split: prod.split)
qed

lemma UrlEncode_high: "128 \<le> code c \<Longrightarrow> UrlEncode (c # cs) = None"
proof -
  assume c: "128 \<le> code c"
  have "int (code c) < 256" using of_char_less_256 [of c] by linarith
  with c have v: "- 128 \<le> schar c" "schar c < 0" by (auto simp: schar_def Let_def)
  have "(schar c * 4) mod 65536 = (schar c * 4 + 65536) mod 65536" by simp
  also have "\<dots> = schar c * 4 + 65536" using v by (intro mod_pos_pos_trivial) auto
  finally have "nat ((schar c * 4) mod 65536) \<ge> 1024" using v by simp
  then show ?thesis by (simp add: Let_def)
qed

lemma UrlEncode_ascii: "list_all (\<lambda>c. code c < 128) s \<Longrightarrow> UrlEncode s = Some (concat (map url_code s))"
  by (induction s) (simp_all add: UrlEncode_Cons del: UrlEncode.simps(2))

lemma UrlEncode_None: "\<not> list_all (\<lambda>c. code c < 128) s \<Longrightarrow> UrlEncode s = None"
proof (induction s)
  case (Cons c s)
  then show ?case
    by (cases "code c < 128") (auto simp: UrlEncode_Cons UrlEncode_high simp del: UrlEncode.simps(2))
qed simp

lemma UrlDecode_plain: "c \<noteq> CHR ''%'' \<Longrightarrow> c \<noteq> CHR ''+'' \<Longrightarrow> UrlDecode (c # s) = c # UrlDecode s"
  by (cases s rule: UrlDecode.cases) auto

lemma length3_conv: "length s = 3 \<longleftrightarrow> (\<exists>x y z. s = [x, y, z])"
  by (auto simp: numeral_3_eq_3 length_Suc_conv)

lemma UrlDecode_code:
  assumes "code c < 128" "c = CHR '' '' \<Longrightarrow> 2 \<le> length s"
  shows "UrlDecode (url_code c @ s) = c # UrlDecode s"
proof -
  obtain k e where e: "ENCODECHARS ! code c = (k, e)" by force
  from url_entry_less [OF assms(1)] consider
      (plain) "take k e = [c]" "code c \<noteq> 37" "code c \<noteq> 43"
    | (blank) "take k e = ''+''" "code c = 32"
    | (hex) "k = 3" "length e = 3" "hd e = CHR ''%''" "HEX2DEC ! code (e ! 1) \<noteq> - 1" "HEX2DEC ! code (e ! 2) \<noteq> - 1"
        "nat (HEX2DEC ! code (e ! 1) * 16 + HEX2DEC ! code (e ! 2)) = code c"
    unfolding url_entry_def e by auto
  then show ?thesis
  proof cases
    case plain
    then have "c \<noteq> CHR ''%''" "c \<noteq> CHR ''+''" by auto
    then show ?thesis using plain by (simp add: url_code_def e UrlDecode_plain)
  next
    case blank
    then have "code c = code (CHR '' '')" by simp
    then have c: "c = CHR '' ''" by (simp only: of_char_eq_iff)
    then obtain x y r where "s = x # y # r" using assms(2) by (metis Suc_le_length_iff numeral_2_eq_2)
    moreover have "url_code c = ''+''" using blank(1) unfolding url_code_def e by simp
    ultimately show ?thesis using c by simp
  next
    case hex
    then obtain y z where e3: "e = [CHR ''%'', y, z]" by (auto simp: length3_conv)
    then show ?thesis using hex by (simp add: url_code_def e)
  qed
qed

lemma url_code_length: "code c < 128 \<Longrightarrow> 1 \<le> length (url_code c)"
proof -
  assume "code c < 128"
  then have "url_code c \<noteq> []" using url_entry_less [of "code c"]
    by (auto simp: url_entry_def url_code_def simp del: take_eq_Nil split: prod.splits)
  then show ?thesis by (cases "url_code c") auto
qed

lemma url_codes_length: "list_all (\<lambda>c. code c < 128) s \<Longrightarrow> length s \<le> length (concat (map url_code s))"
proof (induction s)
  case (Cons c s)
  then show ?case using url_code_length [of c] by simp
qed simp

lemma UrlDecode_codes:
  "list_all (\<lambda>c. code c < 128) s \<Longrightarrow> CHR '' '' \<notin> set (drop (length s - 2) s) \<Longrightarrow>
   UrlDecode (concat (map url_code s) @ t) = s @ UrlDecode t"
proof (induction s)
  case (Cons c s)
  have tail: "CHR '' '' \<notin> set (drop (length s - 2) s)"
    using Cons.prems(2) by (cases "length s - Suc 0")
      (auto dest: in_set_dropD simp: numeral_2_eq_2 diff_Suc split: nat.splits)
  have "2 \<le> length (concat (map url_code s))" if "c = CHR '' ''"
  proof -
    have "2 \<le> length s"
    proof (rule ccontr)
      assume "\<not> 2 \<le> length s"
      then have "drop (length (c # s) - 2) (c # s) = c # s" by simp
      with that Cons.prems(2) show False by simp
    qed
    then show ?thesis using url_codes_length [of s] Cons.prems(1) by simp
  qed
  then have "c = CHR '' '' \<Longrightarrow> 2 \<le> length (concat (map url_code s) @ t)" by simp
  with UrlDecode_code [of c "concat (map url_code s) @ t"] Cons tail show ?case by simp
qed simp


section \<open>Properties\<close>



text \<open>A blank at the end of a text does not survive: the \<open>+\<close> that \<open>UrlEncode\<close> writes for it is among the last two
  characters, which \<open>UrlDecode\<close> copies without decoding.
\<close>

theorem url_trailing_blank_lost:
  assumes "list_all (\<lambda>c. code c < 128) s" "CHR '' '' \<notin> set (drop (length s - 2) s)"
  shows "UrlEncode (s @ '' '') = Some (concat (map url_code s) @ ''+'') \<and>
         UrlDecode (concat (map url_code s) @ ''+'') = s @ ''+''"
proof -
  have "url_code (CHR '' '') = ''+''" by (simp add: url_code_def ENCODECHARS_def)
  moreover have "list_all (\<lambda>c. code c < 128) (s @ '' '')" using assms(1) by simp
  ultimately have "UrlEncode (s @ '' '') = Some (concat (map url_code s) @ ''+'')"
    using UrlEncode_ascii [of "s @ '' ''"] by simp
  moreover have "UrlDecode (concat (map url_code s) @ ''+'') = s @ ''+''"
    using UrlDecode_codes [OF assms, of "''+''"] by simp
  ultimately show ?thesis by simp
qed

theorem url_trailing_blank_lost_witness:
  "map_option UrlDecode (UrlEncode ''abc '') = Some ''abc+''"
  using url_trailing_blank_lost [of "''abc''"] by simp

text \<open>\<open>Bin2Hex\<close> and \<open>Hex2Bin\<close>. Any bytes are written as twice as many hexadecimal digits, and reading them back
  gives the bytes and the result \<open>true\<close>; \<open>Hex2Bin\<close> accepts exactly the texts of an even number of digits.
\<close>

theorem hex_roundtrip:
  "Bin2Hex (Some b) (Some h) = (True, Some (Bin2Hex_loop b)) \<and>
   length (Bin2Hex_loop b) = 2 * length b \<and>
   Hex2Bin (Some (Bin2Hex_loop b)) (Some d) = (True, Some b) \<and>
   fst (Hex2Bin (Some s) (Some d)) = (even (length s) \<and> list_all hex_digit s)"
  using Hex2Bin_loop_accepts [of s "[]"]
  by (simp add: Bin2Hex_def Hex2Bin_def Hex2Bin_Bin2Hex_loop Bin2Hex_loop_digits Let_def case_prod_beta)

text \<open>\<open>StringReplace\<close> ends for every non-empty pattern, with every occurrence replaced from the left and the
  replacement itself not searched; for a pattern of one character this is the substitution of that character. With an
  empty pattern the loop never ends.
\<close>

theorem replace_correct:
  "StringReplace subStr1 subStr2 str = (if subStr1 = [] then None else Some (replace_all subStr1 subStr2 str)) \<and>
   StringReplace [c] subStr2 str = Some (concat (map (\<lambda>x. if x = c then subStr2 else [x]) str))"
  using replace_loop_ref [of subStr1 subStr2 "[]" str] replace_loop_ref [of "[c]" subStr2 "[]" str]
    StringReplace_empty_diverges [of "[]" subStr2 str 0]
  by (cases "StringReplace_loop [] subStr2 str 0") (simp_all add: StringReplace_def replace_all_char)

text \<open>\<open>Split\<close> appends to the result the non-empty texts between occurrences of the delimiter, none of which contains
  the delimiter, and gives back the pieces of a text that was joined with the delimiter.
\<close>

theorem split_join:
  assumes "ptr_char delim \<noteq> NUL"
  shows "(\<exists>ps. Split str delim result = result @ ps \<and> list_all (\<lambda>p. p \<noteq> [] \<and> find_sub p delim = None) ps) \<and>
         (list_all (\<lambda>p. p \<noteq> [] \<and> hd delim \<notin> set p) pieces \<longrightarrow>
          Split (join delim pieces) delim result = result @ pieces)"
proof -
  have d: "delim \<noteq> []" using assms by (auto simp: ptr_char_def)
  show ?thesis
    using split_ref_pieces [OF d] split_ref_join [OF d, of pieces] Split_ref [OF assms] by (auto simp: list_all_iff)
qed

theorem split_join_witness:
  "Split ''a--bc--d'' ''--'' [] = [''a'', ''bc'', ''d'']"
proof -
  have "list_all (\<lambda>p. p \<noteq> [] \<and> hd ''--'' \<notin> set p) [''a'', ''bc'', ''d'']" by simp
  moreover have "ptr_char ''--'' \<noteq> NUL" by (simp add: ptr_char_def)
  ultimately have "Split (join ''--'' [''a'', ''bc'', ''d'']) ''--'' [] = [] @ [''a'', ''bc'', ''d'']"
    using split_join [of "''--''" "[]" "[]" "[''a'', ''bc'', ''d'']"] by blast
  then show ?thesis by simp
qed

text \<open>\<open>Trim\<close> removes blanks and nothing else from both ends, and \<open>StartsWith\<close>, \<open>EndsWith\<close>, \<open>StripPrefix\<close> and
  \<open>StripSuffix\<close> decide and remove prefixes and suffixes.
\<close>

theorem trim_and_affixes:
  "(\<exists>a b. s = a @ Trim s @ b \<and> list_all is_space a \<and> list_all is_space b) \<and>
   (Trim s = [] \<or> (is_space (hd (Trim s)) = False \<and> is_space (last (Trim s)) = False)) \<and>
   StartsWith s p = prefix p s \<and> EndsWith s p = suffix p s \<and>
   StripPrefix (p @ s) p = (True, s) \<and> StripSuffix (s @ p) p = (True, s) \<and>
   fst (StripPrefix s p) = StartsWith s p \<and> fst (StripSuffix s p) = EndsWith s p"
proof (intro conjI)
  show "\<exists>a b. s = a @ Trim s @ b \<and> list_all is_space a \<and> list_all is_space b" by (rule Trim_decompose)
  show "Trim s = [] \<or> (is_space (hd (Trim s)) = False \<and> is_space (last (Trim s)) = False)" using Trim_ends [of s] by blast
  show "StripSuffix (s @ p) p = (True, s)" by (simp add: StripSuffix_def str_resize_def)
qed (auto simp: StartsWith_prefix EndsWith_suffix StripPrefix_def StripSuffix_def StartsWith_def EndsWith_def
  simp flip: StartsWith_prefix EndsWith_suffix)

end
