(* ===== verification/RedisSlots.thy ===== *)
theory RedisSlots
  imports StringUtil
begin

text \<open>
  Key hashing of the asynchronous Redis client, \<^verbatim>\<open>src/redisAsyn/v1.0/src/RedisTools.cpp\<close>: the table-driven CRC, the
  slot of a key, and the splitting function the parsers of the client use.
\<close>

unbundle bit_operations_syntax

type_synonym u16 = "16 word"

section \<open>Definitions\<close>

definition crc16tab :: "u16 list" where
  "crc16tab = [
     0x0000, 0x1021, 0x2042, 0x3063, 0x4084, 0x50a5, 0x60c6, 0x70e7,
     0x8108, 0x9129, 0xa14a, 0xb16b, 0xc18c, 0xd1ad, 0xe1ce, 0xf1ef,
     0x1231, 0x0210, 0x3273, 0x2252, 0x52b5, 0x4294, 0x72f7, 0x62d6,
     0x9339, 0x8318, 0xb37b, 0xa35a, 0xd3bd, 0xc39c, 0xf3ff, 0xe3de,
     0x2462, 0x3443, 0x0420, 0x1401, 0x64e6, 0x74c7, 0x44a4, 0x5485,
     0xa56a, 0xb54b, 0x8528, 0x9509, 0xe5ee, 0xf5cf, 0xc5ac, 0xd58d,
     0x3653, 0x2672, 0x1611, 0x0630, 0x76d7, 0x66f6, 0x5695, 0x46b4,
     0xb75b, 0xa77a, 0x9719, 0x8738, 0xf7df, 0xe7fe, 0xd79d, 0xc7bc,
     0x48c4, 0x58e5, 0x6886, 0x78a7, 0x0840, 0x1861, 0x2802, 0x3823,
     0xc9cc, 0xd9ed, 0xe98e, 0xf9af, 0x8948, 0x9969, 0xa90a, 0xb92b,
     0x5af5, 0x4ad4, 0x7ab7, 0x6a96, 0x1a71, 0x0a50, 0x3a33, 0x2a12,
     0xdbfd, 0xcbdc, 0xfbbf, 0xeb9e, 0x9b79, 0x8b58, 0xbb3b, 0xab1a,
     0x6ca6, 0x7c87, 0x4ce4, 0x5cc5, 0x2c22, 0x3c03, 0x0c60, 0x1c41,
     0xedae, 0xfd8f, 0xcdec, 0xddcd, 0xad2a, 0xbd0b, 0x8d68, 0x9d49,
     0x7e97, 0x6eb6, 0x5ed5, 0x4ef4, 0x3e13, 0x2e32, 0x1e51, 0x0e70,
     0xff9f, 0xefbe, 0xdfdd, 0xcffc, 0xbf1b, 0xaf3a, 0x9f59, 0x8f78,
     0x9188, 0x81a9, 0xb1ca, 0xa1eb, 0xd10c, 0xc12d, 0xf14e, 0xe16f,
     0x1080, 0x00a1, 0x30c2, 0x20e3, 0x5004, 0x4025, 0x7046, 0x6067,
     0x83b9, 0x9398, 0xa3fb, 0xb3da, 0xc33d, 0xd31c, 0xe37f, 0xf35e,
     0x02b1, 0x1290, 0x22f3, 0x32d2, 0x4235, 0x5214, 0x6277, 0x7256,
     0xb5ea, 0xa5cb, 0x95a8, 0x8589, 0xf56e, 0xe54f, 0xd52c, 0xc50d,
     0x34e2, 0x24c3, 0x14a0, 0x0481, 0x7466, 0x6447, 0x5424, 0x4405,
     0xa7db, 0xb7fa, 0x8799, 0x97b8, 0xe75f, 0xf77e, 0xc71d, 0xd73c,
     0x26d3, 0x36f2, 0x0691, 0x16b0, 0x6657, 0x7676, 0x4615, 0x5634,
     0xd94c, 0xc96d, 0xf90e, 0xe92f, 0x99c8, 0x89e9, 0xb98a, 0xa9ab,
     0x5844, 0x4865, 0x7806, 0x6827, 0x18c0, 0x08e1, 0x3882, 0x28a3,
     0xcb7d, 0xdb5c, 0xeb3f, 0xfb1e, 0x8bf9, 0x9bd8, 0xabbb, 0xbb9a,
     0x4a75, 0x5a54, 0x6a37, 0x7a16, 0x0af1, 0x1ad0, 0x2ab3, 0x3a92,
     0xfd2e, 0xed0f, 0xdd6c, 0xcd4d, 0xbdaa, 0xad8b, 0x9de8, 0x8dc9,
     0x7c26, 0x6c07, 0x5c64, 0x4c45, 0x3ca2, 0x2c83, 0x1ce0, 0x0cc1,
     0xef1f, 0xff3e, 0xcf5d, 0xdf7c, 0xaf9b, 0xbfba, 0x8fd9, 0x9ff8,
     0x6e17, 0x7e36, 0x4e55, 0x5e74, 0x2e93, 0x3eb2, 0x0ed1, 0x1ef0]"

text \<open>
  One round of the loop. The operand \<open>*buf\<close> is a signed character, but the mask leaves only its byte.
\<close>

definition crc16_round :: "u16 \<Rightarrow> char \<Rightarrow> u16" where
  "crc16_round crc c = push_bit 8 crc XOR crc16tab ! unat ((drop_bit 8 crc XOR ucast (byte c)) AND 0x00FF)"

definition crc16 :: "string \<Rightarrow> u16" where
  "crc16 buf = foldl crc16_round 0 buf"

text \<open>The scanning loops: the first position from \<open>s\<close> on with the character, or the length.\<close>

function scan_char :: "string \<Rightarrow> char \<Rightarrow> nat \<Rightarrow> nat" where
  "scan_char key c s = (if s < length key then if key ! s = c then s else scan_char key c (s + 1) else s)"
  by pat_completeness auto
termination by (relation "measure (\<lambda>(key, c, s). length key - s)") auto

declare scan_char.simps [simp del]

definition keyHashSlot :: "string \<Rightarrow> u16" where
  "keyHashSlot key =
     (let len = length key; s = scan_char key CHR ''{'' 0
      in if s = len then crc16 key AND 0x3FFF
         else (let e = scan_char key CHR ''}'' (s + 1)
               in if e = len \<or> e = s + 1 then crc16 key AND 0x3FFF
                  else crc16 (take (e - s - 1) (drop (s + 1) key)) AND 0x3FFF))"

definition getKeySlotIndex :: "string \<Rightarrow> u16" where
  "getKeySlotIndex key = (if key = [] then 0 else keyHashSlot key)"

definition split :: "string \<Rightarrow> string \<Rightarrow> string list \<Rightarrow> string list" where
  "split str delim result =
     (if str = [] then result
      else if ptr_char delim = NUL then result @ [str]
      else result @ split_loop str delim 0)"

section \<open>The table against the polynomial\<close>

text \<open>
  Reference: the checksum one bit at a time, with the generator \<open>x^16 + x^12 + x^5 + 1\<close>.
\<close>

definition crc_bit :: "u16 \<Rightarrow> u16" where
  "crc_bit x = (if bit x 15 then push_bit 1 x XOR 0x1021 else push_bit 1 x)"

definition crc_bitwise :: "string \<Rightarrow> u16" where
  "crc_bitwise buf = foldl (\<lambda>crc c. (crc_bit ^^ 8) (crc XOR push_bit 8 (ucast (byte c)))) 0 buf"

lemma crc_bit_xor: "crc_bit (x XOR y) = crc_bit x XOR crc_bit y"
  unfolding crc_bit_def bit_xor_iff push_bit_xor by (simp add: ac_simps)

lemma crc_bits_xor: "(crc_bit ^^ n) (x XOR y) = (crc_bit ^^ n) x XOR (crc_bit ^^ n) y"
  by (induction n) (simp_all add: crc_bit_xor)

lemma crc_bits_low: "n \<le> 8 \<Longrightarrow> (crc_bit ^^ n) (take_bit 8 x) = push_bit n (take_bit 8 x)"
proof (induction n)
  case (Suc n)
  then have "\<not> bit (push_bit n (take_bit 8 x)) 15" by (auto simp: bit_push_bit_iff bit_take_bit_iff)
  then show ?case using Suc by (simp add: crc_bit_def)
qed simp



text \<open>
  Doubling the index shifts the entry by one more bit, and odd indices differ from the even ones by the generator; so the
  table is determined by its first half.
\<close>

lemma crc16tab_doubling:
  "crc16tab = concat (map (\<lambda>t. [crc_bit t, crc_bit t XOR 0x1021]) (take 128 crc16tab))"
  by (simp add: crc16tab_def crc_bit_def)


lemma nth_concat_pairs:
  "i < length ts \<Longrightarrow>
   concat (map (\<lambda>t. [f t, g t]) ts) ! (2 * i) = f (ts ! i) \<and> concat (map (\<lambda>t. [f t, g t]) ts) ! (2 * i + 1) = g (ts ! i)"
proof (induction ts arbitrary: i)
  case (Cons t ts)
  then show ?case by (cases i) auto
qed simp

lemma length_crc16tab: "length crc16tab = 256"
  by (simp add: crc16tab_def)

lemma crc16tab_double:
  "i < 128 \<Longrightarrow> crc16tab ! (2 * i) = crc_bit (crc16tab ! i) \<and> crc16tab ! (2 * i + 1) = crc_bit (crc16tab ! i) XOR 0x1021"
  using nth_concat_pairs [of i "take 128 crc16tab" crc_bit "\<lambda>t. crc_bit t XOR 0x1021"]
  by (simp add: length_crc16tab flip: crc16tab_doubling)

lemma crc_bits_shift: "(crc_bit ^^ n) (crc_bit x) = crc_bit ((crc_bit ^^ n) x)"
  by (simp add: funpow_swap1)

lemma funpow_numeral_8: "(f ^^ 8) x = f (f (f (f (f (f (f (f x)))))))"
  by (simp add: eval_nat_numeral)

lemma crc_one: "(crc_bit ^^ 8) (push_bit 8 1) = 0x1021"
  by (simp only: funpow_numeral_8) (simp add: crc_bit_def)

lemma push_bit_double:
  assumes "i < 128"
  shows "push_bit 8 (of_nat (2 * i)) = crc_bit (push_bit 8 (of_nat i))"
    and "push_bit 8 (of_nat (2 * i + 1)) = crc_bit (push_bit 8 (of_nat i)) XOR push_bit 8 (1 :: u16)"
proof -
  have b: "bit (of_nat i :: u16) n \<longleftrightarrow> bit i n \<and> n < 16" for n by (auto simp: bit_of_nat_iff)
  have i7: "\<not> bit i 7" using assms by (simp add: bit_iff_odd)
  have "\<not> bit (push_bit 8 (of_nat i :: u16)) 15" using i7 by (simp add: bit_push_bit_iff b)
  then have c: "crc_bit (push_bit 8 (of_nat i)) = push_bit 8 (of_nat (2 * i))"
    by (simp add: crc_bit_def push_bit_eq_mult)
  then show "push_bit 8 (of_nat (2 * i)) = crc_bit (push_bit 8 (of_nat i))" by simp
  have "of_nat (2 * i + 1) = (of_nat (2 * i) XOR 1 :: u16)"
    by (simp add: xor_one_eq)
  then show "push_bit 8 (of_nat (2 * i + 1)) = crc_bit (push_bit 8 (of_nat i)) XOR push_bit 8 (1 :: u16)"
    by (simp only: c push_bit_xor)
qed

lemma crc16tab_entry: "i < 256 \<Longrightarrow> crc16tab ! i = (crc_bit ^^ 8) (push_bit 8 (of_nat i))"
proof (induction i rule: less_induct)
  case (less i)
  show ?case
  proof (cases "i = 0")
    case True
    then show ?thesis by (simp only: funpow_numeral_8) (simp add: crc16tab_def crc_bit_def)
  next
    case False
    define j where "j = i div 2"
    have j: "j < i" "j < 128" using False less.prems by (auto simp: j_def)
    then have IH: "crc16tab ! j = (crc_bit ^^ 8) (push_bit 8 (of_nat j))" using less by simp
    consider "i = 2 * j" | "i = 2 * j + 1" by (fastforce simp: j_def)
    then show ?thesis
    proof cases
      case 1
      then show ?thesis
        using crc16tab_double [OF j(2)] IH by (simp only: push_bit_double(1) [OF j(2)] crc_bits_shift)
    next
      case 2
      then show ?thesis
        using crc16tab_double [OF j(2)] IH
        by (simp only: push_bit_double(2) [OF j(2)] crc_bits_xor crc_bits_shift crc_one)
    qed
  qed
qed

lemma crc16_round_bitwise: "crc16_round crc c = (crc_bit ^^ 8) (crc XOR push_bit 8 (ucast (byte c)))"
proof -
  define h where "h = (drop_bit 8 crc XOR ucast (byte c)) AND (0x00FF :: u16)"
  have h8: "h = take_bit 8 (drop_bit 8 crc XOR ucast (byte c))"
    by (simp add: h_def take_bit_eq_mask mask_eq_exp_minus_1)
  have "h \<le> 0x00FF" unfolding h_def by (rule word_and_le1)
  then have "unat h < 256" by (simp add: word_le_nat_alt)
  then have tab: "crc16tab ! unat h = (crc_bit ^^ 8) (push_bit 8 h)" by (simp add: crc16tab_entry)
  have "crc XOR push_bit 8 (ucast (byte c)) = push_bit 8 h XOR take_bit 8 crc"
    by (rule bit_word_eqI) (auto simp: h8 bit_simps)
  then have "(crc_bit ^^ 8) (crc XOR push_bit 8 (ucast (byte c))) = (crc_bit ^^ 8) (push_bit 8 h) XOR push_bit 8 (take_bit 8 crc)"
    by (simp only: crc_bits_xor crc_bits_low)
  also have "push_bit 8 (take_bit 8 crc) = push_bit 8 crc"
    by (rule bit_word_eqI) (auto simp: bit_simps)
  finally show ?thesis by (simp add: crc16_round_def tab flip: h_def, simp add: ac_simps)
qed

lemma crc16_bitwise: "crc16 buf = crc_bitwise buf"
proof -
  have "crc16_round = (\<lambda>crc c. (crc_bit ^^ 8) (crc XOR push_bit 8 (ucast (byte c))))"
    by (intro ext) (rule crc16_round_bitwise)
  then show ?thesis by (simp only: crc16_def crc_bitwise_def)
qed

section \<open>Slots\<close>

lemma scan_char_append:
  "c \<notin> set ys \<Longrightarrow> scan_char (xs @ ys @ c # zs) c (length xs) = length xs + length ys"
proof (induction ys arbitrary: xs)
  case Nil
  then show ?case by (simp add: scan_char.simps)
next
  case (Cons y ys)
  from Cons.IH [of "xs @ [y]"] Cons.prems show ?case
    by (subst scan_char.simps) (auto simp: nth_append)
qed

lemma scan_char_absent: "c \<notin> set ys \<Longrightarrow> scan_char (xs @ ys) c (length xs) = length xs + length ys"
proof (induction ys arbitrary: xs)
  case Nil
  then show ?case by (simp add: scan_char.simps)
next
  case (Cons y ys)
  from Cons.IH [of "xs @ [y]"] Cons.prems show ?case
    by (subst scan_char.simps) (auto simp: nth_append)
qed

lemma keyHashSlot_tag:
  assumes "CHR ''{'' \<notin> set pre" "tag \<noteq> []" "CHR ''}'' \<notin> set tag"
  shows "keyHashSlot (pre @ CHR ''{'' # tag @ CHR ''}'' # post) = crc16 tag AND 0x3FFF"
proof -
  have "scan_char (pre @ CHR ''{'' # tag @ CHR ''}'' # post) CHR ''{'' 0 = length pre"
    using scan_char_append [of _ pre "[]"] assms by simp
  moreover have "scan_char (pre @ CHR ''{'' # tag @ CHR ''}'' # post) CHR ''}'' (length pre + 1) = length pre + 1 + length tag"
    using scan_char_append [of "CHR ''}''" tag "pre @ [CHR ''{'']" post] assms by simp
  ultimately show ?thesis using assms(2) by (simp add: keyHashSlot_def Let_def)
qed

lemma keyHashSlot_bound: "keyHashSlot key \<le> 0x3FFF"
  unfolding keyHashSlot_def Let_def by (auto simp: word_and_le1)

section \<open>Properties\<close>

text \<open>C27: The table-driven checksum is the CRC with generator \<open>x^16 + x^12 + x^5 + 1\<close>, computed bit by bit, for every byte
  string; every key gets a slot of the cluster, so the check against \<open>REDIS_CLUSTER_MAX_SLOT\<close> in
  \<open>redisAsyncCommand\<close> never fails.\<close>

theorem crc16_is_polynomial:
  "crc16 buf = crc_bitwise buf \<and> unat (getKeySlotIndex key) \<le> 16383"
proof
  show "crc16 buf = crc_bitwise buf" by (rule crc16_bitwise)
  show "unat (getKeySlotIndex key) \<le> 16383"
    using keyHashSlot_bound [of key] by (auto simp: getKeySlotIndex_def word_le_nat_alt)
qed

text \<open>Keys with the same hash tag share a slot: whatever stands before the first opening brace and behind the first
  closing brace after it, the slot is that of the text between them, as long as it is not empty.\<close>

theorem hash_tag_slot:
  assumes "CHR ''{'' \<notin> set pre" and "tag \<noteq> []" and "CHR ''}'' \<notin> set tag" and "CHR ''{'' \<notin> set tag"
  shows "getKeySlotIndex (pre @ CHR ''{'' # tag @ CHR ''}'' # post) = getKeySlotIndex tag"
proof -
  have "scan_char tag CHR ''{'' 0 = length tag" using scan_char_absent [of "CHR ''{''" tag "[]"] assms(4) by simp
  then have "keyHashSlot tag = crc16 tag AND 0x3FFF" by (simp add: keyHashSlot_def)
  then show ?thesis using keyHashSlot_tag [OF assms(1-3)] assms(2) by (simp add: getKeySlotIndex_def)
qed

theorem hash_tag_slot_witness: "getKeySlotIndex ''a{user1}b'' = getKeySlotIndex ''user1''"
  using hash_tag_slot [of "''a''" "''user1''" "''b''"] by simp

end
