(* ===== verification/RedisCli.thy ===== *)
theory RedisCli
  imports RedisSlots "HOL-Library.Multiset"
begin

text \<open>
  The connections of the asynchronous Redis client, \<^verbatim>\<open>src/redisAsyn/v1.0/src\<close>: command orders and their result queue
  (\<^verbatim>\<open>OrderInfo.h\<close>), one connection with its table of commands under way (\<^verbatim>\<open>RedisClient.h\<close>,
  \<^verbatim>\<open>RedisClient.cpp\<close>), the I/O thread with its order queue and the timer queue (\<^verbatim>\<open>LibeventIo.h\<close>,
  \<^verbatim>\<open>LibeventIo.cpp\<close>), and the counter of commands under way (\<^verbatim>\<open>RedisAsync.cpp\<close>).

  Objects held by \<open>shared_ptr\<close> live in a store and are named by numbers; \<open>new\<close> throws when memory is exhausted, so the
  tests of its result for null are never true. What hiredis returns is consumed from lists in the state, and what is asked
  of hiredis and of the manager is a log. \<^const>\<open>None\<close> is an access through a null or released pointer.
\<close>

section \<open>Orders\<close>

abbreviation CMD_SUCCESS_CODE :: int where "CMD_SUCCESS_CODE \<equiv> 0"
abbreviation CMD_OUTTIME_CODE :: int where "CMD_OUTTIME_CODE \<equiv> - 8"
abbreviation CMD_REPLY_EMPTY_CODE :: int where "CMD_REPLY_EMPTY_CODE \<equiv> - 9"
abbreviation CMD_EMPTY_RESULT_CODE :: int where "CMD_EMPTY_RESULT_CODE \<equiv> - 10"
abbreviation CMD_REDIS_ERROR_CODE :: int where "CMD_REDIS_ERROR_CODE \<equiv> - 11"
abbreviation CMD_REDIS_UNKNOWN_CODE :: int where "CMD_REDIS_UNKNOWN_CODE \<equiv> - 12"
abbreviation CMD_SVR_CLOSER_CODE :: int where "CMD_SVR_CLOSER_CODE \<equiv> - 13"

record OrderNode =
  cmdRet :: int
  outSecond :: c_int
  cmdOutSecond :: u64
  cmdQuerySecond :: u64
  cmdPri :: "nat option"
  cmdMsg :: string
  resultCb :: "nat option"
  cmdResult :: "string list"

definition OrderNode_new :: "string \<Rightarrow> nat option \<Rightarrow> nat option \<Rightarrow> OrderNode" where
  "OrderNode_new msg cb pri =
     \<lparr>cmdRet = 0, outSecond = 0, cmdOutSecond = 0, cmdQuerySecond = 0, cmdPri = pri, cmdMsg = msg, resultCb = cb,
      cmdResult = []\<rparr>"

definition OrderNode_assign :: "OrderNode \<Rightarrow> OrderNode \<Rightarrow> OrderNode" where
  "OrderNode_assign this that =
     this\<lparr>cmdRet := cmdRet that, outSecond := outSecond that, cmdOutSecond := cmdOutSecond that,
       cmdQuerySecond := cmdQuerySecond that, cmdPri := cmdPri that, cmdMsg := cmdMsg that, resultCb := resultCb that,
       cmdResult := cmdResult that\<rparr>"

section \<open>Connections\<close>

abbreviation REDIS_CLIENT_STATE_INIT :: int where "REDIS_CLIENT_STATE_INIT \<equiv> 0"
abbreviation REDIS_CLIENT_STATE_CONN :: int where "REDIS_CLIENT_STATE_CONN \<equiv> 1"
abbreviation RESOURCES_FREE_ALREADY :: int where "RESOURCES_FREE_ALREADY \<equiv> 0"
abbreviation RESOURCES_NEED_FREE :: int where "RESOURCES_NEED_FREE \<equiv> 1"

abbreviation CONNECT_REDISVR_SUCCESS :: int where "CONNECT_REDISVR_SUCCESS \<equiv> 0"
abbreviation CONNECT_REDISVR_RESET :: int where "CONNECT_REDISVR_RESET \<equiv> 1"
abbreviation REDISVR_CONNECT_DISCONN :: int where "REDISVR_CONNECT_DISCONN \<equiv> 2"

record RedisSvrInfo =
  port :: c_int
  ipAddr :: string

text \<open>\<open>std::map<uint32_t, OrderNodePtr>\<close>, in the order of its iterators; \<open>insert\<close> keeps an entry that is there.\<close>

type_synonym SeqOrderNodeMap = "(u32 \<times> nat) list"

fun seq_insert :: "u32 \<Rightarrow> nat \<Rightarrow> SeqOrderNodeMap \<Rightarrow> SeqOrderNodeMap" where
  "seq_insert k v [] = [(k, v)]"
| "seq_insert k v ((a, b) # m) =
     (if k < a then (k, v) # (a, b) # m else if k = a then (a, b) # m else (a, b) # seq_insert k v m)"

definition seq_erase :: "u32 \<Rightarrow> SeqOrderNodeMap \<Rightarrow> SeqOrderNodeMap" where
  "seq_erase k m = filter (\<lambda>e. fst e \<noteq> k) m"

record RedisClient =
  state :: int
  connOutSecond :: c_int
  keepAliveSecond :: c_int
  releaseState :: int
  freeState :: int
  ioIndex :: nat
  mgrFd :: nat
  lastSecond :: u64
  timev :: bool
  client :: "nat option"
  svrInfo :: "RedisSvrInfo option"
  cmdSeq :: u32
  cmdSeqOrderMap :: SeqOrderNodeMap

definition RedisClient_new :: "nat \<Rightarrow> nat \<Rightarrow> RedisSvrInfo option \<Rightarrow> c_int \<Rightarrow> c_int \<Rightarrow> RedisClient" where
  "RedisClient_new io fd svr keepAlive connOut =
     \<lparr>state = REDIS_CLIENT_STATE_INIT, connOutSecond = connOut, keepAliveSecond = keepAlive, releaseState = 0,
      freeState = RESOURCES_FREE_ALREADY, ioIndex = io, mgrFd = fd, lastSecond = 0, timev = False, client = None,
      svrInfo = svr, cmdSeq = 0, cmdSeqOrderMap = []\<rparr>"

text \<open>What \<open>redisAsyncConnect\<close> gives: nothing, a context with its error set, a context.\<close>

datatype conn_result = ConnNull | ConnErr nat | ConnOk nat

datatype request =
    HiCommand nat "nat option" string            \<comment> \<open>\<open>redisAsyncCommand\<close>: context, sequence number as private data, text\<close>
  | HiDisconnect nat                             \<comment> \<open>\<open>redisAsyncDisconnect\<close>\<close>
  | OnConnect nat int string c_int               \<comment> \<open>\<open>redisSvrOnConnect\<close>: manager, code, address, port\<close>
  | LoopBreak

text \<open>
  The shared state: the stores, the result queue, the counter \<open>asyncCmdNum\<close>, the calls of the user's callbacks so far, the
  log, the live contexts, and the results hiredis will give.
\<close>

record redis_sys =
  clients :: "nat \<Rightarrow> RedisClient"
  orders :: "nat \<Rightarrow> OrderNode"
  cmdResults :: "nat list"
  asyncCmdNum :: c_int
  answered :: "(nat \<times> int \<times> string list) list"
  requests :: "request list"
  live :: "nat \<Rightarrow> bool"
  cmdRets :: "int list"
  connRets :: "conn_result list"

definition upd_client :: "nat \<Rightarrow> (RedisClient \<Rightarrow> RedisClient) \<Rightarrow> redis_sys \<Rightarrow> redis_sys" where
  "upd_client i f s = s\<lparr>clients := (clients s)(i := f (clients s i))\<rparr>"

definition upd_order :: "nat \<Rightarrow> (OrderNode \<Rightarrow> OrderNode) \<Rightarrow> redis_sys \<Rightarrow> redis_sys" where
  "upd_order p f s = s\<lparr>orders := (orders s)(p := f (orders s p))\<rparr>"

definition ask :: "request \<Rightarrow> redis_sys \<Rightarrow> redis_sys" where
  "ask r s = s\<lparr>requests := requests s @ [r]\<rparr>"

subsection \<open>The result queue\<close>

definition insertCmdResult :: "nat \<Rightarrow> redis_sys \<Rightarrow> redis_sys" where
  "insertCmdResult p s = s\<lparr>cmdResults := cmdResults s @ [p]\<rparr>"

definition takeCmdResult :: "redis_sys \<Rightarrow> nat option \<times> redis_sys" where
  "takeCmdResult s = (case cmdResults s of [] \<Rightarrow> (None, s) | p # ps \<Rightarrow> (Some p, s\<lparr>cmdResults := ps\<rparr>))"

text \<open>\<open>cmdReplyCallPool\<close>: the user's callback gets the code and the texts of the order.\<close>

definition cmdReplyCallPool :: "redis_sys \<Rightarrow> redis_sys" where
  "cmdReplyCallPool s =
     (case takeCmdResult s of
        (None, s) \<Rightarrow> s
      | (Some p, s) \<Rightarrow>
          if resultCb (orders s p) \<noteq> None
          then s\<lparr>asyncCmdNum := asyncCmdNum s - 1, answered := answered s @ [(p, cmdRet (orders s p), cmdResult (orders s p))]\<rparr>
          else s)"

definition asyncRequestCmdAdd :: "redis_sys \<Rightarrow> redis_sys" where
  "asyncRequestCmdAdd s = s\<lparr>asyncCmdNum := asyncCmdNum s + 1\<rparr>"

subsection \<open>Commands and replies\<close>

text \<open>hiredis is called with the context of the connection, which must be there and not released.\<close>

definition hi_command :: "nat \<Rightarrow> nat option \<Rightarrow> string \<Rightarrow> redis_sys \<Rightarrow> (int \<times> redis_sys) option" where
  "hi_command i priv msg s =
     (case client (clients s i) of
        None \<Rightarrow> None
      | Some ctx \<Rightarrow>
          if \<not> live s ctx then None
          else let s = ask (HiCommand ctx priv msg) s
               in (case cmdRets s of [] \<Rightarrow> Some (0, s) | r # rs \<Rightarrow> Some (r, s\<lparr>cmdRets := rs\<rparr>)))"

definition requestCmd :: "nat \<Rightarrow> nat \<Rightarrow> u64 \<Rightarrow> redis_sys \<Rightarrow> redis_sys option" where
  "requestCmd i p nowSecond s =
     (let seq = cmdSeq (clients s i);
          s = upd_client i (\<lambda>c. c\<lparr>cmdSeq := cmdSeq c + 1\<rparr>) s
      in case hi_command i (Some (unat seq)) (cmdMsg (orders s p)) s of
           None \<Rightarrow> None
         | Some (ret, s) \<Rightarrow>
             if ret \<noteq> 0 then
               Some (insertCmdResult p
                 (upd_order p (\<lambda>d. d\<lparr>cmdResult := cmdResult d @ [''redisAsyncCommand ret '' @ show_int ret], cmdRet := ret\<rparr>) s))
             else
               Some (upd_client i (\<lambda>c. c\<lparr>lastSecond := nowSecond, cmdSeqOrderMap := seq_insert seq p (cmdSeqOrderMap c)\<rparr>)
                 (upd_order p (\<lambda>d. d\<lparr>cmdQuerySecond := nowSecond\<rparr>) s)))"

text \<open>One order of the loop of \<open>clearCmdReqBuf\<close>, and the loop over the table. The table is left as it is.\<close>

definition fail_order :: "int \<Rightarrow> nat \<Rightarrow> redis_sys \<Rightarrow> redis_sys" where
  "fail_order ret p s =
     (if resultCb (orders s p) \<noteq> None then insertCmdResult p (upd_order p (\<lambda>d. d\<lparr>cmdRet := ret\<rparr>) s) else s)"

definition clearCmdReqBuf :: "nat \<Rightarrow> redis_sys \<Rightarrow> redis_sys" where
  "clearCmdReqBuf i s = fold (\<lambda>e. fail_order CMD_SVR_CLOSER_CODE (snd e)) (cmdSeqOrderMap (clients s i)) s"

definition timed_out :: "u64 \<Rightarrow> OrderNode \<Rightarrow> bool" where
  "timed_out now d \<longleftrightarrow> outSecond d \<noteq> 0 \<and> now > cmdOutSecond d"

text \<open>The loop of \<open>checkOutSecondCmd\<close>: the entries that stay, and the state.\<close>

fun expire_loop :: "u64 \<Rightarrow> SeqOrderNodeMap \<Rightarrow> redis_sys \<Rightarrow> SeqOrderNodeMap \<times> redis_sys" where
  "expire_loop now [] s = ([], s)"
| "expire_loop now ((k, p) # m) s =
     (if timed_out now (orders s p) then expire_loop now m (fail_order CMD_OUTTIME_CODE p s)
      else let (m', s) = expire_loop now m s in ((k, p) # m', s))"

definition checkOutSecondCmd :: "u64 \<Rightarrow> nat \<Rightarrow> u64 \<Rightarrow> redis_sys \<Rightarrow> redis_sys option" where
  "checkOutSecondCmd clock i nowSecond s =
     (let now = (if nowSecond = 0 then clock else nowSecond);
          c = clients s i
      in case (if state c = REDIS_CLIENT_STATE_CONN \<and> sint (ucast (now - lastSecond c) :: c_int) > sint (keepAliveSecond c)
               then map_option (\<lambda>(_, s). upd_client i (\<lambda>c. c\<lparr>lastSecond := now\<rparr>) s) (hi_command i None ''PING'' s)
               else Some s) of
           None \<Rightarrow> None
         | Some s \<Rightarrow>
             let (m, s) = expire_loop now (cmdSeqOrderMap (clients s i)) s
             in Some (upd_client i (\<lambda>c. c\<lparr>cmdSeqOrderMap := m\<rparr>) s))"

text \<open>A reply of hiredis: its type, integer and text, and the texts of its elements (empty where the pointer is null).\<close>

record reply =
  r_type :: int
  r_integer :: int
  r_str :: string
  r_element :: "string list"

abbreviation REDIS_REPLY_STRING :: int where "REDIS_REPLY_STRING \<equiv> 1"
abbreviation REDIS_REPLY_ARRAY :: int where "REDIS_REPLY_ARRAY \<equiv> 2"
abbreviation REDIS_REPLY_INTEGER :: int where "REDIS_REPLY_INTEGER \<equiv> 3"
abbreviation REDIS_REPLY_NIL :: int where "REDIS_REPLY_NIL \<equiv> 4"
abbreviation REDIS_REPLY_STATUS :: int where "REDIS_REPLY_STATUS \<equiv> 5"
abbreviation REDIS_REPLY_ERROR :: int where "REDIS_REPLY_ERROR \<equiv> 6"

definition reply_result :: "reply option \<Rightarrow> int \<times> string list" where
  "reply_result reply =
     (case reply of
        None \<Rightarrow> (CMD_REPLY_EMPTY_CODE, [])
      | Some r \<Rightarrow>
          if r_type r = REDIS_REPLY_STRING then (CMD_SUCCESS_CODE, [r_str r])
          else if r_type r = REDIS_REPLY_ARRAY then (CMD_SUCCESS_CODE, r_element r)
          else if r_type r = REDIS_REPLY_INTEGER then (CMD_SUCCESS_CODE, [show_int (r_integer r)])
          else if r_type r = REDIS_REPLY_NIL then (CMD_EMPTY_RESULT_CODE, [])
          else if r_type r = REDIS_REPLY_STATUS then (CMD_SUCCESS_CODE, [show_int (r_integer r)])
          else if r_type r = REDIS_REPLY_ERROR then (CMD_REDIS_ERROR_CODE, [r_str r])
          else (CMD_REDIS_UNKNOWN_CODE, r_element r))"

definition requestCallBack :: "nat \<Rightarrow> nat \<Rightarrow> reply option \<Rightarrow> redis_sys \<Rightarrow> redis_sys" where
  "requestCallBack i priv reply s =
     (let seq = of_nat priv
      in case map_of (cmdSeqOrderMap (clients s i)) seq of
           None \<Rightarrow> s
         | Some p \<Rightarrow>
             upd_client i (\<lambda>c. c\<lparr>cmdSeqOrderMap := seq_erase seq (cmdSeqOrderMap c)\<rparr>)
               (if resultCb (orders s p) \<noteq> None then
                  (let (ret, texts) = reply_result reply
                   in insertCmdResult p (upd_order p (\<lambda>d. d\<lparr>cmdRet := ret, cmdResult := cmdResult d @ texts\<rparr>) s))
                else s))"

definition cmdCallback :: "nat \<Rightarrow> reply option \<Rightarrow> nat \<Rightarrow> redis_sys \<Rightarrow> redis_sys" where
  "cmdCallback i reply priv s = (if reply = None then s else requestCallBack i priv reply s)"


subsection \<open>Connecting and disconnecting\<close>

definition freeTimeEvent :: "RedisClient \<Rightarrow> RedisClient" where
  "freeTimeEvent c = c\<lparr>timev := False\<rparr>"

definition setStateConnected :: "u64 \<Rightarrow> nat \<Rightarrow> redis_sys \<Rightarrow> redis_sys" where
  "setStateConnected clock i s =
     upd_client i (\<lambda>c. (freeTimeEvent c)\<lparr>state := REDIS_CLIENT_STATE_CONN, lastSecond := clock\<rparr>) s"

text \<open>\<open>redisSvrOnConnect\<close> with the address of the connection.\<close>

definition on_connect :: "nat \<Rightarrow> int \<Rightarrow> redis_sys \<Rightarrow> redis_sys option" where
  "on_connect i ret s =
     (case svrInfo (clients s i) of
        None \<Rightarrow> None
      | Some a \<Rightarrow> Some (ask (OnConnect (mgrFd (clients s i)) ret (ipAddr a) (port a)) s))"

text \<open>
  \<open>disConnect\<close>. With \<open>sync\<close>, hiredis has no reply outstanding and runs the disconnect callback inside
  \<open>redisAsyncDisconnect\<close>; there \<open>disConnect\<close> returns at once, because \<open>freeState_\<close> was set before, and the context is
  released.
\<close>

definition disConnect :: "bool \<Rightarrow> nat \<Rightarrow> bool \<Rightarrow> redis_sys \<Rightarrow> redis_sys option" where
  "disConnect sync i isFree s =
     (if freeState (clients s i) = RESOURCES_FREE_ALREADY then Some s
      else
        (let s = upd_client i (\<lambda>c. freeTimeEvent (c\<lparr>freeState := RESOURCES_FREE_ALREADY\<rparr>)) s
         in case (case client (clients s i) of
                    Some ctx \<Rightarrow>
                      if isFree then
                        if \<not> live s ctx then None
                        else
                          (let s = ask (HiDisconnect ctx) s
                           in case (if sync
                                    then map_option (\<lambda>s. s\<lparr>live := (live s)(ctx := False)\<rparr>)
                                           (on_connect i (if state (clients s i) = REDIS_CLIENT_STATE_INIT
                                                          then CONNECT_REDISVR_RESET else REDISVR_CONNECT_DISCONN) s)
                                    else Some s) of
                                None \<Rightarrow> None
                              | Some s \<Rightarrow> Some (upd_client i (\<lambda>c. c\<lparr>client := None\<rparr>) s))
                      else Some s
                  | None \<Rightarrow> Some s) of
              None \<Rightarrow> None
            | Some s \<Rightarrow> Some (upd_client i (\<lambda>c. c\<lparr>state := REDIS_CLIENT_STATE_INIT\<rparr>) (clearCmdReqBuf i s))))"

text \<open>
  The three callbacks hiredis and libevent run: after a failed connect and after a disconnect, hiredis releases the
  context when the callback has returned.
\<close>

definition connectTimeout :: "bool \<Rightarrow> nat \<Rightarrow> redis_sys \<Rightarrow> redis_sys option" where
  "connectTimeout sync i s =
     (if state (clients s i) = REDIS_CLIENT_STATE_INIT then
        do { s \<leftarrow> disConnect sync i True s; on_connect i CONNECT_REDISVR_RESET s }
      else Some s)"

definition connectCallback :: "u64 \<Rightarrow> nat \<Rightarrow> nat \<Rightarrow> bool \<Rightarrow> redis_sys \<Rightarrow> redis_sys option" where
  "connectCallback clock ctx i ok s =
     (if \<not> ok then
        (let was_init = (state (clients s i) = REDIS_CLIENT_STATE_INIT)
         in do {
           s \<leftarrow> disConnect False i False s;
           s \<leftarrow> on_connect i (if was_init then CONNECT_REDISVR_RESET else REDISVR_CONNECT_DISCONN) s;
           Some (s\<lparr>live := (live s)(ctx := False)\<rparr>)
         })
      else on_connect i CONNECT_REDISVR_SUCCESS (setStateConnected clock i s))"

definition disconnectCallback :: "nat \<Rightarrow> nat \<Rightarrow> redis_sys \<Rightarrow> redis_sys option" where
  "disconnectCallback ctx i s =
     (let was_init = (state (clients s i) = REDIS_CLIENT_STATE_INIT)
      in do {
        s \<leftarrow> disConnect False i False s;
        s \<leftarrow> on_connect i (if was_init then CONNECT_REDISVR_RESET else REDISVR_CONNECT_DISCONN) s;
        Some (s\<lparr>live := (live s)(ctx := False)\<rparr>)
      })"

text \<open>The destructor.\<close>

definition RedisClient_destroy :: "nat \<Rightarrow> redis_sys \<Rightarrow> redis_sys option" where
  "RedisClient_destroy i s =
     (let s = (if freeState (clients s i) = RESOURCES_NEED_FREE then clearCmdReqBuf i s else s);
          s = upd_client i (\<lambda>c. freeTimeEvent (c\<lparr>freeState := RESOURCES_FREE_ALREADY\<rparr>)) s
      in case (case client (clients s i) of
                 None \<Rightarrow> Some s
               | Some ctx \<Rightarrow> if live s ctx then Some (ask (HiDisconnect ctx) s) else None) of
           None \<Rightarrow> None
         | Some s \<Rightarrow>
             Some (upd_client i (\<lambda>c. c\<lparr>client := None, svrInfo := None, cmdSeqOrderMap := [], state := REDIS_CLIENT_STATE_INIT\<rparr>) s))"

definition connectServer :: "bool \<Rightarrow> bool \<Rightarrow> nat \<Rightarrow> redis_sys \<Rightarrow> int \<times> redis_sys" where
  "connectServer base_ok timer_ok i s =
     (if \<not> base_ok then (- 1, s)
      else case svrInfo (clients s i) of
        None \<Rightarrow> (- 1, s)
      | Some a \<Rightarrow>
          if ipAddr a = [] \<or> port a = 0 then (- 1, s)
          else
            (let (r, s) = (case connRets s of [] \<Rightarrow> (ConnNull, s) | r # rs \<Rightarrow> (r, s\<lparr>connRets := rs\<rparr>))
             in case r of
                  ConnNull \<Rightarrow> (- 1, upd_client i (\<lambda>c. c\<lparr>client := None\<rparr>) s)
                | ConnErr ctx \<Rightarrow> (- 1, upd_client i (\<lambda>c. c\<lparr>client := Some ctx\<rparr>) (s\<lparr>live := (live s)(ctx := True)\<rparr>))
                | ConnOk ctx \<Rightarrow>
                    (let s = upd_client i (\<lambda>c. c\<lparr>client := Some ctx\<rparr>) (s\<lparr>live := (live s)(ctx := True)\<rparr>)
                     in if \<not> timer_ok then (- 1, s)
                        else (0, upd_client i (\<lambda>c. c\<lparr>timev := True, freeState := RESOURCES_NEED_FREE\<rparr>) s))))"

section \<open>The I/O thread\<close>

record RedisCliOrderNode =
  node_outSecond :: u64
  cli :: "nat option"
  cmdOrd :: "nat option"

record LibeventIo =
  io_nowSecond :: u64
  io_lastSecond :: u64
  orderDeque :: "RedisCliOrderNode list"
  ioRedisClients :: "nat option list"
  wakeups :: nat       \<comment> \<open>the counter behind the event descriptor\<close>

definition orderNodeInsert :: "RedisCliOrderNode \<Rightarrow> LibeventIo \<Rightarrow> LibeventIo" where
  "orderNodeInsert n io = io\<lparr>orderDeque := orderDeque io @ [n]\<rparr>"

definition dealOrderNode :: "LibeventIo \<Rightarrow> RedisCliOrderNode option \<times> LibeventIo" where
  "dealOrderNode io = (case orderDeque io of [] \<Rightarrow> (None, io) | n # ns \<Rightarrow> (Some n, io\<lparr>orderDeque := ns\<rparr>))"

definition libeventIoWakeup :: "u64 \<Rightarrow> LibeventIo \<Rightarrow> LibeventIo" where
  "libeventIoWakeup nowsecond io = io\<lparr>io_nowSecond := nowsecond, wakeups := wakeups io + 2\<rparr>"

definition libeventIoExit :: "LibeventIo \<Rightarrow> LibeventIo" where
  "libeventIoExit io = io\<lparr>wakeups := wakeups io + 1\<rparr>"

definition libeventIoOrder :: "RedisCliOrderNode option \<Rightarrow> u64 \<Rightarrow> LibeventIo \<times> redis_sys \<Rightarrow> LibeventIo \<times> redis_sys" where
  "libeventIoOrder node nowsecond w =
     (case node of
        None \<Rightarrow> w
      | Some n \<Rightarrow>
          (let (io, s) = w
           in (libeventIoWakeup nowsecond (orderNodeInsert n io),
               case cmdOrd n of Some p \<Rightarrow> if resultCb (orders s p) \<noteq> None then asyncRequestCmdAdd s else s | None \<Rightarrow> s)))"

definition ioDisRedisClient :: "nat \<Rightarrow> nat option list \<Rightarrow> nat option list" where
  "ioDisRedisClient i cs = map (\<lambda>c. if c = Some i then None else c) cs"

text \<open>Every free place is filled, not the first only, and the connection is appended as well.\<close>

definition ioAddRedisClient :: "nat \<Rightarrow> nat option list \<Rightarrow> nat option list" where
  "ioAddRedisClient i cs =
     (if Some i \<in> set cs then cs else map (\<lambda>c. if c = None then Some i else c) cs @ [Some i])"

text \<open>One order of the loop of \<open>handleRead\<close>.\<close>

definition handle_order ::
  "bool \<Rightarrow> bool \<Rightarrow> bool \<Rightarrow> RedisCliOrderNode \<Rightarrow> LibeventIo \<times> redis_sys \<Rightarrow> (LibeventIo \<times> redis_sys) option" where
  "handle_order sync base_ok timer_ok n w =
     (let (io, s) = w
      in if node_outSecond n \<noteq> 0 \<and> io_nowSecond io > node_outSecond n then
           (case cmdOrd n of
              None \<Rightarrow> None
            | Some p \<Rightarrow> Some (io, insertCmdResult p (upd_order p (\<lambda>d. d\<lparr>cmdRet := CMD_OUTTIME_CODE\<rparr>) s)))
         else (case cli n of
                 None \<Rightarrow> Some (io, s)
               | Some i \<Rightarrow>
                   (case cmdOrd n of
                      None \<Rightarrow>
                        if state (clients s i) = REDIS_CLIENT_STATE_INIT then
                          (let io = io\<lparr>ioRedisClients := ioAddRedisClient i (ioRedisClients io)\<rparr>;
                               (ret, s) = connectServer base_ok timer_ok i s
                           in if ret \<noteq> 0 then map_option (Pair io) (on_connect i CONNECT_REDISVR_RESET s) else Some (io, s))
                        else map_option (Pair io) (disConnect sync i True s)
                    | Some p \<Rightarrow>
                        if state (clients s i) = REDIS_CLIENT_STATE_INIT
                        then Some (io, insertCmdResult p (upd_order p (\<lambda>d. d\<lparr>cmdRet := CMD_SVR_CLOSER_CODE\<rparr>) s))
                        else map_option (Pair io) (requestCmd i p (io_nowSecond io) s))))"

fun handle_orders ::
  "bool \<Rightarrow> bool \<Rightarrow> bool \<Rightarrow> RedisCliOrderNode list \<Rightarrow> LibeventIo \<times> redis_sys \<Rightarrow> (LibeventIo \<times> redis_sys) option" where
  "handle_orders sync base_ok timer_ok [] w = Some w"
| "handle_orders sync base_ok timer_ok (n # ns) w =
     (case handle_order sync base_ok timer_ok n w of
        None \<Rightarrow> None | Some w \<Rightarrow> handle_orders sync base_ok timer_ok ns w)"

text \<open>The loop over the connections of the thread, once a second, by index up to the size of the vector.\<close>

fun tick_clients :: "bool \<Rightarrow> u64 \<Rightarrow> nat list \<Rightarrow> LibeventIo \<times> redis_sys \<Rightarrow> (LibeventIo \<times> redis_sys) option" where
  "tick_clients sync clock [] w = Some w"
| "tick_clients sync clock (k # ks) w =
     (let (io, s) = w
      in case ioRedisClients io ! k of
           None \<Rightarrow> tick_clients sync clock ks w
         | Some i \<Rightarrow>
             (case (if releaseState (clients s i) \<noteq> 0
                    then map_option (Pair (io\<lparr>ioRedisClients := ioDisRedisClient i (ioRedisClients io)\<rparr>)) (disConnect sync i True s)
                    else map_option (Pair io) (checkOutSecondCmd clock i (io_nowSecond io) s)) of
                None \<Rightarrow> None | Some w \<Rightarrow> tick_clients sync clock ks w))"

definition handleRead :: "bool \<Rightarrow> bool \<Rightarrow> bool \<Rightarrow> u64 \<Rightarrow> LibeventIo \<times> redis_sys \<Rightarrow> (LibeventIo \<times> redis_sys) option" where
  "handleRead sync base_ok timer_ok clock w =
     (let (io, s) = w; one = wakeups io
      in if one = 0 then Some w
         else case handle_orders sync base_ok timer_ok (orderDeque io) (io\<lparr>wakeups := 0, orderDeque := []\<rparr>, s) of
                None \<Rightarrow> None
              | Some (io, s) \<Rightarrow>
                  if one mod 2 = 1 then Some (io, ask LoopBreak s)
                  else if io_lastSecond io = 0 then Some (io\<lparr>io_lastSecond := io_nowSecond io\<rparr>, s)
                  else if io_nowSecond io \<noteq> io_lastSecond io then
                    map_option (\<lambda>(io, s). (io\<lparr>io_lastSecond := io_nowSecond io\<rparr>, s))
                      (tick_clients sync clock [0..<length (ioRedisClients io)] (io, s))
                  else Some (io, s))"

section \<open>The timer queue\<close>

fun insertTimerOrder_loop :: "RedisCliOrderNode \<Rightarrow> RedisCliOrderNode list \<Rightarrow> RedisCliOrderNode list" where
  "insertTimerOrder_loop n [] = [n]"
| "insertTimerOrder_loop n (x # xs) =
     (if node_outSecond n \<le> node_outSecond x then n # x # xs else x # insertTimerOrder_loop n xs)"

definition insertTimerOrder :: "RedisCliOrderNode \<Rightarrow> RedisCliOrderNode list \<Rightarrow> RedisCliOrderNode list" where
  "insertTimerOrder n xs = (if xs = [] then [n] else if node_outSecond n = 0 then n # xs else insertTimerOrder_loop n xs)"

definition dealTimerOrder :: "u64 \<Rightarrow> RedisCliOrderNode list \<Rightarrow> RedisCliOrderNode option \<times> RedisCliOrderNode list" where
  "dealTimerOrder nowSecond xs =
     (case xs of
        [] \<Rightarrow> (None, [])
      | x # xs' \<Rightarrow> if node_outSecond x = 0 \<or> nowSecond \<ge> node_outSecond x then (Some x, xs') else (None, xs))"

lemma dealTimerOrder_shorter: "dealTimerOrder now xs = (Some x, xs') \<Longrightarrow> length xs' < length xs"
  by (auto simp: dealTimerOrder_def split: list.splits if_splits)

text \<open>
  The loop of the timer thread in one second: the orders it hands to the I/O threads, with the deadlines it gives them,
  the queue and the orders afterwards. The address of the thread is read through \<open>node->cli_\<close>.
\<close>

function timer_orders :: "u64 \<Rightarrow> RedisCliOrderNode list \<Rightarrow> (nat \<Rightarrow> OrderNode) \<Rightarrow>
  (RedisCliOrderNode list \<times> RedisCliOrderNode list \<times> (nat \<Rightarrow> OrderNode)) option" where
  "timer_orders now xs ords =
     (case dealTimerOrder now xs of
        (None, xs) \<Rightarrow> Some ([], xs, ords)
      | (Some x, xs') \<Rightarrow>
          (case cli x of
             None \<Rightarrow> None
           | Some _ \<Rightarrow>
               (let (x', ords') =
                  (case cmdOrd x of
                     Some p \<Rightarrow> (x\<lparr>node_outSecond := now + 3\<rparr>, ords(p := (ords p)\<lparr>outSecond := 3, cmdOutSecond := now + 3\<rparr>))
                   | None \<Rightarrow> (x\<lparr>node_outSecond := 0\<rparr>, ords))
                in map_option (\<lambda>(out, rest). (x' # out, rest)) (timer_orders now xs' ords'))))"
  by pat_completeness auto
termination
  by (relation "measure (\<lambda>(now, xs, ords). length xs)") (auto dest: dealTimerOrder_shorter [OF sym])

declare timer_orders.simps [simp del]

section \<open>Queues\<close>

interpretation resq: fifo insertCmdResult "\<lambda>s. case takeCmdResult s of (None, _) \<Rightarrow> None | (Some p, s') \<Rightarrow> Some (p, s')"
    cmdResults "\<lambda>_. True"
  by unfold_locales (auto simp: insertCmdResult_def takeCmdResult_def split: list.splits)

interpretation ordq: fifo orderNodeInsert "\<lambda>io. case dealOrderNode io of (None, _) \<Rightarrow> None | (Some n, io') \<Rightarrow> Some (n, io')"
    orderDeque "\<lambda>_. True"
  by unfold_locales (auto simp: orderNodeInsert_def dealOrderNode_def split: list.splits)

lemma insertTimerOrder_mset [simp]: "mset (insertTimerOrder n xs) = add_mset n (mset xs)"
proof -
  have "mset (insertTimerOrder_loop n xs) = add_mset n (mset xs)" by (induction xs) auto
  then show ?thesis by (auto simp: insertTimerOrder_def)
qed

lemma insertTimerOrder_sorted:
  "sorted (map node_outSecond xs) \<Longrightarrow> sorted (map node_outSecond (insertTimerOrder n xs))"
proof -
  assume s: "sorted (map node_outSecond xs)"
  then have "sorted (map node_outSecond (insertTimerOrder_loop n xs)) \<and>
    set (insertTimerOrder_loop n xs) = insert n (set xs)"
    by (induction xs) auto
  with s show ?thesis by (auto simp: insertTimerOrder_def)
qed

section \<open>Conservation of orders\<close>

text \<open>What an operation leaves alone: the callbacks made so far, the counter, and the callback of every order.\<close>

definition calm :: "redis_sys \<Rightarrow> redis_sys \<Rightarrow> bool" where
  "calm s s' \<longleftrightarrow> answered s' = answered s \<and> asyncCmdNum s' = asyncCmdNum s \<and>
     (\<forall>p. resultCb (orders s' p) = resultCb (orders s p))"

lemma calm_refl [simp]: "calm s s" by (simp add: calm_def)

lemma calm_trans [trans]: "calm s t \<Longrightarrow> calm t u \<Longrightarrow> calm s u" by (simp add: calm_def)

lemma mset_exchange: "a + b = c + d \<Longrightarrow> d + e = b + f \<Longrightarrow> a + e = c + (f :: 'a multiset)"
proof (rule multiset_eqI)
  fix x
  assume "a + b = c + d" "d + e = b + f"
  then have "count (a + b) x = count (c + d) x" "count (d + e) x = count (b + f) x" by simp_all
  then show "count (a + e) x = count (c + f) x" by simp
qed

text \<open>The orders in the tables of the connections \<open>cs\<close>.\<close>

definition pend :: "nat list \<Rightarrow> redis_sys \<Rightarrow> nat multiset" where
  "pend cs s = sum_list (map (\<lambda>i. mset (map snd (cmdSeqOrderMap (clients s i)))) cs)"

definition balance :: "nat list \<Rightarrow> redis_sys \<Rightarrow> nat multiset" where
  "balance cs s = pend cs s + mset (cmdResults s)"

definition seq_ok :: "RedisClient \<Rightarrow> bool" where
  "seq_ok c \<longleftrightarrow> distinct (map fst (cmdSeqOrderMap c)) \<and> (\<forall>k \<in> fst ` set (cmdSeqOrderMap c). k < cmdSeq c)"

lemma pend_Cons: "pend (c # cs) t = mset (map snd (cmdSeqOrderMap (clients t c))) + pend cs t"
  by (simp add: pend_def)

lemma pend_upd_other: "i \<notin> set cs \<Longrightarrow> pend cs (upd_client i f s) = pend cs s"
  by (induction cs) (auto simp: pend_def upd_client_def)

lemma pend_upd:
  "distinct cs \<Longrightarrow> i \<in> set cs \<Longrightarrow>
   pend cs (upd_client i f s) + mset (map snd (cmdSeqOrderMap (clients s i))) =
   pend cs s + mset (map snd (cmdSeqOrderMap (f (clients s i))))"
proof (induction cs)
  case (Cons c cs)
  show ?case
  proof (cases "c = i")
    case True
    then show ?thesis using Cons pend_upd_other [of i cs f s] by (simp add: pend_Cons) (simp add: upd_client_def)
  next
    case False
    then have "clients (upd_client i f s) c = clients s c" by (simp add: upd_client_def)
    then show ?thesis using Cons False by (simp add: pend_Cons add.assoc)
  qed
qed simp

lemma pend_upd_same:
  "cmdSeqOrderMap (f (clients s i)) = cmdSeqOrderMap (clients s i) \<Longrightarrow> pend cs (upd_client i f s) = pend cs s"
  by (induction cs) (auto simp: pend_def upd_client_def)

lemma pend_cong: "clients s' = clients s \<Longrightarrow> pend cs s' = pend cs s"
  by (simp add: pend_def)

lemma seq_insert_new:
  "k \<notin> fst ` set m \<Longrightarrow> mset (seq_insert k v m) = add_mset (k, v) (mset m)"
  by (induction k v m rule: seq_insert.induct) auto


lemma fail_order_effect:
  assumes "resultCb (orders s p) \<noteq> None"
  shows "calm s (fail_order ret p s) \<and> clients (fail_order ret p s) = clients s \<and>
    cmdResults (fail_order ret p s) = cmdResults s @ [p]"
  using assms by (auto simp: fail_order_def insertCmdResult_def upd_order_def calm_def)

lemma expire_loop_effect:
  "(\<forall>e \<in> set m. resultCb (orders s (snd e)) \<noteq> None) \<Longrightarrow> expire_loop now m s = (m', s') \<Longrightarrow>
   calm s s' \<and> clients s' = clients s \<and> set m' \<subseteq> set m \<and> subseq m' m \<and>
   mset (map snd m') + mset (cmdResults s') = mset (map snd m) + mset (cmdResults s)"
proof (induction now m s arbitrary: m' s' rule: expire_loop.induct)
  case (2 now k p m s)
  have cb: "resultCb (orders s p) \<noteq> None" using 2(3) by simp
  show ?case
  proof (cases "timed_out now (orders s p)")
    case True
    have f: "calm s (fail_order CMD_OUTTIME_CODE p s)" "clients (fail_order CMD_OUTTIME_CODE p s) = clients s"
      "cmdResults (fail_order CMD_OUTTIME_CODE p s) = cmdResults s @ [p]" using fail_order_effect [OF cb] by auto
    have "\<forall>e \<in> set m. resultCb (orders (fail_order CMD_OUTTIME_CODE p s) (snd e)) \<noteq> None"
      using 2(3) f(1) by (auto simp: calm_def)
    from 2(1) [OF True this, of m' s'] True 2(4) f show ?thesis
      by (auto intro: calm_trans list_emb_Cons)
  next
    case False
    then obtain m1 where "expire_loop now m s = (m1, s')" "m' = (k, p) # m1"
      using 2(4) by (auto split: prod.splits)
    with 2(2) [OF False, of m1 s'] 2(3) show ?thesis by auto
  qed
qed simp

lemma distinct_subseq: "subseq xs ys \<Longrightarrow> distinct ys \<Longrightarrow> distinct xs"
  by (induction rule: list_emb.induct) (auto dest: list_emb_set)

lemma seq_ok_sub: "seq_ok c \<Longrightarrow> subseq m (cmdSeqOrderMap c) \<Longrightarrow> set m \<subseteq> set (cmdSeqOrderMap c) \<Longrightarrow> seq_ok (c\<lparr>cmdSeqOrderMap := m\<rparr>)"
  unfolding seq_ok_def by (auto dest: subseq_map intro: distinct_subseq)

lemma hi_command_effect:
  "hi_command i priv msg s = Some (r, s') \<Longrightarrow>
   calm s s' \<and> clients s' = clients s \<and> cmdResults s' = cmdResults s \<and> orders s' = orders s"
  by (auto simp: hi_command_def ask_def calm_def Let_def split: option.splits if_splits list.splits)

lemma requestCmd_balance:
  assumes "requestCmd i p now s = Some s'" and "distinct cs" "i \<in> set cs" and "seq_ok (clients s i)"
    and "unat (cmdSeq (clients s i)) < 2 ^ 32 - 1"
  shows "calm s s' \<and> balance cs s' = add_mset p (balance cs s) \<and> seq_ok (clients s' i) \<and> (\<forall>j. j \<noteq> i \<longrightarrow> clients s' j = clients s j)"
proof -
  define q where "q = cmdSeq (clients s i)"
  define t where "t = upd_client i (\<lambda>c. c\<lparr>cmdSeq := cmdSeq c + 1\<rparr>) s"
  have t: "calm s t" "cmdResults t = cmdResults s" "pend cs t = pend cs s" "orders t = orders s"
    "cmdSeqOrderMap (clients t i) = cmdSeqOrderMap (clients s i)" "cmdSeq (clients t i) = q + 1" "\<forall>j. j \<noteq> i \<longrightarrow> clients t j = clients s j"
    by (auto simp: t_def q_def calm_def pend_upd_same upd_client_def intro!: pend_upd_same [unfolded upd_client_def])
  have q1: "k < q \<Longrightarrow> k < q + 1" "q < q + 1" for k
    using assms(5) by (auto simp: q_def word_less_nat_alt unat_word_ariths)
  have fresh: "q \<notin> fst ` set (cmdSeqOrderMap (clients s i))" using assms(4) by (auto simp: seq_ok_def q_def)
  obtain ret u where u: "hi_command i (Some (unat q)) (cmdMsg (orders t p)) t = Some (ret, u)"
    and r: "s' = (if ret \<noteq> 0 then insertCmdResult p
                 (upd_order p (\<lambda>d. d\<lparr>cmdResult := cmdResult d @ [''redisAsyncCommand ret '' @ show_int ret], cmdRet := ret\<rparr>) u)
             else upd_client i (\<lambda>c. c\<lparr>lastSecond := now, cmdSeqOrderMap := seq_insert q p (cmdSeqOrderMap c)\<rparr>)
                 (upd_order p (\<lambda>d. d\<lparr>cmdQuerySecond := now\<rparr>) u))"
    using assms(1) unfolding requestCmd_def Let_def by (auto simp flip: q_def t_def split: option.splits if_splits)
  note h = hi_command_effect [OF u]
  show ?thesis
  proof (cases "ret = 0")
    case True
    define v where "v = upd_order p (\<lambda>d. d\<lparr>cmdQuerySecond := now\<rparr>) u"
    have v: "clients v = clients t" "cmdResults v = cmdResults s" "calm s v" "pend cs v = pend cs s"
      using h t pend_cong [of v t cs] by (auto simp: v_def upd_order_def calm_def)
    have s': "s' = upd_client i (\<lambda>c. c\<lparr>lastSecond := now, cmdSeqOrderMap := seq_insert q p (cmdSeqOrderMap c)\<rparr>) v"
      using r True by (simp add: v_def)
    have m: "mset (seq_insert q p (cmdSeqOrderMap (clients s i))) = add_mset (q, p) (mset (cmdSeqOrderMap (clients s i)))"
      using seq_insert_new [OF fresh] .
    then have sm: "set (seq_insert q p (cmdSeqOrderMap (clients s i))) = insert (q, p) (set (cmdSeqOrderMap (clients s i)))"
      using mset_eq_setD [of _ "(q, p) # cmdSeqOrderMap (clients s i)"] by simp
    have "mset (map fst (seq_insert q p (cmdSeqOrderMap (clients s i)))) = mset (q # map fst (cmdSeqOrderMap (clients s i)))"
      by (simp add: m)
    then have "distinct (map fst (seq_insert q p (cmdSeqOrderMap (clients s i))))"
      using fresh assms(4) by (metis distinct.simps(2) image_set mset_eq_imp_distinct_iff seq_ok_def)
    then have "seq_ok (clients s' i)"
      using sm t q1 assms(4) by (auto simp: s' upd_client_def v seq_ok_def q_def)
    moreover have "pend cs s' = add_mset p (pend cs s)"
      using pend_upd [OF assms(2,3), of "\<lambda>c. c\<lparr>lastSecond := now, cmdSeqOrderMap := seq_insert q p (cmdSeqOrderMap c)\<rparr>" v]
      by (simp add: s' [symmetric] v t m)
    ultimately show ?thesis using v t
      by (auto simp: balance_def s' upd_client_def calm_def)
  next
    case False
    then have "clients s' = clients t" "cmdResults s' = cmdResults s @ [p]" "calm s s'"
      using r h t by (auto simp: insertCmdResult_def upd_order_def calm_def)
    moreover have "seq_ok (clients t i)" using assms(4) t q1 by (auto simp: seq_ok_def q_def)
    ultimately show ?thesis using t pend_cong [of s' t cs] by (simp add: balance_def)
  qed
qed


lemma checkOutSecondCmd_split:
  assumes "checkOutSecondCmd clock i now s = Some s'"
  obtains t where "calm s t" "cmdResults t = cmdResults s" "pend cs t = pend cs s" "\<forall>j. j \<noteq> i \<longrightarrow> clients t j = clients s j"
    "cmdSeqOrderMap (clients t i) = cmdSeqOrderMap (clients s i)" "cmdSeq (clients t i) = cmdSeq (clients s i)" "orders t = orders s"
    "s' = (let (m, s) = expire_loop (if now = 0 then clock else now) (cmdSeqOrderMap (clients t i)) t
           in upd_client i (\<lambda>c. c\<lparr>cmdSeqOrderMap := m\<rparr>) s)"
proof -
  define n where "n = (if now = 0 then clock else now)"
  show thesis 
  proof (cases "state (clients s i) = REDIS_CLIENT_STATE_CONN \<and>
      sint (ucast (n - lastSecond (clients s i)) :: c_int) > sint (keepAliveSecond (clients s i))")
    case True
    obtain r u where u: "hi_command i None ''PING'' s = Some (r, u)"
      using assms(1) unfolding checkOutSecondCmd_def Let_def n_def [symmetric] if_P [OF True]
      by (cases "hi_command i None ''PING'' s") auto
    have e: "s' = (let (m, s) = expire_loop n (cmdSeqOrderMap (clients (upd_client i (\<lambda>c. c\<lparr>lastSecond := n\<rparr>) u) i))
                      (upd_client i (\<lambda>c. c\<lparr>lastSecond := n\<rparr>) u)
                  in upd_client i (\<lambda>c. c\<lparr>cmdSeqOrderMap := m\<rparr>) s)"
      using assms(1) unfolding checkOutSecondCmd_def Let_def n_def [symmetric] if_P [OF True] u
      by (simp add: case_prod_beta)
    define t where "t = upd_client i (\<lambda>c. c\<lparr>lastSecond := n\<rparr>) u"
    note h = hi_command_effect [OF u]
    have "pend cs t = pend cs s" using h pend_cong [of u s cs] by (simp add: t_def pend_upd_same)
    moreover have "calm s t" "cmdResults t = cmdResults s" using h by (simp_all add: t_def upd_client_def calm_def)
    moreover have "\<forall>j. j \<noteq> i \<longrightarrow> clients t j = clients s j" using h by (simp add: t_def upd_client_def)
    moreover have "cmdSeqOrderMap (clients t i) = cmdSeqOrderMap (clients s i)" "cmdSeq (clients t i) = cmdSeq (clients s i)"
        "orders t = orders s"
      using h by (simp_all add: t_def upd_client_def)
    ultimately show ?thesis using e unfolding t_def [symmetric] by (rule_tac that [unfolded n_def [symmetric]])
  next
    case False
    then have "s' = (let (m, s) = expire_loop n (cmdSeqOrderMap (clients s i)) s
                  in upd_client i (\<lambda>c. c\<lparr>cmdSeqOrderMap := m\<rparr>) s)"
      using assms(1) unfolding checkOutSecondCmd_def Let_def n_def [symmetric] if_not_P [OF False]
      by (simp add: case_prod_beta)
    then show ?thesis by (intro that [of s]) (auto simp: n_def)
  qed
qed

lemma checkOutSecondCmd_balance:
  assumes "checkOutSecondCmd clock i now s = Some s'" and "distinct cs" "i \<in> set cs" and "seq_ok (clients s i)"
    and "\<forall>p \<in># pend cs s. resultCb (orders s p) \<noteq> None"
  shows "calm s s' \<and> balance cs s' = balance cs s \<and> seq_ok (clients s' i) \<and> (\<forall>j. j \<noteq> i \<longrightarrow> clients s' j = clients s j)"
proof -
  define n where "n = (if now = 0 then clock else now)"
  obtain t where t: "calm s t" "cmdResults t = cmdResults s" "pend cs t = pend cs s" "\<forall>j. j \<noteq> i \<longrightarrow> clients t j = clients s j"
      "cmdSeqOrderMap (clients t i) = cmdSeqOrderMap (clients s i)" "cmdSeq (clients t i) = cmdSeq (clients s i)"
    and e: "s' = (let (m, s) = expire_loop n (cmdSeqOrderMap (clients t i)) t
                  in upd_client i (\<lambda>c. c\<lparr>cmdSeqOrderMap := m\<rparr>) s)"
    by (rule checkOutSecondCmd_split [OF assms(1), of cs]) (simp add: n_def)
  have sk: "seq_ok (clients t i)" using assms(4) t by (simp add: seq_ok_def)
  obtain m u where m: "expire_loop n (cmdSeqOrderMap (clients t i)) t = (m, u)" by force
  have "mset (map snd (cmdSeqOrderMap (clients t i))) \<subseteq># pend cs t"
    using assms(3) by (auto simp: pend_def sum_list_map_remove1 [of i cs])
  then have "\<forall>e \<in> set (cmdSeqOrderMap (clients t i)). resultCb (orders t (snd e)) \<noteq> None"
    using assms(5) t(1,3) unfolding calm_def by (metis image_eqI mset_subset_eqD set_map set_mset_mset)
  note x = expire_loop_effect [OF this m]
  have s': "s' = upd_client i (\<lambda>c. c\<lparr>cmdSeqOrderMap := m\<rparr>) u" using e m by simp
  have "pend cs s' + mset (map snd (cmdSeqOrderMap (clients t i))) = pend cs t + mset (map snd m)"
    using pend_upd [OF assms(2,3), of "\<lambda>c. c\<lparr>cmdSeqOrderMap := m\<rparr>" u] x pend_cong [of u t cs] by (simp add: s')
  moreover have "mset (map snd m) + mset (cmdResults s') = mset (map snd (cmdSeqOrderMap (clients t i))) + mset (cmdResults s)"
    using x t by (simp add: s' upd_client_def)
  ultimately have "pend cs s' + mset (cmdResults s') = pend cs s + mset (cmdResults s)"
    unfolding t(3) by (rule mset_exchange)
  moreover have "seq_ok (clients s' i)"
    using seq_ok_sub [OF sk, of m] x by (simp add: s' upd_client_def)
  ultimately show ?thesis using x t by (auto simp: balance_def s' upd_client_def calm_def)
qed

lemma requestCallBack_balance:
  assumes "distinct cs" "i \<in> set cs" and "seq_ok (clients s i)" and "\<forall>p \<in># pend cs s. resultCb (orders s p) \<noteq> None"
    and s'_def: "s' = requestCallBack i priv r s"
  shows "calm s s' \<and> balance cs s' = balance cs s \<and> seq_ok (clients s' i) \<and> (\<forall>j. j \<noteq> i \<longrightarrow> clients s' j = clients s j)"
proof (cases "map_of (cmdSeqOrderMap (clients s i)) (of_nat priv)")
  case None
  then show ?thesis using assms(3) by (simp add: s'_def requestCallBack_def)
next
  case (Some p)
  define k where "k = (of_nat priv :: u32)"
  define m where "m = cmdSeqOrderMap (clients s i)"
  obtain ret texts where rt: "reply_result r = (ret, texts)" by force
  define t where "t = insertCmdResult p (upd_order p (\<lambda>d. d\<lparr>cmdRet := ret, cmdResult := cmdResult d @ texts\<rparr>) s)"
  have t: "calm s t" "clients t = clients s" "cmdResults t = cmdResults s @ [p]"
    by (auto simp: t_def insertCmdResult_def upd_order_def calm_def)
  have kp: "(k, p) \<in> set m" using Some by (auto simp: k_def m_def dest: map_of_SomeD)
  have sub: "mset (map snd m) \<subseteq># pend cs s"
    using assms(2) by (auto simp: m_def pend_def sum_list_map_remove1 [of i cs])
  have "p \<in> set (map snd m)" using kp by force
  then have cb: "resultCb (orders s p) \<noteq> None" using assms(4) sub by (metis mset_subset_eqD set_mset_mset)
  have s': "s' = upd_client i (\<lambda>c. c\<lparr>cmdSeqOrderMap := seq_erase k (cmdSeqOrderMap c)\<rparr>) t"
    using Some cb by (simp add: s'_def requestCallBack_def t_def rt k_def)
  have "distinct (map fst m)" using assms(3) by (simp add: seq_ok_def m_def)
  then have "mset m = add_mset (k, p) (mset (seq_erase k m))"
    using kp
  proof (induction m)
    case (Cons e m)
    have "filter (\<lambda>e. fst e \<noteq> k) m = m" if "k \<notin> fst ` set m" using that by (intro filter_True) force
    with Cons show ?case by (cases e) (auto simp: seq_erase_def rev_image_eqI simp flip: mset_filter)
  qed simp
  then have "mset (map snd m) = add_mset p (mset (map snd (seq_erase k m)))" by simp
  moreover have "pend cs s' + mset (map snd m) = pend cs s + mset (map snd (seq_erase k m))"
    using pend_upd [OF assms(1,2), of "\<lambda>c. c\<lparr>cmdSeqOrderMap := seq_erase k (cmdSeqOrderMap c)\<rparr>" t] t pend_cong [of t s cs]
    by (simp add: s' m_def)
  ultimately have "add_mset p (pend cs s') + mset (map snd (seq_erase k m)) = pend cs s + mset (map snd (seq_erase k m))"
    by (simp only: union_mset_add_mset_left union_mset_add_mset_right)
  then have "add_mset p (pend cs s') = pend cs s" by (simp only: add_right_cancel)
  moreover have "seq_ok (clients s' i)"
    using seq_ok_sub [OF assms(3), of "seq_erase k m"] t by (auto simp: s' upd_client_def seq_erase_def m_def)
  ultimately show ?thesis using t by (auto simp: balance_def s' upd_client_def calm_def)
qed


section \<open>The I/O thread without disconnects\<close>

definition ordered :: "RedisCliOrderNode list \<Rightarrow> nat list" where
  "ordered ns = List.map_filter cmdOrd ns"

text \<open>
  The state of one I/O thread with the connections \<open>cs\<close>, and the orders submitted so far. The steps: a command is
  submitted; the thread handles the first order of its queue, which for a connection order means connecting; a reply, a
  connect or the second tick comes in; a thread of the callback pool runs a callback. No connection is closed, and fewer than
  \<open>2 ^ 32 - 1\<close> commands are sent on each connection, so that no sequence number is used twice.
\<close>

inductive io_step :: "nat list \<Rightarrow> (LibeventIo \<times> redis_sys) \<times> nat list \<Rightarrow> (LibeventIo \<times> redis_sys) \<times> nat list \<Rightarrow> bool"
  for cs where
  submit: "p \<notin> set sub \<Longrightarrow> resultCb (orders s p) \<noteq> None \<Longrightarrow> cmdOrd n = Some p \<Longrightarrow> cli n = Some i \<Longrightarrow> i \<in> set cs \<Longrightarrow>
    io_step cs ((io, s), sub) (libeventIoOrder (Some n) now (io, s), sub @ [p])"
| submit_connect: "cmdOrd n = None \<Longrightarrow> cli n = Some i \<Longrightarrow> i \<in> set cs \<Longrightarrow>
    io_step cs (w, sub) (libeventIoOrder (Some n) now w, sub)"
| handle: "dealOrderNode io = (Some n, io') \<Longrightarrow> cli n = Some i \<Longrightarrow> i \<in> set cs \<Longrightarrow>
    (cmdOrd n = None \<Longrightarrow> state (clients s i) = REDIS_CLIENT_STATE_INIT) \<Longrightarrow>
    unat (cmdSeq (clients s i)) < 2 ^ 32 - 1 \<Longrightarrow> handle_order sync base_ok timer_ok n (io', s) = Some w' \<Longrightarrow>
    io_step cs ((io, s), sub) (w', sub)"
| reply: "i \<in> set cs \<Longrightarrow> io_step cs ((io, s), sub) ((io, cmdCallback i r priv s), sub)"
| connected: "connectCallback clock ctx i True s = Some s' \<Longrightarrow> io_step cs ((io, s), sub) ((io, s'), sub)"
| tick: "i \<in> set cs \<Longrightarrow> checkOutSecondCmd clock i now s = Some s' \<Longrightarrow> io_step cs ((io, s), sub) ((io, s'), sub)"
| call: "io_step cs ((io, s), sub) ((io, cmdReplyCallPool s), sub)"

definition io_ok :: "nat list \<Rightarrow> (LibeventIo \<times> redis_sys) \<times> nat list \<Rightarrow> bool" where
  "io_ok cs x \<longleftrightarrow>
     (case x of ((io, s), sub) \<Rightarrow>
        (\<forall>i \<in> set cs. seq_ok (clients s i)) \<and> (\<forall>p \<in> set sub. resultCb (orders s p) \<noteq> None) \<and>
        mset (ordered (orderDeque io)) + balance cs s + mset (map fst (answered s)) = mset sub \<and>
        asyncCmdNum s = of_nat (size (mset (ordered (orderDeque io)) + balance cs s)))"

lemma ordered_simps [simp]:
  "ordered [] = []" "ordered (n # ns) = (case cmdOrd n of None \<Rightarrow> ordered ns | Some p \<Rightarrow> p # ordered ns)"
  "ordered (ns @ ms) = ordered ns @ ordered ms"
  by (auto simp: ordered_def map_filter_simps split: option.split) (induction ns; simp add: map_filter_simps split: option.split)+


lemma io_ok_conserve:
  assumes "io_ok cs ((io, s), sub)" and "calm s s'" and "\<forall>i \<in> set cs. seq_ok (clients s' i)"
    and "mset (ordered (orderDeque io')) + balance cs s' = mset (ordered (orderDeque io)) + balance cs s"
  shows "io_ok cs ((io', s'), sub)"
proof -
  note a = assms(1) [unfolded io_ok_def prod.case]
  have "asyncCmdNum s' = of_nat (size (mset (ordered (orderDeque io')) + balance cs s'))"
    unfolding assms(4) using a assms(2) by (simp only: calm_def)
  moreover have "mset (ordered (orderDeque io')) + balance cs s' + mset (map fst (answered s')) = mset sub"
    unfolding assms(4) using a assms(2) by (simp only: calm_def)
  ultimately show ?thesis
    unfolding io_ok_def prod.case using a assms(2,3) by (simp only: calm_def) simp
qed

lemma io_ok_sum:
  "io_ok cs ((io, s), sub) \<Longrightarrow> p \<in># mset (ordered (orderDeque io)) + balance cs s \<Longrightarrow> resultCb (orders s p) \<noteq> None"
proof -
  assume ok: "io_ok cs ((io, s), sub)" and p: "p \<in># mset (ordered (orderDeque io)) + balance cs s"
  note a = ok [unfolded io_ok_def prod.case]
  have "p \<in># mset (ordered (orderDeque io)) + balance cs s + mset (map fst (answered s))" using p by simp
  then have "p \<in> set sub" using a by (simp only: set_mset_mset)
  then show ?thesis using a by blast
qed

text \<open>Operations that touch neither the tables nor the result queue.\<close>

definition tables_same :: "redis_sys \<Rightarrow> redis_sys \<Rightarrow> bool" where
  "tables_same s s' \<longleftrightarrow> calm s s' \<and> cmdResults s' = cmdResults s \<and>
     (\<forall>i. cmdSeqOrderMap (clients s' i) = cmdSeqOrderMap (clients s i) \<and> cmdSeq (clients s' i) = cmdSeq (clients s i))"

lemma tables_same_balance: "tables_same s s' \<Longrightarrow> balance cs s' = balance cs s"
  by (simp add: tables_same_def balance_def pend_def)

lemma tables_same_seq_ok: "tables_same s s' \<Longrightarrow> seq_ok (clients s' i) = seq_ok (clients s i)"
  by (simp add: tables_same_def seq_ok_def)

lemma tables_same_trans: "tables_same s t \<Longrightarrow> tables_same t u \<Longrightarrow> tables_same s u"
  by (auto simp: tables_same_def intro: calm_trans)

lemma connectServer_same: "connectServer b t i s = (r, s') \<Longrightarrow> tables_same s s'"
  by (auto simp: connectServer_def tables_same_def calm_def upd_client_def Let_def
      split: if_splits option.splits list.splits conn_result.splits prod.splits)

lemma on_connect_same: "on_connect i r s = Some s' \<Longrightarrow> tables_same s s'"
  by (auto simp: on_connect_def tables_same_def calm_def ask_def split: option.splits)

lemma connected_same: "connectCallback clock ctx i True s = Some s' \<Longrightarrow> tables_same s s'"
  by (auto simp: connectCallback_def setStateConnected_def freeTimeEvent_def on_connect_def ask_def tables_same_def calm_def
      upd_client_def split: option.splits)

lemma insert_order_effect:
  "calm s (insertCmdResult p (upd_order p (\<lambda>d. d\<lparr>cmdRet := r\<rparr>) s)) \<and>
   balance cs (insertCmdResult p (upd_order p (\<lambda>d. d\<lparr>cmdRet := r\<rparr>) s)) = add_mset p (balance cs s) \<and>
   clients (insertCmdResult p (upd_order p (\<lambda>d. d\<lparr>cmdRet := r\<rparr>) s)) = clients s"
  by (auto simp: insertCmdResult_def upd_order_def calm_def balance_def pend_def)

lemma handle_order_ok:
  assumes ok: "io_ok cs ((io, s), sub)" and d: "distinct cs" and deq: "dealOrderNode io = (Some n, io')"
    and c: "cli n = Some i" "i \<in> set cs" and init: "cmdOrd n = None \<Longrightarrow> state (clients s i) = REDIS_CLIENT_STATE_INIT"
    and seq: "unat (cmdSeq (clients s i)) < 2 ^ 32 - 1"
    and h: "handle_order sync base_ok timer_ok n (io', s) = Some (io'', s')"
  shows "io_ok cs ((io'', s'), sub)"
proof -
  obtain ns where q: "orderDeque io = n # ns" "orderDeque io' = ns"
    using deq by (auto simp: dealOrderNode_def split: list.splits)
  have sk: "\<forall>j \<in> set cs. seq_ok (clients s j)" using ok by (simp add: io_ok_def)
  show ?thesis
  proof (cases "cmdOrd n")
    case None
    then have st: "state (clients s i) = REDIS_CLIENT_STATE_INIT" using init by simp
    obtain r t where r: "connectServer base_ok timer_ok i s = (r, t)" by force
    have same: "tables_same s s'" and deque: "orderDeque io'' = ns"
      using h None c st r q connectServer_same [OF r] on_connect_same [of i _ t s']
      by (auto simp: handle_order_def Let_def split: if_splits intro: tables_same_trans)
    show ?thesis
      by (rule io_ok_conserve [OF ok])
        (use same deque q None sk tables_same_balance [OF same] tables_same_seq_ok [OF same] in \<open>auto simp: tables_same_def\<close>)
  next
    case (Some p)
    have eff: "calm s s' \<and> balance cs s' = add_mset p (balance cs s) \<and> (\<forall>j \<in> set cs. seq_ok (clients s' j)) \<and> io'' = io'"
    proof (cases "(node_outSecond n \<noteq> 0 \<and> io_nowSecond io' > node_outSecond n) \<or> state (clients s i) = REDIS_CLIENT_STATE_INIT")
      case True
      then obtain r where "s' = insertCmdResult p (upd_order p (\<lambda>d. d\<lparr>cmdRet := r\<rparr>) s)" "io'' = io'"
        using h c Some by (auto simp: handle_order_def split: if_splits)
      then show ?thesis using insert_order_effect [of s p r cs] sk by simp
    next
      case False
      then have "requestCmd i p (io_nowSecond io') s = Some s'" "io'' = io'"
        using h c Some by (auto simp: handle_order_def)
      with requestCmd_balance [OF this(1) d c(2) _ seq] sk c(2) show ?thesis by metis
    qed
    show ?thesis
      by (rule io_ok_conserve [OF ok]) (use eff q Some in auto)
  qed
qed

lemma balance_cb: "io_ok cs ((io, s), sub) \<Longrightarrow> \<forall>p \<in># pend cs s. resultCb (orders s p) \<noteq> None"
  using io_ok_sum [of cs io s sub] by (simp add: balance_def)

lemma io_step_ok:
  assumes "io_step cs x y" and "distinct cs" and "io_ok cs x"
  shows "io_ok cs y"
  using assms
proof (induction rule: io_step.induct)
  case (submit p sub s n i io now)
  then show ?case
    by (auto simp: io_ok_def libeventIoOrder_def libeventIoWakeup_def orderNodeInsert_def asyncRequestCmdAdd_def balance_def pend_def)
next
  case (submit_connect n i w sub now)
  then show ?case
    by (cases w) (auto simp: io_ok_def libeventIoOrder_def libeventIoWakeup_def orderNodeInsert_def)
next
  case (handle io n io' i s sync base_ok timer_ok w' sub)
  then show ?case by (cases w') (auto intro: handle_order_ok)
next
  case (reply i io s sub r priv)
  have sk: "\<forall>j \<in> set cs. seq_ok (clients s j)" using reply.prems by (simp add: io_ok_def)
  show ?case
  proof (cases r)
    case (Some q)
    from requestCallBack_balance [OF reply.prems(1) reply.hyps _ balance_cb [OF reply.prems(2)] refl, of priv r] sk reply.hyps
    have "calm s (requestCallBack i priv r s)" "balance cs (requestCallBack i priv r s) = balance cs s"
      "\<forall>j \<in> set cs. seq_ok (clients (requestCallBack i priv r s) j)" by metis+
    with Some show ?thesis by (auto simp: cmdCallback_def intro!: io_ok_conserve [OF reply.prems(2)])
  qed (use reply in \<open>simp add: cmdCallback_def\<close>)
next
  case (connected clock ctx i s s' io sub)
  note same = connected_same [OF connected.hyps]
  show ?case
    by (rule io_ok_conserve [OF connected.prems(2)])
      (use same tables_same_balance [OF same] tables_same_seq_ok [OF same] connected.prems(2) in \<open>auto simp: tables_same_def io_ok_def\<close>)
next
  case (tick i clock now s s' io sub)
  have sk: "\<forall>j \<in> set cs. seq_ok (clients s j)" using tick.prems by (simp add: io_ok_def)
  from checkOutSecondCmd_balance [OF tick.hyps(2) tick.prems(1) tick.hyps(1) _ balance_cb [OF tick.prems(2)]] sk tick.hyps(1)
  have "calm s s'" "balance cs s' = balance cs s" "\<forall>j \<in> set cs. seq_ok (clients s' j)" by metis+
  then show ?case by (auto intro!: io_ok_conserve [OF tick.prems(2)])
next
  case (call io s sub)
  show ?case
  proof (cases "cmdResults s")
    case Nil
    then show ?thesis using call by (simp add: cmdReplyCallPool_def takeCmdResult_def)
  next
    case (Cons p ps)
    have "resultCb (orders s p) \<noteq> None"
      by (rule io_ok_sum [OF call.prems(2)]) (simp add: balance_def Cons)
    then show ?thesis using call Cons
      by (auto simp: io_ok_def cmdReplyCallPool_def takeCmdResult_def balance_def pend_def)
  qed
qed


lemma distinct_mset_sub: "mset xs \<subseteq># mset ys \<Longrightarrow> distinct ys \<Longrightarrow> distinct xs"
  unfolding distinct_count_atmost_1
proof (intro allI)
  fix a
  assume sub: "mset xs \<subseteq># mset ys" and d: "\<forall>a. count (mset ys) a = (if a \<in> set ys then 1 else 0)"
  have "count (mset xs) a \<le> count (mset ys) a" using sub by (rule mset_subset_eq_count)
  also have "\<dots> \<le> 1" using d by simp
  finally show "count (mset xs) a = (if a \<in> set xs then 1 else 0)"
    using count_greater_zero_iff [of "mset xs" a] by (cases "a \<in> set xs") (simp_all add: le_antisym)
qed

lemma io_step_distinct: "io_step cs x y \<Longrightarrow> distinct (snd x) \<Longrightarrow> distinct (snd y)"
  by (induction rule: io_step.induct) auto

lemma io_steps_ok:
  "(io_step cs)\<^sup>*\<^sup>* x y \<Longrightarrow> distinct cs \<Longrightarrow> io_ok cs x \<Longrightarrow> distinct (snd x) \<Longrightarrow> io_ok cs y \<and> distinct (snd y)"
proof (induction rule: rtranclp_induct)
  case (step y z)
  then have "io_ok cs z" using io_step_ok by blast
  moreover have "distinct (snd z)" using step.IH step.prems by (intro io_step_distinct [OF step.hyps(2)]) blast
  ultimately show ?case by simp
qed simp

section \<open>The timer thread\<close>

lemma insertTimerOrders:
  "sorted (map node_outSecond xs) \<Longrightarrow> mset (fold insertTimerOrder ns xs) = mset ns + mset xs \<and>
   sorted (map node_outSecond (fold insertTimerOrder ns xs))"
  by (induction ns arbitrary: xs) (simp_all add: insertTimerOrder_sorted)

lemma timer_orders_spec:
  "sorted (map node_outSecond xs) \<Longrightarrow> \<forall>x \<in> set xs. cli x \<noteq> None \<Longrightarrow>
   \<exists>ords'. timer_orders now xs ords =
       Some (map (\<lambda>x. x\<lparr>node_outSecond := if cmdOrd x = None then 0 else now + 3\<rparr>) (filter (\<lambda>x. node_outSecond x \<le> now) xs),
             filter (\<lambda>x. \<not> node_outSecond x \<le> now) xs, ords') \<and>
       (\<forall>p. ords' p = (if p \<in> set (ordered (filter (\<lambda>x. node_outSecond x \<le> now) xs))
                       then (ords p)\<lparr>outSecond := 3, cmdOutSecond := now + 3\<rparr> else ords p))"
proof (induction xs arbitrary: ords)
  case Nil
  then show ?case by (simp add: timer_orders.simps dealTimerOrder_def)
next
  case (Cons x xs)
  show ?case
  proof (cases "node_outSecond x \<le> now")
    case True
    define ords1 where "ords1 = (case cmdOrd x of None \<Rightarrow> ords | Some p \<Rightarrow> ords(p := (ords p)\<lparr>outSecond := 3, cmdOutSecond := now + 3\<rparr>))"
    obtain i where i: "cli x = Some i" using Cons.prems by auto
    have u: "timer_orders now (x # xs) ords =
        map_option (\<lambda>(out, rest). (x\<lparr>node_outSecond := if cmdOrd x = None then 0 else now + 3\<rparr> # out, rest)) (timer_orders now xs ords1)"
      using True i by (subst timer_orders.simps) (auto simp: dealTimerOrder_def ords1_def split: option.split)
    from Cons.IH [of ords1] Cons.prems obtain ords' where
      r: "timer_orders now xs ords1 =
       Some (map (\<lambda>x. x\<lparr>node_outSecond := if cmdOrd x = None then 0 else now + 3\<rparr>) (filter (\<lambda>x. node_outSecond x \<le> now) xs),
             filter (\<lambda>x. \<not> node_outSecond x \<le> now) xs, ords')"
      and o: "\<forall>p. ords' p = (if p \<in> set (ordered (filter (\<lambda>x. node_outSecond x \<le> now) xs))
                       then (ords1 p)\<lparr>outSecond := 3, cmdOutSecond := now + 3\<rparr> else ords1 p)" by auto
    show ?thesis unfolding u r using True o by (auto simp: ords1_def split: option.split)
  next
    case False
    then have "filter (\<lambda>y. node_outSecond y \<le> now) (x # xs) = []" "filter (\<lambda>y. \<not> node_outSecond y \<le> now) (x # xs) = x # xs"
      using Cons.prems(1) by (auto simp: filter_empty_conv intro!: filter_True)
    moreover have "timer_orders now (x # xs) ords = Some ([], x # xs, ords)"
      using False by (subst timer_orders.simps) (auto simp: dealTimerOrder_def)
    ultimately show ?thesis by simp
  qed
qed

section \<open>Timeouts\<close>

lemma clearCmdReqBuf_fold:
  "clients (fold (\<lambda>e. fail_order r (snd e)) m s) = clients s \<and> live (fold (\<lambda>e. fail_order r (snd e)) m s) = live s"
  by (induction m arbitrary: s) (simp_all add: fail_order_def insertCmdResult_def upd_order_def)

lemma clearCmdReqBuf_clients: "clients (clearCmdReqBuf i s) = clients s"
  by (simp add: clearCmdReqBuf_def clearCmdReqBuf_fold)

lemma clearCmdReqBuf_live: "live (clearCmdReqBuf i s) = live s"
  by (simp add: clearCmdReqBuf_def clearCmdReqBuf_fold)

lemma expire_loop_spec:
  "(\<forall>e \<in> set m. resultCb (orders s (snd e)) \<noteq> None) \<Longrightarrow> distinct (map snd m) \<Longrightarrow> expire_loop now m s = (m', s') \<Longrightarrow>
   m' = filter (\<lambda>e. \<not> timed_out now (orders s (snd e))) m \<and>
   cmdResults s' = cmdResults s @ map snd (filter (\<lambda>e. timed_out now (orders s (snd e))) m) \<and>
   (\<forall>p. orders s' p = (if p \<in> snd ` set m \<and> timed_out now (orders s p) then (orders s p)\<lparr>cmdRet := CMD_OUTTIME_CODE\<rparr> else orders s p))"
proof (induction now m s arbitrary: m' s' rule: expire_loop.induct)
  case (2 now k p m s)
  have cb: "resultCb (orders s p) \<noteq> None" using 2(3) by simp
  show ?case
  proof (cases "timed_out now (orders s p)")
    case True
    define t where "t = fail_order CMD_OUTTIME_CODE p s"
    have t: "cmdResults t = cmdResults s @ [p]" "orders t = (orders s)(p := (orders s p)\<lparr>cmdRet := CMD_OUTTIME_CODE\<rparr>)"
      using cb by (auto simp: t_def fail_order_def insertCmdResult_def upd_order_def)
    have same: "\<forall>e \<in> set m. orders t (snd e) = orders s (snd e)" using 2(4) t by force
    have run: "expire_loop now m t = (m', s')" using 2(5) True by (simp add: t_def)
    have "\<forall>e \<in> set m. resultCb (orders t (snd e)) \<noteq> None" using 2(3) same by simp
    from 2(1) [OF True this [unfolded t_def], folded t_def, OF _ run] 2(4)
    have r: "m' = filter (\<lambda>e. \<not> timed_out now (orders t (snd e))) m"
      "cmdResults s' = cmdResults t @ map snd (filter (\<lambda>e. timed_out now (orders t (snd e))) m)"
      "\<forall>q. orders s' q = (if q \<in> snd ` set m \<and> timed_out now (orders t q) then (orders t q)\<lparr>cmdRet := CMD_OUTTIME_CODE\<rparr> else orders t q)"
      by simp_all
    have "filter (\<lambda>e. timed_out now (orders t (snd e))) m = filter (\<lambda>e. timed_out now (orders s (snd e))) m"
      "filter (\<lambda>e. \<not> timed_out now (orders t (snd e))) m = filter (\<lambda>e. \<not> timed_out now (orders s (snd e))) m"
      using same by (auto intro!: filter_cong)
    then show ?thesis using r t True 2(4) by auto
  next
    case False
    then obtain m1 where "expire_loop now m s = (m1, s')" "m' = (k, p) # m1"
      using 2(5) by (auto split: prod.splits)
    with 2(2) [OF False, of m1 s'] 2(3,4) False show ?thesis by auto
  qed
qed simp

section \<open>Properties\<close>



text \<open>A connection that is up, one command: submitted, sent, answered by the server, and given to the callback.\<close>

definition one_conn :: redis_sys where
  "one_conn =
     \<lparr>clients = (\<lambda>_. (RedisClient_new 0 0 (Some \<lparr>port = 6379, ipAddr = ''10.0.0.1''\<rparr>) 10 5)\<lparr>state := REDIS_CLIENT_STATE_CONN,
        freeState := RESOURCES_NEED_FREE, client := Some 7\<rparr>), orders = (\<lambda>p. OrderNode_new ''GET a'' (Some p) None), cmdResults = [],
      asyncCmdNum = 0, answered = [], requests = [], live = (\<lambda>ctx. ctx = 7), cmdRets = [], connRets = []\<rparr>"

definition idle_io :: LibeventIo where
  "idle_io = \<lparr>io_nowSecond = 100, io_lastSecond = 100, orderDeque = [], ioRedisClients = [Some 0], wakeups = 0\<rparr>"

definition get_a :: RedisCliOrderNode where
  "get_a = \<lparr>node_outSecond = 0, cli = Some 0, cmdOrd = Some 3\<rparr>"

lemmas one_conn_defs = one_conn_def idle_io_def get_a_def RedisClient_new_def OrderNode_new_def

definition sent_a :: "LibeventIo \<times> redis_sys" where
  "sent_a = the (handle_order False True True get_a (snd (dealOrderNode (fst (libeventIoOrder (Some get_a) 100 (idle_io, one_conn)))),
                   snd (libeventIoOrder (Some get_a) 100 (idle_io, one_conn))))"

definition answered_a :: redis_sys where
  "answered_a = cmdReplyCallPool (cmdCallback 0
     (Some \<lparr>r_type = REDIS_REPLY_STRING, r_integer = 0, r_str = ''v'', r_element = []\<rparr>) 0 (snd sent_a))"

lemmas run_a_defs = sent_a_def answered_a_def one_conn_defs libeventIoOrder_def orderNodeInsert_def libeventIoWakeup_def
  asyncRequestCmdAdd_def dealOrderNode_def handle_order_def requestCmd_def hi_command_def ask_def upd_client_def upd_order_def
  insertCmdResult_def cmdCallback_def requestCallBack_def reply_result_def cmdReplyCallPool_def takeCmdResult_def seq_erase_def

lemma run_a: "(io_step [0])\<^sup>*\<^sup>* ((idle_io, one_conn), []) ((fst sent_a, answered_a), [3])"
proof -
  define w where "w = libeventIoOrder (Some get_a) 100 (idle_io, one_conn)"
  have s1: "io_step [0] ((idle_io, one_conn), []) (w, [] @ [3])"
    unfolding w_def by (rule io_step.submit [where i = 0]) (simp_all add: one_conn_defs)
  obtain io t where w: "w = (io, t)" by fastforce
  have "io_step [0] ((io, t), [3]) (sent_a, [3])"
    by (rule io_step.handle [where n = get_a and i = 0 and sync = False and base_ok = True and timer_ok = True
          and io' = "snd (dealOrderNode (fst w))"]) (use w in \<open>auto simp: w_def run_a_defs\<close>)
  then have s2: "io_step [0] (w, [] @ [3]) (sent_a, [3])" by (simp add: w)
  obtain io' t' where v: "sent_a = (io', t')" by fastforce
  have "io_step [0] ((io', t'), [3]) ((io', cmdCallback 0
      (Some \<lparr>r_type = REDIS_REPLY_STRING, r_integer = 0, r_str = ''v'', r_element = []\<rparr>) 0 t'), [3])"
    by (rule io_step.reply) simp
  then have s3: "io_step [0] (sent_a, [3]) ((fst sent_a, cmdCallback 0
      (Some \<lparr>r_type = REDIS_REPLY_STRING, r_integer = 0, r_str = ''v'', r_element = []\<rparr>) 0 (snd sent_a)), [3])" by (simp add: v)
  have s4: "io_step [0] ((fst sent_a, cmdCallback 0
      (Some \<lparr>r_type = REDIS_REPLY_STRING, r_integer = 0, r_str = ''v'', r_element = []\<rparr>) 0 (snd sent_a)), [3]) ((fst sent_a, answered_a), [3])" unfolding answered_a_def by (rule io_step.call)
  show ?thesis
    by (rule converse_rtranclp_into_rtranclp [where r = "io_step [0]"], rule s1,
        rule converse_rtranclp_into_rtranclp [where r = "io_step [0]"], rule s2,
        rule converse_rtranclp_into_rtranclp [where r = "io_step [0]"], rule s3,
        rule r_into_rtranclp [where r = "io_step [0]"], rule s4)
qed



definition late_conn :: redis_sys where
  "late_conn = one_conn\<lparr>orders := (\<lambda>p. (OrderNode_new ''GET a'' (Some p) None)\<lparr>outSecond := 3, cmdOutSecond := of_nat p\<rparr>),
     clients := (clients one_conn)(0 := (clients one_conn 0)\<lparr>lastSecond := 95, cmdSeqOrderMap := [(0, 99), (1, 100), (2, 98)]\<rparr>)\<rparr>"


text \<open>The commands under way when a connection is closed are answered twice. \<open>clearCmdReqBuf\<close> reports
  them as failed but leaves them in the table; hiredis still delivers the replies it was waiting for, and each puts its command into
  the result queue again. When both have been delivered the counter is below zero, so that \<open>redisAsyncExit\<close>, which waits
  for zero, does not return.\<close>

theorem closed_connection_answers_twice:
  "(let s = snd sent_a;
        s1 = the (disConnect False 0 True s);
        s2 = cmdCallback 0 (Some \<lparr>r_type = REDIS_REPLY_STRING, r_integer = 0, r_str = ''v'', r_element = []\<rparr>) 0 s1;
        s3 = cmdReplyCallPool (cmdReplyCallPool s2)
    in asyncCmdNum s = 1 \<and> cmdResults s1 = [3] \<and> cmdResults s2 = [3, 3] \<and> map fst (answered s3) = [3, 3] \<and> sint (asyncCmdNum s3) = - 1)"
  by (simp add: Let_def run_a_defs disConnect_def freeTimeEvent_def clearCmdReqBuf_def fail_order_def)

text \<open>A connection the server has closed cannot be destroyed. The disconnect callback leaves the pointer to the
  context that hiredis then releases, and the destructor of the client object disconnects that context again: the access of the
  destructor is to released memory, whatever the state of the client was.\<close>

theorem destructor_uses_released_context:
  assumes "disconnectCallback ctx i s = Some s'" and "client (clients s i) = Some ctx"
  shows "RedisClient_destroy i s' = None"
proof -
  have "client (clients s' i) = Some ctx \<and> \<not> live s' ctx"
    using assms
    by (auto simp: disconnectCallback_def disConnect_def Let_def on_connect_def ask_def upd_client_def freeTimeEvent_def
        clearCmdReqBuf_clients split: if_splits option.splits bind_splits)
  then show ?thesis
    by (simp add: RedisClient_destroy_def Let_def upd_client_def freeTimeEvent_def clearCmdReqBuf_clients clearCmdReqBuf_live)
qed

theorem destructor_uses_released_context_witness:
  "disconnectCallback 7 0 one_conn \<noteq> None \<and> RedisClient_destroy 0 (the (disconnectCallback 7 0 one_conn)) = None"
proof -
  have "\<exists>s'. disconnectCallback 7 0 one_conn = Some s'"
    by (simp add: disconnectCallback_def disConnect_def one_conn_defs upd_client_def freeTimeEvent_def clearCmdReqBuf_def on_connect_def ask_def)
  then obtain s' where s': "disconnectCallback 7 0 one_conn = Some s'" ..
  have "client (clients one_conn 0) = Some 7" by (simp add: one_conn_defs)
  from destructor_uses_released_context [OF s' this] show ?thesis by (simp add: s')
qed

text \<open>C28: The timer queue. In a second, the timer thread hands over the orders that are due, the earliest first, and
  leaves the rest, provided that the queue is in the order of the due times, which every insertion keeps, together with the
  orders in it: a command gets three seconds from there, a connection order no deadline.\<close>

theorem timer_hands_over_due_orders:
  assumes "xs = fold insertTimerOrder ns []" and "\<forall>x \<in> set ns. cli x \<noteq> None"
  shows "mset xs = mset ns \<and> sorted (map node_outSecond xs) \<and>
    (\<exists>ords'. timer_orders now xs ords =
       Some (map (\<lambda>x. x\<lparr>node_outSecond := if cmdOrd x = None then 0 else now + 3\<rparr>) (filter (\<lambda>x. node_outSecond x \<le> now) xs),
             filter (\<lambda>x. \<not> node_outSecond x \<le> now) xs, ords') \<and>
       (\<forall>p. ords' p = (if p \<in> set (ordered (filter (\<lambda>x. node_outSecond x \<le> now) xs))
                       then (ords p)\<lparr>outSecond := 3, cmdOutSecond := now + 3\<rparr> else ords p)))"
proof -
  have q: "mset xs = mset ns" "sorted (map node_outSecond xs)"
    using insertTimerOrders [of "[]" ns] assms(1) by simp_all
  then have "\<forall>x \<in> set xs. cli x \<noteq> None" using assms(2) mset_eq_setD by blast
  with timer_orders_spec [OF q(2), of now ords] q show ?thesis by simp
qed

theorem timer_hands_over_due_orders_witness:
  "fst (the (timer_orders 100 (fold insertTimerOrder
     [get_a\<lparr>node_outSecond := 101\<rparr>, get_a\<lparr>node_outSecond := 99\<rparr>, get_a\<lparr>node_outSecond := 0, cmdOrd := None\<rparr>] []) (\<lambda>_. OrderNode_new [] None None)))
   = [get_a\<lparr>node_outSecond := 0, cmdOrd := None\<rparr>, get_a\<lparr>node_outSecond := 103\<rparr>]"
  using timer_hands_over_due_orders
    [of _ "[get_a\<lparr>node_outSecond := 101\<rparr>, get_a\<lparr>node_outSecond := 99\<rparr>, get_a\<lparr>node_outSecond := 0, cmdOrd := None\<rparr>]",
      OF refl, of 100 "\<lambda>_. OrderNode_new [] None None"]
  by (auto simp: get_a_def insertTimerOrder_def)

end
