(* ===== verification/RedisTopology.thy ===== *)
theory RedisTopology
  imports RedisCli
begin

text \<open>
  What the asynchronous Redis client knows of the servers behind a handle, \<^verbatim>\<open>src/redisAsyn/v1.0/src\<close>: the records of
  \<^verbatim>\<open>RedisClientMgr.h\<close> and the functions of \<^verbatim>\<open>PartRedisAsync.cpp\<close>, which read the answers to \<open>CLUSTER NODES\<close> and
  \<open>INFO replication\<close>, find a connection by address or by slot, and count the connections.

  A \<open>RedisClientPtr\<close> is the number of an object in the store, or \<^const>\<open>None\<close>. \<open>new\<close> never gives a null pointer, so the
  nodes, slot ranges and master-slave groups that the parsers push are never null and are kept as values. \<open>size_t\<close>
  counters wrap around. \<^const>\<open>None\<close> as the value of a parser is a run that does not return or reads past the end of a
  vector.
\<close>

section \<open>Records\<close>

record SlotsInfo =
  slotStart :: u16
  slotEnd :: u16

record RedisMasterSlave =
  master :: "nat option"
  slave :: "nat option list"

record RedisClusterNode =
  nodeIds :: string
  vectSlotInfo :: "SlotsInfo list"
  clusterNode :: RedisMasterSlave

record RedisClusterInfo =
  clusterSlotMap :: "u16 \<Rightarrow> nat option"
  clusterVectInfo :: "RedisClusterNode list"

record RedisClientMgr =
  svrType :: int
  initState :: int
  initSvrIndex :: nat
  mgr_fd :: nat
  masterConn :: u64
  slaveConn :: u64
  inSvrInfoStr :: string
  auth :: string
  initSvrInfo :: "RedisSvrInfo list"
  nodeCli :: "nat option"
  mSlaveCli :: "RedisMasterSlave option"
  cluterCli :: "RedisClusterInfo option"

definition RedisClientMgr_new :: RedisClientMgr where
  "RedisClientMgr_new =
     \<lparr>svrType = 0, initState = 0, initSvrIndex = 0, mgr_fd = 0, masterConn = 0, slaveConn = 0, inSvrInfoStr = [], auth = [],
      initSvrInfo = [], nodeCli = None, mSlaveCli = None, cluterCli = None\<rparr>"

definition RedisMasterSlave_new :: RedisMasterSlave where
  "RedisMasterSlave_new = \<lparr>master = None, slave = []\<rparr>"

definition RedisClusterInfo_new :: RedisClusterInfo where
  "RedisClusterInfo_new = \<lparr>clusterSlotMap = (\<lambda>_. None), clusterVectInfo = []\<rparr>"

section \<open>Addresses\<close>

definition analysisSvrInfo :: "string \<Rightarrow> RedisSvrInfo option" where
  "analysisSvrInfo svrInfoStr =
     (if svrInfoStr = [] then None
      else case str_find svrInfoStr '':'' 0 of
             None \<Rightarrow> None
           | Some pos \<Rightarrow> Some \<lparr>port = atoi (c_str (drop (pos + 1) svrInfoStr)), ipAddr = take pos svrInfoStr\<rparr>)"

definition svr_eq :: "RedisSvrInfo \<Rightarrow> RedisSvrInfo \<Rightarrow> bool" where
  "svr_eq a b \<longleftrightarrow> port a = port b \<and> ipAddr a = ipAddr b"

definition isSelfSvrInfo :: "RedisSvrInfo option \<Rightarrow> RedisSvrInfo option \<Rightarrow> bool" where
  "isSelfSvrInfo svr tmpInfo = (case (svr, tmpInfo) of (Some a, Some b) \<Rightarrow> svr_eq a b | _ \<Rightarrow> False)"

definition isSelfSvrInfo_addr :: "RedisSvrInfo option \<Rightarrow> string \<Rightarrow> c_int \<Rightarrow> bool" where
  "isSelfSvrInfo_addr svr ip p = (case svr of None \<Rightarrow> False | Some a \<Rightarrow> ipAddr a = ip \<and> port a = p)"

definition isSelfSvrInfo_cli_addr :: "(nat \<Rightarrow> RedisClient) \<Rightarrow> nat option \<Rightarrow> string \<Rightarrow> c_int \<Rightarrow> bool" where
  "isSelfSvrInfo_cli_addr st redisCli ip p =
     (case redisCli of None \<Rightarrow> False | Some c \<Rightarrow> isSelfSvrInfo_addr (svrInfo (st c)) ip p)"

definition isSelfSvrInfo_cli :: "(nat \<Rightarrow> RedisClient) \<Rightarrow> nat option \<Rightarrow> RedisSvrInfo option \<Rightarrow> bool" where
  "isSelfSvrInfo_cli st redisCli tmpInfo =
     (case redisCli of None \<Rightarrow> False | Some c \<Rightarrow> isSelfSvrInfo (svrInfo (st c)) tmpInfo)"

definition conned :: "(nat \<Rightarrow> RedisClient) \<Rightarrow> nat option \<Rightarrow> bool" where
  "conned st c = (case c of None \<Rightarrow> False | Some c \<Rightarrow> state (st c) = REDIS_CLIENT_STATE_CONN)"

section \<open>Looking connections up\<close>

fun getRedisClient_vec :: "(nat \<Rightarrow> RedisClient) \<Rightarrow> nat option list \<Rightarrow> string \<Rightarrow> c_int \<Rightarrow> nat option" where
  "getRedisClient_vec st [] ip p = None"
| "getRedisClient_vec st (c # slaveInfo) ip p =
     (if isSelfSvrInfo_cli_addr st c ip p then c else getRedisClient_vec st slaveInfo ip p)"

definition getRedisClient_ms :: "(nat \<Rightarrow> RedisClient) \<Rightarrow> RedisMasterSlave option \<Rightarrow> string \<Rightarrow> c_int \<Rightarrow> nat option" where
  "getRedisClient_ms st mSlaveInfo ip p =
     (case mSlaveInfo of
        None \<Rightarrow> None
      | Some ms \<Rightarrow> if isSelfSvrInfo_cli_addr st (master ms) ip p then master ms else getRedisClient_vec st (slave ms) ip p)"

definition getRedisClient_node :: "(nat \<Rightarrow> RedisClient) \<Rightarrow> RedisClusterNode \<Rightarrow> string \<Rightarrow> c_int \<Rightarrow> nat option" where
  "getRedisClient_node st n ip p = getRedisClient_ms st (Some (clusterNode n)) ip p"

fun getRedisClient_nodes :: "(nat \<Rightarrow> RedisClient) \<Rightarrow> RedisClusterNode list \<Rightarrow> string \<Rightarrow> c_int \<Rightarrow> nat option" where
  "getRedisClient_nodes st [] ip p = None"
| "getRedisClient_nodes st (n # ns) ip p =
     (case getRedisClient_node st n ip p of Some c \<Rightarrow> Some c | None \<Rightarrow> getRedisClient_nodes st ns ip p)"

definition getRedisClient_cluster :: "(nat \<Rightarrow> RedisClient) \<Rightarrow> RedisClusterInfo option \<Rightarrow> string \<Rightarrow> c_int \<Rightarrow> nat option" where
  "getRedisClient_cluster st clusterInfo ip p =
     (case clusterInfo of None \<Rightarrow> None | Some ci \<Rightarrow> getRedisClient_nodes st (clusterVectInfo ci) ip p)"

text \<open>By slot: a connected slave of the node that has the slot.\<close>

fun slot_found :: "u16 \<Rightarrow> SlotsInfo list \<Rightarrow> bool" where
  "slot_found s [] = False"
| "slot_found s (r # rs) = (if s \<ge> slotStart r \<and> s \<le> slotEnd r then True else slot_found s rs)"

fun connected_slave :: "(nat \<Rightarrow> RedisClient) \<Rightarrow> nat option list \<Rightarrow> nat option" where
  "connected_slave st [] = None"
| "connected_slave st (c # cs) = (if conned st c then c else connected_slave st cs)"

fun slot_nodes :: "(nat \<Rightarrow> RedisClient) \<Rightarrow> bool \<Rightarrow> RedisClusterNode list \<Rightarrow> u16 \<Rightarrow> nat option" where
  "slot_nodes st slaveFound [] s = None"
| "slot_nodes st slaveFound (n # ns) s =
     (let slaveFound = (if slot_found s (vectSlotInfo n) then True else slaveFound)
      in if slaveFound then connected_slave st (slave (clusterNode n)) else slot_nodes st slaveFound ns s)"

definition getRedisClient_slot :: "(nat \<Rightarrow> RedisClient) \<Rightarrow> RedisClientMgr \<Rightarrow> u16 \<Rightarrow> nat option" where
  "getRedisClient_slot st mgr s =
     (case cluterCli mgr of None \<Rightarrow> None | Some ci \<Rightarrow> slot_nodes st False (clusterVectInfo ci) s)"

section \<open>Reading the answer to CLUSTER NODES\<close>

text \<open>
  The objects made so far and the number of the next one, the counter that spreads connections over the I/O threads, and
  what a parser has gathered: the new connections and the two counts. The options of the client are its parameters.
\<close>

record cli_store =
  cells :: "nat \<Rightarrow> RedisClient"
  next_cell :: nat
  initIoIndex :: u32

record parse_state =
  ps_store :: cli_store
  addRedisCli :: "nat list"
  ps_masterConn :: u64
  ps_slaveConn :: u64

record conn_opts =
  ioThreadNum :: nat
  keepSecond :: c_int
  connOutSec :: c_int

definition new_client :: "conn_opts \<Rightarrow> nat \<Rightarrow> RedisSvrInfo \<Rightarrow> cli_store \<Rightarrow> nat \<times> cli_store" where
  "new_client opts fd svr st =
     (let idx = initIoIndex st + 1; c = next_cell st
      in (c, st\<lparr>cells := (cells st)(c := RedisClient_new (unat idx mod ioThreadNum opts) fd (Some svr) (keepSecond opts) (connOutSec opts)),
               next_cell := c + 1, initIoIndex := idx\<rparr>))"

abbreviation ANALYSIS_STRING_FORMATE_ERROR :: int where "ANALYSIS_STRING_FORMATE_ERROR \<equiv> - 1"

text \<open>The connection the manager has for an address, and a new one otherwise, which is to be connected.\<close>

definition known_client :: "RedisClientMgr \<Rightarrow> (nat \<Rightarrow> RedisClient) \<Rightarrow> RedisSvrInfo \<Rightarrow> nat option" where
  "known_client mgr st info =
     (case cluterCli mgr of
        Some ci \<Rightarrow> getRedisClient_cluster st (Some ci) (ipAddr info) (port info)
      | None \<Rightarrow>
          (case nodeCli mgr of
             None \<Rightarrow> None
           | Some c \<Rightarrow> if isSelfSvrInfo_cli st (Some c) (Some info) then Some c else None))"

definition add_client :: "conn_opts \<Rightarrow> nat \<Rightarrow> RedisSvrInfo \<Rightarrow> parse_state \<Rightarrow> nat \<times> parse_state" where
  "add_client opts fd info ps =
     (let (c, st) = new_client opts fd info (ps_store ps)
      in (c, ps\<lparr>ps_store := st, addRedisCli := addRedisCli ps @ [c]\<rparr>))"

definition client_for :: "conn_opts \<Rightarrow> RedisClientMgr \<Rightarrow> RedisSvrInfo \<Rightarrow> parse_state \<Rightarrow> nat \<times> parse_state" where
  "client_for opts mgr info ps =
     (case known_client mgr (cells (ps_store ps)) info of
        Some c \<Rightarrow> (c, ps)
      | None \<Rightarrow> add_client opts (mgr_fd mgr) info ps)"

definition count_master :: "nat \<Rightarrow> parse_state \<Rightarrow> parse_state" where
  "count_master c ps = (if conned (cells (ps_store ps)) (Some c) then ps\<lparr>ps_masterConn := ps_masterConn ps + 1\<rparr> else ps)"

definition count_slave :: "nat \<Rightarrow> parse_state \<Rightarrow> parse_state" where
  "count_slave c ps = (if conned (cells (ps_store ps)) (Some c) then ps\<lparr>ps_slaveConn := ps_slaveConn ps + 1\<rparr> else ps)"

definition parse_slot :: "string \<Rightarrow> SlotsInfo" where
  "parse_slot w =
     (case str_find w ''-'' 0 of
        None \<Rightarrow> \<lparr>slotStart = ucast (atoi (c_str w)), slotEnd = ucast (atoi (c_str w))\<rparr>
      | Some pos \<Rightarrow> \<lparr>slotStart = ucast (atoi (c_str (take pos w))), slotEnd = ucast (atoi (c_str (drop (pos + 1) w)))\<rparr>)"

text \<open>The loop over the slots of a range; its variable has 16 bits.\<close>

partial_function (option) slot_loop :: "u16 \<Rightarrow> u16 \<Rightarrow> nat \<Rightarrow> (u16 \<Rightarrow> nat option) \<Rightarrow> (u16 \<Rightarrow> nat option) option" where
  "slot_loop jj e c m =
     (if jj \<le> e then slot_loop (jj + 1) e c (case m jj of None \<Rightarrow> m(jj := Some c) | Some _ \<Rightarrow> m) else Some m)"

fun slot_ranges :: "SlotsInfo list \<Rightarrow> nat \<Rightarrow> (u16 \<Rightarrow> nat option) \<Rightarrow> (u16 \<Rightarrow> nat option) option" where
  "slot_ranges [] c m = Some m"
| "slot_ranges (r # rs) c m = (case slot_loop (slotStart r) (slotEnd r) c m of None \<Rightarrow> None | Some m \<Rightarrow> slot_ranges rs c m)"

text \<open>The loop over all lines for the slaves of one master; \<^const>\<open>None\<close> is the return with the format error.\<close>

fun slave_lines ::
  "conn_opts \<Rightarrow> RedisClientMgr \<Rightarrow> string \<Rightarrow> string list \<Rightarrow> parse_state \<Rightarrow> nat option list option \<times> parse_state" where
  "slave_lines opts mgr master_id [] ps = (Some [], ps)"
| "slave_lines opts mgr master_id (l # ls) ps =
     (let tmp = split l '' '' []
      in if length tmp < 8 then (None, ps)
         else if master_id = tmp ! 3 then
           (case analysisSvrInfo (tmp ! 1) of
              None \<Rightarrow> (None, ps)
            | Some info \<Rightarrow>
                (let (c, ps) = client_for opts mgr info ps;
                     ps = count_slave c ps;
                     (r, ps) = slave_lines opts mgr master_id ls ps
                 in (map_option ((#) (Some c)) r, ps)))
         else slave_lines opts mgr master_id ls ps)"

definition is_master_flags :: "string \<Rightarrow> bool" where
  "is_master_flags w \<longleftrightarrow> find_sub (c_str w) ''master'' \<noteq> None"

text \<open>One line that describes a master: the cluster information with its node, or \<^const>\<open>None\<close> for the format error.\<close>

definition master_line ::
  "conn_opts \<Rightarrow> RedisClientMgr \<Rightarrow> string list \<Rightarrow> string list \<Rightarrow> RedisClusterInfo option \<Rightarrow> parse_state \<Rightarrow>
   (RedisClusterInfo option \<times> parse_state) option" where
  "master_line opts mgr vLines nodeInfo tmpClusterInfo ps =
     (if length nodeInfo < 9 then Some (None, ps)
      else case analysisSvrInfo (nodeInfo ! 1) of
             None \<Rightarrow> Some (None, ps)
           | Some info \<Rightarrow>
               (let (c, ps) = client_for opts mgr info ps;
                    ps = count_master c ps;
                    ranges = map parse_slot (drop 8 nodeInfo);
                    ci = (case tmpClusterInfo of None \<Rightarrow> RedisClusterInfo_new | Some ci \<Rightarrow> ci)
                in case slot_ranges ranges c (clusterSlotMap ci) of
                     None \<Rightarrow> None
                   | Some m \<Rightarrow>
                       (let (slaves, ps) = slave_lines opts mgr (nodeInfo ! 0) vLines ps
                        in case slaves of
                             None \<Rightarrow> Some (None, ps)
                           | Some slaves \<Rightarrow>
                               Some (Some (ci\<lparr>clusterSlotMap := m, clusterVectInfo := clusterVectInfo ci @
                                 [\<lparr>nodeIds = nodeInfo ! 0, vectSlotInfo = ranges, clusterNode = \<lparr>master = Some c, slave = slaves\<rparr>\<rparr>]\<rparr>),
                                 ps))))"

text \<open>The loop over the lines: the cluster information, or \<^const>\<open>None\<close> for the format error.\<close>

fun cluster_lines ::
  "conn_opts \<Rightarrow> RedisClientMgr \<Rightarrow> string list \<Rightarrow> string list \<Rightarrow> RedisClusterInfo option \<Rightarrow> parse_state \<Rightarrow>
   (RedisClusterInfo option option \<times> parse_state) option" where
  "cluster_lines opts mgr vLines [] tmpClusterInfo ps = Some (Some tmpClusterInfo, ps)"
| "cluster_lines opts mgr vLines (l # ls) tmpClusterInfo ps =
     (let nodeInfo = split l '' '' []
      in if length nodeInfo < 8 then Some (None, ps)
         else if is_master_flags (nodeInfo ! 2) then
           (case master_line opts mgr vLines nodeInfo tmpClusterInfo ps of
              None \<Rightarrow> None
            | Some (None, ps) \<Rightarrow> Some (None, ps)
            | Some (Some ci, ps) \<Rightarrow> cluster_lines opts mgr vLines ls (Some ci) ps)
         else cluster_lines opts mgr vLines ls tmpClusterInfo ps)"

definition analysisClusterNodes ::
  "conn_opts \<Rightarrow> string \<Rightarrow> RedisClientMgr \<Rightarrow> cli_store \<Rightarrow> (int \<times> nat list \<times> RedisClientMgr \<times> cli_store) option" where
  "analysisClusterNodes opts clusterNodes mgr st =
     (if clusterNodes = [] then Some (ANALYSIS_STRING_FORMATE_ERROR, [], mgr, st)
      else
        (let vLines = split clusterNodes [LF] []
         in case cluster_lines opts mgr vLines vLines None
                   \<lparr>ps_store = st, addRedisCli = [], ps_masterConn = 0, ps_slaveConn = 0\<rparr> of
              None \<Rightarrow> None
            | Some (None, ps) \<Rightarrow> Some (ANALYSIS_STRING_FORMATE_ERROR, addRedisCli ps, mgr, ps_store ps)
            | Some (Some ci, ps) \<Rightarrow>
                Some (0, addRedisCli ps,
                  mgr\<lparr>cluterCli := ci, masterConn := ps_masterConn ps, slaveConn := ps_slaveConn ps\<rparr>, ps_store ps)))"

section \<open>Reading the answer to INFO replication\<close>

text \<open>An element of a vector; \<^const>\<open>None\<close> is the read past its end.\<close>

definition vec_at :: "'a list \<Rightarrow> nat \<Rightarrow> 'a option" where
  "vec_at xs i = (if i < length xs then Some (xs ! i) else None)"

text \<open>\<open>substr(beginPos + 1, endPos - beginPos - 1)\<close>; the length wraps around when the end is before the beginning.\<close>

definition sub_between :: "string \<Rightarrow> nat \<Rightarrow> nat \<Rightarrow> string" where
  "sub_between l b e = (if e < b then drop (b + 1) l else take (e - b - 1) (drop (b + 1) l))"

text \<open>The address in a line \<open>slave0:ip=...,port=...,state=...\<close>.\<close>

definition slave_addr :: "string \<Rightarrow> (string \<times> c_int) option" where
  "slave_addr l =
     (case str_find l ''='' 0 of None \<Rightarrow> None | Some beginPos \<Rightarrow>
      case str_find l '','' 0 of None \<Rightarrow> None | Some endPos \<Rightarrow>
      (let ip = sub_between l beginPos endPos in
       case str_find l ''='' endPos of None \<Rightarrow> None | Some beginPos \<Rightarrow>
       case str_find l '','' beginPos of None \<Rightarrow> None | Some endPos \<Rightarrow>
         Some (ip, atoi (c_str (sub_between l beginPos endPos)))))"

definition ms_client :: "conn_opts \<Rightarrow> RedisClientMgr \<Rightarrow> string \<Rightarrow> c_int \<Rightarrow> parse_state \<Rightarrow> nat \<times> parse_state" where
  "ms_client opts mgr ip p ps =
     (case getRedisClient_ms (cells (ps_store ps)) (mSlaveCli mgr) ip p of
        Some c \<Rightarrow> (c, ps)
      | None \<Rightarrow> add_client opts (mgr_fd mgr) \<lparr>port = p, ipAddr = ip\<rparr> ps)"

text \<open>The loop over the slaves, from a line on; the inner \<^const>\<open>None\<close> is the format error.\<close>

fun replica_lines ::
  "conn_opts \<Rightarrow> RedisClientMgr \<Rightarrow> string list \<Rightarrow> nat \<Rightarrow> nat \<Rightarrow> parse_state \<Rightarrow> (nat option list option \<times> parse_state) option" where
  "replica_lines opts mgr vLines 0 index ps = Some (Some [], ps)"
| "replica_lines opts mgr vLines (Suc n) index ps =
     (case vec_at vLines index of
        None \<Rightarrow> None
      | Some l \<Rightarrow>
          (case slave_addr l of
             None \<Rightarrow> Some (None, ps)
           | Some (ip, p) \<Rightarrow>
               (let (c, ps) = ms_client opts mgr ip p ps;
                    ps = count_slave c ps
                in case replica_lines opts mgr vLines n (index + 1) ps of
                     None \<Rightarrow> None
                   | Some (r, ps) \<Rightarrow> Some (map_option ((#) (Some c)) r, ps))))"

definition analysisSlaveNodes ::
  "conn_opts \<Rightarrow> string \<Rightarrow> RedisClientMgr \<Rightarrow> cli_store \<Rightarrow> (int \<times> nat list \<times> RedisClientMgr \<times> cli_store) option" where
  "analysisSlaveNodes opts clusterNodes mgr st =
     (if clusterNodes = [] then Some (ANALYSIS_STRING_FORMATE_ERROR, [], mgr, st)
      else
        (let vLines = split clusterNodes [LF] [];
             ps = \<lparr>ps_store = st, addRedisCli = [], ps_masterConn = 0, ps_slaveConn = 0\<rparr>
         in do {
              l1 \<leftarrow> vec_at vLines 1;
              node \<leftarrow> nodeCli mgr;
              if str_find l1 ''role:master'' 0 \<noteq> None then
                do {
                  let ps = count_master node ps;
                  l2 \<leftarrow> vec_at vLines 2;
                  case str_find l2 '':'' 0 of
                    None \<Rightarrow> Some (ANALYSIS_STRING_FORMATE_ERROR, addRedisCli ps, mgr, ps_store ps)
                  | Some pos \<Rightarrow>
                      (case replica_lines opts mgr vLines (nat (sint (atoi (c_str (drop (pos + 1) l2))))) 3 ps of
                         None \<Rightarrow> None
                       | Some (None, ps) \<Rightarrow> Some (ANALYSIS_STRING_FORMATE_ERROR, addRedisCli ps, mgr, ps_store ps)
                       | Some (Some slaves, ps) \<Rightarrow>
                           Some (0, addRedisCli ps,
                             mgr\<lparr>mSlaveCli := Some \<lparr>master = Some node, slave = slaves\<rparr>, masterConn := ps_masterConn ps,
                               slaveConn := ps_slaveConn ps\<rparr>, ps_store ps))
                }
              else
                do {
                  let ps = count_slave node ps;
                  l2 \<leftarrow> vec_at vLines 2;
                  case str_find l2 '':'' 0 of
                    None \<Rightarrow> Some (ANALYSIS_STRING_FORMATE_ERROR, addRedisCli ps, mgr, ps_store ps)
                  | Some pos \<Rightarrow>
                      do {
                        l3 \<leftarrow> vec_at vLines 3;
                        case str_find l3 '':'' 0 of
                          None \<Rightarrow> Some (ANALYSIS_STRING_FORMATE_ERROR, addRedisCli ps, mgr, ps_store ps)
                        | Some pos3 \<Rightarrow>
                            (let (c, ps) = ms_client opts mgr (drop (pos + 1) l2) (atoi (c_str (drop (pos3 + 1) l3))) ps;
                                 on = conned (cells (ps_store ps)) (Some c);
                                 ps = count_master c ps;
                                 mgr = (if on then mgr\<lparr>nodeCli := Some c\<rparr> else mgr)
                             in Some (1, addRedisCli ps,
                                  mgr\<lparr>mSlaveCli := Some \<lparr>master = Some c, slave = [Some node]\<rparr>, masterConn := ps_masterConn ps,
                                    slaveConn := ps_slaveConn ps\<rparr>, ps_store ps))
                      }
                }
            }))"

section \<open>Counting connections\<close>

abbreviation NO_IN_CLUSTER_ADDRINFO :: int where "NO_IN_CLUSTER_ADDRINFO \<equiv> 0"
abbreviation MASTER_CLUSTER_ADDRINFO :: int where "MASTER_CLUSTER_ADDRINFO \<equiv> 1"
abbreviation SALVE_CLUSTER_ADDRINFO :: int where "SALVE_CLUSTER_ADDRINFO \<equiv> 2"

definition bump :: "bool \<Rightarrow> bool \<Rightarrow> u64 \<Rightarrow> u64" where
  "bump onConned onCount n = (if onCount then if onConned then n + 1 else n - 1 else n)"

text \<open>Where an address is in a group: its master, one of its slaves, or not at all.\<close>

fun among :: "(nat \<Rightarrow> RedisClient) \<Rightarrow> nat option list \<Rightarrow> string \<Rightarrow> c_int \<Rightarrow> bool" where
  "among st [] ip p = False"
| "among st (c # cs) ip p = (if isSelfSvrInfo_cli_addr st c ip p then True else among st cs ip p)"

definition group_role :: "(nat \<Rightarrow> RedisClient) \<Rightarrow> RedisMasterSlave \<Rightarrow> string \<Rightarrow> c_int \<Rightarrow> int" where
  "group_role st ms ip p =
     (if isSelfSvrInfo_cli_addr st (master ms) ip p then MASTER_CLUSTER_ADDRINFO
      else if among st (slave ms) ip p then SALVE_CLUSTER_ADDRINFO else NO_IN_CLUSTER_ADDRINFO)"

definition count_role :: "bool \<Rightarrow> bool \<Rightarrow> int \<Rightarrow> RedisClientMgr \<Rightarrow> RedisClientMgr" where
  "count_role onConned onCount r mgr =
     (if r = MASTER_CLUSTER_ADDRINFO then mgr\<lparr>masterConn := bump onConned onCount (masterConn mgr)\<rparr>
      else if r = SALVE_CLUSTER_ADDRINFO then mgr\<lparr>slaveConn := bump onConned onCount (slaveConn mgr)\<rparr> else mgr)"

fun cluster_role :: "(nat \<Rightarrow> RedisClient) \<Rightarrow> RedisClusterNode list \<Rightarrow> string \<Rightarrow> c_int \<Rightarrow> int" where
  "cluster_role st [] ip p = NO_IN_CLUSTER_ADDRINFO"
| "cluster_role st (n # ns) ip p =
     (let r = group_role st (clusterNode n) ip p in if r \<noteq> NO_IN_CLUSTER_ADDRINFO then r else cluster_role st ns ip p)"

definition clusterRedisConnsUpdate ::
  "(nat \<Rightarrow> RedisClient) \<Rightarrow> string \<Rightarrow> c_int \<Rightarrow> bool \<Rightarrow> bool \<Rightarrow> RedisClientMgr \<Rightarrow> int \<times> RedisClientMgr" where
  "clusterRedisConnsUpdate st ip p onConned onCount mgr =
     (case cluterCli mgr of
        None \<Rightarrow> (NO_IN_CLUSTER_ADDRINFO, mgr)
      | Some ci \<Rightarrow> (let r = cluster_role st (clusterVectInfo ci) ip p in (r, count_role onConned onCount r mgr)))"

definition infoReplicConnsUpdate ::
  "(nat \<Rightarrow> RedisClient) \<Rightarrow> string \<Rightarrow> c_int \<Rightarrow> bool \<Rightarrow> bool \<Rightarrow> RedisClientMgr \<Rightarrow> int \<times> RedisClientMgr" where
  "infoReplicConnsUpdate st ip p onConned onCount mgr =
     (case mSlaveCli mgr of
        None \<Rightarrow> (NO_IN_CLUSTER_ADDRINFO, mgr)
      | Some ms \<Rightarrow> (let r = group_role st ms ip p in (r, count_role onConned onCount r mgr)))"

section \<open>The loop over the slots\<close>

lemma slot_loop_result:
  "e \<noteq> 0xFFFF \<Longrightarrow> slot_loop jj e c m = Some (\<lambda>s. if jj \<le> s \<and> s \<le> e \<and> m s = None then Some c else m s)"
proof (induction "unat e + 1 - unat jj" arbitrary: jj m rule: less_induct)
  case less
  show ?case
  proof (cases "jj \<le> e")
    case True
    define m1 where "m1 = (case m jj of None \<Rightarrow> m(jj := Some c) | Some _ \<Rightarrow> m)"
    have "unat e \<noteq> 0xFFFF" using less.prems by (simp add: word_unat_eq_iff)
    moreover have "unat e < 2 ^ 16" using unsigned_less [of e, where ?'a = nat] by simp
    ultimately have lt: "unat jj + 1 < 2 ^ 16" using True by (simp add: word_le_nat_alt)
    then have u: "unat (jj + 1) = unat jj + 1" by (simp add: unat_word_ariths)
    have next_le: "jj + 1 \<le> s \<longleftrightarrow> jj \<le> s \<and> s \<noteq> jj" for s
      using u by (auto simp: word_le_nat_alt word_unat_eq_iff)
    have "slot_loop (jj + 1) e c m1 = Some (\<lambda>s. if jj + 1 \<le> s \<and> s \<le> e \<and> m1 s = None then Some c else m1 s)"
      using less.hyps [of "jj + 1" m1] less.prems True u by (simp add: word_le_nat_alt)
    moreover have "(\<lambda>s. if jj + 1 \<le> s \<and> s \<le> e \<and> m1 s = None then Some c else m1 s) =
        (\<lambda>s. if jj \<le> s \<and> s \<le> e \<and> m s = None then Some c else m s)"
      using True by (auto simp: fun_eq_iff next_le m1_def split: option.split)
    ultimately show ?thesis using True by (subst slot_loop.simps) (simp flip: m1_def)
  next
    case False
    then have "\<forall>s. jj \<le> s \<longrightarrow> \<not> s \<le> e" by auto
    with False show ?thesis by (subst slot_loop.simps) (auto simp: fun_eq_iff)
  qed
qed

lemma slot_loop_returns: "slot_loop jj e c m = Some m' \<Longrightarrow> e \<noteq> 0xFFFF"
proof (rule slot_loop.raw_induct [of "\<lambda>jj e c m m'. e \<noteq> 0xFFFF"])
  fix f :: "u16 \<Rightarrow> u16 \<Rightarrow> nat \<Rightarrow> (u16 \<Rightarrow> nat option) \<Rightarrow> (u16 \<Rightarrow> nat option) option" and jj e c m m'
  assume IH: "\<And>jj e c m m'. f jj e c m = Some m' \<Longrightarrow> e \<noteq> 0xFFFF"
    and body: "(if jj \<le> e then f (jj + 1) e c (case m jj of None \<Rightarrow> m(jj := Some c) | Some _ \<Rightarrow> m) else Some m) = Some m'"
  have "unat jj \<le> 0xFFFF" using unsigned_less [of jj, where ?'a = nat] by simp
  then have "jj \<le> 0xFFFF" by (simp add: word_le_nat_alt)
  with IH body show "e \<noteq> 0xFFFF" by (auto split: if_splits)
qed

lemma slot_loop_iff:
  "slot_loop jj e c m = (if e = 0xFFFF then None else Some (\<lambda>s. if jj \<le> s \<and> s \<le> e \<and> m s = None then Some c else m s))"
  using slot_loop_result [of e jj c m] slot_loop_returns [of jj e c m] by (cases "slot_loop jj e c m") auto

lemma slot_ranges_result:
  "slot_ranges rs c m =
     (if \<exists>r \<in> set rs. slotEnd r = 0xFFFF then None else Some (\<lambda>s. if slot_found s rs \<and> m s = None then Some c else m s))"
proof (induction rs arbitrary: m)
  case (Cons r rs)
  show ?case unfolding slot_ranges.simps slot_loop_iff by (auto simp: Cons.IH fun_eq_iff)
qed (simp add: fun_eq_iff)

section \<open>What the parsers make of the store\<close>

text \<open>Objects not yet made have no address and are not connected.\<close>

definition fresh_ok :: "cli_store \<Rightarrow> bool" where
  "fresh_ok st \<longleftrightarrow> (\<forall>c \<ge> next_cell st. svrInfo (cells st c) = None \<and> state (cells st c) \<noteq> REDIS_CLIENT_STATE_CONN)"

text \<open>A store that has only grown by connections that are not up.\<close>

definition grows :: "cli_store \<Rightarrow> cli_store \<Rightarrow> bool" where
  "grows st st' \<longleftrightarrow> next_cell st \<le> next_cell st' \<and> (\<forall>c < next_cell st. cells st' c = cells st c) \<and>
     conned (cells st') = conned (cells st)"

lemma grows_refl [simp]: "grows st st" by (simp add: grows_def)

lemma grows_trans: "grows s t \<Longrightarrow> grows t u \<Longrightarrow> grows s u"
  by (auto simp: grows_def)

lemma grows_svrInfo:
  "grows st st' \<Longrightarrow> fresh_ok st \<Longrightarrow> svrInfo (cells st c) = Some a \<Longrightarrow> svrInfo (cells st' c) = Some a"
  by (cases "c < next_cell st") (auto simp: grows_def fresh_ok_def)

lemma new_client_grows:
  assumes "new_client opts fd a st = (c, st')" and "fresh_ok st"
  shows "grows st st' \<and> fresh_ok st' \<and> svrInfo (cells st' c) = Some a"
proof -
  have "conned (cells st') x = conned (cells st) x" for x
    using assms by (auto simp: new_client_def fresh_ok_def RedisClient_new_def Let_def conned_def split: option.split if_splits)
  then show ?thesis using assms by (auto simp: new_client_def grows_def fresh_ok_def RedisClient_new_def Let_def)
qed

lemma getRedisClient_vec_addr: "getRedisClient_vec st cs ip p = Some c \<Longrightarrow> svrInfo (st c) = Some \<lparr>port = p, ipAddr = ip\<rparr>"
  by (induction cs) (auto simp: isSelfSvrInfo_cli_addr_def isSelfSvrInfo_addr_def split: if_splits option.splits)

lemma getRedisClient_ms_addr: "getRedisClient_ms st ms ip p = Some c \<Longrightarrow> svrInfo (st c) = Some \<lparr>port = p, ipAddr = ip\<rparr>"
  by (auto simp: getRedisClient_ms_def isSelfSvrInfo_cli_addr_def isSelfSvrInfo_addr_def
      split: if_splits option.splits dest: getRedisClient_vec_addr)

lemma getRedisClient_cluster_addr:
  "getRedisClient_cluster st ci ip p = Some c \<Longrightarrow> svrInfo (st c) = Some \<lparr>port = p, ipAddr = ip\<rparr>"
proof -
  have "getRedisClient_nodes st ns ip p = Some c \<Longrightarrow> svrInfo (st c) = Some \<lparr>port = p, ipAddr = ip\<rparr>" for ns
    by (induction ns) (auto simp: getRedisClient_node_def split: option.splits dest: getRedisClient_ms_addr)
  then show "getRedisClient_cluster st ci ip p = Some c \<Longrightarrow> svrInfo (st c) = Some \<lparr>port = p, ipAddr = ip\<rparr>"
    by (auto simp: getRedisClient_cluster_def split: option.splits)
qed

lemma known_client_addr: "known_client mgr st a = Some c \<Longrightarrow> svrInfo (st c) = Some a"
  by (auto simp: known_client_def isSelfSvrInfo_cli_def isSelfSvrInfo_def svr_eq_def
      split: option.splits if_splits dest!: getRedisClient_cluster_addr)

text \<open>What a step of a parser keeps, and what it counts.\<close>

definition ps_grows :: "parse_state \<Rightarrow> parse_state \<Rightarrow> bool" where
  "ps_grows ps ps' \<longleftrightarrow> grows (ps_store ps) (ps_store ps') \<and> fresh_ok (ps_store ps')"

lemma ps_grows_trans: "ps_grows p q \<Longrightarrow> ps_grows q r \<Longrightarrow> ps_grows p r"
  by (auto simp: ps_grows_def intro: grows_trans)

lemma client_for_grows:
  assumes "client_for opts mgr a ps = (c, ps')" and "fresh_ok (ps_store ps)"
  shows "ps_grows ps ps' \<and> svrInfo (cells (ps_store ps') c) = Some a \<and> ps_masterConn ps' = ps_masterConn ps \<and>
    ps_slaveConn ps' = ps_slaveConn ps"
proof (cases "known_client mgr (cells (ps_store ps)) a")
  case None
  then show ?thesis using assms new_client_grows [of opts "mgr_fd mgr" a "ps_store ps"]
    by (auto simp: client_for_def add_client_def ps_grows_def split: prod.splits)
next
  case (Some d)
  then show ?thesis using assms known_client_addr [OF Some] by (auto simp: client_for_def ps_grows_def)
qed

section \<open>What a text says\<close>

text \<open>
  Reference: the words of the lines, without a store. A line is in order when it has eight words, and a line for a master
  nine, an address, and slaves with addresses.
\<close>

definition line_words :: "string \<Rightarrow> string list" where
  "line_words l = split l '' '' []"

definition slaves_wf :: "string \<Rightarrow> string list \<Rightarrow> bool" where
  "slaves_wf i ls \<longleftrightarrow> (\<forall>w \<in> line_words ` set ls. 8 \<le> length w \<and> (i = w ! 3 \<longrightarrow> analysisSvrInfo (w ! 1) \<noteq> None))"

definition line_wf :: "string list \<Rightarrow> string list \<Rightarrow> bool" where
  "line_wf vs w \<longleftrightarrow> 8 \<le> length w \<and>
     (is_master_flags (w ! 2) \<longrightarrow> 9 \<le> length w \<and> analysisSvrInfo (w ! 1) \<noteq> None \<and> slaves_wf (w ! 0) vs)"

definition slots_end :: "string list \<Rightarrow> bool" where
  "slots_end w \<longleftrightarrow> is_master_flags (w ! 2) \<longrightarrow> (\<forall>x \<in> set (drop 8 w). slotEnd (parse_slot x) \<noteq> 0xFFFF)"

definition slave_addrs :: "string \<Rightarrow> string list \<Rightarrow> RedisSvrInfo option list" where
  "slave_addrs i ls = map (\<lambda>w. analysisSvrInfo (w ! 1)) (filter (\<lambda>w. i = w ! 3) (map line_words ls))"

text \<open>What a line says of a master, and what the parsed node says: the id, the slots, the addresses.\<close>

definition line_view ::
  "string list \<Rightarrow> string list \<Rightarrow> string \<times> SlotsInfo list \<times> RedisSvrInfo option \<times> RedisSvrInfo option list" where
  "line_view vs w = (w ! 0, map parse_slot (drop 8 w), analysisSvrInfo (w ! 1), slave_addrs (w ! 0) vs)"

definition addr_of :: "(nat \<Rightarrow> RedisClient) \<Rightarrow> nat option \<Rightarrow> RedisSvrInfo option" where
  "addr_of st c = (case c of None \<Rightarrow> None | Some c \<Rightarrow> svrInfo (st c))"

definition node_view ::
  "(nat \<Rightarrow> RedisClient) \<Rightarrow> RedisClusterNode \<Rightarrow> string \<times> SlotsInfo list \<times> RedisSvrInfo option \<times> RedisSvrInfo option list" where
  "node_view st n = (nodeIds n, vectSlotInfo n, addr_of st (master (clusterNode n)), map (addr_of st) (slave (clusterNode n)))"

text \<open>The connection a slot belongs to: the master of the first node with a range that has it.\<close>

fun slot_owner :: "RedisClusterNode list \<Rightarrow> u16 \<Rightarrow> nat option" where
  "slot_owner [] s = None"
| "slot_owner (n # ns) s = (if slot_found s (vectSlotInfo n) then master (clusterNode n) else slot_owner ns s)"

definition masters_up :: "(nat option \<Rightarrow> bool) \<Rightarrow> RedisClusterNode list \<Rightarrow> nat" where
  "masters_up up ns = length (filter (\<lambda>n. up (master (clusterNode n))) ns)"

definition slaves_up :: "(nat option \<Rightarrow> bool) \<Rightarrow> RedisClusterNode list \<Rightarrow> nat" where
  "slaves_up up ns = sum_list (map (\<lambda>n. length (filter up (slave (clusterNode n)))) ns)"

lemma slot_owner_append:
  "(\<forall>n \<in> set ns. master (clusterNode n) \<noteq> None) \<Longrightarrow>
   slot_owner (ns @ [n]) s = (if slot_found s (vectSlotInfo n) \<and> slot_owner ns s = None then master (clusterNode n) else slot_owner ns s)"
  by (induction ns) auto

lemma count_slave_grows:
  assumes "fresh_ok (ps_store ps)"
  shows "ps_grows ps (count_slave c ps) \<and> ps_store (count_slave c ps) = ps_store ps \<and> ps_masterConn (count_slave c ps) = ps_masterConn ps \<and>
    ps_slaveConn (count_slave c ps) = ps_slaveConn ps + of_nat (length (filter (conned (cells (ps_store ps))) [Some c]))"
  using assms by (simp add: count_slave_def ps_grows_def)

lemma count_master_grows:
  assumes "fresh_ok (ps_store ps)"
  shows "ps_grows ps (count_master c ps) \<and> ps_store (count_master c ps) = ps_store ps \<and> ps_slaveConn (count_master c ps) = ps_slaveConn ps \<and>
    ps_masterConn (count_master c ps) = ps_masterConn ps + of_nat (length (filter (conned (cells (ps_store ps))) [Some c]))"
  using assms by (simp add: count_master_def ps_grows_def)

lemma ps_grows_conned: "ps_grows ps ps' \<Longrightarrow> conned (cells (ps_store ps')) = conned (cells (ps_store ps))"
  by (simp add: ps_grows_def grows_def)

lemma ps_grows_addr:
  "ps_grows ps ps' \<Longrightarrow> fresh_ok (ps_store ps) \<Longrightarrow> addr_of (cells (ps_store ps)) c = Some a \<Longrightarrow> addr_of (cells (ps_store ps')) c = Some a"
  by (cases c) (auto simp: ps_grows_def addr_of_def dest: grows_svrInfo)

lemma slave_lines_spec:
  "fresh_ok (ps_store ps) \<Longrightarrow> slave_lines opts mgr i ls ps = (r, ps') \<Longrightarrow>
   ps_grows ps ps' \<and> ps_masterConn ps' = ps_masterConn ps \<and> (r \<noteq> None \<longleftrightarrow> slaves_wf i ls) \<and>
   (\<forall>cs. r = Some cs \<longrightarrow>
      ps_slaveConn ps' = ps_slaveConn ps + of_nat (length (filter (conned (cells (ps_store ps))) cs)) \<and>
      map (addr_of (cells (ps_store ps'))) cs = slave_addrs i ls)"
proof (induction opts mgr i ls ps arbitrary: r ps' rule: slave_lines.induct)
  case (1 opts mgr i ps)
  then show ?case by (auto simp: ps_grows_def slaves_wf_def slave_addrs_def)
next
  case (2 opts mgr i l ls ps)
  define w where "w = line_words l"
  have sw: "split l '' '' [] = w" by (simp add: w_def line_words_def)
  have wf: "slaves_wf i (l # ls) \<longleftrightarrow> 8 \<le> length w \<and> (i = w ! 3 \<longrightarrow> analysisSvrInfo (w ! 1) \<noteq> None) \<and> slaves_wf i ls"
    by (auto simp: slaves_wf_def w_def)
  have addrs: "slave_addrs i (l # ls) = (if i = w ! 3 then [analysisSvrInfo (w ! 1)] else []) @ slave_addrs i ls"
    by (simp add: slave_addrs_def w_def)
  consider (short) "length w < 8" | (skip) "8 \<le> length w" "i \<noteq> w ! 3" | (bad) "8 \<le> length w" "i = w ! 3" "analysisSvrInfo (w ! 1) = None"
    | (slave) a where "8 \<le> length w" "i = w ! 3" "analysisSvrInfo (w ! 1) = Some a" by fastforce
  then show ?case
  proof cases
    case short
    then show ?thesis using 2(3,4) wf by (simp add: sw ps_grows_def)
  next
    case skip
    have "slave_lines opts mgr i ls ps = (r, ps')" using 2(4) skip by (simp add: sw)
    with 2(2) [OF sw [symmetric]] 2(3) skip show ?thesis by (simp add: wf addrs)
  next
    case bad
    then show ?thesis using 2(3,4) wf by (simp add: sw ps_grows_def)
  next
    case (slave a)
    obtain c p1 where c: "client_for opts mgr a ps = (c, p1)" by force
    note g1 = client_for_grows [OF c 2(3)]
    have f1: "fresh_ok (ps_store p1)" using g1 by (simp add: ps_grows_def)
    define p2 where "p2 = count_slave c p1"
    note g2 = count_slave_grows [OF f1, of c, folded p2_def]
    have f2: "fresh_ok (ps_store p2)" using g2 f1 by simp
    obtain q where q: "slave_lines opts mgr i ls p2 = (q, ps')" and r: "r = map_option ((#) (Some c)) q"
      using 2(4) slave c by (auto simp: sw p2_def Let_def split: prod.splits)
    have IH: "ps_grows p2 ps' \<and> ps_masterConn ps' = ps_masterConn p2 \<and> (q \<noteq> None \<longleftrightarrow> slaves_wf i ls) \<and>
       (\<forall>cs. q = Some cs \<longrightarrow> ps_slaveConn ps' = ps_slaveConn p2 + of_nat (length (filter (conned (cells (ps_store p2))) cs)) \<and>
        map (addr_of (cells (ps_store ps'))) cs = slave_addrs i ls)"
      by (rule 2(1) [OF sw [symmetric] _ _ slave(3) c [symmetric] refl p2_def]) (use slave f2 q in auto)
    have K: "conned (cells (ps_store p2)) = conned (cells (ps_store ps))" "conned (cells (ps_store p1)) = conned (cells (ps_store ps))"
      using g1 g2 by (auto dest: ps_grows_conned)
    have "addr_of (cells (ps_store p2)) (Some c) = Some a" using g1 g2 by (simp add: addr_of_def)
    then have "addr_of (cells (ps_store ps')) (Some c) = Some a" using IH f2 ps_grows_addr by blast
    moreover have "ps_grows ps ps'" using g1 g2 IH ps_grows_trans by blast
    moreover have "slaves_wf i (l # ls) = slaves_wf i ls" "slave_addrs i (l # ls) = Some a # slave_addrs i ls"
      using slave wf addrs by auto
    moreover have "ps_slaveConn p2 = ps_slaveConn ps + (if conned (cells (ps_store ps)) (Some c) then 1 else 0)"
      using g1 g2 K by simp
    ultimately show ?thesis using IH g1 g2 K(1) unfolding r by (cases q) auto
  qed
qed

definition view_full :: "string \<times> SlotsInfo list \<times> RedisSvrInfo option \<times> RedisSvrInfo option list \<Rightarrow> bool" where
  "view_full v \<longleftrightarrow> (case v of (_, _, m, ss) \<Rightarrow> m \<noteq> None \<and> None \<notin> set ss)"

lemma line_view_full: "line_wf vs w \<Longrightarrow> is_master_flags (w ! 2) \<Longrightarrow> view_full (line_view vs w)"
  by (auto simp: view_full_def line_view_def line_wf_def slaves_wf_def slave_addrs_def)

lemma node_view_stable:
  assumes "ps_grows ps ps'" and "fresh_ok (ps_store ps)" and "view_full (node_view (cells (ps_store ps)) n)"
  shows "node_view (cells (ps_store ps')) n = node_view (cells (ps_store ps)) n"
proof -
  have "addr_of (cells (ps_store ps')) c = addr_of (cells (ps_store ps)) c"
    if "addr_of (cells (ps_store ps)) c \<noteq> None" for c
    using that ps_grows_addr [OF assms(1,2)] by (cases "addr_of (cells (ps_store ps)) c") auto
  moreover have "addr_of (cells (ps_store ps)) x \<noteq> None" if "x \<in> insert (master (clusterNode n)) (set (slave (clusterNode n)))" for x
    using that assms(3) by (auto simp: node_view_def view_full_def) (metis image_eqI not_None_eq)
  ultimately show ?thesis by (simp add: node_view_def)
qed

definition nodes_of :: "RedisClusterInfo option \<Rightarrow> RedisClusterNode list" where
  "nodes_of tci = (case tci of None \<Rightarrow> [] | Some ci \<Rightarrow> clusterVectInfo ci)"

definition slots_of :: "RedisClusterInfo option \<Rightarrow> u16 \<Rightarrow> nat option" where
  "slots_of tci = (case tci of None \<Rightarrow> (\<lambda>_. None) | Some ci \<Rightarrow> clusterSlotMap ci)"

lemma master_line_spec:
  assumes fresh: "fresh_ok (ps_store ps)" and w8: "8 \<le> length w" and im: "is_master_flags (w ! 2)"
  shows "(line_wf vs w \<and> slots_end w \<longrightarrow> (\<exists>ci ps'. master_line opts mgr vs w tci ps = Some (Some ci, ps'))) \<and>
    (9 \<le> length w \<and> analysisSvrInfo (w ! 1) \<noteq> None \<and> \<not> slots_end w \<longrightarrow> master_line opts mgr vs w tci ps = None) \<and>
    (slots_end w \<longrightarrow> (\<exists>r ps'. master_line opts mgr vs w tci ps = Some (r, ps') \<and> ps_grows ps ps')) \<and>
    (\<forall>ci ps'. master_line opts mgr vs w tci ps = Some (Some ci, ps') \<longrightarrow>
       line_wf vs w \<and> slots_end w \<and> ps_grows ps ps' \<and>
       (\<exists>n. clusterVectInfo ci = nodes_of tci @ [n] \<and> master (clusterNode n) \<noteq> None \<and>
          clusterSlotMap ci = (\<lambda>s. if slot_found s (vectSlotInfo n) \<and> slots_of tci s = None then master (clusterNode n) else slots_of tci s) \<and>
          ps_masterConn ps' = ps_masterConn ps + of_nat (masters_up (conned (cells (ps_store ps))) [n]) \<and>
          ps_slaveConn ps' = ps_slaveConn ps + of_nat (slaves_up (conned (cells (ps_store ps))) [n]) \<and>
          node_view (cells (ps_store ps')) n = line_view vs w))"
proof (cases "9 \<le> length w \<and> analysisSvrInfo (w ! 1) \<noteq> None")
  case False
  then show ?thesis using im fresh by (auto simp: master_line_def line_wf_def ps_grows_def)
next
  case True
  then obtain a where a: "analysisSvrInfo (w ! 1) = Some a" and w9: "9 \<le> length w" by auto
  obtain c p1 where c: "client_for opts mgr a ps = (c, p1)" by force
  note g1 = client_for_grows [OF c fresh]
  have f1: "fresh_ok (ps_store p1)" using g1 by (simp add: ps_grows_def)
  define p2 where "p2 = count_master c p1"
  note g2 = count_master_grows [OF f1, of c, folded p2_def]
  have f2: "fresh_ok (ps_store p2)" using g2 f1 by simp
  obtain r p3 where r: "slave_lines opts mgr (w ! 0) vs p2 = (r, p3)" by force
  note g3 = slave_lines_spec [OF f2 r]
  define ranges where "ranges = map parse_slot (drop 8 w)"
  have ends: "slots_end w \<longleftrightarrow> \<not> (\<exists>x \<in> set ranges. slotEnd x = 0xFFFF)" using im by (auto simp: slots_end_def ranges_def)
  have wf: "line_wf vs w \<longleftrightarrow> r \<noteq> None" using g3 im w9 a by (simp add: line_wf_def)
  have slots: "clusterSlotMap (case tci of None \<Rightarrow> RedisClusterInfo_new | Some ci \<Rightarrow> ci) = slots_of tci"
    "clusterVectInfo (case tci of None \<Rightarrow> RedisClusterInfo_new | Some ci \<Rightarrow> ci) = nodes_of tci"
    by (auto simp: slots_of_def nodes_of_def RedisClusterInfo_new_def split: option.split)
  have run: "master_line opts mgr vs w tci ps =
    (if slots_end w then Some (map_option (\<lambda>slaves. (case tci of None \<Rightarrow> RedisClusterInfo_new | Some ci \<Rightarrow> ci)
        \<lparr>clusterSlotMap := \<lambda>s. if slot_found s ranges \<and> slots_of tci s = None then Some c else slots_of tci s,
         clusterVectInfo := nodes_of tci @ [\<lparr>nodeIds = w ! 0, vectSlotInfo = ranges, clusterNode = \<lparr>master = Some c, slave = slaves\<rparr>\<rparr>]\<rparr>) r, p3)
     else None)"
    using w9 unfolding master_line_def a option.case c prod.case Let_def p2_def [symmetric] r ranges_def [symmetric] slots slot_ranges_result ends
    by (cases r) simp_all
  have K: "conned (cells (ps_store p2)) = conned (cells (ps_store ps))" "conned (cells (ps_store p1)) = conned (cells (ps_store ps))"
    using g1 g2 by (auto dest: ps_grows_conned)
  have "ps_grows ps p3" using g1 g2 g3 ps_grows_trans by blast
  moreover have "addr_of (cells (ps_store p3)) (Some c) = Some a"
    using g1 g2 g3 f2 ps_grows_addr [of p2 p3 "Some c" a] by (simp add: addr_of_def)
  moreover have "ps_masterConn p3 = ps_masterConn ps + of_nat (length (filter (conned (cells (ps_store ps))) [Some c]))"
    using g1 g2 g3 K by simp
  moreover have "ps_slaveConn p2 = ps_slaveConn ps" using g1 g2 by simp
  ultimately show ?thesis unfolding run wf using g3 K(1) a
    by (cases r) (auto simp: masters_up_def slaves_up_def node_view_def line_view_def ranges_def)
qed

text \<open>The cluster information a run of the parser has gathered, against the lines it has read.\<close>

definition gathered ::
  "string list \<Rightarrow> string list \<Rightarrow> RedisClusterInfo option \<Rightarrow> parse_state \<Rightarrow> RedisClusterInfo option \<Rightarrow> parse_state \<Rightarrow> bool" where
  "gathered vs ls tci ps tci' ps' \<longleftrightarrow>
     ps_grows ps ps' \<and> (slots_of tci = slot_owner (nodes_of tci) \<longrightarrow> slots_of tci' = slot_owner (nodes_of tci')) \<and>
     (\<exists>ns. nodes_of tci' = nodes_of tci @ ns \<and> (\<forall>n \<in> set ns. master (clusterNode n) \<noteq> None) \<and>
        ps_masterConn ps' = ps_masterConn ps + of_nat (masters_up (conned (cells (ps_store ps))) ns) \<and>
        ps_slaveConn ps' = ps_slaveConn ps + of_nat (slaves_up (conned (cells (ps_store ps))) ns) \<and>
        map (node_view (cells (ps_store ps'))) ns = map (line_view vs) (filter (\<lambda>w. is_master_flags (w ! 2)) (map line_words ls)))"

lemma cluster_lines_returns:
  "fresh_ok (ps_store ps) \<Longrightarrow> (\<forall>l \<in> set ls. line_wf vs (line_words l) \<and> slots_end (line_words l)) \<Longrightarrow>
   \<exists>tci' ps'. cluster_lines opts mgr vs ls tci ps = Some (Some tci', ps')"
proof (induction ls arbitrary: tci ps)
  case (Cons l ls)
  define w where "w = line_words l"
  have sw: "split l '' '' [] = w" by (simp add: w_def line_words_def)
  have w8: "8 \<le> length w" "line_wf vs w" "slots_end w" using Cons.prems by (auto simp: w_def line_wf_def)
  show ?case
  proof (cases "is_master_flags (w ! 2)")
    case True
    from master_line_spec [OF Cons.prems(1) w8(1) True, of vs opts mgr tci] w8 obtain ci p1
      where m: "master_line opts mgr vs w tci ps = Some (Some ci, p1)" and g: "ps_grows ps p1" by blast
    then have "fresh_ok (ps_store p1)" by (simp add: ps_grows_def)
    from Cons.IH [OF this, of "Some ci"] Cons.prems(2) show ?thesis using m w8 True by (simp add: sw)
  next
    case False
    with Cons.IH [OF Cons.prems(1), of tci] Cons.prems(2) w8 show ?thesis by (simp add: sw)
  qed
qed simp

lemma cluster_lines_ends:
  "fresh_ok (ps_store ps) \<Longrightarrow> (\<forall>l \<in> set ls. slots_end (line_words l)) \<Longrightarrow> cluster_lines opts mgr vs ls tci ps \<noteq> None"
proof (induction ls arbitrary: tci ps)
  case (Cons l ls)
  define w where "w = line_words l"
  have sw: "split l '' '' [] = w" by (simp add: w_def line_words_def)
  consider (short) "length w < 8" | (slave) "8 \<le> length w" "\<not> is_master_flags (w ! 2)" | (master) "8 \<le> length w" "is_master_flags (w ! 2)"
    by fastforce
  then show ?case
  proof cases
    case master
    from master_line_spec [OF Cons.prems(1) master, of vs opts mgr tci] Cons.prems(2) obtain r p1
      where m: "master_line opts mgr vs w tci ps = Some (r, p1)" "ps_grows ps p1" by (auto simp: w_def)
    then have "fresh_ok (ps_store p1)" by (simp add: ps_grows_def)
    from Cons.IH [OF this] Cons.prems(2) m master show ?thesis by (cases r) (auto simp: sw)
  qed (use Cons in \<open>auto simp: sw\<close>)
qed simp

lemma cluster_lines_gathered:
  "fresh_ok (ps_store ps) \<Longrightarrow> (\<forall>n \<in> set (nodes_of tci). master (clusterNode n) \<noteq> None) \<Longrightarrow>
   cluster_lines opts mgr vs ls tci ps = Some (Some tci', ps') \<Longrightarrow>
   (\<forall>l \<in> set ls. line_wf vs (line_words l) \<and> slots_end (line_words l)) \<and> gathered vs ls tci ps tci' ps'"
proof (induction ls arbitrary: tci ps)
  case Nil
  then show ?case by (auto simp: gathered_def ps_grows_def masters_up_def slaves_up_def)
next
  case (Cons l ls)
  define w where "w = line_words l"
  have sw: "split l '' '' [] = w" by (simp add: w_def line_words_def)
  have w8: "8 \<le> length w" using Cons.prems(3) by (simp add: sw split: if_splits)
  show ?case
  proof (cases "is_master_flags (w ! 2)")
    case False
    then have "cluster_lines opts mgr vs ls tci ps = Some (Some tci', ps')" using Cons.prems(3) w8 by (simp add: sw)
    from Cons.IH [OF Cons.prems(1,2) this] False w8 show ?thesis
      by (simp add: gathered_def line_wf_def slots_end_def w_def)
  next
    case True
    then obtain ci p1 where m: "master_line opts mgr vs w tci ps = Some (Some ci, p1)"
      and rest: "cluster_lines opts mgr vs ls (Some ci) p1 = Some (Some tci', ps')"
      using Cons.prems(3) w8 by (auto simp: sw split: option.splits)
    from master_line_spec [OF Cons.prems(1) w8 True, of vs opts mgr tci] m obtain n
      where lw: "line_wf vs w" "slots_end w" and g1: "ps_grows ps p1"
        and n: "clusterVectInfo ci = nodes_of tci @ [n]" "master (clusterNode n) \<noteq> None"
          "clusterSlotMap ci = (\<lambda>s. if slot_found s (vectSlotInfo n) \<and> slots_of tci s = None then master (clusterNode n) else slots_of tci s)"
          "ps_masterConn p1 = ps_masterConn ps + of_nat (masters_up (conned (cells (ps_store ps))) [n])"
          "ps_slaveConn p1 = ps_slaveConn ps + of_nat (slaves_up (conned (cells (ps_store ps))) [n])"
          "node_view (cells (ps_store p1)) n = line_view vs w" by blast
    have f1: "fresh_ok (ps_store p1)" using g1 by (simp add: ps_grows_def)
    have nodes: "nodes_of (Some ci) = nodes_of tci @ [n]" "slots_of (Some ci) = clusterSlotMap ci"
      using n by (simp_all add: nodes_of_def slots_of_def)
    have "\<forall>n \<in> set (nodes_of (Some ci)). master (clusterNode n) \<noteq> None" using nodes n Cons.prems(2) by auto
    note IH = Cons.IH [OF f1 this rest]
    then have wf: "\<forall>l \<in> set ls. line_wf vs (line_words l) \<and> slots_end (line_words l)" and g: "gathered vs ls (Some ci) p1 tci' ps'" by auto
    from g obtain ns where ns: "nodes_of tci' = nodes_of (Some ci) @ ns" "\<forall>n \<in> set ns. master (clusterNode n) \<noteq> None"
        "ps_masterConn ps' = ps_masterConn p1 + of_nat (masters_up (conned (cells (ps_store p1))) ns)"
        "ps_slaveConn ps' = ps_slaveConn p1 + of_nat (slaves_up (conned (cells (ps_store p1))) ns)"
        "map (node_view (cells (ps_store ps'))) ns = map (line_view vs) (filter (\<lambda>w. is_master_flags (w ! 2)) (map line_words ls))"
      unfolding gathered_def by blast
    have g2: "ps_grows p1 ps'" and sl: "slots_of (Some ci) = slot_owner (nodes_of (Some ci)) \<longrightarrow> slots_of tci' = slot_owner (nodes_of tci')"
      using g by (simp_all add: gathered_def)
    have "node_view (cells (ps_store ps')) n = line_view vs w"
      using node_view_stable [OF g2 f1, of n] n(6) line_view_full [OF lw(1) True] by simp
    then have v: "map (node_view (cells (ps_store ps'))) (n # ns) =
        map (line_view vs) (filter (\<lambda>w. is_master_flags (w ! 2)) (map line_words (l # ls)))"
      using ns(5) True by (simp add: w_def)
    have K: "conned (cells (ps_store p1)) = conned (cells (ps_store ps))" using g1 by (rule ps_grows_conned)
    have "slots_of tci = slot_owner (nodes_of tci) \<longrightarrow> slots_of (Some ci) = slot_owner (nodes_of (Some ci))"
      using slot_owner_append [OF Cons.prems(2), of n] by (auto simp: nodes n(3) fun_eq_iff)
    moreover have "masters_up k (n # ns) = masters_up k [n] + masters_up k ns" "slaves_up k (n # ns) = slaves_up k [n] + slaves_up k ns" for k
      by (simp_all add: masters_up_def slaves_up_def)
    ultimately have "gathered vs (l # ls) tci ps tci' ps'"
      unfolding gathered_def using sl ps_grows_trans [OF g1 g2] v ns(1-4) n(2,4,5) K nodes(1)
      by (intro conjI exI [of _ "n # ns"]) (auto simp: add.assoc)
    with wf lw show ?thesis by (simp add: w_def)
  qed
qed

lemma cluster_nodes_result:
  assumes "fresh_ok st" and "clusterNodes \<noteq> []" and "vs = split clusterNodes [LF] []"
  shows "if \<forall>l \<in> set vs. line_wf vs (line_words l) \<and> slots_end (line_words l)
    then \<exists>added mgr' st'. analysisClusterNodes opts clusterNodes mgr st = Some (0, added, mgr', st') \<and>
      map (node_view (cells st')) (nodes_of (cluterCli mgr')) = map (line_view vs) (filter (\<lambda>w. is_master_flags (w ! 2)) (map line_words vs)) \<and>
      slots_of (cluterCli mgr') = slot_owner (nodes_of (cluterCli mgr')) \<and>
      masterConn mgr' = of_nat (masters_up (conned (cells st')) (nodes_of (cluterCli mgr'))) \<and>
      slaveConn mgr' = of_nat (slaves_up (conned (cells st')) (nodes_of (cluterCli mgr')))
    else ((\<forall>l \<in> set vs. slots_end (line_words l)) \<longrightarrow> analysisClusterNodes opts clusterNodes mgr st \<noteq> None) \<and>
      (\<forall>ret added mgr' st'. analysisClusterNodes opts clusterNodes mgr st = Some (ret, added, mgr', st') \<longrightarrow>
        ret = ANALYSIS_STRING_FORMATE_ERROR \<and> mgr' = mgr)"
proof -
  define ps where "ps = \<lparr>ps_store = st, addRedisCli = [], ps_masterConn = 0, ps_slaveConn = 0\<rparr>"
  have f: "fresh_ok (ps_store ps)" using assms(1) by (simp add: ps_def)
  have run: "analysisClusterNodes opts clusterNodes mgr st =
     (case cluster_lines opts mgr vs vs None ps of
              None \<Rightarrow> None
            | Some (None, ps) \<Rightarrow> Some (ANALYSIS_STRING_FORMATE_ERROR, addRedisCli ps, mgr, ps_store ps)
            | Some (Some ci, ps) \<Rightarrow>
                Some (0, addRedisCli ps,
                  mgr\<lparr>cluterCli := ci, masterConn := ps_masterConn ps, slaveConn := ps_slaveConn ps\<rparr>, ps_store ps))"
    using assms(2) by (simp add: analysisClusterNodes_def assms(3) ps_def Let_def)
  show ?thesis
  proof (cases "\<forall>l \<in> set vs. line_wf vs (line_words l) \<and> slots_end (line_words l)")
    case True
    from cluster_lines_returns [OF f True] obtain tci' ps' where c: "cluster_lines opts mgr vs vs None ps = Some (Some tci', ps')" by blast
    from cluster_lines_gathered [OF f _ c] have "gathered vs vs None ps tci' ps'" by (simp add: nodes_of_def)
    moreover from this have "conned (cells (ps_store ps')) = conned (cells (ps_store ps))"
      by (auto simp: gathered_def dest: ps_grows_conned)
    ultimately show ?thesis unfolding if_P [OF True] run c
      by (auto simp: gathered_def ps_def nodes_of_def slots_of_def)
  next
    case False
    have "(\<forall>l \<in> set vs. slots_end (line_words l)) \<longrightarrow> cluster_lines opts mgr vs vs None ps \<noteq> None"
      using cluster_lines_ends [OF f] by blast
    moreover have "cluster_lines opts mgr vs vs None ps \<noteq> Some (Some tci', ps')" for tci' ps'
      using cluster_lines_gathered [OF f, of None opts mgr vs vs tci' ps'] False by (auto simp: nodes_of_def)
    ultimately show ?thesis unfolding if_not_P [OF False] run by (auto split: option.split)
  qed
qed


subsection \<open>Descriptions as text\<close>

text \<open>A line of the answer as the server writes it, from its parts.\<close>

record node_desc =
  d_id :: string
  d_ip :: string
  d_port :: c_int
  d_bus :: string
  d_flags :: string
  d_of :: string
  d_mid :: "string list"
  d_slots :: "(u16 \<times> u16) list"

definition show_slots :: "u16 \<times> u16 \<Rightarrow> string" where
  "show_slots r = (case r of (a, b) \<Rightarrow>
     if a = b then show_nat (unat a) else show_nat (unat a) @ ''-'' @ show_nat (unat b))"

definition desc_words :: "node_desc \<Rightarrow> string list" where
  "desc_words d = [d_id d, d_ip d @ '':'' @ sprintf_d (d_port d) @ d_bus d, d_flags d, d_of d] @ d_mid d @ map show_slots (d_slots d)"

definition desc_text :: "node_desc list \<Rightarrow> string" where
  "desc_text ds = concat (map (\<lambda>d. join '' '' (desc_words d) @ [LF]) ds)"

definition plain :: "string \<Rightarrow> bool" where
  "plain w \<longleftrightarrow> w \<noteq> [] \<and> CHR '' '' \<notin> set w \<and> LF \<notin> set w"

definition desc_ok :: "node_desc \<Rightarrow> bool" where
  "desc_ok d \<longleftrightarrow> list_all plain ([d_id d, d_flags d, d_of d] @ d_mid d) \<and> plain (d_ip d @ '':'' @ d_bus d) \<and> CHR '':'' \<notin> set (d_ip d) \<and>
     (d_bus d = [] \<or> \<not> is_digit (hd (d_bus d))) \<and> length (d_mid d) = 4 \<and> (is_master_flags (d_flags d) \<longrightarrow> d_slots d \<noteq> [])"

definition desc_ends :: "node_desc \<Rightarrow> bool" where
  "desc_ends d \<longleftrightarrow> list_all (\<lambda>(a, b). b \<noteq> 0xFFFF) (d_slots d)"

definition desc_addr :: "node_desc \<Rightarrow> RedisSvrInfo" where
  "desc_addr d = \<lparr>port = d_port d, ipAddr = d_ip d\<rparr>"

lemma str_find_char: "c \<notin> set xs \<Longrightarrow> str_find (xs @ c # ys) [c] 0 = Some (length xs)"
  using find_sub_append [of "[c]" xs ys] by (simp add: str_find_def)

lemma str_find_no_char: "c \<notin> set xs \<Longrightarrow> str_find xs [c] 0 = None"
  using find_sub_char [of "[c]" xs] by (simp add: str_find_def)

lemma show_nat_plain: "plain (show_nat n)" "CHR ''-'' \<notin> set (show_nat n)" "NUL \<notin> set (show_nat n)"
  using show_nat_digits [of "CHR '' ''" n] show_nat_digits [of LF n] show_nat_digits [of "CHR ''-''" n] show_nat_digits [of NUL n]
  by (auto simp: plain_def is_digit_def)

lemma c_str_show_nat: "c_str (show_nat n) = show_nat n"
  using show_nat_plain(3) [of n] by (auto simp: c_str_def takeWhile_eq_all_conv)

lemma atoi_show_nat: "n < 2 ^ 31 \<Longrightarrow> atoi (show_nat n) = of_nat n"
  using strtol_show_int [of "[]" "int n"] by (simp add: atoi_def show_int_def)

lemma parse_show_slots: "parse_slot (show_slots (a, b)) = \<lparr>slotStart = a, slotEnd = b\<rparr>"
proof -
  have lt: "unat x < 2 ^ 31" for x :: u16 using unsigned_less [of x, where ?'a = nat] by simp
  have u: "ucast (atoi (show_nat (unat x))) = x" for x :: u16
    unfolding atoi_show_nat [OF lt] by (rule bit_word_eqI) (auto simp: bit_simps)
  have d: "str_find (show_nat (unat x)) ''-'' 0 = None" for x :: u16
    by (rule str_find_no_char) (rule show_nat_plain)
  have e: "str_find (show_nat (unat a) @ CHR ''-'' # show_nat (unat b)) ''-'' 0 = Some (length (show_nat (unat a)))"
    by (rule str_find_char) (rule show_nat_plain)
  show ?thesis by (cases "a = b") (simp_all add: show_slots_def parse_slot_def d e u c_str_show_nat)
qed

lemma show_slots_plain: "plain (show_slots r)"
  using show_nat_plain(1) by (cases r) (auto simp: show_slots_def plain_def)

lemma split_join_words: "list_all (\<lambda>p. p \<noteq> [] \<and> c \<notin> set p) ps \<Longrightarrow> c \<noteq> NUL \<Longrightarrow> split (join [c] ps) [c] [] = ps"
  using split_ref_join [of "[c]" ps] split_loop_ref [of "[c]" "[]" "join [c] ps"]
  by (cases ps) (auto simp: split_def ptr_char_def)

lemma split_lines: "list_all (\<lambda>l. l \<noteq> [] \<and> c \<notin> set l) ls \<Longrightarrow> c \<noteq> NUL \<Longrightarrow> split (concat (map (\<lambda>l. l @ [c]) ls)) [c] [] = ls"
proof -
  assume ls: "list_all (\<lambda>l. l \<noteq> [] \<and> c \<notin> set l) ls" and c: "c \<noteq> NUL"
  from ls have "split_ref [c] (concat (map (\<lambda>l. l @ [c]) ls)) = ls"
  proof (induction ls)
    case (Cons l ls)
    then have "find_sub (l @ [c] @ concat (map (\<lambda>l. l @ [c]) ls)) [c] = Some ([c] @ concat (map (\<lambda>l. l @ [c]) ls))"
      using find_sub_append [of "[c]" l] by simp
    with Cons show ?case by (subst split_ref.simps) auto
  qed (simp add: split_ref.simps)
  then show ?thesis using c split_loop_ref [of "[c]" "[]" "concat (map (\<lambda>l. l @ [c]) ls)"] by (cases ls) (auto simp: split_def ptr_char_def)
qed

lemma desc_words_plain: "desc_ok d \<Longrightarrow> list_all plain (desc_words d)"
proof -
  assume ok: "desc_ok d"
  have "c \<noteq> CHR '' '' \<and> c \<noteq> LF" if "c \<in> set (sprintf_d (d_port d))" for c
    using that show_int_chars [of c "sint (d_port d)"] is_digit_not [of c] by (auto simp: sprintf_d_def is_digit_def)
  then show "list_all plain (desc_words d)"
    using ok show_slots_plain by (auto simp: desc_words_def desc_ok_def plain_def list_all_iff)
qed

lemma desc_line:
  assumes "desc_ok d"
  shows "line_words (join '' '' (desc_words d)) = desc_words d" and "join '' '' (desc_words d) \<noteq> []" and "LF \<notin> set (join '' '' (desc_words d))"
proof -
  have p: "list_all plain (desc_words d)" using desc_words_plain [OF assms] .
  then show "line_words (join '' '' (desc_words d)) = desc_words d"
    by (auto simp: line_words_def plain_def list_all_iff intro!: split_join_words)
  show "join '' '' (desc_words d) \<noteq> []" using p by (auto simp: desc_words_def plain_def)
  have "list_all plain ws \<Longrightarrow> LF \<notin> set (join '' '' ws)" for ws by (induction ws) (auto simp: plain_def)
  then show "LF \<notin> set (join '' '' (desc_words d))" using p by blast
qed

lemma desc_words_nth:
  assumes "desc_ok d"
  shows "desc_words d ! 0 = d_id d" "analysisSvrInfo (desc_words d ! 1) = Some (desc_addr d)" "desc_words d ! 2 = d_flags d"
    "desc_words d ! 3 = d_of d" "map parse_slot (drop 8 (desc_words d)) = map (\<lambda>(a, b). \<lparr>slotStart = a, slotEnd = b\<rparr>) (d_slots d)"
    "length (desc_words d) = 8 + length (d_slots d)"
proof -
  have m: "length (d_mid d) = 4" using assms by (simp add: desc_ok_def)
  have "c_str (sprintf_d (d_port d) @ d_bus d) = sprintf_d (d_port d) @ c_str (d_bus d)"
    using show_int_clean [of "sint (d_port d)"] by (auto simp: c_str_def sprintf_d_def intro!: takeWhile_append2)
  moreover have "c_str (d_bus d) = [] \<or> \<not> is_digit (hd (c_str (d_bus d)))"
    using assms by (cases "d_bus d") (auto simp: desc_ok_def c_str_def)
  ultimately have "atoi (c_str (sprintf_d (d_port d) @ d_bus d)) = d_port d" by (simp add: atoi_sprintf_d)
  moreover have "str_find (d_ip d @ '':'' @ sprintf_d (d_port d) @ d_bus d) '':'' 0 = Some (length (d_ip d))"
    using assms str_find_char [of "CHR '':''" "d_ip d"] by (simp add: desc_ok_def)
  ultimately show "analysisSvrInfo (desc_words d ! 1) = Some (desc_addr d)"
    by (simp add: desc_words_def analysisSvrInfo_def desc_addr_def)
  show "map parse_slot (drop 8 (desc_words d)) = map (\<lambda>(a, b). \<lparr>slotStart = a, slotEnd = b\<rparr>) (d_slots d)"
    using m by (auto simp: desc_words_def parse_show_slots)
qed (use assms in \<open>auto simp: desc_words_def desc_ok_def\<close>)

lemma desc_text_lines:
  assumes "list_all desc_ok ds"
  shows "split (desc_text ds) [LF] [] = map (\<lambda>d. join '' '' (desc_words d)) ds"
    and "map line_words (map (\<lambda>d. join '' '' (desc_words d)) ds) = map desc_words ds"
proof -
  have ok: "desc_ok d" if "d \<in> set ds" for d using assms that by (simp add: list_all_iff)
  have "desc_text ds = concat (map (\<lambda>l. l @ [LF]) (map (\<lambda>d. join '' '' (desc_words d)) ds))" by (simp add: desc_text_def comp_def)
  moreover have "list_all (\<lambda>l. l \<noteq> [] \<and> LF \<notin> set l) (map (\<lambda>d. join '' '' (desc_words d)) ds)"
    using desc_line ok by (auto simp: list_all_iff)
  ultimately show "split (desc_text ds) [LF] [] = map (\<lambda>d. join '' '' (desc_words d)) ds"
    by (simp add: split_lines del: map_map)
  show "map line_words (map (\<lambda>d. join '' '' (desc_words d)) ds) = map desc_words ds" using desc_line(1) ok by simp
qed

lemma desc_lines_wf:
  assumes "list_all desc_ok ds" and "list_all desc_ends ds" and "vs = map (\<lambda>d. join '' '' (desc_words d)) ds"
  shows "\<forall>l \<in> set vs. line_wf vs (line_words l) \<and> slots_end (line_words l)"
proof
  fix l
  assume l: "l \<in> set vs"
  have ok: "desc_ok d" if "d \<in> set ds" for d using assms that by (simp add: list_all_iff)
  have sl: "slaves_wf i vs" for i
    using desc_words_nth(2,6) ok by (auto simp: slaves_wf_def assms(3) desc_line(1))
  from l obtain d where d: "d \<in> set ds" "line_words l = desc_words d" using desc_line(1) ok by (auto simp: assms(3))
  note n = desc_words_nth [OF ok [OF d(1)]]
  have "parse_slot ` set (drop 8 (desc_words d)) = (\<lambda>(a, b). \<lparr>slotStart = a, slotEnd = b\<rparr>) ` set (d_slots d)"
    using arg_cong [OF n(5), of set] by (simp only: set_map)
  moreover have "\<forall>(a, b) \<in> set (d_slots d). b \<noteq> 0xFFFF" using assms(2) d(1) by (simp add: desc_ends_def list_all_iff)
  ultimately have "\<forall>r \<in> parse_slot ` set (drop 8 (desc_words d)). slotEnd r \<noteq> 0xFFFF" by auto
  then have "slots_end (desc_words d)" unfolding slots_end_def by blast
  moreover have "is_master_flags (d_flags d) \<Longrightarrow> d_slots d \<noteq> []" using ok [OF d(1)] by (simp add: desc_ok_def)
  ultimately show "line_wf vs (line_words l) \<and> slots_end (line_words l)"
    using n sl by (auto simp: d(2) line_wf_def Suc_le_eq)
qed

section \<open>Properties\<close>



text \<open>An answer with two masters and a slave, and a store that is empty.\<close>

definition two_masters :: "node_desc list" where
  "two_masters = [
     \<lparr>d_id = ''9be7'', d_ip = ''10.0.0.1'', d_port = 6790, d_bus = ''@16790'', d_flags = ''myself,master'', d_of = ''-'',
      d_mid = [''0'', ''1557'', ''5'', ''connected''], d_slots = [(8192, 16383)]\<rparr>,
     \<lparr>d_id = ''af80'', d_ip = ''10.0.0.2'', d_port = 6791, d_bus = ''@16791'', d_flags = ''slave'', d_of = ''9be7'',
      d_mid = [''0'', ''1557'', ''3'', ''connected''], d_slots = []\<rparr>,
     \<lparr>d_id = ''a489'', d_ip = ''10.0.0.3'', d_port = 6790, d_bus = ''@16790'', d_flags = ''master'', d_of = ''-'',
      d_mid = [''0'', ''1557'', ''3'', ''connected''], d_slots = [(0, 99), (100, 100), (101, 8191)]\<rparr>]"

definition no_clients :: cli_store where
  "no_clients = \<lparr>cells = (\<lambda>_. RedisClient_new 0 0 None 0 0), next_cell = 0, initIoIndex = 0\<rparr>"

definition four_threads :: conn_opts where
  "four_threads = \<lparr>ioThreadNum = 4, keepSecond = 10, connOutSec = 3\<rparr>"

lemma fresh_no_clients: "fresh_ok no_clients"
  by (simp add: fresh_ok_def no_clients_def RedisClient_new_def)

lemma two_masters_ok: "list_all desc_ok two_masters"
  by (simp add: two_masters_def desc_ok_def plain_def is_digit_def is_master_flags_def c_str_def)

lemma two_masters_ends: "list_all desc_ends two_masters"
  by (simp add: two_masters_def desc_ends_def)



text \<open>A slot range that ends at 65535 makes the client hang. The loop over the slots has a 16-bit variable, so its
  condition is never false, and the parser does not return once it reads such a range of a master: the text comes from the
  server and is not checked against the number of slots.\<close>

theorem slot_range_hangs:
  assumes "fresh_ok st" and "split clusterNodes [LF] [] = l # ls" and "line_words l = w" and "9 \<le> length w" and "is_master_flags (w ! 2)"
    and "analysisSvrInfo (w ! 1) \<noteq> None" and "x \<in> set (drop 8 w)" and "slotEnd (parse_slot x) = 65535"
  shows "analysisClusterNodes opts clusterNodes mgr st = None"
proof -
  have "clusterNodes \<noteq> []" using assms(2) by (auto simp: split_def)
  moreover have "\<not> slots_end w" using assms(5,7,8) by (auto simp: slots_end_def)
  then have "master_line opts mgr (l # ls) w None \<lparr>ps_store = st, addRedisCli = [], ps_masterConn = 0, ps_slaveConn = 0\<rparr> = None"
    using master_line_spec [of "\<lparr>ps_store = st, addRedisCli = [], ps_masterConn = 0, ps_slaveConn = 0\<rparr>" w "l # ls" opts mgr None] assms
    by simp
  ultimately show ?thesis using assms by (simp add: analysisClusterNodes_def line_words_def)
qed

definition all_slots :: node_desc where
  "all_slots = \<lparr>d_id = ''9be7'', d_ip = ''10.0.0.1'', d_port = 6790, d_bus = ''@16790'', d_flags = ''master'', d_of = ''-'',
      d_mid = [''0'', ''1557'', ''5'', ''connected''], d_slots = [(0, 65535)]\<rparr>"

theorem slot_range_hangs_witness: "analysisClusterNodes four_threads (desc_text [all_slots]) RedisClientMgr_new no_clients = None"
proof -
  have ok: "desc_ok all_slots" by (simp add: all_slots_def desc_ok_def plain_def is_digit_def)
  note n = desc_words_nth [OF ok]
  have m: "is_master_flags (desc_words all_slots ! 2)" unfolding n by (simp add: all_slots_def is_master_flags_def c_str_def)
  have x: "show_slots (0, 65535) \<in> set (drop 8 (desc_words all_slots))" by (simp add: desc_words_def all_slots_def)
  show ?thesis
    by (rule slot_range_hangs [OF fresh_no_clients _ desc_line(1) [OF ok] _ m _ x])
      (use desc_text_lines(1) [of "[all_slots]"] ok n in \<open>simp_all add: parse_show_slots\<close>, simp add: all_slots_def)
qed

end
