(* ===== verification/RedisMgr.thy ===== *)
theory RedisMgr
  imports RedisTopology
begin

text \<open>
  The manager of the asynchronous Redis client, \<^verbatim>\<open>src/redisAsyn/v1.0/src/RedisAsync.cpp\<close>: the handles a user has
  (single server, master and slaves, cluster), their life cycle as the connections report it and as the answers to the
  internal commands change it, and the entry point for commands.

  The state is the whole client: the shared state of \<^verbatim>\<open>RedisCli\<close>, the I/O threads, the timer queue, the handles, and the
  tasks given to the callback pool, in their order. The address of a handle is its index. A callback of a command is a
  number: the first four are the internal ones. \<^const>\<open>None\<close> is an access through a null pointer, past the end of a
  vector, or a message that does not fit its buffer.
\<close>

section \<open>State\<close>

abbreviation REDIS_UNKNOWN_SERVER :: int where "REDIS_UNKNOWN_SERVER \<equiv> 0"
abbreviation REDIS_SINGLE_SERVER :: int where "REDIS_SINGLE_SERVER \<equiv> 1"
abbreviation REDIS_MASTER_SLAVE_SERVER :: int where "REDIS_MASTER_SLAVE_SERVER \<equiv> 2"
abbreviation REDIS_CLUSTER_SERVER :: int where "REDIS_CLUSTER_SERVER \<equiv> 3"

abbreviation REDIS_SVR_INIT_STATE :: int where "REDIS_SVR_INIT_STATE \<equiv> 0"
abbreviation REDIS_SVR_RUNING_STATE :: int where "REDIS_SVR_RUNING_STATE \<equiv> 1"
abbreviation REDIS_EXCEPTION_STATE :: int where "REDIS_EXCEPTION_STATE \<equiv> 2"
abbreviation REDIS_SVR_ERROR_STATE :: int where "REDIS_SVR_ERROR_STATE \<equiv> 3"
abbreviation REDIS_SVR_INVALID_STATE :: int where "REDIS_SVR_INVALID_STATE \<equiv> 4"

abbreviation SVR_CONNECT_RESET :: int where "SVR_CONNECT_RESET \<equiv> - 2"
abbreviation SVR_CONECT_DISCONNECT :: int where "SVR_CONECT_DISCONNECT \<equiv> - 3"
abbreviation CLUSTER_NODES_CHANGE :: int where "CLUSTER_NODES_CHANGE \<equiv> - 4"
abbreviation UNKOWN_REDIS_SVR_TYPE :: int where "UNKOWN_REDIS_SVR_TYPE \<equiv> - 5"
abbreviation MASTER_SLAVE_NODES_CHANGE :: int where "MASTER_SLAVE_NODES_CHANGE \<equiv> - 6"
abbreviation CLUSTER_INITSTR_FORMATE :: int where "CLUSTER_INITSTR_FORMATE \<equiv> - 7"

abbreviation INIT_SUCCESS_CODE :: int where "INIT_SUCCESS_CODE \<equiv> 0"
abbreviation INIT_PARAMETER_ERROR :: int where "INIT_PARAMETER_ERROR \<equiv> - 1"
abbreviation INIT_NO_INIT_ERROR :: int where "INIT_NO_INIT_ERROR \<equiv> - 3"

abbreviation CMD_PARAMETER_ERROR_CODE :: int where "CMD_PARAMETER_ERROR_CODE \<equiv> - 1"
abbreviation CMD_SVR_STATE_ERROR_CODE :: int where "CMD_SVR_STATE_ERROR_CODE \<equiv> - 2"
abbreviation CMD_SVR_INVALID_CODE :: int where "CMD_SVR_INVALID_CODE \<equiv> - 4"
abbreviation CMD_SLOTS_CALCUL_ERROR_CODE :: int where "CMD_SLOTS_CALCUL_ERROR_CODE \<equiv> - 6"
abbreviation CMD_SVR_NODES_DOWN :: int where "CMD_SVR_NODES_DOWN \<equiv> - 7"

abbreviation DEFAULT_CMD_OUTSECOND :: u64 where "DEFAULT_CMD_OUTSECOND \<equiv> 3"
abbreviation DEFAULT_DELAY_CMD_SECOND :: u64 where "DEFAULT_DELAY_CMD_SECOND \<equiv> 3"

abbreviation CB_CLUSTER_INFO :: nat where "CB_CLUSTER_INFO \<equiv> 0"
abbreviation CB_CLUSTER_NODES :: nat where "CB_CLUSTER_NODES \<equiv> 1"
abbreviation CB_CLUSTER_INIT :: nat where "CB_CLUSTER_INIT \<equiv> 2"
abbreviation CB_INFO_REPLICATION :: nat where "CB_INFO_REPLICATION \<equiv> 3"

datatype pool_task =
    AsyncStateCb nat int string
  | AsyncExceCb nat int string
  | SvrMgrInvalid nat
  | ClusterNodesUpdate nat bool bool
  | InfoReplicNodesUpdate nat bool

record redis_async =
  rsys :: redis_sys
  ios :: "LibeventIo list"
  timerDeque :: "RedisCliOrderNode list"
  mgrs :: "RedisClientMgr list"
  pool :: "pool_task list"
  nextCli :: nat
  nextOrd :: nat
  ioCounter :: u32
  opts :: conn_opts
  callBackNum :: c_int
  nowSecond :: u64

definition store_of :: "redis_async \<Rightarrow> cli_store" where
  "store_of a = \<lparr>cells = clients (rsys a), next_cell = nextCli a, initIoIndex = ioCounter a\<rparr>"

definition with_store :: "cli_store \<Rightarrow> redis_async \<Rightarrow> redis_async" where
  "with_store st a = a\<lparr>rsys := (rsys a)\<lparr>clients := cells st\<rparr>, nextCli := next_cell st, ioCounter := initIoIndex st\<rparr>"

definition pool_run :: "pool_task \<Rightarrow> redis_async \<Rightarrow> redis_async" where
  "pool_run t a = a\<lparr>pool := pool a @ [t]\<rparr>"

definition upd_mgr :: "nat \<Rightarrow> (RedisClientMgr \<Rightarrow> RedisClientMgr) \<Rightarrow> redis_async \<Rightarrow> redis_async" where
  "upd_mgr fd f a = a\<lparr>mgrs := (mgrs a)[fd := f (mgrs a ! fd)]\<rparr>"

definition set_state :: "nat \<Rightarrow> int \<Rightarrow> redis_async \<Rightarrow> redis_async" where
  "set_state fd v a = upd_mgr fd (\<lambda>m. m\<lparr>initState := v\<rparr>) a"

text \<open>\<open>libeventIoPtrVect[cli->redisCliIoIndex()]->libeventIoOrder(node, nowSecond_)\<close>.\<close>

definition io_order :: "nat option \<Rightarrow> RedisCliOrderNode \<Rightarrow> redis_async \<Rightarrow> redis_async option" where
  "io_order c node a =
     (case c of
        None \<Rightarrow> None
      | Some c \<Rightarrow>
          (let k = ioIndex (clients (rsys a) c)
           in if k < length (ios a)
              then (let (io, s) = libeventIoOrder (Some node) (nowSecond a) (ios a ! k, rsys a)
                    in Some (a\<lparr>ios := (ios a)[k := io], rsys := s\<rparr>))
              else None))"

definition new_order :: "OrderNode \<Rightarrow> redis_async \<Rightarrow> nat \<times> redis_async" where
  "new_order d a = (let p = nextOrd a in (p, a\<lparr>nextOrd := p + 1, rsys := upd_order p (\<lambda>_. d) (rsys a)\<rparr>))"

definition timer_order :: "RedisCliOrderNode \<Rightarrow> redis_async \<Rightarrow> redis_async" where
  "timer_order n a = a\<lparr>timerDeque := insertTimerOrder n (timerDeque a)\<rparr>"

definition connect_node :: "nat \<Rightarrow> u64 \<Rightarrow> RedisCliOrderNode" where
  "connect_node c t = \<lparr>node_outSecond = t, cli = Some c, cmdOrd = None\<rparr>"

section \<open>Internal commands\<close>

definition clusterNodesUpdate :: "nat \<Rightarrow> bool \<Rightarrow> bool \<Rightarrow> redis_async \<Rightarrow> redis_async option" where
  "clusterNodesUpdate fd isDelay isInit a =
     (if fd \<ge> length (mgrs a) then None
      else
        (let m = mgrs a ! fd;
             d = OrderNode_new ''CLUSTER NODES'' (Some (if isInit then CB_CLUSTER_INIT else CB_CLUSTER_NODES)) (Some fd)
         in if isDelay then
              (let (p, a) = new_order d a
               in Some (timer_order \<lparr>node_outSecond = nowSecond a + DEFAULT_DELAY_CMD_SECOND, cli = nodeCli m, cmdOrd = Some p\<rparr> a))
            else
              (let t = nowSecond a + DEFAULT_CMD_OUTSECOND;
                   (p, a) = new_order (d\<lparr>outSecond := ucast DEFAULT_CMD_OUTSECOND, cmdOutSecond := t\<rparr>) a
               in io_order (nodeCli m) \<lparr>node_outSecond = t, cli = nodeCli m, cmdOrd = Some p\<rparr> a)))"

definition infoReplicNodesUpdate :: "nat \<Rightarrow> bool \<Rightarrow> redis_async \<Rightarrow> redis_async option" where
  "infoReplicNodesUpdate fd isDelay a =
     (if fd \<ge> length (mgrs a) then None
      else
        (let m = mgrs a ! fd;
             (p, a) = new_order (OrderNode_new ''INFO REPLICATION'' (Some CB_INFO_REPLICATION) (Some fd)) a
         in if isDelay
            then Some (timer_order \<lparr>node_outSecond = nowSecond a + DEFAULT_DELAY_CMD_SECOND, cli = nodeCli m, cmdOrd = Some p\<rparr> a)
            else io_order (nodeCli m) \<lparr>node_outSecond = 0, cli = nodeCli m, cmdOrd = Some p\<rparr> a))"

text \<open>\<open>updateNodesInfo\<close> makes the command without the handle as its private data.\<close>

definition updateNodesInfo :: "int \<Rightarrow> redis_async \<Rightarrow> redis_async option" where
  "updateNodesInfo asyFd a =
     (if asyFd < 0 \<or> nat asyFd \<ge> length (mgrs a) then Some a
      else
        (let m = mgrs a ! nat asyFd
         in if initState m = REDIS_SVR_INVALID_STATE then Some a
            else if svrType m = REDIS_MASTER_SLAVE_SERVER then
              (let t = nowSecond a + DEFAULT_CMD_OUTSECOND;
                   (p, a) = new_order ((OrderNode_new ''INFO replication'' (Some CB_INFO_REPLICATION) None)
                              \<lparr>outSecond := ucast DEFAULT_CMD_OUTSECOND, cmdOutSecond := t\<rparr>) a
               in io_order (nodeCli m) \<lparr>node_outSecond = t, cli = nodeCli m, cmdOrd = Some p\<rparr> a)
            else Some a))"

section \<open>Reconnecting\<close>

definition find_client :: "nat \<Rightarrow> string \<Rightarrow> c_int \<Rightarrow> redis_async \<Rightarrow> nat option" where
  "find_client fd ip p a =
     (let m = mgrs a ! fd; st = clients (rsys a)
      in if isSelfSvrInfo_cli_addr st (nodeCli m) ip p then nodeCli m
         else case getRedisClient_ms st (mSlaveCli m) ip p of
                Some c \<Rightarrow> Some c
              | None \<Rightarrow> getRedisClient_cluster st (cluterCli m) ip p)"

definition reconnectAtOnece :: "nat \<Rightarrow> string \<Rightarrow> c_int \<Rightarrow> redis_async \<Rightarrow> redis_async" where
  "reconnectAtOnece fd ip p a =
     (case find_client fd ip p a of None \<Rightarrow> a | Some c \<Rightarrow> timer_order (connect_node c 0) a)"

definition delayReconnect :: "nat \<Rightarrow> string \<Rightarrow> c_int \<Rightarrow> redis_async \<Rightarrow> redis_async" where
  "delayReconnect fd ip p a =
     (case find_client fd ip p a of
        None \<Rightarrow> a | Some c \<Rightarrow> timer_order (connect_node c (nowSecond a + DEFAULT_DELAY_CMD_SECOND)) a)"

section \<open>What the connections report\<close>

text \<open>\<open>sprintf(exceMsgBuf, "%s::%d %s", ...)\<close> into 1024 characters.\<close>

definition exce_msg :: "string \<Rightarrow> c_int \<Rightarrow> string \<Rightarrow> string option" where
  "exce_msg ip p err =
     (let t = c_str ip @ ''::'' @ sprintf_d p @ '' '' @ c_str err in if length t < 1024 then Some t else None)"

definition single_on_connect :: "nat \<Rightarrow> int \<Rightarrow> string \<Rightarrow> c_int \<Rightarrow> string \<Rightarrow> redis_async \<Rightarrow> redis_async option" where
  "single_on_connect fd st ip p err a =
     (let m = mgrs a ! fd
      in if initState m = REDIS_SVR_INIT_STATE \<or> initState m = REDIS_SVR_ERROR_STATE then
           if st = CONNECT_REDISVR_SUCCESS
           then Some (pool_run (AsyncStateCb fd REDIS_SVR_RUNING_STATE (inSvrInfoStr m)) (set_state fd REDIS_SVR_RUNING_STATE a))
           else if st = CONNECT_REDISVR_RESET then
             do {
               msg \<leftarrow> exce_msg ip p err;
               Some (delayReconnect fd ip p (pool_run (AsyncExceCb fd SVR_CONNECT_RESET msg) a))
             }
           else Some a
         else if initState m = REDIS_SVR_RUNING_STATE then
           if st = REDISVR_CONNECT_DISCONN then
             do {
               let a = set_state fd REDIS_SVR_ERROR_STATE a;
               msg \<leftarrow> exce_msg ip p err;
               Some (reconnectAtOnece fd ip p (pool_run (AsyncStateCb fd REDIS_SVR_ERROR_STATE (inSvrInfoStr m))
                 (pool_run (AsyncExceCb fd SVR_CONECT_DISCONNECT msg) a)))
             }
           else Some a
         else Some a)"

definition ms_count :: "nat \<Rightarrow> string \<Rightarrow> c_int \<Rightarrow> bool \<Rightarrow> redis_async \<Rightarrow> int \<times> redis_async" where
  "ms_count fd ip p onConned a =
     (let (r, m) = infoReplicConnsUpdate (clients (rsys a)) ip p onConned True (mgrs a ! fd)
      in (r, upd_mgr fd (\<lambda>_. m) a))"

text \<open>On a disconnect, too, the count is raised (\<open>onConned\<close> is true in all calls).\<close>

definition ms_on_connect :: "nat \<Rightarrow> int \<Rightarrow> string \<Rightarrow> c_int \<Rightarrow> string \<Rightarrow> redis_async \<Rightarrow> redis_async option" where
  "ms_on_connect fd st ip p err a =
     (let m = mgrs a ! fd
      in if initState m = REDIS_SVR_INIT_STATE then
           if st = CONNECT_REDISVR_SUCCESS then
             (if mSlaveCli m = None then Some (pool_run (InfoReplicNodesUpdate fd False) a)
              else
                (let (_, a) = ms_count fd ip p True a
                 in if masterConn (mgrs a ! fd) \<noteq> 0
                    then Some (pool_run (AsyncStateCb fd REDIS_SVR_RUNING_STATE (inSvrInfoStr m)) (set_state fd REDIS_SVR_RUNING_STATE a))
                    else Some a))
           else if st = CONNECT_REDISVR_RESET then
             do {
               msg \<leftarrow> exce_msg ip p err;
               Some (delayReconnect fd ip p (pool_run (AsyncExceCb fd SVR_CONNECT_RESET msg) a))
             }
           else if st = REDISVR_CONNECT_DISCONN then
             do {
               msg \<leftarrow> exce_msg ip p err;
               let (_, a) = ms_count fd ip p True (pool_run (AsyncExceCb fd SVR_CONECT_DISCONNECT msg) a);
               Some (reconnectAtOnece fd ip p a)
             }
           else Some a
         else if initState m = REDIS_SVR_RUNING_STATE then
           if st = CONNECT_REDISVR_SUCCESS then Some (snd (ms_count fd ip p True a))
           else if st = CONNECT_REDISVR_RESET then
             do {
               msg \<leftarrow> exce_msg ip p err;
               Some (delayReconnect fd ip p (pool_run (AsyncExceCb fd SVR_CONNECT_RESET msg) a))
             }
           else if st = REDISVR_CONNECT_DISCONN then
             do {
               msg \<leftarrow> exce_msg ip p err;
               let (r, a) = ms_count fd ip p True (reconnectAtOnece fd ip p (pool_run (AsyncExceCb fd SVR_CONECT_DISCONNECT msg) a));
               Some (if r = MASTER_CLUSTER_ADDRINFO then pool_run (InfoReplicNodesUpdate fd True) a else a)
             }
           else Some a
         else Some a)"

definition cluster_count :: "nat \<Rightarrow> string \<Rightarrow> c_int \<Rightarrow> bool \<Rightarrow> bool \<Rightarrow> redis_async \<Rightarrow> int \<times> redis_async" where
  "cluster_count fd ip p onConned onCount a =
     (let (r, m) = clusterRedisConnsUpdate (clients (rsys a)) ip p onConned onCount (mgrs a ! fd)
      in (r, upd_mgr fd (\<lambda>_. m) a))"

text \<open>\<open>clusterVectInfo_.size() == masterConn_\<close>, then running.\<close>

definition run_if_complete :: "nat \<Rightarrow> redis_async \<Rightarrow> redis_async option" where
  "run_if_complete fd a =
     (case cluterCli (mgrs a ! fd) of
        None \<Rightarrow> None
      | Some ci \<Rightarrow>
          if of_nat (length (clusterVectInfo ci)) = masterConn (mgrs a ! fd)
          then Some (pool_run (AsyncStateCb fd REDIS_SVR_RUNING_STATE (inSvrInfoStr (mgrs a ! fd))) (set_state fd REDIS_SVR_RUNING_STATE a))
          else Some a)"

text \<open>The master of a running or starting cluster is lost.\<close>

definition cluster_lost :: "nat \<Rightarrow> string \<Rightarrow> redis_async \<Rightarrow> redis_async" where
  "cluster_lost fd msg a =
     pool_run (ClusterNodesUpdate fd True False) (pool_run (AsyncStateCb fd REDIS_EXCEPTION_STATE msg) (set_state fd REDIS_EXCEPTION_STATE a))"

definition cluster_reset :: "nat \<Rightarrow> string \<Rightarrow> c_int \<Rightarrow> string \<Rightarrow> redis_async \<Rightarrow> redis_async option" where
  "cluster_reset fd ip p err a =
     do {
       msg \<leftarrow> exce_msg ip p err;
       Some (delayReconnect fd ip p (pool_run (AsyncExceCb fd SVR_CONNECT_RESET msg) a))
     }"

definition cluster_disconn :: "nat \<Rightarrow> bool \<Rightarrow> string \<Rightarrow> c_int \<Rightarrow> string \<Rightarrow> redis_async \<Rightarrow> redis_async option" where
  "cluster_disconn fd lose ip p err a =
     do {
       msg \<leftarrow> exce_msg ip p err;
       let (r, a) = cluster_count fd ip p False True (pool_run (AsyncExceCb fd SVR_CONECT_DISCONNECT msg) a);
       Some (if r \<noteq> NO_IN_CLUSTER_ADDRINFO
             then (let a = reconnectAtOnece fd ip p a in if lose \<and> r = MASTER_CLUSTER_ADDRINFO then cluster_lost fd msg a else a)
             else a)
     }"

definition cluster_on_connect :: "nat \<Rightarrow> int \<Rightarrow> string \<Rightarrow> c_int \<Rightarrow> string \<Rightarrow> redis_async \<Rightarrow> redis_async option" where
  "cluster_on_connect fd st ip p err a =
     (let m = mgrs a ! fd
      in if initState m = REDIS_SVR_INIT_STATE then
           if st = CONNECT_REDISVR_SUCCESS then
             (if nodes_of (cluterCli m) = [] then Some (pool_run (ClusterNodesUpdate fd False True) a)
              else run_if_complete fd (snd (cluster_count fd ip p True True a)))
           else if st = CONNECT_REDISVR_RESET then
             do {
               msg \<leftarrow> exce_msg ip p err;
               let (r, a) = cluster_count fd ip p False False (pool_run (AsyncExceCb fd SVR_CONNECT_RESET msg) a);
               Some (if r \<noteq> NO_IN_CLUSTER_ADDRINFO
                     then (let a = delayReconnect fd ip p a in if r = MASTER_CLUSTER_ADDRINFO then cluster_lost fd msg a else a)
                     else a)
             }
           else if st = REDISVR_CONNECT_DISCONN then cluster_disconn fd True ip p err a
           else Some a
         else if initState m = REDIS_SVR_RUNING_STATE then
           if st = CONNECT_REDISVR_SUCCESS then Some (snd (cluster_count fd ip p True True a))
           else if st = CONNECT_REDISVR_RESET then cluster_reset fd ip p err a
           else if st = REDISVR_CONNECT_DISCONN then cluster_disconn fd True ip p err a
           else Some a
         else if initState m = REDIS_EXCEPTION_STATE then
           if st = CONNECT_REDISVR_SUCCESS then run_if_complete fd (snd (cluster_count fd ip p True True a))
           else if st = CONNECT_REDISVR_RESET then cluster_reset fd ip p err a
           else if st = REDISVR_CONNECT_DISCONN then cluster_disconn fd False ip p err a
           else Some a
         else if initState m = REDIS_SVR_ERROR_STATE then
           if st = CONNECT_REDISVR_SUCCESS then Some (snd (cluster_count fd ip p True True a))
           else if st = CONNECT_REDISVR_RESET then cluster_reset fd ip p err a
           else if st = REDISVR_CONNECT_DISCONN then cluster_disconn fd False ip p err a
           else Some a
         else Some a)"

definition redisSvrOnConnect :: "nat \<Rightarrow> int \<Rightarrow> string \<Rightarrow> c_int \<Rightarrow> string \<Rightarrow> redis_async \<Rightarrow> redis_async option" where
  "redisSvrOnConnect fd st ip p err a =
     (if length (mgrs a) \<le> fd then Some a
      else
        (let t = svrType (mgrs a ! fd)
         in if t = REDIS_UNKNOWN_SERVER
            then Some (pool_run (SvrMgrInvalid fd) (pool_run (AsyncExceCb fd UNKOWN_REDIS_SVR_TYPE (inSvrInfoStr (mgrs a ! fd))) a))
            else if t = REDIS_SINGLE_SERVER then single_on_connect fd st ip p err a
            else if t = REDIS_MASTER_SLAVE_SERVER then ms_on_connect fd st ip p err a
            else if t = REDIS_CLUSTER_SERVER then cluster_on_connect fd st ip p err a
            else Some a))"
section \<open>What the internal commands answer\<close>

definition clusterInfoCallBack :: "int \<Rightarrow> nat option \<Rightarrow> string list \<Rightarrow> redis_async \<Rightarrow> redis_async option" where
  "clusterInfoCallBack ret priv resultMsg a =
     (case priv of
        None \<Rightarrow> Some a
      | Some fd \<Rightarrow>
          (let m = mgrs a ! fd;
               fail = (if initState m \<noteq> REDIS_SVR_ERROR_STATE
                       then pool_run (AsyncStateCb fd REDIS_SVR_ERROR_STATE (inSvrInfoStr m)) (set_state fd REDIS_SVR_ERROR_STATE a)
                       else a)
           in if initState m = REDIS_SVR_INVALID_STATE then Some a
              else if ret = 0 then
                do {
                  r0 \<leftarrow> vec_at resultMsg 0;
                  l0 \<leftarrow> vec_at (split r0 [LF] []) 0;
                  Some (case str_find l0 '':'' 0 of
                          None \<Rightarrow> fail
                        | Some pos \<Rightarrow>
                            if drop (pos + 1) l0 = ''ok''
                            then if initState m = REDIS_SVR_ERROR_STATE then set_state fd REDIS_EXCEPTION_STATE a else a
                            else fail)
                }
              else Some a))"

text \<open>The connect orders for the connections a parser has made.\<close>

fun connect_all :: "nat list \<Rightarrow> redis_async \<Rightarrow> redis_async option" where
  "connect_all [] a = Some a"
| "connect_all (c # cs) a = (case io_order (Some c) (connect_node c 0) a of None \<Rightarrow> None | Some a \<Rightarrow> connect_all cs a)"

text \<open>The connection the next internal command goes to, when the present one is down: the first that is up.\<close>

fun choose_node :: "(nat \<Rightarrow> RedisClient) \<Rightarrow> RedisClusterNode list \<Rightarrow> nat option \<Rightarrow> nat option" where
  "choose_node st [] cur = cur"
| "choose_node st (n # ns) cur =
     (if conned st (master (clusterNode n)) then master (clusterNode n)
      else
        (let cur = (case connected_slave st (slave (clusterNode n)) of Some c \<Rightarrow> Some c | None \<Rightarrow> cur)
         in if conned st cur then cur else choose_node st ns cur))"

definition node_down :: "(nat \<Rightarrow> RedisClient) \<Rightarrow> nat option \<Rightarrow> bool" where
  "node_down st c = (case c of None \<Rightarrow> True | Some c \<Rightarrow> state (st c) = REDIS_CLIENT_STATE_INIT)"

definition cluster_retry :: "nat \<Rightarrow> redis_async \<Rightarrow> redis_async" where
  "cluster_retry fd a =
     (let m = mgrs a ! fd; st = clients (rsys a);
          a = (if node_down st (nodeCli m)
               then upd_mgr fd (\<lambda>m. m\<lparr>nodeCli := choose_node st (nodes_of (cluterCli m)) (nodeCli m)\<rparr>) a else a);
          a = pool_run (ClusterNodesUpdate fd True False) a;
          (p, a) = new_order (OrderNode_new ''CLUSTER INFO'' (Some CB_CLUSTER_INFO) (Some fd)) a
      in timer_order \<lparr>node_outSecond = nowSecond a + DEFAULT_DELAY_CMD_SECOND, cli = nodeCli (mgrs a ! fd), cmdOrd = Some p\<rparr> a)"

definition has_failed_master :: "string \<Rightarrow> bool" where
  "has_failed_master txt \<longleftrightarrow> list_ex (\<lambda>l. str_find l ''master,fail'' 0 \<noteq> None) (split txt [LF] [])"

definition recount_state :: "nat \<Rightarrow> redis_async \<Rightarrow> redis_async" where
  "recount_state fd a =
     (let m = mgrs a ! fd
      in case cluterCli m of
           None \<Rightarrow> pool_run (SvrMgrInvalid fd) a
         | Some ci \<Rightarrow>
             if of_nat (length (clusterVectInfo ci)) = masterConn m \<and> initState m \<noteq> REDIS_SVR_RUNING_STATE
             then pool_run (AsyncStateCb fd REDIS_SVR_RUNING_STATE (inSvrInfoStr m)) (set_state fd REDIS_SVR_RUNING_STATE a)
             else if of_nat (length (clusterVectInfo ci)) \<noteq> masterConn m \<and> initState m = REDIS_SVR_RUNING_STATE
             then pool_run (AsyncStateCb fd REDIS_EXCEPTION_STATE (inSvrInfoStr m))
                    (pool_run (AsyncExceCb fd CLUSTER_NODES_CHANGE (inSvrInfoStr m)) (set_state fd REDIS_EXCEPTION_STATE a))
             else a)"

definition clusterNodesCallBack :: "int \<Rightarrow> nat option \<Rightarrow> string list \<Rightarrow> redis_async \<Rightarrow> redis_async option" where
  "clusterNodesCallBack ret priv resultMsg a =
     (case priv of
        None \<Rightarrow> Some a
      | Some fd \<Rightarrow>
          if initState (mgrs a ! fd) = REDIS_SVR_INVALID_STATE then Some a
          else if ret \<noteq> 0 then Some (cluster_retry fd a)
          else
            do {
              r0 \<leftarrow> vec_at resultMsg 0;
              if has_failed_master r0 then Some (cluster_retry fd a)
              else
                do {
                  (result, added, m, st) \<leftarrow> analysisClusterNodes (opts a) r0 (mgrs a ! fd) (store_of a);
                  let a = upd_mgr fd (\<lambda>_. m) (with_store st a);
                  if result = 0 then map_option (recount_state fd) (connect_all added a)
                  else Some (cluster_retry fd a)
                }
            })"

definition clusterInitCallBack :: "int \<Rightarrow> nat option \<Rightarrow> string list \<Rightarrow> redis_async \<Rightarrow> redis_async option" where
  "clusterInitCallBack ret priv resultMsg a =
     (case priv of
        None \<Rightarrow> Some a
      | Some fd \<Rightarrow>
          if initState (mgrs a ! fd) = REDIS_SVR_INVALID_STATE then Some a
          else if ret \<noteq> 0 then Some (pool_run (ClusterNodesUpdate fd True True) a)
          else
            do {
              r0 \<leftarrow> vec_at resultMsg 0;
              (result, added, m, st) \<leftarrow> analysisClusterNodes (opts a) r0 (mgrs a ! fd) (store_of a);
              let a = upd_mgr fd (\<lambda>_. m) (with_store st a);
              if result = 0
              then map_option (\<lambda>a. if has_failed_master r0 then pool_run (ClusterNodesUpdate fd True False) a else a) (connect_all added a)
              else Some (pool_run (ClusterNodesUpdate fd True True)
                     (pool_run (AsyncExceCb fd CLUSTER_INITSTR_FORMATE (inSvrInfoStr m @ [LF] @ r0)) a))
            })"

definition ms_recount :: "nat \<Rightarrow> redis_async \<Rightarrow> redis_async" where
  "ms_recount fd a =
     (let m = mgrs a ! fd
      in if masterConn m = 1 \<and> initState m \<noteq> REDIS_SVR_RUNING_STATE
         then pool_run (AsyncStateCb fd REDIS_SVR_RUNING_STATE (inSvrInfoStr m)) (set_state fd REDIS_SVR_RUNING_STATE a)
         else if masterConn m = 0 \<and> initState m = REDIS_SVR_RUNING_STATE
         then (let v = (if slaveConn m \<noteq> 0 then REDIS_EXCEPTION_STATE else REDIS_SVR_ERROR_STATE)
               in pool_run (AsyncStateCb fd v (inSvrInfoStr m))
                    (pool_run (AsyncExceCb fd MASTER_SLAVE_NODES_CHANGE (inSvrInfoStr m)) (set_state fd v a)))
         else a)"

text \<open>The end of \<open>infoReplicationCb\<close>; the answer is read again at once or after a delay.\<close>

definition ms_retry :: "nat \<Rightarrow> redis_async \<Rightarrow> redis_async option" where
  "ms_retry fd a =
     (let m = mgrs a ! fd; st = clients (rsys a)
      in do {
           a \<leftarrow> (if node_down st (nodeCli m)
                 then (case mSlaveCli m of
                         None \<Rightarrow> None
                       | Some ms \<Rightarrow>
                           (let cur = (if conned st (master ms) then master ms else nodeCli m);
                                cur = (case connected_slave st (slave ms) of Some c \<Rightarrow> Some c | None \<Rightarrow> cur)
                            in Some (upd_mgr fd (\<lambda>m. m\<lparr>nodeCli := cur\<rparr>) a)))
                 else Some a);
           Some (pool_run (InfoReplicNodesUpdate fd (masterConn m = 0)) a)
         })"

definition infoReplicationCb :: "int \<Rightarrow> nat option \<Rightarrow> string list \<Rightarrow> redis_async \<Rightarrow> redis_async option" where
  "infoReplicationCb ret priv resultMsg a =
     (case priv of
        None \<Rightarrow> Some a
      | Some fd \<Rightarrow>
          if initState (mgrs a ! fd) = REDIS_SVR_INVALID_STATE then Some a
          else
            do {
              r0 \<leftarrow> vec_at resultMsg 0;
              (result, added, m, st) \<leftarrow> analysisSlaveNodes (opts a) r0 (mgrs a ! fd) (store_of a);
              let a = upd_mgr fd (\<lambda>_. m) (with_store st a);
              a \<leftarrow> (if result \<ge> 0 then map_option (ms_recount fd) (connect_all added a) else Some a);
              if result = 0 then Some a else ms_retry fd a
            })"

section \<open>Handles\<close>

definition utilFristConstchar :: "string \<Rightarrow> char \<Rightarrow> c_ptr" where
  "utilFristConstchar str c = strFristChar_loop str c"

lemma strFristChar_loop_shorter: "strFristChar_loop p c = Some q \<Longrightarrow> q \<noteq> [] \<and> length q \<le> length p"
  by (induction p) (auto split: if_splits)

lemma utilFristConstchar_tl: "utilFristConstchar p c = Some q \<Longrightarrow> length (tl q) < length p"
  using strFristChar_loop_shorter [of p c q] by (cases q) (auto simp: utilFristConstchar_def)

text \<open>The loop over the addresses of a handle, \<open>ip:port,ip:port\<close>: the code and the addresses read.\<close>

function init_addrs :: "string \<Rightarrow> RedisSvrInfo list \<Rightarrow> int \<times> RedisSvrInfo list" where
  "init_addrs pBegin acc =
     (let pComma = utilFristConstchar pBegin CHR '',''
      in case utilFristConstchar pBegin CHR '':'' of
           None \<Rightarrow> (INIT_PARAMETER_ERROR, acc)
         | Some pColon \<Rightarrow>
             (let ip = take (length pBegin - length pColon) pBegin; pPort = tl pColon
              in if length ip > 15 then (INIT_PARAMETER_ERROR, acc)
                 else if (case pComma of
                            Some q \<Rightarrow> length pPort < length q \<or> length pPort - length q > 5
                          | None \<Rightarrow> length pPort > 5) then (INIT_PARAMETER_ERROR, acc)
                 else
                   (let acc = acc @ [\<lparr>port = atoi pPort, ipAddr = ip\<rparr>]
                    in case pComma of None \<Rightarrow> (INIT_SUCCESS_CODE, acc) | Some q \<Rightarrow> init_addrs (tl q) acc)))"
  by pat_completeness auto
termination
  by (relation "measure (\<lambda>(p, acc). length p)") (simp_all only: in_measure prod.case wf_measure, rule utilFristConstchar_tl, simp)

declare init_addrs.simps [simp del]

definition redisInitConnect :: "redis_async \<Rightarrow> (int \<times> redis_async) option" where
  "redisInitConnect a =
     (let fd = length (mgrs a) - 1;
          m = mgrs a ! fd;
          (ret, addrs) = init_addrs (c_str (inSvrInfoStr m)) (initSvrInfo m);
          a = upd_mgr fd (\<lambda>m. m\<lparr>initSvrInfo := addrs\<rparr>) a
      in if ret \<noteq> INIT_SUCCESS_CODE then Some (ret, a)
         else
           do {
             svr \<leftarrow> vec_at addrs (initSvrIndex m);
             let (c, st) = new_client (opts a) (mgr_fd m) svr (store_of a);
             let a = upd_mgr fd (\<lambda>m. m\<lparr>nodeCli := Some c\<rparr>) (with_store st a);
             a \<leftarrow> io_order (Some c) (connect_node c 0) a;
             Some (INIT_SUCCESS_CODE, a)
           })"

definition initialised :: "redis_async \<Rightarrow> bool" where
  "initialised a \<longleftrightarrow> callBackNum a \<noteq> 0 \<and> ioThreadNum (opts a) \<noteq> 0 \<and> keepSecond (opts a) \<noteq> 0 \<and> connOutSec (opts a) \<noteq> 0"

definition add_handle :: "int \<Rightarrow> string \<Rightarrow> string \<Rightarrow> redis_async \<Rightarrow> (int \<times> redis_async) option" where
  "add_handle t ipPortInfo au a =
     (if \<not> initialised a then Some (INIT_NO_INIT_ERROR, a)
      else
        (let fd = length (mgrs a)
         in do {
              (ret, a) \<leftarrow> redisInitConnect (a\<lparr>mgrs := mgrs a @
                [RedisClientMgr_new\<lparr>inSvrInfoStr := ipPortInfo, auth := au, svrType := t, mgr_fd := fd\<rparr>]\<rparr>);
              Some (if ret < 0 then ret else int fd, a)
            }))"

definition addSigleRedisInfo :: "string \<Rightarrow> string \<Rightarrow> redis_async \<Rightarrow> (int \<times> redis_async) option" where
  "addSigleRedisInfo ipPortInfo au a = add_handle REDIS_SINGLE_SERVER ipPortInfo au a"

definition addMasterSlaveInfo :: "string \<Rightarrow> string \<Rightarrow> redis_async \<Rightarrow> (int \<times> redis_async) option" where
  "addMasterSlaveInfo ipPortInfo au a = add_handle REDIS_MASTER_SLAVE_SERVER ipPortInfo au a"

definition addClusterInfo :: "string \<Rightarrow> string \<Rightarrow> redis_async \<Rightarrow> (int \<times> redis_async) option" where
  "addClusterInfo ipPortInfo au a = add_handle REDIS_CLUSTER_SERVER ipPortInfo au a"

definition setReleaseState :: "nat option \<Rightarrow> redis_sys \<Rightarrow> redis_sys" where
  "setReleaseState c s = (case c of None \<Rightarrow> s | Some c \<Rightarrow> upd_client c (\<lambda>c. c\<lparr>releaseState := 1\<rparr>) s)"

definition group_clients :: "RedisMasterSlave \<Rightarrow> nat option list" where
  "group_clients ms = master ms # slave ms"

definition redisSvrMgrInvalid :: "nat \<Rightarrow> redis_async \<Rightarrow> redis_async" where
  "redisSvrMgrInvalid fd a =
     (let m = mgrs a ! fd;
          s = setReleaseState (nodeCli m) (rsys a);
          s = (case mSlaveCli m of None \<Rightarrow> s | Some ms \<Rightarrow> fold setReleaseState (group_clients ms) s);
          s = fold (\<lambda>n. fold setReleaseState (group_clients (clusterNode n))) (nodes_of (cluterCli m)) s
      in pool_run (AsyncStateCb fd REDIS_SVR_INVALID_STATE (inSvrInfoStr m))
           (upd_mgr fd (\<lambda>m. m\<lparr>mSlaveCli := None, cluterCli := None, initState := REDIS_SVR_INVALID_STATE\<rparr>) (a\<lparr>rsys := s\<rparr>)))"

section \<open>Commands\<close>

abbreviation REDIS_CLUSTER_MAX_SLOT :: u16 where "REDIS_CLUSTER_MAX_SLOT \<equiv> 16383"

text \<open>The connection for a command, or the code it is refused with.\<close>

definition route :: "string \<Rightarrow> (nat \<Rightarrow> RedisClient) \<Rightarrow> RedisClientMgr \<Rightarrow> int + nat option" where
  "route key st m =
     (if svrType m = REDIS_SINGLE_SERVER \<or> svrType m = REDIS_MASTER_SLAVE_SERVER then Inr (nodeCli m)
      else if svrType m = REDIS_CLUSTER_SERVER then
        (let s = getKeySlotIndex key
         in if s > REDIS_CLUSTER_MAX_SLOT then Inl CMD_SLOTS_CALCUL_ERROR_CODE
            else case cluterCli m of
                   None \<Rightarrow> Inl CMD_SVR_INVALID_CODE
                 | Some ci \<Rightarrow>
                     (case clusterSlotMap ci s of
                        None \<Rightarrow> Inl CMD_SVR_NODES_DOWN
                      | Some c \<Rightarrow> if state (st c) = REDIS_CLIENT_STATE_INIT then Inr (getRedisClient_slot st m s) else Inr (Some c)))
      else Inl CMD_SVR_INVALID_CODE)"

definition redisAsyncCommand_mgr ::
  "int \<Rightarrow> nat option \<Rightarrow> int \<Rightarrow> nat option \<Rightarrow> string \<Rightarrow> string \<Rightarrow> redis_async \<Rightarrow> (int \<times> redis_async) option" where
  "redisAsyncCommand_mgr asyFd cb outSec priv key cmdStr a =
     (if asyFd < 0 \<or> key = [] \<or> cmdStr = [] \<or> outSec = 0 \<or> nat asyFd \<ge> length (mgrs a) then Some (CMD_PARAMETER_ERROR_CODE, a)
      else
        (let m = mgrs a ! nat asyFd; st = clients (rsys a)
         in if initState m \<in> {REDIS_SVR_INIT_STATE, REDIS_SVR_ERROR_STATE, REDIS_SVR_INVALID_STATE} then Some (CMD_SVR_STATE_ERROR_CODE, a)
            else case route key st m of
                   Inl e \<Rightarrow> Some (e, a)
                 | Inr None \<Rightarrow> Some (CMD_SVR_NODES_DOWN, a)
                 | Inr (Some c) \<Rightarrow>
                     if state (st c) = REDIS_CLIENT_STATE_INIT then Some (CMD_SVR_NODES_DOWN, a)
                     else
                       (let t = nowSecond a + word_of_int outSec;
                            (p, a) = new_order ((OrderNode_new cmdStr cb priv)\<lparr>outSecond := word_of_int outSec, cmdOutSecond := t\<rparr>) a
                        in map_option (Pair CMD_SUCCESS_CODE) (io_order (Some c) \<lparr>node_outSecond = t, cli = Some c, cmdOrd = Some p\<rparr> a))))"

text \<open>One round of the timer thread.\<close>

fun wake_all :: "u64 \<Rightarrow> LibeventIo list \<Rightarrow> LibeventIo list" where
  "wake_all now [] = []"
| "wake_all now (io # rest) = libeventIoWakeup now io # wake_all now rest"

fun hand_over :: "RedisCliOrderNode list \<Rightarrow> redis_async \<Rightarrow> redis_async option" where
  "hand_over [] a = Some a"
| "hand_over (n # ns) a = (case io_order (cli n) n a of None \<Rightarrow> None | Some a \<Rightarrow> hand_over ns a)"

definition timer_tick :: "u64 \<Rightarrow> redis_async \<Rightarrow> redis_async option" where
  "timer_tick now a =
     do {
       let a = a\<lparr>nowSecond := now, ios := wake_all now (ios a)\<rparr>;
       (due, rest, ords) \<leftarrow> timer_orders now (timerDeque a) (orders (rsys a));
       hand_over due (a\<lparr>timerDeque := rest, rsys := (rsys a)\<lparr>orders := ords\<rparr>\<rparr>)
     }"

definition redisAsyncInit :: "c_int \<Rightarrow> c_int \<Rightarrow> c_int \<Rightarrow> c_int \<Rightarrow> u64 \<Rightarrow> redis_async \<Rightarrow> int \<times> redis_async" where
  "redisAsyncInit threadNum callbackNum connOut keep clock a =
     (if initialised a then (INIT_SUCCESS_CODE, a)
      else if sint threadNum < 1 \<or> sint callbackNum < 1 \<or> sint connOut < 1 \<or> sint keep < 1 then (INIT_PARAMETER_ERROR, a)
      else (INIT_SUCCESS_CODE,
        a\<lparr>opts := \<lparr>ioThreadNum = nat (sint threadNum), keepSecond = keep, connOutSec = connOut\<rparr>, callBackNum := callbackNum,
          nowSecond := clock,
          ios := ios a @ replicate (nat (sint threadNum))
            \<lparr>io_nowSecond = 0, io_lastSecond = 0, orderDeque = [], ioRedisClients = [], wakeups = 0\<rparr>\<rparr>))"

section \<open>Counting in a cluster\<close>

text \<open>The connections of the nodes, and that they have different addresses.\<close>

definition members :: "RedisClusterNode list \<Rightarrow> nat option list" where
  "members ns = concat (map (\<lambda>n. group_clients (clusterNode n)) ns)"

definition addrs_ok :: "(nat \<Rightarrow> RedisClient) \<Rightarrow> RedisClusterNode list \<Rightarrow> bool" where
  "addrs_ok st ns \<longleftrightarrow> distinct (map (addr_of st) (members ns)) \<and> None \<notin> addr_of st ` set (members ns)"

lemma isSelf_addr: "isSelfSvrInfo_cli_addr st c ip p \<longleftrightarrow> addr_of st c = Some \<lparr>port = p, ipAddr = ip\<rparr>"
  by (auto simp: isSelfSvrInfo_cli_addr_def isSelfSvrInfo_addr_def addr_of_def split: option.split)

lemma among_iff: "among st cs ip p \<longleftrightarrow> Some \<lparr>port = p, ipAddr = ip\<rparr> \<in> addr_of st ` set cs"
  by (induction cs) (auto simp: isSelf_addr image_iff)

lemma members_simps [simp]:
  "members [] = []" "members (n # ns) = master (clusterNode n) # slave (clusterNode n) @ members ns"
  by (simp_all add: members_def group_clients_def)

lemma master_member: "n \<in> set ns \<Longrightarrow> master (clusterNode n) \<in> set (members ns)"
  by (induction ns) auto

lemma cluster_role_master:
  "distinct (map (addr_of st) (members ns)) \<Longrightarrow>
   cluster_role st ns ip p = MASTER_CLUSTER_ADDRINFO \<longleftrightarrow>
   (\<exists>n \<in> set ns. addr_of st (master (clusterNode n)) = Some \<lparr>port = p, ipAddr = ip\<rparr>)"
proof (induction ns)
  case (Cons n ns)
  have "addr_of st ` set (slave (clusterNode n)) \<inter> addr_of st ` set (members ns) = {}" using Cons.prems by auto
  then have no: "addr_of st (master (clusterNode m)) \<notin> addr_of st ` set (slave (clusterNode n))" if "m \<in> set ns" for m
    using master_member [OF that] by blast
  show ?case
  proof (cases "Some \<lparr>port = p, ipAddr = ip\<rparr> \<in> addr_of st ` set (slave (clusterNode n))")
    case True
    then have "\<not> (\<exists>m \<in> set ns. addr_of st (master (clusterNode m)) = Some \<lparr>port = p, ipAddr = ip\<rparr>)" using no by metis
    with True show ?thesis by (auto simp: group_role_def isSelf_addr among_iff Let_def)
  next
    case False
    with Cons show ?thesis by (auto simp: group_role_def isSelf_addr among_iff Let_def)
  qed
qed simp

text \<open>A connection changes its state: the number of masters that are up changes when it is a master.\<close>

lemma addr_of_upd: "svrInfo (f (st c)) = svrInfo (st c) \<Longrightarrow> addr_of (st(c := f (st c))) = addr_of st"
  by (auto simp: addr_of_def fun_eq_iff split: option.split)

lemma conned_upd: "conned (st(c := x)) d = (if d = Some c then state x = REDIS_CLIENT_STATE_CONN else conned st d)"
  by (auto simp: conned_def split: option.split)

lemma masters_up_Cons: "masters_up up (n # ns) = (if up (master (clusterNode n)) then 1 else 0) + masters_up up ns"
  by (simp add: masters_up_def)

text \<open>\<open>up'\<close> is \<open>up\<close> with the value \<open>b\<close> for \<open>c\<close>.\<close>

lemma masters_up_other: "(\<And>d. d \<noteq> c \<Longrightarrow> up' d = up d) \<Longrightarrow> c \<notin> set (map (master \<circ> clusterNode) ns) \<Longrightarrow> masters_up up' ns = masters_up up ns"
proof (induction ns)
  case (Cons n ns)
  then have "up' (master (clusterNode n)) = up (master (clusterNode n))" by auto
  with Cons show ?case by (simp add: masters_up_Cons)
qed (simp add: masters_up_def)

lemma masters_up_flip:
  assumes "\<And>d. d \<noteq> c \<Longrightarrow> up' d = up d" and "distinct (members ns)" and "c \<in> set (map (master \<circ> clusterNode) ns)"
  shows "masters_up up' ns + (if up c then 1 else 0) = masters_up up ns + (if up' c then 1 else 0)"
  using assms(2,3)
proof (induction ns)
  case (Cons n ns)
  show ?case
  proof (cases "master (clusterNode n) = c")
    case True
    have "c \<notin> set (map (master \<circ> clusterNode) ns)" using Cons.prems(1) True master_member [of _ ns] by auto
    with True masters_up_other [OF assms(1) this] show ?thesis by (simp add: masters_up_Cons)
  next
    case False
    then have "up' (master (clusterNode n)) = up (master (clusterNode n))" using assms(1) by simp
    with Cons False show ?thesis by (simp add: masters_up_Cons)
  qed
qed simp

lemma masters_up_le: "masters_up up ns \<le> length ns"
  by (simp add: masters_up_def)

lemma masters_up_all: "masters_up up ns = length ns \<longleftrightarrow> (\<forall>n \<in> set ns. up (master (clusterNode n)))"
proof (induction ns)
  case (Cons n ns)
  then show ?case using masters_up_le [of up ns] by (simp add: masters_up_Cons)
qed (simp add: masters_up_def)

text \<open>
  The report of a connection \<open>c\<close> of address \<open>a0\<close> that has changed its state: it is counted as a master exactly when it is
  one, provided that no other connection has its address.
\<close>

lemma role_of_connection:
  assumes "addrs_ok st ns" and "svrInfo (st c) = Some \<lparr>port = p, ipAddr = ip\<rparr>"
    and "Some c \<in> set (members ns) \<or> Some \<lparr>port = p, ipAddr = ip\<rparr> \<notin> addr_of st ` set (members ns)"
  shows "cluster_role st ns ip p = MASTER_CLUSTER_ADDRINFO \<longleftrightarrow> Some c \<in> set (map (master \<circ> clusterNode) ns)"
proof -
  have d: "distinct (map (addr_of st) (members ns))" using assms(1) by (simp add: addrs_ok_def)
  have c: "addr_of st (Some c) = Some \<lparr>port = p, ipAddr = ip\<rparr>" using assms(2) by (simp add: addr_of_def)
  have inj: "inj_on (addr_of st) (set (members ns))" using d by (simp add: distinct_map)
  show ?thesis unfolding cluster_role_master [OF d]
  proof
    assume "\<exists>n \<in> set ns. addr_of st (master (clusterNode n)) = Some \<lparr>port = p, ipAddr = ip\<rparr>"
    then obtain n where n: "n \<in> set ns" "addr_of st (master (clusterNode n)) = addr_of st (Some c)" using c by auto
    have "Some c \<in> set (members ns)" using assms(3) n c master_member [OF n(1)] by (metis image_eqI)
    then have "master (clusterNode n) = Some c" using inj n master_member [OF n(1)] by (auto dest: inj_onD)
    then show "Some c \<in> set (map (master \<circ> clusterNode) ns)" using n by force
  next
    assume "Some c \<in> set (map (master \<circ> clusterNode) ns)"
    then show "\<exists>n \<in> set ns. addr_of st (master (clusterNode n)) = Some \<lparr>port = p, ipAddr = ip\<rparr>" using c by force
  qed
qed

section \<open>A running cluster has all its masters\<close>

text \<open>
  The invariant of a cluster handle: the addresses of its nodes differ, the slot map is the one of the nodes, the counter is the
  number of masters that are up, and in the running state they all are.
\<close>

definition mgr_sound :: "(nat \<Rightarrow> RedisClient) \<Rightarrow> RedisClientMgr \<Rightarrow> bool" where
  "mgr_sound st m \<longleftrightarrow>
     initState m \<in> {REDIS_SVR_INIT_STATE, REDIS_SVR_RUNING_STATE, REDIS_EXCEPTION_STATE, REDIS_SVR_ERROR_STATE, REDIS_SVR_INVALID_STATE} \<and>
     (case cluterCli m of
        None \<Rightarrow> True
      | Some ci \<Rightarrow>
          (let ns = clusterVectInfo ci
           in initState m \<noteq> REDIS_SVR_INVALID_STATE \<and> addrs_ok st ns \<and> length ns < 2 ^ 64 \<and> clusterSlotMap ci = slot_owner ns \<and>
              masterConn m = of_nat (masters_up (conned st) ns) \<and>
              (initState m = REDIS_SVR_RUNING_STATE \<longrightarrow> masters_up (conned st) ns = length ns)))"

lemma mgr_sound_None: "cluterCli m = None \<Longrightarrow> mgr_sound st m \<longleftrightarrow> initState m \<in> {0, 1, 2, 3, 4}"
  by (simp add: mgr_sound_def)

lemma mgr_sound_Some:
  "cluterCli m = Some ci \<Longrightarrow> mgr_sound st m \<longleftrightarrow> initState m \<in> {0, 1, 2, 3} \<and> addrs_ok st (clusterVectInfo ci) \<and>
     length (clusterVectInfo ci) < 2 ^ 64 \<and> clusterSlotMap ci = slot_owner (clusterVectInfo ci) \<and>
     masterConn m = of_nat (masters_up (conned st) (clusterVectInfo ci)) \<and>
     (initState m = REDIS_SVR_RUNING_STATE \<longrightarrow> masters_up (conned st) (clusterVectInfo ci) = length (clusterVectInfo ci))"
proof -
  have "initState m \<in> {0, 1, 2, 3, 4} \<and> initState m \<noteq> 4 \<longleftrightarrow> initState m \<in> {0, 1, 2, 3}" by auto
  then show "cluterCli m = Some ci \<Longrightarrow> ?thesis" unfolding mgr_sound_def Let_def by (simp only: option.case) blast
qed

definition cluster_inv :: "nat \<Rightarrow> redis_async \<Rightarrow> bool" where
  "cluster_inv fd a \<longleftrightarrow> fd < length (mgrs a) \<and> svrType (mgrs a ! fd) = REDIS_CLUSTER_SERVER \<and> fresh_ok (store_of a) \<and>
     mgr_sound (clients (rsys a)) (mgrs a ! fd)"

text \<open>Operations that touch neither the handles nor the connections.\<close>

definition untouched :: "redis_async \<Rightarrow> redis_async \<Rightarrow> bool" where
  "untouched a a' \<longleftrightarrow> mgrs a' = mgrs a \<and> clients (rsys a') = clients (rsys a) \<and> nextCli a' = nextCli a"

lemma untouched_refl [simp]: "untouched a a" by (simp add: untouched_def)

lemma untouched_trans: "untouched a b \<Longrightarrow> untouched b c \<Longrightarrow> untouched a c" by (simp add: untouched_def)

lemma untouched_inv: "untouched a a' \<Longrightarrow> cluster_inv fd a' = cluster_inv fd a"
  by (simp add: untouched_def cluster_inv_def fresh_ok_def store_of_def)

lemma untouched_pool [simp]: "untouched a (pool_run t b) = untouched a b" by (simp add: untouched_def pool_run_def)

lemma untouched_timer [simp]: "untouched a (timer_order n b) = untouched a b" by (simp add: untouched_def timer_order_def)

lemma untouched_reconnect [simp]: "untouched a (reconnectAtOnece fd ip p b) = untouched a b" "untouched a (delayReconnect fd ip p b) = untouched a b"
  by (simp_all add: reconnectAtOnece_def delayReconnect_def split: option.split)

lemma untouched_new_order: "new_order d a = (p, b) \<Longrightarrow> untouched a b"
  by (auto simp: new_order_def untouched_def upd_order_def Let_def)

lemma libeventIoOrder_clients: "libeventIoOrder n t (io, s) = (io', s') \<Longrightarrow> clients s' = clients s"
  by (auto simp: libeventIoOrder_def asyncRequestCmdAdd_def split: option.splits if_splits)

lemma untouched_io_order: "io_order c n a = Some b \<Longrightarrow> untouched a b"
  by (auto simp: io_order_def untouched_def Let_def split: option.splits if_splits prod.splits dest: libeventIoOrder_clients)

lemma untouched_connect_all: "connect_all cs a = Some b \<Longrightarrow> untouched a b"
  by (induction cs arbitrary: a) (auto split: option.splits dest: untouched_io_order intro: untouched_trans)

lemma untouched_hand_over: "hand_over ns a = Some b \<Longrightarrow> untouched a b"
  by (induction ns arbitrary: a) (auto split: option.splits dest: untouched_io_order intro: untouched_trans)

lemma untouched_clusterNodesUpdate: "clusterNodesUpdate fd d i a = Some b \<Longrightarrow> untouched a b"
  unfolding clusterNodesUpdate_def Let_def
  by (auto split: if_splits prod.splits dest!: untouched_new_order untouched_io_order intro: untouched_trans)

lemma untouched_timer_tick: "timer_tick now a = Some b \<Longrightarrow> untouched a b"
  unfolding timer_tick_def Let_def
  by (auto simp: untouched_def split: bind_splits dest!: untouched_hand_over)

lemma untouched_command: "redisAsyncCommand_mgr fd cb out priv key cmd a = Some (r, b) \<Longrightarrow> untouched a b"
  unfolding redisAsyncCommand_mgr_def Let_def
  by (auto split: if_splits prod.splits sum.splits option.splits dest!: untouched_new_order untouched_io_order intro: untouched_trans)

text \<open>The handle of a report: what the counting changes, and the state.\<close>

lemma upd_mgr_same [simp]: "fd < length (mgrs a) \<Longrightarrow> mgrs (upd_mgr fd f a) ! fd = f (mgrs a ! fd)"
  by (simp add: upd_mgr_def)

lemma upd_mgr_rest [simp]: "clients (rsys (upd_mgr fd f a)) = clients (rsys a)" "nextCli (upd_mgr fd f a) = nextCli a"
  "length (mgrs (upd_mgr fd f a)) = length (mgrs a)" "ioCounter (upd_mgr fd f a) = ioCounter a"
  by (simp_all add: upd_mgr_def)

lemma pool_run_rest [simp]: "mgrs (pool_run t a) = mgrs a" "rsys (pool_run t a) = rsys a" "nextCli (pool_run t a) = nextCli a"
  "ioCounter (pool_run t a) = ioCounter a"
  by (simp_all add: pool_run_def)

lemma reconnect_rest [simp]:
  "mgrs (reconnectAtOnece fd ip p a) = mgrs a" "rsys (reconnectAtOnece fd ip p a) = rsys a" "nextCli (reconnectAtOnece fd ip p a) = nextCli a"
  "mgrs (delayReconnect fd ip p a) = mgrs a" "rsys (delayReconnect fd ip p a) = rsys a" "nextCli (delayReconnect fd ip p a) = nextCli a"
  by (simp_all add: reconnectAtOnece_def delayReconnect_def timer_order_def split: option.split)

text \<open>What a handler may do to the handle \<open>fd\<close>, and nothing else of interest.\<close>

definition mgr_becomes :: "nat \<Rightarrow> redis_async \<Rightarrow> redis_async \<Rightarrow> RedisClientMgr \<Rightarrow> bool" where
  "mgr_becomes fd a a' m \<longleftrightarrow> mgrs a' ! fd = m \<and> length (mgrs a') = length (mgrs a) \<and> clients (rsys a') = clients (rsys a) \<and> nextCli a' = nextCli a"

lemma mgr_becomes_inv:
  "mgr_becomes fd a a' m \<Longrightarrow> fd < length (mgrs a) \<Longrightarrow> svrType m = REDIS_CLUSTER_SERVER \<Longrightarrow> fresh_ok (store_of a) \<Longrightarrow>
   mgr_sound (clients (rsys a)) m \<Longrightarrow> cluster_inv fd a'"
  by (simp add: mgr_becomes_def cluster_inv_def store_of_def fresh_ok_def)

definition counted :: "nat \<Rightarrow> redis_async \<Rightarrow> string \<Rightarrow> c_int \<Rightarrow> bool \<Rightarrow> bool \<Rightarrow> RedisClientMgr" where
  "counted fd a ip p onC onCount = snd (clusterRedisConnsUpdate (clients (rsys a)) ip p onC onCount (mgrs a ! fd))"

lemma cluster_count_eq:
  "cluster_count fd ip p onC onCount a =
     (fst (clusterRedisConnsUpdate (clients (rsys a)) ip p onC onCount (mgrs a ! fd)), upd_mgr fd (\<lambda>_. counted fd a ip p onC onCount) a)"
  by (simp add: cluster_count_def counted_def case_prod_beta)

lemma counted_pool [simp]: "counted fd (pool_run t a) ip p onC onCount = counted fd a ip p onC onCount"
  by (simp add: counted_def)

lemma run_if_complete_becomes:
  assumes "run_if_complete fd a = Some a'" and "fd < length (mgrs a)"
  shows "\<exists>ci. cluterCli (mgrs a ! fd) = Some ci \<and>
     mgr_becomes fd a a' (if of_nat (length (clusterVectInfo ci)) = masterConn (mgrs a ! fd)
                          then (mgrs a ! fd)\<lparr>initState := REDIS_SVR_RUNING_STATE\<rparr> else mgrs a ! fd)"
  using assms by (auto simp: run_if_complete_def mgr_becomes_def set_state_def split: option.splits if_splits)

lemma success_becomes:
  assumes "cluster_on_connect fd CONNECT_REDISVR_SUCCESS ip p err a = Some a'" and "fd < length (mgrs a)"
  shows "\<exists>m. mgr_becomes fd a a' m \<and>
     (cluterCli (mgrs a ! fd) = None \<and> m = mgrs a ! fd \<or> nodes_of (cluterCli (mgrs a ! fd)) = [] \<and> m = mgrs a ! fd \<or>
      m = counted fd a ip p True True \<or>
      (\<exists>ci. cluterCli (counted fd a ip p True True) = Some ci \<and> of_nat (length (clusterVectInfo ci)) = masterConn (counted fd a ip p True True) \<and>
         m = (counted fd a ip p True True)\<lparr>initState := REDIS_SVR_RUNING_STATE\<rparr>) \<or>
      initState (mgrs a ! fd) \<notin> {REDIS_SVR_INIT_STATE, REDIS_SVR_RUNING_STATE, REDIS_EXCEPTION_STATE, REDIS_SVR_ERROR_STATE} \<and> m = mgrs a ! fd)"
proof -
  have run: "\<exists>m. mgr_becomes fd a b m \<and> (m = counted fd a ip p True True \<or>
      (\<exists>ci. cluterCli (counted fd a ip p True True) = Some ci \<and> of_nat (length (clusterVectInfo ci)) = masterConn (counted fd a ip p True True) \<and>
         m = (counted fd a ip p True True)\<lparr>initState := REDIS_SVR_RUNING_STATE\<rparr>))"
    if "run_if_complete fd (upd_mgr fd (\<lambda>_. counted fd a ip p True True) a) = Some b" for b
    using run_if_complete_becomes [OF that] assms(2) by (auto simp: mgr_becomes_def split: if_splits)
  show ?thesis
    using assms run [of a'] unfolding cluster_on_connect_def Let_def cluster_count_eq snd_conv
    by (auto simp: mgr_becomes_def split: if_splits)
qed

definition lost :: "nat \<Rightarrow> redis_async \<Rightarrow> string \<Rightarrow> c_int \<Rightarrow> bool" where
  "lost fd a ip p \<longleftrightarrow> fst (clusterRedisConnsUpdate (clients (rsys a)) ip p False True (mgrs a ! fd)) = MASTER_CLUSTER_ADDRINFO"

lemma disconn_becomes:
  assumes "cluster_on_connect fd REDISVR_CONNECT_DISCONN ip p err a = Some a'" and "fd < length (mgrs a)"
  shows "\<exists>m. mgr_becomes fd a a' m \<and>
     (m = counted fd a ip p False True \<and>
        (\<not> lost fd a ip p \<or> initState (mgrs a ! fd) \<noteq> REDIS_SVR_RUNING_STATE) \<or>
      m = (counted fd a ip p False True)\<lparr>initState := REDIS_EXCEPTION_STATE\<rparr> \<and> initState (mgrs a ! fd) \<noteq> REDIS_SVR_INVALID_STATE \<or>
      initState (mgrs a ! fd) \<notin> {REDIS_SVR_INIT_STATE, REDIS_SVR_RUNING_STATE, REDIS_EXCEPTION_STATE, REDIS_SVR_ERROR_STATE} \<and> m = mgrs a ! fd)"
  using assms unfolding cluster_on_connect_def cluster_disconn_def Let_def cluster_count_eq lost_def
  by (auto simp: mgr_becomes_def cluster_lost_def set_state_def split: if_splits bind_splits)

lemma reset_becomes:
  assumes "cluster_on_connect fd CONNECT_REDISVR_RESET ip p err a = Some a'" and "fd < length (mgrs a)"
  shows "\<exists>m. mgr_becomes fd a a' m \<and>
     (m = mgrs a ! fd \<or> m = (mgrs a ! fd)\<lparr>initState := REDIS_EXCEPTION_STATE\<rparr> \<and> initState (mgrs a ! fd) = REDIS_SVR_INIT_STATE)"
proof -
  have "counted fd b ip p False False = mgrs b ! fd" for b
    by (auto simp: counted_def clusterRedisConnsUpdate_def count_role_def bump_def Let_def split: option.split)
  then show ?thesis
    using assms unfolding cluster_on_connect_def cluster_reset_def Let_def cluster_count_eq
    by (auto simp: mgr_becomes_def cluster_lost_def set_state_def split: if_splits bind_splits)
qed

lemma counted_fields:
  assumes "cluterCli (mgrs a ! fd) = Some ci"
  shows "svrType (counted fd a ip p onC True) = svrType (mgrs a ! fd) \<and> initState (counted fd a ip p onC True) = initState (mgrs a ! fd) \<and>
    cluterCli (counted fd a ip p onC True) = Some ci \<and>
    masterConn (counted fd a ip p onC True) =
      (if cluster_role (clients (rsys a)) (clusterVectInfo ci) ip p = MASTER_CLUSTER_ADDRINFO
       then if onC then masterConn (mgrs a ! fd) + 1 else masterConn (mgrs a ! fd) - 1 else masterConn (mgrs a ! fd))"
  using assms by (auto simp: counted_def clusterRedisConnsUpdate_def count_role_def bump_def Let_def)

lemma counted_none: "cluterCli (mgrs a ! fd) = None \<Longrightarrow> counted fd a ip p onC onCount = mgrs a ! fd"
  by (simp add: counted_def clusterRedisConnsUpdate_def)

text \<open>
  A connection \<open>c\<close> of the handle changes its state to \<open>x\<close>: the counted handle has the right counter for the new store.
\<close>

definition reports :: "nat \<Rightarrow> redis_async \<Rightarrow> nat \<Rightarrow> string \<Rightarrow> c_int \<Rightarrow> bool" where
  "reports fd a c ip p \<longleftrightarrow> svrInfo (clients (rsys a) c) = Some \<lparr>port = p, ipAddr = ip\<rparr> \<and>
     (Some c \<in> set (members (nodes_of (cluterCli (mgrs a ! fd)))) \<or>
      Some \<lparr>port = p, ipAddr = ip\<rparr> \<notin> addr_of (clients (rsys a)) ` set (members (nodes_of (cluterCli (mgrs a ! fd)))))"

lemma counted_sound:
  assumes sound: "mgr_sound st m" and ci: "cluterCli m = Some ci"
    and st': "st' = st(c := x)" and x: "svrInfo x = svrInfo (st c)"
    and a: "clients (rsys a) = st'" "mgrs a ! fd = m"
    and addr: "svrInfo (st c) = Some \<lparr>port = p, ipAddr = ip\<rparr>"
    and mem: "Some c \<in> set (members (clusterVectInfo ci)) \<or> Some \<lparr>port = p, ipAddr = ip\<rparr> \<notin> addr_of st ` set (members (clusterVectInfo ci))"
    and on: "conned st (Some c) \<longleftrightarrow> \<not> onC" "conned st' (Some c) \<longleftrightarrow> onC"
  shows "addrs_ok st' (clusterVectInfo ci) \<and>
    masterConn (counted fd a ip p onC True) = of_nat (masters_up (conned st') (clusterVectInfo ci)) \<and>
    (initState m = REDIS_SVR_RUNING_STATE \<and> (onC \<or> \<not> lost fd a ip p) \<longrightarrow> masters_up (conned st') (clusterVectInfo ci) = length (clusterVectInfo ci))"
proof -
  define ns where "ns = clusterVectInfo ci"
  have s: "addrs_ok st ns" "masterConn m = of_nat (masters_up (conned st) ns)"
    "initState m = REDIS_SVR_RUNING_STATE \<Longrightarrow> masters_up (conned st) ns = length ns"
    using sound [unfolded mgr_sound_Some [OF ci]] unfolding ns_def by blast+
  have ad: "addr_of st' = addr_of st" using x unfolding st' by (auto simp: addr_of_def fun_eq_iff split: option.split)
  have ok: "addrs_ok st' ns" using s(1) unfolding addrs_ok_def ad by simp
  have dm: "distinct (members ns)" using s(1) by (simp add: addrs_ok_def distinct_map)
  have "svrInfo (st' c) = Some \<lparr>port = p, ipAddr = ip\<rparr>" using addr x by (simp add: st')
  from role_of_connection [OF ok this] mem
  have role: "cluster_role st' ns ip p = MASTER_CLUSTER_ADDRINFO \<longleftrightarrow> Some c \<in> set (map (master \<circ> clusterNode) ns)"
    unfolding ad ns_def by blast
  have other: "d \<noteq> Some c \<Longrightarrow> conned st' d = conned st d" for d by (auto simp: st' conned_def split: option.split)
  have conn: "masterConn (counted fd a ip p onC True) =
      (if cluster_role st' ns ip p = MASTER_CLUSTER_ADDRINFO then if onC then masterConn m + 1 else masterConn m - 1 else masterConn m)"
    using counted_fields [of a fd ci] ci a by (simp add: ns_def)
  have lost: "lost fd a ip p \<longleftrightarrow> cluster_role st' ns ip p = MASTER_CLUSTER_ADDRINFO"
    using ci a by (simp add: lost_def clusterRedisConnsUpdate_def ns_def Let_def)
  show ?thesis
  proof (cases "Some c \<in> set (map (master \<circ> clusterNode) ns)")
    case False
    have "masters_up (conned st') ns = masters_up (conned st) ns"
      by (rule masters_up_other [of "Some c", OF other]) (assumption, rule False)
    moreover have "masterConn (counted fd a ip p onC True) = masterConn m" using False role conn by simp
    ultimately show ?thesis unfolding ns_def [symmetric] using s ok by simp
  next
    case True
    have flip: "masters_up (conned st') ns + (if conned st (Some c) then 1 else 0) = masters_up (conned st) ns + (if conned st' (Some c) then 1 else 0)"
      by (rule masters_up_flip [OF other dm True])
    have "\<not> (onC \<and> initState m = REDIS_SVR_RUNING_STATE)"
    proof
      assume "onC \<and> initState m = REDIS_SVR_RUNING_STATE"
      then have "\<forall>n \<in> set ns. conned st (master (clusterNode n))" "\<not> conned st (Some c)" using s(3) on(1) masters_up_all by blast+
      with True show False by force
    qed
    moreover have "masterConn (counted fd a ip p onC True) = of_nat (masters_up (conned st') ns)"
    proof (cases onC)
      case True
      have "masters_up (conned st') ns = Suc (masters_up (conned st) ns)" using flip on True by simp
      then show ?thesis using conn role \<open>Some c \<in> _\<close> s(2) True by simp
    next
      case False
      have "Suc (masters_up (conned st') ns) = masters_up (conned st) ns" using flip on False by simp
      then have "(of_nat (masters_up (conned st) ns) :: u64) = 1 + of_nat (masters_up (conned st') ns)" by (metis of_nat_Suc)
      then show ?thesis using conn role \<open>Some c \<in> _\<close> s(2) False by simp
    qed
    moreover have "lost fd a ip p" using role True lost by blast
    ultimately show ?thesis unfolding ns_def [symmetric] using ok by blast
  qed
qed

lemma of_nat_eq_u64:
  assumes "m \<le> n" and "n < 2 ^ 64" and "of_nat n = (of_nat m :: u64)"
  shows "m = n"
proof -
  have "unat (of_nat k :: u64) = k" if "k < 2 ^ 64" for k
    unfolding unat_of_nat by (rule mod_less) (use that in simp)
  from this [of n] this [of m] show ?thesis using assms by (metis le_less_trans)
qed

lemma mgr_sound_run:
  assumes "mgr_sound st m" and ci: "cluterCli m = Some ci" and "of_nat (length (clusterVectInfo ci)) = masterConn m"
  shows "mgr_sound st (m\<lparr>initState := REDIS_SVR_RUNING_STATE\<rparr>)"
proof -
  note s = assms(1) [unfolded mgr_sound_Some [OF ci]]
  have "masters_up (conned st) (clusterVectInfo ci) = length (clusterVectInfo ci)"
  proof (rule of_nat_eq_u64)
    show "masters_up (conned st) (clusterVectInfo ci) \<le> length (clusterVectInfo ci)" by (rule masters_up_le)
    show "length (clusterVectInfo ci) < 2 ^ 64" using s by blast
    show "of_nat (length (clusterVectInfo ci)) = (of_nat (masters_up (conned st) (clusterVectInfo ci)) :: u64)" using s assms(3) by metis
  qed
  moreover have "cluterCli (m\<lparr>initState := REDIS_SVR_RUNING_STATE\<rparr>) = Some ci" using ci by simp
  ultimately show ?thesis using s unfolding mgr_sound_Some [OF ci] by (subst mgr_sound_Some) (assumption, simp)
qed

lemma mgr_sound_leave: "mgr_sound st m \<Longrightarrow> initState m \<noteq> REDIS_SVR_INVALID_STATE \<Longrightarrow> v \<in> {REDIS_EXCEPTION_STATE, REDIS_SVR_ERROR_STATE} \<Longrightarrow>
   mgr_sound st (m\<lparr>initState := v\<rparr>)"
  by (cases "cluterCli m") (auto simp: mgr_sound_Some mgr_sound_None)

lemma event_counted:
  assumes inv: "cluster_inv fd a" and rep: "reports fd a c ip p" and b: "b = a\<lparr>rsys := s'\<rparr>"
    and s': "clients s' = (clients (rsys a))(c := x)" and x: "svrInfo x = svrInfo (clients (rsys a) c)"
    and on: "conned (clients (rsys a)) (Some c) \<longleftrightarrow> \<not> onC" "state x = REDIS_CLIENT_STATE_CONN \<longleftrightarrow> onC"
  shows "fresh_ok (store_of b)" and "fd < length (mgrs b)" and "mgrs b ! fd = mgrs a ! fd" and "svrType (mgrs b ! fd) = REDIS_CLUSTER_SERVER"
    and "svrType (counted fd b ip p onC True) = REDIS_CLUSTER_SERVER"
    and "initState (counted fd b ip p onC True) = initState (mgrs a ! fd)"
    and "onC \<or> \<not> lost fd b ip p \<or> initState (mgrs a ! fd) \<noteq> REDIS_SVR_RUNING_STATE \<Longrightarrow> mgr_sound (clients (rsys b)) (counted fd b ip p onC True)"
    and "initState (mgrs a ! fd) \<noteq> REDIS_SVR_INVALID_STATE \<Longrightarrow>
      mgr_sound (clients (rsys b)) ((counted fd b ip p onC True)\<lparr>initState := REDIS_EXCEPTION_STATE\<rparr>)"
    and "nodes_of (cluterCli (mgrs a ! fd)) = [] \<Longrightarrow> mgr_sound (clients (rsys b)) (mgrs a ! fd)"
proof -
  define m where "m = mgrs a ! fd"
  have c: "svrInfo (clients (rsys a) c) = Some \<lparr>port = p, ipAddr = ip\<rparr>" using rep by (simp add: reports_def)
  show "fresh_ok (store_of b)" using inv c s' x by (auto simp: fresh_ok_def store_of_def b cluster_inv_def split: if_splits)
  have fd: "fd < length (mgrs b)" "mgrs b ! fd = m" "svrType m = REDIS_CLUSTER_SERVER" and snd: "mgr_sound (clients (rsys a)) m"
    using inv by (auto simp: b m_def cluster_inv_def)
  show "fd < length (mgrs b)" "mgrs b ! fd = mgrs a ! fd" "svrType (mgrs b ! fd) = REDIS_CLUSTER_SERVER"
    using fd by (simp_all add: m_def)
  have stb: "clients (rsys b) = (clients (rsys a))(c := x)" using s' by (simp add: b)
  have on': "conned (clients (rsys b)) (Some c) \<longleftrightarrow> onC" using on(2) by (simp add: stb conned_def)
  have "svrType (counted fd b ip p onC True) = svrType m \<and> initState (counted fd b ip p onC True) = initState m \<and>
    (onC \<or> \<not> lost fd b ip p \<or> initState m \<noteq> REDIS_SVR_RUNING_STATE \<longrightarrow> mgr_sound (clients (rsys b)) (counted fd b ip p onC True)) \<and>
    (initState m \<noteq> REDIS_SVR_INVALID_STATE \<longrightarrow>
      mgr_sound (clients (rsys b)) ((counted fd b ip p onC True)\<lparr>initState := REDIS_EXCEPTION_STATE\<rparr>)) \<and>
    (nodes_of (cluterCli m) = [] \<longrightarrow> mgr_sound (clients (rsys b)) m)"
  proof (cases "cluterCli m")
    case None
    then show ?thesis using snd counted_none [of b fd] fd by (simp add: mgr_sound_None)
  next
    case (Some ci)
    have mem: "Some c \<in> set (members (clusterVectInfo ci)) \<or> Some \<lparr>port = p, ipAddr = ip\<rparr> \<notin> addr_of (clients (rsys a)) ` set (members (clusterVectInfo ci))"
      using rep Some by (simp add: reports_def m_def nodes_of_def)
    have f: "svrType (counted fd b ip p onC True) = svrType m" "initState (counted fd b ip p onC True) = initState m"
      "cluterCli (counted fd b ip p onC True) = Some ci"
      using counted_fields [of b fd ci] Some fd by simp_all
    note cs = counted_sound [OF snd Some stb x refl fd(2) c mem on(1) on']
    show ?thesis using cs f snd Some by (auto simp: mgr_sound_Some nodes_of_def addrs_ok_def masters_up_def)
  qed
  then show "svrType (counted fd b ip p onC True) = REDIS_CLUSTER_SERVER"
    "initState (counted fd b ip p onC True) = initState (mgrs a ! fd)"
    "onC \<or> \<not> lost fd b ip p \<or> initState (mgrs a ! fd) \<noteq> REDIS_SVR_RUNING_STATE \<Longrightarrow> mgr_sound (clients (rsys b)) (counted fd b ip p onC True)"
    "initState (mgrs a ! fd) \<noteq> REDIS_SVR_INVALID_STATE \<Longrightarrow>
      mgr_sound (clients (rsys b)) ((counted fd b ip p onC True)\<lparr>initState := REDIS_EXCEPTION_STATE\<rparr>)"
    "nodes_of (cluterCli (mgrs a ! fd)) = [] \<Longrightarrow> mgr_sound (clients (rsys b)) (mgrs a ! fd)"
    using fd by (simp_all add: m_def)
qed

lemma sound_known_state: "cluster_inv fd a \<Longrightarrow> initState (mgrs a ! fd) \<notin> {0, 1, 2, 3} \<Longrightarrow> nodes_of (cluterCli (mgrs a ! fd)) = []"
  by (cases "cluterCli (mgrs a ! fd)") (auto simp: cluster_inv_def mgr_sound_Some nodes_of_def)

lemma event_success:
  assumes inv: "cluster_inv fd a" and rep: "reports fd a c ip p" and off: "\<not> conned (clients (rsys a)) (Some c)"
    and s': "clients s' = (clients (rsys a))(c := x)" and x: "svrInfo x = svrInfo (clients (rsys a) c)" "state x = REDIS_CLIENT_STATE_CONN"
    and run: "redisSvrOnConnect fd CONNECT_REDISVR_SUCCESS ip p err (a\<lparr>rsys := s'\<rparr>) = Some a'"
  shows "cluster_inv fd a'"
proof -
  define b where "b = a\<lparr>rsys := s'\<rparr>"
  have off': "conned (clients (rsys a)) (Some c) \<longleftrightarrow> \<not> True" "state x = REDIS_CLIENT_STATE_CONN \<longleftrightarrow> True" using off x by simp_all
  note e = event_counted [OF inv rep b_def s' x(1) off']
  have run': "cluster_on_connect fd CONNECT_REDISVR_SUCCESS ip p err b = Some a'"
    using run e(2,4) by (simp add: redisSvrOnConnect_def b_def)
  have ms: "mgr_sound (clients (rsys b)) (counted fd b ip p True True)" using e(7) by simp
  from success_becomes [OF run' e(2)] obtain m' where b': "mgr_becomes fd b a' m'" and
    cases: "nodes_of (cluterCli (mgrs a ! fd)) = [] \<and> m' = mgrs a ! fd \<or> m' = counted fd b ip p True True \<or>
      (\<exists>ci. cluterCli (counted fd b ip p True True) = Some ci \<and> of_nat (length (clusterVectInfo ci)) = masterConn (counted fd b ip p True True) \<and>
         m' = (counted fd b ip p True True)\<lparr>initState := REDIS_SVR_RUNING_STATE\<rparr>)"
    using sound_known_state [OF inv] unfolding e(3) by (auto simp: nodes_of_def)
  then have "mgr_sound (clients (rsys b)) m' \<and> svrType m' = REDIS_CLUSTER_SERVER"
    using e(3,4,5,9) ms mgr_sound_run [OF ms] by auto
  then show ?thesis by (intro mgr_becomes_inv [OF b' e(2) _ e(1)]) simp_all
qed

lemma event_disconn:
  assumes inv: "cluster_inv fd a" and rep: "reports fd a c ip p" and on: "conned (clients (rsys a)) (Some c)"
    and s': "clients s' = (clients (rsys a))(c := x)" and x: "svrInfo x = svrInfo (clients (rsys a) c)" "state x = REDIS_CLIENT_STATE_INIT"
    and run: "redisSvrOnConnect fd REDISVR_CONNECT_DISCONN ip p err (a\<lparr>rsys := s'\<rparr>) = Some a'"
  shows "cluster_inv fd a'"
proof -
  define b where "b = a\<lparr>rsys := s'\<rparr>"
  have on': "conned (clients (rsys a)) (Some c) \<longleftrightarrow> \<not> False" "state x = REDIS_CLIENT_STATE_CONN \<longleftrightarrow> False" using on x by simp_all
  note e = event_counted [OF inv rep b_def s' x(1) on']
  have run': "cluster_on_connect fd REDISVR_CONNECT_DISCONN ip p err b = Some a'"
    using run e(2,4) by (simp add: redisSvrOnConnect_def b_def)
  from disconn_becomes [OF run' e(2)] obtain m' where b': "mgr_becomes fd b a' m'" and
    cases: "m' = counted fd b ip p False True \<and> (\<not> lost fd b ip p \<or> initState (mgrs a ! fd) \<noteq> REDIS_SVR_RUNING_STATE) \<or>
      m' = (counted fd b ip p False True)\<lparr>initState := REDIS_EXCEPTION_STATE\<rparr> \<and> initState (mgrs a ! fd) \<noteq> REDIS_SVR_INVALID_STATE \<or>
      nodes_of (cluterCli (mgrs a ! fd)) = [] \<and> m' = mgrs a ! fd"
    using sound_known_state [OF inv] unfolding e(3) by auto
  then have "mgr_sound (clients (rsys b)) m' \<and> svrType m' = REDIS_CLUSTER_SERVER"
    using e(3,4,5,7,8,9) by auto
  then show ?thesis by (intro mgr_becomes_inv [OF b' e(2) _ e(1)]) simp_all
qed

lemma event_reset:
  assumes inv: "cluster_inv fd a" and run: "redisSvrOnConnect fd CONNECT_REDISVR_RESET ip p err a = Some a'"
  shows "cluster_inv fd a'"
proof -
  have fd: "fd < length (mgrs a)" "svrType (mgrs a ! fd) = REDIS_CLUSTER_SERVER" and f: "fresh_ok (store_of a)"
    and snd: "mgr_sound (clients (rsys a)) (mgrs a ! fd)"
    using inv by (auto simp: cluster_inv_def)
  have "cluster_on_connect fd CONNECT_REDISVR_RESET ip p err a = Some a'" using run fd by (simp add: redisSvrOnConnect_def)
  from reset_becomes [OF this fd(1)] obtain m where b: "mgr_becomes fd a a' m" and
    m: "m = mgrs a ! fd \<or> m = (mgrs a ! fd)\<lparr>initState := REDIS_EXCEPTION_STATE\<rparr> \<and> initState (mgrs a ! fd) = REDIS_SVR_INIT_STATE" by blast
  then have "mgr_sound (clients (rsys a)) m \<and> svrType m = REDIS_CLUSTER_SERVER"
    using snd fd mgr_sound_leave [OF snd, of REDIS_EXCEPTION_STATE] by auto
  then show ?thesis by (intro mgr_becomes_inv [OF b fd(1) _ f]) simp_all
qed

subsection \<open>The answers\<close>

text \<open>An answer names every address at most once.\<close>

definition text_ok :: "string \<Rightarrow> bool" where
  "text_ok r0 \<longleftrightarrow> (let vs = split r0 [LF] []
     in length vs < 2 ^ 64 \<and>
        distinct (concat (map (\<lambda>(i, s, m, ss). m # ss) (map (line_view vs) (filter (\<lambda>w. is_master_flags (w ! 2)) (map line_words vs))))))"

lemma master_line_grows:
  "fresh_ok (ps_store ps) \<Longrightarrow> 8 \<le> length w \<Longrightarrow> is_master_flags (w ! 2) \<Longrightarrow> master_line o' mgr vs w tci ps = Some (r, ps') \<Longrightarrow> ps_grows ps ps'"
  using master_line_spec [of ps w vs o' mgr tci] by (auto simp: master_line_def ps_grows_def split: option.splits if_splits)

lemma cluster_lines_grows:
  "fresh_ok (ps_store ps) \<Longrightarrow> cluster_lines o' mgr vs ls tci ps = Some (r, ps') \<Longrightarrow> ps_grows ps ps'"
proof (induction ls arbitrary: tci ps)
  case (Cons l ls)
  consider (short) "length (split l '' '' []) < 8" | (slave) "8 \<le> length (split l '' '' [])" "\<not> is_master_flags (split l '' '' [] ! 2)"
    | (master) "8 \<le> length (split l '' '' [])" "is_master_flags (split l '' '' [] ! 2)" by fastforce
  then show ?case
  proof cases
    case master
    then obtain q p1 where q: "master_line o' mgr vs (split l '' '' []) tci ps = Some (q, p1)" using Cons.prems(2) by (auto split: option.splits)
    note g = master_line_grows [OF Cons.prems(1) master q]
    then have "fresh_ok (ps_store p1)" by (simp add: ps_grows_def)
    with Cons.IH [of p1] g Cons.prems(2) q master show ?thesis by (cases q) (auto intro: ps_grows_trans)
  qed (use Cons in \<open>auto simp: ps_grows_def\<close>)
qed (simp add: ps_grows_def)

lemma members_views: "map (addr_of st) (members ns) = concat (map (\<lambda>(i, s, m, ss). m # ss) (map (node_view st) ns))"
  by (induction ns) (auto simp: node_view_def)

lemma members_full: "\<forall>n \<in> set ns. view_full (node_view st n) \<Longrightarrow> None \<notin> addr_of st ` set (members ns)"
  by (induction ns) (auto simp: view_full_def node_view_def)

lemma gathered_addrs:
  assumes g: "gathered vs vs None ps tci ps'" and wf: "\<forall>l \<in> set vs. line_wf vs (line_words l) \<and> slots_end (line_words l)"
    and d: "distinct (concat (map (\<lambda>(i, s, m, ss). m # ss) (map (line_view vs) (filter (\<lambda>w. is_master_flags (w ! 2)) (map line_words vs)))))"
  shows "addrs_ok (cells (ps_store ps')) (nodes_of tci) \<and> length (nodes_of tci) \<le> length vs"
proof -
  have v: "map (node_view (cells (ps_store ps'))) (nodes_of tci) = map (line_view vs) (filter (\<lambda>w. is_master_flags (w ! 2)) (map line_words vs))"
    using g by (auto simp: gathered_def nodes_of_def)
  have "\<forall>x \<in> set (map (node_view (cells (ps_store ps'))) (nodes_of tci)). view_full x"
    using wf line_view_full unfolding v by auto
  then have "None \<notin> addr_of (cells (ps_store ps')) ` set (members (nodes_of tci))" by (intro members_full) simp
  moreover have "length (nodes_of tci) = length (filter (\<lambda>w. is_master_flags (w ! 2)) (map line_words vs))" using arg_cong [OF v, of length] by simp
  moreover have "length (filter (\<lambda>w. is_master_flags (w ! 2)) (map line_words vs)) \<le> length vs" by (metis length_filter_le length_map)
  ultimately show ?thesis using d unfolding addrs_ok_def members_views v by simp
qed

lemma analysis_sound:
  assumes f: "fresh_ok st" and t: "text_ok r0" and run: "analysisClusterNodes o' r0 m st = Some (ret, added, m', st')"
  shows "grows st st' \<and> fresh_ok st' \<and> (ret \<noteq> 0 \<longrightarrow> m' = m) \<and> svrType m' = svrType m \<and> initState m' = initState m \<and>
    (\<forall>ci. ret = 0 \<longrightarrow> cluterCli m' = Some ci \<longrightarrow> addrs_ok (cells st') (clusterVectInfo ci) \<and> length (clusterVectInfo ci) < 2 ^ 64 \<and>
       clusterSlotMap ci = slot_owner (clusterVectInfo ci) \<and> masterConn m' = of_nat (masters_up (conned (cells st')) (clusterVectInfo ci)))"
proof (cases "r0 = []")
  case True
  then show ?thesis using run f by (simp add: analysisClusterNodes_def)
next
  case False
  define vs where "vs = split r0 [LF] []"
  define ps where "ps = \<lparr>ps_store = st, addRedisCli = [], ps_masterConn = 0, ps_slaveConn = 0\<rparr>"
  have fps: "fresh_ok (ps_store ps)" using f by (simp add: ps_def)
  obtain r ps' where c: "cluster_lines o' m vs vs None ps = Some (r, ps')"
    using run False by (auto simp: analysisClusterNodes_def vs_def ps_def Let_def split: option.splits)
  note g = cluster_lines_grows [OF fps c]
  show ?thesis
  proof (cases r)
    case None
    then have "m' = m \<and> st' = ps_store ps' \<and> ret = - 1" using run False c by (simp add: analysisClusterNodes_def vs_def ps_def Let_def)
    with g show ?thesis by (simp add: ps_grows_def ps_def)
  next
    case (Some tci)
    then have m': "ret = 0" "st' = ps_store ps'" "m' = m\<lparr>cluterCli := tci, masterConn := ps_masterConn ps', slaveConn := ps_slaveConn ps'\<rparr>"
      using run False c by (simp_all add: analysisClusterNodes_def vs_def ps_def Let_def)
    have lw: "\<forall>l \<in> set vs. line_wf vs (line_words l) \<and> slots_end (line_words l)" and ga: "gathered vs vs None ps tci ps'"
      using cluster_lines_gathered [OF fps, of None o' m vs vs tci ps'] c Some by (auto simp: nodes_of_def)
    have K: "conned (cells (ps_store ps')) = conned (cells (ps_store ps))" using g by (rule ps_grows_conned)
    have "addrs_ok (cells st') (nodes_of tci) \<and> length (nodes_of tci) < 2 ^ 64"
      using gathered_addrs [OF ga lw] t m'(2) by (auto simp: text_ok_def vs_def Let_def intro: le_less_trans)
    moreover have "slots_of tci = slot_owner (nodes_of tci)" "ps_masterConn ps' = of_nat (masters_up (conned (cells st')) (nodes_of tci))"
    proof -
      have "slots_of None = slot_owner (nodes_of None)" by (simp add: slots_of_def nodes_of_def fun_eq_iff)
      then show "slots_of tci = slot_owner (nodes_of tci)" using ga by (simp add: gathered_def)
      show "ps_masterConn ps' = of_nat (masters_up (conned (cells st')) (nodes_of tci))"
        using ga unfolding m'(2) K gathered_def by (auto simp: nodes_of_def ps_def)
    qed
    ultimately show ?thesis using g m' by (auto simp: ps_grows_def ps_def nodes_of_def slots_of_def)
  qed
qed

lemma mgr_sound_grows:
  assumes "fresh_ok st" and "grows st st'" and "mgr_sound (cells st) m"
  shows "mgr_sound (cells st') m"
proof (cases "cluterCli m")
  case None
  then show ?thesis using assms(3) by (simp add: mgr_sound_None)
next
  case (Some ci)
  have K: "conned (cells st') = conned (cells st)" using assms(2) by (simp add: grows_def)
  have ok: "addrs_ok (cells st) (clusterVectInfo ci)" using assms(3) Some by (simp add: mgr_sound_Some)
  have "addr_of (cells st') c = addr_of (cells st) c" if "c \<in> set (members (clusterVectInfo ci))" for c
  proof (cases c)
    case (Some d)
    have "addr_of (cells st) c \<noteq> None" using ok that unfolding addrs_ok_def by (metis image_eqI)
    then show ?thesis using Some grows_svrInfo [OF assms(2,1)] by (auto simp: addr_of_def)
  qed (simp add: addr_of_def)
  then have "map (addr_of (cells st')) (members (clusterVectInfo ci)) = map (addr_of (cells st)) (members (clusterVectInfo ci))" by simp
  then have "addrs_ok (cells st') (clusterVectInfo ci)" using ok unfolding addrs_ok_def by (metis set_map)
  then show ?thesis using assms(3) Some by (simp add: mgr_sound_Some K)
qed

lemma with_store_rest [simp]: "mgrs (with_store st a) = mgrs a" "clients (rsys (with_store st a)) = cells st" "nextCli (with_store st a) = next_cell st"
  by (simp_all add: with_store_def)

lemma parsed_rest:
  "fd < length (mgrs a) \<Longrightarrow> mgrs (upd_mgr fd (\<lambda>_. m) (with_store st a)) ! fd = m"
  "length (mgrs (upd_mgr fd f (with_store st a))) = length (mgrs a)"
  "clients (rsys (upd_mgr fd f (with_store st a))) = cells st"
  "store_of (upd_mgr fd f (with_store st a)) = st"
  by (simp_all add: with_store_def store_of_def upd_mgr_def)

lemma recount_becomes:
  assumes "fd < length (mgrs a)"
  shows "\<exists>m. mgr_becomes fd a (recount_state fd a) m \<and> (cluterCli (mgrs a ! fd) = None \<and> m = mgrs a ! fd \<or>
    (\<exists>ci. cluterCli (mgrs a ! fd) = Some ci \<and>
      ((of_nat (length (clusterVectInfo ci)) = masterConn (mgrs a ! fd) \<and> m = (mgrs a ! fd)\<lparr>initState := REDIS_SVR_RUNING_STATE\<rparr>) \<or>
       m = (mgrs a ! fd)\<lparr>initState := REDIS_EXCEPTION_STATE\<rparr> \<or> (m = mgrs a ! fd \<and> initState m \<noteq> REDIS_SVR_RUNING_STATE))))"
  using assms by (auto simp: recount_state_def mgr_becomes_def set_state_def Let_def split: option.split)

lemma retry_becomes:
  assumes "fd < length (mgrs a)"
  shows "\<exists>c. mgr_becomes fd a (cluster_retry fd a) ((mgrs a ! fd)\<lparr>nodeCli := c\<rparr>)"
proof -
  have same: "m = m\<lparr>nodeCli := nodeCli m\<rparr>" for m :: RedisClientMgr by simp
  show ?thesis
  proof (cases "node_down (clients (rsys a)) (nodeCli (mgrs a ! fd))")
    case True
    then show ?thesis using assms by (auto simp: cluster_retry_def mgr_becomes_def Let_def new_order_def timer_order_def upd_order_def)
  next
    case False
    then have "mgr_becomes fd a (cluster_retry fd a) (mgrs a ! fd)"
      using assms by (auto simp: cluster_retry_def mgr_becomes_def Let_def new_order_def timer_order_def upd_order_def)
    then show ?thesis using same [of "mgrs a ! fd"] by metis
  qed
qed

lemma mgr_sound_nodeCli [simp]: "mgr_sound st (m\<lparr>nodeCli := c\<rparr>) = mgr_sound st m"
  by (cases "cluterCli m") (simp_all add: mgr_sound_None mgr_sound_Some)

lemma retry_inv: "cluster_inv fd a \<Longrightarrow> cluster_inv fd (cluster_retry fd a)"
  using retry_becomes [of fd a] mgr_becomes_inv [of fd a "cluster_retry fd a"] by (auto simp: cluster_inv_def)

lemma parsed_inv:
  assumes inv: "cluster_inv fd a" and t: "text_ok r0"
    and run: "analysisClusterNodes (opts a) r0 (mgrs a ! fd) (store_of a) = Some (ret, added, m, st)"
    and b: "b = upd_mgr fd (\<lambda>_. m) (with_store st a)"
  shows "fd < length (mgrs b)" and "mgrs b ! fd = m" and "svrType m = REDIS_CLUSTER_SERVER" and "initState m = initState (mgrs a ! fd)"
    and "fresh_ok (store_of b)" and "ret \<noteq> 0 \<Longrightarrow> mgr_sound (clients (rsys b)) m"
    and "initState m \<notin> {REDIS_SVR_RUNING_STATE, REDIS_SVR_INVALID_STATE} \<Longrightarrow> mgr_sound (clients (rsys b)) m"
    and "initState m \<noteq> REDIS_SVR_INVALID_STATE \<Longrightarrow> mgr_sound (clients (rsys b)) (m\<lparr>initState := REDIS_EXCEPTION_STATE\<rparr>)"
    and "cluterCli m = None \<Longrightarrow> mgr_sound (clients (rsys b)) m"
proof -
  have fd: "fd < length (mgrs a)" "svrType (mgrs a ! fd) = REDIS_CLUSTER_SERVER" and f: "fresh_ok (store_of a)"
    and snd: "mgr_sound (cells (store_of a)) (mgrs a ! fd)" using inv by (auto simp: cluster_inv_def store_of_def)
  note as = analysis_sound [OF f t run]
  have cb: "clients (rsys b) = cells st" by (simp add: b)
  show "fd < length (mgrs b)" "mgrs b ! fd = m" "svrType m = REDIS_CLUSTER_SERVER" "initState m = initState (mgrs a ! fd)" "fresh_ok (store_of b)"
    using as fd by (simp_all add: b parsed_rest)
  have g: "ret \<noteq> 0 \<Longrightarrow> mgr_sound (cells st) m" using mgr_sound_grows [OF f _ snd] as by auto
  have st: "initState m \<in> {0, 1, 2, 3, 4}" using as snd by (auto simp: mgr_sound_def)
  have "mgr_sound (cells st) (m\<lparr>initState := v\<rparr>)" if "v \<in> {0, 2, 3}" "initState m \<noteq> REDIS_SVR_INVALID_STATE" for v
  proof (cases "cluterCli m")
    case None
    then show ?thesis using that by (auto simp: mgr_sound_None)
  next
    case (Some ci)
    have "ret \<noteq> 0 \<Longrightarrow> mgr_sound (cells st) m" by (rule g)
    then show ?thesis using as that Some by (cases "ret = 0") (auto simp: mgr_sound_Some)
  qed
  note v = this
  show "ret \<noteq> 0 \<Longrightarrow> mgr_sound (clients (rsys b)) m" using g cb by simp
  show "initState m \<noteq> REDIS_SVR_INVALID_STATE \<Longrightarrow> mgr_sound (clients (rsys b)) (m\<lparr>initState := REDIS_EXCEPTION_STATE\<rparr>)" using v cb by simp
  show "mgr_sound (clients (rsys b)) m" if "initState m \<notin> {REDIS_SVR_RUNING_STATE, REDIS_SVR_INVALID_STATE}"
    using v [of "initState m"] st that cb by auto
  show "cluterCli m = None \<Longrightarrow> mgr_sound (clients (rsys b)) m" using st by (simp add: mgr_sound_None)
qed

lemma nodes_answer_inv:
  assumes inv: "cluster_inv fd a" and t: "\<And>r0. vec_at msgs 0 = Some r0 \<Longrightarrow> text_ok r0"
    and run: "clusterNodesCallBack ret (Some fd) msgs a = Some a'"
  shows "cluster_inv fd a'"
proof (cases "initState (mgrs a ! fd) = REDIS_SVR_INVALID_STATE \<or> ret \<noteq> 0")
  case True
  then show ?thesis using run inv retry_inv [OF inv] by (auto simp: clusterNodesCallBack_def split: if_splits)
next
  case False
  then obtain r0 where r0: "vec_at msgs 0 = Some r0" using run by (auto simp: clusterNodesCallBack_def split: bind_splits)
  show ?thesis
  proof (cases "has_failed_master r0")
    case True
    then show ?thesis using run False r0 retry_inv [OF inv] by (auto simp: clusterNodesCallBack_def)
  next
    case ok: False
    then obtain res added m st where an: "analysisClusterNodes (opts a) r0 (mgrs a ! fd) (store_of a) = Some (res, added, m, st)"
      using run False r0 by (auto simp: clusterNodesCallBack_def split: bind_splits)
    define b where "b = upd_mgr fd (\<lambda>_. m) (with_store st a)"
    note p = parsed_inv [OF inv t [OF r0] an b_def]
    have ni: "initState m \<noteq> REDIS_SVR_INVALID_STATE" using p(4) False by simp
    show ?thesis
    proof (cases "res = 0")
      case True
      then obtain b' where b': "connect_all added b = Some b'" "a' = recount_state fd b'"
        using run False r0 ok an by (auto simp: clusterNodesCallBack_def b_def)
      have q: "untouched b b'" using untouched_connect_all [OF b'(1)] .
      then have fd: "fd < length (mgrs b')" "mgrs b' ! fd = m" and cl: "clients (rsys b') = clients (rsys b)" and fr: "fresh_ok (store_of b')"
        using p(1,2,5) by (simp_all add: untouched_def fresh_ok_def store_of_def)
      have ms: "mgr_sound (clients (rsys b')) (m\<lparr>initState := REDIS_EXCEPTION_STATE\<rparr>)" using p(8) ni cl by simp
      from recount_becomes [OF fd(1)] obtain m' where r: "mgr_becomes fd b' a' m'" and c: "cluterCli m = None \<and> m' = m \<or>
        (\<exists>ci. cluterCli m = Some ci \<and> ((of_nat (length (clusterVectInfo ci)) = masterConn m \<and> m' = m\<lparr>initState := REDIS_SVR_RUNING_STATE\<rparr>) \<or>
          m' = m\<lparr>initState := REDIS_EXCEPTION_STATE\<rparr> \<or> (m' = m \<and> initState m' \<noteq> REDIS_SVR_RUNING_STATE)))"
        unfolding b'(2) fd(2) by blast
      have "mgr_sound (clients (rsys b')) m' \<and> svrType m' = REDIS_CLUSTER_SERVER"
        using c ms p(3,7,9) ni cl mgr_sound_run [OF ms] by auto
      then show ?thesis by (intro mgr_becomes_inv [OF r fd(1) _ fr]) simp_all
    next
      case bad: False
      then have "a' = cluster_retry fd b" using run False r0 ok an by (simp add: clusterNodesCallBack_def b_def)
      moreover have "cluster_inv fd b" using p(1,2,3,5,6) bad by (simp add: cluster_inv_def)
      ultimately show ?thesis using retry_inv by simp
    qed
  qed
qed

lemma init_answer_inv:
  assumes inv: "cluster_inv fd a" and t: "\<And>r0. vec_at msgs 0 = Some r0 \<Longrightarrow> text_ok r0"
    and nr: "initState (mgrs a ! fd) \<noteq> REDIS_SVR_RUNING_STATE"
    and run: "clusterInitCallBack ret (Some fd) msgs a = Some a'"
  shows "cluster_inv fd a'"
proof (cases "initState (mgrs a ! fd) = REDIS_SVR_INVALID_STATE \<or> ret \<noteq> 0")
  case True
  then show ?thesis using run inv untouched_inv [of a "pool_run (ClusterNodesUpdate fd True True) a"]
    by (auto simp: clusterInitCallBack_def split: if_splits)
next
  case False
  then obtain r0 res added m st where r0: "vec_at msgs 0 = Some r0"
    and an: "analysisClusterNodes (opts a) r0 (mgrs a ! fd) (store_of a) = Some (res, added, m, st)"
    using run by (auto simp: clusterInitCallBack_def split: bind_splits)
  define b where "b = upd_mgr fd (\<lambda>_. m) (with_store st a)"
  note p = parsed_inv [OF inv t [OF r0] an b_def]
  have "mgr_sound (clients (rsys b)) m" using p(4,7) False nr by simp
  then have ib: "cluster_inv fd b" using p(1,2,3,5) by (simp add: cluster_inv_def)
  have "untouched b a'"
    using run False r0 an
    by (auto simp: clusterInitCallBack_def b_def [symmetric] split: if_splits dest: untouched_connect_all)
  then show ?thesis using untouched_inv ib by blast
qed

lemma info_answer_inv:
  assumes inv: "cluster_inv fd a" and run: "clusterInfoCallBack ret (Some fd) msgs a = Some a'"
  shows "cluster_inv fd a'"
proof -
  have fd: "fd < length (mgrs a)" "svrType (mgrs a ! fd) = REDIS_CLUSTER_SERVER" and f: "fresh_ok (store_of a)"
    and snd: "mgr_sound (clients (rsys a)) (mgrs a ! fd)" using inv by (auto simp: cluster_inv_def)
  have "\<exists>m. mgr_becomes fd a a' m \<and> (m = mgrs a ! fd \<or>
      (\<exists>v \<in> {REDIS_EXCEPTION_STATE, REDIS_SVR_ERROR_STATE}. m = (mgrs a ! fd)\<lparr>initState := v\<rparr> \<and> initState (mgrs a ! fd) \<noteq> REDIS_SVR_INVALID_STATE))"
    using run fd by (auto simp: clusterInfoCallBack_def mgr_becomes_def set_state_def Let_def split: if_splits bind_splits option.splits)
  then obtain m where r: "mgr_becomes fd a a' m" and m: "mgr_sound (clients (rsys a)) m \<and> svrType m = REDIS_CLUSTER_SERVER"
    using snd fd mgr_sound_leave [OF snd] by auto
  then show ?thesis by (intro mgr_becomes_inv [OF r fd(1) _ f]) simp_all
qed

lemma release_same:
  "svrInfo (clients (fold setReleaseState cs s) c) = svrInfo (clients s c) \<and> state (clients (fold setReleaseState cs s) c) = state (clients s c)"
  by (induction cs arbitrary: s) (auto simp: setReleaseState_def upd_client_def split: option.split)

lemma release_nodes_same:
  "svrInfo (clients (fold (\<lambda>n. fold setReleaseState (group_clients (clusterNode n))) ns s) c) = svrInfo (clients s c) \<and>
   state (clients (fold (\<lambda>n. fold setReleaseState (group_clients (clusterNode n))) ns s) c) = state (clients s c)"
  by (induction ns arbitrary: s) (simp_all add: release_same)

lemma invalid_inv:
  assumes "cluster_inv fd a"
  shows "cluster_inv fd (redisSvrMgrInvalid fd a)"
proof -
  have "svrInfo (clients (rsys (redisSvrMgrInvalid fd a)) c) = svrInfo (clients (rsys a) c) \<and>
      state (clients (rsys (redisSvrMgrInvalid fd a)) c) = state (clients (rsys a) c)" for c
    using release_same [of "[nodeCli (mgrs a ! fd)]" "rsys a" c]
    by (simp add: redisSvrMgrInvalid_def Let_def release_nodes_same release_same split: option.split)
  then show ?thesis using assms
    by (auto simp: cluster_inv_def fresh_ok_def store_of_def mgr_sound_None redisSvrMgrInvalid_def Let_def)
qed

subsection \<open>All steps\<close>

text \<open>
  What happens around a cluster handle, each step under the mutex of the handle: a connection comes up or goes down, with the
  report that follows, a connect fails; an answer to an internal command arrives; the handle is given up; internal and user
  commands are issued; a second passes. A connection that reports is the one the handle has for its address, or has an address
  that is not in the cluster; an answer names no address twice; the answer to the start-up command comes before the handle runs.
\<close>

inductive cluster_step :: "nat \<Rightarrow> redis_async \<Rightarrow> redis_async \<Rightarrow> bool" for fd where
  up: "reports fd a c ip p \<Longrightarrow> \<not> conned (clients (rsys a)) (Some c) \<Longrightarrow>
    redisSvrOnConnect fd CONNECT_REDISVR_SUCCESS ip p err (a\<lparr>rsys := setStateConnected clock c (rsys a)\<rparr>) = Some a' \<Longrightarrow>
    cluster_step fd a a'"
| down: "reports fd a c ip p \<Longrightarrow> conned (clients (rsys a)) (Some c) \<Longrightarrow> freeState (clients (rsys a) c) = RESOURCES_NEED_FREE \<Longrightarrow>
    disConnect False c False (rsys a) = Some s' \<Longrightarrow>
    redisSvrOnConnect fd REDISVR_CONNECT_DISCONN ip p err (a\<lparr>rsys := s'\<rparr>) = Some a' \<Longrightarrow> cluster_step fd a a'"
| refused: "redisSvrOnConnect fd CONNECT_REDISVR_RESET ip p err a = Some a' \<Longrightarrow> cluster_step fd a a'"
| nodes_answer: "(\<And>r0. vec_at msgs 0 = Some r0 \<Longrightarrow> text_ok r0) \<Longrightarrow> clusterNodesCallBack ret (Some fd) msgs a = Some a' \<Longrightarrow>
    cluster_step fd a a'"
| init_answer: "(\<And>r0. vec_at msgs 0 = Some r0 \<Longrightarrow> text_ok r0) \<Longrightarrow> initState (mgrs a ! fd) \<noteq> REDIS_SVR_RUNING_STATE \<Longrightarrow>
    clusterInitCallBack ret (Some fd) msgs a = Some a' \<Longrightarrow> cluster_step fd a a'"
| info_answer: "clusterInfoCallBack ret (Some fd) msgs a = Some a' \<Longrightarrow> cluster_step fd a a'"
| given_up: "cluster_step fd a (redisSvrMgrInvalid fd a)"
| task: "clusterNodesUpdate fd d i a = Some a' \<Longrightarrow> cluster_step fd a a'"
| command: "redisAsyncCommand_mgr f cb out priv key cmd a = Some (r, a') \<Longrightarrow> cluster_step fd a a'"
| tick: "timer_tick now a = Some a' \<Longrightarrow> cluster_step fd a a'"

lemma setStateConnected_client:
  "\<exists>x. clients (setStateConnected clock c s) = (clients s)(c := x) \<and> svrInfo x = svrInfo (clients s c) \<and> state x = REDIS_CLIENT_STATE_CONN"
  by (auto simp: setStateConnected_def upd_client_def freeTimeEvent_def)

lemma disConnect_client:
  assumes "disConnect False c False s = Some s'" and "freeState (clients s c) = RESOURCES_NEED_FREE"
  shows "\<exists>x. clients s' = (clients s)(c := x) \<and> svrInfo x = svrInfo (clients s c) \<and> state x = REDIS_CLIENT_STATE_INIT"
proof -
  have "clients s' = (clients s)(c := (clients s c)\<lparr>freeState := RESOURCES_FREE_ALREADY, timev := False, state := REDIS_CLIENT_STATE_INIT\<rparr>)"
    using assms by (auto simp: disConnect_def upd_client_def freeTimeEvent_def clearCmdReqBuf_clients Let_def fun_eq_iff split: option.splits)
  then show ?thesis by auto
qed

lemma cluster_step_inv: "cluster_step fd a a' \<Longrightarrow> cluster_inv fd a \<Longrightarrow> cluster_inv fd a'"
proof (induction rule: cluster_step.induct)
  case (up a c ip p err clock a')
  obtain x where x: "clients (setStateConnected clock c (rsys a)) = (clients (rsys a))(c := x)" "svrInfo x = svrInfo (clients (rsys a) c)"
      "state x = REDIS_CLIENT_STATE_CONN" using setStateConnected_client by blast
  show ?case by (rule event_success [OF up.prems up.hyps(1,2) x up.hyps(3)])
next
  case (down a c ip p s' err a')
  obtain x where x: "clients s' = (clients (rsys a))(c := x)" "svrInfo x = svrInfo (clients (rsys a) c)" "state x = REDIS_CLIENT_STATE_INIT"
    using disConnect_client [OF down.hyps(4,3)] by blast
  show ?case by (rule event_disconn [OF down.prems down.hyps(1,2) x down.hyps(5)])
next
  case (refused ip p err a a')
  then show ?case by (rule event_reset [rotated])
next
  case (nodes_answer msgs ret a a')
  show ?case by (rule nodes_answer_inv [OF nodes_answer.prems nodes_answer.hyps])
next
  case (init_answer msgs a ret a')
  show ?case by (rule init_answer_inv [OF init_answer.prems init_answer.hyps])
next
  case (info_answer ret msgs a a')
  then show ?case by (rule info_answer_inv [rotated])
next
  case (given_up a)
  then show ?case by (rule invalid_inv)
next
  case (task d i a a')
  then show ?case using untouched_inv [OF untouched_clusterNodesUpdate] by blast
next
  case (command f cb out priv key cmd a r a')
  then show ?case using untouched_inv [OF untouched_command] by blast
next
  case (tick now a a')
  then show ?case using untouched_inv [OF untouched_timer_tick] by blast
qed

lemma cluster_steps_inv: "(cluster_step fd)\<^sup>*\<^sup>* a a' \<Longrightarrow> cluster_inv fd a \<Longrightarrow> cluster_inv fd a'"
  by (induction rule: rtranclp_induct) (auto intro: cluster_step_inv)

lemma redisInitConnect_inv:
  assumes run: "redisInitConnect a = Some (ret, a')" and fd: "mgrs a = ms @ [m]" and m: "svrType m = REDIS_CLUSTER_SERVER" "initState m = 0" "cluterCli m = None"
    and f: "fresh_ok (store_of a)"
  shows "cluster_inv (length ms) a'"
proof -
  obtain r addrs where r: "init_addrs (c_str (inSvrInfoStr m)) (initSvrInfo m) = (r, addrs)" by force
  define b where "b = upd_mgr (length ms) (\<lambda>m. m\<lparr>initSvrInfo := addrs\<rparr>) a"
  have mb: "mgrs b ! length ms = m\<lparr>initSvrInfo := addrs\<rparr>" "length ms < length (mgrs b)" "store_of b = store_of a"
    using fd by (simp_all add: b_def store_of_def)
  show ?thesis
  proof (cases "r = 0")
    case False
    then have "a' = b" using run fd r by (simp add: redisInitConnect_def b_def)
    then show ?thesis using mb m f by (simp add: cluster_inv_def mgr_sound_None)
  next
    case True
    then obtain svr c st d where n: "new_client (opts b) (mgr_fd m) svr (store_of b) = (c, st)"
      and d: "io_order (Some c) (connect_node c 0) (upd_mgr (length ms) (\<lambda>m. m\<lparr>nodeCli := Some c\<rparr>) (with_store st b)) = Some a'"
      using run fd r by (auto simp: redisInitConnect_def b_def [symmetric] Let_def split: bind_splits prod.splits)
    define e where "e = upd_mgr (length ms) (\<lambda>m. m\<lparr>nodeCli := Some c\<rparr>) (with_store st b)"
    have "fresh_ok st" using new_client_grows [OF n] f mb by simp
    then have "cluster_inv (length ms) e" using mb m by (simp add: cluster_inv_def e_def parsed_rest mgr_sound_None)
    then show ?thesis using untouched_inv [OF untouched_io_order [OF d]] by (simp add: e_def)
  qed
qed

lemma addClusterInfo_inv:
  assumes "addClusterInfo info au a = Some (r, a')" and "0 \<le> r" and "fresh_ok (store_of a)"
  shows "r = int (length (mgrs a)) \<and> cluster_inv (length (mgrs a)) a'"
proof -
  define b where "b = a\<lparr>mgrs := mgrs a @ [RedisClientMgr_new\<lparr>inSvrInfoStr := info, auth := au, svrType := REDIS_CLUSTER_SERVER, mgr_fd := length (mgrs a)\<rparr>]\<rparr>"
  obtain ret where i: "redisInitConnect b = Some (ret, a')" and r: "r = (if ret < 0 then ret else int (length (mgrs a)))"
    using assms(1,2) by (auto simp: addClusterInfo_def add_handle_def b_def Let_def split: if_splits bind_splits)
  have "cluster_inv (length (mgrs a)) a'"
    by (rule redisInitConnect_inv [OF i, of "mgrs a" "RedisClientMgr_new\<lparr>inSvrInfoStr := info, auth := au, svrType := REDIS_CLUSTER_SERVER, mgr_fd := length (mgrs a)\<rparr>"])
      (use assms(3) in \<open>simp_all add: b_def store_of_def RedisClientMgr_new_def\<close>)
  then show ?thesis using r assms(2) by (simp split: if_splits)
qed

end
