(* ===== verification/RedisMgrProps.thy ===== *)
theory RedisMgrProps
  imports RedisMgr
begin

text \<open>
  What the manager of the asynchronous Redis client guarantees: the states of a cluster handle, the routing of commands, the
  addresses of a handle, and the reports that are miscounted.
\<close>

section \<open>Routing\<close>

definition slot_node :: "RedisClusterNode list \<Rightarrow> u16 \<Rightarrow> RedisClusterNode option" where
  "slot_node ns s = find (\<lambda>n. slot_found s (vectSlotInfo n)) ns"

lemma slot_owner_node: "slot_owner ns s = Option.bind (slot_node ns s) (\<lambda>n. master (clusterNode n))"
  by (induction ns) (auto simp: slot_node_def)

lemma slot_nodes_node: "slot_nodes st False ns s = Option.bind (slot_node ns s) (\<lambda>n. connected_slave st (slave (clusterNode n)))"
  by (induction ns) (auto simp: slot_node_def)

lemma connected_slave_Some: "connected_slave st cs = Some c \<Longrightarrow> Some c \<in> set cs \<and> state (st c) = REDIS_CLIENT_STATE_CONN"
  by (induction cs) (auto simp: conned_def split: if_splits)

lemma route_cluster:
  assumes "svrType m = REDIS_CLUSTER_SERVER" and "cluterCli m = Some ci" and "clusterSlotMap ci = slot_owner (clusterVectInfo ci)"
    and "route key st m = Inr (Some c)" and "state (st c) \<noteq> REDIS_CLIENT_STATE_INIT"
  shows "\<exists>n. slot_node (clusterVectInfo ci) (getKeySlotIndex key) = Some n \<and> Some c \<in> set (group_clients (clusterNode n)) \<and>
    (master (clusterNode n) = Some c \<or> (\<exists>d. master (clusterNode n) = Some d \<and> state (st d) = REDIS_CLIENT_STATE_INIT) \<and> state (st c) = REDIS_CLIENT_STATE_CONN)"
proof -
  obtain d where d: "slot_owner (clusterVectInfo ci) (getKeySlotIndex key) = Some d"
    and r: "Some c = (if state (st d) = REDIS_CLIENT_STATE_INIT then slot_nodes st False (clusterVectInfo ci) (getKeySlotIndex key) else Some d)"
    using assms(1-4) by (auto simp: route_def getRedisClient_slot_def Let_def split: if_splits option.splits)
  from d obtain n where n: "slot_node (clusterVectInfo ci) (getKeySlotIndex key) = Some n" "master (clusterNode n) = Some d"
    by (auto simp: slot_owner_node split: bind_splits)
  show ?thesis
  proof (cases "state (st d) = REDIS_CLIENT_STATE_INIT")
    case True
    then have "connected_slave st (slave (clusterNode n)) = Some c" using r n by (simp add: slot_nodes_node)
    with True n show ?thesis by (auto simp: group_clients_def dest: connected_slave_Some)
  next
    case False
    then show ?thesis using r n by (simp add: group_clients_def)
  qed
qed

lemma io_order_queues:
  assumes "ioIndex (clients (rsys a) c) = k" and "k < length (ios a)"
  shows "\<exists>a'. io_order (Some c) n a = Some a' \<and> orderDeque (ios a' ! k) = orderDeque (ios a ! k) @ [n] \<and> orders (rsys a') = orders (rsys a) \<and>
    (\<forall>j. j \<noteq> k \<longrightarrow> ios a' ! j = ios a ! j) \<and> mgrs a' = mgrs a \<and> clients (rsys a') = clients (rsys a)"
  using assms by (auto simp: io_order_def libeventIoOrder_def libeventIoWakeup_def orderNodeInsert_def asyncRequestCmdAdd_def split: option.split)

lemma route_code: "route key st m = Inl e \<Longrightarrow> e \<noteq> CMD_SUCCESS_CODE"
  by (auto simp: route_def Let_def split: if_splits option.splits)

lemma command_cases:
  assumes "fd < length (mgrs a)" and "m = mgrs a ! fd" and "st = clients (rsys a)"
  shows "(\<exists>r. redisAsyncCommand_mgr (int fd) cb out priv key cmd a = Some (r, a) \<and> r \<noteq> CMD_SUCCESS_CODE) \<or>
    (\<exists>c p b. route key st m = Inr (Some c) \<and> state (st c) \<noteq> REDIS_CLIENT_STATE_INIT \<and>
        new_order ((OrderNode_new cmd cb priv)\<lparr>outSecond := word_of_int out, cmdOutSecond := nowSecond a + word_of_int out\<rparr>) a = (p, b) \<and>
        redisAsyncCommand_mgr (int fd) cb out priv key cmd a = map_option (Pair CMD_SUCCESS_CODE)
           (io_order (Some c) \<lparr>node_outSecond = nowSecond a + word_of_int out, cli = Some c, cmdOrd = Some p\<rparr> b))"
proof (cases "key = [] \<or> cmd = [] \<or> out = 0 \<or> initState m \<in> {REDIS_SVR_INIT_STATE, REDIS_SVR_ERROR_STATE, REDIS_SVR_INVALID_STATE}")
  case True
  then show ?thesis using assms by (auto simp: redisAsyncCommand_mgr_def Let_def)
next
  case False
  obtain p b where n: "new_order ((OrderNode_new cmd cb priv)\<lparr>outSecond := word_of_int out, cmdOutSecond := nowSecond a + word_of_int out\<rparr>) a = (p, b)" by force
  have run: "redisAsyncCommand_mgr (int fd) cb out priv key cmd a =
     (case route key st m of Inl e \<Rightarrow> Some (e, a) | Inr None \<Rightarrow> Some (CMD_SVR_NODES_DOWN, a)
      | Inr (Some c) \<Rightarrow> if state (st c) = REDIS_CLIENT_STATE_INIT then Some (CMD_SVR_NODES_DOWN, a)
          else map_option (Pair CMD_SUCCESS_CODE)
                 (io_order (Some c) \<lparr>node_outSecond = nowSecond a + word_of_int out, cli = Some c, cmdOrd = Some p\<rparr> b))"
    using False assms n by (simp add: redisAsyncCommand_mgr_def Let_def split: sum.split option.split)
  show ?thesis
  proof (cases "route key st m")
    case (Inl e)
    then show ?thesis using run route_code [OF Inl] by simp
  next
    case (Inr oc)
    then show ?thesis using run n by (cases oc) auto
  qed
qed

text \<open>The order for a command, queued at the thread of connection \<open>c\<close> and nowhere else.\<close>

definition queued_for :: "nat \<Rightarrow> nat option \<Rightarrow> int \<Rightarrow> nat option \<Rightarrow> string \<Rightarrow> redis_async \<Rightarrow> redis_async \<Rightarrow> bool" where
  "queued_for c cb out priv cmd a a' \<longleftrightarrow>
     (let k = ioIndex (clients (rsys a) c); p = nextOrd a; t = nowSecond a + word_of_int out
      in orderDeque (ios a' ! k) = orderDeque (ios a ! k) @ [\<lparr>node_outSecond = t, cli = Some c, cmdOrd = Some p\<rparr>] \<and>
         (\<forall>j. j \<noteq> k \<longrightarrow> ios a' ! j = ios a ! j) \<and> mgrs a' = mgrs a \<and> clients (rsys a') = clients (rsys a) \<and>
         cmdMsg (orders (rsys a') p) = cmd \<and> resultCb (orders (rsys a') p) = cb \<and> cmdPri (orders (rsys a') p) = priv \<and>
         cmdOutSecond (orders (rsys a') p) = t)"

lemma send_queues:
  assumes "ioIndex (clients (rsys a) c) < length (ios a)"
    and "new_order ((OrderNode_new cmd cb priv)\<lparr>outSecond := word_of_int out, cmdOutSecond := nowSecond a + word_of_int out\<rparr>) a = (p, b)"
  shows "\<exists>a'. io_order (Some c) \<lparr>node_outSecond = nowSecond a + word_of_int out, cli = Some c, cmdOrd = Some p\<rparr> b = Some a' \<and> queued_for c cb out priv cmd a a'"
proof -
  have b: "p = nextOrd a" "clients (rsys b) = clients (rsys a)" "ios b = ios a" "mgrs b = mgrs a"
    "orders (rsys b) p = (OrderNode_new cmd cb priv)\<lparr>outSecond := word_of_int out, cmdOutSecond := nowSecond a + word_of_int out\<rparr>"
    using assms(2) by (auto simp: new_order_def upd_order_def Let_def)
  have "ioIndex (clients (rsys b) c) < length (ios b)" using assms(1) b by simp
  from io_order_queues [OF refl this, of "\<lparr>node_outSecond = nowSecond a + word_of_int out, cli = Some c, cmdOrd = Some p\<rparr>"] b
  show ?thesis by (auto simp: queued_for_def Let_def OrderNode_new_def)
qed

lemma command_result:
  assumes inv: "cluster_inv fd a" and io: "\<forall>c. ioIndex (clients (rsys a) c) < length (ios a)"
  shows "\<exists>r a'. redisAsyncCommand_mgr (int fd) cb out priv key cmd a = Some (r, a') \<and>
    (if r = CMD_SUCCESS_CODE
     then \<exists>ci n c. cluterCli (mgrs a ! fd) = Some ci \<and> slot_node (clusterVectInfo ci) (getKeySlotIndex key) = Some n \<and>
            (master (clusterNode n) = Some c \<or>
             (\<exists>d. master (clusterNode n) = Some d \<and> state (clients (rsys a) d) = REDIS_CLIENT_STATE_INIT) \<and>
             Some c \<in> set (slave (clusterNode n)) \<and> state (clients (rsys a) c) = REDIS_CLIENT_STATE_CONN) \<and>
            queued_for c cb out priv cmd a a'
     else a' = a)"
proof -
  let ?m = "mgrs a ! fd" and ?st = "clients (rsys a)"
  have fd: "fd < length (mgrs a)" "svrType ?m = REDIS_CLUSTER_SERVER" using inv by (simp_all add: cluster_inv_def)
  consider (refused) r where "redisAsyncCommand_mgr (int fd) cb out priv key cmd a = Some (r, a)" "r \<noteq> CMD_SUCCESS_CODE"
    | (sent) c p b where "route key ?st ?m = Inr (Some c)" "state (?st c) \<noteq> REDIS_CLIENT_STATE_INIT"
        "new_order ((OrderNode_new cmd cb priv)\<lparr>outSecond := word_of_int out, cmdOutSecond := nowSecond a + word_of_int out\<rparr>) a = (p, b)"
        "redisAsyncCommand_mgr (int fd) cb out priv key cmd a = map_option (Pair CMD_SUCCESS_CODE)
           (io_order (Some c) \<lparr>node_outSecond = nowSecond a + word_of_int out, cli = Some c, cmdOrd = Some p\<rparr> b)"
    using command_cases [OF fd(1) refl refl, of cb out priv key cmd] by blast
  then show ?thesis
  proof cases
    case refused
    then show ?thesis by auto
  next
    case sent
    obtain ci where ci: "cluterCli ?m = Some ci" using sent(1) fd by (auto simp: route_def Let_def split: if_splits option.splits)
    then have map: "clusterSlotMap ci = slot_owner (clusterVectInfo ci)" using inv by (simp add: cluster_inv_def mgr_sound_Some)
    obtain a' where a': "io_order (Some c) \<lparr>node_outSecond = nowSecond a + word_of_int out, cli = Some c, cmdOrd = Some p\<rparr> b = Some a'"
      "queued_for c cb out priv cmd a a'" using send_queues [OF _ sent(3)] io by blast
    from route_cluster [OF fd(2) ci map sent(1,2)] a' sent(4) ci show ?thesis by (auto simp: group_clients_def)
  qed
qed

section \<open>Addresses of a handle\<close>

definition show_addr :: "RedisSvrInfo \<Rightarrow> string" where
  "show_addr a = ipAddr a @ '':'' @ sprintf_d (port a)"

definition addr_ok :: "RedisSvrInfo \<Rightarrow> bool" where
  "addr_ok a \<longleftrightarrow> length (ipAddr a) \<le> 15 \<and> {CHR '':'', CHR '','', NUL} \<inter> set (ipAddr a) = {} \<and> 0 \<le> sint (port a) \<and> sint (port a) < 100000"

lemma strFristChar_loop_skip: "c \<notin> set xs \<Longrightarrow> strFristChar_loop (xs @ ys) c = strFristChar_loop ys c"
  by (induction xs) auto

lemma port_text:
  assumes "addr_ok a"
  shows "length (sprintf_d (port a)) \<le> 5" and "CHR '','' \<notin> set (sprintf_d (port a))" and "NUL \<notin> set (sprintf_d (port a))"
proof -
  have "sprintf_d (port a) = show_nat (nat (sint (port a)))" using assms by (simp add: sprintf_d_def show_int_def addr_ok_def)
  moreover have "nat (sint (port a)) < 10 ^ Suc 4" using assms by (simp add: addr_ok_def nat_less_iff)
  ultimately show "length (sprintf_d (port a)) \<le> 5" using show_nat_length [of "nat (sint (port a))" 4] by simp
  show "CHR '','' \<notin> set (sprintf_d (port a))" "NUL \<notin> set (sprintf_d (port a))" using show_int_clean [of "sint (port a)"] by (auto simp: sprintf_d_def)
qed

lemma init_addrs_last: "addr_ok a \<Longrightarrow> init_addrs (show_addr a) acc = (INIT_SUCCESS_CODE, acc @ [a])"
proof -
  assume ok: "addr_ok a"
  have colon: "utilFristConstchar (show_addr a) CHR '':'' = Some ('':'' @ sprintf_d (port a))"
    using ok strFristChar_loop_skip [of "CHR '':''" "ipAddr a"] by (simp add: utilFristConstchar_def show_addr_def addr_ok_def)
  have "CHR '','' \<notin> set (show_addr a)" using ok port_text [OF ok] by (auto simp: show_addr_def addr_ok_def)
  then have comma: "utilFristConstchar (show_addr a) CHR '','' = None"
    using strFristChar_loop_skip [of "CHR '',''" "show_addr a" "[]"] by (simp add: utilFristConstchar_def)
  show ?thesis
    using ok port_text [OF ok] atoi_sprintf_d [of "[]" "port a"]
    by (subst init_addrs.simps) (simp add: colon comma addr_ok_def, simp add: show_addr_def)
qed

lemma init_addrs_more:
  "addr_ok a \<Longrightarrow> init_addrs (show_addr a @ CHR '','' # rest) acc = init_addrs rest (acc @ [a])"
proof -
  assume ok: "addr_ok a"
  let ?t = "show_addr a @ CHR '','' # rest"
  let ?p = "sprintf_d (port a) @ CHR '','' # rest"
  have split: "?t = ipAddr a @ CHR '':'' # ?p" by (simp add: show_addr_def)
  have colon: "utilFristConstchar ?t CHR '':'' = Some (CHR '':'' # ?p)"
    using ok strFristChar_loop_skip [of "CHR '':''" "ipAddr a"] by (simp add: utilFristConstchar_def show_addr_def addr_ok_def)
  have "CHR '','' \<notin> set (show_addr a)" using ok port_text [OF ok] by (auto simp: show_addr_def addr_ok_def)
  then have comma: "utilFristConstchar ?t CHR '','' = Some (CHR '','' # rest)"
    using strFristChar_loop_skip [of "CHR '',''" "show_addr a" "CHR '','' # rest"] by (simp add: utilFristConstchar_def)
  have ip: "take (length ?t - length (CHR '':'' # ?p)) ?t = ipAddr a" unfolding split by simp
  have p: "atoi ?p = port a" by (rule atoi_sprintf_d) (simp add: is_digit_def)
  have len: "length (ipAddr a) \<le> 15" using ok by (simp add: addr_ok_def)
  have a: "\<lparr>port = port a, ipAddr = ipAddr a\<rparr> = a" by simp
  show ?thesis
    unfolding init_addrs.simps [of ?t] colon comma Let_def option.case ip list.sel p a
    using port_text(1) [OF ok] len by simp
qed

lemma init_addrs_join:
  "as \<noteq> [] \<Longrightarrow> list_all addr_ok as \<Longrightarrow> init_addrs (join '','' (map show_addr as)) acc = (INIT_SUCCESS_CODE, acc @ as)"
proof (induction as arbitrary: acc)
  case (Cons a as)
  then show ?case by (cases "as = []") (simp_all add: init_addrs_last init_addrs_more)
qed simp

lemma show_addr_clean: "addr_ok a \<Longrightarrow> NUL \<notin> set (show_addr a)"
  using port_text(3) [of a] by (auto simp: show_addr_def addr_ok_def)

lemma join_addrs_clean: "list_all addr_ok as \<Longrightarrow> NUL \<notin> set (join '','' (map show_addr as))"
proof (induction as)
  case (Cons a as)
  then show ?case using show_addr_clean [of a] by (cases as) auto
qed simp

lemma redisInitConnect_result:
  assumes m: "mgrs a = ms @ [m]" "inSvrInfoStr m = join '','' (map show_addr as)" "initSvrInfo m = []" "initSvrIndex m = 0"
    and ok: "as \<noteq> []" "list_all addr_ok as" and io: "0 < length (ios a)" "ioThreadNum (opts a) = length (ios a)"
  shows "\<exists>a' c. redisInitConnect a = Some (INIT_SUCCESS_CODE, a') \<and>
     mgrs a' = ms @ [m\<lparr>initSvrInfo := as, nodeCli := Some c\<rparr>] \<and> svrInfo (clients (rsys a') c) = Some (hd as) \<and>
     (let k = ioIndex (clients (rsys a') c) in k < length (ios a) \<and> orderDeque (ios a' ! k) = orderDeque (ios a ! k) @ [connect_node c 0])"
proof -
  have addrs: "init_addrs (c_str (inSvrInfoStr m)) (initSvrInfo m) = (INIT_SUCCESS_CODE, as)"
    using init_addrs_join [OF ok, of "[]"] join_addrs_clean [OF ok(2)] m by (simp add: c_str_clean)
  define b where "b = upd_mgr (length ms) (\<lambda>m. m\<lparr>initSvrInfo := as\<rparr>) a"
  obtain c st where n: "new_client (opts b) (mgr_fd m) (hd as) (store_of b) = (c, st)" by force
  define e where "e = upd_mgr (length ms) (\<lambda>m. m\<lparr>nodeCli := Some c\<rparr>) (with_store st b)"
  have e: "mgrs e = ms @ [m\<lparr>initSvrInfo := as, nodeCli := Some c\<rparr>]" "ios e = ios a"
    using m by (simp_all add: e_def b_def upd_mgr_def with_store_def)
  have cl: "svrInfo (clients (rsys e) c) = Some (hd as)" "ioIndex (clients (rsys e) c) < length (ios e)"
    using n io by (auto simp: e_def b_def upd_mgr_def with_store_def new_client_def RedisClient_new_def Let_def)
  have "redisInitConnect a = map_option (Pair INIT_SUCCESS_CODE) (io_order (Some c) (connect_node c 0) e)"
    using ok n unfolding redisInitConnect_def Let_def m(1) length_append_singleton diff_Suc_1 nth_append_length addrs prod.case
    by (simp add: b_def [symmetric] e_def [symmetric] m vec_at_def hd_conv_nth) (cases "io_order (Some c) (connect_node c 0) e"; simp)
  then show ?thesis using io_order_queues [OF refl cl(2), of "connect_node c 0"] e cl by (auto simp: Let_def)
qed

section \<open>Properties\<close>


text \<open>A client with one I/O thread, a cluster handle with one address, and a cluster of one node.\<close>

definition started :: redis_async where
  "started = snd (redisAsyncInit 1 1 3 10 100
     \<lparr>rsys = \<lparr>clients = (\<lambda>_. RedisClient_new 0 0 None 0 0), orders = (\<lambda>_. OrderNode_new [] None None), cmdResults = [], asyncCmdNum = 0,
               answered = [], requests = [], live = (\<lambda>_. False), cmdRets = [], connRets = []\<rparr>,
      ios = [], timerDeque = [], mgrs = [], pool = [], nextCli = 0, nextOrd = 0, ioCounter = 0,
      opts = \<lparr>ioThreadNum = 0, keepSecond = 0, connOutSec = 0\<rparr>, callBackNum = 0, nowSecond = 0\<rparr>)"

definition with_handle :: redis_async where
  "with_handle = started
     \<lparr>rsys := (rsys started)\<lparr>clients := (clients (rsys started))(0 := RedisClient_new 0 0 (Some \<lparr>port = 7, ipAddr = ''1''\<rparr>) 10 3)\<rparr>,
      ios := [\<lparr>io_nowSecond = 100, io_lastSecond = 0, orderDeque = [connect_node 0 0], ioRedisClients = [], wakeups = 2\<rparr>],
      mgrs := [RedisClientMgr_new\<lparr>inSvrInfoStr := ''1:7'', svrType := REDIS_CLUSTER_SERVER, initSvrInfo := [\<lparr>port = 7, ipAddr = ''1''\<rparr>], nodeCli := Some 0\<rparr>],
      nextCli := 1, ioCounter := 1\<rparr>"

definition one_cluster :: RedisClusterInfo where
  "one_cluster = \<lparr>clusterSlotMap = (\<lambda>s. if s = 5 then Some 0 else None),
     clusterVectInfo = [\<lparr>nodeIds = ''a'', vectSlotInfo = [\<lparr>slotStart = 5, slotEnd = 5\<rparr>], clusterNode = \<lparr>master = Some 0, slave = []\<rparr>\<rparr>]\<rparr>"

definition known_cluster :: redis_async where
  "known_cluster = upd_mgr 0 (\<lambda>m. m\<lparr>cluterCli := Some one_cluster\<rparr>) with_handle"

definition running_cluster :: redis_async where
  "running_cluster = pool_run (AsyncStateCb 0 REDIS_SVR_RUNING_STATE ''1:7'')
     (upd_mgr 0 (\<lambda>m. m\<lparr>masterConn := 1, initState := REDIS_SVR_RUNING_STATE\<rparr>) (known_cluster\<lparr>rsys := setStateConnected 100 0 (rsys known_cluster)\<rparr>))"

definition one_node :: string where
  "one_node = ''a 1:7 master - 0 0 0 - 5'' @ [LF]"

lemma one_node_words:
  "split one_node [LF] [] = [''a 1:7 master - 0 0 0 - 5'']"
  "split ''a 1:7 master - 0 0 0 - 5'' '' '' [] = [''a'', ''1:7'', ''master'', ''-'', ''0'', ''0'', ''0'', ''-'', ''5'']"
  "analysisSvrInfo ''1:7'' = Some \<lparr>port = 7, ipAddr = ''1''\<rparr>" "is_master_flags ''master''"
  "parse_slot ''5'' = \<lparr>slotStart = 5, slotEnd = 5\<rparr>" "has_failed_master one_node = False"
  by code_simp+

lemmas started_defs = started_def redisAsyncInit_def initialised_def RedisClientMgr_new_def RedisClient_new_def

lemma init_one: "init_addrs ''1:7'' [] = (0, [\<lparr>port = 7, ipAddr = ''1''\<rparr>])"
  by code_simp

lemma with_handle_run: "addClusterInfo ''1:7'' [] started = Some (int 0, with_handle)" "fresh_ok (store_of started)"
  by (simp_all add: addClusterInfo_def add_handle_def redisInitConnect_def started_defs with_handle_def init_one c_str_def upd_mgr_def vec_at_def
      new_client_def with_store_def store_of_def io_order_def libeventIoOrder_def orderNodeInsert_def libeventIoWakeup_def connect_node_def fresh_ok_def)

lemma known_cluster_run: "clusterInitCallBack 0 (Some 0) [one_node] with_handle = Some known_cluster"
proof -
  have ne: "one_node \<noteq> []" by (simp add: one_node_def)
  have five: "(\<lambda>s. if s = 5 then Some 0 else None) = (\<lambda>s. if 5 \<le> s \<and> s \<le> (5 :: u16) then Some 0 else None)" by (auto simp: fun_eq_iff)
  have an: "analysisClusterNodes (opts with_handle) one_node (mgrs with_handle ! 0) (store_of with_handle) =
    Some (0, [], (mgrs with_handle ! 0)\<lparr>cluterCli := Some one_cluster\<rparr>, store_of with_handle)"
    using ne by (simp add: analysisClusterNodes_def one_node_words master_line_def slot_ranges_result client_for_def known_client_def isSelfSvrInfo_cli_def
        isSelfSvrInfo_def svr_eq_def count_master_def conned_def with_handle_def started_defs RedisClusterInfo_new_def store_of_def one_cluster_def five
        Let_def) (auto simp: fun_eq_iff)
  have st: "initState (mgrs with_handle ! 0) = 0" "upd_mgr 0 (\<lambda>_. (mgrs with_handle ! 0)\<lparr>cluterCli := Some one_cluster\<rparr>) (with_store (store_of with_handle) with_handle) = known_cluster"
    by (simp_all add: with_handle_def known_cluster_def started_defs with_store_def store_of_def upd_mgr_def)
  show ?thesis by (simp add: clusterInitCallBack_def an st vec_at_def one_node_words)
qed

lemma running_cluster_run:
  "redisSvrOnConnect 0 CONNECT_REDISVR_SUCCESS ''1'' 7 [] (known_cluster\<lparr>rsys := setStateConnected 100 0 (rsys known_cluster)\<rparr>) = Some running_cluster"
  by (simp add: redisSvrOnConnect_def known_cluster_def with_handle_def started_defs cluster_on_connect_def upd_mgr_def one_cluster_def nodes_of_def
      run_if_complete_def cluster_count_def clusterRedisConnsUpdate_def group_role_def isSelf_addr addr_of_def setStateConnected_def freeTimeEvent_def
      upd_client_def count_role_def bump_def running_cluster_def set_state_def pool_run_def)

lemma known_cluster_step: "cluster_step 0 with_handle known_cluster"
proof -
  have "text_ok one_node"
    by (simp add: text_ok_def one_node_words line_words_def line_view_def slave_addrs_def)
  then show ?thesis
    by (intro cluster_step.init_answer [OF _ _ known_cluster_run]) (auto simp: vec_at_def with_handle_def started_defs)
qed

lemma running_cluster_steps: "(cluster_step 0)\<^sup>*\<^sup>* with_handle running_cluster"
proof -
  have "cluster_step 0 known_cluster running_cluster"
    by (rule cluster_step.up [OF _ _ running_cluster_run])
      (simp_all add: reports_def known_cluster_def with_handle_def started_defs upd_mgr_def one_cluster_def nodes_of_def conned_def)
  then show ?thesis using known_cluster_step by (meson converse_rtranclp_into_rtranclp r_into_rtranclp)
qed

lemma known_cluster_report:
  "\<exists>a'. redisSvrOnConnect 0 REDISVR_CONNECT_DISCONN ''1'' 7 [] known_cluster = Some a' \<and> clients (rsys a') = clients (rsys known_cluster)"
proof -
  have s: "svrType (mgrs known_cluster ! 0) = REDIS_CLUSTER_SERVER" "initState (mgrs known_cluster ! 0) = 0" "0 < length (mgrs known_cluster)"
    by (simp_all add: known_cluster_def with_handle_def started_defs upd_mgr_def)
  obtain msg where "exce_msg ''1'' 7 [] = Some msg" by (simp add: exce_msg_def c_str_def sprintf_d_def show_int_def show_nat.simps)
  then show ?thesis using s
    by (auto simp: redisSvrOnConnect_def cluster_on_connect_def cluster_disconn_def cluster_count_eq cluster_lost_def set_state_def Let_def)
qed

lemma axh_slot: "getKeySlotIndex ''axh'' = 5"
  by code_simp

lemma running_state:
  "mgrs running_cluster = [RedisClientMgr_new\<lparr>inSvrInfoStr := ''1:7'', svrType := REDIS_CLUSTER_SERVER, initSvrInfo := [\<lparr>port = 7, ipAddr = ''1''\<rparr>],
     nodeCli := Some 0, cluterCli := Some one_cluster, masterConn := 1, initState := REDIS_SVR_RUNING_STATE\<rparr>]"
  "length (ios running_cluster) = 1" "ioIndex (clients (rsys running_cluster) c) = 0" "state (clients (rsys running_cluster) 0) = REDIS_CLIENT_STATE_CONN"
  by (simp_all add: running_cluster_def known_cluster_def with_handle_def started_defs upd_mgr_def setStateConnected_def upd_client_def freeTimeEvent_def pool_run_def)





text \<open>Adding a handle: for every non-empty list of addresses that fit, written with commas between them, an initialised client
  gives the handle the next number, keeps the handles it has, knows exactly these addresses, has made a connection for the
  first of them, and has queued the order to connect it at the I/O thread of that connection.\<close>

theorem handle_added:
  assumes "as \<noteq> []" and "list_all addr_ok as" and "initialised a" and "ioThreadNum (opts a) = length (ios a)"
  shows "\<exists>a' m c. add_handle t (join '','' (map show_addr as)) au a = Some (int (length (mgrs a)), a') \<and> mgrs a' = mgrs a @ [m] \<and>
    svrType m = t \<and> initState m = REDIS_SVR_INIT_STATE \<and> initSvrInfo m = as \<and> nodeCli m = Some c \<and>
    svrInfo (clients (rsys a') c) = Some (hd as) \<and>
    (let k = ioIndex (clients (rsys a') c) in k < length (ios a) \<and> orderDeque (ios a' ! k) = orderDeque (ios a ! k) @ [connect_node c 0])"
proof -
  let ?m = "RedisClientMgr_new\<lparr>inSvrInfoStr := join '','' (map show_addr as), auth := au, svrType := t, mgr_fd := length (mgrs a)\<rparr>"
  let ?b = "a\<lparr>mgrs := mgrs a @ [?m]\<rparr>"
  have "0 < length (ios ?b)" "ioThreadNum (opts ?b) = length (ios ?b)" using assms(3,4) by (simp_all add: initialised_def)
  from redisInitConnect_result [of ?b, OF _ _ _ _ assms(1,2) this]
  obtain a' c where r: "redisInitConnect ?b = Some (INIT_SUCCESS_CODE, a')" "mgrs a' = mgrs a @ [?m\<lparr>initSvrInfo := as, nodeCli := Some c\<rparr>]"
    "svrInfo (clients (rsys a') c) = Some (hd as)"
    "let k = ioIndex (clients (rsys a') c) in k < length (ios a) \<and> orderDeque (ios a' ! k) = orderDeque (ios a ! k) @ [connect_node c 0]"
    by (auto simp: RedisClientMgr_new_def)
  have "add_handle t (join '','' (map show_addr as)) au a = Some (int (length (mgrs a)), a')"
    using assms(3) r(1) by (simp add: add_handle_def Let_def)
  moreover have "initState ?m = REDIS_SVR_INIT_STATE" by (simp add: RedisClientMgr_new_def)
  ultimately show ?thesis using r by fastforce
qed

theorem handle_added_witness:
  "\<exists>a' m c. add_handle REDIS_CLUSTER_SERVER ''10.0.0.1:6379,10.0.0.2:6380'' [] started = Some (int 0, a') \<and> mgrs a' = [m] \<and>
    initSvrInfo m = [\<lparr>port = 6379, ipAddr = ''10.0.0.1''\<rparr>, \<lparr>port = 6380, ipAddr = ''10.0.0.2''\<rparr>]"
proof -
  let ?as = "[\<lparr>port = 6379, ipAddr = ''10.0.0.1''\<rparr>, \<lparr>port = 6380, ipAddr = ''10.0.0.2''\<rparr>]"
  have t: "join '','' (map show_addr ?as) = ''10.0.0.1:6379,10.0.0.2:6380''"
    by (simp add: show_addr_def sprintf_d_def show_int_def show_nat.simps digit_def char_of_def bit_Suc_0_iff)
  have ok: "list_all addr_ok ?as" by (simp add: addr_ok_def)
  have s: "initialised started" "ioThreadNum (opts started) = length (ios started)" "mgrs started = []" by (simp_all add: started_defs)
  from handle_added [OF _ ok s(1,2), of REDIS_CLUSTER_SERVER "[]"] show ?thesis unfolding t s(3) by auto
qed

text \<open>A connection of a master that is down is counted twice when the topology is read between the loss of the connection and its
  report, because \<open>state_\<close> changes outside the mutex of the handle: on a handle whose counter is already right for the lost
  connection, the report takes one more off, and \<open>masterConn_\<close> wraps around when no master is up.\<close>

theorem late_report_miscounts:
  assumes "cluster_inv fd a" and "cluterCli (mgrs a ! fd) = Some ci" and "n \<in> set (clusterVectInfo ci)" and "master (clusterNode n) = Some c"
    and "svrInfo (clients (rsys a) c) = Some \<lparr>port = p, ipAddr = ip\<rparr>" and "\<not> conned (clients (rsys a)) (Some c)"
    and "redisSvrOnConnect fd REDISVR_CONNECT_DISCONN ip p err a = Some a'"
  shows "cluterCli (mgrs a' ! fd) = Some ci \<and>
    masterConn (mgrs a' ! fd) = of_nat (masters_up (conned (clients (rsys a'))) (clusterVectInfo ci)) - 1"
proof -
  have inv: "fd < length (mgrs a)" "svrType (mgrs a ! fd) = REDIS_CLUSTER_SERVER" "mgr_sound (clients (rsys a)) (mgrs a ! fd)"
    using assms(1) by (simp_all add: cluster_inv_def)
  have s: "initState (mgrs a ! fd) \<in> {0, 1, 2, 3}" "addrs_ok (clients (rsys a)) (clusterVectInfo ci)"
    "masterConn (mgrs a ! fd) = of_nat (masters_up (conned (clients (rsys a))) (clusterVectInfo ci))"
    using inv(3) [unfolded mgr_sound_Some [OF assms(2)]] by blast+
  have "Some c \<in> set (map (master \<circ> clusterNode) (clusterVectInfo ci))" using assms(3,4) by force
  then have role: "cluster_role (clients (rsys a)) (clusterVectInfo ci) ip p = MASTER_CLUSTER_ADDRINFO"
    using role_of_connection [OF s(2) assms(5)] assms(3,4) master_member by metis
  have run: "cluster_on_connect fd REDISVR_CONNECT_DISCONN ip p err a = Some a'"
    using assms(7) inv(1,2) by (simp add: redisSvrOnConnect_def)
  obtain m where m: "mgr_becomes fd a a' m" "cluterCli m = cluterCli (counted fd a ip p False True)" "masterConn m = masterConn (counted fd a ip p False True)"
    using disconn_becomes [OF run inv(1)] s(1) by auto
  then show ?thesis using counted_fields [OF assms(2), of ip p False] role s(3) by (auto simp: mgr_becomes_def)
qed

theorem late_report_miscounts_witness:
  "\<exists>a'. redisSvrOnConnect 0 REDISVR_CONNECT_DISCONN ''1'' 7 [] known_cluster = Some a' \<and> masterConn (mgrs a' ! 0) = - 1"
proof -
  have inv: "cluster_inv 0 known_cluster"
  proof (rule cluster_step_inv [OF known_cluster_step])
    have "mgrs started = []" by (simp add: started_defs)
    then show "cluster_inv 0 with_handle" using addClusterInfo_inv [OF with_handle_run(1) _ with_handle_run(2)] by simp
  qed
  let ?n = "\<lparr>nodeIds = ''a'', vectSlotInfo = [\<lparr>slotStart = 5, slotEnd = 5\<rparr>], clusterNode = \<lparr>master = Some 0, slave = []\<rparr>\<rparr>"
  have k: "cluterCli (mgrs known_cluster ! 0) = Some one_cluster" "?n \<in> set (clusterVectInfo one_cluster)" "master (clusterNode ?n) = Some 0"
    "svrInfo (clients (rsys known_cluster) 0) = Some \<lparr>port = 7, ipAddr = ''1''\<rparr>" "\<not> conned (clients (rsys known_cluster)) (Some 0)"
    by (simp_all add: known_cluster_def with_handle_def started_defs upd_mgr_def one_cluster_def conned_def)
  obtain a' where r: "redisSvrOnConnect 0 REDISVR_CONNECT_DISCONN ''1'' 7 [] known_cluster = Some a'" "clients (rsys a') = clients (rsys known_cluster)"
    using known_cluster_report by blast
  have "masters_up (conned (clients (rsys a'))) (clusterVectInfo one_cluster) = 0"
    using k(5) unfolding r(2) by (simp add: one_cluster_def masters_up_def)
  with late_report_miscounts [OF inv k r(1)] r(1) show ?thesis by simp
qed

text \<open>The answer of a healthy cluster to \<open>CLUSTER INFO\<close> moves the handle to the error state: the lines of the answer end
  with carriage return and line feed, the split is at the line feed only, and \<open>ok\<close> with the carriage return is not \<open>ok\<close>.\<close>

theorem cluster_info_rejected:
  assumes "fd < length (mgrs a)" and "initState (mgrs a ! fd) \<noteq> REDIS_SVR_INVALID_STATE" and "\<forall>l \<in> set ls. LF \<notin> set l"
  shows "\<exists>a'. clusterInfoCallBack 0 (Some fd) [concat (map (\<lambda>l. l @ [CR, LF]) (''cluster_state:ok'' # ls))] a = Some a' \<and>
    initState (mgrs a' ! fd) = REDIS_SVR_ERROR_STATE"
proof -
  let ?ls = "map (\<lambda>l. l @ [CR]) (''cluster_state:ok'' # ls)"
  have "split (concat (map (\<lambda>l. l @ [LF]) ?ls)) [LF] [] = ?ls"
    by (rule split_lines) (use assms(3) in \<open>auto simp: list_all_iff\<close>)
  then have l0: "vec_at (split (concat (map (\<lambda>l. l @ [CR, LF]) (''cluster_state:ok'' # ls))) [LF] []) 0 = Some (''cluster_state:ok'' @ [CR])"
    by (simp add: vec_at_def o_def)
  have pos: "str_find (''cluster_state:ok'' @ [CR]) '':'' 0 = Some 13" by code_simp
  have ne: "drop (13 + 1) (''cluster_state:ok'' @ [CR]) \<noteq> ''ok''" by code_simp
  have r0: "vec_at [r] 0 = Some r" for r by (simp add: vec_at_def)
  show ?thesis using assms(1,2) ne
    unfolding clusterInfoCallBack_def option.case Let_def r0 Option.bind.bind_lunit l0 pos by (simp add: set_state_def)
qed

theorem cluster_info_rejected_witness:
  "\<exists>a'. clusterInfoCallBack 0 (Some 0) [''cluster_state:ok'' @ [CR, LF]] running_cluster = Some a' \<and>
     initState (mgrs a' ! 0) = REDIS_SVR_ERROR_STATE"
proof -
  have "0 < length (mgrs running_cluster)" "initState (mgrs running_cluster ! 0) \<noteq> REDIS_SVR_INVALID_STATE" by (simp_all add: running_state)
  from cluster_info_rejected [OF this, of "[]"] show ?thesis by simp
qed

text \<open>A timed-out \<open>INFO\<close> has no answer text; \<open>infoReplicationCb\<close> reads the first element without a look at the code.\<close>

lemma replication_answer_unchecked:
  "initState (mgrs a ! fd) \<noteq> REDIS_SVR_INVALID_STATE \<Longrightarrow> infoReplicationCb ret (Some fd) [] a = None"
  by (simp add: infoReplicationCb_def vec_at_def)

end
