(* ===== verification/ClusterClient.thy ===== *)
theory ClusterClient
  imports RedisTopology
begin

text \<open>
  One connection of the cluster client, \<^verbatim>\<open>src/rediscluster/RedisClient.cpp\<close>: connecting, the five ways to send a command
  and read its reply, and all commands. hiredis is a parameter: connecting, sending a request on a context and getting a reply or
  none, releasing a context. A request is either a vector of arguments or a format with its arguments, which hiredis expands.
\<close>

section \<open>hiredis\<close>

text \<open>A reply with its type, number, text and elements; \<open>len\<close> is the length of the text, and 0 when there is none.\<close>

datatype sync_reply = SyncReply (sr_type: int) (sr_integer: c_i64) (sr_str: "string option") (sr_element: "sync_reply list")

datatype fmt_arg = AStr string | AInt c_int | AUInt u32 | ADouble u64

datatype request = Argv "string list" | Fmt string "fmt_arg list"

record 'h hiredis =
  h_connect :: "string \<Rightarrow> c_int \<Rightarrow> c_int \<Rightarrow> 'h \<Rightarrow> (nat \<times> string option) option \<times> 'h"
  h_command :: "nat \<Rightarrow> request \<Rightarrow> 'h \<Rightarrow> sync_reply option \<times> 'h"
  h_free :: "nat \<Rightarrow> 'h \<Rightarrow> 'h"

definition text_of :: "sync_reply \<Rightarrow> string" where
  "text_of r = (case sr_str r of None \<Rightarrow> [] | Some s \<Rightarrow> s)"

definition lower :: "char \<Rightarrow> char" where
  "lower c = (if 65 \<le> code c \<and> code c \<le> 90 then char_of (code c + 32) else c)"

text \<open>\<open>reply->str && strcasecmp(reply->str, t) == 0\<close>.\<close>

definition says :: "string \<Rightarrow> sync_reply \<Rightarrow> bool" where
  "says t r \<longleftrightarrow> (case sr_str r of None \<Rightarrow> False | Some s \<Rightarrow> map lower (c_str s) = map lower t)"

section \<open>The connection\<close>

record cluster_client =
  connStatus :: bool
  cc_port :: c_int
  cc_timeout :: c_int
  cc_ipStr :: string
  cc_password :: string
  lastError :: string
  redis_ctx :: "nat option"
  cc_manager :: "nat option"

definition cluster_client_new :: "nat option \<Rightarrow> cluster_client" where
  "cluster_client_new manager =
     \<lparr>connStatus = False, cc_port = 7000, cc_timeout = 120, cc_ipStr = ''127.0.0.1'', cc_password = [], lastError = [], redis_ctx = None,
      cc_manager = manager\<rparr>"

definition cc_init :: "string \<Rightarrow> c_int \<Rightarrow> c_int \<Rightarrow> string \<Rightarrow> cluster_client \<Rightarrow> cluster_client" where
  "cc_init ip p timeout password c = c\<lparr>cc_ipStr := ip, cc_port := p, cc_timeout := timeout, cc_password := password\<rparr>"

definition setLastError :: "string \<Rightarrow> cluster_client \<Rightarrow> cluster_client" where
  "setLastError buffer c = c\<lparr>lastError := buffer, connStatus := False\<rparr>"

definition cc_release :: "'h hiredis \<Rightarrow> cluster_client \<Rightarrow> 'h \<Rightarrow> cluster_client \<times> 'h" where
  "cc_release H c h =
     (case redis_ctx c of None \<Rightarrow> (c, h) | Some x \<Rightarrow> (c\<lparr>redis_ctx := None, connStatus := False\<rparr>, h_free H x h))"

definition connectWithTimeout :: "'h hiredis \<Rightarrow> cluster_client \<Rightarrow> 'h \<Rightarrow> cluster_client \<times> 'h" where
  "connectWithTimeout H c h =
     (let (r, h) = h_connect H (c_str (cc_ipStr c)) (cc_port c) (cc_timeout c) h
      in case r of
           None \<Rightarrow> (c\<lparr>redis_ctx := None\<rparr>, h)
         | Some (x, None) \<Rightarrow> (c\<lparr>redis_ctx := Some x\<rparr>, h)
         | Some (x, Some err) \<Rightarrow> ((setLastError err c)\<lparr>redis_ctx := None\<rparr>, h_free H x h))"

definition auth :: "'h hiredis \<Rightarrow> nat \<Rightarrow> cluster_client \<Rightarrow> 'h \<Rightarrow> bool \<times> cluster_client \<times> 'h" where
  "auth H x c h =
     (if cc_password c = [] then (True, c\<lparr>connStatus := True\<rparr>, h)
      else let (reply, h) = h_command H x (Fmt ''AUTH %s'' [AStr (c_str (cc_password c))]) h
           in case reply of
                None \<Rightarrow> (False, setLastError ''reply is null'' c, h)
              | Some r \<Rightarrow>
                  (let c = c\<lparr>connStatus := says ''OK'' r\<rparr>;
                       c = (if sr_type r = REDIS_REPLY_ERROR \<and> sr_str r \<noteq> None then setLastError (text_of r) c else c)
                   in (connStatus c, c, h)))"

definition ping :: "'h hiredis \<Rightarrow> cluster_client \<Rightarrow> 'h \<Rightarrow> bool \<times> cluster_client \<times> 'h" where
  "ping H c h =
     (case redis_ctx c of
        None \<Rightarrow> (False, c, h)
      | Some x \<Rightarrow>
          (let (reply, h) = h_command H x (Fmt ''PING'' []) h
           in case reply of
                None \<Rightarrow> (False, c\<lparr>connStatus := False\<rparr>, h)
              | Some r \<Rightarrow>
                  (let c = c\<lparr>connStatus := says ''PONG'' r\<rparr>;
                       c = (if sr_type r = REDIS_REPLY_ERROR \<and> sr_str r \<noteq> None then setLastError (text_of r) c else c)
                   in (connStatus c, c, h))))"

definition cc_connect :: "'h hiredis \<Rightarrow> cluster_client \<Rightarrow> 'h \<Rightarrow> bool \<times> cluster_client \<times> 'h" where
  "cc_connect H c h =
     (let (c, h) = cc_release H c h; (c, h) = connectWithTimeout H c h
      in case redis_ctx c of
           None \<Rightarrow> (False, c\<lparr>connStatus := False\<rparr>, h)
         | Some x \<Rightarrow>
             (let (a, c, h) = auth H x c h; (b, c, h) = (if a then ping H c h else (False, c, h))
              in (a \<and> b, c\<lparr>connStatus := a \<and> b\<rparr>, h)))"

definition reConnect :: "'h hiredis \<Rightarrow> cluster_client \<Rightarrow> 'h \<Rightarrow> bool \<times> cluster_client \<times> 'h" where
  "reConnect H c h = (let (c, h) = cc_release H c h in cc_connect H c h)"

section \<open>Sending a command\<close>

definition checkReply :: "sync_reply option \<Rightarrow> bool" where
  "checkReply reply =
     (case reply of None \<Rightarrow> False
      | Some r \<Rightarrow> sr_type r \<in> {REDIS_REPLY_STRING, REDIS_REPLY_ARRAY, REDIS_REPLY_INTEGER, REDIS_REPLY_STATUS})"

text \<open>The branch for a reply that is not accepted, the same in all seven functions: a missing key is no error.\<close>

definition reply_refused :: "sync_reply option \<Rightarrow> cluster_client \<Rightarrow> cluster_client" where
  "reply_refused reply c =
     (case reply of None \<Rightarrow> setLastError [] c
      | Some r \<Rightarrow> if sr_type r = REDIS_REPLY_NIL then c else setLastError (text_of r) c)"

text \<open>What the seven functions share: the reply to a request, looked at by \<open>take_reply\<close> when it is accepted.\<close>

definition send ::
  "'h hiredis \<Rightarrow> request \<Rightarrow> 'v \<Rightarrow> (sync_reply \<Rightarrow> bool \<times> 'v) \<Rightarrow> cluster_client \<Rightarrow> 'h \<Rightarrow> bool \<times> 'v \<times> cluster_client \<times> 'h" where
  "send H req v take_reply c h =
     (case redis_ctx c of
        None \<Rightarrow> (False, v, c, h)
      | Some x \<Rightarrow>
          (let (reply, h) = h_command H x req h
           in if checkReply reply then (let (b, v) = take_reply (the reply) in (b, v, c, h))
              else (False, v, reply_refused reply c, h)))"

definition commandArgvStatus :: "'h hiredis \<Rightarrow> string list \<Rightarrow> cluster_client \<Rightarrow> 'h \<Rightarrow> bool \<times> unit \<times> cluster_client \<times> 'h" where
  "commandArgvStatus H vData c h =
     send H (Argv vData) () (\<lambda>r. (if sr_type r = REDIS_REPLY_STRING then text_of r \<noteq> [] \<and> says ''OK'' r else True, ())) c h"

definition commandArgvInteger :: "'h hiredis \<Rightarrow> string list \<Rightarrow> c_i64 \<Rightarrow> cluster_client \<Rightarrow> 'h \<Rightarrow> bool \<times> c_i64 \<times> cluster_client \<times> 'h" where
  "commandArgvInteger H vData retval c h = send H (Argv vData) retval (\<lambda>r. (True, sr_integer r)) c h"

record DataItem =
  di_type :: int
  di_value :: string

type_synonym HashMapDataItem = "string \<rightharpoonup> DataItem"

text \<open>\<open>std::map::insert\<close> keeps what is there.\<close>

definition insert_item :: "string \<Rightarrow> sync_reply \<Rightarrow> HashMapDataItem \<Rightarrow> HashMapDataItem" where
  "insert_item k r m = (if m k = None then m(k \<mapsto> \<lparr>di_type = sr_type r, di_value = text_of r\<rparr>) else m)"

fun insert_items :: "string list \<Rightarrow> sync_reply list \<Rightarrow> HashMapDataItem \<Rightarrow> HashMapDataItem" where
  "insert_items (k # ks) (r # rs) m = insert_items ks rs (insert_item k r m)"
| "insert_items _ _ m = m"

definition commandArgvArray :: "'h hiredis \<Rightarrow> string list \<Rightarrow> HashMapDataItem \<Rightarrow> cluster_client \<Rightarrow> 'h \<Rightarrow> bool \<times> HashMapDataItem \<times> cluster_client \<times> 'h" where
  "commandArgvArray H vData m c h = send H (Argv vData) m (\<lambda>r. (True, insert_items (drop 2 vData) (sr_element r) m)) c h"

definition commandInteger :: "'h hiredis \<Rightarrow> string \<Rightarrow> fmt_arg list \<Rightarrow> c_i64 \<Rightarrow> cluster_client \<Rightarrow> 'h \<Rightarrow> bool \<times> c_i64 \<times> cluster_client \<times> 'h" where
  "commandInteger H cmd args retval c h = send H (Fmt cmd args) retval (\<lambda>r. (True, sr_integer r)) c h"

definition commandString :: "'h hiredis \<Rightarrow> string \<Rightarrow> fmt_arg list \<Rightarrow> string \<Rightarrow> cluster_client \<Rightarrow> 'h \<Rightarrow> bool \<times> string \<times> cluster_client \<times> 'h" where
  "commandString H cmd args value c h = send H (Fmt cmd args) value (\<lambda>r. (True, text_of r)) c h"

definition commandList :: "'h hiredis \<Rightarrow> string \<Rightarrow> fmt_arg list \<Rightarrow> string list \<Rightarrow> cluster_client \<Rightarrow> 'h \<Rightarrow> bool \<times> string list \<times> cluster_client \<times> 'h" where
  "commandList H cmd args vValue c h = send H (Fmt cmd args) vValue (\<lambda>r. (True, vValue @ map text_of (sr_element r))) c h"

text \<open>Elements in pairs; with an odd number the last read is past the end of the array, which is the value \<^const>\<open>None\<close> here.\<close>

fun insert_pairs :: "sync_reply list \<Rightarrow> HashMapDataItem \<Rightarrow> HashMapDataItem option" where
  "insert_pairs [] m = Some m"
| "insert_pairs [_] m = None"
| "insert_pairs (k # r # rs) m = insert_pairs rs (insert_item (text_of k) r m)"

definition commandArray ::
  "'h hiredis \<Rightarrow> string \<Rightarrow> fmt_arg list \<Rightarrow> HashMapDataItem \<Rightarrow> cluster_client \<Rightarrow> 'h \<Rightarrow> bool \<times> HashMapDataItem option \<times> cluster_client \<times> 'h" where
  "commandArray H cmd args m c h = send H (Fmt cmd args) (Some m) (\<lambda>r. (True, insert_pairs (sr_element r) m)) c h"

definition commandBool :: "'h hiredis \<Rightarrow> string \<Rightarrow> fmt_arg list \<Rightarrow> cluster_client \<Rightarrow> 'h \<Rightarrow> bool \<times> unit \<times> cluster_client \<times> 'h" where
  "commandBool H cmd args c h =
     send H (Fmt cmd args) () (\<lambda>r. (if sr_type r = REDIS_REPLY_STATUS then True else sr_integer r = 1, ())) c h"

section \<open>Commands\<close>

definition cc_exists ::
  "'h hiredis \<Rightarrow> string \<Rightarrow> cluster_client \<Rightarrow> 'h \<Rightarrow> bool \<times> unit \<times> cluster_client \<times> 'h" where
  "cc_exists H key c h = (if key = [] then (False, (), c, h) else commandBool H ''EXISTS %s'' [AStr (c_str key)] c h)"

definition cc_expire :: "'h hiredis \<Rightarrow> string \<Rightarrow> u32 \<Rightarrow> cluster_client \<Rightarrow> 'h \<Rightarrow> bool \<times> unit \<times> cluster_client \<times> 'h" where
  "cc_expire H key seconds c h =
     (if key = [] then (False, (), c, h)
      else let (b, retval, c, h) = commandInteger H ''EXPIRE %s %u'' [AStr (c_str key), AUInt seconds] (- 1) c h
           in if \<not> b then (False, (), c, h) else if retval = 1 then (True, (), c, h) else (False, (), setLastError [] c, h))"

definition cc_set ::
  "'h hiredis \<Rightarrow> string \<Rightarrow> string \<Rightarrow> cluster_client \<Rightarrow> 'h \<Rightarrow> bool \<times> unit \<times> cluster_client \<times> 'h" where
  "cc_set H key val c h = (if key = [] \<or> val = [] then (False, (), c, h) else commandArgvStatus H [''SET'', key, val] c h)"

definition cc_get ::
  "'h hiredis \<Rightarrow> string \<Rightarrow> string \<Rightarrow> cluster_client \<Rightarrow> 'h \<Rightarrow> bool \<times> string \<times> cluster_client \<times> 'h" where
  "cc_get H key val c h = (if key = [] then (False, val, c, h) else commandString H ''GET %s'' [AStr (c_str key)] val c h)"

definition cc_getset ::
  "'h hiredis \<Rightarrow> string \<Rightarrow> string \<Rightarrow> string \<Rightarrow> cluster_client \<Rightarrow> 'h \<Rightarrow> bool \<times> string \<times> cluster_client \<times> 'h" where
  "cc_getset H key newValue oldValue c h =
     (if key = [] \<or> newValue = [] then (False, oldValue, c, h)
      else commandString H ''GETSET %s %s'' [AStr (c_str key), AStr (c_str newValue)] oldValue c h)"

definition cc_del ::
  "'h hiredis \<Rightarrow> string \<Rightarrow> cluster_client \<Rightarrow> 'h \<Rightarrow> bool \<times> unit \<times> cluster_client \<times> 'h" where
  "cc_del H key c h = (if key = [] then (False, (), c, h) else commandBool H ''DEL %s'' [AStr (c_str key)] c h)"

definition cc_hset ::
  "'h hiredis \<Rightarrow> string \<Rightarrow> string \<Rightarrow> string \<Rightarrow> c_i64 \<Rightarrow> cluster_client \<Rightarrow> 'h \<Rightarrow> bool \<times> c_i64 \<times> cluster_client \<times> 'h" where
  "cc_hset H key field val retval c h =
     (if key = [] \<or> field = [] \<or> val = [] then (False, retval, c, h)
      else commandArgvInteger H ([''HSET'', key, field, val]) retval c h)"

definition cc_hget ::
  "'h hiredis \<Rightarrow> string \<Rightarrow> string \<Rightarrow> string \<Rightarrow> cluster_client \<Rightarrow> 'h \<Rightarrow> bool \<times> string \<times> cluster_client \<times> 'h" where
  "cc_hget H key field val c h =
     (if key = [] \<or> field = [] then (False, val, c, h)
      else commandString H ''HGET %s %s'' [AStr (c_str key), AStr (c_str field)] val c h)"

definition cc_hgetall ::
  "'h hiredis \<Rightarrow> string \<Rightarrow> HashMapDataItem \<Rightarrow> cluster_client \<Rightarrow> 'h \<Rightarrow> bool \<times> HashMapDataItem option \<times> cluster_client \<times> 'h" where
  "cc_hgetall H key m c h = (if key = [] then (False, Some m, c, h) else commandArray H ''hgetall %s'' [AStr (c_str key)] m c h)"

definition cc_hdel ::
  "'h hiredis \<Rightarrow> string \<Rightarrow> string \<Rightarrow> c_i64 \<Rightarrow> cluster_client \<Rightarrow> 'h \<Rightarrow> bool \<times> c_i64 \<times> cluster_client \<times> 'h" where
  "cc_hdel H key field num c h =
     (if key = [] \<or> field = [] then (False, num, c, h)
      else commandInteger H ''HDEL %s %s'' [AStr (c_str key), AStr (c_str field)] num c h)"

text \<open>The maps are given as the list of their pairs in the order of the keys.\<close>

definition cc_hmset ::
  "'h hiredis \<Rightarrow> string \<Rightarrow> (string \<times> string) list \<Rightarrow> c_i64 \<Rightarrow> cluster_client \<Rightarrow> 'h \<Rightarrow> bool \<times> c_i64 \<times> cluster_client \<times> 'h" where
  "cc_hmset H key hashMap retval c h =
     (if key = [] \<or> hashMap = [] then (False, retval, c, h)
      else commandArgvInteger H ([''HMSET'', key] @ concat (map (\<lambda>(k, v). [k, v]) hashMap)) retval c h)"

definition cc_hincrby ::
  "'h hiredis \<Rightarrow> string \<Rightarrow> string \<Rightarrow> string \<Rightarrow> c_i64 \<Rightarrow> cluster_client \<Rightarrow> 'h \<Rightarrow> bool \<times> c_i64 \<times> cluster_client \<times> 'h" where
  "cc_hincrby H key field val retval c h =
     (if key = [] \<or> field = [] then (False, retval, c, h)
      else commandInteger H ''HINCRBY %s %s %s'' [AStr (c_str key), AStr (c_str field), AStr (c_str val)] retval c h)"

definition cc_incrby ::
  "'h hiredis \<Rightarrow> string \<Rightarrow> c_int \<Rightarrow> c_i64 \<Rightarrow> cluster_client \<Rightarrow> 'h \<Rightarrow> bool \<times> c_i64 \<times> cluster_client \<times> 'h" where
  "cc_incrby H key amount retval c h =
     (if key = [] then (False, retval, c, h)
      else commandInteger H ''INCRBY %s %d'' [AStr (c_str key), AInt amount] retval c h)"

definition cc_incr :: "'h hiredis \<Rightarrow> string \<Rightarrow> c_i64 \<Rightarrow> cluster_client \<Rightarrow> 'h \<Rightarrow> bool \<times> c_i64 \<times> cluster_client \<times> 'h" where
  "cc_incr H key retval c h = cc_incrby H key 1 retval c h"

definition cc_hmget ::
  "'h hiredis \<Rightarrow> string \<Rightarrow> string list \<Rightarrow> HashMapDataItem \<Rightarrow> cluster_client \<Rightarrow> 'h \<Rightarrow> bool \<times> HashMapDataItem \<times> cluster_client \<times> 'h" where
  "cc_hmget H key fieldList m c h =
     (if key = [] \<or> fieldList = [] then (False, m, c, h)
      else commandArgvArray H ([''HMGET'', key] @ fieldList) m c h)"

definition cc_sadd ::
  "'h hiredis \<Rightarrow> string \<Rightarrow> string list \<Rightarrow> c_i64 \<Rightarrow> cluster_client \<Rightarrow> 'h \<Rightarrow> bool \<times> c_i64 \<times> cluster_client \<times> 'h" where
  "cc_sadd H key vValue retval c h =
     (if key = [] \<or> vValue = [] then (False, retval, c, h)
      else commandArgvInteger H ([''SADD'', key] @ vValue) retval c h)"

definition cc_scard ::
  "'h hiredis \<Rightarrow> string \<Rightarrow> c_i64 \<Rightarrow> cluster_client \<Rightarrow> 'h \<Rightarrow> bool \<times> c_i64 \<times> cluster_client \<times> 'h" where
  "cc_scard H key cnt c h = (if key = [] then (False, cnt, c, h) else commandInteger H ''SCARD %s'' [AStr (c_str key)] cnt c h)"

definition cc_smembers ::
  "'h hiredis \<Rightarrow> string \<Rightarrow> string list \<Rightarrow> cluster_client \<Rightarrow> 'h \<Rightarrow> bool \<times> string list \<times> cluster_client \<times> 'h" where
  "cc_smembers H key vValue c h = (if key = [] then (False, vValue, c, h) else commandList H ''SMEMBERS %s'' [AStr (c_str key)] vValue c h)"

definition cc_srem ::
  "'h hiredis \<Rightarrow> string \<Rightarrow> string list \<Rightarrow> c_i64 \<Rightarrow> cluster_client \<Rightarrow> 'h \<Rightarrow> bool \<times> c_i64 \<times> cluster_client \<times> 'h" where
  "cc_srem H key members cnt c h =
     (if key = [] \<or> members = [] then (False, cnt, c, h)
      else commandArgvInteger H ([''SREM'', key] @ members) cnt c h)"

definition cc_sismember ::
  "'h hiredis \<Rightarrow> string \<Rightarrow> string \<Rightarrow> cluster_client \<Rightarrow> 'h \<Rightarrow> bool \<times> unit \<times> cluster_client \<times> 'h" where
  "cc_sismember H key member c h =
     (if key = [] then (False, (), c, h)
      else commandBool H ''SISMEMBER %s %s'' [AStr (c_str key), AStr (c_str member)] c h)"

definition cc_zadd_int ::
  "'h hiredis \<Rightarrow> string \<Rightarrow> c_int \<Rightarrow> string \<Rightarrow> c_i64 \<Rightarrow> cluster_client \<Rightarrow> 'h \<Rightarrow> bool \<times> c_i64 \<times> cluster_client \<times> 'h" where
  "cc_zadd_int H key score member retval c h =
     (if key = [] \<or> member = [] then (False, retval, c, h)
      else commandInteger H ''ZADD %s %d %s'' [AStr (c_str key), AInt score, AStr (c_str member)] retval c h)"

definition cc_zadd_double ::
  "'h hiredis \<Rightarrow> string \<Rightarrow> u64 \<Rightarrow> string \<Rightarrow> c_i64 \<Rightarrow> cluster_client \<Rightarrow> 'h \<Rightarrow> bool \<times> c_i64 \<times> cluster_client \<times> 'h" where
  "cc_zadd_double H key score member retval c h =
     (if key = [] \<or> member = [] then (False, retval, c, h)
      else commandInteger H ''ZADD %s %f %s'' [AStr (c_str key), ADouble score, AStr (c_str member)] retval c h)"

definition cc_zadd_text ::
  "'h hiredis \<Rightarrow> string \<Rightarrow> string \<Rightarrow> string \<Rightarrow> c_i64 \<Rightarrow> cluster_client \<Rightarrow> 'h \<Rightarrow> bool \<times> c_i64 \<times> cluster_client \<times> 'h" where
  "cc_zadd_text H key score member retval c h =
     (if key = [] \<or> score = [] \<or> member = [] then (False, retval, c, h)
      else commandInteger H ''ZADD %s %s %s'' [AStr (c_str key), AStr (c_str score), AStr (c_str member)] retval c h)"

definition cc_zadd_map ::
  "'h hiredis \<Rightarrow> string \<Rightarrow> (string \<times> string) list \<Rightarrow> c_i64 \<Rightarrow> cluster_client \<Rightarrow> 'h \<Rightarrow> bool \<times> c_i64 \<times> cluster_client \<times> 'h" where
  "cc_zadd_map H key mMap retval c h =
     (if key = [] \<or> mMap = [] then (False, retval, c, h)
      else commandArgvInteger H ([''ZADD'', key] @ concat (map (\<lambda>(k, v). [v, k]) mMap)) retval c h)"

definition cc_zcard ::
  "'h hiredis \<Rightarrow> string \<Rightarrow> c_i64 \<Rightarrow> cluster_client \<Rightarrow> 'h \<Rightarrow> bool \<times> c_i64 \<times> cluster_client \<times> 'h" where
  "cc_zcard H key cnt c h = (if key = [] then (False, cnt, c, h) else commandInteger H ''ZCARD %s'' [AStr (c_str key)] cnt c h)"

definition cc_zincrby ::
  "'h hiredis \<Rightarrow> string \<Rightarrow> u64 \<Rightarrow> string \<Rightarrow> string \<Rightarrow> cluster_client \<Rightarrow> 'h \<Rightarrow> bool \<times> string \<times> cluster_client \<times> 'h" where
  "cc_zincrby H key increment member scoreResult c h =
     (if key = [] then (False, scoreResult, c, h)
      else commandString H ''ZINCRBY %s %f %s'' [AStr (c_str key), ADouble increment, AStr (c_str member)] scoreResult c h)"

definition cc_zcount ::
  "'h hiredis \<Rightarrow> string \<Rightarrow> u64 \<Rightarrow> u64 \<Rightarrow> c_i64 \<Rightarrow> cluster_client \<Rightarrow> 'h \<Rightarrow> bool \<times> c_i64 \<times> cluster_client \<times> 'h" where
  "cc_zcount H key minScore maxScore cnt c h =
     (if key = [] then (False, cnt, c, h)
      else commandInteger H ''ZCOUNT %s %f %f'' [AStr (c_str key), ADouble minScore, ADouble maxScore] cnt c h)"

definition cc_zrange ::
  "'h hiredis \<Rightarrow> string \<Rightarrow> c_int \<Rightarrow> c_int \<Rightarrow> string list \<Rightarrow> bool \<Rightarrow> cluster_client \<Rightarrow> 'h \<Rightarrow> bool \<times> string list \<times> cluster_client \<times> 'h" where
  "cc_zrange H key start stop vValue withScore c h =
     (if key = [] then (False, vValue, c, h)
      else if withScore then commandList H ''ZRANGE %s %d %d WITHSCORES'' [AStr (c_str key), AInt start, AInt stop] vValue c h
      else commandList H ''ZRANGE %s %d %d'' [AStr (c_str key), AInt start, AInt stop] vValue c h)"

text \<open>\<open>zrem\<close> has its result by value: the caller does not see it.\<close>

definition cc_zrem :: "'h hiredis \<Rightarrow> string \<Rightarrow> string list \<Rightarrow> c_i64 \<Rightarrow> cluster_client \<Rightarrow> 'h \<Rightarrow> bool \<times> unit \<times> cluster_client \<times> 'h" where
  "cc_zrem H key vMembers retval c h =
     (if key = [] \<or> vMembers = [] then (False, (), c, h)
      else let (b, _, c, h) = commandArgvInteger H ([''ZREM'', key] @ vMembers) retval c h in (b, (), c, h))"

definition cc_zrangebylex ::
  "'h hiredis \<Rightarrow> string \<Rightarrow> string \<Rightarrow> string \<Rightarrow> c_int \<Rightarrow> c_int \<Rightarrow> string list \<Rightarrow> cluster_client \<Rightarrow> 'h \<Rightarrow> bool \<times> string list \<times> cluster_client \<times> 'h" where
  "cc_zrangebylex H key start stop offset cnt vValue c h =
     (if key = [] \<or> start = [] \<or> stop = [] then (False, vValue, c, h)
      else commandList H ''ZRANGEBYLEX %s %s %s LIMIT %d %d'' [AStr (c_str key), AStr (c_str start), AStr (c_str stop), AInt offset, AInt cnt] vValue c h)"

definition cc_zrangebyscore ::
  "'h hiredis \<Rightarrow> string \<Rightarrow> string \<Rightarrow> string \<Rightarrow> c_int \<Rightarrow> c_int \<Rightarrow> string list \<Rightarrow> cluster_client \<Rightarrow> 'h \<Rightarrow> bool \<times> string list \<times> cluster_client \<times> 'h" where
  "cc_zrangebyscore H key start stop offset cnt vValue c h =
     (if key = [] \<or> start = [] \<or> stop = [] then (False, vValue, c, h)
      else commandList H ''ZRANGEBYSCORE %s %s %s LIMIT %d %d'' [AStr (c_str key), AStr (c_str start), AStr (c_str stop), AInt offset, AInt cnt] vValue c h)"

definition cc_zrevrangebyscore ::
  "'h hiredis \<Rightarrow> string \<Rightarrow> string \<Rightarrow> string \<Rightarrow> c_int \<Rightarrow> c_int \<Rightarrow> string list \<Rightarrow> cluster_client \<Rightarrow> 'h \<Rightarrow> bool \<times> string list \<times> cluster_client \<times> 'h" where
  "cc_zrevrangebyscore H key start stop offset cnt vValue c h =
     (if key = [] then (False, vValue, c, h)
      else if start = [] \<and> stop = [] then
        (if offset = cnt \<and> cnt = 0 then commandList H ''ZREVRANGEBYSCORE %s -inf +inf'' [AStr (c_str key)] vValue c h
         else commandList H ''ZREVRANGEBYSCORE %s -inf +inf LIMIT %d %d'' [AStr (c_str key), AInt offset, AInt cnt] vValue c h)
      else if offset = cnt \<and> cnt = 0 then
        commandList H ''ZREVRANGEBYSCORE %s %s %s'' [AStr (c_str key), AStr (c_str start), AStr (c_str stop)] vValue c h
      else commandList H ''ZREVRANGEBYSCORE %s %s %s LIMIT %d %d'' [AStr (c_str key), AStr (c_str start), AStr (c_str stop), AInt offset, AInt cnt] vValue c h)"

definition cc_zrangebyscore_scores ::
  "'h hiredis \<Rightarrow> string \<Rightarrow> string \<Rightarrow> string \<Rightarrow> c_int \<Rightarrow> c_int \<Rightarrow> string list \<Rightarrow> cluster_client \<Rightarrow> 'h \<Rightarrow> bool \<times> string list \<times> cluster_client \<times> 'h" where
  "cc_zrangebyscore_scores H key start stop offset cnt vValue c h =
     (if key = [] then (False, vValue, c, h)
      else if start = [] \<and> stop = [] then
        (if offset = cnt \<and> cnt = 0 then commandList H ''ZRANGEBYSCORE %s -inf +inf WITHSCORES'' [AStr (c_str key)] vValue c h
         else commandList H ''ZRANGEBYSCORE %s -inf +inf WITHSCORES LIMIT %d %d'' [AStr (c_str key), AInt offset, AInt cnt] vValue c h)
      else if offset = cnt \<and> cnt = 0 then
        commandList H ''ZRANGEBYSCORE %s %s %s WITHSCORES'' [AStr (c_str key), AStr (c_str start), AStr (c_str stop)] vValue c h
      else commandList H ''ZRANGEBYSCORE %s %s %s WITHSCORES LIMIT %d %d'' [AStr (c_str key), AStr (c_str start), AStr (c_str stop), AInt offset, AInt cnt] vValue c h)"

definition cc_lpush ::
  "'h hiredis \<Rightarrow> string \<Rightarrow> string \<Rightarrow> c_i64 \<Rightarrow> cluster_client \<Rightarrow> 'h \<Rightarrow> bool \<times> c_i64 \<times> cluster_client \<times> 'h" where
  "cc_lpush H key val retval c h =
     (if key = [] \<or> val = [] then (False, retval, c, h)
      else commandArgvInteger H ([''LPUSH'', key, val]) retval c h)"

definition cc_rpush ::
  "'h hiredis \<Rightarrow> string \<Rightarrow> string \<Rightarrow> c_i64 \<Rightarrow> cluster_client \<Rightarrow> 'h \<Rightarrow> bool \<times> c_i64 \<times> cluster_client \<times> 'h" where
  "cc_rpush H key val retval c h =
     (if key = [] \<or> val = [] then (False, retval, c, h)
      else commandArgvInteger H ([''RPUSH'', key, val]) retval c h)"

text \<open>The next four put the key into the format itself.\<close>

definition cc_lpop ::
  "'h hiredis \<Rightarrow> string \<Rightarrow> string \<Rightarrow> cluster_client \<Rightarrow> 'h \<Rightarrow> bool \<times> string \<times> cluster_client \<times> 'h" where
  "cc_lpop H key val c h = (if key = [] then (False, val, c, h) else commandString H (c_str (''LPOP '' @ key)) [] val c h)"

definition cc_rpop ::
  "'h hiredis \<Rightarrow> string \<Rightarrow> string \<Rightarrow> cluster_client \<Rightarrow> 'h \<Rightarrow> bool \<times> string \<times> cluster_client \<times> 'h" where
  "cc_rpop H key val c h = (if key = [] then (False, val, c, h) else commandString H (c_str (''RPOP '' @ key)) [] val c h)"

definition cc_blpop ::
  "'h hiredis \<Rightarrow> string \<Rightarrow> c_i64 \<Rightarrow> string list \<Rightarrow> cluster_client \<Rightarrow> 'h \<Rightarrow> bool \<times> string list \<times> cluster_client \<times> 'h" where
  "cc_blpop H key timeout vValue c h =
     (if key = [] then (False, vValue, c, h)
      else commandList H (c_str (''BLPOP '' @ key @ '' '' @ sprintf_ld timeout)) [] vValue c h)"

definition cc_brpop ::
  "'h hiredis \<Rightarrow> string \<Rightarrow> c_i64 \<Rightarrow> string list \<Rightarrow> cluster_client \<Rightarrow> 'h \<Rightarrow> bool \<times> string list \<times> cluster_client \<times> 'h" where
  "cc_brpop H key timeout vValue c h =
     (if key = [] then (False, vValue, c, h)
      else commandList H (c_str (''BRPOP '' @ key @ '' '' @ sprintf_ld timeout)) [] vValue c h)"

section \<open>All calls\<close>

text \<open>A call of a method by the user who holds the connection, with any arguments.\<close>

inductive client_call :: "'h hiredis \<Rightarrow> cluster_client \<times> 'h \<Rightarrow> cluster_client \<times> 'h \<Rightarrow> bool" for H where
  connect: "cc_connect H c h = (b, c', h') \<Longrightarrow> client_call H (c, h) (c', h')"
| reconnect: "reConnect H c h = (b, c', h') \<Longrightarrow> client_call H (c, h) (c', h')"
| ping: "ping H c h = (b, c', h') \<Longrightarrow> client_call H (c, h) (c', h')"
| release: "cc_release H c h = (c', h') \<Longrightarrow> client_call H (c, h) (c', h')"
| exists: "cc_exists H key c h = (b, v, c', h') \<Longrightarrow> client_call H (c, h) (c', h')"
| expire: "cc_expire H key seconds c h = (b, v, c', h') \<Longrightarrow> client_call H (c, h) (c', h')"
| set: "cc_set H key val c h = (b, v, c', h') \<Longrightarrow> client_call H (c, h) (c', h')"
| get: "cc_get H key val c h = (b, v, c', h') \<Longrightarrow> client_call H (c, h) (c', h')"
| getset: "cc_getset H key newValue oldValue c h = (b, v, c', h') \<Longrightarrow> client_call H (c, h) (c', h')"
| del: "cc_del H key c h = (b, v, c', h') \<Longrightarrow> client_call H (c, h) (c', h')"
| hset: "cc_hset H key field val retval c h = (b, v, c', h') \<Longrightarrow> client_call H (c, h) (c', h')"
| hget: "cc_hget H key field val c h = (b, v, c', h') \<Longrightarrow> client_call H (c, h) (c', h')"
| hgetall: "cc_hgetall H key m c h = (b, v, c', h') \<Longrightarrow> client_call H (c, h) (c', h')"
| hdel: "cc_hdel H key field num c h = (b, v, c', h') \<Longrightarrow> client_call H (c, h) (c', h')"
| hmset: "cc_hmset H key hashMap retval c h = (b, v, c', h') \<Longrightarrow> client_call H (c, h) (c', h')"
| hincrby: "cc_hincrby H key field val retval c h = (b, v, c', h') \<Longrightarrow> client_call H (c, h) (c', h')"
| incrby: "cc_incrby H key amount retval c h = (b, v, c', h') \<Longrightarrow> client_call H (c, h) (c', h')"
| incr: "cc_incr H key retval c h = (b, v, c', h') \<Longrightarrow> client_call H (c, h) (c', h')"
| hmget: "cc_hmget H key fieldList m c h = (b, v, c', h') \<Longrightarrow> client_call H (c, h) (c', h')"
| sadd: "cc_sadd H key vValue retval c h = (b, v, c', h') \<Longrightarrow> client_call H (c, h) (c', h')"
| scard: "cc_scard H key cnt c h = (b, v, c', h') \<Longrightarrow> client_call H (c, h) (c', h')"
| smembers: "cc_smembers H key vValue c h = (b, v, c', h') \<Longrightarrow> client_call H (c, h) (c', h')"
| srem: "cc_srem H key members cnt c h = (b, v, c', h') \<Longrightarrow> client_call H (c, h) (c', h')"
| sismember: "cc_sismember H key member c h = (b, v, c', h') \<Longrightarrow> client_call H (c, h) (c', h')"
| zadd_int: "cc_zadd_int H key score member retval c h = (b, v, c', h') \<Longrightarrow> client_call H (c, h) (c', h')"
| zadd_double: "cc_zadd_double H key score member retval c h = (b, v, c', h') \<Longrightarrow> client_call H (c, h) (c', h')"
| zadd_text: "cc_zadd_text H key score member retval c h = (b, v, c', h') \<Longrightarrow> client_call H (c, h) (c', h')"
| zadd_map: "cc_zadd_map H key mMap retval c h = (b, v, c', h') \<Longrightarrow> client_call H (c, h) (c', h')"
| zcard: "cc_zcard H key cnt c h = (b, v, c', h') \<Longrightarrow> client_call H (c, h) (c', h')"
| zincrby: "cc_zincrby H key increment member scoreResult c h = (b, v, c', h') \<Longrightarrow> client_call H (c, h) (c', h')"
| zcount: "cc_zcount H key minScore maxScore cnt c h = (b, v, c', h') \<Longrightarrow> client_call H (c, h) (c', h')"
| zrange: "cc_zrange H key start stop vValue withScore c h = (b, v, c', h') \<Longrightarrow> client_call H (c, h) (c', h')"
| zrem: "cc_zrem H key vMembers retval c h = (b, v, c', h') \<Longrightarrow> client_call H (c, h) (c', h')"
| zrangebylex: "cc_zrangebylex H key start stop offset cnt vValue c h = (b, v, c', h') \<Longrightarrow> client_call H (c, h) (c', h')"
| zrangebyscore: "cc_zrangebyscore H key start stop offset cnt vValue c h = (b, v, c', h') \<Longrightarrow> client_call H (c, h) (c', h')"
| zrevrangebyscore: "cc_zrevrangebyscore H key start stop offset cnt vValue c h = (b, v, c', h') \<Longrightarrow> client_call H (c, h) (c', h')"
| zrangebyscore_scores: "cc_zrangebyscore_scores H key start stop offset cnt vValue c h = (b, v, c', h') \<Longrightarrow> client_call H (c, h) (c', h')"
| lpush: "cc_lpush H key val retval c h = (b, v, c', h') \<Longrightarrow> client_call H (c, h) (c', h')"
| rpush: "cc_rpush H key val retval c h = (b, v, c', h') \<Longrightarrow> client_call H (c, h) (c', h')"
| lpop: "cc_lpop H key val c h = (b, v, c', h') \<Longrightarrow> client_call H (c, h) (c', h')"
| rpop: "cc_rpop H key val c h = (b, v, c', h') \<Longrightarrow> client_call H (c, h) (c', h')"
| blpop: "cc_blpop H key timeout vValue c h = (b, v, c', h') \<Longrightarrow> client_call H (c, h) (c', h')"
| brpop: "cc_brpop H key timeout vValue c h = (b, v, c', h') \<Longrightarrow> client_call H (c, h) (c', h')"

text \<open>What every call keeps: the address and the owner of the connection, and that a status of success implies a context.\<close>

definition conn_ok :: "cluster_client \<Rightarrow> bool" where
  "conn_ok c \<longleftrightarrow> (connStatus c \<longrightarrow> redis_ctx c \<noteq> None)"

definition same_owner :: "cluster_client \<Rightarrow> cluster_client \<Rightarrow> bool" where
  "same_owner c c' \<longleftrightarrow> cc_ipStr c' = cc_ipStr c \<and> cc_port c' = cc_port c \<and> cc_manager c' = cc_manager c"

lemma same_owner_simps [simp]:
  "same_owner c c" "same_owner c (c\<lparr>connStatus := b\<rparr>)" "same_owner c (c\<lparr>redis_ctx := x\<rparr>)" "same_owner c (setLastError e c)"
  by (simp_all add: same_owner_def setLastError_def)

lemma same_owner_trans: "same_owner c d \<Longrightarrow> same_owner d e \<Longrightarrow> same_owner c e"
  by (simp add: same_owner_def)

lemma setLastError_ok [simp]: "conn_ok (setLastError e c)" "redis_ctx (setLastError e c) = redis_ctx c" "\<not> connStatus (setLastError e c)"
  by (simp_all add: conn_ok_def setLastError_def)

text \<open>Sending: the context stays, and the status can only fall; it falls when there is no reply or an error.\<close>

lemma send_result:
  assumes "send H req v f c h = (b, v', c', h')"
  shows "same_owner c c'" "redis_ctx c' = redis_ctx c" "conn_ok c \<Longrightarrow> conn_ok c'" "connStatus c' \<Longrightarrow> connStatus c"
    "redis_ctx c = Some x \<Longrightarrow> fst (h_command H x req h) = None \<or> sr_type (the (fst (h_command H x req h))) = REDIS_REPLY_ERROR \<Longrightarrow> \<not> b \<and> \<not> connStatus c'"
  using assms by (auto simp: send_def reply_refused_def checkReply_def conn_ok_def split: option.splits prod.splits if_splits)

lemmas command_defs = commandArgvStatus_def commandArgvInteger_def commandArgvArray_def commandInteger_def commandString_def
  commandList_def commandArray_def commandBool_def

lemmas cc_defs = cc_exists_def cc_expire_def cc_set_def cc_get_def cc_getset_def cc_del_def cc_hset_def cc_hget_def cc_hgetall_def cc_hdel_def cc_hmset_def cc_hincrby_def cc_incrby_def cc_incr_def cc_hmget_def cc_sadd_def cc_scard_def cc_smembers_def cc_srem_def cc_sismember_def cc_zadd_int_def cc_zadd_double_def cc_zadd_text_def cc_zadd_map_def cc_zcard_def cc_zincrby_def cc_zcount_def cc_zrange_def cc_zrem_def cc_zrangebylex_def cc_zrangebyscore_def cc_zrevrangebyscore_def cc_zrangebyscore_scores_def cc_lpush_def cc_rpush_def cc_lpop_def cc_rpop_def cc_blpop_def cc_brpop_def

lemma release_keeps: "cc_release H c h = (c', h') \<Longrightarrow> same_owner c c' \<and> redis_ctx c' = None \<and> (conn_ok c \<longrightarrow> \<not> connStatus c')"
  by (auto simp: cc_release_def same_owner_def conn_ok_def split: option.splits)

lemma connectWithTimeout_keeps: "connectWithTimeout H c h = (c', h') \<Longrightarrow> same_owner c c'"
  by (auto simp: connectWithTimeout_def same_owner_def setLastError_def split: prod.splits option.splits)

lemma ping_keeps: "ping H c h = (b, c', h') \<Longrightarrow> same_owner c c' \<and> redis_ctx c' = redis_ctx c \<and> (conn_ok c \<longrightarrow> conn_ok c') \<and> (b \<longrightarrow> connStatus c')"
  by (auto simp: ping_def same_owner_def conn_ok_def setLastError_def Let_def split: prod.splits option.splits if_splits)

lemma auth_keeps: "auth H x c h = (b, c', h') \<Longrightarrow> same_owner c c' \<and> redis_ctx c' = redis_ctx c"
  by (auto simp: auth_def same_owner_def setLastError_def Let_def split: prod.splits option.splits if_splits)

lemma connect_keeps:
  assumes "cc_connect H c h = (b, c', h')"
  shows "same_owner c c' \<and> conn_ok c' \<and> connStatus c' = b \<and> (b \<longrightarrow> redis_ctx c' \<noteq> None)"
proof -
  obtain c1 h1 where 1: "cc_release H c h = (c1, h1)" by force
  obtain c2 h2 where 2: "connectWithTimeout H c1 h1 = (c2, h2)" by force
  have o: "same_owner c c2" using release_keeps [OF 1] connectWithTimeout_keeps [OF 2] same_owner_trans by blast
  show ?thesis
  proof (cases "redis_ctx c2")
    case None
    then show ?thesis using assms 1 2 o by (auto simp: cc_connect_def conn_ok_def same_owner_def)
  next
    case (Some x)
    obtain a c3 h3 where 3: "auth H x c2 h2 = (a, c3, h3)" by (metis prod_cases3)
    obtain d c4 h4 where 4: "(if a then ping H c3 h3 else (False, c3, h3)) = (d, c4, h4)" by (metis prod_cases3)
    have "same_owner c3 c4" "redis_ctx c4 = redis_ctx c3" using 4 by (auto split: if_splits dest!: ping_keeps)
    then show ?thesis using assms 1 2 3 4 Some o auth_keeps [OF 3] by (auto simp: cc_connect_def conn_ok_def same_owner_def)
  qed
qed

lemma expire_keeps: "cc_expire H key s c h = (b, v, c', h') \<Longrightarrow> same_owner c c' \<and> (conn_ok c \<longrightarrow> conn_ok c')"
  by (auto simp: cc_expire_def commandInteger_def split: if_splits prod.splits dest: send_result intro: same_owner_trans)

lemma zrem_keeps: "cc_zrem H key ms r c h = (b, v, c', h') \<Longrightarrow> same_owner c c' \<and> (conn_ok c \<longrightarrow> conn_ok c')"
  by (auto simp: cc_zrem_def commandArgvInteger_def split: if_splits prod.splits dest: send_result)

lemma reconnect_keeps:
  assumes "reConnect H c h = (b, c', h')"
  shows "same_owner c c' \<and> conn_ok c'"
proof -
  obtain c1 h1 where 1: "cc_release H c h = (c1, h1)" by force
  then have 2: "cc_connect H c1 h1 = (b, c', h')" using assms by (simp add: reConnect_def)
  show ?thesis using release_keeps [OF 1] connect_keeps [OF 2] by (auto intro: same_owner_trans)
qed

lemma client_call_keeps:
  assumes "client_call H (c, h) (c', h')" and "conn_ok c"
  shows "same_owner c c' \<and> conn_ok c'"
  using assms(1)
proof (cases rule: client_call.cases)
  case (connect b)
  then show ?thesis using connect_keeps [OF connect] by simp
next
  case (reconnect b)
  then show ?thesis using reconnect_keeps [OF reconnect] by simp
next
  case (ping b)
  then show ?thesis using ping_keeps [OF ping] assms(2) by simp
next
  case release
  then show ?thesis using release_keeps [OF release] assms(2) by (auto simp: conn_ok_def)
next
  case (expire key b v)
  then show ?thesis using expire_keeps [OF expire] assms(2) by simp
next
  case (zrem key b v)
  then show ?thesis using zrem_keeps [OF zrem] assms(2) by simp
qed (use assms(2) in \<open>auto simp: cc_defs command_defs split: if_splits dest: send_result(1,3)\<close>)

section \<open>Properties\<close>



end
