(* ===== verification/ClusterPool.thy ===== *)
theory ClusterPool
  imports ClusterClient
begin

text \<open>
  The connection pool of one node of the cluster, \<^verbatim>\<open>src/rediscluster/RedisClusterNode.cpp\<close>, with the part of
  \<^verbatim>\<open>RedisClusterNode.h\<close> that reads a node from text, and the return of a connection to its pool
  (\<open>RedisClient::recycle\<close>, called by the destructor of \<open>RedisClientPtr\<close>).

  Connections and pools are objects in a store, named by numbers. A connection or pool that was deleted is no longer there; a call on
  one sets the flag \<open>corrupt\<close>. Every method is one step: the code of each holds the mutex of the pool.
\<close>

section \<open>Nodes\<close>

record NodeInfo =
  ni_id :: string
  ni_ipStr :: string
  ni_port :: c_int
  ni_slots :: "SlotsInfo list"

text \<open>The number of the port is not initialised: \<open>junk\<close> is what the memory held.\<close>

definition NodeInfo_new :: "c_int \<Rightarrow> NodeInfo" where
  "NodeInfo_new junk = \<lparr>ni_id = [], ni_ipStr = [], ni_port = junk, ni_slots = []\<rparr>"

definition ParseNodeString :: "string \<Rightarrow> NodeInfo \<Rightarrow> bool \<times> NodeInfo" where
  "ParseNodeString nodeStr n =
     (case str_find nodeStr '':'' 0 of
        None \<Rightarrow> (False, n)
      | Some pos \<Rightarrow> (True, n\<lparr>ni_port := atoi (c_str (drop (pos + 1) nodeStr)), ni_ipStr := take pos nodeStr\<rparr>))"

definition ParseSlotString :: "string \<Rightarrow> NodeInfo \<Rightarrow> NodeInfo" where
  "ParseSlotString slotStr n =
     (let slotsInfo =
        (case str_find slotStr ''-'' 0 of
           None \<Rightarrow> (let a = ucast (atoi (c_str slotStr)) in \<lparr>slotStart = a, slotEnd = a\<rparr>)
         | Some pos \<Rightarrow> \<lparr>slotStart = ucast (atoi (c_str (take pos slotStr))), slotEnd = ucast (atoi (c_str (drop (pos + 1) slotStr)))\<rparr>)
      in n\<lparr>ni_slots := ni_slots n @ [slotsInfo]\<rparr>)"

section \<open>The store\<close>

record cluster_pool =
  bStatus :: bool
  cp_info :: NodeInfo
  cp_minSize :: c_int
  cp_maxSize :: c_int
  cp_currSize :: c_int
  cp_timeout :: c_int
  cp_password :: string
  useMap :: "nat list"
  idleList :: "nat list"

record 'h cstate =
  cl_cells :: "nat \<Rightarrow> cluster_client option"
  nextClient :: nat
  pools :: "nat \<Rightarrow> cluster_pool option"
  nextPool :: nat
  net :: 'h
  corrupt :: bool

definition with_client :: "nat \<Rightarrow> (cluster_client \<Rightarrow> 'h \<Rightarrow> cluster_client \<times> 'h) \<Rightarrow> 'h cstate \<Rightarrow> 'h cstate" where
  "with_client p f s =
     (case cl_cells s p of
        None \<Rightarrow> s\<lparr>corrupt := True\<rparr>
      | Some c \<Rightarrow> (let (c, h) = f c (net s) in s\<lparr>cl_cells := (cl_cells s)(p := Some c), net := h\<rparr>))"

text \<open>\<open>release\<close> and \<open>delete\<close>, whose destructor releases once more.\<close>

definition delete_client :: "'h hiredis \<Rightarrow> nat \<Rightarrow> 'h cstate \<Rightarrow> 'h cstate" where
  "delete_client H p s =
     (let s = with_client p (cc_release H) s; s = with_client p (cc_release H) s in s\<lparr>cl_cells := (cl_cells s)(p := None)\<rparr>)"

section \<open>The pool\<close>

abbreviation kMinSize :: c_int where "kMinSize \<equiv> 1"
abbreviation kMaxSize :: c_int where "kMaxSize \<equiv> 64"

definition cluster_pool_new :: "c_int \<Rightarrow> cluster_pool" where
  "cluster_pool_new junk =
     \<lparr>bStatus = True, cp_info = NodeInfo_new junk, cp_minSize = 2, cp_maxSize = 10, cp_currSize = 0, cp_timeout = 0, cp_password = [],
      useMap = [], idleList = []\<rparr>"

definition set_pool :: "nat \<Rightarrow> cluster_pool \<Rightarrow> 'h cstate \<Rightarrow> 'h cstate" where
  "set_pool nid n s = s\<lparr>pools := (pools s)(nid := Some n)\<rparr>"

definition applayNewRedisClient :: "'h hiredis \<Rightarrow> nat \<Rightarrow> cluster_pool \<Rightarrow> 'h cstate \<Rightarrow> nat option \<times> 'h cstate" where
  "applayNewRedisClient H nid n s =
     (let p = nextClient s;
          c = cc_init (ni_ipStr (cp_info n)) (ni_port (cp_info n)) (cp_timeout n) (cp_password n) (cluster_client_new (Some nid));
          (bRet, c, h) = cc_connect H c (net s);
          s = s\<lparr>cl_cells := (cl_cells s)(p := Some c), nextClient := p + 1, net := h\<rparr>
      in if \<not> bRet
         then (None, (let s = with_client p (cc_release H) s in s\<lparr>cl_cells := (cl_cells s)(p := None)\<rparr>))
         else (Some p, s))"

fun init_loop :: "'h hiredis \<Rightarrow> nat \<Rightarrow> nat \<Rightarrow> cluster_pool \<Rightarrow> 'h cstate \<Rightarrow> bool \<times> cluster_pool \<times> 'h cstate" where
  "init_loop H nid 0 n s = (True, n, s)"
| "init_loop H nid (Suc k) n s =
     (let (p, s) = applayNewRedisClient H nid n s
      in case p of None \<Rightarrow> (False, n, s) | Some p \<Rightarrow> init_loop H nid k (n\<lparr>idleList := idleList n @ [p]\<rparr>) s)"

definition pool_init ::
  "'h hiredis \<Rightarrow> nat \<Rightarrow> NodeInfo \<Rightarrow> c_int \<Rightarrow> c_int \<Rightarrow> c_int \<Rightarrow> string \<Rightarrow> cluster_pool \<Rightarrow> 'h cstate \<Rightarrow> bool \<times> cluster_pool \<times> 'h cstate" where
  "pool_init H nid info minSize maxSize timeout password n s =
     (let n = n\<lparr>cp_info := info, cp_minSize := (if minSize <s kMinSize then kMinSize else minSize),
            cp_maxSize := (if kMaxSize <s maxSize then kMaxSize else maxSize), cp_timeout := timeout, cp_password := password\<rparr>
      in if cp_maxSize n <s cp_minSize n then (False, n, s) else init_loop H nid (nat (sint (cp_minSize n))) n s)"

definition pool_stop :: "'h hiredis \<Rightarrow> nat \<Rightarrow> 'h cstate \<Rightarrow> 'h cstate" where
  "pool_stop H nid s =
     (case pools s nid of
        None \<Rightarrow> s\<lparr>corrupt := True\<rparr>
      | Some n \<Rightarrow>
          (let s = fold (delete_client H) (idleList n) s; s = fold (delete_client H) (useMap n) s
           in set_pool nid (n\<lparr>idleList := [], useMap := []\<rparr>) s))"

text \<open>The destructor, and the memory is gone.\<close>

definition pool_delete :: "'h hiredis \<Rightarrow> nat \<Rightarrow> 'h cstate \<Rightarrow> 'h cstate" where
  "pool_delete H nid s = (let s = pool_stop H nid s in s\<lparr>pools := (pools s)(nid := None)\<rparr>)"

definition use_insert :: "nat \<Rightarrow> nat list \<Rightarrow> nat list" where
  "use_insert p u = (if p \<in> set u then u else u @ [p])"

definition getRedisClient :: "'h hiredis \<Rightarrow> nat \<Rightarrow> 'h cstate \<Rightarrow> nat option \<times> 'h cstate" where
  "getRedisClient H nid s =
     (case pools s nid of
        None \<Rightarrow> (None, s\<lparr>corrupt := True\<rparr>)
      | Some n \<Rightarrow>
          (case idleList n of
             p # ps \<Rightarrow> (Some p, set_pool nid (n\<lparr>idleList := ps, useMap := use_insert p (useMap n)\<rparr>) s)
           | [] \<Rightarrow>
               if int (length (useMap n)) < sint (cp_maxSize n)
               then (let (p, s) = applayNewRedisClient H nid n s
                     in case p of
                          Some p \<Rightarrow> (Some p, set_pool nid (n\<lparr>useMap := use_insert p (useMap n)\<rparr>) s)
                        | None \<Rightarrow> (None, if useMap n = [] then set_pool nid (n\<lparr>bStatus := False\<rparr>) s else s))
               else (None, s)))"

definition releaseRedisClient :: "nat \<Rightarrow> nat \<Rightarrow> 'h cstate \<Rightarrow> 'h cstate" where
  "releaseRedisClient nid p s =
     (case pools s nid of
        None \<Rightarrow> s\<lparr>corrupt := True\<rparr>
      | Some n \<Rightarrow>
          if p \<in> set (useMap n) then set_pool nid (n\<lparr>idleList := idleList n @ [p], useMap := remove1 p (useMap n)\<rparr>) s else s)"

definition removeRedisClient :: "'h hiredis \<Rightarrow> nat \<Rightarrow> nat \<Rightarrow> 'h cstate \<Rightarrow> 'h cstate" where
  "removeRedisClient H nid p s =
     (case pools s nid of
        None \<Rightarrow> s\<lparr>corrupt := True\<rparr>
      | Some n \<Rightarrow>
          if p \<in> set (useMap n)
          then (let n = n\<lparr>useMap := remove1 p (useMap n)\<rparr>; s = with_client p (cc_release H) s
                in set_pool nid (if useMap n = [] \<and> idleList n = [] then n\<lparr>bStatus := False\<rparr> else n) s)
          else s)"

definition recycle :: "'h hiredis \<Rightarrow> nat \<Rightarrow> 'h cstate \<Rightarrow> 'h cstate" where
  "recycle H p s =
     (case cl_cells s p of
        None \<Rightarrow> s\<lparr>corrupt := True\<rparr>
      | Some c \<Rightarrow>
          (case cc_manager c of
             None \<Rightarrow> s
           | Some nid \<Rightarrow> if connStatus c then releaseRedisClient nid p s else removeRedisClient H nid p s))"

section \<open>The invariant\<close>

definition owned :: "nat \<Rightarrow> cluster_pool \<Rightarrow> cluster_client \<Rightarrow> bool" where
  "owned nid n c \<longleftrightarrow> cc_manager c = Some nid \<and> cc_ipStr c = ni_ipStr (cp_info n) \<and> cc_port c = ni_port (cp_info n)"

text \<open>
  Every connection is idle or in use and not both, was made for this pool, and there are at most \<open>maxSize\<close>; those that are idle are
  connected; those in use are the ones that are held.
\<close>

definition pool_ok :: "nat \<Rightarrow> cluster_pool \<Rightarrow> nat list \<Rightarrow> 'h cstate \<Rightarrow> bool" where
  "pool_ok nid n held s \<longleftrightarrow> \<not> corrupt s \<and> pools s nid = Some n \<and> distinct (idleList n @ useMap n) \<and> mset held = mset (useMap n) \<and>
     int (length (idleList n) + length (useMap n)) \<le> sint (cp_maxSize n) \<and>
     (\<forall>p \<in> set (idleList n @ useMap n). p < nextClient s \<and> (\<exists>c. cl_cells s p = Some c \<and> owned nid n c \<and> conn_ok c)) \<and>
     (\<forall>p \<in> set (idleList n). \<exists>c. cl_cells s p = Some c \<and> connStatus c)"

lemma new_client_cases:
  assumes "applayNewRedisClient H nid n s = (r, s')"
  shows "pools s' = pools s \<and> corrupt s' = corrupt s \<and> nextClient s' = nextClient s + 1 \<and> (\<forall>q. q \<noteq> nextClient s \<longrightarrow> cl_cells s' q = cl_cells s q) \<and>
    (r = None \<or> r = Some (nextClient s) \<and> (\<exists>c. cl_cells s' (nextClient s) = Some c \<and> owned nid n c \<and> conn_ok c \<and> connStatus c))"
proof -
  let ?c = "cc_init (ni_ipStr (cp_info n)) (ni_port (cp_info n)) (cp_timeout n) (cp_password n) (cluster_client_new (Some nid))"
  obtain b c h where c: "cc_connect H ?c (net s) = (b, c, h)" by (metis prod_cases3)
  have "owned nid n c" using connect_keeps [OF c] by (simp add: owned_def same_owner_def cc_init_def cluster_client_new_def)
  then show ?thesis using assms connect_keeps [OF c] by (auto simp: applayNewRedisClient_def c Let_def with_client_def split: prod.splits if_splits)
qed

lemma pool_ok_cell:
  assumes "pool_ok nid n held s" and "p \<in> set (idleList n) \<or> p \<in> set (useMap n)"
  shows "p < nextClient s" and "\<exists>c. cl_cells s p = Some c \<and> owned nid n c \<and> conn_ok c"
  using assms unfolding pool_ok_def by auto

lemma pool_ok_get:
  assumes ok: "pool_ok nid n held s" and g: "getRedisClient H nid s = (r, s')"
  shows "\<exists>n'. pool_ok nid n' (case r of None \<Rightarrow> held | Some p \<Rightarrow> p # held) s' \<and> cp_info n' = cp_info n \<and> cp_maxSize n' = cp_maxSize n \<and>
    (\<forall>p. r = Some p \<longrightarrow> p \<notin> set held \<and> (\<exists>c. cl_cells s' p = Some c \<and> connStatus c \<and> owned nid n c))"
proof -
  have n: "pools s nid = Some n" and held: "set held = set (useMap n)" using ok by (auto simp: pool_ok_def dest: mset_eq_setD)
  show ?thesis
  proof (cases "idleList n")
    case (Cons p ps)
    then have u: "p \<notin> set (useMap n)" using ok by (auto simp: pool_ok_def)
    let ?n = "n\<lparr>idleList := ps, useMap := useMap n @ [p]\<rparr>"
    have r: "r = Some p" "s' = set_pool nid ?n s" using g n Cons u by (auto simp: getRedisClient_def use_insert_def)
    have "pool_ok nid ?n (p # held) s'" using ok Cons r by (auto simp: pool_ok_def set_pool_def owned_def)
    then show ?thesis using ok Cons r u held by (intro exI [of _ ?n]) (fastforce simp: pool_ok_def set_pool_def owned_def)
  next
    case Nil
    show ?thesis
    proof (cases "int (length (useMap n)) < sint (cp_maxSize n)")
      case False
      then show ?thesis using g n Nil ok by (auto simp: getRedisClient_def)
    next
      case True
      obtain q t where q: "applayNewRedisClient H nid n s = (q, t)" by force
      note t = new_client_cases [OF q]
      have same: "cl_cells t p = cl_cells s p" if "p \<in> set (useMap n)" for p using pool_ok_cell(1) [OF ok, of p] that t by auto
      have old: "\<forall>p \<in> set (useMap n). p < nextClient t \<and> (\<exists>c. cl_cells t p = Some c \<and> owned nid n c \<and> conn_ok c)"
        using pool_ok_cell [OF ok] same t by (auto simp: less_Suc_eq)
      show ?thesis
      proof (cases q)
        case None
        have e: "r = None" "s' = (if useMap n = [] then set_pool nid (n\<lparr>bStatus := False\<rparr>) t else t)"
          using g n Nil True q None by (auto simp: getRedisClient_def)
        let ?n = "if useMap n = [] then n\<lparr>bStatus := False\<rparr> else n"
        have "pool_ok nid ?n held s'" using ok old t n Nil e by (auto simp: pool_ok_def set_pool_def owned_def)
        then show ?thesis using e by (intro exI [of _ ?n]) auto
      next
        case (Some p)
        then have p: "p = nextClient s" "\<exists>c. cl_cells t p = Some c \<and> owned nid n c \<and> conn_ok c \<and> connStatus c" using t by auto
        have u: "p \<notin> set (useMap n)" using ok p(1) by (auto simp: pool_ok_def)
        let ?n = "n\<lparr>useMap := useMap n @ [p]\<rparr>"
        have e: "r = Some p" "s' = set_pool nid ?n t" using g n Nil True q Some u by (auto simp: getRedisClient_def use_insert_def)
        have "pool_ok nid ?n (p # held) s'" using ok old t p u Nil True e by (auto simp: pool_ok_def set_pool_def owned_def)
        then show ?thesis using e p u held by (intro exI [of _ ?n]) (auto simp: set_pool_def)
      qed
    qed
  qed
qed

lemma pool_ok_call:
  assumes ok: "pool_ok nid n held s" and p: "p \<in> set held" "cl_cells s p = Some c" and call: "client_call H (c, net s) (c', h')"
  shows "pool_ok nid n held (s\<lparr>cl_cells := (cl_cells s)(p := Some c'), net := h'\<rparr>)"
proof -
  have u: "p \<in> set (useMap n)" "p \<notin> set (idleList n)" using ok p(1) by (auto simp: pool_ok_def dest: mset_eq_setD)
  then have c: "owned nid n c" "conn_ok c" using pool_ok_cell(2) [OF ok, of p] p(2) by auto
  have "owned nid n c'" "conn_ok c'" using client_call_keeps [OF call c(2)] c(1) by (auto simp: owned_def same_owner_def)
  then show ?thesis using ok u by (auto simp: pool_ok_def)
qed

lemma pool_ok_recycle:
  assumes ok: "pool_ok nid n held s" and p: "p \<in> set held"
  shows "\<exists>n'. pool_ok nid n' (remove1 p held) (recycle H p s) \<and> cp_info n' = cp_info n \<and> cp_maxSize n' = cp_maxSize n"
proof -
  have n: "pools s nid = Some n" and u: "p \<in> set (useMap n)" using ok p by (auto simp: pool_ok_def dest: mset_eq_setD)
  obtain c where c: "cl_cells s p = Some c" "owned nid n c" "conn_ok c" using pool_ok_cell(2) [OF ok, of p] u by auto
  have len: "length (useMap n) = length (remove1 p (useMap n)) + 1" using u length_pos_if_in_set [OF u] by (simp add: length_remove1)
  have d: "distinct (remove1 p (useMap n))" "p \<notin> set (remove1 p (useMap n))" "set (remove1 p (useMap n)) \<subseteq> set (useMap n)" "p \<notin> set (idleList n)"
    using ok u by (auto simp: pool_ok_def set_remove1_eq)
  have ms: "mset (remove1 p held) = mset (remove1 p (useMap n))" using ok by (simp add: pool_ok_def mset_remove1)
  show ?thesis
  proof (cases "connStatus c")
    case True
    let ?n = "n\<lparr>idleList := idleList n @ [p], useMap := remove1 p (useMap n)\<rparr>"
    have "recycle H p s = set_pool nid ?n s" using c True n u by (simp add: recycle_def owned_def releaseRedisClient_def)
    moreover have "pool_ok nid ?n (remove1 p held) (set_pool nid ?n s)" using ok d ms len c True pool_ok_cell(1) [OF ok, of p] u by (auto simp: pool_ok_def set_pool_def owned_def)
    ultimately show ?thesis by (intro exI [of _ ?n]) simp
  next
    case False
    obtain c1 h1 where r: "cc_release H c (net s) = (c1, h1)" by force
    let ?m = "n\<lparr>useMap := remove1 p (useMap n)\<rparr>"
    let ?n = "if useMap ?m = [] \<and> idleList ?m = [] then ?m\<lparr>bStatus := False\<rparr> else ?m" and ?s = "s\<lparr>cl_cells := (cl_cells s)(p := Some c1), net := h1\<rparr>"
    have "recycle H p s = set_pool nid ?n ?s" using c False n u r by (simp add: recycle_def owned_def removeRedisClient_def with_client_def Let_def)
    moreover have "pool_ok nid ?n (remove1 p held) (set_pool nid ?n ?s)" using ok d ms len by (auto simp: pool_ok_def set_pool_def owned_def simp del: mset_remove1)
    ultimately show ?thesis by (intro exI [of _ ?n]) simp
  qed
qed

lemma init_loop_next: "init_loop H nid k n s = (b, n', s') \<Longrightarrow> nextPool s' = nextPool s \<and> pools s' = pools s"
proof (induction k arbitrary: n s)
  case (Suc k)
  have "nextPool t = nextPool s \<and> pools t = pools s" if "applayNewRedisClient H nid n s = (q, t)" for q t
    using that by (auto simp: applayNewRedisClient_def Let_def with_client_def split: prod.splits if_splits option.splits)
  then show ?case using Suc by (fastforce split: prod.splits option.splits)
qed simp

lemma init_loop_ok:
  assumes "init_loop H nid k n s = (b, n', s')" and "useMap n = []" and "distinct (idleList n)" and "\<not> corrupt s"
    and "\<forall>p \<in> set (idleList n). p < nextClient s \<and> (\<exists>c. cl_cells s p = Some c \<and> owned nid n c \<and> conn_ok c \<and> connStatus c)"
  shows "(\<exists>ps. n' = n\<lparr>idleList := idleList n @ ps\<rparr> \<and> (b \<longrightarrow> length ps = k)) \<and> distinct (idleList n') \<and> \<not> corrupt s' \<and> pools s' = pools s \<and>
    nextClient s \<le> nextClient s' \<and> (\<forall>p < nextClient s. cl_cells s' p = cl_cells s p) \<and>
    (\<forall>p \<in> set (idleList n'). p < nextClient s' \<and> (\<exists>c. cl_cells s' p = Some c \<and> owned nid n c \<and> conn_ok c \<and> connStatus c))"
  using assms
proof (induction k arbitrary: n s)
  case 0
  then show ?case by (auto intro!: exI [of _ "[]"])
next
  case (Suc k)
  obtain q t where q: "applayNewRedisClient H nid n s = (q, t)" by force
  note t = new_client_cases [OF q]
  show ?case
  proof (cases q)
    case None
    then have "n' = n" "s' = t" "\<not> b" using Suc.prems(1) q by auto
    then show ?thesis using Suc.prems t by (auto intro!: exI [of _ "[]"])
  next
    case (Some p)
    let ?n = "n\<lparr>idleList := idleList n @ [p]\<rparr>"
    have p: "p = nextClient s" "\<exists>c. cl_cells t p = Some c \<and> owned nid n c \<and> conn_ok c \<and> connStatus c" using t Some by auto
    have run: "init_loop H nid k ?n t = (b, n', s')" using Suc.prems(1) q Some by simp
    have o: "owned nid ?n = owned nid n" by (simp add: owned_def fun_eq_iff)
    have fresh: "p \<notin> set (idleList n)" "distinct (idleList ?n)" using Suc.prems(3,5) p(1) by auto
    have cells: "\<forall>x \<in> set (idleList ?n). x < nextClient t \<and> (\<exists>c. cl_cells t x = Some c \<and> owned nid ?n c \<and> conn_ok c \<and> connStatus c)"
      unfolding o using Suc.prems(5) t p fresh by (auto simp: less_Suc_eq)
    have "\<not> corrupt t" "useMap ?n = []" using t Suc.prems(2,4) by simp_all
    from Suc.IH [OF run this(2) fresh(2) this(1) cells, unfolded o]
    obtain ps where ps: "n' = ?n\<lparr>idleList := idleList ?n @ ps\<rparr>" "b \<longrightarrow> length ps = k" and rest: "distinct (idleList n')" "\<not> corrupt s'" "pools s' = pools t"
      "nextClient t \<le> nextClient s'" "\<forall>p < nextClient t. cl_cells s' p = cl_cells t p"
      "\<forall>p \<in> set (idleList n'). p < nextClient s' \<and> (\<exists>c. cl_cells s' p = Some c \<and> owned nid n c \<and> conn_ok c \<and> connStatus c)" by blast
    have "n' = n\<lparr>idleList := idleList n @ (p # ps)\<rparr>" "b \<longrightarrow> length (p # ps) = Suc k" using ps by simp_all
    moreover have "\<forall>p < nextClient s. cl_cells s' p = cl_cells s p" "nextClient s \<le> nextClient s'" "pools s' = pools s" using rest t by auto
    ultimately show ?thesis using rest by blast
  qed
qed

section \<open>Runs\<close>

text \<open>
  Users of one pool, at once: a user gets a connection, calls its methods, and gives it back. The list has the connections that are held.
\<close>

inductive pool_step :: "'h hiredis \<Rightarrow> nat \<Rightarrow> 'h cstate \<times> nat list \<Rightarrow> 'h cstate \<times> nat list \<Rightarrow> bool" for H nid where
  get: "getRedisClient H nid s = (Some p, s') \<Longrightarrow> pool_step H nid (s, held) (s', p # held)"
| get_none: "getRedisClient H nid s = (None, s') \<Longrightarrow> pool_step H nid (s, held) (s', held)"
| call: "p \<in> set held \<Longrightarrow> cl_cells s p = Some c \<Longrightarrow> client_call H (c, net s) (c', h') \<Longrightarrow>
    pool_step H nid (s, held) (s\<lparr>cl_cells := (cl_cells s)(p := Some c'), net := h'\<rparr>, held)"
| give_back: "p \<in> set held \<Longrightarrow> pool_step H nid (s, held) (recycle H p s, remove1 p held)"

definition pool_inv :: "nat \<Rightarrow> NodeInfo \<Rightarrow> c_int \<Rightarrow> 'h cstate \<times> nat list \<Rightarrow> bool" where
  "pool_inv nid info maxS st \<longleftrightarrow> (\<exists>n. pool_ok nid n (snd st) (fst st) \<and> cp_info n = info \<and> cp_maxSize n = maxS)"

lemma pool_step_inv: "pool_step H nid st st' \<Longrightarrow> pool_inv nid info maxS st \<Longrightarrow> pool_inv nid info maxS st'"
proof (induction rule: pool_step.induct)
  case (get s p s' held)
  then obtain n where "pool_ok nid n held s" "cp_info n = info" "cp_maxSize n = maxS" by (auto simp: pool_inv_def)
  with pool_ok_get [OF _ get(1)] show ?case by (fastforce simp: pool_inv_def)
next
  case (get_none s s' held)
  then obtain n where "pool_ok nid n held s" "cp_info n = info" "cp_maxSize n = maxS" by (auto simp: pool_inv_def)
  with pool_ok_get [OF _ get_none(1)] show ?case by (fastforce simp: pool_inv_def)
next
  case (call p held s c c' h')
  then show ?case using pool_ok_call [OF _ call(1-3)] by (fastforce simp: pool_inv_def)
next
  case (give_back p held s)
  then obtain n where "pool_ok nid n held s" "cp_info n = info" "cp_maxSize n = maxS" by (auto simp: pool_inv_def)
  with pool_ok_recycle [OF _ give_back(1)] show ?case by (fastforce simp: pool_inv_def)
qed

lemma pool_steps_inv: "(pool_step H nid)\<^sup>*\<^sup>* st st' \<Longrightarrow> pool_inv nid info maxS st \<Longrightarrow> pool_inv nid info maxS st'"
  by (induction rule: rtranclp_induct) (auto intro: pool_step_inv)

lemma clamped: "sint (if kMaxSize <s x then kMaxSize else x) \<le> 64" "1 \<le> sint (if x <s kMinSize then kMinSize else x)"
  by (auto simp: word_sless_alt)

lemma pool_init_inv:
  assumes "pool_init H nid info minS maxS timeout pw (cluster_pool_new junk) s = (True, n, s')" and "\<not> corrupt s"
  shows "pool_inv nid info (cp_maxSize n) (set_pool nid n s', [])" and "1 \<le> length (idleList n)" and "sint (cp_maxSize n) \<le> 64"
    and "length (idleList n) = nat (sint (cp_minSize n))" and "bStatus n"
proof -
  define m where "m = (cluster_pool_new junk)\<lparr>cp_info := info, cp_minSize := (if minS <s kMinSize then kMinSize else minS),
      cp_maxSize := (if kMaxSize <s maxS then kMaxSize else maxS), cp_timeout := timeout, cp_password := pw\<rparr>"
  have run: "init_loop H nid (nat (sint (cp_minSize m))) m s = (True, n, s')" and sz: "sint (cp_minSize m) \<le> sint (cp_maxSize m)"
    using assms(1) unfolding pool_init_def Let_def m_def [symmetric] by (auto simp: word_sless_alt split: if_splits)
  have m: "useMap m = []" "idleList m = []" "cp_info m = info" "bStatus m" by (simp_all add: m_def cluster_pool_new_def)
  from init_loop_ok [OF run m(1)] m assms(2) obtain ps where ps: "n = m\<lparr>idleList := ps\<rparr>" "length ps = nat (sint (cp_minSize m))" "distinct ps" "\<not> corrupt s'"
    "\<forall>p \<in> set ps. p < nextClient s' \<and> (\<exists>c. cl_cells s' p = Some c \<and> owned nid m c \<and> conn_ok c \<and> connStatus c)" by auto
  have mn: "1 \<le> sint (cp_minSize m)" "sint (cp_maxSize m) \<le> 64" using clamped [of maxS] clamped [of minS] by (simp_all add: m_def)
  show "1 \<le> length (idleList n)" "sint (cp_maxSize n) \<le> 64" "length (idleList n) = nat (sint (cp_minSize n))" "bStatus n" using ps mn m by auto
  have "pool_ok nid n [] (set_pool nid n s')" using ps m mn sz by (auto simp: pool_ok_def set_pool_def owned_def)
  then show "pool_inv nid info (cp_maxSize n) (set_pool nid n s', [])" using ps(1) m by (auto simp: pool_inv_def)
qed

section \<open>Properties\<close>


text \<open>A server that accepts every connection and answers the ping; its state is the number of contexts so far.\<close>

definition pong_server :: "nat hiredis" where
  "pong_server = \<lparr>h_connect = (\<lambda>ip p t k. (Some (k, None), k + 1)),
     h_command = (\<lambda>x r k. (Some (SyncReply REDIS_REPLY_STATUS 0 (Some ''PONG'') []), k)), h_free = (\<lambda>x k. k)\<rparr>"

definition no_objects :: "'h \<Rightarrow> 'h cstate" where
  "no_objects h = \<lparr>cl_cells = (\<lambda>_. None), nextClient = 0, pools = (\<lambda>_. None), nextPool = 0, net = h, corrupt = False\<rparr>"

definition example_info :: NodeInfo where
  "example_info = \<lparr>ni_id = ''9be7'', ni_ipStr = ''10.0.0.1'', ni_port = 6790, ni_slots = [\<lparr>slotStart = 0, slotEnd = 16383\<rparr>]\<rparr>"

lemma pong_connect:
  "cc_password c = [] \<Longrightarrow> redis_ctx c = None \<Longrightarrow> cc_connect pong_server c k = (True, c\<lparr>redis_ctx := Some k, connStatus := True\<rparr>, k + 1)"
  by (simp add: cc_connect_def cc_release_def connectWithTimeout_def pong_server_def auth_def ping_def says_def c_str_def lower_def)

lemma pong_new_client:
  "cp_password n = [] \<Longrightarrow> \<exists>s'. applayNewRedisClient pong_server nid n s = (Some (nextClient s), s')"
  by (simp add: applayNewRedisClient_def cc_init_def cluster_client_new_def pong_connect Let_def)


end
