(* ===== verification/ClusterMgr.thy ===== *)
theory ClusterMgr
  imports ClusterPool
begin

text \<open>
  The cluster client's manager, \<^verbatim>\<open>src/rediscluster/RedisClusterMgr.cpp\<close>: the slot of a key, reading the topology from a
  server, one pool per master, and the way from a key to a connection, with the reconnect when a node has failed.

  The pools are held by \<open>shared_ptr\<close>s in the map of the slots; a pool is deleted when the last slot that points to it is given to
  another. The map is a list of pairs. \<^const>\<open>None\<close> is a call that does not return: the loop over a slot range has a 16-bit
  variable.
\<close>

section \<open>Slots\<close>

definition cl_crc16tab :: "u16 list" where
  "cl_crc16tab = [
     0x0000, 0x1021, 0x2042, 0x3063, 0x4084, 0x50a5, 0x60c6, 0x70e7,
     0x8108, 0x9129, 0xa14a, 0xb16b, 0xc18c, 0xd1ad, 0xe1ce, 0xf1ef,
     0x1231, 0x0210, 0x3273, 0x2252, 0x52b5, 0x4294, 0x72f7, 0x62d6,
     0x9339, 0x8318, 0xb37b, 0xa35a, 0xd3bd, 0xc39c, 0xf3ff, 0xe3de,
     0x2462, 0x3443, 0x0420, 0x1401, 0x64e6, 0x74c7, 0x44a4, 0x5485,
     0xa56a, 0xb54b, 0x8528, 0x9509, 0xe5ee, 0xf5cf, 0xc5ac, 0xd58d,
     0x3653, 0x2672, 0x1611, 0x0630, 0x76d7, 0x66f6, 0x5695, 0x46b4,
     0xb75b, 0xa77a, 0x9719, 0x8738, 0xf7df, 0xe7fe, 0xd79d, 0xc7bc,
     0x48c4, 0x58e5, 0x6886, 0x78a7, 0x0840, 0x1861, 0x2802, 0x3823,
     0xc9cc, 0xd9ed, 0xe98e, 0xf9af, 0x8948, 0x9969, 0xa90a, 0xb92b,
     0x5af5, 0x4ad4, 0x7ab7, 0x6a96, 0x1a71, 0x0a50, 0x3a33, 0x2a12,
     0xdbfd, 0xcbdc, 0xfbbf, 0xeb9e, 0x9b79, 0x8b58, 0xbb3b, 0xab1a,
     0x6ca6, 0x7c87, 0x4ce4, 0x5cc5, 0x2c22, 0x3c03, 0x0c60, 0x1c41,
     0xedae, 0xfd8f, 0xcdec, 0xddcd, 0xad2a, 0xbd0b, 0x8d68, 0x9d49,
     0x7e97, 0x6eb6, 0x5ed5, 0x4ef4, 0x3e13, 0x2e32, 0x1e51, 0x0e70,
     0xff9f, 0xefbe, 0xdfdd, 0xcffc, 0xbf1b, 0xaf3a, 0x9f59, 0x8f78,
     0x9188, 0x81a9, 0xb1ca, 0xa1eb, 0xd10c, 0xc12d, 0xf14e, 0xe16f,
     0x1080, 0x00a1, 0x30c2, 0x20e3, 0x5004, 0x4025, 0x7046, 0x6067,
     0x83b9, 0x9398, 0xa3fb, 0xb3da, 0xc33d, 0xd31c, 0xe37f, 0xf35e,
     0x02b1, 0x1290, 0x22f3, 0x32d2, 0x4235, 0x5214, 0x6277, 0x7256,
     0xb5ea, 0xa5cb, 0x95a8, 0x8589, 0xf56e, 0xe54f, 0xd52c, 0xc50d,
     0x34e2, 0x24c3, 0x14a0, 0x0481, 0x7466, 0x6447, 0x5424, 0x4405,
     0xa7db, 0xb7fa, 0x8799, 0x97b8, 0xe75f, 0xf77e, 0xc71d, 0xd73c,
     0x26d3, 0x36f2, 0x0691, 0x16b0, 0x6657, 0x7676, 0x4615, 0x5634,
     0xd94c, 0xc96d, 0xf90e, 0xe92f, 0x99c8, 0x89e9, 0xb98a, 0xa9ab,
     0x5844, 0x4865, 0x7806, 0x6827, 0x18c0, 0x08e1, 0x3882, 0x28a3,
     0xcb7d, 0xdb5c, 0xeb3f, 0xfb1e, 0x8bf9, 0x9bd8, 0xabbb, 0xbb9a,
     0x4a75, 0x5a54, 0x6a37, 0x7a16, 0x0af1, 0x1ad0, 0x2ab3, 0x3a92,
     0xfd2e, 0xed0f, 0xdd6c, 0xcd4d, 0xbdaa, 0xad8b, 0x9de8, 0x8dc9,
     0x7c26, 0x6c07, 0x5c64, 0x4c45, 0x3ca2, 0x2c83, 0x1ce0, 0x0cc1,
     0xef1f, 0xff3e, 0xcf5d, 0xdf7c, 0xaf9b, 0xbfba, 0x8fd9, 0x9ff8,
     0x6e17, 0x7e36, 0x4e55, 0x5e74, 0x2e93, 0x3eb2, 0x0ed1, 0x1ef0]"

definition cl_crc16 :: "string \<Rightarrow> u16" where
  "cl_crc16 buf = foldl (\<lambda>crc c. push_bit 8 crc XOR cl_crc16tab ! unat ((drop_bit 8 crc XOR ucast (byte c)) AND 0x00FF)) 0 buf"

definition cl_keyHashSlot :: "string \<Rightarrow> u16" where
  "cl_keyHashSlot key =
     (let len = length key; s = scan_char key CHR ''{'' 0
      in if s = len then cl_crc16 key AND 0x3FFF
         else (let e = scan_char key CHR ''}'' (s + 1)
               in if e = len \<or> e = s + 1 then cl_crc16 key AND 0x3FFF
                  else cl_crc16 (take (e - s - 1) (drop (s + 1) key)) AND 0x3FFF))"

text \<open>The argument is a pointer to the characters of the key, so a NUL ends it.\<close>

definition cl_getKeySlotIndex :: "string \<Rightarrow> u16" where
  "cl_getKeySlotIndex key = cl_keyHashSlot (c_str key)"

section \<open>The manager\<close>

record cluster_mgr =
  mg_bStatus :: bool
  fullCoverage :: c_int
  brokers :: string
  mg_ipStr :: string
  mg_port :: c_int
  mg_minSize :: c_int
  mg_maxSize :: c_int
  mg_timeout :: c_int
  mg_password :: string
  mg_nodes :: "NodeInfo list"
  nodesStatus :: "string \<Rightarrow> bool option"
  slotMap :: "(u16 \<times> nat) list"

text \<open>\<open>fullCoverage_\<close> is not initialised.\<close>

definition cluster_mgr_new :: "c_int \<Rightarrow> cluster_mgr" where
  "cluster_mgr_new junk =
     \<lparr>mg_bStatus = True, fullCoverage = junk, brokers = [], mg_ipStr = ''127.0.0.1'', mg_port = 7000, mg_minSize = 1, mg_maxSize = 8,
      mg_timeout = 15, mg_password = [], mg_nodes = [], nodesStatus = (\<lambda>_. None), slotMap = []\<rparr>"

definition mgr_split :: "string \<Rightarrow> string \<Rightarrow> string list" where
  "mgr_split str delim = (if str = [] then [] else if ptr_char delim = NUL then [str] else split_loop str delim 0)"

definition clusterEnabled :: "'h hiredis \<Rightarrow> nat \<Rightarrow> 'h \<Rightarrow> bool \<times> 'h" where
  "clusterEnabled H x h =
     (let (reply, h) = h_command H x (Fmt ''INFO'' []) h
      in (case reply of
            None \<Rightarrow> False
          | Some r \<Rightarrow>
              (case sr_str r of
                 None \<Rightarrow> False
               | Some t \<Rightarrow> (case find_sub (c_str t) ''cluster_enabled:'' of None \<Rightarrow> False | Some p \<Rightarrow> take 1 (drop 16 p) = ''1'')), h))"

text \<open>The position of the colon is not tested: \<^const>\<open>None\<close> is the read through the null pointer.\<close>

definition clusterInfo :: "'h hiredis \<Rightarrow> nat \<Rightarrow> 'h \<Rightarrow> bool option \<times> 'h" where
  "clusterInfo H x h =
     (let (reply, h) = h_command H x (Fmt ''CLUSTER INFO'' []) h
      in (case reply of
            None \<Rightarrow> Some False
          | Some r \<Rightarrow>
              (case sr_str r of
                 None \<Rightarrow> Some False
               | Some t \<Rightarrow> (case find_sub (c_str t) '':'' of None \<Rightarrow> None | Some p \<Rightarrow> Some (take 2 (drop 1 p) = ''ok''))), h))"

definition live_master :: "string \<Rightarrow> bool" where
  "live_master flags \<longleftrightarrow> find_sub (c_str flags) ''master'' \<noteq> None \<and> find_sub (c_str flags) ''master,fail'' = None \<and>
     find_sub (c_str flags) ''myself,master,fail'' = None"

definition node_of_words :: "c_int \<Rightarrow> string list \<Rightarrow> NodeInfo" where
  "node_of_words junk nodeInfo =
     fold ParseSlotString (drop 8 nodeInfo) (snd (ParseNodeString (nodeInfo ! 1) ((NodeInfo_new junk)\<lparr>ni_id := nodeInfo ! 0\<rparr>)))"

fun node_lines :: "c_int \<Rightarrow> string list \<Rightarrow> NodeInfo list \<Rightarrow> bool \<times> NodeInfo list" where
  "node_lines junk [] nodes = (True, nodes)"
| "node_lines junk (l # ls) nodes =
     (let nodeInfo = mgr_split l '' ''
      in if length nodeInfo < 8 then (False, nodes)
         else if \<not> live_master (nodeInfo ! 2) then node_lines junk ls nodes
         else if length nodeInfo < 9 then (False, nodes)
         else node_lines junk ls (nodes @ [node_of_words junk nodeInfo]))"

definition getClusterNodesInfo :: "'h hiredis \<Rightarrow> c_int \<Rightarrow> nat \<Rightarrow> cluster_mgr \<Rightarrow> 'h \<Rightarrow> bool \<times> cluster_mgr \<times> 'h" where
  "getClusterNodesInfo H junk x m h =
     (let (reply, h) = h_command H x (Fmt ''CLUSTER NODES'' []) h
      in case reply of
           None \<Rightarrow> (False, m, h)
         | Some r \<Rightarrow>
             (case sr_str r of
                None \<Rightarrow> (False, m, h)
              | Some t \<Rightarrow> (let (b, nodes) = node_lines junk (mgr_split (c_str t) [LF]) [] in (b, m\<lparr>mg_nodes := nodes\<rparr>, h))))"

text \<open>\<open>slotMap_[pos] = clusterNode\<close>: the pool that was there is deleted if this was its last slot.\<close>

definition slot_set :: "u16 \<Rightarrow> nat \<Rightarrow> (u16 \<times> nat) list \<Rightarrow> (u16 \<times> nat) list" where
  "slot_set pos nid sm = (pos, nid) # filter (\<lambda>e. fst e \<noteq> pos) sm"

definition assign_slot :: "'h hiredis \<Rightarrow> u16 \<Rightarrow> nat \<Rightarrow> (u16 \<times> nat) list \<Rightarrow> 'h cstate \<Rightarrow> (u16 \<times> nat) list \<times> 'h cstate" where
  "assign_slot H pos nid sm s =
     (let sm' = slot_set pos nid sm
      in (sm', case map_of sm pos of
                 None \<Rightarrow> s
               | Some old \<Rightarrow> if old \<in> snd ` set sm' then s else pool_delete H old s))"

partial_function (option) assign_slots ::
  "'h hiredis \<Rightarrow> u16 \<Rightarrow> u16 \<Rightarrow> nat \<Rightarrow> (u16 \<times> nat) list \<times> 'h cstate \<Rightarrow> ((u16 \<times> nat) list \<times> 'h cstate) option" where
  "assign_slots H pos slot_end nid st =
     (if pos \<le> slot_end then assign_slots H (pos + 1) slot_end nid (assign_slot H pos nid (fst st) (snd st)) else Some st)"

fun assign_ranges ::
  "'h hiredis \<Rightarrow> SlotsInfo list \<Rightarrow> nat \<Rightarrow> (u16 \<times> nat) list \<times> 'h cstate \<Rightarrow> ((u16 \<times> nat) list \<times> 'h cstate) option" where
  "assign_ranges H [] nid st = Some st"
| "assign_ranges H (r # rs) nid st =
     (case assign_slots H (slotStart r) (slotEnd r) nid st of None \<Rightarrow> None | Some st \<Rightarrow> assign_ranges H rs nid st)"

definition connectClusterNode :: "'h hiredis \<Rightarrow> c_int \<Rightarrow> NodeInfo \<Rightarrow> cluster_mgr \<Rightarrow> 'h cstate \<Rightarrow> (bool \<times> cluster_mgr \<times> 'h cstate) option" where
  "connectClusterNode H junk node m s =
     (if nodesStatus m (ni_id node) = Some True then Some (True, m, s)
      else let nid = nextPool s;
               (b, n, s) = pool_init H nid node (mg_minSize m) (mg_maxSize m) (mg_timeout m) (mg_password m) (cluster_pool_new junk) (s\<lparr>nextPool := nid + 1\<rparr>);
               s = set_pool nid n s
           in if \<not> b then Some (False, m, pool_delete H nid s)
              else case assign_ranges H (ni_slots node) nid (slotMap m, s) of
                     None \<Rightarrow> None
                   | Some (sm, s) \<Rightarrow>
                       (let m = m\<lparr>slotMap := sm,
                              nodesStatus := (if nodesStatus m (ni_id node) = None then (nodesStatus m)(ni_id node := Some True) else nodesStatus m)\<rparr>
                        in Some (True, m, if nid \<in> snd ` set sm then s else pool_delete H nid s)))"

fun connect_nodes :: "'h hiredis \<Rightarrow> c_int \<Rightarrow> NodeInfo list \<Rightarrow> cluster_mgr \<Rightarrow> 'h cstate \<Rightarrow> (bool \<times> cluster_mgr \<times> 'h cstate) option" where
  "connect_nodes H junk [] m s = Some (True, m, s)"
| "connect_nodes H junk (n # ns) m s =
     (case connectClusterNode H junk n m s of
        None \<Rightarrow> None
      | Some (b, m, s) \<Rightarrow> if b then connect_nodes H junk ns m s else Some (False, m, s))"

text \<open>The part that \<open>init\<close> and \<open>init2\<close> have in common, from the connected client on; the client is released at the end.\<close>

definition load_cluster :: "'h hiredis \<Rightarrow> c_int \<Rightarrow> cluster_client \<Rightarrow> cluster_mgr \<Rightarrow> 'h cstate \<Rightarrow> (int \<times> cluster_mgr \<times> 'h cstate) option" where
  "load_cluster H junk c m s =
     (let leave = (\<lambda>ret m s. Some (ret, m, s\<lparr>net := snd (cc_release H c (net s))\<rparr>))
      in case redis_ctx c of
           None \<Rightarrow> leave (- 1) m s
         | Some x \<Rightarrow>
             (let (b, h) = clusterEnabled H x (net s); s = s\<lparr>net := h\<rparr>
              in if \<not> b then leave (- 1) m s
                 else let (b, h) = clusterInfo H x (net s); s = s\<lparr>net := h\<rparr>
                      in case b of
                           None \<Rightarrow> leave (- 1) m (s\<lparr>corrupt := True\<rparr>)
                         | Some False \<Rightarrow> leave (- 1) m s
                         | Some True \<Rightarrow>
                             (let (b, m, h) = getClusterNodesInfo H junk x m (net s); s = s\<lparr>net := h\<rparr>
                              in if \<not> b then leave (- 1) m s
                                 else case connect_nodes H junk (mg_nodes m) m s of
                                        None \<Rightarrow> None
                                      | Some (b, m, s) \<Rightarrow> leave (if b then 0 else - 1) m s)))"

definition mgr_init ::
  "'h hiredis \<Rightarrow> c_int \<Rightarrow> string \<Rightarrow> c_int \<Rightarrow> c_int \<Rightarrow> c_int \<Rightarrow> c_int \<Rightarrow> string \<Rightarrow> c_int \<Rightarrow> cluster_mgr \<Rightarrow> 'h cstate
    \<Rightarrow> (int \<times> cluster_mgr \<times> 'h cstate) option" where
  "mgr_init H junk ip p minS maxS timeout pw full m s =
     (let m = m\<lparr>mg_ipStr := ip, mg_port := p, mg_minSize := minS, mg_maxSize := maxS, mg_timeout := timeout, mg_password := pw, fullCoverage := full\<rparr>;
          (b, c, h) = cc_connect H (cc_init ip p timeout pw (cluster_client_new None)) (net s); s = s\<lparr>net := h\<rparr>
      in if \<not> b then Some (- 1, m, s\<lparr>net := snd (cc_release H c (net s))\<rparr>) else load_cluster H junk c m s)"

fun broker_loop :: "'h hiredis \<Rightarrow> c_int \<Rightarrow> string list \<Rightarrow> cluster_mgr \<Rightarrow> 'h cstate \<Rightarrow> (int \<times> cluster_mgr \<times> 'h cstate) option" where
  "broker_loop H junk [] m s = Some (- 1, m, s)"
| "broker_loop H junk (b # bs) m s =
     (case str_find b '':'' 0 of
        None \<Rightarrow> Some (- 1, m, s)
      | Some i \<Rightarrow>
          (let (ok, c, h) = cc_connect H (cc_init (take i b) (atoi (c_str (drop (i + 1) b))) (mg_timeout m) (mg_password m) (cluster_client_new None)) (net s);
               s = s\<lparr>net := h\<rparr>
           in if \<not> ok then broker_loop H junk bs m (s\<lparr>net := snd (cc_release H c (net s))\<rparr>) else load_cluster H junk c m s))"

definition mgr_init2 ::
  "'h hiredis \<Rightarrow> c_int \<Rightarrow> string \<Rightarrow> c_int \<Rightarrow> c_int \<Rightarrow> c_int \<Rightarrow> string \<Rightarrow> c_int \<Rightarrow> cluster_mgr \<Rightarrow> 'h cstate
    \<Rightarrow> (int \<times> cluster_mgr \<times> 'h cstate) option" where
  "mgr_init2 H junk brks minS maxS timeout pw full m s =
     (let m = m\<lparr>brokers := brks, mg_minSize := minS, mg_maxSize := maxS, mg_timeout := timeout, mg_password := pw, fullCoverage := full\<rparr>;
          result = mgr_split brks '',''
      in if result = [] then Some (- 1, m, s) else broker_loop H junk result m s)"

text \<open>The reconnect passes no value for \<open>fullCoverage\<close>, whose default is 0.\<close>

definition getConnection :: "'h hiredis \<Rightarrow> c_int \<Rightarrow> u16 \<Rightarrow> cluster_mgr \<Rightarrow> 'h cstate \<Rightarrow> (nat option \<times> cluster_mgr \<times> 'h cstate) option" where
  "getConnection H junk slot m s =
     (case map_of (slotMap m) slot of
        None \<Rightarrow> Some (None, m, s)
      | Some nid \<Rightarrow>
          (case pools s nid of
             None \<Rightarrow> Some (None, m, s\<lparr>corrupt := True\<rparr>)
           | Some n \<Rightarrow>
               if bStatus n then (let (p, s) = getRedisClient H nid s in Some (p, m, s))
               else let m = m\<lparr>mg_bStatus := False, nodesStatus := (nodesStatus m)(ni_id (cp_info n) := None)\<rparr>
                    in case mgr_init2 H junk (brokers m) (mg_minSize m) (mg_maxSize m) (mg_timeout m) (mg_password m) 0 m s of
                         None \<Rightarrow> None
                       | Some (ret, m, s) \<Rightarrow>
                           if ret \<noteq> 0 then Some (None, m, s)
                           else let m = m\<lparr>mg_bStatus := True\<rparr>
                                in case map_of (slotMap m) slot of
                                     Some nid' \<Rightarrow> (let (p, s) = getRedisClient H nid' s in Some (p, m, s))
                                   | None \<Rightarrow> (let (p, s) = getRedisClient H nid s in Some (p, m, s))))"

definition findNodeConnection :: "'h hiredis \<Rightarrow> c_int \<Rightarrow> string \<Rightarrow> cluster_mgr \<Rightarrow> 'h cstate \<Rightarrow> (nat option \<times> cluster_mgr \<times> 'h cstate) option" where
  "findNodeConnection H junk key m s =
     (if \<not> mg_bStatus m \<and> fullCoverage m \<noteq> 0 then Some (None, m, s) else getConnection H junk (cl_getKeySlotIndex key) m s)"

section \<open>The slots of the two clients\<close>

lemma cl_crc16tab: "cl_crc16tab = crc16tab"
  by (simp add: cl_crc16tab_def crc16tab_def)

lemma cl_crc16: "cl_crc16 = crc16"
proof -
  have "(\<lambda>crc c. push_bit 8 crc XOR cl_crc16tab ! unat ((drop_bit 8 crc XOR ucast (byte c)) AND 0x00FF)) = crc16_round"
    by (simp add: fun_eq_iff crc16_round_def cl_crc16tab)
  then show ?thesis by (simp add: fun_eq_iff cl_crc16_def crc16_def)
qed

lemma cl_keyHashSlot: "cl_keyHashSlot key = keyHashSlot key"
  unfolding cl_keyHashSlot_def keyHashSlot_def cl_crc16 ..

lemma keyHashSlot_empty: "keyHashSlot [] = 0"
  by (simp add: keyHashSlot_def scan_char.simps crc16_def)

lemma cl_slot: "cl_getKeySlotIndex key = getKeySlotIndex (c_str key)"
  by (simp add: cl_getKeySlotIndex_def getKeySlotIndex_def cl_keyHashSlot keyHashSlot_empty)

section \<open>The map of the slots\<close>

lemma map_of_slot_set: "map_of (slot_set pos nid sm) = (map_of sm)(pos := Some nid)"
proof -
  have "map_of (filter (\<lambda>e. fst e \<noteq> pos) sm) t = map_of sm t" if "t \<noteq> pos" for t using that by (induction sm) auto
  then show ?thesis by (auto simp: slot_set_def fun_eq_iff)
qed

lemma distinct_slot_set: "distinct (map fst sm) \<Longrightarrow> distinct (map fst (slot_set pos nid sm))"
  by (auto simp: slot_set_def distinct_map_filter)

definition give :: "(u16 \<Rightarrow> bool) \<Rightarrow> nat \<Rightarrow> (u16 \<Rightarrow> nat option) \<Rightarrow> u16 \<Rightarrow> nat option" where
  "give P nid f = (\<lambda>t. if P t then Some nid else f t)"

lemma ran_give: "ran (give P nid f) \<subseteq> insert nid (ran f)" "nid \<in> ran f \<Longrightarrow> nid \<in> ran (give P nid f)"
  by (auto simp: ran_def give_def split: if_splits)

lemma give_give:
  "give Q nid (give P nid f) = give (\<lambda>t. Q t \<or> P t) nid f"
  "(ran f - ran (give P nid f)) \<union> (ran (give P nid f) - ran (give Q nid (give P nid f))) = ran f - ran (give Q nid (give P nid f))"
proof -
  show "give Q nid (give P nid f) = give (\<lambda>t. Q t \<or> P t) nid f" by (auto simp: give_def)
  have "ran (give Q nid (give P nid f)) \<subseteq> insert nid (ran (give P nid f))" "nid \<in> ran f \<Longrightarrow> nid \<in> ran (give P nid f)"
    "ran (give P nid f) \<subseteq> insert nid (ran f)" "nid \<in> ran (give P nid f) \<Longrightarrow> nid \<in> ran (give Q nid (give P nid f))"
    using ran_give by blast+
  then show "(ran f - ran (give P nid f)) \<union> (ran (give P nid f) - ran (give Q nid (give P nid f))) = ran f - ran (give Q nid (give P nid f))" by blast
qed

text \<open>The slots in \<open>P\<close> are given to the pool; exactly the pools that lose their last slot are deleted.\<close>

definition gave :: "'h hiredis \<Rightarrow> (u16 \<Rightarrow> bool) \<Rightarrow> nat \<Rightarrow> (u16 \<times> nat) list \<times> 'h cstate \<Rightarrow> (u16 \<times> nat) list \<times> 'h cstate \<Rightarrow> bool" where
  "gave H P nid st st' \<longleftrightarrow> distinct (map fst (fst st')) \<and> map_of (fst st') = give P nid (map_of (fst st)) \<and>
     (\<exists>os. set os = ran (map_of (fst st)) - ran (map_of (fst st')) \<and> snd st' = fold (pool_delete H) os (snd st))"

lemma gave_refl: "distinct (map fst (fst st)) \<Longrightarrow> (\<And>t. \<not> P t) \<Longrightarrow> gave H P nid st st"
  by (auto simp: gave_def give_def intro: exI [of _ "[]"])

lemma gave_trans:
  assumes "gave H P nid st st'" and "gave H Q nid st' st''" and "\<And>t. R t \<longleftrightarrow> Q t \<or> P t"
  shows "gave H R nid st st''"
proof -
  obtain os os' where o: "set os = ran (map_of (fst st)) - ran (map_of (fst st'))" "snd st' = fold (pool_delete H) os (snd st)"
    "set os' = ran (map_of (fst st')) - ran (map_of (fst st''))" "snd st'' = fold (pool_delete H) os' (snd st')" using assms by (auto simp: gave_def)
  have m: "map_of (fst st') = give P nid (map_of (fst st))" "map_of (fst st'') = give Q nid (give P nid (map_of (fst st)))" using assms by (auto simp: gave_def)
  have R: "R = (\<lambda>t. Q t \<or> P t)" using assms(3) by auto
  have "set (os @ os') = ran (map_of (fst st)) - ran (map_of (fst st''))" using o(1,3) give_give(2) [of "map_of (fst st)" P nid Q] unfolding m by simp
  moreover have "snd st'' = fold (pool_delete H) (os @ os') (snd st)" using o by simp
  ultimately show ?thesis using assms(2) m give_give(1) [of Q nid P "map_of (fst st)"] by (auto simp: gave_def R simp del: set_append fold_append)
qed

lemma gave_one: "distinct (map fst sm) \<Longrightarrow> gave H (\<lambda>t. t = pos) nid (sm, s) (assign_slot H pos nid sm s)"
proof -
  assume d: "distinct (map fst sm)"
  let ?sm = "slot_set pos nid sm"
  have r: "ran (map_of ?sm) = snd ` set ?sm" by (rule ran_distinct [OF distinct_slot_set [OF d]])
  have m: "map_of ?sm = give (\<lambda>t. t = pos) nid (map_of sm)" by (auto simp: map_of_slot_set give_def)
  have lost: "ran (map_of sm) - ran (map_of ?sm) = {old. map_of sm pos = Some old \<and> old \<notin> snd ` set ?sm}"
    unfolding r [symmetric] by (auto simp: ran_def map_of_slot_set split: if_splits)
  show ?thesis
  proof (cases "\<exists>old. map_of sm pos = Some old \<and> old \<notin> snd ` set ?sm")
    case True
    then obtain old where o: "map_of sm pos = Some old" "old \<notin> snd ` set ?sm" by blast
    then have "assign_slot H pos nid sm s = (?sm, pool_delete H old s)" "set [old] = ran (map_of sm) - ran (map_of ?sm)"
      unfolding lost by (auto simp: assign_slot_def)
    then show ?thesis using distinct_slot_set [OF d] m unfolding gave_def by (metis fold_simps fst_conv snd_conv)
  next
    case False
    then have "assign_slot H pos nid sm s = (?sm, s)" by (auto simp: assign_slot_def Let_def split: option.splits)
    then show ?thesis using False distinct_slot_set [OF d] m lost by (auto simp: gave_def intro!: exI [of _ "[]"])
  qed
qed

lemma assign_slots_result:
  "slot_end \<noteq> 0xFFFF \<Longrightarrow> distinct (map fst (fst st)) \<Longrightarrow>
   \<exists>st'. assign_slots H pos slot_end nid st = Some st' \<and> gave H (\<lambda>t. pos \<le> t \<and> t \<le> slot_end) nid st st'"
proof (induction "unat slot_end + 1 - unat pos" arbitrary: pos st rule: less_induct)
  case less
  show ?case
  proof (cases "pos \<le> slot_end")
    case True
    define st1 where "st1 = assign_slot H pos nid (fst st) (snd st)"
    have g: "gave H (\<lambda>t. t = pos) nid st st1" using gave_one [OF less.prems(2), of H pos nid "snd st"] by (simp add: st1_def)
    have "unat slot_end \<noteq> 0xFFFF" using less.prems by (simp add: word_unat_eq_iff)
    moreover have "unat slot_end < 2 ^ 16" using unsigned_less [of slot_end, where ?'a = nat] by simp
    ultimately have u: "unat (pos + 1) = unat pos + 1" using True by (simp add: word_le_nat_alt unat_word_ariths)
    have lt: "unat slot_end + 1 - unat (pos + 1) < unat slot_end + 1 - unat pos" using True u by (simp add: word_le_nat_alt)
    have next_le: "pos + 1 \<le> t \<longleftrightarrow> pos \<le> t \<and> t \<noteq> pos" for t using u by (auto simp: word_le_nat_alt word_unat_eq_iff)
    have "distinct (map fst (fst st1))" using g by (simp add: gave_def)
    from less.hyps [OF lt less.prems(1) this]
    obtain st2 where st2: "assign_slots H (pos + 1) slot_end nid st1 = Some st2" "gave H (\<lambda>t. pos + 1 \<le> t \<and> t \<le> slot_end) nid st1 st2" by blast
    have "gave H (\<lambda>t. pos \<le> t \<and> t \<le> slot_end) nid st st2" by (rule gave_trans [OF g st2(2)]) (use True next_le in auto)
    then show ?thesis using True st2(1) by (subst assign_slots.simps) (simp flip: st1_def)
  next
    case False
    then have "gave H (\<lambda>t. pos \<le> t \<and> t \<le> slot_end) nid st st" using less.prems(2) by (intro gave_refl) auto
    then show ?thesis using False by (subst assign_slots.simps) simp
  qed
qed

lemma assign_ranges_result:
  "\<forall>r \<in> set rs. slotEnd r \<noteq> 0xFFFF \<Longrightarrow> distinct (map fst (fst st)) \<Longrightarrow>
   \<exists>st'. assign_ranges H rs nid st = Some st' \<and> gave H (\<lambda>t. slot_found t rs) nid st st'"
proof (induction rs arbitrary: st)
  case Nil
  then show ?case by (auto intro: gave_refl)
next
  case (Cons r rs)
  then obtain st1 where 1: "assign_slots H (slotStart r) (slotEnd r) nid st = Some st1" "gave H (\<lambda>t. slotStart r \<le> t \<and> t \<le> slotEnd r) nid st st1"
    using assign_slots_result [of "slotEnd r" st H "slotStart r" nid] by auto
  then have "distinct (map fst (fst st1))" by (simp add: gave_def)
  then obtain st2 where 2: "assign_ranges H rs nid st1 = Some st2" "gave H (\<lambda>t. slot_found t rs) nid st1 st2" using Cons.IH [of st1] Cons.prems by auto
  have "gave H (\<lambda>t. slot_found t (r # rs)) nid st st2" by (rule gave_trans [OF 1(2) 2(2)]) auto
  then show ?case using 1(1) 2(1) by simp
qed

section \<open>Reading the topology\<close>

lemma mgr_split: "mgr_split str delim = split str delim []"
  by (simp add: mgr_split_def split_def)

lemma ParseSlotString: "ParseSlotString w n = n\<lparr>ni_slots := ni_slots n @ [parse_slot w]\<rparr>"
  by (auto simp: ParseSlotString_def parse_slot_def Let_def split: option.splits)

lemma fold_ParseSlotString: "fold ParseSlotString ws n = n\<lparr>ni_slots := ni_slots n @ map parse_slot ws\<rparr>"
  by (induction ws arbitrary: n) (simp_all add: ParseSlotString)

definition desc_node :: "node_desc \<Rightarrow> NodeInfo" where
  "desc_node d = \<lparr>ni_id = d_id d, ni_ipStr = d_ip d, ni_port = d_port d, ni_slots = map (\<lambda>(a, b). \<lparr>slotStart = a, slotEnd = b\<rparr>) (d_slots d)\<rparr>"

lemma node_of_desc: "desc_ok d \<Longrightarrow> node_of_words junk (desc_words d) = desc_node d"
proof -
  assume ok: "desc_ok d"
  note n = desc_words_nth [OF ok]
  have "snd (ParseNodeString (desc_words d ! 1) x) = x\<lparr>ni_port := d_port d, ni_ipStr := d_ip d\<rparr>" for x
    using n(2) by (auto simp: analysisSvrInfo_def ParseNodeString_def desc_addr_def split: option.splits if_splits)
  then show ?thesis using n(1,5) by (simp add: node_of_words_def fold_ParseSlotString NodeInfo_new_def desc_node_def)
qed

lemma live_master_flags: "live_master f \<Longrightarrow> is_master_flags f"
  by (simp add: live_master_def is_master_flags_def)

lemma node_lines_desc:
  "list_all desc_ok ds \<Longrightarrow> node_lines junk (map (\<lambda>d. join '' '' (desc_words d)) ds) ns = (True, ns @ map desc_node (filter (\<lambda>d. live_master (d_flags d)) ds))"
proof (induction ds arbitrary: ns)
  case (Cons d ds)
  then have ok: "desc_ok d" by simp
  note n = desc_words_nth [OF ok]
  have w: "mgr_split (join '' '' (desc_words d)) '' '' = desc_words d" using desc_line(1) [OF ok] by (simp add: mgr_split line_words_def)
  have "live_master (d_flags d) \<Longrightarrow> 0 < length (d_slots d)" using ok live_master_flags by (auto simp: desc_ok_def)
  then show ?case using Cons n(3,6) w node_of_desc [OF ok] by (auto simp: Let_def)
qed simp

text \<open>A server, as far as the client asks it: it accepts connections and has the cluster described by \<open>ds\<close>.\<close>

definition answers :: "'h hiredis \<Rightarrow> string \<Rightarrow> (string \<Rightarrow> bool) \<Rightarrow> bool" where
  "answers H cmd P \<longleftrightarrow> (\<forall>x h. \<exists>t h'. h_command H x (Fmt cmd []) h = (Some (SyncReply REDIS_REPLY_STRING 0 (Some t) []), h') \<and> P t)"

definition serves :: "'h hiredis \<Rightarrow> node_desc list \<Rightarrow> bool" where
  "serves H ds \<longleftrightarrow> (\<forall>ip p t h. \<exists>x h'. h_connect H ip p t h = (Some (x, None), h')) \<and> answers H ''PING'' (\<lambda>t. t = ''PONG'') \<and>
     answers H ''INFO'' (\<lambda>t. \<exists>pre post. c_str t = pre @ ''cluster_enabled:1'' @ post \<and> CHR ''c'' \<notin> set pre) \<and>
     answers H ''CLUSTER INFO'' (\<lambda>t. \<exists>post. c_str t = ''cluster_state:ok'' @ post) \<and> answers H ''CLUSTER NODES'' (\<lambda>t. t = desc_text ds)"

lemma serves_connect:
  assumes "serves H ds" and "cc_password c = []"
  shows "\<exists>c' h'. cc_connect H c h = (True, c', h')"
proof -
  obtain c1 h1 where 1: "cc_release H c h = (c1, h1)" by force
  obtain x h2 where 2: "h_connect H (c_str (cc_ipStr c1)) (cc_port c1) (cc_timeout c1) h1 = (Some (x, None), h2)" using assms(1) by (auto simp: serves_def) metis
  obtain h3 where 3: "h_command H x (Fmt ''PING'' []) h2 = (Some (SyncReply REDIS_REPLY_STRING 0 (Some ''PONG'') []), h3)"
    using assms(1) by (auto simp: serves_def answers_def) metis
  have "cc_password c1 = []" using 1 assms(2) by (auto simp: cc_release_def split: option.splits)
  then show ?thesis using 1 2 3 by (simp add: cc_connect_def connectWithTimeout_def auth_def ping_def says_def c_str_def)
qed

lemma serves_client: "serves H ds \<Longrightarrow> cp_password n = [] \<Longrightarrow> \<exists>s'. applayNewRedisClient H nid n s = (Some (nextClient s), s')"
  using serves_connect [of H ds "cc_init (ni_ipStr (cp_info n)) (ni_port (cp_info n)) (cp_timeout n) (cp_password n) (cluster_client_new (Some nid))" "net s"]
  by (auto simp: applayNewRedisClient_def Let_def cc_init_def cluster_client_new_def)

lemma serves_init_loop: "serves H ds \<Longrightarrow> cp_password n = [] \<Longrightarrow> \<exists>n' s'. init_loop H nid k n s = (True, n', s')"
proof (induction k arbitrary: n s)
  case (Suc k)
  obtain s1 where "applayNewRedisClient H nid n s = (Some (nextClient s), s1)" using serves_client [OF Suc.prems] by blast
  then show ?case using Suc.IH [of "n\<lparr>idleList := idleList n @ [nextClient s]\<rparr>" s1] Suc.prems by simp
qed simp

section \<open>From the slots to the pools\<close>

definition sizes_ok :: "c_int \<Rightarrow> c_int \<Rightarrow> bool" where
  "sizes_ok minS maxS \<longleftrightarrow> sint (if minS <s kMinSize then kMinSize else minS) \<le> sint (if kMaxSize <s maxS then kMaxSize else maxS)"

text \<open>A pool that is idle and can be used, for one of the nodes.\<close>

definition ready :: "NodeInfo \<Rightarrow> nat \<Rightarrow> 'h cstate \<Rightarrow> bool" where
  "ready node nid s \<longleftrightarrow> nid < nextPool s \<and> (\<exists>n. pool_ok nid n [] s \<and> cp_info n = node \<and> bStatus n \<and> idleList n \<noteq> [])"

text \<open>After the nodes of the list: every slot of one of them leads to its pool, no other slot does, and no other node is known.\<close>

definition routed :: "NodeInfo list \<Rightarrow> cluster_mgr \<Rightarrow> 'h cstate \<Rightarrow> bool" where
  "routed known m s \<longleftrightarrow> distinct (map fst (slotMap m)) \<and> \<not> corrupt s \<and> (\<forall>i. nodesStatus m i \<noteq> None \<longrightarrow> i \<in> ni_id ` set known) \<and>
     (\<forall>t nid. map_of (slotMap m) t = Some nid \<longrightarrow> (\<exists>node \<in> set known. slot_found t (ni_slots node) \<and> ready node nid s)) \<and>
     (\<forall>node \<in> set known. \<forall>t. slot_found t (ni_slots node) \<longrightarrow> map_of (slotMap m) t \<noteq> None)"

definition node_fits :: "NodeInfo list \<Rightarrow> NodeInfo \<Rightarrow> bool" where
  "node_fits known node \<longleftrightarrow> ni_id node \<notin> ni_id ` set known \<and> (\<forall>r \<in> set (ni_slots node). slotEnd r \<noteq> 0xFFFF) \<and> (\<exists>t. slot_found t (ni_slots node)) \<and>
     (\<forall>old \<in> set known. \<forall>t. \<not> (slot_found t (ni_slots old) \<and> slot_found t (ni_slots node)))"

lemma pool_ok_frame:
  assumes "pool_ok nid n held s" and "pools s' nid = pools s nid" and "\<forall>p < nextClient s. cl_cells s' p = cl_cells s p" and "nextClient s \<le> nextClient s'" and "\<not> corrupt s'"
  shows "pool_ok nid n held s'"
proof -
  have "cl_cells s' p = cl_cells s p" "p < nextClient s'" if "p \<in> set (idleList n) \<or> p \<in> set (useMap n)" for p
    using pool_ok_cell(1) [OF assms(1) that] assms(3,4) by auto
  then show ?thesis using assms(1,2,5) pool_ok_cell(2) [OF assms(1)] unfolding pool_ok_def by (metis Un_iff set_append)
qed

lemma serves_pool:
  assumes H: "serves H ds" and sz: "sizes_ok minS maxS" and s: "\<not> corrupt s"
  shows "\<exists>n s'. pool_init H nid info minS maxS timeout [] (cluster_pool_new junk) s = (True, n, s') \<and> pool_ok nid n [] (set_pool nid n s') \<and> cp_info n = info \<and>
    bStatus n \<and> idleList n \<noteq> [] \<and> pools s' = pools s \<and> nextPool s' = nextPool s \<and> nextClient s \<le> nextClient s' \<and> (\<forall>p < nextClient s. cl_cells s' p = cl_cells s p) \<and> \<not> corrupt s'"
proof -
  define m where "m = (cluster_pool_new junk)\<lparr>cp_info := info, cp_minSize := (if minS <s kMinSize then kMinSize else minS),
      cp_maxSize := (if kMaxSize <s maxS then kMaxSize else maxS), cp_timeout := timeout, cp_password := []\<rparr>"
  have m: "useMap m = []" "idleList m = []" "cp_password m = []" by (simp_all add: m_def cluster_pool_new_def)
  obtain n s' where run: "init_loop H nid (nat (sint (cp_minSize m))) m s = (True, n, s')" using serves_init_loop [OF H m(3)] by blast
  have i: "pool_init H nid info minS maxS timeout [] (cluster_pool_new junk) s = (True, n, s')"
    using run sz unfolding pool_init_def Let_def m_def [symmetric] by (auto simp: m_def sizes_ok_def word_sless_alt)
  from init_loop_ok [OF run m(1)] m(2) s have keep: "pools s' = pools s" "nextClient s \<le> nextClient s'" "\<forall>p < nextClient s. cl_cells s' p = cl_cells s p" "\<not> corrupt s'"
    by auto
  have np: "nextPool s' = nextPool s" using init_loop_next [OF run] by simp
  have "pool_inv nid info (cp_maxSize n) (set_pool nid n s', [])" "idleList n \<noteq> []" "bStatus n" using pool_init_inv [OF i s] by auto
  then show ?thesis using i keep np by (fastforce simp: pool_inv_def pool_ok_def set_pool_def)
qed

lemma connect_node_routed:
  assumes H: "serves H ds" and r: "routed known m s" and fit: "node_fits known node" and pw: "mg_password m = []"
    and sz: "sizes_ok (mg_minSize m) (mg_maxSize m)"
  shows "\<exists>sm ns s'. connectClusterNode H junk node m s = Some (True, m\<lparr>slotMap := sm, nodesStatus := ns\<rparr>, s') \<and> routed (known @ [node]) (m\<lparr>slotMap := sm, nodesStatus := ns\<rparr>) s'"
proof -
  have new: "nodesStatus m (ni_id node) = None" using r fit by (auto simp: routed_def node_fits_def)
  let ?nid = "nextPool s"
  have "\<not> corrupt (s\<lparr>nextPool := ?nid + 1\<rparr>)" using r by (simp add: routed_def)
  from serves_pool [OF H sz this, of ?nid node "mg_timeout m" junk]
  obtain n s1 where p: "pool_init H ?nid node (mg_minSize m) (mg_maxSize m) (mg_timeout m) [] (cluster_pool_new junk) (s\<lparr>nextPool := ?nid + 1\<rparr>) = (True, n, s1)"
    "pool_ok ?nid n [] (set_pool ?nid n s1)" "cp_info n = node" "bStatus n" "idleList n \<noteq> []" "pools s1 = pools s" "nextPool s1 = ?nid + 1"
    "nextClient s \<le> nextClient s1" "\<forall>p < nextClient s. cl_cells s1 p = cl_cells s p" "\<not> corrupt s1" by auto
  let ?s = "set_pool ?nid n s1"
  have d: "distinct (map fst (fst (slotMap m, ?s)))" using r by (simp add: routed_def)
  have e: "\<forall>r \<in> set (ni_slots node). slotEnd r \<noteq> 0xFFFF" using fit by (simp add: node_fits_def)
  obtain sm s2 where a: "assign_ranges H (ni_slots node) ?nid (slotMap m, ?s) = Some (sm, s2)" "gave H (\<lambda>t. slot_found t (ni_slots node)) ?nid (slotMap m, ?s) (sm, s2)"
    using assign_ranges_result [OF e d, of H ?nid] by force
  have free: "map_of (slotMap m) t = None" if "slot_found t (ni_slots node)" for t
    using r fit that unfolding routed_def node_fits_def by (metis not_Some_eq)
  then have "ran (map_of (slotMap m)) - ran (map_of sm) = {}" using a(2) by (auto simp: gave_def give_def ran_def) (metis option.distinct(1))
  moreover obtain os where "set os = ran (map_of (slotMap m)) - ran (map_of sm)" "s2 = fold (pool_delete H) os ?s" using a(2) by (auto simp: gave_def)
  ultimately have "set os = {}" "s2 = fold (pool_delete H) os ?s" by simp_all
  then have s2: "s2 = ?s" by simp
  have sm: "map_of sm = give (\<lambda>t. slot_found t (ni_slots node)) ?nid (map_of (slotMap m))" "distinct (map fst sm)" using a(2) by (auto simp: gave_def)
  have "?nid \<in> ran (map_of sm)" using fit unfolding sm(1) by (auto simp: node_fits_def ran_def give_def)
  then have ref: "?nid \<in> snd ` set sm" using ran_distinct [OF sm(2)] by simp
  let ?ns = "(nodesStatus m)(ni_id node := Some True)"
  have run: "connectClusterNode H junk node m s = Some (True, m\<lparr>slotMap := sm, nodesStatus := ?ns\<rparr>, ?s)"
    using new p(1) pw a(1) s2 ref by (simp add: connectClusterNode_def)
  have old: "ready x i ?s" if rd: "ready x i s" for x i
  proof -
    obtain k where k: "pool_ok i k [] s" "cp_info k = x" "bStatus k" "idleList k \<noteq> []" "i < ?nid" using rd by (auto simp: ready_def)
    have "pool_ok i k [] ?s" by (rule pool_ok_frame [OF k(1)]) (use p(6-10) k(5) in \<open>simp_all add: set_pool_def\<close>)
    then show ?thesis using k p(7) by (auto simp: ready_def set_pool_def)
  qed
  have own: "ready node ?nid ?s" using p(2-5,7) by (auto simp: ready_def set_pool_def)
  have "routed (known @ [node]) (m\<lparr>slotMap := sm, nodesStatus := ?ns\<rparr>) ?s"
    using r old own sm(2) p(10) unfolding routed_def by (auto simp: sm(1) give_def set_pool_def split: if_splits) blast
  then show ?thesis using run by blast
qed

lemma connect_nodes_routed:
  assumes "serves H ds" and "routed known m s" and "\<forall>i < length nodes. node_fits (known @ take i nodes) (nodes ! i)" and "mg_password m = []"
    and "sizes_ok (mg_minSize m) (mg_maxSize m)"
  shows "\<exists>sm ns s'. connect_nodes H junk nodes m s = Some (True, m\<lparr>slotMap := sm, nodesStatus := ns\<rparr>, s') \<and> routed (known @ nodes) (m\<lparr>slotMap := sm, nodesStatus := ns\<rparr>) s'"
  using assms
proof (induction nodes arbitrary: known m s)
  case Nil
  then show ?case by (auto intro!: exI [of _ "slotMap m"] exI [of _ "nodesStatus m"])
next
  case (Cons node nodes)
  have "node_fits known node" using Cons.prems(3) by (auto dest: spec [of _ 0])
  then obtain sm ns s1 where 1: "connectClusterNode H junk node m s = Some (True, m\<lparr>slotMap := sm, nodesStatus := ns\<rparr>, s1)"
    "routed (known @ [node]) (m\<lparr>slotMap := sm, nodesStatus := ns\<rparr>) s1" using connect_node_routed [OF Cons.prems(1,2) _ Cons.prems(4,5)] by blast
  have "\<forall>i < length nodes. node_fits ((known @ [node]) @ take i nodes) (nodes ! i)" using Cons.prems(3) by (auto dest: spec [of _ "Suc _"])
  from Cons.IH [OF Cons.prems(1) 1(2) this] Cons.prems(4,5) 1(1) show ?case by auto
qed

lemma routed_net: "routed known m (s\<lparr>net := h\<rparr>) = routed known m s"
  by (simp add: routed_def ready_def pool_ok_def)

lemma answer_enabled: "serves H ds \<Longrightarrow> \<exists>h'. clusterEnabled H x h = (True, h')"
proof -
  assume "serves H ds"
  then obtain t h' pre post where t: "h_command H x (Fmt ''INFO'' []) h = (Some (SyncReply REDIS_REPLY_STRING 0 (Some t) []), h')"
    "c_str t = pre @ ''cluster_enabled:'' @ CHR ''1'' # post" "CHR ''c'' \<notin> set pre" by (auto simp: serves_def answers_def) metis
  have "find_sub (c_str t) ''cluster_enabled:'' = Some (''cluster_enabled:'' @ CHR ''1'' # post)" unfolding t(2) using t(3) by (intro find_sub_append) auto
  then show ?thesis using t(1) by (simp add: clusterEnabled_def)
qed

lemma answer_info: "serves H ds \<Longrightarrow> \<exists>h'. clusterInfo H x h = (Some True, h')"
proof -
  assume "serves H ds"
  then obtain t h' post where t: "h_command H x (Fmt ''CLUSTER INFO'' []) h = (Some (SyncReply REDIS_REPLY_STRING 0 (Some t) []), h')"
    "c_str t = ''cluster_state'' @ '':'' @ ''ok'' @ post" by (auto simp: serves_def answers_def) metis
  have "find_sub (c_str t) '':'' = Some ('':'' @ ''ok'' @ post)" unfolding t(2) by (rule find_sub_append) auto
  then show ?thesis using t(1) by (simp add: clusterInfo_def)
qed

lemma answer_nodes:
  assumes "serves H ds" and "list_all desc_ok ds" and "NUL \<notin> set (desc_text ds)"
  shows "\<exists>h'. getClusterNodesInfo H junk x m h = (True, m\<lparr>mg_nodes := map desc_node (filter (\<lambda>d. live_master (d_flags d)) ds)\<rparr>, h')"
proof -
  obtain h' where t: "h_command H x (Fmt ''CLUSTER NODES'' []) h = (Some (SyncReply REDIS_REPLY_STRING 0 (Some (desc_text ds)) []), h')"
    using assms(1) by (auto simp: serves_def answers_def) metis
  have "mgr_split (c_str (desc_text ds)) [LF] = map (\<lambda>d. join '' '' (desc_words d)) ds" using desc_text_lines(1) [OF assms(2)] assms(3) by (simp add: mgr_split c_str_clean)
  then show ?thesis using t node_lines_desc [OF assms(2), of junk "[]"] by (simp add: getClusterNodesInfo_def)
qed

lemma mgr_init_routed:
  assumes H: "serves H ds" and ds: "list_all desc_ok ds" "NUL \<notin> set (desc_text ds)" and nodes: "nodes = map desc_node (filter (\<lambda>d. live_master (d_flags d)) ds)"
    and fits: "\<forall>i < length nodes. node_fits (take i nodes) (nodes ! i)" and s: "\<not> corrupt s"
    and sz: "sizes_ok minS maxS"
  shows "\<exists>m s'. mgr_init H junk ip p minS maxS timeout [] full (cluster_mgr_new full0) s = Some (0, m, s') \<and> routed nodes m s' \<and> mg_bStatus m"
proof -
  define m0 where "m0 = (cluster_mgr_new full0)\<lparr>mg_ipStr := ip, mg_port := p, mg_minSize := minS, mg_maxSize := maxS, mg_timeout := timeout, mg_password := [], fullCoverage := full, mg_nodes := nodes\<rparr>"
  obtain c h where c: "cc_connect H (cc_init ip p timeout [] (cluster_client_new None)) (net s) = (True, c, h)"
    using serves_connect [OF H, of "cc_init ip p timeout [] (cluster_client_new None)" "net s"] by (auto simp: cc_init_def)
  obtain x where x: "redis_ctx c = Some x" using connect_keeps [OF c] by auto
  obtain h1 where 1: "clusterEnabled H x h = (True, h1)" using answer_enabled [OF H] by blast
  obtain h2 where 2: "clusterInfo H x h1 = (Some True, h2)" using answer_info [OF H] by blast
  obtain h3 where 3: "getClusterNodesInfo H junk x (m0\<lparr>mg_nodes := []\<rparr>) h2 = (True, m0, h3)" using answer_nodes [OF H ds, of junk x "m0\<lparr>mg_nodes := []\<rparr>" h2] nodes by (auto simp: m0_def)
  have "routed [] m0 (s\<lparr>net := h3\<rparr>)" using s by (simp add: routed_def m0_def cluster_mgr_new_def)
  from connect_nodes_routed [OF H this, of nodes junk] fits sz
  obtain sm ns s' where r: "connect_nodes H junk nodes m0 (s\<lparr>net := h3\<rparr>) = Some (True, m0\<lparr>slotMap := sm, nodesStatus := ns\<rparr>, s')" "routed nodes (m0\<lparr>slotMap := sm, nodesStatus := ns\<rparr>) s'"
    by (auto simp: m0_def)
  have n: "mg_nodes m0 = nodes" "(cluster_mgr_new full0)\<lparr>mg_ipStr := ip, mg_port := p, mg_minSize := minS, mg_maxSize := maxS, mg_timeout := timeout, mg_password := [], fullCoverage := full\<rparr> = m0\<lparr>mg_nodes := []\<rparr>"
    by (simp_all add: m0_def cluster_mgr_new_def)
  have "mgr_init H junk ip p minS maxS timeout [] full (cluster_mgr_new full0) s = Some (0, m0\<lparr>slotMap := sm, nodesStatus := ns\<rparr>, s'\<lparr>net := snd (cc_release H c (net s'))\<rparr>)"
    unfolding mgr_init_def n(2) using c x 1 2 3 r(1) n(1) by (simp add: load_cluster_def)
  then show ?thesis using r(2) by (auto simp: routed_net m0_def cluster_mgr_new_def)
qed

lemma routed_connection:
  assumes r: "routed nodes m s" and t: "node \<in> set nodes" "slot_found t (ni_slots node)" and b: "mg_bStatus m"
    and u: "\<And>x y. x \<in> set nodes \<Longrightarrow> y \<in> set nodes \<Longrightarrow> slot_found t (ni_slots x) \<Longrightarrow> slot_found t (ni_slots y) \<Longrightarrow> x = y"
  shows "\<exists>p s' c. getConnection H junk t m s = Some (Some p, m, s') \<and> cl_cells s' p = Some c \<and> connStatus c \<and> cc_ipStr c = ni_ipStr node \<and> cc_port c = ni_port node"
proof -
  obtain nid where n: "map_of (slotMap m) t = Some nid" using r t by (fastforce simp: routed_def)
  then obtain x where "x \<in> set nodes" "slot_found t (ni_slots x)" "ready x nid s" using r unfolding routed_def by blast
  then have rd: "ready node nid s" using u t by blast
  then obtain k where k: "pool_ok nid k [] s" "cp_info k = node" "bStatus k" "idleList k \<noteq> []" by (auto simp: ready_def)
  obtain q s' where g: "getRedisClient H nid s = (q, s')" by force
  have pk: "pools s nid = Some k" using k(1) by (simp add: pool_ok_def)
  obtain p where "q = Some p" using g pk k(4) by (cases "idleList k") (auto simp: getRedisClient_def)
  then show ?thesis using pool_ok_get [OF k(1) g] n pk k(2,3) g by (auto simp: getConnection_def owned_def)
qed

section \<open>Deleting a pool\<close>

lemma pool_init_pools:
  assumes "pool_init H nid info minS maxS timeout pw n0 s = (b, n, s')"
  shows "pools s' = pools s"
proof -
  define m where "m = n0\<lparr>cp_info := info, cp_minSize := (if minS <s kMinSize then kMinSize else minS),
      cp_maxSize := (if kMaxSize <s maxS then kMaxSize else maxS), cp_timeout := timeout, cp_password := pw\<rparr>"
  have "s' = s \<or> init_loop H nid (nat (sint (cp_minSize m))) m s = (b, n, s')"
    using assms unfolding pool_init_def Let_def m_def [symmetric] by (auto split: if_splits)
  then show ?thesis using init_loop_next by blast
qed

lemma with_client_gone: "cl_cells s q = None \<Longrightarrow> cl_cells (with_client p f s) q = None"
  by (auto simp: with_client_def split: option.splits prod.splits)

lemma delete_client_gone: "cl_cells s q = None \<or> q = p \<Longrightarrow> cl_cells (delete_client H p s) q = None"
  by (auto simp: delete_client_def Let_def with_client_gone)

lemma delete_client_pools: "pools (delete_client H p s) = pools s"
  by (auto simp: delete_client_def Let_def with_client_def split: option.splits prod.splits)

lemma fold_delete_gone: "cl_cells s q = None \<or> q \<in> set ps \<Longrightarrow> cl_cells (fold (delete_client H) ps s) q = None"
  by (induction ps arbitrary: s) (auto simp: delete_client_gone)

lemma fold_delete_pools: "pools (fold (delete_client H) ps s) = pools s"
  by (induction ps arbitrary: s) (auto simp: delete_client_pools)

lemma pool_delete_pools: "pools (pool_delete H nid s) = (pools s)(nid := None)"
  by (auto simp: pool_delete_def pool_stop_def Let_def set_pool_def fold_delete_pools split: option.splits)

lemma pool_delete_gone:
  "cl_cells s q = None \<or> (\<exists>n. pools s nid = Some n \<and> q \<in> set (useMap n)) \<Longrightarrow> cl_cells (pool_delete H nid s) q = None"
  by (auto simp: pool_delete_def pool_stop_def Let_def set_pool_def fold_delete_gone split: option.splits)

lemma fold_pool_delete_gone:
  "cl_cells s q = None \<or> nid \<in> set os \<and> (\<exists>n. pools s nid = Some n \<and> q \<in> set (useMap n)) \<Longrightarrow> cl_cells (fold (pool_delete H) os s) q = None"
proof (induction os arbitrary: s)
  case (Cons x os)
  show ?case
  proof (cases "cl_cells s q = None \<or> x = nid")
    case True
    then have "cl_cells (pool_delete H x s) q = None" using Cons.prems by (intro pool_delete_gone) auto
    then show ?thesis using Cons.IH [of "pool_delete H x s"] by simp
  next
    case False
    then show ?thesis using Cons.prems Cons.IH [of "pool_delete H x s"] by (auto simp: pool_delete_pools)
  qed
qed simp

section \<open>What the manager remembers\<close>

lemma connectClusterNode_brokers: "connectClusterNode H junk node m s = Some (b, m', s') \<Longrightarrow> brokers m' = brokers m"
  by (auto simp: connectClusterNode_def Let_def split: if_splits prod.splits option.splits)

lemma connect_nodes_brokers: "connect_nodes H junk ns m s = Some (b, m', s') \<Longrightarrow> brokers m' = brokers m"
  by (induction ns arbitrary: m s) (auto split: option.splits prod.splits if_splits dest: connectClusterNode_brokers)

lemma load_cluster_brokers: "load_cluster H junk c m s = Some (r, m', s') \<Longrightarrow> brokers m' = brokers m"
  by (auto simp: load_cluster_def Let_def getClusterNodesInfo_def split: option.splits prod.splits if_splits bool.splits dest!: connect_nodes_brokers)

lemma mgr_init_brokers: "mgr_init H junk ip p minS maxS timeout pw full m s = Some (r, m', s') \<Longrightarrow> brokers m' = brokers m"
  by (auto simp: mgr_init_def Let_def split: prod.splits if_splits dest!: load_cluster_brokers)

section \<open>Properties\<close>

definition has_slot :: "u16 \<Rightarrow> node_desc \<Rightarrow> bool" where
  "has_slot t d \<longleftrightarrow> (\<exists>(a, b) \<in> set (d_slots d). a \<le> t \<and> t \<le> b)"

lemma slot_found_iff: "slot_found t rs \<longleftrightarrow> (\<exists>r \<in> set rs. slotStart r \<le> t \<and> t \<le> slotEnd r)"
  by (induction rs) auto

lemma has_slot_node: "slot_found t (ni_slots (desc_node d)) \<longleftrightarrow> has_slot t d"
  by (force simp: slot_found_iff has_slot_def desc_node_def)

lemma masters_fit:
  assumes "distinct (map d_id ds)" and "\<forall>d \<in> set ds. desc_ends d \<and> (\<exists>t. has_slot t d)"
    and "\<forall>d \<in> set ds. \<forall>e \<in> set ds. \<forall>t. has_slot t d \<and> has_slot t e \<longrightarrow> d = e" and "i < length ds"
  shows "node_fits (take i (map desc_node ds)) (map desc_node ds ! i)"
proof -
  have d: "ds ! i \<in> set ds" using assms(4) by simp
  have n: "d_id x \<noteq> d_id (ds ! i)" if x: "x \<in> set (take i ds)" for x
  proof -
    obtain j where j: "j < i" "x = ds ! j" using x assms(4) by (auto simp: in_set_conv_nth)
    then show ?thesis using assms(1,4) nth_eq_iff_index_eq [OF assms(1), of j i] by auto
  qed
  have "slotEnd r \<noteq> 0xFFFF" if "r \<in> set (ni_slots (desc_node (ds ! i)))" for r using assms(2) d that by (force simp: desc_ends_def desc_node_def list_all_iff)
  moreover have "\<not> (has_slot t x \<and> has_slot t (ds ! i))" if "x \<in> set (take i ds)" for x t using assms(3) d n [OF that] in_set_takeD [OF that] by metis
  moreover have "ni_id (desc_node (ds ! i)) \<notin> ni_id ` set (take i (map desc_node ds))" using n by (force simp: take_map desc_node_def)
  ultimately show ?thesis using assms(2,4) d by (auto simp: node_fits_def take_map has_slot_node)
qed


text \<open>A server of one context at a time that knows a cluster.\<close>

definition cluster_server :: "node_desc list \<Rightarrow> nat hiredis" where
  "cluster_server ds = \<lparr>h_connect = (\<lambda>ip p t k. (Some (k, None), k + 1)),
     h_command = (\<lambda>x r k. (case r of
        Argv _ \<Rightarrow> None
      | Fmt f _ \<Rightarrow> Some (SyncReply REDIS_REPLY_STRING 0 (Some
          (if f = ''PING'' then ''PONG'' else if f = ''INFO'' then ''cluster_enabled:1'' else if f = ''CLUSTER INFO'' then ''cluster_state:ok'' else desc_text ds)) []), k)),
     h_free = (\<lambda>x k. k)\<rparr>"

lemma cluster_server_serves: "serves (cluster_server ds) ds"
proof -
  have "c_str ''cluster_enabled:1'' = [] @ ''cluster_enabled:1'' @ []" "c_str ''cluster_state:ok'' = ''cluster_state:ok'' @ []" by (simp_all add: c_str_def)
  then show ?thesis by (force simp: serves_def answers_def cluster_server_def)
qed

abbreviation live_two :: "node_desc list" where "live_two \<equiv> filter (\<lambda>d. live_master (d_flags d)) two_masters"

lemma live_two: "live_two = [two_masters ! 0, two_masters ! 2]"
  by (simp add: two_masters_def live_master_def c_str_def)

lemma two_masters_slots:
  "has_slot t (two_masters ! 0) \<longleftrightarrow> 8192 \<le> t \<and> t \<le> 16383" "has_slot t (two_masters ! 2) \<longleftrightarrow> t \<le> 99 \<or> t = 100 \<or> 101 \<le> t \<and> t \<le> 8191"
  by (auto simp: has_slot_def two_masters_def)

lemma two_masters_clean: "NUL \<notin> set (desc_text two_masters)"
proof -
  have "NUL \<notin> set (show_int i)" for i using show_int_clean [of i] by auto
  then show ?thesis by (simp add: desc_text_def desc_words_def two_masters_def show_slots_def sprintf_d_def show_nat_plain(3))
qed

lemma live_two_ok:
  "distinct (map d_id live_two)" "\<forall>d \<in> set live_two. desc_ends d \<and> (\<exists>t. has_slot t d)"
  "\<forall>d \<in> set live_two. \<forall>e \<in> set live_two. \<forall>t. has_slot t d \<and> has_slot t e \<longrightarrow> d = e"
proof -
  have dis: "\<not> (has_slot t (two_masters ! 0) \<and> has_slot t (two_masters ! 2))" for t unfolding two_masters_slots by (auto simp: word_le_nat_alt)
  have ex: "has_slot 8192 (two_masters ! 0)" "has_slot 0 (two_masters ! 2)" unfolding two_masters_slots by simp_all
  have ends: "\<forall>d \<in> set live_two. desc_ends d" unfolding live_two by (simp add: two_masters_def desc_ends_def)
  show "distinct (map d_id live_two)" unfolding live_two by (simp add: two_masters_def)
  show "\<forall>d \<in> set live_two. desc_ends d \<and> (\<exists>t. has_slot t d)" using ends ex by (auto simp: live_two)
  show "\<forall>d \<in> set live_two. \<forall>e \<in> set live_two. \<forall>t. has_slot t d \<and> has_slot t e \<longrightarrow> d = e" using dis unfolding live_two by auto
qed

lemma sizes_1_4: "sizes_ok 1 4" by (simp add: sizes_ok_def word_sless_alt)

lemma no_objects_ok: "\<not> corrupt (no_objects h)" by (simp add: no_objects_def)


text \<open>C30: The two Redis clients of the repository agree: for every key without a NUL, \<open>RedisClusterMgr::getKeySlotIndex\<close> gives the slot
  that \<open>getKeySlotIndex\<close> of the asynchronous client gives, by tables and loops of their own.\<close>

theorem clients_agree_on_slots: "cl_getKeySlotIndex key = getKeySlotIndex (c_str key) \<and> (NUL \<notin> set key \<longrightarrow> cl_getKeySlotIndex key = getKeySlotIndex key)"
  by (simp add: cl_slot c_str_clean)

theorem clients_agree_on_slots_witness: "cl_getKeySlotIndex ''a{user1}b'' = getKeySlotIndex ''a{user1}b''"
proof -
  have "NUL \<notin> set ''a{user1}b''" by simp
  then show ?thesis using clients_agree_on_slots [of "''a{user1}b''"] by blast
qed

text \<open>C40: Connecting a new master deletes connections that are in use. When the topology is read again and a master that was not
  known (the promoted slave of a master that is still connected) has all slots of a pool, the pool is deleted with the connections
  that other threads hold at this moment, and when one of them is given back the code works on memory that was deleted.\<close>

theorem new_master_deletes_used_connections:
  assumes run: "connectClusterNode H junk node m s = Some (True, m', s')" and new: "nodesStatus m (ni_id node) \<noteq> Some True"
    and old: "pools s nid = Some n" "p \<in> set (useMap n)" "nid < nextPool s" "map_of (slotMap m) t = Some nid"
    and slots: "distinct (map fst (slotMap m))" "\<forall>r \<in> set (ni_slots node). slotEnd r \<noteq> 0xFFFF" "\<forall>t. map_of (slotMap m) t = Some nid \<longrightarrow> slot_found t (ni_slots node)"
  shows "cl_cells s' p = None \<and> corrupt (recycle H p s')"
proof -
  let ?k = "nextPool s"
  obtain b k s1 where i: "pool_init H ?k node (mg_minSize m) (mg_maxSize m) (mg_timeout m) (mg_password m) (cluster_pool_new junk) (s\<lparr>nextPool := ?k + 1\<rparr>) = (b, k, s1)"
    by (metis prod_cases3)
  have p1: "pools s1 = pools s" using pool_init_pools [OF i] by simp
  let ?s = "set_pool ?k k s1"
  have b: b using run new i by (auto simp: connectClusterNode_def Let_def split: if_splits)
  have d: "distinct (map fst (fst (slotMap m, ?s)))" using slots(1) by simp
  obtain sm s2 where a: "assign_ranges H (ni_slots node) ?k (slotMap m, ?s) = Some (sm, s2)" "gave H (\<lambda>t. slot_found t (ni_slots node)) ?k (slotMap m, ?s) (sm, s2)"
    using assign_ranges_result [OF slots(2) d, of H ?k] by force
  then obtain os where os: "set os = ran (map_of (slotMap m)) - ran (map_of sm)" "s2 = fold (pool_delete H) os ?s" "map_of sm = give (\<lambda>t. slot_found t (ni_slots node)) ?k (map_of (slotMap m))"
    by (auto simp: gave_def)
  have "nid \<in> set os" using slots(3) old(3,4) unfolding os(1,3) by (auto simp: ran_def give_def)
  moreover have "pools ?s nid = Some n" using old(1,3) p1 by (simp add: set_pool_def)
  ultimately have gone: "cl_cells s2 p = None" unfolding os(2) using old(2) by (intro fold_pool_delete_gone [of _ _ nid]) blast
  have "s' = (if ?k \<in> snd ` set sm then s2 else pool_delete H ?k s2)" using run new i b a(1) by (auto simp: connectClusterNode_def Let_def split: if_splits)
  then have "cl_cells s' p = None" using gone pool_delete_gone by auto
  then show ?thesis by (simp add: recycle_def)
qed

text \<open>A client that was started with \<open>init\<close>, from one address, never recovers: the reconnect asks the list of addresses, which only
  \<open>init2\<close> fills. Once the pool for a slot has the status of a failure, every request for a key of this slot gets no connection and
  leaves the pools as they are.\<close>

theorem single_address_never_reconnects:
  assumes "mgr_init H junk ip q minS maxS timeout pw full (cluster_mgr_new full0) s0 = Some (0, m0, s1)" and "brokers m = brokers m0"
    and "map_of (slotMap m) t = Some nid" and "pools s nid = Some n" and "\<not> bStatus n"
  shows "\<exists>m'. getConnection H junk t m s = Some (None, m', s) \<and> brokers m' = brokers m0 \<and> slotMap m' = slotMap m"
proof -
  have "brokers m = []" using mgr_init_brokers [OF assms(1)] assms(2) by (simp add: cluster_mgr_new_def)
  then show ?thesis using assms(2-5) by (simp add: getConnection_def mgr_init2_def mgr_split_def)
qed

lemma two_masters_init:
  "\<exists>m s'. mgr_init (cluster_server two_masters) 0 ''10.0.0.9'' 7000 1 4 3 [] 0 (cluster_mgr_new 0) (no_objects 0) = Some (0, m, s') \<and> routed (map desc_node live_two) m s'"
proof -
  have "\<forall>i < length (map desc_node live_two). node_fits (take i (map desc_node live_two)) (map desc_node live_two ! i)" using masters_fit [OF live_two_ok] by simp
  from mgr_init_routed [OF cluster_server_serves two_masters_ok two_masters_clean refl this no_objects_ok sizes_1_4] show ?thesis by blast
qed

theorem single_address_never_reconnects_witness:
  "\<exists>m0 s1 nid n m'. mgr_init (cluster_server two_masters) 0 ''10.0.0.9'' 7000 1 4 3 [] 0 (cluster_mgr_new 0) (no_objects 0) = Some (0, m0, s1) \<and>
    getConnection (cluster_server two_masters) 0 0 m0 (set_pool nid (n\<lparr>bStatus := False\<rparr>) s1) = Some (None, m', set_pool nid (n\<lparr>bStatus := False\<rparr>) s1)"
proof -
  obtain m0 s1 where m: "mgr_init (cluster_server two_masters) 0 ''10.0.0.9'' 7000 1 4 3 [] 0 (cluster_mgr_new 0) (no_objects 0) = Some (0, m0, s1)" "routed (map desc_node live_two) m0 s1"
    using two_masters_init by blast
  have "slot_found 0 (ni_slots (desc_node (two_masters ! 2)))" "desc_node (two_masters ! 2) \<in> set (map desc_node live_two)"
    unfolding has_slot_node two_masters_slots live_two by simp_all
  then obtain nid where n: "map_of (slotMap m0) 0 = Some nid" using m(2) unfolding routed_def by fastforce
  obtain n where "pools (set_pool nid (n\<lparr>bStatus := False\<rparr>) s1) nid = Some (n\<lparr>bStatus := False\<rparr>)" by (simp add: set_pool_def)
  then obtain m' where "getConnection (cluster_server two_masters) 0 0 m0 (set_pool nid (n\<lparr>bStatus := False\<rparr>) s1) = Some (None, m', set_pool nid (n\<lparr>bStatus := False\<rparr>) s1)"
    using single_address_never_reconnects [OF m(1) refl n, of "set_pool nid (n\<lparr>bStatus := False\<rparr>) s1" "n\<lparr>bStatus := False\<rparr>"] by auto
  then show ?thesis using m(1) by blast
qed

definition old_pool :: cluster_pool where
  "old_pool = (cluster_pool_new 0)\<lparr>cp_info := example_info, useMap := [0]\<rparr>"

definition one_in_use :: "nat cstate" where
  "one_in_use = \<lparr>cl_cells = (\<lambda>_. None)(0 := Some ((cluster_client_new (Some 0))\<lparr>connStatus := True, redis_ctx := Some 0\<rparr>)), nextClient = 1,
     pools = (\<lambda>_. None)(0 := Some old_pool), nextPool = 1, net = 1, corrupt = False\<rparr>"

definition one_slot :: cluster_mgr where
  "one_slot = (cluster_mgr_new 0)\<lparr>slotMap := [(5, 0)]\<rparr>"

definition promoted :: NodeInfo where
  "promoted = \<lparr>ni_id = ''af80'', ni_ipStr = ''10.0.0.2'', ni_port = 6791, ni_slots = [\<lparr>slotStart = 0, slotEnd = 9\<rparr>]\<rparr>"

theorem new_master_deletes_used_connections_witness:
  "\<exists>m' s'. connectClusterNode (cluster_server []) 0 promoted one_slot one_in_use = Some (True, m', s') \<and> cl_cells s' 0 = None \<and> corrupt (recycle (cluster_server []) 0 s')"
proof -
  let ?H = "cluster_server []"
  have "sizes_ok (mg_minSize one_slot) (mg_maxSize one_slot)" by (simp add: one_slot_def cluster_mgr_new_def sizes_ok_def word_sless_alt)
  moreover have "\<not> corrupt (one_in_use\<lparr>nextPool := 2\<rparr>)" by (simp add: one_in_use_def)
  ultimately obtain n s1 where i: "pool_init ?H 1 promoted (mg_minSize one_slot) (mg_maxSize one_slot) (mg_timeout one_slot) [] (cluster_pool_new 0) (one_in_use\<lparr>nextPool := 2\<rparr>) = (True, n, s1)"
    using serves_pool [OF cluster_server_serves] by blast
  have e: "\<forall>r \<in> set (ni_slots promoted). slotEnd r \<noteq> 0xFFFF" "distinct (map fst (slotMap one_slot))" "mg_password one_slot = []" "nextPool one_in_use = 1" "nodesStatus one_slot = (\<lambda>_. None)"
    by (simp_all add: promoted_def one_slot_def cluster_mgr_new_def one_in_use_def)
  obtain sm s2 where "assign_ranges ?H (ni_slots promoted) 1 (slotMap one_slot, set_pool 1 n s1) = Some (sm, s2)"
    using assign_ranges_result [OF e(1), of "(slotMap one_slot, set_pool 1 n s1)" ?H 1] e(2) by force
  then obtain m' s' where run: "connectClusterNode ?H 0 promoted one_slot one_in_use = Some (True, m', s')" using i e(3-5) by (simp add: connectClusterNode_def numeral_2_eq_2)
  have o: "pools one_in_use 0 = Some old_pool" "0 \<in> set (useMap old_pool)" "0 < nextPool one_in_use" "map_of (slotMap one_slot) 5 = Some 0" "nodesStatus one_slot (ni_id promoted) \<noteq> Some True"
    "\<forall>t. map_of (slotMap one_slot) t = Some 0 \<longrightarrow> slot_found t (ni_slots promoted)"
    by (auto simp: one_in_use_def old_pool_def one_slot_def cluster_mgr_new_def promoted_def split: if_splits)
  from new_master_deletes_used_connections [OF run o(5,1-4) e(2,1) o(6)] run show ?thesis by blast
qed

end
