(* ===== verification/DirUtil.thy ===== *)
theory DirUtil
  imports FileOwner
begin

text \<open>
  Directories, \<^verbatim>\<open>src/common/DirUtil.cpp\<close>, on the file system of \<^verbatim>\<open>FileSys\<close>. The message texts in \<open>lastError_\<close> are left
  out. What a call does wrong is a value: reading or writing past the end of a buffer, a \<open>std::out_of_range\<close> that is thrown, a null
  pointer.
\<close>

datatype c_fault = Overrun | Out_of_range | Null_pointer

section \<open>Definitions\<close>

definition du_make :: "string \<Rightarrow> fsys \<Rightarrow> fsys" where
  "du_make str w = (let (r, w) = sys_access str w in if r \<noteq> 0 then snd (sys_mkdir str w) else w)"

fun du_mkdirs_loop :: "string \<Rightarrow> string \<Rightarrow> fsys \<Rightarrow> fsys" where
  "du_mkdirs_loop str [] w = w"
| "du_mkdirs_loop str (c # rest) w = du_mkdirs_loop (str @ [c]) rest (if c = CHR ''/'' then du_make str w else w)"

text \<open>The copy made by \<open>strncpy\<close> has no terminator when the path has 1024 characters or more.\<close>

definition du_mkdirs :: "string \<Rightarrow> fsys \<Rightarrow> c_fault + fsys" where
  "du_mkdirs muldir w =
     (if length muldir \<ge> 1024 then Inl Overrun
      else let w = du_mkdirs_loop [] muldir w in Inr (if length muldir > 0 then du_make muldir w else w))"

definition MakeDir :: "string \<Rightarrow> fsys \<Rightarrow> c_fault + int \<times> fsys" where
  "MakeDir path w =
     (if path = [] then Inr (- 1, w)
      else let (r, w) = sys_access path w
           in if r = 0 then Inr (0, w)
              else case du_mkdirs path w of Inl e \<Rightarrow> Inl e | Inr w \<Rightarrow> Inr (0, w))"

fun MakeDirP_loop :: "string \<Rightarrow> string \<Rightarrow> fsys \<Rightarrow> c_fault + int \<times> fsys" where
  "MakeDirP_loop tmp [] w = Inr (0, w)"
| "MakeDirP_loop tmp (c # rest) w =
     (if c \<noteq> CHR ''/'' then MakeDirP_loop (tmp @ [c]) rest w
      else case MakeDir tmp w of
             Inl e \<Rightarrow> Inl e
           | Inr (r, w) \<Rightarrow> if r \<noteq> 0 then Inr (- 1, w) else MakeDirP_loop (tmp @ [c]) rest w)"

abbreviation PATH_MAX :: nat where "PATH_MAX \<equiv> 4096"

definition MakeDirP :: "string \<Rightarrow> fsys \<Rightarrow> c_fault + int \<times> fsys" where
  "MakeDirP path w =
     (if path = [] then Inr (- 1, w)
      else if length path > PATH_MAX then Inr (- 1, w)
      else let offset = (if hd path = CHR ''/'' then 1 else 0); tmp = take (PATH_MAX - 1) path
           in case MakeDirP_loop (take offset tmp) (drop offset tmp) w of
                Inl e \<Rightarrow> Inl e
              | Inr (r, w) \<Rightarrow> if r \<noteq> 0 then Inr (- 1, w) else MakeDir path w)"

text \<open>The directory of the executable, with the slash; \<open>link\<close> is what \<open>readlink\<close> gives.\<close>

definition GetExePath :: "string option \<Rightarrow> string" where
  "GetExePath link =
     (case link of
        None \<Rightarrow> []
      | Some l \<Rightarrow>
          (let result = take 1024 l
           in if CHR ''/'' \<in> set result then rev (dropWhile (\<lambda>c. c \<noteq> CHR ''/'') (rev result)) else result))"

section \<open>What is changed\<close>

lemma same_du_make: "same_files w (du_make s w)"
  unfolding du_make_def Let_def
  by (auto split: prod.splits intro: same_files_trans same_access) (metis same_access same_files_trans same_mkdir snd_conv surj_pair)

lemma same_du_mkdirs_loop: "same_files w (du_mkdirs_loop s rest w)"
  by (induction s rest w rule: du_mkdirs_loop.induct) (auto intro: same_files_trans same_du_make)

lemma same_du_mkdirs: "du_mkdirs p w = Inr w' \<Longrightarrow> same_files w w'"
  by (auto simp: du_mkdirs_def Let_def split: if_splits intro: same_files_trans [OF same_du_mkdirs_loop same_du_make] same_du_mkdirs_loop)

lemma same_MakeDir: "MakeDir p w = Inr (r, w') \<Longrightarrow> same_files w w'"
  by (auto simp: MakeDir_def split: if_splits prod.splits sum.splits dest!: same_access same_du_mkdirs intro: same_files_trans)

text \<open>\<open>MakeDir\<close> of a path that is not empty never reports that it failed.\<close>

lemma MakeDir_never_fails: "p \<noteq> [] \<Longrightarrow> MakeDir p w = Inr (r, w') \<Longrightarrow> r = 0"
  by (auto simp: MakeDir_def split: if_splits prod.splits sum.splits)

lemma MakeDir_short: "p \<noteq> [] \<Longrightarrow> length p < 1024 \<Longrightarrow> \<exists>w'. MakeDir p w = Inr (0, w')"
  by (auto simp: MakeDir_def du_mkdirs_def Let_def split: prod.splits)

lemma same_MakeDirP_loop: "MakeDirP_loop s rest w = Inr (r, w') \<Longrightarrow> same_files w w'"
proof (induction s rest w rule: MakeDirP_loop.induct)
  case (2 tmp c rest w)
  show ?case
  proof (cases "c = CHR ''/''")
    case True
    then obtain q v where q: "MakeDir tmp w = Inr (q, v)" using 2(3) by (auto split: sum.splits)
    show ?thesis
      using 2(2) [OF _ q refl] 2(3) True q same_MakeDir [OF q] same_files_trans by (auto split: if_splits)
  next
    case False
    then show ?thesis using 2 by simp
  qed
qed simp

lemma same_MakeDirP: "MakeDirP p w = Inr (r, w') \<Longrightarrow> same_files w w'"
  by (auto simp: MakeDirP_def Let_def split: if_splits prod.splits sum.splits dest!: same_MakeDir same_MakeDirP_loop intro: same_files_trans)

text \<open>Nor does \<open>MakeDirP\<close>, whatever the calls do.\<close>

lemma MakeDirP_loop_ok:
  "s \<noteq> [] \<or> rest = [] \<or> hd rest \<noteq> CHR ''/'' \<Longrightarrow> length s + length rest < 1024 \<Longrightarrow> \<exists>w'. MakeDirP_loop s rest w = Inr (0, w')"
proof (induction s rest w rule: MakeDirP_loop.induct)
  case (2 tmp c rest w)
  show ?case
  proof (cases "c = CHR ''/''")
    case True
    then have "tmp \<noteq> []" using 2(3) by auto
    with MakeDir_short [of tmp w] 2(4) obtain v where v: "MakeDir tmp w = Inr (0, v)" by auto
    then show ?thesis using 2(2) [OF _ v refl] 2(4) True by auto
  next
    case False
    then show ?thesis using 2(1) 2(4) by auto
  qed
qed simp

lemma MakeDirP_reports_success:
  assumes "p \<noteq> []" and "length p < 1024"
  shows "\<exists>w'. MakeDirP p w = Inr (0, w')"
proof -
  define k where "k = (if hd p = CHR ''/'' then 1 else 0 :: nat)"
  have "take k p \<noteq> [] \<or> drop k p = [] \<or> hd (drop k p) \<noteq> CHR ''/''" using assms(1) by (auto simp: k_def)
  then have "\<exists>v. MakeDirP_loop (take k p) (drop k p) w = Inr (0, v)" by (rule MakeDirP_loop_ok) (use assms(2) in \<open>simp add: min_def k_def\<close>)
  then obtain v where v: "MakeDirP_loop (take k (take 4095 p)) (drop k (take 4095 p)) w = Inr (0, v)" using assms(2) by auto
  show ?thesis using MakeDir_short [OF assms, of v] v assms by (auto simp: MakeDirP_def k_def Let_def)
qed

end
