(* ===== verification/DetailFiles.thy ===== *)
theory DetailFiles
  imports DirUtil RemainFiles
begin

text \<open>
  The message detail files, \<^verbatim>\<open>src/msgFile\<close>: one rotating file per kind of message (\<^verbatim>\<open>FileMgr.cpp\<close>) and the table of
  them (\<^verbatim>\<open>MessageFilesImpl.cpp\<close>), on the file system of \<^verbatim>\<open>FileSys\<close>. A file is named after the time it was
  opened at, to the millisecond, and gets the ending \<open>_ok\<close> when it is closed.

  The conversion to local time, the order of \<open>readdir\<close> and the modification times are parameters. The clock stands still within one
  call. Every method is one step: the code of each holds the mutex of the object it changes.
\<close>

section \<open>Times and names (FileMgr.h)\<close>

record date = tm +
  tm_year :: nat

definition GenFileId :: "(u64 \<Rightarrow> date) \<Rightarrow> fsys \<Rightarrow> int" where
  "GenFileId lt w =
     (let t = lt (tv_sec w)
      in int (tm_hour t * 10000000 + tm_min t * 100000 + tm_sec t * 1000 + tv_usec w div 1000))"

definition GenDirId :: "(u64 \<Rightarrow> date) \<Rightarrow> fsys \<Rightarrow> int \<times> int" where
  "GenDirId lt w =
     (let t = lt (tv_sec w) in (int ((tm_year t + 1900) * 10000 + (tm_mon t + 1) * 100 + tm_mday t), int (tm_hour t)))"

text \<open>\<open>"%0*d"\<close>, and the division of \<open>int\<close>, which rounds towards zero.\<close>

definition pad_int :: "nat \<Rightarrow> int \<Rightarrow> string" where
  "pad_int k n = (if n < 0 then ''-'' @ pad0 (k - 1) (nat (- n)) else pad0 k (nat n))"

definition c_div :: "int \<Rightarrow> int \<Rightarrow> int" where
  "c_div a b = sgn a * (\<bar>a\<bar> div b)"

definition c_mod :: "int \<Rightarrow> int \<Rightarrow> int" where
  "c_mod a b = sgn a * (\<bar>a\<bar> mod b)"

definition day_parts :: "int \<Rightarrow> int \<Rightarrow> string list" where
  "day_parts yyyymmdd hour =
     [''/'' @ pad_int 4 (c_div yyyymmdd 10000), ''/'' @ pad_int 2 (c_div (c_mod yyyymmdd 10000) 100),
      ''/'' @ pad_int 2 (c_mod (c_mod yyyymmdd 10000) 100), ''/'' @ pad_int 2 hour]"

definition detail_name :: "string \<Rightarrow> int \<Rightarrow> int \<Rightarrow> int \<Rightarrow> string \<Rightarrow> string" where
  "detail_name path yyyymmdd hour fileId ext = path @ concat (day_parts yyyymmdd hour) @ ''/'' @ pad_int 9 fileId @ ext"

section \<open>One file (FileMgr.cpp)\<close>

text \<open>\<open>fm_reading\<close>: the last operation on the stream was a read that has not met the end of the file.\<close>

record FileMgr =
  fm_path :: string
  fm_fp :: "stream option"
  fm_maxFileSize :: c_int
  fm_genFreq :: c_int
  fm_yyyymmdd :: int
  fm_hour :: int
  fm_fileId :: int
  fm_curPos :: c_int
  fm_lastSwitch :: u64
  bApply :: bool
  fm_reading :: bool

definition FileMgr_new :: "(u64 \<Rightarrow> date) \<Rightarrow> fsys \<Rightarrow> FileMgr" where
  "FileMgr_new lt w =
     \<lparr>fm_path = [], fm_fp = None, fm_maxFileSize = 20, fm_genFreq = 60, fm_yyyymmdd = fst (GenDirId lt w), fm_hour = snd (GenDirId lt w),
      fm_fileId = GenFileId lt w, fm_curPos = 0, fm_lastSwitch = 0, bApply = False, fm_reading = False\<rparr>"

definition cur_name :: "FileMgr \<Rightarrow> string" where
  "cur_name m = detail_name (fm_path m) (fm_yyyymmdd m) (fm_hour m) (fm_fileId m) ''.txt''"

definition done_name :: "FileMgr \<Rightarrow> string" where
  "done_name m = detail_name (fm_path m) (fm_yyyymmdd m) (fm_hour m) (fm_fileId m) ''_ok.txt''"

text \<open>
  \<open>snprintf(filePath + len, sizeof(filePath) - len, ...)\<close> with a buffer of 256: the text so far and \<open>len\<close>, which counts what did
  not fit as well. Behind the end of the buffer, \<open>sizeof(filePath) - len\<close> is a huge number.
\<close>

definition path_put :: "string \<Rightarrow> string \<times> nat \<Rightarrow> c_fault + string \<times> nat" where
  "path_put s bl =
     (case bl of (buf, len) \<Rightarrow>
        if len > 256 then Inl Overrun else Inr (if len < 256 then take 255 (buf @ s) else buf, len + length s))"

fun path_dirs :: "string list \<Rightarrow> string \<times> nat \<Rightarrow> fsys \<Rightarrow> c_fault + (string \<times> nat) option \<times> fsys" where
  "path_dirs [] bl w = Inr (Some bl, w)"
| "path_dirs (s # ss) bl w =
     (case path_put s bl of
        Inl e \<Rightarrow> Inl e
      | Inr bl \<Rightarrow>
          (case MakeDir (fst bl) w of
             Inl e \<Rightarrow> Inl e
           | Inr (r, w) \<Rightarrow> if r = - 1 then Inr (None, w) else path_dirs ss bl w))"

definition GetFilePtr :: "string \<Rightarrow> int \<Rightarrow> int \<Rightarrow> int \<Rightarrow> fsys \<Rightarrow> c_fault + stream option \<times> fsys" where
  "GetFilePtr fileDir yyyymmdd hour fileId w =
     (case day_parts yyyymmdd hour of
        [] \<Rightarrow> Inr (None, w)
      | year # parts \<Rightarrow>
          (case path_dirs ((fileDir @ year) # parts) ([], 0) w of
             Inl e \<Rightarrow> Inl e
           | Inr (None, w) \<Rightarrow> Inr (None, w)
           | Inr (Some bl, w) \<Rightarrow>
               (case path_put (''/'' @ pad_int 9 fileId @ ''.txt'') bl of
                  Inl e \<Rightarrow> Inl e
                | Inr bl \<Rightarrow> Inr (c_fopen_append (fst bl) w))))"

definition limit_size :: "c_int \<Rightarrow> c_int" where
  "limit_size sz = (let sz = (if sint sz < 1 then 20 else sz) in if sint sz > 1000 then 20 else sz)"

definition limit_freq :: "c_int \<Rightarrow> c_int" where
  "limit_freq freq = (let freq = (if sint freq < 1 then 60 else freq) in if sint freq > 1800 then 60 else freq)"

definition ApplyFileInfo ::
  "(u64 \<Rightarrow> date) \<Rightarrow> string \<Rightarrow> c_int \<Rightarrow> c_int \<Rightarrow> FileMgr \<Rightarrow> fsys \<Rightarrow> c_fault + int \<times> FileMgr \<times> fsys" where
  "ApplyFileInfo lt szMainPath maxFileSize genFreq m w =
     (if bApply m then Inr (0, m, w)
      else let m = m\<lparr>fm_maxFileSize := limit_size maxFileSize, fm_genFreq := limit_freq genFreq, fm_path := szMainPath,
                     fm_yyyymmdd := fst (GenDirId lt w), fm_hour := snd (GenDirId lt w), fm_fileId := GenFileId lt w\<rparr>
           in case GetFilePtr (fm_path m) (fm_yyyymmdd m) (fm_hour m) (fm_fileId m) w of
                Inl e \<Rightarrow> Inl e
              | Inr (f, w) \<Rightarrow>
                  (let m = m\<lparr>fm_fp := f, fm_lastSwitch := tv_sec w\<rparr>; m = (if f \<noteq> None then m\<lparr>bApply := True\<rparr> else m)
                   in Inr (if bApply m then 0 else - 1, m, w)))"

definition fm_updateGenFreq :: "c_int \<Rightarrow> FileMgr \<Rightarrow> FileMgr" where
  "fm_updateGenFreq freq m = (let freq = limit_freq freq in if fm_genFreq m \<noteq> freq then m\<lparr>fm_genFreq := freq\<rparr> else m)"

definition fm_updateMaxFileSize :: "c_int \<Rightarrow> FileMgr \<Rightarrow> FileMgr" where
  "fm_updateMaxFileSize sz m =
     (let sz = (if sint sz < 1 then 20 else sz); sz = (if sint sz > 1024 then 1024 else sz)
      in if fm_maxFileSize m \<noteq> sz then m\<lparr>fm_maxFileSize := sz\<rparr> else m)"

text \<open>Output or a flush directly after input has no defined behaviour.\<close>

definition after_read :: "FileMgr \<Rightarrow> fsys \<Rightarrow> fsys" where
  "after_read m w = (if fm_reading m then w\<lparr>undefd := True\<rparr> else w)"

text \<open>The file is closed and gets its final name.\<close>

definition retire_file :: "FileMgr \<Rightarrow> fsys \<Rightarrow> FileMgr \<times> fsys" where
  "retire_file m w =
     (let w = (case fm_fp m of
                 None \<Rightarrow> w
               | Some f \<Rightarrow> (let (_, f, w) = c_fflush f (after_read m w); (_, f, w) = c_fclose f w in w));
          (_, w) = sys_rename (name_buf (cur_name m)) (name_buf (done_name m)) w
      in (m\<lparr>fm_fp := None, fm_reading := False\<rparr>, w))"

definition switch_due :: "(u64 \<Rightarrow> date) \<Rightarrow> bool \<Rightarrow> FileMgr \<Rightarrow> fsys \<Rightarrow> bool" where
  "switch_due lt force m w \<longleftrightarrow>
     (let (yyyymmdd, hour) = GenDirId lt w
      in force \<or> yyyymmdd \<noteq> fm_yyyymmdd m \<or> (yyyymmdd = fm_yyyymmdd m \<and> hour \<noteq> fm_hour m) \<or>
         sint (fm_curPos m) \<ge> sint (fm_maxFileSize m * 1024 * 1024) \<or> sint (tv_sec w - fm_lastSwitch m) > sint (fm_genFreq m))"

definition SwitchFile :: "(u64 \<Rightarrow> date) \<Rightarrow> bool \<Rightarrow> FileMgr \<Rightarrow> fsys \<Rightarrow> c_fault + FileMgr \<times> fsys" where
  "SwitchFile lt force m w =
     (if \<not> bApply m then Inr (m, w)
      else if switch_due lt force m w
      then (let (yyyymmdd, hour) = GenDirId lt w; fileId = GenFileId lt w; (m, w) = retire_file m w
            in case GetFilePtr (fm_path m) yyyymmdd hour fileId w of
                 Inl e \<Rightarrow> Inl e
               | Inr (f, w) \<Rightarrow>
                   Inr (m\<lparr>fm_fp := f, fm_lastSwitch := tv_sec w, fm_yyyymmdd := yyyymmdd, fm_hour := hour, fm_fileId := fileId, fm_curPos := 0\<rparr>, w))
      else Inr (m, w))"

definition CloseCurFile :: "(u64 \<Rightarrow> date) \<Rightarrow> FileMgr \<Rightarrow> fsys \<Rightarrow> FileMgr \<times> fsys" where
  "CloseCurFile lt m w =
     (if \<not> bApply m then (m, w)
      else let (yyyymmdd, hour) = GenDirId lt w; fileId = GenFileId lt w; (m, w) = retire_file m w
           in (m\<lparr>fm_lastSwitch := tv_sec w, fm_yyyymmdd := yyyymmdd, fm_hour := hour, fm_fileId := fileId, fm_curPos := 0\<rparr>, w))"

text \<open>A failed write ends in a forced switch and the code -1.\<close>

definition give_up :: "(u64 \<Rightarrow> date) \<Rightarrow> FileMgr \<Rightarrow> fsys \<Rightarrow> c_fault + int \<times> FileMgr \<times> fsys" where
  "give_up lt m w = (case SwitchFile lt True m w of Inl e \<Rightarrow> Inl e | Inr (m, w) \<Rightarrow> Inr (- 1, m, w))"

definition WriteToFile :: "(u64 \<Rightarrow> date) \<Rightarrow> string \<Rightarrow> FileMgr \<Rightarrow> fsys \<Rightarrow> c_fault + int \<times> FileMgr \<times> fsys" where
  "WriteToFile lt content m w =
     (if \<not> bApply m then Inr (- 1, m, w)
      else case SwitchFile lt False m w of
             Inl e \<Rightarrow> Inl e
           | Inr (m, w) \<Rightarrow>
               (case fm_fp m of
                  None \<Rightarrow> give_up lt m w
                | Some f \<Rightarrow>
                    (let (n, f, w) = c_fwrite content f (after_read m w); m = m\<lparr>fm_fp := Some f, fm_reading := False\<rparr>
                     in if length content = n
                        then (let (r, f, w) = c_fflush f w; m = m\<lparr>fm_fp := Some f\<rparr>
                              in if r = EOF then give_up lt m w
                                 else Inr (0, m\<lparr>fm_curPos := fm_curPos m + word_of_nat (length content)\<rparr>, w))
                        else give_up lt m w)))"

definition SwitchToNewFile :: "(u64 \<Rightarrow> date) \<Rightarrow> FileMgr \<Rightarrow> fsys \<Rightarrow> c_fault + FileMgr \<times> fsys" where
  "SwitchToNewFile lt m w = (if bApply m then SwitchFile lt False m w else Inr (m, w))"

definition fm_Close :: "(u64 \<Rightarrow> date) \<Rightarrow> FileMgr \<Rightarrow> fsys \<Rightarrow> FileMgr \<times> fsys" where
  "fm_Close lt m w = (let (m, w) = CloseCurFile lt m w in (m\<lparr>bApply := False\<rparr>, w))"

definition FileMgr_delete :: "(u64 \<Rightarrow> date) \<Rightarrow> FileMgr \<Rightarrow> fsys \<Rightarrow> fsys" where
  "FileMgr_delete lt m w = snd (CloseCurFile lt m w)"

subsection \<open>Reading\<close>

text \<open>
  \<open>size == static_cast<int>(fread(content, sizeof(char), size, fp) && size > 0)\<close>: the outcome, the bytes read, and whether the
  end of the file was met.
\<close>

definition fread_test :: "int \<Rightarrow> string \<Rightarrow> fsys \<Rightarrow> bool \<times> string \<times> bool \<times> fsys" where
  "fread_test sz src w =
     (let want = (if sz < 0 then length src + 1 else nat sz); (s, w) = c_fread want src w
      in (sz = (if s \<noteq> [] \<and> sz > 0 then 1 else 0), s, want = 0 \<or> (length src < want \<and> s = src), w))"

text \<open>\<open>fseek\<close>, which writes the buffer out first.\<close>

definition c_fseek :: "int \<Rightarrow> stream \<Rightarrow> fsys \<Rightarrow> int \<times> stream \<times> fsys" where
  "c_fseek offset f w =
     (let (r, w) = next_out (touch f w); (f, w) = put_out r f w in (if r = Ok \<and> offset \<ge> 0 then 0 else - 1, f, w))"

definition SearchCurrentFile ::
  "int \<Rightarrow> int \<Rightarrow> int \<Rightarrow> int \<Rightarrow> int \<Rightarrow> FileMgr \<Rightarrow> fsys \<Rightarrow> c_fault + bool \<times> string \<times> FileMgr \<times> fsys" where
  "SearchCurrentFile yyyymmdd hour fileId offset sz m w =
     (if yyyymmdd = fm_yyyymmdd m \<and> hour = fm_hour m \<and> fileId = fm_fileId m
      then case fm_fp m of
             None \<Rightarrow> Inl Null_pointer
           | Some f \<Rightarrow>
               (let (r, f, w) = c_fseek offset f w; m = m\<lparr>fm_fp := Some f\<rparr>
                in if r \<noteq> 0 then Inr (False, [], m, w)
                   else let (ok, s, eof, w) = fread_test sz (drop (nat offset) (data w (ino f))) w
                        in if ok then (let (r, f, w) = c_fseek 0 f w in Inr (True, s, m\<lparr>fm_fp := Some f, fm_reading := r \<noteq> 0\<rparr>, w))
                           else Inr (False, s, m\<lparr>fm_reading := \<not> eof\<rparr>, w))
      else Inr (False, [], m, w))"

text \<open>\<open>SearchOkFile\<close> and \<open>SearchBakFile\<close> differ in the ending of the name.\<close>

definition search_closed :: "string \<Rightarrow> int \<Rightarrow> int \<Rightarrow> int \<Rightarrow> int \<Rightarrow> int \<Rightarrow> FileMgr \<Rightarrow> fsys \<Rightarrow> bool \<times> string \<times> fsys" where
  "search_closed ext yyyymmdd hour fileId offset sz m w =
     (let (src, w) = c_fopen_read (name_buf (detail_name (fm_path m) yyyymmdd hour fileId ext)) w
      in case src of
           None \<Rightarrow> (False, [], w)
         | Some src \<Rightarrow>
             (let (r, w) = next_out w
              in if r = Ok \<and> offset \<ge> 0
                 then (let (ok, s, _, w) = fread_test sz (drop (nat offset) src) w; (_, w) = next_out w in (ok, s, w))
                 else (let (_, w) = next_out w in (False, [], w))))"

definition SearchOkFile :: "int \<Rightarrow> int \<Rightarrow> int \<Rightarrow> int \<Rightarrow> int \<Rightarrow> FileMgr \<Rightarrow> fsys \<Rightarrow> bool \<times> string \<times> fsys" where
  "SearchOkFile = search_closed ''_ok.txt''"

definition SearchBakFile :: "int \<Rightarrow> int \<Rightarrow> int \<Rightarrow> int \<Rightarrow> int \<Rightarrow> FileMgr \<Rightarrow> fsys \<Rightarrow> bool \<times> string \<times> fsys" where
  "SearchBakFile = search_closed ''_bak.txt''"

text \<open>The result, and what is at the start of the caller's buffer: what the last reader put there that read anything.\<close>

definition ReadFromFile ::
  "int \<Rightarrow> int \<Rightarrow> int \<Rightarrow> int \<Rightarrow> int \<Rightarrow> string \<Rightarrow> FileMgr \<Rightarrow> fsys \<Rightarrow> c_fault + int \<times> string \<times> FileMgr \<times> fsys" where
  "ReadFromFile yyyymmdd hour fileId offset sz content m w =
     (if \<not> bApply m then Inr (0, content, m, w)
      else case SearchCurrentFile yyyymmdd hour fileId offset sz m w of
             Inl e \<Rightarrow> Inl e
           | Inr (ok, s, m, w) \<Rightarrow>
               (let content = s @ drop (length s) content
                in if ok then Inr (0, content, m, w)
                   else let (ok, s, w) = SearchOkFile yyyymmdd hour fileId offset sz m w; content = s @ drop (length s) content
                        in if ok then Inr (0, content, m, w)
                           else let (ok, s, w) = SearchBakFile yyyymmdd hour fileId offset sz m w; content = s @ drop (length s) content
                                in Inr (if ok then 0 else - 1, content, m, w)))"

section \<open>Names of files\<close>

definition ids_ok :: "int \<Rightarrow> int \<Rightarrow> int \<Rightarrow> bool" where
  "ids_ok yyyymmdd hour fileId \<longleftrightarrow> 0 \<le> yyyymmdd \<and> yyyymmdd < 10 ^ 8 \<and> 0 \<le> hour \<and> hour < 100 \<and> 0 \<le> fileId \<and> fileId < 10 ^ 9"

definition clock_ok :: "(u64 \<Rightarrow> date) \<Rightarrow> bool" where
  "clock_ok lt \<longleftrightarrow> (\<forall>s. tm_mon (lt s) < 12 \<and> tm_mday (lt s) \<le> 31 \<and> tm_hour (lt s) < 24 \<and> tm_min (lt s) < 60 \<and> tm_sec (lt s) \<le> 60 \<and> tm_year (lt s) < 8100)"

lemma clock_ids:
  assumes "clock_ok lt" and "tv_usec w < 1000000"
  shows "ids_ok (fst (GenDirId lt w)) (snd (GenDirId lt w)) (GenFileId lt w)"
proof -
  define t where "t = lt (tv_sec w)"
  have b: "tm_mon t < 12" "tm_mday t \<le> 31" "tm_hour t < 24" "tm_min t < 60" "tm_sec t \<le> 60" "tm_year t < 8100" "tv_usec w div 1000 < 1000"
    using assms by (auto simp: clock_ok_def t_def)
  have "(tm_year t + 1900) * 10000 + (tm_mon t + 1) * 100 + tm_mday t < 100000000" using b by simp
  moreover have "tm_hour t * 10000000 + tm_min t * 100000 + tm_sec t * 1000 + tv_usec w div 1000 < 1000000000" using b by simp
  ultimately show ?thesis using b by (simp add: ids_ok_def GenDirId_def GenFileId_def Let_def flip: t_def)
qed

lemma length_pad0: "0 < k \<Longrightarrow> n < 10 ^ k \<Longrightarrow> length (pad0 k n) = k"
  using show_nat_length [of n "k - 1"] by (simp add: pad0_def Let_def)

lemma length_pad_int: "0 < k \<Longrightarrow> 0 \<le> n \<Longrightarrow> n < 10 ^ k \<Longrightarrow> length (pad_int k n) = k"
  by (simp add: pad_int_def) (rule length_pad0, simp_all add: nat_less_iff)

lemma pad_int_chars: "CHR ''/'' \<notin> set (pad_int k n)"
proof -
  have "is_digit c" if "c \<in> set (pad0 k n)" for c k n
    using that show_nat_digits [of c n] by (auto simp: pad0_def Let_def is_digit_def)
  then show ?thesis using is_digit_def by (auto simp: pad_int_def) (fastforce simp: is_digit_def)+
qed

lemma c_div_nonneg [simp]: "0 \<le> a \<Longrightarrow> c_div a b = a div b" "0 \<le> a \<Longrightarrow> c_mod a b = a mod b"
  by (cases "a = 0"; simp add: c_div_def c_mod_def)+

lemma length_day_parts:
  assumes "ids_ok y h i"
  shows "map length (day_parts y h) = [5, 3, 3, 3]"
proof -
  have y: "0 \<le> y" "y < 10 ^ 8" using assms by (simp_all add: ids_ok_def)
  then have "y div 10000 < 10 ^ 4" by simp
  moreover have "y mod 10000 div 100 < 10 ^ 2" "y mod 10000 mod 100 < 10 ^ 2" by simp_all
  ultimately show ?thesis using assms y by (simp add: ids_ok_def day_parts_def length_pad_int)
qed

lemma length_detail_name: "ids_ok y h i \<Longrightarrow> length (detail_name p y h i ext) = length p + 24 + length ext"
  using length_day_parts [of y h i] by (simp add: detail_name_def length_pad_int ids_ok_def day_parts_def)

text \<open>The directory that a file of a \<open>FileMgr\<close> belongs to is found from the name.\<close>

definition stem :: "string \<Rightarrow> string" where
  "stem p = dirname (dirname (dirname (dirname (dirname p))))"

lemma dirname_join [simp]: "CHR ''/'' \<notin> set b \<Longrightarrow> dirname (a @ CHR ''/'' # b) = a"
proof -
  assume "CHR ''/'' \<notin> set b"
  then have "dropWhile (\<lambda>c. c \<noteq> CHR ''/'') (rev b @ CHR ''/'' # rev a) = CHR ''/'' # rev a" by (subst dropWhile_append2) auto
  then show ?thesis by (simp add: dirname_def)
qed

lemma stem_name: "CHR ''/'' \<notin> set ext \<Longrightarrow> stem (detail_name p y h i ext) = p"
proof -
  assume e: "CHR ''/'' \<notin> set ext"
  define a b c d where "a = pad_int 4 (c_div y 10000)" and "b = pad_int 2 (c_div (c_mod y 10000) 100)" and "c = pad_int 2 (c_mod (c_mod y 10000) 100)"
    and "d = pad_int 2 h"
  have "detail_name p y h i ext =
    ((((p @ CHR ''/'' # a) @ CHR ''/'' # b) @ CHR ''/'' # c) @ CHR ''/'' # d) @ CHR ''/'' # (pad_int 9 i @ ext)"
    by (simp add: detail_name_def day_parts_def a_def b_def c_def d_def)
  then show ?thesis unfolding stem_def
    by (simp only: dirname_join set_append Un_iff pad_int_chars e a_def b_def c_def d_def simp_thms)
qed

subsection \<open>The name buffer\<close>

lemma path_put_buf:
  "path_put t (take 255 s, length s) = (if length s > 256 then Inl Overrun else Inr (take 255 (s @ t), length (s @ t)))"
  by (auto simp: path_put_def)

lemma path_dirs_buf:
  assumes "\<forall>s \<in> set ss. s \<noteq> []"
  shows "if \<forall>k < length ss. length (s @ concat (take k ss)) \<le> 256
         then \<exists>w'. path_dirs ss (take 255 s, length s) w = Inr (Some (take 255 (s @ concat ss), length (s @ concat ss)), w') \<and> same_files w w'
         else path_dirs ss (take 255 s, length s) w = Inl Overrun"
  using assms
proof (induction ss arbitrary: s w)
  case (Cons t ss)
  show ?case
  proof (cases "length s > 256")
    case True
    then show ?thesis by (auto simp: path_put_buf intro: exI [of _ 0])
  next
    case False
    have ne: "take 255 (s @ t) \<noteq> []" "length (take 255 (s @ t)) < 1024" using Cons(2) by auto
    then obtain v where v: "MakeDir (take 255 (s @ t)) w = Inr (0, v)" using MakeDir_short by blast
    have "path_dirs (t # ss) (take 255 s, length s) w = path_dirs ss (take 255 (s @ t), length (s @ t)) v"
      using False v by (simp add: path_put_buf)
    moreover have "(\<forall>k < length (t # ss). length (s @ concat (take k (t # ss))) \<le> 256) \<longleftrightarrow> (\<forall>k < length ss. length ((s @ t) @ concat (take k ss)) \<le> 256)"
      using False by (simp add: All_less_Suc2 add.assoc)
    ultimately show ?thesis
      using Cons(1) [of "s @ t" v] Cons(2) same_MakeDir [OF v] same_files_trans by (auto simp del: path_dirs.simps split: if_splits)
  qed
qed simp

text \<open>Up to 227 characters the file has its name, up to 242 the name is cut off, beyond that the buffer is overrun.\<close>

lemma GetFilePtr_buf:
  assumes "ids_ok y h i"
  shows "if length dir \<le> 242
         then \<exists>w'. GetFilePtr dir y h i w = Inr (c_fopen_append (take 255 (detail_name dir y h i ''.txt'')) w') \<and> same_files w w'
         else GetFilePtr dir y h i w = Inl Overrun"
proof -
  obtain a b c d where p: "day_parts y h = [a, b, c, d]" by (simp add: day_parts_def)
  have l: "length a = 5" "length b = 3" "length c = 3" "length d = 3" using length_day_parts [OF assms] p by simp_all
  let ?ss = "[dir @ a, b, c, d]"
  have ne: "\<forall>s \<in> set ?ss. s \<noteq> []" using l by auto
  have all4: "(\<forall>k < (4 :: nat). P k) \<longleftrightarrow> P 0 \<and> P 1 \<and> P 2 \<and> P 3" for P by (auto simp: less_Suc_eq numeral_eq_Suc)
  have k: "(\<forall>k < length ?ss. length ([] @ concat (take k ?ss)) \<le> 256) \<longleftrightarrow> length dir \<le> 245"
  proof -
    have "length ?ss = 4" by simp
    then show ?thesis unfolding all4 \<open>length ?ss = 4\<close> using l by simp arith
  qed
  show ?thesis
  proof (cases "length dir \<le> 245")
    case True
    then obtain v where v: "path_dirs ?ss ([], 0) w = Inr (Some (take 255 (concat ?ss), length (concat ?ss)), v)" "same_files w v"
      using path_dirs_buf [OF ne, of "[]" w] k by auto
    have "GetFilePtr dir y h i w = (case path_put (''/'' @ pad_int 9 i @ ''.txt'') (take 255 (concat ?ss), length (concat ?ss)) of
        Inl e \<Rightarrow> Inl e | Inr bl \<Rightarrow> Inr (c_fopen_append (fst bl) v))"
      using v by (simp add: GetFilePtr_def p)
    also have "\<dots> = (if length dir > 242 then Inl Overrun else Inr (c_fopen_append (take 255 (detail_name dir y h i ''.txt'')) v))"
      unfolding path_put_buf using l by (simp add: detail_name_def p)
    finally show ?thesis using v by auto
  next
    case False
    then have "path_dirs ?ss (take 255 [], length ([] :: string)) w = Inl Overrun" using path_dirs_buf [OF ne, of "[]" w] k by (simp only: if_False)
    then show ?thesis using False by (simp add: GetFilePtr_def p del: path_dirs.simps)
  qed
qed

end
