(* ===== verification/DetailFilesProps.thy ===== *)
theory DetailFilesProps
  imports DetailFiles
begin

text \<open>
  What the message detail files guarantee: the names of the files fit their buffers, and a record that was accepted stays in a file.
\<close>

section \<open>The clock\<close>

definition same_time :: "fsys \<Rightarrow> fsys \<Rightarrow> bool" where
  "same_time w w' \<longleftrightarrow> tv_sec w' = tv_sec w \<and> tv_usec w' = tv_usec w"

named_theorems time_dests

lemma same_time_refl [simp]: "same_time w w"
  by (simp add: same_time_def)

lemma same_time_trans: "same_time w v \<Longrightarrow> same_time v u \<Longrightarrow> same_time w u"
  by (simp add: same_time_def)

lemma time_next_out [time_dests]: "next_out w = (r, w') \<Longrightarrow> same_time w w'"
  using next_out_state [of w r w'] by (simp add: same_time_def)

lemma time_access [time_dests]: "sys_access p w = (r, w') \<Longrightarrow> same_time w w'"
  by (auto simp: sys_access_def split: prod.splits dest: time_next_out)

lemma time_mkdir [time_dests]: "sys_mkdir p w = (r, w') \<Longrightarrow> same_time w w'"
  by (auto simp: sys_mkdir_def same_time_def split: prod.splits if_splits dest: next_out_state)

lemma time_rename [time_dests]: "sys_rename p q w = (r, w') \<Longrightarrow> same_time w w'"
  by (auto simp: sys_rename_def same_time_def split: prod.splits if_splits option.splits dest: next_out_state)

lemma time_fopen [time_dests]: "c_fopen_append p w = (f, w') \<Longrightarrow> same_time w w'"
  by (auto simp: c_fopen_append_def same_time_def split: prod.splits if_splits option.splits dest!: next_out_state)

lemma time_touch [simp]: "same_time w (touch f w)"
  by (simp add: same_time_def touch_def)

lemma time_fwrite [time_dests]: "c_fwrite s f w = (n, g, w') \<Longrightarrow> same_time w w'"
  by (auto simp: c_fwrite_def Let_def split: prod.splits intro: same_time_trans [OF time_touch time_next_out])

lemma time_put_out [simp]: "same_time w (snd (put_out r f w))"
  by (simp add: put_out_def same_time_def Let_def)

lemma time_fflush [time_dests]: "c_fflush f w = (n, g, w') \<Longrightarrow> same_time w w'"
  by (auto simp: c_fflush_def Let_def split: prod.splits) (metis same_time_trans time_next_out time_put_out time_touch snd_conv)

lemma time_fclose [time_dests]: "c_fclose f w = (n, g, w') \<Longrightarrow> same_time w w'"
  by (auto simp: c_fclose_def Let_def split: prod.splits) (metis same_time_trans time_next_out time_put_out time_touch snd_conv)

lemma time_du_make [simp]: "same_time w (du_make s w)"
  unfolding du_make_def Let_def
  by (auto split: prod.splits intro: same_time_trans time_access) (metis time_access same_time_trans time_mkdir snd_conv surj_pair)

lemma time_du_mkdirs_loop [simp]: "same_time w (du_mkdirs_loop s rest w)"
  by (induction s rest w rule: du_mkdirs_loop.induct) (auto intro: same_time_trans time_du_make)

lemma time_MakeDir [time_dests]: "MakeDir p w = Inr (r, w') \<Longrightarrow> same_time w w'"
  by (auto simp: MakeDir_def du_mkdirs_def Let_def split: if_splits prod.splits sum.splits dest!: time_access
      intro: same_time_trans [OF time_du_mkdirs_loop time_du_make] same_time_trans [OF _ same_time_trans [OF time_du_mkdirs_loop time_du_make]])

lemma time_MakeDirP_loop: "MakeDirP_loop s rest w = Inr (r, w') \<Longrightarrow> same_time w w'"
proof (induction s rest w rule: MakeDirP_loop.induct)
  case (2 tmp c rest w)
  show ?case
  proof (cases "c = CHR ''/''")
    case True
    then obtain q v where q: "MakeDir tmp w = Inr (q, v)" using 2(3) by (auto split: sum.splits)
    show ?thesis using 2(2) [OF _ q refl] 2(3) True q time_MakeDir [OF q] same_time_trans by (auto split: if_splits)
  next
    case False
    then show ?thesis using 2 by simp
  qed
qed simp

lemma time_MakeDirP [time_dests]: "MakeDirP p w = Inr (r, w') \<Longrightarrow> same_time w w'"
  by (auto simp: MakeDirP_def Let_def split: if_splits prod.splits sum.splits dest!: time_MakeDir time_MakeDirP_loop intro: same_time_trans)

lemma time_path_dirs: "path_dirs ss bl w = Inr (r, w') \<Longrightarrow> same_time w w'"
proof (induction ss bl w rule: path_dirs.induct)
  case (2 s ss bl w)
  then obtain bl' q v where p: "path_put s bl = Inr bl'" "MakeDir (fst bl') w = Inr (q, v)" by (auto split: sum.splits)
  then show ?case using 2(1) [OF p refl] 2(2) time_MakeDir [OF p(2)] same_time_trans by (auto split: if_splits)
qed simp

lemma time_GetFilePtr [time_dests]: "GetFilePtr p y h i w = Inr (f, w') \<Longrightarrow> same_time w w'"
  by (auto simp: GetFilePtr_def simp del: path_dirs.simps split: list.splits sum.splits prod.splits option.splits dest!: time_path_dirs time_fopen intro: same_time_trans)

lemma time_retire [time_dests]: "retire_file m w = (m', w') \<Longrightarrow> same_time w w'"
proof -
  have "same_time w (after_read m w)" by (simp add: after_read_def same_time_def)
  then show "retire_file m w = (m', w') \<Longrightarrow> same_time w w'"
    by (auto simp: retire_file_def Let_def split: prod.splits option.splits dest!: time_rename time_fflush time_fclose) (meson same_time_trans)
qed

section \<open>One file\<close>

interpretation dfo: file_owner cur_name fm_fp "\<lambda>x m. m\<lparr>fm_fp := x\<rparr>"
  by unfold_locales (simp_all add: cur_name_def)

definition short :: "FileMgr \<Rightarrow> bool" where
  "short m \<longleftrightarrow> length (fm_path m) \<le> 227 \<and> ids_ok (fm_yyyymmdd m) (fm_hour m) (fm_fileId m)"

text \<open>The files below other paths keep their names.\<close>

definition apart :: "string \<Rightarrow> fsys \<Rightarrow> fsys \<Rightarrow> bool" where
  "apart P w w' \<longleftrightarrow> (\<forall>p j. (p, j) \<in> set (names w) \<and> stem p \<noteq> P \<longrightarrow> (p, j) \<in> set (names w'))"

definition detail_sound :: "string multiset \<Rightarrow> FileMgr \<Rightarrow> fsys \<Rightarrow> FileMgr \<Rightarrow> fsys \<Rightarrow> bool" where
  "detail_sound a m w m' w' \<longleftrightarrow> fm_path m' = fm_path m \<and> (collided w \<longrightarrow> collided w') \<and> (undefd w \<longrightarrow> undefd w') \<and>
     (fs_ok w \<and> owner_ok cur_name fm_fp w m \<and> \<not> collided w' \<and> \<not> undefd w' \<longrightarrow>
        fs_ok w' \<and> owner_ok cur_name fm_fp w' m' \<and> apart (fm_path m) w w' \<and> (\<forall>R. holds (contents w) R \<longrightarrow> holds (contents w') (a + R)))"

lemma detail_refl [simp]: "detail_sound {#} m w m w"
  by (simp add: detail_sound_def apart_def)

lemma apart_trans: "apart P w v \<Longrightarrow> apart P v u \<Longrightarrow> apart P w u"
  by (simp add: apart_def)

lemma detail_trans: "detail_sound a m w m' w' \<Longrightarrow> detail_sound b m' w' m'' w'' \<Longrightarrow> detail_sound (b + a) m w m'' w''"
  by (auto simp: detail_sound_def add.assoc intro: apart_trans)

lemma detail_trans0: "detail_sound {#} m w m' w' \<Longrightarrow> detail_sound b m' w' m'' w'' \<Longrightarrow> detail_sound b m w m'' w''"
  using detail_trans [of "{#}"] by fastforce

lemma stem_cur_name [simp]: "stem (cur_name m) = fm_path m"
  by (simp add: cur_name_def stem_name)

lemma owns_detail:
  assumes "owns cur_name fm_fp a m w m' w'" and "fm_path m' = fm_path m"
  shows "detail_sound a m w m' w'"
proof -
  have "apart (fm_path m) w w'" if ok: "fs_ok w" "owner_ok cur_name fm_fp w m" and fr: "frame (owner_inos fm_fp m) w w'"
    unfolding apart_def
  proof (intro allI impI)
    fix p j assume pj: "(p, j) \<in> set (names w) \<and> stem p \<noteq> fm_path m"
    have "j \<notin> owner_inos fm_fp m"
    proof
      assume "j \<in> owner_inos fm_fp m"
      then have "(cur_name m, j) \<in> set (names w)" using ok(2) by (auto simp: owner_inos_def owner_ok_def split: option.splits)
      then have "p = cur_name m" using ok(1) pj unfolding fs_ok_def by (metis eq_snd_iff inj_onD distinct_map fst_conv)
      then show False using pj by simp
    qed
    moreover have "j < nextIno w" using ok(1) pj by (auto simp: fs_ok_def)
    ultimately show "(p, j) \<in> set (names w')" using fr pj by (auto simp: frame_def)
  qed
  then show ?thesis using assms by (auto simp: owns_def detail_sound_def)
qed

lemma detail_same: "same_files w w' \<Longrightarrow> detail_sound {#} m w m w'"
  by (rule owns_detail [OF owns_same]) simp_all

lemma detail_forget: "fm_fp m' = None \<Longrightarrow> fm_path m' = fm_path m \<Longrightarrow> detail_sound {#} m w m' w"
  by (rule owns_detail [OF owns_forget]) simp_all

lemma detail_cong: "detail_sound a m w m' w' \<Longrightarrow> cur_name n = cur_name m' \<Longrightarrow> fm_fp n = fm_fp m' \<Longrightarrow> fm_path n = fm_path m' \<Longrightarrow> detail_sound a m w n w'"
  by (simp add: detail_sound_def owner_ok_def)

lemma cur_name_upd [simp]:
  "cur_name (m\<lparr>fm_fp := x\<rparr>) = cur_name m" "cur_name (m\<lparr>fm_reading := b\<rparr>) = cur_name m" "cur_name (m\<lparr>fm_curPos := c\<rparr>) = cur_name m"
  "cur_name (m\<lparr>fm_lastSwitch := s\<rparr>) = cur_name m" "cur_name (m\<lparr>bApply := b\<rparr>) = cur_name m"
  "cur_name (m\<lparr>fm_maxFileSize := c\<rparr>) = cur_name m" "cur_name (m\<lparr>fm_genFreq := c\<rparr>) = cur_name m"
  by (simp_all add: cur_name_def)

lemma short_upd [simp]:
  "short (m\<lparr>fm_fp := x\<rparr>) = short m" "short (m\<lparr>fm_reading := b\<rparr>) = short m" "short (m\<lparr>fm_curPos := c\<rparr>) = short m"
  "short (m\<lparr>fm_lastSwitch := s\<rparr>) = short m" "short (m\<lparr>bApply := b\<rparr>) = short m"
  "short (m\<lparr>fm_maxFileSize := c\<rparr>) = short m" "short (m\<lparr>fm_genFreq := c\<rparr>) = short m"
  by (simp_all add: short_def)

lemma short_name: "short m \<Longrightarrow> length (cur_name m) < 1024 \<and> length (cur_name m) \<le> 255"
  by (simp add: short_def cur_name_def length_detail_name)

lemma same_after_read: "same_files w (after_read m w)"
  by (simp add: after_read_def same_files_def)

text \<open>Without an open file, a rename of a file under the same path is a rename of a file that nobody has open.\<close>

lemma rename_free:
  assumes q: "sys_rename p q w = (r, w')" and n: "fm_fp m = None" and p: "stem p = fm_path m"
  shows "detail_sound {#} m w m w'"
proof -
  have "fs_ok w' \<and> apart (fm_path m) w w' \<and> contents w' = contents w" if ok: "fs_ok w" "\<not> collided w'"
    using sys_rename_result [OF q ok]
  proof
    assume s: "same_files w w'"
    then have "apart (fm_path m) w w'" by (simp add: apart_def same_files_def)
    then show ?thesis using ok s fs_ok_same contents_same by blast
  next
    assume "\<exists>i. (p, i) \<in> set (names w) \<and> q \<notin> fst ` set (names w) \<and> p \<noteq> q \<and>
       data w' = data w \<and> nextIno w' = nextIno w \<and> \<not> collided w \<and> undefd w' = undefd w \<and>
       names w' = filter (\<lambda>e. fst e \<noteq> p) (names w) @ [(q, i)]"
    then obtain i where i: "(p, i) \<in> set (names w)" "q \<notin> fst ` set (names w)" "data w' = data w" "nextIno w' = nextIno w"
      "names w' = filter (\<lambda>e. fst e \<noteq> p) (names w) @ [(q, i)]" by blast
    have "apart (fm_path m) w w'" using i(5) p by (auto simp: apart_def)
    then show ?thesis using rename_files [OF ok(1) i] by blast
  qed
  then show ?thesis using sys_rename_mono [OF q] n by (auto simp: detail_sound_def owner_ok_def)
qed

lemma retire_sound:
  assumes "retire_file m w = (m', w')" and "short m"
  shows "detail_sound {#} m w m' w' \<and> m' = m\<lparr>fm_fp := None, fm_reading := False\<rparr>"
proof -
  note nm = short_name [OF assms(2)]
  have buf: "name_buf (cur_name m) = cur_name m" using nm by (simp add: name_buf_def)
  show ?thesis
  proof (cases "fm_fp m")
    case None
    then obtain r where r: "sys_rename (cur_name m) (name_buf (done_name m)) w = (r, w')" and m': "m' = m\<lparr>fm_fp := None, fm_reading := False\<rparr>"
      using assms(1) buf by (auto simp: retire_file_def Let_def split: prod.splits)
    show ?thesis using detail_cong [OF rename_free [OF r None stem_cur_name], of m'] None m' by simp
  next
    case (Some f)
    obtain x g u where x: "c_fflush f (after_read m w) = (x, g, u)" by (metis prod_cases3)
    obtain y h t where y: "c_fclose g u = (y, h, t)" by (metis prod_cases3)
    obtain r where r: "sys_rename (cur_name m) (name_buf (done_name m)) t = (r, w')" and m': "m' = m\<lparr>fm_fp := None, fm_reading := False\<rparr>"
      using assms(1) buf x y Some by (auto simp: retire_file_def Let_def split: prod.splits)
    have "owns cur_name fm_fp {#} m (after_read m w) (m\<lparr>fm_fp := Some g\<rparr>) u" using dfo.fflush [OF x Some] by simp
    then have "owns cur_name fm_fp {#} m w (m\<lparr>fm_fp := Some g\<rparr>) u" by (rule owns_trans0 [OF owns_same [OF same_after_read]])
    moreover have o2: "owns cur_name fm_fp {#} (m\<lparr>fm_fp := Some g\<rparr>) u (m\<lparr>fm_fp := Some h\<rparr>) t"
      using dfo.fclose [OF y, of "m\<lparr>fm_fp := Some g\<rparr>"] by simp
    moreover have o3: "owns cur_name fm_fp {#} (m\<lparr>fm_fp := Some h\<rparr>) t m' w'"
      using dfo.rename [OF r, of "m\<lparr>fm_fp := Some h\<rparr>" h m'] m' by simp
    ultimately have "owns cur_name fm_fp {#} m w m' w'" by (intro owns_trans0 [OF owns_trans0 [OF _ o2] o3])
    then show ?thesis using owns_detail m' by simp
  qed
qed

text \<open>Opening the next file.\<close>

lemma GetFilePtr_short:
  assumes "short m"
  shows "\<exists>v f w'. GetFilePtr (fm_path m) (fm_yyyymmdd m) (fm_hour m) (fm_fileId m) w = Inr (f, w') \<and> same_files w v \<and> c_fopen_append (cur_name m) v = (f, w')"
proof -
  have l: "length (fm_path m) \<le> 242" "take 255 (detail_name (fm_path m) (fm_yyyymmdd m) (fm_hour m) (fm_fileId m) ''.txt'') = cur_name m"
    using assms short_name [OF assms] by (simp_all add: short_def cur_name_def)
  then show ?thesis
    using GetFilePtr_buf [of "fm_yyyymmdd m" "fm_hour m" "fm_fileId m" "fm_path m" w] assms by (auto simp: short_def) (metis surj_pair)
qed

lemma open_sound:
  assumes "short m" and "fm_fp m = None" and "GetFilePtr (fm_path m) (fm_yyyymmdd m) (fm_hour m) (fm_fileId m) w = Inr (f, w')"
  shows "detail_sound {#} m w (m\<lparr>fm_fp := f\<rparr>) w'"
proof -
  obtain v where v: "same_files w v" "c_fopen_append (cur_name m) v = (f, w')" using GetFilePtr_short [OF assms(1), of w] assms(3) by auto
  show ?thesis
  proof (cases f)
    case None
    then have "same_files w w'" using v dfo.fopen_failed same_files_trans by blast
    from detail_cong [OF detail_same [OF this], of "m\<lparr>fm_fp := f\<rparr>"] None assms(2) show ?thesis by simp
  next
    case (Some g)
    then have "owns cur_name fm_fp {#} m v (m\<lparr>fm_fp := Some g\<rparr>) w'" using dfo.fopen v(2) assms(2) short_name [OF assms(1)] by simp
    then show ?thesis using detail_trans0 [OF detail_same [OF v(1)] owns_detail] Some by simp
  qed
qed

definition clock_at :: "(u64 \<Rightarrow> date) \<Rightarrow> fsys \<Rightarrow> bool" where
  "clock_at lt w \<longleftrightarrow> clock_ok lt \<and> tv_usec w < 1000000"

lemma clock_same_time: "clock_at lt w \<Longrightarrow> same_time w w' \<Longrightarrow> clock_at lt w'"
  by (simp add: clock_at_def same_time_def)

definition runs :: "(u64 \<Rightarrow> date) \<Rightarrow> string multiset \<Rightarrow> FileMgr \<Rightarrow> fsys \<Rightarrow> FileMgr \<Rightarrow> fsys \<Rightarrow> bool" where
  "runs lt a m w m' w' \<longleftrightarrow> detail_sound a m w m' w' \<and> short m' \<and> same_time w w'"

lemma runs_trans0: "runs lt {#} m w m' w' \<Longrightarrow> runs lt b m' w' m'' w'' \<Longrightarrow> runs lt b m w m'' w''"
  by (auto simp: runs_def intro: detail_trans0 same_time_trans)

lemma Switch_runs:
  assumes "clock_at lt w" and "short m"
  shows "\<exists>m' w'. SwitchFile lt force m w = Inr (m', w') \<and> runs lt {#} m w m' w'"
proof (cases "bApply m \<and> switch_due lt force m w")
  case False
  then show ?thesis using assms by (auto simp: SwitchFile_def runs_def)
next
  case True
  obtain y h where yh: "GenDirId lt w = (y, h)" by force
  obtain m1 w1 where r: "retire_file m w = (m1, w1)" by force
  note s1 = retire_sound [OF r assms(2)]
  define m2 where "m2 = m1\<lparr>fm_yyyymmdd := y, fm_hour := h, fm_fileId := GenFileId lt w, fm_curPos := 0\<rparr>"
  have m2: "short m2" "fm_fp m2 = None" "fm_path m2 = fm_path m1"
    using assms clock_ids [of lt w] s1 yh by (auto simp: m2_def short_def clock_at_def)
  obtain f w3 where g: "GetFilePtr (fm_path m2) (fm_yyyymmdd m2) (fm_hour m2) (fm_fileId m2) w1 = Inr (f, w3)"
    using GetFilePtr_short [OF m2(1)] by blast
  have "detail_sound {#} m1 w1 (m2\<lparr>fm_fp := f\<rparr>) w3"
    using detail_trans0 [OF detail_forget [OF m2(2,3)] open_sound [OF m2(1,2) g]] .
  then have s: "detail_sound {#} m w (m2\<lparr>fm_fp := f\<rparr>) w3" using s1 detail_trans0 by blast
  have res: "SwitchFile lt force m w = Inr (m2\<lparr>fm_fp := f, fm_lastSwitch := tv_sec w3\<rparr>, w3)"
    using True yh r g by (simp add: SwitchFile_def m2_def)
  have "same_time w w3" using time_retire [OF r] time_GetFilePtr [OF g] same_time_trans by blast
  then show ?thesis unfolding res runs_def using m2(1) detail_cong [OF s, of "m2\<lparr>fm_fp := f, fm_lastSwitch := tv_sec w3\<rparr>"] by simp
qed

lemma give_up_runs:
  assumes "clock_at lt w" and "short m"
  shows "\<exists>m' w'. give_up lt m w = Inr (- 1, m', w') \<and> runs lt {#} m w m' w'"
  using Switch_runs [OF assms, of True] by (auto simp: give_up_def)

lemma runs_give_up:
  assumes "runs lt {#} m w m1 w1" and "clock_at lt w"
  shows "\<exists>m' w'. give_up lt m1 w1 = Inr (- 1, m', w') \<and> runs lt {#} m w m' w'"
proof -
  have "clock_at lt w1" "short m1" using assms clock_same_time by (auto simp: runs_def)
  from give_up_runs [OF this] show ?thesis using runs_trans0 [OF assms(1)] by blast
qed

lemma Write_runs:
  assumes "clock_at lt w" and "short m"
  shows "\<exists>r m' w'. WriteToFile lt content m w = Inr (r, m', w') \<and> (r = 0 \<or> r = - 1) \<and> runs lt (if r = 0 then {#content#} else {#}) m w m' w'"
proof (cases "bApply m")
  case False
  then show ?thesis using assms by (simp add: WriteToFile_def runs_def)
next
  case True
  obtain m1 w1 where s: "SwitchFile lt False m w = Inr (m1, w1)" and r1: "runs lt {#} m w m1 w1" using Switch_runs [OF assms] by blast
  show ?thesis
  proof (cases "fm_fp m1")
    case None
    then have w: "WriteToFile lt content m w = give_up lt m1 w1" using True s by (simp add: WriteToFile_def)
    show ?thesis unfolding w using runs_give_up [OF r1 assms(1)] by (force intro: exI [of _ "- 1"])
  next
    case (Some f)
    obtain n g u where g: "c_fwrite content f (after_read m1 w1) = (n, g, u)" by (metis prod_cases3)
    define m2 where "m2 = m1\<lparr>fm_fp := Some g, fm_reading := False\<rparr>"
    note gs = c_fwrite_sound [OF g]
    have "owns cur_name fm_fp {#} m1 w1 (m1\<lparr>fm_fp := Some g\<rparr>) u"
      using dfo.stream [OF same_files_trans [OF same_after_read [of w1 m1]] Some] gs by blast
    then have "owns cur_name fm_fp {#} m1 w1 m2 u" using owns_cong by (fastforce simp: m2_def)
    moreover have "same_time w1 u" using time_fwrite [OF g] by (auto simp: after_read_def same_time_def split: if_splits)
    ultimately have r2: "runs lt {#} m w m2 u"
      using r1 runs_trans0 [OF r1, of "{#}" m2 u] owns_detail [of "{#}" m1 w1 m2 u] by (simp add: runs_def m2_def)
    show ?thesis
    proof (cases "length content = n")
      case False
      then have w: "WriteToFile lt content m w = give_up lt m2 u" using True s Some g by (simp add: WriteToFile_def m2_def)
      show ?thesis unfolding w using runs_give_up [OF r2 assms(1)] by (force intro: exI [of _ "- 1"])
    next
      case full: True
      obtain q h t where q: "c_fflush g u = (q, h, t)" by (metis prod_cases3)
      define m3 where "m3 = m2\<lparr>fm_fp := Some h\<rparr>"
      have buf: "fbuf g = fbuf f @ content" using gs full by simp
      have t: "same_time u t" by (rule time_fflush [OF q])
      have f2: "fm_fp m2 = Some g" by (simp add: m2_def)
      from dfo.fflush [OF q f2, of "fbuf f" content] buf
      have o: "owns cur_name fm_fp {#} m2 u m3 t" "q \<noteq> EOF \<longrightarrow> owns cur_name fm_fp {#content#} m2 u m3 t" by (auto simp: m3_def)
      have sh: "short m3" "fm_path m3 = fm_path m2" using r2 by (simp_all add: m3_def runs_def)
      have r3: "runs lt {#} m2 u m3 t" "q \<noteq> EOF \<Longrightarrow> runs lt {#content#} m2 u m3 t" using o sh t owns_detail by (auto simp: runs_def)
      have w: "WriteToFile lt content m w = (if q = EOF then give_up lt m3 t else Inr (0, m3\<lparr>fm_curPos := fm_curPos m3 + word_of_nat (length content)\<rparr>, t))"
        using True s Some g full q by (simp add: WriteToFile_def m2_def m3_def)
      show ?thesis
      proof (cases "q = EOF")
        case True
        then show ?thesis unfolding w using runs_give_up [OF runs_trans0 [OF r2 r3(1)] assms(1)] by (force intro: exI [of _ "- 1"])
      next
        case False
        then have "runs lt {#content#} m w m3 t" using runs_trans0 [OF r2 r3(2)] by blast
        then show ?thesis unfolding w
          using False detail_cong [of "{#content#}" m w m3 t "m3\<lparr>fm_curPos := fm_curPos m3 + word_of_nat (length content)\<rparr>"]
          by (simp add: runs_def)
      qed
    qed
  qed
qed

lemma SwitchToNewFile_runs:
  assumes "clock_at lt w" and "short m"
  shows "\<exists>m' w'. SwitchToNewFile lt m w = Inr (m', w') \<and> runs lt {#} m w m' w'"
  using Switch_runs [OF assms] assms(2) by (auto simp: SwitchToNewFile_def runs_def)

lemma Close_sound:
  assumes "short m" and "fm_Close lt m w = (m', w')"
  shows "detail_sound {#} m w m' w' \<and> same_time w w' \<and> (bApply m \<longrightarrow> fm_fp m' = None)"
proof (cases "bApply m")
  case False
  then show ?thesis using assms detail_cong [OF detail_refl, of "m\<lparr>bApply := False\<rparr>" m w] by (auto simp: fm_Close_def CloseCurFile_def)
next
  case True
  obtain m1 w1 where r: "retire_file m w = (m1, w1)" by force
  note s = retire_sound [OF r assms(1)]
  have "w' = w1" "fm_fp m' = None" "fm_path m' = fm_path m1"
    using assms(2) True r s by (auto simp: fm_Close_def CloseCurFile_def split: prod.splits)
  then show ?thesis using s detail_trans0 [OF _ detail_forget] time_retire [OF r] by blast
qed

end
