(* ===== verification/MessageFiles.thy ===== *)
theory MessageFiles
  imports DetailFilesProps StrMap
begin

text \<open>
  The table of the message detail files, \<^verbatim>\<open>src/msgFile/MessageFilesImpl.cpp\<close>: one \<open>FileMgr\<close> per kind of message, made by the
  six \<open>Init\<close> functions, the renaming of what a crashed run has left, and the count of files that were not uploaded.
\<close>

section \<open>Walking through a directory\<close>

definition sys_kind :: "string list \<Rightarrow> string \<Rightarrow> fsys \<Rightarrow> bool option \<times> fsys" where
  "sys_kind ds p w =
     (let (r, w) = next_out w
      in (if r \<noteq> Ok then None else if p \<in> set ds then Some True else if p \<in> fst ` set (names w) then Some False else None, w))"

lemma longer_fewer: "(p @ x) \<in> set ds \<Longrightarrow> x \<noteq> [] \<Longrightarrow> length (filter (\<lambda>d. length (p @ x) < length d) ds) < length (filter (\<lambda>d. length p < length d) ds)"
proof (induction ds)
  case (Cons d ds)
  have "length (filter (\<lambda>d. length (p @ x) < length d) es) \<le> length (filter (\<lambda>d. length p < length d) es)" for es :: "'a list list"
    by (induction es) auto
  then show ?case using Cons by (fastforce simp: less_Suc_eq_le)
qed simp

text \<open>
  The loop that \<open>EnumTmpFile\<close> and \<open>EnumNoUploadFiles\<close> share; \<open>f\<close> is what they do with a file. The walk makes no
  directory, so the directories are those at its start, \<open>ds\<close>. Without a list of entries the folder is still to be opened.
\<close>

function enum_dir ::
  "(string list \<Rightarrow> string list) \<Rightarrow> string list \<Rightarrow> (fsys \<Rightarrow> string \<Rightarrow> 'a \<Rightarrow> c_fault + 'a) \<Rightarrow> string \<Rightarrow> string list option \<Rightarrow> 'a \<Rightarrow> fsys \<Rightarrow> c_fault + 'a \<times> fsys" where
  "enum_dir readdir ds f folder None acc w =
     (let (es, w) = sys_opendir folder w
      in case es of None \<Rightarrow> Inr (acc, w) | Some es \<Rightarrow> enum_dir readdir ds f folder (Some (readdir es)) acc w)"
| "enum_dir readdir ds f folder (Some []) acc w = Inr (acc, w)"
| "enum_dir readdir ds f folder (Some (e # es)) acc w =
     (if e = ''.'' \<or> e = ''..'' then enum_dir readdir ds f folder (Some es) acc w
      else let str = folder @ ''/'' @ e; (k, w) = sys_kind ds str w
           in if k = None then enum_dir readdir ds f folder (Some es) acc w
              else if str \<in> set ds
              then (case enum_dir readdir ds f str None acc w of
                      Inl e \<Rightarrow> Inl e
                    | Inr (acc, w) \<Rightarrow> enum_dir readdir ds f folder (Some es) acc w)
              else (case f w str acc of
                      Inl e \<Rightarrow> Inl e
                    | Inr acc \<Rightarrow> enum_dir readdir ds f folder (Some es) acc w))"
  by pat_completeness auto

termination
  by (relation "measures [\<lambda>(readdir, ds, f, folder, es, acc, w). length (filter (\<lambda>d. length folder < length d) ds),
      \<lambda>(readdir, ds, f, folder, es, acc, w). if es = None then 1 else 0, \<lambda>(readdir, ds, f, folder, es, acc, w). case es of None \<Rightarrow> 0 | Some es \<Rightarrow> length es]")
    (auto intro: longer_fewer [where x = "CHR ''/'' # _", simplified])

text \<open>\<open>find_last_of('.')\<close>: a value of \<^const>\<open>None\<close> is \<open>npos\<close>, which is not less than 4.\<close>

definition last_dot :: "string \<Rightarrow> nat option" where
  "last_dot s = (if CHR ''.'' \<in> set s then Some (length s - 1 - length (takeWhile (\<lambda>c. c \<noteq> CHR ''.'') (rev s))) else None)"

definition part_is :: "string \<Rightarrow> nat \<Rightarrow> nat \<Rightarrow> string \<Rightarrow> bool" where
  "part_is s pos n t \<longleftrightarrow> take n (drop pos s) = t"

definition tmp_file :: "fsys \<Rightarrow> string \<Rightarrow> string list \<Rightarrow> c_fault + string list" where
  "tmp_file w str vFileName =
     (case last_dot str of
        None \<Rightarrow> Inl Out_of_range
      | Some pos \<Rightarrow>
          if pos < 4 then Inr vFileName
          else if \<not> part_is str (pos - 3) 7 ''_ok.txt'' \<and> \<not> part_is str (pos - 4) 8 ''_bak.txt'' \<and> \<not> part_is str (pos - 4) 8 ''_bak.zip''
          then Inr (vFileName @ [str]) else Inr vFileName)"

definition EnumTmpFile :: "(string list \<Rightarrow> string list) \<Rightarrow> string \<Rightarrow> fsys \<Rightarrow> c_fault + string list \<times> fsys" where
  "EnumTmpFile readdir szFolderName w = enum_dir readdir (dirs w) tmp_file szFolderName None [] w"

text \<open>\<open>mtime\<close> gives the time a file was last changed at.\<close>

definition late_file :: "(string \<Rightarrow> u64) \<Rightarrow> c_int \<Rightarrow> fsys \<Rightarrow> string \<Rightarrow> c_int \<Rightarrow> c_fault + c_int" where
  "late_file mtime nMin w str nCount =
     (case last_dot str of
        None \<Rightarrow> Inl Out_of_range
      | Some pos \<Rightarrow>
          if pos < 4 then Inr nCount
          else if part_is str (pos - 3) 7 ''_ok.txt'' \<and> sint (tv_sec w - mtime str) > sint (nMin * 60) then Inr (nCount + 1) else Inr nCount)"

definition EnumNoUploadFiles ::
  "(string list \<Rightarrow> string list) \<Rightarrow> (string \<Rightarrow> u64) \<Rightarrow> string \<Rightarrow> c_int \<Rightarrow> c_int \<Rightarrow> fsys \<Rightarrow> c_fault + c_int \<times> fsys" where
  "EnumNoUploadFiles readdir mtime szFolderName nMin nCount w = enum_dir readdir (dirs w) (late_file mtime nMin) szFolderName None nCount w"

section \<open>The table\<close>

record MessageFilesImpl =
  szMainPath :: string
  mf_gateNo :: c_int
  szPtCode :: string
  details :: "(string \<times> FileMgr) list"

abbreviation MSGFILES_FOLDER_NAME :: string where "MSGFILES_FOLDER_NAME \<equiv> ''MsgFiles''"

text \<open>The new name is put together in a buffer of 1024 characters.\<close>

fun rename_tmp :: "string list \<Rightarrow> fsys \<Rightarrow> c_fault + fsys" where
  "rename_tmp [] w = Inr w"
| "rename_tmp (it # its) w =
     (let buffer = take (length it - 4) it @ ''_ok.txt''
      in if length buffer \<ge> 1024 then Inl Overrun else rename_tmp its (snd (sys_rename it buffer w)))"

definition ScanfAndRenameTmpFile :: "(string list \<Rightarrow> string list) \<Rightarrow> MessageFilesImpl \<Rightarrow> fsys \<Rightarrow> c_fault + fsys" where
  "ScanfAndRenameTmpFile readdir m w =
     (case EnumTmpFile readdir (szMainPath m @ MSGFILES_FOLDER_NAME) w of Inl e \<Rightarrow> Inl e | Inr (tmpFiles, w) \<Rightarrow> rename_tmp tmpFiles w)"

definition MessageFilesImpl_new :: "(string list \<Rightarrow> string list) \<Rightarrow> string option \<Rightarrow> fsys \<Rightarrow> c_fault + MessageFilesImpl \<times> fsys" where
  "MessageFilesImpl_new readdir link w =
     (let m = \<lparr>szMainPath = GetExePath link, mf_gateNo = 0, szPtCode = [], details = []\<rparr>
      in case ScanfAndRenameTmpFile readdir m w of Inl e \<Rightarrow> Inl e | Inr w \<Rightarrow> Inr (m, w))"

definition InitParams :: "string \<Rightarrow> c_int \<Rightarrow> MessageFilesImpl \<Rightarrow> bool \<times> MessageFilesImpl" where
  "InitParams ptCode gateNo m = (if ptCode = [] then (False, m) else (True, m\<lparr>szPtCode := ptCode, mf_gateNo := gateNo\<rparr>))"

definition mf_updateGenFreq :: "c_int \<Rightarrow> MessageFilesImpl \<Rightarrow> MessageFilesImpl" where
  "mf_updateGenFreq freq m = m\<lparr>details := map (\<lambda>(k, f). (k, fm_updateGenFreq (limit_freq freq) f)) (details m)\<rparr>"

definition mf_updateMaxFileSize :: "c_int \<Rightarrow> MessageFilesImpl \<Rightarrow> MessageFilesImpl" where
  "mf_updateMaxFileSize sz m = m\<lparr>details := map (\<lambda>(k, f). (k, fm_updateMaxFileSize (limit_size sz) f)) (details m)\<rparr>"

definition detail_path :: "string \<Rightarrow> c_int \<Rightarrow> string \<Rightarrow> MessageFilesImpl \<Rightarrow> string" where
  "detail_path ptCode gateNo fileType m =
     szMainPath m @ MSGFILES_FOLDER_NAME @ ''/'' @ (if ptCode = [] then szPtCode m else ptCode) @ ''/'' @ fileType @ ''/'' @ sprintf_d gateNo"

text \<open>The six \<open>Init\<close> functions have the same text.\<close>

definition InitMtDetailsFile ::
  "(u64 \<Rightarrow> date) \<Rightarrow> string \<Rightarrow> c_int \<Rightarrow> string \<Rightarrow> c_int \<Rightarrow> c_int \<Rightarrow> MessageFilesImpl \<Rightarrow> fsys \<Rightarrow> c_fault + int \<times> MessageFilesImpl \<times> fsys" where
  "InitMtDetailsFile lt ptCode gateNo fileType maxFileSize genFreq m w =
     (if ptCode = [] \<and> szPtCode m = [] then Inr (- 1, m, w)
      else let pathTmp = detail_path ptCode gateNo fileType m
           in case MakeDirP pathTmp w of
                Inl e \<Rightarrow> Inl e
              | Inr (r, w) \<Rightarrow>
                  if r = - 1 then Inr (- 1, m, w)
                  else if map_of (details m) fileType \<noteq> None then Inr (0, m, w)
                  else case ApplyFileInfo lt pathTmp (limit_size maxFileSize) (limit_freq genFreq) (FileMgr_new lt w) w of
                         Inl e \<Rightarrow> Inl e
                       | Inr (nRet, file, w) \<Rightarrow> Inr (nRet, if nRet = 0 then m\<lparr>details := map_set fileType file (details m)\<rparr> else m, w))"

definition InitMtOkDetailsFile ::
  "(u64 \<Rightarrow> date) \<Rightarrow> string \<Rightarrow> c_int \<Rightarrow> string \<Rightarrow> c_int \<Rightarrow> c_int \<Rightarrow> MessageFilesImpl \<Rightarrow> fsys \<Rightarrow> c_fault + int \<times> MessageFilesImpl \<times> fsys" where
  "InitMtOkDetailsFile = InitMtDetailsFile"

definition InitReDetailsFile ::
  "(u64 \<Rightarrow> date) \<Rightarrow> string \<Rightarrow> c_int \<Rightarrow> string \<Rightarrow> c_int \<Rightarrow> c_int \<Rightarrow> MessageFilesImpl \<Rightarrow> fsys \<Rightarrow> c_fault + int \<times> MessageFilesImpl \<times> fsys" where
  "InitReDetailsFile = InitMtDetailsFile"

definition InitReOkDetailsFile ::
  "(u64 \<Rightarrow> date) \<Rightarrow> string \<Rightarrow> c_int \<Rightarrow> string \<Rightarrow> c_int \<Rightarrow> c_int \<Rightarrow> MessageFilesImpl \<Rightarrow> fsys \<Rightarrow> c_fault + int \<times> MessageFilesImpl \<times> fsys" where
  "InitReOkDetailsFile = InitMtDetailsFile"

definition InitMoDetailsFile ::
  "(u64 \<Rightarrow> date) \<Rightarrow> string \<Rightarrow> c_int \<Rightarrow> string \<Rightarrow> c_int \<Rightarrow> c_int \<Rightarrow> MessageFilesImpl \<Rightarrow> fsys \<Rightarrow> c_fault + int \<times> MessageFilesImpl \<times> fsys" where
  "InitMoDetailsFile = InitMtDetailsFile"

definition InitMoOkDetailsFile ::
  "(u64 \<Rightarrow> date) \<Rightarrow> string \<Rightarrow> c_int \<Rightarrow> string \<Rightarrow> c_int \<Rightarrow> c_int \<Rightarrow> MessageFilesImpl \<Rightarrow> fsys \<Rightarrow> c_fault + int \<times> MessageFilesImpl \<times> fsys" where
  "InitMoOkDetailsFile = InitMtDetailsFile"

definition bExistFile :: "string \<Rightarrow> MessageFilesImpl \<Rightarrow> bool" where
  "bExistFile fileType m \<longleftrightarrow> fileType \<noteq> [] \<and> map_of (details m) fileType \<noteq> None"

definition mf_WriteFile ::
  "(u64 \<Rightarrow> date) \<Rightarrow> string \<Rightarrow> string \<Rightarrow> MessageFilesImpl \<Rightarrow> fsys \<Rightarrow> c_fault + int \<times> MessageFilesImpl \<times> fsys" where
  "mf_WriteFile lt fileType dat m w =
     (case map_of (details m) fileType of
        None \<Rightarrow> Inr (- 1, m, w)
      | Some f \<Rightarrow>
          (case WriteToFile lt dat f w of
             Inl e \<Rightarrow> Inl e
           | Inr (r, f, w) \<Rightarrow> Inr (r, m\<lparr>details := map_set fileType f (details m)\<rparr>, w)))"

fun each_file :: "(FileMgr \<Rightarrow> fsys \<Rightarrow> c_fault + FileMgr \<times> fsys) \<Rightarrow> (string \<times> FileMgr) list \<Rightarrow> fsys \<Rightarrow> c_fault + (string \<times> FileMgr) list \<times> fsys" where
  "each_file op [] w = Inr ([], w)"
| "each_file op ((k, f) # fs) w =
     (case op f w of
        Inl e \<Rightarrow> Inl e
      | Inr (f, w) \<Rightarrow> (case each_file op fs w of Inl e \<Rightarrow> Inl e | Inr (fs, w) \<Rightarrow> Inr ((k, f) # fs, w)))"

definition SwitchMessageFiles :: "(u64 \<Rightarrow> date) \<Rightarrow> MessageFilesImpl \<Rightarrow> fsys \<Rightarrow> c_fault + MessageFilesImpl \<times> fsys" where
  "SwitchMessageFiles lt m w =
     (case each_file (SwitchToNewFile lt) (details m) w of Inl e \<Rightarrow> Inl e | Inr (fs, w) \<Rightarrow> Inr (m\<lparr>details := fs\<rparr>, w))"

definition CloseAll :: "(u64 \<Rightarrow> date) \<Rightarrow> MessageFilesImpl \<Rightarrow> fsys \<Rightarrow> c_fault + MessageFilesImpl \<times> fsys" where
  "CloseAll lt m w =
     (case each_file (\<lambda>f w. Inr (fm_Close lt f w)) (details m) w of Inl e \<Rightarrow> Inl e | Inr (fs, w) \<Rightarrow> Inr (m\<lparr>details := []\<rparr>, w))"

text \<open>The files of one day that wait for longer than \<open>nMin\<close> minutes.\<close>

fun late_files :: "(string list \<Rightarrow> string list) \<Rightarrow> (string \<Rightarrow> u64) \<Rightarrow> (string \<Rightarrow> string) \<Rightarrow> c_int \<Rightarrow> (string \<times> FileMgr) list \<Rightarrow> c_int \<Rightarrow> fsys \<Rightarrow> c_fault + c_int \<times> fsys" where
  "late_files readdir mtime path nMin [] cnt w = Inr (cnt, w)"
| "late_files readdir mtime path nMin ((k, f) # fs) cnt w =
     (case EnumNoUploadFiles readdir mtime (path k) nMin cnt w of
        Inl e \<Rightarrow> Inl e
      | Inr (cnt, w) \<Rightarrow> late_files readdir mtime path nMin fs cnt w)"

definition EnumNoUploadDay ::
  "(string list \<Rightarrow> string list) \<Rightarrow> (string \<Rightarrow> u64) \<Rightarrow> (u64 \<Rightarrow> date) \<Rightarrow> c_int \<Rightarrow> c_int \<Rightarrow> MessageFilesImpl \<Rightarrow> fsys \<Rightarrow> c_fault + c_int \<times> fsys" where
  "EnumNoUploadDay readdir mtime lt nDaySpan nMin m w =
     (let t = lt (tv_sec w - scast (nDaySpan * 24 * 3600));
          buffer = take 15 (pad0 4 (tm_year t + 1900) @ ''/'' @ pad0 2 (tm_mon t + 1) @ ''/'' @ pad0 2 (tm_mday t))
      in late_files readdir mtime
           (\<lambda>k. szMainPath m @ MSGFILES_FOLDER_NAME @ ''/'' @ szPtCode m @ ''/'' @ k @ ''/'' @ sprintf_d (mf_gateNo m) @ ''/'' @ buffer)
           nMin (details m) 0 w)"

definition GetLongTimeNoUploadFilesCnt ::
  "(string list \<Rightarrow> string list) \<Rightarrow> (string \<Rightarrow> u64) \<Rightarrow> (u64 \<Rightarrow> date) \<Rightarrow> c_int \<Rightarrow> MessageFilesImpl \<Rightarrow> fsys \<Rightarrow> c_fault + c_int \<times> fsys" where
  "GetLongTimeNoUploadFilesCnt readdir mtime lt nMin m w =
     (case EnumNoUploadDay readdir mtime lt 0 nMin m w of
        Inl e \<Rightarrow> Inl e
      | Inr (a, w) \<Rightarrow> (case EnumNoUploadDay readdir mtime lt 1 nMin m w of Inl e \<Rightarrow> Inl e | Inr (b, w) \<Rightarrow> Inr (a + b, w)))"

end
