(* ===== verification/MessageFilesProps.thy ===== *)
theory MessageFilesProps
  imports MessageFiles
begin

text \<open>
  What the message detail files guarantee: through all calls of \<open>MessageFilesImpl\<close>, with every way in which the calls of the operating
  system can fail, and through restarts of the program, a record that was accepted is in a file.
\<close>

section \<open>Single calls\<close>

lemma Close_runs:
  assumes "clock_at lt w" and "short m"
  shows "\<exists>m' w'. fm_Close lt m w = (m', w') \<and> runs lt {#} m w m' w'"
proof -
  obtain m' w' where c: "fm_Close lt m w = (m', w')" by force
  obtain m1 w1 where r: "retire_file m w = (m1, w1)" by force
  have "short m'"
    using c r retire_sound [OF r assms(2)] assms clock_ids [of lt w]
    by (auto simp: fm_Close_def CloseCurFile_def short_def clock_at_def split: if_splits prod.splits)
  then show ?thesis using Close_sound [OF assms(2) c] c by (auto simp: runs_def)
qed

lemma Apply_runs:
  assumes "clock_at lt w" and "length p \<le> 227"
  shows "\<exists>r f w' f0. ApplyFileInfo lt p a b (FileMgr_new lt v) w = Inr (r, f, w') \<and> fm_fp f0 = None \<and> fm_path f0 = p \<and> runs lt {#} f0 w f w'"
proof -
  define f0 where "f0 = (FileMgr_new lt v)\<lparr>fm_maxFileSize := limit_size a, fm_genFreq := limit_freq b, fm_path := p,
                     fm_yyyymmdd := fst (GenDirId lt w), fm_hour := snd (GenDirId lt w), fm_fileId := GenFileId lt w\<rparr>"
  have f0: "short f0" "fm_fp f0 = None" "fm_path f0 = p" using assms clock_ids [of lt w] by (simp_all add: f0_def short_def clock_at_def FileMgr_new_def)
  obtain f w' where g: "GetFilePtr (fm_path f0) (fm_yyyymmdd f0) (fm_hour f0) (fm_fileId f0) w = Inr (f, w')" using GetFilePtr_short [OF f0(1)] by blast
  define m where "m = (if f \<noteq> None then f0\<lparr>fm_fp := f, fm_lastSwitch := tv_sec w', bApply := True\<rparr> else f0\<lparr>fm_fp := f, fm_lastSwitch := tv_sec w'\<rparr>)"
  have "\<not> bApply (FileMgr_new lt v)" by (simp add: FileMgr_new_def)
  then have a: "ApplyFileInfo lt p a b (FileMgr_new lt v) w = Inr (if bApply m then 0 else - 1, m, w')"
    using g by (simp add: ApplyFileInfo_def m_def f0_def Let_def)
  have "runs lt {#} f0 w m w'"
    using detail_cong [OF open_sound [OF f0(1,2) g], of m] f0(1) time_GetFilePtr [OF g] by (simp add: runs_def m_def)
  then show ?thesis using a f0 by blast
qed

section \<open>The table\<close>

definition key_of :: "string \<Rightarrow> string" where
  "key_of p = basename (dirname p)"

lemma basename_join [simp]: "CHR ''/'' \<notin> set b \<Longrightarrow> basename (a @ CHR ''/'' # b) = b"
proof -
  assume "CHR ''/'' \<notin> set b"
  then have "takeWhile (\<lambda>c. c \<noteq> CHR ''/'') (rev b @ CHR ''/'' # rev a) = rev b" by (subst takeWhile_append2) auto
  then show ?thesis by (simp add: basename_def)
qed

lemma key_of_path: "CHR ''/'' \<notin> set k \<Longrightarrow> key_of (detail_path pt g k m) = k"
proof -
  assume k: "CHR ''/'' \<notin> set k"
  have g: "CHR ''/'' \<notin> set (sprintf_d g)" using show_int_chars by (force simp: sprintf_d_def is_digit_def)
  have "detail_path pt g k m =
    ((szMainPath m @ MSGFILES_FOLDER_NAME @ ''/'' @ (if pt = [] then szPtCode m else pt)) @ CHR ''/'' # k) @ CHR ''/'' # sprintf_d g"
    by (simp add: detail_path_def)
  then show ?thesis unfolding key_of_def by (simp only: dirname_join [OF g] basename_join [OF k])
qed

definition files_ok :: "(string \<times> FileMgr) list \<Rightarrow> bool" where
  "files_ok D \<longleftrightarrow> sorted_wrt str_less (map fst D) \<and> (\<forall>(k, f) \<in> set D. short f \<and> key_of (fm_path f) = k)"

definition table_ok :: "(u64 \<Rightarrow> date) \<Rightarrow> (string \<times> FileMgr) list \<Rightarrow> fsys \<Rightarrow> string list \<Rightarrow> bool" where
  "table_ok lt D w A \<longleftrightarrow> clock_at lt w \<and> files_ok D \<and>
     (\<not> collided w \<and> \<not> undefd w \<longrightarrow> fs_ok w \<and> (\<forall>(k, f) \<in> set D. owner_ok cur_name fm_fp w f) \<and> holds (contents w) (mset A))"

lemma owner_apart:
  assumes "owner_ok cur_name fm_fp w g" and "apart P w w'" and "fm_path g \<noteq> P"
  shows "owner_ok cur_name fm_fp w' g"
  using assms by (auto simp: owner_ok_def apart_def)

text \<open>One file of the table makes a step; the others keep theirs.\<close>

lemma table_others:
  assumes t: "table_ok lt D w A" and r: "runs lt (mset xs) f w f' w'" and o: "\<not> collided w \<Longrightarrow> \<not> undefd w \<Longrightarrow> owner_ok cur_name fm_fp w f"
    and n: "\<not> collided w'" "\<not> undefd w'"
  shows "fs_ok w' \<and> owner_ok cur_name fm_fp w' f' \<and> holds (contents w') (mset (xs @ A)) \<and>
    (\<forall>(k, g) \<in> set D. key_of (fm_path f) \<noteq> k \<longrightarrow> owner_ok cur_name fm_fp w' g)"
proof -
  have c: "\<not> collided w" "\<not> undefd w" using r n by (auto simp: runs_def detail_sound_def)
  then have w: "fs_ok w" "\<forall>(k, g) \<in> set D. owner_ok cur_name fm_fp w g" "holds (contents w) (mset A)" using t by (auto simp: table_ok_def)
  have s: "fs_ok w'" "owner_ok cur_name fm_fp w' f'" "apart (fm_path f) w w'" "holds (contents w') (mset xs + mset A)"
    using r n w(1,3) o [OF c] by (auto simp: runs_def detail_sound_def)
  have "owner_ok cur_name fm_fp w' g" if "(k, g) \<in> set D" "key_of (fm_path f) \<noteq> k" for k g
  proof -
    have "key_of (fm_path g) = k" using that(1) t by (auto simp: table_ok_def files_ok_def)
    then have "fm_path g \<noteq> fm_path f" using that(2) by auto
    then show ?thesis using owner_apart s(3) w(2) that(1) by auto
  qed
  then show ?thesis using s by auto
qed

lemma table_replace:
  assumes t: "table_ok lt (pre @ (k, f) # post) w A" and r: "runs lt (mset xs) f w f' w'"
  shows "table_ok lt (pre @ (k, f') # post) w' (xs @ A)"
proof -
  have fs: "files_ok (pre @ (k, f) # post)" and cl: "clock_at lt w" using t by (simp_all add: table_ok_def)
  have kf: "key_of (fm_path f) = k" "short f'" "fm_path f' = fm_path f" using fs r by (auto simp: files_ok_def runs_def detail_sound_def)
  have "files_ok (pre @ (k, f') # post)" using fs kf by (auto simp: files_ok_def)
  moreover have "clock_at lt w'" using clock_same_time [OF cl] r by (simp add: runs_def)
  moreover have "fs_ok w' \<and> (\<forall>(j, g) \<in> set (pre @ (k, f') # post). owner_ok cur_name fm_fp w' g) \<and> holds (contents w') (mset (xs @ A))"
    if n: "\<not> collided w'" "\<not> undefd w'"
  proof -
    have o: "\<not> collided w \<Longrightarrow> \<not> undefd w \<Longrightarrow> owner_ok cur_name fm_fp w f" using t by (auto simp: table_ok_def)
    have "k \<notin> set (map fst pre) \<union> set (map fst post)" using fs sorted_distinct [of "map fst (pre @ (k, f) # post)"] by (simp add: files_ok_def)
    then have j: "j \<noteq> k" if "(j, g) \<in> set pre \<union> set post" for j g using that by force
    note F = table_others [OF t r o n]
    have "owner_ok cur_name fm_fp w' g" if "(j, g) \<in> set pre \<union> set post" for j g
      using F j [OF that] that unfolding kf(1) by auto
    then show ?thesis using F by auto
  qed
  ultimately show ?thesis by (simp add: table_ok_def)
qed

lemma table_set:
  assumes t: "table_ok lt D w A" and k: "map_of D k = Some f" and r: "runs lt (mset xs) f w f' w'"
  shows "table_ok lt (map_set k f' D) w' (xs @ A)"
proof -
  obtain pre post where D: "D = pre @ (k, f) # post" using map_of_SomeD [OF k] by (meson split_list)
  have "sorted_wrt str_less (map fst D)" using t by (simp add: table_ok_def files_ok_def)
  then have "map_set k f' D = pre @ (k, f') # post" unfolding D by (rule map_set_replace)
  then show ?thesis using table_replace [OF t [unfolded D] r] by simp
qed

lemma table_insert:
  assumes t: "table_ok lt D w A" and k: "map_of D k = None" and r: "runs lt {#} f0 w f w'" and f0: "fm_fp f0 = None" "key_of (fm_path f0) = k"
  shows "table_ok lt (map_set k f D) w' A" and "table_ok lt D w' A"
proof -
  have fs: "files_ok D" and cl: "clock_at lt w" using t by (simp_all add: table_ok_def)
  have s: "sorted_wrt str_less (map fst D)" using fs by (simp add: files_ok_def)
  have f: "short f" "fm_path f = fm_path f0" "clock_at lt w'" using r clock_same_time [OF cl] by (auto simp: runs_def detail_sound_def)
  have "files_ok (map_set k f D)" using fs f f0 map_set_sorted [OF s] by (auto simp: files_ok_def map_set_member [OF s] split: if_splits)
  moreover have key: "k \<noteq> j" if "(j, g) \<in> set D" for j g using k that by (force simp: map_of_eq_None_iff)
  have n: "fs_ok w' \<and> owner_ok cur_name fm_fp w' f \<and> holds (contents w') (mset A) \<and> (\<forall>(j, g) \<in> set D. owner_ok cur_name fm_fp w' g)"
    if "\<not> collided w'" "\<not> undefd w'"
    using table_others [OF t, of "[]" f0 f w'] r f0 that key by (fastforce simp: owner_ok_def)
  ultimately show "table_ok lt (map_set k f D) w' A"
    using f(3) by (auto simp: table_ok_def map_set_member [OF s] split: if_splits)
  show "table_ok lt D w' A" using f(3) fs n by (auto simp: table_ok_def)
qed

lemma table_same:
  assumes "table_ok lt D w A" and "same_files w w'" and "same_time w w'"
  shows "table_ok lt D w' A"
proof -
  have "owner_ok cur_name fm_fp w' = owner_ok cur_name fm_fp w" using assms(2) by (simp add: owner_ok_def same_files_def fun_eq_iff)
  moreover have "clock_at lt w'" using assms clock_same_time by (auto simp: table_ok_def)
  moreover have "fs_ok w' = fs_ok w" "contents w' = contents w" "collided w' = collided w" "undefd w \<longrightarrow> undefd w'"
    using assms(2) fs_ok_same contents_same by (auto simp: same_files_def)
  ultimately show ?thesis using assms(1) unfolding table_ok_def by simp blast
qed

text \<open>All files make a step, one after the other.\<close>

lemma each_file_table:
  assumes op: "\<And>f w. clock_at lt w \<Longrightarrow> short f \<Longrightarrow> \<exists>f' w'. op f w = Inr (f', w') \<and> runs lt {#} f w f' w'"
  shows "table_ok lt (pre @ D) w A \<Longrightarrow> \<exists>D' w'. each_file op D w = Inr (D', w') \<and> table_ok lt (pre @ D') w' A"
proof (induction D arbitrary: pre w)
  case (Cons e D)
  obtain k f where e: "e = (k, f)" by force
  have "clock_at lt w" "short f" using Cons(2) by (auto simp: table_ok_def files_ok_def e)
  then obtain f' v where f': "op f w = Inr (f', v)" "runs lt {#} f w f' v" using op by blast
  have "table_ok lt ((pre @ [(k, f')]) @ D) v A" using table_replace [of lt pre k f D w A "[]" f' v] Cons(2) f'(2) e by simp
  then obtain D' w' where "each_file op D v = Inr (D', w')" "table_ok lt ((pre @ [(k, f')]) @ D') w' A" using Cons(1) by blast
  then show ?case using f'(1) e by auto
qed auto

section \<open>Renaming what a crashed run has left\<close>

declare enum_dir.simps [simp del]

lemma same_enum_dir: "enum_dir readdir ds f folder es acc w = Inr (acc', w') \<Longrightarrow> same_files w w' \<and> same_time w w'"
proof (induction readdir ds f folder es acc w arbitrary: acc' w' rule: enum_dir.induct)
  case (1 readdir ds f folder acc w)
  obtain q v where q: "sys_opendir folder w = (q, v)" by force
  then have "same_files w v" "same_time w v" by (auto simp: sys_opendir_def split: prod.splits dest: same_next_out time_next_out)
  then show ?case using 1(1) [OF q [symmetric]] 1(2) q same_files_trans same_time_trans by (auto simp: enum_dir.simps split: option.splits)
next
  case (3 readdir ds f folder e es acc w)
  note IH5 = 3(5) and eq = 3(6)
  obtain k v where k: "sys_kind ds (folder @ ''/'' @ e) w = (k, v)" by force
  have v: "same_files w v" "same_time w v" using k by (auto simp: sys_kind_def split: prod.splits dest: same_next_out time_next_out)
  note tr = same_files_trans [OF v(1)] same_time_trans [OF v(2)]
  show ?case
  proof (cases "e = ''.'' \<or> e = ''..''")
    case True
    then show ?thesis using 3(1) [OF True] 3(6) by (simp add: enum_dir.simps)
  next
    case ne: False
    have un: "enum_dir readdir ds f folder (Some (e # es)) acc w = (if k = None then enum_dir readdir ds f folder (Some es) acc v
      else if folder @ ''/'' @ e \<in> set ds
           then (case enum_dir readdir ds f (folder @ ''/'' @ e) None acc v of Inl e \<Rightarrow> Inl e | Inr (acc, w) \<Rightarrow> enum_dir readdir ds f folder (Some es) acc w)
           else (case f v (folder @ ''/'' @ e) acc of Inl e \<Rightarrow> Inl e | Inr acc \<Rightarrow> enum_dir readdir ds f folder (Some es) acc v))"
      unfolding enum_dir.simps(3) [of readdir ds f folder e es] Let_def k using ne by simp
    consider "k = None" | "k \<noteq> None" "folder @ ''/'' @ e \<in> set ds" | "k \<noteq> None" "folder @ ''/'' @ e \<notin> set ds" by blast
    then show ?thesis
    proof cases
      case 1
      then show ?thesis using 3(2) [OF ne refl refl k [symmetric] 1] 3(6) un tr by auto
    next
      case 2
      then obtain a u where a: "enum_dir readdir ds f (folder @ ''/'' @ e) None acc v = Inr (a, u)" using 3(6) un by (auto split: sum.splits)
      then have u: "same_files v u" "same_time v u" using 3(3) [OF ne refl refl k [symmetric] 2] by auto
      have "same_files u w' \<and> same_time u w'" using 3(4) [OF ne refl refl k [symmetric] 2 a refl] 3(6) un a 2 by auto
      then show ?thesis using tr u same_files_trans same_time_trans by blast
    next
      case 3
      then obtain a where a: "f v (folder @ ''/'' @ e) acc = Inr a" using eq un by (auto split: sum.splits)
      have "same_files v w' \<and> same_time v w'" using IH5 [OF ne refl refl k [symmetric] 3 a] eq un a 3 by auto
      then show ?thesis using tr by blast
    qed
  qed
qed (simp add: enum_dir.simps)

lemma rename_keeps:
  assumes q: "sys_rename p q w = (r, w')" and t: "table_ok lt [] w A"
  shows "table_ok lt [] w' A"
proof -
  have "fs_ok w' \<and> contents w' = contents w" if "fs_ok w" "\<not> collided w'"
    using sys_rename_result [OF q that] rename_files [OF that(1)] fs_ok_same contents_same that(1) by blast
  moreover have "clock_at lt w'" using t clock_same_time time_rename [OF q] by (auto simp: table_ok_def)
  ultimately show ?thesis using t sys_rename_mono [OF q] by (auto simp: table_ok_def files_ok_def)
qed

lemma rename_tmp_keeps: "rename_tmp its w = Inr w' \<Longrightarrow> table_ok lt [] w A \<Longrightarrow> table_ok lt [] w' A"
proof (induction its arbitrary: w)
  case (Cons it its)
  then show ?case using rename_keeps by (auto simp: Let_def split: if_splits) (metis surjective_pairing)
qed simp

lemma table_forget: "table_ok lt D w A \<Longrightarrow> table_ok lt [] w A"
  by (simp add: table_ok_def files_ok_def)

section \<open>All calls\<close>

text \<open>
  What can happen to the table, the file system and the list of the records that were accepted. The kinds are names of directories, and
  the paths fit. The clock moves and the outcomes of the next calls are anything. The program may end at any time without closing
  its files and start again.
\<close>

definition init_calls where
  "init_calls = [InitMtDetailsFile, InitMtOkDetailsFile, InitReDetailsFile, InitReOkDetailsFile, InitMoDetailsFile, InitMoOkDetailsFile]"

inductive detail_step :: "(u64 \<Rightarrow> date) \<Rightarrow> MessageFilesImpl \<times> fsys \<times> string list \<Rightarrow> MessageFilesImpl \<times> fsys \<times> string list \<Rightarrow> bool" for lt where
  params: "detail_step lt (m, w, A) (snd (InitParams pt g m), w, A)"
| init: "I \<in> set init_calls \<Longrightarrow> CHR ''/'' \<notin> set k \<Longrightarrow> length (detail_path pt g k m) \<le> 227 \<Longrightarrow>
    I lt pt g k mx fr m w = Inr (r, m', w') \<Longrightarrow> detail_step lt (m, w, A) (m', w', A)"
| put: "mf_WriteFile lt k x m w = Inr (r, m', w') \<Longrightarrow> detail_step lt (m, w, A) (m', w', if r = 0 then x # A else A)"
| switch: "SwitchMessageFiles lt m w = Inr (m', w') \<Longrightarrow> detail_step lt (m, w, A) (m', w', A)"
| close: "CloseAll lt m w = Inr (m', w') \<Longrightarrow> detail_step lt (m, w, A) (m', w', A)"
| freq: "detail_step lt (m, w, A) (mf_updateGenFreq x m, w, A)"
| max_size: "detail_step lt (m, w, A) (mf_updateMaxFileSize x m, w, A)"
| restart: "MessageFilesImpl_new readdir link w = Inr (m', w') \<Longrightarrow> detail_step lt (m, w, A) (m', w', A)"
| outside: "us < 1000000 \<Longrightarrow> detail_step lt (m, w, A) (m, w\<lparr>outs := os, tv_sec := s, tv_usec := us\<rparr>, A)"

lemma init_same: "I \<in> set init_calls \<Longrightarrow> I = InitMtDetailsFile"
  by (auto simp: init_calls_def InitMtOkDetailsFile_def InitReDetailsFile_def InitReOkDetailsFile_def InitMoDetailsFile_def InitMoOkDetailsFile_def)

lemma Init_table:
  assumes t: "table_ok lt (details m) w A" and k: "CHR ''/'' \<notin> set k" and l: "length (detail_path pt g k m) \<le> 227"
  shows "\<exists>r m' w'. InitMtDetailsFile lt pt g k mx fr m w = Inr (r, m', w') \<and> table_ok lt (details m') w' A"
proof (cases "pt = [] \<and> szPtCode m = []")
  case True
  then show ?thesis using t by (simp add: InitMtDetailsFile_def)
next
  case False
  let ?p = "detail_path pt g k m"
  have "?p \<noteq> []" "length ?p < 1024" using l by (simp_all add: detail_path_def)
  then obtain v where v: "MakeDirP ?p w = Inr (0, v)" using MakeDirP_reports_success by blast
  have tv: "table_ok lt (details m) v A" by (rule table_same [OF t same_MakeDirP [OF v] time_MakeDirP [OF v]])
  have un: "InitMtDetailsFile lt pt g k mx fr m w =
     (if map_of (details m) k \<noteq> None then Inr (0, m, v)
      else case ApplyFileInfo lt ?p (limit_size mx) (limit_freq fr) (FileMgr_new lt v) v of Inl e \<Rightarrow> Inl e
           | Inr (nRet, file, w) \<Rightarrow> Inr (nRet, if nRet = 0 then m\<lparr>details := map_set k file (details m)\<rparr> else m, w))"
    unfolding InitMtDetailsFile_def if_not_P [OF False] Let_def v by simp
  show ?thesis
  proof (cases "map_of (details m) k")
    case (Some f)
    then show ?thesis using tv un by simp
  next
    case None
    have "clock_at lt v" using tv by (simp add: table_ok_def)
    from Apply_runs [OF this l] obtain r f w' f0 where
      a: "ApplyFileInfo lt ?p (limit_size mx) (limit_freq fr) (FileMgr_new lt v) v = Inr (r, f, w')" "fm_fp f0 = None" "fm_path f0 = ?p" "runs lt {#} f0 v f w'"
      by blast
    have "key_of (fm_path f0) = k" using a(3) key_of_path [OF k] by simp
    from table_insert [OF tv None a(4,2) this] show ?thesis using un None a(1) by simp
  qed
qed

lemma Write_table:
  assumes t: "table_ok lt (details m) w A"
  shows "\<exists>r m' w'. mf_WriteFile lt k x m w = Inr (r, m', w') \<and> table_ok lt (details m') w' (if r = 0 then x # A else A)"
proof (cases "map_of (details m) k")
  case None
  then show ?thesis using t by (simp add: mf_WriteFile_def)
next
  case (Some f)
  then have "clock_at lt w" "short f" using t by (auto simp: table_ok_def files_ok_def dest: map_of_SomeD)
  from Write_runs [OF this] obtain r f' w' where
    w: "WriteToFile lt x f w = Inr (r, f', w')" "runs lt (if r = 0 then {#x#} else {#}) f w f' w'" by blast
  have "runs lt (mset (if r = 0 then [x] else [])) f w f' w'" using w(2) by (simp split: if_splits)
  from table_set [OF t Some this] show ?thesis using Some w(1) by (auto simp: mf_WriteFile_def split: if_splits)
qed

lemma details_updates:
  assumes "table_ok lt D w A" and "\<And>f. cur_name (g f) = cur_name f \<and> fm_fp (g f) = fm_fp f \<and> fm_path (g f) = fm_path f \<and> short (g f) = short f"
  shows "table_ok lt (map (\<lambda>(k, f). (k, g f)) D) w A"
proof -
  have "fst \<circ> (\<lambda>(k, f). (k, g f)) = (fst :: string \<times> FileMgr \<Rightarrow> string)" by auto
  then show ?thesis using assms by (auto simp: table_ok_def files_ok_def owner_ok_def)
qed

lemma step_table:
  assumes "detail_step lt s s'" and "\<And>m w A. s = (m, w, A) \<Longrightarrow> table_ok lt (details m) w A"
  shows "case s' of (m, w, A) \<Rightarrow> table_ok lt (details m) w A"
  using assms
proof cases
  case (params m w A pt g)
  then show ?thesis using assms(2) by (simp add: InitParams_def)
next
  case (init I k pt g m mx fr w r m' w' A)
  then show ?thesis using Init_table [OF assms(2) init(4,5), of w A mx fr] init_same by fastforce
next
  case (put k x m w r m' w' A)
  then show ?thesis using Write_table [OF assms(2), of m w A k x] by auto
next
  case (switch m w m' w' A)
  have "table_ok lt ([] @ details m) w A" using assms(2) switch by simp
  from each_file_table [OF SwitchToNewFile_runs this] show ?thesis using switch by (auto simp: SwitchMessageFiles_def)
next
  case (close m w m' w' A)
  have "table_ok lt ([] @ details m) w A" using assms(2) close by simp
  moreover have "\<exists>f' w'. Inr (fm_Close lt f w) = (Inr (f', w') :: c_fault + FileMgr \<times> fsys) \<and> runs lt {#} f w f' w'" if "clock_at lt w" "short f" for f w
    using Close_runs [OF that] by auto
  ultimately show ?thesis using each_file_table [of lt "\<lambda>f w. Inr (fm_Close lt f w)" "[]" "details m" w A] close table_forget by (auto simp: CloseAll_def)
next
  case (freq m w A x)
  then show ?thesis using details_updates [OF assms(2), of m w A "fm_updateGenFreq (limit_freq x)"]
    by (simp add: mf_updateGenFreq_def fm_updateGenFreq_def Let_def)
next
  case (max_size m w A x)
  then show ?thesis using details_updates [OF assms(2), of m w A "fm_updateMaxFileSize (limit_size x)"]
    by (simp add: mf_updateMaxFileSize_def fm_updateMaxFileSize_def Let_def)
next
  case (restart readdir link w m' w' m A)
  then obtain fs v where e: "EnumTmpFile readdir (GetExePath link @ MSGFILES_FOLDER_NAME) w = Inr (fs, v)" "rename_tmp fs v = Inr w'" "details m' = []"
    by (auto simp: MessageFilesImpl_new_def ScanfAndRenameTmpFile_def split: sum.splits prod.splits)
  have "table_ok lt [] w A" using assms(2) restart table_forget by blast
  then have "table_ok lt [] v A" using same_enum_dir [OF e(1) [unfolded EnumTmpFile_def]] table_same by blast
  then show ?thesis using rename_tmp_keeps [OF e(2)] e(3) restart by simp
next
  case (outside us m w A os s)
  have "table_ok lt (details m) w A" using assms(2) outside by simp
  then show ?thesis using outside by (auto simp: table_ok_def clock_at_def fs_ok_def contents_def owner_ok_def)
qed

text \<open>C9: no record that \<open>WriteFile\<close> accepted is lost: whatever the calls of the operating system do, and through restarts of the program,
  the files hold every accepted record, unless a file name was in use already or a stream was written to right after a failed read; and the
  next write returns.
\<close>

theorem no_detail_lost:
  assumes "clock_ok lt" and "tv_usec w0 < 1000000" and "fs_ok w0" and "details m0 = []"
    and "(detail_step lt)\<^sup>*\<^sup>* (m0, w0, []) (m, w, A)" and "\<not> collided w" and "\<not> undefd w"
  shows "holds (contents w) (mset A) \<and> (\<exists>r m' w'. mf_WriteFile lt k x m w = Inr (r, m', w'))"
proof -
  have "case (m, w, A) of (m, w, A) \<Rightarrow> table_ok lt (details m) w A"
    using assms(5)
  proof (induction "(m, w, A)" arbitrary: m w A rule: rtranclp_induct)
    case base
    then show ?case using assms(1-4) holds_nothing by (simp add: table_ok_def files_ok_def clock_at_def)
  next
    case (step s)
    obtain m' w' A' where "s = (m', w', A')" by (metis prod_cases3)
    then show ?case using step_table [OF step(2)] step(3) by auto
  qed
  then have t: "table_ok lt (details m) w A" by simp
  then show ?thesis using assms(6,7) Write_table [OF t, of k x] unfolding table_ok_def by blast
qed

section \<open>A run\<close>

definition demo_clock :: "u64 \<Rightarrow> date" where
  "demo_clock s = \<lparr>tm_mon = 0, tm_mday = 2, tm_hour = 0, tm_min = 0, tm_sec = 0, tm_year = 120\<rparr>"

definition demo_dirs :: "string list" where
  "demo_dirs = [''p/MsgFiles/p/MT/7'', ''p'', ''p/MsgFiles'', ''p/MsgFiles/p'', ''p/MsgFiles/p/MT'', ''p/MsgFiles/p/MT/7/2020'', ''p/MsgFiles/p/MT/7/2020/01'',
     ''p/MsgFiles/p/MT/7/2020/01/02'', ''p/MsgFiles/p/MT/7/2020/01/02/00'']"

definition demo_files :: "fsys" where
  "demo_files = \<lparr>names = [], data = (\<lambda>_. []), dirs = demo_dirs, nextIno = 0, outs = [], tv_sec = 0, tv_usec = 5000, collided = False, undefd = False\<rparr>"

definition demo_table :: MessageFilesImpl where
  "demo_table = \<lparr>szMainPath = ''p/'', mf_gateNo = 0, szPtCode = [], details = []\<rparr>"

definition demo_parts :: "string list" where
  "demo_parts = [''/2020'', ''/01'', ''/02'', ''/00'']"

lemma demo_2020: "pad_int 4 2020 = ''2020''"
  by code_simp
lemma demo_01: "pad_int 2 1 = ''01''"
  by code_simp
lemma demo_02: "pad_int 2 2 = ''02''"
  by code_simp
lemma demo_00: "pad_int 2 0 = ''00''"
  by code_simp
lemma demo_day: "day_parts 20200102 0 = demo_parts"
  unfolding day_parts_def demo_parts_def by (simp add: demo_2020 demo_01 demo_02 demo_00)
lemma demo_id: "pad_int 9 5 = ''000000005''"
  by code_simp
lemma demo_gate: "sprintf_d 7 = ''7''"
  by code_simp
lemma demo_ids: "GenDirId demo_clock w = (20200102, 0)" "tv_usec w = 5000 \<Longrightarrow> GenFileId demo_clock w = 5"
  by (simp_all add: GenDirId_def GenFileId_def demo_clock_def Let_def)

lemma demo_mkdir: "p \<in> set demo_dirs \<Longrightarrow> p \<noteq> [] \<Longrightarrow> outs w = [] \<Longrightarrow> dirs w = demo_dirs \<Longrightarrow> MakeDir p w = Inr (0, w)"
  by (simp add: MakeDir_def sys_access_def exists_path_def)

lemma demo_mkdirp: "outs w = [] \<Longrightarrow> dirs w = demo_dirs \<Longrightarrow> MakeDirP ''p/MsgFiles/p/MT/7'' w = Inr (0, w)"
  by (simp add: MakeDirP_def demo_mkdir demo_dirs_def)

lemma demo_open: "outs w = [] \<Longrightarrow> dirs w = demo_dirs \<Longrightarrow> GetFilePtr ''p/MsgFiles/p/MT/7'' 20200102 0 5 w = Inr (c_fopen_append ''p/MsgFiles/p/MT/7/2020/01/02/00/000000005.txt'' w)"
  by (simp add: GetFilePtr_def demo_day demo_parts_def demo_id path_put_def demo_mkdir demo_dirs_def)


definition demo_name :: string where
  "demo_name = ''p/MsgFiles/p/MT/7/2020/01/02/00/000000005.txt''"

definition demo_ok :: string where
  "demo_ok = ''p/MsgFiles/p/MT/7/2020/01/02/00/000000005_ok.txt''"

definition demo_mgr :: "stream option \<Rightarrow> c_int \<Rightarrow> FileMgr" where
  "demo_mgr f n = \<lparr>fm_path = ''p/MsgFiles/p/MT/7'', fm_fp = f, fm_maxFileSize = 5, fm_genFreq = 60, fm_yyyymmdd = 20200102, fm_hour = 0, fm_fileId = 5,
     fm_curPos = n, fm_lastSwitch = 0, bApply = True, fm_reading = False\<rparr>"

lemma demo_mgr_simps [simp]:
  "fm_path (demo_mgr f n) = ''p/MsgFiles/p/MT/7''" "fm_fp (demo_mgr f n) = f" "fm_reading (demo_mgr f n) = False" "bApply (demo_mgr f n) = True" "fm_curPos (demo_mgr f n) = n"
  "(demo_mgr f n)\<lparr>fm_fp := g\<rparr> = demo_mgr g n" "(demo_mgr f n)\<lparr>fm_reading := False\<rparr> = demo_mgr f n" "(demo_mgr f n)\<lparr>fm_curPos := c\<rparr> = demo_mgr f c"
  "(demo_mgr f n)\<lparr>fm_fp := g, fm_reading := False\<rparr> = demo_mgr g n" "after_read (demo_mgr f n) w = w"
  "(demo_mgr f n)\<lparr>fm_lastSwitch := 0, fm_yyyymmdd := 20200102, fm_hour := 0, fm_fileId := 5, fm_curPos := c\<rparr> = demo_mgr f c"
  by (simp_all add: demo_mgr_def after_read_def)

definition demo_at :: "stream \<Rightarrow> c_int \<Rightarrow> MessageFilesImpl" where
  "demo_at f n = demo_table\<lparr>details := [(''MT'', demo_mgr (Some f) n)]\<rparr>"

lemma demo_names: "cur_name (demo_mgr f n) = demo_name" "done_name (demo_mgr f n) = demo_ok"
  by (simp_all add: cur_name_def done_name_def detail_name_def demo_mgr_def demo_day demo_parts_def demo_id demo_name_def demo_ok_def)

lemma demo_dirname: "dirname demo_name = ''p/MsgFiles/p/MT/7/2020/01/02/00''" "dirname demo_ok = ''p/MsgFiles/p/MT/7/2020/01/02/00''" "demo_name \<notin> set demo_dirs" "demo_ok \<notin> set demo_dirs"
  "demo_ok \<noteq> demo_name" "name_buf demo_name = demo_name" "name_buf demo_ok = demo_ok"
  by (simp_all add: demo_name_def demo_ok_def dirname_def demo_dirs_def name_buf_def)

lemma demo_in_dir: "dirs w = demo_dirs \<Longrightarrow> in_dir demo_name w" "dirs w = demo_dirs \<Longrightarrow> in_dir demo_ok w"
  by (simp_all add: in_dir_def demo_dirname) (simp_all add: demo_dirs_def)

lemma demo_mkpath: "szMainPath m = ''p/'' \<Longrightarrow> detail_path ''p'' 7 ''MT'' m = ''p/MsgFiles/p/MT/7''"
  by (simp add: detail_path_def demo_gate)

lemma demo_first:
  assumes "szMainPath m = ''p/''" and "details m = []"
  shows "InitMtDetailsFile demo_clock ''p'' 7 ''MT'' 5 60 m demo_files =
     Inr (0, m\<lparr>details := [(''MT'', demo_mgr (Some \<lparr>ino = 0, fbuf = [], closed = False\<rparr>) 0)]\<rparr>, demo_files\<lparr>names := [(demo_name, 0)], nextIno := 1\<rparr>)"
proof -
  have d: "dirs demo_files = demo_dirs" "outs demo_files = []" "names demo_files = []" "tv_usec demo_files = 5000" "nextIno demo_files = 0" "data demo_files = (\<lambda>_. [])" "tv_sec demo_files = 0"
    by (simp_all add: demo_files_def)
  have f: "c_fopen_append ''p/MsgFiles/p/MT/7/2020/01/02/00/000000005.txt'' demo_files =
    (Some \<lparr>ino = 0, fbuf = [], closed = False\<rparr>, demo_files\<lparr>names := [(demo_name, 0)], nextIno := 1\<rparr>)"
    unfolding demo_name_def [symmetric] by (simp add: c_fopen_append_def demo_in_dir demo_dirname d fun_upd_idem)
  show ?thesis
    by (simp add: InitMtDetailsFile_def demo_mkpath assms demo_mkdirp d ApplyFileInfo_def FileMgr_new_def demo_ids demo_open f demo_mgr_def
        limit_size_def limit_freq_def)
qed

lemma demo_again:
  assumes "szMainPath m = ''p/''" and "map_of (details m) ''MT'' \<noteq> None" and "outs w = []" and "dirs w = demo_dirs"
  shows "InitMtDetailsFile demo_clock ''p'' 7 ''MT'' 5 60 m w = Inr (0, m, w)"
  using assms by (simp add: InitMtDetailsFile_def demo_mkpath demo_mkdirp)

lemma demo_init:
  "InitMtDetailsFile demo_clock ''p'' 7 ''MT'' 5 60 demo_table demo_files =
     Inr (0, demo_at \<lparr>ino = 0, fbuf = [], closed = False\<rparr> 0, demo_files\<lparr>names := [(demo_name, 0)], nextIno := 1\<rparr>)"
  using demo_first [of demo_table] by (simp add: demo_table_def demo_at_def)

text \<open>A write with no failing call, and one of which nothing is written.\<close>

lemma demo_not_due: "tv_sec w = 0 \<Longrightarrow> sint n < 5242880 \<Longrightarrow> \<not> switch_due demo_clock False (demo_mgr f n) w"
  by (simp add: switch_due_def demo_ids demo_mgr_def)

lemma demo_put:
  assumes "outs w = []" and "tv_sec w = 0" and "sint n < 5242880"
  shows "WriteToFile demo_clock x (demo_mgr (Some \<lparr>ino = i, fbuf = [], closed = False\<rparr>) n) w =
    Inr (0, demo_mgr (Some \<lparr>ino = i, fbuf = [], closed = False\<rparr>) (n + word_of_nat (length x)), w\<lparr>data := (data w)(i := data w i @ x)\<rparr>)"
  using assms demo_not_due [OF assms(2,3)]
  by (simp add: WriteToFile_def SwitchFile_def c_fwrite_def c_fflush_def after_read_def touch_def sent_def put_out_def)

lemma demo_fail:
  assumes "outs w = [Part 0]" and "tv_sec w = 0" and "tv_usec w = 5000" and "dirs w = demo_dirs" and "map_of (names w) demo_name = Some i" and "x \<noteq> []" and "sint n < 5242880"
  shows "WriteToFile demo_clock x (demo_mgr (Some \<lparr>ino = i, fbuf = [], closed = False\<rparr>) n) w =
    Inr (- 1, demo_mgr (Some \<lparr>ino = nextIno w, fbuf = [], closed = False\<rparr>) 0,
      w\<lparr>outs := [], names := unlink_name demo_name (unlink_name demo_ok (names w)) @ [(demo_ok, i), (demo_name, nextIno w)],
        collided := collided w \<or> exists_path demo_ok w, data := (data w)(nextIno w := []), nextIno := nextIno w + 1\<rparr>)"
proof -
  define v where "v = w\<lparr>outs := []\<rparr>"
  define f where "f = \<lparr>ino = i, fbuf = [], closed = False\<rparr>"
  have v: "outs v = []" "dirs v = demo_dirs" "map_of (names v) demo_name = Some i" "tv_sec v = 0" "tv_usec v = 5000"
    using assms by (simp_all add: v_def)
  have out: "c_fwrite x f w = (0, f, v)" using assms by (simp add: c_fwrite_def touch_def next_out_def sent_def v_def f_def)
  define u where "u = v\<lparr>names := unlink_name demo_name (unlink_name demo_ok (names v)) @ [(demo_ok, i)], collided := collided v \<or> exists_path demo_ok v\<rparr>"
  have fl: "c_fflush f v = (0, f, v)" "c_fclose f v = (0, f\<lparr>closed := True\<rparr>, v)"
    using v by (simp_all add: c_fflush_def c_fclose_def touch_def put_out_def sent_def f_def)
  have rn: "sys_rename demo_name demo_ok v = (0, u)" using v demo_dirname by (simp add: sys_rename_def demo_in_dir u_def)
  have re: "retire_file (demo_mgr (Some f) n) v = (demo_mgr None n, u)"
    using fl rn by (simp add: retire_file_def demo_names demo_dirname)
  have un: "map_of (unlink_name demo_name N) demo_name = None" for N by (auto simp: unlink_name_def map_of_eq_None_iff)
  have op: "c_fopen_append demo_name u = (Some \<lparr>ino = nextIno w, fbuf = [], closed = False\<rparr>,
      u\<lparr>names := names u @ [(demo_name, nextIno u)], data := (data u)(nextIno u := []), nextIno := nextIno u + 1\<rparr>)"
    using v demo_dirname un by (simp add: c_fopen_append_def u_def demo_in_dir map_add_def) (simp add: v_def)
  have gp: "GetFilePtr ''p/MsgFiles/p/MT/7'' 20200102 0 5 u = Inr (c_fopen_append demo_name u)"
    unfolding demo_name_def using v by (intro demo_open) (simp_all add: u_def)
  have "SwitchFile demo_clock True (demo_mgr (Some f) n) v =
    Inr (demo_mgr (Some \<lparr>ino = nextIno w, fbuf = [], closed = False\<rparr>) 0, snd (c_fopen_append demo_name u))"
    using re gp op v by (simp add: SwitchFile_def switch_due_def demo_ids u_def)
  moreover have "snd (c_fopen_append demo_name u) = w\<lparr>outs := [], names := unlink_name demo_name (unlink_name demo_ok (names w)) @ [(demo_ok, i), (demo_name, nextIno w)],
        collided := collided w \<or> exists_path demo_ok w, data := (data w)(nextIno w := []), nextIno := nextIno w + 1\<rparr>"
    unfolding op by (simp add: u_def v_def exists_path_def)
  ultimately have g: "give_up demo_clock (demo_mgr (Some f) n) v = Inr (- 1, demo_mgr (Some \<lparr>ino = nextIno w, fbuf = [], closed = False\<rparr>) 0,
      w\<lparr>outs := [], names := unlink_name demo_name (unlink_name demo_ok (names w)) @ [(demo_ok, i), (demo_name, nextIno w)],
        collided := collided w \<or> exists_path demo_ok w, data := (data w)(nextIno w := []), nextIno := nextIno w + 1\<rparr>)"
    by (simp add: give_up_def)
  show ?thesis
    unfolding f_def [symmetric] using demo_not_due [OF assms(2,7)] out assms(6) g
    by (simp add: WriteToFile_def SwitchFile_def)
qed


lemma demo_write:
  "WriteToFile demo_clock x (demo_mgr (Some f) n) w = Inr (r, demo_mgr (Some g) c, w') \<Longrightarrow> mf_WriteFile demo_clock ''MT'' x (demo_at f n) w = Inr (r, demo_at g c, w')"
  by (simp add: mf_WriteFile_def demo_at_def)

definition demo_stored :: fsys where
  "demo_stored = demo_files\<lparr>names := [(demo_name, 0)], nextIno := 1, data := (\<lambda>_. [])(0 := ''abc'')\<rparr>"

lemma demo_accept: "(detail_step demo_clock)\<^sup>*\<^sup>* (demo_table, demo_files, []) (demo_at \<lparr>ino = 0, fbuf = [], closed = False\<rparr> 3, demo_stored, [''abc''])"
proof -
  let ?w = "demo_files\<lparr>names := [(demo_name, 0)], nextIno := 1\<rparr>" and ?f = "\<lparr>ino = 0, fbuf = [], closed = False\<rparr>"
  have "detail_step demo_clock (demo_table, demo_files, []) (demo_at ?f 0, ?w, [])"
    by (rule detail_step.init [where I = InitMtDetailsFile, OF _ _ _ demo_init]) (simp_all add: init_calls_def demo_mkpath demo_table_def)
  moreover have "WriteToFile demo_clock ''abc'' (demo_mgr (Some ?f) 0) ?w = Inr (0, demo_mgr (Some ?f) 3, demo_stored)"
    using demo_put [of ?w 0 "''abc''" 0] by (simp add: demo_files_def demo_stored_def)
  from detail_step.put [OF demo_write [OF this], of "[]"] have "detail_step demo_clock (demo_at ?f 0, ?w, []) (demo_at ?f 3, demo_stored, [''abc''])" by simp
  ultimately show ?thesis by (meson r_into_rtranclp rtranclp.rtrancl_into_rtrancl)
qed

theorem no_detail_lost_witness: "holds (contents demo_stored) {#''abc''#}"
  using no_detail_lost [OF _ _ _ _ demo_accept]
  by (simp add: demo_files_def demo_table_def fs_ok_def clock_ok_def demo_clock_def) (simp add: demo_stored_def demo_files_def)

text \<open>file names have a resolution of a millisecond. A record is accepted, and two writes fail in the millisecond in which the file was opened:
  each closes the file under the same final name, the second replaces the first, and the record is in no file.
\<close>

theorem rotation_overwrites:
  "\<exists>m w. (detail_step demo_clock)\<^sup>*\<^sup>* (demo_table, demo_files, []) (m, w, [''abc'']) \<and> contents w = {#[], []#}"
proof -
  let ?f = "\<lambda>i. \<lparr>ino = i, fbuf = [], closed = False\<rparr>"
  define a where "a = demo_stored\<lparr>outs := [Part 0], tv_sec := 0, tv_usec := 5000\<rparr>"
  define b where "b = a\<lparr>outs := [], names := [(demo_ok, 0), (demo_name, 1)], data := (data a)(1 := []), nextIno := 2\<rparr>"
  define c where "c = b\<lparr>outs := [Part 0], tv_sec := 0, tv_usec := 5000\<rparr>"
  define d where "d = c\<lparr>outs := [], names := [(demo_ok, 1), (demo_name, 2)], data := (data c)(2 := []), nextIno := 3, collided := True\<rparr>"
  have A: "outs a = [Part 0]" "tv_sec a = 0" "tv_usec a = 5000" "dirs a = demo_dirs" "names a = [(demo_name, 0)]" "nextIno a = 1" "collided a = False"
    by (simp_all add: a_def demo_stored_def demo_files_def)
  have C: "outs c = [Part 0]" "tv_sec c = 0" "tv_usec c = 5000" "dirs c = demo_dirs" "names c = [(demo_ok, 0), (demo_name, 1)]" "nextIno c = 2"
    using A by (simp_all add: b_def c_def)
  have one: "detail_step demo_clock (demo_at (?f 0) 3, demo_stored, [''abc'']) (demo_at (?f 0) 3, a, [''abc''])"
    unfolding a_def by (rule detail_step.outside) simp
  have "WriteToFile demo_clock ''x'' (demo_mgr (Some (?f 0)) 3) a = Inr (- 1, demo_mgr (Some (?f 1)) 0, b)"
    using demo_fail [OF A(1-4), of 0 "''x''" 3] A demo_dirname by (simp add: b_def unlink_name_def exists_path_def)
  from detail_step.put [OF demo_write [OF this], of "[''abc'']"] have two: "detail_step demo_clock (demo_at (?f 0) 3, a, [''abc'']) (demo_at (?f 1) 0, b, [''abc''])" by simp
  have three: "detail_step demo_clock (demo_at (?f 1) 0, b, [''abc'']) (demo_at (?f 1) 0, c, [''abc''])"
    unfolding c_def by (rule detail_step.outside) simp
  have "WriteToFile demo_clock ''x'' (demo_mgr (Some (?f 1)) 0) c = Inr (- 1, demo_mgr (Some (?f 2)) 0, d)"
    using demo_fail [OF C(1-4), of 1 "''x''" 0] C demo_dirname by (simp add: d_def unlink_name_def exists_path_def)
  from detail_step.put [OF demo_write [OF this], of "[''abc'']"] have four: "detail_step demo_clock (demo_at (?f 1) 0, c, [''abc'']) (demo_at (?f 2) 0, d, [''abc''])" by simp
  have "contents d = {#[], []#}" by (simp add: contents_def d_def c_def b_def a_def demo_stored_def demo_files_def)
  then show ?thesis using demo_accept one two three four by (meson rtranclp.rtrancl_into_rtrancl)
qed

section \<open>Names, reading, starting\<close>

text \<open>the buffer for the path of a file. Up to 227 characters for the directory the file gets its full name, up to 242 a name that is cut off
  (so that the rename at its end fails), and beyond that the buffer is overrun.
\<close>

theorem file_path_bounds:
  assumes "ids_ok y h i"
  shows "(length dir \<le> 227 \<longrightarrow> (\<exists>w'. GetFilePtr dir y h i w = Inr (c_fopen_append (detail_name dir y h i ''.txt'') w') \<and> same_files w w')) \<and>
    (227 < length dir \<and> length dir \<le> 242 \<longrightarrow>
      (\<exists>w' p. GetFilePtr dir y h i w = Inr (c_fopen_append p w') \<and> length p = 255 \<and> p \<noteq> detail_name dir y h i ''.txt'')) \<and>
    (242 < length dir \<longrightarrow> GetFilePtr dir y h i w = Inl Overrun)"
proof -
  have l: "length (detail_name dir y h i ''.txt'') = length dir + 28" using length_detail_name [OF assms] by simp
  then have t: "length dir \<le> 227 \<Longrightarrow> take 255 (detail_name dir y h i ''.txt'') = detail_name dir y h i ''.txt''" by simp
  have c: "length (take 255 (detail_name dir y h i ''.txt'')) = 255 \<and> take 255 (detail_name dir y h i ''.txt'') \<noteq> detail_name dir y h i ''.txt''" if "227 < length dir"
  proof -
    have "length (take 255 (detail_name dir y h i ''.txt'')) = 255" using l that by simp
    moreover have "length (detail_name dir y h i ''.txt'') \<noteq> 255" using l that by simp
    ultimately show ?thesis by auto
  qed
  show ?thesis
  proof (cases "length dir \<le> 242")
    case True
    then obtain w' where g: "GetFilePtr dir y h i w = Inr (c_fopen_append (take 255 (detail_name dir y h i ''.txt'')) w')" "same_files w w'"
      using GetFilePtr_buf [OF assms, of dir w] by auto
    show ?thesis
    proof (cases "length dir \<le> 227")
      case True
      then show ?thesis using g t by auto
    next
      case False
      then have "227 < length dir" by simp
      from c [OF this] have "\<exists>w' p. GetFilePtr dir y h i w = Inr (c_fopen_append p w') \<and> length p = 255 \<and> p \<noteq> detail_name dir y h i ''.txt''"
        using g by blast
      then show ?thesis using True False by simp
    qed
  next
    case False
    then show ?thesis using GetFilePtr_buf [OF assms, of dir w] by simp
  qed
qed

theorem file_path_bounds_witness: "GetFilePtr (replicate 243 CHR ''x'') 20200102 0 5 demo_files = Inl Overrun"
  using file_path_bounds [of 20200102 0 5 "replicate 243 CHR ''x''" demo_files] by (simp add: ids_ok_def)

text \<open>a reading call compares the size asked for with a truth value, so that every read of two bytes or more is reported as a failure, also
  when the bytes were read.
\<close>

theorem read_many_fails:
  assumes "bApply m" and "1 < sz" and "ReadFromFile y h i off sz buf m w = Inr (r, s, m', w')"
  shows "r = - 1"
proof -
  have f: "\<not> b" if "fread_test sz src w = (b, t)" for src w b t using that assms(2) by (auto simp: fread_test_def Let_def split: prod.splits if_splits)
  have cl: "\<not> ok" if "search_closed e y h i off sz m w = (ok, t)" for e m w ok t
    using that by (auto simp: search_closed_def Let_def split: prod.splits option.splits if_splits dest: f)
  have cu: "\<not> ok" if "SearchCurrentFile y h i off sz m w = Inr (ok, t)" for ok t
    using that by (auto simp: SearchCurrentFile_def Let_def split: if_splits option.splits prod.splits dest: f)
  obtain ok s1 m1 w1 where a: "SearchCurrentFile y h i off sz m w = Inr (ok, s1, m1, w1)" using assms(1,3) by (auto simp: ReadFromFile_def split: sum.splits)
  obtain ok2 s2 w2 where b: "SearchOkFile y h i off sz m1 w1 = (ok2, s2, w2)" by (metis prod_cases3)
  obtain ok3 s3 w3 where c: "SearchBakFile y h i off sz m1 w2 = (ok3, s3, w3)" by (metis prod_cases3)
  have "\<not> ok" "\<not> ok2" "\<not> ok3" using cu [OF a] cl b c unfolding SearchOkFile_def SearchBakFile_def by blast+
  then show ?thesis using assms(1,3) a b c by (simp add: ReadFromFile_def)
qed

theorem read_many_fails_witness:
  "\<exists>m' w'. ReadFromFile 20200102 0 5 0 3 ''...'' (demo_mgr (Some \<lparr>ino = 0, fbuf = [], closed = False\<rparr>) 3) demo_stored = Inr (- 1, ''abc'', m', w')"
proof -
  define m where "m = demo_mgr (Some \<lparr>ino = 0, fbuf = [], closed = False\<rparr>) 3"
  have d: "data demo_stored 0 = ''abc''" "outs demo_stored = []" by (simp_all add: demo_stored_def demo_files_def)
  have i: "fm_yyyymmdd m = 20200102" "fm_hour m = 0" "fm_fileId m = 5" "bApply m" "fm_fp m = Some \<lparr>ino = 0, fbuf = [], closed = False\<rparr>" "fm_path m = ''p/MsgFiles/p/MT/7''"
    by (simp_all add: m_def demo_mgr_def)
  have sk: "c_fseek 0 \<lparr>ino = 0, fbuf = [], closed = False\<rparr> demo_stored = (0, \<lparr>ino = 0, fbuf = [], closed = False\<rparr>, demo_stored)"
    using d by (simp add: c_fseek_def touch_def put_out_def sent_def)
  have rd: "fread_test 3 ''abc'' demo_stored = (False, ''abc'', False, demo_stored)"
    using d by (simp add: fread_test_def c_fread_def sent_def)
  have cur: "SearchCurrentFile 20200102 0 5 0 3 m demo_stored = Inr (False, ''abc'', m\<lparr>fm_reading := True\<rparr>, demo_stored)"
    using i sk rd d by (simp add: SearchCurrentFile_def)
  have no: "search_closed e 20200102 0 5 0 3 (m\<lparr>fm_reading := True\<rparr>) demo_stored = (False, [], demo_stored)" if "e = ''_ok.txt'' \<or> e = ''_bak.txt''" for e
  proof -
    have "name_buf (detail_name ''p/MsgFiles/p/MT/7'' 20200102 0 5 e) \<noteq> demo_name"
      using that by (auto simp: detail_name_def demo_day demo_parts_def demo_id demo_name_def name_buf_def)
    then show ?thesis using d i by (simp add: search_closed_def c_fopen_read_def demo_stored_def)
  qed
  obtain r s m' w' where run: "ReadFromFile 20200102 0 5 0 3 ''...'' m demo_stored = Inr (r, s, m', w')" "s = ''abc''"
    using i cur no by (simp add: ReadFromFile_def SearchOkFile_def SearchBakFile_def)
  have "r = - 1" by (rule read_many_fails [OF i(4) _ run(1)]) simp
  then show ?thesis using run unfolding m_def by blast
qed

text \<open>a file without a dot in its path, such as a core dump, makes the constructor throw: \<open>npos\<close> is not less than 4, and \<open>compare\<close> is
  called with a position behind the end.
\<close>

theorem startup_throws:
  "MessageFilesImpl_new (\<lambda>es. es) (Some ''p/x'')
     (demo_files\<lparr>dirs := [''p/MsgFiles''], names := [(''p/MsgFiles/core'', 0)]\<rparr>) = Inl Out_of_range"
  by (simp add: MessageFilesImpl_new_def ScanfAndRenameTmpFile_def EnumTmpFile_def GetExePath_def enum_dir.simps sys_opendir_def entries_def
      basename_def dirname_def sys_kind_def tmp_file_def last_dot_def demo_files_def)

end
