(* ===== verification/DetailFileSys.thy ===== *)
theory DetailFileSys
  imports MessageFilesProps Base64
begin

text \<open>
  The writer threads of the message detail files, \<^verbatim>\<open>src/msgFile/DetailFileSys.cpp\<close>: the queue of records, the threads that take
  them from it and write them, the exit, and the lines that are made of the messages.

  The headers of the protocol classes, of the constants and of the thread pool are not in the repository. A message is what its getters
  return; the constants, the conversion of message ids and the two \<open>Init\<close> functions that \<open>MessageFiles\<close> does not declare are parameters,
  the record \<open>detail_env\<close>. The calls for logging and counting are left out.
\<close>

section \<open>The queue\<close>

datatype DETAILTYPE = recvMsg | mtMsg | recvRe | sendRe | recvMo | sendMo | unknow

type_synonym DetailInfo = "DETAILTYPE \<times> string"

record DetailQueue =
  dq_isExit :: bool
  dq_maxSize :: u64
  dq_queue :: "DetailInfo list"

definition DetailQueue_new :: DetailQueue where
  "DetailQueue_new = \<lparr>dq_isExit = False, dq_maxSize = 10000, dq_queue = []\<rparr>"

definition setMaxQueueSize :: "c_int \<Rightarrow> DetailQueue \<Rightarrow> DetailQueue" where
  "setMaxQueueSize maxSize q = q\<lparr>dq_maxSize := scast maxSize\<rparr>"

definition dq_isFull :: "DetailQueue \<Rightarrow> bool" where
  "dq_isFull q \<longleftrightarrow> dq_maxSize q > 0 \<and> length (dq_queue q) \<ge> unat (dq_maxSize q)"

text \<open>A record is put into a full queue as well; the result says that the queue was full.\<close>

definition detailInsert :: "DetailInfo \<Rightarrow> DetailQueue \<Rightarrow> int \<times> DetailQueue" where
  "detailInsert d q = (if dq_isFull q then 1 else 0, q\<lparr>dq_queue := dq_queue q @ [d]\<rparr>)"

text \<open>One turn of the loop of \<open>detailWrite\<close>: a record, the end, or \<open>wait\<close>.\<close>

datatype turn = Took DetailInfo | Leaves | Waits

definition detailWrite :: "DetailQueue \<Rightarrow> turn \<times> DetailQueue" where
  "detailWrite q =
     (case dq_queue q of
        [] \<Rightarrow> (if dq_isExit q then Leaves else Waits, q)
      | d # ds \<Rightarrow> (Took d, q\<lparr>dq_queue := ds\<rparr>))"

definition queueSize :: "DetailQueue \<Rightarrow> nat" where
  "queueSize q = length (dq_queue q)"

section \<open>Lines\<close>

record MoProtocol =
  moProtocolFlag :: int
  moProtocolMsgId :: string
  moProtocolUserId :: string
  moProtocolStrPhone :: string
  moProtocolSpgateNo :: string
  moProtocolExNo :: string
  moProtocolCustid :: string
  moProtocolUserExdata :: string
  moProtocolState :: string
  moProtocolSendTime :: string
  moProtocolRecvTime :: string
  moProtocolPkNum :: c_int
  moProtocolPkTotal :: c_int
  moProtocolMsgFmt :: c_int
  moProtocolMsgContent :: string

record MtProtocol =
  mtProtocolMsgId :: string
  mtProtocolUserId :: string
  mtProtocolPhoneCount :: c_int
  mtProtocolStrPhone :: string
  mtProtocolSpgateNo :: string
  mtProtocolStrExNo :: string
  mtProtocolCustid :: string
  mtProtocolUserExdata :: string
  mtProtocolUserIpaddr :: string
  mtProtocolMsgFmt :: c_int
  mtProtocolMsgContent :: string

type_synonym init_call =
  "(u64 \<Rightarrow> date) \<Rightarrow> string \<Rightarrow> c_int \<Rightarrow> string \<Rightarrow> c_int \<Rightarrow> c_int \<Rightarrow> MessageFilesImpl \<Rightarrow> fsys \<Rightarrow> c_fault + int \<times> MessageFilesImpl \<times> fsys"

record detail_env =
  file_kind :: "DETAILTYPE \<Rightarrow> string"
  tranMsgId :: "u8 list \<Rightarrow> c_i64"
  MO_PROTOCOL_REPORT_TYPE :: int
  MO_PROTOCOL_SMS_TYPE :: int
  PTMSGID_MEMORY_LEN :: nat
  InitFwdMsgDetailsFile :: init_call
  InitFwdMsgOkDetailsFile :: init_call

text \<open>\<open>memcpy\<close> of \<open>n\<close> bytes from \<open>c_str()\<close> into an array of nine zeros.\<close>

definition msgid_bytes :: "nat \<Rightarrow> string \<Rightarrow> c_fault + u8 list" where
  "msgid_bytes n s =
     (if n > 9 \<or> n > length s + 1 then Inl Overrun else let b = map byte (take n (s @ [NUL])) in Inr (b @ replicate (9 - n) 0))"

definition col :: "string \<Rightarrow> string" where
  "col s = s @ '',''"

definition re_line :: "c_i64 \<Rightarrow> MoProtocol \<Rightarrow> string" where
  "re_line ptMsgId mo =
     col (sprintf_ld ptMsgId) @ col (moProtocolUserId mo) @ col (encode_text (moProtocolStrPhone mo)) @ col (moProtocolSpgateNo mo) @
     col (moProtocolExNo mo) @ col (encode_text (moProtocolCustid mo)) @ col (encode_text (moProtocolUserExdata mo)) @
     col (moProtocolState mo) @ col (moProtocolSendTime mo) @ col (moProtocolRecvTime mo) @
     col (sprintf_d (moProtocolPkNum mo)) @ sprintf_d (moProtocolPkTotal mo) @ [CR, LF]"

definition mo_line :: "c_i64 \<Rightarrow> MoProtocol \<Rightarrow> string" where
  "mo_line ptMsgId mo =
     col (sprintf_ld ptMsgId) @ col (moProtocolUserId mo) @ col (encode_text (moProtocolStrPhone mo)) @ col (moProtocolSpgateNo mo) @
     col (moProtocolExNo mo) @ col (moProtocolSendTime mo) @ col (moProtocolRecvTime mo) @
     col (sprintf_d (moProtocolMsgFmt mo)) @ encode_text (moProtocolMsgContent mo) @ [CR, LF]"

definition mt_line :: "c_i64 \<Rightarrow> MtProtocol \<Rightarrow> string" where
  "mt_line ptMsgId mt =
     col (sprintf_ld ptMsgId) @ col (mtProtocolUserId mt) @ col (sprintf_d (mtProtocolPhoneCount mt)) @ col (encode_text (mtProtocolStrPhone mt)) @
     col (mtProtocolSpgateNo mt) @ col (mtProtocolStrExNo mt) @ col (encode_text (mtProtocolCustid mt)) @ col (encode_text (mtProtocolUserExdata mt)) @
     col (mtProtocolUserIpaddr mt) @ col (sprintf_d (mtProtocolMsgFmt mt)) @ encode_text (mtProtocolMsgContent mt) @ [CR, LF]"

text \<open>What is given to \<open>writeFileSys\<close>, if anything.\<close>

definition writeMoinfoMsgfile :: "detail_env \<Rightarrow> MoProtocol \<Rightarrow> int \<Rightarrow> c_fault + DetailInfo option" where
  "writeMoinfoMsgfile E mo flag =
     (if moProtocolFlag mo = MO_PROTOCOL_REPORT_TYPE E
      then (case msgid_bytes (PTMSGID_MEMORY_LEN E) (moProtocolMsgId mo) of
              Inl e \<Rightarrow> Inl e
            | Inr b \<Rightarrow> Inr (Some (if flag = 0 then recvRe else sendRe, re_line (tranMsgId E b) mo)))
      else if moProtocolFlag mo = MO_PROTOCOL_SMS_TYPE E
      then (case msgid_bytes 8 (moProtocolMsgId mo) of
              Inl e \<Rightarrow> Inl e
            | Inr b \<Rightarrow> Inr (Some (if flag = 0 then recvMo else sendMo, mo_line (tranMsgId E b) mo)))
      else Inr None)"

definition writeMtinfoMsgfile :: "detail_env \<Rightarrow> MtProtocol \<Rightarrow> int \<Rightarrow> c_fault + DetailInfo" where
  "writeMtinfoMsgfile E mt flag =
     (case msgid_bytes 8 (mtProtocolMsgId mt) of
        Inl e \<Rightarrow> Inl e
      | Inr b \<Rightarrow> Inr (if flag = 0 then recvMsg else mtMsg, mt_line (tranMsgId E b) mt))"

section \<open>The threads\<close>

text \<open>
  Where a writer thread is: in \<open>detailWrite\<close> before the test of the queue, between the test and \<open>wait\<close> (with the mutex), in
  \<open>wait\<close>, writing a record, or at its end. Where \<open>detailFileSysExit\<close> is: it sets two flags and notifies without the mutex, waits
  for the queue to be empty, stops the threads and closes the files.
\<close>

datatype writer = Taking | About_to_wait | Waiting | Writing DetailInfo | Gone

datatype exit_point = Not_called | Flag_set | Queue_flag_set | Notified | Drained | Closed

record detail_sys =
  dq :: DetailQueue
  leaving :: bool
  ds_maxFileSize :: c_int
  ds_genFreq :: c_int
  writers :: "writer list"
  exit_at :: exit_point
  callers :: "DetailInfo list"
  msgFiles :: MessageFilesImpl
  world :: fsys

text \<open>\<open>callers\<close> are inside of \<open>writeFileSys\<close>, behind the test of the exit flag.\<close>

definition DetailFileSys_new :: "MessageFilesImpl \<Rightarrow> fsys \<Rightarrow> detail_sys" where
  "DetailFileSys_new m w =
     \<lparr>dq = DetailQueue_new, leaving = False, ds_maxFileSize = 20, ds_genFreq = 60, writers = [], exit_at = Not_called, callers = [], msgFiles = m, world = w\<rparr>"

fun run_inits :: "(u64 \<Rightarrow> date) \<Rightarrow> string \<Rightarrow> c_int \<Rightarrow> c_int \<Rightarrow> c_int \<Rightarrow> (init_call \<times> string) list \<Rightarrow> MessageFilesImpl \<Rightarrow> fsys \<Rightarrow> c_fault + int \<times> MessageFilesImpl \<times> fsys" where
  "run_inits lt pt g mx fr [] m w = Inr (0, m, w)"
| "run_inits lt pt g mx fr ((I, k) # is) m w =
     (case I lt pt g k mx fr m w of
        Inl e \<Rightarrow> Inl e
      | Inr (r, m, w) \<Rightarrow> if r < 0 then Inr (- 1, m, w) else run_inits lt pt g mx fr is m w)"

definition detailFileSysInit ::
  "detail_env \<Rightarrow> (u64 \<Rightarrow> date) \<Rightarrow> int \<Rightarrow> string \<Rightarrow> c_int \<Rightarrow> c_int \<Rightarrow> c_int \<Rightarrow> detail_sys \<Rightarrow> c_fault + int \<times> detail_sys" where
  "detailFileSysInit E lt threadNum ptCodeSt gateNo maxFileSize genFreq s =
     (let maxFileSize = limit_size maxFileSize; genFreq = limit_freq genFreq; (ok, m) = InitParams ptCodeSt gateNo (msgFiles s)
      in if \<not> ok then Inr (- 1, s\<lparr>msgFiles := m\<rparr>)
         else case run_inits lt ptCodeSt gateNo maxFileSize genFreq
                [(InitFwdMsgDetailsFile E, file_kind E recvMsg), (InitFwdMsgOkDetailsFile E, file_kind E mtMsg),
                 (InitReDetailsFile, file_kind E recvRe), (InitReOkDetailsFile, file_kind E sendRe),
                 (InitMoDetailsFile, file_kind E recvMo), (InitMoOkDetailsFile, file_kind E sendMo)] m (world s) of
                Inl e \<Rightarrow> Inl e
              | Inr (ret, m, w) \<Rightarrow>
                  if ret < 0 then Inr (- 1, s\<lparr>msgFiles := m, world := w\<rparr>)
                  else Inr (ret, s\<lparr>msgFiles := m, world := w, writers := replicate (nat threadNum) Taking, ds_maxFileSize := maxFileSize, ds_genFreq := genFreq\<rparr>))"

definition updateMaxFileSize :: "c_int \<Rightarrow> detail_sys \<Rightarrow> detail_sys" where
  "updateMaxFileSize sz s =
     (let sz = limit_size sz in if sz \<noteq> ds_maxFileSize s then s\<lparr>msgFiles := mf_updateMaxFileSize sz (msgFiles s), ds_maxFileSize := sz\<rparr> else s)"

definition updateMaxgenFreq :: "c_int \<Rightarrow> detail_sys \<Rightarrow> detail_sys" where
  "updateMaxgenFreq freq s =
     (let freq = limit_freq freq in if ds_genFreq s \<noteq> freq then s\<lparr>msgFiles := mf_updateGenFreq freq (msgFiles s), ds_genFreq := freq\<rparr> else s)"

definition everySecondCheck :: "(u64 \<Rightarrow> date) \<Rightarrow> detail_sys \<Rightarrow> c_fault + detail_sys" where
  "everySecondCheck lt s = (case SwitchMessageFiles lt (msgFiles s) (world s) of Inl e \<Rightarrow> Inl e | Inr (m, w) \<Rightarrow> Inr (s\<lparr>msgFiles := m, world := w\<rparr>))"

text \<open>One record of \<open>writeDetailThread\<close>; the result of \<open>WriteFile\<close>, and none for a record of no known kind.\<close>

definition write_detail :: "detail_env \<Rightarrow> (u64 \<Rightarrow> date) \<Rightarrow> DetailInfo \<Rightarrow> detail_sys \<Rightarrow> c_fault + int option \<times> detail_sys" where
  "write_detail E lt d s =
     (if fst d = unknow then Inr (None, s)
      else case mf_WriteFile lt (file_kind E (fst d)) (snd d) (msgFiles s) (world s) of
             Inl e \<Rightarrow> Inl e
           | Inr (r, m, w) \<Rightarrow> Inr (Some r, s\<lparr>msgFiles := m, world := w\<rparr>))"

text \<open>What has happened: the records that were put into the queue, those taken from it, and the outcomes.\<close>

record history =
  handed :: "DetailInfo list"
  taken :: "DetailInfo list"
  written :: "(DetailInfo \<times> int option) list"

definition mutex_free :: "detail_sys \<Rightarrow> bool" where
  "mutex_free s \<longleftrightarrow> About_to_wait \<notin> set (writers s)"

definition wake :: "nat option \<Rightarrow> writer list \<Rightarrow> writer list" where
  "wake i ws = (case i of None \<Rightarrow> ws | Some i \<Rightarrow> ws[i := Taking])"

text \<open>\<open>notify\<close> wakes a waiting thread if there is one.\<close>

definition notified :: "nat option \<Rightarrow> writer list \<Rightarrow> bool" where
  "notified i ws \<longleftrightarrow> (case i of None \<Rightarrow> Waiting \<notin> set ws | Some i \<Rightarrow> i < length ws \<and> ws ! i = Waiting)"

inductive worker_step :: "detail_env \<Rightarrow> (u64 \<Rightarrow> date) \<Rightarrow> detail_sys \<times> history \<Rightarrow> detail_sys \<times> history \<Rightarrow> bool" for E lt where
  take: "i < length (writers s) \<Longrightarrow> writers s ! i = Taking \<Longrightarrow> mutex_free s \<Longrightarrow> detailWrite (dq s) = (Took d, q) \<Longrightarrow>
    worker_step E lt (s, h) (s\<lparr>dq := q, writers := (writers s)[i := Writing d]\<rparr>, h\<lparr>taken := taken h @ [d]\<rparr>)"
| leave: "i < length (writers s) \<Longrightarrow> writers s ! i = Taking \<Longrightarrow> mutex_free s \<Longrightarrow> detailWrite (dq s) = (Leaves, q) \<Longrightarrow> leaving s \<Longrightarrow>
    worker_step E lt (s, h) (s\<lparr>writers := (writers s)[i := Gone]\<rparr>, h)"
| test: "i < length (writers s) \<Longrightarrow> writers s ! i = Taking \<Longrightarrow> mutex_free s \<Longrightarrow> detailWrite (dq s) = (Waits, q) \<Longrightarrow>
    worker_step E lt (s, h) (s\<lparr>writers := (writers s)[i := About_to_wait]\<rparr>, h)"
| wait: "i < length (writers s) \<Longrightarrow> writers s ! i = About_to_wait \<Longrightarrow> worker_step E lt (s, h) (s\<lparr>writers := (writers s)[i := Waiting]\<rparr>, h)"
| finish: "i < length (writers s) \<Longrightarrow> writers s ! i = Writing d \<Longrightarrow> write_detail E lt d s = Inr (r, s') \<Longrightarrow>
    worker_step E lt (s, h) (s'\<lparr>writers := (writers s)[i := Taking]\<rparr>, h\<lparr>written := (d, r) # written h\<rparr>)"

inductive sys_step :: "detail_env \<Rightarrow> (u64 \<Rightarrow> date) \<Rightarrow> detail_sys \<times> history \<Rightarrow> detail_sys \<times> history \<Rightarrow> bool" for E lt where
  work: "worker_step E lt x y \<Longrightarrow> sys_step E lt x y"
| spurious: "i < length (writers s) \<Longrightarrow> writers s ! i = Waiting \<Longrightarrow> sys_step E lt (s, h) (s\<lparr>writers := (writers s)[i := Taking]\<rparr>, h)"
| call: "\<not> leaving s \<Longrightarrow> sys_step E lt (s, h) (s\<lparr>callers := d # callers s\<rparr>, h)"
| put: "d \<in> set (callers s) \<Longrightarrow> mutex_free s \<Longrightarrow> detailInsert d (dq s) = (r, q) \<Longrightarrow> notified i (writers s) \<Longrightarrow>
    sys_step E lt (s, h) (s\<lparr>callers := remove1 d (callers s), dq := q, writers := wake i (writers s)\<rparr>, h\<lparr>handed := handed h @ [d]\<rparr>)"
| size: "sys_step E lt (s, h) (updateMaxFileSize sz s, h)"
| freq: "sys_step E lt (s, h) (updateMaxgenFreq fr s, h)"
| second: "everySecondCheck lt s = Inr s' \<Longrightarrow> sys_step E lt (s, h) (s', h)"
| exit_flag: "exit_at s = Not_called \<Longrightarrow> sys_step E lt (s, h) (s\<lparr>leaving := True, exit_at := Flag_set\<rparr>, h)"
| exit_queue: "exit_at s = Flag_set \<Longrightarrow> sys_step E lt (s, h) (s\<lparr>dq := (dq s)\<lparr>dq_isExit := True\<rparr>, exit_at := Queue_flag_set\<rparr>, h)"
| exit_notify: "exit_at s = Queue_flag_set \<Longrightarrow>
    sys_step E lt (s, h) (s\<lparr>writers := map (\<lambda>t. if t = Waiting then Taking else t) (writers s), exit_at := Notified\<rparr>, h)"
| exit_drained: "exit_at s = Notified \<Longrightarrow> mutex_free s \<Longrightarrow> queueSize (dq s) = 0 \<Longrightarrow> sys_step E lt (s, h) (s\<lparr>exit_at := Drained\<rparr>, h)"
| exit_close: "exit_at s = Drained \<Longrightarrow> set (writers s) \<subseteq> {Gone} \<Longrightarrow> CloseAll lt (msgFiles s) (world s) = Inr (m, w) \<Longrightarrow>
    sys_step E lt (s, h) (s\<lparr>msgFiles := m, world := w, exit_at := Closed\<rparr>, h)"
| outside: "us < 1000000 \<Longrightarrow> sys_step E lt (s, h) (s\<lparr>world := (world s)\<lparr>outs := os, tv_sec := sec, tv_usec := us\<rparr>\<rparr>, h)"

section \<open>The queue is a queue\<close>

interpretation dqf: fifo "\<lambda>d q. snd (detailInsert d q)" "\<lambda>q. case detailWrite q of (Took d, q') \<Rightarrow> Some (d, q') | _ \<Rightarrow> None" dq_queue "\<lambda>_. True"
  by unfold_locales (auto simp: detailInsert_def detailWrite_def split: list.splits)

section \<open>The threads\<close>

fun hand :: "writer \<Rightarrow> DetailInfo multiset" where
  "hand (Writing d) = {#d#}"
| "hand _ = {#}"

definition hands :: "writer list \<Rightarrow> DetailInfo multiset" where
  "hands ws = sum_list (map hand ws)"

lemma hands_update: "i < length ws \<Longrightarrow> hands (ws[i := x]) + hand (ws ! i) = hands ws + hand x"
  by (induction ws arbitrary: i) (auto simp: hands_def nth_Cons' add_ac split: nat.split)

lemma hands_idle: "hand x = {#} \<Longrightarrow> hand (ws ! i) = {#} \<Longrightarrow> i < length ws \<Longrightarrow> hands (ws[i := x]) = hands ws"
  using hands_update [of i ws x] by simp

lemma hands_notify_all: "hands (map (\<lambda>t. if t = Waiting then Taking else t) ws) = hands ws"
  by (induction ws) (auto simp: hands_def)

lemma hands_empty: "hands ws = {#} \<longleftrightarrow> (\<forall>d. Writing d \<notin> set ws)"
proof (induction ws)
  case (Cons t ws)
  have "hand t = {#} \<longleftrightarrow> (\<forall>d. Writing d \<noteq> t)" by (cases t) auto
  then show ?case using Cons by (auto simp: hands_def)
qed (simp add: hands_def)

definition accepted :: "history \<Rightarrow> string list" where
  "accepted h = concat (map (\<lambda>(d, r). if r = Some 0 then [snd d] else []) (written h))"

definition busy :: "writer \<Rightarrow> bool" where
  "busy t \<longleftrightarrow> t = Taking \<or> (\<exists>d. t = Writing d)"

definition sys_inv :: "(u64 \<Rightarrow> date) \<Rightarrow> detail_sys \<Rightarrow> history \<Rightarrow> bool" where
  "sys_inv lt s h \<longleftrightarrow>
     handed h = taken h @ dq_queue (dq s) \<and> mset (taken h) = hands (writers s) + mset (map fst (written h)) \<and>
     (About_to_wait \<in> set (writers s) \<longrightarrow> dq_queue (dq s) = []) \<and>
     (dq_queue (dq s) \<noteq> [] \<and> Waiting \<in> set (writers s) \<longrightarrow> (\<exists>t \<in> set (writers s). busy t)) \<and>
     (dq_isExit (dq s) \<longrightarrow> leaving s) \<and> (exit_at s \<noteq> Not_called \<longrightarrow> leaving s) \<and>
     table_ok lt (details (msgFiles s)) (world s) (accepted h)"

lemma write_detail_table:
  assumes t: "table_ok lt (details (msgFiles s)) (world s) (accepted h)" and w: "write_detail E lt d s = Inr (r, s')"
  shows "table_ok lt (details (msgFiles s')) (world s') (accepted (h\<lparr>written := (d, r) # written h\<rparr>)) \<and>
    (\<exists>m w. s' = s\<lparr>msgFiles := m, world := w\<rparr>)"
proof (cases "fst d = unknow")
  case True
  then have e: "s' = s" "r = None" using w by (auto simp: write_detail_def)
  have "\<exists>m w. s' = s\<lparr>msgFiles := m, world := w\<rparr>" by (rule exI [of _ "msgFiles s"], rule exI [of _ "world s"]) (simp add: e)
  moreover have "accepted (h\<lparr>written := (d, r) # written h\<rparr>) = accepted h" by (simp add: accepted_def e)
  ultimately show ?thesis using t e by simp
next
  case False
  then obtain q m v where m: "mf_WriteFile lt (file_kind E (fst d)) (snd d) (msgFiles s) (world s) = Inr (q, m, v)" "s' = s\<lparr>msgFiles := m, world := v\<rparr>" "r = Some q"
    using w by (auto simp: write_detail_def split: sum.splits)
  then show ?thesis using Write_table [OF t, of "file_kind E (fst d)" "snd d"] by (auto simp: accepted_def)
qed

lemma write_detail_total:
  "table_ok lt (details (msgFiles s)) (world s) A \<Longrightarrow> \<exists>r s'. write_detail E lt d s = Inr (r, s')"
  using Write_table [of lt "msgFiles s" "world s" A "file_kind E (fst d)" "snd d"] by (auto simp: write_detail_def)

lemma set_upd: "i < length ws \<Longrightarrow> x \<in> set (ws[i := x])"
  by (simp add: set_update_memI)

lemma upd_waiting: "Waiting \<in> set (ws[i := x]) \<Longrightarrow> x \<noteq> Waiting \<Longrightarrow> Waiting \<in> set ws"
  by (metis in_set_conv_nth length_list_update nth_list_update_eq nth_list_update_neq)

lemma upd_about: "About_to_wait \<in> set (ws[i := x]) \<Longrightarrow> x \<noteq> About_to_wait \<Longrightarrow> About_to_wait \<in> set ws"
  by (metis in_set_conv_nth length_list_update nth_list_update_eq nth_list_update_neq)

inductive_cases workerE: "worker_step E lt (s, h) y"
inductive_cases sysE: "sys_step E lt (s, h) y"

lemma worker_inv:
  assumes "worker_step E lt (s, h) (s', h')" and inv: "sys_inv lt s h"
  shows "sys_inv lt s' h'"
  using assms(1)
proof cases
  case (take i d q)
  then have q: "dq_queue (dq s) = d # dq_queue q" "dq_isExit q = dq_isExit (dq s)" by (auto simp: detailWrite_def split: list.splits if_splits)
  have "hands ((writers s)[i := Writing d]) = hands (writers s) + {#d#}" using take hands_update [of i "writers s" "Writing d"] by simp
  moreover have "\<exists>t \<in> set ((writers s)[i := Writing d]). busy t" using set_upd [OF take(3)] busy_def by blast
  moreover have "About_to_wait \<notin> set ((writers s)[i := Writing d])" using take upd_about by (auto simp: mutex_free_def)
  ultimately show ?thesis using take inv q by (simp add: sys_inv_def accepted_def add_ac)
next
  case (leave i q)
  then have q: "dq_queue (dq s) = []" by (auto simp: detailWrite_def split: list.splits if_splits)
  then show ?thesis using leave inv by (simp add: sys_inv_def hands_idle)
next
  case (test i q)
  then have q: "dq_queue (dq s) = []" by (auto simp: detailWrite_def split: list.splits if_splits)
  then show ?thesis using test inv by (simp add: sys_inv_def hands_idle)
next
  case (wait i)
  then have "dq_queue (dq s) = []" using inv by (auto simp: sys_inv_def in_set_conv_nth)
  then show ?thesis using wait inv by (simp add: sys_inv_def hands_idle)
next
  case (finish i d r s'')
  have t: "table_ok lt (details (msgFiles s)) (world s) (accepted h)" using inv by (simp add: sys_inv_def)
  obtain m w where w: "s'' = s\<lparr>msgFiles := m, world := w\<rparr>" "table_ok lt (details m) w (accepted (h\<lparr>written := (d, r) # written h\<rparr>))"
    using write_detail_table [OF t finish(5)] by auto
  have "hands ((writers s)[i := Taking]) + {#d#} = hands (writers s)" using finish hands_update [of i "writers s" Taking] by simp
  then have "hands (writers s) = add_mset d (hands ((writers s)[i := Taking]))" by simp
  moreover have "\<exists>t \<in> set ((writers s)[i := Taking]). busy t" using set_upd [OF finish(3)] busy_def by blast
  moreover have "About_to_wait \<in> set ((writers s)[i := Taking]) \<Longrightarrow> About_to_wait \<in> set (writers s)" using upd_about by fastforce
  ultimately show ?thesis using finish inv w by (simp add: sys_inv_def)
qed

lemma table_of: "sys_inv lt s h \<Longrightarrow> table_ok lt (details (msgFiles s)) (world s) (accepted h)"
  by (simp add: sys_inv_def)

lemma wake_facts:
  assumes "notified i ws"
  shows "hands (wake i ws) = hands ws" and "About_to_wait \<in> set (wake i ws) \<Longrightarrow> About_to_wait \<in> set ws"
    and "Waiting \<in> set (wake i ws) \<Longrightarrow> \<exists>t \<in> set (wake i ws). busy t"
proof -
  show "hands (wake i ws) = hands ws" using assms by (auto simp: wake_def notified_def hands_idle split: option.splits)
  show "About_to_wait \<in> set (wake i ws) \<Longrightarrow> About_to_wait \<in> set ws" using upd_about by (auto simp: wake_def split: option.splits)
  show "Waiting \<in> set (wake i ws) \<Longrightarrow> \<exists>t \<in> set (wake i ws). busy t"
    using assms set_upd [of _ ws Taking] by (auto simp: wake_def notified_def busy_def split: option.splits)
qed

lemma sys_inv_step:
  assumes "sys_step E lt (s, h) (s', h')" and inv: "sys_inv lt s h"
  shows "sys_inv lt s' h'"
  using assms(1)
proof cases
  case work
  then show ?thesis using worker_inv inv by blast
next
  case (spurious i)
  have "\<exists>t \<in> set ((writers s)[i := Taking]). busy t" using set_upd [OF spurious(3)] busy_def by blast
  moreover have "About_to_wait \<in> set ((writers s)[i := Taking]) \<Longrightarrow> About_to_wait \<in> set (writers s)" using upd_about by fastforce
  ultimately show ?thesis using spurious inv by (simp add: sys_inv_def hands_idle)
next
  case (call d)
  then show ?thesis using inv by (simp add: sys_inv_def)
next
  case (put d r q i)
  have q: "dq_queue q = dq_queue (dq s) @ [d]" "dq_isExit q = dq_isExit (dq s)" using put by (auto simp: detailInsert_def)
  have "About_to_wait \<notin> set (wake i (writers s))" using wake_facts(2) [OF put(6)] put(4) by (auto simp: mutex_free_def)
  then show ?thesis using put(1,2) q inv wake_facts(1,3) [OF put(6)] by (simp add: sys_inv_def accepted_def)
next
  case (size sz)
  then show ?thesis
    using inv details_updates [OF table_of [OF inv], of "fm_updateMaxFileSize (limit_size (limit_size sz))"]
    by (simp add: updateMaxFileSize_def sys_inv_def Let_def mf_updateMaxFileSize_def fm_updateMaxFileSize_def)
next
  case (freq fr)
  then show ?thesis
    using inv details_updates [OF table_of [OF inv], of "fm_updateGenFreq (limit_freq (limit_freq fr))"]
    by (simp add: updateMaxgenFreq_def sys_inv_def Let_def mf_updateGenFreq_def fm_updateGenFreq_def)
next
  case second
  have "table_ok lt ([] @ details (msgFiles s)) (world s) (accepted h)" using table_of [OF inv] by simp
  from each_file_table [OF SwitchToNewFile_runs this] obtain D w where
    D: "each_file (SwitchToNewFile lt) (details (msgFiles s)) (world s) = Inr (D, w)" "table_ok lt D w (accepted h)" by auto
  then have "s' = s\<lparr>msgFiles := (msgFiles s)\<lparr>details := D\<rparr>, world := w\<rparr>" "h' = h" using second by (simp_all add: everySecondCheck_def SwitchMessageFiles_def)
  then show ?thesis using D inv by (simp add: sys_inv_def)
next
  case exit_flag
  then show ?thesis using inv by (simp add: sys_inv_def)
next
  case exit_queue
  then show ?thesis using inv by (simp add: sys_inv_def)
next
  case exit_notify
  define ws where "ws = map (\<lambda>t. if t = Waiting then Taking else t) (writers s)"
  have ws: "Waiting \<notin> set ws" "About_to_wait \<in> set ws \<Longrightarrow> About_to_wait \<in> set (writers s)" "hands ws = hands (writers s)"
    using hands_notify_all [of "writers s"] by (auto simp: ws_def split: if_splits)
  have s': "s' = s\<lparr>writers := ws, exit_at := Notified\<rparr>" "h' = h" using exit_notify by (simp_all add: ws_def)
  show ?thesis unfolding s' using exit_notify(3) inv ws by (simp add: sys_inv_def)
next
  case exit_drained
  then show ?thesis using inv by (simp add: sys_inv_def)
next
  case (exit_close m w)
  have t: "table_ok lt ([] @ details (msgFiles s)) (world s) (accepted h)" using table_of [OF inv] by simp
  have "\<exists>f' w'. Inr (fm_Close lt f w) = (Inr (f', w') :: c_fault + FileMgr \<times> fsys) \<and> runs lt {#} f w f' w'" if "clock_at lt w" "short f" for f w
    using Close_runs [OF that] by auto
  from each_file_table [of lt "\<lambda>f w. Inr (fm_Close lt f w)", OF this t] have "details m = [] \<and> table_ok lt [] w (accepted h)"
    using exit_close table_forget by (auto simp: CloseAll_def)
  then show ?thesis using exit_close inv by (simp add: sys_inv_def)
next
  case (outside us sec os)
  have "table_ok lt (details (msgFiles s)) ((world s)\<lparr>outs := os, tv_sec := sec, tv_usec := us\<rparr>) (accepted h)"
    using table_of [OF inv] outside by (simp add: table_ok_def clock_at_def fs_ok_def contents_def owner_ok_def)
  then show ?thesis using outside inv by (simp add: sys_inv_def)
qed

section \<open>From the start\<close>

definition env_ok :: "detail_env \<Rightarrow> bool" where
  "env_ok E \<longleftrightarrow> InitFwdMsgDetailsFile E \<in> set init_calls \<and> InitFwdMsgOkDetailsFile E \<in> set init_calls \<and> (\<forall>t. CHR ''/'' \<notin> set (file_kind E t))"

lemma Init_main: "InitMtDetailsFile lt pt g k mx fr m w = Inr (r, m', w') \<Longrightarrow> szMainPath m' = szMainPath m"
  by (auto simp: InitMtDetailsFile_def Let_def split: if_splits sum.splits prod.splits)

lemma run_inits_steps:
  "run_inits lt pt g mx fr is m w = Inr (r, m', w') \<Longrightarrow> pt \<noteq> [] \<Longrightarrow>
   \<forall>(I, k) \<in> set is. I \<in> set init_calls \<and> CHR ''/'' \<notin> set k \<and> length (detail_path pt g k m) \<le> 227 \<Longrightarrow> (detail_step lt)\<^sup>*\<^sup>* (m, w, A) (m', w', A)"
proof (induction "is" arbitrary: m w)
  case (Cons e es)
  obtain I k where e: "e = (I, k)" by force
  obtain q n v where q: "I lt pt g k mx fr m w = Inr (q, n, v)" using Cons(2) e by (auto split: sum.splits)
  have I: "I \<in> set init_calls" "CHR ''/'' \<notin> set k" "length (detail_path pt g k m) \<le> 227" using Cons(4) e by auto
  have st: "detail_step lt (m, w, A) (n, v, A)" by (rule detail_step.init [OF I q])
  show ?case
  proof (cases "q < 0")
    case True
    then show ?thesis using Cons(2) e q st by auto
  next
    case False
    have "szMainPath n = szMainPath m" using Init_main q init_same [OF I(1)] by metis
    then have "detail_path pt g k n = detail_path pt g k m" for k using Cons(3) by (simp add: detail_path_def)
    then have "(detail_step lt)\<^sup>*\<^sup>* (n, v, A) (m', w', A)" using Cons(1) [of n v] Cons(2-4) e q False by auto
    then show ?thesis using st by (meson converse_rtranclp_into_rtranclp)
  qed
qed simp

text \<open>The state after \<open>MessageFilesImpl\<close> was made and \<open>detailFileSysInit\<close> has succeeded.\<close>

definition started ::
  "detail_env \<Rightarrow> (u64 \<Rightarrow> date) \<Rightarrow> (string list \<Rightarrow> string list) \<Rightarrow> string option \<Rightarrow> int \<Rightarrow> string \<Rightarrow> c_int \<Rightarrow> c_int \<Rightarrow> c_int \<Rightarrow> fsys \<Rightarrow> c_fault + int \<times> detail_sys" where
  "started E lt readdir link n pt g mx fr w =
     (case MessageFilesImpl_new readdir link w of
        Inl e \<Rightarrow> Inl e
      | Inr (m, w) \<Rightarrow> detailFileSysInit E lt n pt g mx fr (DetailFileSys_new m w))"

definition no_history :: history where
  "no_history = \<lparr>handed = [], taken = [], written = []\<rparr>"

lemma hands_start: "hands (replicate n Taking) = {#}"
  by (induction n) (auto simp: hands_def)

lemma started_inv:
  assumes "env_ok E" and "clock_ok lt" and "tv_usec w < 1000000" and "fs_ok w"
    and "\<And>t. length (GetExePath link @ ''MsgFiles/'' @ pt @ ''/'' @ file_kind E t @ ''/'' @ sprintf_d g) \<le> 227"
    and "started E lt readdir link n pt g mx fr w = Inr (0, s)"
  shows "sys_inv lt s no_history"
proof -
  obtain m v where m: "MessageFilesImpl_new readdir link w = Inr (m, v)" "detailFileSysInit E lt n pt g mx fr (DetailFileSys_new m v) = Inr (0, s)"
    using assms(6) by (auto simp: started_def split: sum.splits)
  have mm: "szMainPath m = GetExePath link" "details m = []" using m(1) by (auto simp: MessageFilesImpl_new_def Let_def split: sum.splits)
  obtain p where p: "InitParams pt g m = (True, p)" using m(2) by (auto simp: detailFileSysInit_def DetailFileSys_new_def Let_def InitParams_def split: if_splits)
  then have pt: "pt \<noteq> []" "szMainPath p = szMainPath m" "p = snd (InitParams pt g m)" by (auto simp: InitParams_def split: if_splits)
  let ?is = "[(InitFwdMsgDetailsFile E, file_kind E recvMsg), (InitFwdMsgOkDetailsFile E, file_kind E mtMsg),
     (InitReDetailsFile, file_kind E recvRe), (InitReOkDetailsFile, file_kind E sendRe), (InitMoDetailsFile, file_kind E recvMo), (InitMoOkDetailsFile, file_kind E sendMo)]"
  obtain r m' w' where r: "run_inits lt pt g (limit_size mx) (limit_freq fr) ?is p v = Inr (r, m', w')"
    and s: "s = (DetailFileSys_new m v)\<lparr>msgFiles := m', world := w', writers := replicate (nat n) Taking, ds_maxFileSize := limit_size mx, ds_genFreq := limit_freq fr\<rparr>"
    using m(2) p by (auto simp: detailFileSysInit_def Let_def DetailFileSys_new_def simp del: run_inits.simps split: sum.splits if_splits)
  have path: "length (detail_path pt g (file_kind E t) p) \<le> 227" for t using assms(5) [of t] pt mm by (simp add: detail_path_def)
  have calls: "\<forall>(I, k) \<in> set ?is. I \<in> set init_calls \<and> CHR ''/'' \<notin> set k \<and> length (detail_path pt g k p) \<le> 227"
    using assms(1) path by (auto simp: env_ok_def init_calls_def)
  have t0: "table_ok lt (details m) w []" using assms(2-4) mm holds_nothing by (simp add: table_ok_def files_ok_def clock_at_def)
  have "detail_step lt (m, w, []) (m, v, [])" by (rule detail_step.restart [OF m(1)])
  moreover have "detail_step lt (m, v, []) (p, v, [])" unfolding pt(3) by (rule detail_step.params)
  moreover have "(detail_step lt)\<^sup>*\<^sup>* (p, v, []) (m', w', [])" by (rule run_inits_steps [OF r pt(1) calls])
  ultimately have "(detail_step lt)\<^sup>*\<^sup>* (m, w, []) (m', w', [])" by (meson converse_rtranclp_into_rtranclp)
  then have "case (m', w', []) of (m, w, A) \<Rightarrow> table_ok lt (details m) w A"
  proof (induction rule: rtranclp_induct)
    case base
    then show ?case using t0 by simp
  next
    case (step x y)
    then show ?case using step_table [OF step(2)] by auto
  qed
  then show ?thesis
    by (simp add: sys_inv_def s no_history_def DetailFileSys_new_def DetailQueue_new_def accepted_def hands_start)
qed

lemma sys_inv_run: "(sys_step E lt)\<^sup>*\<^sup>* (s, h) (s', h') \<Longrightarrow> sys_inv lt s h \<Longrightarrow> sys_inv lt s' h'"
proof (induction "(s', h')" arbitrary: s' h' rule: rtranclp_induct)
  case (step y)
  obtain s1 h1 where y: "y = (s1, h1)" by force
  show ?case using sys_inv_step [of E lt s1 h1 s' h'] step y by simp
qed simp


definition work_left :: "detail_sys \<Rightarrow> nat" where
  "work_left s = 2 * length (dq_queue (dq s)) + size (hands (writers s))"

lemma work_goes_on:
  assumes inv: "sys_inv lt s h" and live: "\<not> set (writers s) \<subseteq> {Gone}" and work: "work_left s > 0"
  shows "\<exists>s' h'. worker_step E lt (s, h) (s', h') \<and> work_left s' < work_left s \<and> \<not> set (writers s') \<subseteq> {Gone}"
proof (cases "\<exists>d. Writing d \<in> set (writers s)")
  case True
  then obtain i d where i: "i < length (writers s)" "writers s ! i = Writing d" by (auto simp: in_set_conv_nth)
  obtain r s1 where r: "write_detail E lt d s = Inr (r, s1)" using write_detail_total [OF table_of [OF inv]] by blast
  obtain m w where s1: "s1 = s\<lparr>msgFiles := m, world := w\<rparr>" using write_detail_table [OF table_of [OF inv] r] by blast
  let ?s = "s1\<lparr>writers := (writers s)[i := Taking]\<rparr>"
  have "hands ((writers s)[i := Taking]) + {#d#} = hands (writers s)" using i hands_update [of i "writers s" Taking] by simp
  then have "size (hands (writers s)) = size (hands ((writers s)[i := Taking])) + 1" by (metis size_add_mset add_mset_add_single Suc_eq_plus1)
  then have "work_left ?s < work_left s" by (simp add: work_left_def s1)
  moreover have "\<not> set (writers ?s) \<subseteq> {Gone}" using set_upd [OF i(1), of Taking] by auto
  ultimately show ?thesis using worker_step.finish [OF i r] by blast
next
  case False
  then have nh: "hands (writers s) = {#}" by (simp add: hands_empty)
  then have q: "dq_queue (dq s) \<noteq> []" using work by (auto simp: work_left_def)
  then have mf: "mutex_free s" using inv by (auto simp: sys_inv_def mutex_free_def)
  obtain t where t: "t \<in> set (writers s)" "t \<noteq> Gone" using live by auto
  have "Waiting \<in> set (writers s) \<Longrightarrow> Taking \<in> set (writers s)" using q inv False by (fastforce simp: sys_inv_def busy_def)
  moreover have "t \<noteq> About_to_wait" "\<And>d. t \<noteq> Writing d" using t(1) mf False by (auto simp: mutex_free_def)
  ultimately have "Taking \<in> set (writers s)" using t by (cases t) auto
  then obtain i where i: "i < length (writers s)" "writers s ! i = Taking" by (auto simp: in_set_conv_nth)
  obtain d ds where d: "dq_queue (dq s) = d # ds" using q by (cases "dq_queue (dq s)") auto
  then have tk: "detailWrite (dq s) = (Took d, (dq s)\<lparr>dq_queue := ds\<rparr>)" by (simp add: detailWrite_def)
  let ?s = "s\<lparr>dq := (dq s)\<lparr>dq_queue := ds\<rparr>, writers := (writers s)[i := Writing d]\<rparr>"
  have "hands ((writers s)[i := Writing d]) = {#d#}" using i hands_update [of i "writers s" "Writing d"] nh by simp
  then have "work_left ?s < work_left s" by (simp add: work_left_def d nh)
  moreover have "\<not> set (writers ?s) \<subseteq> {Gone}" using set_upd [OF i(1), of "Writing d"] by auto
  ultimately show ?thesis using worker_step.take [OF i mf tk] by blast
qed

text \<open>C23: progress. As long as one writer thread is alive, whatever has happened before, there is a run of the writer threads alone that
  empties the queue: after it every record handed over has been given to its file. In particular no record is left behind
  by a notification that was sent too early.
\<close>

theorem queue_drains:
  assumes "env_ok E" and "clock_ok lt" and "tv_usec w < 1000000" and "fs_ok w"
    and "\<And>t. length (GetExePath link @ ''MsgFiles/'' @ pt @ ''/'' @ file_kind E t @ ''/'' @ sprintf_d g) \<le> 227"
    and "started E lt readdir link n pt g mx fr w = Inr (0, s0)" and "(sys_step E lt)\<^sup>*\<^sup>* (s0, no_history) (s, h)"
    and "\<not> set (writers s) \<subseteq> {Gone}"
  shows "\<exists>s' h'. (worker_step E lt)\<^sup>*\<^sup>* (s, h) (s', h') \<and> handed h' = handed h \<and> mset (map fst (written h')) = mset (handed h)"
proof -
  have inv: "sys_inv lt s h" by (rule sys_inv_run [OF assms(7)]) (rule started_inv [OF assms(1-6)])
  have "\<exists>s' h'. (worker_step E lt)\<^sup>*\<^sup>* (s, h) (s', h') \<and> work_left s' = 0 \<and> sys_inv lt s' h' \<and> handed h' = handed h"
    using inv assms(8)
  proof (induction "work_left s" arbitrary: s h rule: less_induct)
    case less
    show ?case
    proof (cases "work_left s = 0")
      case False
      then obtain s1 h1 where s1: "worker_step E lt (s, h) (s1, h1)" "work_left s1 < work_left s" "\<not> set (writers s1) \<subseteq> {Gone}"
        using work_goes_on [OF less(2,3)] by blast
      have "handed h1 = handed h" using s1(1) by cases auto
      then show ?thesis using less(1) [OF s1(2) worker_inv [OF s1(1) less(2)] s1(3)] s1(1) by (metis converse_rtranclp_into_rtranclp)
    qed (use less(2) in blast)
  qed
  then obtain s' h' where r: "(worker_step E lt)\<^sup>*\<^sup>* (s, h) (s', h')" "work_left s' = 0" "sys_inv lt s' h'" "handed h' = handed h" by blast
  then have "mset (map fst (written h')) = mset (handed h)" by (auto simp: sys_inv_def work_left_def)
  then show ?thesis using r by blast
qed

section \<open>A run\<close>

definition demo_env :: detail_env where
  "demo_env = \<lparr>file_kind = (\<lambda>_. ''MT''), tranMsgId = (\<lambda>_. 1), MO_PROTOCOL_REPORT_TYPE = 1, MO_PROTOCOL_SMS_TYPE = 2, PTMSGID_MEMORY_LEN = 8,
     InitFwdMsgDetailsFile = InitMtDetailsFile, InitFwdMsgOkDetailsFile = InitMtDetailsFile\<rparr>"

definition demo_sys :: detail_sys where
  "demo_sys = (DetailFileSys_new \<lparr>szMainPath = ''p/'', mf_gateNo = 7, szPtCode = ''p'',
       details = [(''MT'', demo_mgr (Some \<lparr>ino = 0, fbuf = [], closed = False\<rparr>) 0)]\<rparr> (demo_files\<lparr>names := [(demo_name, 0)], nextIno := 1\<rparr>))
     \<lparr>writers := [Taking], ds_maxFileSize := 5, ds_genFreq := 60\<rparr>"

lemma demo_new: "MessageFilesImpl_new (\<lambda>es. es) (Some ''p/x'') demo_files = Inr (\<lparr>szMainPath = ''p/'', mf_gateNo = 0, szPtCode = [], details = []\<rparr>, demo_files)"
  by (simp add: MessageFilesImpl_new_def ScanfAndRenameTmpFile_def EnumTmpFile_def GetExePath_def enum_dir.simps sys_opendir_def entries_def
      basename_def dirname_def sys_kind_def demo_files_def demo_dirs_def)

lemma demo_started: "started demo_env demo_clock (\<lambda>es. es) (Some ''p/x'') 1 ''p'' 7 5 60 demo_files = Inr (0, demo_sys)"
proof -
  have l: "limit_size 5 = 5" "limit_freq 60 = 60" by (simp_all add: limit_size_def limit_freq_def)
  have w: "outs demo_files = []" "dirs demo_files = demo_dirs" by (simp_all add: demo_files_def)
  define m where "m = \<lparr>szMainPath = ''p/'', mf_gateNo = 7, szPtCode = ''p'', details = []\<rparr>"
  have m: "szMainPath m = ''p/''" "details m = []" by (simp_all add: m_def)
  show ?thesis
    unfolding started_def demo_new
    by (simp add: detailFileSysInit_def DetailFileSys_new_def InitParams_def l demo_env_def InitReDetailsFile_def InitReOkDetailsFile_def InitMoDetailsFile_def
        InitMoOkDetailsFile_def demo_first [OF m, unfolded m_def] demo_again w demo_sys_def)
qed

definition demo_handed :: "detail_sys \<times> history" where
  "demo_handed = (demo_sys\<lparr>dq := (dq demo_sys)\<lparr>dq_queue := [(recvMsg, ''abc'')]\<rparr>\<rparr>, no_history\<lparr>handed := [(recvMsg, ''abc'')]\<rparr>)"

lemma demo_hand_over: "(sys_step demo_env demo_clock)\<^sup>*\<^sup>* (demo_sys, no_history) demo_handed"
proof -
  let ?d = "(recvMsg, ''abc'')"
  have "sys_step demo_env demo_clock (demo_sys, no_history) (demo_sys\<lparr>callers := [?d]\<rparr>, no_history)"
    using sys_step.call [of demo_sys demo_env demo_clock no_history ?d] by (simp add: demo_sys_def DetailFileSys_new_def)
  moreover have "sys_step demo_env demo_clock (demo_sys\<lparr>callers := [?d]\<rparr>, no_history) demo_handed"
    using sys_step.put [of ?d "demo_sys\<lparr>callers := [?d]\<rparr>" 0 "(dq demo_sys)\<lparr>dq_queue := [?d]\<rparr>" None demo_env demo_clock no_history]
    by (simp add: demo_sys_def DetailFileSys_new_def DetailQueue_new_def mutex_free_def detailInsert_def dq_isFull_def notified_def wake_def demo_handed_def no_history_def)
  ultimately show ?thesis by (meson converse_rtranclp_into_rtranclp r_into_rtranclp)
qed

lemma demo_env_ok: "env_ok demo_env" "clock_ok demo_clock" "tv_usec demo_files < 1000000" "fs_ok demo_files"
    "length (GetExePath (Some ''p/x'') @ ''MsgFiles/'' @ ''p'' @ ''/'' @ file_kind demo_env t @ ''/'' @ sprintf_d 7) \<le> 227"
  by (simp_all add: env_ok_def init_calls_def demo_env_def clock_ok_def demo_clock_def demo_files_def fs_ok_def GetExePath_def demo_gate)

lemma demo_written:
  "\<exists>s h. (sys_step demo_env demo_clock)\<^sup>*\<^sup>* (demo_sys, no_history) (s, h) \<and> accepted h = [''abc''] \<and> \<not> collided (world s) \<and> \<not> undefd (world s)"
proof -
  let ?d = "(recvMsg, ''abc'')" and ?f = "\<lparr>ino = 0, fbuf = [], closed = False\<rparr>"
  obtain s1 h1 where h: "demo_handed = (s1, h1)" by force
  let ?s2 = "s1\<lparr>dq := (dq s1)\<lparr>dq_queue := []\<rparr>, writers := [Writing ?d]\<rparr>"
  have s1: "s1 = demo_sys\<lparr>dq := (dq demo_sys)\<lparr>dq_queue := [?d]\<rparr>\<rparr>" "h1 = no_history\<lparr>handed := [?d]\<rparr>" using h by (simp_all add: demo_handed_def)
  have "sys_step demo_env demo_clock (s1, h1) (?s2, h1\<lparr>taken := taken h1 @ [?d]\<rparr>)"
    using worker_step.take [of 0 s1 ?d "(dq s1)\<lparr>dq_queue := []\<rparr>" demo_env demo_clock h1, THEN sys_step.work]
    by (simp add: s1 demo_sys_def DetailFileSys_new_def mutex_free_def detailWrite_def)
  then have r1: "(sys_step demo_env demo_clock)\<^sup>*\<^sup>* (demo_sys, no_history) (?s2, h1\<lparr>taken := taken h1 @ [?d]\<rparr>)"
    using demo_hand_over h by (metis rtranclp.rtrancl_into_rtrancl)
  have w: "WriteToFile demo_clock ''abc'' (demo_mgr (Some ?f) 0) (demo_files\<lparr>names := [(demo_name, 0)], nextIno := 1\<rparr>) = Inr (0, demo_mgr (Some ?f) 3, demo_stored)"
    using demo_put [of "demo_files\<lparr>names := [(demo_name, 0)], nextIno := 1\<rparr>" 0 "''abc''" 0] by (simp add: demo_files_def demo_stored_def)
  obtain m where wd: "write_detail demo_env demo_clock ?d ?s2 = Inr (Some 0, ?s2\<lparr>msgFiles := m, world := demo_stored\<rparr>)"
    using w by (auto simp: write_detail_def demo_env_def mf_WriteFile_def s1 demo_sys_def DetailFileSys_new_def)
  define h2 where "h2 = h1\<lparr>taken := taken h1 @ [?d]\<rparr>"
  define s3 where "s3 = (?s2\<lparr>msgFiles := m, world := demo_stored\<rparr>)\<lparr>writers := (writers ?s2)[0 := Taking]\<rparr>"
  have "sys_step demo_env demo_clock (?s2, h2) (s3, h2\<lparr>written := (?d, Some 0) # written h2\<rparr>)"
    unfolding s3_def by (rule sys_step.work, rule worker_step.finish [OF _ _ wd]) simp_all
  then have run: "(sys_step demo_env demo_clock)\<^sup>*\<^sup>* (demo_sys, no_history) (s3, h2\<lparr>written := (?d, Some 0) # written h2\<rparr>)"
    using r1 unfolding h2_def [symmetric] by (rule rtranclp.rtrancl_into_rtrancl [rotated])
  have "accepted (h2\<lparr>written := (?d, Some 0) # written h2\<rparr>) = [''abc'']" by (simp add: accepted_def h2_def s1 no_history_def)
  moreover have "world s3 = demo_stored" "\<not> collided demo_stored" "\<not> undefd demo_stored" by (simp_all add: s3_def demo_stored_def demo_files_def)
  ultimately show ?thesis using run by metis
qed


theorem queue_drains_witness:
  "\<exists>s' h'. (worker_step demo_env demo_clock)\<^sup>*\<^sup>* demo_handed (s', h') \<and> mset (map fst (written h')) = {#(recvMsg, ''abc'')#}"
proof -
  obtain s h where h: "demo_handed = (s, h)" by force
  then have w: "\<not> set (writers s) \<subseteq> {Gone}" "mset (handed h) = {#(recvMsg, ''abc'')#}" by (auto simp: demo_handed_def demo_sys_def no_history_def)
  from queue_drains [OF demo_env_ok(1-4) demo_env_ok(5) demo_started demo_hand_over [unfolded h] w(1)] w(2) h show ?thesis by metis
qed

section \<open>The exit\<close>

definition sys_start :: "nat \<Rightarrow> fsys \<Rightarrow> detail_sys" where
  "sys_start n w = (DetailFileSys_new \<lparr>szMainPath = [], mf_gateNo = 0, szPtCode = [], details = []\<rparr> w)\<lparr>writers := replicate n Taking\<rparr>"

text \<open>the flags of the exit are set and its notification is sent without the mutex. Both can fall between the test of a writer
  thread and its \<open>wait\<close>; the thread then waits with the flags set, and no step of a writer thread is possible any more.
\<close>

theorem detail_exit_wakeup_lost:
  "\<exists>s h. (sys_step E lt)\<^sup>*\<^sup>* (sys_start 1 w, no_history) (s, h) \<and> exit_at s = Notified \<and> dq_isExit (dq s) \<and> writers s = [Waiting] \<and> (\<forall>y. \<not> worker_step E lt (s, h) y)"
proof -
  let ?s = "sys_start 1 w"
  let ?a = "?s\<lparr>writers := [About_to_wait]\<rparr>"
  let ?b = "?a\<lparr>leaving := True, exit_at := Flag_set\<rparr>"
  let ?c = "?b\<lparr>dq := (dq ?b)\<lparr>dq_isExit := True\<rparr>, exit_at := Queue_flag_set\<rparr>"
  let ?d = "?c\<lparr>writers := [About_to_wait], exit_at := Notified\<rparr>"
  let ?e = "?d\<lparr>writers := [Waiting]\<rparr>"
  have s: "writers ?s = [Taking]" "exit_at ?s = Not_called" "dq_queue (dq ?s) = []" "\<not> dq_isExit (dq ?s)"
    by (simp_all add: sys_start_def DetailFileSys_new_def DetailQueue_new_def)
  have "sys_step E lt (?s, no_history) (?a, no_history)"
    using worker_step.test [of 0 ?s "dq ?s" E lt no_history, THEN sys_step.work] s by (simp add: mutex_free_def detailWrite_def)
  moreover have "sys_step E lt (?a, no_history) (?b, no_history)" using sys_step.exit_flag [of ?a] s by simp
  moreover have "sys_step E lt (?b, no_history) (?c, no_history)" using sys_step.exit_queue [of ?b] by simp
  moreover have "sys_step E lt (?c, no_history) (?d, no_history)" using sys_step.exit_notify [of ?c] by simp
  moreover have "sys_step E lt (?d, no_history) (?e, no_history)" using worker_step.wait [of 0 ?d E lt no_history, THEN sys_step.work] by simp
  ultimately have "(sys_step E lt)\<^sup>*\<^sup>* (?s, no_history) (?e, no_history)" by (meson converse_rtranclp_into_rtranclp r_into_rtranclp)
  moreover have "\<not> worker_step E lt (?e, no_history) y" for y by (auto elim!: workerE)
  ultimately show ?thesis by (intro exI [of _ ?e] exI [of _ no_history]) simp
qed


end
