(* ===== verification/TcpCli.thy ===== *)
theory TcpCli
  imports SpeedControl DetailFiles
begin

text \<open>
  The TCP client, \<^verbatim>\<open>src/libeventcpcli\<close>: connections that are opened, written to and closed by orders to one of several I/O
  threads (\<^verbatim>\<open>LibeventTcpCli.cpp\<close>, \<^verbatim>\<open>LibeventIo.cpp\<close>), and report to the user by a callback (\<^verbatim>\<open>TcpClient.cpp\<close>).

  libevent is a parameter: what its functions return is given to each step, and which of its callbacks it makes, when and with which event, is a
  choice among the objects that are registered with it. A connection is a number, its object an entry of \<open>objs\<close>; it is deleted with
  the last \<open>shared_ptr\<close>, which are those of the table, of the queued orders and of the calls under way. Critical sections are steps; everything
  between two of them is a step of the call. The counters of the event descriptors are not bounded: they would need more
  than \<open>2 ^ 62\<close> orders at a time to meet their limit. The functions given by the user are set; the calls they make are calls like all others.
\<close>

section \<open>Numbers for connections (UniqueNum.h)\<close>

definition uniqueNumId :: "date \<Rightarrow> u32 \<Rightarrow> u32 \<Rightarrow> u64 \<times> u32" where
  "uniqueNumId t uniquId tail =
     (let nNodeid = uniquId mod 8191; (n, tail) = incrementAndGet tail; nNo = n mod 0x03ffff;
          nYear = word_of_nat (tm_year t + 1900) mod 100 :: u32; nMonth = word_of_nat (tm_mon t + 1) :: u32; nDay = word_of_nat (tm_mday t) :: u32;
          nHour = word_of_nat (tm_hour t) :: u32; nMin = word_of_nat (tm_min t) :: u32; nSec = word_of_nat (tm_sec t) :: u32
      in (push_bit 57 (ucast (nYear AND 0x7f)) OR push_bit 53 (ucast (nMonth AND 0x0f)) OR push_bit 48 (ucast (nDay AND 0x1f)) OR
          push_bit 43 (ucast (nHour AND 0x1f)) OR push_bit 37 (ucast (nMin AND 0x3f)) OR push_bit 31 (ucast (nSec AND 0x3f)) OR
          push_bit 18 (ucast (nNodeid AND 0x01fff)) OR ucast (nNo AND 0x03ffff), tail))"

section \<open>Objects\<close>

datatype TcpClientState = CONN_FAILED | CONN_SUCCESS | DIS_CONNECT

record TcpClient =
  tc_port :: c_int
  tc_sockfd :: c_int
  tc_connOutSecond :: c_int
  tc_dataOutSecond :: c_int
  tc_state :: TcpClientState
  tc_ioIndex :: nat
  tc_outbufLen :: nat
  tc_uniqueNum :: u64
  tc_lastRecvSecond :: u64
  tc_priv :: u64
  tc_timev :: "nat option"
  tc_bev :: "nat option"
  tc_ipaddr :: string

definition TcpClient_new :: "nat \<Rightarrow> u64 \<Rightarrow> string \<Rightarrow> c_int \<Rightarrow> u64 \<Rightarrow> c_int \<Rightarrow> c_int \<Rightarrow> u64 \<Rightarrow> TcpClient" where
  "TcpClient_new ioIndex uniqueNum ipaddr port priv dataOutSecond connOutSecond second =
     \<lparr>tc_port = port, tc_sockfd = 0, tc_connOutSecond = connOutSecond, tc_dataOutSecond = dataOutSecond, tc_state = CONN_FAILED,
      tc_ioIndex = ioIndex, tc_outbufLen = 0, tc_uniqueNum = uniqueNum, tc_lastRecvSecond = second, tc_priv = priv,
      tc_timev = None, tc_bev = None, tc_ipaddr = ipaddr\<rparr>"

text \<open>An order, \<open>OrderNode\<close>: without a message it opens or closes the connection.\<close>

type_synonym OrderNode = "nat \<times> string"

definition orderNodeInsert :: "OrderNode \<Rightarrow> OrderNode list \<Rightarrow> OrderNode list" where
  "orderNodeInsert node q = q @ [node]"

definition dealOrderNode :: "OrderNode list \<Rightarrow> (OrderNode \<times> OrderNode list) option" where
  "dealOrderNode q = (case q of [] \<Rightarrow> None | node # q \<Rightarrow> Some (node, q))"

text \<open>An I/O thread waits in the dispatcher, works off its orders after it has read the counter, is in the user's message callback, or has ended.\<close>

datatype io_thread = Idle | Draining nat | In_message nat nat | Ended

text \<open>
  A call under way: where it is, with the objects it holds. After \<open>libeventTcpCliDisconnect\<close> its caller goes on: the user, a
  send that has found the connection expired, or the thread that looks for expired connections, with those that are left.
\<close>

datatype go_on = Own | Fixed int | More "u64 list"

datatype tcp_call =
    Adding string c_int u64 c_int c_int
  | Add_wake nat
  | Add_insert nat
  | Added u64
  | Send_post u64 nat string
  | Send_wake nat
  | Disc_find go_on u64
  | Disc_post go_on nat
  | Disc_wake go_on nat
  | Disc_report go_on nat
  | Reset_set nat u64
  | Scan u64
  | Ret int

fun holds_obj :: "tcp_call \<Rightarrow> nat option" where
  "holds_obj (Add_wake c) = Some c"
| "holds_obj (Add_insert c) = Some c"
| "holds_obj (Send_post u c m) = Some c"
| "holds_obj (Send_wake c) = Some c"
| "holds_obj (Disc_post k c) = Some c"
| "holds_obj (Disc_wake k c) = Some c"
| "holds_obj (Disc_report k c) = Some c"
| "holds_obj (Reset_set c p) = Some c"
| "holds_obj _ = None"

fun finish :: "go_on \<Rightarrow> int \<Rightarrow> tcp_call" where
  "finish Own r = Ret r"
| "finish (Fixed v) r = Ret v"
| "finish (More []) r = Ret 0"
| "finish (More (u # us)) r = Disc_find (More us) u"

text \<open>A bufferevent is not connected to anything before \<open>bufferevent_socket_connect\<close> has succeeded, and delivers data only after its event said so.\<close>

datatype bev_state = Fresh | Connecting | Connected

datatype conn_event = Opened | Report u64 TcpClientState

text \<open>
  \<open>connLog\<close>, \<open>posted\<close>, \<open>wrote\<close> and \<open>tried\<close> are the history: what happened to the entries of the table, the orders inserted, the messages given to
  \<open>bufferevent_write\<close>, and the objects \<open>connectServer\<close> was called for. The flags are raised by a second \<open>connectServer\<close> for the same object, by a number
  that was given twice, by an \<open>event_free\<close> of a null pointer and by the use of a deleted object.
\<close>

record tcp_sys =
  objs :: "TcpClient list"
  tcpClientConnMap :: "(u64 \<times> nat) list"
  orderQs :: "OrderNode list list"
  counters :: "nat list"
  io_threads :: "io_thread list"
  timers :: "nat \<Rightarrow> nat option"
  bevs :: "nat \<Rightarrow> (nat \<times> bev_state) option"
  nextHandle :: nat
  tcalls :: "tcp_call list"
  second :: u64
  isExit :: bool
  exits :: nat
  released :: bool
  uniquId :: u32
  lastIndex :: u32
  uniqueTail :: u32
  connLog :: "(u64 \<times> conn_event) list"
  posted :: "OrderNode list"
  wrote :: "OrderNode list"
  tried :: "nat list"
  retried :: bool
  clash :: bool
  null_free :: bool
  stale :: bool

definition upd_obj :: "nat \<Rightarrow> (TcpClient \<Rightarrow> TcpClient) \<Rightarrow> tcp_sys \<Rightarrow> tcp_sys" where
  "upd_obj c f s = s\<lparr>objs := (objs s)[c := f (objs s ! c)]\<rparr>"

definition free_timer :: "nat \<Rightarrow> tcp_sys \<Rightarrow> tcp_sys" where
  "free_timer c s =
     (case tc_timev (objs s ! c) of
        None \<Rightarrow> s
      | Some h \<Rightarrow> upd_obj c (\<lambda>x. x\<lparr>tc_timev := None\<rparr>) (s\<lparr>timers := (timers s)(h := None)\<rparr>))"

definition free_bev :: "nat \<Rightarrow> tcp_sys \<Rightarrow> tcp_sys" where
  "free_bev c s =
     (case tc_bev (objs s ! c) of
        None \<Rightarrow> s
      | Some b \<Rightarrow> upd_obj c (\<lambda>x. x\<lparr>tc_bev := None\<rparr>) (s\<lparr>bevs := (bevs s)(b := None)\<rparr>))"

definition tc_disConnect :: "nat \<Rightarrow> tcp_sys \<Rightarrow> tcp_sys" where
  "tc_disConnect c s = free_bev c (free_timer c s)"

definition TcpClient_delete :: "nat \<Rightarrow> tcp_sys \<Rightarrow> tcp_sys" where
  "TcpClient_delete c s = upd_obj c (\<lambda>x. x\<lparr>tc_priv := 0, tc_ipaddr := []\<rparr>) (tc_disConnect c s)"

text \<open>The last \<open>shared_ptr\<close>.\<close>

definition held :: "tcp_sys \<Rightarrow> nat \<Rightarrow> bool" where
  "held s c \<longleftrightarrow> c \<in> snd ` set (tcpClientConnMap s) \<or> (\<exists>q \<in> set (orderQs s). c \<in> fst ` set q) \<or> Some c \<in> holds_obj ` set (tcalls s)"

definition sweep :: "tcp_sys \<Rightarrow> tcp_sys" where
  "sweep s = fold (\<lambda>c s. if held s c then s else TcpClient_delete c s) [0..<length (objs s)] s"

section \<open>One connection (TcpClient.cpp)\<close>

definition tcpServerConnect :: "u64 \<Rightarrow> u64 \<Rightarrow> TcpClientState \<Rightarrow> tcp_sys \<Rightarrow> tcp_sys" where
  "tcpServerConnect unid priv st s =
     (if map_of (tcpClientConnMap s) unid = None then s
      else s\<lparr>tcpClientConnMap := (if st \<noteq> CONN_SUCCESS then filter (\<lambda>e. fst e \<noteq> unid) (tcpClientConnMap s) else tcpClientConnMap s),
             connLog := connLog s @ [(unid, Report priv st)]\<rparr>)"

definition tell :: "nat \<Rightarrow> TcpClientState \<Rightarrow> tcp_sys \<Rightarrow> tcp_sys" where
  "tell c st s = tcpServerConnect (tc_uniqueNum (objs s ! c)) (tc_priv (objs s ! c)) st s"

definition setRecvSecond :: "nat \<Rightarrow> tcp_sys \<Rightarrow> int \<times> tcp_sys" where
  "setRecvSecond c s =
     (let x = objs s ! c
      in if tc_lastRecvSecond x \<noteq> 0 \<and> second s - tc_lastRecvSecond x > scast (tc_dataOutSecond x) then (- 1, s)
         else (0, upd_obj c (\<lambda>x. x\<lparr>tc_lastRecvSecond := second s\<rparr>) s))"

definition isKeepAlive :: "u64 \<Rightarrow> TcpClient \<Rightarrow> bool" where
  "isKeepAlive sec x \<longleftrightarrow> \<not> (tc_lastRecvSecond x \<noteq> 0 \<and> sec - tc_lastRecvSecond x > scast (tc_dataOutSecond x))"

definition tcpClieSetconn :: "nat \<Rightarrow> tcp_sys \<Rightarrow> tcp_sys" where
  "tcpClieSetconn c s = upd_obj c (\<lambda>x. x\<lparr>tc_state := CONN_SUCCESS\<rparr>) (free_timer c s)"

definition connectTimeout :: "nat \<Rightarrow> tcp_sys \<Rightarrow> tcp_sys" where
  "connectTimeout c s = (if tc_state (objs s ! c) = CONN_FAILED then tell c CONN_FAILED (tc_disConnect c s) else s)"

abbreviation BEV_EVENT_EOF :: u32 where "BEV_EVENT_EOF \<equiv> 0x10"
abbreviation BEV_EVENT_ERROR :: u32 where "BEV_EVENT_ERROR \<equiv> 0x20"
abbreviation BEV_EVENT_CONNECTED :: u32 where "BEV_EVENT_CONNECTED \<equiv> 0x80"

definition conn_closed :: "nat \<Rightarrow> tcp_sys \<Rightarrow> tcp_sys" where
  "conn_closed c s =
     (let s = tc_disConnect c s in if tc_state (objs s ! c) = CONN_FAILED then tell c CONN_FAILED s else tell c DIS_CONNECT s)"

definition TcpClientOnEvent :: "u32 \<Rightarrow> nat \<Rightarrow> tcp_sys \<Rightarrow> tcp_sys" where
  "TcpClientOnEvent event c s =
     (if event AND BEV_EVENT_EOF \<noteq> 0 then conn_closed c s
      else if event AND BEV_EVENT_ERROR \<noteq> 0 then conn_closed c s
      else if event AND BEV_EVENT_CONNECTED \<noteq> 0 then tell c CONN_SUCCESS (tcpClieSetconn c s)
      else conn_closed c s)"

text \<open>The results of the calls of \<open>connectServer\<close>; \<open>told\<close>: the error event comes within \<open>bufferevent_socket_connect\<close>.\<close>

record connect_calls =
  timer_made :: bool
  bev_made :: bool
  enabled :: c_int
  told :: bool
  connected :: c_int
  fd_given :: c_int

text \<open>\<open>bufferevent_getfd\<close> gives a descriptor once the bufferevent is connecting.\<close>

definition gives_fd :: "connect_calls \<Rightarrow> bool" where
  "gives_fd r \<longleftrightarrow> connected r <s 0 \<or> \<not> fd_given r <s 0"

definition connectServer :: "connect_calls \<Rightarrow> nat \<Rightarrow> tcp_sys \<Rightarrow> c_int \<times> tcp_sys" where
  "connectServer r c s =
     (let s = s\<lparr>retried := retried s \<or> c \<in> set (tried s), tried := c # tried s\<rparr>; h = nextHandle s
      in if tc_ipaddr (objs s ! c) = [] \<or> tc_port (objs s ! c) = 0 then (- 3, s)
         else let s = upd_obj c (\<lambda>x. x\<lparr>tc_timev := if timer_made r then Some h else None\<rparr>) (s\<lparr>nextHandle := h + 2\<rparr>)
              in if \<not> timer_made r then (- 1, s)
                 else let s = upd_obj c (\<lambda>x. x\<lparr>tc_bev := if bev_made r then Some (h + 1) else None\<rparr>) s
                      in if \<not> bev_made r then (- 1, s)
                         else let s = s\<lparr>bevs := (bevs s)(h + 1 \<mapsto> (c, Fresh))\<rparr>
                              in if enabled r <s 0 then (enabled r, s)
                                 else let s = s\<lparr>timers := (timers s)(h \<mapsto> c)\<rparr>;
                                          s = (if told r then TcpClientOnEvent BEV_EVENT_ERROR c s else s)
                                      in if connected r <s 0
                                         then (connected r, free_timer c (s\<lparr>null_free := null_free s \<or> tc_timev (objs s ! c) = None\<rparr>))
                                         else let s = (if told r then s else s\<lparr>bevs := (bevs s)(h + 1 \<mapsto> (c, Connecting))\<rparr>);
                                                  s = upd_obj c (\<lambda>x. x\<lparr>tc_lastRecvSecond := second s\<rparr>) s
                                              in if tc_bev (objs s ! c) \<noteq> None
                                                 then (fd_given r, upd_obj c (\<lambda>x. x\<lparr>tc_sockfd := fd_given r\<rparr>) s)
                                                 else (- 1, s))"

definition tc_sendMsg :: "nat \<Rightarrow> string \<Rightarrow> tcp_sys \<Rightarrow> tcp_sys" where
  "tc_sendMsg c msg s = (if tc_bev (objs s ! c) \<noteq> None then s\<lparr>wrote := wrote s @ [(c, msg)]\<rparr> else s)"

section \<open>Threads and calls (LibeventIo.cpp, LibeventTcpCli.cpp)\<close>

text \<open>\<open>libeventIoOrder\<close>; the wake-up follows as a step of its own.\<close>

definition libeventIoOrder :: "OrderNode \<Rightarrow> tcp_sys \<Rightarrow> tcp_sys" where
  "libeventIoOrder node s =
     (let t = tc_ioIndex (objs s ! fst node)
      in s\<lparr>orderQs := (orderQs s)[t := orderNodeInsert node (orderQs s ! t)], posted := posted s @ [node]\<rparr>)"

definition add_counter :: "nat \<Rightarrow> nat \<Rightarrow> tcp_sys \<Rightarrow> tcp_sys" where
  "add_counter t n s = s\<lparr>counters := (counters s)[t := counters s ! t + n]\<rparr>"

definition libeventIoWakeup :: "nat \<Rightarrow> tcp_sys \<Rightarrow> tcp_sys" where
  "libeventIoWakeup c s = add_counter (tc_ioIndex (objs s ! c)) 2 s"

definition handle_order :: "connect_calls \<Rightarrow> OrderNode \<Rightarrow> tcp_sys \<Rightarrow> tcp_sys" where
  "handle_order r node s =
     (case node of (c, msg) \<Rightarrow>
        if tc_sockfd (objs s ! c) = 0
        then (case connectServer r c s of (ret, s) \<Rightarrow> if ret <s 0 then tell c CONN_FAILED s else s)
        else if msg = [] then tc_disConnect c s
        else tc_sendMsg c msg s)"

text \<open>The new connection of \<open>libeventAddConnect\<close>, with its order.\<close>

definition new_connection :: "(u64 \<Rightarrow> date) \<Rightarrow> string \<Rightarrow> c_int \<Rightarrow> u64 \<Rightarrow> c_int \<Rightarrow> c_int \<Rightarrow> tcp_sys \<Rightarrow> tcp_sys" where
  "new_connection lt ipaddr port priv dataOut connOut s =
     (let index = unat (lastIndex s mod word_of_nat (length (io_threads s)));
          (uuid, tail) = uniqueNumId (lt (second s)) (uniquId s) (uniqueTail s);
          s = s\<lparr>lastIndex := lastIndex s + 1, uniqueTail := tail, clash := clash s \<or> uuid \<in> tc_uniqueNum ` set (objs s),
               objs := objs s @ [TcpClient_new index uuid ipaddr port priv dataOut connOut (second s)]\<rparr>
      in libeventIoOrder (length (objs s) - 1, []) s)"

definition insert_conn :: "nat \<Rightarrow> tcp_sys \<Rightarrow> tcp_sys" where
  "insert_conn c s =
     (let u = tc_uniqueNum (objs s ! c)
      in if map_of (tcpClientConnMap s) u = None
         then s\<lparr>tcpClientConnMap := insort_key fst (u, c) (tcpClientConnMap s), connLog := connLog s @ [(u, Opened)]\<rparr>
         else s)"

text \<open>One step of a call.\<close>

fun call_step :: "(u64 \<Rightarrow> date) \<Rightarrow> tcp_call \<Rightarrow> tcp_sys \<Rightarrow> tcp_call \<times> tcp_sys" where
  "call_step lt (Adding ipaddr port priv dataOut connOut) s =
     (if released s then (Adding ipaddr port priv dataOut connOut, s)
      else (Add_wake (length (objs s)), new_connection lt ipaddr port priv dataOut connOut s))"
| "call_step lt (Add_wake c) s = (Add_insert c, libeventIoWakeup c s)"
| "call_step lt (Add_insert c) s = (Added (tc_uniqueNum (objs s ! c)), insert_conn c s)"
| "call_step lt (Send_post unid c msg) s =
     (let (ret, s) = setRecvSecond c s
      in if ret = 0 \<and> \<not> released s then (Send_wake c, libeventIoOrder (c, msg) s) else (Disc_find (Fixed (- 3)) unid, s))"
| "call_step lt (Send_wake c) s = (Ret 0, libeventIoWakeup c s)"
| "call_step lt (Disc_find k unid) s =
     (if isExit s then (finish k (- 2), s)
      else case map_of (tcpClientConnMap s) unid of None \<Rightarrow> (finish k (- 3), s) | Some c \<Rightarrow> (Disc_post k c, s))"
| "call_step lt (Disc_post k c) s = (if released s then (Disc_report k c, s) else (Disc_wake k c, libeventIoOrder (c, []) s))"
| "call_step lt (Disc_wake k c) s = (Disc_report k c, libeventIoWakeup c s)"
| "call_step lt (Disc_report k c) s =
     (finish k 0, if tc_state (objs s ! c) = CONN_FAILED then tell c CONN_FAILED s else tell c DIS_CONNECT s)"
| "call_step lt (Reset_set c p) s = (Ret 0, upd_obj c (\<lambda>x. x\<lparr>tc_priv := p\<rparr>) s)"
| "call_step lt (Scan sec) s =
     (finish (More (map (\<lambda>e. tc_uniqueNum (objs s ! snd e)) (filter (\<lambda>e. \<not> isKeepAlive sec (objs s ! snd e)) (tcpClientConnMap s)))) 0, s)"
| "call_step lt (Added u) s = (Added u, s)"
| "call_step lt (Ret r) s = (Ret r, s)"

definition find_conn :: "u64 \<Rightarrow> (nat \<Rightarrow> tcp_call) \<Rightarrow> tcp_sys \<Rightarrow> tcp_call" where
  "find_conn unid next s = (if isExit s then Ret (- 2) else case map_of (tcpClientConnMap s) unid of None \<Rightarrow> Ret (- 3) | Some c \<Rightarrow> next c)"

definition set_thread :: "nat \<Rightarrow> io_thread \<Rightarrow> tcp_sys \<Rightarrow> tcp_sys" where
  "set_thread t p s = s\<lparr>io_threads := (io_threads s)[t := p]\<rparr>"

text \<open>\<open>libeventTcpCliInit\<close>, when all I/O threads are ready.\<close>

definition tcp_start :: "nat \<Rightarrow> u32 \<Rightarrow> tcp_sys" where
  "tcp_start n uid =
     \<lparr>objs = [], tcpClientConnMap = [], orderQs = replicate n [], counters = replicate n 0, io_threads = replicate n Idle, timers = Map.empty,
      bevs = Map.empty, nextHandle = 0, tcalls = [], second = 0, isExit = False, exits = 0, released = False, uniquId = uid, lastIndex = 0,
      uniqueTail = 0, connLog = [], posted = [], wrote = [], tried = [], retried = False, clash = False, null_free = False, stale = False\<rparr>"

text \<open>
  The steps. \<open>io_step t\<close>: thread \<open>t\<close> reads its counter, works off an order, goes back to the dispatcher or ends.
  libevent calls back in the thread of the connection.
\<close>

inductive io_step :: "nat \<Rightarrow> tcp_sys \<Rightarrow> tcp_sys \<Rightarrow> bool" for t where
  read: "t < length (io_threads s) \<Longrightarrow> io_threads s ! t = Idle \<Longrightarrow> counters s ! t > 0 \<Longrightarrow>
    io_step t s (set_thread t (Draining (counters s ! t)) (s\<lparr>counters := (counters s)[t := 0]\<rparr>))"
| order: "t < length (io_threads s) \<Longrightarrow> io_threads s ! t = Draining v \<Longrightarrow> dealOrderNode (orderQs s ! t) = Some (node, q) \<Longrightarrow> gives_fd r \<Longrightarrow>
    io_step t s (sweep (handle_order r node (s\<lparr>orderQs := (orderQs s)[t := q]\<rparr>)))"
| drained: "t < length (io_threads s) \<Longrightarrow> io_threads s ! t = Draining v \<Longrightarrow> dealOrderNode (orderQs s ! t) = None \<Longrightarrow>
    io_step t s (set_thread t (if odd v then Ended else Idle) s)"
| message_end: "t < length (io_threads s) \<Longrightarrow> io_threads s ! t = In_message b c \<Longrightarrow>
    io_step t s (let s = set_thread t Idle (s\<lparr>stale := stale s \<or> \<not> held s c\<rparr>)
                 in if drained then s else sweep (tell c DIS_CONNECT (tc_disConnect c s)))"

inductive libevent_step :: "tcp_sys \<Rightarrow> tcp_sys \<Rightarrow> bool" where
  timeout: "timers s h = Some c \<Longrightarrow> io_threads s ! tc_ioIndex (objs s ! c) = Idle \<Longrightarrow>
    libevent_step s (sweep (connectTimeout c (s\<lparr>timers := (timers s)(h := None), stale := stale s \<or> \<not> held s c\<rparr>)))"
| connected: "bevs s b = Some (c, Connecting) \<Longrightarrow> io_threads s ! tc_ioIndex (objs s ! c) = Idle \<Longrightarrow> event AND BEV_EVENT_EOF = 0 \<Longrightarrow>
    event AND BEV_EVENT_ERROR = 0 \<Longrightarrow> event AND BEV_EVENT_CONNECTED \<noteq> 0 \<Longrightarrow>
    libevent_step s (TcpClientOnEvent event c (s\<lparr>bevs := (bevs s)(b \<mapsto> (c, Connected)), stale := stale s \<or> \<not> held s c\<rparr>))"
| event: "bevs s b = Some (c, k) \<Longrightarrow> io_threads s ! tc_ioIndex (objs s ! c) = Idle \<Longrightarrow> event AND BEV_EVENT_CONNECTED = 0 \<Longrightarrow>
    libevent_step s (sweep (TcpClientOnEvent event c (s\<lparr>stale := stale s \<or> \<not> held s c\<rparr>)))"
| message: "bevs s b = Some (c, Connected) \<Longrightarrow> io_threads s ! tc_ioIndex (objs s ! c) = Idle \<Longrightarrow>
    setRecvSecond c (s\<lparr>stale := stale s \<or> \<not> held s c\<rparr>) = (ret, s1) \<Longrightarrow>
    libevent_step s (if ret < 0 \<or> \<not> copied then sweep (tell c DIS_CONNECT (tc_disConnect c s1))
                     else set_thread (tc_ioIndex (objs s ! c)) (In_message b c) s1)"
| wrote: "bevs s b = Some (c, k) \<Longrightarrow> io_threads s ! tc_ioIndex (objs s ! c) = Idle \<Longrightarrow>
    libevent_step s (upd_obj c (\<lambda>x. x\<lparr>tc_outbufLen := n\<rparr>) (s\<lparr>stale := stale s \<or> \<not> held s c\<rparr>))"

inductive tcp_step :: "(u64 \<Rightarrow> date) \<Rightarrow> tcp_sys \<Rightarrow> tcp_sys \<Rightarrow> bool" for lt where
  io: "io_step t s s' \<Longrightarrow> tcp_step lt s s'"
| libevent: "libevent_step s s' \<Longrightarrow> tcp_step lt s s'"
| add: "\<not> isExit s \<Longrightarrow> io_threads s \<noteq> [] \<Longrightarrow> tcp_step lt s (s\<lparr>tcalls := tcalls s @ [Adding ipaddr port priv dataOut connOut]\<rparr>)"
| send: "tcp_step lt s (s\<lparr>tcalls := tcalls s @ [find_conn unid (\<lambda>c. Send_post unid c msg) s]\<rparr>)"
| disconnect: "tcp_step lt s (s\<lparr>tcalls := tcalls s @ [Disc_find Own unid]\<rparr>)"
| reset: "tcp_step lt s (s\<lparr>tcalls := tcalls s @ [find_conn unid (\<lambda>c. Reset_set c p) s]\<rparr>)"
| expire: "\<not> isExit s \<Longrightarrow> tcp_step lt s (s\<lparr>tcalls := tcalls s @ [Scan (second s)]\<rparr>)"
| call: "i < length (tcalls s) \<Longrightarrow> call_step lt (tcalls s ! i) s = (k, s') \<Longrightarrow> tcp_step lt s (sweep (s'\<lparr>tcalls := (tcalls s)[i := k]\<rparr>))"
| clock: "tcp_step lt s (s\<lparr>second := n\<rparr>)"
| exit_flag: "tcp_step lt s (s\<lparr>isExit := True\<rparr>)"
| exit_thread: "isExit s \<Longrightarrow> exits s < length (io_threads s) \<Longrightarrow> tcp_step lt s (add_counter (exits s) 1 (s\<lparr>exits := exits s + 1\<rparr>))"
| exit_release: "exits s = length (io_threads s) \<Longrightarrow> set (io_threads s) \<subseteq> {Ended} \<Longrightarrow>
    tcp_step lt s (sweep (s\<lparr>released := True, orderQs := map (\<lambda>_. []) (orderQs s)\<rparr>))"

end
