(* ===== verification/TcpCliProps.thy ===== *)
theory TcpCliProps
  imports TcpCli
begin

section \<open>What the operations leave alone\<close>

lemma upd_obj_rest [simp]:
  "orderQs (upd_obj c f s) = orderQs s" "counters (upd_obj c f s) = counters s" "io_threads (upd_obj c f s) = io_threads s" "tcalls (upd_obj c f s) = tcalls s"
  "second (upd_obj c f s) = second s" "isExit (upd_obj c f s) = isExit s" "exits (upd_obj c f s) = exits s" "released (upd_obj c f s) = released s"
  "uniquId (upd_obj c f s) = uniquId s" "lastIndex (upd_obj c f s) = lastIndex s" "uniqueTail (upd_obj c f s) = uniqueTail s" "posted (upd_obj c f s) = posted s"
  "clash (upd_obj c f s) = clash s" "tcpClientConnMap (upd_obj c f s) = tcpClientConnMap s" "connLog (upd_obj c f s) = connLog s" "timers (upd_obj c f s) = timers s"
  "bevs (upd_obj c f s) = bevs s" "nextHandle (upd_obj c f s) = nextHandle s" "wrote (upd_obj c f s) = wrote s" "tried (upd_obj c f s) = tried s"
  "retried (upd_obj c f s) = retried s" "null_free (upd_obj c f s) = null_free s" "stale (upd_obj c f s) = stale s"
  by (simp_all add: upd_obj_def split: option.splits)

lemma free_timer_rest [simp]:
  "orderQs (free_timer c s) = orderQs s" "counters (free_timer c s) = counters s" "io_threads (free_timer c s) = io_threads s" "tcalls (free_timer c s) = tcalls s"
  "second (free_timer c s) = second s" "isExit (free_timer c s) = isExit s" "exits (free_timer c s) = exits s" "released (free_timer c s) = released s"
  "uniquId (free_timer c s) = uniquId s" "lastIndex (free_timer c s) = lastIndex s" "uniqueTail (free_timer c s) = uniqueTail s" "posted (free_timer c s) = posted s"
  "clash (free_timer c s) = clash s" "tcpClientConnMap (free_timer c s) = tcpClientConnMap s" "connLog (free_timer c s) = connLog s" "bevs (free_timer c s) = bevs s"
  "nextHandle (free_timer c s) = nextHandle s" "wrote (free_timer c s) = wrote s" "tried (free_timer c s) = tried s" "retried (free_timer c s) = retried s"
  "null_free (free_timer c s) = null_free s" "stale (free_timer c s) = stale s"
  by (simp_all add: free_timer_def split: option.splits)

lemma free_bev_rest [simp]:
  "orderQs (free_bev c s) = orderQs s" "counters (free_bev c s) = counters s" "io_threads (free_bev c s) = io_threads s" "tcalls (free_bev c s) = tcalls s"
  "second (free_bev c s) = second s" "isExit (free_bev c s) = isExit s" "exits (free_bev c s) = exits s" "released (free_bev c s) = released s"
  "uniquId (free_bev c s) = uniquId s" "lastIndex (free_bev c s) = lastIndex s" "uniqueTail (free_bev c s) = uniqueTail s" "posted (free_bev c s) = posted s"
  "clash (free_bev c s) = clash s" "tcpClientConnMap (free_bev c s) = tcpClientConnMap s" "connLog (free_bev c s) = connLog s" "timers (free_bev c s) = timers s"
  "nextHandle (free_bev c s) = nextHandle s" "wrote (free_bev c s) = wrote s" "tried (free_bev c s) = tried s" "retried (free_bev c s) = retried s"
  "null_free (free_bev c s) = null_free s" "stale (free_bev c s) = stale s"
  by (simp_all add: free_bev_def split: option.splits)

lemma tc_disConnect_rest [simp]:
  "orderQs (tc_disConnect c s) = orderQs s" "counters (tc_disConnect c s) = counters s" "io_threads (tc_disConnect c s) = io_threads s" "tcalls (tc_disConnect c s) = tcalls s"
  "second (tc_disConnect c s) = second s" "isExit (tc_disConnect c s) = isExit s" "exits (tc_disConnect c s) = exits s" "released (tc_disConnect c s) = released s"
  "uniquId (tc_disConnect c s) = uniquId s" "lastIndex (tc_disConnect c s) = lastIndex s" "uniqueTail (tc_disConnect c s) = uniqueTail s" "posted (tc_disConnect c s) = posted s"
  "clash (tc_disConnect c s) = clash s" "tcpClientConnMap (tc_disConnect c s) = tcpClientConnMap s" "connLog (tc_disConnect c s) = connLog s" "nextHandle (tc_disConnect c s) = nextHandle s"
  "wrote (tc_disConnect c s) = wrote s" "tried (tc_disConnect c s) = tried s" "retried (tc_disConnect c s) = retried s" "null_free (tc_disConnect c s) = null_free s"
  "stale (tc_disConnect c s) = stale s"
  by (simp_all add: tc_disConnect_def split: option.splits)

lemma TcpClient_delete_rest [simp]:
  "orderQs (TcpClient_delete c s) = orderQs s" "counters (TcpClient_delete c s) = counters s" "io_threads (TcpClient_delete c s) = io_threads s" "tcalls (TcpClient_delete c s) = tcalls s"
  "second (TcpClient_delete c s) = second s" "isExit (TcpClient_delete c s) = isExit s" "exits (TcpClient_delete c s) = exits s" "released (TcpClient_delete c s) = released s"
  "uniquId (TcpClient_delete c s) = uniquId s" "lastIndex (TcpClient_delete c s) = lastIndex s" "uniqueTail (TcpClient_delete c s) = uniqueTail s" "posted (TcpClient_delete c s) = posted s"
  "clash (TcpClient_delete c s) = clash s" "tcpClientConnMap (TcpClient_delete c s) = tcpClientConnMap s" "connLog (TcpClient_delete c s) = connLog s" "nextHandle (TcpClient_delete c s) = nextHandle s"
  "wrote (TcpClient_delete c s) = wrote s" "tried (TcpClient_delete c s) = tried s" "retried (TcpClient_delete c s) = retried s" "null_free (TcpClient_delete c s) = null_free s"
  "stale (TcpClient_delete c s) = stale s"
  by (simp_all add: TcpClient_delete_def split: option.splits)

lemma tcpServerConnect_rest [simp]:
  "orderQs (tcpServerConnect u p st s) = orderQs s" "counters (tcpServerConnect u p st s) = counters s" "io_threads (tcpServerConnect u p st s) = io_threads s" "tcalls (tcpServerConnect u p st s) = tcalls s"
  "second (tcpServerConnect u p st s) = second s" "isExit (tcpServerConnect u p st s) = isExit s" "exits (tcpServerConnect u p st s) = exits s" "released (tcpServerConnect u p st s) = released s"
  "uniquId (tcpServerConnect u p st s) = uniquId s" "lastIndex (tcpServerConnect u p st s) = lastIndex s" "uniqueTail (tcpServerConnect u p st s) = uniqueTail s" "posted (tcpServerConnect u p st s) = posted s"
  "clash (tcpServerConnect u p st s) = clash s" "objs (tcpServerConnect u p st s) = objs s" "timers (tcpServerConnect u p st s) = timers s" "bevs (tcpServerConnect u p st s) = bevs s"
  "nextHandle (tcpServerConnect u p st s) = nextHandle s" "wrote (tcpServerConnect u p st s) = wrote s" "tried (tcpServerConnect u p st s) = tried s" "retried (tcpServerConnect u p st s) = retried s"
  "null_free (tcpServerConnect u p st s) = null_free s" "stale (tcpServerConnect u p st s) = stale s"
  by (simp_all add: tcpServerConnect_def split: option.splits)

lemma tell_rest [simp]:
  "orderQs (tell c st s) = orderQs s" "counters (tell c st s) = counters s" "io_threads (tell c st s) = io_threads s" "tcalls (tell c st s) = tcalls s"
  "second (tell c st s) = second s" "isExit (tell c st s) = isExit s" "exits (tell c st s) = exits s" "released (tell c st s) = released s"
  "uniquId (tell c st s) = uniquId s" "lastIndex (tell c st s) = lastIndex s" "uniqueTail (tell c st s) = uniqueTail s" "posted (tell c st s) = posted s"
  "clash (tell c st s) = clash s" "objs (tell c st s) = objs s" "timers (tell c st s) = timers s" "bevs (tell c st s) = bevs s"
  "nextHandle (tell c st s) = nextHandle s" "wrote (tell c st s) = wrote s" "tried (tell c st s) = tried s" "retried (tell c st s) = retried s"
  "null_free (tell c st s) = null_free s" "stale (tell c st s) = stale s"
  by (simp_all add: tell_def split: option.splits)

lemma tcpClieSetconn_rest [simp]:
  "orderQs (tcpClieSetconn c s) = orderQs s" "counters (tcpClieSetconn c s) = counters s" "io_threads (tcpClieSetconn c s) = io_threads s" "tcalls (tcpClieSetconn c s) = tcalls s"
  "second (tcpClieSetconn c s) = second s" "isExit (tcpClieSetconn c s) = isExit s" "exits (tcpClieSetconn c s) = exits s" "released (tcpClieSetconn c s) = released s"
  "uniquId (tcpClieSetconn c s) = uniquId s" "lastIndex (tcpClieSetconn c s) = lastIndex s" "uniqueTail (tcpClieSetconn c s) = uniqueTail s" "posted (tcpClieSetconn c s) = posted s"
  "clash (tcpClieSetconn c s) = clash s" "tcpClientConnMap (tcpClieSetconn c s) = tcpClientConnMap s" "connLog (tcpClieSetconn c s) = connLog s" "bevs (tcpClieSetconn c s) = bevs s"
  "nextHandle (tcpClieSetconn c s) = nextHandle s" "wrote (tcpClieSetconn c s) = wrote s" "tried (tcpClieSetconn c s) = tried s" "retried (tcpClieSetconn c s) = retried s"
  "null_free (tcpClieSetconn c s) = null_free s" "stale (tcpClieSetconn c s) = stale s"
  by (simp_all add: tcpClieSetconn_def split: option.splits)

lemma connectTimeout_rest [simp]:
  "orderQs (connectTimeout c s) = orderQs s" "counters (connectTimeout c s) = counters s" "io_threads (connectTimeout c s) = io_threads s" "tcalls (connectTimeout c s) = tcalls s"
  "second (connectTimeout c s) = second s" "isExit (connectTimeout c s) = isExit s" "exits (connectTimeout c s) = exits s" "released (connectTimeout c s) = released s"
  "uniquId (connectTimeout c s) = uniquId s" "lastIndex (connectTimeout c s) = lastIndex s" "uniqueTail (connectTimeout c s) = uniqueTail s" "posted (connectTimeout c s) = posted s"
  "clash (connectTimeout c s) = clash s" "nextHandle (connectTimeout c s) = nextHandle s" "wrote (connectTimeout c s) = wrote s" "tried (connectTimeout c s) = tried s"
  "retried (connectTimeout c s) = retried s" "null_free (connectTimeout c s) = null_free s" "stale (connectTimeout c s) = stale s"
  by (simp_all add: connectTimeout_def split: option.splits)

lemma conn_closed_rest [simp]:
  "orderQs (conn_closed c s) = orderQs s" "counters (conn_closed c s) = counters s" "io_threads (conn_closed c s) = io_threads s" "tcalls (conn_closed c s) = tcalls s"
  "second (conn_closed c s) = second s" "isExit (conn_closed c s) = isExit s" "exits (conn_closed c s) = exits s" "released (conn_closed c s) = released s"
  "uniquId (conn_closed c s) = uniquId s" "lastIndex (conn_closed c s) = lastIndex s" "uniqueTail (conn_closed c s) = uniqueTail s" "posted (conn_closed c s) = posted s"
  "clash (conn_closed c s) = clash s" "nextHandle (conn_closed c s) = nextHandle s" "wrote (conn_closed c s) = wrote s" "tried (conn_closed c s) = tried s"
  "retried (conn_closed c s) = retried s" "null_free (conn_closed c s) = null_free s" "stale (conn_closed c s) = stale s"
  by (simp_all add: conn_closed_def Let_def split: option.splits)

lemma TcpClientOnEvent_rest [simp]:
  "orderQs (TcpClientOnEvent e c s) = orderQs s" "counters (TcpClientOnEvent e c s) = counters s" "io_threads (TcpClientOnEvent e c s) = io_threads s" "tcalls (TcpClientOnEvent e c s) = tcalls s"
  "second (TcpClientOnEvent e c s) = second s" "isExit (TcpClientOnEvent e c s) = isExit s" "exits (TcpClientOnEvent e c s) = exits s" "released (TcpClientOnEvent e c s) = released s"
  "uniquId (TcpClientOnEvent e c s) = uniquId s" "lastIndex (TcpClientOnEvent e c s) = lastIndex s" "uniqueTail (TcpClientOnEvent e c s) = uniqueTail s" "posted (TcpClientOnEvent e c s) = posted s"
  "clash (TcpClientOnEvent e c s) = clash s" "nextHandle (TcpClientOnEvent e c s) = nextHandle s" "wrote (TcpClientOnEvent e c s) = wrote s" "tried (TcpClientOnEvent e c s) = tried s"
  "retried (TcpClientOnEvent e c s) = retried s" "null_free (TcpClientOnEvent e c s) = null_free s" "stale (TcpClientOnEvent e c s) = stale s"
  by (simp_all add: TcpClientOnEvent_def split: option.splits)

lemma connectServer_rest [simp]:
  "orderQs (snd (connectServer r c s)) = orderQs s" "counters (snd (connectServer r c s)) = counters s" "io_threads (snd (connectServer r c s)) = io_threads s" "tcalls (snd (connectServer r c s)) = tcalls s"
  "second (snd (connectServer r c s)) = second s" "isExit (snd (connectServer r c s)) = isExit s" "exits (snd (connectServer r c s)) = exits s" "released (snd (connectServer r c s)) = released s"
  "uniquId (snd (connectServer r c s)) = uniquId s" "lastIndex (snd (connectServer r c s)) = lastIndex s" "uniqueTail (snd (connectServer r c s)) = uniqueTail s" "posted (snd (connectServer r c s)) = posted s"
  "clash (snd (connectServer r c s)) = clash s" "stale (snd (connectServer r c s)) = stale s" "wrote (snd (connectServer r c s)) = wrote s"
  by (simp_all add: connectServer_def Let_def)

lemma setRecv_rest [simp]:
  "orderQs (snd (setRecvSecond c s)) = orderQs s" "counters (snd (setRecvSecond c s)) = counters s" "io_threads (snd (setRecvSecond c s)) = io_threads s" "tcalls (snd (setRecvSecond c s)) = tcalls s"
  "second (snd (setRecvSecond c s)) = second s" "isExit (snd (setRecvSecond c s)) = isExit s" "exits (snd (setRecvSecond c s)) = exits s" "released (snd (setRecvSecond c s)) = released s"
  "uniquId (snd (setRecvSecond c s)) = uniquId s" "lastIndex (snd (setRecvSecond c s)) = lastIndex s" "uniqueTail (snd (setRecvSecond c s)) = uniqueTail s" "posted (snd (setRecvSecond c s)) = posted s"
  "clash (snd (setRecvSecond c s)) = clash s" "tcpClientConnMap (snd (setRecvSecond c s)) = tcpClientConnMap s" "connLog (snd (setRecvSecond c s)) = connLog s" "timers (snd (setRecvSecond c s)) = timers s"
  "bevs (snd (setRecvSecond c s)) = bevs s" "nextHandle (snd (setRecvSecond c s)) = nextHandle s" "wrote (snd (setRecvSecond c s)) = wrote s" "tried (snd (setRecvSecond c s)) = tried s"
  "retried (snd (setRecvSecond c s)) = retried s" "null_free (snd (setRecvSecond c s)) = null_free s" "stale (snd (setRecvSecond c s)) = stale s"
  by (simp_all add: setRecvSecond_def Let_def)

lemma handle_order_rest [simp]:
  "orderQs (handle_order r node s) = orderQs s" "counters (handle_order r node s) = counters s" "io_threads (handle_order r node s) = io_threads s" "tcalls (handle_order r node s) = tcalls s"
  "second (handle_order r node s) = second s" "isExit (handle_order r node s) = isExit s" "exits (handle_order r node s) = exits s" "released (handle_order r node s) = released s"
  "uniquId (handle_order r node s) = uniquId s" "lastIndex (handle_order r node s) = lastIndex s" "uniqueTail (handle_order r node s) = uniqueTail s" "posted (handle_order r node s) = posted s"
  "clash (handle_order r node s) = clash s" "stale (handle_order r node s) = stale s"
  by (simp_all add: handle_order_def tc_sendMsg_def case_prod_unfold Let_def)

lemma sweep_fold_rest:
  "orderQs (fold (\<lambda>c s. if held s c then s else TcpClient_delete c s) cs s) = orderQs s" "counters (fold (\<lambda>c s. if held s c then s else TcpClient_delete c s) cs s) = counters s"
  "io_threads (fold (\<lambda>c s. if held s c then s else TcpClient_delete c s) cs s) = io_threads s" "tcalls (fold (\<lambda>c s. if held s c then s else TcpClient_delete c s) cs s) = tcalls s"
  "second (fold (\<lambda>c s. if held s c then s else TcpClient_delete c s) cs s) = second s" "isExit (fold (\<lambda>c s. if held s c then s else TcpClient_delete c s) cs s) = isExit s"
  "exits (fold (\<lambda>c s. if held s c then s else TcpClient_delete c s) cs s) = exits s" "released (fold (\<lambda>c s. if held s c then s else TcpClient_delete c s) cs s) = released s"
  "uniquId (fold (\<lambda>c s. if held s c then s else TcpClient_delete c s) cs s) = uniquId s" "lastIndex (fold (\<lambda>c s. if held s c then s else TcpClient_delete c s) cs s) = lastIndex s"
  "uniqueTail (fold (\<lambda>c s. if held s c then s else TcpClient_delete c s) cs s) = uniqueTail s" "posted (fold (\<lambda>c s. if held s c then s else TcpClient_delete c s) cs s) = posted s"
  "clash (fold (\<lambda>c s. if held s c then s else TcpClient_delete c s) cs s) = clash s" "tcpClientConnMap (fold (\<lambda>c s. if held s c then s else TcpClient_delete c s) cs s) = tcpClientConnMap s"
  "connLog (fold (\<lambda>c s. if held s c then s else TcpClient_delete c s) cs s) = connLog s" "nextHandle (fold (\<lambda>c s. if held s c then s else TcpClient_delete c s) cs s) = nextHandle s"
  "wrote (fold (\<lambda>c s. if held s c then s else TcpClient_delete c s) cs s) = wrote s" "tried (fold (\<lambda>c s. if held s c then s else TcpClient_delete c s) cs s) = tried s"
  "retried (fold (\<lambda>c s. if held s c then s else TcpClient_delete c s) cs s) = retried s" "null_free (fold (\<lambda>c s. if held s c then s else TcpClient_delete c s) cs s) = null_free s"
  "stale (fold (\<lambda>c s. if held s c then s else TcpClient_delete c s) cs s) = stale s"
  by (induction cs arbitrary: s) simp_all

lemma sweep_rest [simp]:
  "orderQs (sweep s) = orderQs s" "counters (sweep s) = counters s" "io_threads (sweep s) = io_threads s" "tcalls (sweep s) = tcalls s"
  "second (sweep s) = second s" "isExit (sweep s) = isExit s" "exits (sweep s) = exits s" "released (sweep s) = released s"
  "uniquId (sweep s) = uniquId s" "lastIndex (sweep s) = lastIndex s" "uniqueTail (sweep s) = uniqueTail s" "posted (sweep s) = posted s"
  "clash (sweep s) = clash s" "tcpClientConnMap (sweep s) = tcpClientConnMap s" "connLog (sweep s) = connLog s" "nextHandle (sweep s) = nextHandle s"
  "wrote (sweep s) = wrote s" "tried (sweep s) = tried s" "retried (sweep s) = retried s" "null_free (sweep s) = null_free s"
  "stale (sweep s) = stale s"
  by (simp_all add: sweep_def sweep_fold_rest)

lemma held_fields: "tcpClientConnMap s' = tcpClientConnMap s \<Longrightarrow> orderQs s' = orderQs s \<Longrightarrow> tcalls s' = tcalls s \<Longrightarrow> held s' c = held s c"
  by (simp add: held_def)

section \<open>Reports\<close>

text \<open>The life of one number: opened, connected, ended, and perhaps opened again.\<close>

fun life :: "bool \<Rightarrow> conn_event list \<Rightarrow> bool option" where
  "life open [] = Some open"
| "life open (Opened # es) = (if open then None else life True es)"
| "life open (Report p st # es) = (if open then life (st = CONN_SUCCESS) es else None)"

definition log_of :: "u64 \<Rightarrow> tcp_sys \<Rightarrow> conn_event list" where
  "log_of u s = map snd (filter (\<lambda>e. fst e = u) (connLog s))"

definition log_ok :: "tcp_sys \<Rightarrow> bool" where
  "log_ok s \<longleftrightarrow> (\<forall>u. life False (log_of u s) = Some (u \<in> fst ` set (tcpClientConnMap s)))"

lemma life_append: "life b (es @ fs) = (case life b es of None \<Rightarrow> None | Some b \<Rightarrow> life b fs)"
  by (induction b es rule: life.induct) auto

lemma log_same: "tcpClientConnMap s' = tcpClientConnMap s \<Longrightarrow> connLog s' = connLog s \<Longrightarrow> log_ok s' = log_ok s"
  by (simp add: log_ok_def log_of_def)

lemma log_tcpServerConnect: "log_ok s \<Longrightarrow> log_ok (tcpServerConnect u p st s)"
  by (auto simp: log_ok_def log_of_def tcpServerConnect_def life_append map_of_eq_None_iff image_iff)

lemma log_tell: "log_ok s \<Longrightarrow> log_ok (tell c st s)"
  by (simp add: tell_def log_tcpServerConnect)

lemma log_insert: "log_ok s \<Longrightarrow> log_ok (insert_conn c s)"
  by (auto simp: log_ok_def log_of_def insert_conn_def Let_def life_append map_of_eq_None_iff set_insort_key)

lemma log_simps [simp]:
  "log_ok (upd_obj c f s) = log_ok s" "log_ok (tc_disConnect c s) = log_ok s" "log_ok (tcpClieSetconn c s) = log_ok s" "log_ok (free_timer c s) = log_ok s"
  "log_ok (snd (setRecvSecond c s)) = log_ok s" "log_ok (sweep s) = log_ok s"
  by (rule log_same; simp)+

lemma log_event: "log_ok s \<Longrightarrow> log_ok (TcpClientOnEvent e c s)"
  by (simp add: TcpClientOnEvent_def conn_closed_def Let_def log_tell)

lemma log_frame:
  "log_ok (s\<lparr>orderQs := q\<rparr>) = log_ok s" "log_ok (s\<lparr>counters := n\<rparr>) = log_ok s" "log_ok (s\<lparr>io_threads := th\<rparr>) = log_ok s" "log_ok (s\<lparr>timers := ti\<rparr>) = log_ok s"
  "log_ok (s\<lparr>bevs := bv\<rparr>) = log_ok s" "log_ok (s\<lparr>nextHandle := h\<rparr>) = log_ok s" "log_ok (s\<lparr>tcalls := cs\<rparr>) = log_ok s" "log_ok (s\<lparr>second := sec\<rparr>) = log_ok s"
  "log_ok (s\<lparr>isExit := x\<rparr>) = log_ok s" "log_ok (s\<lparr>exits := n'\<rparr>) = log_ok s" "log_ok (s\<lparr>released := x\<rparr>) = log_ok s" "log_ok (s\<lparr>objs := os\<rparr>) = log_ok s"
  "log_ok (s\<lparr>lastIndex := i\<rparr>) = log_ok s" "log_ok (s\<lparr>uniqueTail := j\<rparr>) = log_ok s" "log_ok (s\<lparr>posted := p\<rparr>) = log_ok s" "log_ok (s\<lparr>wrote := p\<rparr>) = log_ok s"
  "log_ok (s\<lparr>tried := tr\<rparr>) = log_ok s" "log_ok (s\<lparr>retried := x\<rparr>) = log_ok s" "log_ok (s\<lparr>clash := x\<rparr>) = log_ok s" "log_ok (s\<lparr>null_free := x\<rparr>) = log_ok s" "log_ok (s\<lparr>stale := x\<rparr>) = log_ok s"
  by (rule log_same; simp)+

lemmas log_rules = log_frame log_tell log_event log_insert libeventIoOrder_def add_counter_def libeventIoWakeup_def set_thread_def tc_sendMsg_def new_connection_def Let_def

lemma log_connectServer: "log_ok s \<Longrightarrow> log_ok (snd (connectServer r c s))"
  by (simp add: connectServer_def log_rules)

lemma log_handle_order: "log_ok s \<Longrightarrow> log_ok (handle_order r node s)"
  using log_connectServer by (auto simp: handle_order_def log_rules split: prod.splits) (metis snd_conv log_tell)+

lemma log_call: "log_ok s \<Longrightarrow> log_ok (snd (call_step lt k s))"
  by (cases "(lt, k, s)" rule: call_step.cases) (auto simp: log_rules case_prod_unfold split: option.splits)

lemma log_step: "tcp_step lt s s' \<Longrightarrow> log_ok s \<Longrightarrow> log_ok s'"
proof (induction rule: tcp_step.induct)
  case (io t s s')
  then show ?case by (cases rule: io_step.cases) (auto simp: log_rules log_handle_order)
next
  case (libevent s s')
  then show ?case
  proof (cases rule: libevent_step.cases)
    case (message b c ret s1 copied)
    have "log_ok s1" using message(4) libevent log_simps(5) [of c "s\<lparr>stale := stale s \<or> \<not> held s c\<rparr>"] by (simp add: log_frame)
    then show ?thesis using message by (simp add: log_rules)
  qed (use libevent in \<open>auto simp: log_rules connectTimeout_def\<close>)
next
  case (call i s k s')
  then show ?case using log_call [of s lt "tcalls s ! i"] by (simp add: log_frame)
qed (simp_all add: log_rules)


section \<open>Numbers and threads\<close>

definition shape :: "tcp_sys \<Rightarrow> (nat \<times> u64) list" where
  "shape s = map (\<lambda>x. (tc_ioIndex x, tc_uniqueNum x)) (objs s)"

lemma length_shape [simp]: "length (shape s) = length (objs s)"
  by (simp add: shape_def)

lemma shape_nth: "c < length (objs s) \<Longrightarrow> shape s ! c = (tc_ioIndex (objs s ! c), tc_uniqueNum (objs s ! c))"
  by (simp add: shape_def)

lemma shape_cong: "objs s' = objs s \<Longrightarrow> shape s' = shape s"
  by (simp add: shape_def)

lemma shape_upd: "(\<And>x. tc_ioIndex (f x) = tc_ioIndex x \<and> tc_uniqueNum (f x) = tc_uniqueNum x) \<Longrightarrow> shape (upd_obj c f s) = shape s"
  by (cases "c < length (objs s)"; rule nth_equalityI) (simp_all add: shape_def upd_obj_def nth_list_update)

lemma shape_frame [simp]:
  "shape (s\<lparr>orderQs := q\<rparr>) = shape s" "shape (s\<lparr>counters := n\<rparr>) = shape s" "shape (s\<lparr>io_threads := th\<rparr>) = shape s" "shape (s\<lparr>timers := ti\<rparr>) = shape s"
  "shape (s\<lparr>bevs := bv\<rparr>) = shape s" "shape (s\<lparr>nextHandle := h\<rparr>) = shape s" "shape (s\<lparr>tcalls := cs\<rparr>) = shape s" "shape (s\<lparr>second := sec\<rparr>) = shape s"
  "shape (s\<lparr>isExit := x\<rparr>) = shape s" "shape (s\<lparr>exits := n'\<rparr>) = shape s" "shape (s\<lparr>released := x\<rparr>) = shape s" "shape (s\<lparr>tcpClientConnMap := m\<rparr>) = shape s"
  "shape (s\<lparr>lastIndex := i\<rparr>) = shape s" "shape (s\<lparr>uniqueTail := j\<rparr>) = shape s" "shape (s\<lparr>posted := p\<rparr>) = shape s" "shape (s\<lparr>wrote := p\<rparr>) = shape s" "shape (s\<lparr>connLog := l\<rparr>) = shape s"
  "shape (s\<lparr>tried := tr\<rparr>) = shape s" "shape (s\<lparr>retried := x\<rparr>) = shape s" "shape (s\<lparr>clash := x\<rparr>) = shape s" "shape (s\<lparr>null_free := x\<rparr>) = shape s" "shape (s\<lparr>stale := x\<rparr>) = shape s"
  by (rule shape_cong; simp)+

lemma shape_free [simp]: "shape (free_timer c s) = shape s" "shape (free_bev c s) = shape s" "shape (tc_disConnect c s) = shape s" "shape (TcpClient_delete c s) = shape s"
  by (simp_all add: free_timer_def free_bev_def tc_disConnect_def TcpClient_delete_def shape_upd split: option.splits)

lemma shape_tell [simp]: "shape (tell c st s) = shape s"
  by (rule shape_cong) simp

lemma shape_event [simp]: "shape (tcpClieSetconn c s) = shape s" "shape (TcpClientOnEvent e c s) = shape s" "shape (connectTimeout c s) = shape s"
  by (simp_all add: tcpClieSetconn_def shape_upd TcpClientOnEvent_def conn_closed_def Let_def connectTimeout_def)

lemma shape_connectServer [simp]: "shape (snd (connectServer r c s)) = shape s"
  by (simp add: connectServer_def Let_def shape_upd)

lemma shape_setRecv [simp]: "shape (snd (setRecvSecond c s)) = shape s"
  by (simp add: setRecvSecond_def Let_def shape_upd)

lemma shape_handle_order [simp]: "shape (handle_order r node s) = shape s"
  using shape_connectServer [of r "fst node" s] by (auto simp: handle_order_def tc_sendMsg_def simp del: shape_connectServer split: prod.splits)

lemma shape_sweep [simp]: "shape (sweep s) = shape s"
proof -
  have "shape (fold (\<lambda>c s. if held s c then s else TcpClient_delete c s) cs s) = shape s" for cs s by (induction cs arbitrary: s) simp_all
  then show ?thesis by (simp add: sweep_def)
qed

lemma shape_order [simp]: "shape (libeventIoOrder node s) = shape s" "shape (add_counter t n s) = shape s" "shape (libeventIoWakeup c s) = shape s" "shape (set_thread t p s) = shape s" "shape (insert_conn c s) = shape s"
  by (simp_all add: libeventIoOrder_def add_counter_def libeventIoWakeup_def set_thread_def insert_conn_def Let_def)

definition wf :: "tcp_sys \<Rightarrow> bool" where
  "wf s \<longleftrightarrow>
     length (orderQs s) = length (io_threads s) \<and> length (counters s) = length (io_threads s) \<and> length (io_threads s) < 2 ^ 32 \<and>
     (\<forall>p \<in> set (shape s). fst p < length (io_threads s)) \<and>
     (\<forall>t < length (io_threads s). \<forall>e \<in> set (orderQs s ! t). fst e < length (objs s) \<and> fst (shape s ! fst e) = t) \<and>
     (\<forall>k \<in> set (tcalls s). \<forall>c. holds_obj k = Some c \<longrightarrow> c < length (objs s)) \<and>
     (\<forall>e \<in> set (tcpClientConnMap s). snd e < length (objs s) \<and> snd (shape s ! snd e) = fst e) \<and>
     (\<forall>c \<in> set (tried s). c < length (objs s)) \<and> (\<forall>e \<in> set (posted s) \<union> set (wrote s). fst e < length (objs s)) \<and>
     ((\<exists>k \<in> set (tcalls s). \<exists>a b c d e. k = Adding a b c d e) \<longrightarrow> 0 < length (io_threads s))"


lemma wf_cong:
  assumes "wf s" and "shape s' = shape s" and "orderQs s' = orderQs s" and "length (counters s') = length (counters s)" and "length (io_threads s') = length (io_threads s)"
    and "set (tcalls s') = set (tcalls s)" and "set (tcpClientConnMap s') \<subseteq> set (tcpClientConnMap s)" and "set (tried s') = set (tried s)"
    and "posted s' = posted s" and "wrote s' = wrote s"
  shows "wf s'"
proof -
  have "length (objs s') = length (objs s)" using assms(2) length_shape by metis
  then show ?thesis using assms(1) subsetD [OF assms(7)] unfolding wf_def assms(2-6,8-10) by simp
qed

lemma map_tell: "set (tcpClientConnMap (tell c st s)) \<subseteq> set (tcpClientConnMap s)"
  by (auto simp: tell_def tcpServerConnect_def)

lemma map_event: "set (tcpClientConnMap (TcpClientOnEvent e c s)) \<subseteq> set (tcpClientConnMap s)" "set (tcpClientConnMap (connectTimeout c s)) \<subseteq> set (tcpClientConnMap s)"
  by (auto simp: TcpClientOnEvent_def conn_closed_def connectTimeout_def Let_def dest: subsetD [OF map_tell])

lemma map_connectServer: "set (tcpClientConnMap (snd (connectServer r c s))) \<subseteq> set (tcpClientConnMap s)"
proof -
  have ev: "e \<in> set (tcpClientConnMap (TcpClientOnEvent v c x)) \<Longrightarrow> e \<in> set (tcpClientConnMap x)" for e v x using map_event(1) by blast
  show ?thesis by (auto simp: connectServer_def Let_def dest: ev split: if_splits)
qed

lemma tried_connectServer [simp]: "tried (snd (connectServer r c s)) = c # tried s" "retried (snd (connectServer r c s)) = (retried s \<or> c \<in> set (tried s))"
  by (simp_all add: connectServer_def Let_def)

lemma wf_tell: "wf s \<Longrightarrow> wf (tell c st s)" "wf s \<Longrightarrow> wf (TcpClientOnEvent e c s)" "wf s \<Longrightarrow> wf (connectTimeout c s)"
  by (erule wf_cong; simp add: map_tell map_event)+

lemma wf_simps [simp]: "wf (tc_disConnect c s) = wf s" "wf (sweep s) = wf s" "wf (snd (setRecvSecond c s)) = wf s"
  by (intro iffI; erule wf_cong; simp)+

lemma wf_connectServer: "wf s \<Longrightarrow> c < length (objs s) \<Longrightarrow> wf (snd (connectServer r c s))"
proof -
  assume w: "wf s" "c < length (objs s)"
  then have "wf (s\<lparr>tried := c # tried s\<rparr>)" by (simp add: wf_def)
  then show ?thesis by (rule wf_cong) (simp_all add: map_connectServer)
qed

lemma wf_handle_order: "wf s \<Longrightarrow> fst node < length (objs s) \<Longrightarrow> wf (handle_order r node s)"
proof (cases node)
  case (Pair c m)
  assume w: "wf s" "fst node < length (objs s)"
  have "wf (snd (connectServer r c s))" using wf_connectServer w Pair by simp
  moreover have "wf (tc_sendMsg c m s)" using w Pair by (auto simp: tc_sendMsg_def wf_def)
  ultimately show ?thesis using w Pair by (auto simp: handle_order_def wf_tell split: prod.splits)
qed


lemma wf_index: "wf s \<Longrightarrow> c < length (objs s) \<Longrightarrow> tc_ioIndex (objs s ! c) < length (io_threads s)"
proof -
  assume w: "wf s" "c < length (objs s)"
  have "shape s ! c \<in> set (shape s)" using w(2) by simp
  then show ?thesis using w by (auto simp: wf_def shape_nth)
qed

lemma wf_order: "wf s \<Longrightarrow> fst node < length (objs s) \<Longrightarrow> wf (libeventIoOrder node s)"
proof -
  assume w: "wf s" "fst node < length (objs s)"
  define t where "t = tc_ioIndex (objs s ! fst node)"
  have t: "t < length (io_threads s)" "t < length (orderQs s)" "fst (shape s ! fst node) = t" using w wf_index [OF w] by (simp_all add: t_def wf_def shape_nth)
  have "\<forall>e \<in> set ((orderQs s)[t := orderQs s ! t @ [node]] ! t'). fst e < length (objs s) \<and> fst (shape s ! fst e) = t'" if "t' < length (io_threads s)" for t'
    using w t that by (cases "t' = t") (auto simp: wf_def)
  then show ?thesis using w by (simp add: wf_def libeventIoOrder_def orderNodeInsert_def flip: t_def)
qed

lemma wf_new_connection:
  assumes "wf s" and "0 < length (io_threads s)"
  shows "wf (new_connection lt ipaddr port priv dataOut connOut s) \<and> length (objs (new_connection lt ipaddr port priv dataOut connOut s)) = length (objs s) + 1"
proof -
  define t where "t = unat (lastIndex s mod word_of_nat (length (io_threads s)))"
  have "length (io_threads s) < 2 ^ 32" using assms(1) by (simp add: wf_def)
  then have "unat (word_of_nat (length (io_threads s)) :: u32) = length (io_threads s)" by (simp add: unat_of_nat)
  then have t: "t < length (io_threads s)" using assms(2) by (simp add: t_def unat_mod)
  obtain u tail where u: "uniqueNumId (lt (second s)) (uniquId s) (uniqueTail s) = (u, tail)" by force
  let ?s = "s\<lparr>lastIndex := lastIndex s + 1, uniqueTail := tail, clash := clash s \<or> u \<in> tc_uniqueNum ` set (objs s),
      objs := objs s @ [TcpClient_new t u ipaddr port priv dataOut connOut (second s)]\<rparr>"
  have sh: "shape ?s = shape s @ [(t, u)]" by (simp add: shape_def TcpClient_new_def)
  have "wf ?s" using assms(1) t by (auto simp: wf_def sh nth_append less_Suc_eq)
  then have "wf (libeventIoOrder (length (objs s), []) ?s)" by (rule wf_order) simp
  then show ?thesis by (simp add: new_connection_def u Let_def libeventIoOrder_def flip: t_def)
qed

lemma finish_simps [simp]: "holds_obj (finish k r) = None" "finish k r \<noteq> Adding a b p d e" "finish k r \<noteq> Add_wake c" "finish k r \<noteq> Add_insert c"
  "finish k r \<noteq> Disc_wake g c" "finish k r \<noteq> Disc_report g c"
  by (induction k r rule: finish.induct; simp)+


lemma order_rest [simp]:
  "tcalls (libeventIoOrder node s) = tcalls s" "tcalls (new_connection lt a b p d e s) = tcalls s" "tcalls (insert_conn c s) = tcalls s"
  "tcalls (libeventIoWakeup c s) = tcalls s" "tcalls (add_counter t n s) = tcalls s" "tcalls (set_thread t q s) = tcalls s"
  "objs (libeventIoOrder node s) = objs s" "objs (insert_conn c s) = objs s" "objs (libeventIoWakeup c s) = objs s" "objs (add_counter t n s) = objs s"
  "objs (set_thread t q s) = objs s"
  by (simp_all add: libeventIoOrder_def new_connection_def insert_conn_def libeventIoWakeup_def add_counter_def set_thread_def Let_def case_prod_unfold)

lemma call_tcalls [simp]: "tcalls (snd (call_step lt k s)) = tcalls s"
  by (cases "(lt, k, s)" rule: call_step.cases) (auto simp: case_prod_unfold Let_def split: option.splits)

lemma wf_insert: "wf s \<Longrightarrow> c < length (objs s) \<Longrightarrow> wf (insert_conn c s)"
  using shape_nth [of c s] by (auto simp: wf_def insert_conn_def Let_def set_insort_key)

lemma wf_counter: "wf s \<Longrightarrow> wf (add_counter t n s)" "wf s \<Longrightarrow> wf (libeventIoWakeup c s)" "wf s \<Longrightarrow> wf (set_thread t q s)"
  by (erule wf_cong; simp add: add_counter_def libeventIoWakeup_def set_thread_def)+

lemma wf_map: "wf s \<Longrightarrow> map_of (tcpClientConnMap s) u = Some c \<Longrightarrow> c < length (objs s) \<and> tc_uniqueNum (objs s ! c) = u"
  by (drule map_of_SomeD) (auto simp: wf_def shape_nth)

lemma wf_call:
  assumes "wf s" and "k \<in> set (tcalls s)" and "call_step lt k s = (k', s')"
  shows "wf s' \<and> length (objs s) \<le> length (objs s') \<and> (k' = k \<or> (\<forall>c. holds_obj k' = Some c \<longrightarrow> c < length (objs s')) \<and> (\<forall>a b p d e. k' \<noteq> Adding a b p d e))"
proof -
  have k: "holds_obj k = Some c \<Longrightarrow> c < length (objs s)" for c using assms by (auto simp: wf_def)
  have n: "k = Adding a b p d e \<Longrightarrow> 0 < length (io_threads s)" for a b p d e using assms(1,2) unfolding wf_def by blast
  have len: "length (objs (snd (setRecvSecond c s))) = length (objs s)" for c using shape_setRecv length_shape by metis
  have "wf (snd (setRecvSecond c s))" "wf (upd_obj c (\<lambda>x. x\<lparr>tc_priv := p\<rparr>) s)" "length (objs (upd_obj c (\<lambda>x. x\<lparr>tc_priv := p\<rparr>) s)) = length (objs s)" for c p
    using assms wf_cong [OF assms(1), of "upd_obj c (\<lambda>x. x\<lparr>tc_priv := p\<rparr>) s"] by (simp_all add: shape_upd) (simp add: upd_obj_def)
  then show ?thesis
    using assms(3) assms(1) k n wf_new_connection [OF assms(1)] len
    by (cases "(lt, k, s)" rule: call_step.cases)
      (auto simp: case_prod_unfold Let_def wf_order wf_insert wf_counter wf_tell wf_map split: option.splits if_splits)
qed


lemma wf_calls:
  assumes w: "wf s" and k: "\<And>k. k \<in> set cs \<Longrightarrow> k \<in> set (tcalls s) \<or> (\<forall>c. holds_obj k = Some c \<longrightarrow> c < length (objs s)) \<and> ((\<exists>a b p d e. k = Adding a b p d e) \<longrightarrow> 0 < length (io_threads s))"
  shows "wf (s\<lparr>tcalls := cs\<rparr>)"
proof -
  have old: "\<forall>k \<in> set (tcalls s). \<forall>c. holds_obj k = Some c \<longrightarrow> c < length (objs s)" "(\<exists>k \<in> set (tcalls s). \<exists>a b c d e. k = Adding a b c d e) \<longrightarrow> 0 < length (io_threads s)"
    using w by (simp_all add: wf_def)
  have "\<forall>k \<in> set cs. \<forall>c. holds_obj k = Some c \<longrightarrow> c < length (objs s)" using old(1) k by blast
  moreover have "(\<exists>k \<in> set cs. \<exists>a b p d e. k = Adding a b p d e) \<longrightarrow> 0 < length (io_threads s)" using old(2) k by blast
  ultimately show ?thesis using w unfolding wf_def by simp
qed

lemma wf_step: "tcp_step lt s s' \<Longrightarrow> wf s \<Longrightarrow> wf s'"
proof (induction rule: tcp_step.induct)
  case (io t s s')
  then show ?case
  proof (cases rule: io_step.cases)
    case (read)
    have "wf (s\<lparr>counters := (counters s)[t := 0]\<rparr>)" using io(2) by (rule wf_cong) simp_all
    then show ?thesis using read by (simp add: wf_counter)
  next
    case (order v node q r)
    have q: "orderQs s ! t = node # q" using order by (simp add: dealOrderNode_def split: list.splits)
    have t: "t < length (orderQs s)" using order io by (simp add: wf_def)
    have "fst node < length (objs s)" using io q order by (auto simp: wf_def)
    moreover have "e \<in> set ((orderQs s)[t := q] ! t') \<Longrightarrow> e \<in> set (orderQs s ! t')" for e t' using q t by (cases "t' = t") auto
    then have "wf (s\<lparr>orderQs := (orderQs s)[t := q]\<rparr>)" using io(2) unfolding wf_def by simp
    ultimately show ?thesis using order by (simp add: wf_handle_order)
  next
    case drained
    then show ?thesis using io by (simp add: wf_counter)
  next
    case (message_end b c drained)
    have "wf (s\<lparr>stale := x\<rparr>)" for x using io(2) by (rule wf_cong) simp_all
    then show ?thesis using message_end by (simp add: Let_def wf_counter wf_tell)
  qed
next
  case (libevent s s')
  have e: "wf (s\<lparr>timers := ti, bevs := bv, stale := x\<rparr>)" "wf (s\<lparr>stale := x\<rparr>)" "wf (s\<lparr>timers := ti, stale := x\<rparr>)" "wf (s\<lparr>bevs := bv, stale := x\<rparr>)" for ti bv x
    using libevent(2) by (rule wf_cong; simp)+
  show ?case using libevent(1)
  proof (cases rule: libevent_step.cases)
    case (message b c ret s1 copied)
    have "wf s1" using message(4) wf_simps(3) [of c "s\<lparr>stale := stale s \<or> \<not> held s c\<rparr>"] e by simp
    then show ?thesis using message by (simp add: wf_counter wf_tell)
  next
    case (wrote b c k n)
    have "wf (upd_obj c (\<lambda>x. x\<lparr>tc_outbufLen := n\<rparr>) (s\<lparr>stale := y\<rparr>))" for y using e(2) [of y] by (rule wf_cong) (simp_all add: shape_upd)
    then show ?thesis using wrote by simp
  qed (simp_all add: e wf_tell)
next
  case (call i s k s')
  have r: "wf s'" "length (objs s) \<le> length (objs s')" "k = tcalls s ! i \<or> (\<forall>c. holds_obj k = Some c \<longrightarrow> c < length (objs s')) \<and> (\<forall>a b p d e. k \<noteq> Adding a b p d e)"
    using wf_call [OF call(3) _ call(2)] call(1) by auto
  have "tcalls s' = tcalls s" using call(2) call_tcalls [of lt "tcalls s ! i" s] by simp
  moreover have "tcalls s ! i \<in> set (tcalls s)" using call(1) by simp
  ultimately have "wf (s'\<lparr>tcalls := (tcalls s)[i := k]\<rparr>)" using r by (intro wf_calls) (auto dest!: set_update_subset_insert [THEN subsetD])
  then show ?case by simp
next
  case (send s unid msg)
  then show ?case by (intro wf_calls) (auto simp: find_conn_def wf_map split: option.splits if_splits)
next
  case (reset s unid p)
  then show ?case by (intro wf_calls) (auto simp: find_conn_def wf_map split: option.splits if_splits)
next
  case (exit_thread s)
  have "wf (s\<lparr>exits := exits s + 1\<rparr>)" using exit_thread(3) by (rule wf_cong) simp_all
  then show ?case by (simp add: wf_counter)
next
  case (exit_release s)
  have "wf (s\<lparr>released := True, orderQs := map (\<lambda>_. []) (orderQs s)\<rparr>)" using exit_release(3) by (auto simp: wf_def)
  then show ?case by simp
next
  case (add s a b p d e)
  then show ?case by (intro wf_calls) auto
next
  case (disconnect s unid)
  then show ?case by (intro wf_calls) auto
next
  case (expire s)
  then show ?case by (intro wf_calls) auto
next
  case (clock s n)
  then show ?case by (rule wf_cong) simp_all
next
  case (exit_flag s)
  then show ?case by (rule wf_cong) simp_all
qed


subsection \<open>One life for each object\<close>

fun adding_of :: "tcp_call \<Rightarrow> nat option" where
  "adding_of (Add_wake c) = Some c"
| "adding_of (Add_insert c) = Some c"
| "adding_of _ = None"

definition opens :: "tcp_sys \<Rightarrow> (u64 \<times> conn_event) list" where
  "opens s = filter (\<lambda>e. snd e = Opened) (connLog s)"

definition about :: "u64 \<Rightarrow> tcp_sys \<Rightarrow> tcp_call \<Rightarrow> bool" where
  "about u s k \<longleftrightarrow> (\<exists>c. adding_of k = Some c \<and> snd (shape s ! c) = u)"

definition once :: "tcp_sys \<Rightarrow> bool" where
  "once s \<longleftrightarrow> (\<forall>u. length (filter (\<lambda>e. fst e = u) (opens s)) + length (filter (about u s) (tcalls s)) \<le> length (filter (\<lambda>p. snd p = u) (shape s)))"

lemma opens_cong: "connLog s' = connLog s \<Longrightarrow> opens s' = opens s"
  by (simp add: opens_def)

lemma opens_tell [simp]: "opens (tell c st s) = opens s"
  by (simp add: opens_def tell_def tcpServerConnect_def)

lemma opens_simps [simp]:
  "opens (tc_disConnect c s) = opens s" "opens (tcpClieSetconn c s) = opens s" "opens (upd_obj c f s) = opens s" "opens (free_timer c s) = opens s"
  "opens (snd (setRecvSecond c s)) = opens s" "opens (sweep s) = opens s" "opens (libeventIoOrder node s) = opens s" "opens (add_counter t n s) = opens s"
  "opens (libeventIoWakeup c s) = opens s" "opens (set_thread t q s) = opens s" "opens (new_connection lt a b p d e s) = opens s" "opens (tc_sendMsg c m s) = opens s"
  by (rule opens_cong; simp add: libeventIoOrder_def add_counter_def libeventIoWakeup_def set_thread_def new_connection_def Let_def case_prod_unfold tc_sendMsg_def)+

lemma opens_frame:
  "opens (s\<lparr>orderQs := q\<rparr>) = opens s" "opens (s\<lparr>counters := n\<rparr>) = opens s" "opens (s\<lparr>timers := ti\<rparr>) = opens s" "opens (s\<lparr>bevs := bv\<rparr>) = opens s" "opens (s\<lparr>nextHandle := h\<rparr>) = opens s"
  "opens (s\<lparr>tcalls := cs\<rparr>) = opens s" "opens (s\<lparr>second := sec\<rparr>) = opens s" "opens (s\<lparr>isExit := x\<rparr>) = opens s" "opens (s\<lparr>exits := n'\<rparr>) = opens s" "opens (s\<lparr>released := x\<rparr>) = opens s"
  "opens (s\<lparr>tried := tr\<rparr>) = opens s" "opens (s\<lparr>retried := x\<rparr>) = opens s" "opens (s\<lparr>null_free := x\<rparr>) = opens s" "opens (s\<lparr>stale := x\<rparr>) = opens s"
  by (rule opens_cong; simp)+

lemma opens_event [simp]: "opens (TcpClientOnEvent e c s) = opens s" "opens (connectTimeout c s) = opens s"
  by (simp_all add: TcpClientOnEvent_def conn_closed_def Let_def connectTimeout_def)

lemma opens_connectServer [simp]: "opens (snd (connectServer r c s)) = opens s"
  by (simp add: connectServer_def Let_def opens_frame)

lemma opens_handle_order [simp]: "opens (handle_order r node s) = opens s"
  using opens_connectServer [of r "fst node" s] by (auto simp: handle_order_def simp del: opens_connectServer split: prod.splits)

lemma once_cong: "once s \<Longrightarrow> opens s' = opens s \<Longrightarrow> shape s' = shape s \<Longrightarrow> filter (\<lambda>k. adding_of k \<noteq> None) (tcalls s') = filter (\<lambda>k. adding_of k \<noteq> None) (tcalls s) \<Longrightarrow> once s'"
proof -
  assume a: "once s" "opens s' = opens s" "shape s' = shape s" "filter (\<lambda>k. adding_of k \<noteq> None) (tcalls s') = filter (\<lambda>k. adding_of k \<noteq> None) (tcalls s)"
  have "filter (about u x) ks = filter (about u x) (filter (\<lambda>k. adding_of k \<noteq> None) ks)" for u x ks by (auto simp: about_def intro!: filter_cong)
  then have "filter (about u s') (tcalls s') = filter (about u s') (tcalls s)" for u using a(4) by metis
  moreover have "about u s' = about u s" for u by (simp add: fun_eq_iff about_def a(3))
  ultimately show ?thesis using a by (simp add: once_def)
qed

lemma filter_update: "i < length xs \<Longrightarrow> length (filter P (xs[i := y])) + (if P (xs ! i) then 1 else 0) = length (filter P xs) + (if P y then 1 else 0)"
proof (induction xs arbitrary: i)
  case (Cons x xs)
  then show ?case by (cases i) auto
qed simp

lemma finish_adding [simp]: "adding_of (finish k r) = None"
  by (induction k r rule: finish.induct) auto

text \<open>What a step of a call does to its number.\<close>

lemma call_once:
  assumes "call_step lt k s = (k', s')" and "k \<in> set (tcalls s)" and "wf s"
  shows "length (filter (\<lambda>e. fst e = u) (opens s')) + (if about u s' k' then 1 else 0) + length (filter (\<lambda>p. snd p = u) (shape s))
       \<le> length (filter (\<lambda>e. fst e = u) (opens s)) + (if about u s k then 1 else 0) + length (filter (\<lambda>p. snd p = u) (shape s'))"
    and "\<exists>ps. shape s' = shape s @ ps"
proof -
  have c: "holds_obj k = Some c \<Longrightarrow> c < length (objs s)" for c using assms(2,3) by (auto simp: wf_def)
  have n: "\<exists>t u. shape (new_connection lt a b p d e s) = shape s @ [(t, u)]" for a b p d e
    by (auto simp: new_connection_def Let_def case_prod_unfold) (auto simp: shape_def TcpClient_new_def)
  have i: "length (filter (\<lambda>e. fst e = u) (opens (insert_conn c s))) \<le> length (filter (\<lambda>e. fst e = u) (opens s)) + (if u = tc_uniqueNum (objs s ! c) then 1 else 0)" for c
    by (simp add: insert_conn_def opens_def Let_def)
  show "\<exists>ps. shape s' = shape s @ ps" using assms(1) n
    by (cases "(lt, k, s)" rule: call_step.cases) (auto simp: case_prod_unfold Let_def shape_upd split: option.splits if_splits, metis)
  show "length (filter (\<lambda>e. fst e = u) (opens s')) + (if about u s' k' then 1 else 0) + length (filter (\<lambda>p. snd p = u) (shape s))
       \<le> length (filter (\<lambda>e. fst e = u) (opens s)) + (if about u s k then 1 else 0) + length (filter (\<lambda>p. snd p = u) (shape s'))"
  proof (cases "\<exists>a b p d e. k = Adding a b p d e")
    case True
    then obtain a b p d e where k: "k = Adding a b p d e" by blast
    obtain t v where "shape (new_connection lt a b p d e s) = shape s @ [(t, v)]" using n by blast
    then show ?thesis using assms(1) k by (auto simp: about_def nth_append split: if_splits)
  next
    case False
    show ?thesis
    proof (cases "\<exists>c. k = Add_insert c")
      case True
      then obtain c where "k = Add_insert c" by blast
      then show ?thesis using assms(1) i [of c] c by (auto simp: about_def shape_nth split: if_splits)
    next
      case other: False
      then show ?thesis using assms(1) c False
        by (cases "(lt, k, s)" rule: call_step.cases) (auto simp: case_prod_unfold Let_def shape_upd about_def shape_nth split: option.splits if_splits)
    qed
  qed
qed

lemma once_step: "tcp_step lt s s' \<Longrightarrow> once s \<Longrightarrow> wf s \<Longrightarrow> once s'"
proof (induction rule: tcp_step.induct)
  case (io t s s')
  then show ?case
    by (cases rule: io_step.cases) (auto simp: opens_frame Let_def intro: once_cong [OF io(2)])
next
  case (libevent s s')
  show ?case using libevent(1)
  proof (cases rule: libevent_step.cases)
    case (message b c ret s1 copied)
    have s1: "opens s1 = opens s" "shape s1 = shape s" "tcalls s1 = tcalls s" using message(4) opens_simps(5) shape_setRecv setRecv_rest(4) opens_frame(14) shape_frame(22)
      by (metis snd_conv, metis snd_conv, simp add: setRecvSecond_def Let_def split: if_splits, auto)
    show ?thesis unfolding message(1) by (rule once_cong [OF libevent(2)]) (simp_all add: s1)
  qed (auto simp: opens_frame shape_upd intro: once_cong [OF libevent(2)])
next
  case (call i s k s')
  have t: "tcalls s' = tcalls s" using call(2) call_tcalls [of lt "tcalls s ! i" s] by simp
  have m: "tcalls s ! i \<in> set (tcalls s)" using call(1) by simp
  obtain ps where ps: "shape s' = shape s @ ps" using call_once(2) [OF call(2) m call(4)] by blast
  have old: "about u s' k = about u s k" if "k \<in> set (tcalls s)" for u k
  proof -
    have "c < length (shape s)" if "adding_of k = Some c" for c using that \<open>k \<in> set (tcalls s)\<close> call(4) by (cases k) (auto simp: wf_def)
    then show ?thesis by (auto simp: about_def ps nth_append)
  qed
  let ?s = "sweep (s'\<lparr>tcalls := (tcalls s)[i := k]\<rparr>)"
  have "length (filter (\<lambda>e. fst e = u) (opens ?s)) + length (filter (about u ?s) (tcalls ?s)) \<le> length (filter (\<lambda>p. snd p = u) (shape ?s))" for u
  proof -
    have "about u ?s = about u s'" by (simp add: fun_eq_iff about_def)
    moreover have "filter (about u s') (tcalls s) = filter (about u s) (tcalls s)" using old by (intro filter_cong) auto
    then have "length (filter (about u s') ((tcalls s)[i := k])) + (if about u s (tcalls s ! i) then 1 else 0) = length (filter (about u s) (tcalls s)) + (if about u s' k then 1 else 0)"
      using filter_update [OF call(1), of "about u s'" k] old [OF m] by simp
    moreover have "length (filter (\<lambda>e. fst e = u) (opens s)) + length (filter (about u s) (tcalls s)) \<le> length (filter (\<lambda>p. snd p = u) (shape s))" using call(3) by (simp add: once_def)
    ultimately show ?thesis using call_once(1) [OF call(2) m call(4), of u] by (simp add: opens_frame)
  qed
  then show ?case by (simp add: once_def)
qed (auto simp: opens_frame find_conn_def split: option.splits intro: once_cong)


definition uniq :: "tcp_sys \<Rightarrow> bool" where
  "uniq s \<longleftrightarrow> clash s \<or> distinct (map snd (shape s))"

lemma uniq_cong: "uniq s \<Longrightarrow> clash s' = clash s \<Longrightarrow> shape s' = shape s \<Longrightarrow> uniq s'"
  by (simp add: uniq_def)

lemma clash_simps [simp]: "clash (libeventIoOrder node s) = clash s" "clash (insert_conn c s) = clash s" "clash (libeventIoWakeup c s) = clash s" "clash (add_counter t n s) = clash s"
  "clash (set_thread t q s) = clash s"
  by (simp_all add: libeventIoOrder_def insert_conn_def libeventIoWakeup_def add_counter_def set_thread_def Let_def)

lemma uniq_new: "uniq s \<Longrightarrow> uniq (new_connection lt a b p d e s)"
  by (auto simp: uniq_def new_connection_def Let_def case_prod_unfold) (auto simp: shape_def TcpClient_new_def image_iff)

lemma uniq_step: "tcp_step lt s s' \<Longrightarrow> uniq s \<Longrightarrow> uniq s'"
proof (induction rule: tcp_step.induct)
  case (io t s s')
  then show ?case by (cases rule: io_step.cases) (auto simp: Let_def intro: uniq_cong [OF io(2)])
next
  case (libevent s s')
  show ?case using libevent(1)
  proof (cases rule: libevent_step.cases)
    case (message b c ret s1 copied)
    have "clash s1 = clash s" "shape s1 = shape s" using message(4) by (auto simp: setRecvSecond_def Let_def shape_upd split: if_splits)
    then show ?thesis unfolding message(1) by (intro uniq_cong [OF libevent(2)]) simp_all
  qed (auto simp: shape_upd intro: uniq_cong [OF libevent(2)])
next
  case (call i s k s')
  have "uniq s'"
  proof (cases "\<exists>a b p d e. tcalls s ! i = Adding a b p d e")
    case True
    then show ?thesis using call uniq_new by (auto split: if_splits)
  next
    case False
    have "clash s' = clash s \<and> shape s' = shape s" using call(2) False
      by (cases "(lt, tcalls s ! i, s)" rule: call_step.cases) (auto simp: case_prod_unfold Let_def shape_upd split: option.splits if_splits)
    then show ?thesis using uniq_cong [OF call(3)] by blast
  qed
  then show ?case by (rule uniq_cong) simp_all
qed (auto intro: uniq_cong)

fun is_end :: "conn_event \<Rightarrow> bool" where
  "is_end Opened = False"
| "is_end (Report p st) = (st \<noteq> CONN_SUCCESS)"

lemma life_ends: "life b es = Some b' \<Longrightarrow> length (filter is_end es) + (if b' then 1 else 0) = length (filter (\<lambda>e. e = Opened) es) + (if b then 1 else 0)"
  by (induction b es rule: life.induct) (auto split: if_splits)

lemma reach_basic: "(tcp_step lt)\<^sup>*\<^sup>* (tcp_start (unat (n :: u32)) uid) s \<Longrightarrow> wf s \<and> log_ok s \<and> once s \<and> uniq s"
proof (induction rule: rtranclp_induct)
  case base
  have "unat n < 2 ^ 32" for n :: u32 using unsigned_less [of n, where ?'a = nat] by simp
  then show ?case by (simp add: tcp_start_def wf_def log_ok_def log_of_def once_def opens_def shape_def uniq_def)
qed (use wf_step log_step once_step uniq_step in blast)

lemma sweep_held: "(\<And>c. c < length (objs s) \<Longrightarrow> held s c) \<Longrightarrow> sweep s = s"
proof -
  assume h: "\<And>c. c < length (objs s) \<Longrightarrow> held s c"
  have "fold (\<lambda>c s. if held s c then s else TcpClient_delete c s) cs s = s" if "\<forall>c \<in> set cs. held s c" for cs
    using that by (induction cs) simp_all
  then show ?thesis using h by (simp add: sweep_def)
qed

definition new_year :: "u64 \<Rightarrow> date" where
  "new_year n = \<lparr>tm_mon = 0, tm_mday = 1, tm_hour = 12, tm_min = 0, tm_sec = 0, tm_year = 125\<rparr>"

text \<open>A first connection, with its entry in the table and its order not yet worked off.\<close>

definition first_conn :: "u64 \<Rightarrow> u32 \<Rightarrow> tcp_sys" where
  "first_conn u tail =
     \<lparr>objs = [TcpClient_new 0 u ''a'' 80 0 5 5 0], tcpClientConnMap = [(u, 0)], orderQs = [[(0, [])]], counters = [2], io_threads = [Idle], timers = Map.empty,
      bevs = Map.empty, nextHandle = 0, tcalls = [Added u], second = 0, isExit = False, exits = 0, released = False, uniquId = 60, lastIndex = 1,
      uniqueTail = tail, connLog = [(u, Opened)], posted = [(0, [])], wrote = [], tried = [], retried = False, clash = False, null_free = False, stale = False\<rparr>"

lemma first_connection: "\<exists>u tail. (tcp_step lt)\<^sup>*\<^sup>* (tcp_start (unat (1 :: u32)) 60) (first_conn u tail)"
proof -
  obtain u tail where u: "uniqueNumId (lt 0) 60 0 = (u, tail)" by force
  let ?x = "TcpClient_new 0 u ''a'' 80 0 5 5 0"
  define s0 where "s0 = tcp_start 1 60"
  define s1 where "s1 = s0\<lparr>tcalls := [Adding ''a'' 80 0 5 5]\<rparr>"
  define s2 where "s2 = (new_connection lt ''a'' 80 0 5 5 s1)\<lparr>tcalls := [Add_wake 0]\<rparr>"
  define s3 where "s3 = (libeventIoWakeup 0 s2)\<lparr>tcalls := [Add_insert 0]\<rparr>"
  define s4 where "s4 = (insert_conn 0 s3)\<lparr>tcalls := [Added (tc_uniqueNum (objs s3 ! 0))]\<rparr>"
  note d = s0_def s1_def s2_def s3_def s4_def tcp_start_def new_connection_def libeventIoWakeup_def insert_conn_def libeventIoOrder_def add_counter_def Let_def u TcpClient_new_def orderNodeInsert_def
  have f: "objs s2 = [?x]" "objs s3 = [?x]" "objs s4 = [?x]" by (simp_all add: d)
  have "tcp_step lt s0 s1" using tcp_step.add [of s0 lt "''a''" 80 0 5 5] by (simp add: d)
  moreover have "tcp_step lt s1 s2" using tcp_step.call [of 0 s1 lt "Add_wake 0" "new_connection lt ''a'' 80 0 5 5 s1"] sweep_held [of s2] f by (auto simp: d held_def)
  moreover have "tcp_step lt s2 s3" using tcp_step.call [of 0 s2 lt "Add_insert 0" "libeventIoWakeup 0 s2"] sweep_held [of s3] f by (auto simp: d held_def)
  moreover have "tcp_step lt s3 s4" using tcp_step.call [of 0 s3 lt "Added (tc_uniqueNum (objs s3 ! 0))" "insert_conn 0 s3"] sweep_held [of s4] f by (auto simp: d held_def)
  moreover have "s4 = first_conn u tail" by (simp add: d first_conn_def)
  ultimately have "(tcp_step lt)\<^sup>*\<^sup>* (tcp_start (unat (1 :: u32)) 60) (first_conn u tail)" unfolding s0_def by (simp add: converse_rtranclp_into_rtranclp)
  then show ?thesis by blast
qed



end
