(* ===== verification/TcpOrders.thy ===== *)
theory TcpOrders
  imports TcpCliProps
begin

text \<open>
  The orders of the TCP client: no wake-up is lost, and the exit reaches every thread.
\<close>

section \<open>Waking the threads\<close>

fun waking :: "tcp_call \<Rightarrow> nat option" where
  "waking (Add_wake c) = Some c"
| "waking (Send_wake c) = Some c"
| "waking (Disc_wake k c) = Some c"
| "waking _ = None"

lemma waking_holds: "waking k = Some c \<Longrightarrow> holds_obj k = Some c"
  by (cases k) auto

lemma wf_holds: "wf s \<Longrightarrow> k \<in> set (tcalls s) \<Longrightarrow> holds_obj k = Some c \<Longrightarrow> c < length (objs s)"
  by (auto simp: wf_def)

definition wakes :: "tcp_sys \<Rightarrow> nat \<Rightarrow> bool" where
  "wakes s t \<longleftrightarrow> (\<exists>k \<in> set (tcalls s). \<exists>c. waking k = Some c \<and> fst (shape s ! c) = t)"

definition at_work :: "tcp_sys \<Rightarrow> nat \<Rightarrow> bool" where
  "at_work s t \<longleftrightarrow> (\<exists>v. io_threads s ! t = Draining v) \<or> io_threads s ! t = Ended"

definition wake_ok :: "tcp_sys \<Rightarrow> bool" where
  "wake_ok s \<longleftrightarrow> (\<forall>t < length (io_threads s). orderQs s ! t \<noteq> [] \<longrightarrow> counters s ! t > 0 \<or> at_work s t \<or> wakes s t)"

fun exit_part :: "io_thread \<Rightarrow> nat" where
  "exit_part (Draining v) = v mod 2"
| "exit_part Ended = 1"
| "exit_part _ = 0"

definition exit_ok :: "tcp_sys \<Rightarrow> bool" where
  "exit_ok s \<longleftrightarrow> exits s \<le> length (io_threads s) \<and>
     (\<forall>t < length (io_threads s). counters s ! t mod 2 + exit_part (io_threads s ! t) = (if t < exits s then 1 else 0))"

lemma exit_cong: "exit_ok s \<Longrightarrow> exits s' = exits s \<Longrightarrow> io_threads s' = io_threads s \<Longrightarrow> counters s' = counters s \<Longrightarrow> exit_ok s'"
  by (simp add: exit_ok_def)

lemma finish_waking [simp]: "waking (finish k r) = None"
  by (induction k r rule: finish.induct) auto

lemma setRecv_index [simp]: "tc_ioIndex (objs (snd (setRecvSecond c s)) ! d) = tc_ioIndex (objs s ! d)"
  by (cases "c < length (objs s)") (simp_all add: setRecvSecond_def Let_def upd_obj_def nth_list_update not_less list_update_beyond)

lemma call_rest [simp]: "io_threads (snd (call_step lt k s)) = io_threads s" "exits (snd (call_step lt k s)) = exits s"
  by (cases "(lt, k, s)" rule: call_step.cases;
      simp add: case_prod_unfold Let_def libeventIoOrder_def new_connection_def insert_conn_def libeventIoWakeup_def add_counter_def split: option.splits)+

text \<open>A step of a call may insert one order and is then about to wake the thread, or wakes the thread it was about to wake.\<close>

lemma call_queues:
  assumes "call_step lt k s = (k', s')" and "wf s" and "k \<in> set (tcalls s)"
  shows "(orderQs s' = orderQs s \<and> waking k' = waking k \<and> waking k = None \<and> counters s' = counters s \<or>
     (\<exists>c m. waking k = None \<and> waking k' = Some c \<and> c < length (objs s') \<and> counters s' = counters s \<and>
        orderQs s' = (orderQs s)[fst (shape s' ! c) := orderQs s ! fst (shape s' ! c) @ [(c, m)]]) \<or>
     (\<exists>c. waking k = Some c \<and> c < length (objs s) \<and> waking k' = None \<and> orderQs s' = orderQs s \<and> counters s' = (counters s)[fst (shape s ! c) := counters s ! fst (shape s ! c) + 2]))"
proof -
  have c: "holds_obj k = Some c \<Longrightarrow> c < length (objs s)" for c using assms(2,3) by (auto simp: wf_def)
  have n: "\<exists>c m. c < length (objs (new_connection lt a b p d e s)) \<and> c = length (objs s) \<and> counters (new_connection lt a b p d e s) = counters s \<and>
      orderQs (new_connection lt a b p d e s) = (orderQs s)[fst (shape (new_connection lt a b p d e s) ! c) := orderQs s ! fst (shape (new_connection lt a b p d e s) ! c) @ [(c, m)]]" for a b p d e
    by (auto simp: new_connection_def Let_def case_prod_unfold libeventIoOrder_def orderNodeInsert_def shape_def TcpClient_new_def nth_append)
  have len: "length (objs (snd (setRecvSecond c s))) = length (objs s)" "shape (snd (setRecvSecond c s)) = shape s" for c using shape_setRecv length_shape by metis+
  show ?thesis
  proof (cases "\<exists>a b p d e. k = Adding a b p d e")
    case True
    then obtain a b p d e where k: "k = Adding a b p d e" by blast
    show ?thesis using assms(1) n [of a b p d e] unfolding k by (auto split: if_splits)
  next
    case False
    then show ?thesis using assms(1) c len
      by (cases "(lt, k, s)" rule: call_step.cases)
        (auto simp: case_prod_unfold Let_def libeventIoOrder_def orderNodeInsert_def insert_conn_def libeventIoWakeup_def add_counter_def shape_nth split: option.splits if_splits)
  qed
qed


lemma wake_ok_cong:
  assumes "wake_ok s" and "io_threads s' = io_threads s" and "orderQs s' = orderQs s" and "counters s' = counters s" and "shape s' = shape s"
    and "\<And>k. k \<in> set (tcalls s) \<Longrightarrow> waking k \<noteq> None \<Longrightarrow> k \<in> set (tcalls s')"
  shows "wake_ok s'"
proof -
  have "wakes s t \<Longrightarrow> wakes s' t" for t using assms(5,6) by (fastforce simp: wakes_def)
  then show ?thesis using assms(1-4) by (auto simp: wake_ok_def at_work_def)
qed

lemma update_keeps: "x \<in> set xs \<Longrightarrow> i < length xs \<Longrightarrow> x \<noteq> xs ! i \<Longrightarrow> x \<in> set (xs[i := y])"
  by (metis in_set_conv_nth length_list_update nth_list_update_neq)

lemma wake_call:
  assumes "wake_ok s" and "wf s" and i: "i < length (tcalls s)" and st: "call_step lt (tcalls s ! i) s = (k, s')"
  shows "wake_ok (s'\<lparr>tcalls := (tcalls s)[i := k]\<rparr>)"
  unfolding wake_ok_def
proof (intro allI impI)
  let ?s = "s'\<lparr>tcalls := (tcalls s)[i := k]\<rparr>"
  fix t assume t: "t < length (io_threads ?s)" and q: "orderQs ?s ! t \<noteq> []"
  have m: "tcalls s ! i \<in> set (tcalls s)" using i by simp
  have io: "io_threads s' = io_threads s" using st call_rest(1) [of lt "tcalls s ! i" s] by simp
  have tl: "t < length (io_threads s)" "t < length (counters s)" "t < length (orderQs s)" using t io assms(2) by (simp_all add: wf_def)
  have k: "k \<in> set (tcalls ?s)" using i by (simp add: set_update_memI)
  obtain ps where ps: "shape s' = shape s @ ps" using call_once(2) [OF st m assms(2)] by blast
  have rest: "wakes ?s t" if "wakes s t" "\<nexists>c. waking (tcalls s ! i) = Some c \<and> fst (shape s ! c) = t"
  proof -
    obtain j c where j: "j \<in> set (tcalls s)" "waking j = Some c" "fst (shape s ! c) = t" using \<open>wakes s t\<close> by (auto simp: wakes_def)
    then have "j \<in> set (tcalls ?s)" using that(2) i by (auto intro: update_keeps)
    moreover have "c < length (shape s)" using wf_holds [OF assms(2) j(1) waking_holds [OF j(2)]] by simp
    then have "fst (shape ?s ! c) = t" using j(3) by (simp add: ps nth_append)
    ultimately show ?thesis using j(2) unfolding wakes_def by blast
  qed
  consider "orderQs s' = orderQs s" "counters s' = counters s" "waking (tcalls s ! i) = None"
    | c e where "waking (tcalls s ! i) = None" "waking k = Some c" "counters s' = counters s" "orderQs s' = (orderQs s)[fst (shape s' ! c) := orderQs s ! fst (shape s' ! c) @ [e]]"
    | c where "waking (tcalls s ! i) = Some c" "orderQs s' = orderQs s" "counters s' = (counters s)[fst (shape s ! c) := counters s ! fst (shape s ! c) + 2]"
    using call_queues [OF st assms(2) m] by metis
  then show "counters ?s ! t > 0 \<or> at_work ?s t \<or> wakes ?s t"
  proof cases
    case 1
    then show ?thesis using assms(1) q tl rest io by (auto simp: wake_ok_def at_work_def)
  next
    case (2 c e)
    show ?thesis
    proof (cases "fst (shape s' ! c) = t")
      case True
      then have "fst (shape ?s ! c) = t" by simp
      then show ?thesis using 2(2) k unfolding wakes_def by blast
    next
      case False
      then show ?thesis using 2 assms(1) q tl rest io by (auto simp: wake_ok_def at_work_def)
    qed
  next
    case (3 c)
    then show ?thesis using assms(1) q tl rest io by (cases "fst (shape s ! c) = t") (auto simp: wake_ok_def at_work_def)
  qed
qed

lemma wake_step: "tcp_step lt s s' \<Longrightarrow> wake_ok s \<Longrightarrow> wf s \<Longrightarrow> wake_ok s'"
proof (induction rule: tcp_step.induct)
  case (io t s s')
  have l: "length (orderQs s) = length (io_threads s)" "length (counters s) = length (io_threads s)" using io(3) by (simp_all add: wf_def)
  have other: "orderQs s' ! t' \<noteq> [] \<longrightarrow> counters s' ! t' > 0 \<or> at_work s' t' \<or> wakes s' t'"
    if "t' < length (io_threads s)" "t' \<noteq> t" "orderQs s' ! t' = orderQs s ! t'" "counters s' ! t' = counters s ! t'" "io_threads s' ! t' = io_threads s ! t'" "tcalls s' = tcalls s" "shape s' = shape s" for t'
    using io(2) that by (simp add: wake_ok_def at_work_def wakes_def)
  show ?case using io(1)
  proof (cases rule: io_step.cases)
    case read
    then have "at_work s' t" by (simp add: at_work_def set_thread_def)
    moreover have "orderQs s' ! t' \<noteq> [] \<longrightarrow> counters s' ! t' > 0 \<or> at_work s' t' \<or> wakes s' t'" if "t' < length (io_threads s)" "t' \<noteq> t" for t'
      by (rule other) (use read that in \<open>auto simp: set_thread_def\<close>)
    moreover have "length (io_threads s') = length (io_threads s)" using read by (simp add: set_thread_def)
    ultimately show ?thesis unfolding wake_ok_def by metis
  next
    case (order v node q r)
    then have "at_work s' t" by (simp add: at_work_def)
    moreover have "orderQs s' ! t' \<noteq> [] \<longrightarrow> counters s' ! t' > 0 \<or> at_work s' t' \<or> wakes s' t'" if "t' < length (io_threads s)" "t' \<noteq> t" for t'
      by (rule other) (use order that in auto)
    moreover have "length (io_threads s') = length (io_threads s)" using order by simp
    ultimately show ?thesis unfolding wake_ok_def by metis
  next
    case (drained v)
    then have "orderQs s' ! t = []" by (simp add: set_thread_def dealOrderNode_def split: list.splits)
    moreover have "orderQs s' ! t' \<noteq> [] \<longrightarrow> counters s' ! t' > 0 \<or> at_work s' t' \<or> wakes s' t'" if "t' < length (io_threads s)" "t' \<noteq> t" for t'
      by (rule other) (use drained that in \<open>auto simp: set_thread_def\<close>)
    moreover have "length (io_threads s') = length (io_threads s)" using drained by (simp add: set_thread_def)
    ultimately show ?thesis unfolding wake_ok_def by metis
  next
    case (message_end b c dr)
    have f: "orderQs s' = orderQs s" "counters s' = counters s" "io_threads s' = (io_threads s)[t := Idle]" "tcalls s' = tcalls s" "shape s' = shape s"
      using message_end by (simp_all add: Let_def set_thread_def)
    have "orderQs s' ! t \<noteq> [] \<longrightarrow> counters s' ! t > 0 \<or> wakes s' t" using io(2) message_end(2,3) unfolding wake_ok_def at_work_def wakes_def f by auto
    moreover have "orderQs s' ! t' \<noteq> [] \<longrightarrow> counters s' ! t' > 0 \<or> at_work s' t' \<or> wakes s' t'" if "t' < length (io_threads s)" "t' \<noteq> t" for t'
      by (rule other) (use f that in auto)
    moreover have "length (io_threads s') = length (io_threads s)" using f by simp
    ultimately show ?thesis unfolding wake_ok_def by metis
  qed
next
  case (libevent s s')
  have w: "wake_ok s'" if "io_threads s' = io_threads s \<or> (\<exists>t b c. io_threads s' = (io_threads s)[t := In_message b c] \<and> io_threads s ! t = Idle)" "orderQs s' = orderQs s"
    "counters s' = counters s" "shape s' = shape s" "tcalls s' = tcalls s"
  proof -
    have "at_work s t \<Longrightarrow> at_work s' t" for t using that(1) by (auto simp: at_work_def) (metis io_thread.distinct nth_list_update_neq)+
    then show ?thesis using libevent(2) that by (auto simp: wake_ok_def wakes_def)
  qed
  show ?case using libevent(1)
  proof (cases rule: libevent_step.cases)
    case (message b c ret s1 copied)
    have s1: "io_threads s1 = io_threads s" "orderQs s1 = orderQs s" "counters s1 = counters s" "shape s1 = shape s" "tcalls s1 = tcalls s"
      using message(4) by (auto simp: setRecvSecond_def Let_def shape_upd split: if_splits)
    show ?thesis by (rule w) (use message s1 in \<open>auto simp: set_thread_def\<close>)
  qed (rule w; simp add: shape_upd)+
next
  case (call i s k s')
  show ?case by (rule wake_ok_cong [OF wake_call [OF call(3,4,1,2)]]) simp_all
next
  case (exit_thread s)
  have "wakes (add_counter (exits s) 1 (s\<lparr>exits := exits s + 1\<rparr>)) = wakes s" by (simp add: fun_eq_iff wakes_def)
  moreover have "length (counters s) = length (io_threads s)" using exit_thread(4) by (simp add: wf_def)
  ultimately show ?case using exit_thread by (auto simp: wake_ok_def at_work_def add_counter_def nth_list_update)
next
  case (exit_release s)
  then show ?case by (auto simp: wake_ok_def wf_def)
qed (auto intro: wake_ok_cong)


lemma add_two: "t < length xs \<Longrightarrow> (xs[i := xs ! i + 2] ! t) mod 2 = xs ! t mod (2 :: nat)"
  by (cases "i = t") simp_all

lemma exit_same_part: "exit_ok s \<Longrightarrow> exit_part p = exit_part (io_threads s ! t) \<Longrightarrow> exit_ok (set_thread t p s)"
proof -
  assume a: "exit_ok s" "exit_part p = exit_part (io_threads s ! t)"
  have "exit_part ((io_threads s)[t := p] ! u) = exit_part (io_threads s ! u)" if "u < length (io_threads s)" for u using a(2) that by (cases "t = u") simp_all
  then show ?thesis using a(1) by (simp add: exit_ok_def set_thread_def)
qed

lemma exit_call: "exit_ok s \<Longrightarrow> wf s \<Longrightarrow> i < length (tcalls s) \<Longrightarrow> call_step lt (tcalls s ! i) s = (k, s') \<Longrightarrow> exit_ok s'"
proof -
  assume a: "exit_ok s" "wf s" "i < length (tcalls s)" "call_step lt (tcalls s ! i) s = (k, s')"
  have m: "tcalls s ! i \<in> set (tcalls s)" using a(3) by simp
  have f: "io_threads s' = io_threads s" "exits s' = exits s" using a(4) call_rest [of lt "tcalls s ! i" s] by simp_all
  have l: "length (counters s) = length (io_threads s)" using a(2) by (simp add: wf_def)
  have "counters s' ! t mod 2 = counters s ! t mod 2" if "t < length (io_threads s)" for t
    using call_queues [OF a(4,2) m] that l add_two [of t "counters s"] by auto
  then show ?thesis using a(1) f by (auto simp: exit_ok_def)
qed

lemma exit_step: "tcp_step lt s s' \<Longrightarrow> exit_ok s \<Longrightarrow> wf s \<Longrightarrow> exit_ok s'"
proof (induction rule: tcp_step.induct)
  case (io t s s')
  have l: "length (orderQs s) = length (io_threads s)" "length (counters s) = length (io_threads s)" using io(3) by (simp_all add: wf_def)
  show ?case using io(1)
  proof (cases rule: io_step.cases)
    case read
    then show ?thesis using io(2) l by (auto simp: exit_ok_def set_thread_def nth_list_update)
  next
    case (order v node q r)
    then show ?thesis by (intro exit_cong [OF io(2)]) simp_all
  next
    case (drained v)
    then have "exit_part (if odd v then Ended else Idle) = exit_part (io_threads s ! t)" by (auto simp: odd_iff_mod_2_eq_one)
    then show ?thesis unfolding drained(1) by (rule exit_same_part [OF io(2)])
  next
    case (message_end b c dr)
    have f: "exits s' = exits s" "counters s' = counters s" "io_threads s' = (io_threads s)[t := Idle]" using message_end by (simp_all add: Let_def set_thread_def)
    show ?thesis using io(2) message_end(2,3) unfolding exit_ok_def f by (auto simp: nth_list_update)
  qed
next
  case (libevent s s')
  have w: "exit_ok s'" if "io_threads s' = io_threads s \<or> (\<exists>t b c. io_threads s' = (io_threads s)[t := In_message b c] \<and> io_threads s ! t = Idle)" "exits s' = exits s" "counters s' = counters s"
    using that(1)
  proof
    assume "\<exists>t b c. io_threads s' = (io_threads s)[t := In_message b c] \<and> io_threads s ! t = Idle"
    then obtain t b c where t: "io_threads s' = (io_threads s)[t := In_message b c]" "io_threads s ! t = Idle" by blast
    show ?thesis by (rule exit_cong [OF exit_same_part [OF libevent(2), of "In_message b c" t]]) (use t that in \<open>simp_all add: set_thread_def\<close>)
  qed (use that exit_cong [OF libevent(2)] in blast)
  show ?case using libevent(1)
  proof (cases rule: libevent_step.cases)
    case (message b c ret s1 copied)
    have s1: "io_threads s1 = io_threads s" "exits s1 = exits s" "counters s1 = counters s" using message(4) by (auto simp: setRecvSecond_def Let_def split: if_splits)
    show ?thesis by (rule w) (use message s1 in \<open>auto simp: set_thread_def\<close>)
  qed (rule w; simp)+
next
  case (call i s k s')
  show ?case by (rule exit_cong [OF exit_call [OF call(3,4,1,2)]]) simp_all
next
  case (exit_thread s)
  have l: "exits s < length (counters s)" using exit_thread by (simp add: wf_def)
  have "Suc n mod 2 = 1" if "n mod 2 = 0" for n :: nat using that by presburger
  then show ?case using exit_thread l by (auto simp: exit_ok_def add_counter_def nth_list_update less_Suc_eq)
qed (auto intro: exit_cong)

text \<open>A thread that drains its orders comes to an end of it.\<close>

lemma drain_run:
  "io_threads s ! t = Draining v \<Longrightarrow> t < length (io_threads s) \<Longrightarrow> length (orderQs s) = length (io_threads s) \<Longrightarrow>
   \<exists>s'. (io_step t)\<^sup>*\<^sup>* s s' \<and> orderQs s' ! t = [] \<and> io_threads s' ! t = (if odd v then Ended else Idle) \<and> counters s' = counters s \<and>
     length (io_threads s') = length (io_threads s) \<and> length (orderQs s') = length (orderQs s)"
proof (induction "orderQs s ! t" arbitrary: s)
  case Nil
  let ?s = "set_thread t (if odd v then Ended else Idle) s"
  have "io_step t s ?s" by (rule io_step.drained) (use Nil in \<open>simp_all add: dealOrderNode_def flip: Nil(1)\<close>)
  moreover have "orderQs ?s ! t = []" "io_threads ?s ! t = (if odd v then Ended else Idle)" "counters ?s = counters s"
      "length (io_threads ?s) = length (io_threads s)" "orderQs ?s = orderQs s" using Nil by (simp_all add: set_thread_def flip: Nil(1))
  ultimately show ?case by (metis r_into_rtranclp)
next
  case (Cons node q)
  define r where "r = \<lparr>timer_made = False, bev_made = False, enabled = 0, told = False, connected = 0, fd_given = 1\<rparr>"
  define s1 where "s1 = sweep (handle_order r node (s\<lparr>orderQs := (orderQs s)[t := q]\<rparr>))"
  have st: "io_step t s s1" unfolding s1_def by (rule io_step.order) (use Cons in \<open>simp_all add: dealOrderNode_def gives_fd_def r_def word_sless_alt flip: Cons(2)\<close>)
  have "q = orderQs s1 ! t" "io_threads s1 ! t = Draining v" "t < length (io_threads s1)" "length (orderQs s1) = length (io_threads s1)" "counters s1 = counters s"
      "length (io_threads s1) = length (io_threads s)" "length (orderQs s1) = length (orderQs s)"
    using Cons(3-5) by (simp_all add: s1_def)
  then show ?case using Cons(1) [of s1] st by (metis converse_rtranclp_into_rtranclp)
qed

lemma reach_working: "(tcp_step lt)\<^sup>*\<^sup>* (tcp_start (unat (n :: u32)) uid) s \<Longrightarrow> wf s \<and> wake_ok s \<and> exit_ok s"
proof (induction rule: rtranclp_induct)
  case base
  then show ?case using reach_basic [of lt n uid "tcp_start (unat n) uid"] by (simp add: tcp_start_def wake_ok_def exit_ok_def)
next
  case (step x y)
  then show ?case using wf_step wake_step exit_step by blast
qed

text \<open>C3: no order is forgotten, and the exit reaches every thread. In every reachable state, an I/O thread that has not ended and that no call is just about to
  wake can on its own work off all its orders; if the exit has written to its descriptor, the thread then ends, and otherwise it waits in the dispatcher
  again. It tells the two by the parity of its counter alone, however many wake-ups it has read at once.
\<close>

theorem orders_worked_off:
  assumes "(tcp_step lt)\<^sup>*\<^sup>* (tcp_start (unat (n :: u32)) uid) s" and "t < length (io_threads s)" and "io_threads s ! t \<noteq> Ended" and "\<not> wakes s t"
  shows "\<exists>s'. (io_step t)\<^sup>*\<^sup>* s s' \<and> orderQs s' ! t = [] \<and> io_threads s' ! t = (if t < exits s then Ended else Idle)"
proof -
  have inv: "wf s" "wake_ok s" "exit_ok s" using reach_working [OF assms(1)] by simp_all
  have l: "length (orderQs s) = length (io_threads s)" "length (counters s) = length (io_threads s)" using inv(1) by (simp_all add: wf_def)
  have ex: "counters s ! t mod 2 + exit_part (io_threads s ! t) = (if t < exits s then 1 else 0)" using inv(3) assms(2) by (simp add: exit_ok_def)
  have idle: "\<exists>s'. (io_step t)\<^sup>*\<^sup>* z s' \<and> orderQs s' ! t = [] \<and> io_threads s' ! t = (if t < exits s then Ended else Idle)"
    if z: "io_threads z ! t = Idle" "length (io_threads z) = length (io_threads s)" "length (orderQs z) = length (orderQs s)" "length (counters z) = length (counters s)"
      and m: "counters z ! t mod 2 = (if t < exits s then 1 else 0)" and q: "orderQs z ! t = [] \<or> counters z ! t > 0" for z
  proof (cases "counters z ! t = 0")
    case True
    then show ?thesis using z m q assms(2) by (auto split: if_splits)
  next
    case False
    define z1 where "z1 = set_thread t (Draining (counters z ! t)) (z\<lparr>counters := (counters z)[t := 0]\<rparr>)"
    have "io_step t z z1" unfolding z1_def by (rule io_step.read) (use z False assms(2) in auto)
    moreover obtain s' where "(io_step t)\<^sup>*\<^sup>* z1 s'" "orderQs s' ! t = []" "io_threads s' ! t = (if odd (counters z ! t) then Ended else Idle)"
      using drain_run [of z1 t "counters z ! t"] z l assms(2) by (auto simp: z1_def set_thread_def)
    moreover have "odd (counters z ! t) \<longleftrightarrow> t < exits s" using m by (simp add: odd_iff_mod_2_eq_one)
    ultimately show ?thesis by (metis converse_rtranclp_into_rtranclp)
  qed
  show ?thesis
  proof (cases "io_threads s ! t")
    case Idle
    then show ?thesis using idle [of s] ex inv(2) assms(2,4) by (auto simp: wake_ok_def at_work_def)
  next
    case (Draining v)
    obtain z where z: "(io_step t)\<^sup>*\<^sup>* s z" "orderQs z ! t = []" "io_threads z ! t = (if odd v then Ended else Idle)" "counters z = counters s"
      "length (io_threads z) = length (io_threads s)" "length (orderQs z) = length (orderQs s)" using drain_run [OF Draining assms(2) l(1)] by blast
    show ?thesis
    proof (cases "odd v")
      case True
      then have "t < exits s" using ex Draining by (simp add: odd_iff_mod_2_eq_one split: if_splits)
      then show ?thesis using z True by auto
    next
      case False
      then have "\<exists>s'. (io_step t)\<^sup>*\<^sup>* z s' \<and> orderQs s' ! t = [] \<and> io_threads s' ! t = (if t < exits s then Ended else Idle)"
        using ex Draining z by (intro idle) (simp_all add: even_iff_mod_2_eq_zero)
      then show ?thesis using z(1) by (meson rtranclp_trans)
    qed
  next
    case (In_message b c)
    define z where "z = set_thread t Idle (s\<lparr>stale := stale s \<or> \<not> held s c\<rparr>)"
    have "io_step t s z" using io_step.message_end [OF assms(2) In_message, of True] by (simp add: z_def)
    moreover have "\<exists>s'. (io_step t)\<^sup>*\<^sup>* z s' \<and> orderQs s' ! t = [] \<and> io_threads s' ! t = (if t < exits s then Ended else Idle)"
      by (rule idle) (use ex In_message inv(2) assms(2,4) in \<open>auto simp: z_def set_thread_def wake_ok_def at_work_def\<close>)
    ultimately show ?thesis by (meson converse_rtranclp_into_rtranclp)
  qed (use assms(3) in simp)
qed

theorem orders_worked_off_witness:
  "\<exists>s s'. (tcp_step new_year)\<^sup>*\<^sup>* (tcp_start (unat (1 :: u32)) 60) s \<and>
     orderQs s ! 0 = [(0, [])] \<and> (io_step 0)\<^sup>*\<^sup>* s s' \<and> orderQs s' ! 0 = [] \<and> io_threads s' ! 0 = Idle"
proof -
  obtain u tail where r: "(tcp_step new_year)\<^sup>*\<^sup>* (tcp_start (unat (1 :: u32)) 60) (first_conn u tail)" using first_connection by blast
  have f: "orderQs (first_conn u tail) = [[(0, [])]]" "io_threads (first_conn u tail) = [Idle]" "tcalls (first_conn u tail) = [Added u]" "exits (first_conn u tail) = 0"
    by (simp_all add: first_conn_def)
  show ?thesis using orders_worked_off [OF r, of 0] r f by (auto simp: wakes_def)
qed

end
