(* ===== verification/TcpHandles.thy ===== *)
theory TcpHandles
  imports TcpOrders
begin

text \<open>
  The timers and bufferevents of the TCP client: which object a handle belongs to, through callbacks, deletions and \<open>connectServer\<close>.
\<close>

section \<open>Handles\<close>

text \<open>Unless \<open>connectServer\<close> was called twice for an object, its handles are those that are registered for it.\<close>

definition ev_ok :: "tcp_sys \<Rightarrow> bool" where
  "ev_ok s \<longleftrightarrow>
     (\<forall>b d k. bevs s b = Some (d, k) \<longrightarrow> d < length (objs s) \<and> b < nextHandle s \<and> tc_bev (objs s ! d) = Some b) \<and>
     (\<forall>d < length (objs s). \<forall>b. tc_bev (objs s ! d) = Some b \<longrightarrow> (\<exists>k. bevs s b = Some (d, k))) \<and>
     (\<forall>h d. timers s h = Some d \<longrightarrow> d < length (objs s) \<and> h < nextHandle s \<and> tc_timev (objs s ! d) = Some h) \<and>
     (\<forall>d < length (objs s). d \<notin> set (tried s) \<longrightarrow> tc_bev (objs s ! d) = None \<and> tc_timev (objs s ! d) = None \<and> tc_sockfd (objs s ! d) = 0)"

lemma evI:
  assumes "\<And>b d k. bevs s b = Some (d, k) \<Longrightarrow> d < length (objs s) \<and> b < nextHandle s \<and> tc_bev (objs s ! d) = Some b"
    and "\<And>d b. d < length (objs s) \<Longrightarrow> tc_bev (objs s ! d) = Some b \<Longrightarrow> \<exists>k. bevs s b = Some (d, k)"
    and "\<And>h d. timers s h = Some d \<Longrightarrow> d < length (objs s) \<and> h < nextHandle s \<and> tc_timev (objs s ! d) = Some h"
    and "\<And>d. d < length (objs s) \<Longrightarrow> d \<notin> set (tried s) \<Longrightarrow> tc_bev (objs s ! d) = None \<and> tc_timev (objs s ! d) = None \<and> tc_sockfd (objs s ! d) = 0"
  shows "ev_ok s"
  using assms unfolding ev_ok_def by blast

lemma evD:
  assumes "ev_ok s"
  shows "bevs s b = Some (d, k) \<Longrightarrow> d < length (objs s)" "bevs s b = Some (d, k) \<Longrightarrow> b < nextHandle s" "bevs s b = Some (d, k) \<Longrightarrow> tc_bev (objs s ! d) = Some b"
    and "d < length (objs s) \<Longrightarrow> tc_bev (objs s ! d) = Some b \<Longrightarrow> \<exists>k. bevs s b = Some (d, k)"
    and "timers s h = Some d \<Longrightarrow> d < length (objs s)" "timers s h = Some d \<Longrightarrow> h < nextHandle s" "timers s h = Some d \<Longrightarrow> tc_timev (objs s ! d) = Some h"
    and "d < length (objs s) \<Longrightarrow> d \<notin> set (tried s) \<Longrightarrow> tc_bev (objs s ! d) = None \<and> tc_timev (objs s ! d) = None \<and> tc_sockfd (objs s ! d) = 0"
  using assms unfolding ev_ok_def by blast+

lemma ev_fields:
  assumes e: "ev_ok s" and o: "length (objs s') = length (objs s)"
    "\<And>d. d < length (objs s) \<Longrightarrow> tc_bev (objs s' ! d) = tc_bev (objs s ! d) \<and> tc_timev (objs s' ! d) = tc_timev (objs s ! d) \<and> tc_sockfd (objs s' ! d) = tc_sockfd (objs s ! d)"
    and r: "bevs s' = bevs s" "timers s' = timers s" "nextHandle s' = nextHandle s" "set (tried s') = set (tried s)"
  shows "ev_ok s'"
  by (rule evI) (simp_all add: o r evD [OF e])

lemma ev_cong: "ev_ok s \<Longrightarrow> objs s' = objs s \<Longrightarrow> bevs s' = bevs s \<Longrightarrow> timers s' = timers s \<Longrightarrow> nextHandle s' = nextHandle s \<Longrightarrow> set (tried s') = set (tried s) \<Longrightarrow> ev_ok s'"
  by (rule ev_fields) simp_all

lemma nth_upd_obj: "d < length (objs s) \<Longrightarrow> objs (upd_obj c f s) ! d = (if d = c then f (objs s ! c) else objs s ! d)"
  by (simp add: upd_obj_def nth_list_update)

lemma length_upd_obj [simp]: "length (objs (upd_obj c f s)) = length (objs s)"
  by (simp add: upd_obj_def)

lemma ev_upd: "ev_ok s \<Longrightarrow> (\<And>x. tc_bev (f x) = tc_bev x \<and> tc_timev (f x) = tc_timev x \<and> tc_sockfd (f x) = tc_sockfd x) \<Longrightarrow> ev_ok (upd_obj c f s)"
  by (rule ev_fields) (simp_all add: nth_upd_obj)

lemma ev_free_timer:
  assumes e: "ev_ok s" and c: "c < length (objs s)"
  shows "ev_ok (free_timer c s)"
proof (cases "tc_timev (objs s ! c)")
  case (Some h)
  show ?thesis
  proof (rule evI, goal_cases)
    case (3 h' d)
    then have "timers s h' = Some d" "h' \<noteq> h" using Some by (auto simp: free_timer_def split: if_splits)
    moreover have "d \<noteq> c" using evD(7) [OF e calculation(1)] calculation(2) Some by auto
    ultimately show ?case using evD(5-7) [OF e, of h' d] Some by (simp add: free_timer_def upd_obj_def)
  qed (use Some evD(1-4,8) [OF e] c in \<open>auto simp: free_timer_def upd_obj_def nth_list_update split: if_splits\<close>)
qed (simp add: free_timer_def e)

lemma ev_free_bev:
  assumes e: "ev_ok s" and c: "c < length (objs s)"
  shows "ev_ok (free_bev c s)"
proof (cases "tc_bev (objs s ! c)")
  case (Some b)
  obtain k where k: "bevs s b = Some (c, k)" using evD(4) [OF e c Some] by blast
  show ?thesis
  proof (rule evI, goal_cases)
    case (1 b' d k')
    then have "bevs s b' = Some (d, k')" "b' \<noteq> b" using Some by (auto simp: free_bev_def split: if_splits)
    moreover have "d \<noteq> c" using evD(3) [OF e calculation(1)] calculation(2) Some by auto
    ultimately show ?case using evD(1-3) [OF e, of b' d k'] Some by (simp add: free_bev_def upd_obj_def)
  next
    case (2 d b')
    then have "tc_bev (objs s ! d) = Some b'" "d \<noteq> c" "d < length (objs s)" using Some c by (auto simp: free_bev_def upd_obj_def nth_list_update split: if_splits)
    then show ?case using evD(4) [OF e, of d b'] k Some by (auto simp: free_bev_def)
  next
    case (3 h d)
    then show ?case using Some evD(5-7) [OF e] c by (auto simp: free_bev_def upd_obj_def nth_list_update)
  next
    case (4 d)
    then show ?case using Some evD(8) [OF e, of d] c by (auto simp: free_bev_def upd_obj_def nth_list_update split: if_splits)
  qed
qed (simp add: free_bev_def e)

lemma length_objs [simp]:
  "length (objs (free_timer c s)) = length (objs s)" "length (objs (free_bev c s)) = length (objs s)" "length (objs (tc_disConnect c s)) = length (objs s)"
  "length (objs (TcpClientOnEvent e c s)) = length (objs s)" "length (objs (tcpClieSetconn c s)) = length (objs s)" "length (objs (connectTimeout c s)) = length (objs s)"
  "length (objs (handle_order r node s)) = length (objs s)" "length (objs (sweep s)) = length (objs s)" "length (objs (snd (setRecvSecond c s))) = length (objs s)"
  "length (objs (snd (connectServer r c s))) = length (objs s)" "length (objs (TcpClient_delete c s)) = length (objs s)"
  by (metis length_shape shape_free shape_event shape_handle_order shape_sweep shape_setRecv shape_connectServer)+

lemma ev_disConnect: "ev_ok s \<Longrightarrow> c < length (objs s) \<Longrightarrow> ev_ok (tc_disConnect c s)"
  by (simp add: tc_disConnect_def ev_free_timer ev_free_bev)

lemma ev_tell: "ev_ok s \<Longrightarrow> ev_ok (tell c st s)"
  by (rule ev_cong) simp_all

lemma ev_event: "ev_ok s \<Longrightarrow> c < length (objs s) \<Longrightarrow> ev_ok (TcpClientOnEvent e c s)"
  by (simp add: TcpClientOnEvent_def conn_closed_def Let_def ev_tell ev_disConnect tcpClieSetconn_def ev_upd ev_free_timer)

lemma ev_timeout: "ev_ok s \<Longrightarrow> c < length (objs s) \<Longrightarrow> ev_ok (connectTimeout c s)"
  by (simp add: connectTimeout_def ev_tell ev_disConnect)

text \<open>A call back into the code or a deletion only takes handles of its own object away.\<close>

definition shut :: "nat \<Rightarrow> tcp_sys \<Rightarrow> tcp_sys \<Rightarrow> bool" where
  "shut c s s' \<longleftrightarrow> (\<forall>b. bevs s' b = bevs s b \<or> bevs s' b = None \<and> (\<exists>k. bevs s b = Some (c, k))) \<and> (\<forall>h. timers s' h = timers s h \<or> timers s' h = None)"

lemma shutD:
  assumes "shut c s s'"
  shows "bevs s' b = bevs s b \<or> bevs s' b = None \<and> (\<exists>k. bevs s b = Some (c, k))" and "timers s' h = timers s h \<or> timers s' h = None"
  using assms by (simp_all add: shut_def)

lemma shut_refl: "bevs s' = bevs s \<Longrightarrow> timers s' = timers s \<Longrightarrow> shut c s s'"
  by (simp add: shut_def)

lemma shut_trans: "shut c s s1 \<Longrightarrow> shut c s1 s2 \<Longrightarrow> shut c s s2"
  unfolding shut_def by (metis option.distinct(1))

lemma shut_disConnect:
  assumes e: "ev_ok s" and c: "c < length (objs s)"
  shows "shut c s (tc_disConnect c s)" and "bevs (tc_disConnect c s) b \<noteq> Some (c, k)" and "timers (tc_disConnect c s) h \<noteq> Some c"
proof -
  let ?s = "free_timer c s"
  have t: "shut c s ?s" by (auto simp: shut_def free_timer_def split: option.splits)
  have tn: "timers ?s h \<noteq> Some c" for h using evD(7) [OF e, of h c] by (cases "tc_timev (objs s ! c)") (auto simp: free_timer_def)
  have e1: "ev_ok ?s" "c < length (objs ?s)" using e c by (simp_all add: ev_free_timer)
  have b: "shut c ?s (free_bev c ?s) \<and> (\<forall>b k. bevs (free_bev c ?s) b \<noteq> Some (c, k))"
  proof (cases "tc_bev (objs ?s ! c)")
    case (Some b)
    then obtain k where "bevs ?s b = Some (c, k)" using evD(4) [OF e1] by blast
    moreover have "bevs ?s b' = Some (c, k') \<Longrightarrow> b' = b" for b' k' using evD(3) [OF e1(1)] Some by fastforce
    moreover have "bevs (free_bev c ?s) = (bevs ?s)(b := None)" "timers (free_bev c ?s) = timers ?s" using Some by (simp_all add: free_bev_def)
    ultimately show ?thesis unfolding shut_def by (metis fun_upd_apply option.distinct(1))
  next
    case None
    have "bevs ?s b \<noteq> Some (c, k)" for b k using evD(3) [OF e1(1), of b c k] None by auto
    then show ?thesis using None by (simp add: shut_def free_bev_def)
  qed
  show "shut c s (tc_disConnect c s)" using shut_trans [OF t] b by (simp add: tc_disConnect_def)
  show "bevs (tc_disConnect c s) b \<noteq> Some (c, k)" "timers (tc_disConnect c s) h \<noteq> Some c" using b tn by (simp_all add: tc_disConnect_def)
qed

text \<open>The sweep takes the handles of the objects nobody holds.\<close>

lemma sweep_handles:
  assumes "ev_ok s"
  shows "ev_ok (sweep s)" and "bevs (sweep s) b = (case bevs s b of None \<Rightarrow> None | Some (c, k) \<Rightarrow> if held s c then Some (c, k) else None)"
    and "timers (sweep s) h = timers s h \<or> timers (sweep s) h = None" and "timers (sweep s) h = Some c \<Longrightarrow> held s c"
proof -
  let ?f = "\<lambda>c s. if held s c then s else TcpClient_delete c s"
  have h: "held (fold ?f cs x) c = held x c" for cs x c by (rule held_fields) (simp_all add: sweep_fold_rest)
  have d: "ev_ok (TcpClient_delete c x)" "bevs (TcpClient_delete c x) = bevs (tc_disConnect c x)" "timers (TcpClient_delete c x) = timers (tc_disConnect c x)"
    if "ev_ok x" "c < length (objs x)" for c x using that by (simp_all add: TcpClient_delete_def ev_upd ev_disConnect)
  have "ev_ok (fold ?f cs s) \<and> length (objs (fold ?f cs s)) = length (objs s) \<and>
      (\<forall>b. bevs (fold ?f cs s) b = (case bevs s b of None \<Rightarrow> None | Some (c, k) \<Rightarrow> if held s c \<or> c \<notin> set cs then Some (c, k) else None)) \<and>
      (\<forall>h. timers (fold ?f cs s) h = timers s h \<or> timers (fold ?f cs s) h = None) \<and> (\<forall>h c. timers (fold ?f cs s) h = Some c \<longrightarrow> held s c \<or> c \<notin> set cs)"
    if "set cs \<subseteq> {..<length (objs s)}" for cs
    using that
  proof (induction cs rule: rev_induct)
    case (snoc c cs)
    let ?x = "fold ?f cs s"
    have i: "ev_ok ?x" "length (objs ?x) = length (objs s)" "\<forall>b. bevs ?x b = (case bevs s b of None \<Rightarrow> None | Some (c, k) \<Rightarrow> if held s c \<or> c \<notin> set cs then Some (c, k) else None)"
      "\<forall>h. timers ?x h = timers s h \<or> timers ?x h = None" "\<forall>h c. timers ?x h = Some c \<longrightarrow> held s c \<or> c \<notin> set cs" using snoc by auto
    show ?case
    proof (cases "held s c")
      case True
      then show ?thesis using i by (auto simp: h split: option.splits)
    next
      case False
      have c: "c < length (objs ?x)" using snoc i(2) by simp
      note s = shut_disConnect [OF i(1) c]
      have b: "bevs (tc_disConnect c ?x) b = (case bevs s b of None \<Rightarrow> None | Some (d, k) \<Rightarrow> if held s d \<or> d \<notin> set (cs @ [c]) then Some (d, k) else None)" for b
      proof -
        consider "bevs (tc_disConnect c ?x) b = bevs ?x b" | k where "bevs (tc_disConnect c ?x) b = None" "bevs ?x b = Some (c, k)" using shutD(1) [OF s(1), of b] by blast
        then show ?thesis
        proof cases
          case 1
          have "\<forall>k. bevs ?x b \<noteq> Some (c, k)" using s(2) [of b] unfolding 1 by blast
          then show ?thesis using 1 i(3) [rule_format, of b] by (cases "bevs s b") (auto split: if_splits)
        next
          case 2
          have "bevs s b = Some (c, k)" using 2(2) i(3) [rule_format, of b] by (cases "bevs s b") (auto split: if_splits)
          then show ?thesis using 2 False by simp
        qed
      qed
      have x: "timers (tc_disConnect c ?x) h = timers ?x h \<or> timers (tc_disConnect c ?x) h = None" for h by (rule shutD(2) [OF s(1)])
      have t: "timers (tc_disConnect c ?x) h = timers s h \<or> timers (tc_disConnect c ?x) h = None" for h using x [of h] i(4) [rule_format, of h] by auto
      have u: "held s d \<or> d \<notin> set (cs @ [c])" if t: "timers (tc_disConnect c ?x) h = Some d" for h d
      proof -
        have "timers ?x h = Some d" using x [of h] t by simp
        then show ?thesis using i(5) s(3) [of h] t by auto
      qed
      have "fold ?f (cs @ [c]) s = TcpClient_delete c ?x" using False by (simp add: h)
      then show ?thesis using i(2) d [OF i(1) c] b t u by simp
    qed
  qed (use assms in \<open>auto split: option.splits\<close>)
  from this [of "[0..<length (objs s)]"]
  have r: "ev_ok (sweep s)" "\<forall>b. bevs (sweep s) b = (case bevs s b of None \<Rightarrow> None | Some (c, k) \<Rightarrow> if held s c \<or> c \<notin> set [0..<length (objs s)] then Some (c, k) else None)"
    "\<forall>h. timers (sweep s) h = timers s h \<or> timers (sweep s) h = None" "\<forall>h c. timers (sweep s) h = Some c \<longrightarrow> held s c \<or> c \<notin> set [0..<length (objs s)]"
    by (simp_all add: sweep_def lessThan_def atLeastLessThan_def)
  show "ev_ok (sweep s)" by (rule r)
  show "bevs (sweep s) b = (case bevs s b of None \<Rightarrow> None | Some (c, k) \<Rightarrow> if held s c then Some (c, k) else None)"
    using r(2) [rule_format, of b] evD(1) [OF assms, of b] by (cases "bevs s b") auto
  show "timers (sweep s) h = timers s h \<or> timers (sweep s) h = None" by (rule r(3) [rule_format])
  assume "timers (sweep s) h = Some c"
  moreover have "c < length (objs (sweep s))" by (rule evD(5) [OF r(1) calculation])
  ultimately show "held s c" using r(4) by auto
qed


subsection \<open>Connecting\<close>

definition open_bev :: "tcp_sys \<Rightarrow> nat \<Rightarrow> bool" where
  "open_bev s c \<longleftrightarrow> (\<exists>b k. bevs s b = Some (c, k) \<and> k \<noteq> Fresh)"

text \<open>The object's own handles change, no others.\<close>

definition own :: "nat \<Rightarrow> tcp_sys \<Rightarrow> tcp_sys \<Rightarrow> bool" where
  "own c s s' \<longleftrightarrow> (\<forall>b d k. d \<noteq> c \<longrightarrow> (bevs s' b = Some (d, k) \<longleftrightarrow> bevs s b = Some (d, k))) \<and> (\<forall>h d. d \<noteq> c \<longrightarrow> timers s' h = Some d \<longrightarrow> timers s h = Some d)"

lemma own_trans: "own c s s1 \<Longrightarrow> own c s1 s2 \<Longrightarrow> own c s s2"
  by (simp add: own_def)

lemma own_refl: "bevs s' = bevs s \<Longrightarrow> timers s' = timers s \<Longrightarrow> own c s s'"
  by (simp add: own_def)

lemma shut_own: "shut c s s' \<Longrightarrow> own c s s'"
  unfolding own_def
proof (intro conjI allI impI)
  fix b d k assume s: "shut c s s'" and "d \<noteq> c"
  then show "bevs s' b = Some (d, k) \<longleftrightarrow> bevs s b = Some (d, k)" using shutD(1) [OF s, of b] by auto
next
  fix h d assume s: "shut c s s'" and "timers s' h = Some d"
  then show "timers s h = Some d" using shutD(2) [OF s, of h] by auto
qed

lemma ev_made:
  assumes e: "ev_ok s" and c: "c < length (objs s)" "c \<notin> set (tried s)" and h: "h = nextHandle s"
    and o: "objs s' = (objs s)[c := (objs s ! c)\<lparr>tc_timev := Some h, tc_bev := Some (h + 1)\<rparr>]" "bevs s' = (bevs s)(h + 1 \<mapsto> (c, Fresh))"
    and r: "timers s' = timers s \<or> timers s' = (timers s)(h \<mapsto> c)" "nextHandle s' = h + 2" "tried s' = c # tried s"
  shows "ev_ok s'" and "own c s s'" and "\<not> open_bev s' c"
proof -
  have n: "tc_bev (objs s ! c) = None" "tc_timev (objs s ! c) = None" using evD(8) [OF e c] by simp_all
  have b: "bevs s b \<noteq> Some (c, k)" for b k using evD(3) [OF e, of b c k] n by auto
  have t: "timers s h \<noteq> Some c" for h using evD(7) [OF e, of h c] n by auto
  have f: "bevs s (h + 1) = None" "timers s h = None" using evD(2) [OF e, of "h + 1"] evD(6) [OF e, of h] h by (cases "bevs s (h + 1)"; cases "timers s h"; fastforce)+
  show "ev_ok s'"
  proof (rule evI, goal_cases)
    case (1 b' d k)
    then show ?case
    proof (cases "b' = h + 1")
      case False
      then have "bevs s b' = Some (d, k)" using 1 o(2) by simp
      moreover have "d \<noteq> c" using calculation b by blast
      ultimately show ?thesis using evD(1-3) [OF e, of b' d k] o(1) r(2) h by simp
    qed (use o c r in auto)
  next
    case (2 d b')
    then show ?case
    proof (cases "d = c")
      case False
      then obtain k where k: "bevs s b' = Some (d, k)" using 2 o(1) evD(4) [OF e, of d b'] by auto
      then show ?thesis using evD(2) [OF e k] o(2) h by auto
    qed (use o c in auto)
  next
    case (3 h' d)
    then show ?case
    proof (cases "timers s h' = Some d")
      case True
      then have "d \<noteq> c" using t by blast
      then show ?thesis using evD(5-7) [OF e True] o(1) r(2) h by simp
    next
      case False
      then have "h' = h \<and> d = c" using 3 r(1) by (auto split: if_splits)
      then show ?thesis using o(1) c r(2) by simp
    qed
  next
    case (4 d)
    then show ?case using evD(8) [OF e, of d] o(1) r(3) by simp
  qed
  show "own c s s'" using o(2) r(1) f by (auto simp: own_def split: if_splits)
  show "\<not> open_bev s' c" using o(2) b by (auto simp: open_bev_def)
qed


lemma ev_upd_tried:
  assumes e: "ev_ok s" and c: "c \<in> set (tried s)" and f: "\<And>x. tc_bev (f x) = tc_bev x \<and> tc_timev (f x) = tc_timev x"
  shows "ev_ok (upd_obj c f s)"
proof (rule evI, goal_cases)
  case (1 b d k)
  then show ?case using evD(1-3) [OF e, of b d k] f by (auto simp: nth_upd_obj)
next
  case (2 d b)
  then show ?case using evD(4) [OF e, of d b] f by (auto simp: nth_upd_obj split: if_splits)
next
  case (3 h d)
  then show ?case using evD(5-7) [OF e, of h d] f by (auto simp: nth_upd_obj)
next
  case (4 d)
  then show ?case using evD(8) [OF e, of d] c by (auto simp: nth_upd_obj split: if_splits)
qed

lemma ev_rebev:
  assumes e: "ev_ok s" and b: "bevs s b = Some (c, k)"
  shows "ev_ok (s\<lparr>bevs := (bevs s)(b \<mapsto> (c, k'))\<rparr>)"
proof (rule evI, goal_cases)
  case (1 b' d k)
  then show ?case using evD(1-3) [OF e] b by (auto split: if_splits)
next
  case (2 d b')
  then show ?case using evD(4) [OF e, of d b'] b by (auto split: if_splits)
qed (use evD(5-8) [OF e] in auto)

lemma no_open_shut: "shut c s s' \<Longrightarrow> \<not> open_bev s d \<Longrightarrow> \<not> open_bev s' d"
  unfolding open_bev_def by (metis shutD(1) option.distinct(1))

lemma open_bev_cong: "bevs s' = bevs s \<Longrightarrow> open_bev s' d = open_bev s d"
  by (simp add: open_bev_def)

lemma shut_closed:
  assumes "ev_ok s" "c < length (objs s)"
  shows "ev_ok (conn_closed c s)" "shut c s (conn_closed c s)" "\<not> open_bev (conn_closed c s) c" "bevs (conn_closed c s) b \<noteq> Some (c, k)"
proof -
  have f: "bevs (conn_closed c s) = bevs (tc_disConnect c s)" "timers (conn_closed c s) = timers (tc_disConnect c s)" by (simp_all add: conn_closed_def Let_def)
  show "ev_ok (conn_closed c s)" by (simp add: conn_closed_def Let_def ev_tell ev_disConnect assms)
  show "shut c s (conn_closed c s)" using shut_disConnect(1) [OF assms] f by (simp add: shut_def)
  show "\<not> open_bev (conn_closed c s) c" using shut_disConnect(2) [OF assms] f by (simp add: open_bev_def)
  show "bevs (conn_closed c s) b \<noteq> Some (c, k)" using shut_disConnect(2) [OF assms] f by simp
qed

lemma shut_free_timer: "shut c s (free_timer c s)"
  by (auto simp: shut_def free_timer_def split: option.splits)

text \<open>The first call for an object: whatever the calls return, it leaves a bufferevent that can deliver only if it reports success.\<close>

definition first_ok :: "nat \<Rightarrow> tcp_sys \<Rightarrow> c_int \<Rightarrow> tcp_sys \<Rightarrow> bool" where
  "first_ok c s ret s' \<longleftrightarrow> ev_ok s' \<and> own c s s' \<and> (tcpClientConnMap s' = tcpClientConnMap s \<or> \<not> open_bev s' c) \<and> (ret <s 0 \<longrightarrow> \<not> open_bev s' c)"

text \<open>The object with its timer and bufferevent, before the timer runs.\<close>

definition made :: "nat \<Rightarrow> tcp_sys \<Rightarrow> tcp_sys" where
  "made c s =
     (upd_obj c (\<lambda>x. x\<lparr>tc_bev := Some (nextHandle s + 1)\<rparr>) (upd_obj c (\<lambda>x. x\<lparr>tc_timev := Some (nextHandle s)\<rparr>)
       (s\<lparr>retried := retried s \<or> c \<in> set (tried s), tried := c # tried s, nextHandle := nextHandle s + 2\<rparr>)))\<lparr>bevs := (bevs s)(nextHandle s + 1 \<mapsto> (c, Fresh))\<rparr>"

definition prepared :: "nat \<Rightarrow> tcp_sys \<Rightarrow> tcp_sys" where
  "prepared c s = (made c s)\<lparr>timers := (timers s)(nextHandle s \<mapsto> c)\<rparr>"

lemma made_fields:
  assumes c: "c < length (objs s)"
  shows "objs (made c s) = (objs s)[c := (objs s ! c)\<lparr>tc_timev := Some (nextHandle s), tc_bev := Some (nextHandle s + 1)\<rparr>]" "tried (made c s) = c # tried s"
    "nextHandle (made c s) = nextHandle s + 2" "bevs (made c s) = (bevs s)(nextHandle s + 1 \<mapsto> (c, Fresh))" "timers (made c s) = timers s"
    "tcpClientConnMap (made c s) = tcpClientConnMap s" "second (made c s) = second s"
  using c by (simp_all add: made_def upd_obj_def)

lemma made_ok:
  assumes e: "ev_ok s" and c: "c < length (objs s)" "c \<notin> set (tried s)"
  shows "ev_ok (made c s)" "own c s (made c s)" "\<not> open_bev (made c s) c" "ev_ok (prepared c s)" "own c s (prepared c s)" "\<not> open_bev (prepared c s) c"
  using ev_made [OF e c refl, of "made c s"] ev_made [OF e c refl, of "prepared c s"] made_fields [OF c(1)] by (simp_all add: prepared_def)

lemma no_handles:
  assumes e: "ev_ok s" and c: "c < length (objs s)" "c \<notin> set (tried s)"
  shows "tc_bev (objs s ! c) = None" "tc_timev (objs s ! c) = None" "bevs s b \<noteq> Some (c, k)" "timers s h \<noteq> Some c"
proof -
  show n: "tc_bev (objs s ! c) = None" "tc_timev (objs s ! c) = None" using evD(8) [OF e c] by simp_all
  show "bevs s b \<noteq> Some (c, k)" using evD(3) [OF e, of b c k] n by auto
  show "timers s h \<noteq> Some c" using evD(7) [OF e, of h c] n by auto
qed

text \<open>The ways out before the bufferevent is there.\<close>

lemma connect_unmade:
  assumes e: "ev_ok s" and c: "c < length (objs s)" "c \<notin> set (tried s)"
    and x: "objs x = (objs s)[c := (objs s ! c)\<lparr>tc_timev := v, tc_bev := None\<rparr>]" "bevs x = bevs s" "timers x = timers s" "nextHandle s \<le> nextHandle x" "tried x = c # tried s"
      "tcpClientConnMap x = tcpClientConnMap s"
  shows "first_ok c s ret x"
proof -
  note n = no_handles [OF e c]
  have "ev_ok x"
  proof (rule evI, goal_cases)
    case (1 b d k)
    then have b: "bevs s b = Some (d, k)" "d \<noteq> c" using n x by auto
    then show ?case using evD(1-3) [OF e b(1)] x by simp
  next
    case (2 d b)
    then show ?case using evD(4) [OF e, of d b] x c by (auto simp: nth_list_update split: if_splits)
  next
    case (3 h' d)
    then have t: "timers s h' = Some d" "d \<noteq> c" using n x by auto
    then show ?case using evD(5-7) [OF e t(1)] x by simp
  next
    case (4 d)
    then show ?case using evD(8) [OF e, of d] x by (auto simp: nth_list_update split: if_splits)
  qed
  moreover have "\<not> open_bev x c" using n(3) x by (auto simp: open_bev_def)
  ultimately show ?thesis using x own_refl [of x s] by (simp add: first_ok_def)
qed

lemma connect_freed:
  assumes e: "ev_ok x" and c: "c < length (objs x)" and o: "own c s x" "\<not> open_bev x c"
  shows "first_ok c s ret (free_timer c (x\<lparr>null_free := b\<rparr>))" (is "first_ok c s ret ?s")
proof -
  have x: "ev_ok (x\<lparr>null_free := b\<rparr>)" using e by (rule ev_cong) simp_all
  have "ev_ok ?s" by (rule ev_free_timer [OF x]) (use c in simp)
  moreover have "own c s ?s" using own_trans [OF o(1) own_trans [OF own_refl shut_own [OF shut_free_timer]]] by simp
  moreover have "\<not> open_bev ?s c" using no_open_shut [OF shut_free_timer, of "x\<lparr>null_free := b\<rparr>" c c] o(2) open_bev_cong [of "x\<lparr>null_free := b\<rparr>" x] by simp
  ultimately show ?thesis by (simp add: first_ok_def)
qed

text \<open>The error event comes within \<open>bufferevent_socket_connect\<close>.\<close>

lemma connect_told:
  assumes e: "ev_ok s" and c: "c < length (objs s)" "c \<notin> set (tried s)" and r: "connectServer r c s = (ret, s')" "told r"
    and ok: "\<not> (tc_ipaddr (objs s ! c) = [] \<or> tc_port (objs s ! c) = 0)" "timer_made r" "bev_made r" "\<not> enabled r <s 0"
  shows "first_ok c s ret s'"
proof -
  define s4 where "s4 = conn_closed c (prepared c s)"
  note pr = made_ok(4-6) [OF e c]
  have c3: "c < length (objs (prepared c s))" using c by (simp add: prepared_def made_def)
  have ev4: "TcpClientOnEvent BEV_EVENT_ERROR c (prepared c s) = s4" by (simp add: TcpClientOnEvent_def s4_def)
  note sh = shut_closed [OF pr(1) c3, folded s4_def]
  have own4: "own c s s4" using own_trans [OF pr(2) shut_own [OF sh(2)]] .
  have c4: "c < length (objs s4)" using c3 ev4 length_objs(4) by metis
  have nf4: "null_free s4 = null_free s" "second s4 = second s" by (simp_all add: s4_def prepared_def made_def)
  show ?thesis
  proof (cases "connected r <s 0")
    case True
    then have "s' = free_timer c (s4\<lparr>null_free := null_free s4 \<or> tc_timev (objs s4 ! c) = None\<rparr>)"
      using r ok ev4 nf4 by (simp add: connectServer_def Let_def prepared_def made_def)
    then show ?thesis using connect_freed [OF sh(1) c4 own4 sh(3)] by simp
  next
    case False
    define s5 where "s5 = upd_obj c (\<lambda>x. x\<lparr>tc_lastRecvSecond := second s\<rparr>) s4"
    have e5: "ev_ok s5" unfolding s5_def by (rule ev_upd [OF sh(1)]) simp
    have b5: "bevs s5 b \<noteq> Some (c, k)" for b k using sh(4) by (simp add: s5_def)
    have "c < length (objs s5)" using c4 by (simp add: s5_def)
    then have "tc_bev (objs s5 ! c) = None" using evD(4) [OF e5, of c] b5 by (cases "tc_bev (objs s5 ! c)") blast+
    then have s: "s' = s5" using r ok ev4 nf4 False by (simp add: connectServer_def Let_def s5_def prepared_def made_def)
    have "own c s s5" using own_trans [OF own4 own_refl] by (simp add: s5_def)
    moreover have "\<not> open_bev s5 c" using sh(3) open_bev_cong [of s5 s4] by (simp add: s5_def)
    ultimately show ?thesis using s e5 by (simp add: first_ok_def)
  qed
qed

lemma connect_plain:
  assumes e: "ev_ok s" and c: "c < length (objs s)" "c \<notin> set (tried s)" and r: "connectServer r c s = (ret, s')" "\<not> told r" "gives_fd r"
    and ok: "\<not> (tc_ipaddr (objs s ! c) = [] \<or> tc_port (objs s ! c) = 0)" "timer_made r" "bev_made r" "\<not> enabled r <s 0"
  shows "first_ok c s ret s'"
proof -
  let ?p = "prepared c s" and ?h = "nextHandle s"
  note pr = made_ok(4-6) [OF e c]
  have c3: "c < length (objs ?p)" using c by (simp add: prepared_def made_def)
  show ?thesis
  proof (cases "connected r <s 0")
    case True
    then have "s' = free_timer c (?p\<lparr>null_free := null_free ?p \<or> tc_timev (objs ?p ! c) = None\<rparr>)"
      using r ok by (simp add: connectServer_def Let_def prepared_def made_def)
    then show ?thesis using connect_freed [OF pr(1) c3 pr(2,3)] by simp
  next
    case no: False
    define s4 where "s4 = ?p\<lparr>bevs := (bevs ?p)(?h + 1 \<mapsto> (c, Connecting))\<rparr>"
    define s5 where "s5 = upd_obj c (\<lambda>x. x\<lparr>tc_lastRecvSecond := second s\<rparr>) s4"
    have b3: "bevs ?p (?h + 1) = Some (c, Fresh)" by (simp add: prepared_def made_def)
    have e4: "ev_ok s4" unfolding s4_def by (rule ev_rebev [OF pr(1) b3])
    have e5: "ev_ok s5" unfolding s5_def by (rule ev_upd [OF e4]) simp
    have "tc_bev (objs s5 ! c) = Some (?h + 1)" using evD(3) [OF e5, of "?h + 1" c Connecting] by (simp add: s5_def s4_def)
    then have s: "s' = upd_obj c (\<lambda>x. x\<lparr>tc_sockfd := fd_given r\<rparr>) s5 \<and> ret = fd_given r"
      using r ok no by (auto simp: connectServer_def Let_def s5_def s4_def prepared_def made_def)
    have "c \<in> set (tried s5)" by (simp add: s5_def s4_def prepared_def made_def)
    then have "ev_ok s'" using ev_upd_tried [OF e5, of c "\<lambda>x. x\<lparr>tc_sockfd := fd_given r\<rparr>"] s by simp
    moreover have "own c ?p s'" using s b3 by (auto simp: own_def s5_def s4_def)
    then have "own c s s'" using own_trans [OF pr(2)] by blast
    moreover have "tcpClientConnMap s' = tcpClientConnMap s" using s by (simp add: s5_def s4_def prepared_def made_def)
    ultimately show ?thesis using s r(3) no by (simp add: gives_fd_def first_ok_def)
  qed
qed

lemma connectServer_first:
  assumes e: "ev_ok s" and c: "c < length (objs s)" "c \<notin> set (tried s)" and r: "connectServer r c s = (ret, s')" "gives_fd r"
  shows "ev_ok s' \<and> own c s s' \<and> (tcpClientConnMap s' = tcpClientConnMap s \<or> \<not> open_bev s' c) \<and> (ret <s 0 \<longrightarrow> \<not> open_bev s' c)"
proof -
  have n: "(objs s ! c)\<lparr>tc_timev := None, tc_bev := None\<rparr> = objs s ! c" using no_handles(1,2) [OF e c] by (cases "objs s ! c") simp
  consider (args) "tc_ipaddr (objs s ! c) = [] \<or> tc_port (objs s ! c) = 0"
    | (timer) "\<not> (tc_ipaddr (objs s ! c) = [] \<or> tc_port (objs s ! c) = 0)" "\<not> timer_made r"
    | (bev) "\<not> (tc_ipaddr (objs s ! c) = [] \<or> tc_port (objs s ! c) = 0)" "timer_made r" "\<not> bev_made r"
    | (enable) "\<not> (tc_ipaddr (objs s ! c) = [] \<or> tc_port (objs s ! c) = 0)" "timer_made r" "bev_made r" "enabled r <s 0"
    | (rest) "\<not> (tc_ipaddr (objs s ! c) = [] \<or> tc_port (objs s ! c) = 0)" "timer_made r" "bev_made r" "\<not> enabled r <s 0" by blast
  then have "first_ok c s ret s'"
  proof cases
    case args
    then show ?thesis using r(1) n by (intro connect_unmade [OF e c, where v = None]) (auto simp: connectServer_def Let_def)
  next
    case timer
    have "(objs s ! c)\<lparr>tc_timev := None\<rparr> = objs s ! c" using n by (cases "objs s ! c") simp
    then show ?thesis using timer r(1) n by (intro connect_unmade [OF e c, where v = None]) (auto simp: connectServer_def Let_def upd_obj_def)
  next
    case bev
    then show ?thesis using r(1) c by (intro connect_unmade [OF e c, where v = "Some (nextHandle s)"]) (auto simp: connectServer_def Let_def upd_obj_def)
  next
    case enable
    then have "s' = made c s" using r(1) by (simp add: connectServer_def Let_def made_def)
    then show ?thesis using made_ok [OF e c] made_fields [OF c(1)] by (simp add: first_ok_def)
  next
    case rest
    then show ?thesis using connect_told [OF e c r(1) _ rest] connect_plain [OF e c r(1) _ r(2) rest] by blast
  qed
  then show ?thesis by (simp add: first_ok_def)
qed

end
