(* ===== verification/TcpMessages.thy ===== *)
theory TcpMessages
  imports TcpHandles "HOL-Library.Sublist"
begin

text \<open>
  Messages and objects of the TCP client: messages are written in the order in which they were accepted, and a callback of libevent finds its object alive.
\<close>

section \<open>The invariant\<close>

fun ending :: "tcp_call \<Rightarrow> nat option" where
  "ending (Disc_wake k c) = Some c"
| "ending (Disc_report k c) = Some c"
| "ending _ = None"

definition queue_of :: "tcp_sys \<Rightarrow> nat \<Rightarrow> OrderNode list" where
  "queue_of s c = orderQs s ! fst (shape s ! c)"

text \<open>An order to close is in the queue, behind the one to open if that is still there.\<close>

definition closing :: "tcp_sys \<Rightarrow> nat \<Rightarrow> bool" where
  "closing s c \<longleftrightarrow> (if c \<in> set (tried s) then 1 else 2) \<le> count_list (queue_of s c) (c, [])"

definition active :: "tcp_sys \<Rightarrow> nat \<Rightarrow> bool" where
  "active s c \<longleftrightarrow> c \<notin> set (tried s) \<or> open_bev s c"

definition listed :: "tcp_sys \<Rightarrow> nat \<Rightarrow> bool" where
  "listed s c \<longleftrightarrow> c \<in> snd ` set (tcpClientConnMap s)"

definition adding :: "tcp_sys \<Rightarrow> nat \<Rightarrow> bool" where
  "adding s c \<longleftrightarrow> (\<exists>k \<in> set (tcalls s). adding_of k = Some c)"

definition live_ok :: "tcp_sys \<Rightarrow> bool" where
  "live_ok s \<longleftrightarrow>
     (\<forall>c < length (objs s). active s c \<longrightarrow> listed s c \<or> adding s c \<or> closing s c) \<and>
     (\<forall>k \<in> set (tcalls s). \<forall>c. ending k = Some c \<longrightarrow> \<not> active s c \<or> closing s c) \<and>
     (\<forall>t b c. t < length (io_threads s) \<and> io_threads s ! t = In_message b c \<longrightarrow> open_bev s c)"

lemma live_message:
  "live_ok s \<Longrightarrow> t < length (io_threads s) \<Longrightarrow> io_threads s ! t = In_message b c \<Longrightarrow> open_bev s c"
  unfolding live_ok_def by blast

definition mine :: "nat \<Rightarrow> OrderNode list \<Rightarrow> string list" where
  "mine c es = map snd (filter (\<lambda>e. fst e = c) es)"

definition has_bev :: "tcp_sys \<Rightarrow> nat \<Rightarrow> bool" where
  "has_bev s c \<longleftrightarrow> (\<exists>b k. bevs s b = Some (c, k))"

text \<open>
  What was written is the beginning of what was accepted, after the order to open; while there is a bufferevent, the rest is in
  the queue.
\<close>

definition text_at :: "tcp_sys \<Rightarrow> nat \<Rightarrow> bool" where
  "text_at s c \<longleftrightarrow>
     (\<exists>ms. mine c (posted s) = [] # ms) \<and> prefix (mine c (wrote s)) (tl (mine c (posted s))) \<and>
     (c \<notin> set (tried s) \<longrightarrow> mine c (wrote s) = [] \<and> \<not> has_bev s c \<and> (released s \<or> mine c (queue_of s c) = mine c (posted s))) \<and>
     (c \<in> set (tried s) \<longrightarrow> released s \<or> \<not> has_bev s c \<or> mine c (posted s) = [] # mine c (wrote s) @ mine c (queue_of s c))"

definition text_ok :: "tcp_sys \<Rightarrow> bool" where
  "text_ok s \<longleftrightarrow> (\<forall>c < length (objs s). text_at s c)"

definition over_ok :: "tcp_sys \<Rightarrow> bool" where
  "over_ok s \<longleftrightarrow> (released s \<longrightarrow> set (io_threads s) \<subseteq> {Ended} \<and> (\<forall>q \<in> set (orderQs s). q = []))"

definition msg_ok :: "tcp_sys \<Rightarrow> bool" where
  "msg_ok s \<longleftrightarrow> (\<forall>t b c. t < length (io_threads s) \<and> io_threads s ! t = In_message b c \<longrightarrow> c < length (objs s) \<and> fst (shape s ! c) = t)"

definition pre_ok :: "tcp_sys \<Rightarrow> bool" where
  "pre_ok s \<longleftrightarrow> ev_ok s \<and> text_ok s \<and> over_ok s \<and> msg_ok s \<and> (stale s \<longrightarrow> clash s) \<and> (clash s \<or> released s \<or> live_ok s)"

definition held_ok :: "tcp_sys \<Rightarrow> bool" where
  "held_ok s \<longleftrightarrow> (\<forall>b c k. bevs s b = Some (c, k) \<longrightarrow> held s c) \<and> (\<forall>h c. timers s h = Some c \<longrightarrow> held s c)"

definition core_ok :: "tcp_sys \<Rightarrow> bool" where
  "core_ok s \<longleftrightarrow> pre_ok s \<and> held_ok s"

lemma mine_append [simp]: "mine c (es @ fs) = mine c es @ mine c fs"
  by (simp add: mine_def)

lemma mine_simps [simp]: "mine c [] = []" "mine c ((d, m) # es) = (if d = c then m # mine c es else mine c es)"
  by (simp_all add: mine_def)

lemma queue_held: "wf s \<Longrightarrow> c < length (objs s) \<Longrightarrow> e \<in> set (queue_of s c) \<Longrightarrow> held s (fst e)"
proof -
  assume w: "wf s" "c < length (objs s)" "e \<in> set (queue_of s c)"
  have "fst (shape s ! c) < length (orderQs s)" using wf_index [OF w(1,2)] w by (simp add: wf_def shape_nth)
  then have "queue_of s c \<in> set (orderQs s)" by (simp add: queue_of_def)
  then show ?thesis using w(3) by (auto simp: held_def)
qed

lemma adding_holds: "adding_of k = Some c \<Longrightarrow> holds_obj k = Some c"
  by (cases k) auto

lemma active_held: "wf s \<Longrightarrow> c < length (objs s) \<Longrightarrow> listed s c \<or> adding s c \<or> closing s c \<Longrightarrow> held s c"
proof -
  assume w: "wf s" "c < length (objs s)" "listed s c \<or> adding s c \<or> closing s c"
  have "closing s c \<Longrightarrow> (c, []) \<in> set (queue_of s c)" by (rule ccontr) (auto simp: closing_def split: if_splits)
  moreover have "adding s c \<Longrightarrow> held s c" by (auto simp: adding_def held_def dest!: adding_holds intro: rev_image_eqI)
  ultimately show ?thesis using w queue_held [OF w(1,2), of "(c, [])"] by (auto simp: listed_def held_def)
qed

text \<open>After the sweep, every handle belongs to an object that is held.\<close>

lemma sweep_core:
  assumes w: "wf s" and p: "pre_ok s"
  shows "core_ok (sweep s)"
proof -
  have e: "ev_ok s" using p by (simp add: pre_ok_def)
  note sw = sweep_handles [OF e]
  have h: "held (sweep s) c = held s c" for c by (rule held_fields) simp_all
  have b: "bevs (sweep s) b = Some (c, k) \<longleftrightarrow> bevs s b = Some (c, k) \<and> held s c" for b c k using sw(2) [of b] by (auto split: option.splits if_splits)
  have q: "queue_of (sweep s) c = queue_of s c" "listed (sweep s) c = listed s c" "adding (sweep s) c = adding s c" "closing (sweep s) c = closing s c" for c
    by (simp_all add: queue_of_def listed_def adding_def closing_def)
  have hb: "has_bev (sweep s) c \<longleftrightarrow> has_bev s c \<and> held s c" "open_bev (sweep s) c \<longleftrightarrow> open_bev s c \<and> held s c" for c by (auto simp: has_bev_def open_bev_def b)
  have act: "active (sweep s) c \<Longrightarrow> active s c" for c by (auto simp: active_def hb)
  have "text_ok (sweep s)" using p by (auto simp: pre_ok_def text_ok_def text_at_def hb q)
  moreover have "live_ok (sweep s)" if l: "live_ok s"
    unfolding live_ok_def
  proof (intro conjI allI impI ballI)
    fix c assume "c < length (objs (sweep s))" "active (sweep s) c"
    then show "listed (sweep s) c \<or> adding (sweep s) c \<or> closing (sweep s) c" using l act by (simp add: live_ok_def q)
  next
    fix k c assume "k \<in> set (tcalls (sweep s))" "ending k = Some c"
    then show "\<not> active (sweep s) c \<or> closing (sweep s) c" using l act by (auto simp: live_ok_def q)
  next
    fix t b c assume "t < length (io_threads (sweep s)) \<and> io_threads (sweep s) ! t = In_message b c"
    then have t: "t < length (io_threads s)" "io_threads s ! t = In_message b c" by simp_all
    then have m: "c < length (objs s)" "open_bev s c" using p live_message [OF l] by (auto simp: pre_ok_def msg_ok_def)
    have "held s c" by (rule active_held [OF w m(1)]) (use l m in \<open>simp add: live_ok_def active_def\<close>)
    then show "open_bev (sweep s) c" using m by (simp add: hb)
  qed
  moreover have "held_ok (sweep s)" using sw(4) by (auto simp: held_ok_def b h)
  ultimately show ?thesis using p sw(1) by (auto simp: core_ok_def pre_ok_def over_ok_def msg_ok_def)
qed


section \<open>Steps\<close>

lemma queue_cong: "orderQs s' = orderQs s \<Longrightarrow> shape s' = shape s \<Longrightarrow> queue_of s' = queue_of s"
  by (simp add: fun_eq_iff queue_of_def)

lemma closing_cong: "queue_of s' c = queue_of s c \<Longrightarrow> set (tried s') = set (tried s) \<Longrightarrow> closing s' c = closing s c"
  by (simp add: closing_def)

text \<open>
  Something happens to one connection: its handles may go or change their state, and its entry may leave the table, if it can deliver no more or
  is about to be closed.
\<close>

lemma pre_own:
  assumes p: "pre_ok s" and w: "wf s" and u: "uniq s" and c: "c < length (objs s)"
    and e: "ev_ok s'" and o: "own c s s'" and hb: "has_bev s' c \<Longrightarrow> has_bev s c" and ob: "open_bev s' c \<Longrightarrow> open_bev s c"
    and f: "shape s' = shape s" "set (tried s') = set (tried s)" "posted s' = posted s" "wrote s' = wrote s" "orderQs s' = orderQs s" "tcalls s' = tcalls s"
      "released s' = released s" "clash s' = clash s"
    and st: "stale s' \<Longrightarrow> stale s \<or> clash s"
    and th: "io_threads s' = io_threads s \<or> io_threads s' = (io_threads s)[fst (shape s ! c) := pt] \<and> io_threads s ! fst (shape s ! c) \<noteq> Ended \<and>
      (pt = Idle \<or> (\<exists>b. pt = In_message b c) \<and> open_bev s' c)"
    and m: "set (tcpClientConnMap s') = set (tcpClientConnMap s) \<or>
      set (tcpClientConnMap s') = {e \<in> set (tcpClientConnMap s). fst e \<noteq> snd (shape s ! c)} \<and> (clash s \<or> released s \<or> \<not> active s' c \<or> closing s c)"
    and im: "(\<exists>b d. io_threads s' ! fst (shape s ! c) = In_message b d) \<Longrightarrow> open_bev s c \<Longrightarrow> open_bev s' c"
  shows "pre_ok s'"
proof -
  have len: "length (objs s') = length (objs s)" using f(1) length_shape by metis
  have q: "queue_of s' = queue_of s" by (rule queue_cong [OF f(5,1)])
  have ot: "has_bev s' d = has_bev s d" "open_bev s' d = open_bev s d" if "d \<noteq> c" for d using o that by (simp_all add: own_def has_bev_def open_bev_def)
  have hb': "has_bev s' d \<Longrightarrow> has_bev s d" "open_bev s' d \<Longrightarrow> open_bev s d" for d using ot hb ob by (cases "d = c"; blast)+
  have cl: "closing s' d = closing s d" for d using q f(2) by (simp add: closing_def)
  have act: "active s' d \<Longrightarrow> active s d" for d using hb' f(2) by (auto simp: active_def)
  have ad: "adding s' = adding s" using f by (simp add: fun_eq_iff adding_def)
  have tl: "length (io_threads s') = length (io_threads s)" using th by auto
  have "text_at s' d" if "text_at s d" for d using that hb'(1) [of d] by (auto simp: text_at_def q f)
  then have "text_ok s'" using p len by (simp add: pre_ok_def text_ok_def)
  moreover have "over_ok s'"
    unfolding over_ok_def
  proof
    assume "released s'"
    then have r: "set (io_threads s) \<subseteq> {Ended}" "\<forall>q \<in> set (orderQs s). q = []" using p f by (simp_all add: pre_ok_def over_ok_def)
    have "fst (shape s ! c) < length (io_threads s)" using wf_index [OF w c] by (simp add: shape_nth c)
    then have "io_threads s ! fst (shape s ! c) = Ended" using r(1) nth_mem by blast
    then show "set (io_threads s') \<subseteq> {Ended} \<and> (\<forall>q \<in> set (orderQs s'). q = [])" using th r f by auto
  qed
  moreover have tm: "d < length (objs s) \<and> fst (shape s ! d) = t \<and> (d = c \<and> open_bev s' c \<or> io_threads s ! t = In_message b d)"
    if a: "t < length (io_threads s')" "io_threads s' ! t = In_message b d" for t b d
  proof -
    have mo: "msg_ok s" using p by (simp add: pre_ok_def)
    have "io_threads s ! t = In_message b d \<or> t = fst (shape s ! c) \<and> pt = In_message b d" using th a tl by (cases "t = fst (shape s ! c)") auto
    then show ?thesis using mo th a tl c unfolding msg_ok_def by auto
  qed
  then have "msg_ok s'" using len f(1) by (auto simp: msg_ok_def)
  moreover have "live_ok s'" if l: "live_ok s" and nc: "\<not> clash s" "\<not> released s"
    unfolding live_ok_def
  proof (intro conjI allI impI ballI)
    fix d assume d: "d < length (objs s')" "active s' d"
    then have "listed s d \<or> adding s d \<or> closing s d" using l act len by (simp add: live_ok_def)
    moreover have "listed s' d" if "listed s d" "d \<noteq> c"
    proof -
      obtain v where v: "(v, d) \<in> set (tcpClientConnMap s)" using \<open>listed s d\<close> by (auto simp: listed_def)
      then have "snd (shape s ! d) = v" using w by (auto simp: wf_def)
      moreover have "snd (shape s ! d) \<noteq> snd (shape s ! c)" using u nc d len c that(2) by (simp add: uniq_def distinct_conv_nth)
      moreover have "e \<in> set (tcpClientConnMap s')" if "e \<in> set (tcpClientConnMap s)" "fst e \<noteq> snd (shape s ! c)" for e using m that by blast
      ultimately have "(v, d) \<in> set (tcpClientConnMap s')" using v by simp
      then show ?thesis by (force simp: listed_def)
    qed
    moreover have "listed s' c \<or> closing s c" if "listed s c" "d = c" using m that d(2) nc by (auto simp: listed_def)
    ultimately show "listed s' d \<or> adding s' d \<or> closing s' d" using cl ad by metis
  next
    fix k d assume "k \<in> set (tcalls s')" "ending k = Some d"
    then show "\<not> active s' d \<or> closing s' d" using l act cl f by (auto simp: live_ok_def)
  next
    fix t b d assume a: "t < length (io_threads s') \<and> io_threads s' ! t = In_message b d"
    then consider "open_bev s' c" "d = c" | "io_threads s ! t = In_message b d" "fst (shape s ! d) = t" using tm by blast
    then show "open_bev s' d"
    proof cases
      case 2
      then have "open_bev s d" using live_message [OF l] a tl by metis
      then show ?thesis using ot im a 2 by (cases "d = c") auto
    qed simp
  qed
  ultimately show ?thesis using p e f st by (auto simp: pre_ok_def)
qed

text \<open>Steps that leave connections, queues and the table alone.\<close>

lemma core_frame:
  assumes k: "core_ok s" and f: "objs s' = objs s" "bevs s' = bevs s" "timers s' = timers s" "nextHandle s' = nextHandle s" "tried s' = tried s" "posted s' = posted s"
      "wrote s' = wrote s" "orderQs s' = orderQs s" "tcpClientConnMap s' = tcpClientConnMap s" "released s' = released s" "clash s' = clash s" "stale s' = stale s"
    and t: "length (io_threads s') = length (io_threads s)" "\<And>t b c. io_threads s' ! t = In_message b c \<Longrightarrow> io_threads s ! t = In_message b c"
      "set (io_threads s) \<subseteq> {Ended} \<Longrightarrow> set (io_threads s') \<subseteq> {Ended}"
    and cs: "set (tcalls s) \<subseteq> set (tcalls s')" "\<And>k. k \<in> set (tcalls s') \<Longrightarrow> k \<notin> set (tcalls s) \<Longrightarrow> ending k = None"
  shows "core_ok s'"
proof -
  have sh: "shape s' = shape s" using f(1) by (rule shape_cong)
  have q: "queue_of s' = queue_of s" by (rule queue_cong [OF f(8) sh])
  have eq: "has_bev s' = has_bev s" "open_bev s' = open_bev s" "closing s' = closing s" "active s' = active s" "listed s' = listed s"
    using f q by (simp_all add: fun_eq_iff has_bev_def open_bev_def closing_def active_def listed_def)
  have ad: "adding s c \<Longrightarrow> adding s' c" for c using cs(1) by (auto simp: adding_def)
  have h: "held s c \<Longrightarrow> held s' c" for c using cs(1) f by (auto simp: held_def)
  have p: "pre_ok s" "held_ok s" using k by (simp_all add: core_ok_def)
  have "ev_ok s'" using p(1) f by (intro ev_cong [of s s']) (simp_all add: pre_ok_def)
  moreover have "text_ok s'" using p(1) by (simp add: pre_ok_def text_ok_def text_at_def eq q f)
  moreover have "over_ok s'" using p(1) t(3) unfolding pre_ok_def over_ok_def f by blast
  moreover have "msg_ok s'" using p(1) t(1,2) unfolding pre_ok_def msg_ok_def f sh by metis
  moreover have "live_ok s'" if l: "live_ok s"
    unfolding live_ok_def eq f sh
  proof (intro conjI allI impI ballI)
    fix c assume "c < length (objs s)" "active s c"
    then show "listed s c \<or> adding s' c \<or> closing s c" using l ad by (auto simp: live_ok_def)
  next
    fix k c assume k: "k \<in> set (tcalls s')" "ending k = Some c"
    then have "k \<in> set (tcalls s)" using cs(2) by force
    then show "\<not> active s c \<or> closing s c" using l k by (auto simp: live_ok_def)
  next
    fix t b c assume "t < length (io_threads s') \<and> io_threads s' ! t = In_message b c"
    then show "open_bev s c" using live_message [OF l] t by metis
  qed
  moreover have "held_ok s'" using p(2) h by (auto simp: held_ok_def f)
  ultimately show ?thesis using p(1) by (auto simp: core_ok_def pre_ok_def f)
qed

lemma calls_frame:
  "queue_of (s\<lparr>tcalls := cs\<rparr>) = queue_of s" "closing (s\<lparr>tcalls := cs\<rparr>) = closing s" "active (s\<lparr>tcalls := cs\<rparr>) = active s" "listed (s\<lparr>tcalls := cs\<rparr>) = listed s"
  "has_bev (s\<lparr>tcalls := cs\<rparr>) = has_bev s" "open_bev (s\<lparr>tcalls := cs\<rparr>) = open_bev s"
  by (simp_all add: fun_eq_iff queue_of_def closing_def active_def listed_def has_bev_def open_bev_def)

text \<open>A call goes on.\<close>

lemma pre_turn:
  assumes p: "pre_ok s" and i: "i < length (tcalls s)"
    and a: "\<And>c. adding_of (tcalls s ! i) = Some c \<Longrightarrow> adding_of k = Some c \<or> clash s \<or> released s \<or> listed s c"
    and e: "\<And>c. ending k = Some c \<Longrightarrow> ending (tcalls s ! i) = Some c \<or> clash s \<or> released s \<or> \<not> active s c \<or> closing s c"
  shows "pre_ok (s\<lparr>tcalls := (tcalls s)[i := k]\<rparr>)" (is "pre_ok ?s")
proof -
  have "ev_ok ?s" using p by (intro ev_cong [of s ?s]) (simp_all add: pre_ok_def)
  moreover have "text_ok ?s" using p by (simp add: pre_ok_def text_ok_def text_at_def calls_frame)
  moreover have "over_ok ?s" "msg_ok ?s" using p by (simp_all add: pre_ok_def over_ok_def msg_ok_def)
  moreover have "live_ok ?s" if l: "live_ok s" and n: "\<not> clash s" "\<not> released s"
    unfolding live_ok_def calls_frame
  proof (intro conjI allI impI ballI)
    fix c assume c: "c < length (objs ?s)" "active s c"
    have "adding ?s c \<or> listed s c" if ad: "adding s c"
    proof -
      obtain k' where k': "k' \<in> set (tcalls s)" "adding_of k' = Some c" using ad by (auto simp: adding_def)
      show ?thesis
      proof (cases "k' = tcalls s ! i")
        case True
        then show ?thesis using a [of c] k' n i by (auto simp: adding_def intro: bexI [of _ k] set_update_memI)
      next
        case False
        then have "k' \<in> set ((tcalls s)[i := k])" using k'(1) by (metis in_set_conv_nth length_list_update nth_list_update_neq)
        then show ?thesis using k'(2) by (auto simp: adding_def)
      qed
    qed
    then show "listed s c \<or> adding ?s c \<or> closing s c" using l c by (auto simp: live_ok_def)
  next
    fix k' c assume k': "k' \<in> set (tcalls ?s)" "ending k' = Some c"
    then have "k' \<in> insert k (set (tcalls s))" using set_update_subset_insert by fastforce
    then show "\<not> active s c \<or> closing s c" using l e [of c] k'(2) n nth_mem [OF i] by (auto simp: live_ok_def)
  next
    fix t b c assume "t < length (io_threads ?s) \<and> io_threads ?s ! t = In_message b c"
    then show "open_bev s c" using live_message [OF l, of t b c] by simp
  qed
  ultimately show ?thesis using p by (auto simp: pre_ok_def)
qed

text \<open>An order is inserted.\<close>

lemma text_post:
  assumes "text_at s c" and "posted s' = posted s @ [(c, m)]" "wrote s' = wrote s" "tried s' = tried s" "has_bev s' c = has_bev s c" "queue_of s' c = queue_of s c @ [(c, m)]" "released s' = released s"
  shows "text_at s' c"
proof -
  obtain ms where ms: "mine c (posted s) = [] # ms" using assms(1) by (auto simp: text_at_def)
  have "prefix (mine c (wrote s)) ms" using assms(1) ms by (simp add: text_at_def)
  then have "prefix (mine c (wrote s)) (ms @ [m])" by (rule prefix_prefix) 
  then show ?thesis using assms ms by (auto simp: text_at_def)
qed

lemma pre_post:
  assumes p: "pre_ok s" and w: "wf s" and c: "c < length (objs s)" and nr: "\<not> released s"
  shows "pre_ok (libeventIoOrder (c, m) s)" and "m = [] \<Longrightarrow> closing (libeventIoOrder (c, m) s) c"
proof -
  let ?s = "libeventIoOrder (c, m) s"
  let ?t = "tc_ioIndex (objs s ! c)"
  have t: "?t < length (orderQs s)" "fst (shape s ! c) = ?t" using wf_index [OF w c] w c by (simp_all add: wf_def shape_nth)
  have q: "queue_of ?s c = queue_of s c @ [(c, m)]" using t by (simp add: queue_of_def libeventIoOrder_def orderNodeInsert_def Let_def)
  have q': "queue_of ?s d = queue_of s d \<or> queue_of ?s d = queue_of s d @ [(c, m)]" for d
    using t by (cases "fst (shape s ! d) = ?t") (simp_all add: queue_of_def libeventIoOrder_def orderNodeInsert_def Let_def)
  have f: "objs ?s = objs s" "bevs ?s = bevs s" "timers ?s = timers s" "nextHandle ?s = nextHandle s" "tried ?s = tried s" "posted ?s = posted s @ [(c, m)]" "wrote ?s = wrote s"
    "tcpClientConnMap ?s = tcpClientConnMap s" "released ?s = released s" "clash ?s = clash s" "stale ?s = stale s" "io_threads ?s = io_threads s" "tcalls ?s = tcalls s" "shape ?s = shape s"
    by (simp_all add: libeventIoOrder_def Let_def)
  have eq: "has_bev ?s = has_bev s" "open_bev ?s = open_bev s" "active ?s = active s" "listed ?s = listed s" "adding ?s = adding s"
    using f by (simp_all add: fun_eq_iff has_bev_def open_bev_def active_def listed_def adding_def)
  have cl: "closing s d \<Longrightarrow> closing ?s d" for d using q' [of d] f(5) by (auto simp: closing_def split: if_splits)
  have tx: "text_at s d" if "d < length (objs s)" for d using p that by (simp add: pre_ok_def text_ok_def)
  have "text_at ?s d" if d: "d < length (objs s)" for d
  proof (cases "d = c")
    case True
    then show ?thesis using text_post [OF tx [OF c], of ?s m] f q eq by simp
  next
    case False
    then have "mine d (queue_of ?s d) = mine d (queue_of s d)" using q' [of d] by auto
    then show ?thesis using tx [OF d] f False by (simp add: text_at_def eq)
  qed
  then have "text_ok ?s" using f by (simp add: text_ok_def)
  moreover have "ev_ok ?s" using p f by (intro ev_cong [of s ?s]) (simp_all add: pre_ok_def)
  moreover have "over_ok ?s" using nr f by (simp add: over_ok_def)
  moreover have "msg_ok ?s" using p f by (simp add: pre_ok_def msg_ok_def)
  moreover have "live_ok ?s" if l: "live_ok s" using l cl unfolding live_ok_def eq f by blast
  ultimately show "pre_ok ?s" using p f by (auto simp: pre_ok_def)
  assume m: "m = []"
  have "(c, []) \<in> set (queue_of s c)" if "c \<notin> set (tried s)"
  proof -
    have "\<exists>ms. mine c (queue_of s c) = [] # ms" using tx [OF c] that nr by (auto simp: text_at_def)
    then have "[] \<in> set (mine c (queue_of s c))" by auto
    then show ?thesis by (auto simp: mine_def)
  qed
  then have "c \<notin> set (tried s) \<Longrightarrow> 0 < count_list (queue_of s c) (c, [])" by (simp add: count_list_0_iff zero_less_iff_neq_zero)
  then show "closing ?s c" using q f(5) m by (auto simp: closing_def)
qed


text \<open>A connection is made. It is alive as long as the call that makes it.\<close>

lemma mine_none: "(\<And>e. e \<in> set es \<Longrightarrow> fst e < n) \<Longrightarrow> mine n es = []"
  by (fastforce simp: mine_def filter_empty_conv)

lemma ev_fresh:
  assumes e: "ev_ok s" and t: "length (objs s) \<notin> set (tried s)"
    and f: "objs s' = objs s @ [TcpClient_new a b p d v u x y]" "bevs s' = bevs s" "timers s' = timers s" "nextHandle s' = nextHandle s" "tried s' = tried s"
  shows "ev_ok s'"
proof (rule evI, goal_cases)
  case (1 b d k)
  then show ?case using evD(1-3) [OF e, of b d k] f by (simp add: nth_append)
next
  case (2 d b)
  then show ?case using evD(4) [OF e, of d b] f by (auto simp: nth_append TcpClient_new_def split: if_splits)
next
  case (3 h d)
  then show ?case using evD(5-7) [OF e, of h d] f by (simp add: nth_append)
next
  case (4 d)
  then show ?case using evD(8) [OF e, of d] f by (auto simp: nth_append TcpClient_new_def split: if_splits)
qed

lemma pre_new:
  assumes p: "pre_ok s" and w: "wf s" and io: "0 < length (io_threads s)" and nr: "\<not> released s"
    and s': "s' = new_connection lt ipaddr port priv dataOut connOut s" and i: "i < length (tcalls s)" "tcalls s ! i = Adding a1 a2 a3 a4 a5"
  shows "pre_ok (s'\<lparr>tcalls := (tcalls s)[i := Add_wake (length (objs s))]\<rparr>)" (is "pre_ok ?s")
proof -
  let ?n = "length (objs s)"
  define t where "t = unat (lastIndex s mod word_of_nat (length (io_threads s)))"
  obtain u tail where u: "uniqueNumId (lt (second s)) (uniquId s) (uniqueTail s) = (u, tail)" by force
  let ?x = "TcpClient_new t u ipaddr port priv dataOut connOut (second s)"
  have f: "objs ?s = objs s @ [?x]" "bevs ?s = bevs s" "timers ?s = timers s" "nextHandle ?s = nextHandle s" "tried ?s = tried s" "posted ?s = posted s @ [(?n, [])]" "wrote ?s = wrote s"
    "tcpClientConnMap ?s = tcpClientConnMap s" "released ?s = released s" "clash s \<Longrightarrow> clash ?s" "stale ?s = stale s" "io_threads ?s = io_threads s"
    "orderQs ?s = (orderQs s)[t := orderQs s ! t @ [(?n, [])]]"
    by (simp_all add: s' new_connection_def u Let_def libeventIoOrder_def orderNodeInsert_def TcpClient_new_def flip: t_def)
  have sh: "shape s' = shape s @ [(t, u)]" using f(1) by (simp add: shape_def TcpClient_new_def)
  have wn: "wf s'" "length (objs s') = ?n + 1" using wf_new_connection [OF w io] s' by simp_all
  have t: "t < length (orderQs s)"
  proof -
    have "(t, u) \<in> set (shape s')" unfolding sh by simp
    moreover have "length (orderQs s) = length (io_threads s)" "io_threads s' = io_threads s" using w f(12) by (simp_all add: wf_def)
    ultimately show ?thesis using wn(1) by (auto simp: wf_def)
  qed
  have nt: "?n \<notin> set (tried s)" using w by (auto simp: wf_def)
  have qo: "queue_of ?s d = queue_of s d \<or> queue_of ?s d = queue_of s d @ [(?n, [])]" if "d < ?n" for d
    using t that by (cases "fst (shape s ! d) = t") (simp_all add: queue_of_def f sh nth_append)
  have qn: "queue_of ?s ?n = orderQs s ! t @ [(?n, [])]" using t by (simp add: queue_of_def f sh nth_append)
  have eq: "has_bev ?s = has_bev s" "open_bev ?s = open_bev s" "active ?s = active s" "listed ?s = listed s"
    using f by (simp_all add: fun_eq_iff has_bev_def open_bev_def active_def listed_def)
  have cl: "closing ?s d = closing s d" if "d < ?n" for d using qo [OF that] f(5) that by (auto simp: closing_def)
  have old: "k \<in> set ((tcalls s)[i := k'])" if "k \<in> set (tcalls s)" "adding_of k \<noteq> None" for k k'
    using that i by (metis adding_of.simps(3) in_set_conv_nth length_list_update nth_list_update_neq)
  have "text_at ?s d" if d: "d < ?n + 1" for d
  proof (cases "d = ?n")
    case True
    have "\<forall>e \<in> set (posted s) \<union> set (wrote s). fst e < ?n" "\<forall>e \<in> set (orderQs s ! t). fst e < ?n" using w t by (simp_all add: wf_def)
    then have "mine ?n (posted s) = []" "mine ?n (wrote s) = []" "mine ?n (orderQs s ! t) = []" by (auto intro: mine_none)
    moreover have "\<not> has_bev s ?n" using p evD(1) by (auto simp: pre_ok_def has_bev_def)
    ultimately show ?thesis using True f nt by (auto simp: text_at_def qn eq)
  next
    case False
    then have "d < ?n" using d by simp
    then show ?thesis using p f False qo [of d] by (auto simp: pre_ok_def text_ok_def text_at_def eq)
  qed
  then have "text_ok ?s" using f by (simp add: text_ok_def)
  moreover have "ev_ok ?s" using p nt f by (intro ev_fresh [of s ?s]) (simp_all add: pre_ok_def)
  moreover have "over_ok ?s" using nr f by (simp add: over_ok_def)
  moreover have "msg_ok ?s"
    unfolding msg_ok_def
  proof (intro allI impI)
    fix t' b c assume "t' < length (io_threads ?s) \<and> io_threads ?s ! t' = In_message b c"
    then have "c < ?n \<and> fst (shape s ! c) = t'" using p f(12) by (simp add: pre_ok_def msg_ok_def)
    then show "c < length (objs ?s) \<and> fst (shape ?s ! c) = t'" by (simp add: f(1) sh nth_append)
  qed
  moreover have "live_ok ?s" if l: "live_ok s"
    unfolding live_ok_def eq
  proof (intro conjI allI impI ballI)
    fix c assume c: "c < length (objs ?s)" "active s c"
    show "listed s c \<or> adding ?s c \<or> closing ?s c"
    proof (cases "c = ?n")
      case True
      have "Add_wake ?n \<in> set (tcalls ?s)" using i by (simp add: set_update_memI)
      then have "adding ?s c" unfolding adding_def using True by (intro bexI [of _ "Add_wake ?n"]) simp_all
      then show ?thesis by simp
    next
      case False
      then have "c < ?n" using c f by simp
      moreover have "adding s c \<Longrightarrow> adding ?s c" using old by (fastforce simp: adding_def)
      ultimately show ?thesis using l c cl by (auto simp: live_ok_def)
    qed
  next
    fix k c assume k: "k \<in> set (tcalls ?s)" "ending k = Some c"
    then have "k \<in> set (tcalls s)" using set_update_subset_insert [of "tcalls s" i "Add_wake ?n"] by auto
    moreover have "c < ?n" using wf_holds [OF w calculation, of c] k(2) by (cases k) auto
    ultimately show "\<not> active s c \<or> closing ?s c" using l k cl by (auto simp: live_ok_def)
  next
    fix t b c assume "t < length (io_threads ?s) \<and> io_threads ?s ! t = In_message b c"
    then show "open_bev s c" using live_message [OF l, of t b c] f by simp
  qed
  ultimately show ?thesis using p f by (auto simp: pre_ok_def)
qed

text \<open>The table may grow, and what is not seen by the invariant may change.\<close>

lemma pre_fields:
  assumes p: "pre_ok s" and e: "ev_ok s'" and f: "shape s' = shape s" "bevs s' = bevs s" "set (tried s') = set (tried s)" "posted s' = posted s" "wrote s' = wrote s"
      "orderQs s' = orderQs s" "tcalls s' = tcalls s" "released s' = released s" "clash s' = clash s" "stale s' = stale s" "io_threads s' = io_threads s"
    and m: "set (tcpClientConnMap s) \<subseteq> set (tcpClientConnMap s')"
  shows "pre_ok s'"
proof -
  have len: "length (objs s') = length (objs s)" using f(1) length_shape by metis
  have q: "queue_of s' = queue_of s" by (rule queue_cong [OF f(6,1)])
  have eq: "has_bev s' = has_bev s" "open_bev s' = open_bev s" "closing s' = closing s" "active s' = active s" "adding s' = adding s"
    using f q by (simp_all add: fun_eq_iff has_bev_def open_bev_def closing_def active_def adding_def)
  have li: "listed s c \<Longrightarrow> listed s' c" for c using m by (auto simp: listed_def)
  have "text_ok s'" using p by (simp add: pre_ok_def text_ok_def text_at_def eq q f len)
  moreover have "over_ok s'" "msg_ok s'" using p by (simp_all add: pre_ok_def over_ok_def msg_ok_def f len)
  moreover have "live_ok s \<Longrightarrow> live_ok s'" using li unfolding live_ok_def eq f len by blast
  ultimately show ?thesis using p e f by (auto simp: pre_ok_def)
qed

lemma ev_recv: "ev_ok s \<Longrightarrow> ev_ok (snd (setRecvSecond c s))"
  by (simp add: setRecvSecond_def Let_def ev_upd)

lemma pre_recv: "pre_ok s \<Longrightarrow> pre_ok (snd (setRecvSecond c s))"
  by (rule pre_fields [of s]) (simp_all add: pre_ok_def ev_recv)

lemma pre_wakeup: "pre_ok s \<Longrightarrow> pre_ok (libeventIoWakeup c s)"
  by (rule pre_fields [of s]) (auto simp: libeventIoWakeup_def add_counter_def pre_ok_def intro: ev_cong)

lemma pre_priv: "pre_ok s \<Longrightarrow> pre_ok (upd_obj c (\<lambda>x. x\<lparr>tc_priv := p\<rparr>) s)"
  by (rule pre_fields [of s]) (auto simp: pre_ok_def shape_upd intro!: ev_upd)

lemma pre_insert: "pre_ok s \<Longrightarrow> pre_ok (insert_conn c s)"
  by (rule pre_fields [of s]) (auto simp: pre_ok_def insert_conn_def Let_def set_insort_key intro: ev_cong)

lemma listed_insert: "wf s \<Longrightarrow> uniq s \<Longrightarrow> c < length (objs s) \<Longrightarrow> \<not> clash s \<Longrightarrow> listed (insert_conn c s) c"
proof -
  assume a: "wf s" "uniq s" "c < length (objs s)" "\<not> clash s"
  show ?thesis
  proof (cases "map_of (tcpClientConnMap s) (tc_uniqueNum (objs s ! c))")
    case None
    then have "(tc_uniqueNum (objs s ! c), c) \<in> set (tcpClientConnMap (insert_conn c s))" by (simp add: insert_conn_def Let_def set_insort_key)
    then show ?thesis by (force simp: listed_def)
  next
    case (Some d)
    then have d: "d < length (objs s)" "tc_uniqueNum (objs s ! d) = tc_uniqueNum (objs s ! c)" using wf_map [OF a(1)] by blast+
    have "snd (shape s ! d) = snd (shape s ! c)" using d a(3) by (simp add: shape_nth)
    then have "d = c" using a d by (simp add: uniq_def distinct_conv_nth) metis
    then show ?thesis using map_of_SomeD [OF Some] Some by (force simp: listed_def insert_conn_def Let_def)
  qed
qed

lemma tell_map: "c < length (objs s) \<Longrightarrow>
   set (tcpClientConnMap (tell c st s)) = set (tcpClientConnMap s) \<or> st \<noteq> CONN_SUCCESS \<and> set (tcpClientConnMap (tell c st s)) = {e \<in> set (tcpClientConnMap s). fst e \<noteq> snd (shape s ! c)}"
  by (auto simp: tell_def tcpServerConnect_def shape_nth)

definition cut :: "u64 \<Rightarrow> (u64 \<times> nat) set \<Rightarrow> (u64 \<times> nat) set \<Rightarrow> bool" where
  "cut n m m' \<longleftrightarrow> m' = m \<or> m' = {e \<in> m. fst e \<noteq> n}"

lemma cut_tell: "c < length (objs s) \<Longrightarrow> cut (snd (shape s ! c)) (set (tcpClientConnMap s)) (set (tcpClientConnMap (tell c st s)))"
  using tell_map [of c s st] by (auto simp: cut_def)

lemma cut_event: "c < length (objs s) \<Longrightarrow> cut (snd (shape s ! c)) (set (tcpClientConnMap s)) (set (tcpClientConnMap (TcpClientOnEvent e c s)))"
  using cut_tell [of c "tc_disConnect c s"] cut_tell [of c "tcpClieSetconn c s" CONN_SUCCESS] by (simp add: TcpClientOnEvent_def conn_closed_def Let_def)

lemma cut_connectServer: "c < length (objs s) \<Longrightarrow> cut (snd (shape s ! c)) (set (tcpClientConnMap s)) (set (tcpClientConnMap (snd (connectServer r c s))))"
proof -
  assume c: "c < length (objs s)"
  have "cut (snd (shape s ! c)) (set (tcpClientConnMap s)) (set (tcpClientConnMap (TcpClientOnEvent e c x)))"
    if "shape x = shape s" "tcpClientConnMap x = tcpClientConnMap s" for e x
    using cut_event [of c x e] that c length_shape by metis
  then show ?thesis unfolding connectServer_def Let_def
    by (simp add: shape_upd) (simp add: cut_def)
qed

lemma cut_trans: "cut n m m' \<Longrightarrow> cut n m' m'' \<Longrightarrow> cut n m m''"
  by (auto simp: cut_def)

lemma cut_keeps: "cut n m m' \<Longrightarrow> e \<in> m \<Longrightarrow> fst e \<noteq> n \<Longrightarrow> e \<in> m'"
  by (auto simp: cut_def)

lemma running: "pre_ok s \<Longrightarrow> t < length (io_threads s) \<Longrightarrow> io_threads s ! t \<noteq> Ended \<Longrightarrow> \<not> released s"
  using nth_mem [of t "io_threads s"] unfolding pre_ok_def over_ok_def by blast

lemma pre_report:
  assumes p: "pre_ok s" and w: "wf s" and u: "uniq s" and c: "c < length (objs s)" and a: "clash s \<or> released s \<or> \<not> active s c \<or> closing s c"
  shows "pre_ok (tell c st s)"
proof (rule pre_own [OF p w u c])
  have eq: "has_bev (tell c st s) = has_bev s" "open_bev (tell c st s) = open_bev s" "active (tell c st s) = active s"
    by (simp_all add: fun_eq_iff has_bev_def open_bev_def active_def)
  show "ev_ok (tell c st s)" using p by (simp add: pre_ok_def ev_tell)
  show "own c s (tell c st s)" by (rule own_refl) simp_all
  show "set (tcpClientConnMap (tell c st s)) = set (tcpClientConnMap s) \<or>
      set (tcpClientConnMap (tell c st s)) = {e \<in> set (tcpClientConnMap s). fst e \<noteq> snd (shape s ! c)} \<and> (clash s \<or> released s \<or> \<not> active (tell c st s) c \<or> closing s c)"
    using tell_map [OF c, of st] a unfolding eq by blast
  show "has_bev (tell c st s) c \<Longrightarrow> has_bev s c" "open_bev (tell c st s) c \<Longrightarrow> open_bev s c" "open_bev s c \<Longrightarrow> open_bev (tell c st s) c" by (simp_all add: eq)
qed simp_all

lemma ending_finish [simp]: "ending (finish k r) = None" "adding_of (finish k r) = None"
  by (induction k r rule: finish.induct) simp_all

lemma pre_call:
  assumes p: "pre_ok s" and w: "wf s" and u: "uniq s" and i: "i < length (tcalls s)" and st: "call_step lt (tcalls s ! i) s = (k, s')"
  shows "pre_ok (s'\<lparr>tcalls := (tcalls s)[i := k]\<rparr>)"
proof -
  have m: "tcalls s ! i \<in> set (tcalls s)" using i by simp
  have c: "c < length (objs s)" if "holds_obj (tcalls s ! i) = Some c" for c using wf_holds [OF w m that] .
  have turn: "pre_ok (x\<lparr>tcalls := (tcalls s)[i := k]\<rparr>)"
    if "pre_ok x" "tcalls x = tcalls s" "\<And>c. adding_of (tcalls s ! i) = Some c \<Longrightarrow> adding_of k = Some c \<or> clash x \<or> listed x c"
      "\<And>c. ending k = Some c \<Longrightarrow> ending (tcalls s ! i) = Some c \<or> released x \<or> closing x c" for x
    using pre_turn [OF that(1), of i k] that i by auto
  show ?thesis
  proof (cases "tcalls s ! i")
    case (Adding a b q d e)
    show ?thesis
    proof (cases "released s")
      case True
      then have "k = tcalls s ! i" "s' = s" using st Adding by simp_all
      then have "s'\<lparr>tcalls := (tcalls s)[i := k]\<rparr> = s" by simp
      then show ?thesis using p by simp
    next
      case False
      have "0 < length (io_threads s)" using w m Adding unfolding wf_def by blast
      then show ?thesis using pre_new [OF p w _ False _ i Adding, of s' lt a b q d e] st Adding False by auto
    qed
  next
    case (Add_wake c)
    then show ?thesis using st p by (intro turn) (auto simp: pre_wakeup p)
  next
    case (Add_insert c)
    then have "clash s \<or> listed (insert_conn c s) c" using listed_insert [OF w u] c by simp blast
    then show ?thesis using st Add_insert by (intro turn) (auto simp: pre_insert p)
  next
    case (Send_post v c msg)
    let ?x = "snd (setRecvSecond c s)"
    have x: "pre_ok ?x" "wf ?x" "c < length (objs ?x)" using p w c Send_post by (simp_all add: pre_recv)
    then show ?thesis using st Send_post pre_post(1) [OF x] by (intro turn) (auto simp: case_prod_unfold Let_def split: if_splits)
  next
    case (Send_wake c)
    then show ?thesis using st p by (intro turn) (auto simp: pre_wakeup p)
  next
    case (Disc_find g v)
    then show ?thesis using st p by (intro turn) (auto split: if_splits option.splits)
  next
    case (Disc_post g c)
    then show ?thesis using st c p pre_post [OF p w, of c "[]"] by (intro turn) (auto split: if_splits)
  next
    case (Disc_wake g c)
    then show ?thesis using st p by (intro turn) (auto simp: pre_wakeup p)
  next
    case (Disc_report g c)
    have "clash s \<or> released s \<or> \<not> active s c \<or> closing s c" using p m Disc_report by (auto simp: pre_ok_def live_ok_def)
    then have "pre_ok (tell c x s)" for x using pre_report [OF p w u] c Disc_report by simp
    then show ?thesis using st Disc_report by (intro turn) auto
  next
    case (Reset_set c q)
    then show ?thesis using st p by (intro turn) (auto simp: pre_priv p)
  next
    case (Scan sec)
    then show ?thesis using st p by (intro turn) auto
  next
    case (Added v)
    then show ?thesis using st p by (intro turn) auto
  next
    case (Ret r)
    then show ?thesis using st p by (intro turn) auto
  qed
qed

text \<open>A thread takes an order.\<close>

lemma pre_take:
  assumes p: "pre_ok s" and w: "wf s" and u: "uniq s" and t: "t < length (io_threads s)" "io_threads s ! t = Draining v" and q: "orderQs s ! t = (c, m) # rest"
    and e: "ev_ok s'" and o: "own c s s'"
    and f: "shape s' = shape s" "posted s' = posted s" "tcalls s' = tcalls s" "released s' = released s" "clash s' = clash s" "stale s' = stale s" "io_threads s' = io_threads s"
      "orderQs s' = (orderQs s)[t := rest]"
    and tr: "\<And>d. d \<noteq> c \<Longrightarrow> d \<in> set (tried s') \<longleftrightarrow> d \<in> set (tried s)" and wr: "\<And>d. d \<noteq> c \<Longrightarrow> mine d (wrote s') = mine d (wrote s)"
    and tx: "text_at s' c"
    and mp: "cut (snd (shape s ! c)) (set (tcpClientConnMap s)) (set (tcpClientConnMap s'))"
    and a: "active s' c \<Longrightarrow> set (tcpClientConnMap s') = set (tcpClientConnMap s) \<and> active s c \<and> (closing s c \<longrightarrow> closing s' c)"
  shows "pre_ok s'"
proof -
  have l: "length (orderQs s) = length (io_threads s)" and c: "c < length (objs s)" "fst (shape s ! c) = t" using w t q by (fastforce simp: wf_def)+
  have len: "length (objs s') = length (objs s)" using f(1) length_shape by metis
  have ot: "has_bev s' d = has_bev s d" "open_bev s' d = open_bev s d" if "d \<noteq> c" for d using o that by (simp_all add: own_def has_bev_def open_bev_def)
  have act: "active s' d = active s d" if "d \<noteq> c" for d using ot tr that by (simp add: active_def)
  have qo: "mine d (queue_of s' d) = mine d (queue_of s d)" "count_list (queue_of s' d) (d, []) = count_list (queue_of s d) (d, [])" if "d \<noteq> c" for d
    using that l t q by (cases "fst (shape s ! d) = t"; simp add: queue_of_def f)+
  have cl: "closing s' d = closing s d" if "d \<noteq> c" for d using qo tr that by (simp add: closing_def)
  have ad: "adding s' = adding s" using f by (simp add: fun_eq_iff adding_def)
  have nr: "\<not> released s" using running [OF p] t by simp
  have "text_at s' d" if "d < length (objs s)" for d
  proof (cases "d = c")
    case False
    then show ?thesis using p that ot [OF False] qo [OF False] tr [OF False] wr [OF False] f by (auto simp: pre_ok_def text_ok_def text_at_def)
  qed (simp add: tx)
  then have "text_ok s'" using len by (simp add: text_ok_def)
  moreover have "over_ok s'" using nr f by (simp add: over_ok_def)
  moreover have "msg_ok s'" using p f len by (simp add: pre_ok_def msg_ok_def)
  moreover have "live_ok s'" if lv: "live_ok s" and n: "\<not> clash s"
    unfolding live_ok_def
  proof (intro conjI allI impI ballI)
    fix d assume d: "d < length (objs s')" "active s' d"
    show "listed s' d \<or> adding s' d \<or> closing s' d"
    proof (cases "d = c")
      case True
      then have "listed s' c = listed s c" "active s c" "closing s c \<Longrightarrow> closing s' c" using a d by (simp_all add: listed_def)
      then show ?thesis using lv c True ad by (auto simp: live_ok_def)
    next
      case False
      have "listed s' d" if ls: "listed s d"
      proof -
        obtain x where x: "(x, d) \<in> set (tcpClientConnMap s)" using ls by (auto simp: listed_def)
        then have "snd (shape s ! d) = x" using w by (auto simp: wf_def)
        moreover have "snd (shape s ! d) \<noteq> snd (shape s ! c)" using u n d len c False by (simp add: uniq_def distinct_conv_nth)
        ultimately have "(x, d) \<in> set (tcpClientConnMap s')" using cut_keeps [OF mp x] by simp
        then show ?thesis by (force simp: listed_def)
      qed
      then show ?thesis using lv d len False act cl ad by (auto simp: live_ok_def)
    qed
  next
    fix k d assume "k \<in> set (tcalls s')" "ending k = Some d"
    then have "\<not> active s d \<or> closing s d" using lv f by (auto simp: live_ok_def)
    then show "\<not> active s' d \<or> closing s' d" using a act cl by (cases "d = c") auto
  next
    fix t' b d assume m: "t' < length (io_threads s') \<and> io_threads s' ! t' = In_message b d"
    then have "open_bev s d" "fst (shape s ! d) = t'" "t' \<noteq> t" using live_message [OF lv, of t' b d] p t f by (auto simp: pre_ok_def msg_ok_def)
    then show "open_bev s' d" using ot c by (cases "d = c") auto
  qed
  ultimately show ?thesis using p e f by (auto simp: pre_ok_def)
qed

lemma bev_of:
  assumes e: "ev_ok s" and c: "c < length (objs s)"
  shows "has_bev s c \<longleftrightarrow> tc_bev (objs s ! c) \<noteq> None"
proof
  assume "has_bev s c"
  then obtain b k where "bevs s b = Some (c, k)" by (auto simp: has_bev_def)
  then show "tc_bev (objs s ! c) \<noteq> None" using evD(3) [OF e] by simp
next
  assume "tc_bev (objs s ! c) \<noteq> None"
  then show "has_bev s c" using evD(4) [OF e c] by (auto simp: has_bev_def)
qed

lemma open_has: "open_bev s c \<Longrightarrow> has_bev s c"
  by (auto simp: open_bev_def has_bev_def)

lemma has_tried: "ev_ok s \<Longrightarrow> has_bev s c \<Longrightarrow> c \<in> set (tried s)"
proof (rule ccontr)
  assume e: "ev_ok s" and h: "has_bev s c" and t: "c \<notin> set (tried s)"
  then obtain b k where b: "bevs s b = Some (c, k)" by (auto simp: has_bev_def)
  show False using evD(3) [OF e b] evD(8) [OF e evD(1) [OF e b] t] by simp
qed

lemma taken:
  assumes p: "pre_ok s" and w: "wf s" and t: "t < length (io_threads s)" "io_threads s ! t = Draining v" and q: "orderQs s ! t = (c, m) # rest"
  shows "c < length (objs s)" "ev_ok s" "ev_ok (s\<lparr>orderQs := (orderQs s)[t := rest]\<rparr>)" "\<not> released s" "queue_of s c = (c, m) # rest" "text_at s c"
    and "orderQs x = (orderQs s)[t := rest] \<Longrightarrow> shape x = shape s \<Longrightarrow> queue_of x c = rest" and "own c (s\<lparr>orderQs := (orderQs s)[t := rest]\<rparr>) x \<Longrightarrow> own c s x"
proof -
  have c: "c < length (objs s)" "fst (shape s ! c) = t" "length (orderQs s) = length (io_threads s)" using w t q by (fastforce simp: wf_def)+
  show "c < length (objs s)" by (rule c(1))
  show e: "ev_ok s" using p by (simp add: pre_ok_def)
  show "ev_ok (s\<lparr>orderQs := (orderQs s)[t := rest]\<rparr>)" using e by (rule ev_cong) simp_all
  show "\<not> released s" using running [OF p] t by simp
  show "queue_of s c = (c, m) # rest" using c q by (simp add: queue_of_def)
  show "orderQs x = (orderQs s)[t := rest] \<Longrightarrow> shape x = shape s \<Longrightarrow> queue_of x c = rest" using c t by (simp add: queue_of_def)
  show "text_at s c" using p c by (simp add: pre_ok_def text_ok_def)
  show "own c (s\<lparr>orderQs := (orderQs s)[t := rest]\<rparr>) x \<Longrightarrow> own c s x" by (simp add: own_def)
qed

text \<open>The order to open.\<close>

lemma pre_open:
  assumes p: "pre_ok s" and w: "wf s" and u: "uniq s" and t: "t < length (io_threads s)" "io_threads s ! t = Draining v" and q: "orderQs s ! t = (c, m) # rest" and r: "gives_fd r"
    and nt: "c \<notin> set (tried s)" and x: "connectServer r c (s\<lparr>orderQs := (orderQs s)[t := rest]\<rparr>) = (ret, x)"
    and s': "s' = (if ret <s 0 then tell c CONN_FAILED x else x)"
  shows "pre_ok s'"
proof -
  let ?s = "s\<lparr>orderQs := (orderQs s)[t := rest]\<rparr>"
  note tk = taken [OF p w t q]
  note qs = tk(7)
  have xt: "tried x = c # tried s" "shape x = shape s" "wrote x = wrote s" "orderQs x = (orderQs s)[t := rest]"
    and xr: "posted x = posted s" "tcalls x = tcalls s" "released x = released s" "clash x = clash s" "stale x = stale s" "io_threads x = io_threads s"
    using tried_connectServer [of r c ?s] shape_connectServer [of r c ?s] connectServer_rest [of r c ?s] unfolding x by simp_all
  have cx: "ev_ok x" "own c s x" "tcpClientConnMap x = tcpClientConnMap s \<or> \<not> open_bev x c" "ret <s 0 \<Longrightarrow> \<not> open_bev x c"
    using connectServer_first [OF tk(3) _ _ x r] tk(1) nt tk(8) [of x] by simp_all
  have mx: "m = []" "mine c (posted s) = [] # mine c rest" "mine c (wrote s) = []" using tk(4-6) nt by (auto simp: text_at_def)
  have hx: "has_bev s' = has_bev x" "open_bev s' = open_bev x" using s' by (simp_all add: fun_eq_iff has_bev_def open_bev_def)
  have mm: "cut (snd (shape s ! c)) (set (tcpClientConnMap s)) (set (tcpClientConnMap x))" using cut_connectServer [of c ?s r] tk(1) unfolding x by simp
  have cl: "c < length (objs x)" using tk(1) xt(2) length_shape by metis
  show ?thesis
  proof (rule pre_take [OF p w u t q])
    show "ev_ok s'" using s' cx by (simp add: ev_tell)
    show "own c s s'" using s' cx own_trans [OF cx(2) own_refl] by simp
    show "text_at s' c" using mx xt xr qs [of s'] s' by (auto simp: text_at_def)
    show "cut (snd (shape s ! c)) (set (tcpClientConnMap s)) (set (tcpClientConnMap s'))"
      using s' mm cut_trans [OF mm, of "set (tcpClientConnMap (tell c CONN_FAILED x))"] cut_tell [OF cl, of CONN_FAILED] xt by simp
    assume "active s' c"
    then have op: "open_bev x c" using hx s' xt by (auto simp: active_def split: if_splits)
    then have "s' = x" "tcpClientConnMap x = tcpClientConnMap s" using s' cx by auto
    moreover have "closing s c \<Longrightarrow> closing x c" using nt xt tk(5) qs [of x] mx by (simp add: closing_def)
    ultimately show "set (tcpClientConnMap s') = set (tcpClientConnMap s) \<and> active s c \<and> (closing s c \<longrightarrow> closing s' c)" using nt by (simp add: active_def)
  qed (use s' xt xr in simp_all)
qed

text \<open>The order to close, and a message.\<close>

lemma pre_close:
  assumes p: "pre_ok s" and w: "wf s" and u: "uniq s" and t: "t < length (io_threads s)" "io_threads s ! t = Draining v" and q: "orderQs s ! t = (c, m) # rest"
    and tr: "c \<in> set (tried s)" and s': "s' = tc_disConnect c (s\<lparr>orderQs := (orderQs s)[t := rest]\<rparr>)"
  shows "pre_ok s'"
proof -
  note tk = taken [OF p w t q]
  have c0: "c < length (objs (s\<lparr>orderQs := (orderQs s)[t := rest]\<rparr>))" using tk(1) by simp
  note sh = shut_disConnect [OF tk(3) c0]
  have nb: "\<not> has_bev s' c" using sh(2) s' by (auto simp: has_bev_def)
  show ?thesis
  proof (rule pre_take [OF p w u t q])
    show "ev_ok s'" using s' tk(1,3) by (simp add: ev_disConnect)
    show "own c s s'" using s' tk(8) [OF shut_own [OF sh(1)]] by simp
    show "text_at s' c" using tk(6) tr nb s' by (simp add: text_at_def)
    show "active s' c \<Longrightarrow> set (tcpClientConnMap s') = set (tcpClientConnMap s) \<and> active s c \<and> (closing s c \<longrightarrow> closing s' c)"
      using nb tr s' open_has by (auto simp: active_def)
  qed (use s' in \<open>simp_all add: cut_def\<close>)
qed

lemma pre_send:
  assumes p: "pre_ok s" and w: "wf s" and u: "uniq s" and t: "t < length (io_threads s)" "io_threads s ! t = Draining v" and q: "orderQs s ! t = (c, m) # rest"
    and tr: "c \<in> set (tried s)" and m: "m \<noteq> []" and s': "s' = tc_sendMsg c m (s\<lparr>orderQs := (orderQs s)[t := rest]\<rparr>)"
  shows "pre_ok s'"
proof -
  note tk = taken [OF p w t q]
  have b: "tc_bev (objs s ! c) \<noteq> None \<longleftrightarrow> has_bev s c" using bev_of [OF tk(2,1)] by simp
  have f: "objs s' = objs s" "bevs s' = bevs s" "timers s' = timers s" "nextHandle s' = nextHandle s" "tried s' = tried s" "tcpClientConnMap s' = tcpClientConnMap s"
    "wrote s' = (if has_bev s c then wrote s @ [(c, m)] else wrote s)" "orderQs s' = (orderQs s)[t := rest]" "shape s' = shape s" "posted s' = posted s" "released s' = released s"
    using b by (simp_all add: s' tc_sendMsg_def)
  have eq: "has_bev s' = has_bev s" "open_bev s' = open_bev s" "active s' = active s" using f by (simp_all add: fun_eq_iff has_bev_def open_bev_def active_def)
  note qs = tk(7) [of s', OF f(8,9)]
  show ?thesis
  proof (rule pre_take [OF p w u t q])
    show "ev_ok s'" by (rule ev_cong [OF tk(2)]) (simp_all add: f)
    show "own c s s'" using f by (intro own_refl) simp_all
    have "has_bev s c \<Longrightarrow> mine c (posted s) = [] # mine c (wrote s) @ m # mine c rest" using tk(4-6) tr by (simp add: text_at_def)
    then show "text_at s' c" using tk(6) tr f qs by (auto simp: text_at_def eq)
    show "active s' c \<Longrightarrow> set (tcpClientConnMap s') = set (tcpClientConnMap s) \<and> active s c \<and> (closing s c \<longrightarrow> closing s' c)"
      using f tk(5) qs m tr by (simp add: eq closing_def)
  qed (use f s' in \<open>simp_all add: cut_def tc_sendMsg_def\<close>)
qed

lemma pre_order:
  assumes p: "pre_ok s" and w: "wf s" and u: "uniq s" and t: "t < length (io_threads s)" "io_threads s ! t = Draining v" and q: "orderQs s ! t = (c, m) # rest" and r: "gives_fd r"
    and nr: "\<not> retried (handle_order r (c, m) (s\<lparr>orderQs := (orderQs s)[t := rest]\<rparr>))"
  shows "pre_ok (handle_order r (c, m) (s\<lparr>orderQs := (orderQs s)[t := rest]\<rparr>))"
proof (cases "tc_sockfd (objs s ! c) = 0")
  case True
  let ?s = "s\<lparr>orderQs := (orderQs s)[t := rest]\<rparr>"
  obtain ret x where x: "connectServer r c ?s = (ret, x)" by force
  have s': "handle_order r (c, m) ?s = (if ret <s 0 then tell c CONN_FAILED x else x)" using True x by (simp add: handle_order_def)
  moreover have "retried x = (retried s \<or> c \<in> set (tried s))" using tried_connectServer(2) [of r c ?s] unfolding x by simp
  ultimately have "c \<notin> set (tried s)" using nr by (auto split: if_splits)
  then show ?thesis by (rule pre_open [OF p w u t q r _ x s'])
next
  case False
  then have tr: "c \<in> set (tried s)" using evD(8) [OF taken(2,1) [OF p w t q]] by blast
  show ?thesis
  proof (cases "m = []")
    case True
    then show ?thesis using False by (intro pre_close [OF p w u t q tr]) (simp add: handle_order_def)
  next
    case m: False
    then show ?thesis using False by (intro pre_send [OF p w u t q tr m]) (simp add: handle_order_def)
  qed
qed

section \<open>Callbacks\<close>

lemma held_sub:
  assumes "held_ok s" and "\<And>b d k. bevs s' b = Some (d, k) \<Longrightarrow> \<exists>b k. bevs s b = Some (d, k)" "\<And>h d. timers s' h = Some d \<Longrightarrow> \<exists>h. timers s h = Some d"
    and "tcpClientConnMap s' = tcpClientConnMap s" "orderQs s' = orderQs s" "tcalls s' = tcalls s"
  shows "held_ok s'"
proof -
  have "held s' c = held s c" for c using assms(4-6) by (rule held_fields)
  then show ?thesis using assms(1-3) unfolding held_ok_def by metis
qed

text \<open>A connection is closed and reported.\<close>

lemma pre_drop:
  assumes p: "pre_ok s" and w: "wf s" and u: "uniq s" and c: "c < length (objs s)" and tr: "clash s \<or> c \<in> set (tried s)" and e: "ev_ok x"
    and f: "shape x = shape s" "bevs x = bevs s" "\<And>h d. timers x h = Some d \<Longrightarrow> timers s h = Some d" "tried x = tried s" "posted x = posted s" "wrote x = wrote s" "orderQs x = orderQs s"
      "tcalls x = tcalls s" "released x = released s" "clash x = clash s" "tcpClientConnMap x = tcpClientConnMap s" "stale x \<Longrightarrow> stale s \<or> clash s"
    and th: "io_threads x = io_threads s \<or> io_threads x = (io_threads s)[fst (shape s ! c) := Idle] \<and> io_threads s ! fst (shape s ! c) \<noteq> Ended"
    and id: "io_threads x ! fst (shape s ! c) = Idle"
  shows "pre_ok (tell c st (tc_disConnect c x))" (is "pre_ok ?s")
proof -
  have cx: "c < length (objs x)" using c f(1) length_shape by metis
  note sh = shut_disConnect [OF e cx]
  have nb: "\<not> has_bev ?s c" "\<not> open_bev ?s c" using sh(2) by (auto simp: has_bev_def open_bev_def)
  show ?thesis
  proof (rule pre_own [OF p w u c, where pt = Idle])
    show "ev_ok ?s" using e cx by (simp add: ev_tell ev_disConnect)
    have "own c x ?s" using shut_own [OF sh(1)] own_trans own_refl [of ?s "tc_disConnect c x"] by simp
    then show "own c s ?s" using f(2,3) by (auto simp: own_def)
    have "clash s \<or> \<not> active ?s c" using nb tr f by (auto simp: active_def)
    moreover have "cut (snd (shape s ! c)) (set (tcpClientConnMap s)) (set (tcpClientConnMap ?s))" using cut_tell [of c "tc_disConnect c x" st] cx f by simp
    ultimately show "set (tcpClientConnMap ?s) = set (tcpClientConnMap s) \<or>
        set (tcpClientConnMap ?s) = {e \<in> set (tcpClientConnMap s). fst e \<noteq> snd (shape s ! c)} \<and> (clash s \<or> released s \<or> \<not> active ?s c \<or> closing s c)"
      by (auto simp: cut_def)
  qed (use nb f th id in auto)
qed

lemma timer_tried: "ev_ok s \<Longrightarrow> timers s h = Some c \<Longrightarrow> c < length (objs s) \<and> c \<in> set (tried s)"
proof (rule ccontr)
  assume e: "ev_ok s" and t: "timers s h = Some c" and n: "\<not> (c < length (objs s) \<and> c \<in> set (tried s))"
  have c: "c < length (objs s)" by (rule evD(5) [OF e t])
  then have "tc_timev (objs s ! c) = None" using evD(8) [OF e c] n by blast
  then show False using evD(7) [OF e t] by simp
qed

lemma ev_timer:
  assumes e: "ev_ok s"
  shows "ev_ok (s\<lparr>timers := (timers s)(h := None)\<rparr>)"
proof (rule evI, goal_cases)
  case (3 h' d)
  then have "timers s h' = Some d" by (simp split: if_splits)
  then show ?case using evD(5-7) [OF e] by simp
qed (use evD(1-4,8) [OF e] in simp_all)

lemma bev_facts:
  assumes k: "core_ok s" and b: "bevs s b = Some (c, i)"
  shows "c < length (objs s)" "c \<in> set (tried s)" "held s c" "has_bev s c" "s\<lparr>stale := stale s \<or> \<not> held s c\<rparr> = s"
proof -
  have e: "ev_ok s" using k by (simp add: core_ok_def pre_ok_def)
  show "c < length (objs s)" by (rule evD(1) [OF e b])
  show h: "held s c" using k b by (auto simp: core_ok_def held_ok_def)
  show hb: "has_bev s c" using b by (auto simp: has_bev_def)
  show "c \<in> set (tried s)" by (rule has_tried [OF e hb])
  show "s\<lparr>stale := stale s \<or> \<not> held s c\<rparr> = s" using h by simp
qed

lemma core_timeout:
  assumes k: "core_ok s" and w: "wf s" and u: "uniq s" and t: "timers s t = Some c" "io_threads s ! tc_ioIndex (objs s ! c) = Idle"
    and s': "s' = sweep (connectTimeout c (s\<lparr>timers := (timers s)(t := None), stale := stale s \<or> \<not> held s c\<rparr>))" and w': "wf s'"
  shows "core_ok s'"
proof -
  let ?x = "s\<lparr>timers := (timers s)(t := None)\<rparr>"
  have p: "pre_ok s" and e: "ev_ok s" using k by (simp_all add: core_ok_def pre_ok_def)
  have c: "c < length (objs s)" "c \<in> set (tried s)" "held s c" using timer_tried [OF e t(1)] t(1) k by (auto simp: core_ok_def held_ok_def)
  have x: "s' = sweep (connectTimeout c ?x)" using s' c by simp
  have ex: "ev_ok ?x" by (rule ev_timer [OF e])
  have "pre_ok (connectTimeout c ?x)"
  proof (cases "tc_state (objs s ! c) = CONN_FAILED")
    case True
    have "pre_ok (tell c CONN_FAILED (tc_disConnect c ?x))"
      by (rule pre_drop [OF p w u c(1) _ ex]) (use c t in \<open>auto simp: shape_nth split: if_splits\<close>)
    then show ?thesis using True by (simp add: connectTimeout_def)
  next
    case False
    have "pre_ok ?x" by (rule pre_fields [OF p ex]) simp_all
    then show ?thesis using False by (simp add: connectTimeout_def)
  qed
  then show ?thesis using sweep_core [of "connectTimeout c ?x"] w' x by simp
qed

lemma core_connected:
  assumes k: "core_ok s" and w: "wf s" and u: "uniq s" and b: "bevs s b = Some (c, Connecting)"
    and s': "s' = tell c CONN_SUCCESS (tcpClieSetconn c (s\<lparr>bevs := (bevs s)(b \<mapsto> (c, Connected))\<rparr>))"
  shows "core_ok s'"
proof -
  let ?x = "s\<lparr>bevs := (bevs s)(b \<mapsto> (c, Connected))\<rparr>"
  have p: "pre_ok s" and h: "held_ok s" and e: "ev_ok s" using k by (simp_all add: core_ok_def pre_ok_def)
  note c = bev_facts [OF k b]
  have ex: "ev_ok ?x" by (rule ev_rebev [OF e b])
  have m: "tcpClientConnMap s' = tcpClientConnMap s" by (simp add: s' tell_def tcpServerConnect_def)
  have bv: "bevs s' = (bevs s)(b \<mapsto> (c, Connected))" by (simp add: s')
  have tm: "timers s' h = Some d \<Longrightarrow> timers s h = Some d" for h d using shutD(2) [OF shut_free_timer, of c ?x h] by (auto simp: s' tcpClieSetconn_def)
  have op: "open_bev s' c" "open_bev s c" using bv b by (auto simp: open_bev_def)
  have "pre_ok s'"
  proof (rule pre_own [OF p w u c(1), where pt = Idle])
    show "ev_ok s'" using ev_event [OF ex, of c BEV_EVENT_CONNECTED] c by (simp add: s' TcpClientOnEvent_def)
    show "own c s s'" using bv tm b by (auto simp: own_def)
  qed (use op c m s' in simp_all)
  moreover have "held_ok s'" by (rule held_sub [OF h]) (use bv tm b m s' in \<open>auto split: if_splits\<close>)
  ultimately show ?thesis by (simp add: core_ok_def)
qed

lemma core_closed:
  assumes k: "core_ok s" and w: "wf s" and u: "uniq s" and b: "bevs s b = Some (c, i)" "io_threads s ! tc_ioIndex (objs s ! c) = Idle" and s': "s' = sweep (conn_closed c s)" and w': "wf s'"
  shows "core_ok s'"
proof -
  have p: "pre_ok s" and e: "ev_ok s" using k by (simp_all add: core_ok_def pre_ok_def)
  note c = bev_facts [OF k b(1)]
  have "pre_ok (tell c st (tc_disConnect c s))" for st
    by (rule pre_drop [OF p w u c(1) _ e]) (use c b in \<open>auto simp: shape_nth\<close>)
  then have "pre_ok (conn_closed c s)" by (simp add: conn_closed_def Let_def)
  then show ?thesis using sweep_core [of "conn_closed c s"] w' s' by simp
qed

lemma core_message:
  assumes k: "core_ok s" and w: "wf s" and u: "uniq s" and b: "bevs s b = Some (c, Connected)" "io_threads s ! tc_ioIndex (objs s ! c) = Idle"
    and s1: "setRecvSecond c s = (ret, s1)" and w': "wf s'"
    and s': "s' = (if ret < 0 \<or> \<not> copied then sweep (tell c DIS_CONNECT (tc_disConnect c s1)) else set_thread (tc_ioIndex (objs s ! c)) (In_message b c) s1)"
  shows "core_ok s'"
proof -
  have p: "pre_ok s" and h: "held_ok s" and e: "ev_ok s" using k by (simp_all add: core_ok_def pre_ok_def)
  note c = bev_facts [OF k b(1)]
  have r: "s1 = snd (setRecvSecond c s)" using s1 by simp
  have e1: "ev_ok s1" using e r by (simp add: ev_recv)
  have io: "io_threads s ! fst (shape s ! c) = Idle" using b(2) c by (simp add: shape_nth)
  show ?thesis
  proof (cases "ret < 0 \<or> \<not> copied")
    case True
    have "pre_ok (tell c DIS_CONNECT (tc_disConnect c s1))"
      by (rule pre_drop [OF p w u c(1) _ e1]) (use c io r in auto)
    then show ?thesis using sweep_core [of "tell c DIS_CONNECT (tc_disConnect c s1)"] w' s' True by simp
  next
    case False
    have t: "s' = set_thread (fst (shape s ! c)) (In_message b c) s1" using s' False c by (simp add: shape_nth)
    have f: "bevs s' = bevs s" "timers s' = timers s" "tcpClientConnMap s' = tcpClientConnMap s" "orderQs s' = orderQs s" "tcalls s' = tcalls s"
      "io_threads s' = (io_threads s)[fst (shape s ! c) := In_message b c]" "shape s' = shape s" "tried s' = tried s" "posted s' = posted s" "wrote s' = wrote s"
      "released s' = released s" "clash s' = clash s" "stale s' = stale s" using t r by (simp_all add: set_thread_def)
    have eq: "has_bev s' = has_bev s" "open_bev s' = open_bev s" using f by (simp_all add: fun_eq_iff has_bev_def open_bev_def)
    have op: "open_bev s c" using b(1) by (auto simp: open_bev_def)
    have "ev_ok s'" by (rule ev_cong [OF e1]) (simp_all add: t set_thread_def)
    then have "pre_ok s'" by (intro pre_own [OF p w u c(1), where pt = "In_message b c"] own_refl) (use f eq op io in simp_all)
    moreover have "held_ok s'" by (rule held_sub [OF h]) (use f in auto)
    ultimately show ?thesis by (simp add: core_ok_def)
  qed
qed

lemma core_wrote:
  assumes k: "core_ok s" and s': "s' = upd_obj c (\<lambda>x. x\<lparr>tc_outbufLen := n\<rparr>) s"
  shows "core_ok s'"
proof -
  have "ev_ok s'" using k s' by (simp add: core_ok_def pre_ok_def ev_upd)
  then have "pre_ok s'" using k by (intro pre_fields [of s s']) (simp_all add: core_ok_def s' shape_upd)
  moreover have "held_ok s'" using k by (intro held_sub [of s s']) (auto simp: core_ok_def s')
  ultimately show ?thesis by (simp add: core_ok_def)
qed

lemma core_libevent:
  assumes st: "libevent_step s s'" and k: "core_ok s" and w: "wf s" and u: "uniq s" and w': "wf s'"
  shows "core_ok s'"
  using st
proof (cases rule: libevent_step.cases)
  case (timeout t c)
  then show ?thesis by (intro core_timeout [OF k w u _ _ _ w']) simp_all
next
  case (connected b c event)
  then show ?thesis using bev_facts [OF k connected(2)] by (intro core_connected [OF k w u connected(2)]) (simp add: TcpClientOnEvent_def)
next
  case (event b c i ev)
  then show ?thesis using bev_facts [OF k event(2)] by (intro core_closed [OF k w u event(2,3) _ w']) (simp add: TcpClientOnEvent_def)
next
  case (message b c ret s1 copied)
  then show ?thesis using bev_facts [OF k message(2)] by (intro core_message [OF k w u message(2,3) _ w' message(1)]) simp
next
  case (wrote b c i n)
  then show ?thesis using bev_facts [OF k wrote(2)] by (intro core_wrote [OF k]) simp
qed

section \<open>Threads and runs\<close>

lemma core_io:
  assumes st: "io_step t s s'" and k: "core_ok s" and w: "wf s" and u: "uniq s" and w': "wf s'" and nr: "\<not> retried s'"
  shows "core_ok s'"
proof -
  have p: "pre_ok s" and h: "held_ok s" and e: "ev_ok s" using k by (simp_all add: core_ok_def pre_ok_def)
  show ?thesis using st
  proof (cases rule: io_step.cases)
    case read
    have "Idle \<in> set (io_threads s)" using read nth_mem by metis
    then show ?thesis using read by (intro core_frame [OF k]) (auto simp: set_thread_def nth_list_update split: if_splits)
  next
    case (order v node q r)
    obtain c m where n: "node = (c, m)" by force
    have q: "orderQs s ! t = (c, m) # q" using order(4) n by (simp add: dealOrderNode_def split: list.splits)
    have "pre_ok (handle_order r (c, m) (s\<lparr>orderQs := (orderQs s)[t := q]\<rparr>))"
      by (rule pre_order [OF p w u order(2,3) q order(5)]) (use nr order(1) n in simp)
    then show ?thesis using sweep_core w' order(1) n by simp
  next
    case (drained v)
    have "Draining v \<in> set (io_threads s)" using drained nth_mem by metis
    then show ?thesis using drained by (intro core_frame [OF k]) (auto simp: set_thread_def nth_list_update split: if_splits)
  next
    case (message_end b c dr)
    let ?x = "set_thread t Idle (s\<lparr>stale := stale s \<or> \<not> held s c\<rparr>)"
    have c: "c < length (objs s)" "fst (shape s ! c) = t" using p message_end(2,3) by (auto simp: pre_ok_def msg_ok_def)
    have op: "clash s \<or> open_bev s c" using p message_end(2,3) running [OF p message_end(2)] live_message [of s t b c] by (auto simp: pre_ok_def)
    have hl: "clash s \<or> held s c" using op h by (auto simp: held_ok_def open_bev_def)
    have tr: "clash s \<or> c \<in> set (tried s)" using op open_has has_tried [OF e] by blast
    have ex: "ev_ok ?x" by (rule ev_cong [OF e]) (simp_all add: set_thread_def)
    show ?thesis
    proof (cases dr)
      case True
      then have s': "s' = ?x" using message_end(1) by simp
      have eq: "has_bev ?x = has_bev s" "open_bev ?x = open_bev s" by (simp_all add: fun_eq_iff has_bev_def open_bev_def set_thread_def)
      have "pre_ok ?x" by (intro pre_own [OF p w u c(1), where pt = Idle] own_refl) (use ex eq hl c message_end in \<open>auto simp: set_thread_def\<close>)
      moreover have "held_ok ?x" by (rule held_sub [OF h]) (auto simp: set_thread_def)
      ultimately show ?thesis by (simp add: s' core_ok_def)
    next
      case False
      then have s': "s' = sweep (tell c DIS_CONNECT (tc_disConnect c ?x))" using message_end(1) by simp
      have "pre_ok (tell c DIS_CONNECT (tc_disConnect c ?x))"
        by (rule pre_drop [OF p w u c(1) tr ex]) (use c hl message_end in \<open>auto simp: set_thread_def\<close>)
      then show ?thesis using sweep_core w' s' by simp
    qed
  qed
qed

lemma core_step:
  assumes st: "tcp_step lt s s'" and k: "core_ok s" and w: "wf s" and u: "uniq s" and nr: "\<not> retried s'"
  shows "core_ok s'"
proof -
  have w': "wf s'" using wf_step st w by blast
  have p: "pre_ok s" using k by (simp add: core_ok_def)
  show ?thesis using st
  proof (cases rule: tcp_step.cases)
    case (io t)
    then show ?thesis by (rule core_io [OF _ k w u w' nr])
  next
    case libevent
    then show ?thesis by (rule core_libevent [OF _ k w u w'])
  next
    case (call i k' x)
    have "pre_ok (x\<lparr>tcalls := (tcalls s)[i := k']\<rparr>)" by (rule pre_call [OF p w u call(2,3)])
    then show ?thesis using sweep_core w' call(1) by simp
  next
    case exit_release
    let ?x = "s\<lparr>released := True, orderQs := map (\<lambda>_. []) (orderQs s)\<rparr>"
    have "text_ok ?x" using p by (auto simp: pre_ok_def text_ok_def text_at_def has_bev_def)
    moreover have "ev_ok ?x" using p by (intro ev_cong [of s ?x]) (simp_all add: pre_ok_def)
    moreover have "over_ok ?x" "msg_ok ?x" using p exit_release by (auto simp: pre_ok_def over_ok_def msg_ok_def)
    ultimately have "pre_ok ?x" using p by (simp add: pre_ok_def)
    then show ?thesis using sweep_core w' exit_release(1) by simp
  qed (rule core_frame [OF k]; auto simp: add_counter_def find_conn_def split: if_splits option.splits)+
qed

lemma retried_handle: "retried s \<Longrightarrow> retried (handle_order r node s)"
  by (simp add: handle_order_def tc_sendMsg_def case_prod_unfold)

lemma retried_call [simp]: "retried (snd (call_step lt k s)) = retried s"
  by (cases "(lt, k, s)" rule: call_step.cases)
    (auto simp: case_prod_unfold Let_def libeventIoOrder_def new_connection_def insert_conn_def libeventIoWakeup_def add_counter_def split: option.splits)

lemma retried_step: "tcp_step lt s s' \<Longrightarrow> retried s \<Longrightarrow> retried s'"
proof (induction rule: tcp_step.induct)
  case (io t s s')
  then show ?case by (cases rule: io_step.cases) (auto simp: Let_def set_thread_def retried_handle)
next
  case (libevent s s')
  show ?case using libevent(1)
  proof (cases rule: libevent_step.cases)
    case (message b c ret s1 copied)
    have "retried s1 = retried s" using message(4) by (auto simp: setRecvSecond_def Let_def split: if_splits)
    then show ?thesis using message(1) libevent(2) by (simp add: set_thread_def)
  qed (use libevent(2) in simp_all)
next
  case (call i s k s')
  then show ?case using retried_call [of lt "tcalls s ! i" s] by simp
qed (simp_all add: add_counter_def)

lemma reach_core:
  assumes "(tcp_step lt)\<^sup>*\<^sup>* (tcp_start (unat (n :: u32)) uid) s"
  shows "retried s \<or> core_ok s"
  using assms
proof (induction rule: rtranclp_induct)
  case base
  then show ?case by (auto simp: core_ok_def pre_ok_def ev_ok_def text_ok_def over_ok_def msg_ok_def live_ok_def held_ok_def tcp_start_def)
next
  case (step x y)
  then show ?case using reach_basic [OF step(1)] core_step [OF step(2)] retried_step [OF step(2)] by blast
qed

section \<open>The properties\<close>

text \<open>A run in which a connection is made and a message is written to it.\<close>

definition demo_calls :: connect_calls where
  "demo_calls = \<lparr>timer_made = True, bev_made = True, enabled = 0, told = False, connected = 0, fd_given = 5\<rparr>"

definition being_connected :: "u64 \<Rightarrow> u32 \<Rightarrow> tcp_sys" where
  "being_connected u tail = (first_conn u tail)
     \<lparr>objs := [(TcpClient_new 0 u ''a'' 80 0 5 5 0)\<lparr>tc_sockfd := 5, tc_timev := Some 0, tc_bev := Some 1\<rparr>],
      orderQs := [[]], counters := [0], io_threads := [Draining 2], timers := [0 \<mapsto> 0], bevs := [1 \<mapsto> (0, Connecting)], nextHandle := 2, tried := [0]\<rparr>"

definition message_sent :: "u64 \<Rightarrow> u32 \<Rightarrow> tcp_sys" where
  "message_sent u tail = (being_connected u tail)\<lparr>tcalls := [Added u, Send_wake 0], posted := [(0, []), (0, ''hi'')], wrote := [(0, ''hi'')]\<rparr>"

lemma connecting: "handle_order demo_calls (0, []) ((first_conn u tail)\<lparr>io_threads := [Draining 2], counters := [0], orderQs := [[]]\<rparr>) = being_connected u tail"
  by (simp add: handle_order_def connectServer_def Let_def demo_calls_def first_conn_def being_connected_def TcpClient_new_def upd_obj_def word_sless_alt)

lemma first_message: "\<exists>u tail. (tcp_step lt)\<^sup>*\<^sup>* (tcp_start (unat (1 :: u32)) 60) (message_sent u tail)"
proof -
  obtain u tail where r: "(tcp_step lt)\<^sup>*\<^sup>* (tcp_start (unat (1 :: u32)) 60) (first_conn u tail)" using first_connection by blast
  let ?s = "first_conn u tail" and ?c = "being_connected u tail"
  define s1 where "s1 = ?s\<lparr>io_threads := [Draining 2], counters := [0]\<rparr>"
  define s3 where "s3 = ?c\<lparr>tcalls := [Added u, Send_post u 0 ''hi'']\<rparr>"
  define s4 where "s4 = ?c\<lparr>tcalls := [Added u, Send_wake 0], posted := [(0, []), (0, ''hi'')], orderQs := [[(0, ''hi'')]]\<rparr>"
  note d = s1_def s3_def s4_def message_sent_def being_connected_def first_conn_def
  have sw: "sweep x = x" if "length (objs x) = 1" "snd ` set (tcpClientConnMap x) = {0}" for x using that by (intro sweep_held) (simp add: held_def)
  have "io_step 0 ?s s1" using io_step.read [of 0 ?s] by (simp add: d set_thread_def)
  moreover have "io_step 0 s1 ?c"
    using io_step.order [of 0 s1 2 "(0, [])" "[]" demo_calls] sw [of ?c] connecting [of u tail]
    by (simp add: s1_def dealOrderNode_def) (simp add: d gives_fd_def demo_calls_def word_sless_alt)
  moreover have "tcp_step lt ?c s3" using tcp_step.send [of lt ?c u "''hi''"] by (simp add: d find_conn_def)
  moreover have "tcp_step lt s3 s4"
    using tcp_step.call [of 1 s3 lt "Send_wake 0" "s4\<lparr>tcalls := tcalls s3\<rparr>"] sw [of s4]
    by (simp add: d setRecvSecond_def Let_def TcpClient_new_def upd_obj_def libeventIoOrder_def orderNodeInsert_def)
  moreover have "io_step 0 s4 (message_sent u tail)"
    using io_step.order [of 0 s4 2 "(0, ''hi'')" "[]" demo_calls] sw [of "message_sent u tail"]
    by (simp add: d dealOrderNode_def handle_order_def tc_sendMsg_def TcpClient_new_def gives_fd_def demo_calls_def word_sless_alt)
  ultimately have "(tcp_step lt)\<^sup>*\<^sup>* ?s (message_sent u tail)" by (meson tcp_step.io converse_rtranclp_into_rtranclp rtranclp.rtrancl_refl)
  then show ?thesis using r by (meson rtranclp_trans)
qed



text \<open>C4: a callback of libevent finds its object alive: every bufferevent and every timer that is registered belongs to an object which a
  \<open>shared_ptr\<close> still holds, and no callback has used a deleted object, unless a number was given twice or the code connected an
  object a second time.
\<close>

theorem callbacks_find_their_object:
  assumes "(tcp_step lt)\<^sup>*\<^sup>* (tcp_start (unat (n :: u32)) uid) s" and "\<not> retried s"
  shows "(bevs s b = Some (c, k) \<longrightarrow> c < length (objs s) \<and> held s c \<and> tc_bev (objs s ! c) = Some b) \<and>
    (timers s h = Some d \<longrightarrow> d < length (objs s) \<and> held s d \<and> tc_timev (objs s ! d) = Some h) \<and> (stale s \<longrightarrow> clash s)"
proof -
  have k: "ev_ok s" "held_ok s" "stale s \<longrightarrow> clash s" using reach_core [OF assms(1)] assms(2) by (simp_all add: core_ok_def pre_ok_def)
  show ?thesis using evD(1,3,5,7) [OF k(1)] k(2,3) unfolding held_ok_def by blast
qed

theorem callbacks_find_their_object_witness:
  "\<exists>s. (tcp_step new_year)\<^sup>*\<^sup>* (tcp_start (unat (1 :: u32)) 60) s \<and> bevs s 1 = Some (0, Connecting) \<and> held s 0 \<and> tc_bev (objs s ! 0) = Some 1 \<and> \<not> stale s"
proof -
  obtain u tail where r: "(tcp_step new_year)\<^sup>*\<^sup>* (tcp_start (unat (1 :: u32)) 60) (message_sent u tail)" using first_message by blast
  have f: "bevs (message_sent u tail) 1 = Some (0, Connecting)" "\<not> retried (message_sent u tail)" "\<not> clash (message_sent u tail)"
    by (simp_all add: message_sent_def being_connected_def first_conn_def)
  show ?thesis using callbacks_find_their_object [OF r f(2), of 1 0 Connecting] r f(1,3) by blast
qed

end
