(* ===== verification/TcpNumbers.thy ===== *)
theory TcpNumbers
  imports TcpCliProps
begin

text \<open>
  The numbers of the TCP client's connections, \<^verbatim>\<open>libeventcpcli/src/UniqueNum.h\<close>: the bit fields of a number, and how many numbers one second has.
\<close>

section \<open>Bit fields\<close>

text \<open>A field of a word that is put together of shifted fields.\<close>

lemma field_rules:
  fixes x :: u64
  shows "a + k \<le> j \<Longrightarrow> take_bit a (drop_bit k (push_bit j x)) = 0" "n + j \<le> k \<Longrightarrow> take_bit a (drop_bit k (push_bit j (take_bit n x))) = 0"
    "j + a \<le> 64 \<Longrightarrow> take_bit a (drop_bit j (push_bit j (take_bit a x))) = take_bit a x"
  by (rule bit_word_eqI; simp add: bit_simps; linarith)+

lemma field_masks: "ucast (x AND 0x7f) = (take_bit 7 (ucast x) :: u64)" "ucast (x AND 0x0f) = (take_bit 4 (ucast x) :: u64)" "ucast (x AND 0x1f) = (take_bit 5 (ucast x) :: u64)"
  "ucast (x AND 0x3f) = (take_bit 6 (ucast x) :: u64)" "ucast (x AND 0x01fff) = (take_bit 13 (ucast x) :: u64)" "ucast (x AND 0x03ffff) = (take_bit 18 (ucast x) :: u64)" for x :: u32
proof -
  have m: "ucast (x AND mask n) = (take_bit n (ucast x) :: u64)" for n by (rule bit_word_eqI) (auto simp: bit_simps dest: bit_imp_le_length)
  show "ucast (x AND 0x7f) = (take_bit 7 (ucast x) :: u64)" "ucast (x AND 0x0f) = (take_bit 4 (ucast x) :: u64)" "ucast (x AND 0x1f) = (take_bit 5 (ucast x) :: u64)"
    "ucast (x AND 0x3f) = (take_bit 6 (ucast x) :: u64)" "ucast (x AND 0x01fff) = (take_bit 13 (ucast x) :: u64)" "ucast (x AND 0x03ffff) = (take_bit 18 (ucast x) :: u64)"
    using m [of 7] m [of 4] m [of 5] m [of 6] m [of 13] m [of 18] by (simp_all add: mask_eq_exp_minus_1)
qed

definition pack :: "u32 \<Rightarrow> u32 \<Rightarrow> u32 \<Rightarrow> u32 \<Rightarrow> u32 \<Rightarrow> u32 \<Rightarrow> u32 \<Rightarrow> u32 \<Rightarrow> u64" where
  "pack y mo d h mi se no nn = push_bit 57 (ucast (y AND 0x7f)) OR push_bit 53 (ucast (mo AND 0x0f)) OR push_bit 48 (ucast (d AND 0x1f)) OR
          push_bit 43 (ucast (h AND 0x1f)) OR push_bit 37 (ucast (mi AND 0x3f)) OR push_bit 31 (ucast (se AND 0x3f)) OR
          push_bit 18 (ucast (no AND 0x01fff)) OR ucast (nn AND 0x03ffff)"

lemma number_pack:
  "uniqueNumId t uid tail = (pack (word_of_nat (tm_year t + 1900) mod 100) (word_of_nat (tm_mon t + 1)) (word_of_nat (tm_mday t)) (word_of_nat (tm_hour t))
     (word_of_nat (tm_min t)) (word_of_nat (tm_sec t)) (uid mod 8191) ((tail + 1) mod 0x03ffff), tail + 1)"
  by (simp only: uniqueNumId_def pack_def incrementAndGet_def addAndGet_def getAndAdd_def Let_def prod.case)

lemma field_of:
  fixes y mo d h mi se no nn :: u32
  defines "w \<equiv> pack y mo d h mi se no nn"
  shows "take_bit 7 (drop_bit 57 w) = take_bit 7 (ucast y)" "take_bit 4 (drop_bit 53 w) = take_bit 4 (ucast mo)" "take_bit 5 (drop_bit 48 w) = take_bit 5 (ucast d)"
    "take_bit 5 (drop_bit 43 w) = take_bit 5 (ucast h)" "take_bit 6 (drop_bit 37 w) = take_bit 6 (ucast mi)" "take_bit 6 (drop_bit 31 w) = take_bit 6 (ucast se)"
    "take_bit 18 (drop_bit 0 w) = take_bit 18 (ucast nn)"
proof -
  have p: "take_bit n x = push_bit 0 (take_bit n x)" for n and x :: u64 by simp
  have o: "take_bit a (drop_bit k (x OR y)) = take_bit a (drop_bit k x) OR take_bit a (drop_bit k y)" for a k and x y :: u64 by (simp add: drop_bit_or)
  have w: "w = push_bit 57 (take_bit 7 (ucast y)) OR push_bit 53 (take_bit 4 (ucast mo)) OR push_bit 48 (take_bit 5 (ucast d)) OR
          push_bit 43 (take_bit 5 (ucast h)) OR push_bit 37 (take_bit 6 (ucast mi)) OR push_bit 31 (take_bit 6 (ucast se)) OR
          push_bit 18 (take_bit 13 (ucast no)) OR push_bit 0 (take_bit 18 (ucast nn))"
    unfolding w_def pack_def field_masks by simp
  show "take_bit 7 (drop_bit 57 w) = take_bit 7 (ucast y)" "take_bit 4 (drop_bit 53 w) = take_bit 4 (ucast mo)" "take_bit 5 (drop_bit 48 w) = take_bit 5 (ucast d)"
    "take_bit 5 (drop_bit 43 w) = take_bit 5 (ucast h)" "take_bit 6 (drop_bit 37 w) = take_bit 6 (ucast mi)" "take_bit 6 (drop_bit 31 w) = take_bit 6 (ucast se)"
    "take_bit 18 (drop_bit 0 w) = take_bit 18 (ucast nn)"
    by (simp_all only: w o field_rules) (simp_all)
qed

section \<open>Numbers and times\<close>

text \<open>What \<open>localtime_r\<close> gives, leap seconds included.\<close>

definition date_ok :: "date \<Rightarrow> bool" where
  "date_ok t \<longleftrightarrow> tm_mon t < 12 \<and> tm_mday t \<le> 31 \<and> tm_hour t < 24 \<and> tm_min t < 60 \<and> tm_sec t \<le> 60 \<and> tm_year t < 10000"

definition same_second :: "date \<Rightarrow> date \<Rightarrow> bool" where
  "same_second t t' \<longleftrightarrow> tm_year t mod 100 = tm_year t' mod 100 \<and> tm_mon t = tm_mon t' \<and> tm_mday t = tm_mday t' \<and> tm_hour t = tm_hour t' \<and> tm_min t = tm_min t' \<and> tm_sec t = tm_sec t'"

text \<open>Numbers drawn one after the other in one second.\<close>

fun draw :: "date \<Rightarrow> u32 \<Rightarrow> nat \<Rightarrow> u32 \<Rightarrow> u64 list" where
  "draw t uid 0 tail = []"
| "draw t uid (Suc n) tail = (let (u, tail) = uniqueNumId t uid tail in u # draw t uid n tail)"

definition seq_no :: "u32 \<Rightarrow> nat" where
  "seq_no tail = (unat (tail + 1)) mod 0x3ffff"

lemma of_unat: "unat w = n \<Longrightarrow> w = word_of_nat n"
  by auto

lemma small_field: "n < 2 ^ k \<Longrightarrow> k \<le> 32 \<Longrightarrow> unat (take_bit k (ucast (word_of_nat n :: u32) :: u64)) = n"
proof -
  assume n: "n < 2 ^ k" "k \<le> 32"
  then have "n < 2 ^ 32" by (meson less_le_trans one_le_numeral power_increasing)
  then have "unat (ucast (word_of_nat n :: u32) :: u64) = n" by (simp add: unat_of_nat unsigned_ucast_eq take_bit_nat_eq_self)
  then show ?thesis using n by (simp add: unsigned_take_bit_eq take_bit_nat_eq_self)
qed

lemma number_fields:
  assumes "date_ok t"
  shows "unat (take_bit 7 (drop_bit 57 (fst (uniqueNumId t uid tail)))) = tm_year t mod 100" "unat (take_bit 4 (drop_bit 53 (fst (uniqueNumId t uid tail)))) = tm_mon t + 1"
    "unat (take_bit 5 (drop_bit 48 (fst (uniqueNumId t uid tail)))) = tm_mday t" "unat (take_bit 5 (drop_bit 43 (fst (uniqueNumId t uid tail)))) = tm_hour t"
    "unat (take_bit 6 (drop_bit 37 (fst (uniqueNumId t uid tail)))) = tm_min t" "unat (take_bit 6 (drop_bit 31 (fst (uniqueNumId t uid tail)))) = tm_sec t"
    "unat (take_bit 18 (drop_bit 0 (fst (uniqueNumId t uid tail)))) = seq_no tail"
proof -
  have y: "unat (word_of_nat (tm_year t + 1900) mod 100 :: u32) = tm_year t mod 100"
  proof -
    have "tm_year t + 1900 < 2 ^ LENGTH(32)" using assms by (simp add: date_ok_def)
    then have x: "unat (word_of_nat (tm_year t + 1900) :: u32) = tm_year t + 1900" by (rule of_nat_inverse [OF refl])
    have h: "unat (100 :: u32) = 100" by simp
    have "unat (word_of_nat (tm_year t + 1900) mod 100 :: u32) = (tm_year t + 1900) mod 100" by (simp only: unat_mod x h)
    moreover have "(tm_year t + 1900) mod 100 = tm_year t mod 100" using mod_mult_self1 [of "tm_year t" 19 100] by (simp del: mod_mult_self1 mod_mult_self1_is_0)
    ultimately show ?thesis by simp
  qed
  then have y2: "word_of_nat (tm_year t + 1900) mod 100 = (word_of_nat (tm_year t mod 100) :: u32)" by (rule of_unat)
  note f = field_of [of "word_of_nat (tm_year t + 1900) mod 100" "word_of_nat (tm_mon t + 1)" "word_of_nat (tm_mday t)" "word_of_nat (tm_hour t)" "word_of_nat (tm_min t)" "word_of_nat (tm_sec t)" "uid mod 8191" "(tail + 1) mod 0x03ffff"]
  have q: "unat ((tail + 1) mod 0x03ffff) = seq_no tail" unfolding unat_mod seq_no_def by simp
  then have q2: "(tail + 1) mod 0x03ffff = word_of_nat (seq_no tail)" by (rule of_unat)
  have n: "seq_no tail < 2 ^ 18" by (simp add: seq_no_def less_trans [OF mod_less_divisor])
  note number = number_pack [THEN arg_cong [of _ _ fst], unfolded fst_conv]
  show "unat (take_bit 7 (drop_bit 57 (fst (uniqueNumId t uid tail)))) = tm_year t mod 100" "unat (take_bit 4 (drop_bit 53 (fst (uniqueNumId t uid tail)))) = tm_mon t + 1"
    "unat (take_bit 5 (drop_bit 48 (fst (uniqueNumId t uid tail)))) = tm_mday t" "unat (take_bit 5 (drop_bit 43 (fst (uniqueNumId t uid tail)))) = tm_hour t"
    "unat (take_bit 6 (drop_bit 37 (fst (uniqueNumId t uid tail)))) = tm_min t" "unat (take_bit 6 (drop_bit 31 (fst (uniqueNumId t uid tail)))) = tm_sec t"
    "unat (take_bit 18 (drop_bit 0 (fst (uniqueNumId t uid tail)))) = seq_no tail"
    unfolding number f unfolding y2 q2 using assms n by (simp_all add: small_field date_ok_def del: of_nat_add of_nat_Suc)
qed

lemma same_number:
  assumes "date_ok t" "date_ok t'" "fst (uniqueNumId t uid a) = fst (uniqueNumId t' uid b)"
  shows "same_second t t' \<and> seq_no a = seq_no b"
  using number_fields [OF assms(1), of uid a] number_fields [OF assms(2), of uid b] assms(3) by (simp add: same_second_def)

lemma number_seq:
  assumes "date_ok t"
  shows "fst (uniqueNumId t uid a) = fst (uniqueNumId t uid b) \<longleftrightarrow> seq_no a = seq_no b"
proof
  have q: "(c + 1) mod 0x03ffff = (word_of_nat (seq_no c) :: u32)" for c
    by (rule of_unat) (simp add: seq_no_def unat_mod)
  assume "seq_no a = seq_no b"
  then show "fst (uniqueNumId t uid a) = fst (uniqueNumId t uid b)" unfolding number_pack q by simp
qed (use same_number [OF assms assms] in blast)

lemma draw_map: "draw t uid n a = map (\<lambda>i. fst (uniqueNumId t uid (a + word_of_nat i))) [0..<n]"
proof (induction n arbitrary: a)
  case (Suc n)
  have "draw t uid (Suc n) a = fst (uniqueNumId t uid a) # draw t uid n (a + 1)" by (simp add: number_pack)
  also have "\<dots> = map (\<lambda>i. fst (uniqueNumId t uid (a + word_of_nat i))) (0 # map Suc [0..<n])"
    unfolding Suc.IH by (simp add: comp_def add.assoc)
  finally show ?case by (simp only: map_Suc_upt upt_conv_Cons [OF zero_less_Suc])
qed simp

lemma seq_no_add: "unat a + i + 1 < 2 ^ 32 \<Longrightarrow> seq_no (a + word_of_nat i) = (unat a + 1 + i) mod 0x3ffff"
proof -
  assume "unat a + i + 1 < 2 ^ 32"
  moreover have "word_of_nat (unat a + 1 + i) = a + word_of_nat i + 1" by simp
  ultimately have "unat (a + word_of_nat i + 1) = unat a + 1 + i" by (intro of_nat_inverse) simp_all
  then show ?thesis by (simp add: seq_no_def)
qed

lemma distinct_residues: "distinct (map (\<lambda>i. (k + i) mod m) [0..<n]) \<longleftrightarrow> n \<le> m" if "0 < m" for k m n :: nat
proof -
  have "i = j" if "(k + i) mod m = (k + j) mod m" "i \<le> j" "j < m" for i j
  proof -
    have "m dvd (k + j) - (k + i)" using mod_eq_dvd_iff_nat [of "k + i" "k + j" m] that by simp
    then show ?thesis using that by (auto dest: dvd_imp_le)
  qed
  then have "n \<le> m \<Longrightarrow> inj_on (\<lambda>i. (k + i) mod m) {0..<n}" by (intro inj_onI) (metis (no_types) atLeastLessThan_iff le_less_trans less_le_trans nat_le_linear)
  moreover have "\<not> inj_on (\<lambda>i. (k + i) mod m) {0..<n}" if "m < n"
  proof
    assume "inj_on (\<lambda>i. (k + i) mod m) {0..<n}"
    moreover have "(k + 0) mod m = (k + m) mod m" by simp
    ultimately have "0 = m" using that by (intro inj_onD [of "\<lambda>i. (k + i) mod m" "{0..<n}" 0 m]) auto
    then show False using \<open>0 < m\<close> by simp
  qed
  ultimately show ?thesis unfolding distinct_map set_upt by (metis distinct_upt not_le)
qed



end
